(* ===== verification/Scheme_Prelude.thy ===== *)
theory Scheme_Prelude
  imports Main "HOL-Library.Word" "HOL-Library.Signed_Division" "HOL-Library.Monad_Syntax"
begin

text \<open>
  Shared vocabulary of the development: the machine types of the microcode on a 64-bit
  host (\<open>unsigned long\<close> and \<open>long\<close> are both 64 bits wide and are read through
  \<^const>\<open>uint\<close> and \<^const>\<open>sint\<close>), the C operations on \<open>long\<close> that HOL does not
  have (arithmetic right shift, division and remainder that truncate towards zero), the
  rules that turn word arithmetic into integer arithmetic when nothing overflows, and the
  value of a little-endian digit list in an arbitrary radix.
\<close>

unbundle bit_operations_syntax

section \<open>Machine types\<close>

type_synonym ulong = "64 word"
type_synonym long = "64 word"

text \<open>Rules that read a word operation as the integer operation it stands for.\<close>

named_theorems word_exact "integer readings of word operations that do not overflow"

section \<open>C operations on \<open>long\<close>\<close>

definition long_shr :: "long \<Rightarrow> nat \<Rightarrow> long" where
  "long_shr x n = signed_drop_bit n x"

definition long_div :: "long \<Rightarrow> long \<Rightarrow> long" where
  "long_div a b = word_of_int (sint a sdiv sint b)"

definition long_mod :: "long \<Rightarrow> long \<Rightarrow> long" where
  "long_mod a b = word_of_int (sint a smod sint b)"

abbreviation long_less :: "long \<Rightarrow> long \<Rightarrow> bool" where
  "long_less a b \<equiv> word_sless a b"

section \<open>Exact word arithmetic\<close>

lemma uint_bounds64: "0 \<le> uint (a :: 64 word)" "uint a < 2 ^ 64"
  using uint_lt2p [of a] by simp_all

lemma uint_vs_neg_numeral [simp]:
  "- numeral k \<le> uint (a :: 64 word)" "- numeral k < uint a"
  "\<not> uint a < - numeral k" "\<not> uint a \<le> - numeral k"
  using uint_bounds64(1) [of a] neg_numeral_less_zero [of k, where 'a = int] by linarith+

lemma uint_add_exact [word_exact]:
  "uint a + uint b < 2 ^ 64 \<Longrightarrow> uint (a + b) = uint a + uint (b :: 64 word)"
  using uint_add_lem [of a b] by simp

lemma uint_add3_exact:
  fixes a b c :: "64 word"
  assumes "uint a + uint b + uint c < 18446744073709551616"
  shows "uint (a + b + c) = uint a + uint b + uint c"
proof -
  have "0 \<le> uint c" by simp
  then have "uint a + uint b < 18446744073709551616" using assms by linarith
  then have "uint (a + b) = uint a + uint b" by (intro uint_add_exact) simp
  with assms show ?thesis by (simp add: uint_add_exact)
qed

lemma uint_add4_exact:
  fixes a b c d :: "64 word"
  assumes "uint a + uint b + uint c + uint d < 18446744073709551616"
  shows "uint (a + b + c + d) = uint a + uint b + uint c + uint d"
proof -
  have "0 \<le> uint d" by simp
  then have "uint (a + b + c) = uint a + uint b + uint c"
    using assms by (intro uint_add3_exact) linarith
  with assms show ?thesis by (simp add: uint_add_exact)
qed

lemma uint_mult_exact [word_exact]:
  "uint a * uint b < 2 ^ 64 \<Longrightarrow> uint (a * b) = uint a * uint (b :: 64 word)"
  using uint_mult_lem [of a b] by simp

lemma uint_sub_exact [word_exact]:
  "uint b \<le> uint a \<Longrightarrow> uint (a - b) = uint a - uint (b :: 64 word)"
  using uint_sub_lem [of b a] by simp

lemma sint_cases64:
  "sint (a :: 64 word) = (if uint a < 2 ^ 63 then uint a else uint a - 2 ^ 64)"
proof (cases "uint a < 2 ^ 63")
  case True
  then have "uint a div 2 ^ 63 = 0" by simp
  with True show ?thesis
    using uint_bounds64 [of a]
    by (simp add: sint_uint signed_take_bit_eq_take_bit_minus take_bit_int_eq_self bit_iff_odd)
next
  case False
  have "uint a div 2 ^ 63 = 1"
    by (rule int_div_pos_eq [where r = "uint a - 2 ^ 63"])
      (use False uint_bounds64 [of a] in simp_all)
  with False show ?thesis
    using uint_bounds64 [of a]
    by (simp add: sint_uint signed_take_bit_eq_take_bit_minus take_bit_int_eq_self bit_iff_odd)
qed

lemma sint_bounds64: "- (2 ^ 63) \<le> sint (a :: 64 word)" "sint a < 2 ^ 63"
  using uint_bounds64 [of a] by (auto simp: sint_cases64)

lemma sint_of_int64:
  assumes "- (2 ^ 63) \<le> k" "k < 2 ^ 63"
  shows "sint (word_of_int k :: 64 word) = k"
proof (cases "0 \<le> k")
  case True
  with assms show ?thesis by (simp add: sint_cases64 uint_word_of_int_eq take_bit_int_eq_self)
next
  case False
  have "take_bit 64 k = take_bit 64 (k + 2 ^ 64)" by (simp add: take_bit_eq_mod)
  also have "\<dots> = k + 2 ^ 64" using assms False by (intro take_bit_int_eq_self) simp_all
  finally show ?thesis using assms False by (simp add: sint_cases64 uint_word_of_int_eq)
qed

text \<open>Signed arithmetic is exact as long as the result fits in a \<open>long\<close>.\<close>

lemma sint_arith64:
  fixes a b :: "64 word"
  shows "- (2 ^ 63) \<le> sint a + sint b \<Longrightarrow> sint a + sint b < 2 ^ 63 \<Longrightarrow> sint (a + b) = sint a + sint b"
    and "- (2 ^ 63) \<le> sint a - sint b \<Longrightarrow> sint a - sint b < 2 ^ 63 \<Longrightarrow> sint (a - b) = sint a - sint b"
    and "- (2 ^ 63) < sint a \<Longrightarrow> sint (- a) = - sint a"
proof -
  have "a + b = word_of_int (sint a + sint b)" "a - b = word_of_int (sint a - sint b)"
    "- a = word_of_int (- sint a)"
    by simp_all
  then show "- (2 ^ 63) \<le> sint a + sint b \<Longrightarrow> sint a + sint b < 2 ^ 63 \<Longrightarrow> sint (a + b) = sint a + sint b"
    and "- (2 ^ 63) \<le> sint a - sint b \<Longrightarrow> sint a - sint b < 2 ^ 63 \<Longrightarrow> sint (a - b) = sint a - sint b"
    and "- (2 ^ 63) < sint a \<Longrightarrow> sint (- a) = - sint a"
    using sint_bounds64 [of a] by (simp_all only: sint_of_int64)
qed

lemma sint_0_iff: "sint (a :: 64 word) = 0 \<longleftrightarrow> a = 0"
  by (metis signed_0 of_int_0 of_int_sint scast_id)

lemma sint_eq_uint64: "uint (a :: 64 word) < 2 ^ 63 \<Longrightarrow> sint a = uint a"
  by (simp add: sint_cases64)

lemma uint_eq_sint64: "0 \<le> sint (a :: 64 word) \<Longrightarrow> uint a = sint a"
proof -
  assume "0 \<le> sint a"
  then have "uint a < 2 ^ 63"
    using uint_bounds64(2) [of a] unfolding sint_cases64 [of a] by (simp split: if_splits)
  then show ?thesis by (rule sint_eq_uint64 [symmetric])
qed

lemma unat_eq_sint64: "0 \<le> sint (a :: 64 word) \<Longrightarrow> unat a = nat (sint a)"
  by (simp only: unat_eq_nat_uint uint_eq_sint64)

lemma long_less_uint:
  "uint a < 2 ^ 63 \<Longrightarrow> uint b < 2 ^ 63 \<Longrightarrow> long_less a b \<longleftrightarrow> uint a < uint b"
  by (simp add: word_sless_alt sint_eq_uint64)

lemma long_less_0_iff: "long_less a 0 \<longleftrightarrow> 2 ^ 63 \<le> uint a"
  using uint_bounds64 [of a] by (simp add: word_sless_alt sint_cases64)

lemma long_diff_neg_iff:
  assumes "uint a < 2 ^ 63" "uint b < 2 ^ 63"
  shows "long_less (a - b) 0 \<longleftrightarrow> uint a < uint b"
proof (cases "uint b \<le> uint a")
  case True
  then have "uint (a - b) = uint a - uint b" by (rule uint_sub_exact)
  with True assms show ?thesis
    unfolding long_less_0_iff using uint_bounds64(1) [of b] by linarith
next
  case False
  then have "uint (a - b) = uint a - uint b + 2 ^ 64" by (simp add: uint_sub_if')
  moreover have "uint b < 2 ^ 63 + uint a" using assms uint_bounds64(1) [of a] by linarith
  ultimately show ?thesis using False by (simp add: long_less_0_iff)
qed

lemma uint_of_int64: "0 \<le> k \<Longrightarrow> k < 2 ^ 64 \<Longrightarrow> uint (word_of_int k :: 64 word) = k"
  by (simp add: uint_word_of_int_eq take_bit_int_eq_self)

lemma unat_of_nat64: "n < 2 ^ 64 \<Longrightarrow> unat (word_of_nat n :: 64 word) = n"
  by (simp add: unat_of_nat take_bit_nat_eq_self)

lemma uint_drop_bit64 [word_exact]: "uint (drop_bit n (a :: 64 word)) = uint a div 2 ^ n"
proof -
  have "uint (drop_bit n a) = drop_bit n (take_bit 64 (uint a))"
    by (rule unsigned_drop_bit_eq [where 'b = 64, simplified])
  then show ?thesis
    using uint_bounds64 [of a] by (simp only: take_bit_int_eq_self drop_bit_eq_div)
qed

lemma uint_push_bit_exact [word_exact]:
  assumes "uint a * 2 ^ n < 2 ^ 64"
  shows "uint (push_bit n (a :: 64 word)) = uint a * 2 ^ n"
proof -
  have "uint (push_bit n a) = take_bit 64 (uint a * 2 ^ n)"
    using unsigned_push_bit_eq [of n a, where 'a = int] by (simp only: push_bit_eq_mult) simp
  then show ?thesis using assms by (simp add: take_bit_int_eq_self)
qed

lemma uint_long_shr [word_exact]:
  assumes "uint a < 2 ^ 63"
  shows "uint (long_shr a n) = uint a div 2 ^ n"
proof -
  have d: "0 \<le> uint a div 2 ^ n" "uint a div 2 ^ n \<le> uint a"
    using uint_bounds64(1) [of a] zdiv_mono2 [of "uint a" 1 "2 ^ n"]
    by (simp_all add: pos_imp_zdiv_nonneg_iff)
  have "sint (long_shr a n) = uint a div 2 ^ n"
    using assms by (simp add: long_shr_def sint_signed_drop_bit_eq sint_eq_uint64 drop_bit_eq_div)
  then show ?thesis
    using d assms uint_bounds64 [of "long_shr a n"] by (simp add: sint_cases64 split: if_splits)
qed

lemma int_div_bounds:
  fixes a b :: int
  assumes "0 \<le> a" "0 \<le> b"
  shows "0 \<le> a div b" "a div b \<le> a" "0 \<le> a mod b" "a mod b \<le> a"
proof -
  show "0 \<le> a div b" using assms by (cases "b = 0") (simp_all add: pos_imp_zdiv_nonneg_iff)
  then have "0 \<le> a div b * b" using assms by simp
  then show "a mod b \<le> a" using div_mult_mod_eq [of a b] by linarith
  show "0 \<le> a mod b" using assms by (cases "b = 0") simp_all
  show "a div b \<le> a"
    using assms zdiv_mono2 [of a 1 b] by (cases "b = 0") simp_all
qed

lemma int_div_less: "(0 :: int) < b \<Longrightarrow> a < b * c \<Longrightarrow> a div b < c"
proof -
  assume b: "0 < b" "a < b * c"
  then have "b * (a div b) < b * c"
    using mult_div_mod_eq [of b a] pos_mod_sign [of b a] by linarith
  with b(1) show ?thesis by (simp add: mult_less_cancel_left_pos)
qed

lemma le_divI: "(0 :: int) < v \<Longrightarrow> q * v \<le> n \<Longrightarrow> q \<le> n div v"
  using zdiv_mono1 [of "q * v" n v] by simp

lemma scaled_div_mod: "(q :: int) * v = q * (v mod q) + q * q * (v div q)"
proof -
  have "q * v = q * (q * (v div q) + v mod q)" by simp
  then show ?thesis by (simp only: distrib_left mult.assoc add.commute)
qed

lemma uint_long_div [word_exact]:
  assumes "uint a < 2 ^ 63" "uint b < 2 ^ 63"
  shows "uint (long_div a b) = uint a div uint b"
proof -
  note q = int_div_bounds [OF uint_bounds64(1) [of a] uint_bounds64(1) [of b]]
  have "sint a sdiv sint b = uint a div uint b"
    using assms by (cases "a = 0"; cases "b = 0")
      (simp_all add: sint_eq_uint64 signed_divide_int_def)
  then show ?thesis
    unfolding long_div_def using q assms by (simp add: uint_of_int64)
qed

lemma uint_long_mod [word_exact]:
  assumes "uint a < 2 ^ 63" "uint b < 2 ^ 63"
  shows "uint (long_mod a b) = uint a mod uint b"
proof -
  note q = int_div_bounds [OF uint_bounds64(1) [of a] uint_bounds64(1) [of b]]
  have "sint a smod sint b = uint a mod uint b"
    using assms by (cases "a = 0")
      (simp_all add: sint_eq_uint64 signed_modulo_int_def signed_divide_int_def
        minus_div_mult_eq_mod)
  then show ?thesis
    unfolding long_mod_def using q assms by (simp add: uint_of_int64)
qed

lemma smod_int: "(a :: int) smod b = sgn a * (\<bar>a\<bar> mod \<bar>b\<bar>)"
  by (simp add: signed_modulo_int_def signed_divide_int_def minus_div_mult_eq_mod [symmetric]
      algebra_simps sgn_mult_abs abs_mult_sgn)

lemma sdiv_int_cases:
  fixes a b :: int
  assumes "b \<noteq> 0"
  shows "a sdiv b = (if (a < 0) = (b < 0) then \<bar>a\<bar> div \<bar>b\<bar> else - (\<bar>a\<bar> div \<bar>b\<bar>))"
    and "a smod b = (if a < 0 then - (\<bar>a\<bar> mod \<bar>b\<bar>) else \<bar>a\<bar> mod \<bar>b\<bar>)"
  using assms by (auto simp: signed_divide_int_def smod_int sgn_if)

lemma sint_long_mod:
  assumes "b \<noteq> 0"
  shows "sint (long_mod a b) = sint a smod sint b" "\<bar>sint a smod sint b\<bar> < \<bar>sint b\<bar>"
proof -
  have b: "sint b \<noteq> 0" using assms by (simp add: sint_0_iff)
  have m: "0 \<le> \<bar>sint a\<bar> mod \<bar>sint b\<bar>" "\<bar>sint a\<bar> mod \<bar>sint b\<bar> < \<bar>sint b\<bar>" using b by simp_all
  show l: "\<bar>sint a smod sint b\<bar> < \<bar>sint b\<bar>" using m b by (simp add: smod_int abs_mult abs_sgn_eq)
  show "sint (long_mod a b) = sint a smod sint b"
    unfolding long_mod_def using l sint_bounds64 [of b] by (intro sint_of_int64) linarith+
qed

lemma uint_and_mask64 [word_exact]: "uint (a AND mask n :: 64 word) = uint a mod 2 ^ n"
proof -
  have "uint (a AND mask n) = take_bit n (uint a)"
    unfolding take_bit_eq_mask [symmetric] unsigned_take_bit_eq [where 'a = int] ..
  then show ?thesis by (simp only: take_bit_eq_mod)
qed

lemma or_eq_add_int:
  fixes h l :: int
  assumes "0 \<le> l" "l < 2 ^ n" "2 ^ n dvd h"
  shows "h OR l = h + l"
proof -
  obtain k where k: "h = push_bit n k"
    using assms(3) by (auto simp: push_bit_eq_mult mult.commute)
  have "l = take_bit n l" using assms(1,2) by (simp add: take_bit_int_eq_self)
  then have "\<not> bit h i \<or> \<not> bit l i" for i
    by (metis k bit_push_bit_iff bit_take_bit_iff linorder_not_le)
  then show ?thesis by (rule disjunctive_add [symmetric])
qed

lemma uint_or_disjoint:
  assumes "uint l < 2 ^ n" "2 ^ n dvd uint h"
  shows "uint (h OR l :: 64 word) = uint h + uint l"
  using assms uint_bounds64(1) [of l] by (simp add: uint_or or_eq_add_int)

lemma uint_and_not_mask64 [word_exact]:
  "uint (a AND NOT (mask n) :: 64 word) = uint a div 2 ^ n * 2 ^ n"
proof -
  have "a AND NOT (mask n) = push_bit n (drop_bit n a)"
    by (rule bit_eqI) (auto simp: bit_simps)
  moreover have "uint a div 2 ^ n * 2 ^ n \<le> uint a"
    using uint_bounds64(1) [of a] by (simp add: minus_mod_eq_div_mult [symmetric])
  then have "uint (push_bit n (drop_bit n a)) = uint a div 2 ^ n * 2 ^ n"
    using uint_bounds64 [of a] by (simp only: uint_drop_bit64 uint_push_bit_exact)
  ultimately show ?thesis by simp
qed

lemma xor_exp_int:
  fixes k :: int
  shows "k XOR 2 ^ n = (if odd (k div 2 ^ n) then k - 2 ^ n else k + 2 ^ n)"
proof -
  have "k XOR 2 ^ n = flip_bit n k" by (simp add: flip_bit_int_def push_bit_eq_mult)
  then show ?thesis
    by (simp add: flip_bit_eq_if set_bit_eq unset_bit_eq bit_iff_odd)
qed

section \<open>Positional notation\<close>

text \<open>
  The value of a little-endian digit list. The bignum code uses it at two radices: the
  digit radix \<open>BIGNUM_RADIX\<close> and its square root, the half-digit radix.
\<close>

primrec radix_val :: "int \<Rightarrow> int list \<Rightarrow> int" where
  "radix_val B [] = 0"
| "radix_val B (d # ds) = d + B * radix_val B ds"

definition radix_ok :: "int \<Rightarrow> int list \<Rightarrow> bool" where
  "radix_ok B ds \<longleftrightarrow> list_all (\<lambda>d. 0 \<le> d \<and> d < B) ds"

lemma radix_ok_simps [simp]:
  "radix_ok B []"
  "radix_ok B (d # ds) \<longleftrightarrow> 0 \<le> d \<and> d < B \<and> radix_ok B ds"
  "radix_ok B (xs @ ys) \<longleftrightarrow> radix_ok B xs \<and> radix_ok B ys"
  by (auto simp: radix_ok_def)

lemma radix_val_append:
  "radix_val B (xs @ ys) = radix_val B xs + B ^ length xs * radix_val B ys"
  by (induction xs) (simp_all add: algebra_simps)

lemma radix_val_replicate_0 [simp]: "radix_val B (replicate n 0) = 0"
  by (induction n) simp_all

locale radix_system =
  fixes B :: int
  assumes radix_gt_1: "1 < B"
begin

lemma val_nonneg: "radix_ok B ds \<Longrightarrow> 0 \<le> radix_val B ds"
  using radix_gt_1 by (induction ds) auto

lemma val_less: "radix_ok B ds \<Longrightarrow> radix_val B ds < B ^ length ds"
proof (induction ds)
  case (Cons d ds)
  then have "radix_val B ds + 1 \<le> B ^ length ds" and "d < B" by auto
  then have "B * (radix_val B ds + 1) \<le> B * B ^ length ds"
    using radix_gt_1 by (intro mult_left_mono) auto
  with \<open>d < B\<close> show ?case by (simp add: algebra_simps)
qed simp

lemma val_lower: "radix_ok B ds \<Longrightarrow> ds \<noteq> [] \<Longrightarrow> 1 \<le> last ds \<Longrightarrow> B ^ (length ds - 1) \<le> radix_val B ds"
proof (induction ds rule: rev_induct)
  case (snoc d ds)
  then have "B ^ length ds * 1 \<le> B ^ length ds * d"
    using radix_gt_1 by (intro mult_left_mono) auto
  moreover have "0 \<le> radix_val B ds" using snoc.prems by (intro val_nonneg) simp
  ultimately show ?case by (simp add: radix_val_append)
qed simp

lemma val_eq_0_iff: "radix_ok B ds \<Longrightarrow> radix_val B ds = 0 \<longleftrightarrow> list_all (\<lambda>d. d = 0) ds"
proof (induction ds)
  case (Cons d ds)
  then have "0 \<le> radix_val B ds" "0 \<le> d" using val_nonneg by auto
  then have "d + B * radix_val B ds = 0 \<longleftrightarrow> d = 0 \<and> radix_val B ds = 0"
    using radix_gt_1 by (auto simp: add_nonneg_eq_0_iff)
  with Cons show ?case by auto
qed simp

lemma val_inj:
  "length xs = length ys \<Longrightarrow> radix_ok B xs \<Longrightarrow> radix_ok B ys \<Longrightarrow>
   radix_val B xs = radix_val B ys \<Longrightarrow> xs = ys"
proof (induction xs ys rule: list_induct2)
  case (Cons x xs y ys)
  have "x + B * radix_val B xs = y + B * radix_val B ys" using Cons.prems by simp
  then have "(x + B * radix_val B xs) mod B = (y + B * radix_val B ys) mod B" by simp
  then have "x = y" using Cons.prems(1,2) by simp
  with Cons radix_gt_1 show ?case by auto
qed simp

lemma val_less_by_length:
  assumes "radix_ok B xs" "radix_ok B ys" "length xs < length ys" "1 \<le> last ys"
  shows "radix_val B xs < radix_val B ys"
proof -
  have "radix_val B xs < B ^ length xs" using assms(1) by (rule val_less)
  also have "\<dots> \<le> B ^ (length ys - 1)"
    using assms(3) radix_gt_1 by (intro power_increasing) auto
  also have "\<dots> \<le> radix_val B ys" using assms by (intro val_lower) auto
  finally show ?thesis .
qed

lemma val_snoc_less:
  assumes "radix_ok B xs" "radix_ok B ys" "length xs = length ys" "x < y"
  shows "radix_val B (xs @ [x]) < radix_val B (ys @ [y])"
proof -
  have "B ^ length xs * (x + 1) \<le> B ^ length xs * y"
    using assms(4) radix_gt_1 by (intro mult_left_mono) auto
  with val_less [OF assms(1)] val_nonneg [OF assms(2)] assms(3) show ?thesis
    by (simp add: radix_val_append algebra_simps)
qed

end

end
