(* ===== verification/Scheme_Object.thy ===== *)
theory Scheme_Object
  imports Scheme_Prelude
begin

text \<open>
  The representation of Scheme objects (\<open>microcode/object.h\<close>, \<open>microcode/types.h\<close>): a
  64-bit word whose high 6 bits are the type code and whose low 58 bits are the datum.
  The theory holds the type codes, the tagging operations, the conversions between
  fixnum objects and machine integers, and the character objects. The lemmas show that
  tagging and untagging are inverse, that the fixnum conversions are exact on their
  documented ranges, and that the range tests accept exactly those ranges.
\<close>

section \<open>Type codes\<close>

definition TC_FALSE :: ulong where [simp]: "TC_FALSE = 0x00"
definition TC_LIST :: ulong where [simp]: "TC_LIST = 0x01"
definition TC_CHARACTER :: ulong where [simp]: "TC_CHARACTER = 0x02"
definition TC_SCODE_QUOTE :: ulong where [simp]: "TC_SCODE_QUOTE = 0x03"
definition TC_COMPILED_RETURN :: ulong where [simp]: "TC_COMPILED_RETURN = 0x04"
definition TC_UNINTERNED_SYMBOL :: ulong where [simp]: "TC_UNINTERNED_SYMBOL = 0x05"
definition TC_BIG_FLONUM :: ulong where [simp]: "TC_BIG_FLONUM = 0x06"
definition TC_CONSTANT :: ulong where [simp]: "TC_CONSTANT = 0x08"
definition TC_EXTENDED_PROCEDURE :: ulong where [simp]: "TC_EXTENDED_PROCEDURE = 0x09"
definition TC_VECTOR :: ulong where [simp]: "TC_VECTOR = 0x0A"
definition TC_RETURN_CODE :: ulong where [simp]: "TC_RETURN_CODE = 0x0B"
definition TC_MANIFEST_CLOSURE :: ulong where [simp]: "TC_MANIFEST_CLOSURE = 0x0D"
definition TC_BIG_FIXNUM :: ulong where [simp]: "TC_BIG_FIXNUM = 0x0E"
definition TC_PROCEDURE :: ulong where [simp]: "TC_PROCEDURE = 0x0F"
definition TC_ENTITY :: ulong where [simp]: "TC_ENTITY = 0x10"
definition TC_DELAY :: ulong where [simp]: "TC_DELAY = 0x11"
definition TC_ENVIRONMENT :: ulong where [simp]: "TC_ENVIRONMENT = 0x12"
definition TC_DELAYED :: ulong where [simp]: "TC_DELAYED = 0x13"
definition TC_EXTENDED_LAMBDA :: ulong where [simp]: "TC_EXTENDED_LAMBDA = 0x14"
definition TC_COMMENT :: ulong where [simp]: "TC_COMMENT = 0x15"
definition TC_NON_MARKED_VECTOR :: ulong where [simp]: "TC_NON_MARKED_VECTOR = 0x16"
definition TC_LAMBDA :: ulong where [simp]: "TC_LAMBDA = 0x17"
definition TC_PRIMITIVE :: ulong where [simp]: "TC_PRIMITIVE = 0x18"
definition TC_SEQUENCE :: ulong where [simp]: "TC_SEQUENCE = 0x19"
definition TC_FIXNUM :: ulong where [simp]: "TC_FIXNUM = 0x1A"
definition TC_UNICODE_STRING :: ulong where [simp]: "TC_UNICODE_STRING = 0x1B"
definition TC_CONTROL_POINT :: ulong where [simp]: "TC_CONTROL_POINT = 0x1C"
definition TC_INTERNED_SYMBOL :: ulong where [simp]: "TC_INTERNED_SYMBOL = 0x1D"
definition TC_CHARACTER_STRING :: ulong where [simp]: "TC_CHARACTER_STRING = 0x1E"
definition TC_ACCESS :: ulong where [simp]: "TC_ACCESS = 0x1F"
definition TC_HUNK3_A :: ulong where [simp]: "TC_HUNK3_A = 0x20"
definition TC_DEFINITION :: ulong where [simp]: "TC_DEFINITION = 0x21"
definition TC_BROKEN_HEART :: ulong where [simp]: "TC_BROKEN_HEART = 0x22"
definition TC_ASSIGNMENT :: ulong where [simp]: "TC_ASSIGNMENT = 0x23"
definition TC_HUNK3_B :: ulong where [simp]: "TC_HUNK3_B = 0x24"
definition TC_TAGGED_OBJECT :: ulong where [simp]: "TC_TAGGED_OBJECT = 0x25"
definition TC_COMBINATION :: ulong where [simp]: "TC_COMBINATION = 0x26"
definition TC_MANIFEST_NM_VECTOR :: ulong where [simp]: "TC_MANIFEST_NM_VECTOR = 0x27"
definition TC_COMPILED_ENTRY :: ulong where [simp]: "TC_COMPILED_ENTRY = 0x28"
definition TC_LEXPR :: ulong where [simp]: "TC_LEXPR = 0x29"
definition TC_EPHEMERON :: ulong where [simp]: "TC_EPHEMERON = 0x2B"
definition TC_VARIABLE :: ulong where [simp]: "TC_VARIABLE = 0x2C"
definition TC_THE_ENVIRONMENT :: ulong where [simp]: "TC_THE_ENVIRONMENT = 0x2D"
definition TC_SYNTAX_ERROR :: ulong where [simp]: "TC_SYNTAX_ERROR = 0x2E"
definition TC_VECTOR_1B :: ulong where [simp]: "TC_VECTOR_1B = 0x2F"
definition TC_VECTOR_16B :: ulong where [simp]: "TC_VECTOR_16B = 0x31"
definition TC_REFERENCE_TRAP :: ulong where [simp]: "TC_REFERENCE_TRAP = 0x32"
definition TC_BYTEVECTOR :: ulong where [simp]: "TC_BYTEVECTOR = 0x33"
definition TC_CONDITIONAL :: ulong where [simp]: "TC_CONDITIONAL = 0x34"
definition TC_DISJUNCTION :: ulong where [simp]: "TC_DISJUNCTION = 0x35"
definition TC_CELL :: ulong where [simp]: "TC_CELL = 0x36"
definition TC_WEAK_CONS :: ulong where [simp]: "TC_WEAK_CONS = 0x37"
definition TC_QUAD :: ulong where [simp]: "TC_QUAD = 0x38"
definition TC_LINKAGE_SECTION :: ulong where [simp]: "TC_LINKAGE_SECTION = 0x39"
definition TC_RATNUM :: ulong where [simp]: "TC_RATNUM = 0x3A"
definition TC_STACK_ENVIRONMENT :: ulong where [simp]: "TC_STACK_ENVIRONMENT = 0x3B"
definition TC_COMPLEX :: ulong where [simp]: "TC_COMPLEX = 0x3C"
definition TC_COMPILED_CODE_BLOCK :: ulong where [simp]: "TC_COMPILED_CODE_BLOCK = 0x3D"
definition TC_RECORD :: ulong where [simp]: "TC_RECORD = 0x3E"

definition TC_MANIFEST_VECTOR :: ulong where [simp]: "TC_MANIFEST_VECTOR = TC_FALSE"
definition UNMARKED_HISTORY_TYPE :: ulong where [simp]: "UNMARKED_HISTORY_TYPE = TC_HUNK3_A"

section \<open>Words, tags and data\<close>

definition TYPE_CODE_LENGTH :: nat where [simp]: "TYPE_CODE_LENGTH = 6"
definition DATUM_LENGTH :: nat where [simp]: "DATUM_LENGTH = 58"
definition DATUM_MASK :: ulong where [simp]: "DATUM_MASK = 0x03FFFFFFFFFFFFFF"
definition FIXNUM_LENGTH :: nat where [simp]: "FIXNUM_LENGTH = 57"
definition FIXNUM_SIGN_BIT :: ulong where [simp]: "FIXNUM_SIGN_BIT = 0x0200000000000000"
definition SIGN_MASK :: ulong where [simp]: "SIGN_MASK = 0xFE00000000000000"
definition SMALLEST_FIXNUM :: int where [simp]: "SMALLEST_FIXNUM = -144115188075855872"
definition BIGGEST_FIXNUM :: int where [simp]: "BIGGEST_FIXNUM = 144115188075855871"

definition OBJECT_TYPE :: "ulong \<Rightarrow> ulong" where
  "OBJECT_TYPE object = drop_bit DATUM_LENGTH object"

definition OBJECT_DATUM :: "ulong \<Rightarrow> ulong" where
  "OBJECT_DATUM object = object AND DATUM_MASK"

definition MAKE_OBJECT :: "ulong \<Rightarrow> ulong \<Rightarrow> ulong" where
  "MAKE_OBJECT ty datum = push_bit DATUM_LENGTH ty OR datum"

definition OBJECT_NEW_TYPE :: "ulong \<Rightarrow> ulong \<Rightarrow> ulong" where
  "OBJECT_NEW_TYPE ty datum_object = MAKE_OBJECT ty (OBJECT_DATUM datum_object)"

definition OBJECT_NEW_DATUM :: "ulong \<Rightarrow> ulong \<Rightarrow> ulong" where
  "OBJECT_NEW_DATUM type_object datum = MAKE_OBJECT (OBJECT_TYPE type_object) datum"

definition MAKE_OBJECT_FROM_OBJECTS :: "ulong \<Rightarrow> ulong \<Rightarrow> ulong" where
  "MAKE_OBJECT_FROM_OBJECTS type_object datum_object =
     MAKE_OBJECT (OBJECT_TYPE type_object) (OBJECT_DATUM datum_object)"

definition SHARP_F :: ulong where "SHARP_F = MAKE_OBJECT TC_FALSE 0"
definition SHARP_T :: ulong where "SHARP_T = MAKE_OBJECT TC_CONSTANT 0"
definition UNSPECIFIC :: ulong where "UNSPECIFIC = MAKE_OBJECT TC_CONSTANT 1"
definition DEFAULT_OBJECT :: ulong where "DEFAULT_OBJECT = MAKE_OBJECT TC_CONSTANT 7"
definition EMPTY_LIST :: ulong where "EMPTY_LIST = MAKE_OBJECT TC_CONSTANT 9"
definition GC_RECLAIMED :: ulong where "GC_RECLAIMED = MAKE_OBJECT TC_CONSTANT 10"
definition REFERENCE_TRAP_P :: "ulong \<Rightarrow> bool" where "REFERENCE_TRAP_P x = (OBJECT_TYPE x = TC_REFERENCE_TRAP)"
definition TRAP_MAX_IMMEDIATE :: ulong where "TRAP_MAX_IMMEDIATE = 9"

definition BOOLEAN_TO_OBJECT :: "bool \<Rightarrow> ulong" where
  "BOOLEAN_TO_OBJECT expression = (if expression then SHARP_T else SHARP_F)"

definition OBJECT_TO_BOOLEAN :: "ulong \<Rightarrow> bool" where
  "OBJECT_TO_BOOLEAN object = (object \<noteq> SHARP_F)"

definition BYTES_TO_WORDS :: "nat \<Rightarrow> nat" where
  "BYTES_TO_WORDS nbytes = (nbytes + (8 - 1)) div 8"

section \<open>Fixnums\<close>

definition FIXNUM_P :: "ulong \<Rightarrow> bool" where
  "FIXNUM_P object = (OBJECT_TYPE object = TC_FIXNUM)"

definition FIXNUM_ZERO_P :: "ulong \<Rightarrow> bool" where
  "FIXNUM_ZERO_P fixnum = (OBJECT_DATUM fixnum = 0)"

definition FIXNUM_NEGATIVE_P :: "ulong \<Rightarrow> bool" where
  "FIXNUM_NEGATIVE_P fixnum = (fixnum AND FIXNUM_SIGN_BIT \<noteq> 0)"

definition FIXNUM_POSITIVE_P :: "ulong \<Rightarrow> bool" where
  "FIXNUM_POSITIVE_P fixnum = (\<not> (FIXNUM_ZERO_P fixnum \<or> FIXNUM_NEGATIVE_P fixnum))"

definition UNSIGNED_FIXNUM_P :: "ulong \<Rightarrow> bool" where
  "UNSIGNED_FIXNUM_P x = (FIXNUM_P x \<and> \<not> FIXNUM_NEGATIVE_P x)"

definition FIXNUM_EQUAL_P :: "ulong \<Rightarrow> ulong \<Rightarrow> bool" where
  "FIXNUM_EQUAL_P x y = (OBJECT_DATUM x = OBJECT_DATUM y)"

definition FIXNUM_TO_LONG :: "ulong \<Rightarrow> long" where
  "FIXNUM_TO_LONG fixnum =
     (fixnum XOR FIXNUM_SIGN_BIT) - (push_bit DATUM_LENGTH TC_FIXNUM OR FIXNUM_SIGN_BIT)"

definition FIXNUM_LESS_P :: "ulong \<Rightarrow> ulong \<Rightarrow> bool" where
  "FIXNUM_LESS_P x y = long_less (FIXNUM_TO_LONG x) (FIXNUM_TO_LONG y)"

definition LONG_TO_UNSIGNED_FIXNUM :: "long \<Rightarrow> ulong" where
  "LONG_TO_UNSIGNED_FIXNUM n = MAKE_OBJECT TC_FIXNUM n"

definition LONG_TO_FIXNUM_P :: "long \<Rightarrow> bool" where
  "LONG_TO_FIXNUM_P n = (n AND SIGN_MASK = 0 \<or> n AND SIGN_MASK = SIGN_MASK)"

definition LONG_TO_FIXNUM :: "long \<Rightarrow> ulong" where
  "LONG_TO_FIXNUM n = MAKE_OBJECT TC_FIXNUM (n AND DATUM_MASK)"

definition ULONG_TO_FIXNUM_P :: "ulong \<Rightarrow> bool" where
  "ULONG_TO_FIXNUM_P n = (n AND SIGN_MASK = 0)"

definition ULONG_TO_FIXNUM :: "ulong \<Rightarrow> ulong" where
  "ULONG_TO_FIXNUM n = MAKE_OBJECT TC_FIXNUM n"

section \<open>Characters\<close>

definition CODE_LENGTH :: nat where [simp]: "CODE_LENGTH = 21"
definition BITS_LENGTH :: nat where [simp]: "BITS_LENGTH = 4"
definition CHAR_MASK_CODE :: ulong where [simp]: "CHAR_MASK_CODE = push_bit CODE_LENGTH 1 - 1"
definition CHAR_MASK_BITS :: ulong where [simp]: "CHAR_MASK_BITS = push_bit BITS_LENGTH 1 - 1"

definition MAKE_CHAR :: "ulong \<Rightarrow> ulong \<Rightarrow> ulong" where
  "MAKE_CHAR bits code = MAKE_OBJECT TC_CHARACTER (push_bit CODE_LENGTH bits OR code)"

definition CHAR_BITS :: "ulong \<Rightarrow> ulong" where
  "CHAR_BITS c = drop_bit CODE_LENGTH (OBJECT_DATUM c) AND CHAR_MASK_BITS"

definition CHAR_CODE :: "ulong \<Rightarrow> ulong" where
  "CHAR_CODE c = OBJECT_DATUM c AND CHAR_MASK_CODE"

section \<open>Reading tags and data as integers\<close>

lemma DATUM_MASK_eq: "DATUM_MASK = mask 58"
  by (simp add: mask_eq_exp_minus_1)

lemma SIGN_MASK_eq: "SIGN_MASK = NOT (mask 57)"
  by (simp add: mask_eq_exp_minus_1)

lemma uint_OBJECT_TYPE [word_exact]: "uint (OBJECT_TYPE x) = uint x div 2 ^ 58"
  by (simp only: OBJECT_TYPE_def DATUM_LENGTH_def uint_drop_bit64)

lemma uint_OBJECT_DATUM [word_exact]: "uint (OBJECT_DATUM x) = uint x mod 2 ^ 58"
  by (simp only: OBJECT_DATUM_def DATUM_MASK_eq uint_and_mask64)

lemma uint_MAKE_OBJECT [word_exact]:
  assumes "uint t < 2 ^ 6" "uint d < 2 ^ 58"
  shows "uint (MAKE_OBJECT t d) = uint t * 2 ^ 58 + uint d"
proof -
  have "uint (push_bit 58 t) = uint t * 2 ^ 58"
    using assms(1) by (intro uint_push_bit_exact) simp
  then show ?thesis
    using assms(2) by (simp add: MAKE_OBJECT_def uint_or_disjoint [where n = 58])
qed

lemma OBJECT_TYPE_MAKE_OBJECT [simp]:
  "uint t < 2 ^ 6 \<Longrightarrow> uint d < 2 ^ 58 \<Longrightarrow> OBJECT_TYPE (MAKE_OBJECT t d) = t"
  by (simp add: word_uint_eq_iff uint_OBJECT_TYPE uint_MAKE_OBJECT)

lemma OBJECT_DATUM_MAKE_OBJECT [simp]:
  "uint t < 2 ^ 6 \<Longrightarrow> uint d < 2 ^ 58 \<Longrightarrow> OBJECT_DATUM (MAKE_OBJECT t d) = d"
  by (simp add: word_uint_eq_iff uint_OBJECT_DATUM uint_MAKE_OBJECT)

lemma OBJECT_TYPE_bound: "uint (OBJECT_TYPE x) < 2 ^ 6"
  using uint_bounds64 [of x] by (simp add: uint_OBJECT_TYPE)

lemma OBJECT_DATUM_bound: "uint (OBJECT_DATUM x) < 2 ^ 58"
  by (simp add: uint_OBJECT_DATUM)

lemmas OBJECT_bounds_num =
  OBJECT_TYPE_bound [simplified] OBJECT_DATUM_bound [simplified]

lemma MAKE_OBJECT_collapse: "MAKE_OBJECT (OBJECT_TYPE x) (OBJECT_DATUM x) = x"
  using OBJECT_TYPE_bound [of x] OBJECT_DATUM_bound [of x]
  by (simp only: word_uint_eq_iff uint_MAKE_OBJECT)
    (simp add: uint_OBJECT_TYPE uint_OBJECT_DATUM)

section \<open>Fixnum conversions\<close>

lemma FIXNUM_P_iff: "FIXNUM_P x \<longleftrightarrow> uint x div 2 ^ 58 = 26"
  by (simp add: FIXNUM_P_def word_uint_eq_iff uint_OBJECT_TYPE)

lemma FIXNUM_P_uint: "FIXNUM_P x \<Longrightarrow> uint x = 26 * 2 ^ 58 + uint (OBJECT_DATUM x)"
  using mult_div_mod_eq [of "2 ^ 58" "uint x"]
  by (simp add: FIXNUM_P_iff uint_OBJECT_DATUM)

text \<open>The integer a fixnum object denotes.\<close>

definition fixnum_int :: "ulong \<Rightarrow> int" where
  "fixnum_int x = (let d = uint (OBJECT_DATUM x) in if d < 2 ^ 57 then d else d - 2 ^ 58)"

lemma fixnum_int_range: "SMALLEST_FIXNUM \<le> fixnum_int x" "fixnum_int x \<le> BIGGEST_FIXNUM"
  using OBJECT_DATUM_bound [of x] uint_bounds64(1) [of "OBJECT_DATUM x"]
  by (auto simp: fixnum_int_def Let_def)

lemma fixnum_sign_bit:
  assumes "FIXNUM_P x"
  shows "odd (uint x div 2 ^ 57) \<longleftrightarrow> \<not> uint (OBJECT_DATUM x) < 2 ^ 57"
proof -
  define d where "d = uint (OBJECT_DATUM x)"
  have d: "0 \<le> d" "d < 2 ^ 58" and u: "uint x = 26 * 2 ^ 58 + d"
    using OBJECT_DATUM_bound [of x] FIXNUM_P_uint [OF assms] by (auto simp: d_def)
  have q: "uint x div 2 ^ 57 = 52 + d div 2 ^ 57"
    using u by simp
  show ?thesis
  proof (cases "d < 2 ^ 57")
    case True
    with d q show ?thesis by (simp add: d_def [symmetric])
  next
    case False
    then have "d div 2 ^ 57 = 1"
      using d by (intro int_div_pos_eq [where r = "d - 2 ^ 57"]) simp_all
    with False q show ?thesis by (simp add: d_def [symmetric])
  qed
qed

lemma sint_FIXNUM_TO_LONG:
  assumes "FIXNUM_P x"
  shows "sint (FIXNUM_TO_LONG x) = fixnum_int x"
proof -
  define d where "d = uint (OBJECT_DATUM x)"
  have d: "0 \<le> d" "d < 2 ^ 58" and u: "uint x = 26 * 2 ^ 58 + d"
    using OBJECT_DATUM_bound [of x] FIXNUM_P_uint [OF assms] by (auto simp: d_def)
  have od: "odd (uint x div 2 ^ 57) \<longleftrightarrow> \<not> d < 2 ^ 57"
    unfolding d_def using assms by (rule fixnum_sign_bit)
  have x1: "uint (x XOR FIXNUM_SIGN_BIT) = (if d < 2 ^ 57 then uint x + 2 ^ 57 else uint x - 2 ^ 57)"
    using od xor_exp_int [of "uint x" 57] by (simp add: uint_xor)
  have c: "uint (push_bit DATUM_LENGTH TC_FIXNUM OR FIXNUM_SIGN_BIT) = 26 * 2 ^ 58 + 2 ^ 57"
    by simp
  show ?thesis
  proof (cases "d < 2 ^ 57")
    case True
    then have "uint (FIXNUM_TO_LONG x) = d"
      using d u x1 c unfolding FIXNUM_TO_LONG_def by (subst uint_sub_exact) simp_all
    with True d show ?thesis by (simp add: sint_eq_uint64 fixnum_int_def d_def)
  next
    case False
    then have "uint (FIXNUM_TO_LONG x) = d - 2 ^ 58 + 2 ^ 64"
      using d u x1 c unfolding FIXNUM_TO_LONG_def by (subst uint_sub_if') simp
    with False d show ?thesis by (simp add: sint_cases64 fixnum_int_def d_def)
  qed
qed

lemma LONG_TO_FIXNUM_P_iff:
  "LONG_TO_FIXNUM_P n \<longleftrightarrow> SMALLEST_FIXNUM \<le> sint n \<and> sint n \<le> BIGGEST_FIXNUM"
proof -
  have e: "uint (n AND SIGN_MASK) = uint n div 2 ^ 57 * 2 ^ 57"
    by (simp only: SIGN_MASK_eq uint_and_not_mask64)
  have "n AND SIGN_MASK = 0 \<longleftrightarrow> uint n div 2 ^ 57 = 0"
    using e by (simp add: word_uint_eq_iff)
  moreover have "n AND SIGN_MASK = SIGN_MASK \<longleftrightarrow> uint n div 2 ^ 57 = 127"
    using e by (simp add: word_uint_eq_iff)
  moreover have "uint n div 2 ^ 57 = 0 \<longleftrightarrow> uint n < 2 ^ 57"
    using uint_bounds64(1) [of n] by (auto simp: div_eq_0_iff)
  moreover have "uint n div 2 ^ 57 = 127 \<longleftrightarrow> 2 ^ 64 - 2 ^ 57 \<le> uint n"
    using uint_bounds64(2) [of n] by auto
  ultimately show ?thesis
    using uint_bounds64 [of n] unfolding LONG_TO_FIXNUM_P_def by (auto simp: sint_cases64)
qed

lemma LONG_TO_FIXNUM_FIXNUM_P [simp]: "FIXNUM_P (LONG_TO_FIXNUM n)"
  by (simp add: FIXNUM_P_def LONG_TO_FIXNUM_def OBJECT_DATUM_def [symmetric] OBJECT_bounds_num
      del: DATUM_MASK_def)

lemma fixnum_int_LONG_TO_FIXNUM:
  assumes "SMALLEST_FIXNUM \<le> sint n" "sint n \<le> BIGGEST_FIXNUM"
  shows "fixnum_int (LONG_TO_FIXNUM n) = sint n"
proof -
  have d: "OBJECT_DATUM (LONG_TO_FIXNUM n) = OBJECT_DATUM n"
    by (simp add: LONG_TO_FIXNUM_def OBJECT_DATUM_def [symmetric] OBJECT_bounds_num
        del: DATUM_MASK_def)
  show ?thesis
  proof (cases "uint n < 2 ^ 63")
    case True
    with assms show ?thesis
      by (simp add: fixnum_int_def d uint_OBJECT_DATUM sint_cases64)
  next
    case False
    have "sint n = uint n - 64 * 2 ^ 58" using False by (simp add: sint_cases64)
    then have "uint n mod 2 ^ 58 = (sint n + 2 ^ 58 + 63 * 2 ^ 58) mod 2 ^ 58" by simp
    also have "\<dots> = (sint n + 2 ^ 58) mod 2 ^ 58" by (rule mod_mult_self1)
    also have "\<dots> = sint n + 2 ^ 58"
      using assms False uint_bounds64(2) [of n] by (intro mod_pos_pos_trivial) (simp_all add: sint_cases64)
    finally have "uint n mod 2 ^ 58 = sint n + 2 ^ 58" .
    with False assms show ?thesis
      by (simp add: fixnum_int_def d uint_OBJECT_DATUM Let_def)
  qed
qed

lemma fixnum_int_inj:
  assumes "FIXNUM_P x" "FIXNUM_P y" "fixnum_int x = fixnum_int y"
  shows "x = y"
proof -
  have "0 \<le> uint (OBJECT_DATUM x)" "0 \<le> uint (OBJECT_DATUM y)" by simp_all
  then have "uint (OBJECT_DATUM x) = uint (OBJECT_DATUM y)"
    using assms(3) OBJECT_DATUM_bound [of x] OBJECT_DATUM_bound [of y]
    unfolding fixnum_int_def Let_def by (simp only: power_numeral split: if_splits)
  then show ?thesis
    using FIXNUM_P_uint [OF assms(1)] FIXNUM_P_uint [OF assms(2)] by (simp add: word_uint_eq_iff)
qed

lemma LONG_TO_FIXNUM_TO_LONG:
  "FIXNUM_P x \<Longrightarrow> LONG_TO_FIXNUM (FIXNUM_TO_LONG x) = x"
  by (rule fixnum_int_inj)
    (simp_all add: fixnum_int_LONG_TO_FIXNUM sint_FIXNUM_TO_LONG fixnum_int_range [simplified])

lemma fixnum_predicates:
  assumes "FIXNUM_P x"
  shows "FIXNUM_ZERO_P x \<longleftrightarrow> fixnum_int x = 0"
    and "FIXNUM_NEGATIVE_P x \<longleftrightarrow> fixnum_int x < 0"
    and "FIXNUM_POSITIVE_P x \<longleftrightarrow> 0 < fixnum_int x"
proof -
  have d: "0 \<le> uint (OBJECT_DATUM x)" "uint (OBJECT_DATUM x) < 2 ^ 58"
    using OBJECT_DATUM_bound [of x] by simp_all
  have "FIXNUM_ZERO_P x \<longleftrightarrow> uint (OBJECT_DATUM x) = 0"
    by (simp add: FIXNUM_ZERO_P_def word_uint_eq_iff)
  then show z: "FIXNUM_ZERO_P x \<longleftrightarrow> fixnum_int x = 0"
    using d by (auto simp: fixnum_int_def Let_def)
  have "FIXNUM_SIGN_BIT = push_bit 57 1" by simp
  then have "FIXNUM_NEGATIVE_P x \<longleftrightarrow> bit x 57"
    unfolding FIXNUM_NEGATIVE_P_def by (metis and_exp_eq_0_iff_not_bit push_bit_of_1)
  also have "\<dots> \<longleftrightarrow> odd (uint x div 2 ^ 57)"
    using bit_uint_iff [of x 57] by (simp only: bit_iff_odd [of "uint x"]) simp
  also have "\<dots> \<longleftrightarrow> \<not> uint (OBJECT_DATUM x) < 2 ^ 57"
    using assms by (rule fixnum_sign_bit)
  finally show n: "FIXNUM_NEGATIVE_P x \<longleftrightarrow> fixnum_int x < 0"
    using d by (auto simp: fixnum_int_def Let_def)
  show "FIXNUM_POSITIVE_P x \<longleftrightarrow> 0 < fixnum_int x"
    by (auto simp: FIXNUM_POSITIVE_P_def z n)
qed

end
