(* ===== verification/Machine_Bits.thy ===== *)
theory Machine_Bits
  imports Scheme_Prelude
begin

text \<open>
  Bit counting on machine words (\<open>microcode/bits.h\<close>), for the 64-bit \<open>unsigned long\<close>:
  the parallel population count, the length in bits by smearing the highest set bit
  downwards, and the index of the lowest set bit. Each routine is shown equal to its
  mathematical meaning: the number of set bits, the exponent of the least power of two
  above the number, and the index of the first set bit.
\<close>

section \<open>The routines\<close>

definition two_bit_mask :: ulong where "two_bit_mask = (NOT 0) div (1 + push_bit 1 1)"
definition four_bit_mask :: ulong where "four_bit_mask = (NOT 0) div (1 + push_bit 2 1)"
definition eight_bit_mask :: ulong where "eight_bit_mask = (NOT 0) div (1 + push_bit 4 1)"
definition final_mask :: ulong where "final_mask = push_bit 1 64 - 1"

text \<open>The \<open>for\<close> loop runs at the shift distances 8, 16 and 32.\<close>

definition ulong_bit_count :: "ulong \<Rightarrow> nat" where
  "ulong_bit_count x =
     (let x1 = x - (drop_bit 1 x AND two_bit_mask);
          x2 = (drop_bit 2 x1 AND four_bit_mask) + (x1 AND four_bit_mask);
          x3 = (drop_bit 4 x2 + x2) AND eight_bit_mask;
          x4 = foldl (\<lambda>y i. y + drop_bit i y) x3 [8, 16, 32]
      in unat (x4 AND final_mask))"

definition smear_step :: "ulong \<Rightarrow> nat \<Rightarrow> ulong" where
  "smear_step x i = x OR drop_bit i x"

definition ulong_length_in_bits :: "ulong \<Rightarrow> nat" where
  "ulong_length_in_bits x = ulong_bit_count (foldl smear_step x [1, 2, 4, 8, 0x10, 0x20])"

definition ulong_first_set_bit :: "ulong \<Rightarrow> int" where
  "ulong_first_set_bit x =
     (if x = 0 then -1 else int (ulong_length_in_bits (drop_bit 1 (x XOR (x - 1)))))"

section \<open>Bitwise operations digit by digit\<close>

lemma bit_digit_add:
  fixes d v :: int
  assumes "0 \<le> d" "d < 2 ^ m"
  shows "bit (d + 2 ^ m * v) i \<longleftrightarrow> (if i < m then bit d i else bit v (i - m))"
proof -
  have t: "take_bit m d = d" using assms by (simp add: take_bit_int_eq_self)
  have "d + 2 ^ m * v = push_bit m v OR take_bit m d"
    using or_eq_add_int [OF assms, of "2 ^ m * v"] by (simp add: push_bit_eq_mult mult.commute t)
  moreover have "bit d i \<Longrightarrow> i < m" by (metis t bit_take_bit_iff)
  ultimately show ?thesis by (auto simp: bit_simps t)
qed

lemma digitwise_int:
  fixes d e v w :: int
  assumes "0 \<le> d" "d < 2 ^ m" "0 \<le> e" "e < 2 ^ m"
  shows "(d + 2 ^ m * v) AND (e + 2 ^ m * w) = (d AND e) + 2 ^ m * (v AND w)"
    and "(d + 2 ^ m * v) OR (e + 2 ^ m * w) = (d OR e) + 2 ^ m * (v OR w)"
    and "(d + 2 ^ m * v) XOR (e + 2 ^ m * w) = (d XOR e) + 2 ^ m * (v XOR w)"
proof -
  have b: "0 \<le> d AND e" "d AND e < 2 ^ m" "0 \<le> d OR e" "d OR e < 2 ^ m"
      "0 \<le> d XOR e" "d XOR e < 2 ^ m"
    using assms by (simp_all add: OR_upper XOR_upper AND_upper1')
  show "(d + 2 ^ m * v) AND (e + 2 ^ m * w) = (d AND e) + 2 ^ m * (v AND w)"
    by (rule bit_eqI) (simp only: bit_digit_add assms b bit_and_iff, simp add: bit_and_iff)
  show "(d + 2 ^ m * v) OR (e + 2 ^ m * w) = (d OR e) + 2 ^ m * (v OR w)"
    by (rule bit_eqI) (simp only: bit_digit_add assms b bit_or_iff, simp add: bit_or_iff)
  show "(d + 2 ^ m * v) XOR (e + 2 ^ m * w) = (d XOR e) + 2 ^ m * (v XOR w)"
    by (rule bit_eqI) (simp only: bit_digit_add assms b bit_xor_iff, simp add: bit_xor_iff)
qed

section \<open>Population count\<close>

definition popcount :: "int \<Rightarrow> nat" where
  "popcount n = card {i. bit n i}"

lemma finite_bits: "0 \<le> (n :: int) \<Longrightarrow> finite {i. bit n i}"
proof -
  assume n: "0 \<le> n"
  then have "n < 2 ^ nat n" by (metis int_nat_eq less_exp of_nat_less_numeral_power_cancel_iff)
  then have "take_bit (nat n) n = n" using n by (simp add: take_bit_int_eq_self)
  then have "{i. bit n i} \<subseteq> {..< nat n}" by (auto simp: bit_take_bit_iff dest: arg_cong [where f = "\<lambda>k. bit k _"])
  then show ?thesis by (rule finite_subset) simp
qed

lemma popcount_0 [simp]: "popcount 0 = 0"
  by (simp add: popcount_def)

lemma popcount_digit_add:
  assumes "0 \<le> d" "d < 2 ^ m" "0 \<le> v"
  shows "popcount (d + 2 ^ m * v) = popcount d + popcount v"
proof -
  have t: "take_bit m d = d" using assms by (simp add: take_bit_int_eq_self)
  then have low: "bit d i \<Longrightarrow> i < m" for i by (metis bit_take_bit_iff)
  have "{i. bit (d + 2 ^ m * v) i} = {i. bit d i} \<union> (\<lambda>i. i + m) ` {i. bit v i}"
    by (auto simp: bit_digit_add [OF assms(1,2)] image_iff low split: if_splits)
      (metis add.commute le_add_diff_inverse linorder_not_less)
  moreover have "card ((\<lambda>i. i + m) ` {i. bit v i}) = card {i. bit v i}"
    by (rule card_image) simp
  moreover have "{i. bit d i} \<inter> (\<lambda>i. i + m) ` {i. bit v i} = {}" using low by fastforce
  ultimately show ?thesis
    using finite_bits [OF assms(1)] finite_bits [OF assms(3)]
    by (simp add: popcount_def card_Un_disjoint)
qed

lemma popcount_radix:
  "radix_ok (2 ^ m) ds \<Longrightarrow> popcount (radix_val (2 ^ m) ds) = sum_list (map popcount ds)"
proof (induction ds)
  case (Cons d ds)
  have "0 \<le> radix_val (2 ^ m) ds"
    using Cons.prems by (induction ds) auto
  with Cons show ?case by (simp add: popcount_digit_add)
qed simp

section \<open>The parallel population count\<close>

text \<open>
  The routine adds groups of bits in parallel. A word is read as a list of digits, one per
  group; the steps act on every digit on its own, because no group overflows.
\<close>

lemma half_mask_bounds: "0 \<le> (2 :: int) ^ k - 1" "(2 :: int) ^ k - 1 < 2 ^ (k + k)"
proof -
  have "(2 :: int) ^ k \<le> 2 ^ (k + k)" by (rule power_increasing) simp_all
  then show "(2 :: int) ^ k - 1 < 2 ^ (k + k)" by linarith
qed simp

lemma shifted_low_halves:
  assumes "radix_ok (2 ^ (k + k)) ds"
  shows "(radix_val (2 ^ (k + k)) ds div 2 ^ k) AND
           radix_val (2 ^ (k + k)) (replicate (length ds) (2 ^ k - 1)) =
         radix_val (2 ^ (k + k)) (map (\<lambda>d. d div 2 ^ k) ds)"
  using assms
proof (induction ds)
  case (Cons d ds)
  let ?B = "2 ^ (k + k) :: int" and ?v = "radix_val (2 ^ (k + k)) ds"
  have d: "0 \<le> d" "d < ?B" using Cons.prems by simp_all
  have dd: "0 \<le> d div 2 ^ k" "d div 2 ^ k < 2 ^ k"
    using d by (simp_all add: pos_imp_zdiv_nonneg_iff int_div_less power_add)
  define e where "e = d div 2 ^ k + 2 ^ k * (?v mod 2 ^ k)"
  have "?v mod 2 ^ k \<le> 2 ^ k - 1" by simp
  then have "2 ^ k * (?v mod 2 ^ k) \<le> 2 ^ k * (2 ^ k - 1)" by (intro mult_left_mono) simp_all
  then have e: "0 \<le> e" "e < ?B" using dd by (simp_all add: e_def power_add algebra_simps)
  have "(d + ?B * ?v) div 2 ^ k = d div 2 ^ k + 2 ^ k * ?v"
    by (simp add: power_add mult.assoc)
  also have "\<dots> = e + ?B * (?v div 2 ^ k)"
    using scaled_div_mod [of "2 ^ k" ?v] by (simp add: e_def power_add)
  finally have split: "(d + ?B * ?v) div 2 ^ k = e + ?B * (?v div 2 ^ k)" .
  have "e AND (2 ^ k - 1) = e mod 2 ^ k"
    by (simp add: mask_eq_exp_minus_1 [symmetric] take_bit_eq_mask [symmetric] take_bit_eq_mod)
  also have "\<dots> = d div 2 ^ k" using dd by (simp add: e_def)
  finally have low: "e AND (2 ^ k - 1) = d div 2 ^ k" .
  have m: "0 \<le> (2 :: int) ^ k - 1" "(2 :: int) ^ k - 1 < ?B" by (rule half_mask_bounds)+
  have "(e + ?B * (?v div 2 ^ k)) AND
      ((2 ^ k - 1) + ?B * radix_val ?B (replicate (length ds) (2 ^ k - 1))) =
    (e AND (2 ^ k - 1)) + ?B * ((?v div 2 ^ k) AND radix_val ?B (replicate (length ds) (2 ^ k - 1)))"
    by (rule digitwise_int(1) [OF e m])
  then show ?case using Cons low split by simp
qed simp

lemma low_halves:
  assumes "radix_ok (2 ^ (k + k)) ds"
  shows "radix_val (2 ^ (k + k)) ds AND
           radix_val (2 ^ (k + k)) (replicate (length ds) (2 ^ k - 1)) =
         radix_val (2 ^ (k + k)) (map (\<lambda>d. d mod 2 ^ k) ds)"
  using assms
proof (induction ds)
  case (Cons d ds)
  let ?B = "2 ^ (k + k) :: int"
  have d: "0 \<le> d" "d < ?B" using Cons.prems by simp_all
  have m: "0 \<le> (2 :: int) ^ k - 1" "(2 :: int) ^ k - 1 < ?B" by (rule half_mask_bounds)+
  have "d AND (2 ^ k - 1) = d mod 2 ^ k"
    by (simp add: mask_eq_exp_minus_1 [symmetric] take_bit_eq_mask [symmetric] take_bit_eq_mod)
  with Cons digitwise_int(1) [OF d m, of "radix_val ?B ds"] show ?case by simp
qed simp

text \<open>A word as the list of its \<open>n\<close> lowest digits of \<open>m\<close> bits.\<close>

primrec word_digits :: "nat \<Rightarrow> nat \<Rightarrow> int \<Rightarrow> int list" where
  "word_digits m 0 x = []"
| "word_digits m (Suc n) x = x mod 2 ^ m # word_digits m n (x div 2 ^ m)"

lemma word_digits_props [simp]:
  "radix_ok (2 ^ m) (word_digits m n x)" "length (word_digits m n x) = n"
  by (induction n arbitrary: x) simp_all

lemma word_digits_val:
  "0 \<le> x \<Longrightarrow> x < 2 ^ (m * n) \<Longrightarrow> radix_val (2 ^ m) (word_digits m n x) = x"
proof (induction n arbitrary: x)
  case (Suc n)
  have "x div 2 ^ m < 2 ^ (m * n)"
    using Suc.prems by (simp add: int_div_less power_add)
  with Suc show ?case by (simp add: pos_imp_zdiv_nonneg_iff)
qed simp

fun pair_up :: "int \<Rightarrow> int list \<Rightarrow> int list" where
  "pair_up B (a # b # ds) = (a + B * b) # pair_up B ds"
| "pair_up B ds = ds"

lemma pair_up_props:
  "radix_val (B * B) (pair_up B ds) = radix_val B ds"
  "even (length ds) \<Longrightarrow> length (pair_up B ds) = length ds div 2"
  by (induction B ds rule: pair_up.induct) (simp_all add: algebra_simps)

text \<open>Digits that are small enough, written in half of the group each.\<close>

definition small :: "int \<Rightarrow> int list \<Rightarrow> bool" where
  "small c ds \<longleftrightarrow> list_all (\<lambda>d. 0 \<le> d \<and> d \<le> c) ds"

lemma small_simps [simp]:
  "small c []" "small c (d # ds) \<longleftrightarrow> 0 \<le> d \<and> d \<le> c \<and> small c ds"
  by (simp_all add: small_def)

lemma pair_up_halves:
  assumes "even (length ds)" "small c ds" "0 < B" "c < B"
  shows "small (c + B * c) (pair_up B ds)"
    and "small (2 * c) (map (\<lambda>d. d div B + d mod B) (pair_up B ds))"
    and "sum_list (map (\<lambda>d. d div B + d mod B) (pair_up B ds)) = sum_list ds"
proof -
  have h: "(a + B * b) div B = b" "a mod B = a" if "0 \<le> a" "a \<le> c" for a b
    using that assms(3,4) by simp_all
  have m: "B * b \<le> B * c" if "b \<le> c" for b
    using that assms(3) by (intro mult_left_mono) simp_all
  from assms(1,2) show "small (c + B * c) (pair_up B ds)"
    using assms(3) by (induction ds rule: induct_list012) (auto intro!: add_mono m)
  from assms(1,2) show "small (2 * c) (map (\<lambda>d. d div B + d mod B) (pair_up B ds))"
    by (induction ds rule: induct_list012) (auto simp: h)
  from assms(1,2) show "sum_list (map (\<lambda>d. d div B + d mod B) (pair_up B ds)) = sum_list ds"
    by (induction ds rule: induct_list012) (auto simp: h)
qed

lemma radix_val_map_add:
  "radix_val B (map f ds) + radix_val B (map g ds) = radix_val B (map (\<lambda>d. f d + g d) ds)"
proof (induction ds)
  case (Cons d ds)
  have "radix_val B (map f (d # ds)) + radix_val B (map g (d # ds)) =
    f d + g d + B * (radix_val B (map f ds) + radix_val B (map g ds))"
    by (simp add: algebra_simps)
  with Cons.IH show ?case by simp
qed simp

lemma small_radix_ok: "small c ds \<Longrightarrow> c < B \<Longrightarrow> radix_ok B ds"
  by (induction ds) auto

lemma fold_pairs:
  fixes X :: int
  assumes "X = radix_val (2 ^ k) ds" "length ds = 2 * n" "small c ds" "c < 2 ^ k"
    "M = radix_val (2 ^ (k + k)) (replicate n (2 ^ k - 1))"
  defines "es \<equiv> map (\<lambda>d. d div 2 ^ k + d mod 2 ^ k) (pair_up (2 ^ k) ds)"
  shows "((X div 2 ^ k) AND M) + (X AND M) = radix_val (2 ^ (k + k)) es"
    and "length es = n" "small (2 * c) es" "sum_list es = sum_list ds"
proof -
  let ?ps = "pair_up (2 ^ k) ds"
  have l: "length ?ps = n" using assms(2) by (simp add: pair_up_props)
  have X: "X = radix_val (2 ^ (k + k)) ?ps"
    using assms(1) by (simp add: power_add pair_up_props)
  show "length es = n" using l by (simp add: es_def)
  note c = assms(4)
  note ph = pair_up_halves [of ds c "2 ^ k", OF _ assms(3) _ c]
  show "small (2 * c) es" "sum_list es = sum_list ds" using ph assms(2) by (simp_all add: es_def)
  have "c + 2 ^ k * c = (2 ^ k + 1) * c" by (simp add: algebra_simps)
  also have "\<dots> \<le> (2 ^ k + 1) * (2 ^ k - 1)" using c by (intro mult_left_mono) simp_all
  also have "\<dots> < 2 ^ (k + k)" by (simp add: algebra_simps power_add)
  finally have ok: "radix_ok (2 ^ (k + k)) ?ps"
    using ph(1) assms(2) by (intro small_radix_ok) simp_all
  show "((X div 2 ^ k) AND M) + (X AND M) = radix_val (2 ^ (k + k)) es"
    using shifted_low_halves [OF ok] low_halves [OF ok] l
    by (simp add: X assms(5) es_def radix_val_map_add)
qed

lemma masked_sum:
  fixes k :: nat and c :: int
  assumes "small c as" "small c bs" "length as = length bs" "2 * c < 2 ^ k"
  defines "B \<equiv> 2 ^ (k + k)"
  defines "ds \<equiv> map2 (\<lambda>a b. a + 2 ^ k * b) as bs"
  shows "(radix_val B ds div 2 ^ k + radix_val B ds) AND
           radix_val B (replicate (length as) (2 ^ k - 1)) = radix_val B (map2 (+) as bs)
       \<and> 0 \<le> radix_val B ds mod 2 ^ k \<and> (as \<noteq> [] \<longrightarrow> radix_val B ds mod 2 ^ k \<le> c)"
  using assms(3,1,2) unfolding ds_def
proof (induction as bs rule: list_induct2)
  case (Cons a as b bs)
  let ?v = "radix_val B (map2 (\<lambda>a b. a + 2 ^ k * b) as bs)"
  have ab: "0 \<le> a" "a \<le> c" "0 \<le> b" "b \<le> c" using Cons.prems by simp_all
  have B: "B = 2 ^ k * 2 ^ k" by (simp add: B_def power_add)
  have vm: "0 \<le> ?v mod 2 ^ k" "?v mod 2 ^ k \<le> c"
    using Cons ab by (cases as; auto)+
  define L where "L = (a + b) + 2 ^ k * (b + ?v mod 2 ^ k)"
  have "b + ?v mod 2 ^ k \<le> 2 ^ k - 1" using vm ab assms(4) by linarith
  then have "2 ^ k * (b + ?v mod 2 ^ k) \<le> 2 ^ k * (2 ^ k - 1)" by (intro mult_left_mono) simp_all
  moreover have abk: "a + b < 2 ^ k" using ab assms(4) by linarith
  moreover have "0 \<le> 2 ^ k * (b + ?v mod 2 ^ k)" using vm ab by simp
  ultimately have L: "0 \<le> L" "L < B" using ab by (simp_all add: L_def B algebra_simps)
  have a': "a div 2 ^ k = 0" "a mod 2 ^ k = a" using ab abk by simp_all
  have "(a + 2 ^ k * b + B * ?v) div 2 ^ k = b + 2 ^ k * ?v"
    using a' by (simp add: B mult.assoc flip: distrib_left)
  moreover have "2 ^ k * ?v = 2 ^ k * (?v mod 2 ^ k) + B * (?v div 2 ^ k)"
    unfolding B by (rule scaled_div_mod)
  ultimately have "(a + 2 ^ k * b + B * ?v) div 2 ^ k + (a + 2 ^ k * b + B * ?v) =
      L + B * (?v div 2 ^ k + ?v)"
    by (simp add: L_def algebra_simps)
  moreover have "L AND (2 ^ k - 1) = a + b"
    using ab abk by (simp add: mask_eq_exp_minus_1 [symmetric] take_bit_eq_mask [symmetric]
        take_bit_eq_mod L_def)
  moreover have "(a + 2 ^ k * b + B * ?v) mod 2 ^ k = a"
    using a' by (simp add: B mult.assoc add.assoc flip: distrib_left)
  moreover have "(L + B * (?v div 2 ^ k + ?v)) AND
      ((2 ^ k - 1) + B * radix_val B (replicate (length as) (2 ^ k - 1))) =
    (L AND (2 ^ k - 1)) + B * ((?v div 2 ^ k + ?v) AND radix_val B (replicate (length as) (2 ^ k - 1)))"
    unfolding B_def by (rule digitwise_int(1)) (use L half_mask_bounds B_def in auto)
  ultimately show ?case using Cons ab by simp
qed simp

fun evens :: "int list \<Rightarrow> int list" where
  "evens (a # b # ds) = a # evens ds"
| "evens ds = []"

fun odds :: "int list \<Rightarrow> int list" where
  "odds (a # b # ds) = b # odds ds"
| "odds ds = []"

lemma evens_odds:
  assumes "even (length ds)"
  shows "pair_up B ds = map2 (\<lambda>a b. a + B * b) (evens ds) (odds ds)"
    and "length (evens ds) = length ds div 2" "length (odds ds) = length ds div 2"
    and "sum_list (map2 (+) (evens ds) (odds ds)) = sum_list ds"
    and "small c ds \<Longrightarrow> small c (evens ds) \<and> small c (odds ds)"
    and "small c ds \<Longrightarrow> small (2 * c) (map2 (+) (evens ds) (odds ds))"
  using assms by (induction ds rule: induct_list012) auto

lemma byte_sum:
  assumes "length cs = 8" "small 8 cs" "uint w = radix_val 256 cs"
  shows "unat (foldl (\<lambda>y i. y + drop_bit i y) w [8, 16, 32] AND final_mask) = nat (sum_list cs)"
proof -
  obtain c0 c1 c2 c3 c4 c5 c6 c7 where cs: "cs = [c0, c1, c2, c3, c4, c5, c6, c7]"
    using assms(1) by (auto simp: length_Suc_conv eval_nat_numeral)
  note b = assms(2) [unfolded cs, simplified]
  let ?y1 = "radix_val 256 [c0 + c1, c1 + c2, c2 + c3, c3 + c4, c4 + c5, c5 + c6, c6 + c7, c7]"
  let ?y2 = "radix_val 256 [c0 + c1 + c2 + c3, c1 + c2 + c3 + c4, c2 + c3 + c4 + c5,
    c3 + c4 + c5 + c6, c4 + c5 + c6 + c7, c5 + c6 + c7, c6 + c7, c7]"
  let ?y3 = "c0 + c1 + c2 + c3 + c4 + c5 + c6 + c7 + 256 * radix_val 256 [c1 + c2 + c3 + c4 +
    c5 + c6 + c7, c2 + c3 + c4 + c5 + c6 + c7, c3 + c4 + c5 + c6 + c7, c4 + c5 + c6 + c7,
    c5 + c6 + c7, c6 + c7, c7]"
  have "uint w div 2 ^ 8 = radix_val 256 [c1, c2, c3, c4, c5, c6, c7]"
    unfolding assms(3) cs using b by (intro int_div_pos_eq [where r = c0]) simp_all
  then have y1: "uint (w + drop_bit 8 w) = ?y1"
    using b by (subst uint_add_exact) (simp_all add: uint_drop_bit64 assms(3) cs)
  have "?y1 div 2 ^ 16 = radix_val 256 [c2 + c3, c3 + c4, c4 + c5, c5 + c6, c6 + c7, c7]"
    using b by (intro int_div_pos_eq [where r = "c0 + c1 + 256 * (c1 + c2)"]) simp_all
  then have y2: "uint (w + drop_bit 8 w + drop_bit 16 (w + drop_bit 8 w)) = ?y2"
    using b y1 by (subst uint_add_exact) (simp_all add: uint_drop_bit64)
  have "?y2 div 2 ^ 32 = radix_val 256 [c4 + c5 + c6 + c7, c5 + c6 + c7, c6 + c7, c7]"
    using b by (intro int_div_pos_eq [where r = "radix_val 256
      [c0 + c1 + c2 + c3, c1 + c2 + c3 + c4, c2 + c3 + c4 + c5, c3 + c4 + c5 + c6]"]) simp_all
  then have y3: "uint (foldl (\<lambda>y i. y + drop_bit i y) w [8, 16, 32]) = ?y3"
    using b y2 by (simp only: foldl_Cons foldl_Nil, subst uint_add_exact)
      (simp_all add: uint_drop_bit64)
  have fm: "final_mask = mask 7" by (simp add: final_mask_def mask_eq_exp_minus_1)
  have "uint (foldl (\<lambda>y i. y + drop_bit i y) w [8, 16, 32] AND final_mask) = ?y3 mod 2 ^ 7"
    unfolding fm uint_and_mask64 y3 ..
  also have "\<dots> = sum_list cs"
  proof -
    have "?y3 = c0 + c1 + c2 + c3 + c4 + c5 + c6 + c7 + 2 ^ 7 * (2 * radix_val 256 [c1 + c2 + c3 +
      c4 + c5 + c6 + c7, c2 + c3 + c4 + c5 + c6 + c7, c3 + c4 + c5 + c6 + c7, c4 + c5 + c6 + c7,
      c5 + c6 + c7, c6 + c7, c7])" by simp
    then show ?thesis using b by (simp only: mod_mult_self2) (simp add: cs)
  qed
  finally show ?thesis by (simp add: unat_eq_nat_uint)
qed

lemma two_bit_popcount:
  "radix_ok 4 ds \<Longrightarrow>
   small 2 (map (\<lambda>d. d - d div 2) ds) \<and>
   sum_list (map (\<lambda>d. d - d div 2) ds) = int (sum_list (map popcount ds))"
proof (induction ds)
  case (Cons d ds)
  have bits: "popcount (d + 2 ^ 1 * e) = popcount d + popcount e" if "d \<in> {0, 1}" "0 \<le> e" for d e
    using that by (intro popcount_digit_add) auto
  have one: "popcount 1 = 1" by (simp add: popcount_def bit_1_iff)
  have "popcount 2 = 1" "popcount 3 = 2" using bits [of 0 1] bits [of 1 1] by (simp_all add: one)
  moreover have "d = 0 \<or> d = 1 \<or> d = 2 \<or> d = 3" using Cons.prems by auto
  ultimately have "0 \<le> d - d div 2 \<and> d - d div 2 \<le> 2 \<and> d - d div 2 = int (popcount d)"
    by (elim disjE) (simp_all add: one)
  with Cons show ?case by simp
qed simp

lemma replicate_numeral: "replicate (numeral k) x = x # replicate (pred_numeral k) x"
  by (simp add: numeral_eq_Suc)

lemma radix_val_map_diff:
  "radix_val B (map f ds) - radix_val B (map g ds) = radix_val B (map (\<lambda>d. f d - g d) ds)"
proof (induction ds)
  case (Cons d ds)
  have "radix_val B (map f (d # ds)) - radix_val B (map g (d # ds)) =
    f d - g d + B * (radix_val B (map f ds) - radix_val B (map g ds))"
    by (simp add: algebra_simps)
  with Cons.IH show ?case by simp
qed simp

lemma small_nonneg: "small c ds \<Longrightarrow> 0 < B \<Longrightarrow> 0 \<le> radix_val B ds"
  by (induction ds) auto

text \<open>The three halving steps of the routine, on the digits of the word.\<close>

lemma bit_count_step1:
  obtains es where "uint (x - (drop_bit 1 x AND two_bit_mask)) = radix_val (2 ^ 2) es"
    "length es = 32" "small 2 es" "sum_list es = int (popcount (uint x))"
proof
  define ds where "ds = word_digits 2 32 (uint x)"
  let ?es = "map (\<lambda>d. d - d div 2) ds"
  have ok: "radix_ok (2 ^ (1 + 1)) ds" and l: "length ds = 32"
    using word_digits_props(1) [of 2 32 "uint x"] by (simp_all add: ds_def)
  have X: "radix_val (2 ^ 2) ds = uint x"
    unfolding ds_def by (rule word_digits_val) (use uint_bounds64 [of x] in simp_all)
  show "length ?es = 32" using l by simp
  show "small 2 ?es" "sum_list ?es = int (popcount (uint x))"
    using two_bit_popcount [of ds] popcount_radix [of 2 ds] ok X by simp_all
  have "uint two_bit_mask = radix_val (2 ^ (1 + 1)) (replicate (length ds) (2 ^ 1 - 1))"
    by (simp add: two_bit_mask_def l replicate_numeral)
  then have m: "uint (drop_bit 1 x AND two_bit_mask) = radix_val (2 ^ 2) (map (\<lambda>d. d div 2) ds)"
    using shifted_low_halves [OF ok] X by (simp add: uint_and uint_drop_bit64)
  have d: "uint x - uint (drop_bit 1 x AND two_bit_mask) = radix_val (2 ^ 2) ?es"
    using radix_val_map_diff [of "2 ^ 2" "\<lambda>d. d" ds "\<lambda>d. d div 2"] X m by simp
  have "0 \<le> radix_val (2 ^ 2) ?es" using \<open>small 2 ?es\<close> by (intro small_nonneg) simp_all
  with d show "uint (x - (drop_bit 1 x AND two_bit_mask)) = radix_val (2 ^ 2) ?es"
    by (simp add: uint_sub_exact)
qed

lemma small_val_less: "small c ds \<Longrightarrow> c < B \<Longrightarrow> 1 < B \<Longrightarrow> radix_val B ds < B ^ length ds"
  by (rule radix_system.val_less [OF radix_system.intro]) (auto intro: small_radix_ok)

lemma bit_count_step2:
  assumes "uint x = radix_val (2 ^ 2) es" "length es = 32" "small 2 es"
  obtains fs where
    "uint ((drop_bit 2 x AND four_bit_mask) + (x AND four_bit_mask)) = radix_val (2 ^ 4) fs"
    "length fs = 16" "small 4 fs" "sum_list fs = sum_list es"
proof
  let ?fs = "map (\<lambda>d. d div 2 ^ 2 + d mod 2 ^ 2) (pair_up (2 ^ 2) es)"
  have "uint four_bit_mask = radix_val (2 ^ (2 + 2)) (replicate 16 (2 ^ 2 - 1))"
    by (simp add: four_bit_mask_def replicate_numeral)
  note fp = fold_pairs [of "uint x" 2 es 16 2, OF assms(1) _ assms(3) _ this]
  show l: "length ?fs = 16" and s: "small 4 ?fs" and "sum_list ?fs = sum_list es"
    using fp assms(2) by simp_all
  have "radix_val (2 ^ 4) ?fs < (2 ^ 4) ^ length ?fs"
    using s by (rule small_val_less) simp_all
  then show "uint ((drop_bit 2 x AND four_bit_mask) + (x AND four_bit_mask)) = radix_val (2 ^ 4) ?fs"
    using fp(1) assms(2) l by (subst uint_add_exact) (simp_all add: uint_and uint_drop_bit64)
qed

lemma bit_count_step3:
  assumes "uint x = radix_val (2 ^ 4) fs" "length fs = 16" "small 4 fs"
  obtains gs where "uint ((drop_bit 4 x + x) AND eight_bit_mask) = radix_val 256 gs"
    "length gs = 8" "small 8 gs" "sum_list gs = sum_list fs"
proof
  let ?gs = "map2 (+) (evens fs) (odds fs)"
  note eo = evens_odds [of fs, unfolded assms(2), simplified]
  show "length ?gs = 8" "small 8 ?gs" "sum_list ?gs = sum_list fs"
    using eo(2-4) eo(6) [OF assms(3)] by simp_all
  have m: "uint eight_bit_mask = radix_val 256 (replicate (length (evens fs)) 15)"
    using eo(2) by (simp add: eight_bit_mask_def replicate_numeral)
  have X: "uint x = radix_val 256 (map2 (\<lambda>a b. a + 16 * b) (evens fs) (odds fs))"
    using assms(1) pair_up_props(1) [of 16 fs] by (simp add: eo(1))
  have l: "length (pair_up 16 fs) = 8" using pair_up_props(2) [of fs 16] assms(2) by simp
  have "small 68 (pair_up 16 fs)"
    using pair_up_halves(1) [of fs 4 16] assms by simp
  then have "small 136 (map (\<lambda>d. d + d) (pair_up 16 fs))" by (auto simp: small_def list_all_iff)
  then have "radix_val 256 (map (\<lambda>d. d + d) (pair_up 16 fs)) < 256 ^ 8"
    using l small_val_less [of 136 "map (\<lambda>d. d + d) (pair_up 16 fs)" 256] by simp
  then have "2 * uint x < 256 ^ 8"
    using radix_val_map_add [of 256 "\<lambda>d. d" "pair_up 16 fs" "\<lambda>d. d"] by (simp add: X eo(1))
  moreover have "uint x div 2 ^ 4 \<le> uint x" by (rule int_div_bounds) simp_all
  ultimately have "uint (drop_bit 4 x + x) = uint x div 2 ^ 4 + uint x"
    by (subst uint_add_exact) (simp_all add: uint_drop_bit64)
  then show "uint ((drop_bit 4 x + x) AND eight_bit_mask) = radix_val 256 ?gs"
    using masked_sum [of 4 "evens fs" "odds fs" 4] eo assms(3) m by (simp add: uint_and X)
qed

theorem ulong_bit_count_correct: "ulong_bit_count x = popcount (uint x)"
proof -
  define x1 where "x1 = x - (drop_bit 1 x AND two_bit_mask)"
  define x2 where "x2 = (drop_bit 2 x1 AND four_bit_mask) + (x1 AND four_bit_mask)"
  define x3 where "x3 = (drop_bit 4 x2 + x2) AND eight_bit_mask"
  obtain es where es: "uint x1 = radix_val (2 ^ 2) es" "length es = 32" "small 2 es"
    "sum_list es = int (popcount (uint x))" unfolding x1_def by (rule bit_count_step1)
  obtain fs where fs: "uint x2 = radix_val (2 ^ 4) fs" "length fs = 16" "small 4 fs"
    "sum_list fs = sum_list es" unfolding x2_def by (rule bit_count_step2 [OF es(1-3)])
  obtain gs where gs: "uint x3 = radix_val 256 gs" "length gs = 8" "small 8 gs"
    "sum_list gs = sum_list fs" unfolding x3_def by (rule bit_count_step3 [OF fs(1-3)])
  have "ulong_bit_count x = unat (foldl (\<lambda>y i. y + drop_bit i y) x3 [8, 16, 32] AND final_mask)"
    by (simp only: ulong_bit_count_def Let_def x1_def x2_def x3_def)
  also have "\<dots> = nat (sum_list gs)" by (rule byte_sum [OF gs(2,3,1)])
  finally show ?thesis by (simp add: gs fs es)
qed

section \<open>Length in bits\<close>

text \<open>
  Smearing at distance \<open>d\<close> doubles the run of ones below the highest set bit: after the
  distances 1, 2, \<open>\<dots>\<close>, 32 bit \<open>i\<close> is set exactly when some bit at or above it was.
\<close>

lemma smear_bits:
  assumes "\<And>i. bit y i \<longleftrightarrow> (\<exists>j. i \<le> j \<and> j < i + d \<and> bit x j)"
  shows "bit (smear_step y d) i \<longleftrightarrow> (\<exists>j. i \<le> j \<and> j < i + 2 * d \<and> bit x j)"
proof -
  have "bit (smear_step y d) i \<longleftrightarrow>
      (\<exists>j. i \<le> j \<and> j < i + d \<and> bit x j) \<or> (\<exists>j. d + i \<le> j \<and> j < d + i + d \<and> bit x j)"
    by (simp add: smear_step_def bit_or_iff bit_drop_bit_eq assms)
  also have "\<dots> \<longleftrightarrow> (\<exists>j. i \<le> j \<and> j < i + 2 * d \<and> bit x j)"
  proof (intro iffI; elim exE disjE conjE)
    fix j assume "i \<le> j" "j < i + 2 * d" "bit x j"
    then show "(\<exists>j. i \<le> j \<and> j < i + d \<and> bit x j) \<or> (\<exists>j. d + i \<le> j \<and> j < d + i + d \<and> bit x j)"
      by (cases "j < i + d") (auto intro!: exI [of _ j])
  next
    fix j assume "d + i \<le> j" "j < d + i + d" "bit x j"
    then show "\<exists>j\<ge>i. j < i + 2 * d \<and> bit x j" by (intro exI [of _ j]) simp
  next
    fix j assume "i \<le> j" "j < i + d" "bit x j"
    then show "\<exists>j\<ge>i. j < i + 2 * d \<and> bit x j" by (intro exI [of _ j]) simp
  qed
  finally show ?thesis .
qed

lemma less_Suc_bit: "bit x i \<longleftrightarrow> (\<exists>j. i \<le> j \<and> j < i + 1 \<and> bit x j)"
  by (metis Suc_eq_plus1 le_antisym le_refl less_Suc_eq_le)

lemma smear_all:
  "bit (foldl smear_step x [1, 2, 4, 8, 0x10, 0x20]) i \<longleftrightarrow> (\<exists>j \<ge> i. bit x j)"
proof -
  note s1 = smear_bits [of x 1 x, OF less_Suc_bit]
  have "bit (foldl smear_step x [1, 2, 4, 8, 0x10, 0x20]) i \<longleftrightarrow>
      (\<exists>j. i \<le> j \<and> j < i + 2 * (2 * (2 * (2 * (2 * (2 * 1))))) \<and> bit x j)"
    using smear_bits [OF smear_bits [OF smear_bits [OF smear_bits [OF smear_bits [OF s1]]]], of i]
    by simp
  then show ?thesis using bit_imp_le_length [of x] by fastforce
qed

lemma highest_bit:
  assumes "2 ^ n \<le> k" "k < 2 ^ Suc n"
  shows "bit (k :: int) n" "bit k j \<Longrightarrow> j \<le> n"
proof -
  have "k div 2 ^ n = 1" using assms by (intro int_div_pos_eq [where r = "k - 2 ^ n"]) simp_all
  then show "bit k n" by (simp add: bit_iff_odd)
  have "take_bit (Suc n) k = k" using assms by (intro take_bit_int_eq_self) simp_all
  moreover assume "bit k j"
  ultimately show "j \<le> n" by (metis bit_take_bit_iff less_Suc_eq_le)
qed

theorem ulong_length_in_bits_eq:
  assumes "2 ^ n \<le> uint x" "uint x < 2 ^ Suc n"
  shows "ulong_length_in_bits x = Suc n"
proof -
  let ?y = "foldl smear_step x [1, 2, 4, 8, 0x10, 0x20]"
  have "bit (uint ?y) i \<longleftrightarrow> i \<le> n" for i
    using smear_all [of x i] highest_bit [OF assms]
    by (simp only: bit_uint_iff) (meson bit_imp_le_length le_trans order.strict_trans1)
  then have "{i. bit (uint ?y) i} = {..n}" by auto
  then show ?thesis by (simp add: ulong_length_in_bits_def ulong_bit_count_correct popcount_def)
qed

lemma ulong_length_in_bits_0 [simp]: "ulong_length_in_bits 0 = 0"
  by (simp add: ulong_length_in_bits_def smear_step_def ulong_bit_count_correct)

lemma int_between_powers:
  assumes "0 < (k :: int)"
  obtains n where "2 ^ n \<le> k" "k < 2 ^ Suc n"
proof -
  define n where "n = (LEAST n. k < 2 ^ Suc n)"
  have "int (nat k) < int (2 ^ nat k)" by (simp only: of_nat_less_iff less_exp)
  then have "k < 2 ^ Suc (nat k)" using assms by simp
  then have "k < 2 ^ Suc n" unfolding n_def by (rule LeastI)
  moreover have "2 ^ n \<le> k"
  proof (cases n)
    case 0 then show ?thesis using assms by simp
  next
    case (Suc m)
    then have "\<not> k < 2 ^ Suc m" using not_less_Least [of m "\<lambda>n. k < 2 ^ Suc n"] by (simp add: n_def)
    with Suc show ?thesis by simp
  qed
  ultimately show ?thesis using that by blast
qed

lemma ulong_length_in_bits_bounds:
  assumes "x \<noteq> 0"
  shows "2 ^ (ulong_length_in_bits x - 1) \<le> uint x" "uint x < 2 ^ ulong_length_in_bits x"
    "0 < ulong_length_in_bits x" "ulong_length_in_bits x \<le> 64"
proof -
  have "0 < uint x" using assms using uint_bounds64(1) [of x] by (metis less_le uint_0_iff)
  then obtain n where n: "2 ^ n \<le> uint x" "uint x < 2 ^ Suc n" by (rule int_between_powers)
  then have "ulong_length_in_bits x = Suc n" by (rule ulong_length_in_bits_eq)
  moreover have "(2 :: int) ^ n < 2 ^ 64" using n uint_bounds64(2) [of x] by linarith
  then have "n < 64" by (metis one_less_numeral_iff power_less_imp_less_exp semiring_norm(76))
  ultimately show "2 ^ (ulong_length_in_bits x - 1) \<le> uint x" "uint x < 2 ^ ulong_length_in_bits x"
    "0 < ulong_length_in_bits x" "ulong_length_in_bits x \<le> 64"
    using n by simp_all
qed

section \<open>The lowest set bit\<close>

lemma below_lowest_bit:
  assumes "bit x n" "\<And>i. i < n \<Longrightarrow> \<not> bit x i"
  shows "uint (drop_bit 1 (x XOR (x - 1) :: ulong)) = 2 ^ n - 1"
proof -
  define v where "v = uint x div 2 ^ Suc n"
  have z: "take_bit n (uint x) = 0" by (rule bit_eqI) (simp add: bit_take_bit_iff bit_uint_iff assms(2))
  have "uint x = 2 ^ Suc n * v + take_bit (Suc n) (uint x)" by (simp add: v_def take_bit_eq_mod)
  moreover have "take_bit (Suc n) (uint x) = 2 ^ n"
    using z assms(1) bit_imp_le_length [OF assms(1)]
    by (simp add: take_bit_Suc_from_most bit_uint_iff)
  ultimately have X: "uint x = 2 ^ n + 2 ^ Suc n * v" by simp
  have v: "0 \<le> v" by (simp add: v_def pos_imp_zdiv_nonneg_iff)
  have x0: "x \<noteq> 0" using assms(1) by auto
  have "1 \<le> uint x" using x0 uint_bounds64(1) [of x] by (metis int_one_le_iff_zero_less less_le uint_0_iff)
  then have X1: "uint (x - 1) = (2 ^ n - 1) + 2 ^ Suc n * v" by (simp add: uint_sub_exact X)
  have "(2 :: int) ^ n XOR (2 ^ n - 1) = 2 ^ Suc n - 1"
    unfolding mask_eq_exp_minus_1 [symmetric]
    by (rule bit_eqI) (auto simp: bit_xor_iff bit_exp_iff bit_mask_iff)
  then have "uint (x XOR (x - 1)) = 2 ^ Suc n - 1"
    unfolding uint_xor X X1
    by (subst digitwise_int(3)) (simp_all add: less_trans [OF _ zero_less_power])
  then show ?thesis by (simp only: uint_drop_bit64) simp
qed

theorem ulong_first_set_bit_correct:
  assumes "bit x n" "\<And>i. i < n \<Longrightarrow> \<not> bit x i"
  shows "ulong_first_set_bit x = int n"
proof -
  note s = below_lowest_bit [OF assms]
  have x0: "x \<noteq> 0" using assms(1) by auto
  show ?thesis
  proof (cases n)
    case 0
    with s x0 show ?thesis by (simp add: ulong_first_set_bit_def uint_0_iff)
  next
    case (Suc m)
    have "(1 :: int) \<le> 2 ^ m" by simp
    then have "ulong_length_in_bits (drop_bit 1 (x XOR (x - 1))) = Suc m"
      using s Suc by (intro ulong_length_in_bits_eq) simp_all
    with Suc x0 show ?thesis by (simp add: ulong_first_set_bit_def)
  qed
qed

section \<open>Powers of two\<close>

lemma uint_positive: "(w :: 64 word) \<noteq> 0 \<Longrightarrow> 1 \<le> uint w"
  using uint_bounds64(1) [of w] by (metis int_one_le_iff_zero_less less_le uint_0_iff)

text \<open>The test for a power of two, and the remainder of such a division by masking.\<close>

lemma int_power_of_two:
  "0 < n \<Longrightarrow> n AND (n - 1) = 0 \<Longrightarrow> \<exists>k. n = (2 :: int) ^ k"
proof (induction "nat n" arbitrary: n rule: less_induct)
  case less
  show ?case
  proof (cases "even n")
    case True
    then obtain m where m: "n = 2 * m" by (elim evenE)
    have "(2 * m - 1) div 2 = m - 1" by presburger
    then have "n AND (n - 1) = 2 * (m AND (m - 1))" unfolding m by (subst and_int_rec) simp
    then have "m AND (m - 1) = 0" using less.prems(2) by simp
    then obtain k where "m = 2 ^ k" using less.hyps [of m] less.prems(1) m by auto
    then show ?thesis using m by (intro exI [of _ "Suc k"]) simp
  next
    case False
    then obtain m where m: "n = 2 * m + 1" by (elim oddE)
    have "n AND (n - 1) = 2 * m" unfolding m by (subst and_int_rec) simp
    then show ?thesis using less.prems m by (intro exI [of _ 0]) simp
  qed
qed

lemma power_of_two_digit:
  fixes d x :: long
  assumes "d AND (d - 1) = 0" "d \<noteq> 0"
  obtains k where "uint d = 2 ^ k" "uint ((d - 1) AND x) = uint x mod 2 ^ k"
proof -
  have m: "uint (d - 1) = uint d - 1" using uint_positive [OF assms(2)] by (simp add: uint_sub_exact)
  have "uint d AND (uint d - 1) = 0" using arg_cong [OF assms(1), of uint] by (simp add: uint_and m)
  then obtain k where k: "uint d = 2 ^ k" using int_power_of_two [of "uint d"] uint_positive [OF assms(2)] by auto
  have "uint ((d - 1) AND x) = mask k AND uint x" by (simp add: uint_and m k mask_eq_exp_minus_1)
  also have "\<dots> = uint x mod 2 ^ k" by (metis and.commute take_bit_eq_mask take_bit_eq_mod)
  finally show ?thesis using k that by blast
qed

lemma power_of_two_test:
  fixes d :: ulong
  assumes "uint d = 2 ^ k"
  shows "d AND (d - 1) = 0"
proof -
  have "uint (d - 1) = 2 ^ k - 1" using assms by (simp add: uint_sub_exact)
  then have "uint (d AND (d - 1)) = 2 ^ k AND mask k" using assms by (simp add: uint_and mask_eq_exp_minus_1)
  also have "\<dots> = 0" by (simp flip: take_bit_eq_mask)
  finally show ?thesis by (simp add: uint_0_iff)
qed

end
