(* ===== verification/Fixnum.thy ===== *)
theory Fixnum
  imports Scheme_Object Machine_Bits
begin

text \<open>
  The fixnum primitives (\<open>microcode/fixnum.c\<close>, \<open>fixnum.h\<close>, \<open>mul.c\<close>) on the 64-bit object
  format. A primitive takes its argument objects and returns either the error it
  signals, with the index of the offending argument, or the result object. The lemmas
  give the meaning of every primitive on the integers the argument objects denote: the
  exact result when it is a fixnum, and the error otherwise.
\<close>

section \<open>Primitive results\<close>

datatype prim_error = Wrong_Type nat | Bad_Range nat

type_synonym 'a prim = "prim_error + 'a"

definition with_arg :: "'a prim \<Rightarrow> ('a \<Rightarrow> 'b prim) \<Rightarrow> 'b prim" where
  "with_arg r f = (case r of Inl e \<Rightarrow> Inl e | Inr a \<Rightarrow> f a)"

lemma with_arg_simps [simp]: "with_arg (Inl e) f = Inl e" "with_arg (Inr a) f = f a"
  by (simp_all add: with_arg_def)

definition arg_fixnum :: "nat \<Rightarrow> ulong \<Rightarrow> long prim" where
  "arg_fixnum n argument =
     (if \<not> FIXNUM_P argument then Inl (Wrong_Type n) else Inr (FIXNUM_TO_LONG argument))"

definition arg_unsigned_fixnum :: "nat \<Rightarrow> ulong \<Rightarrow> ulong prim" where
  "arg_unsigned_fixnum n argument =
     (if \<not> FIXNUM_P argument then Inl (Wrong_Type n) else Inr (OBJECT_DATUM argument))"

definition BOOLEAN_RESULT :: "bool \<Rightarrow> ulong prim" where
  "BOOLEAN_RESULT b = Inr (BOOLEAN_TO_OBJECT b)"

definition FIXNUM_RESULT :: "long \<Rightarrow> ulong prim" where
  "FIXNUM_RESULT result =
     (if \<not> LONG_TO_FIXNUM_P result then Inl (Bad_Range 1) else Inr (LONG_TO_FIXNUM result))"

definition LOGICAL_RESULT :: "ulong \<Rightarrow> ulong prim" where
  "LOGICAL_RESULT fixnum = Inr (MAKE_OBJECT TC_FIXNUM (fixnum AND DATUM_MASK))"

section \<open>Predicates\<close>

definition Prim_zero_fixnum_p :: "ulong \<Rightarrow> ulong prim" where
  "Prim_zero_fixnum_p x = BOOLEAN_RESULT (FIXNUM_P x)"

definition Prim_index_fixnum_p :: "ulong \<Rightarrow> ulong prim" where
  "Prim_index_fixnum_p x = BOOLEAN_RESULT (UNSIGNED_FIXNUM_P x)"

definition Prim_zero_fixnum :: "ulong \<Rightarrow> ulong prim" where
  "Prim_zero_fixnum x = with_arg (arg_fixnum 1 x) (\<lambda>a. BOOLEAN_RESULT (a = 0))"

definition Prim_negative_fixnum :: "ulong \<Rightarrow> ulong prim" where
  "Prim_negative_fixnum x = with_arg (arg_fixnum 1 x) (\<lambda>a. BOOLEAN_RESULT (long_less a 0))"

definition Prim_positive_fixnum :: "ulong \<Rightarrow> ulong prim" where
  "Prim_positive_fixnum x = with_arg (arg_fixnum 1 x) (\<lambda>a. BOOLEAN_RESULT (long_less 0 a))"

definition Prim_equal_fixnum :: "ulong \<Rightarrow> ulong \<Rightarrow> ulong prim" where
  "Prim_equal_fixnum x y =
     with_arg (arg_fixnum 1 x) (\<lambda>a. with_arg (arg_fixnum 2 y) (\<lambda>b. BOOLEAN_RESULT (a = b)))"

definition Prim_less_fixnum :: "ulong \<Rightarrow> ulong \<Rightarrow> ulong prim" where
  "Prim_less_fixnum x y =
     with_arg (arg_fixnum 1 x) (\<lambda>a. with_arg (arg_fixnum 2 y) (\<lambda>b. BOOLEAN_RESULT (long_less a b)))"

definition Prim_greater_fixnum :: "ulong \<Rightarrow> ulong \<Rightarrow> ulong prim" where
  "Prim_greater_fixnum x y =
     with_arg (arg_fixnum 1 x) (\<lambda>a. with_arg (arg_fixnum 2 y) (\<lambda>b. BOOLEAN_RESULT (long_less b a)))"

section \<open>Operators\<close>

definition Prim_one_plus_fixnum :: "ulong \<Rightarrow> ulong prim" where
  "Prim_one_plus_fixnum x = with_arg (arg_fixnum 1 x) (\<lambda>a. FIXNUM_RESULT (a + 1))"

definition Prim_m_1_plus_fixnum :: "ulong \<Rightarrow> ulong prim" where
  "Prim_m_1_plus_fixnum x = with_arg (arg_fixnum 1 x) (\<lambda>a. FIXNUM_RESULT (a - 1))"

definition Prim_plus_fixnum :: "ulong \<Rightarrow> ulong \<Rightarrow> ulong prim" where
  "Prim_plus_fixnum x y =
     with_arg (arg_fixnum 1 x) (\<lambda>a. with_arg (arg_fixnum 2 y) (\<lambda>b. FIXNUM_RESULT (a + b)))"

definition Prim_minus_fixnum :: "ulong \<Rightarrow> ulong \<Rightarrow> ulong prim" where
  "Prim_minus_fixnum x y =
     with_arg (arg_fixnum 1 x) (\<lambda>a. with_arg (arg_fixnum 2 y) (\<lambda>b. FIXNUM_RESULT (a - b)))"

definition Prim_fixnum_negate :: "ulong \<Rightarrow> ulong prim" where
  "Prim_fixnum_negate x = with_arg (arg_fixnum 1 x) (\<lambda>a. FIXNUM_RESULT (- a))"

definition HALF_WORD_SIZE :: nat where [simp]: "HALF_WORD_SIZE = 32"
definition HALF_WORD_MASK :: ulong where "HALF_WORD_MASK = push_bit HALF_WORD_SIZE 1 - 1"
definition MAX_MIDDLE :: ulong where
  "MAX_MIDDLE = push_bit ((DATUM_LENGTH - 1) - HALF_WORD_SIZE) 1"
definition MAX_FIXNUM :: ulong where "MAX_FIXNUM = push_bit DATUM_LENGTH 1"

definition long_ABS :: "long \<Rightarrow> long" where
  "long_ABS x = (if long_less x 0 then - x else x)"

definition Mul :: "ulong \<Rightarrow> ulong \<Rightarrow> ulong" where
  "Mul Arg1 Arg2 =
     (let A0 = FIXNUM_TO_LONG Arg1; B0 = FIXNUM_TO_LONG Arg2;
          Sign = (long_less A0 0 = long_less B0 0);
          A = long_ABS A0; B = long_ABS B0;
          Hi_A = long_shr A HALF_WORD_SIZE AND HALF_WORD_MASK;
          Hi_B = long_shr B HALF_WORD_SIZE AND HALF_WORD_MASK
      in if Hi_A > 0 \<and> Hi_B > 0 then SHARP_F
         else let Lo_A = A AND HALF_WORD_MASK; Lo_B = B AND HALF_WORD_MASK;
                  Lo_C = Lo_A * Lo_B
              in if Lo_C \<ge> FIXNUM_SIGN_BIT then SHARP_F
                 else let Middle_C = Lo_A * Hi_B + Hi_A * Lo_B
                      in if Middle_C \<ge> MAX_MIDDLE then SHARP_F
                         else let C = Lo_C + push_bit HALF_WORD_SIZE Middle_C
                              in if LONG_TO_FIXNUM_P C
                                 then if Sign \<or> C = 0 then LONG_TO_UNSIGNED_FIXNUM C
                                      else LONG_TO_UNSIGNED_FIXNUM (MAX_FIXNUM - C)
                                 else SHARP_F)"

definition Prim_multiply_fixnum :: "ulong \<Rightarrow> ulong \<Rightarrow> ulong prim" where
  "Prim_multiply_fixnum x y =
     (if \<not> FIXNUM_P x then Inl (Wrong_Type 1)
      else if \<not> FIXNUM_P y then Inl (Wrong_Type 2)
      else let result = Mul x y
           in if result = SHARP_F then Inl (Bad_Range 1) else Inr result)"

definition Prim_divide_fixnum :: "ulong \<Rightarrow> ulong \<Rightarrow> (ulong \<times> ulong) prim" where
  "Prim_divide_fixnum x y =
     with_arg (arg_fixnum 1 x) (\<lambda>numerator. with_arg (arg_fixnum 2 y) (\<lambda>denominator.
       if denominator = 0 then Inl (Bad_Range 2)
       else let (quotient, remainder) =
              (if long_less numerator 0
               then let numerator = - numerator
                    in if long_less denominator 0
                       then let denominator = - denominator
                            in (long_div numerator denominator, - long_mod numerator denominator)
                       else (- long_div numerator denominator, - long_mod numerator denominator)
               else if long_less denominator 0
                    then let denominator = - denominator
                         in (- long_div numerator denominator, long_mod numerator denominator)
                    else (long_div numerator denominator, long_mod numerator denominator))
            in if \<not> LONG_TO_FIXNUM_P quotient then Inl (Bad_Range 1)
               else Inr (LONG_TO_FIXNUM quotient, LONG_TO_FIXNUM remainder)))"

definition FIXNUM_REMAINDER :: "long \<Rightarrow> long \<Rightarrow> long" where
  "FIXNUM_REMAINDER source1 source2 =
     (if long_less 0 source2
      then if \<not> long_less source1 0 then long_mod source1 source2
           else - long_mod (- source1) source2
      else if \<not> long_less source1 0 then long_mod source1 (- source2)
           else - long_mod (- source1) (- source2))"

definition FIXNUM_QUOTIENT :: "long \<Rightarrow> long \<Rightarrow> long" where
  "FIXNUM_QUOTIENT source1 source2 =
     (if long_less 0 source2
      then if \<not> long_less source1 0 then long_div source1 source2
           else - long_div (- source1) source2
      else if \<not> long_less source1 0 then - long_div source1 (- source2)
           else long_div (- source1) (- source2))"

definition Prim_fixnum_quotient :: "ulong \<Rightarrow> ulong \<Rightarrow> ulong prim" where
  "Prim_fixnum_quotient x y =
     with_arg (arg_fixnum 1 x) (\<lambda>numerator. with_arg (arg_fixnum 2 y) (\<lambda>denominator.
       if denominator = 0 then Inl (Bad_Range 2)
       else FIXNUM_RESULT (FIXNUM_QUOTIENT numerator denominator)))"

definition Prim_fixnum_remainder :: "ulong \<Rightarrow> ulong \<Rightarrow> ulong prim" where
  "Prim_fixnum_remainder x y =
     with_arg (arg_fixnum 1 x) (\<lambda>numerator. with_arg (arg_fixnum 2 y) (\<lambda>denominator.
       if denominator = 0 then Inl (Bad_Range 2)
       else FIXNUM_RESULT (FIXNUM_REMAINDER numerator denominator)))"

text \<open>Euclid's loop; the remainder decreases, so the loop ends on every pair of words.\<close>

function gcd_loop :: "long \<Rightarrow> long \<Rightarrow> long" where
  "gcd_loop x y = (if y = 0 then x else gcd_loop y (long_mod x y))"
  by pat_completeness auto
termination
proof (relation "measure (\<lambda>(x, y). nat \<bar>sint (y :: long)\<bar>)")
  fix x y :: long
  assume "y \<noteq> 0"
  then show "((y, long_mod x y), x, y) \<in> measure (\<lambda>(x, y). nat \<bar>sint y\<bar>)"
    using sint_long_mod [of y x] by simp
qed simp

declare gcd_loop.simps [simp del]

definition Prim_gcd_fixnum :: "ulong \<Rightarrow> ulong \<Rightarrow> ulong prim" where
  "Prim_gcd_fixnum x y =
     with_arg (arg_fixnum 1 x) (\<lambda>x. with_arg (arg_fixnum 2 y) (\<lambda>y.
       let x = (if long_less x 0 then - x else x); y = (if long_less y 0 then - y else y)
       in Inr (LONG_TO_FIXNUM (gcd_loop x y))))"

section \<open>Bitwise operations\<close>

definition BINARY_LOGICAL_OP :: "(ulong \<Rightarrow> ulong \<Rightarrow> ulong) \<Rightarrow> ulong \<Rightarrow> ulong \<Rightarrow> ulong prim" where
  "BINARY_LOGICAL_OP operation x y =
     with_arg (arg_unsigned_fixnum 1 x) (\<lambda>a. with_arg (arg_unsigned_fixnum 2 y) (\<lambda>b.
       LOGICAL_RESULT (operation a b)))"

definition Prim_fixnum_andc :: "ulong \<Rightarrow> ulong \<Rightarrow> ulong prim" where
  "Prim_fixnum_andc = BINARY_LOGICAL_OP (\<lambda>a b. a AND NOT b)"

definition Prim_fixnum_and :: "ulong \<Rightarrow> ulong \<Rightarrow> ulong prim" where
  "Prim_fixnum_and = BINARY_LOGICAL_OP (AND)"

definition Prim_fixnum_or :: "ulong \<Rightarrow> ulong \<Rightarrow> ulong prim" where
  "Prim_fixnum_or = BINARY_LOGICAL_OP (OR)"

definition Prim_fixnum_xor :: "ulong \<Rightarrow> ulong \<Rightarrow> ulong prim" where
  "Prim_fixnum_xor = BINARY_LOGICAL_OP (XOR)"

definition Prim_fixnum_not :: "ulong \<Rightarrow> ulong prim" where
  "Prim_fixnum_not x = with_arg (arg_unsigned_fixnum 1 x) (\<lambda>a. LOGICAL_RESULT (NOT a))"

definition MAX_BIT_SHIFT :: nat where [simp]: "MAX_BIT_SHIFT = DATUM_LENGTH"

text \<open>The shift distance is not negative where these are used.\<close>

definition RIGHT_SHIFT :: "long \<Rightarrow> long \<Rightarrow> long" where
  "RIGHT_SHIFT source number =
     (if sint number > int MAX_BIT_SHIFT then 0
      else if long_less source 0 then NOT (drop_bit (unat number) (NOT source))
      else long_shr source (unat number))"

definition LEFT_SHIFT :: "long \<Rightarrow> long \<Rightarrow> long" where
  "LEFT_SHIFT source number =
     (if sint number > int MAX_BIT_SHIFT then 0 else push_bit (unat number) source)"

definition FIXNUM_LSH :: "long \<Rightarrow> long \<Rightarrow> long" where
  "FIXNUM_LSH source number =
     (if \<not> long_less number 0 then LEFT_SHIFT source number else RIGHT_SHIFT source (- number))"

definition Prim_fixnum_lsh :: "ulong \<Rightarrow> ulong \<Rightarrow> ulong prim" where
  "Prim_fixnum_lsh x y =
     with_arg (arg_fixnum 1 x) (\<lambda>x. with_arg (arg_fixnum 2 y) (\<lambda>y.
       LOGICAL_RESULT (FIXNUM_LSH x y)))"

definition Prim_fxbit_count :: "ulong \<Rightarrow> ulong prim" where
  "Prim_fxbit_count x =
     with_arg (arg_fixnum 1 x) (\<lambda>n. FIXNUM_RESULT (word_of_nat (ulong_bit_count n)))"

definition Prim_fxlength :: "ulong \<Rightarrow> ulong prim" where
  "Prim_fxlength x =
     with_arg (arg_fixnum 1 x) (\<lambda>n.
       FIXNUM_RESULT (word_of_nat (ulong_length_in_bits (if long_less n 0 then NOT n else n))))"

definition fxfirst_set_bit :: "ulong \<Rightarrow> ulong prim" where
  "fxfirst_set_bit x =
     with_arg (arg_fixnum 1 x) (\<lambda>n. FIXNUM_RESULT (word_of_int (ulong_first_set_bit n)))"

section \<open>The meaning of the primitives\<close>

definition fixnum_range :: "int \<Rightarrow> bool" where
  "fixnum_range k \<longleftrightarrow> SMALLEST_FIXNUM \<le> k \<and> k \<le> BIGGEST_FIXNUM"

text \<open>The fixnum object of an integer, and the result of a primitive that checks its range.\<close>

definition fixnum_object :: "int \<Rightarrow> ulong" where
  "fixnum_object k = LONG_TO_FIXNUM (word_of_int k)"

definition fixnum_result :: "int \<Rightarrow> ulong prim" where
  "fixnum_result k = (if fixnum_range k then Inr (fixnum_object k) else Inl (Bad_Range 1))"

lemma fixnum_range_fixnum_int [simp]: "fixnum_range (fixnum_int x)"
  using fixnum_int_range [of x] by (simp add: fixnum_range_def)

lemma fixnum_range_long: "fixnum_range k \<Longrightarrow> - (2 ^ 63) \<le> k \<and> k < 2 ^ 63"
  by (simp add: fixnum_range_def)

lemma fixnum_object_props [simp]:
  "FIXNUM_P (fixnum_object k)"
  "fixnum_range k \<Longrightarrow> fixnum_int (fixnum_object k) = k"
  using fixnum_range_long [of k]
  by (simp_all add: fixnum_object_def fixnum_int_LONG_TO_FIXNUM sint_of_int64 fixnum_range_def)

lemma fixnum_object_fixnum_int: "FIXNUM_P x \<Longrightarrow> fixnum_object (fixnum_int x) = x"
  by (rule fixnum_int_inj) simp_all

lemma fixnum_object_eqI: "FIXNUM_P x \<Longrightarrow> fixnum_int x = k \<Longrightarrow> x = fixnum_object k"
  using fixnum_object_fixnum_int by metis

lemma LONG_TO_FIXNUM_sint: "LONG_TO_FIXNUM n = fixnum_object (sint n)"
  by (simp add: fixnum_object_def)

lemma FIXNUM_RESULT_sint: "FIXNUM_RESULT n = fixnum_result (sint n)"
  by (simp add: FIXNUM_RESULT_def fixnum_result_def LONG_TO_FIXNUM_P_iff fixnum_range_def
      LONG_TO_FIXNUM_sint)

lemma arg_fixnum_simps [simp]:
  "FIXNUM_P x \<Longrightarrow> arg_fixnum n x = Inr (FIXNUM_TO_LONG x)"
  "\<not> FIXNUM_P x \<Longrightarrow> arg_fixnum n x = Inl (Wrong_Type n)"
  "FIXNUM_P x \<Longrightarrow> arg_unsigned_fixnum n x = Inr (OBJECT_DATUM x)"
  "\<not> FIXNUM_P x \<Longrightarrow> arg_unsigned_fixnum n x = Inl (Wrong_Type n)"
  by (simp_all add: arg_fixnum_def arg_unsigned_fixnum_def)

lemma FIXNUM_TO_LONG_0_iff: "FIXNUM_P x \<Longrightarrow> FIXNUM_TO_LONG x = 0 \<longleftrightarrow> fixnum_int x = 0"
  using sint_0_iff [of "FIXNUM_TO_LONG x"] by (simp add: sint_FIXNUM_TO_LONG)

lemma long_less_FIXNUM_TO_LONG:
  "FIXNUM_P x \<Longrightarrow> FIXNUM_P y \<Longrightarrow>
   long_less (FIXNUM_TO_LONG x) (FIXNUM_TO_LONG y) \<longleftrightarrow> fixnum_int x < fixnum_int y"
  by (simp add: word_sless_alt sint_FIXNUM_TO_LONG)

text \<open>
  The arithmetic primitives compute in \<open>long\<close> and then check the range. What such a
  primitive needs of its \<open>long\<close> operation is that it is exact on fixnum operands.
\<close>

locale fixnum_operator =
  fixes f :: "long \<Rightarrow> long \<Rightarrow> long" and g :: "int \<Rightarrow> int \<Rightarrow> int" and divisor :: bool
  assumes exact: "fixnum_range (sint a) \<Longrightarrow> fixnum_range (sint b) \<Longrightarrow> (divisor \<longrightarrow> sint b \<noteq> 0) \<Longrightarrow>
    sint (f a b) = g (sint a) (sint b)"
begin

lemma checked_result:
  "FIXNUM_P x \<Longrightarrow> FIXNUM_P y \<Longrightarrow> (divisor \<longrightarrow> fixnum_int y \<noteq> 0) \<Longrightarrow>
   FIXNUM_RESULT (f (FIXNUM_TO_LONG x) (FIXNUM_TO_LONG y)) =
   fixnum_result (g (fixnum_int x) (fixnum_int y))"
  by (simp add: FIXNUM_RESULT_sint exact sint_FIXNUM_TO_LONG)

end

interpretation fix_plus: fixnum_operator "(+)" "(+)" False
  by unfold_locales (simp add: sint_arith64 fixnum_range_def)

interpretation fix_minus: fixnum_operator "(-)" "(-)" False
  by unfold_locales (simp add: sint_arith64 fixnum_range_def)

lemma sint_div_mod_nonneg:
  assumes "0 \<le> sint a" "0 \<le> sint b"
  shows "sint (long_div a b) = sint a div sint b" "sint (long_mod a b) = sint a mod sint b"
proof -
  have ua: "uint a < 2 ^ 63" "uint a = sint a" "uint b < 2 ^ 63" "uint b = sint b"
    using assms uint_bounds64 [of a] uint_bounds64 [of b] by (simp_all add: sint_cases64 split: if_splits)
  note q = int_div_bounds [OF assms]
  have d: "uint (long_div a b) = sint a div sint b" "uint (long_mod a b) = sint a mod sint b"
    using ua(1,3) by (simp_all only: uint_long_div uint_long_mod ua(2,4))
  moreover have "sint a < 2 ^ 63" using ua by linarith
  ultimately have "uint (long_div a b) < 2 ^ 63" "uint (long_mod a b) < 2 ^ 63"
    using q(2,4) by linarith+
  then show "sint (long_div a b) = sint a div sint b" "sint (long_mod a b) = sint a mod sint b"
    by (simp_all only: sint_eq_uint64 d)
qed

lemma long_abs_div_mod:
  fixes a b :: long
  assumes "fixnum_range (sint a)" "fixnum_range (sint b)" "sint b \<noteq> 0"
  defines "a' \<equiv> (if long_less a 0 then - a else a)" and "b' \<equiv> (if long_less b 0 then - b else b)"
  shows "sint a' = \<bar>sint a\<bar>" "sint b' = \<bar>sint b\<bar>"
    "sint (long_div a' b') = \<bar>sint a\<bar> div \<bar>sint b\<bar>" "sint (long_mod a' b') = \<bar>sint a\<bar> mod \<bar>sint b\<bar>"
    "sint (- long_div a' b') = - (\<bar>sint a\<bar> div \<bar>sint b\<bar>)"
    "sint (- long_mod a' b') = - (\<bar>sint a\<bar> mod \<bar>sint b\<bar>)"
proof -
  show a': "sint a' = \<bar>sint a\<bar>" and b': "sint b' = \<bar>sint b\<bar>"
    using assms(1,2) unfolding a'_def b'_def
    by (auto simp: word_sless_alt sint_arith64 fixnum_range_def)
  show d: "sint (long_div a' b') = \<bar>sint a\<bar> div \<bar>sint b\<bar>" "sint (long_mod a' b') = \<bar>sint a\<bar> mod \<bar>sint b\<bar>"
    by (simp_all add: sint_div_mod_nonneg a' b')
  have "0 \<le> \<bar>sint a\<bar> div \<bar>sint b\<bar>" "0 \<le> \<bar>sint a\<bar> mod \<bar>sint b\<bar>" by (rule int_div_bounds; simp)+
  then show "sint (- long_div a' b') = - (\<bar>sint a\<bar> div \<bar>sint b\<bar>)"
    "sint (- long_mod a' b') = - (\<bar>sint a\<bar> mod \<bar>sint b\<bar>)"
    using d by (subst sint_arith64(3); simp)+
qed

interpretation fix_quotient: fixnum_operator FIXNUM_QUOTIENT "(sdiv)" True
proof
  fix a b :: long
  assume r: "fixnum_range (sint a)" "fixnum_range (sint b)" "True \<longrightarrow> sint b \<noteq> 0"
  then show "sint (FIXNUM_QUOTIENT a b) = sint a sdiv sint b"
    using long_abs_div_mod [of a b] unfolding FIXNUM_QUOTIENT_def
    by (auto simp: sdiv_int_cases word_sless_alt split: if_splits)
qed

interpretation fix_remainder: fixnum_operator FIXNUM_REMAINDER "(smod)" True
proof
  fix a b :: long
  assume r: "fixnum_range (sint a)" "fixnum_range (sint b)" "True \<longrightarrow> sint b \<noteq> 0"
  then show "sint (FIXNUM_REMAINDER a b) = sint a smod sint b"
    using long_abs_div_mod [of a b] unfolding FIXNUM_REMAINDER_def
    by (auto simp: sdiv_int_cases word_sless_alt split: if_splits)
qed

theorem fixnum_arithmetic_exact:
  assumes "FIXNUM_P x" "FIXNUM_P y"
  shows "Prim_plus_fixnum x y = fixnum_result (fixnum_int x + fixnum_int y)
    \<and> Prim_minus_fixnum x y = fixnum_result (fixnum_int x - fixnum_int y)
    \<and> Prim_one_plus_fixnum x = fixnum_result (fixnum_int x + 1)
    \<and> Prim_m_1_plus_fixnum x = fixnum_result (fixnum_int x - 1)
    \<and> Prim_fixnum_negate x = fixnum_result (- fixnum_int x)
    \<and> Prim_fixnum_quotient x y = (if fixnum_int y = 0 then Inl (Bad_Range 2)
        else fixnum_result (fixnum_int x sdiv fixnum_int y))
    \<and> Prim_fixnum_remainder x y = (if fixnum_int y = 0 then Inl (Bad_Range 2)
        else fixnum_result (fixnum_int x smod fixnum_int y))"
proof -
  have r: "fixnum_range (fixnum_int x)" by simp
  have "FIXNUM_RESULT (FIXNUM_TO_LONG x + 1) = fixnum_result (fixnum_int x + 1)"
    "FIXNUM_RESULT (FIXNUM_TO_LONG x - 1) = fixnum_result (fixnum_int x - 1)"
    "FIXNUM_RESULT (- FIXNUM_TO_LONG x) = fixnum_result (- fixnum_int x)"
    using r assms by (simp_all add: FIXNUM_RESULT_sint sint_arith64 sint_FIXNUM_TO_LONG fixnum_range_def)
  then show ?thesis
    using assms by (simp add: Prim_plus_fixnum_def Prim_minus_fixnum_def Prim_one_plus_fixnum_def
        Prim_m_1_plus_fixnum_def Prim_fixnum_negate_def Prim_fixnum_quotient_def
        Prim_fixnum_remainder_def fix_plus.checked_result fix_minus.checked_result
        fix_quotient.checked_result fix_remainder.checked_result FIXNUM_TO_LONG_0_iff)
qed

subsection \<open>Multiplication\<close>

text \<open>The half-word product of \<open>Mul\<close>, on the magnitudes of the operands.\<close>

lemma half_word_product:
  fixes a b :: int
  defines "ha \<equiv> a div 2 ^ 32" and "la \<equiv> a mod 2 ^ 32"
    and "hb \<equiv> b div 2 ^ 32" and "lb \<equiv> b mod 2 ^ 32"
  assumes "0 \<le> a" "a \<le> 2 ^ 57" "0 \<le> b" "b \<le> 2 ^ 57"
  shows "a * b = la * lb + 2 ^ 32 * (la * hb + ha * lb) + 2 ^ 64 * (ha * hb)"
    and "0 \<le> la * lb" "la * lb < 2 ^ 64"
    and "0 \<le> la * hb" "la * hb < 2 ^ 57" "0 \<le> ha * lb" "ha * lb < 2 ^ 57" "0 \<le> ha * hb"
proof -
  have n: "0 \<le> ha" "0 \<le> la" "0 \<le> hb" "0 \<le> lb" "la < 2 ^ 32" "lb < 2 ^ 32"
    using assms(5,7) by (simp_all add: ha_def la_def hb_def lb_def pos_imp_zdiv_nonneg_iff)
  have h: "ha \<le> 2 ^ 25" "hb \<le> 2 ^ 25"
    using zdiv_mono1 [OF assms(6), of "2 ^ 32"] zdiv_mono1 [OF assms(8), of "2 ^ 32"]
    by (simp_all add: ha_def hb_def)
  have "a = la + 2 ^ 32 * ha" "b = lb + 2 ^ 32 * hb" by (simp_all add: ha_def la_def hb_def lb_def)
  then have "a * b = (la + 2 ^ 32 * ha) * (lb + 2 ^ 32 * hb)" by simp
  also have "\<dots> = la * lb + 2 ^ 32 * (la * hb + ha * lb) + 2 ^ 64 * (ha * hb)"
    by (simp add: algebra_simps)
  finally show "a * b = la * lb + 2 ^ 32 * (la * hb + ha * lb) + 2 ^ 64 * (ha * hb)" .
  show "0 \<le> la * lb" "0 \<le> la * hb" "0 \<le> ha * lb" "0 \<le> ha * hb" using n by simp_all
  have "la * lb \<le> (2 ^ 32 - 1) * (2 ^ 32 - 1)" using n by (intro mult_mono) simp_all
  then show "la * lb < 2 ^ 64" by simp
  have "la * hb \<le> (2 ^ 32 - 1) * 2 ^ 25" "lb * ha \<le> (2 ^ 32 - 1) * 2 ^ 25"
    using n h by (intro mult_mono; simp)+
  then show "la * hb < 2 ^ 57" "ha * lb < 2 ^ 57" by (simp_all add: mult.commute)
qed

lemma HALF_WORD_MASK_eq: "HALF_WORD_MASK = mask 32"
  by (simp add: HALF_WORD_MASK_def mask_eq_exp_minus_1)

lemma uint_half_words:
  assumes "0 \<le> sint A" "sint A \<le> 2 ^ 57"
  shows "uint (long_shr A HALF_WORD_SIZE AND HALF_WORD_MASK) = sint A div 2 ^ 32"
    and "uint (A AND HALF_WORD_MASK) = sint A mod 2 ^ 32"
proof -
  have u: "uint A = sint A" "uint A < 2 ^ 63"
    using assms uint_bounds64 [of A] by (auto simp: sint_cases64 split: if_splits)
  have "sint A div 2 ^ 32 \<le> 2 ^ 57 div 2 ^ 32" using assms by (intro zdiv_mono1) simp_all
  then have q: "0 \<le> sint A div 2 ^ 32" "sint A div 2 ^ 32 < 2 ^ 32"
    using assms by (simp_all add: pos_imp_zdiv_nonneg_iff)
  show "uint (long_shr A HALF_WORD_SIZE AND HALF_WORD_MASK) = sint A div 2 ^ 32"
    using q by (simp only: HALF_WORD_MASK_eq uint_and_mask64 HALF_WORD_SIZE_def
        uint_long_shr [OF u(2)] u(1)) simp
  show "uint (A AND HALF_WORD_MASK) = sint A mod 2 ^ 32"
    by (simp only: HALF_WORD_MASK_eq uint_and_mask64 u(1))
qed

lemma LONG_TO_UNSIGNED_FIXNUM_eq:
  assumes "uint C < 2 ^ 58"
  shows "LONG_TO_UNSIGNED_FIXNUM C = fixnum_object (if uint C < 2 ^ 57 then uint C else uint C - 2 ^ 58)"
  using assms
  by (intro fixnum_object_eqI)
    (simp_all add: LONG_TO_UNSIGNED_FIXNUM_def FIXNUM_P_def fixnum_int_def Let_def)

lemma three_part_sum:
  fixes P l m h :: int
  assumes "P = l + 2 ^ 32 * m + 2 ^ 64 * h" "0 \<le> l" "0 \<le> m" "0 \<le> h"
  shows "l \<le> P" "2 ^ 32 * m \<le> P" "1 \<le> h \<Longrightarrow> 2 ^ 57 \<le> P" "h = 0 \<Longrightarrow> P = l + 2 ^ 32 * m"
  using assms by simp_all

lemma half_product_words:
  assumes "0 \<le> sint A" "sint A \<le> 2 ^ 57" "0 \<le> sint B" "sint B \<le> 2 ^ 57"
  defines "Hi_A \<equiv> long_shr A HALF_WORD_SIZE AND HALF_WORD_MASK"
    and "Hi_B \<equiv> long_shr B HALF_WORD_SIZE AND HALF_WORD_MASK"
    and "Lo_A \<equiv> A AND HALF_WORD_MASK" and "Lo_B \<equiv> B AND HALF_WORD_MASK"
  shows "Hi_A > 0 \<and> Hi_B > 0 \<Longrightarrow> 2 ^ 57 \<le> sint A * sint B"
    and "uint (Lo_A * Lo_B) \<le> sint A * sint B"
    and "2 ^ 32 * uint (Lo_A * Hi_B + Hi_A * Lo_B) \<le> sint A * sint B"
    and "\<not> (Hi_A > 0 \<and> Hi_B > 0) \<Longrightarrow>
      sint A * sint B = uint (Lo_A * Lo_B) + 2 ^ 32 * uint (Lo_A * Hi_B + Hi_A * Lo_B)"
proof -
  note h = half_word_product [OF assms(1-4)]
  have u: "uint Hi_A = sint A div 2 ^ 32" "uint Hi_B = sint B div 2 ^ 32"
    "uint Lo_A = sint A mod 2 ^ 32" "uint Lo_B = sint B mod 2 ^ 32"
    by (simp_all only: Hi_A_def Hi_B_def Lo_A_def Lo_B_def uint_half_words assms(1-4))
  have lo: "uint (Lo_A * Lo_B) = uint Lo_A * uint Lo_B"
    using h(3) by (intro uint_mult_exact) (simp only: u)
  have m: "uint (Lo_A * Hi_B) = uint Lo_A * uint Hi_B" "uint (Hi_A * Lo_B) = uint Hi_A * uint Lo_B"
    using h(5,7) by (intro uint_mult_exact; simp only: u; simp)+
  have mid: "uint (Lo_A * Hi_B + Hi_A * Lo_B) = uint Lo_A * uint Hi_B + uint Hi_A * uint Lo_B"
    using h(5,7) by (subst uint_add_exact; simp only: m u; simp)
  have P: "sint A * sint B = uint (Lo_A * Lo_B) + 2 ^ 32 * uint (Lo_A * Hi_B + Hi_A * Lo_B) +
      2 ^ 64 * (uint Hi_A * uint Hi_B)"
    unfolding lo mid u by (rule h(1))
  have nn: "0 \<le> uint (Lo_A * Lo_B)" "0 \<le> uint (Lo_A * Hi_B + Hi_A * Lo_B)" "0 \<le> uint Hi_A * uint Hi_B"
    by simp_all
  note sum = three_part_sum [OF P nn]
  show "uint (Lo_A * Lo_B) \<le> sint A * sint B" by (rule sum(1))
  show "2 ^ 32 * uint (Lo_A * Hi_B + Hi_A * Lo_B) \<le> sint A * sint B" by (rule sum(2))
  {
    assume "Hi_A > 0 \<and> Hi_B > 0"
    then have "1 \<le> uint Hi_A" "1 \<le> uint Hi_B" by (simp_all add: word_less_def)
    then have "1 * 1 \<le> uint Hi_A * uint Hi_B" by (intro mult_mono) simp_all
    then show "2 ^ 57 \<le> sint A * sint B" by (intro sum(3)) simp
  }
  assume "\<not> (Hi_A > 0 \<and> Hi_B > 0)"
  then have "uint Hi_A * uint Hi_B = 0" by (auto simp: word_gt_0)
  then show "sint A * sint B = uint (Lo_A * Lo_B) + 2 ^ 32 * uint (Lo_A * Hi_B + Hi_A * Lo_B)"
    by (rule sum(4))
qed

lemma combine_halves:
  fixes L M :: ulong
  assumes "uint L < 2 ^ 57" "uint M < 2 ^ 25"
  shows "uint (L + push_bit HALF_WORD_SIZE M) = uint L + 2 ^ 32 * uint M"
    and "uint L + 2 ^ 32 * uint M < 2 ^ 63"
proof -
  have pm: "uint (push_bit HALF_WORD_SIZE M) = uint M * 2 ^ 32"
    unfolding HALF_WORD_SIZE_def by (rule uint_push_bit_exact) (use assms(2) in simp)
  show "uint (L + push_bit HALF_WORD_SIZE M) = uint L + 2 ^ 32 * uint M"
    using assms by (subst uint_add_exact; simp only: pm; simp)
  show "uint L + 2 ^ 32 * uint M < 2 ^ 63" using assms by simp
qed

lemma Mul_spec:
  assumes "FIXNUM_P x" "FIXNUM_P y"
  shows "Mul x y = (if \<bar>fixnum_int x * fixnum_int y\<bar> < 2 ^ 57
    then fixnum_object (fixnum_int x * fixnum_int y) else SHARP_F)"
proof -
  define A where "A = long_ABS (FIXNUM_TO_LONG x)"
  define B where "B = long_ABS (FIXNUM_TO_LONG y)"
  have r: "SMALLEST_FIXNUM \<le> fixnum_int z" "fixnum_int z \<le> BIGGEST_FIXNUM" for z
    by (rule fixnum_int_range)+
  have ab: "sint A = \<bar>fixnum_int x\<bar>" "sint B = \<bar>fixnum_int y\<bar>"
    using assms r [of x] r [of y]
    by (auto simp: A_def B_def long_ABS_def word_sless_alt sint_FIXNUM_TO_LONG sint_arith64)
  define P where "P = sint A * sint B"
  have P: "P = \<bar>fixnum_int x * fixnum_int y\<bar>" by (simp add: P_def ab abs_mult)
  have bnd: "0 \<le> sint A" "sint A \<le> 2 ^ 57" "0 \<le> sint B" "sint B \<le> 2 ^ 57"
    using r [of x] r [of y] by (auto simp: ab)
  note hp = half_product_words [OF bnd, folded P_def]
  have sgn: "(long_less (FIXNUM_TO_LONG x) 0 = long_less (FIXNUM_TO_LONG y) 0) =
      (fixnum_int x < 0 \<longleftrightarrow> fixnum_int y < 0)"
    using assms by (simp add: word_sless_alt sint_FIXNUM_TO_LONG)
  let ?Hi = "\<lambda>A. long_shr A HALF_WORD_SIZE AND HALF_WORD_MASK" and ?Lo = "\<lambda>A. A AND HALF_WORD_MASK"
  let ?L = "?Lo A * ?Lo B" and ?M = "?Lo A * ?Hi B + ?Hi A * ?Lo B"
  have masks: "w \<ge> FIXNUM_SIGN_BIT \<longleftrightarrow> 2 ^ 57 \<le> uint w" "w \<ge> MAX_MIDDLE \<longleftrightarrow> 2 ^ 25 \<le> uint w" for w
    by (simp_all add: MAX_MIDDLE_def word_le_def)
  show ?thesis
  proof (cases "(?Hi A > 0 \<and> ?Hi B > 0) \<or> ?L \<ge> FIXNUM_SIGN_BIT \<or> ?M \<ge> MAX_MIDDLE")
    case True
    then have "2 ^ 57 \<le> P"
    proof (elim disjE)
      assume "?L \<ge> FIXNUM_SIGN_BIT"
      then show ?thesis unfolding masks using hp(2) by (rule order_trans)
    next
      assume "?M \<ge> MAX_MIDDLE"
      then have "2 ^ 32 * 2 ^ 25 \<le> 2 ^ 32 * uint ?M" unfolding masks by (intro mult_left_mono) simp_all
      then show ?thesis using order_trans [OF _ hp(3)] by simp
    qed (rule hp(1))
    moreover have "Mul x y = SHARP_F"
      using True unfolding Mul_def Let_def A_def [symmetric] B_def [symmetric]
      by (auto simp only: simp_thms split: if_split)
    ultimately show ?thesis by (simp add: P)
  next
    case False
    let ?C = "?L + push_bit HALF_WORD_SIZE ?M"
    have e: "P = uint ?L + 2 ^ 32 * uint ?M" using False hp(4) by blast
    have lm: "uint ?L < 2 ^ 57" "uint ?M < 2 ^ 25" using False unfolding masks not_le [symmetric] by blast+
    have C: "uint ?C = P" and P63: "P < 2 ^ 63" using combine_halves [OF lm] by (simp_all only: e)
    have P0: "0 \<le> P" "P < 2 ^ 63" using uint_bounds64(1) [of ?C] P63 by (simp_all only: C)
    have sC: "sint ?C = P" using P0 C by (simp only: sint_eq_uint64)
    have fits: "LONG_TO_FIXNUM_P ?C \<longleftrightarrow> P < 2 ^ 57"
      unfolding LONG_TO_FIXNUM_P_iff sC using P0 by auto
    have "Mul x y = (if P < 2 ^ 57 then
        if (fixnum_int x < 0 \<longleftrightarrow> fixnum_int y < 0) \<or> ?C = 0 then LONG_TO_UNSIGNED_FIXNUM ?C
        else LONG_TO_UNSIGNED_FIXNUM (MAX_FIXNUM - ?C) else SHARP_F)"
      using False unfolding Mul_def Let_def A_def [symmetric] B_def [symmetric] sgn fits
      by (auto simp only: simp_thms split: if_split)
    moreover have "?C = 0 \<longleftrightarrow> P = 0" using C by (metis uint_0_iff)
    moreover have "LONG_TO_UNSIGNED_FIXNUM ?C = fixnum_object P" if "P < 2 ^ 57"
      using that C LONG_TO_UNSIGNED_FIXNUM_eq [of ?C] by simp
    moreover have "LONG_TO_UNSIGNED_FIXNUM (MAX_FIXNUM - ?C) = fixnum_object (- P)"
      if "P < 2 ^ 57" "P \<noteq> 0"
    proof -
      have "uint (MAX_FIXNUM - ?C) = 2 ^ 58 - P"
        using that C by (subst uint_sub_exact) (simp_all add: MAX_FIXNUM_def)
      then show ?thesis using that P0 LONG_TO_UNSIGNED_FIXNUM_eq [of "MAX_FIXNUM - ?C"] by simp
    qed
    ultimately show ?thesis
      by (auto simp: P abs_if mult_less_0_iff not_less)
  qed
qed

lemma SHARP_F_eq_0: "SHARP_F = 0"
  by (simp add: SHARP_F_def MAKE_OBJECT_def)

lemma fixnum_object_not_SHARP_F: "fixnum_object k \<noteq> SHARP_F"
  using fixnum_object_props(1) [of k] by (auto simp: SHARP_F_eq_0 FIXNUM_P_iff)

theorem multiply_fixnum_spec:
  assumes "FIXNUM_P x" "FIXNUM_P y"
  shows "Prim_multiply_fixnum x y =
    (if \<bar>fixnum_int x * fixnum_int y\<bar> < 2 ^ 57
     then fixnum_result (fixnum_int x * fixnum_int y) else Inl (Bad_Range 1))"
  using assms fixnum_object_not_SHARP_F
  by (auto simp: Prim_multiply_fixnum_def Mul_spec fixnum_result_def fixnum_range_def)

subsection \<open>Division\<close>

theorem divide_fixnum_spec:
  assumes "FIXNUM_P x" "FIXNUM_P y"
  shows "Prim_divide_fixnum x y =
    (if fixnum_int y = 0 then Inl (Bad_Range 2)
     else if fixnum_range (fixnum_int x sdiv fixnum_int y)
     then Inr (fixnum_object (fixnum_int x sdiv fixnum_int y), fixnum_object (fixnum_int x smod fixnum_int y))
     else Inl (Bad_Range 1))"
proof (cases "fixnum_int y = 0")
  case False
  let ?a = "FIXNUM_TO_LONG x" and ?b = "FIXNUM_TO_LONG y"
  have s: "sint ?a = fixnum_int x" "sint ?b = fixnum_int y"
    using assms by (simp_all add: sint_FIXNUM_TO_LONG)
  have n: "long_less ?a 0 \<longleftrightarrow> fixnum_int x < 0" "long_less ?b 0 \<longleftrightarrow> fixnum_int y < 0" "?b \<noteq> 0"
    using False by (simp_all add: word_sless_alt s sint_0_iff [symmetric])
  note l = long_abs_div_mod [of ?a ?b, unfolded s, OF fixnum_range_fixnum_int fixnum_range_fixnum_int
      False, unfolded n]
  have q: "Prim_divide_fixnum x y = (let q = fixnum_int x sdiv fixnum_int y in
      if \<not> fixnum_range q then Inl (Bad_Range 1)
      else Inr (fixnum_object q, fixnum_object (fixnum_int x smod fixnum_int y)))"
    using l(3-6) n(3) assms
    by (cases "fixnum_int x < 0"; cases "fixnum_int y < 0")
      (simp_all only: Prim_divide_fixnum_def arg_fixnum_simps with_arg_simps Let_def n if_True
        if_False split prod.case LONG_TO_FIXNUM_P_iff LONG_TO_FIXNUM_sint fixnum_range_def
        sdiv_int_cases [OF False] simp_thms)
  with False show ?thesis by (simp add: Let_def)
qed (simp add: Prim_divide_fixnum_def FIXNUM_TO_LONG_0_iff assms)

text \<open>Euclid's loop computes the greatest common divisor of its operands.\<close>

lemma gcd_loop_correct:
  "0 \<le> sint x \<Longrightarrow> 0 \<le> sint y \<Longrightarrow> sint (gcd_loop x y) = gcd (sint x) (sint y)"
proof (induction x y rule: gcd_loop.induct)
  case (1 x y)
  show ?case
  proof (cases "y = 0")
    case True
    with "1.prems" show ?thesis by (simp add: gcd_loop.simps)
  next
    case False
    have "sint (long_mod x y) = sint x mod sint y" using "1.prems" by (rule sint_div_mod_nonneg)
    moreover have "0 \<le> sint x mod sint y"
      using "1.prems" by (intro int_div_bounds) simp_all
    ultimately show ?thesis
      using "1.IH" [OF False] "1.prems" False
      by (simp add: gcd_loop.simps [of x y] gcd_red_int [of "sint x" "sint y"])
  qed
qed

theorem gcd_fixnum_spec:
  assumes "FIXNUM_P x" "FIXNUM_P y"
  shows "Prim_gcd_fixnum x y = Inr (fixnum_object (gcd (fixnum_int x) (fixnum_int y)))"
proof -
  have a: "sint (if long_less (FIXNUM_TO_LONG z) 0 then - FIXNUM_TO_LONG z else FIXNUM_TO_LONG z) =
      \<bar>fixnum_int z\<bar>" if "FIXNUM_P z" for z
    using that fixnum_int_range [of z]
    by (auto simp: word_sless_alt sint_FIXNUM_TO_LONG sint_arith64)
  show ?thesis
    using assms by (simp add: Prim_gcd_fixnum_def Let_def LONG_TO_FIXNUM_sint gcd_loop_correct a)
qed

subsection \<open>Bitwise operations\<close>

text \<open>
  The datum of a fixnum is the two's complement of the integer in 58 bits: bit \<open>i\<close> of the
  integer is bit \<open>i\<close> of the datum, and the sign bit for every higher \<open>i\<close>.
\<close>

lemma fixnum_int_signed_take_bit: "fixnum_int x = signed_take_bit 57 (uint x)"
proof -
  have t: "take_bit 58 (uint x) = uint (OBJECT_DATUM x)"
    by (simp add: uint_OBJECT_DATUM take_bit_eq_mod)
  have "bit (uint x) 57 \<longleftrightarrow> bit (uint (OBJECT_DATUM x)) 57"
    unfolding t [symmetric] by (simp add: bit_take_bit_iff)
  also have "\<dots> \<longleftrightarrow> \<not> uint (OBJECT_DATUM x) < 2 ^ 57"
  proof (cases "uint (OBJECT_DATUM x) < 2 ^ 57")
    case False
    then show ?thesis using highest_bit [of 57 "uint (OBJECT_DATUM x)"] OBJECT_DATUM_bound [of x] by simp
  qed (simp add: bit_iff_odd)
  finally show ?thesis
    by (simp add: signed_take_bit_eq_take_bit_minus t fixnum_int_def Let_def)
qed

lemma bit_fixnum_int: "bit (fixnum_int x) i \<longleftrightarrow> bit x (min i 57)"
  by (simp add: fixnum_int_signed_take_bit bit_signed_take_bit_iff bit_uint_iff min.commute
      min_less_iff_disj)

lemma LOGICAL_RESULT_bits:
  obtains z where "LOGICAL_RESULT w = Inr z" "FIXNUM_P z" "\<And>i. bit (fixnum_int z) i \<longleftrightarrow> bit w (min i 57)"
proof
  let ?z = "LONG_TO_FIXNUM w"
  show "LOGICAL_RESULT w = Inr ?z" by (simp add: LOGICAL_RESULT_def LONG_TO_FIXNUM_def)
  show "FIXNUM_P ?z" by simp
  have "OBJECT_DATUM ?z = OBJECT_DATUM w"
    by (simp add: LONG_TO_FIXNUM_def OBJECT_DATUM_def [symmetric] OBJECT_bounds_num
        del: DATUM_MASK_def)
  then have "fixnum_int ?z = fixnum_int w" by (simp add: fixnum_int_def)
  then show "bit (fixnum_int ?z) i \<longleftrightarrow> bit w (min i 57)" for i by (simp add: bit_fixnum_int)
qed

lemma bit_OBJECT_DATUM: "i \<le> 57 \<Longrightarrow> bit (OBJECT_DATUM x) i \<longleftrightarrow> bit x i"
  by (simp add: OBJECT_DATUM_def DATUM_MASK_eq bit_and_iff bit_mask_iff del: DATUM_MASK_def)

locale fixnum_bitwise =
  fixes f :: "ulong \<Rightarrow> ulong \<Rightarrow> ulong" and g :: "int \<Rightarrow> int \<Rightarrow> int" and h :: "bool \<Rightarrow> bool \<Rightarrow> bool"
  assumes word_bits: "i < 64 \<Longrightarrow> bit (f a b) i \<longleftrightarrow> h (bit a i) (bit b i)"
    and int_bits: "bit (g k l) i \<longleftrightarrow> h (bit k i) (bit l i)"
begin

lemma logical_op:
  assumes "FIXNUM_P x" "FIXNUM_P y"
  shows "BINARY_LOGICAL_OP f x y = Inr (fixnum_object (g (fixnum_int x) (fixnum_int y)))"
proof -
  obtain z where z: "LOGICAL_RESULT (f (OBJECT_DATUM x) (OBJECT_DATUM y)) = Inr z" "FIXNUM_P z"
    and b: "\<And>i. bit (fixnum_int z) i \<longleftrightarrow> bit (f (OBJECT_DATUM x) (OBJECT_DATUM y)) (min i 57)"
    by (rule LOGICAL_RESULT_bits [where w = "f (OBJECT_DATUM x) (OBJECT_DATUM y)"]) blast
  have "fixnum_int z = g (fixnum_int x) (fixnum_int y)"
    by (rule bit_eqI) (simp only: b int_bits, simp add: bit_fixnum_int word_bits bit_OBJECT_DATUM
        min_less_iff_disj)
  then have "z = fixnum_object (g (fixnum_int x) (fixnum_int y))"
    using z(2) by (intro fixnum_object_eqI) simp_all
  with z assms show ?thesis by (simp add: BINARY_LOGICAL_OP_def)
qed

end

interpretation fix_andc: fixnum_bitwise "\<lambda>a b. a AND NOT b" "\<lambda>a b. a AND NOT b" "\<lambda>p q. p \<and> \<not> q"
  by unfold_locales (simp_all add: bit_simps)

interpretation fix_and: fixnum_bitwise "(AND)" "(AND)" "(\<and>)"
  by unfold_locales (simp_all add: bit_simps)

interpretation fix_or: fixnum_bitwise "(OR)" "(OR)" "(\<or>)"
  by unfold_locales (simp_all add: bit_simps)

interpretation fix_xor: fixnum_bitwise "(XOR)" "(XOR)" "\<lambda>p q. p \<noteq> q"
  by unfold_locales (simp_all add: bit_simps)

theorem fixnum_bitwise_exact:
  assumes "FIXNUM_P x" "FIXNUM_P y"
  shows "Prim_fixnum_and x y = Inr (fixnum_object (fixnum_int x AND fixnum_int y))
    \<and> Prim_fixnum_andc x y = Inr (fixnum_object (fixnum_int x AND NOT (fixnum_int y)))
    \<and> Prim_fixnum_or x y = Inr (fixnum_object (fixnum_int x OR fixnum_int y))
    \<and> Prim_fixnum_xor x y = Inr (fixnum_object (fixnum_int x XOR fixnum_int y))
    \<and> Prim_fixnum_not x = Inr (fixnum_object (NOT (fixnum_int x)))"
proof -
  obtain z where z: "LOGICAL_RESULT (NOT (OBJECT_DATUM x)) = Inr z" "FIXNUM_P z"
    and b: "\<And>i. bit (fixnum_int z) i \<longleftrightarrow> bit (NOT (OBJECT_DATUM x)) (min i 57)"
    by (rule LOGICAL_RESULT_bits [where w = "NOT (OBJECT_DATUM x)"]) blast
  have "fixnum_int z = NOT (fixnum_int x)"
    by (rule bit_eqI) (simp only: b bit_not_iff, simp add: bit_fixnum_int bit_OBJECT_DATUM
        min_less_iff_disj)
  then have "z = fixnum_object (NOT (fixnum_int x))" using z(2) by (intro fixnum_object_eqI) simp_all
  with z have "Prim_fixnum_not x = Inr (fixnum_object (NOT (fixnum_int x)))"
    using assms by (simp add: Prim_fixnum_not_def)
  then show ?thesis
    using assms by (simp add: Prim_fixnum_and_def Prim_fixnum_andc_def Prim_fixnum_or_def
        Prim_fixnum_xor_def fix_and.logical_op fix_andc.logical_op fix_or.logical_op fix_xor.logical_op)
qed

lemma LOGICAL_RESULT_eq: "LOGICAL_RESULT w = Inr (fixnum_object (sint w))"
  by (simp add: LOGICAL_RESULT_def LONG_TO_FIXNUM_sint [symmetric] LONG_TO_FIXNUM_def)

lemma fixnum_object_push_bit:
  assumes "FIXNUM_P x"
  shows "fixnum_object (sint (push_bit n (FIXNUM_TO_LONG x))) = fixnum_object (push_bit n (fixnum_int x))"
proof -
  have "word_of_int (push_bit n (fixnum_int x)) = push_bit n (FIXNUM_TO_LONG x)"
    using assms by (simp add: push_bit_eq_mult flip: sint_FIXNUM_TO_LONG)
  then show ?thesis by (simp add: fixnum_object_def)
qed

lemma push_bit_large: "58 < n \<Longrightarrow> fixnum_object (push_bit n k) = fixnum_object 0"
proof -
  assume "58 < n"
  have "(word_of_int (push_bit n k) :: ulong) AND DATUM_MASK = 0"
    using \<open>58 < n\<close> by (intro bit_eqI)
      (auto simp: DATUM_MASK_eq bit_simps simp del: DATUM_MASK_def)
  then show ?thesis by (simp add: fixnum_object_def LONG_TO_FIXNUM_def)
qed

lemma RIGHT_SHIFT_sint:
  assumes "fixnum_range (sint a)" "0 \<le> sint n" "sint n \<le> 58"
  shows "sint (RIGHT_SHIFT a n) = drop_bit (nat (sint n)) (sint a)"
proof -
  have u: "unat n = nat (sint n)"
    using assms(2) by (rule unat_eq_sint64)
  have s: "sint (signed_drop_bit m a) = drop_bit m (sint a)" for m
    by (rule sint_signed_drop_bit_eq)
  have "NOT (drop_bit m (NOT a)) = signed_drop_bit m a" if "long_less a 0" "m \<le> 58" for m
  proof (rule bit_word_eqI)
    fix i assume "i < LENGTH(64)"
    moreover have "bit a 63" using that(1) bit_last_iff [of a] by (simp add: word_sless_alt)
    ultimately show "bit (NOT (drop_bit m (NOT a))) i = bit (signed_drop_bit m a) i"
      using bit_imp_le_length [of a "m + i"]
      by (auto simp: bit_not_iff bit_drop_bit_eq bit_signed_drop_bit_iff)
  qed
  then show ?thesis
    using assms by (simp add: RIGHT_SHIFT_def u s long_shr_def)
qed

theorem fixnum_lsh_spec:
  assumes "FIXNUM_P x" "FIXNUM_P y"
  shows "Prim_fixnum_lsh x y = Inr (fixnum_object
    (let k = fixnum_int y in
     if 0 \<le> k then push_bit (nat k) (fixnum_int x)
     else if k < - 58 then 0 else drop_bit (nat (- k)) (fixnum_int x)))"
proof -
  let ?a = "FIXNUM_TO_LONG x" and ?n = "FIXNUM_TO_LONG y"
  have s: "sint ?a = fixnum_int x" "sint ?n = fixnum_int y" "sint (- ?n) = - fixnum_int y"
    using assms fixnum_int_range [of y] by (simp_all add: sint_FIXNUM_TO_LONG sint_arith64)
  have "fixnum_object (sint (FIXNUM_LSH ?a ?n)) = fixnum_object (let k = fixnum_int y in
     if 0 \<le> k then push_bit (nat k) (fixnum_int x)
     else if k < - 58 then 0 else drop_bit (nat (- k)) (fixnum_int x))"
  proof (cases "0 \<le> fixnum_int y")
    case True
    then have "unat ?n = nat (fixnum_int y)"
      using unat_eq_sint64 [of ?n] by (simp add: s)
    then show ?thesis
      using True assms push_bit_large [of "nat (fixnum_int y)" "fixnum_int x"]
      by (auto simp: FIXNUM_LSH_def LEFT_SHIFT_def word_sless_alt s fixnum_object_push_bit)
  next
    case False
    then show ?thesis
      using RIGHT_SHIFT_sint [of ?a "- ?n"]
      by (auto simp: FIXNUM_LSH_def word_sless_alt s Let_def RIGHT_SHIFT_def [of ?a "- ?n"])
  qed
  then show ?thesis using assms by (simp add: Prim_fixnum_lsh_def LOGICAL_RESULT_eq)
qed

subsection \<open>Bit counts\<close>

lemma uint_FIXNUM_TO_LONG: "FIXNUM_P x \<Longrightarrow> uint (FIXNUM_TO_LONG x) = take_bit 64 (fixnum_int x)"
  using uint_sint [of "FIXNUM_TO_LONG x"] by (simp add: sint_FIXNUM_TO_LONG)

lemma popcount_le: "0 \<le> k \<Longrightarrow> k < 2 ^ n \<Longrightarrow> popcount k \<le> n"
proof -
  assume "0 \<le> k" "k < 2 ^ n"
  then have "take_bit n k = k" by (simp add: take_bit_int_eq_self)
  then have "bit k i \<Longrightarrow> i < n" for i by (metis bit_take_bit_iff)
  then have "{i. bit k i} \<subseteq> {..<n}" by auto
  then show ?thesis unfolding popcount_def using card_mono [of "{..<n}"] by fastforce
qed

lemma small_fixnum_result:
  "n \<le> 64 \<Longrightarrow> FIXNUM_RESULT (word_of_nat n) = Inr (fixnum_object (int n))"
proof -
  assume n: "n \<le> 64"
  have "sint (word_of_nat n :: long) = int n"
    using n sint_of_int64 [of "int n"] by simp
  then show ?thesis using n by (simp add: FIXNUM_RESULT_sint fixnum_result_def fixnum_range_def)
qed

theorem fixnum_bit_count_spec:
  assumes "FIXNUM_P x"
  shows "Prim_fxbit_count x = Inr (fixnum_object (int (popcount (take_bit 64 (fixnum_int x)))))"
  using assms popcount_le [OF uint_bounds64, of "FIXNUM_TO_LONG x"]
  by (simp add: Prim_fxbit_count_def ulong_bit_count_correct uint_FIXNUM_TO_LONG small_fixnum_result)

lemma uint_length_operand:
  assumes "FIXNUM_P x"
  shows "uint (if long_less (FIXNUM_TO_LONG x) 0 then NOT (FIXNUM_TO_LONG x) else FIXNUM_TO_LONG x) =
    (if fixnum_int x < 0 then - fixnum_int x - 1 else fixnum_int x)"
proof (cases "fixnum_int x < 0")
  case True
  have "NOT (FIXNUM_TO_LONG x) = word_of_int (- fixnum_int x - 1)"
    using assms by (simp add: not_eq_complement flip: sint_FIXNUM_TO_LONG)
  then have "sint (NOT (FIXNUM_TO_LONG x)) = - fixnum_int x - 1"
    using sint_of_int64 [of "- fixnum_int x - 1"] fixnum_int_range [of x]
    by (simp only: SMALLEST_FIXNUM_def BIGGEST_FIXNUM_def) simp
  then show ?thesis
    using True assms uint_eq_sint64 [of "NOT (FIXNUM_TO_LONG x)"]
    by (simp add: word_sless_alt sint_FIXNUM_TO_LONG)
next
  case False
  then show ?thesis
    using assms uint_eq_sint64 [of "FIXNUM_TO_LONG x"] by (simp add: word_sless_alt sint_FIXNUM_TO_LONG)
qed

text \<open>
  \<open>FXLENGTH\<close> gives the number of bits of the two's complement of its argument, the sign
  bit not counted.
\<close>

theorem fixnum_length_spec:
  assumes "FIXNUM_P x"
    and "(if fixnum_int x < 0 then - fixnum_int x - 1 else fixnum_int x) = m"
  shows "m = 0 \<Longrightarrow> Prim_fxlength x = Inr (fixnum_object 0)"
    and "2 ^ n \<le> m \<Longrightarrow> m < 2 ^ Suc n \<Longrightarrow> Prim_fxlength x = Inr (fixnum_object (int (Suc n)))"
proof -
  let ?w = "if long_less (FIXNUM_TO_LONG x) 0 then NOT (FIXNUM_TO_LONG x) else FIXNUM_TO_LONG x"
  have m: "uint ?w = m" using uint_length_operand [OF assms(1)] assms(2) by simp
  have p: "Prim_fxlength x = FIXNUM_RESULT (word_of_nat (ulong_length_in_bits ?w))"
    using assms(1) by (simp add: Prim_fxlength_def)
  show "m = 0 \<Longrightarrow> Prim_fxlength x = Inr (fixnum_object 0)"
    using m small_fixnum_result [of 0] unfolding p by (simp add: uint_0_iff)
  assume n: "2 ^ n \<le> m" "m < 2 ^ Suc n"
  then have l: "ulong_length_in_bits ?w = Suc n" using m by (intro ulong_length_in_bits_eq) simp_all
  have "?w \<noteq> 0" using n(1) m zero_less_power [of "2 :: int" n] by auto
  then have "Suc n \<le> 64" using ulong_length_in_bits_bounds(4) [of ?w] l by simp
  then show "Prim_fxlength x = Inr (fixnum_object (int (Suc n)))"
    unfolding p l by (rule small_fixnum_result)
qed

theorem fixnum_first_set_bit_spec:
  assumes "FIXNUM_P x"
  shows "fixnum_int x = 0 \<Longrightarrow> fxfirst_set_bit x = Inr (fixnum_object (- 1))"
    and "bit (fixnum_int x) n \<Longrightarrow> (\<And>i. i < n \<Longrightarrow> \<not> bit (fixnum_int x) i) \<Longrightarrow>
      fxfirst_set_bit x = Inr (fixnum_object (int n))"
proof -
  let ?w = "FIXNUM_TO_LONG x"
  show "fixnum_int x = 0 \<Longrightarrow> fxfirst_set_bit x = Inr (fixnum_object (- 1))"
    using assms by (simp add: fxfirst_set_bit_def ulong_first_set_bit_def FIXNUM_TO_LONG_0_iff
        FIXNUM_RESULT_sint fixnum_result_def fixnum_range_def)
  have b: "bit ?w i \<longleftrightarrow> bit (fixnum_int x) i" if "i < 64" for i
    using that bit_uint_iff [of ?w i] assms by (simp add: uint_FIXNUM_TO_LONG bit_take_bit_iff)
  assume n: "bit (fixnum_int x) n" "\<And>i. i < n \<Longrightarrow> \<not> bit (fixnum_int x) i"
  have "n \<le> 57"
  proof (rule ccontr)
    assume "\<not> n \<le> 57"
    then have "bit (fixnum_int x) 57" using n(1) by (simp add: bit_fixnum_int)
    with n(2) \<open>\<not> n \<le> 57\<close> show False by simp
  qed
  then have "ulong_first_set_bit ?w = int n"
    using n by (intro ulong_first_set_bit_correct) (simp_all add: b)
  then show "fxfirst_set_bit x = Inr (fixnum_object (int n))"
    using assms \<open>n \<le> 57\<close> small_fixnum_result [of n] by (simp add: fxfirst_set_bit_def)
qed

section \<open>Predicates and type errors\<close>

theorem fixnum_predicates_spec:
  assumes "FIXNUM_P x" "FIXNUM_P y"
  shows "Prim_zero_fixnum x = Inr (BOOLEAN_TO_OBJECT (fixnum_int x = 0))
    \<and> Prim_negative_fixnum x = Inr (BOOLEAN_TO_OBJECT (fixnum_int x < 0))
    \<and> Prim_positive_fixnum x = Inr (BOOLEAN_TO_OBJECT (0 < fixnum_int x))
    \<and> Prim_equal_fixnum x y = Inr (BOOLEAN_TO_OBJECT (fixnum_int x = fixnum_int y))
    \<and> Prim_less_fixnum x y = Inr (BOOLEAN_TO_OBJECT (fixnum_int x < fixnum_int y))
    \<and> Prim_greater_fixnum x y = Inr (BOOLEAN_TO_OBJECT (fixnum_int y < fixnum_int x))
    \<and> Prim_index_fixnum_p x = Inr (BOOLEAN_TO_OBJECT (0 \<le> fixnum_int x))"
proof -
  have "FIXNUM_TO_LONG x = FIXNUM_TO_LONG y \<longleftrightarrow> fixnum_int x = fixnum_int y"
    using sint_FIXNUM_TO_LONG [OF assms(1)] sint_FIXNUM_TO_LONG [OF assms(2)]
      fixnum_int_inj [OF assms] by auto
  then show ?thesis
    using assms by (simp add: Prim_zero_fixnum_def Prim_negative_fixnum_def Prim_positive_fixnum_def
        Prim_equal_fixnum_def Prim_less_fixnum_def Prim_greater_fixnum_def Prim_index_fixnum_p_def
        BOOLEAN_RESULT_def FIXNUM_TO_LONG_0_iff word_sless_alt sint_FIXNUM_TO_LONG
        UNSIGNED_FIXNUM_P_def fixnum_predicates not_less)
qed

theorem fixnum_type_errors:
  "\<not> FIXNUM_P x \<Longrightarrow> Prim_plus_fixnum x y = Inl (Wrong_Type 1)"
  "FIXNUM_P x \<Longrightarrow> \<not> FIXNUM_P y \<Longrightarrow> Prim_plus_fixnum x y = Inl (Wrong_Type 2)"
  "\<not> FIXNUM_P x \<Longrightarrow> Prim_multiply_fixnum x y = Inl (Wrong_Type 1)"
  "FIXNUM_P x \<Longrightarrow> \<not> FIXNUM_P y \<Longrightarrow> Prim_multiply_fixnum x y = Inl (Wrong_Type 2)"
  "\<not> FIXNUM_P x \<Longrightarrow> Prim_fixnum_quotient x y = Inl (Wrong_Type 1)"
  "FIXNUM_P x \<Longrightarrow> \<not> FIXNUM_P y \<Longrightarrow> Prim_fixnum_quotient x y = Inl (Wrong_Type 2)"
  by (simp_all add: Prim_plus_fixnum_def Prim_multiply_fixnum_def Prim_fixnum_quotient_def)

end
