(* ===== verification/Bignum_Rep.thy ===== *)
theory Bignum_Rep
  imports Scheme_Prelude
begin

text \<open>
  The representation of bignums (\<open>microcode/bignmint.h\<close>) and the operations of
  \<open>microcode/bignum.c\<close> that allocate, trim, copy and compare them. A bignum is a header
  word, holding the length and the sign, and an array of digits in radix \<open>2 ^ 62\<close>, least
  significant first. A failing \<open>BIGNUM_ASSERT\<close> leaves the bignum code through
  \<open>BIGNUM_EXCEPTION\<close>; an operation in which this can happen returns \<^const>\<open>None\<close> then.
  Allocation itself is the business of the memory system and always succeeds here; a
  fresh digit array holds zeros, and every caller overwrites all of it.

  The invariant \<open>bignum_wf\<close> is the normal form all of \<open>bignum.c\<close> relies on: valid digits,
  no leading zero, a length within bounds, and no negative zero. On that form the
  integer value \<open>bignum_int\<close> is injective.
\<close>

section \<open>Constants\<close>

definition BIGNUM_DIGIT_LENGTH :: nat where [simp]: "BIGNUM_DIGIT_LENGTH = 62"
definition BIGNUM_HALF_DIGIT_LENGTH :: nat where [simp]: "BIGNUM_HALF_DIGIT_LENGTH = 31"
definition BIGNUM_RADIX :: ulong where "BIGNUM_RADIX = push_bit BIGNUM_DIGIT_LENGTH 1"
definition BIGNUM_RADIX_ROOT :: ulong where "BIGNUM_RADIX_ROOT = push_bit BIGNUM_HALF_DIGIT_LENGTH 1"
definition BIGNUM_DIGIT_MASK :: ulong where "BIGNUM_DIGIT_MASK = BIGNUM_RADIX - 1"
definition BIGNUM_HALF_DIGIT_MASK :: ulong where "BIGNUM_HALF_DIGIT_MASK = BIGNUM_RADIX_ROOT - 1"

definition BIGNUM_LENGTH_MAX :: nat where
  "BIGNUM_LENGTH_MAX = unat BIGNUM_RADIX div BIGNUM_DIGIT_LENGTH - BIGNUM_DIGIT_LENGTH"

definition BIGNUM_DIGIT_ONES :: "nat \<Rightarrow> long" where
  "BIGNUM_DIGIT_ONES n = NOT (push_bit n (NOT 0))"

definition BIGNUM_BITS_TO_DIGITS :: "ulong \<Rightarrow> ulong" where
  "BIGNUM_BITS_TO_DIGITS n = (n + 61) div 62"

section \<open>The bignum object\<close>

record bignum =
  bignum_header :: long
  bignum_digits :: "long list"

definition BIGNUM_LENGTH :: "bignum \<Rightarrow> nat" where
  "BIGNUM_LENGTH b = unat (bignum_header b AND BIGNUM_DIGIT_MASK)"

definition BIGNUM_NEGATIVE_P :: "bignum \<Rightarrow> bool" where
  "BIGNUM_NEGATIVE_P b = (bignum_header b AND BIGNUM_RADIX \<noteq> 0)"

definition BIGNUM_ZERO_P :: "bignum \<Rightarrow> bool" where
  "BIGNUM_ZERO_P b = (BIGNUM_LENGTH b = 0)"

definition BIGNUM_SET_HEADER :: "bignum \<Rightarrow> nat \<Rightarrow> bool \<Rightarrow> bignum" where
  "BIGNUM_SET_HEADER b len negative_p =
     b\<lparr>bignum_header := word_of_nat len OR (if negative_p then BIGNUM_RADIX else 0)\<rparr>"

definition BIGNUM_REF :: "bignum \<Rightarrow> nat \<Rightarrow> long" where
  "BIGNUM_REF b i = bignum_digits b ! i"

definition BIGNUM_REDUCE_LENGTH :: "bignum \<Rightarrow> nat \<Rightarrow> bignum" where
  "BIGNUM_REDUCE_LENGTH b len = b\<lparr>bignum_digits := take len (bignum_digits b)\<rparr>"

section \<open>Allocation and copying\<close>

definition BIGNUM_ALLOCATE :: "nat \<Rightarrow> bignum" where
  "BIGNUM_ALLOCATE len = \<lparr>bignum_header = 0, bignum_digits = replicate len 0\<rparr>"

definition bignum_allocate :: "nat \<Rightarrow> bool \<Rightarrow> bignum option" where
  "bignum_allocate len negative_p =
     (if len \<le> BIGNUM_LENGTH_MAX
      then Some (BIGNUM_SET_HEADER (BIGNUM_ALLOCATE len) len negative_p) else None)"

definition bignum_allocate_zeroed :: "nat \<Rightarrow> bool \<Rightarrow> bignum option" where
  "bignum_allocate_zeroed len negative_p =
     (if len \<le> BIGNUM_LENGTH_MAX
      then Some ((BIGNUM_SET_HEADER (BIGNUM_ALLOCATE len) len negative_p)
                   \<lparr>bignum_digits := replicate len 0\<rparr>) else None)"

definition bignum_shorten_length :: "bignum \<Rightarrow> nat \<Rightarrow> bignum option" where
  "bignum_shorten_length b len =
     (if len \<le> BIGNUM_LENGTH b
      then Some (if len < BIGNUM_LENGTH b
                 then BIGNUM_REDUCE_LENGTH
                        (BIGNUM_SET_HEADER b len (len \<noteq> 0 \<and> BIGNUM_NEGATIVE_P b)) len
                 else b)
      else None)"

text \<open>
  The backward scan of \<open>bignum_trim\<close>. It stops at the first nonzero digit; when there is
  none it stops at the header word in front of the digits, and the length is 0.
\<close>

primrec trim_scan :: "long list \<Rightarrow> nat \<Rightarrow> nat" where
  "trim_scan ds 0 = 0"
| "trim_scan ds (Suc n) = (if ds ! n = 0 then trim_scan ds n else Suc n)"

definition bignum_trim :: "bignum \<Rightarrow> bignum" where
  "bignum_trim b =
     (let scan = trim_scan (bignum_digits b) (BIGNUM_LENGTH b)
      in if scan < BIGNUM_LENGTH b
         then BIGNUM_REDUCE_LENGTH
                (BIGNUM_SET_HEADER b scan (scan \<noteq> 0 \<and> BIGNUM_NEGATIVE_P b)) scan
         else b)"

definition bignum_destructive_copy :: "bignum \<Rightarrow> bignum \<Rightarrow> bignum" where
  "bignum_destructive_copy source target =
     (let n = BIGNUM_LENGTH source
      in target\<lparr>bignum_digits := take n (bignum_digits source) @ drop n (bignum_digits target)\<rparr>)"

definition bignum_copy :: "bignum \<Rightarrow> bignum option" where
  "bignum_copy source =
     map_option (bignum_destructive_copy source)
       (bignum_allocate (BIGNUM_LENGTH source) (BIGNUM_NEGATIVE_P source))"

definition bignum_new_sign :: "bignum \<Rightarrow> bool \<Rightarrow> bignum option" where
  "bignum_new_sign b negative_p =
     map_option (bignum_destructive_copy b) (bignum_allocate (BIGNUM_LENGTH b) negative_p)"

definition bignum_maybe_new_sign :: "bignum \<Rightarrow> bool \<Rightarrow> bignum option" where
  "bignum_maybe_new_sign b negative_p =
     (if (if BIGNUM_NEGATIVE_P b then negative_p else \<not> negative_p) then Some b
      else map_option (bignum_destructive_copy b) (bignum_allocate (BIGNUM_LENGTH b) negative_p))"

definition bignum_make_zero :: bignum where
  "bignum_make_zero = BIGNUM_SET_HEADER (BIGNUM_ALLOCATE 0) 0 False"

definition bignum_make_one :: "bool \<Rightarrow> bignum" where
  "bignum_make_one negative_p =
     (BIGNUM_SET_HEADER (BIGNUM_ALLOCATE 1) 1 negative_p)\<lparr>bignum_digits := [1]\<rparr>"

definition bignum_digit_to_bignum :: "long \<Rightarrow> bool \<Rightarrow> bignum option" where
  "bignum_digit_to_bignum digit negative_p =
     (if digit = 0 then Some bignum_make_zero
      else map_option (\<lambda>r. r\<lparr>bignum_digits := [digit]\<rparr>) (bignum_allocate 1 negative_p))"

section \<open>Comparisons\<close>

datatype bignum_comparison =
  bignum_comparison_equal | bignum_comparison_less | bignum_comparison_greater

fun equal_scan :: "long list \<Rightarrow> long list \<Rightarrow> bool" where
  "equal_scan (x # xs) (y # ys) = (if x \<noteq> y then False else equal_scan xs ys)"
| "equal_scan xs ys = True"

definition bignum_equal_p_unsigned :: "bignum \<Rightarrow> bignum \<Rightarrow> bool" where
  "bignum_equal_p_unsigned x y =
     (if BIGNUM_LENGTH x \<noteq> BIGNUM_LENGTH y then False
      else equal_scan (bignum_digits x) (bignum_digits y))"

primrec compare_scan :: "long list \<Rightarrow> long list \<Rightarrow> nat \<Rightarrow> bignum_comparison" where
  "compare_scan xs ys 0 = bignum_comparison_equal"
| "compare_scan xs ys (Suc n) =
     (if long_less (xs ! n) (ys ! n) then bignum_comparison_less
      else if long_less (ys ! n) (xs ! n) then bignum_comparison_greater
      else compare_scan xs ys n)"

definition bignum_compare_unsigned :: "bignum \<Rightarrow> bignum \<Rightarrow> bignum_comparison" where
  "bignum_compare_unsigned x y =
     (if BIGNUM_LENGTH x < BIGNUM_LENGTH y then bignum_comparison_less
      else if BIGNUM_LENGTH x > BIGNUM_LENGTH y then bignum_comparison_greater
      else compare_scan (bignum_digits x) (bignum_digits y) (BIGNUM_LENGTH x))"

definition bignum_equal_p :: "bignum \<Rightarrow> bignum \<Rightarrow> bool" where
  "bignum_equal_p x y =
     (if BIGNUM_ZERO_P x then BIGNUM_ZERO_P y
      else \<not> BIGNUM_ZERO_P y
         \<and> (if BIGNUM_NEGATIVE_P x then BIGNUM_NEGATIVE_P y else \<not> BIGNUM_NEGATIVE_P y)
         \<and> bignum_equal_p_unsigned x y)"

definition bignum_test :: "bignum \<Rightarrow> bignum_comparison" where
  "bignum_test b =
     (if BIGNUM_ZERO_P b then bignum_comparison_equal
      else if BIGNUM_NEGATIVE_P b then bignum_comparison_less else bignum_comparison_greater)"

definition bignum_compare :: "bignum \<Rightarrow> bignum \<Rightarrow> bignum_comparison" where
  "bignum_compare x y =
     (if BIGNUM_ZERO_P x
      then (if BIGNUM_ZERO_P y then bignum_comparison_equal
            else if BIGNUM_NEGATIVE_P y then bignum_comparison_greater
            else bignum_comparison_less)
      else if BIGNUM_ZERO_P y
      then (if BIGNUM_NEGATIVE_P x then bignum_comparison_less else bignum_comparison_greater)
      else if BIGNUM_NEGATIVE_P x
      then (if BIGNUM_NEGATIVE_P y then bignum_compare_unsigned y x else bignum_comparison_less)
      else (if BIGNUM_NEGATIVE_P y then bignum_comparison_greater
            else bignum_compare_unsigned x y))"

section \<open>Digits and their value\<close>

interpretation radix: radix_system "2 ^ 62"
  by unfold_locales simp

definition digits_ok :: "long list \<Rightarrow> bool" where
  "digits_ok ds \<longleftrightarrow> list_all (\<lambda>d. uint d < 2 ^ 62) ds"

definition digits_int :: "long list \<Rightarrow> int" where
  "digits_int ds = radix_val (2 ^ 62) (map uint ds)"

lemma digits_ok_simps [simp]:
  "digits_ok []" "digits_ok (d # ds) \<longleftrightarrow> uint d < 2 ^ 62 \<and> digits_ok ds"
  "digits_ok (xs @ ys) \<longleftrightarrow> digits_ok xs \<and> digits_ok ys"
  "digits_ok (replicate n 0)"
  by (auto simp: digits_ok_def list_all_iff)

lemma digits_int_simps [simp]:
  "digits_int [] = 0" "digits_int (d # ds) = uint d + 2 ^ 62 * digits_int ds"
  "digits_int (replicate n 0) = 0"
  "digits_int (xs @ ys) = digits_int xs + (2 ^ 62) ^ length xs * digits_int ys"
  by (simp_all add: digits_int_def radix_val_append)

lemma digits_ok_radix: "digits_ok ds \<longleftrightarrow> radix_ok (2 ^ 62) (map uint ds)"
  by (induction ds) auto

lemma digits_int_nonneg [simp]: "0 \<le> digits_int ds"
  by (induction ds) auto

lemma digits_int_less: "digits_ok ds \<Longrightarrow> digits_int ds < (2 ^ 62) ^ length ds"
  using radix.val_less [of "map uint ds"] by (simp add: digits_ok_radix digits_int_def)

lemma digits_ok_take_drop: "digits_ok ds \<Longrightarrow> digits_ok (take n ds)" "digits_ok ds \<Longrightarrow> digits_ok (drop n ds)"
  by (auto simp: digits_ok_def list_all_iff dest: in_set_takeD in_set_dropD)

lemma digits_ok_nth: "digits_ok ds \<Longrightarrow> i < length ds \<Longrightarrow> uint (ds ! i) < 2 ^ 62"
  by (simp add: digits_ok_def list_all_length)

text \<open>A digit list without leading zeros.\<close>

definition digits_normal :: "long list \<Rightarrow> bool" where
  "digits_normal ds \<longleftrightarrow> digits_ok ds \<and> (ds \<noteq> [] \<longrightarrow> last ds \<noteq> 0)"

lemma uint_pos: "(w :: 64 word) \<noteq> 0 \<Longrightarrow> 1 \<le> uint w"
  using uint_bounds64(1) [of w] by (metis int_one_le_iff_zero_less less_le uint_0_iff)

lemma last_uint: "ds \<noteq> [] \<Longrightarrow> last ds \<noteq> 0 \<Longrightarrow> 1 \<le> last (map uint ds)" for ds :: "long list"
  by (simp add: last_map uint_pos)

lemma digits_normal_lower:
  "digits_normal ds \<Longrightarrow> ds \<noteq> [] \<Longrightarrow> (2 ^ 62) ^ (length ds - 1) \<le> digits_int ds"
  using radix.val_lower [of "map uint ds"] last_uint [of ds]
  unfolding digits_normal_def digits_ok_radix digits_int_def by simp

lemma digits_normal_pos: "digits_normal ds \<Longrightarrow> ds \<noteq> [] \<Longrightarrow> 0 < digits_int ds"
  by (rule less_le_trans [OF zero_less_power digits_normal_lower]) simp_all

lemma digits_normalI:
  assumes "digits_ok ds" "ds \<noteq> [] \<Longrightarrow> (2 ^ 62) ^ (length ds - 1) \<le> digits_int ds"
  shows "digits_normal ds"
proof -
  have "last ds \<noteq> 0" if "ds \<noteq> []"
  proof
    assume "last ds = 0"
    with that have e: "ds = butlast ds @ [0]" by (metis append_butlast_last_id)
    then have "digits_int ds = digits_int (butlast ds)" using digits_int_simps(4) [of "butlast ds" "[0]"] by simp
    moreover have "digits_ok (butlast ds)" using assms(1) e by (metis digits_ok_simps(3))
    then have "digits_int (butlast ds) < (2 ^ 62) ^ (length ds - 1)"
      using digits_int_less [of "butlast ds"] by simp
    ultimately show False using assms(2) [OF that] by simp
  qed
  with assms(1) show ?thesis by (simp add: digits_normal_def)
qed

lemma digits_last:
  assumes "digits_ok vs" "vs \<noteq> []"
  shows "digits_int vs = digits_int (butlast vs) + (2 ^ 62) ^ (length vs - 1) * uint (last vs)"
    "digits_int (butlast vs) < (2 ^ 62) ^ (length vs - 1)" "uint (last vs) = digits_int vs div (2 ^ 62) ^ (length vs - 1)"
proof -
  have vs: "vs = butlast vs @ [last vs]" using assms(2) by simp
  show e: "digits_int vs = digits_int (butlast vs) + (2 ^ 62) ^ (length vs - 1) * uint (last vs)"
    using arg_cong [OF vs, of digits_int] digits_int_simps(4) [of "butlast vs" "[last vs]"] by simp
  have "digits_ok (butlast vs)" using assms(1) vs by (metis digits_ok_simps(3))
  then show l: "digits_int (butlast vs) < (2 ^ 62) ^ (length vs - 1)" using digits_int_less [of "butlast vs"] by simp
  then show "uint (last vs) = digits_int vs div (2 ^ 62) ^ (length vs - 1)" unfolding e by simp
qed

lemma digits_int_inj_length:
  assumes "length xs = length ys" "digits_ok xs" "digits_ok ys" "digits_int xs = digits_int ys"
  shows "xs = ys"
proof -
  have "map uint xs = map uint ys"
    using assms by (intro radix.val_inj) (simp_all add: digits_ok_radix digits_int_def)
  then show ?thesis by (simp add: inj_map_eq_map [OF injI] word_uint_eq_iff)
qed

lemma digits_less_by_length:
  assumes "digits_ok xs" "digits_normal ys" "length xs < length ys"
  shows "digits_int xs < digits_int ys"
proof -
  have "1 \<le> last (map uint ys)" using assms(2,3) by (intro last_uint) (auto simp: digits_normal_def)
  then show ?thesis
    using assms radix.val_less_by_length [of "map uint xs" "map uint ys"]
    by (simp add: digits_normal_def digits_ok_radix digits_int_def)
qed

lemma digits_int_inj:
  assumes "digits_normal xs" "digits_normal ys" "digits_int xs = digits_int ys"
  shows "xs = ys"
  using assms digits_less_by_length [of xs ys] digits_less_by_length [of ys xs]
    digits_int_inj_length [of xs ys]
  by (cases "length xs" "length ys" rule: linorder_cases) (auto simp: digits_normal_def)

section \<open>The normal form\<close>

lemma BIGNUM_LENGTH_MAX_eq: "BIGNUM_LENGTH_MAX = 74382032555280388"
  by (simp add: BIGNUM_LENGTH_MAX_def BIGNUM_RADIX_def)

lemma uint_BIGNUM_RADIX [simp]: "uint BIGNUM_RADIX = 2 ^ 62"
  by (simp add: BIGNUM_RADIX_def)

lemma BIGNUM_RADIX_eq: "BIGNUM_RADIX = push_bit 62 1"
  by (simp add: BIGNUM_RADIX_def)

lemma bit_BIGNUM_RADIX: "bit BIGNUM_RADIX i \<longleftrightarrow> i = 62"
  unfolding BIGNUM_RADIX_eq bit_push_bit_iff bit_1_iff by auto

lemma BIGNUM_DIGIT_MASK_eq: "BIGNUM_DIGIT_MASK = mask 62"
  by (simp add: BIGNUM_DIGIT_MASK_def BIGNUM_RADIX_def mask_eq_exp_minus_1)

text \<open>The bignum with given sign and digits, as the allocation and header macros build it.\<close>

definition mk_bignum :: "bool \<Rightarrow> long list \<Rightarrow> bignum" where
  "mk_bignum neg ds =
     \<lparr>bignum_header = word_of_nat (length ds) OR (if neg then BIGNUM_RADIX else 0),
      bignum_digits = ds\<rparr>"

definition bignum_wf :: "bignum \<Rightarrow> bool" where
  "bignum_wf b \<longleftrightarrow>
     b = mk_bignum (BIGNUM_NEGATIVE_P b) (bignum_digits b)
   \<and> length (bignum_digits b) \<le> BIGNUM_LENGTH_MAX
   \<and> digits_normal (bignum_digits b)
   \<and> (bignum_digits b = [] \<longrightarrow> \<not> BIGNUM_NEGATIVE_P b)"

definition bignum_int :: "bignum \<Rightarrow> int" where
  "bignum_int b =
     (if BIGNUM_NEGATIVE_P b then - digits_int (bignum_digits b) else digits_int (bignum_digits b))"

lemma header_length:
  assumes "n < 2 ^ 62"
  shows "unat ((word_of_nat n OR (if neg then BIGNUM_RADIX else 0)) AND BIGNUM_DIGIT_MASK) = n"
    and "(word_of_nat n OR (if neg then BIGNUM_RADIX else 0)) AND BIGNUM_RADIX \<noteq> 0 \<longleftrightarrow> neg"
proof -
  have t: "take_bit 62 (int n) = int n" using assms by (simp add: take_bit_int_eq_self)
  have b: "bit (int n) i \<Longrightarrow> i < 62" for i using t by (metis bit_take_bit_iff)
  have n: "bit (word_of_nat n :: ulong) i \<longleftrightarrow> bit (int n) i" for i
    using b [of i] by (auto simp: bit_simps)
  have "(word_of_nat n OR (if neg then BIGNUM_RADIX else 0)) AND BIGNUM_DIGIT_MASK = (word_of_nat n :: ulong)"
    using b by (intro bit_word_eqI)
      (auto simp: bit_simps n BIGNUM_DIGIT_MASK_eq bit_BIGNUM_RADIX)
  then show "unat ((word_of_nat n OR (if neg then BIGNUM_RADIX else 0)) AND BIGNUM_DIGIT_MASK) = n"
    using assms by (simp add: unat_of_nat)
  have "(w AND BIGNUM_RADIX \<noteq> 0) = bit w 62" for w
    by (metis BIGNUM_RADIX_eq and_exp_eq_0_iff_not_bit push_bit_of_1)
  then show "(word_of_nat n OR (if neg then BIGNUM_RADIX else 0)) AND BIGNUM_RADIX \<noteq> 0 \<longleftrightarrow> neg"
    using b [of 62] n [of 62] by (auto simp: bit_or_iff bit_BIGNUM_RADIX)
qed

lemma mk_bignum_simps [simp]:
  "bignum_digits (mk_bignum neg ds) = ds"
  "length ds < 2 ^ 62 \<Longrightarrow> BIGNUM_LENGTH (mk_bignum neg ds) = length ds"
  "length ds < 2 ^ 62 \<Longrightarrow> BIGNUM_NEGATIVE_P (mk_bignum neg ds) = neg"
  using header_length [of "length ds" neg]
  by (simp_all add: mk_bignum_def BIGNUM_LENGTH_def BIGNUM_NEGATIVE_P_def)

lemma LENGTH_MAX_small: "n \<le> BIGNUM_LENGTH_MAX \<Longrightarrow> n < 2 ^ 62"
  by (simp add: BIGNUM_LENGTH_MAX_eq)

lemma mk_bignum_wf:
  "length ds \<le> BIGNUM_LENGTH_MAX \<Longrightarrow>
   bignum_wf (mk_bignum neg ds) \<longleftrightarrow> digits_normal ds \<and> (ds = [] \<longrightarrow> \<not> neg)"
  using LENGTH_MAX_small [of "length ds"] by (auto simp: bignum_wf_def)

lemma mk_bignum_int:
  "length ds \<le> BIGNUM_LENGTH_MAX \<Longrightarrow>
   bignum_int (mk_bignum neg ds) = (if neg then - digits_int ds else digits_int ds)"
  using LENGTH_MAX_small [of "length ds"] by (simp add: bignum_int_def)

text \<open>Every bignum in normal form is \<open>mk_bignum\<close> of its sign and digits.\<close>

lemma bignum_wf_cases:
  assumes "bignum_wf b"
  obtains neg ds where "b = mk_bignum neg ds" "length ds \<le> BIGNUM_LENGTH_MAX" "length ds < 2 ^ 62"
    "digits_normal ds" "ds = [] \<longrightarrow> \<not> neg"
proof
  show "b = mk_bignum (BIGNUM_NEGATIVE_P b) (bignum_digits b)"
    "length (bignum_digits b) \<le> BIGNUM_LENGTH_MAX" "digits_normal (bignum_digits b)"
    "bignum_digits b = [] \<longrightarrow> \<not> BIGNUM_NEGATIVE_P b"
    using assms unfolding bignum_wf_def by blast+
  then show "length (bignum_digits b) < 2 ^ 62" by (intro LENGTH_MAX_small)
qed

lemma bignum_wf_simps:
  assumes "bignum_wf b"
  shows "BIGNUM_LENGTH b = length (bignum_digits b)" "length (bignum_digits b) \<le> BIGNUM_LENGTH_MAX"
    "digits_ok (bignum_digits b)" "digits_normal (bignum_digits b)"
    "BIGNUM_ZERO_P b \<longleftrightarrow> bignum_digits b = []" "BIGNUM_ZERO_P b \<longleftrightarrow> bignum_int b = 0"
    "bignum_digits b = [] \<Longrightarrow> \<not> BIGNUM_NEGATIVE_P b"
    "BIGNUM_NEGATIVE_P b \<longleftrightarrow> bignum_int b < 0" "digits_int (bignum_digits b) = \<bar>bignum_int b\<bar>"
proof -
  obtain neg ds where b: "b = mk_bignum neg ds" "length ds \<le> BIGNUM_LENGTH_MAX" "length ds < 2 ^ 62"
    "digits_normal ds" "ds = [] \<longrightarrow> \<not> neg" using assms by (rule bignum_wf_cases)
  have "ds = [] \<or> 0 < digits_int ds" using digits_normal_pos [OF b(4)] by blast
  then show "BIGNUM_LENGTH b = length (bignum_digits b)" "length (bignum_digits b) \<le> BIGNUM_LENGTH_MAX"
    "digits_ok (bignum_digits b)" "digits_normal (bignum_digits b)"
    "BIGNUM_ZERO_P b \<longleftrightarrow> bignum_digits b = []" "BIGNUM_ZERO_P b \<longleftrightarrow> bignum_int b = 0"
    "bignum_digits b = [] \<Longrightarrow> \<not> BIGNUM_NEGATIVE_P b"
    "BIGNUM_NEGATIVE_P b \<longleftrightarrow> bignum_int b < 0" "digits_int (bignum_digits b) = \<bar>bignum_int b\<bar>"
    using b digits_int_nonneg [of ds]
    by (auto simp: BIGNUM_ZERO_P_def mk_bignum_int digits_normal_def simp del: digits_int_nonneg)
qed

theorem bignum_int_inj:
  assumes "bignum_wf x" "bignum_wf y" "bignum_int x = bignum_int y"
  shows "x = y"
proof -
  have "bignum_digits x = bignum_digits y"
    using assms bignum_wf_simps(4,9) [of x] bignum_wf_simps(4,9) [of y] by (intro digits_int_inj) simp_all
  moreover have "BIGNUM_NEGATIVE_P x = BIGNUM_NEGATIVE_P y"
    using assms by (simp add: bignum_wf_simps(8))
  ultimately have e: "mk_bignum (BIGNUM_NEGATIVE_P x) (bignum_digits x) =
      mk_bignum (BIGNUM_NEGATIVE_P y) (bignum_digits y)" by simp
  have "z = mk_bignum (BIGNUM_NEGATIVE_P z) (bignum_digits z)" if "bignum_wf z" for z
    using that unfolding bignum_wf_def by blast
  from box_equals [OF e this [symmetric] this [symmetric]] assms(1,2) show ?thesis by blast
qed

text \<open>What an operation promises: a bignum in normal form that denotes a given integer.\<close>

definition yields :: "bignum option \<Rightarrow> int \<Rightarrow> bool" where
  "yields r k \<longleftrightarrow> (case r of None \<Rightarrow> False | Some b \<Rightarrow> bignum_wf b \<and> bignum_int b = k)"

lemma yields_Some [simp]: "yields (Some b) k \<longleftrightarrow> bignum_wf b \<and> bignum_int b = k"
  by (simp add: yields_def)

lemma yields_None [simp]: "\<not> yields None k"
  by (simp add: yields_def)

lemma yields_mk:
  "length ds \<le> BIGNUM_LENGTH_MAX \<Longrightarrow> digits_normal ds \<Longrightarrow> (ds = [] \<Longrightarrow> \<not> neg) \<Longrightarrow>
   k = (if neg then - digits_int ds else digits_int ds) \<Longrightarrow> yields (Some (mk_bignum neg ds)) k"
  by (simp add: mk_bignum_wf mk_bignum_int)

section \<open>Allocation, trimming and copying\<close>

lemma mk_bignum_update [simp]:
  "length es = length ds \<Longrightarrow> (mk_bignum neg ds)\<lparr>bignum_digits := es\<rparr> = mk_bignum neg es"
  by (simp add: mk_bignum_def)

lemma bignum_allocate_eq:
  "bignum_allocate len neg = (if len \<le> BIGNUM_LENGTH_MAX then Some (mk_bignum neg (replicate len 0)) else None)"
  "bignum_allocate_zeroed len neg = bignum_allocate len neg"
  by (simp_all add: bignum_allocate_def bignum_allocate_zeroed_def BIGNUM_SET_HEADER_def
      BIGNUM_ALLOCATE_def mk_bignum_def)

lemma bignum_make_eq: "bignum_make_zero = mk_bignum False []" "bignum_make_one neg = mk_bignum neg [1]"
  by (simp_all add: bignum_make_zero_def bignum_make_one_def BIGNUM_SET_HEADER_def
      BIGNUM_ALLOCATE_def mk_bignum_def)

lemma bignum_make_zero_wf [simp]: "bignum_wf bignum_make_zero" "bignum_int bignum_make_zero = 0"
  by (simp_all add: bignum_make_eq mk_bignum_wf mk_bignum_int digits_normal_def)

lemma bignum_make_one_wf [simp]:
  "bignum_wf (bignum_make_one neg)" "bignum_int (bignum_make_one neg) = (if neg then - 1 else 1)"
  by (simp_all add: bignum_make_eq mk_bignum_wf mk_bignum_int digits_normal_def BIGNUM_LENGTH_MAX_eq)

lemma reduce_header:
  "len \<le> length ds \<Longrightarrow>
   BIGNUM_REDUCE_LENGTH (BIGNUM_SET_HEADER (mk_bignum neg ds) len s) len = mk_bignum s (take len ds)"
  by (simp add: BIGNUM_REDUCE_LENGTH_def BIGNUM_SET_HEADER_def mk_bignum_def)

lemma bignum_shorten_length_eq:
  assumes "length ds < 2 ^ 62" "len \<le> length ds"
  shows "bignum_shorten_length (mk_bignum neg ds) len =
    Some (mk_bignum (neg \<and> (len \<noteq> 0 \<or> ds = [])) (take len ds))"
  using assms
  by (cases "ds = []"; cases "len < length ds")
    (auto simp: bignum_shorten_length_def reduce_header conj_commute)

definition trimmed :: "long list \<Rightarrow> long list" where
  "trimmed ds = take (trim_scan ds (length ds)) ds"

lemma trim_scan_le: "trim_scan ds n \<le> n"
  by (induction n) auto

lemma trim_scan_last: "trim_scan ds n \<noteq> 0 \<Longrightarrow> ds ! (trim_scan ds n - 1) \<noteq> 0"
  by (induction n) auto

lemma trim_scan_int:
  "n \<le> length ds \<Longrightarrow> digits_int (take (trim_scan ds n) ds) = digits_int (take n ds)"
  by (induction n) (auto simp: take_Suc_conv_app_nth)

lemma trimmed_props:
  "digits_int (trimmed ds) = digits_int ds"
  "digits_ok ds \<Longrightarrow> digits_normal (trimmed ds)"
  "length (trimmed ds) \<le> length ds"
  "length (trimmed ds) = trim_scan ds (length ds)"
proof -
  show "digits_int (trimmed ds) = digits_int ds"
    using trim_scan_int [of "length ds" ds] by (simp add: trimmed_def)
  show "length (trimmed ds) \<le> length ds" by (simp add: trimmed_def)
  show l: "length (trimmed ds) = trim_scan ds (length ds)"
    using trim_scan_le [of ds "length ds"] by (simp add: trimmed_def)
  assume "digits_ok ds"
  moreover have "last (trimmed ds) = ds ! (trim_scan ds (length ds) - 1)" if "trimmed ds \<noteq> []"
    using that l trim_scan_le [of ds "length ds"] by (subst last_conv_nth) (auto simp: trimmed_def)
  ultimately show "digits_normal (trimmed ds)"
    using trim_scan_last [of ds "length ds"] l
    by (auto simp: digits_normal_def trimmed_def digits_ok_take_drop)
qed

lemma bignum_trim_eq:
  assumes "length ds < 2 ^ 62"
  shows "bignum_trim (mk_bignum neg ds) = mk_bignum (neg \<and> (trimmed ds \<noteq> [] \<or> ds = [])) (trimmed ds)"
proof (cases "trim_scan ds (length ds) < length ds")
  case True
  then show ?thesis
    using assms trimmed_props(4) [of ds]
    by (cases "ds = []") (auto simp: bignum_trim_def Let_def reduce_header trimmed_def conj_commute)
next
  case False
  then have "trim_scan ds (length ds) = length ds" using trim_scan_le [of ds "length ds"] by simp
  then show ?thesis using assms by (auto simp: bignum_trim_def Let_def trimmed_def)
qed

lemma yields_trim:
  assumes "digits_ok ds" "length ds \<le> BIGNUM_LENGTH_MAX" "ds = [] \<Longrightarrow> \<not> neg"
    "k = (if neg then - digits_int ds else digits_int ds)"
  shows "yields (Some (bignum_trim (mk_bignum neg ds))) k"
proof -
  have z: "digits_int ds = 0" if "trimmed ds = []" using that trimmed_props(1) [of ds] by simp
  show ?thesis
    unfolding bignum_trim_eq [OF LENGTH_MAX_small, OF assms(2)]
    using assms trimmed_props [of ds] z
    by (intro yields_mk) (auto simp: digits_normal_def)
qed

lemma bignum_copy_eq:
  assumes "length ds \<le> BIGNUM_LENGTH_MAX"
  shows "bignum_new_sign (mk_bignum s ds) neg = Some (mk_bignum neg ds)"
    and "bignum_maybe_new_sign (mk_bignum s ds) neg = Some (mk_bignum neg ds)"
    and "bignum_copy (mk_bignum s ds) = Some (mk_bignum s ds)"
  using assms LENGTH_MAX_small [OF assms]
  by (auto simp: bignum_new_sign_def bignum_maybe_new_sign_def bignum_copy_def
      bignum_destructive_copy_def bignum_allocate_eq)

lemma yields_new_sign:
  assumes "bignum_wf b" "neg \<Longrightarrow> bignum_int b \<noteq> 0"
  shows "yields (bignum_new_sign b neg) (if neg then - \<bar>bignum_int b\<bar> else \<bar>bignum_int b\<bar>)"
    and "yields (bignum_maybe_new_sign b neg) (if neg then - \<bar>bignum_int b\<bar> else \<bar>bignum_int b\<bar>)"
proof -
  obtain s ds where b: "b = mk_bignum s ds" "length ds \<le> BIGNUM_LENGTH_MAX" "length ds < 2 ^ 62"
    "digits_normal ds" "ds = [] \<longrightarrow> \<not> s" using assms(1) by (rule bignum_wf_cases)
  have "yields (Some (mk_bignum neg ds)) (if neg then - \<bar>bignum_int b\<bar> else \<bar>bignum_int b\<bar>)"
    using b assms(2) by (intro yields_mk) (auto simp: mk_bignum_int)
  then show "yields (bignum_new_sign b neg) (if neg then - \<bar>bignum_int b\<bar> else \<bar>bignum_int b\<bar>)"
    and "yields (bignum_maybe_new_sign b neg) (if neg then - \<bar>bignum_int b\<bar> else \<bar>bignum_int b\<bar>)"
    using b by (simp_all add: bignum_copy_eq)
qed

lemma yields_digit:
  "uint d < 2 ^ 62 \<Longrightarrow>
   yields (bignum_digit_to_bignum d neg) (if neg then - uint d else uint d)"
  by (auto simp: bignum_digit_to_bignum_def bignum_allocate_eq BIGNUM_LENGTH_MAX_eq mk_bignum_wf
      mk_bignum_int digits_normal_def)

section \<open>Comparisons\<close>

text \<open>The three-way comparison of two integers.\<close>

definition int_compare :: "int \<Rightarrow> int \<Rightarrow> bignum_comparison" where
  "int_compare a b =
     (if a < b then bignum_comparison_less
      else if b < a then bignum_comparison_greater else bignum_comparison_equal)"

lemma equal_scan_eq: "length xs = length ys \<Longrightarrow> equal_scan xs ys \<longleftrightarrow> xs = ys"
  by (induction xs ys rule: list_induct2) auto

lemma digits_snoc_less:
  assumes "digits_ok xs" "digits_ok ys" "length xs = length ys" "uint x < uint y"
  shows "digits_int (xs @ [x]) < digits_int (ys @ [y])"
  using assms radix.val_snoc_less [of "map uint xs" "map uint ys" "uint x" "uint y"]
  by (simp add: digits_int_def digits_ok_radix)

lemma compare_scan_correct:
  assumes "digits_ok xs" "digits_ok ys"
  shows "n \<le> length xs \<Longrightarrow> n \<le> length ys \<Longrightarrow>
    compare_scan xs ys n = int_compare (digits_int (take n xs)) (digits_int (take n ys))"
proof (induction n)
  case (Suc n)
  then have u: "uint (xs ! n) < 2 ^ 63" "uint (ys ! n) < 2 ^ 63"
    using digits_ok_nth [OF assms(1), of n] digits_ok_nth [OF assms(2), of n] by simp_all
  have ok: "digits_ok (take n xs)" "digits_ok (take n ys)" "length (take n xs) = length (take n ys)"
    using assms Suc.prems by (simp_all add: digits_ok_take_drop)
  consider "uint (xs ! n) < uint (ys ! n)" | "uint (ys ! n) < uint (xs ! n)" | "xs ! n = ys ! n"
    by (metis linorder_neqE word_uint_eq_iff)
  then show ?case
  proof cases
    case 1
    with digits_snoc_less [OF ok(1,2,3) 1] u Suc.prems show ?thesis
      by (simp add: long_less_uint int_compare_def take_Suc_conv_app_nth del: digits_int_simps(4))
  next
    case 2
    with digits_snoc_less [OF ok(2,1) ok(3) [symmetric] 2] u Suc.prems show ?thesis
      by (simp add: long_less_uint int_compare_def take_Suc_conv_app_nth del: digits_int_simps(4))
  next
    case 3
    with Suc u show ?thesis
      by (simp add: long_less_uint int_compare_def take_Suc_conv_app_nth)
  qed
qed (simp add: int_compare_def)

theorem bignum_compare_unsigned_correct:
  assumes "bignum_wf x" "bignum_wf y"
  shows "bignum_compare_unsigned x y = int_compare \<bar>bignum_int x\<bar> \<bar>bignum_int y\<bar>"
proof -
  note wx = bignum_wf_simps [OF assms(1)] and wy = bignum_wf_simps [OF assms(2)]
  have v: "\<bar>bignum_int x\<bar> = digits_int (bignum_digits x)" "\<bar>bignum_int y\<bar> = digits_int (bignum_digits y)"
    using wx(9) wy(9) by simp_all
  show ?thesis
    using digits_less_by_length [OF wx(3) wy(4)] digits_less_by_length [OF wy(3) wx(4)]
      compare_scan_correct [OF wx(3) wy(3), of "length (bignum_digits x)"]
    unfolding v bignum_compare_unsigned_def wx(1) wy(1) by (auto simp: int_compare_def)
qed

theorem bignum_compare_correct:
  assumes "bignum_wf x" "bignum_wf y"
  shows "bignum_compare x y = int_compare (bignum_int x) (bignum_int y)"
  unfolding bignum_compare_def bignum_wf_simps(6,8) [OF assms(1)] bignum_wf_simps(6,8) [OF assms(2)]
    bignum_compare_unsigned_correct [OF assms] bignum_compare_unsigned_correct [OF assms(2,1)]
  by (auto simp: int_compare_def)

theorem bignum_equal_p_correct:
  assumes "bignum_wf x" "bignum_wf y"
  shows "bignum_equal_p x y \<longleftrightarrow> bignum_int x = bignum_int y"
proof -
  have u: "bignum_equal_p_unsigned x y \<longleftrightarrow> \<bar>bignum_int x\<bar> = \<bar>bignum_int y\<bar>"
    using digits_int_inj [OF bignum_wf_simps(4) bignum_wf_simps(4), OF assms] equal_scan_eq
    unfolding bignum_equal_p_unsigned_def bignum_wf_simps(1) [OF assms(1)] bignum_wf_simps(1) [OF assms(2)]
    by (auto simp flip: bignum_wf_simps(9) [OF assms(1)] bignum_wf_simps(9) [OF assms(2)])
  show ?thesis
    unfolding bignum_equal_p_def bignum_wf_simps(6,8) [OF assms(1)] bignum_wf_simps(6,8) [OF assms(2)] u
    by auto
qed

lemma bignum_test_correct: "bignum_wf x \<Longrightarrow> bignum_test x = int_compare (bignum_int x) 0"
  by (auto simp: bignum_test_def bignum_wf_simps(6,8) int_compare_def)

end
