(* ===== verification/Bignum_Add.thy ===== *)
theory Bignum_Add
  imports Bignum_Rep
begin

text \<open>
  Addition and subtraction of bignums (\<open>microcode/bignum.c\<close>). The two scans of the C
  code, over the digits the operands share and over the rest of the longer one, are two
  recursive functions on digit lists; they return the digits written, the digits not yet
  read, and the carry or borrow. The theorems show that the results are in normal form
  and denote the sum, the difference and the negation.
\<close>

section \<open>Addition of magnitudes\<close>

text \<open>
  \<open>sum\<close> is a \<open>long\<close> but \<open>BIGNUM_RADIX\<close> is an \<open>unsigned long\<close>, so the comparison is
  unsigned. The scan assumes that the second operand is not the longer one.
\<close>

fun add_scan :: "long list \<Rightarrow> long list \<Rightarrow> long \<Rightarrow> long list \<times> long list \<times> long" where
  "add_scan (x # xs) (y # ys) carry =
     (let sum = x + y + carry
      in if sum < BIGNUM_RADIX
         then (let (rs, rest, c) = add_scan xs ys 0 in (sum # rs, rest, c))
         else (let (rs, rest, c) = add_scan xs ys 1 in ((sum - BIGNUM_RADIX) # rs, rest, c)))"
| "add_scan xs ys carry = ([], xs, carry)"

fun add_carry_scan :: "long list \<Rightarrow> long list \<times> long list \<times> long" where
  "add_carry_scan (x # xs) =
     (let sum = x + 1
      in if sum < BIGNUM_RADIX then ([sum], xs, 0)
         else (let (rs, rest, c) = add_carry_scan xs in ((sum - BIGNUM_RADIX) # rs, rest, c)))"
| "add_carry_scan [] = ([], [], 1)"

definition bignum_add_unsigned :: "bignum \<Rightarrow> bignum \<Rightarrow> bool \<Rightarrow> bignum option" where
  "bignum_add_unsigned x y negative_p =
     (let (x, y) = (if BIGNUM_LENGTH y > BIGNUM_LENGTH x then (y, x) else (x, y));
          x_length = BIGNUM_LENGTH x
      in do {
        r \<leftarrow> bignum_allocate (x_length + 1) negative_p;
        let (rs1, rest1, carry1) = add_scan (bignum_digits x) (bignum_digits y) 0;
        let (rs2, rest2, carry2) = (if carry1 \<noteq> 0 then add_carry_scan rest1 else ([], rest1, carry1));
        let written = rs1 @ rs2 @ rest2;
        let r' = r\<lparr>bignum_digits := written @ drop (length written) (bignum_digits r)\<rparr>;
        if carry2 \<noteq> 0
        then Some (r'\<lparr>bignum_digits := (bignum_digits r')[x_length := 1]\<rparr>)
        else bignum_shorten_length r' x_length
      })"

section \<open>Subtraction of magnitudes\<close>

fun sub_scan :: "long list \<Rightarrow> long list \<Rightarrow> long \<Rightarrow> long list \<times> long list \<times> long" where
  "sub_scan (x # xs) (y # ys) borrow =
     (let difference = (x - y) - borrow
      in if long_less difference 0
         then (let (rs, rest, c) = sub_scan xs ys 1 in ((difference + BIGNUM_RADIX) # rs, rest, c))
         else (let (rs, rest, c) = sub_scan xs ys 0 in (difference # rs, rest, c)))"
| "sub_scan xs ys borrow = ([], xs, borrow)"

fun sub_borrow_scan :: "long list \<Rightarrow> long \<Rightarrow> long list \<times> long list \<times> long" where
  "sub_borrow_scan (x # xs) borrow =
     (let difference = x - borrow
      in if long_less difference 0
         then (let (rs, rest, c) = sub_borrow_scan xs borrow in ((difference + BIGNUM_RADIX) # rs, rest, c))
         else ([difference], xs, 0))"
| "sub_borrow_scan [] borrow = ([], [], borrow)"

definition subtract_digits :: "bignum \<Rightarrow> bignum \<Rightarrow> bool \<Rightarrow> bignum option" where
  "subtract_digits x y negative_p =
     do {
       r \<leftarrow> bignum_allocate (BIGNUM_LENGTH x) negative_p;
       let (rs1, rest1, borrow1) = sub_scan (bignum_digits x) (bignum_digits y) 0;
       let (rs2, rest2, borrow2) =
             (if borrow1 \<noteq> 0 then sub_borrow_scan rest1 borrow1 else ([], rest1, borrow1));
       if borrow2 = 0
       then Some (bignum_trim (r\<lparr>bignum_digits := rs1 @ rs2 @ rest2\<rparr>))
       else None
     }"

definition bignum_subtract_unsigned :: "bignum \<Rightarrow> bignum \<Rightarrow> bignum option" where
  "bignum_subtract_unsigned x y =
     (case bignum_compare_unsigned x y of
        bignum_comparison_equal \<Rightarrow> Some bignum_make_zero
      | bignum_comparison_less \<Rightarrow> subtract_digits y x True
      | bignum_comparison_greater \<Rightarrow> subtract_digits x y False)"

section \<open>Signed operations\<close>

definition bignum_add :: "bignum \<Rightarrow> bignum \<Rightarrow> bignum option" where
  "bignum_add x y =
     (if BIGNUM_ZERO_P x then Some y
      else if BIGNUM_ZERO_P y then Some x
      else if BIGNUM_NEGATIVE_P x
      then (if BIGNUM_NEGATIVE_P y then bignum_add_unsigned x y True
            else bignum_subtract_unsigned y x)
      else (if BIGNUM_NEGATIVE_P y then bignum_subtract_unsigned x y
            else bignum_add_unsigned x y False))"

definition bignum_subtract :: "bignum \<Rightarrow> bignum \<Rightarrow> bignum option" where
  "bignum_subtract x y =
     (if BIGNUM_ZERO_P x
      then (if BIGNUM_ZERO_P y then Some y else bignum_new_sign y (\<not> BIGNUM_NEGATIVE_P y))
      else if BIGNUM_ZERO_P y then Some x
      else if BIGNUM_NEGATIVE_P x
      then (if BIGNUM_NEGATIVE_P y then bignum_subtract_unsigned y x
            else bignum_add_unsigned x y True)
      else (if BIGNUM_NEGATIVE_P y then bignum_add_unsigned x y False
            else bignum_subtract_unsigned x y))"

definition bignum_negate :: "bignum \<Rightarrow> bignum option" where
  "bignum_negate x =
     (if BIGNUM_ZERO_P x then Some x else bignum_new_sign x (\<not> BIGNUM_NEGATIVE_P x))"

section \<open>Correctness\<close>

lemma radix_step:
  assumes "uint s < 2 ^ 63"
  shows "s < BIGNUM_RADIX \<longleftrightarrow> uint s < 2 ^ 62"
    and "\<not> uint s < 2 ^ 62 \<Longrightarrow> uint (s - BIGNUM_RADIX) = uint s - 2 ^ 62"
  using assms by (simp_all add: word_less_def uint_sub_exact)

lemma add_scan_correct:
  assumes "digits_ok xs" "digits_ok ys" "length ys \<le> length xs" "uint c \<le> 1"
    "add_scan xs ys c = (rs, rest, c')"
  shows "digits_ok rs \<and> rest = drop (length ys) xs \<and> length rs = length ys \<and> uint c' \<le> 1
    \<and> digits_int rs + (2 ^ 62) ^ length ys * uint c' = digits_int (take (length ys) xs) + digits_int ys + uint c"
  using assms
proof (induction xs ys c arbitrary: rs rest c' rule: add_scan.induct)
  case (1 x xs y ys c)
  define s where "s = x + y + c"
  have b: "uint x < 2 ^ 62" "uint y < 2 ^ 62" "uint c \<le> 1" using "1.prems" by simp_all
  then have xy: "uint (x + y) = uint x + uint y" by (intro uint_add_exact) simp
  have s: "uint s = uint x + uint y + uint c"
    unfolding s_def using b by (subst uint_add_exact) (simp_all add: xy)
  have s63: "uint s < 2 ^ 63" using s b by simp
  show ?case
  proof (cases "uint s < 2 ^ 62")
    case True
    obtain rs1 where rs: "rs = s # rs1" "add_scan xs ys 0 = (rs1, rest, c')"
      using "1.prems"(5) True radix_step(1) [OF s63]
      by (auto simp: s_def [symmetric] Let_def split: prod.splits)
    from "1.IH"(1) [OF refl _ _ _ _ _ rs(2)] "1.prems" True radix_step(1) [OF s63]
    have ih: "digits_ok rs1 \<and> rest = drop (length ys) xs \<and> length rs1 = length ys \<and> uint c' \<le> 1 \<and>
      digits_int rs1 + (2 ^ 62) ^ length ys * uint c' = digits_int (take (length ys) xs) + digits_int ys"
      by (simp add: s_def)
    with True s show ?thesis by (auto simp: rs algebra_simps)
  next
    case False
    obtain rs1 where rs: "rs = (s - BIGNUM_RADIX) # rs1" "add_scan xs ys 1 = (rs1, rest, c')"
      using "1.prems"(5) False radix_step(1) [OF s63]
      by (auto simp: s_def [symmetric] Let_def split: prod.splits)
    from "1.IH"(2) [OF refl _ _ _ _ _ rs(2)] "1.prems" False radix_step(1) [OF s63]
    have ih: "digits_ok rs1 \<and> rest = drop (length ys) xs \<and> length rs1 = length ys \<and> uint c' \<le> 1 \<and>
      digits_int rs1 + (2 ^ 62) ^ length ys * uint c' = digits_int (take (length ys) xs) + digits_int ys + 1"
      by (simp add: s_def)
    have "uint (s - BIGNUM_RADIX) = uint x + uint y + uint c - 2 ^ 62"
      using radix_step(2) [OF s63 False] s by simp
    with ih b show ?thesis by (auto simp: rs algebra_simps)
  qed
qed auto

lemma add_carry_scan_correct:
  assumes "digits_ok xs" "add_carry_scan xs = (rs, rest, c)"
  shows "digits_ok (rs @ rest) \<and> length (rs @ rest) = length xs \<and> uint c \<le> 1
    \<and> digits_int (rs @ rest) + (2 ^ 62) ^ length xs * uint c = digits_int xs + 1"
  using assms
proof (induction xs arbitrary: rs rest c rule: add_carry_scan.induct)
  case (1 x xs)
  define s where "s = x + 1"
  have s: "uint s = uint x + 1" "uint s < 2 ^ 63" "uint x < 2 ^ 62"
    unfolding s_def using "1.prems" by (auto simp: uint_add_exact)
  show ?case
  proof (cases "uint s < 2 ^ 62")
    case True
    then show ?thesis using "1.prems" s radix_step(1) [OF s(2)] by (auto simp: Let_def s_def)
  next
    case False
    obtain rs1 where rs: "rs = (s - BIGNUM_RADIX) # rs1" "add_carry_scan xs = (rs1, rest, c)"
      using "1.prems"(2) False radix_step(1) [OF s(2)]
      by (auto simp: s_def [symmetric] Let_def split: prod.splits)
    from "1.IH" [OF refl _ _ rs(2)] "1.prems" False radix_step(1) [OF s(2)]
    have ih: "digits_ok (rs1 @ rest) \<and> length (rs1 @ rest) = length xs \<and> uint c \<le> 1
      \<and> digits_int (rs1 @ rest) + (2 ^ 62) ^ length xs * uint c = digits_int xs + 1"
      by (simp add: s_def)
    have "uint (s - BIGNUM_RADIX) = uint x + 1 - 2 ^ 62" "uint (s - BIGNUM_RADIX) < 2 ^ 62"
      using radix_step(2) [OF s(2) False] s by simp_all
    with ih show ?thesis by (auto simp: rs algebra_simps)
  qed
qed auto

text \<open>The digits both scans write, with the final carry as one more digit, are the sum.\<close>

lemma add_digits_correct:
  assumes "digits_ok xs" "digits_ok ys" "length ys \<le> length xs"
    "add_scan xs ys 0 = (rs1, rest1, c1)"
    "(if c1 \<noteq> 0 then add_carry_scan rest1 else ([], rest1, c1)) = (rs2, rest2, c2)"
  shows "digits_ok (rs1 @ rs2 @ rest2) \<and> length (rs1 @ rs2 @ rest2) = length xs \<and> uint c2 \<le> 1
    \<and> digits_int (rs1 @ rs2 @ rest2) + (2 ^ 62) ^ length xs * uint c2 = digits_int xs + digits_int ys"
proof -
  let ?B = "2 ^ 62 :: int" and ?n = "length ys"
  from add_scan_correct [OF assms(1-3) _ assms(4)]
  have 1: "digits_ok rs1" "rest1 = drop ?n xs" "length rs1 = ?n" "uint c1 \<le> 1"
    "digits_int rs1 + ?B ^ ?n * uint c1 = digits_int (take ?n xs) + digits_int ys" by auto
  have 2: "digits_ok (rs2 @ rest2) \<and> length (rs2 @ rest2) = length rest1 \<and> uint c2 \<le> 1
    \<and> digits_int (rs2 @ rest2) + ?B ^ length rest1 * uint c2 = digits_int rest1 + uint c1"
  proof (cases "c1 = 0")
    case True
    with assms(5) show ?thesis using 1(2) assms(1) by (auto simp: digits_ok_take_drop)
  next
    case False
    then have "uint c1 = 1" using 1(4) uint_pos [of c1] by simp
    then show ?thesis
      using False assms(5) add_carry_scan_correct [of rest1 rs2 rest2 c2] 1(2) assms(1)
      by (auto simp: digits_ok_take_drop)
  qed
  have l: "?B ^ length xs = ?B ^ ?n * ?B ^ length rest1"
    using 1(2) assms(3) by (simp flip: power_add)
  have x: "digits_int xs = digits_int (take ?n xs) + ?B ^ ?n * digits_int rest1"
    using assms(3) 1(2) digits_int_simps(4) [of "take ?n xs" "drop ?n xs"] by simp
  have "digits_int (rs1 @ rs2 @ rest2) + ?B ^ length xs * uint c2 =
      digits_int rs1 + ?B ^ ?n * (digits_int (rs2 @ rest2) + ?B ^ length rest1 * uint c2)"
    unfolding l using 1(3) by (simp only: digits_int_simps(4) append_assoc distrib_left mult.assoc add.assoc)
  also have "\<dots> = digits_int rs1 + ?B ^ ?n * uint c1 + ?B ^ ?n * digits_int rest1"
    using 2 by (simp only: distrib_left add.assoc add.commute)
  also have "\<dots> = digits_int xs + digits_int ys" using 1(5) x by simp
  finally show ?thesis using 1 2 assms(3) by simp
qed

lemma yields_snoc:
  assumes "digits_ok ds" "length ds < BIGNUM_LENGTH_MAX" "d \<noteq> 0" "uint d < 2 ^ 62"
    "k = (if neg then - digits_int (ds @ [d]) else digits_int (ds @ [d]))"
  shows "yields (Some (mk_bignum neg (ds @ [d]))) k"
  using assms by (intro yields_mk) (simp_all add: digits_normal_def del: digits_int_simps(4))

lemma bignum_add_unsigned_ordered:
  assumes "bignum_wf x" "bignum_wf y" "BIGNUM_LENGTH y \<le> BIGNUM_LENGTH x"
    "BIGNUM_LENGTH x < BIGNUM_LENGTH_MAX" "\<not> BIGNUM_ZERO_P x"
  shows "yields (bignum_add_unsigned x y neg)
    (if neg then - (\<bar>bignum_int x\<bar> + \<bar>bignum_int y\<bar>) else \<bar>bignum_int x\<bar> + \<bar>bignum_int y\<bar>)"
proof -
  let ?xs = "bignum_digits x" and ?ys = "bignum_digits y" and ?B = "2 ^ 62 :: int"
  note wx = bignum_wf_simps [OF assms(1)] and wy = bignum_wf_simps [OF assms(2)]
  obtain rs1 rest1 c1 where 1: "add_scan ?xs ?ys 0 = (rs1, rest1, c1)" by (metis prod_cases3)
  obtain rs2 rest2 c2 where 2: "(if c1 \<noteq> 0 then add_carry_scan rest1 else ([], rest1, c1)) = (rs2, rest2, c2)"
    by (metis prod_cases3)
  define ws where "ws = rs1 @ rs2 @ rest2"
  have l: "length ?ys \<le> length ?xs" "length ?xs < BIGNUM_LENGTH_MAX" "?xs \<noteq> []"
    using assms(3-5) wx wy by simp_all
  have ws: "digits_ok ws" "length ws = length ?xs" "uint c2 \<le> 1"
    "digits_int ws + ?B ^ length ?xs * uint c2 = digits_int ?xs + digits_int ?ys"
    using add_digits_correct [OF wx(3) wy(3) l(1) 1 2] by (simp_all add: ws_def)
  have e: "bignum_add_unsigned x y neg =
    (if c2 \<noteq> 0 then Some (mk_bignum neg (ws @ [1]))
     else bignum_shorten_length (mk_bignum neg (ws @ [0])) (length ?xs))"
    using l ws(2) 1 2
    by (simp add: bignum_add_unsigned_def bignum_allocate_eq wx(1) wy(1) Let_def)
      (simp add: ws_def list_update_append flip: replicate_append_same)
  have k: "\<bar>bignum_int x\<bar> + \<bar>bignum_int y\<bar> = digits_int ws + ?B ^ length ?xs * uint c2"
    using ws(4) wx(9) wy(9) by simp
  show ?thesis
  proof (cases "c2 = 0")
    case True
    have "?B ^ (length ws - 1) \<le> digits_int ws"
      using digits_normal_lower [OF wx(4) l(3)] ws(2,4) True by (simp add: add_increasing2)
    then have "digits_normal ws" using ws(1) by (intro digits_normalI)
    then show ?thesis
      using True l ws(2) LENGTH_MAX_small [of "Suc (length ?xs)"] unfolding e k
      by (auto simp: bignum_shorten_length_eq mk_bignum_wf mk_bignum_int)
  next
    case False
    then have "uint c2 = 1" using ws(3) uint_pos [of c2] by simp
    then show ?thesis
      using False l ws(1,2) unfolding e k by (simp only: if_True not_False_eq_True)
        (intro yields_snoc, auto)
  qed
qed

theorem bignum_add_unsigned_correct:
  assumes "bignum_wf x" "bignum_wf y" "BIGNUM_LENGTH x < BIGNUM_LENGTH_MAX"
    "BIGNUM_LENGTH y < BIGNUM_LENGTH_MAX" "\<not> BIGNUM_ZERO_P x" "\<not> BIGNUM_ZERO_P y"
  shows "yields (bignum_add_unsigned x y neg)
    (if neg then - (\<bar>bignum_int x\<bar> + \<bar>bignum_int y\<bar>) else \<bar>bignum_int x\<bar> + \<bar>bignum_int y\<bar>)"
proof (cases "BIGNUM_LENGTH y \<le> BIGNUM_LENGTH x")
  case True
  with assms show ?thesis by (intro bignum_add_unsigned_ordered)
next
  case False
  then have "bignum_add_unsigned x y neg = bignum_add_unsigned y x neg"
    by (simp add: bignum_add_unsigned_def)
  moreover have "yields (bignum_add_unsigned y x neg)
      (if neg then - (\<bar>bignum_int y\<bar> + \<bar>bignum_int x\<bar>) else \<bar>bignum_int y\<bar> + \<bar>bignum_int x\<bar>)"
    using False assms by (intro bignum_add_unsigned_ordered) simp_all
  ultimately show ?thesis by (simp only: add.commute [of "\<bar>bignum_int y\<bar>"])
qed

lemma sub_step:
  assumes "uint x < 2 ^ 62" "uint y < 2 ^ 62" "uint b \<le> 1"
  defines "d \<equiv> (x - y) - b"
  shows "long_less d 0 \<longleftrightarrow> uint x < uint y + uint b"
    and "uint x < uint y + uint b \<Longrightarrow> uint (d + BIGNUM_RADIX) = uint x - uint y - uint b + 2 ^ 62"
    and "\<not> uint x < uint y + uint b \<Longrightarrow> uint d = uint x - uint y - uint b"
proof -
  have d: "d = word_of_int (uint x - uint y - uint b)" by (simp add: d_def)
  have n: "0 \<le> uint x" "0 \<le> uint y" "0 \<le> uint b" by simp_all
  have s: "sint d = uint x - uint y - uint b"
    unfolding d using assms(1-3) [simplified] n by (intro sint_of_int64 [simplified]) linarith+
  then show "long_less d 0 \<longleftrightarrow> uint x < uint y + uint b" by (auto simp: word_sless_alt)
  have "d + BIGNUM_RADIX = word_of_int (uint x - uint y - uint b + uint BIGNUM_RADIX)"
    unfolding d by (simp del: uint_BIGNUM_RADIX)
  then have "d + BIGNUM_RADIX = word_of_int (uint x - uint y - uint b + 2 ^ 62)" by simp
  then show "uint x < uint y + uint b \<Longrightarrow> uint (d + BIGNUM_RADIX) = uint x - uint y - uint b + 2 ^ 62"
    using assms(2,3) n by (simp only:, intro uint_of_int64) (linarith, rule less_trans [of _ "2 ^ 62"], linarith, simp)
  show "\<not> uint x < uint y + uint b \<Longrightarrow> uint d = uint x - uint y - uint b"
    using s n uint_eq_sint64 [of d] by simp
qed

lemma sub_step_no_borrow:
  assumes "uint x < 2 ^ 62" "uint y < 2 ^ 62"
  shows "long_less (x - y) 0 \<longleftrightarrow> uint x < uint y"
    and "uint x < uint y \<Longrightarrow> uint (x - y + BIGNUM_RADIX) = uint x - uint y + 2 ^ 62"
    and "\<not> uint x < uint y \<Longrightarrow> uint (x - y) = uint x - uint y"
  using sub_step [OF assms, of 0] by simp_all

lemma sub_scan_correct:
  assumes "digits_ok xs" "digits_ok ys" "length ys \<le> length xs" "uint b \<le> 1"
    "sub_scan xs ys b = (rs, rest, b')"
  shows "digits_ok rs \<and> rest = drop (length ys) xs \<and> length rs = length ys \<and> uint b' \<le> 1
    \<and> digits_int rs + digits_int ys + uint b = digits_int (take (length ys) xs) + (2 ^ 62) ^ length ys * uint b'"
  using assms
proof (induction xs ys b arbitrary: rs rest b' rule: sub_scan.induct)
  case (1 x xs y ys b)
  define d where "d = (x - y) - b"
  have b: "uint x < 2 ^ 62" "uint y < 2 ^ 62" "uint b \<le> 1" using "1.prems" by simp_all
  note st = sub_step [OF b, folded d_def]
  have n: "0 \<le> uint x" "0 \<le> uint y" "0 \<le> uint b" by simp_all
  show ?case
  proof (cases "uint x < uint y + uint b")
    case True
    obtain rs1 where rs: "rs = (d + BIGNUM_RADIX) # rs1" "sub_scan xs ys 1 = (rs1, rest, b')"
      using "1.prems"(5) True st(1) by (auto simp: d_def [symmetric] Let_def split: prod.splits)
    from "1.IH"(1) [OF refl _ _ _ _ _ rs(2)] "1.prems" True st(1)
    have ih: "digits_ok rs1 \<and> rest = drop (length ys) xs \<and> length rs1 = length ys \<and> uint b' \<le> 1 \<and>
      digits_int rs1 + digits_int ys + 1 = digits_int (take (length ys) xs) + (2 ^ 62) ^ length ys * uint b'"
      by (simp add: d_def)
    with st(2) [OF True] True b n show ?thesis by (auto simp: rs algebra_simps)
  next
    case False
    obtain rs1 where rs: "rs = d # rs1" "sub_scan xs ys 0 = (rs1, rest, b')"
      using "1.prems"(5) False st(1) by (auto simp: d_def [symmetric] Let_def split: prod.splits)
    from "1.IH"(2) [OF refl _ _ _ _ _ rs(2)] "1.prems" False st(1)
    have ih: "digits_ok rs1 \<and> rest = drop (length ys) xs \<and> length rs1 = length ys \<and> uint b' \<le> 1 \<and>
      digits_int rs1 + digits_int ys = digits_int (take (length ys) xs) + (2 ^ 62) ^ length ys * uint b'"
      by (simp add: d_def)
    have "uint d < 2 ^ 62" using st(3) [OF False] b(1) n by linarith
    with ih st(3) [OF False] show ?thesis by (auto simp: rs algebra_simps)
  qed
qed auto

lemma sub_borrow_scan_correct:
  assumes "digits_ok xs" "sub_borrow_scan xs 1 = (rs, rest, b)"
  shows "digits_ok (rs @ rest) \<and> length (rs @ rest) = length xs \<and> uint b \<le> 1
    \<and> digits_int (rs @ rest) + 1 = digits_int xs + (2 ^ 62) ^ length xs * uint b"
  using assms
proof (induction xs arbitrary: rs rest b)
  case (Cons x xs)
  define d where "d = x - 1"
  have x: "uint x < 2 ^ 62" using Cons.prems by simp
  have n: "0 \<le> uint x" by simp
  note st = sub_step [OF x, of 0 1, simplified, folded d_def]
  show ?case
  proof (cases "uint x < 1")
    case True
    obtain rs1 where rs: "rs = (d + BIGNUM_RADIX) # rs1" "sub_borrow_scan xs 1 = (rs1, rest, b)"
      using Cons.prems(2) True st(1) by (auto simp: d_def [symmetric] Let_def split: prod.splits)
    from Cons.IH [OF _ rs(2)] Cons.prems(1)
    have ih: "digits_ok (rs1 @ rest) \<and> length (rs1 @ rest) = length xs \<and> uint b \<le> 1
      \<and> digits_int (rs1 @ rest) + 1 = digits_int xs + (2 ^ 62) ^ length xs * uint b" by simp
    with st(2) True n show ?thesis by (auto simp: rs algebra_simps)
  next
    case False
    then show ?thesis
      using Cons.prems st(1,3) x by (auto simp: d_def [symmetric] Let_def)
  qed
qed auto

lemma sub_digits_correct:
  assumes "digits_ok xs" "digits_ok ys" "length ys \<le> length xs" "digits_int ys < digits_int xs"
    "sub_scan xs ys 0 = (rs1, rest1, b1)"
    "(if b1 \<noteq> 0 then sub_borrow_scan rest1 b1 else ([], rest1, b1)) = (rs2, rest2, b2)"
  shows "digits_ok (rs1 @ rs2 @ rest2) \<and> length (rs1 @ rs2 @ rest2) = length xs \<and> b2 = 0
    \<and> digits_int (rs1 @ rs2 @ rest2) = digits_int xs - digits_int ys"
proof -
  let ?B = "2 ^ 62 :: int" and ?n = "length ys"
  from sub_scan_correct [OF assms(1-3) _ assms(5)]
  have 1: "digits_ok rs1" "rest1 = drop ?n xs" "length rs1 = ?n" "uint b1 \<le> 1"
    "digits_int rs1 + digits_int ys = digits_int (take ?n xs) + ?B ^ ?n * uint b1" by auto
  have 2: "digits_ok (rs2 @ rest2) \<and> length (rs2 @ rest2) = length rest1 \<and> uint b2 \<le> 1
    \<and> digits_int (rs2 @ rest2) + uint b1 = digits_int rest1 + ?B ^ length rest1 * uint b2"
  proof (cases "b1 = 0")
    case True
    with assms(6) show ?thesis using 1(2) assms(1) by (auto simp: digits_ok_take_drop)
  next
    case False
    then have "uint b1 = 1" using 1(4) uint_pos [of b1] by simp
    then have "b1 = 1" by (metis uint_1 word_uint_eq_iff)
    then show ?thesis
      using assms(6) sub_borrow_scan_correct [of rest1 rs2 rest2 b2] 1(2) assms(1)
      by (auto simp: digits_ok_take_drop)
  qed
  let ?ws = "rs1 @ rs2 @ rest2"
  have l: "?B ^ length xs = ?B ^ ?n * ?B ^ length rest1"
    using 1(2) assms(3) by (simp flip: power_add)
  have x: "digits_int xs = digits_int (take ?n xs) + ?B ^ ?n * digits_int rest1"
    using assms(3) 1(2) digits_int_simps(4) [of "take ?n xs" "drop ?n xs"] by simp
  have "digits_int ?ws = digits_int rs1 + ?B ^ ?n * digits_int (rs2 @ rest2)"
    using 1(3) by (simp only: digits_int_simps(4) append_assoc)
  also have "digits_int (rs2 @ rest2) = digits_int rest1 + ?B ^ length rest1 * uint b2 - uint b1"
    using 2 by linarith
  finally have v: "digits_int ?ws + digits_int ys = digits_int xs + ?B ^ length xs * uint b2"
    using 1(5) x unfolding l by (simp add: algebra_simps)
  have ok: "digits_ok ?ws" "length ?ws = length xs" using 1 2 assms(3) by simp_all
  have "digits_int ?ws < ?B ^ length xs" using digits_int_less [OF ok(1)] ok(2) by simp
  then have "?B ^ length xs * uint b2 < ?B ^ length xs * 1" using v assms(4) by linarith
  then have "uint b2 < 1" by (simp only: mult_less_cancel_left_pos zero_less_power zero_less_numeral)
  then have "b2 = 0" using uint_pos [of b2] by (cases "b2 = 0") simp_all
  with ok v show ?thesis by simp
qed

lemma subtract_digits_correct:
  assumes "bignum_wf x" "bignum_wf y" "\<bar>bignum_int y\<bar> < \<bar>bignum_int x\<bar>"
  shows "yields (subtract_digits x y neg)
    (if neg then - (\<bar>bignum_int x\<bar> - \<bar>bignum_int y\<bar>) else \<bar>bignum_int x\<bar> - \<bar>bignum_int y\<bar>)"
proof -
  let ?xs = "bignum_digits x" and ?ys = "bignum_digits y"
  note wx = bignum_wf_simps [OF assms(1)] and wy = bignum_wf_simps [OF assms(2)]
  have lt: "digits_int ?ys < digits_int ?xs" using assms(3) wx(9) wy(9) by simp
  have l: "length ?ys \<le> length ?xs"
    using digits_less_by_length [OF wx(3) wy(4)] lt by (cases "length ?ys \<le> length ?xs") auto
  have "?xs \<noteq> []" using lt digits_int_nonneg [of ?ys] by (auto simp del: digits_int_nonneg)
  obtain rs1 rest1 b1 where 1: "sub_scan ?xs ?ys 0 = (rs1, rest1, b1)" by (metis prod_cases3)
  obtain rs2 rest2 b2 where 2: "(if b1 \<noteq> 0 then sub_borrow_scan rest1 b1 else ([], rest1, b1)) = (rs2, rest2, b2)"
    by (metis prod_cases3)
  define ws where "ws = rs1 @ rs2 @ rest2"
  have ws: "digits_ok ws" "length ws = length ?xs" "b2 = 0" "digits_int ws = digits_int ?xs - digits_int ?ys"
    using sub_digits_correct [OF wx(3) wy(3) l lt 1 2] by (simp_all add: ws_def)
  have "subtract_digits x y neg = Some (bignum_trim (mk_bignum neg ws))"
    using 1 2 ws(2,3) wx(2)
    by (simp add: subtract_digits_def bignum_allocate_eq wx(1) Let_def ws_def [symmetric])
  then show ?thesis
    using ws wx wy \<open>?xs \<noteq> []\<close> by (simp only:) (intro yields_trim, auto)
qed

theorem bignum_subtract_unsigned_correct:
  assumes "bignum_wf x" "bignum_wf y"
  shows "yields (bignum_subtract_unsigned x y) (\<bar>bignum_int x\<bar> - \<bar>bignum_int y\<bar>)"
  using subtract_digits_correct [OF assms, of False] subtract_digits_correct [OF assms(2,1), of True]
  by (auto simp: bignum_subtract_unsigned_def bignum_compare_unsigned_correct [OF assms] int_compare_def)

section \<open>The signed operations\<close>

lemma bignum_negate_correct: "bignum_wf x \<Longrightarrow> yields (bignum_negate x) (- bignum_int x)"
  using yields_new_sign(1) [of x "\<not> BIGNUM_NEGATIVE_P x"]
  by (auto simp: bignum_negate_def bignum_wf_simps(6,8) split: if_splits)

theorem bignum_add_correct:
  assumes "bignum_wf x" "bignum_wf y" "BIGNUM_LENGTH x < BIGNUM_LENGTH_MAX" "BIGNUM_LENGTH y < BIGNUM_LENGTH_MAX"
  shows "yields (bignum_add x y) (bignum_int x + bignum_int y)"
  using bignum_add_unsigned_correct [OF assms, of True] bignum_add_unsigned_correct [OF assms, of False]
    bignum_subtract_unsigned_correct [OF assms(1,2)]
    bignum_subtract_unsigned_correct [OF assms(2,1)] assms(1,2)
  by (auto simp: bignum_add_def bignum_wf_simps(6,8) add.commute)

theorem bignum_subtract_correct:
  assumes "bignum_wf x" "bignum_wf y" "BIGNUM_LENGTH x < BIGNUM_LENGTH_MAX" "BIGNUM_LENGTH y < BIGNUM_LENGTH_MAX"
  shows "yields (bignum_subtract x y) (bignum_int x - bignum_int y)"
  using bignum_add_unsigned_correct [OF assms, of True] bignum_add_unsigned_correct [OF assms, of False]
    bignum_subtract_unsigned_correct [OF assms(1,2)]
    bignum_subtract_unsigned_correct [OF assms(2,1)] bignum_negate_correct [OF assms(2)] assms(1,2)
  by (auto simp: bignum_subtract_def bignum_negate_def bignum_wf_simps(6,8))

end
