(* ===== verification/Bignum_Mul.thy ===== *)
theory Bignum_Mul
  imports Bignum_Rep
begin

text \<open>
  Multiplication of bignums (\<open>microcode/bignum.c\<close>). A product of two digits does not fit
  in a \<open>long\<close>, so the C code works on half digits in radix \<open>2 ^ 31\<close>
  (\<open>HD_LOW\<close>, \<open>HD_HIGH\<close>, \<open>HD_CONS\<close>). The step lemmas show that no intermediate result
  overflows and that one step writes the low digit of
  \<open>r + x * y + carry\<close> and carries the high one; the school method and the scaling by a
  small factor follow by induction on the digits.
\<close>

section \<open>Half digits\<close>

definition HD_LOW :: "long \<Rightarrow> long" where
  "HD_LOW digit = digit AND BIGNUM_HALF_DIGIT_MASK"

definition HD_HIGH :: "long \<Rightarrow> long" where
  "HD_HIGH digit = long_shr digit BIGNUM_HALF_DIGIT_LENGTH"

definition HD_CONS :: "long \<Rightarrow> long \<Rightarrow> long" where
  "HD_CONS high low = push_bit BIGNUM_HALF_DIGIT_LENGTH high OR low"

section \<open>The school method\<close>

text \<open>
  The inner loop for one digit \<open>x\<close> of the first operand: it reads the digits of the second
  operand and updates the result digits from the current position on. The last clause
  would write past the end of the result, which is allocated large enough.
\<close>

fun mul_scan :: "long \<Rightarrow> long list \<Rightarrow> long list \<Rightarrow> long \<Rightarrow> long list" where
  "mul_scan x (y # ys) (r # rs) carry =
     (let x_digit_low = HD_LOW x; x_digit_high = HD_HIGH x;
          y_digit_low = HD_LOW y; y_digit_high = HD_HIGH y;
          product_low = r + x_digit_low * y_digit_low + HD_LOW carry;
          product_high = x_digit_high * y_digit_low + x_digit_low * y_digit_high +
            HD_HIGH product_low + HD_HIGH carry
      in HD_CONS (HD_LOW product_high) (HD_LOW product_low) #
         mul_scan x ys rs (x_digit_high * y_digit_high + HD_HIGH product_high))"
| "mul_scan x [] (r # rs) carry = (r + carry) # rs"
| "mul_scan x ys [] carry = []"

fun mul_rows :: "long list \<Rightarrow> long list \<Rightarrow> long list \<Rightarrow> long list" where
  "mul_rows (x # xs) ys rs =
     (case mul_scan x ys rs 0 of r # rs' \<Rightarrow> r # mul_rows xs ys rs' | [] \<Rightarrow> [])"
| "mul_rows [] ys rs = rs"

definition bignum_multiply_unsigned :: "bignum \<Rightarrow> bignum \<Rightarrow> bool \<Rightarrow> bignum option" where
  "bignum_multiply_unsigned x y negative_p =
     (let (x, y) = (if BIGNUM_LENGTH y > BIGNUM_LENGTH x then (y, x) else (x, y))
      in do {
        r \<leftarrow> bignum_allocate_zeroed (BIGNUM_LENGTH x + BIGNUM_LENGTH y) negative_p;
        Some (bignum_trim
          (r\<lparr>bignum_digits := mul_rows (bignum_digits x) (bignum_digits y) (bignum_digits r)\<rparr>))
      })"

section \<open>Small factors\<close>

fun scale_up_scan :: "long \<Rightarrow> long list \<Rightarrow> long \<Rightarrow> long list \<times> long" where
  "scale_up_scan factor (two_digits # ds) carry =
     (let product_low = factor * HD_LOW two_digits + HD_LOW carry;
          product_high = factor * HD_HIGH two_digits + HD_HIGH product_low + HD_HIGH carry;
          (rs, c) = scale_up_scan factor ds (HD_HIGH product_high)
      in (HD_CONS (HD_LOW product_high) (HD_LOW product_low) # rs, c))"
| "scale_up_scan factor [] carry = ([], carry)"

definition bignum_destructive_scale_up :: "bignum \<Rightarrow> long \<Rightarrow> bignum option" where
  "bignum_destructive_scale_up b factor =
     (if long_less 1 factor \<and> factor < BIGNUM_RADIX_ROOT
      then (let n = BIGNUM_LENGTH b;
                (rs, carry) = scale_up_scan factor (take n (bignum_digits b)) 0
            in if carry = 0 then Some (b\<lparr>bignum_digits := rs @ drop n (bignum_digits b)\<rparr>) else None)
      else None)"

definition bignum_multiply_unsigned_small_factor :: "bignum \<Rightarrow> long \<Rightarrow> bool \<Rightarrow> bignum option" where
  "bignum_multiply_unsigned_small_factor x y negative_p =
     (let length_x = BIGNUM_LENGTH x
      in do {
        p0 \<leftarrow> bignum_allocate (length_x + 1) negative_p;
        let p1 = bignum_destructive_copy x p0;
        let p2 = p1\<lparr>bignum_digits := (bignum_digits p1)[length_x := 0]\<rparr>;
        p3 \<leftarrow> bignum_destructive_scale_up p2 y;
        Some (bignum_trim p3)
      })"

definition bignum_multiply :: "bignum \<Rightarrow> bignum \<Rightarrow> bignum option" where
  "bignum_multiply x y =
     (let x_length = BIGNUM_LENGTH x; y_length = BIGNUM_LENGTH y;
          negative_p = (if BIGNUM_NEGATIVE_P x then \<not> BIGNUM_NEGATIVE_P y else BIGNUM_NEGATIVE_P y)
      in if BIGNUM_ZERO_P x then Some x
         else if BIGNUM_ZERO_P y then Some y
         else if x_length = 1 \<and> BIGNUM_REF x 0 = 1 then bignum_maybe_new_sign y negative_p
         else if x_length = 1 \<and> BIGNUM_REF x 0 < BIGNUM_RADIX_ROOT
         then bignum_multiply_unsigned_small_factor y (BIGNUM_REF x 0) negative_p
         else if y_length = 1 \<and> BIGNUM_REF y 0 = 1 then bignum_maybe_new_sign x negative_p
         else if y_length = 1 \<and> BIGNUM_REF y 0 < BIGNUM_RADIX_ROOT
         then bignum_multiply_unsigned_small_factor x (BIGNUM_REF y 0) negative_p
         else bignum_multiply_unsigned x y negative_p)"

section \<open>Half digits as integers\<close>

lemma uint_HD_LOW [word_exact]: "uint (HD_LOW d) = uint d mod 2 ^ 31"
proof -
  have m: "BIGNUM_HALF_DIGIT_MASK = mask 31"
    by (simp add: BIGNUM_HALF_DIGIT_MASK_def BIGNUM_RADIX_ROOT_def mask_eq_exp_minus_1)
  show ?thesis unfolding HD_LOW_def m by (rule uint_and_mask64)
qed

lemma uint_HD_HIGH [word_exact]: "uint d < 2 ^ 63 \<Longrightarrow> uint (HD_HIGH d) = uint d div 2 ^ 31"
  by (simp only: HD_HIGH_def BIGNUM_HALF_DIGIT_LENGTH_def uint_long_shr)

lemma uint_HD_CONS [word_exact]:
  assumes "uint h < 2 ^ 32" "uint l < 2 ^ 31"
  shows "uint (HD_CONS h l) = uint l + 2 ^ 31 * uint h"
proof -
  have "uint (push_bit 31 h) = uint h * 2 ^ 31" using assms(1) by (intro uint_push_bit_exact) simp
  then show ?thesis using assms(2) by (simp add: HD_CONS_def uint_or_disjoint [where n = 31])
qed

lemma half_digit_bounds:
  assumes "0 \<le> (d :: int)" "d < 2 ^ 62"
  shows "0 \<le> d mod 2 ^ 31" "d mod 2 ^ 31 \<le> 2147483647" "0 \<le> d div 2 ^ 31" "d div 2 ^ 31 \<le> 2147483647"
proof -
  have "d div 2 ^ 31 < 2 ^ 31" using assms by (intro int_div_less) simp_all
  then show "d div 2 ^ 31 \<le> 2147483647" by simp
qed (use assms in \<open>simp_all add: pos_imp_zdiv_nonneg_iff\<close>)

text \<open>One step of the school method on integers, in an arbitrary radix \<open>R\<close> for the halves.\<close>

lemma mul_step_identity:
  fixes R :: int
  assumes "x = xl + R * xh" "y = yl + R * yh" "c = cl + R * ch"
    "pl = r + xl * yl + cl" "ph = xh * yl + xl * yh + pl div R + ch"
  shows "(pl mod R + R * (ph mod R)) + R * R * (xh * yh + ph div R) = r + x * y + c"
proof -
  have "R * R * (ph div R) + R * (ph mod R) = R * ph"
    using scaled_div_mod [of R ph] by simp
  moreover have "R * (pl div R) + pl mod R = pl" by simp
  ultimately show ?thesis unfolding assms(1-3,5) using assms(4) by (simp add: algebra_simps)
qed

lemma half_products_bound:
  fixes a b :: int
  assumes "0 \<le> a" "a \<le> 2147483647" "0 \<le> b" "b \<le> 2147483647"
  shows "0 \<le> a * b" "a * b \<le> 4611686014132420609"
  using assms mult_mono [of a 2147483647 b 2147483647] by simp_all

lemma carry_bound:
  fixes r' c' r p c :: int
  assumes "r' + 2 ^ 62 * c' = r + p + c" "0 \<le> r'" "r < 2 ^ 62" "c < 2 ^ 62"
    "p \<le> (2 ^ 62 - 1) * (2 ^ 62 - 1)"
  shows "c' < 2 ^ 62"
  using assms by simp

lemma mul_step:
  assumes "uint r < 2 ^ 62" "uint x < 2 ^ 62" "uint y < 2 ^ 62" "uint c < 2 ^ 62"
  defines "pl \<equiv> r + HD_LOW x * HD_LOW y + HD_LOW c"
  defines "ph \<equiv> HD_HIGH x * HD_LOW y + HD_LOW x * HD_HIGH y + HD_HIGH pl + HD_HIGH c"
  defines "r' \<equiv> HD_CONS (HD_LOW ph) (HD_LOW pl)" and "c' \<equiv> HD_HIGH x * HD_HIGH y + HD_HIGH ph"
  shows "uint r' + 2 ^ 62 * uint c' = uint r + uint x * uint y + uint c \<and> uint r' < 2 ^ 62 \<and> uint c' < 2 ^ 62"
proof -
  have m: "uint a < 2 ^ 63" if "uint a < 2 ^ 62" for a :: long using that by simp
  note low = uint_HD_LOW and hx = uint_HD_HIGH [OF m, OF assms(2)] and hy = uint_HD_HIGH [OF m, OF assms(3)]
    and hc = uint_HD_HIGH [OF m, OF assms(4)]
  note bx = half_digit_bounds [OF uint_bounds64(1) assms(2)] and yb = half_digit_bounds [OF uint_bounds64(1) assms(3)]
    and cb = half_digit_bounds [OF uint_bounds64(1) assms(4)]
  note pll = half_products_bound [OF bx(1,2) yb(1,2)] and phl = half_products_bound [OF bx(3,4) yb(1,2)]
    and plh = half_products_bound [OF bx(1,2) yb(3,4)] and phh = half_products_bound [OF bx(3,4) yb(3,4)]
  have mult: "uint (a * b) = uint a * uint b" if "uint a * uint b \<le> 4611686014132420609" for a b :: long
    using that by (intro uint_mult_exact) simp
  have e: "uint (HD_LOW x * HD_LOW y) = (uint x mod 2 ^ 31) * (uint y mod 2 ^ 31)"
    "uint (HD_HIGH x * HD_LOW y) = (uint x div 2 ^ 31) * (uint y mod 2 ^ 31)"
    "uint (HD_LOW x * HD_HIGH y) = (uint x mod 2 ^ 31) * (uint y div 2 ^ 31)"
    "uint (HD_HIGH x * HD_HIGH y) = (uint x div 2 ^ 31) * (uint y div 2 ^ 31)"
    using pll(2) phl(2) plh(2) phh(2) by (simp_all only: mult low hx hy)
  note r62 = assms(1) [simplified]
  have "uint pl = uint r + uint (HD_LOW x * HD_LOW y) + uint (HD_LOW c)"
    unfolding pl_def by (rule uint_add3_exact, unfold e(1) low) (use r62 pll(2) cb(2) in linarith)
  then have pl: "uint pl = uint r + (uint x mod 2 ^ 31) * (uint y mod 2 ^ 31) + uint c mod 2 ^ 31"
    unfolding e(1) low .
  have pl63: "uint pl < 9223372036854775808" unfolding pl using r62 pll(2) cb(2) by linarith
  have hpl: "uint (HD_HIGH pl) = uint pl div 2 ^ 31" using pl63 by (intro uint_HD_HIGH) simp
  have "uint pl div 2 ^ 31 < 4294967296" using pl63 by (intro int_div_less) simp_all
  then have hpl': "0 \<le> uint pl div 2 ^ 31" "uint pl div 2 ^ 31 \<le> 4294967295"
    by (simp_all add: pos_imp_zdiv_nonneg_iff)
  have "uint ph = uint (HD_HIGH x * HD_LOW y) + uint (HD_LOW x * HD_HIGH y) + uint (HD_HIGH pl) + uint (HD_HIGH c)"
    unfolding ph_def
    by (rule uint_add4_exact, unfold e(2,3) hpl hc) (use phl(2) plh(2) hpl'(2) cb(4) in linarith)
  then have ph: "uint ph = (uint x div 2 ^ 31) * (uint y mod 2 ^ 31) + (uint x mod 2 ^ 31) * (uint y div 2 ^ 31)
      + uint pl div 2 ^ 31 + uint c div 2 ^ 31"
    unfolding e(2,3) hpl hc .
  have ph63: "uint ph < 9223372036854775808" unfolding ph using phl(2) plh(2) hpl'(2) cb(4) by linarith
  have hph: "uint (HD_HIGH ph) = uint ph div 2 ^ 31" using ph63 by (intro uint_HD_HIGH) simp
  have "uint ph div 2 ^ 31 < 4294967296" using ph63 by (intro int_div_less) simp_all
  then have "uint c' = uint (HD_HIGH x * HD_HIGH y) + uint (HD_HIGH ph)"
    unfolding c'_def by (intro uint_add_exact [simplified], unfold e(4) hph) (use phh(2) in linarith)
  then have c': "uint c' = (uint x div 2 ^ 31) * (uint y div 2 ^ 31) + uint ph div 2 ^ 31"
    unfolding e(4) hph .
  have lows: "0 \<le> uint pl mod 2 ^ 31" "uint pl mod 2 ^ 31 \<le> 2 ^ 31 - 1"
    "0 \<le> uint ph mod 2 ^ 31" "uint ph mod 2 ^ 31 \<le> 2 ^ 31 - 1" by simp_all
  have r': "uint r' = uint pl mod 2 ^ 31 + 2 ^ 31 * (uint ph mod 2 ^ 31)"
    unfolding r'_def by (subst uint_HD_CONS; simp only: low; simp)
  have r'62: "0 \<le> uint r'" "uint r' < 2 ^ 62" using lows unfolding r' by simp_all
  have id: "uint r' + 2 ^ 31 * 2 ^ 31 * uint c' = uint r + uint x * uint y + uint c"
    unfolding r' c' by (rule mul_step_identity [OF _ _ _ pl ph]) simp_all
  have "2 ^ 31 * 2 ^ 31 = (2 ^ 62 :: int)" by simp
  note id' = id [unfolded this]
  have "uint x * uint y \<le> (2 ^ 62 - 1) * (2 ^ 62 - 1)" using assms(2,3) by (intro mult_mono) simp_all
  then have "uint c' < 2 ^ 62" by (rule carry_bound [OF id' r'62(1) assms(1,4)])
  then show ?thesis using id' r'62(2) by blast
qed

lemma mul_scan_correct:
  assumes "uint x < 2 ^ 62" "digits_ok ys" "digits_ok as" "length as = length ys" "uint c < 2 ^ 62"
  shows "\<exists>bs. mul_scan x ys (as @ 0 # zs) c = bs @ zs \<and> length bs = Suc (length ys) \<and> digits_ok bs
    \<and> digits_int bs = digits_int as + uint x * digits_int ys + uint c"
  using assms(4,2,3,5)
proof (induction as ys arbitrary: c rule: list_induct2)
  case Nil
  then show ?case by (intro exI [of _ "[c]"]) simp
next
  case (Cons r as y ys)
  let ?pl = "r + HD_LOW x * HD_LOW y + HD_LOW c"
  let ?ph = "HD_HIGH x * HD_LOW y + HD_LOW x * HD_HIGH y + HD_HIGH ?pl + HD_HIGH c"
  let ?r = "HD_CONS (HD_LOW ?ph) (HD_LOW ?pl)" and ?c = "HD_HIGH x * HD_HIGH y + HD_HIGH ?ph"
  have st: "uint ?r + 2 ^ 62 * uint ?c = uint r + uint x * uint y + uint c" "uint ?r < 2 ^ 62" "uint ?c < 2 ^ 62"
    using mul_step [of r x y c] Cons.prems assms(1) by simp_all
  obtain bs where bs: "mul_scan x ys (as @ 0 # zs) ?c = bs @ zs" "length bs = Suc (length ys)" "digits_ok bs"
    "digits_int bs = digits_int as + uint x * digits_int ys + uint ?c"
    using Cons.IH [OF _ _ st(3)] Cons.prems by auto
  have "uint ?r + 2 ^ 62 * digits_int bs = digits_int (r # as) + uint x * digits_int (y # ys) + uint c"
    using st(1) unfolding bs(4) by (simp add: algebra_simps)
  then show ?case
    using bs st(2) by (intro exI [of _ "?r # bs"]) (simp add: Let_def)
qed

lemma mul_rows_correct:
  assumes "digits_ok xs" "digits_ok ys" "digits_ok as" "length as = length ys"
  shows "length (mul_rows xs ys (as @ replicate (length xs) 0)) = length xs + length ys
    \<and> digits_ok (mul_rows xs ys (as @ replicate (length xs) 0))
    \<and> digits_int (mul_rows xs ys (as @ replicate (length xs) 0)) = digits_int as + digits_int xs * digits_int ys"
  using assms(1,3,4)
proof (induction xs arbitrary: as)
  case (Cons x xs)
  obtain bs where bs: "mul_scan x ys (as @ 0 # replicate (length xs) 0) 0 = bs @ replicate (length xs) 0"
    "length bs = Suc (length ys)" "digits_ok bs" "digits_int bs = digits_int as + uint x * digits_int ys"
    using mul_scan_correct [of x ys as 0 "replicate (length xs) 0"] Cons.prems assms(2) by auto
  then obtain b bs' where b: "bs = b # bs'" by (cases bs) auto
  have "digits_int as + digits_int (x # xs) * digits_int ys = digits_int bs + 2 ^ 62 * (digits_int xs * digits_int ys)"
    unfolding bs(4) by (simp add: algebra_simps)
  then show ?case using Cons.IH [of bs'] Cons.prems bs b by (simp add: algebra_simps)
qed simp

theorem bignum_multiply_unsigned_correct:
  assumes "bignum_wf x" "bignum_wf y" "BIGNUM_LENGTH x + BIGNUM_LENGTH y \<le> BIGNUM_LENGTH_MAX"
    "\<not> BIGNUM_ZERO_P x" "\<not> BIGNUM_ZERO_P y"
  shows "yields (bignum_multiply_unsigned x y neg)
    (if neg then - (\<bar>bignum_int x\<bar> * \<bar>bignum_int y\<bar>) else \<bar>bignum_int x\<bar> * \<bar>bignum_int y\<bar>)"
proof -
  have *: "yields (Some (bignum_trim ((mk_bignum neg (replicate (BIGNUM_LENGTH x + BIGNUM_LENGTH y) 0))
      \<lparr>bignum_digits := mul_rows (bignum_digits x) (bignum_digits y) (replicate (BIGNUM_LENGTH x + BIGNUM_LENGTH y) 0)\<rparr>)))
    (if neg then - (\<bar>bignum_int x\<bar> * \<bar>bignum_int y\<bar>) else \<bar>bignum_int x\<bar> * \<bar>bignum_int y\<bar>)"
    if "bignum_wf x" "bignum_wf y" "BIGNUM_LENGTH x + BIGNUM_LENGTH y \<le> BIGNUM_LENGTH_MAX" "\<not> BIGNUM_ZERO_P x" for x y
  proof -
    let ?xs = "bignum_digits x" and ?ys = "bignum_digits y"
    note wx = bignum_wf_simps [OF that(1)] and wy = bignum_wf_simps [OF that(2)]
    have r: "replicate (BIGNUM_LENGTH x + BIGNUM_LENGTH y) 0 = replicate (length ?ys) 0 @ replicate (length ?xs) (0 :: long)"
      unfolding wx(1) wy(1) by (simp flip: replicate_add add: add.commute)
    have "\<bar>bignum_int x\<bar> * \<bar>bignum_int y\<bar> = digits_int ?xs * digits_int ?ys" using wx(9) wy(9) by simp
    then show ?thesis
      using mul_rows_correct [OF wx(3) wy(3), of "replicate (length ?ys) 0"] that(3,4) wx(1,5) wy(1)
      unfolding r by (subst mk_bignum_update, simp) (rule yields_trim, auto)
  qed
  show ?thesis
    using * [OF assms(1-4)] * [OF assms(2,1) _ assms(5)] assms(3)
    by (cases neg; cases "BIGNUM_LENGTH x < BIGNUM_LENGTH y")
      (simp_all add: bignum_multiply_unsigned_def bignum_allocate_eq add.commute mult.commute)
qed

section \<open>Scaling by a small factor\<close>

text \<open>A factor below \<open>BIGNUM_RADIX_ROOT\<close> is its own low half; the school step specialises.\<close>

lemma uint_RADIX_ROOT [simp]: "uint BIGNUM_RADIX_ROOT = 2 ^ 31"
  by (simp add: BIGNUM_RADIX_ROOT_def)

lemma small_factor_halves:
  assumes "f < BIGNUM_RADIX_ROOT"
  shows "HD_LOW f = f" "HD_HIGH f = 0" "uint f < 2 ^ 31"
proof -
  show f: "uint f < 2 ^ 31" using assms by (simp add: word_less_def)
  then show "HD_LOW f = f" by (simp add: word_uint_eq_iff uint_HD_LOW)
  show "HD_HIGH f = 0" using f by (simp add: word_uint_eq_iff uint_HD_HIGH)
qed

lemma scale_step:
  assumes "f < BIGNUM_RADIX_ROOT" "uint d < 2 ^ 62" "uint c < 2 ^ 62"
  defines "pl \<equiv> f * HD_LOW d + HD_LOW c"
  defines "ph \<equiv> f * HD_HIGH d + HD_HIGH pl + HD_HIGH c"
  shows "uint (HD_CONS (HD_LOW ph) (HD_LOW pl)) + 2 ^ 62 * uint (HD_HIGH ph) = uint f * uint d + uint c
    \<and> uint (HD_CONS (HD_LOW ph) (HD_LOW pl)) < 2 ^ 62 \<and> uint (HD_HIGH ph) < 2 ^ 62"
proof -
  have "uint f < 2 ^ 62" using small_factor_halves(3) [OF assms(1)] by simp
  from mul_step [OF _ assms(2) this assms(3), of 0] show ?thesis
    unfolding pl_def ph_def small_factor_halves(1,2) [OF assms(1)] by (simp add: mult.commute)
qed

lemma scale_up_scan_correct:
  assumes "f < BIGNUM_RADIX_ROOT" "digits_ok ds" "uint c < 2 ^ 62" "scale_up_scan f ds c = (rs, c')"
  shows "digits_ok rs \<and> length rs = length ds \<and> uint c' < 2 ^ 62
    \<and> digits_int rs + (2 ^ 62) ^ length ds * uint c' = uint f * digits_int ds + uint c"
  using assms(2-4)
proof (induction ds arbitrary: c rs c')
  case (Cons d ds)
  let ?pl = "f * HD_LOW d + HD_LOW c"
  let ?ph = "f * HD_HIGH d + HD_HIGH ?pl + HD_HIGH c"
  let ?r = "HD_CONS (HD_LOW ?ph) (HD_LOW ?pl)"
  have st: "uint ?r + 2 ^ 62 * uint (HD_HIGH ?ph) = uint f * uint d + uint c" "uint ?r < 2 ^ 62" "uint (HD_HIGH ?ph) < 2 ^ 62"
    using scale_step [OF assms(1), of d c] Cons.prems by simp_all
  obtain rs1 where rs: "rs = ?r # rs1" "scale_up_scan f ds (HD_HIGH ?ph) = (rs1, c')"
    using Cons.prems(3) by (auto simp: Let_def split: prod.splits)
  have ih: "digits_ok rs1" "length rs1 = length ds" "uint c' < 2 ^ 62"
    "digits_int rs1 + (2 ^ 62) ^ length ds * uint c' = uint f * digits_int ds + uint (HD_HIGH ?ph)"
    using Cons.IH [OF _ st(3) rs(2)] Cons.prems by simp_all
  have "digits_int rs + (2 ^ 62) ^ length (d # ds) * uint c' =
      uint ?r + 2 ^ 62 * (digits_int rs1 + (2 ^ 62) ^ length ds * uint c')"
    by (simp add: rs algebra_simps)
  also have "\<dots> = uint f * digits_int (d # ds) + uint c"
    unfolding ih(4) using st(1) by (simp add: algebra_simps)
  finally show ?case using ih st(2) rs(1) by simp
qed simp

lemma bignum_destructive_scale_up_correct:
  assumes "long_less 1 f" "f < BIGNUM_RADIX_ROOT" "digits_ok ds" "length ds < 2 ^ 62"
    "uint f * digits_int ds < (2 ^ 62) ^ length ds"
  shows "\<exists>rs. bignum_destructive_scale_up (mk_bignum neg ds) f = Some (mk_bignum neg rs)
    \<and> length rs = length ds \<and> digits_ok rs \<and> digits_int rs = uint f * digits_int ds"
proof -
  obtain rs c where s: "scale_up_scan f ds 0 = (rs, c)" by (cases "scale_up_scan f ds 0")
  have r: "digits_ok rs" "length rs = length ds"
    "digits_int rs + (2 ^ 62) ^ length ds * uint c = uint f * digits_int ds"
    using scale_up_scan_correct [OF assms(2,3) _ s] by simp_all
  have "(2 ^ 62) ^ length ds * uint c < (2 ^ 62) ^ length ds * 1"
    using r(3) assms(5) digits_int_nonneg [of rs] by linarith
  then have "uint c < 1" by (simp only: mult_less_cancel_left_pos zero_less_power zero_less_numeral)
  then have "c = 0" using uint_pos [of c] by (cases "c = 0") simp_all
  then show ?thesis
    using r s assms by (intro exI [of _ rs]) (simp add: bignum_destructive_scale_up_def Let_def)
qed

theorem bignum_multiply_small_factor_correct:
  assumes "bignum_wf x" "long_less 1 f" "f < BIGNUM_RADIX_ROOT" "BIGNUM_LENGTH x < BIGNUM_LENGTH_MAX"
  shows "yields (bignum_multiply_unsigned_small_factor x f neg)
    (if neg then - (uint f * \<bar>bignum_int x\<bar>) else uint f * \<bar>bignum_int x\<bar>)"
proof -
  let ?xs = "bignum_digits x"
  note wx = bignum_wf_simps [OF assms(1)]
  have len: "Suc (length ?xs) < 2 ^ 62" using assms(4) LENGTH_MAX_small [of "Suc (length ?xs)"] wx(1) by simp
  have "uint f * digits_int ?xs \<le> 2 ^ 31 * digits_int ?xs"
    using small_factor_halves(3) [OF assms(3)] by (intro mult_right_mono) simp_all
  also have "\<dots> \<le> 2 ^ 62 * digits_int ?xs" by (intro mult_right_mono) simp_all
  also have "\<dots> < 2 ^ 62 * (2 ^ 62) ^ length ?xs" using digits_int_less [OF wx(3)] by (intro mult_strict_left_mono) simp_all
  finally have "uint f * digits_int (?xs @ [0]) < (2 ^ 62) ^ length (?xs @ [0])" by simp
  then obtain rs where rs: "bignum_destructive_scale_up (mk_bignum neg (?xs @ [0])) f = Some (mk_bignum neg rs)"
    "length rs = Suc (length ?xs)" "digits_ok rs" "digits_int rs = uint f * digits_int ?xs"
    using bignum_destructive_scale_up_correct [OF assms(2,3), of "?xs @ [0]" neg] wx(3) len by auto
  have "bignum_multiply_unsigned_small_factor x f neg = Some (bignum_trim (mk_bignum neg rs))"
    using assms(4) len rs(1) wx(1)
    by (simp add: bignum_multiply_unsigned_small_factor_def bignum_allocate_eq Let_def
        bignum_destructive_copy_def list_update_append flip: replicate_append_same)
  then show ?thesis
    using rs(2-4) wx(1,9) assms(4) by (simp only:) (rule yields_trim, auto)
qed

lemma single_digit:
  assumes "bignum_wf x" "BIGNUM_LENGTH x = 1"
  shows "\<bar>bignum_int x\<bar> = uint (BIGNUM_REF x 0)" "BIGNUM_REF x 0 \<noteq> 0" "uint (BIGNUM_REF x 0) < 2 ^ 62"
proof -
  obtain d where d: "bignum_digits x = [d]"
    using assms bignum_wf_simps(1) [OF assms(1)] by (auto simp: length_Suc_conv)
  then show "\<bar>bignum_int x\<bar> = uint (BIGNUM_REF x 0)" "BIGNUM_REF x 0 \<noteq> 0" "uint (BIGNUM_REF x 0) < 2 ^ 62"
    using bignum_wf_simps(4,9) [OF assms(1)] by (simp_all add: BIGNUM_REF_def digits_normal_def)
qed

lemma small_digit_greater_1:
  "d \<noteq> 0 \<Longrightarrow> d \<noteq> 1 \<Longrightarrow> d < BIGNUM_RADIX_ROOT \<Longrightarrow> long_less 1 d"
proof -
  assume d: "d \<noteq> 0" "d \<noteq> 1" "d < BIGNUM_RADIX_ROOT"
  have "uint d \<noteq> 1" using d(2) by (metis uint_1 word_uint_eq_iff)
  then show ?thesis using uint_pos [OF d(1)] small_factor_halves(3) [OF d(3)] by (simp add: long_less_uint)
qed

theorem bignum_multiply_correct:
  assumes "bignum_wf x" "bignum_wf y" "BIGNUM_LENGTH x + BIGNUM_LENGTH y \<le> BIGNUM_LENGTH_MAX"
  shows "yields (bignum_multiply x y) (bignum_int x * bignum_int y)"
proof (cases "bignum_int x = 0 \<or> bignum_int y = 0")
  case True
  then show ?thesis using assms(1,2) by (auto simp: bignum_multiply_def bignum_wf_simps(6) Let_def)
next
  case False
  note wx = bignum_wf_simps [OF assms(1)] and wy = bignum_wf_simps [OF assms(2)]
  define neg where "neg = (if BIGNUM_NEGATIVE_P x then \<not> BIGNUM_NEGATIVE_P y else BIGNUM_NEGATIVE_P y)"
  have nz: "\<not> BIGNUM_ZERO_P x" "\<not> BIGNUM_ZERO_P y" using False wx(6) wy(6) by simp_all
  then have len: "BIGNUM_LENGTH x < BIGNUM_LENGTH_MAX" "BIGNUM_LENGTH y < BIGNUM_LENGTH_MAX"
    using assms(3) by (simp_all add: BIGNUM_ZERO_P_def)
  have k: "bignum_int x * bignum_int y = (if neg then - (\<bar>bignum_int x\<bar> * \<bar>bignum_int y\<bar>) else \<bar>bignum_int x\<bar> * \<bar>bignum_int y\<bar>)"
    using False by (auto simp: neg_def wx(8) wy(8) abs_if)
  have small: "yields (bignum_multiply_unsigned_small_factor z (BIGNUM_REF w 0) neg)
      (if neg then - (\<bar>bignum_int w\<bar> * \<bar>bignum_int z\<bar>) else \<bar>bignum_int w\<bar> * \<bar>bignum_int z\<bar>)"
    if "bignum_wf w" "bignum_wf z" "BIGNUM_LENGTH w = 1" "BIGNUM_REF w 0 \<noteq> 1" "BIGNUM_REF w 0 < BIGNUM_RADIX_ROOT"
      "BIGNUM_LENGTH z < BIGNUM_LENGTH_MAX" for w z
    using bignum_multiply_small_factor_correct [OF that(2) small_digit_greater_1 that(5,6), of neg]
      single_digit [OF that(1,3)] that(4,5) by (cases neg) simp_all
  have one: "yields (bignum_maybe_new_sign z neg) (if neg then - (\<bar>bignum_int w\<bar> * \<bar>bignum_int z\<bar>) else \<bar>bignum_int w\<bar> * \<bar>bignum_int z\<bar>)"
    if "bignum_wf w" "bignum_wf z" "BIGNUM_LENGTH w = 1" "BIGNUM_REF w 0 = 1" "bignum_int z \<noteq> 0" for w z
    using yields_new_sign(2) [OF that(2), of neg] single_digit(1) [OF that(1,3)] that(4,5) by (cases neg) simp_all
  show ?thesis
    using bignum_multiply_unsigned_correct [OF assms nz, of neg]
      one [OF assms(1,2)] one [OF assms(2,1)] small [OF assms(1,2)] small [OF assms(2,1)] len False nz
    unfolding bignum_multiply_def Let_def neg_def [symmetric] k
    by (cases neg) (simp_all add: mult.commute)
qed

end
