(* ===== verification/Bignum_Digit_Div.thy ===== *)
theory Bignum_Digit_Div
  imports Bignum_Mul
begin

text \<open>
  Division of two bignum digits by one (\<open>bignum_digit_divide\<close> and its helpers in
  \<open>microcode/bignum.c\<close>): Knuth's Algorithm D with two quotient digits, on half digits in
  radix \<open>2 ^ 31\<close>. The integer lemmas on trial quotients hold for an arbitrary radix and are
  used again for the division of long bignums.

  The loop that corrects the trial quotient is a partial function: not returning is
  \<^const>\<open>None\<close>. Under the precondition of the division it is shown to return.
\<close>

section \<open>The C code\<close>

partial_function (option) bdd_correct :: "long \<Rightarrow> long \<Rightarrow> long \<Rightarrow> long \<Rightarrow> long option" where
  "bdd_correct v1 v2 guess comparand =
     (if long_less comparand (guess * v2)
      then (let guess = guess - 1; comparand = comparand + push_bit BIGNUM_HALF_DIGIT_LENGTH v1
            in if comparand \<ge> BIGNUM_RADIX then Some guess else bdd_correct v1 v2 guess comparand)
      else Some guess)"

text \<open>The macros update a half digit and set the carry; both are returned.\<close>

definition BDDS_MULSUB :: "long \<Rightarrow> long \<Rightarrow> long \<Rightarrow> long \<Rightarrow> long \<times> long" where
  "BDDS_MULSUB guess vn un carry_in =
     (let product = vn * guess + carry_in; diff = un - HD_LOW product
      in if long_less diff 0 then (diff + BIGNUM_RADIX_ROOT, HD_HIGH product + 1)
         else (diff, HD_HIGH product))"

definition BDDS_ADD :: "long \<Rightarrow> long \<Rightarrow> long \<Rightarrow> long \<times> long" where
  "BDDS_ADD vn un carry_in =
     (let sum = vn + un + carry_in
      in if sum < BIGNUM_RADIX_ROOT then (sum, 0) else (sum - BIGNUM_RADIX_ROOT, 1))"

definition bignum_digit_divide_subtract ::
    "long \<Rightarrow> long \<Rightarrow> long \<Rightarrow> long \<times> long \<times> long \<Rightarrow> long \<times> (long \<times> long \<times> long)" where
  "bignum_digit_divide_subtract v1 v2 guess u =
     (let (u0, u1, u2) = u;
          (u2, carry) = BDDS_MULSUB guess v2 u2 0;
          (u1, carry) = BDDS_MULSUB guess v1 u1 carry
      in if carry = 0 then (guess, (u0, u1, u2))
         else let diff = u0 - carry
              in if long_less diff 0
                 then let u0 = diff + BIGNUM_RADIX;
                          (u2, carry) = BDDS_ADD v2 u2 0;
                          (u1, carry) = BDDS_ADD v1 u1 carry;
                          u0 = (if carry = 1 then u0 + 1 else u0)
                      in (guess - 1, (u0, u1, u2))
                 else (guess, (diff, u1, u2)))"

definition BDD_STEP :: "long \<Rightarrow> long \<Rightarrow> long \<times> long \<times> long \<Rightarrow> (long \<times> (long \<times> long \<times> long)) option" where
  "BDD_STEP v1 v2 u =
     (let (uj, u1, u2) = u;
          (guess, comparand) =
            (if uj \<noteq> v1
             then let uj_uj1 = HD_CONS uj u1
                  in (long_div uj_uj1 v1, HD_CONS (long_mod uj_uj1 v1) u2)
             else (BIGNUM_RADIX_ROOT - 1, HD_CONS (u1 + v1) u2))
      in do {
        guess \<leftarrow> bdd_correct v1 v2 guess comparand;
        Some (bignum_digit_divide_subtract v1 v2 guess u)
      })"

text \<open>The result is the remainder, which the C function returns, and the quotient it stores.\<close>

definition bignum_digit_divide :: "long \<Rightarrow> long \<Rightarrow> long \<Rightarrow> (long \<times> long) option" where
  "bignum_digit_divide uh ul v =
     (if uh = 0 \<and> long_less ul v then Some (ul, 0)
      else if uh = 0 \<and> ul = v then Some (0, 1)
      else let v1 = HD_HIGH v; v2 = HD_LOW v
           in do {
             (q1, u0, u1, u2) \<leftarrow> BDD_STEP v1 v2 (HD_HIGH uh, HD_LOW uh, HD_HIGH ul);
             (q2, u1, u2, u3) \<leftarrow> BDD_STEP v1 v2 (u1, u2, HD_LOW ul);
             Some (HD_CONS u2 u3, HD_CONS q1 q2)
           })"

section \<open>Trial quotients\<close>

text \<open>
  Knuth's trial quotient over the integers. \<open>V\<close> starts with the digits \<open>v1\<close>, \<open>v2\<close> and \<open>U\<close> with
  \<open>u0\<close>, \<open>u1\<close>, \<open>u2\<close>; what follows them is below the weight \<open>W\<close>.
\<close>

lemma trial_quotient_too_large:
  fixes b v1 v2 W :: int
  assumes "0 < W" "0 \<le> g" "V = (v1 * b + v2) * W + v'" "0 \<le> v'"
    "U = ((u0 * b + u1) * b + u2) * W + u'" "u' < W"
    "g * v2 > (u0 * b + u1 - g * v1) * b + u2"
  shows "U < g * V"
proof -
  have "(u0 * b + u1) * b + u2 + 1 \<le> g * (v1 * b + v2)" using assms(7) by (simp add: algebra_simps)
  then have "((u0 * b + u1) * b + u2 + 1) * W \<le> g * (v1 * b + v2) * W"
    using assms(1) by (intro mult_right_mono) simp_all
  also have "\<dots> \<le> g * V" using assms(2,4) by (simp add: assms(3) algebra_simps)
  finally show ?thesis using assms(6) by (simp add: assms(5) algebra_simps)
qed

lemma trial_quotient_close:
  fixes b v1 v2 W :: int
  assumes "0 < W" "0 \<le> g" "g < b" "V = (v1 * b + v2) * W + v'" "v' < W" "1 \<le> v1" "0 \<le> v2" "0 \<le> v'"
    "U = ((u0 * b + u1) * b + u2) * W + u'" "0 \<le> u'"
    "g * v2 \<le> (u0 * b + u1 - g * v1) * b + u2"
  shows "g * V < U + V" "v' = 0 \<Longrightarrow> g * V \<le> U"
proof -
  have "g * (v1 * b + v2) \<le> (u0 * b + u1) * b + u2" using assms(11) by (simp add: algebra_simps)
  then have "g * (v1 * b + v2) * W \<le> ((u0 * b + u1) * b + u2) * W"
    using assms(1) by (intro mult_right_mono) simp_all
  then have 1: "g * V \<le> U + g * v'" using assms(10) by (simp add: assms(4,9) algebra_simps)
  have "g * v' \<le> g * W" using assms(2,5) by (intro mult_left_mono) simp_all
  moreover have "g * W < b * W" using assms(1,3) by simp
  moreover have "b * W \<le> v1 * b * W"
    using assms(1,2,3,6) mult_right_mono [of 1 v1 "b * W"] by (simp add: algebra_simps)
  moreover have "v1 * b * W \<le> V" using assms(1,7,8) by (simp add: assms(4) algebra_simps)
  ultimately show "g * V < U + V" using 1 by linarith
  show "v' = 0 \<Longrightarrow> g * V \<le> U" using 1 by simp
qed

lemma trial_quotient_start:
  fixes b v1 v2 W :: int
  assumes "0 < W" "0 < b" "0 < v1" "V = (v1 * b + v2) * W + v'" "0 \<le> v2" "0 \<le> v'" "0 \<le> q"
    "U = ((u0 * b + u1) * b + u2) * W + u'" "u' < W" "u2 < b" "q * V \<le> U"
  shows "q \<le> (u0 * b + u1) div v1"
proof -
  have "q * (v1 * b * W) \<le> q * V"
    using assms(1,5,6,7) by (intro mult_left_mono) (simp_all add: assms(4) algebra_simps)
  also have "\<dots> \<le> U" by (rule assms(11))
  also have "\<dots> < ((u0 * b + u1) * b + u2) * W + W" using assms(9) by (simp add: assms(8))
  also have "\<dots> = ((u0 * b + u1) * b + u2 + 1) * W" by (simp add: algebra_simps)
  also have "\<dots> \<le> ((u0 * b + u1) * b + b) * W" using assms(1,10) by (intro mult_right_mono) simp_all
  also have "\<dots> = (u0 * b + u1 + 1) * (b * W)" by (simp add: algebra_simps)
  finally have "q * v1 * (b * W) < (u0 * b + u1 + 1) * (b * W)" by (simp add: algebra_simps)
  then have "q * v1 < u0 * b + u1 + 1" using assms(1,2) by (simp add: mult_less_cancel_right_pos)
  then show ?thesis using assms(3) by (intro le_divI) simp_all
qed

section \<open>Correctness of the digit division\<close>

lemma uint_half_product:
  "uint a < 2 ^ 31 \<Longrightarrow> uint b < 2 ^ 31 \<Longrightarrow>
   uint (a * b) = uint a * uint b \<and> uint a * uint b < 2 ^ 62" for a b :: long
  using half_products_bound [of "uint a" "uint b"] by (simp add: uint_mult_exact)

lemma bdd_correct_returns:
  fixes n u2 :: int
  assumes v: "1 \<le> uint v1" "uint v1 < 2 ^ 31" "uint v2 < 2 ^ 31" and u2: "0 \<le> u2" "u2 < 2 ^ 31"
  defines "V \<equiv> uint v1 * 2 ^ 31 + uint v2" and "U \<equiv> n * 2 ^ 31 + u2"
  shows "uint g < 2 ^ 31 \<Longrightarrow> uint c < 2 ^ 63 \<Longrightarrow> uint c = (n - uint g * uint v1) * 2 ^ 31 + u2 \<Longrightarrow>
    U div V \<le> uint g \<Longrightarrow> \<exists>g'. bdd_correct v1 v2 g c = Some g' \<and> uint g' = U div V"
proof (induction "nat (uint g)" arbitrary: g c rule: less_induct)
  case less
  have gv: "uint (g * v2) = uint g * uint v2" "uint g * uint v2 < 2 ^ 62"
    using uint_half_product [of g v2] less.prems(1) v(3) by simp_all
  have V: "0 < V" unfolding V_def using v(1) by (intro add_pos_nonneg) simp_all
  have test: "long_less c (g * v2) \<longleftrightarrow> uint c < uint g * uint v2"
    using gv less.prems(2) by (simp add: long_less_uint)
  show ?case
  proof (cases "uint c < uint g * uint v2")
    case False
    have "uint g * V \<le> U"
      using trial_quotient_close(2) [of 1 "uint g" "2 ^ 31" V "uint v1" "uint v2" 0 U 0 n u2 0]
        False less.prems v by (simp add: V_def U_def)
    then have "uint g \<le> U div V" using V by (intro le_divI)
    then show ?thesis using False test less.prems(4) by (subst bdd_correct.simps) simp
  next
    case True
    have "U < uint g * V"
      using trial_quotient_too_large [of 1 "uint g" V "uint v1" "2 ^ 31" "uint v2" 0 U 0 n u2 0]
        True less.prems by (simp add: V_def U_def)
    then have q: "U div V \<le> uint g - 1" using int_div_less [OF V, of U "uint g"] by (simp add: mult.commute)
    have "0 \<le> uint c" by simp
    then have g1: "1 \<le> uint g" using True uint_pos [of g] by (cases "g = 0") simp_all
    then have g': "uint (g - 1) = uint g - 1" by (simp add: uint_sub_exact)
    let ?c = "c + push_bit BIGNUM_HALF_DIGIT_LENGTH v1"
    have p: "uint (push_bit 31 v1) = uint v1 * 2 ^ 31" using v(2) by (intro uint_push_bit_exact) simp
    have c62: "uint c < 4611686018427387904" using True gv(2) by simp
    have "uint ?c = uint c + uint v1 * 2 ^ 31"
      using c62 v(2) p by (subst uint_add_exact) simp_all
    then have c': "uint ?c = (n - uint (g - 1) * uint v1) * 2 ^ 31 + u2" "uint ?c < 2 ^ 63"
      using less.prems(3) c62 v(2) by (simp_all add: g' algebra_simps)
    show ?thesis
    proof (cases "?c \<ge> BIGNUM_RADIX")
      case True
      then have "2 ^ 62 \<le> uint ?c" by (simp add: word_le_def)
      moreover have "uint (g - 1) * uint v2 < 2 ^ 62"
        using uint_half_product [of "g - 1" v2] less.prems(1) v(3) g' by simp
      ultimately have "uint (g - 1) * V \<le> U"
        using trial_quotient_close(2) [of 1 "uint (g - 1)" "2 ^ 31" V "uint v1" "uint v2" 0 U 0 n u2 0]
          c'(1) less.prems(1) g1 g' v by (simp add: V_def U_def)
      then have "uint (g - 1) \<le> U div V" using V by (intro le_divI)
      then show ?thesis
        using True q g' test \<open>uint c < uint g * uint v2\<close> by (subst bdd_correct.simps) (simp add: Let_def)
    next
      case False
      have "\<exists>g'. bdd_correct v1 v2 (g - 1) ?c = Some g' \<and> uint g' = U div V"
      proof (rule less.hyps)
        show "nat (uint (g - 1)) < nat (uint g)" unfolding g' using g1 by arith
      qed (use less.prems(1) g' q c' in simp_all)
      then show ?thesis
        using False test \<open>uint c < uint g * uint v2\<close> by (subst bdd_correct.simps) (simp add: Let_def)
    qed
  qed
qed

lemma product_halves_bound:
  fixes p :: int
  assumes "0 \<le> p" "p \<le> 2147483648 * 2147483647"
  shows "p div 2 ^ 31 \<le> 2147483647" "p mod 2 ^ 31 \<noteq> 0 \<Longrightarrow> p div 2 ^ 31 \<le> 2147483646"
proof -
  have "p div 2 ^ 31 \<le> (2147483648 * 2147483647) div 2 ^ 31" using assms(2) by (rule zdiv_mono1) simp
  then show l: "p div 2 ^ 31 \<le> 2147483647" by simp
  assume "p mod 2 ^ 31 \<noteq> 0"
  then have "0 < p mod 2 ^ 31" by (simp add: less_le)
  then have "2 ^ 31 * (p div 2 ^ 31) < 2147483648 * 2147483647"
    using mult_div_mod_eq [of "2 ^ 31" p] assms(2) by linarith
  then show "p div 2 ^ 31 \<le> 2147483646" by simp
qed

lemma BDDS_MULSUB_correct:
  assumes "uint g < 2 ^ 31" "uint vn < 2 ^ 31" "uint un < 2 ^ 31" "uint cin < 2 ^ 31"
    "BDDS_MULSUB g vn un cin = (un', c)"
  shows "uint un' + uint vn * uint g + uint cin = uint un + 2 ^ 31 * uint c"
    "uint un' < 2 ^ 31" "uint c < 2 ^ 31"
proof -
  let ?p = "vn * g + cin"
  have vg: "uint (vn * g) = uint vn * uint g" "uint vn * uint g \<le> 4611686014132420609"
    using uint_half_product [of vn g] half_products_bound [of "uint vn" "uint g"] assms(1,2) by simp_all
  have c31: "uint cin \<le> 2147483647" using assms(4) by simp
  have p: "uint ?p = uint vn * uint g + uint cin"
    using vg c31 by (subst uint_add_exact) (simp_all only: vg(1), simp)
  have p_le: "uint ?p \<le> 2147483648 * 2147483647" unfolding p using vg(2) c31 by simp
  then have p63: "uint ?p < 2 ^ 63" by simp
  note ph = product_halves_bound [OF uint_bounds64(1) p_le]
  have hl: "uint (HD_LOW ?p) = uint ?p mod 2 ^ 31" "uint (HD_HIGH ?p) = uint ?p div 2 ^ 31"
    using p63 by (simp_all only: uint_HD_LOW uint_HD_HIGH)
  have low: "0 \<le> uint ?p mod 2 ^ 31" "uint ?p mod 2 ^ 31 < 2 ^ 31" by simp_all
  have low2: "uint ?p mod 2 ^ 31 < 2147483648" by simp
  define d where "d = un - HD_LOW ?p"
  have d: "d = word_of_int (uint un - uint ?p mod 2 ^ 31)" unfolding d_def hl(1) [symmetric] by simp
  have un0: "0 \<le> uint un" by simp
  have s: "sint d = uint un - uint ?p mod 2 ^ 31"
    unfolding d using assms(3) [simplified] low(1) low2 un0
    by (intro sint_of_int64 [simplified]) linarith+
  have dm: "2147483648 * (uint ?p div 2 ^ 31) + uint ?p mod 2 ^ 31 = uint ?p"
    using mult_div_mod_eq [of "2 ^ 31" "uint ?p"] by simp
  have all: "uint un' + uint ?p = uint un + 2147483648 * uint c \<and> uint un' < 2147483648 \<and> uint c < 2147483648"
  proof (cases "uint un < uint ?p mod 2 ^ 31")
    case True
    then have "uint ?p mod 2 ^ 31 \<noteq> 0" using un0 by linarith
    then have h: "uint ?p div 2 ^ 31 \<le> 2147483646" by (rule ph(2))
    have eq: "un' = d + BIGNUM_RADIX_ROOT" "c = HD_HIGH ?p + 1"
      using assms(5) True s by (simp_all add: BDDS_MULSUB_def Let_def word_sless_alt flip: d_def)
    have "un' = word_of_int (uint un - uint ?p mod 2 ^ 31 + uint BIGNUM_RADIX_ROOT)"
      unfolding eq d by (simp del: uint_RADIX_ROOT)
    then have "un' = word_of_int (uint un - uint ?p mod 2 ^ 31 + 2 ^ 31)" by simp
    then have u: "uint un' = uint un - uint ?p mod 2 ^ 31 + 2 ^ 31"
      using True low un0 by (simp only:, intro uint_of_int64) (linarith, rule less_trans [of _ "2 ^ 31"], linarith, simp)
    have "uint un' = uint un - uint ?p mod 2 ^ 31 + 2147483648" using u by simp
    moreover have "uint c = uint ?p div 2 ^ 31 + 1"
      unfolding eq using h hl(2) by (subst uint_add_exact) simp_all
    ultimately show ?thesis using True h dm by (intro conjI) linarith+
  next
    case False
    have eq: "un' = d" "c = HD_HIGH ?p"
      using assms(5) False s by (simp_all add: BDDS_MULSUB_def Let_def word_sless_alt flip: d_def)
    have "uint un' = uint un - uint ?p mod 2 ^ 31" using uint_eq_sint64 [of d] s False eq(1) by simp
    moreover have "uint c = uint ?p div 2 ^ 31" using eq(2) hl(2) by simp
    ultimately show ?thesis using ph(1) assms(3) [simplified] low(1) dm by (intro conjI) linarith+
  qed
  then show "uint un' + uint vn * uint g + uint cin = uint un + 2 ^ 31 * uint c"
    "uint un' < 2 ^ 31" "uint c < 2 ^ 31"
    using p by (simp_all add: add.assoc)
qed

text \<open>With the exact quotient digit the subtraction does not go negative.\<close>

lemma bignum_digit_divide_subtract_correct:
  fixes u0 u1 u2 v1 v2 g :: long
  assumes "uint v1 < 2 ^ 31" "uint v2 < 2 ^ 31" "uint g < 2 ^ 31" "uint u1 < 2 ^ 31" "uint u2 < 2 ^ 31"
  defines "V \<equiv> uint v1 * 2 ^ 31 + uint v2" and "U \<equiv> (uint u0 * 2 ^ 31 + uint u1) * 2 ^ 31 + uint u2"
  assumes "0 < V" "uint g = U div V"
  shows "\<exists>u1' u2'. bignum_digit_divide_subtract v1 v2 g (u0, u1, u2) = (g, (0, u1', u2'))
    \<and> uint u1' < 2 ^ 31 \<and> uint u2' < 2 ^ 31 \<and> uint u1' * 2 ^ 31 + uint u2' = U mod V"
proof -
  obtain u2' c1 where 1: "BDDS_MULSUB g v2 u2 0 = (u2', c1)" by fastforce
  obtain u1' c2 where 2: "BDDS_MULSUB g v1 u1 c1 = (u1', c2)" by fastforce
  have a: "uint u2' + uint v2 * uint g = uint u2 + 2 ^ 31 * uint c1" "uint u2' < 2 ^ 31" "uint c1 < 2 ^ 31"
    using BDDS_MULSUB_correct [OF assms(3,2,5) _ 1] by simp_all
  have b: "uint u1' + uint v1 * uint g + uint c1 = uint u1 + 2 ^ 31 * uint c2" "uint u1' < 2 ^ 31" "uint c2 < 2 ^ 31"
    using BDDS_MULSUB_correct [OF assms(3,1,4) a(3) 2] by simp_all
  have "U - uint g * V = (uint u0 - uint c2) * 2 ^ 62 + (uint u1' * 2 ^ 31 + uint u2')"
    using a(1) b(1) by (simp add: U_def V_def algebra_simps)
  then have id: "U mod V = (uint u0 - uint c2) * 2 ^ 62 + (uint u1' * 2 ^ 31 + uint u2')"
    by (simp add: assms(9) minus_div_mult_eq_mod)
  have "V < 2 ^ 62" unfolding V_def using assms(1,2) by simp
  then have r: "0 \<le> U mod V" "U mod V < 2 ^ 62" using assms(8) less_trans [OF pos_mod_bound [OF assms(8)]] by simp_all
  have w: "0 \<le> uint u1' * 2 ^ 31 + uint u2'" "uint u1' * 2 ^ 31 + uint u2' < 2 ^ 62"
    using a(2) b(2) by simp_all
  have "(uint u0 - uint c2) * 2 ^ 62 < 1 * 2 ^ 62" "(- 1) * 2 ^ 62 < (uint u0 - uint c2) * 2 ^ 62"
    using r w unfolding id by linarith+
  then have "uint u0 = uint c2" by simp
  then have u0: "u0 = c2" by (simp add: word_uint_eq_iff)
  then have "bignum_digit_divide_subtract v1 v2 g (u0, u1, u2) = (g, (0, u1', u2'))"
    by (simp add: bignum_digit_divide_subtract_def 1 2 Let_def)
  then show ?thesis using a(2) b(2) id u0 by simp
qed

lemma BDD_STEP_correct:
  fixes u0 u1 u2 v1 v2 :: long
  assumes "1 \<le> uint v1" "uint v1 < 2 ^ 31" "uint v2 < 2 ^ 31" "uint u1 < 2 ^ 31" "uint u2 < 2 ^ 31"
  defines "V \<equiv> uint v1 * 2 ^ 31 + uint v2" and "U \<equiv> (uint u0 * 2 ^ 31 + uint u1) * 2 ^ 31 + uint u2"
  assumes "uint u0 * 2 ^ 31 + uint u1 < V"
  shows "\<exists>q u1' u2'. BDD_STEP v1 v2 (u0, u1, u2) = Some (q, (0, u1', u2'))
    \<and> uint q < 2 ^ 31 \<and> uint q = U div V
    \<and> uint u1' < 2 ^ 31 \<and> uint u2' < 2 ^ 31 \<and> uint u1' * 2 ^ 31 + uint u2' = U mod V"
proof -
  have V: "0 < V" unfolding V_def using assms(1) by (intro add_pos_nonneg) simp_all
  have nn: "0 \<le> uint u0" "0 \<le> uint u1" "0 \<le> uint u2" "0 \<le> uint v2" by simp_all
  let ?n = "uint u0 * 2 ^ 31 + uint u1"
  have U: "U = ?n * 2 ^ 31 + uint u2" by (simp add: U_def)
  have "U < V * 2 ^ 31"
    using assms(5,8) mult_right_mono [of "?n + 1" V "2 ^ 31"] unfolding U by (simp add: algebra_simps)
  then have q: "U div V < 2 ^ 31" using V by (intro int_div_less)
  have q0: "0 \<le> U div V" using V nn by (simp add: U_def pos_imp_zdiv_nonneg_iff)
  have qV: "U div V * V \<le> U" using V by (simp add: minus_mod_eq_div_mult [symmetric])
  have u0_le: "uint u0 \<le> uint v1"
  proof (rule ccontr)
    assume "\<not> uint u0 \<le> uint v1"
    then have "(uint v1 + 1) * 2 ^ 31 \<le> uint u0 * 2 ^ 31" by (intro mult_right_mono) simp_all
    then show False using assms(3,8) nn unfolding V_def by (simp add: algebra_simps)
  qed
  have "\<exists>g c. (if u0 \<noteq> v1 then let uj_uj1 = HD_CONS u0 u1 in (long_div uj_uj1 v1, HD_CONS (long_mod uj_uj1 v1) u2)
      else (BIGNUM_RADIX_ROOT - 1, HD_CONS (u1 + v1) u2)) = (g, c)
    \<and> uint g < 2 ^ 31 \<and> uint c < 2 ^ 63 \<and> uint c = (?n - uint g * uint v1) * 2 ^ 31 + uint u2 \<and> U div V \<le> uint g"
  proof (cases "u0 = v1")
    case False
    then have u0: "uint u0 < uint v1" using u0_le by (simp add: word_uint_eq_iff less_le)
    have n: "uint (HD_CONS u0 u1) = ?n" using u0 assms(2,4) by (subst uint_HD_CONS) simp_all
    have n63: "uint (HD_CONS u0 u1) < 2 ^ 63" "uint v1 < 2 ^ 63" unfolding n using u0 assms(2,4) by simp_all
    have g: "uint (long_div (HD_CONS u0 u1) v1) = ?n div uint v1" "uint (long_mod (HD_CONS u0 u1) v1) = ?n mod uint v1"
      using n63 by (simp_all only: uint_long_div uint_long_mod n)
    have m: "0 \<le> ?n mod uint v1" "?n mod uint v1 < uint v1" using assms(1) by simp_all
    have "(uint u0 + 1) * 2 ^ 31 \<le> uint v1 * 2 ^ 31" using u0 by (intro mult_right_mono) simp_all
    then have "?n < uint v1 * 2 ^ 31" using assms(4) by (simp add: algebra_simps)
    then have g31: "?n div uint v1 < 2 ^ 31" using assms(1) by (intro int_div_less) simp_all
    have c: "uint (HD_CONS (long_mod (HD_CONS u0 u1) v1) u2) = uint u2 + 2 ^ 31 * (?n mod uint v1)"
      using m(2) assms(2,5) g(2) by (subst uint_HD_CONS) simp_all
    have "U div V \<le> ?n div uint v1"
      using trial_quotient_start [of 1 "2 ^ 31" "uint v1" V "uint v2" 0 "U div V" U "uint u0" "uint u1" "uint u2" 0]
        assms(1,5) q0 qV by (simp add: V_def U)
    moreover have "?n - ?n div uint v1 * uint v1 = ?n mod uint v1" by (rule minus_div_mult_eq_mod)
    moreover have "uint u2 + 2 ^ 31 * (?n mod uint v1) < 2 ^ 63" using m(2) assms(2,5) by simp
    ultimately show ?thesis
      using False g g31 c
      by (intro exI [of _ "long_div (HD_CONS u0 u1) v1"] exI [of _ "HD_CONS (long_mod (HD_CONS u0 u1) v1) u2"])
        (simp only: Let_def, simp)
  next
    case True
    have g: "uint (BIGNUM_RADIX_ROOT - 1) = 2 ^ 31 - 1" by (simp add: uint_sub_exact)
    have s: "uint (u1 + v1) = uint u1 + uint v1" using assms(2,4) by (intro uint_add_exact) simp
    have u1: "uint u1 < uint v2" using assms(8) True unfolding V_def by simp
    have c: "uint (HD_CONS (u1 + v1) u2) = uint u2 + 2 ^ 31 * (uint u1 + uint v1)"
      using s assms(2,4,5) by (subst uint_HD_CONS) simp_all
    show ?thesis
      using True g c q assms(2,4,5)
      by (intro exI [of _ "BIGNUM_RADIX_ROOT - 1"] exI [of _ "HD_CONS (u1 + v1) u2"]) (simp add: algebra_simps)
  qed
  then obtain g c where gc: "(if u0 \<noteq> v1 then let uj_uj1 = HD_CONS u0 u1 in
        (long_div uj_uj1 v1, HD_CONS (long_mod uj_uj1 v1) u2)
      else (BIGNUM_RADIX_ROOT - 1, HD_CONS (u1 + v1) u2)) = (g, c)"
    "uint g < 2 ^ 31" "uint c < 2 ^ 63" "uint c = (?n - uint g * uint v1) * 2 ^ 31 + uint u2" "U div V \<le> uint g"
    by blast
  obtain g' where g': "bdd_correct v1 v2 g c = Some g'" "uint g' = U div V"
    using bdd_correct_returns [of v1 v2 "uint u2" g c ?n] assms(1-3,5) gc(2-5) unfolding V_def U by auto
  have "uint g' < 2 ^ 31" using g' q by simp
  from bignum_digit_divide_subtract_correct [OF assms(2,3) this assms(4,5), of u0] g' V
  obtain u1' u2' where "bignum_digit_divide_subtract v1 v2 g' (u0, u1, u2) = (g', (0, u1', u2'))"
    "uint u1' < 2 ^ 31" "uint u2' < 2 ^ 31" "uint u1' * 2 ^ 31 + uint u2' = U mod V"
    unfolding V_def U_def by auto
  moreover have "BDD_STEP v1 v2 (u0, u1, u2) = Some (bignum_digit_divide_subtract v1 v2 g' (u0, u1, u2))"
    using gc(1) g'(1) by (simp add: BDD_STEP_def Let_def split: prod.splits if_splits)
  ultimately show ?thesis using g' \<open>uint g' < 2 ^ 31\<close> by auto
qed

lemma uint_split_halves:
  assumes "uint d < 2 ^ 62"
  shows "uint (HD_HIGH d) * 2 ^ 31 + uint (HD_LOW d) = uint d" "uint (HD_HIGH d) < 2 ^ 31" "uint (HD_LOW d) < 2 ^ 31"
proof -
  have h: "uint (HD_HIGH d) = uint d div 2 ^ 31" using assms by (intro uint_HD_HIGH) simp
  show "uint (HD_HIGH d) * 2 ^ 31 + uint (HD_LOW d) = uint d" unfolding h uint_HD_LOW by simp
  show "uint (HD_HIGH d) < 2 ^ 31" unfolding h using assms by (intro int_div_less) simp_all
  show "uint (HD_LOW d) < 2 ^ 31" by (simp add: uint_HD_LOW)
qed

theorem bignum_digit_divide_correct:
  assumes "uint uh < uint v" "uint ul < 2 ^ 62" "2 ^ 31 \<le> uint v" "uint v < 2 ^ 62"
  shows "\<exists>r q. bignum_digit_divide uh ul v = Some (r, q)
    \<and> uint uh * 2 ^ 62 + uint ul = uint q * uint v + uint r \<and> uint r < uint v \<and> uint q < 2 ^ 62"
proof -
  have long: "long_less ul v \<longleftrightarrow> uint ul < uint v" using assms(2,4) by (simp add: long_less_uint)
  consider "uh = 0" "uint ul < uint v" | "uh = 0" "ul = v" | "\<not> (uh = 0 \<and> uint ul < uint v)" "\<not> (uh = 0 \<and> ul = v)"
    by blast
  then show ?thesis
  proof cases
    case 1
    then show ?thesis by (intro exI [of _ ul] exI [of _ 0]) (simp add: bignum_digit_divide_def long)
  next
    case 2
    then show ?thesis
      using assms(1) by (intro exI [of _ 0] exI [of _ 1]) (simp add: bignum_digit_divide_def long)
  next
    case 3
    have uh62: "uint uh < 2 ^ 62" using assms(1,4) by linarith
    note hh = uint_split_halves [OF uh62] and hl = uint_split_halves [OF assms(2)] and hv = uint_split_halves [OF assms(4)]
    have v1: "1 \<le> uint (HD_HIGH v)" using hv(1,3) assms(3) by simp
    have s1: "uint (HD_HIGH uh) * 2 ^ 31 + uint (HD_LOW uh) < uint (HD_HIGH v) * 2 ^ 31 + uint (HD_LOW v)"
      unfolding hh(1) hv(1) by (rule assms(1))
    obtain q1 u1 u2 where 1: "BDD_STEP (HD_HIGH v) (HD_LOW v) (HD_HIGH uh, HD_LOW uh, HD_HIGH ul) = Some (q1, (0, u1, u2))"
      "uint q1 < 2 ^ 31" "uint q1 = (uint uh * 2 ^ 31 + uint (HD_HIGH ul)) div uint v"
      "uint u1 < 2 ^ 31" "uint u2 < 2 ^ 31" "uint u1 * 2 ^ 31 + uint u2 = (uint uh * 2 ^ 31 + uint (HD_HIGH ul)) mod uint v"
      using BDD_STEP_correct [OF v1 hv(2,3) hh(3) hl(2) s1] unfolding hh(1) hv(1) by blast
    have v0: "0 < uint v" using assms(3) by simp
    have s2: "uint u1 * 2 ^ 31 + uint u2 < uint (HD_HIGH v) * 2 ^ 31 + uint (HD_LOW v)"
      unfolding 1(6) hv(1) using v0 by (rule pos_mod_bound)
    obtain q2 u2' u3 where 2: "BDD_STEP (HD_HIGH v) (HD_LOW v) (u1, u2, HD_LOW ul) = Some (q2, (0, u2', u3))"
      "uint q2 < 2 ^ 31" "uint q2 = ((uint u1 * 2 ^ 31 + uint u2) * 2 ^ 31 + uint (HD_LOW ul)) div uint v"
      "uint u2' < 2 ^ 31" "uint u3 < 2 ^ 31"
      "uint u2' * 2 ^ 31 + uint u3 = ((uint u1 * 2 ^ 31 + uint u2) * 2 ^ 31 + uint (HD_LOW ul)) mod uint v"
      using BDD_STEP_correct [OF v1 hv(2,3) 1(5) hl(3) s2] unfolding hv(1) by blast
    have e: "bignum_digit_divide uh ul v = Some (HD_CONS u2' u3, HD_CONS q1 q2)"
      unfolding bignum_digit_divide_def long using 3 1(1) 2(1) by (auto simp: Let_def)
    have c: "uint (HD_CONS u2' u3) = uint u2' * 2 ^ 31 + uint u3" "uint (HD_CONS q1 q2) = uint q1 * 2 ^ 31 + uint q2"
      using 1(2) 2(2,4,5) by (subst uint_HD_CONS; simp)+
    have d1: "uint q1 * uint v + (uint u1 * 2 ^ 31 + uint u2) = uint uh * 2 ^ 31 + uint (HD_HIGH ul)"
      unfolding 1(3,6) by (rule div_mult_mod_eq)
    have d2: "uint q2 * uint v + (uint u2' * 2 ^ 31 + uint u3) = (uint u1 * 2 ^ 31 + uint u2) * 2 ^ 31 + uint (HD_LOW ul)"
      unfolding 2(3,6) by (rule div_mult_mod_eq)
    have "uint uh * 2 ^ 62 + uint ul = (uint uh * 2 ^ 31 + uint (HD_HIGH ul)) * 2 ^ 31 + uint (HD_LOW ul)"
      using hl(1) by (simp add: algebra_simps)
    also have "\<dots> = uint q1 * uint v * 2 ^ 31 + ((uint u1 * 2 ^ 31 + uint u2) * 2 ^ 31 + uint (HD_LOW ul))"
      unfolding d1 [symmetric] by (simp only: distrib_right add.assoc)
    also have "\<dots> = uint (HD_CONS q1 q2) * uint v + uint (HD_CONS u2' u3)"
      unfolding d2 [symmetric] c by (simp add: algebra_simps)
    finally have "uint uh * 2 ^ 62 + uint ul = uint (HD_CONS q1 q2) * uint v + uint (HD_CONS u2' u3)" .
    moreover have "uint (HD_CONS u2' u3) < uint v" unfolding c 2(6) using v0 by (rule pos_mod_bound)
    moreover have "uint (HD_CONS q1 q2) < 2 ^ 62" unfolding c using 1(2) 2(2) by simp
    ultimately show ?thesis using e by blast
  qed
qed

end
