(* ===== verification/Bignum_Div.thy ===== *)
theory Bignum_Div
  imports Bignum_Digit_Div Bignum_Add
begin

text \<open>
  Division of bignums by one digit (\<open>microcode/bignum.c\<close>): by a half digit with two machine
  divisions per digit, and by a larger digit with \<open>bignum_digit_divide\<close> after the operands
  have been normalised. A quotient or remainder the caller does not ask for (a null pointer
  in C) is \<^const>\<open>None\<close> in the result pair. The theorems show that the quotient and the
  remainder are those of the integer division of the magnitudes, that no assertion fails
  and that every loop returns.
\<close>

section \<open>Small denominators\<close>

text \<open>The scan runs from the most significant digit down; the list is in scan order.\<close>

fun scale_down_scan :: "long \<Rightarrow> long list \<Rightarrow> long \<Rightarrow> long list \<times> long" where
  "scale_down_scan denominator (two_digits # ds) remainder =
     (let numerator = HD_CONS remainder (HD_HIGH two_digits);
          quotient_high = long_div numerator denominator;
          numerator = HD_CONS (long_mod numerator denominator) (HD_LOW two_digits);
          q = HD_CONS quotient_high (long_div numerator denominator);
          (qs, r) = scale_down_scan denominator ds (long_mod numerator denominator)
      in (q # qs, r))"
| "scale_down_scan denominator [] remainder = ([], remainder)"

definition bignum_destructive_scale_down :: "bignum \<Rightarrow> long \<Rightarrow> (bignum \<times> long) option" where
  "bignum_destructive_scale_down b denominator =
     (if long_less 1 denominator \<and> denominator < BIGNUM_RADIX_ROOT
      then (let (qs, r) = scale_down_scan denominator (rev (bignum_digits b)) 0
            in Some (b\<lparr>bignum_digits := rev qs\<rparr>, r))
      else None)"

definition bignum_divide_unsigned_small_denominator ::
    "bignum \<Rightarrow> long \<Rightarrow> bool \<Rightarrow> bool \<Rightarrow> bool \<Rightarrow> (bignum \<times> bignum option) option" where
  "bignum_divide_unsigned_small_denominator numerator denominator want_remainder q_negative_p r_negative_p =
     do {
       q \<leftarrow> bignum_new_sign numerator q_negative_p;
       (q, r) \<leftarrow> bignum_destructive_scale_down q denominator;
       if want_remainder
       then do { rem \<leftarrow> bignum_digit_to_bignum r r_negative_p; Some (bignum_trim q, Some rem) }
       else Some (bignum_trim q, None)
     }"

fun remainder_scan :: "long \<Rightarrow> long list \<Rightarrow> long \<Rightarrow> long" where
  "remainder_scan d (two_digits # ds) r =
     remainder_scan d ds
       (long_mod (HD_CONS (long_mod (HD_CONS r (HD_HIGH two_digits)) d) (HD_LOW two_digits)) d)"
| "remainder_scan d [] r = r"

definition bignum_remainder_unsigned_small_denominator :: "bignum \<Rightarrow> long \<Rightarrow> bool \<Rightarrow> bignum option" where
  "bignum_remainder_unsigned_small_denominator n d negative_p =
     (if long_less 1 d \<and> d < BIGNUM_RADIX_ROOT
      then bignum_digit_to_bignum (remainder_scan d (rev (bignum_digits n)) 0) negative_p
      else None)"

section \<open>Normalisation\<close>

text \<open>The loop that shifts the leading digit up to half of the radix; it does not return on 0.\<close>

partial_function (option) normalization_shift :: "long \<Rightarrow> nat \<Rightarrow> (long \<times> nat) option" where
  "normalization_shift v1 shift =
     (if v1 < BIGNUM_RADIX div 2 then normalization_shift (push_bit 1 v1) (shift + 1)
      else Some (v1, shift))"

fun normalization_scan :: "nat \<Rightarrow> long list \<Rightarrow> long \<Rightarrow> long list \<times> long" where
  "normalization_scan shift_left (digit # ds) carry =
     (let shift_right = BIGNUM_DIGIT_LENGTH - shift_left;
          mask = push_bit shift_right 1 - 1;
          (ts, c) = normalization_scan shift_left ds (long_shr digit shift_right)
      in ((push_bit shift_left (digit AND mask) OR carry) # ts, c))"
| "normalization_scan shift_left [] carry = ([], carry)"

definition bignum_destructive_normalization :: "bignum \<Rightarrow> bignum \<Rightarrow> nat \<Rightarrow> bignum option" where
  "bignum_destructive_normalization source target shift_left =
     (let (ts, carry) = normalization_scan shift_left (bignum_digits source) 0;
          n = BIGNUM_LENGTH source
      in if n < BIGNUM_LENGTH target
         then Some (target\<lparr>bignum_digits := ts @ carry # drop (n + 1) (bignum_digits target)\<rparr>)
         else if carry = 0 then Some (target\<lparr>bignum_digits := ts\<rparr>) else None)"

text \<open>From the most significant digit down, as in the C code.\<close>

fun unnormalization_scan :: "nat \<Rightarrow> long list \<Rightarrow> long \<Rightarrow> long list \<times> long" where
  "unnormalization_scan shift_right (digit # ds) carry =
     (let shift_left = BIGNUM_DIGIT_LENGTH - shift_right;
          mask = push_bit shift_right 1 - 1;
          (ts, c) = unnormalization_scan shift_right ds (push_bit shift_left (digit AND mask))
      in ((long_shr digit shift_right OR carry) # ts, c))"
| "unnormalization_scan shift_right [] carry = ([], carry)"

definition bignum_destructive_unnormalization :: "bignum \<Rightarrow> nat \<Rightarrow> bignum option" where
  "bignum_destructive_unnormalization b shift_right =
     (let (ts, carry) = unnormalization_scan shift_right (rev (bignum_digits b)) 0
      in if carry = 0 then Some (b\<lparr>bignum_digits := rev ts\<rparr>) else None)"

section \<open>Denominators of one digit\<close>

fun digit_divide_scan :: "long \<Rightarrow> long list \<Rightarrow> long \<Rightarrow> (long list \<times> long) option" where
  "digit_divide_scan denominator (d # ds) r =
     do {
       (r, qj) \<leftarrow> bignum_digit_divide r d denominator;
       (qs, r) \<leftarrow> digit_divide_scan denominator ds r;
       Some (qj # qs, r)
     }"
| "digit_divide_scan denominator [] r = Some ([], r)"

definition bignum_divide_unsigned_medium_denominator ::
    "bignum \<Rightarrow> long \<Rightarrow> bool \<Rightarrow> bool \<Rightarrow> bool \<Rightarrow> bool \<Rightarrow> (bignum option \<times> bignum option) option" where
  "bignum_divide_unsigned_medium_denominator numerator denominator want_quotient want_remainder
       q_negative_p r_negative_p =
     do {
       (denominator, shift) \<leftarrow> normalization_shift denominator 0;
       q \<leftarrow> (if shift = 0
            then map_option (bignum_destructive_copy numerator)
                   (bignum_allocate (BIGNUM_LENGTH numerator) q_negative_p)
            else do {
              q \<leftarrow> bignum_allocate (BIGNUM_LENGTH numerator + 1) q_negative_p;
              bignum_destructive_normalization numerator q shift
            });
       (qs, r) \<leftarrow> digit_divide_scan denominator (rev (bignum_digits q)) 0;
       rem \<leftarrow> (if want_remainder
              then map_option Some (bignum_digit_to_bignum (long_shr r shift) r_negative_p)
              else Some None);
       Some (if want_quotient then Some (bignum_trim (q\<lparr>bignum_digits := rev qs\<rparr>)) else None, rem)
     }"

section \<open>Short division is correct\<close>

text \<open>
  Both short divisions replace a digit and a running remainder by a quotient digit and the
  next remainder; what a whole scan computes follows from the law of one step.
\<close>

definition short_division :: "int \<Rightarrow> long list \<Rightarrow> int \<Rightarrow> long list \<Rightarrow> int \<Rightarrow> bool" where
  "short_division v ds r qs r' \<longleftrightarrow>
     length qs = length ds \<and> digits_ok qs \<and> 0 \<le> r' \<and> r' < v
   \<and> r * (2 ^ 62) ^ length ds + digits_int (rev ds) = digits_int (rev qs) * v + r'"

lemma short_division_Nil: "0 \<le> r \<Longrightarrow> r < v \<Longrightarrow> short_division v [] r [] r"
  by (simp add: short_division_def)

lemma short_division_Cons:
  assumes "r * 2 ^ 62 + uint d = uint q * v + r'" "uint q < 2 ^ 62" "short_division v ds r' qs r''"
  shows "short_division v (d # ds) r (q # qs) r''"
proof -
  let ?B = "(2 ^ 62) ^ length ds :: int"
  have "r * (2 ^ 62) ^ length (d # ds) + digits_int (rev (d # ds)) = (r * 2 ^ 62 + uint d) * ?B + digits_int (rev ds)"
    by (simp add: algebra_simps)
  also have "\<dots> = uint q * v * ?B + (r' * ?B + digits_int (rev ds))"
    unfolding assms(1) by (simp add: algebra_simps)
  also have "\<dots> = digits_int (rev (q # qs)) * v + r''"
    using assms(3) by (simp add: short_division_def algebra_simps)
  finally show ?thesis using assms(2,3) by (simp add: short_division_def)
qed

lemma two_step_division:
  fixes n1 n2 :: int
  assumes "n1 = r * R + h" "q1 * d + m1 = n1" "n2 = m1 * R + l" "q2 * d + m2 = n2"
  shows "(r * R + h) * R + l = (q1 * R + q2) * d + m2"
proof -
  have "(q1 * d + m1) * R + l = (q1 * R + q2) * d + m2" using assms(3,4) by (simp add: algebra_simps)
  then show ?thesis using assms(1,2) by simp
qed

lemma scale_down_step:
  fixes d r t :: long
  assumes "1 < uint d" "uint d < 2 ^ 31" "uint r < uint d" "uint t < 2 ^ 62"
  defines "n1 \<equiv> HD_CONS r (HD_HIGH t)"
  defines "n2 \<equiv> HD_CONS (long_mod n1 d) (HD_LOW t)"
  shows "uint r * 2 ^ 62 + uint t = uint (HD_CONS (long_div n1 d) (long_div n2 d)) * uint d + uint (long_mod n2 d)"
    and "uint (HD_CONS (long_div n1 d) (long_div n2 d)) < 2 ^ 62" "uint (long_mod n2 d) < uint d"
proof -
  note ht = uint_split_halves [OF assms(4)]
  have cons: "uint (HD_CONS a b) = uint a * 2 ^ 31 + uint b \<and> uint a * 2 ^ 31 + uint b < 2 ^ 62
      \<and> (uint a * 2 ^ 31 + uint b) div uint d < 2 ^ 31"
    if "uint a < uint d" "uint b < 2 ^ 31" for a b :: long
  proof -
    have "(uint a + 1) * 2 ^ 31 \<le> uint d * 2 ^ 31" using that by (intro mult_right_mono) simp_all
    then have "uint a * 2 ^ 31 + uint b < uint d * 2 ^ 31" using that by (simp add: algebra_simps)
    then have "(uint a * 2 ^ 31 + uint b) div uint d < 2 ^ 31" using assms(1) by (intro int_div_less) simp_all
    then show ?thesis using that assms(2) by (subst uint_HD_CONS) simp_all
  qed
  have c1: "uint n1 = uint r * 2 ^ 31 + uint (HD_HIGH t)" "uint n1 < 2 ^ 62" "uint n1 div uint d < 2 ^ 31"
    using cons [OF assms(3) ht(2)] unfolding n1_def by simp_all
  have l: "uint n < 2 ^ 62 \<Longrightarrow> uint (long_div n d) = uint n div uint d \<and> uint (long_mod n d) = uint n mod uint d" for n
    using assms(2) by (simp add: uint_long_div uint_long_mod)
  have m: "uint (long_mod n1 d) < uint d" using l [OF c1(2)] assms(1) by simp
  have c2: "uint n2 = uint (long_mod n1 d) * 2 ^ 31 + uint (HD_LOW t)" "uint n2 < 2 ^ 62" "uint n2 div uint d < 2 ^ 31"
    using cons [OF m ht(3)] unfolding n2_def by simp_all
  show "uint (long_mod n2 d) < uint d" using l [OF c2(2)] assms(1) by simp
  have q: "uint (HD_CONS (long_div n1 d) (long_div n2 d)) = uint n1 div uint d * 2 ^ 31 + uint n2 div uint d"
    using l [OF c1(2)] l [OF c2(2)] c1(3) c2(3) by (subst uint_HD_CONS) simp_all
  show "uint (HD_CONS (long_div n1 d) (long_div n2 d)) < 2 ^ 62" unfolding q using c1(3) c2(3) by simp
  have d1: "uint n1 div uint d * uint d + uint (long_mod n1 d) = uint n1" using l [OF c1(2)] by simp
  have d2: "uint n2 div uint d * uint d + uint (long_mod n2 d) = uint n2" using l [OF c2(2)] by simp
  have "uint r * 2 ^ 62 + uint t = (uint r * 2 ^ 31 + uint (HD_HIGH t)) * 2 ^ 31 + uint (HD_LOW t)"
    using ht(1) by (simp add: algebra_simps)
  also have "\<dots> = (uint n1 div uint d * 2 ^ 31 + uint n2 div uint d) * uint d + uint (long_mod n2 d)"
    by (rule two_step_division [OF c1(1) d1 c2(1) d2])
  finally show "uint r * 2 ^ 62 + uint t = uint (HD_CONS (long_div n1 d) (long_div n2 d)) * uint d + uint (long_mod n2 d)"
    unfolding q .
qed

lemma scale_down_scan_correct:
  assumes "1 < uint d" "uint d < 2 ^ 31"
  shows "uint r < uint d \<Longrightarrow> digits_ok ds \<Longrightarrow> scale_down_scan d ds r = (qs, r') \<Longrightarrow>
    short_division (uint d) ds (uint r) qs (uint r')"
proof (induction ds arbitrary: r qs)
  case Nil
  then show ?case by (simp add: short_division_Nil)
next
  case (Cons t ds)
  let ?n1 = "HD_CONS r (HD_HIGH t)"
  let ?n2 = "HD_CONS (long_mod ?n1 d) (HD_LOW t)"
  let ?q = "HD_CONS (long_div ?n1 d) (long_div ?n2 d)"
  obtain qs' where q: "qs = ?q # qs'" "scale_down_scan d ds (long_mod ?n2 d) = (qs', r')"
    using Cons.prems(3) by (auto simp: Let_def split: prod.splits)
  have t: "uint t < 2 ^ 62" using Cons.prems(2) by simp
  note st = scale_down_step [OF assms Cons.prems(1) t]
  show ?case unfolding q(1)
    using st(1,2) Cons.IH [OF st(3) _ q(2)] Cons.prems(2) by (intro short_division_Cons) simp_all
qed

lemma remainder_scan_eq: "remainder_scan d ds r = snd (scale_down_scan d ds r)"
  by (induction ds arbitrary: r) (auto simp: Let_def split: prod.splits)

lemma digit_divide_scan_correct:
  assumes "2 ^ 31 \<le> uint d" "uint d < 2 ^ 62"
  shows "uint r < uint d \<Longrightarrow> digits_ok ds \<Longrightarrow>
    \<exists>qs r'. digit_divide_scan d ds r = Some (qs, r') \<and> short_division (uint d) ds (uint r) qs (uint r')"
proof (induction ds arbitrary: r)
  case Nil
  then show ?case by (simp add: short_division_Nil)
next
  case (Cons t ds)
  obtain r1 q where 1: "bignum_digit_divide r t d = Some (r1, q)"
    "uint r * 2 ^ 62 + uint t = uint q * uint d + uint r1" "uint r1 < uint d" "uint q < 2 ^ 62"
    using bignum_digit_divide_correct [OF Cons.prems(1) _ assms, of t] Cons.prems(2) by auto
  obtain qs r' where 2: "digit_divide_scan d ds r1 = Some (qs, r')" "short_division (uint d) ds (uint r1) qs (uint r')"
    using Cons.IH [OF 1(3)] Cons.prems(2) by auto
  show ?case
    using short_division_Cons [OF 1(2,4) 2(2)] 1(1) 2(1) by (intro exI [of _ "q # qs"] exI [of _ r']) simp
qed

section \<open>Normalisation is correct\<close>

lemma normalization_shift_returns:
  assumes "1 \<le> uint v" "uint v < 2 ^ 62"
  shows "\<exists>v' s. normalization_shift v k = Some (v', k + s) \<and> uint v' = uint v * 2 ^ s \<and> s \<le> 61
    \<and> 2 ^ 61 \<le> uint v' \<and> uint v' < 2 ^ 62"
  using assms
proof (induction "nat (2 ^ 62 - uint v)" arbitrary: v k rule: less_induct)
  case less
  have half: "uint (BIGNUM_RADIX div 2) = 2 ^ 61" by (simp add: BIGNUM_RADIX_def)
  show ?case
  proof (cases "uint v < 2 ^ 61")
    case False
    then show ?thesis
      using less.prems half by (intro exI [of _ v] exI [of _ 0]) (subst normalization_shift.simps, simp add: word_less_def)
  next
    case True
    have p: "uint (push_bit 1 v) = uint v * 2" using True by (subst uint_push_bit_exact) simp_all
    obtain v' s where v': "normalization_shift (push_bit 1 v) (k + 1) = Some (v', k + 1 + s)"
      "uint v' = uint (push_bit 1 v) * 2 ^ s" "2 ^ 61 \<le> uint v'" "uint v' < 2 ^ 62"
      using less.hyps [of "push_bit 1 v" "k + 1"] True less.prems p by auto
    have "normalization_shift v k = Some (v', k + Suc s)"
      using True half v'(1) by (subst normalization_shift.simps) (simp add: word_less_def)
    moreover have e: "uint v' = uint v * 2 ^ Suc s" using v'(2) p by simp
    moreover have "Suc s \<le> 61"
    proof (rule ccontr)
      assume "\<not> Suc s \<le> 61"
      then have "(2 :: int) ^ 62 \<le> 2 ^ Suc s" by (intro power_increasing) simp_all
      also have "\<dots> \<le> uint v * 2 ^ Suc s" using less.prems(1) mult_right_mono [of 1 "uint v" "2 ^ Suc s"] by simp
      finally show False using v'(4) e by simp
    qed
    ultimately show ?thesis using v'(3,4) by blast
  qed
qed

lemma low_bits_mask: "m < 64 \<Longrightarrow> push_bit m (1 :: long) - 1 = mask m"
  by (simp add: mask_eq_exp_minus_1 push_bit_eq_mult)

lemma shift_up_step:
  assumes "1 \<le> s" "s \<le> 61" "uint d < 2 ^ 62" "uint c < 2 ^ s"
  defines "t \<equiv> push_bit s (d AND (push_bit (62 - s) 1 - 1)) OR c" and "c' \<equiv> long_shr d (62 - s)"
  shows "uint t + 2 ^ 62 * uint c' = uint d * 2 ^ s + uint c" "uint t < 2 ^ 62" "uint c' < 2 ^ s"
proof -
  have p62: "(2 :: int) ^ (62 - s) * 2 ^ s = 2 ^ 62" using assms(2) by (simp flip: power_add)
  have m: "0 \<le> uint d mod 2 ^ (62 - s)" "uint d mod 2 ^ (62 - s) < 2 ^ (62 - s)" by simp_all
  then have "uint d mod 2 ^ (62 - s) + 1 \<le> 2 ^ (62 - s)" by linarith
  then have "(uint d mod 2 ^ (62 - s) + 1) * 2 ^ s \<le> 2 ^ (62 - s) * 2 ^ s" by (intro mult_right_mono) simp_all
  then have b: "uint d mod 2 ^ (62 - s) * 2 ^ s + 2 ^ s \<le> 2 ^ 62" unfolding p62 by (simp add: algebra_simps)
  have a: "uint (d AND (push_bit (62 - s) 1 - 1)) = uint d mod 2 ^ (62 - s)"
    using assms(1) by (simp only: low_bits_mask [of "62 - s"] uint_and_mask64)
  have pos: "(0 :: int) < 2 ^ s" by simp
  have sh: "uint (push_bit s (d AND (push_bit (62 - s) 1 - 1))) = uint d mod 2 ^ (62 - s) * 2 ^ s"
  proof -
    have "uint d mod 2 ^ (62 - s) * 2 ^ s < 2 ^ 62" using b pos by linarith
    then show ?thesis by (subst uint_push_bit_exact) (simp_all only: a, simp)
  qed
  have t: "uint t = uint d mod 2 ^ (62 - s) * 2 ^ s + uint c"
    unfolding t_def using assms(4) sh by (subst uint_or_disjoint [where n = s]) simp_all
  then show "uint t < 2 ^ 62" using b assms(4) by linarith
  have d63: "uint d < 2 ^ 63" using assms(3) by simp
  have c': "uint c' = uint d div 2 ^ (62 - s)" unfolding c'_def using d63 by (rule uint_long_shr)
  show "uint c' < 2 ^ s" unfolding c' using assms(3) p62 by (intro int_div_less) (simp_all add: mult.commute)
  have "uint d mod 2 ^ (62 - s) * 2 ^ s + 2 ^ 62 * (uint d div 2 ^ (62 - s)) =
      (2 ^ (62 - s) * (uint d div 2 ^ (62 - s)) + uint d mod 2 ^ (62 - s)) * 2 ^ s"
    unfolding p62 [symmetric] by (simp only: algebra_simps)
  then show "uint t + 2 ^ 62 * uint c' = uint d * 2 ^ s + uint c" unfolding t c' by (simp only: mult_div_mod_eq)
qed

lemma normalization_scan_correct:
  assumes "1 \<le> s" "s \<le> 61"
  shows "digits_ok ds \<Longrightarrow> uint c < 2 ^ s \<Longrightarrow> normalization_scan s ds c = (ts, c') \<Longrightarrow>
    digits_ok ts \<and> length ts = length ds \<and> uint c' < 2 ^ s
    \<and> digits_int ts + (2 ^ 62) ^ length ds * uint c' = digits_int ds * 2 ^ s + uint c"
proof (induction ds arbitrary: c ts)
  case (Cons d ds)
  let ?t = "push_bit s (d AND (push_bit (62 - s) 1 - 1)) OR c" and ?c = "long_shr d (62 - s)"
  obtain ts1 where ts: "ts = ?t # ts1" "normalization_scan s ds ?c = (ts1, c')"
    using Cons.prems(3) by (auto simp: Let_def split: prod.splits)
  have d: "uint d < 2 ^ 62" using Cons.prems(1) by simp
  note st = shift_up_step [OF assms d Cons.prems(2)]
  have ih: "digits_ok ts1" "length ts1 = length ds" "uint c' < 2 ^ s"
    "digits_int ts1 + (2 ^ 62) ^ length ds * uint c' = digits_int ds * 2 ^ s + uint ?c"
    using Cons.IH [OF _ st(3) ts(2)] Cons.prems(1) by simp_all
  have "digits_int ts + (2 ^ 62) ^ length (d # ds) * uint c' =
      uint ?t + 2 ^ 62 * (digits_int ts1 + (2 ^ 62) ^ length ds * uint c')"
    by (simp only: ts(1) digits_int_simps list.size power_Suc2 power_add power_one_right distrib_left) (simp add: algebra_simps)
  also have "\<dots> = uint ?t + 2 ^ 62 * uint ?c + 2 ^ 62 * (digits_int ds * 2 ^ s)"
    unfolding ih(4) by (simp only: distrib_left add.assoc add.commute add.left_commute)
  also have "\<dots> = digits_int (d # ds) * 2 ^ s + uint c"
    unfolding st(1) by (simp add: algebra_simps)
  finally show ?case using ih st(2) ts(1) by simp
qed simp

lemma shift_down_step:
  assumes "1 \<le> s" "s \<le> 61" "uint d < 2 ^ 62" "uint c = C * 2 ^ (62 - s)" "0 \<le> C" "C < 2 ^ s"
  defines "t \<equiv> long_shr d s OR c" and "c' \<equiv> push_bit (62 - s) (d AND (push_bit s 1 - 1))"
  shows "C * 2 ^ 62 + uint d = uint t * 2 ^ s + uint d mod 2 ^ s" "uint t < 2 ^ 62"
    "uint c' = uint d mod 2 ^ s * 2 ^ (62 - s)"
proof -
  have p62: "(2 :: int) ^ (62 - s) * 2 ^ s = 2 ^ 62" using assms(2) by (simp flip: power_add)
  have scale: "x * 2 ^ (62 - s) + 2 ^ (62 - s) \<le> 2 ^ 62" if "x < 2 ^ s" for x :: int
  proof -
    have "(x + 1) * 2 ^ (62 - s) \<le> 2 ^ s * 2 ^ (62 - s)" using that by (intro mult_right_mono) simp_all
    then show ?thesis using p62 by (simp add: algebra_simps)
  qed
  have d63: "uint d < 2 ^ 63" using assms(3) by simp
  have h: "uint (long_shr d s) = uint d div 2 ^ s" using d63 by (rule uint_long_shr)
  have hb: "uint d div 2 ^ s < 2 ^ (62 - s)" using assms(3) p62 by (intro int_div_less) (simp_all add: mult.commute)
  have t: "uint t = C * 2 ^ (62 - s) + uint d div 2 ^ s"
    unfolding t_def using hb h assms(4) by (subst or.commute, subst uint_or_disjoint [where n = "62 - s"]) simp_all
  then show "uint t < 2 ^ 62" using scale [OF assms(6)] hb by linarith
  have "uint t * 2 ^ s = C * (2 ^ (62 - s) * 2 ^ s) + uint d div 2 ^ s * 2 ^ s"
    unfolding t by (simp only: distrib_right mult.assoc)
  then show "C * 2 ^ 62 + uint d = uint t * 2 ^ s + uint d mod 2 ^ s"
    unfolding p62 using div_mult_mod_eq [of "uint d" "2 ^ s"] by linarith
  have a: "uint (d AND (push_bit s 1 - 1)) = uint d mod 2 ^ s"
    using assms(2) by (simp only: low_bits_mask [of s] uint_and_mask64)
  have "uint d mod 2 ^ s < 2 ^ s" "(0 :: int) < 2 ^ (62 - s)" by simp_all
  then have "uint d mod 2 ^ s * 2 ^ (62 - s) < 2 ^ 62" using scale [of "uint d mod 2 ^ s"] by linarith
  then show "uint c' = uint d mod 2 ^ s * 2 ^ (62 - s)"
    unfolding c'_def by (subst uint_push_bit_exact) (simp_all only: a, simp)
qed

lemma unnormalization_scan_correct:
  assumes "1 \<le> s" "s \<le> 61"
  shows "digits_ok ds \<Longrightarrow> uint c = C * 2 ^ (62 - s) \<Longrightarrow> 0 \<le> C \<Longrightarrow> C < 2 ^ s \<Longrightarrow>
    unnormalization_scan s ds c = (ts, c') \<Longrightarrow>
    \<exists>C'. short_division (2 ^ s) ds C ts C' \<and> uint c' = C' * 2 ^ (62 - s)"
proof (induction ds arbitrary: c C ts)
  case Nil
  then show ?case by (auto intro: short_division_Nil)
next
  case (Cons d ds)
  let ?t = "long_shr d s OR c" and ?c = "push_bit (62 - s) (d AND (push_bit s 1 - 1))"
  obtain ts1 where ts: "ts = ?t # ts1" "unnormalization_scan s ds ?c = (ts1, c')"
    using Cons.prems(5) by (auto simp: Let_def split: prod.splits)
  have d: "uint d < 2 ^ 62" using Cons.prems(1) by simp
  note st = shift_down_step [OF assms d Cons.prems(2-4)]
  obtain C' where "short_division (2 ^ s) ds (uint d mod 2 ^ s) ts1 C'" "uint c' = C' * 2 ^ (62 - s)"
    using Cons.IH [OF _ st(3) _ _ ts(2)] Cons.prems(1) by auto
  then show ?case using short_division_Cons [OF st(1,2)] ts(1) by blast
qed

text \<open>The operations on bignums.\<close>

lemma bignum_destructive_normalization_correct:
  assumes "1 \<le> s" "s \<le> 61" "digits_ok ds" "length ds \<le> m" "m < 2 ^ 62"
    "digits_int ds * 2 ^ s < (2 ^ 62) ^ m" "m \<le> Suc (length ds)"
  shows "\<exists>ts. bignum_destructive_normalization (mk_bignum n ds) (mk_bignum neg (replicate m 0)) s = Some (mk_bignum neg ts)
    \<and> digits_ok ts \<and> length ts = m \<and> digits_int ts = digits_int ds * 2 ^ s"
proof -
  obtain ts c where ts: "normalization_scan s ds 0 = (ts, c)" by fastforce
  have r: "digits_ok ts" "length ts = length ds" "uint c < 2 ^ s"
    "digits_int ts + (2 ^ 62) ^ length ds * uint c = digits_int ds * 2 ^ s"
    using normalization_scan_correct [OF assms(1,2,3) _ ts] by simp_all
  have "(2 :: int) ^ s < 2 ^ 62" using assms(2) by (intro power_strict_increasing) simp_all
  then have c62: "uint c < 2 ^ 62" using r(3) by linarith
  show ?thesis
  proof (cases "m = length ds")
    case False
    then have m: "m = Suc (length ds)" using assms(4,7) by simp
    then show ?thesis
      using ts r c62 assms(5)
      by (intro exI [of _ "ts @ [c]"]) (simp add: bignum_destructive_normalization_def Let_def)
  next
    case True
    have "(2 ^ 62) ^ m * uint c < (2 ^ 62) ^ m * 1"
      using r(4) assms(6) digits_int_nonneg [of ts] unfolding True by linarith
    then have "uint c < 1" by (simp only: mult_less_cancel_left_pos zero_less_power zero_less_numeral)
    then have "c = 0" using uint_pos [of c] by (cases "c = 0") simp_all
    then show ?thesis
      using ts r True assms(5)
      by (intro exI [of _ ts]) (simp add: bignum_destructive_normalization_def Let_def)
  qed
qed

lemma bignum_destructive_unnormalization_correct:
  assumes "1 \<le> s" "s \<le> 61" "digits_ok ds" "digits_int ds = k * 2 ^ s"
  shows "\<exists>ts. bignum_destructive_unnormalization (mk_bignum neg ds) s = Some (mk_bignum neg ts)
    \<and> digits_ok ts \<and> length ts = length ds \<and> digits_int ts = k"
proof -
  obtain ts c where ts: "unnormalization_scan s (rev ds) 0 = (ts, c)" by fastforce
  have "digits_ok (rev ds)" using assms(3) by (simp add: digits_ok_def)
  then obtain C where C: "short_division (2 ^ s) (rev ds) 0 ts C" "uint c = C * 2 ^ (62 - s)"
    using unnormalization_scan_correct [OF assms(1,2) _ _ _ _ ts, of 0] by auto
  then have sd: "length ts = length ds" "digits_ok ts" "0 \<le> C" "C < 2 ^ s" "k * 2 ^ s = digits_int (rev ts) * 2 ^ s + C"
    using assms(4) by (simp_all add: short_division_def)
  have "C = (k - digits_int (rev ts)) * 2 ^ s" using sd(5) by (simp add: algebra_simps)
  then have "C mod 2 ^ s = 0" by simp
  then have "C = 0" using sd(3,4) by simp
  then have "c = 0" using C(2) by (simp add: uint_0_iff)
  then show ?thesis
    using ts sd \<open>C = 0\<close>
    by (intro exI [of _ "rev ts"]) (simp add: bignum_destructive_unnormalization_def Let_def digits_ok_def)
qed

section \<open>Division by one digit is correct\<close>

lemma short_division_div_mod:
  assumes "short_division v ds 0 qs r" "digits_int (rev ds) = n"
  shows "digits_int (rev qs) = n div v" "r = n mod v"
proof -
  have e: "n = digits_int (rev qs) * v + r" "0 \<le> r" "r < v"
    using assms by (simp_all add: short_division_def)
  have "n = v * digits_int (rev qs) + r" using e(1) by (simp add: mult.commute)
  then show "digits_int (rev qs) = n div v" "r = n mod v"
    using int_div_pos_eq [of n v "digits_int (rev qs)" r] int_mod_pos_eq [of n v "digits_int (rev qs)" r] e(2,3) by simp_all
qed

lemma digits_ok_rev [simp]: "digits_ok (rev ds) \<longleftrightarrow> digits_ok ds"
  by (simp add: digits_ok_def)

text \<open>A result the caller asked for denotes the given integer; another one is absent.\<close>

definition yields_opt :: "bool \<Rightarrow> bignum option \<Rightarrow> int \<Rightarrow> bool" where
  "yields_opt want r k \<longleftrightarrow> (if want then yields r k else r = None)"

abbreviation with_sign :: "bool \<Rightarrow> int \<Rightarrow> int" where
  "with_sign neg k \<equiv> if neg then - k else k"

lemma uint_gt_1: "long_less 1 d \<Longrightarrow> d < BIGNUM_RADIX_ROOT \<Longrightarrow> 1 < uint d \<and> uint d < 2 ^ 31"
  using small_factor_halves(3) [of d] by (simp add: long_less_uint)

lemma small_denominator_correct:
  assumes "bignum_wf n" "\<not> BIGNUM_ZERO_P n" "long_less 1 d" "d < BIGNUM_RADIX_ROOT"
  shows "\<exists>q r. bignum_divide_unsigned_small_denominator n d want qneg rneg = Some (q, r)
    \<and> yields (Some q) (with_sign qneg (\<bar>bignum_int n\<bar> div uint d))
    \<and> yields_opt want r (with_sign rneg (\<bar>bignum_int n\<bar> mod uint d))"
proof -
  obtain s ds where n: "n = mk_bignum s ds" "length ds \<le> BIGNUM_LENGTH_MAX" "length ds < 2 ^ 62" "digits_normal ds"
    using assms(1) by (rule bignum_wf_cases)
  have nz: "ds \<noteq> []" using assms(2) n by (auto simp: BIGNUM_ZERO_P_def)
  have v: "digits_int (rev (rev ds)) = \<bar>bignum_int n\<bar>" using n by (simp add: mk_bignum_int)
  note d = uint_gt_1 [OF assms(3,4)]
  obtain qs r where s: "scale_down_scan d (rev ds) 0 = (qs, r)" by fastforce
  have sd: "short_division (uint d) (rev ds) 0 qs (uint r)"
    using scale_down_scan_correct [of d 0 "rev ds" qs r] d s n(4) by (simp add: digits_normal_def)
  note dm = short_division_div_mod [OF sd v]
  have l: "length qs = length ds" "digits_ok qs" "uint r < 2 ^ 62"
    using sd d by (simp_all add: short_division_def)
  have q: "yields (Some (bignum_trim (mk_bignum qneg (rev qs)))) (with_sign qneg (\<bar>bignum_int n\<bar> div uint d))"
    using l n(2) nz dm by (intro yields_trim) auto
  obtain rb where rb: "bignum_digit_to_bignum r rneg = Some rb" "yields (Some rb) (with_sign rneg (uint r))"
    using yields_digit [OF l(3), of rneg] by (cases "bignum_digit_to_bignum r rneg") auto
  have e: "bignum_destructive_scale_down (mk_bignum qneg ds) d = Some (mk_bignum qneg (rev qs), r)"
    using assms(3,4) s l(1) by (simp add: bignum_destructive_scale_down_def)
  show ?thesis
    using q rb dm(2) e n(1,2)
    by (auto simp: bignum_divide_unsigned_small_denominator_def bignum_copy_eq yields_opt_def)
qed

lemma remainder_small_denominator_correct:
  assumes "bignum_wf n" "long_less 1 d" "d < BIGNUM_RADIX_ROOT"
  shows "yields (bignum_remainder_unsigned_small_denominator n d neg) (with_sign neg (\<bar>bignum_int n\<bar> mod uint d))"
proof -
  let ?ds = "bignum_digits n"
  note w = bignum_wf_simps [OF assms(1)] and d = uint_gt_1 [OF assms(2,3)]
  obtain qs r where s: "scale_down_scan d (rev ?ds) 0 = (qs, r)" by fastforce
  have sd: "short_division (uint d) (rev ?ds) 0 qs (uint r)"
    using scale_down_scan_correct [of d 0 "rev ?ds" qs r] d s w(3) by simp
  have "uint r < 2 ^ 62" using sd d by (simp add: short_division_def)
  then show ?thesis
    using yields_digit [of r neg] short_division_div_mod(2) [OF sd] w(9) assms(2,3) s
    by (cases neg) (simp_all add: bignum_remainder_unsigned_small_denominator_def remainder_scan_eq)
qed

lemma medium_denominator_correct:
  assumes "bignum_wf n" "\<not> BIGNUM_ZERO_P n" "BIGNUM_LENGTH n < BIGNUM_LENGTH_MAX" "d \<noteq> 0" "uint d < 2 ^ 62"
  shows "\<exists>q r. bignum_divide_unsigned_medium_denominator n d wq wr qneg rneg = Some (q, r)
    \<and> yields_opt wq q (with_sign qneg (\<bar>bignum_int n\<bar> div uint d))
    \<and> yields_opt wr r (with_sign rneg (\<bar>bignum_int n\<bar> mod uint d))"
proof -
  obtain sg ds where n: "n = mk_bignum sg ds" "length ds \<le> BIGNUM_LENGTH_MAX" "length ds < 2 ^ 62" "digits_normal ds"
    using assms(1) by (rule bignum_wf_cases)
  have nz: "ds \<noteq> []" using assms(2) n by (auto simp: BIGNUM_ZERO_P_def)
  have lmax: "length ds < BIGNUM_LENGTH_MAX" using assms(3) n by simp
  have ok: "digits_ok ds" using n(4) by (simp add: digits_normal_def)
  have v: "digits_int ds = \<bar>bignum_int n\<bar>" using n by (simp add: mk_bignum_int)
  obtain d' s where s: "normalization_shift d 0 = Some (d', s)" "uint d' = uint d * 2 ^ s" "s \<le> 61"
    "2 ^ 61 \<le> uint d'" "uint d' < 2 ^ 62"
    using normalization_shift_returns [of d 0] uint_pos [OF assms(4)] assms(5) by auto
  have "\<exists>ts. (if s = 0 then map_option (bignum_destructive_copy n) (bignum_allocate (BIGNUM_LENGTH n) qneg)
      else do { q \<leftarrow> bignum_allocate (BIGNUM_LENGTH n + 1) qneg; bignum_destructive_normalization n q s })
    = Some (mk_bignum qneg ts) \<and> digits_ok ts \<and> length ts \<le> BIGNUM_LENGTH_MAX \<and> ts \<noteq> [] \<and> digits_int ts = digits_int ds * 2 ^ s"
  proof (cases "s = 0")
    case True
    then show ?thesis
      using n ok nz by (intro exI [of _ ds]) (simp add: bignum_allocate_eq bignum_destructive_copy_def)
  next
    case False
    have "digits_int ds * 2 ^ s \<le> digits_int ds * 2 ^ 62"
      using s(3) by (intro mult_left_mono power_increasing) simp_all
    also have "\<dots> < (2 ^ 62) ^ length ds * 2 ^ 62"
      using digits_int_less [OF ok] by (intro mult_strict_right_mono) simp_all
    finally have "digits_int ds * 2 ^ s < (2 ^ 62) ^ Suc (length ds)" by (simp add: mult.commute)
    then obtain ts where "bignum_destructive_normalization (mk_bignum sg ds) (mk_bignum qneg (replicate (Suc (length ds)) 0)) s
        = Some (mk_bignum qneg ts)" "digits_ok ts" "length ts = Suc (length ds)" "digits_int ts = digits_int ds * 2 ^ s"
      using bignum_destructive_normalization_correct [of s ds "Suc (length ds)" sg qneg] False s(3) ok
        LENGTH_MAX_small [of "Suc (length ds)"] lmax by auto
    then show ?thesis
      using False n lmax by (intro exI [of _ ts]) (auto simp: bignum_allocate_eq)
  qed
  then obtain ts where ts: "(if s = 0 then map_option (bignum_destructive_copy n) (bignum_allocate (BIGNUM_LENGTH n) qneg)
      else do { q \<leftarrow> bignum_allocate (BIGNUM_LENGTH n + 1) qneg; bignum_destructive_normalization n q s })
    = Some (mk_bignum qneg ts)" "digits_ok ts" "length ts \<le> BIGNUM_LENGTH_MAX" "ts \<noteq> []"
    "digits_int (rev (rev ts)) = \<bar>bignum_int n\<bar> * 2 ^ s" using v by auto
  have d31: "2 ^ 31 \<le> uint d'" "uint (0 :: long) < uint d'" using s(4) by simp_all
  obtain qs r where q: "digit_divide_scan d' (rev ts) 0 = Some (qs, r)" "short_division (uint d') (rev ts) 0 qs (uint r)"
    using digit_divide_scan_correct [OF d31(1) s(5) d31(2), of "rev ts"] ts(2) by auto
  note dm = short_division_div_mod [OF q(2) ts(5)]
  have l: "length qs = length ts" "digits_ok qs" "uint r < 2 ^ 62"
    using q(2) s(5) by (simp_all add: short_division_def)
  have dq: "digits_int (rev qs) = \<bar>bignum_int n\<bar> div uint d" unfolding dm(1) s(2) by simp
  have "uint r = \<bar>bignum_int n\<bar> mod uint d * 2 ^ s" unfolding dm(2) s(2) by simp
  moreover have "uint r < 2 ^ 63" using l(3) by simp
  ultimately have dr: "uint (long_shr r s) = \<bar>bignum_int n\<bar> mod uint d" by (simp add: uint_long_shr)
  have "uint (long_shr r s) < 2 ^ 62"
    using \<open>uint r < 2 ^ 63\<close> l(3) int_div_bounds(2) [of "uint r" "2 ^ s"] by (simp add: uint_long_shr)
  from yields_digit [OF this, of rneg] obtain rb where rb: "bignum_digit_to_bignum (long_shr r s) rneg = Some rb"
    "yields (Some rb) (with_sign rneg (\<bar>bignum_int n\<bar> mod uint d))"
    unfolding dr by (cases "bignum_digit_to_bignum (long_shr r s) rneg") auto
  have "yields (Some (bignum_trim (mk_bignum qneg (rev qs)))) (with_sign qneg (\<bar>bignum_int n\<bar> div uint d))"
    using l ts(3,4) dq by (intro yields_trim) auto
  then show ?thesis
    unfolding bignum_divide_unsigned_medium_denominator_def s(1) ts(1) [unfolded One_nat_def] using rb q(1) l(1) ts(1)
    by (auto simp: yields_opt_def)
qed

end
