(* ===== verification/Bignum_Long_Div.thy ===== *)
theory Bignum_Long_Div
  imports Bignum_Div Machine_Bits
begin

text \<open>
  Division of a bignum by a longer bignum with Knuth's Algorithm D, and the three entry
  points \<open>bignum_divide\<close>, \<open>bignum_quotient\<close> and \<open>bignum_remainder\<close> (\<open>microcode/bignum.c\<close>). The
  theorems show that the trial quotient digit is at most one too large, that the
  subtraction with its add-back step leaves the exact remainder, and that the entry
  points compute the quotient and remainder of the integer division that truncates
  towards zero.
\<close>

section \<open>Algorithm D\<close>

fun divide_mulsub_scan :: "long \<Rightarrow> long list \<Rightarrow> long list \<Rightarrow> long \<Rightarrow> long list \<times> long list \<times> long" where
  "divide_mulsub_scan guess (v # vs) (u # us) carry =
     (let gl = HD_LOW guess; gh = HD_HIGH guess; vl = HD_LOW v; vh = HD_HIGH v;
          pl = vl * gl + HD_LOW carry;
          ph = vl * gh + vh * gl + HD_HIGH pl + HD_HIGH carry;
          diff = u - HD_CONS (HD_LOW ph) (HD_LOW pl);
          (w, carry) = (if long_less diff 0 then (diff + BIGNUM_RADIX, vh * gh + HD_HIGH ph + 1)
                        else (diff, vh * gh + HD_HIGH ph));
          (ws, rest, carry) = divide_mulsub_scan guess vs us carry
      in (w # ws, rest, carry))"
| "divide_mulsub_scan guess vs us carry = ([], us, carry)"

text \<open>
  \<open>bignum_divide_subtract\<close> updates the digits of \<open>u\<close> from \<open>u_start\<close> on and returns the
  quotient digit. The digit after those of \<open>v\<close> always exists.
\<close>

definition bignum_divide_subtract :: "long list \<Rightarrow> long \<Rightarrow> long list \<Rightarrow> long list \<times> long" where
  "bignum_divide_subtract vs guess us =
     (if guess = 0 then (us, 0)
      else let (ws, rest, carry) = divide_mulsub_scan guess vs us 0
           in if carry = 0 then (ws @ rest, guess)
              else let diff = hd rest - carry
                   in if long_less diff 0
                      then let top = diff + BIGNUM_RADIX;
                               (ss, _, carry) = add_scan vs ws 0;
                               top = (if carry = 1
                                      then let sum = top + carry
                                           in if sum < BIGNUM_RADIX then sum else sum - BIGNUM_RADIX
                                      else top)
                           in (ss @ top # tl rest, guess - 1)
                      else (ws @ diff # tl rest, guess))"

partial_function (option) trial_correct :: "long \<Rightarrow> long \<Rightarrow> long \<Rightarrow> long \<Rightarrow> long \<Rightarrow> long option" where
  "trial_correct v1 v2 guess ch cl =
     (let v2l = HD_LOW v2; v2h = HD_HIGH v2; gl = HD_LOW guess; gh = HD_HIGH guess;
          pl = v2l * gl;
          ph = v2l * gh + v2h * gl + HD_HIGH pl;
          pl = HD_CONS (HD_LOW ph) (HD_LOW pl);
          ph = v2h * gh + HD_HIGH ph
      in if long_less ph ch \<or> (ch = ph \<and> \<not> long_less cl pl) then Some guess
         else let guess = guess - 1; ch = ch + v1
              in if ch \<ge> BIGNUM_RADIX then Some guess else trial_correct v1 v2 guess ch cl)"

text \<open>One quotient digit: \<open>us\<close> is the dividend from the digit \<open>u_start\<close> of the step on.\<close>

definition divide_step :: "long list \<Rightarrow> long list \<Rightarrow> (long list \<times> long) option" where
  "divide_step vs us =
     (let n = length vs; v1 = vs ! (n - 1); v2 = vs ! (n - 2); uj = us ! n; cl = us ! (n - 2)
      in do {
        (ch, guess) \<leftarrow> (if uj \<noteq> v1 then bignum_digit_divide uj (us ! (n - 1)) v1
                       else Some (us ! (n - 1) + v1, BIGNUM_RADIX - 1));
        guess \<leftarrow> trial_correct v1 v2 guess ch cl;
        Some (bignum_divide_subtract vs guess us)
      })"

primrec divide_loop :: "long list \<Rightarrow> nat \<Rightarrow> long list \<Rightarrow> (long list \<times> long list) option" where
  "divide_loop vs 0 us = Some (us, [])"
| "divide_loop vs (Suc k) us =
     do {
       (ws, qj) \<leftarrow> divide_step vs (drop k us);
       (us', qs) \<leftarrow> divide_loop vs k (take k us @ ws);
       Some (us', qs @ [qj])
     }"

definition bignum_divide_unsigned_normalized :: "bignum \<Rightarrow> bignum \<Rightarrow> bignum option \<Rightarrow> (bignum \<times> bignum option) option" where
  "bignum_divide_unsigned_normalized u v q =
     do {
       (us, qs) \<leftarrow> divide_loop (bignum_digits v) (BIGNUM_LENGTH u - BIGNUM_LENGTH v) (bignum_digits u);
       Some (u\<lparr>bignum_digits := us\<rparr>, map_option (\<lambda>q. q\<lparr>bignum_digits := qs\<rparr>) q)
     }"

definition bignum_divide_unsigned_large_denominator ::
    "bignum \<Rightarrow> bignum \<Rightarrow> bool \<Rightarrow> bool \<Rightarrow> bool \<Rightarrow> bool \<Rightarrow> (bignum option \<times> bignum option) option" where
  "bignum_divide_unsigned_large_denominator numerator denominator want_quotient want_remainder
       q_negative_p r_negative_p =
     (let length_n = BIGNUM_LENGTH numerator + 1; length_d = BIGNUM_LENGTH denominator
      in do {
        q \<leftarrow> (if want_quotient then map_option Some (bignum_allocate (length_n - length_d) q_negative_p)
             else Some None);
        u \<leftarrow> bignum_allocate length_n r_negative_p;
        if length_d > 1 then do {
          (v1, shift) \<leftarrow> normalization_shift (BIGNUM_REF denominator (length_d - 1)) 0;
          (u, q) \<leftarrow> (if shift = 0
            then (let u = bignum_destructive_copy numerator u;
                      u = u\<lparr>bignum_digits := (bignum_digits u)[length_n - 1 := 0]\<rparr>
                  in bignum_divide_unsigned_normalized u denominator q)
            else do {
              v \<leftarrow> bignum_allocate length_d False;
              u \<leftarrow> bignum_destructive_normalization numerator u shift;
              v \<leftarrow> bignum_destructive_normalization denominator v shift;
              (u, q) \<leftarrow> bignum_divide_unsigned_normalized u v q;
              u \<leftarrow> (if want_remainder then bignum_destructive_unnormalization u shift else Some u);
              Some (u, q)
            });
          Some (map_option bignum_trim q, if want_remainder then Some (bignum_trim u) else None)
        } else None
      })"

section \<open>Multiply and subtract\<close>

lemma mulsub_step:
  fixes g v u c :: long
  assumes "uint g < 2 ^ 62" "uint v < 2 ^ 62" "uint u < 2 ^ 62" "uint c < 2 ^ 62"
  defines "pl \<equiv> HD_LOW v * HD_LOW g + HD_LOW c"
  defines "ph \<equiv> HD_LOW v * HD_HIGH g + HD_HIGH v * HD_LOW g + HD_HIGH pl + HD_HIGH c"
  defines "P \<equiv> HD_CONS (HD_LOW ph) (HD_LOW pl)" and "C \<equiv> HD_HIGH v * HD_HIGH g + HD_HIGH ph"
  assumes "(w, c') = (if long_less (u - P) 0 then (u - P + BIGNUM_RADIX, C + 1) else (u - P, C))"
  shows "uint w + uint v * uint g + uint c = uint u + 2 ^ 62 * uint c'" "uint w < 2 ^ 62" "uint c' < 2 ^ 62"
proof -
  have z: "uint (0 :: long) < 2 ^ 62" by simp
  have st: "uint P + 2 ^ 62 * uint C = uint v * uint g + uint c" "uint P < 2 ^ 62" "uint C < 2 ^ 62"
    using mul_step [OF z assms(2,1,4)] unfolding P_def C_def ph_def pl_def
    by (simp_all add: add.commute [of "HD_HIGH v * HD_LOW g"])
  have "uint v * uint g \<le> (2 ^ 62 - 1) * (2 ^ 62 - 1)" using assms(1,2) by (intro mult_mono) simp_all
  then have top: "uint P + 2 ^ 62 * uint C \<le> 2 ^ 62 * (2 ^ 62 - 1)" unfolding st(1) using assms(4) by simp
  have nn: "0 \<le> uint P" "0 \<le> uint u" by simp_all
  note sub = sub_step_no_borrow [OF assms(3) st(2)]
  have "uint w + (uint P + 2 ^ 62 * uint C) = uint u + 2 ^ 62 * uint c' \<and> uint w < 2 ^ 62 \<and> uint c' < 2 ^ 62"
  proof (cases "uint u < uint P")
    case True
    have w: "w = u - P + BIGNUM_RADIX" "c' = C + 1" using assms(9) True sub(1) by simp_all
    have "1 \<le> uint P" using True nn(2) by linarith
    then have C: "uint C \<le> 2 ^ 62 - 2" using top by simp
    then have "uint c' = uint C + 1" unfolding w by (subst uint_add_exact) simp_all
    then show ?thesis using C sub(2) [OF True] w(1) True by simp
  next
    case False
    have w: "w = u - P" "c' = C" using assms(9) False sub(1) by simp_all
    moreover have "uint (u - P) < 2 ^ 62" using sub(3) [OF False] assms(3) nn by linarith
    ultimately show ?thesis using sub(3) [OF False] st(3) by simp
  qed
  then show "uint w + uint v * uint g + uint c = uint u + 2 ^ 62 * uint c'" "uint w < 2 ^ 62" "uint c' < 2 ^ 62"
    unfolding st(1) by (simp_all add: add.assoc)
qed

lemma mulsub_scan_correct:
  assumes "uint g < 2 ^ 62"
  shows "digits_ok vs \<Longrightarrow> digits_ok us \<Longrightarrow> length vs \<le> length us \<Longrightarrow> uint c < 2 ^ 62 \<Longrightarrow>
    divide_mulsub_scan g vs us c = (ws, rest, c') \<Longrightarrow>
    digits_ok ws \<and> length ws = length vs \<and> rest = drop (length vs) us \<and> uint c' < 2 ^ 62
    \<and> digits_int ws + digits_int vs * uint g + uint c = digits_int (take (length vs) us) + (2 ^ 62) ^ length vs * uint c'"
proof (induction vs arbitrary: us c ws rest c')
  case (Cons v vs)
  obtain u us' where us: "us = u # us'" using Cons.prems(3) by (cases us) auto
  let ?pl = "HD_LOW v * HD_LOW g + HD_LOW c"
  let ?ph = "HD_LOW v * HD_HIGH g + HD_HIGH v * HD_LOW g + HD_HIGH ?pl + HD_HIGH c"
  let ?P = "HD_CONS (HD_LOW ?ph) (HD_LOW ?pl)" and ?C = "HD_HIGH v * HD_HIGH g + HD_HIGH ?ph"
  obtain w c1 where w: "(w, c1) = (if long_less (u - ?P) 0 then (u - ?P + BIGNUM_RADIX, ?C + 1) else (u - ?P, ?C))"
    by fastforce
  have b: "uint v < 2 ^ 62" "uint u < 2 ^ 62" using Cons.prems(1,2) us by simp_all
  note st = mulsub_step [OF assms b Cons.prems(4) w]
  obtain ws1 where ws: "ws = w # ws1" "divide_mulsub_scan g vs us' c1 = (ws1, rest, c')"
    using Cons.prems(5) w [symmetric] us by (auto simp: Let_def split: prod.splits)
  have ih: "digits_ok ws1" "length ws1 = length vs" "rest = drop (length vs) us'" "uint c' < 2 ^ 62"
    "digits_int ws1 + digits_int vs * uint g + uint c1 = digits_int (take (length vs) us') + (2 ^ 62) ^ length vs * uint c'"
    using Cons.IH [OF _ _ _ st(3) ws(2)] Cons.prems us by simp_all
  have "digits_int ws + digits_int (v # vs) * uint g + uint c =
      (uint w + uint v * uint g + uint c) + 2 ^ 62 * (digits_int ws1 + digits_int vs * uint g)"
    by (simp add: ws algebra_simps)
  also have "\<dots> = uint u + 2 ^ 62 * (digits_int ws1 + digits_int vs * uint g + uint c1)"
    unfolding st(1) by (simp add: algebra_simps)
  also have "\<dots> = digits_int (take (length (v # vs)) us) + (2 ^ 62) ^ length (v # vs) * uint c'"
    unfolding ih(5) by (simp add: us algebra_simps)
  finally show ?case using ih st(2) us ws(1) by simp
qed simp

section \<open>The subtraction step\<close>

text \<open>
  The digits of the dividend at the current step are \<open>as @ [tp]\<close>, with as many digits in
  \<open>as\<close> as the divisor has; the digits \<open>zs\<close> above them are not touched.
\<close>

lemma top_digit_cancels:
  fixes B W x y :: int
  assumes "x = w + B * y" "0 \<le> x" "x < B" "0 \<le> w" "w < B"
  shows "y = 0"
proof -
  have "x div B = y" unfolding assms(1) using assms(4,5) by simp
  moreover have "x div B = 0" using assms(2,3) by simp
  ultimately show ?thesis by simp
qed

lemma div_from_bounds:
  fixes u v g :: int
  assumes "0 < v"
  shows "0 \<le> u - g * v \<Longrightarrow> u div v \<le> g \<Longrightarrow> u div v = g"
    and "u - g * v < 0 \<Longrightarrow> g \<le> u div v + 1 \<Longrightarrow> u div v = g - 1"
proof -
  show "u div v = g" if "0 \<le> u - g * v" "u div v \<le> g" using that le_divI [OF assms, of g u] by simp
  show "u div v = g - 1" if "u - g * v < 0" "g \<le> u div v + 1"
    using that int_div_less [OF assms, of u g] by (simp add: mult.commute)
qed

lemma divide_subtract_correct:
  assumes "digits_ok vs" "0 < digits_int vs" "digits_ok as" "length as = length vs" "uint tp < 2 ^ 62" "uint g < 2 ^ 62" "digits_ok zs"
  defines "U \<equiv> digits_int (as @ [tp])" and "V \<equiv> digits_int vs"
  assumes "U div V \<le> uint g" "uint g \<le> U div V + 1"
  shows "\<exists>ws q. bignum_divide_subtract vs g (as @ tp # zs) = (ws @ zs, q) \<and> length ws = Suc (length vs)
    \<and> digits_ok ws \<and> digits_int ws = U mod V \<and> uint q = U div V"
proof (cases "g = 0")
  case True
  have "0 \<le> U div V" using assms(2) by (simp add: U_def V_def pos_imp_zdiv_nonneg_iff)
  with True assms(10) have "U div V = 0" by simp
  then have "U mod V = U" using div_mult_mod_eq [of U V] by simp
  then show ?thesis
    using True \<open>U div V = 0\<close> assms(3-5)
    by (intro exI [of _ "as @ [tp]"] exI [of _ 0]) (simp add: bignum_divide_subtract_def U_def)
next
  case False
  let ?B = "(2 ^ 62) ^ length vs :: int"
  have V: "0 < V" "V < ?B" using assms(2) digits_int_less [OF assms(1)] by (simp_all add: V_def)
  have U: "U = digits_int as + ?B * uint tp" using assms(4) by (simp add: U_def)
  obtain ws rest c where s: "divide_mulsub_scan g vs (as @ tp # zs) 0 = (ws, rest, c)" by (metis prod_cases3)
  have r: "digits_ok ws" "length ws = length vs" "uint c < 2 ^ 62"
    "digits_int ws + V * uint g = digits_int as + ?B * uint c" and rest: "rest = tp # zs"
    using mulsub_scan_correct [OF assms(6,1) _ _ _ s] assms(3-5,7) by (simp_all add: V_def)
  have diff: "U - uint g * V = digits_int ws + ?B * (uint tp - uint c)" using r(4) by (simp add: U algebra_simps)
  have wsb: "0 \<le> digits_int ws" "digits_int ws < ?B" using digits_int_less [OF r(1)] r(2) by simp_all
  note sub = sub_step_no_borrow [OF assms(5) r(3)]
  show ?thesis
  proof (cases "uint tp < uint c")
    case False
    have "0 \<le> U - uint g * V" unfolding diff using wsb(1) False by (intro add_nonneg_nonneg mult_nonneg_nonneg) simp_all
    then have q: "U div V = uint g" using V assms(10) by (intro div_from_bounds(1))
    then have m: "U mod V = U - uint g * V" using div_mult_mod_eq [of U V] by simp
    then have "uint tp - uint c = 0"
      using top_digit_cancels [OF diff] wsb V pos_mod_bound [OF V(1), of U] pos_mod_sign [OF V(1), of U] by simp
    then have tc: "tp = c" by (simp add: word_uint_eq_iff)
    have "bignum_divide_subtract vs g (as @ tp # zs) = ((ws @ [0]) @ zs, g)"
      using \<open>g \<noteq> 0\<close> s rest tc by (simp add: bignum_divide_subtract_def Let_def)
    then show ?thesis
      using r q m diff tc by (intro exI [of _ "ws @ [0]"] exI [of _ g]) simp
  next
    case True
    have "digits_int ws + ?B * (uint tp - uint c) \<le> digits_int ws + ?B * (- 1)"
      using True by (intro add_left_mono mult_left_mono) simp_all
    then have neg: "U - uint g * V < 0" unfolding diff using wsb(2) by simp
    then have q: "U div V = uint g - 1" using V assms(11) by (intro div_from_bounds(2))
    obtain ss rest' c2 where a: "add_scan vs ws 0 = (ss, rest', c2)" by (metis prod_cases3)
    have ss: "digits_ok ss" "length ss = length vs" "uint c2 \<le> 1" "digits_int ss + ?B * uint c2 = V + digits_int ws"
      using add_scan_correct [OF assms(1) r(1) _ _ a] r(2) by (simp_all add: V_def)
    have "U mod V = U - uint g * V + V" using div_mult_mod_eq [of U V] unfolding q by (simp add: algebra_simps)
    then have m: "U mod V = digits_int ss + ?B * (uint c2 + uint tp - uint c)"
      unfolding diff using ss(4) by (simp add: algebra_simps)
    have ssb: "0 \<le> digits_int ss" "digits_int ss < ?B" using digits_int_less [OF ss(1)] ss(2) by simp_all
    have "uint c2 + uint tp - uint c = 0"
      using top_digit_cancels [OF m] ssb V pos_mod_bound [OF V(1), of U] pos_mod_sign [OF V(1), of U] by simp
    then have c: "uint c2 = 1" "uint tp = uint c - 1" using True ss(3) by simp_all
    have c2: "c2 = 1" using c(1) by (metis uint_1 word_uint_eq_iff)
    have t: "tp - c + BIGNUM_RADIX = BIGNUM_RADIX - 1"
      using sub(2) [OF True] c(2) by (simp add: word_uint_eq_iff uint_sub_exact)
    have "c \<noteq> 0" using True by auto
    then have "bignum_divide_subtract vs g (as @ tp # zs) = ((ss @ [0]) @ zs, g - 1)"
      using \<open>g \<noteq> 0\<close> s rest a c2 t True sub(1) by (simp add: bignum_divide_subtract_def Let_def)
    moreover have "uint (g - 1) = uint g - 1" using uint_pos [OF \<open>g \<noteq> 0\<close>] by (simp add: uint_sub_exact)
    ultimately show ?thesis
      using ss q m c by (intro exI [of _ "ss @ [0]"] exI [of _ "g - 1"]) simp
  qed
qed

section \<open>The trial quotient\<close>

lemma double_digit_product:
  fixes v g :: long
  assumes "uint v < 2 ^ 62" "uint g < 2 ^ 62"
  defines "pl \<equiv> HD_LOW v * HD_LOW g"
  defines "ph \<equiv> HD_LOW v * HD_HIGH g + HD_HIGH v * HD_LOW g + HD_HIGH pl"
  shows "uint (HD_CONS (HD_LOW ph) (HD_LOW pl)) + 2 ^ 62 * uint (HD_HIGH v * HD_HIGH g + HD_HIGH ph) = uint v * uint g"
    "uint (HD_CONS (HD_LOW ph) (HD_LOW pl)) < 2 ^ 62" "uint (HD_HIGH v * HD_HIGH g + HD_HIGH ph) < 2 ^ 62"
proof -
  have z: "uint (0 :: long) < 2 ^ 62" "HD_LOW 0 = 0" "HD_HIGH 0 = 0"
    by (simp_all add: word_uint_eq_iff uint_HD_LOW uint_HD_HIGH)
  show "uint (HD_CONS (HD_LOW ph) (HD_LOW pl)) + 2 ^ 62 * uint (HD_HIGH v * HD_HIGH g + HD_HIGH ph) = uint v * uint g"
    "uint (HD_CONS (HD_LOW ph) (HD_LOW pl)) < 2 ^ 62" "uint (HD_HIGH v * HD_HIGH g + HD_HIGH ph) < 2 ^ 62"
    using mul_step [OF z(1) assms(1,2) z(1)] unfolding ph_def pl_def
    by (simp_all add: z add.commute [of "HD_HIGH v * HD_LOW g"])
qed

lemma double_digit_compare:
  fixes a b c d :: int
  assumes "0 \<le> b" "b < 2 ^ 62" "0 \<le> d" "d < 2 ^ 62"
  shows "c < a \<or> (a = c \<and> d \<le> b) \<longleftrightarrow> d + 2 ^ 62 * c \<le> a * 2 ^ 62 + b"
  using assms by (cases a c rule: linorder_cases) simp_all

lemma trial_correct_returns:
  fixes n u' v' W :: int
  assumes v: "1 \<le> uint v1" "uint v1 < 2 ^ 62" "uint v2 < 2 ^ 62" "uint cl < 2 ^ 62"
    and W: "0 < W" "0 \<le> v'" "v' < W" "0 \<le> u'" "u' < W"
  defines "V \<equiv> (uint v1 * 2 ^ 62 + uint v2) * W + v'" and "U \<equiv> (n * 2 ^ 62 + uint cl) * W + u'"
  shows "uint g < 2 ^ 62 \<Longrightarrow> uint ch < 2 ^ 63 \<Longrightarrow> uint ch = n - uint g * uint v1 \<Longrightarrow> U div V \<le> uint g \<Longrightarrow>
    \<exists>g'. trial_correct v1 v2 g ch cl = Some g' \<and> uint g' < 2 ^ 62 \<and> U div V \<le> uint g' \<and> uint g' \<le> U div V + 1"
proof (induction "nat (uint g)" arbitrary: g ch rule: less_induct)
  case less
  let ?pl = "HD_LOW v2 * HD_LOW g"
  let ?ph = "HD_LOW v2 * HD_HIGH g + HD_HIGH v2 * HD_LOW g + HD_HIGH ?pl"
  let ?l = "HD_CONS (HD_LOW ?ph) (HD_LOW ?pl)" and ?h = "HD_HIGH v2 * HD_HIGH g + HD_HIGH ?ph"
  note p = double_digit_product [OF v(3) less.prems(1)]
  have V: "0 < V"
  proof -
    have "1 * W \<le> (uint v1 * 2 ^ 62 + uint v2) * W"
      using v(1) W(1) by (intro mult_right_mono) (simp_all add: add_increasing2)
    then show ?thesis unfolding V_def using W(1,2) by linarith
  qed
  have close: "uint x \<le> U div V + 1" if "uint x * uint v2 \<le> (n - uint x * uint v1) * 2 ^ 62 + uint cl" "uint x < 2 ^ 62" for x :: long
  proof -
    have "uint x * V < U + V"
      using trial_quotient_close(1) [of W "uint x" "2 ^ 62" V "uint v1" "uint v2" v' U 0 n "uint cl" u'] that v W
      by (simp add: V_def U_def)
    then have "(uint x - 1) * V < U" by (simp add: algebra_simps)
    then have "uint x - 1 \<le> U div V" using V by (intro le_divI) simp_all
    then show ?thesis by simp
  qed
  have test: "long_less ?h ch \<or> (ch = ?h \<and> \<not> long_less cl ?l) \<longleftrightarrow> uint g * uint v2 \<le> (n - uint g * uint v1) * 2 ^ 62 + uint cl"
  proof -
    have "uint ?h < 2 ^ 63" "uint cl < 2 ^ 63" "uint ?l < 2 ^ 63" using p(2,3) v(4) by simp_all
    then have "long_less ?h ch \<or> (ch = ?h \<and> \<not> long_less cl ?l) \<longleftrightarrow>
        uint ?h < uint ch \<or> (uint ch = uint ?h \<and> uint ?l \<le> uint cl)"
      using less.prems(2) by (simp only: long_less_uint word_uint_eq_iff not_less)
    also have "\<dots> \<longleftrightarrow> uint ?l + 2 ^ 62 * uint ?h \<le> uint ch * 2 ^ 62 + uint cl"
      using p(2) v(4) by (intro double_digit_compare) simp_all
    finally show ?thesis unfolding p(1) less.prems(3) by (simp add: mult.commute)
  qed
  show ?case
  proof (cases "uint g * uint v2 \<le> (n - uint g * uint v1) * 2 ^ 62 + uint cl")
    case True
    have "trial_correct v1 v2 g ch cl = Some g"
      using True test by (subst trial_correct.simps) (simp only: Let_def if_True)
    then show ?thesis using close [OF True less.prems(1)] less.prems(1,4) by blast
  next
    case False
    have "U < uint g * V"
      using trial_quotient_too_large [of W "uint g" V "uint v1" "2 ^ 62" "uint v2" v' U 0 n "uint cl" u'] False W
      by (simp add: V_def U_def)
    then have q: "U div V \<le> uint g - 1" using int_div_less [OF V, of U "uint g"] by (simp add: mult.commute)
    have gt: "uint ch * 2 ^ 62 + uint cl < uint g * uint v2" using False less.prems(3) by simp
    have nn: "0 \<le> uint ch" "0 \<le> uint cl" by simp_all
    have "g \<noteq> 0"
    proof
      assume "g = 0"
      then have "uint ch * 4611686018427387904 + uint cl < 0" using gt by simp
      then show False using nn by linarith
    qed
    then have g1: "1 \<le> uint g" by (rule uint_pos)
    then have g': "uint (g - 1) = uint g - 1" by (simp add: uint_sub_exact)
    have small: "uint x * uint v2 < 2 ^ 62 * 2 ^ 62" if "uint x < 2 ^ 62" for x :: long
    proof -
      have "uint x * uint v2 \<le> (2 ^ 62 - 1) * (2 ^ 62 - 1)" using that v(3) by (intro mult_mono) simp_all
      then show ?thesis by simp
    qed
    have "uint ch * 2 ^ 62 < 2 ^ 62 * 2 ^ 62" using gt nn(2) small [OF less.prems(1)] by linarith
    then have ch: "uint ch < 2 ^ 62" by simp
    have "uint (ch + v1) = uint ch + uint v1" using ch v(2) by (intro uint_add_exact) simp
    then have c': "uint (ch + v1) = n - uint (g - 1) * uint v1" "uint (ch + v1) < 2 ^ 63"
      using less.prems(3) ch v(2) unfolding g' by (simp_all add: left_diff_distrib)
    have step: "trial_correct v1 v2 g ch cl =
        (if ch + v1 \<ge> BIGNUM_RADIX then Some (g - 1) else trial_correct v1 v2 (g - 1) (ch + v1) cl)"
      using False test by (subst trial_correct.simps) (simp only: Let_def if_False)
    have g62: "uint (g - 1) < 2 ^ 62" using g' less.prems(1) by linarith
    show ?thesis
    proof (cases "ch + v1 \<ge> BIGNUM_RADIX")
      case True
      then have "2 ^ 62 \<le> uint (ch + v1)" by (simp add: word_le_def)
      then have "2 ^ 62 * 2 ^ 62 \<le> uint (ch + v1) * 2 ^ 62" by (intro mult_right_mono) simp_all
      then have "uint (g - 1) * uint v2 \<le> (n - uint (g - 1) * uint v1) * 2 ^ 62 + uint cl"
        unfolding c'(1) [symmetric] using small [OF g62] nn(2) by linarith
      then show ?thesis using close [OF _ g62] q g' g62 step True by simp
    next
      case F: False
      have "nat (uint (g - 1)) < nat (uint g)" unfolding g' using g1 by arith
      then show ?thesis using less.hyps [OF _ g62 c'(2,1)] q g' step F by simp
    qed
  qed
qed

section \<open>One quotient digit\<close>

lemma split_top_two:
  assumes "2 \<le> length xs"
  obtains ys a b where "xs = ys @ [a, b]"
proof -
  obtain zs b where zs: "xs = zs @ [b]" using assms by (cases xs rule: rev_cases) auto
  obtain ys a where "zs = ys @ [a]" using assms zs by (cases zs rule: rev_cases) auto
  with zs that show ?thesis by simp
qed

lemma divide_step_correct:
  assumes "digits_ok vs" "2 \<le> length vs" "2 ^ 61 \<le> uint (last vs)"
    "digits_ok as" "length as = length vs" "uint tp < 2 ^ 62" "digits_ok zs"
  defines "U \<equiv> digits_int (as @ [tp])" and "V \<equiv> digits_int vs"
  assumes "U < 2 ^ 62 * V"
  shows "\<exists>ws q. divide_step vs (as @ tp # zs) = Some (ws @ zs, q) \<and> length ws = Suc (length vs)
    \<and> digits_ok ws \<and> digits_int ws = U mod V \<and> uint q = U div V \<and> uint q < 2 ^ 62"
proof -
  obtain vl v2 v1 where vs: "vs = vl @ [v2, v1]" using assms(2) by (rule split_top_two)
  obtain ul u2 u1 where as: "as = ul @ [u2, u1]" using assms(2) unfolding assms(5) [symmetric] by (rule split_top_two)
  have len: "length ul = length vl" using assms(5) vs as by simp
  define W where "W = (2 ^ 62 :: int) ^ length vl"
  have W: "0 < W" "0 \<le> digits_int vl" "digits_int vl < W" "0 \<le> digits_int ul" "digits_int ul < W"
    using digits_int_less [of vl] digits_int_less [of ul] assms(1,4) vs as len by (simp_all add: W_def)
  have v: "uint v1 < 2 ^ 62" "uint v2 < 2 ^ 62" "2 ^ 61 \<le> uint v1" "uint u1 < 2 ^ 62" "uint u2 < 2 ^ 62"
    using assms(1,3,4) vs as by simp_all
  let ?n = "uint tp * 2 ^ 62 + uint u1"
  have V: "V = (uint v1 * 2 ^ 62 + uint v2) * W + digits_int vl"
    by (simp add: V_def vs W_def algebra_simps)
  have U: "U = (?n * 2 ^ 62 + uint u2) * W + digits_int ul"
    by (simp add: U_def as W_def len algebra_simps power_add)
  have v1: "1 \<le> uint v1" "2 ^ 31 \<le> uint v1" using v(3) by simp_all
  have "1 * W \<le> (uint v1 * 2 ^ 62 + uint v2) * W"
    using v1(1) W(1) by (intro mult_right_mono) (simp_all add: add_increasing2)
  then have V0: "0 < V" unfolding V using W(1,2) by linarith
  have U0: "0 \<le> U" by (simp add: U_def del: digits_int_simps(4))
  have q62: "U div V < 2 ^ 62" using assms(10) V0 by (intro int_div_less) (simp_all add: mult.commute)
  have tp_le: "uint tp \<le> uint v1"
  proof (rule ccontr)
    let ?W = "2 ^ 62 * 2 ^ 62 * W"
    assume "\<not> uint tp \<le> uint v1"
    then have "(uint v1 + 1) * ?W \<le> uint tp * ?W" using W(1) by (intro mult_right_mono) simp_all
    also have "\<dots> \<le> uint tp * ?W + ((uint u1 * 2 ^ 62 + uint u2) * W + digits_int ul)" using W(1,4) by simp
    also have "\<dots> = U" unfolding U by (simp add: algebra_simps)
    also have "U < 2 ^ 62 * V" by (rule assms(10))
    also have "\<dots> \<le> 2 ^ 62 * ((uint v1 * 2 ^ 62 + 2 ^ 62) * W)"
    proof (rule mult_left_mono)
      have "(uint v1 * 2 ^ 62 + uint v2 + 1) * W \<le> (uint v1 * 2 ^ 62 + 2 ^ 62) * W"
        using v(2) W(1) by (intro mult_right_mono) simp_all
      then show "V \<le> (uint v1 * 2 ^ 62 + 2 ^ 62) * W" unfolding V using W(3) by (simp add: algebra_simps)
    qed simp
    also have "\<dots> = (uint v1 + 1) * ?W" by (simp add: algebra_simps)
    finally show False by simp
  qed
  obtain ch g where g: "(if tp \<noteq> v1 then bignum_digit_divide tp u1 v1 else Some (u1 + v1, BIGNUM_RADIX - 1)) = Some (ch, g)"
    "uint g < 2 ^ 62" "uint ch < 2 ^ 63" "uint ch = ?n - uint g * uint v1" "U div V \<le> uint g"
  proof (cases "tp = v1")
    case True
    have "uint (BIGNUM_RADIX - 1) = 2 ^ 62 - 1" by (simp add: uint_sub_exact)
    moreover have "uint (u1 + v1) = uint u1 + uint v1" using v(1,4) by (intro uint_add_exact) simp
    ultimately show ?thesis
      using True v(1,4) q62 by (intro that [of "u1 + v1" "BIGNUM_RADIX - 1"]) (simp_all add: algebra_simps)
  next
    case False
    then have "uint tp < uint v1" using tp_le by (simp add: word_uint_eq_iff less_le)
    from bignum_digit_divide_correct [OF this v(4) v1(2) v(1)]
    obtain ch g where d: "bignum_digit_divide tp u1 v1 = Some (ch, g)" "?n = uint g * uint v1 + uint ch"
      "uint ch < uint v1" "uint g < 2 ^ 62" by blast
    have qV: "U div V * V \<le> U" using V0 by (simp add: minus_mod_eq_div_mult [symmetric])
    have "U div V \<le> ?n div uint v1"
      using trial_quotient_start [of W "2 ^ 62" "uint v1" V "uint v2" "digits_int vl" "U div V" U "uint tp" "uint u1" "uint u2"
          "digits_int ul"] W v v1(1) V U qV U0 V0 by (simp add: pos_imp_zdiv_nonneg_iff)
    moreover have "?n div uint v1 = uint g"
      using d(2,3) int_div_pos_eq [of ?n "uint v1" "uint g" "uint ch"] by (simp add: mult.commute)
    ultimately have "U div V \<le> uint g" by simp
    moreover have "uint ch < 2 ^ 63" using d(3) v(1) by simp
    ultimately show ?thesis using False d by (intro that [of ch g]) simp_all
  qed
  obtain g' where g': "trial_correct v1 v2 g ch u2 = Some g'" "uint g' < 2 ^ 62" "U div V \<le> uint g'" "uint g' \<le> U div V + 1"
    using trial_correct_returns [OF v1(1) v(1,2,5) W(1-5), where n = ?n and g = g and ch = ch] g(2-5) unfolding V U by blast
  have sub: "\<exists>ws q. bignum_divide_subtract vs g' (as @ tp # zs) = (ws @ zs, q) \<and> length ws = Suc (length vs)
    \<and> digits_ok ws \<and> digits_int ws = U mod V \<and> uint q = U div V"
    using V0 g'(3,4) unfolding U_def V_def
    by (intro divide_subtract_correct assms(1,4,5,6,7) g'(2))
  have "divide_step vs (as @ tp # zs) = Some (bignum_divide_subtract vs g' (as @ tp # zs))"
    using g(1) g'(1) len unfolding divide_step_def vs as by (auto simp: nth_append split: if_splits)
  then show ?thesis using sub q62 by auto
qed

section \<open>The division loop\<close>

lemma divide_loop_correct:
  assumes "digits_ok vs" "2 \<le> length vs" "2 ^ 61 \<le> uint (last vs)"
  defines "V \<equiv> digits_int vs"
  shows "digits_ok us \<Longrightarrow> length vs + k \<le> length us \<Longrightarrow> digits_int us < (2 ^ 62) ^ k * V \<Longrightarrow>
    \<exists>us' qs. divide_loop vs k us = Some (us', qs) \<and> length us' = length us \<and> digits_ok us'
      \<and> length qs = k \<and> digits_ok qs \<and> digits_int us' = digits_int us mod V \<and> digits_int qs = digits_int us div V"
proof (induction k arbitrary: us)
  case 0
  then show ?case by simp
next
  case (Suc k)
  let ?B = "2 ^ 62 :: int" and ?n = "length vs" and ?low = "take k us" and ?w = "drop k us"
  define as tp zs where "as = take ?n ?w" and "tp = ?w ! ?n" and "zs = drop (Suc ?n) ?w"
  have las: "length as = ?n" using Suc.prems(2) by (simp add: as_def)
  have w: "?w = as @ tp # zs"
    unfolding as_def tp_def zs_def by (rule id_take_nth_drop) (use Suc.prems(2) in simp)
  have ok: "digits_ok ?low" "digits_ok as" "uint tp < 2 ^ 62" "digits_ok zs"
    using digits_ok_take_drop [OF Suc.prems(1), of k] w by simp_all
  have us: "digits_int us = digits_int ?low + ?B ^ k * digits_int ?w"
    using digits_int_simps(4) [of ?low ?w] Suc.prems(2) by simp
  have low: "0 \<le> digits_int ?low" "digits_int ?low < ?B ^ k"
    using digits_int_less [OF ok(1)] Suc.prems(2) by simp_all
  have "?B ^ k * digits_int ?w < ?B ^ k * (?B * V)"
  proof -
    have "?B ^ Suc k * V = ?B ^ k * (?B * V)" by simp
    then show ?thesis using Suc.prems(3) low(1) unfolding us by linarith
  qed
  then have wV: "digits_int ?w < ?B * V" by (simp only: mult_less_cancel_left_pos zero_less_power zero_less_numeral)
  have vs0: "vs \<noteq> []" "last vs \<noteq> 0" using assms(2,3) by auto
  have V: "0 < V" "V < ?B ^ ?n"
    using digits_normal_pos [of vs] digits_int_less [OF assms(1)] assms(1,3) vs0 by (auto simp: V_def digits_normal_def)
  define U where "U = digits_int (as @ [tp])"
  have wU: "digits_int ?w = U + ?B ^ Suc ?n * digits_int zs" unfolding w U_def by (simp add: las algebra_simps)
  have "?B * V \<le> ?B ^ Suc ?n" using V(2) by simp
  then have "digits_int zs = 0"
    using wV digits_int_less [of "as @ [tp]"] ok las
    by (intro top_digit_cancels [OF wU]) (simp_all add: U_def del: digits_int_simps(4))
  then have U: "digits_int ?w = U" using wU by simp
  have UV: "digits_int (as @ [tp]) < 2 ^ 62 * digits_int vs" using wV U by (simp only: U_def V_def)
  obtain ws q where st: "divide_step vs ?w = Some (ws @ zs, q)" "length ws = Suc ?n" "digits_ok ws"
    "digits_int ws = U mod V" "uint q = U div V" "uint q < 2 ^ 62"
    using divide_step_correct [OF assms(1-3) ok(2) las ok(3,4) UV] unfolding w U_def V_def by blast
  let ?us = "?low @ ws @ zs"
  have us1: "digits_int ?us = digits_int ?low + ?B ^ k * (U mod V)"
    using st(2,4) Suc.prems(2) \<open>digits_int zs = 0\<close> by simp
  have "U mod V + 1 \<le> V" using pos_mod_bound [OF V(1), of U] by linarith
  then have "?B ^ k * (U mod V + 1) \<le> ?B ^ k * V" by (intro mult_left_mono) simp_all
  then have lt: "digits_int ?us < ?B ^ k * V" unfolding us1 using low(2) by (simp add: algebra_simps)
  have wlen: "length ?w = Suc (?n + length zs)" using arg_cong [OF w, of length] las by simp
  then have len: "length ?us = length us" using st(2) by simp
  obtain us' qs where ih: "divide_loop vs k ?us = Some (us', qs)" "length us' = length us" "digits_ok us'"
    "length qs = k" "digits_ok qs" "digits_int us' = digits_int ?us mod V" "digits_int qs = digits_int ?us div V"
    using Suc.IH [OF _ _ lt] ok st(3) len Suc.prems(2) by auto
  have "digits_int us = digits_int ?low + ?B ^ k * (U div V * V + U mod V)" unfolding us U by simp
  also have "\<dots> = digits_int ?us + ?B ^ k * uint q * V" unfolding us1 st(5) by (simp only: distrib_left mult.assoc add.assoc add.commute)
  finally have total: "digits_int us = digits_int ?us + ?B ^ k * uint q * V" .
  have "digits_int us mod V = digits_int us'" "digits_int us div V = digits_int (qs @ [q])"
    unfolding total using V(1) ih(4,6,7) by (simp_all add: add.commute)
  then show ?case using st ih by (intro exI [of _ us'] exI [of _ "qs @ [q]"]) simp
qed

section \<open>The division of long bignums\<close>

definition bignum_divide :: "bignum \<Rightarrow> bignum \<Rightarrow> (bignum \<times> bignum) option option" where
  "bignum_divide numerator denominator =
     (if BIGNUM_ZERO_P denominator then Some None
      else if BIGNUM_ZERO_P numerator then Some (Some (numerator, numerator))
      else let r_negative_p = BIGNUM_NEGATIVE_P numerator;
               q_negative_p = (if BIGNUM_NEGATIVE_P denominator then \<not> r_negative_p else r_negative_p)
           in case bignum_compare_unsigned numerator denominator of
                bignum_comparison_equal \<Rightarrow> Some (Some (bignum_make_one q_negative_p, bignum_make_zero))
              | bignum_comparison_less \<Rightarrow> Some (Some (bignum_make_zero, numerator))
              | bignum_comparison_greater \<Rightarrow>
                  if BIGNUM_LENGTH denominator = 1
                  then let digit = BIGNUM_REF denominator 0
                       in if digit = 1
                          then do {
                            q \<leftarrow> bignum_maybe_new_sign numerator q_negative_p;
                            Some (Some (q, bignum_make_zero))
                          }
                          else if digit < BIGNUM_RADIX_ROOT
                          then do {
                            (q, r) \<leftarrow> bignum_divide_unsigned_small_denominator numerator digit True q_negative_p r_negative_p;
                            r \<leftarrow> r;
                            Some (Some (q, r))
                          }
                          else do {
                            (q, r) \<leftarrow> bignum_divide_unsigned_medium_denominator numerator digit True True q_negative_p r_negative_p;
                            q \<leftarrow> q;
                            r \<leftarrow> r;
                            Some (Some (q, r))
                          }
                  else do {
                    (q, r) \<leftarrow> bignum_divide_unsigned_large_denominator numerator denominator True True q_negative_p r_negative_p;
                    q \<leftarrow> q;
                    r \<leftarrow> r;
                    Some (Some (q, r))
                  })"

text \<open>
  \<open>BIGNUM_OUT_OF_BAND\<close>, the result for a zero denominator, is the inner \<^const>\<open>None\<close>; the
  outer \<^const>\<open>None\<close> is a failed assertion.
\<close>

definition bignum_quotient :: "bignum \<Rightarrow> bignum \<Rightarrow> bignum option option" where
  "bignum_quotient numerator denominator =
     (if BIGNUM_ZERO_P denominator then Some None
      else if BIGNUM_ZERO_P numerator then Some (Some numerator)
      else let q_negative_p = (if BIGNUM_NEGATIVE_P denominator then \<not> BIGNUM_NEGATIVE_P numerator
                               else BIGNUM_NEGATIVE_P numerator)
           in case bignum_compare_unsigned numerator denominator of
                bignum_comparison_equal \<Rightarrow> Some (Some (bignum_make_one q_negative_p))
              | bignum_comparison_less \<Rightarrow> Some (Some bignum_make_zero)
              | bignum_comparison_greater \<Rightarrow>
                  if BIGNUM_LENGTH denominator = 1
                  then let digit = BIGNUM_REF denominator 0
                       in if digit = 1 then map_option Some (bignum_maybe_new_sign numerator q_negative_p)
                          else if digit < BIGNUM_RADIX_ROOT
                          then map_option (\<lambda>(q, r). Some q)
                            (bignum_divide_unsigned_small_denominator numerator digit False q_negative_p False)
                          else map_option fst
                            (bignum_divide_unsigned_medium_denominator numerator digit True False q_negative_p False)
                  else map_option fst
                    (bignum_divide_unsigned_large_denominator numerator denominator True False q_negative_p False))"

definition bignum_remainder :: "bignum \<Rightarrow> bignum \<Rightarrow> bignum option option" where
  "bignum_remainder numerator denominator =
     (if BIGNUM_ZERO_P denominator then Some None
      else if BIGNUM_ZERO_P numerator then Some (Some numerator)
      else case bignum_compare_unsigned numerator denominator of
             bignum_comparison_equal \<Rightarrow> Some (Some bignum_make_zero)
           | bignum_comparison_less \<Rightarrow> Some (Some numerator)
           | bignum_comparison_greater \<Rightarrow>
               if BIGNUM_LENGTH denominator = 1
               then let digit = BIGNUM_REF denominator 0
                    in if digit AND (digit - 1) = 0
                       then (if BIGNUM_LENGTH numerator = 0 then Some (Some bignum_make_zero)
                             else let unsigned_remainder = (digit - 1) AND BIGNUM_REF numerator 0
                                  in if unsigned_remainder = 0 then Some (Some bignum_make_zero)
                                     else map_option Some
                                       (bignum_digit_to_bignum unsigned_remainder (BIGNUM_NEGATIVE_P numerator)))
                       else if digit < BIGNUM_RADIX_ROOT
                       then map_option Some
                         (bignum_remainder_unsigned_small_denominator numerator digit (BIGNUM_NEGATIVE_P numerator))
                       else map_option snd
                         (bignum_divide_unsigned_medium_denominator numerator digit False True False
                            (BIGNUM_NEGATIVE_P numerator))
               else map_option snd
                 (bignum_divide_unsigned_large_denominator numerator denominator False True False
                    (BIGNUM_NEGATIVE_P numerator)))"

lemma normalized_divide_correct:
  assumes "digits_ok vs" "2 \<le> length vs" "2 ^ 61 \<le> uint (last vs)" "length vs \<le> length us" "digits_ok us"
    "digits_int us < (2 ^ 62) ^ (length us - length vs) * digits_int vs" "length us < 2 ^ 62"
    "length qs = length us - length vs"
  shows "\<exists>us' qs'. bignum_divide_unsigned_normalized (mk_bignum rneg us) (mk_bignum s vs)
        (if wq then Some (mk_bignum qneg qs) else None) =
      Some (mk_bignum rneg us', if wq then Some (mk_bignum qneg qs') else None)
    \<and> digits_ok us' \<and> length us' = length us \<and> digits_int us' = digits_int us mod digits_int vs
    \<and> digits_ok qs' \<and> length qs' = length qs \<and> digits_int qs' = digits_int us div digits_int vs"
proof -
  obtain us' qs' where "divide_loop vs (length us - length vs) us = Some (us', qs')" "length us' = length us" "digits_ok us'"
    "length qs' = length us - length vs" "digits_ok qs'" "digits_int us' = digits_int us mod digits_int vs"
    "digits_int qs' = digits_int us div digits_int vs"
    using divide_loop_correct [OF assms(1-3,5) _ assms(6)] assms(4) by auto
  then show ?thesis
    using assms(4,7,8) by (intro exI [of _ us'] exI [of _ qs']) (auto simp: bignum_divide_unsigned_normalized_def)
qed

text \<open>Shifting the divisor so that its leading digit is large keeps its length.\<close>

lemma normalized_divisor:
  assumes "digits_ok es" "es \<noteq> []" "uint (last es) * 2 ^ s < 2 ^ 62" "s \<le> 61"
  shows "digits_int es * 2 ^ s < (2 ^ 62) ^ length es"
    "digits_int es * 2 ^ s div (2 ^ 62) ^ (length es - 1) \<ge> uint (last es) * 2 ^ s"
proof -
  let ?B = "(2 ^ 62) ^ (length es - 1) :: int"
  note l = digits_last [OF assms(1,2)]
  have p: "(2 :: int) ^ 62 = 2 ^ (62 - s) * 2 ^ s" using assms(4) by (simp flip: power_add)
  have "uint (last es) < 2 ^ (62 - s)" using assms(3) unfolding p by simp
  then have "(uint (last es) + 1) * 2 ^ s \<le> 2 ^ (62 - s) * 2 ^ s" by (intro mult_right_mono) simp_all
  then have top: "(uint (last es) + 1) * 2 ^ s \<le> 2 ^ 62" by (simp only: p)
  have "digits_int es < ?B * (uint (last es) + 1)" using l(1,2) by (simp add: algebra_simps)
  then have "digits_int es * 2 ^ s < ?B * (uint (last es) + 1) * 2 ^ s" by (intro mult_strict_right_mono) simp_all
  also have "\<dots> \<le> ?B * 2 ^ 62" using top by (simp add: mult.assoc mult_left_mono)
  also have "\<dots> = (2 ^ 62) ^ length es" using assms(2) by (cases es) simp_all
  finally show "digits_int es * 2 ^ s < (2 ^ 62) ^ length es" .
  have "?B * uint (last es) \<le> digits_int es" using l(1) by simp
  then have "?B * uint (last es) * 2 ^ s \<le> digits_int es * 2 ^ s" by (intro mult_right_mono) simp_all
  then show "digits_int es * 2 ^ s div ?B \<ge> uint (last es) * 2 ^ s"
    by (intro le_divI) (simp_all add: mult.commute mult.left_commute)
qed

text \<open>A quotient of operands with these lengths has no more digits than are allocated for it.\<close>

lemma quotient_length_bound:
  assumes "digits_ok ds" "digits_normal es" "es \<noteq> []" "length es \<le> length ds"
  shows "digits_int ds < (2 ^ 62) ^ (Suc (length ds) - length es) * digits_int es"
proof -
  have "digits_int ds < (2 ^ 62) ^ length ds" using assms(1) by (rule digits_int_less)
  also have "\<dots> = (2 ^ 62) ^ (Suc (length ds) - length es) * (2 ^ 62) ^ (length es - 1)"
    using assms(3,4) by (simp flip: power_add) (simp add: Suc_leI)
  also have "\<dots> \<le> (2 ^ 62) ^ (Suc (length ds) - length es) * digits_int es"
    using digits_normal_lower [OF assms(2,3)] by (intro mult_left_mono) simp_all
  finally show ?thesis .
qed

lemma large_denominator_digits:
  assumes "digits_normal ds" "digits_normal es" "2 \<le> length es" "length es \<le> length ds" "Suc (length ds) \<le> BIGNUM_LENGTH_MAX"
  shows "\<exists>q us. bignum_divide_unsigned_large_denominator (mk_bignum sn ds) (mk_bignum sd es) wq wr qneg rneg =
      Some (if wq then Some (bignum_trim (mk_bignum qneg q)) else None, if wr then Some (bignum_trim (mk_bignum rneg us)) else None)
    \<and> digits_ok q \<and> length q = Suc (length ds) - length es \<and> digits_int q = digits_int ds div digits_int es
    \<and> (wr \<longrightarrow> digits_ok us \<and> length us = Suc (length ds) \<and> digits_int us = digits_int ds mod digits_int es)"
proof -
  let ?m = "Suc (length ds) - length es"
  have es: "es \<noteq> []" "digits_ok es" "digits_ok ds" "last es \<noteq> 0" using assms(1-3) by (auto simp: digits_normal_def)
  have l62: "Suc (length ds) < 2 ^ 62" "length es < 2 ^ 62" "length ds < 2 ^ 62"
    using assms(4,5) LENGTH_MAX_small [of "Suc (length ds)"] by simp_all
  have "uint (last es) < 2 ^ 62" using es(1,2) by (simp add: digits_ok_def list_all_iff)
  then obtain v' s where s: "normalization_shift (last es) 0 = Some (v', s)" "uint v' = uint (last es) * 2 ^ s" "s \<le> 61"
    "2 ^ 61 \<le> uint v'" "uint v' < 2 ^ 62"
    using normalization_shift_returns [of "last es" 0] uint_pos [OF es(4)] by auto
  have ref: "BIGNUM_REF (mk_bignum sd es) (length es - 1) = last es"
    using es(1) by (simp add: BIGNUM_REF_def last_conv_nth)
  have bound: "digits_int ds * 2 ^ s < (2 ^ 62) ^ ?m * (digits_int es * 2 ^ s)"
    using quotient_length_bound [OF es(3) assms(2) es(1) assms(4)] by simp
  show ?thesis
  proof (cases "s = 0")
    case True
    have b: "digits_int (ds @ [0]) < (2 ^ 62) ^ (length (ds @ [0]) - length es) * digits_int es"
      using bound True by simp
    obtain us' qs' where n: "bignum_divide_unsigned_normalized (mk_bignum rneg (ds @ [0])) (mk_bignum sd es)
          (if wq then Some (mk_bignum qneg (replicate ?m 0)) else None) =
        Some (mk_bignum rneg us', if wq then Some (mk_bignum qneg qs') else None)"
      "digits_ok us'" "length us' = Suc (length ds)" "digits_int us' = digits_int ds mod digits_int es"
      "digits_ok qs'" "length qs' = ?m" "digits_int qs' = digits_int ds div digits_int es"
      using normalized_divide_correct [OF es(2) assms(3) _ _ _ b, of "replicate ?m 0" rneg sd wq qneg] s(2,4) True es(3) l62 assms(4)
      by auto
    then show ?thesis
      using s(1) ref True assms(3-5) l62
      by (intro exI [of _ qs'] exI [of _ us'])
        (auto simp: bignum_divide_unsigned_large_denominator_def bignum_allocate_eq Let_def
          bignum_destructive_copy_def list_update_append simp flip: replicate_append_same)
  next
    case False
    then have s1: "1 \<le> s" by simp
    have "digits_int ds * 2 ^ s \<le> digits_int ds * 2 ^ 62"
      using s(3) by (intro mult_left_mono power_increasing) simp_all
    also have "\<dots> < (2 ^ 62) ^ length ds * 2 ^ 62"
      using digits_int_less [OF es(3)] by (intro mult_strict_right_mono) simp_all
    finally have tb: "digits_int ds * 2 ^ s < (2 ^ 62) ^ Suc (length ds)" by (simp add: mult.commute)
    obtain ts where ts: "bignum_destructive_normalization (mk_bignum sn ds) (mk_bignum rneg (replicate (Suc (length ds)) 0)) s
        = Some (mk_bignum rneg ts)" "digits_ok ts" "length ts = Suc (length ds)" "digits_int ts = digits_int ds * 2 ^ s"
      using bignum_destructive_normalization_correct [OF s1 s(3) es(3) _ l62(1) tb, of sn rneg] by auto
    have last62: "uint (last es) * 2 ^ s < 2 ^ 62" using s(2,5) by simp
    note nd = normalized_divisor [OF es(2,1) last62 s(3)]
    obtain vs where vs: "bignum_destructive_normalization (mk_bignum sd es) (mk_bignum False (replicate (length es) 0)) s
        = Some (mk_bignum False vs)" "digits_ok vs" "length vs = length es" "digits_int vs = digits_int es * 2 ^ s"
      using bignum_destructive_normalization_correct [OF s1 s(3) es(2) _ l62(2) nd(1), of sd False] by auto
    have vs0: "vs \<noteq> []" using vs(3) es(1) by auto
    have "2 ^ 61 \<le> uint (last vs)"
      unfolding digits_last(3) [OF vs(2) vs0] vs(3,4) using nd(2) s(2,4) by simp
    moreover have "digits_int ts < (2 ^ 62) ^ (length ts - length vs) * digits_int vs"
      unfolding ts(3,4) vs(3,4) by (rule bound)
    moreover have "2 \<le> length vs" "length vs \<le> length ts" "length ts < 2 ^ 62" "length (replicate ?m 0) = length ts - length vs"
      using assms(3,4) vs(3) ts(3) l62(1) by simp_all
    ultimately obtain us' qs' where n: "bignum_divide_unsigned_normalized (mk_bignum rneg ts) (mk_bignum False vs)
          (if wq then Some (mk_bignum qneg (replicate ?m 0)) else None) =
        Some (mk_bignum rneg us', if wq then Some (mk_bignum qneg qs') else None)"
      "digits_ok us'" "length us' = length ts" "digits_int us' = digits_int ts mod digits_int vs"
      "digits_ok qs'" "length qs' = length (replicate ?m (0 :: long))" "digits_int qs' = digits_int ts div digits_int vs"
      using normalized_divide_correct [OF vs(2) _ _ _ ts(2), of "replicate ?m 0" rneg False wq qneg] by blast
    have r: "digits_int us' = (digits_int ds mod digits_int es) * 2 ^ s" unfolding n(4) ts(4) vs(4) by simp
    have q: "digits_int qs' = digits_int ds div digits_int es" unfolding n(7) ts(4) vs(4) by simp
    obtain us'' where u: "bignum_destructive_unnormalization (mk_bignum rneg us') s = Some (mk_bignum rneg us'')"
      "digits_ok us''" "length us'' = length us'" "digits_int us'' = digits_int ds mod digits_int es"
      using bignum_destructive_unnormalization_correct [OF s1 s(3) n(2) r, of rneg] by blast
    have "bignum_divide_unsigned_large_denominator (mk_bignum sn ds) (mk_bignum sd es) wq wr qneg rneg =
      Some (if wq then Some (bignum_trim (mk_bignum qneg qs')) else None,
            if wr then Some (bignum_trim (mk_bignum rneg (if wr then us'' else us'))) else None)"
      using s(1) ref False assms(3-5) l62 ts(1) vs(1) n(1) u(1)
      by (auto simp: bignum_divide_unsigned_large_denominator_def bignum_allocate_eq Let_def)
    then show ?thesis
      using n(3,5,6) q u ts(3) by (intro exI [of _ qs'] exI [of _ "if wr then us'' else us'"]) simp
  qed
qed

lemma large_denominator_correct:
  assumes "bignum_wf n" "bignum_wf d" "BIGNUM_LENGTH n < BIGNUM_LENGTH_MAX" "2 \<le> BIGNUM_LENGTH d"
    "\<bar>bignum_int d\<bar> < \<bar>bignum_int n\<bar>"
  shows "\<exists>q r. bignum_divide_unsigned_large_denominator n d wq wr qneg rneg = Some (q, r)
    \<and> yields_opt wq q (with_sign qneg (\<bar>bignum_int n\<bar> div \<bar>bignum_int d\<bar>))
    \<and> yields_opt wr r (with_sign rneg (\<bar>bignum_int n\<bar> mod \<bar>bignum_int d\<bar>))"
proof -
  obtain sn ds where n: "n = mk_bignum sn ds" "length ds \<le> BIGNUM_LENGTH_MAX" "length ds < 2 ^ 62" "digits_normal ds"
    using assms(1) by (rule bignum_wf_cases)
  obtain sd es where d: "d = mk_bignum sd es" "length es \<le> BIGNUM_LENGTH_MAX" "length es < 2 ^ 62" "digits_normal es"
    using assms(2) by (rule bignum_wf_cases)
  have v: "\<bar>bignum_int n\<bar> = digits_int ds" "\<bar>bignum_int d\<bar> = digits_int es" using n d by (simp_all add: mk_bignum_int)
  have len: "length es \<le> length ds"
    using digits_less_by_length [OF _ d(4), of ds] n(4) assms(5) v by (cases "length ds < length es") (auto simp: digits_normal_def)
  have l: "2 \<le> length es" "Suc (length ds) \<le> BIGNUM_LENGTH_MAX" using assms(3,4) n d by simp_all
  obtain q us where r: "bignum_divide_unsigned_large_denominator n d wq wr qneg rneg =
      Some (if wq then Some (bignum_trim (mk_bignum qneg q)) else None, if wr then Some (bignum_trim (mk_bignum rneg us)) else None)"
    "digits_ok q" "length q = Suc (length ds) - length es" "digits_int q = digits_int ds div digits_int es"
    "wr \<longrightarrow> digits_ok us \<and> length us = Suc (length ds) \<and> digits_int us = digits_int ds mod digits_int es"
    using large_denominator_digits [OF n(4) d(4) l(1) len l(2)] unfolding n(1) d(1) by blast
  have "q \<noteq> []" using r(3) len by auto
  then have "yields (Some (bignum_trim (mk_bignum qneg q))) (with_sign qneg (\<bar>bignum_int n\<bar> div \<bar>bignum_int d\<bar>))"
    unfolding v using r(2-4) l by (intro yields_trim) auto
  moreover have "yields (Some (bignum_trim (mk_bignum rneg us))) (with_sign rneg (\<bar>bignum_int n\<bar> mod \<bar>bignum_int d\<bar>))" if wr
    unfolding v using r(5) that l by (intro yields_trim) auto
  ultimately show ?thesis using r(1) by (auto simp: yields_opt_def)
qed

section \<open>The entry points\<close>

text \<open>The signs the entry points give to the quotient and the remainder.\<close>

lemma signed_quotient_remainder:
  fixes n d :: int
  assumes "d \<noteq> 0"
  shows "n sdiv d = with_sign (if d < 0 then \<not> n < 0 else n < 0) (\<bar>n\<bar> div \<bar>d\<bar>)"
    "n smod d = with_sign (n < 0) (\<bar>n\<bar> mod \<bar>d\<bar>)"
  using assms by (auto simp: sdiv_int_cases)

lemma small_cases:
  fixes n d :: int
  assumes "d \<noteq> 0"
  shows "\<bar>n\<bar> = \<bar>d\<bar> \<Longrightarrow> n sdiv d = with_sign (if d < 0 then \<not> n < 0 else n < 0) 1 \<and> n smod d = 0"
    "\<bar>n\<bar> < \<bar>d\<bar> \<Longrightarrow> n sdiv d = 0 \<and> n smod d = n"
  using assms by (auto simp: sdiv_int_cases)

lemma zero_numerator: "(0 :: int) sdiv d = 0" "(0 :: int) smod d = 0"
  by (simp_all add: signed_divide_int_def smod_int)

lemma one_denominator:
  assumes "bignum_wf d" "BIGNUM_LENGTH d = 1" "BIGNUM_REF d 0 = 1"
  shows "\<bar>bignum_int d\<bar> = 1"
  using single_digit(1) [OF assms(1,2)] assms(3) by simp

text \<open>
  The four ways to divide a numerator that is larger in absolute value than the
  denominator: a one-digit denominator that is one, small or medium, and a longer one.
\<close>

lemma denominator_cases:
  assumes "bignum_wf d" "bignum_int d \<noteq> 0"
  obtains (one) "BIGNUM_LENGTH d = 1" "BIGNUM_REF d 0 = 1" "\<bar>bignum_int d\<bar> = 1"
  | (small) "BIGNUM_LENGTH d = 1" "BIGNUM_REF d 0 \<noteq> 1" "BIGNUM_REF d 0 < BIGNUM_RADIX_ROOT"
      "long_less 1 (BIGNUM_REF d 0)" "\<bar>bignum_int d\<bar> = uint (BIGNUM_REF d 0)"
  | (medium) "BIGNUM_LENGTH d = 1" "BIGNUM_REF d 0 \<noteq> 1" "\<not> BIGNUM_REF d 0 < BIGNUM_RADIX_ROOT"
      "BIGNUM_REF d 0 \<noteq> 0" "uint (BIGNUM_REF d 0) < 2 ^ 62" "\<bar>bignum_int d\<bar> = uint (BIGNUM_REF d 0)"
  | (large) "BIGNUM_LENGTH d \<noteq> 1" "2 \<le> BIGNUM_LENGTH d"
proof (cases "BIGNUM_LENGTH d = 1")
  case True
  note s = single_digit [OF assms(1) True]
  show ?thesis
    using one [OF True] small [OF True] medium [OF True] s small_digit_greater_1 [OF s(2)] one_denominator [OF assms(1) True]
    by blast
next
  case False
  moreover have "BIGNUM_LENGTH d \<noteq> 0"
    using assms bignum_wf_simps(6) [OF assms(1)] by (simp add: BIGNUM_ZERO_P_def)
  ultimately show ?thesis by (intro large) simp_all
qed

theorem bignum_divide_correct:
  assumes "bignum_wf n" "bignum_wf d" "BIGNUM_LENGTH n < BIGNUM_LENGTH_MAX"
  shows "bignum_int d = 0 \<Longrightarrow> bignum_divide n d = Some None"
    "bignum_int d \<noteq> 0 \<Longrightarrow> \<exists>q r. bignum_divide n d = Some (Some (q, r))
      \<and> yields (Some q) (bignum_int n sdiv bignum_int d) \<and> yields (Some r) (bignum_int n smod bignum_int d)"
proof -
  note wn = bignum_wf_simps [OF assms(1)] and wd = bignum_wf_simps [OF assms(2)]
  show "bignum_int d = 0 \<Longrightarrow> bignum_divide n d = Some None" by (simp add: bignum_divide_def wd(6))
  assume dz: "bignum_int d \<noteq> 0"
  let ?rneg = "BIGNUM_NEGATIVE_P n"
  let ?qneg = "if BIGNUM_NEGATIVE_P d then \<not> ?rneg else ?rneg"
  note sq = signed_quotient_remainder [OF dz, of "bignum_int n", folded wd(8) wn(8)]
  note cmp = bignum_compare_unsigned_correct [OF assms(1,2)] int_compare_def
  show "\<exists>q r. bignum_divide n d = Some (Some (q, r))
      \<and> yields (Some q) (bignum_int n sdiv bignum_int d) \<and> yields (Some r) (bignum_int n smod bignum_int d)"
  proof (cases "bignum_int n = 0")
    case True
    then show ?thesis using assms(1) dz by (simp add: bignum_divide_def wd(6) wn(6) zero_numerator)
  next
    case nz: False
    consider "\<bar>bignum_int n\<bar> < \<bar>bignum_int d\<bar>" | "\<bar>bignum_int n\<bar> = \<bar>bignum_int d\<bar>" | "\<bar>bignum_int d\<bar> < \<bar>bignum_int n\<bar>"
      by linarith
    then show ?thesis
    proof cases
      case 1
      then show ?thesis
        using assms(1) dz nz small_cases(2) [OF dz 1] by (simp add: bignum_divide_def wd(6) wn(6) cmp)
    next
      case 2
      then show ?thesis
        using dz nz small_cases(1) [OF dz 2, folded wd(8) wn(8)] by (simp add: bignum_divide_def wd(6) wn(6) cmp Let_def)
    next
      case 3
      have nzp: "\<not> BIGNUM_ZERO_P n" using nz wn(6) by simp
      have gt: "bignum_compare_unsigned n d = bignum_comparison_greater" using 3 by (simp add: cmp)
      note step = bignum_divide_def [of n d, unfolded wd(6) wn(6) gt Let_def] dz nz sq
      from assms(2) dz show ?thesis
      proof (cases rule: denominator_cases)
        case one
        then show ?thesis using yields_new_sign(2) [OF assms(1), of ?qneg] nz
          by (cases "bignum_maybe_new_sign n ?qneg") (simp_all add: step)
      next
        case small
        then show ?thesis using small_denominator_correct [OF assms(1) nzp small(4,3), of True ?qneg ?rneg]
          by (auto simp: step yields_opt_def yields_def split: option.splits)
      next
        case medium
        then show ?thesis using medium_denominator_correct [OF assms(1) nzp assms(3) medium(4,5), of True True ?qneg ?rneg]
          by (auto simp: step yields_opt_def yields_def split: option.splits)
      next
        case large
        then show ?thesis using large_denominator_correct [OF assms large(2) 3, of True True ?qneg ?rneg]
          by (auto simp: step yields_opt_def yields_def split: option.splits)
      qed
    qed
  qed
qed

theorem bignum_quotient_correct:
  assumes "bignum_wf n" "bignum_wf d" "BIGNUM_LENGTH n < BIGNUM_LENGTH_MAX"
  shows "bignum_int d = 0 \<Longrightarrow> bignum_quotient n d = Some None"
    "bignum_int d \<noteq> 0 \<Longrightarrow> \<exists>q. bignum_quotient n d = Some (Some q) \<and> yields (Some q) (bignum_int n sdiv bignum_int d)"
proof -
  note wn = bignum_wf_simps [OF assms(1)] and wd = bignum_wf_simps [OF assms(2)]
  show "bignum_int d = 0 \<Longrightarrow> bignum_quotient n d = Some None" by (simp add: bignum_quotient_def wd(6))
  assume dz: "bignum_int d \<noteq> 0"
  let ?rneg = "BIGNUM_NEGATIVE_P n"
  let ?qneg = "if BIGNUM_NEGATIVE_P d then \<not> ?rneg else ?rneg"
  note sq = signed_quotient_remainder [OF dz, of "bignum_int n", folded wd(8) wn(8)]
  note cmp = bignum_compare_unsigned_correct [OF assms(1,2)] int_compare_def
  consider "bignum_int n = 0" | "bignum_int n \<noteq> 0" "\<bar>bignum_int n\<bar> < \<bar>bignum_int d\<bar>"
    | "bignum_int n \<noteq> 0" "\<bar>bignum_int n\<bar> = \<bar>bignum_int d\<bar>" | "bignum_int n \<noteq> 0" "\<bar>bignum_int d\<bar> < \<bar>bignum_int n\<bar>"
    by linarith
  then show "\<exists>q. bignum_quotient n d = Some (Some q) \<and> yields (Some q) (bignum_int n sdiv bignum_int d)"
  proof cases
    case 1
    then show ?thesis using assms(1) dz by (simp add: bignum_quotient_def wd(6) wn(6) zero_numerator)
  next
    case 2
    then show ?thesis
      using assms(1) dz small_cases(2) [OF dz 2(2)] by (simp add: bignum_quotient_def wd(6) wn(6) cmp)
  next
    case 3
    then show ?thesis
      using dz small_cases(1) [OF dz 3(2), folded wd(8) wn(8)] by (simp add: bignum_quotient_def wd(6) wn(6) cmp Let_def)
  next
    case 4
    have nzp: "\<not> BIGNUM_ZERO_P n" using 4 wn(6) by simp
    have gt: "bignum_compare_unsigned n d = bignum_comparison_greater" using 4 by (simp add: cmp)
    note step = bignum_quotient_def [of n d, unfolded wd(6) wn(6) gt Let_def] dz 4(1) sq
    from assms(2) dz show ?thesis
    proof (cases rule: denominator_cases)
      case one
      then show ?thesis using yields_new_sign(2) [OF assms(1), of ?qneg] 4
        by (cases "bignum_maybe_new_sign n ?qneg") (simp_all add: step)
    next
      case small
      then show ?thesis using small_denominator_correct [OF assms(1) nzp small(4,3), of False ?qneg False]
        by (auto simp: step yields_def split: option.splits)
    next
      case medium
      then show ?thesis using medium_denominator_correct [OF assms(1) nzp assms(3) medium(4,5), of True False ?qneg False]
        by (auto simp: step yields_opt_def yields_def split: option.splits)
    next
      case large
      then show ?thesis using large_denominator_correct [OF assms large(2) 4(2), of True False ?qneg False]
        by (auto simp: step yields_opt_def yields_def split: option.splits)
    qed
  qed
qed

text \<open>The remainder of a division by a power of two is found in the lowest digit.\<close>

lemma low_digit_mod:
  assumes "ds \<noteq> []" "k \<le> 62"
  shows "digits_int ds mod 2 ^ k = uint (ds ! 0) mod 2 ^ k"
proof -
  obtain a as where ds: "ds = a # as" using assms(1) by (cases ds) auto
  have "(2 :: int) ^ k dvd 2 ^ 62" using assms(2) by (rule le_imp_power_dvd)
  then have "(2 :: int) ^ k dvd 2 ^ 62 * digits_int as" by (rule dvd_mult2)
  then have "(uint a + 2 ^ 62 * digits_int as) mod 2 ^ k = uint a mod 2 ^ k"
    by (metis add.right_neutral dvd_imp_mod_0 mod_add_right_eq)
  then show ?thesis by (simp add: ds)
qed

theorem bignum_remainder_correct:
  assumes "bignum_wf n" "bignum_wf d" "BIGNUM_LENGTH n < BIGNUM_LENGTH_MAX"
  shows "bignum_int d = 0 \<Longrightarrow> bignum_remainder n d = Some None"
    "bignum_int d \<noteq> 0 \<Longrightarrow> \<exists>r. bignum_remainder n d = Some (Some r) \<and> yields (Some r) (bignum_int n smod bignum_int d)"
proof -
  note wn = bignum_wf_simps [OF assms(1)] and wd = bignum_wf_simps [OF assms(2)]
  show "bignum_int d = 0 \<Longrightarrow> bignum_remainder n d = Some None" by (simp add: bignum_remainder_def wd(6))
  assume dz: "bignum_int d \<noteq> 0"
  let ?rneg = "BIGNUM_NEGATIVE_P n" and ?e = "BIGNUM_REF d 0"
  note sq = signed_quotient_remainder(2) [OF dz, of "bignum_int n", folded wn(8)]
  note cmp = bignum_compare_unsigned_correct [OF assms(1,2)] int_compare_def
  consider "bignum_int n = 0" | "bignum_int n \<noteq> 0" "\<bar>bignum_int n\<bar> < \<bar>bignum_int d\<bar>"
    | "bignum_int n \<noteq> 0" "\<bar>bignum_int n\<bar> = \<bar>bignum_int d\<bar>" | "bignum_int n \<noteq> 0" "\<bar>bignum_int d\<bar> < \<bar>bignum_int n\<bar>"
    by linarith
  then show "\<exists>r. bignum_remainder n d = Some (Some r) \<and> yields (Some r) (bignum_int n smod bignum_int d)"
  proof cases
    case 1
    then show ?thesis using assms(1) dz by (simp add: bignum_remainder_def wd(6) wn(6) zero_numerator)
  next
    case 2
    then show ?thesis
      using assms(1) dz small_cases(2) [OF dz 2(2)] by (simp add: bignum_remainder_def wd(6) wn(6) cmp)
  next
    case 3
    then show ?thesis
      using dz small_cases(1) [OF dz 3(2)] by (simp add: bignum_remainder_def wd(6) wn(6) cmp)
  next
    case 4
    have nzp: "\<not> BIGNUM_ZERO_P n" using 4 wn(6) by simp
    have gt: "bignum_compare_unsigned n d = bignum_comparison_greater" using 4 by (simp add: cmp)
    note step = bignum_remainder_def [of n d, unfolded wd(6) wn(6) gt Let_def] dz 4(1) sq
    show ?thesis
    proof (cases "BIGNUM_LENGTH d = 1 \<and> ?e AND (?e - 1) = 0")
      case True
      then have p: "BIGNUM_LENGTH d = 1" "?e AND (?e - 1) = 0" by simp_all
      note s = single_digit [OF assms(2) p(1)]
      define u where "u = (?e - 1) AND BIGNUM_REF n 0"
      obtain k where k: "uint ?e = 2 ^ k" "uint u = uint (BIGNUM_REF n 0) mod 2 ^ k"
        using power_of_two_digit [OF p(2) s(2)] unfolding u_def by blast
      have k62: "k \<le> 62" using power_less_imp_less_exp [of "2 :: int" k 62] s(3) unfolding k(1) by simp
      have n0: "bignum_digits n \<noteq> []" using nzp wn by (auto simp: BIGNUM_ZERO_P_def)
      have u: "uint u = \<bar>bignum_int n\<bar> mod \<bar>bignum_int d\<bar>"
        using low_digit_mod [OF n0 k62] k s(1) wn(9) by (simp add: BIGNUM_REF_def)
      then have "uint u < 2 ^ 62" using s(1,3) 4 dz by (smt (verit) pos_mod_bound)
      then show ?thesis
        using yields_digit [of u ?rneg] u p nzp word_uint_eq_iff [of u 0] unfolding step(1) u_def [symmetric]
        by (cases "bignum_digit_to_bignum u ?rneg") (auto simp: step(2-) BIGNUM_ZERO_P_def)
    next
      case np: False
      from assms(2) dz show ?thesis
      proof (cases rule: denominator_cases)
        case one
        then show ?thesis using np by simp
      next
        case small
        then show ?thesis using remainder_small_denominator_correct [OF assms(1) small(4,3), of ?rneg] np
          by (auto simp: step yields_def split: option.splits)
      next
        case medium
        then show ?thesis using medium_denominator_correct [OF assms(1) nzp assms(3) medium(4,5), of False True False ?rneg] np
          by (auto simp: step yields_opt_def yields_def split: option.splits)
      next
        case large
        then show ?thesis using large_denominator_correct [OF assms large(2) 4(2), of False True False ?rneg]
          by (auto simp: step yields_opt_def yields_def split: option.splits)
      qed
    qed
  qed
qed

end
