(* ===== verification/Bignum_Conv.thy ===== *)
theory Bignum_Conv
  imports Bignum_Mul
begin

text \<open>
  The conversions of \<open>microcode/bignum.c\<close> between machine integers and bignums
  (\<open>long_to_bignum\<close>, \<open>ulong_to_bignum\<close>, \<open>bignum_to_long\<close>, \<open>bignum_to_ulong\<close>) and the test
  \<open>bignum_fits_in_word_p\<close> that guards them. The conversion to a machine word is exact
  modulo \<open>2 ^ 64\<close>. The test is exact for unsigned words and for nonnegative bignums; on
  negative bignums with as many digits as the word it looks at the leading digit only.
\<close>

section \<open>From machine integers\<close>

definition BIGNUM_POSITIVE_P :: "bignum \<Rightarrow> bool" where
  "BIGNUM_POSITIVE_P b = (bignum_test b = bignum_comparison_greater)"

definition bignum_from_digits :: "long list \<Rightarrow> bool \<Rightarrow> bignum option" where
  "bignum_from_digits digits negative_p =
     map_option (\<lambda>r. r\<lparr>bignum_digits := digits\<rparr>) (bignum_allocate (length digits) negative_p)"

text \<open>The \<open>do\<close> loop that splits an accumulator into digits.\<close>

function split_digits :: "ulong \<Rightarrow> long list" where
  "split_digits accumulator =
     (let digit = accumulator AND BIGNUM_DIGIT_MASK;
          rest = drop_bit BIGNUM_DIGIT_LENGTH accumulator
      in if rest \<noteq> 0 then digit # split_digits rest else [digit])"
  by pat_completeness auto

lemma drop_digit_less:
  assumes "drop_bit 62 a \<noteq> (0 :: ulong)"
  shows "unat (drop_bit 62 a) < unat a"
proof -
  have "uint (drop_bit 62 a) < uint a"
    using uint_pos [OF assms] by (simp add: uint_drop_bit64)
  then show ?thesis by (simp only: word_less_nat_alt [symmetric] word_less_def)
qed

termination split_digits
  by (relation "measure unat") (simp_all add: drop_digit_less)

declare split_digits.simps [simp del]

definition long_to_bignum :: "long \<Rightarrow> bignum option" where
  "long_to_bignum n =
     (if n = 0 then Some bignum_make_zero
      else if n = 1 then Some (bignum_make_one False)
      else if n = - 1 then Some (bignum_make_one True)
      else let negative_p = long_less n 0;
               accumulator = (if negative_p then - n else n)
           in bignum_from_digits (split_digits accumulator) negative_p)"

definition ulong_to_bignum :: "ulong \<Rightarrow> bignum option" where
  "ulong_to_bignum n =
     (if n = 0 then Some bignum_make_zero
      else if n = 1 then Some (bignum_make_one False)
      else bignum_from_digits (split_digits n) False)"

section \<open>To machine integers\<close>

text \<open>The scan from the most significant digit down.\<close>

primrec join_digits :: "long list \<Rightarrow> nat \<Rightarrow> ulong \<Rightarrow> ulong" where
  "join_digits ds 0 accumulator = accumulator"
| "join_digits ds (Suc n) accumulator =
     join_digits ds n (push_bit BIGNUM_DIGIT_LENGTH accumulator + ds ! n)"

definition bignum_to_long :: "bignum \<Rightarrow> long" where
  "bignum_to_long b =
     (if BIGNUM_ZERO_P b then 0
      else let accumulator = join_digits (bignum_digits b) (BIGNUM_LENGTH b) 0
           in if BIGNUM_NEGATIVE_P b then - accumulator else accumulator)"

definition bignum_to_ulong :: "bignum \<Rightarrow> ulong option" where
  "bignum_to_ulong b =
     (if BIGNUM_ZERO_P b then Some 0
      else if \<not> BIGNUM_POSITIVE_P b then None
      else Some (join_digits (bignum_digits b) (BIGNUM_LENGTH b) 0))"

text \<open>
  \<open>n_bits\<close> and \<open>max_digits\<close> are variables of type \<open>unsigned int\<close>, and the length is cast to
  that type for the comparison.
\<close>

definition bignum_fits_in_word_p :: "bignum \<Rightarrow> long \<Rightarrow> bool \<Rightarrow> bool option" where
  "bignum_fits_in_word_p b word_length twos_complement_p =
     (if \<not> twos_complement_p \<and> BIGNUM_NEGATIVE_P b then Some False
      else let n_bits = (if twos_complement_p then ucast (word_length - 1) else ucast word_length) :: 32 word
           in if n_bits = 0 then None
              else let len = BIGNUM_LENGTH b;
                       max_digits = ucast (BIGNUM_BITS_TO_DIGITS (ucast n_bits)) :: 32 word
                   in if (word_of_nat len :: 32 word) < max_digits then Some True
                      else if (word_of_nat len :: 32 word) > max_digits then Some False
                      else let msd = BIGNUM_REF b (len - 1);
                               max = push_bit (unat (ucast n_bits - (word_of_nat len - 1) * 62 :: ulong)) 1
                           in Some (long_less msd max
                                \<or> twos_complement_p \<and> msd = max \<and> BIGNUM_NEGATIVE_P b))"

section \<open>Correctness of the conversions\<close>

lemma BIGNUM_POSITIVE_P_iff: "bignum_wf b \<Longrightarrow> BIGNUM_POSITIVE_P b \<longleftrightarrow> 0 < bignum_int b"
  by (auto simp: BIGNUM_POSITIVE_P_def bignum_test_correct int_compare_def)

lemma bignum_from_digits_eq:
  "length ds \<le> BIGNUM_LENGTH_MAX \<Longrightarrow> bignum_from_digits ds neg = Some (mk_bignum neg ds)"
  by (simp add: bignum_from_digits_def bignum_allocate_eq)

lemma split_digits_props:
  "digits_ok (split_digits a) \<and> digits_int (split_digits a) = uint a \<and> split_digits a \<noteq> []
   \<and> length (split_digits a) \<le> 2 \<and> (a \<noteq> 0 \<longrightarrow> last (split_digits a) \<noteq> 0)"
proof -
  have low: "uint (a AND BIGNUM_DIGIT_MASK) = uint a mod 2 ^ 62" by (simp add: BIGNUM_DIGIT_MASK_eq uint_and_mask64)
  have "uint (drop_bit 62 a) \<le> 3"
    using uint_bounds64(2) [of a] int_div_less [of "2 ^ 62" "uint a" 4] by (simp add: uint_drop_bit64)
  then have "drop_bit 62 (drop_bit 62 a) = 0" "drop_bit 62 a AND BIGNUM_DIGIT_MASK = drop_bit 62 a"
    using uint_bounds64(1) [of "drop_bit 62 a"]
    by (simp_all add: word_uint_eq_iff uint_drop_bit64 [of 62 "drop_bit 62 a"] BIGNUM_DIGIT_MASK_eq uint_and_mask64
        del: drop_bit_drop_bit)
  then have s: "split_digits a = (a AND BIGNUM_DIGIT_MASK) # (if drop_bit 62 a = 0 then [] else [drop_bit 62 a])"
    by (subst split_digits.simps, subst split_digits.simps) (simp add: Let_def)
  have hi: "uint a = uint a mod 2 ^ 62 + 2 ^ 62 * uint (drop_bit 62 a)" unfolding uint_drop_bit64 by (simp only: mod_mult_div_eq)
  show ?thesis
  proof (cases "drop_bit 62 a = 0")
    case True
    then have "uint a mod 2 ^ 62 = uint a" using hi by simp
    then show ?thesis using True low by (auto simp: s word_uint_eq_iff)
  next
    case False
    then show ?thesis using hi low \<open>uint (drop_bit 62 a) \<le> 3\<close> by (simp add: s)
  qed
qed

lemma yields_split_digits:
  assumes "a \<noteq> 0"
  shows "yields (bignum_from_digits (split_digits a) neg) (if neg then - uint a else uint a)"
proof -
  note p = split_digits_props [of a]
  have "length (split_digits a) \<le> BIGNUM_LENGTH_MAX" using p by (simp add: BIGNUM_LENGTH_MAX_eq)
  then show ?thesis
    using p assms by (simp only: bignum_from_digits_eq) (rule yields_mk, auto simp: digits_normal_def)
qed

theorem long_to_bignum_correct: "yields (long_to_bignum n) (sint n)"
proof -
  consider "n = 0" | "n = 1" | "n = - 1" | "n \<noteq> 0" "n \<noteq> 1" "n \<noteq> - 1" by blast
  then show ?thesis
  proof cases
    case 4
    have "uint (if long_less n 0 then - n else n) = \<bar>sint n\<bar>" "long_less n 0 \<longleftrightarrow> sint n < 0"
      using uint_word_ariths(4) [of n] uint_bounds64 [of n] 4(1) uint_pos [OF 4(1)]
      by (auto simp: long_less_0_iff sint_cases64 zmod_zminus1_eq_if)
    moreover have "(if long_less n 0 then - n else n) \<noteq> 0" using 4(1) by simp
    ultimately show ?thesis
      using yields_split_digits [of "if long_less n 0 then - n else n" "long_less n 0"] 4
      by (cases "sint n < 0") (simp_all add: long_to_bignum_def Let_def)
  qed (simp_all add: long_to_bignum_def)
qed

theorem ulong_to_bignum_correct: "yields (ulong_to_bignum n) (uint n)"
  using yields_split_digits [of n False] by (auto simp: ulong_to_bignum_def)

lemma join_digits_correct:
  "n \<le> length ds \<Longrightarrow> join_digits ds n a = word_of_int (digits_int (take n ds) + (2 ^ 62) ^ n * uint a)"
proof (induction n arbitrary: a)
  case 0
  then show ?case by simp
next
  case (Suc n)
  have "(word_of_int ((2 ^ 62) ^ n * uint (push_bit 62 a + ds ! n)) :: ulong) =
      word_of_int ((2 ^ 62) ^ n) * (push_bit 62 a + ds ! n)"
    by (metis wi_hom_mult word_of_int_uint)
  also have "\<dots> = word_of_int ((2 ^ 62) ^ n * uint (ds ! n) + (2 ^ 62) ^ Suc n * uint a)"
    by (simp add: push_bit_eq_mult algebra_simps)
  finally show ?case
    using Suc by (simp add: take_Suc_conv_app_nth algebra_simps)
qed

lemma join_all_digits:
  assumes "bignum_wf b"
  shows "join_digits (bignum_digits b) (BIGNUM_LENGTH b) 0 = word_of_int \<bar>bignum_int b\<bar>"
  using join_digits_correct [of "BIGNUM_LENGTH b" "bignum_digits b" 0] bignum_wf_simps(1,9) [OF assms] by simp

theorem bignum_to_long_correct:
  assumes "bignum_wf b"
  shows "bignum_to_long b = word_of_int (bignum_int b)"
  by (simp add: bignum_to_long_def Let_def join_all_digits [OF assms] bignum_wf_simps(6,8) [OF assms])

theorem bignum_to_ulong_correct:
  assumes "bignum_wf b"
  shows "bignum_to_ulong b = (if bignum_int b < 0 then None else Some (word_of_int (bignum_int b)))"
  by (simp add: bignum_to_ulong_def join_all_digits [OF assms] bignum_wf_simps(6) [OF assms] BIGNUM_POSITIVE_P_iff [OF assms])

section \<open>The word size test\<close>

text \<open>
  The integers for which the test with \<open>n\<close> magnitude bits answers yes. On the negative side
  of a two's complement word it accepts every magnitude whose leading digit is at most
  that of \<open>2 ^ n\<close>, provided \<open>2 ^ n\<close> has as many digits as an \<open>n\<close>-bit number.
\<close>

definition fits_spec :: "nat \<Rightarrow> bool \<Rightarrow> int \<Rightarrow> bool" where
  "fits_spec n twos x =
     (if x < 0 then twos \<and> - x < 2 ^ n + (if 62 dvd n then 0 else 2 ^ (62 * ((n - 1) div 62))) else x < 2 ^ n)"

lemma leading_digit_compare:
  fixes lo a b :: int
  assumes "0 \<le> lo" "lo < W"
  shows "lo + W * a < W * b \<longleftrightarrow> a < b" "lo + W * a < W * b + W \<longleftrightarrow> a \<le> b"
proof -
  show lt: "lo + W * a < W * b \<longleftrightarrow> a < b" for b
  proof
    assume "a < b"
    then have "W * (a + 1) \<le> W * b" using assms by (intro mult_left_mono) simp_all
    then show "lo + W * a < W * b" using assms by (simp add: algebra_simps)
  next
    assume "lo + W * a < W * b"
    then have "W * a < W * b" using assms by linarith
    moreover have "0 < W" using assms by linarith
    ultimately show "a < b" by (simp only: mult_less_cancel_left_pos)
  qed
  show "lo + W * a < W * b + W \<longleftrightarrow> a \<le> b" using lt [of "b + 1"] by (simp only: distrib_left mult_1_right zle_add1_eq_le)
qed

lemma fits_word_digits:
  assumes "digits_normal ds" "0 < n"
  defines "m \<equiv> (n + 61) div 62"
  shows "length ds < m \<Longrightarrow> digits_int ds < 2 ^ n"
    "m < length ds \<Longrightarrow> 2 ^ n \<le> digits_int ds \<and> (\<not> 62 dvd n \<longrightarrow> 2 ^ n + 2 ^ (62 * (m - 1)) \<le> digits_int ds)"
    "length ds = m \<Longrightarrow> digits_int ds < 2 ^ n \<longleftrightarrow> uint (last ds) < 2 ^ (n - 62 * (m - 1))"
    "length ds = m \<Longrightarrow> digits_int ds < 2 ^ n + 2 ^ (62 * (m - 1)) \<longleftrightarrow> uint (last ds) \<le> 2 ^ (n - 62 * (m - 1))"
proof -
  have ok: "digits_ok ds" using assms(1) by (simp add: digits_normal_def)
  have m: "1 \<le> m" "62 * (m - 1) < n" "n \<le> 62 * m" using assms(2) unfolding m_def by linarith+
  have lt: "digits_int ds < 2 ^ (62 * length ds)" using digits_int_less [OF ok] by (simp add: power_mult)
  show "digits_int ds < 2 ^ n" if "length ds < m"
  proof -
    have "62 * length ds \<le> n" using that m by linarith
    then have "(2 :: int) ^ (62 * length ds) \<le> 2 ^ n" by (intro power_increasing) simp_all
    with lt show ?thesis by linarith
  qed
  show "2 ^ n \<le> digits_int ds \<and> (\<not> 62 dvd n \<longrightarrow> 2 ^ n + 2 ^ (62 * (m - 1)) \<le> digits_int ds)" if "m < length ds"
  proof -
    have ge: "(2 :: int) ^ (62 * (length ds - 1)) \<le> digits_int ds"
      using digits_normal_lower [OF assms(1)] that by (force simp: power_mult)
    have "n \<le> 62 * (length ds - 1)" using that m by linarith
    then have a: "(2 :: int) ^ n \<le> 2 ^ (62 * (length ds - 1))" by (intro power_increasing) simp_all
    have "2 ^ n + 2 ^ (62 * (m - 1)) \<le> (2 :: int) ^ (62 * (length ds - 1))" if "\<not> 62 dvd n"
    proof -
      have "n \<noteq> 62 * m" using that by auto
      then have "Suc n \<le> 62 * (length ds - 1)" using \<open>m < length ds\<close> m by linarith
      then have "(2 :: int) ^ Suc n \<le> 2 ^ (62 * (length ds - 1))" by (intro power_increasing) simp_all
      moreover have "(2 :: int) ^ (62 * (m - 1)) \<le> 2 ^ n" using m by (intro power_increasing) simp_all
      ultimately show ?thesis unfolding power_Suc by linarith
    qed
    with ge a show ?thesis by (blast intro: order_trans)
  qed
  assume l: "length ds = m"
  then have "ds \<noteq> []" using m(1) by auto
  note d = digits_last [OF ok this]
  have W: "(2 ^ 62 :: int) ^ (length ds - 1) = 2 ^ (62 * (m - 1))" unfolding l by (simp add: power_mult)
  have e: "(2 :: int) ^ n = 2 ^ (62 * (m - 1)) * 2 ^ (n - 62 * (m - 1))" using m(2) by (simp flip: power_add)
  show "digits_int ds < 2 ^ n \<longleftrightarrow> uint (last ds) < 2 ^ (n - 62 * (m - 1))"
    "digits_int ds < 2 ^ n + 2 ^ (62 * (m - 1)) \<longleftrightarrow> uint (last ds) \<le> 2 ^ (n - 62 * (m - 1))"
    unfolding d(1) W e by (rule leading_digit_compare; use d(2) W in simp)+
qed

lemma digits_for_bits:
  assumes "0 < n" "n < 2 ^ 31"
  shows "unat (ucast (BIGNUM_BITS_TO_DIGITS (ucast (word_of_nat n :: 32 word))) :: 32 word) = (n + 61) div 62"
proof -
  have u: "unat (ucast (word_of_nat n :: 32 word) :: ulong) = n"
    using assms(2) by (simp add: unsigned_ucast_eq take_bit_nat_eq_self unat_of_nat)
  have "unat (ucast (word_of_nat n :: 32 word) + 61 :: ulong) = n + 61"
    using assms(2) u by (subst unat_add_lem [THEN iffD1]) simp_all
  then have d: "unat (BIGNUM_BITS_TO_DIGITS (ucast (word_of_nat n :: 32 word))) = (n + 61) div 62"
    by (simp add: BIGNUM_BITS_TO_DIGITS_def unat_div)
  then show ?thesis using assms(2) by (simp add: unsigned_ucast_eq take_bit_nat_eq_self)
qed

theorem bignum_fits_in_word_p_correct:
  fixes n :: nat and twos :: bool
  defines "w \<equiv> word_of_nat (if twos then n + 1 else n)"
  assumes "bignum_wf b" "BIGNUM_LENGTH b < 2 ^ 32" "0 < n" "n < 2 ^ 31"
  shows "bignum_fits_in_word_p b w twos = Some (fits_spec n twos (bignum_int b))"
proof -
  let ?ds = "bignum_digits b" and ?m = "(n + 61) div 62"
  note wb = bignum_wf_simps [OF assms(2)]
  have nb: "(if twos then ucast (w - 1) else ucast w) = (word_of_nat n :: 32 word)"
    using assms(5) by (simp add: w_def word_unat_eq_iff unsigned_ucast_eq take_bit_nat_eq_self unat_of_nat)
  have nz: "(word_of_nat n :: 32 word) \<noteq> 0" using assms(4,5) by (simp add: word_unat_eq_iff unat_of_nat)
  have lw: "unat (word_of_nat (length ?ds) :: 32 word) = length ?ds" using assms(3) wb(1) by (simp add: unat_of_nat)
  note md = digits_for_bits [OF assms(4,5)]
  have cmp: "(word_of_nat (length ?ds) :: 32 word) < ucast (BIGNUM_BITS_TO_DIGITS (ucast (word_of_nat n :: 32 word))) \<longleftrightarrow> length ?ds < ?m"
    "ucast (BIGNUM_BITS_TO_DIGITS (ucast (word_of_nat n :: 32 word))) < (word_of_nat (length ?ds) :: 32 word) \<longleftrightarrow> ?m < length ?ds"
    by (simp_all add: word_less_nat_alt md lw)
  show ?thesis
  proof (cases "\<not> twos \<and> BIGNUM_NEGATIVE_P b")
    case True
    then show ?thesis by (simp add: bignum_fits_in_word_p_def fits_spec_def wb(8))
  next
    case sg: False
    note f = fits_word_digits [OF wb(4) assms(4), unfolded wb(9)]
    have "(n - Suc 0) div 62 = ?m - Suc 0" using assms(4) by linarith
    note step = bignum_fits_in_word_p_def [of b w twos] nb nz wb(1) cmp fits_spec_def this
    consider "length ?ds < ?m" | "?m < length ?ds" | "length ?ds = ?m" by linarith
    then show ?thesis
    proof cases
      case 1
      have "x < 2 ^ n + 2 ^ k" if "x < 2 ^ n" for x :: int and k :: nat
        using that zero_less_power [of "2 :: int" k] by linarith
      then show ?thesis using 1 f(1) sg by (auto simp: step wb(8))
    next
      case 2
      then show ?thesis using f(2) sg by (auto simp: step wb(8))
    next
      case 3
      let ?k = "n - 62 * (?m - 1)"
      have k: "?k \<le> 62" "62 * (?m - 1) < n" "1 \<le> ?m" using assms(4) by linarith+
      have "ucast (word_of_nat n :: 32 word) = (word_of_nat n :: ulong)"
        using assms(5) by (simp add: word_unat_eq_iff unsigned_ucast_eq take_bit_nat_eq_self unat_of_nat)
      then have "ucast (word_of_nat n :: 32 word) - (word_of_nat (length ?ds) - 1) * 62 = (word_of_nat ?k :: ulong)"
        using k(2,3) 3 by simp
      then have sh: "unat (ucast (word_of_nat n :: 32 word) - (word_of_nat (length ?ds) - 1) * 62 :: ulong) = ?k"
        using k(1) by (simp only:) (simp add: unat_of_nat take_bit_nat_eq_self del: of_nat_diff)
      have ne: "?ds \<noteq> []" using 3 k(3) by auto
      have msd: "BIGNUM_REF b (length ?ds - 1) = last ?ds" using ne by (simp add: BIGNUM_REF_def last_conv_nth)
      have l62: "uint (last ?ds) < 2 ^ 62" using wb(3) ne by (metis digits_ok_nth last_conv_nth diff_less length_greater_0_conv zero_less_one)
      have mx: "(2 :: int) ^ ?k \<le> 2 ^ 62" using k(1) by (intro power_increasing) simp_all
      have max: "uint (push_bit ?k 1 :: long) = 2 ^ ?k" using uint_push_bit_exact [of 1 ?k] mx by simp
      have lt: "long_less (last ?ds) (push_bit ?k 1) \<longleftrightarrow> uint (last ?ds) < 2 ^ ?k"
        using l62 mx max by (subst long_less_uint) simp_all
      have eq: "last ?ds = push_bit ?k 1 \<longleftrightarrow> uint (last ?ds) = 2 ^ ?k" by (simp only: word_uint_eq_iff max)
      have full: "?k = 62" if "62 dvd n" using that assms(4) by (elim dvdE) simp
      have "bignum_fits_in_word_p b w twos =
          Some (uint (last ?ds) < 2 ^ ?k \<or> twos \<and> uint (last ?ds) = 2 ^ ?k \<and> bignum_int b < 0)"
        unfolding bignum_fits_in_word_p_def Let_def nb wb(1) cmp sh msd lt eq
        using sg nz 3 by (auto simp: wb(8))
      moreover have "fits_spec n twos x = (if x < 0 then twos \<and> (u < K \<or> u = K) else u < K)"
        if "\<bar>x\<bar> < 2 ^ n \<longleftrightarrow> u < K" "\<bar>x\<bar> < 2 ^ n + 2 ^ (62 * ((n - 1) div 62)) \<longleftrightarrow> u \<le> K" "62 dvd n \<longrightarrow> u \<noteq> K"
        for x u K :: int
        using that by (cases "x < 0") (auto simp: fits_spec_def)
      note this [of "bignum_int b" "uint (last ?ds)" "2 ^ ?k"]
      moreover have "62 dvd n \<longrightarrow> uint (last ?ds) \<noteq> 2 ^ ?k" using full l62 by auto
      ultimately show ?thesis using f(3,4) [OF 3] sg \<open>(n - Suc 0) div 62 = ?m - Suc 0\<close> wb(8)
        by (simp only: One_nat_def) auto
    qed
  qed
qed

corollary bignum_fits_in_long:
  assumes "bignum_wf b" "BIGNUM_LENGTH b < 2 ^ 32"
  shows "bignum_fits_in_word_p b 64 True = Some (- (3 * 2 ^ 62) < bignum_int b \<and> bignum_int b < 2 ^ 63)"
    "bignum_fits_in_word_p b 64 False = Some (0 \<le> bignum_int b \<and> bignum_int b < 2 ^ 64)"
  using bignum_fits_in_word_p_correct [OF assms, of 63 True] bignum_fits_in_word_p_correct [OF assms, of 64 False]
  by (auto simp: fits_spec_def)

end
