(* ===== verification/Bignum_Bitwise.thy ===== *)
theory Bignum_Bitwise
  imports Bignum_Add Bignum_Conv Machine_Bits
begin

text \<open>
  The bitwise operations of \<open>microcode/bignum.c\<close>. Bignums are stored as sign and magnitude
  and the operations are specified on the two's complement representation: an operand
  that is negative is complemented first, and the operation to apply to the magnitudes is
  read off a table, the parameters of the macro \<open>DEFINE_BITWISE\<close>. The macro
  \<open>DEFINE_BITWISE_UNSIGNED\<close> generates the operations on magnitudes. Every one of the ten
  operations is shown to compute the corresponding operation on unbounded integers.
\<close>

section \<open>Operations on magnitudes\<close>

definition bignum_bitwise_not :: "bignum \<Rightarrow> bignum option" where
  "bignum_bitwise_not b = bignum_subtract (bignum_make_one True) b"

definition BITWISE_AND :: "long \<Rightarrow> long \<Rightarrow> long" where "BITWISE_AND x y = x AND y"
definition BITWISE_ANDC2 :: "long \<Rightarrow> long \<Rightarrow> long" where "BITWISE_ANDC2 x y = x AND NOT y"
definition BITWISE_ANDC1 :: "long \<Rightarrow> long \<Rightarrow> long" where "BITWISE_ANDC1 x y = y AND NOT x"
definition BITWISE_XOR :: "long \<Rightarrow> long \<Rightarrow> long" where "BITWISE_XOR x y = x XOR y"
definition BITWISE_IOR :: "long \<Rightarrow> long \<Rightarrow> long" where "BITWISE_IOR x y = x OR y"

text \<open>The two loops of the generated function, and its body after the operands are ordered.\<close>

fun bitwise_scan :: "(long \<Rightarrow> long \<Rightarrow> long) \<Rightarrow> long list \<Rightarrow> long list \<Rightarrow> long list" where
  "bitwise_scan f (x # xs) (y # ys) = f x y # bitwise_scan f xs ys"
| "bitwise_scan f (x # xs) [] = f x 0 # bitwise_scan f xs []"
| "bitwise_scan f [] ys = []"

definition DEFINE_BITWISE_UNSIGNED ::
  "(long \<Rightarrow> long \<Rightarrow> long) \<Rightarrow> (bignum \<Rightarrow> bignum option) \<Rightarrow> bignum \<Rightarrow> bignum \<Rightarrow> bignum option" where
  "DEFINE_BITWISE_UNSIGNED f postop x y =
     do {
       r \<leftarrow> bignum_allocate (BIGNUM_LENGTH x) False;
       if BIGNUM_LENGTH x \<ge> BIGNUM_LENGTH y
       then postop (bignum_trim (r\<lparr>bignum_digits := bitwise_scan f (bignum_digits x) (bignum_digits y)\<rparr>))
       else None
     }"

text \<open>The \<open>SWAP\<close> variant of the macro; the other variant calls the operation with the roles exchanged.\<close>

definition bitwise_unsigned_swap ::
  "(long \<Rightarrow> long \<Rightarrow> long) \<Rightarrow> (bignum \<Rightarrow> bignum option) \<Rightarrow> bignum \<Rightarrow> bignum \<Rightarrow> bignum option" where
  "bitwise_unsigned_swap f postop x y =
     (if BIGNUM_LENGTH x < BIGNUM_LENGTH y then DEFINE_BITWISE_UNSIGNED f postop y x
      else DEFINE_BITWISE_UNSIGNED f postop x y)"

definition bignum_bitwise_and_unsigned :: "bignum \<Rightarrow> bignum \<Rightarrow> bignum option" where
  "bignum_bitwise_and_unsigned = bitwise_unsigned_swap BITWISE_AND Some"

function bignum_bitwise_andc2_unsigned :: "bignum \<Rightarrow> bignum \<Rightarrow> bignum option"
  and bignum_bitwise_andc1_unsigned :: "bignum \<Rightarrow> bignum \<Rightarrow> bignum option" where
  "bignum_bitwise_andc2_unsigned x y =
     (if BIGNUM_LENGTH x < BIGNUM_LENGTH y then bignum_bitwise_andc1_unsigned y x
      else DEFINE_BITWISE_UNSIGNED BITWISE_ANDC2 Some x y)"
| "bignum_bitwise_andc1_unsigned x y =
     (if BIGNUM_LENGTH x < BIGNUM_LENGTH y then bignum_bitwise_andc2_unsigned y x
      else DEFINE_BITWISE_UNSIGNED BITWISE_ANDC1 Some x y)"
  by pat_completeness auto

termination
  by (relation "measure (case_sum (\<lambda>(x, y). if BIGNUM_LENGTH x < BIGNUM_LENGTH y then 1 else 0)
       (\<lambda>(x, y). if BIGNUM_LENGTH x < BIGNUM_LENGTH y then 1 else 0))") simp_all

declare bignum_bitwise_andc2_unsigned.simps [simp del] bignum_bitwise_andc1_unsigned.simps [simp del]

definition bignum_bitwise_xor_unsigned :: "bignum \<Rightarrow> bignum \<Rightarrow> bignum option" where
  "bignum_bitwise_xor_unsigned = bitwise_unsigned_swap BITWISE_XOR Some"

definition bignum_bitwise_ior_unsigned :: "bignum \<Rightarrow> bignum \<Rightarrow> bignum option" where
  "bignum_bitwise_ior_unsigned = bitwise_unsigned_swap BITWISE_IOR Some"

definition bignum_bitwise_nor_unsigned :: "bignum \<Rightarrow> bignum \<Rightarrow> bignum option" where
  "bignum_bitwise_nor_unsigned = bitwise_unsigned_swap BITWISE_IOR bignum_bitwise_not"

definition bignum_bitwise_eqv_unsigned :: "bignum \<Rightarrow> bignum \<Rightarrow> bignum option" where
  "bignum_bitwise_eqv_unsigned = bitwise_unsigned_swap BITWISE_XOR bignum_bitwise_not"

definition bignum_bitwise_nand_unsigned :: "bignum \<Rightarrow> bignum \<Rightarrow> bignum option" where
  "bignum_bitwise_nand_unsigned = bitwise_unsigned_swap BITWISE_AND bignum_bitwise_not"

section \<open>Signed operations\<close>

text \<open>
  The generated signed function: the results when one operand is zero (as functions of the
  other one) and the operations on magnitudes for the four combinations of signs.
\<close>

definition DEFINE_BITWISE ::
  "(bignum \<Rightarrow> bignum option) \<Rightarrow> (bignum \<Rightarrow> bignum option) \<Rightarrow> (bignum \<Rightarrow> bignum \<Rightarrow> bignum option) \<Rightarrow>
   (bignum \<Rightarrow> bignum \<Rightarrow> bignum option) \<Rightarrow> (bignum \<Rightarrow> bignum \<Rightarrow> bignum option) \<Rightarrow>
   (bignum \<Rightarrow> bignum \<Rightarrow> bignum option) \<Rightarrow> bignum \<Rightarrow> bignum \<Rightarrow> bignum option" where
  "DEFINE_BITWISE X0 Y0 PP PN NP NN x y =
     (if BIGNUM_ZERO_P x then Y0 y
      else if BIGNUM_ZERO_P y then X0 x
      else if BIGNUM_POSITIVE_P x
      then (if BIGNUM_POSITIVE_P y then PP x y
            else do { y' \<leftarrow> bignum_bitwise_not y; PN x y' })
      else (if BIGNUM_POSITIVE_P y then do { x' \<leftarrow> bignum_bitwise_not x; NP x' y }
            else do { x' \<leftarrow> bignum_bitwise_not x; y' \<leftarrow> bignum_bitwise_not y; NN x' y' }))"

abbreviation zero_result :: "bignum \<Rightarrow> bignum option" where "zero_result b \<equiv> Some bignum_make_zero"
abbreviation minus_one_result :: "bignum \<Rightarrow> bignum option" where "minus_one_result b \<equiv> Some (bignum_make_one True)"

definition bignum_bitwise_and :: "bignum \<Rightarrow> bignum \<Rightarrow> bignum option" where
  "bignum_bitwise_and = DEFINE_BITWISE zero_result zero_result bignum_bitwise_and_unsigned
     bignum_bitwise_andc2_unsigned bignum_bitwise_andc1_unsigned bignum_bitwise_nor_unsigned"

definition bignum_bitwise_andc2 :: "bignum \<Rightarrow> bignum \<Rightarrow> bignum option" where
  "bignum_bitwise_andc2 = DEFINE_BITWISE Some zero_result bignum_bitwise_andc2_unsigned
     bignum_bitwise_and_unsigned bignum_bitwise_nor_unsigned bignum_bitwise_andc1_unsigned"

definition bignum_bitwise_andc1 :: "bignum \<Rightarrow> bignum \<Rightarrow> bignum option" where
  "bignum_bitwise_andc1 = DEFINE_BITWISE zero_result Some bignum_bitwise_andc1_unsigned
     bignum_bitwise_nor_unsigned bignum_bitwise_and_unsigned bignum_bitwise_andc2_unsigned"

definition bignum_bitwise_orc2_unsigned :: "bignum \<Rightarrow> bignum \<Rightarrow> bignum option" where
  "bignum_bitwise_orc2_unsigned x y = do { z \<leftarrow> bignum_bitwise_andc1 x y; bignum_bitwise_not z }"

definition bignum_bitwise_orc1_unsigned :: "bignum \<Rightarrow> bignum \<Rightarrow> bignum option" where
  "bignum_bitwise_orc1_unsigned x y = do { z \<leftarrow> bignum_bitwise_andc2 x y; bignum_bitwise_not z }"

definition bignum_bitwise_xor :: "bignum \<Rightarrow> bignum \<Rightarrow> bignum option" where
  "bignum_bitwise_xor = DEFINE_BITWISE Some Some bignum_bitwise_xor_unsigned
     bignum_bitwise_eqv_unsigned bignum_bitwise_eqv_unsigned bignum_bitwise_xor_unsigned"

definition bignum_bitwise_ior :: "bignum \<Rightarrow> bignum \<Rightarrow> bignum option" where
  "bignum_bitwise_ior = DEFINE_BITWISE Some Some bignum_bitwise_ior_unsigned
     bignum_bitwise_orc2_unsigned bignum_bitwise_orc1_unsigned bignum_bitwise_nand_unsigned"

definition bignum_bitwise_nor :: "bignum \<Rightarrow> bignum \<Rightarrow> bignum option" where
  "bignum_bitwise_nor = DEFINE_BITWISE bignum_bitwise_not bignum_bitwise_not bignum_bitwise_nor_unsigned
     bignum_bitwise_andc1_unsigned bignum_bitwise_andc2_unsigned bignum_bitwise_and_unsigned"

definition bignum_bitwise_eqv :: "bignum \<Rightarrow> bignum \<Rightarrow> bignum option" where
  "bignum_bitwise_eqv = DEFINE_BITWISE bignum_bitwise_not bignum_bitwise_not bignum_bitwise_eqv_unsigned
     bignum_bitwise_xor_unsigned bignum_bitwise_xor_unsigned bignum_bitwise_eqv_unsigned"

definition bignum_bitwise_orc2 :: "bignum \<Rightarrow> bignum \<Rightarrow> bignum option" where
  "bignum_bitwise_orc2 = DEFINE_BITWISE minus_one_result bignum_bitwise_not bignum_bitwise_orc2_unsigned
     bignum_bitwise_ior_unsigned bignum_bitwise_nand_unsigned bignum_bitwise_orc1_unsigned"

definition bignum_bitwise_orc1 :: "bignum \<Rightarrow> bignum \<Rightarrow> bignum option" where
  "bignum_bitwise_orc1 = DEFINE_BITWISE bignum_bitwise_not minus_one_result bignum_bitwise_orc1_unsigned
     bignum_bitwise_nand_unsigned bignum_bitwise_ior_unsigned bignum_bitwise_orc2_unsigned"

definition bignum_bitwise_nand :: "bignum \<Rightarrow> bignum \<Rightarrow> bignum option" where
  "bignum_bitwise_nand = DEFINE_BITWISE minus_one_result minus_one_result bignum_bitwise_nand_unsigned
     bignum_bitwise_orc1_unsigned bignum_bitwise_orc2_unsigned bignum_bitwise_ior_unsigned"

section \<open>Lengths and the complement\<close>

abbreviation short_bignum :: "bignum \<Rightarrow> bool" where
  "short_bignum b \<equiv> bignum_wf b \<and> BIGNUM_LENGTH b < BIGNUM_LENGTH_MAX"

lemma length_mono:
  assumes "bignum_wf x" "bignum_wf y" "\<bar>bignum_int x\<bar> \<le> \<bar>bignum_int y\<bar>"
  shows "BIGNUM_LENGTH x \<le> BIGNUM_LENGTH y"
  using digits_less_by_length [of "bignum_digits y" "bignum_digits x"] bignum_wf_simps [OF assms(1)]
    bignum_wf_simps [OF assms(2)] assms(3) by (cases "BIGNUM_LENGTH x \<le> BIGNUM_LENGTH y") auto

lemma bignum_bitwise_not_correct:
  assumes "short_bignum b"
  shows "yields (bignum_bitwise_not b) (NOT (bignum_int b))"
proof -
  have "BIGNUM_LENGTH (bignum_make_one True) < BIGNUM_LENGTH_MAX" by (simp add: bignum_make_eq BIGNUM_LENGTH_MAX_eq)
  moreover have "NOT (bignum_int b) = - 1 - bignum_int b" by (simp add: not_int_def)
  ultimately show ?thesis
    using bignum_subtract_correct [of "bignum_make_one True" b] assms by (simp add: bignum_bitwise_not_def)
qed

text \<open>The complement of a negative bignum is not longer than it.\<close>

lemma complement_negative:
  assumes "short_bignum b" "bignum_int b < 0"
  obtains b' where "bignum_bitwise_not b = Some b'" "short_bignum b'" "0 \<le> bignum_int b'"
    "bignum_int b = NOT (bignum_int b')"
proof -
  obtain b' where b': "bignum_bitwise_not b = Some b'" "bignum_wf b'" "bignum_int b' = NOT (bignum_int b)"
    using bignum_bitwise_not_correct [OF assms(1)] by (auto simp: yields_def split: option.splits)
  then have "BIGNUM_LENGTH b' \<le> BIGNUM_LENGTH b"
    using assms by (intro length_mono) (simp_all add: not_int_def)
  then show ?thesis using b' assms by (intro that [of b']) (simp_all add: not_int_def)
qed

section \<open>Digit by digit\<close>

text \<open>
  An operation on digits and one on integers that are the same function of the bits at every
  position, a function that keeps the zeros above both operands.
\<close>

locale digit_operation =
  fixes f :: "long \<Rightarrow> long \<Rightarrow> long" and g :: "int \<Rightarrow> int \<Rightarrow> int" and h :: "bool \<Rightarrow> bool \<Rightarrow> bool"
  assumes word_bits: "i < 64 \<Longrightarrow> bit (f a b) i \<longleftrightarrow> h (bit a i) (bit b i)"
    and int_bits: "bit (g k l) i \<longleftrightarrow> h (bit k i) (bit l i)"
    and keeps_zero: "\<not> h False False"
begin

lemma uint_op: "uint (f a b) = g (uint a) (uint b)"
proof (rule bit_eqI)
  fix i
  show "bit (uint (f a b)) i \<longleftrightarrow> bit (g (uint a) (uint b)) i"
    by (cases "i < 64") (simp_all add: bit_uint_iff int_bits word_bits keeps_zero)
qed

lemma op_range:
  assumes "uint a < 2 ^ 62" "uint b < 2 ^ 62"
  shows "uint (f a b) < 2 ^ 62"
proof -
  have t: "take_bit 62 (uint a) = uint a" "take_bit 62 (uint b) = uint b" using assms by (simp_all add: take_bit_int_eq_self)
  have "take_bit 62 (uint (f a b)) = uint (f a b)"
    unfolding uint_op by (rule bit_eqI) (metis bit_take_bit_iff int_bits keeps_zero t)
  then show ?thesis by (metis take_bit_int_less_exp)
qed

lemma op_step:
  assumes "uint a < 2 ^ 62" "uint b < 2 ^ 62"
  shows "g (uint a + 2 ^ 62 * v) (uint b + 2 ^ 62 * w) = uint (f a b) + 2 ^ 62 * g v w"
  using assms op_range [OF assms]
  by (intro bit_eqI) (simp only: int_bits bit_digit_add uint_bounds64(1), simp add: int_bits uint_op)

lemma op_zero: "g 0 0 = 0"
  by (rule bit_eqI) (simp add: int_bits keeps_zero)

lemma scan_correct:
  assumes "digits_ok xs" "digits_ok ys" "length ys \<le> length xs"
  shows "digits_ok (bitwise_scan f xs ys) \<and> length (bitwise_scan f xs ys) = length xs
    \<and> digits_int (bitwise_scan f xs ys) = g (digits_int xs) (digits_int ys)"
  using assms
proof (induction xs arbitrary: ys)
  case Nil
  then show ?case by (simp add: op_zero)
next
  case (Cons x xs)
  have z: "uint (0 :: long) < 2 ^ 62" by simp
  show ?case
  proof (cases ys)
    case Nil
    then show ?thesis
      using Cons.IH [of "[]"] Cons.prems op_range [of x 0] op_step [of x 0 "digits_int xs" 0] by simp
  next
    case (Cons y zs)
    then show ?thesis
      using Cons.IH [of zs] Cons.prems op_range [of x y] op_step [of x y "digits_int xs" "digits_int zs"] by simp
  qed
qed

lemma unsigned_correct:
  assumes "bignum_wf x" "bignum_wf y" "BIGNUM_LENGTH y \<le> BIGNUM_LENGTH x"
    and post: "\<And>r. bignum_wf r \<Longrightarrow> BIGNUM_LENGTH r \<le> BIGNUM_LENGTH x \<Longrightarrow>
      bignum_int r = g \<bar>bignum_int x\<bar> \<bar>bignum_int y\<bar> \<Longrightarrow> yields (postop r) k"
  shows "yields (DEFINE_BITWISE_UNSIGNED f postop x y) k"
proof -
  note wx = bignum_wf_simps [OF assms(1)] and wy = bignum_wf_simps [OF assms(2)]
  define zs where "zs = bitwise_scan f (bignum_digits x) (bignum_digits y)"
  have zs: "digits_ok zs" "length zs = length (bignum_digits x)" "digits_int zs = g \<bar>bignum_int x\<bar> \<bar>bignum_int y\<bar>"
    using scan_correct [OF wx(3) wy(3)] assms(3) wx wy unfolding zs_def by simp_all
  let ?r = "bignum_trim (mk_bignum False zs)"
  have "yields (Some ?r) (digits_int zs)" using zs wx(2) by (intro yields_trim) auto
  then have r: "bignum_wf ?r" "bignum_int ?r = g \<bar>bignum_int x\<bar> \<bar>bignum_int y\<bar>" by (simp_all add: zs(3))
  have l: "length zs < 2 ^ 62" using LENGTH_MAX_small [OF wx(2)] zs(2) by simp
  then have "BIGNUM_LENGTH ?r \<le> BIGNUM_LENGTH x"
    using trimmed_props(3) [of zs] zs(2) wx(1) by (simp add: bignum_trim_eq)
  moreover have "DEFINE_BITWISE_UNSIGNED f postop x y = postop ?r"
    using assms(3) wx(1,2) zs(2) by (simp add: DEFINE_BITWISE_UNSIGNED_def bignum_allocate_eq flip: zs_def)
  ultimately show ?thesis using post [OF r(1) _ r(2)] by simp
qed

end

interpretation op_and: digit_operation BITWISE_AND "(AND)" "(\<and>)"
  by unfold_locales (simp_all add: BITWISE_AND_def bit_simps)

interpretation op_andc2: digit_operation BITWISE_ANDC2 "\<lambda>k l. k AND NOT l" "\<lambda>p q. p \<and> \<not> q"
  by unfold_locales (simp_all add: BITWISE_ANDC2_def bit_simps)

interpretation op_andc1: digit_operation BITWISE_ANDC1 "\<lambda>k l. l AND NOT k" "\<lambda>p q. q \<and> \<not> p"
  by unfold_locales (simp_all add: BITWISE_ANDC1_def bit_simps)

interpretation op_xor: digit_operation BITWISE_XOR "(XOR)" "\<lambda>p q. p \<noteq> q"
  by unfold_locales (simp_all add: BITWISE_XOR_def bit_simps)

interpretation op_ior: digit_operation BITWISE_IOR "(OR)" "(\<or>)"
  by unfold_locales (simp_all add: BITWISE_IOR_def bit_simps)

section \<open>The operations on magnitudes\<close>

text \<open>What an entry of the table promises on nonnegative operands.\<close>

definition computes :: "(bignum \<Rightarrow> bignum \<Rightarrow> bignum option) \<Rightarrow> (int \<Rightarrow> int \<Rightarrow> int) \<Rightarrow> bool" where
  "computes u g \<longleftrightarrow> (\<forall>x y. short_bignum x \<and> short_bignum y \<and> 0 \<le> bignum_int x \<and> 0 \<le> bignum_int y
     \<longrightarrow> yields (u x y) (g (bignum_int x) (bignum_int y)))"

lemma computes_swap:
  assumes "digit_operation f g h" "\<And>k l. g k l = g l k"
  shows "computes (bitwise_unsigned_swap f Some) g"
    "computes (bitwise_unsigned_swap f bignum_bitwise_not) (\<lambda>k l. NOT (g k l))"
proof -
  have "yields (bitwise_unsigned_swap f Some x y) (g (bignum_int x) (bignum_int y))"
    "yields (bitwise_unsigned_swap f bignum_bitwise_not x y) (NOT (g (bignum_int x) (bignum_int y)))"
    if xy: "short_bignum x" "short_bignum y" "0 \<le> bignum_int x" "0 \<le> bignum_int y" for x y
  proof -
    note u = digit_operation.unsigned_correct [OF assms(1)]
    have neg: "yields (bignum_bitwise_not r) (NOT v)"
      if "bignum_wf r" "BIGNUM_LENGTH r \<le> BIGNUM_LENGTH z" "short_bignum z" "bignum_int r = v" for r z v
      using bignum_bitwise_not_correct [of r] that by simp
    show "yields (bitwise_unsigned_swap f Some x y) (g (bignum_int x) (bignum_int y))"
      using u [of x y Some] u [of y x Some] xy assms(2) [of "bignum_int x"] by (simp add: bitwise_unsigned_swap_def)
    show "yields (bitwise_unsigned_swap f bignum_bitwise_not x y) (NOT (g (bignum_int x) (bignum_int y)))"
      using u [of x y bignum_bitwise_not] u [of y x bignum_bitwise_not] xy assms(2) [of "bignum_int x"] neg
      by (simp add: bitwise_unsigned_swap_def)
  qed
  then show "computes (bitwise_unsigned_swap f Some) g"
    "computes (bitwise_unsigned_swap f bignum_bitwise_not) (\<lambda>k l. NOT (g k l))"
    by (simp_all add: computes_def)
qed

lemma computes_andc:
  "computes bignum_bitwise_andc2_unsigned (\<lambda>k l. k AND NOT l)"
  "computes bignum_bitwise_andc1_unsigned (\<lambda>k l. l AND NOT k)"
proof -
  have "yields (bignum_bitwise_andc2_unsigned x y) (bignum_int x AND NOT (bignum_int y))"
    "yields (bignum_bitwise_andc1_unsigned x y) (bignum_int y AND NOT (bignum_int x))"
    if "bignum_wf x" "bignum_wf y" "0 \<le> bignum_int x" "0 \<le> bignum_int y" for x y
    using op_andc2.unsigned_correct [of x y Some] op_andc1.unsigned_correct [of x y Some]
      op_andc2.unsigned_correct [of y x Some] op_andc1.unsigned_correct [of y x Some] that
    by (simp_all add: bignum_bitwise_andc2_unsigned.simps bignum_bitwise_andc1_unsigned.simps)
  then show "computes bignum_bitwise_andc2_unsigned (\<lambda>k l. k AND NOT l)"
    "computes bignum_bitwise_andc1_unsigned (\<lambda>k l. l AND NOT k)"
    by (simp_all add: computes_def)
qed

lemmas computes_and = computes_swap [OF op_and.digit_operation_axioms and.commute]
lemmas computes_xor = computes_swap [OF op_xor.digit_operation_axioms xor.commute]
lemmas computes_ior = computes_swap [OF op_ior.digit_operation_axioms or.commute]

lemmas computes_unsigned =
  computes_and [folded bignum_bitwise_and_unsigned_def bignum_bitwise_nand_unsigned_def]
  computes_xor [folded bignum_bitwise_xor_unsigned_def bignum_bitwise_eqv_unsigned_def]
  computes_ior [folded bignum_bitwise_ior_unsigned_def bignum_bitwise_nor_unsigned_def]
  computes_andc

section \<open>The signed operations\<close>

text \<open>
  A table of operations on magnitudes is right for an operation \<open>g\<close> on integers when each
  entry computes \<open>g\<close> with the complements of the negative operands undone.
\<close>

locale bitwise_table =
  fixes X0 Y0 :: "bignum \<Rightarrow> bignum option" and PP PN NP NN :: "bignum \<Rightarrow> bignum \<Rightarrow> bignum option"
    and g :: "int \<Rightarrow> int \<Rightarrow> int"
  assumes X0: "short_bignum x \<Longrightarrow> yields (X0 x) (g (bignum_int x) 0)"
    and Y0: "short_bignum y \<Longrightarrow> yields (Y0 y) (g 0 (bignum_int y))"
    and PP: "computes PP g"
    and PN: "computes PN (\<lambda>k l. g k (NOT l))"
    and NP: "computes NP (\<lambda>k l. g (NOT k) l)"
    and NN: "computes NN (\<lambda>k l. g (NOT k) (NOT l))"
begin

lemma signed_correct:
  assumes "short_bignum x" "short_bignum y"
  shows "yields (DEFINE_BITWISE X0 Y0 PP PN NP NN x y) (g (bignum_int x) (bignum_int y))"
proof -
  let ?r = "DEFINE_BITWISE X0 Y0 PP PN NP NN x y"
  have z: "BIGNUM_ZERO_P x \<longleftrightarrow> bignum_int x = 0" "BIGNUM_ZERO_P y \<longleftrightarrow> bignum_int y = 0"
    "BIGNUM_POSITIVE_P x \<longleftrightarrow> 0 < bignum_int x" "BIGNUM_POSITIVE_P y \<longleftrightarrow> 0 < bignum_int y"
    using assms by (simp_all add: bignum_wf_simps(6) BIGNUM_POSITIVE_P_iff)
  note step = DEFINE_BITWISE_def [of X0 Y0 PP PN NP NN x y] z
  consider "bignum_int x = 0" | "bignum_int x \<noteq> 0" "bignum_int y = 0" | "0 < bignum_int x" "0 < bignum_int y"
    | "0 < bignum_int x" "bignum_int y < 0" | "bignum_int x < 0" "0 < bignum_int y" | "bignum_int x < 0" "bignum_int y < 0"
    by linarith
  then show ?thesis
  proof cases
    case 1
    then show ?thesis using Y0 [OF assms(2)] by (simp add: step)
  next
    case 2
    then show ?thesis using X0 [OF assms(1)] by (simp add: step)
  next
    case 3
    then show ?thesis using PP assms by (simp add: step computes_def)
  next
    case 4
    obtain y' where y: "bignum_bitwise_not y = Some y'" "short_bignum y'" "0 \<le> bignum_int y'" "bignum_int y = NOT (bignum_int y')"
      using complement_negative [OF assms(2) 4(2)] .
    have "?r = PN x y'" using 4 y(1) by (simp add: step)
    then show ?thesis unfolding y(4) using PN assms(1) 4(1) y(2,3) by (simp add: computes_def)
  next
    case 5
    obtain x' where x: "bignum_bitwise_not x = Some x'" "short_bignum x'" "0 \<le> bignum_int x'" "bignum_int x = NOT (bignum_int x')"
      using complement_negative [OF assms(1) 5(1)] .
    have "?r = NP x' y" using 5 x(1) by (simp add: step)
    then show ?thesis unfolding x(4) using NP assms(2) 5(2) x(2,3) by (simp add: computes_def)
  next
    case 6
    obtain x' where x: "bignum_bitwise_not x = Some x'" "short_bignum x'" "0 \<le> bignum_int x'" "bignum_int x = NOT (bignum_int x')"
      using complement_negative [OF assms(1) 6(1)] .
    obtain y' where y: "bignum_bitwise_not y = Some y'" "short_bignum y'" "0 \<le> bignum_int y'" "bignum_int y = NOT (bignum_int y')"
      using complement_negative [OF assms(2) 6(2)] .
    have "?r = NN x' y'" using 6 x(1) y(1) by (simp add: step)
    then show ?thesis unfolding x(4) y(4) using NN x(2,3) y(2,3) by (simp add: computes_def)
  qed
qed

end

text \<open>It is enough that every entry agrees with the operation on every bit.\<close>

lemma computes_bits: "computes u g \<Longrightarrow> (\<And>k l i. bit (g k l) i \<longleftrightarrow> bit (g' k l) i) \<Longrightarrow> computes u g'"
  using bit_eqI [of "g _ _" "g' _ _"] by (simp add: computes_def)

lemma bitwise_tableI:
  assumes "computes PP pp" "computes PN pn" "computes NP np" "computes NN nn"
    and "\<And>k l i. bit (pp k l) i \<longleftrightarrow> bit (g k l) i" "\<And>k l i. bit (pn k l) i \<longleftrightarrow> bit (g k (NOT l)) i"
      "\<And>k l i. bit (np k l) i \<longleftrightarrow> bit (g (NOT k) l) i" "\<And>k l i. bit (nn k l) i \<longleftrightarrow> bit (g (NOT k) (NOT l)) i"
    and "\<And>x. short_bignum x \<Longrightarrow> yields (X0 x) (g (bignum_int x) 0)"
      "\<And>y. short_bignum y \<Longrightarrow> yields (Y0 y) (g 0 (bignum_int y))"
  shows "bitwise_table X0 Y0 PP PN NP NN g"
  using assms by unfold_locales (blast intro: computes_bits)+

interpretation bw_and: bitwise_table zero_result zero_result bignum_bitwise_and_unsigned
  bignum_bitwise_andc2_unsigned bignum_bitwise_andc1_unsigned bignum_bitwise_nor_unsigned "(AND)"
  by (rule bitwise_tableI) (rule computes_unsigned | auto simp: bit_simps)+

interpretation bw_andc2: bitwise_table Some zero_result bignum_bitwise_andc2_unsigned
  bignum_bitwise_and_unsigned bignum_bitwise_nor_unsigned bignum_bitwise_andc1_unsigned "\<lambda>k l. k AND NOT l"
  by (rule bitwise_tableI) (rule computes_unsigned | auto simp: bit_simps)+

interpretation bw_andc1: bitwise_table zero_result Some bignum_bitwise_andc1_unsigned
  bignum_bitwise_nor_unsigned bignum_bitwise_and_unsigned bignum_bitwise_andc2_unsigned "\<lambda>k l. NOT k AND l"
  by (rule bitwise_tableI) (rule computes_unsigned | auto simp: bit_simps)+

lemma and_not_le: "0 \<le> k \<Longrightarrow> 0 \<le> l \<Longrightarrow> 0 \<le> k AND NOT l \<and> k AND NOT l \<le> (k :: int)"
  by simp

lemma complement_of_masked:
  assumes "short_bignum x" "0 \<le> bignum_int x" "0 \<le> l" "yields z (bignum_int x AND NOT l)"
  shows "yields (do { w \<leftarrow> z; bignum_bitwise_not w }) (NOT (bignum_int x AND NOT l))"
proof -
  obtain w where w: "z = Some w" "bignum_wf w" "bignum_int w = bignum_int x AND NOT l"
    using assms(4) by (cases z) auto
  then have "BIGNUM_LENGTH w \<le> BIGNUM_LENGTH x"
    using and_not_le [OF assms(2,3)] assms(1,2) by (intro length_mono) simp_all
  then show ?thesis using bignum_bitwise_not_correct [of w] w assms(1) by simp
qed

lemma computes_orc:
  "computes bignum_bitwise_orc2_unsigned (\<lambda>k l. NOT (l AND NOT k))"
  "computes bignum_bitwise_orc1_unsigned (\<lambda>k l. NOT (k AND NOT l))"
  unfolding computes_def bignum_bitwise_orc2_unsigned_def bignum_bitwise_orc1_unsigned_def
    bignum_bitwise_andc1_def bignum_bitwise_andc2_def
  using bw_andc1.signed_correct [unfolded and.commute [of "NOT _"]] bw_andc2.signed_correct
  by (blast intro: complement_of_masked)+

lemmas computes_all = computes_unsigned computes_orc

interpretation bw_xor: bitwise_table Some Some bignum_bitwise_xor_unsigned
  bignum_bitwise_eqv_unsigned bignum_bitwise_eqv_unsigned bignum_bitwise_xor_unsigned "(XOR)"
  by (rule bitwise_tableI) (rule computes_all | auto simp: bit_simps)+

interpretation bw_ior: bitwise_table Some Some bignum_bitwise_ior_unsigned
  bignum_bitwise_orc2_unsigned bignum_bitwise_orc1_unsigned bignum_bitwise_nand_unsigned "(OR)"
  by (rule bitwise_tableI) (rule computes_all | auto simp: bit_simps)+

interpretation bw_nor: bitwise_table bignum_bitwise_not bignum_bitwise_not bignum_bitwise_nor_unsigned
  bignum_bitwise_andc1_unsigned bignum_bitwise_andc2_unsigned bignum_bitwise_and_unsigned "\<lambda>k l. NOT (k OR l)"
  by (rule bitwise_tableI) (rule computes_all | auto simp: bit_simps bignum_bitwise_not_correct)+

interpretation bw_eqv: bitwise_table bignum_bitwise_not bignum_bitwise_not bignum_bitwise_eqv_unsigned
  bignum_bitwise_xor_unsigned bignum_bitwise_xor_unsigned bignum_bitwise_eqv_unsigned "\<lambda>k l. NOT (k XOR l)"
  by (rule bitwise_tableI) (rule computes_all | auto simp: bit_simps bignum_bitwise_not_correct)+

interpretation bw_orc2: bitwise_table minus_one_result bignum_bitwise_not bignum_bitwise_orc2_unsigned
  bignum_bitwise_ior_unsigned bignum_bitwise_nand_unsigned bignum_bitwise_orc1_unsigned "\<lambda>k l. k OR NOT l"
  by (rule bitwise_tableI) (rule computes_all | auto simp: bit_simps bignum_bitwise_not_correct)+

interpretation bw_orc1: bitwise_table bignum_bitwise_not minus_one_result bignum_bitwise_orc1_unsigned
  bignum_bitwise_nand_unsigned bignum_bitwise_ior_unsigned bignum_bitwise_orc2_unsigned "\<lambda>k l. NOT k OR l"
  by (rule bitwise_tableI) (rule computes_all | auto simp: bit_simps bignum_bitwise_not_correct)+

interpretation bw_nand: bitwise_table minus_one_result minus_one_result bignum_bitwise_nand_unsigned
  bignum_bitwise_orc1_unsigned bignum_bitwise_orc2_unsigned bignum_bitwise_ior_unsigned "\<lambda>k l. NOT (k AND l)"
  by (rule bitwise_tableI) (rule computes_all | auto simp: bit_simps)+

theorem bignum_bitwise_correct:
  assumes "short_bignum x" "short_bignum y"
  shows "yields (bignum_bitwise_and x y) (bignum_int x AND bignum_int y)"
    "yields (bignum_bitwise_andc2 x y) (bignum_int x AND NOT (bignum_int y))"
    "yields (bignum_bitwise_andc1 x y) (NOT (bignum_int x) AND bignum_int y)"
    "yields (bignum_bitwise_xor x y) (bignum_int x XOR bignum_int y)"
    "yields (bignum_bitwise_ior x y) (bignum_int x OR bignum_int y)"
    "yields (bignum_bitwise_nor x y) (NOT (bignum_int x OR bignum_int y))"
    "yields (bignum_bitwise_eqv x y) (NOT (bignum_int x XOR bignum_int y))"
    "yields (bignum_bitwise_orc2 x y) (bignum_int x OR NOT (bignum_int y))"
    "yields (bignum_bitwise_orc1 x y) (NOT (bignum_int x) OR bignum_int y)"
    "yields (bignum_bitwise_nand x y) (NOT (bignum_int x AND bignum_int y))"
  unfolding bignum_bitwise_and_def bignum_bitwise_andc2_def bignum_bitwise_andc1_def bignum_bitwise_xor_def
    bignum_bitwise_ior_def bignum_bitwise_nor_def bignum_bitwise_eqv_def bignum_bitwise_orc2_def
    bignum_bitwise_orc1_def bignum_bitwise_nand_def
  using assms by (rule bw_and.signed_correct bw_andc2.signed_correct bw_andc1.signed_correct bw_xor.signed_correct
    bw_ior.signed_correct bw_nor.signed_correct bw_eqv.signed_correct bw_orc2.signed_correct
    bw_orc1.signed_correct bw_nand.signed_correct)+

end
