(* ===== verification/Bignum_Bits.thy ===== *)
theory Bignum_Bits
  imports Bignum_Bitwise
begin

text \<open>
  The bit-level queries of \<open>microcode/bignum.c\<close>: \<open>bignum_length_in_bits\<close>,
  \<open>bignum_integer_length\<close>, \<open>bignum_first_set_bit\<close>, \<open>bignum_bit_count\<close> and
  \<open>bignum_hamming_distance\<close>. They are specified on unbounded two's complement integers, with
  \<^const>\<open>popcount\<close> the number of one bits of a nonnegative integer.
\<close>

section \<open>Lengths\<close>

definition bignum_length_in_bits :: "bignum \<Rightarrow> ulong" where
  "bignum_length_in_bits b =
     (if BIGNUM_ZERO_P b then 0
      else let index = BIGNUM_LENGTH b - 1
           in word_of_nat (ulong_length_in_bits (BIGNUM_REF b index)) + 62 * word_of_nat index)"

definition bignum_integer_length :: "bignum \<Rightarrow> ulong" where
  "bignum_integer_length b =
     (let length_in_bits = bignum_length_in_bits b
      in if BIGNUM_ZERO_P b \<or> BIGNUM_POSITIVE_P b then length_in_bits
         else let last_index = BIGNUM_LENGTH b - 1;
                  end_digit = BIGNUM_REF b last_index
              in if list_ex (\<lambda>d. d \<noteq> 0) (take last_index (bignum_digits b)) then length_in_bits
                 else length_in_bits - (if end_digit AND (end_digit - 1) = 0 then 1 else 0))"

text \<open>The scan for the first nonzero digit, which keeps the position.\<close>

fun nonzero_scan :: "long list \<Rightarrow> nat \<Rightarrow> (long \<times> nat) option" where
  "nonzero_scan [] i = None"
| "nonzero_scan (d # ds) i = (if d \<noteq> 0 then Some (d, i) else nonzero_scan ds (Suc i))"

definition bignum_first_set_bit :: "bignum \<Rightarrow> long option" where
  "bignum_first_set_bit b =
     (if BIGNUM_ZERO_P b then Some (- 1)
      else do {
        (d, i) \<leftarrow> nonzero_scan (bignum_digits b) 0;
        Some (word_of_nat (ulong_bit_count (long_shr (d XOR (d - 1)) 1)) + word_of_nat i * 62)
      })"

section \<open>Counts\<close>

fun digits_bit_count :: "long list \<Rightarrow> ulong \<Rightarrow> ulong" where
  "digits_bit_count [] bit_count = bit_count"
| "digits_bit_count (d # ds) bit_count = digits_bit_count ds (bit_count + word_of_nat (ulong_bit_count d))"

fun digits_hamming_distance :: "long list \<Rightarrow> long list \<Rightarrow> ulong \<Rightarrow> ulong \<times> long list" where
  "digits_hamming_distance (x # xs) (y # ys) distance =
     digits_hamming_distance xs ys (distance + word_of_nat (ulong_bit_count (x XOR y)))"
| "digits_hamming_distance xs ys distance = (distance, xs)"

definition bignum_positive_hamming_distance :: "bignum \<Rightarrow> bignum \<Rightarrow> ulong option" where
  "bignum_positive_hamming_distance x y =
     (if BIGNUM_ZERO_P x \<or> BIGNUM_ZERO_P y \<or> \<not> BIGNUM_POSITIVE_P x \<or> \<not> BIGNUM_POSITIVE_P y then None
      else let (x, y) = (if BIGNUM_LENGTH x < BIGNUM_LENGTH y then (y, x) else (x, y));
               (distance, x_rest) = digits_hamming_distance (bignum_digits x) (bignum_digits y) 0
           in Some (distance + digits_bit_count x_rest 0))"

definition bignum_bit_count_unsigned :: "bignum \<Rightarrow> ulong" where
  "bignum_bit_count_unsigned x = digits_bit_count (bignum_digits x) 0"

definition bignum_negative_hamming_distance :: "bignum \<Rightarrow> bignum \<Rightarrow> ulong option" where
  "bignum_negative_hamming_distance x y =
     do {
       x \<leftarrow> bignum_bitwise_not x;
       y \<leftarrow> bignum_bitwise_not y;
       if BIGNUM_ZERO_P x then Some (bignum_bit_count_unsigned y)
       else if BIGNUM_ZERO_P y then Some (bignum_bit_count_unsigned x)
       else bignum_positive_hamming_distance x y
     }"

definition bignum_bit_count :: "bignum \<Rightarrow> ulong option" where
  "bignum_bit_count x =
     (if BIGNUM_ZERO_P x then Some 0
      else if BIGNUM_NEGATIVE_P x then map_option bignum_bit_count_unsigned (bignum_bitwise_not x)
      else Some (bignum_bit_count_unsigned x))"

text \<open>The code compares the two object pointers first; \<open>same\<close> is the outcome.\<close>

definition bignum_hamming_distance :: "bool \<Rightarrow> bignum \<Rightarrow> bignum \<Rightarrow> long option" where
  "bignum_hamming_distance same x y =
     (if same then Some 0
      else if BIGNUM_ZERO_P x then Some (if BIGNUM_NEGATIVE_P y then - 1 else bignum_bit_count_unsigned y)
      else if BIGNUM_ZERO_P y then Some (if BIGNUM_NEGATIVE_P x then - 1 else bignum_bit_count_unsigned x)
      else if BIGNUM_POSITIVE_P x
      then (if BIGNUM_POSITIVE_P y then bignum_positive_hamming_distance x y else Some (- 1))
      else (if BIGNUM_POSITIVE_P y then Some (- 1) else bignum_negative_hamming_distance x y))"

section \<open>Correctness of the counts\<close>

lemma digits_bit_count_acc: "digits_bit_count ds c = c + digits_bit_count ds 0"
proof (induction ds arbitrary: c)
  case (Cons d ds)
  show ?case using Cons [of "c + word_of_nat (ulong_bit_count d)"] Cons [of "word_of_nat (ulong_bit_count d)"]
    by (simp add: add.assoc)
qed simp

lemma digits_bit_count_correct:
  "digits_ok ds \<Longrightarrow> digits_bit_count ds 0 = word_of_nat (popcount (digits_int ds))"
proof (induction ds)
  case (Cons d ds)
  have "popcount (uint d + 2 ^ 62 * digits_int ds) = popcount (uint d) + popcount (digits_int ds)"
    using Cons.prems by (intro popcount_digit_add) simp_all
  then show ?case
    using Cons digits_bit_count_acc [of ds "word_of_nat (ulong_bit_count d)"] by (simp add: ulong_bit_count_correct)
qed simp

lemma xor_scan_Nil: "bitwise_scan BITWISE_XOR xs [] = xs"
  by (induction xs) (simp_all add: BITWISE_XOR_def)

lemma digits_hamming_distance_scan:
  "length ys \<le> length xs \<Longrightarrow> digits_hamming_distance xs ys c = (d, rest) \<Longrightarrow>
   d + digits_bit_count rest 0 = c + digits_bit_count (bitwise_scan BITWISE_XOR xs ys) 0"
proof (induction xs ys c rule: digits_hamming_distance.induct)
  case (1 x xs y ys c)
  then show ?case
    using digits_bit_count_acc [of "bitwise_scan BITWISE_XOR xs ys" "word_of_nat (ulong_bit_count (x XOR y))"]
    by (simp add: BITWISE_XOR_def [of x y] add.assoc)
qed (auto simp: xor_scan_Nil)

lemma digits_hamming_distance_correct:
  assumes "digits_ok xs" "digits_ok ys" "length ys \<le> length xs" "digits_hamming_distance xs ys 0 = (d, rest)"
  shows "d + digits_bit_count rest 0 = word_of_nat (popcount (digits_int xs XOR digits_int ys))"
  using digits_hamming_distance_scan [OF assms(3,4)] op_xor.scan_correct [OF assms(1-3)] digits_bit_count_correct
  by simp

lemma bignum_bit_count_unsigned_correct:
  "bignum_wf x \<Longrightarrow> bignum_bit_count_unsigned x = word_of_nat (popcount \<bar>bignum_int x\<bar>)"
  using bignum_wf_simps [of x] digits_bit_count_correct [of "bignum_digits x"] by (simp add: bignum_bit_count_unsigned_def)

theorem bignum_bit_count_correct:
  assumes "short_bignum x"
  shows "bignum_bit_count x =
    Some (word_of_nat (popcount (if bignum_int x < 0 then NOT (bignum_int x) else bignum_int x)))"
proof (cases "bignum_int x < 0")
  case True
  obtain x' where "bignum_bitwise_not x = Some x'" "short_bignum x'" "0 \<le> bignum_int x'" "bignum_int x = NOT (bignum_int x')"
    using complement_negative [OF assms True] .
  moreover have "\<not> BIGNUM_ZERO_P x" "BIGNUM_NEGATIVE_P x" using True assms bignum_wf_simps(6,8) [of x] by auto
  ultimately show ?thesis
    using True assms bignum_bit_count_unsigned_correct [of x'] by (simp add: bignum_bit_count_def)
next
  case False
  then show ?thesis
    using bignum_wf_simps(6,8) [of x] assms bignum_bit_count_unsigned_correct [of x] by (simp add: bignum_bit_count_def)
qed

lemma bignum_positive_hamming_distance_correct:
  assumes "bignum_wf x" "bignum_wf y" "0 < bignum_int x" "0 < bignum_int y"
  shows "bignum_positive_hamming_distance x y = Some (word_of_nat (popcount (bignum_int x XOR bignum_int y)))"
proof -
  note wx = bignum_wf_simps [OF assms(1)] and wy = bignum_wf_simps [OF assms(2)]
  have "(case digits_hamming_distance (bignum_digits v) (bignum_digits w) 0 of (d, rest) \<Rightarrow> d + digits_bit_count rest 0)
      = word_of_nat (popcount (bignum_int v XOR bignum_int w))"
    if "bignum_wf v" "bignum_wf w" "0 < bignum_int v" "0 < bignum_int w" "BIGNUM_LENGTH w \<le> BIGNUM_LENGTH v" for v w
    using digits_hamming_distance_correct [of "bignum_digits v" "bignum_digits w"] that
      bignum_wf_simps(1,3,9) [OF that(1)] bignum_wf_simps(1,3,9) [OF that(2)] by (auto split: prod.split)
  from this [of x y] this [of y x] show ?thesis
    using assms wx(6) wy(6) BIGNUM_POSITIVE_P_iff
    by (auto simp: bignum_positive_hamming_distance_def Let_def xor.commute split: prod.splits)
qed

lemma xor_complements: "NOT k XOR NOT l = k XOR (l :: int)"
  by (rule bit_eqI) (auto simp: bit_simps)

lemma bignum_negative_hamming_distance_correct:
  assumes "short_bignum x" "short_bignum y" "bignum_int x < 0" "bignum_int y < 0"
  shows "bignum_negative_hamming_distance x y = Some (word_of_nat (popcount (bignum_int x XOR bignum_int y)))"
proof -
  obtain x' where x: "bignum_bitwise_not x = Some x'" "short_bignum x'" "0 \<le> bignum_int x'" "bignum_int x = NOT (bignum_int x')"
    using complement_negative [OF assms(1,3)] .
  obtain y' where y: "bignum_bitwise_not y = Some y'" "short_bignum y'" "0 \<le> bignum_int y'" "bignum_int y = NOT (bignum_int y')"
    using complement_negative [OF assms(2,4)] .
  have "BIGNUM_ZERO_P x' \<longleftrightarrow> bignum_int x' = 0" "BIGNUM_ZERO_P y' \<longleftrightarrow> bignum_int y' = 0"
    using x(2) y(2) bignum_wf_simps(6) by blast+
  then show ?thesis
    using x y bignum_positive_hamming_distance_correct [of x' y'] bignum_bit_count_unsigned_correct [of x']
      bignum_bit_count_unsigned_correct [of y']
    unfolding x(4) y(4) xor_complements by (auto simp: bignum_negative_hamming_distance_def)
qed

theorem bignum_hamming_distance_correct:
  assumes "short_bignum x" "short_bignum y" "same \<Longrightarrow> x = y"
  shows "bignum_hamming_distance same x y =
    Some (if (bignum_int x < 0) = (bignum_int y < 0) then word_of_nat (popcount (bignum_int x XOR bignum_int y)) else - 1)"
proof -
  have "BIGNUM_ZERO_P x \<longleftrightarrow> bignum_int x = 0" "BIGNUM_ZERO_P y \<longleftrightarrow> bignum_int y = 0"
    "BIGNUM_NEGATIVE_P x \<longleftrightarrow> bignum_int x < 0" "BIGNUM_NEGATIVE_P y \<longleftrightarrow> bignum_int y < 0"
    "BIGNUM_POSITIVE_P x \<longleftrightarrow> 0 < bignum_int x" "BIGNUM_POSITIVE_P y \<longleftrightarrow> 0 < bignum_int y"
    using assms bignum_wf_simps(6,8) BIGNUM_POSITIVE_P_iff by blast+
  note step = bignum_hamming_distance_def [of same x y] this
  show ?thesis
    using assms bignum_bit_count_unsigned_correct [of x] bignum_bit_count_unsigned_correct [of y]
      bignum_positive_hamming_distance_correct [of x y] bignum_negative_hamming_distance_correct [of x y]
    unfolding step by (cases "bignum_int x" "0 :: int" rule: linorder_cases;
        cases "bignum_int y" "0 :: int" rule: linorder_cases) auto
qed

section \<open>Correctness of the lengths\<close>

text \<open>The position of the highest set bit, and the first nonzero digit.\<close>

lemma length_in_bits_bounds:
  assumes "bignum_wf b" "bignum_int b \<noteq> 0"
  defines "L \<equiv> unat (bignum_length_in_bits b)"
  shows "2 ^ (L - 1) \<le> \<bar>bignum_int b\<bar> \<and> \<bar>bignum_int b\<bar> < 2 ^ L \<and> 0 < L \<and> L \<le> 62 * BIGNUM_LENGTH b
    \<and> L = ulong_length_in_bits (BIGNUM_REF b (BIGNUM_LENGTH b - 1)) + 62 * (BIGNUM_LENGTH b - 1)"
proof -
  let ?ds = "bignum_digits b" and ?i = "BIGNUM_LENGTH b - 1"
  note w = bignum_wf_simps [OF assms(1)]
  have ne: "?ds \<noteq> []" using assms(2) w(5,6) by simp
  define t where "t = last ?ds"
  define k where "k = ulong_length_in_bits t"
  have ref: "BIGNUM_REF b ?i = t" using ne w(1) by (simp add: BIGNUM_REF_def t_def last_conv_nth)
  have t: "t \<noteq> 0" "uint t < 2 ^ 62"
    using w(3,4) ne by (simp_all add: digits_normal_def t_def digits_ok_def list_all_iff)
  note kb = ulong_length_in_bits_bounds [OF t(1), folded k_def]
  have "(2 :: int) ^ (k - 1) < 2 ^ 62" using kb(1) t(2) by linarith
  then have k: "k - 1 < 62" using power_less_imp_less_exp [of "2 :: int" "k - 1" 62] by simp
  have e: "bignum_length_in_bits b = word_of_nat (k + 62 * ?i)"
    using assms(2) w(6) ref by (simp add: bignum_length_in_bits_def Let_def k_def)
  have "k + 62 * ?i < 2 ^ 64" using k w(1,2) by (simp add: BIGNUM_LENGTH_MAX_eq)
  then have L: "L = k + 62 * ?i" unfolding L_def e by (rule unat_of_nat64)
  note d = digits_last [OF w(3) ne, folded t_def]
  have W: "(2 ^ 62 :: int) ^ (length ?ds - 1) = 2 ^ (62 * ?i)" using w(1) by (simp add: power_mult)
  have "2 ^ (L - 1) = 2 ^ (62 * ?i) * (2 :: int) ^ (k - 1)" using kb(3) by (simp add: L flip: power_add)
  also have "\<dots> \<le> 2 ^ (62 * ?i) * uint t" using kb(1) by (intro mult_left_mono) simp_all
  also have "\<dots> \<le> \<bar>bignum_int b\<bar>" using d(1) w(9) unfolding W by simp
  finally have lo: "2 ^ (L - 1) \<le> \<bar>bignum_int b\<bar>" .
  have "\<bar>bignum_int b\<bar> < 2 ^ (62 * ?i) * (2 :: int) ^ k"
    using leading_digit_compare(1) [of "digits_int (butlast ?ds)" "2 ^ (62 * ?i)" "uint t" "2 ^ k"] d(1,2) w(9) kb(2)
    unfolding W by simp
  then have hi: "\<bar>bignum_int b\<bar> < 2 ^ L" by (simp add: L power_add mult.commute)
  have "0 < BIGNUM_LENGTH b" using ne w(1) by simp
  then show ?thesis using lo hi kb(3) k L ref by (auto simp: k_def [symmetric])
qed

theorem bignum_length_in_bits_correct:
  assumes "bignum_wf b"
  shows "bignum_int b = 0 \<Longrightarrow> bignum_length_in_bits b = 0"
    "bignum_int b \<noteq> 0 \<Longrightarrow> 2 ^ (unat (bignum_length_in_bits b) - 1) \<le> \<bar>bignum_int b\<bar>
      \<and> \<bar>bignum_int b\<bar> < 2 ^ unat (bignum_length_in_bits b)"
  using length_in_bits_bounds [OF assms] bignum_wf_simps(6) [OF assms] by (simp add: bignum_length_in_bits_def, blast)

lemma list_ex_nonzero: "list_ex (\<lambda>d. d \<noteq> 0) ds \<longleftrightarrow> digits_int ds \<noteq> 0"
proof (induction ds)
  case (Cons d ds)
  have "digits_int (d # ds) = 0 \<longleftrightarrow> uint d = 0 \<and> digits_int ds = 0"
    using uint_bounds64(1) [of d] digits_int_nonneg [of ds] by (simp add: add_nonneg_eq_0_iff)
  then show ?case using Cons by (simp add: uint_0_iff)
qed simp

text \<open>
  The length of the two's complement representation without its sign: the number of bits
  of a nonnegative integer, and of the complement of a negative one.
\<close>

theorem bignum_integer_length_correct:
  assumes "bignum_wf b"
  defines "v \<equiv> (if bignum_int b < 0 then NOT (bignum_int b) else bignum_int b)"
    and "L \<equiv> unat (bignum_integer_length b)"
  shows "v < 2 ^ L \<and> (L = 0 \<or> 2 ^ (L - 1) \<le> v)"
proof (cases "bignum_int b < 0")
  case False
  then have e: "bignum_integer_length b = bignum_length_in_bits b"
    using assms(1) bignum_wf_simps(6) [OF assms(1)] BIGNUM_POSITIVE_P_iff [OF assms(1)]
    by (auto simp: bignum_integer_length_def Let_def)
  show ?thesis
    using False bignum_length_in_bits_correct [OF assms(1)] by (cases "bignum_int b = 0") (auto simp: v_def L_def e)
next
  case True
  let ?ds = "bignum_digits b" and ?i = "BIGNUM_LENGTH b - 1"
  define t where "t = BIGNUM_REF b ?i"
  define K where "K = unat (bignum_length_in_bits b)"
  note w = bignum_wf_simps [OF assms(1)]
  have ne: "?ds \<noteq> []" using True w(5,6) by auto
  have tl: "t = last ?ds" using ne w(1) by (simp add: t_def BIGNUM_REF_def last_conv_nth)
  have t0: "t \<noteq> 0" using w(4) ne by (simp add: tl digits_normal_def)
  have bl: "take ?i ?ds = butlast ?ds" using w(1) by (simp add: butlast_conv_take)
  define k where "k = ulong_length_in_bits t"
  note kb = ulong_length_in_bits_bounds [OF t0, folded k_def]
  have K: "2 ^ (K - 1) \<le> \<bar>bignum_int b\<bar>" "\<bar>bignum_int b\<bar> < 2 ^ K" "0 < K" "K = k + 62 * ?i"
    using length_in_bits_bounds [OF assms(1)] True unfolding K_def k_def t_def by auto
  note d = digits_last [OF w(3) ne, folded tl, unfolded w(9)]
  have W: "(2 ^ 62 :: int) ^ (length ?ds - 1) = 2 ^ (62 * ?i)" using w(1) by (simp add: power_mult)
  have pK: "(2 :: int) ^ (K - 1) = 2 ^ (62 * ?i) * 2 ^ (k - 1)" using kb(3) by (simp add: K(4) flip: power_add)
  have v: "v = \<bar>bignum_int b\<bar> - 1" using True by (simp add: v_def not_int_def)
  have def': "bignum_integer_length b = (if digits_int (butlast ?ds) \<noteq> 0 then bignum_length_in_bits b
      else bignum_length_in_bits b - (if t AND (t - 1) = 0 then 1 else 0))"
    using True w(6) BIGNUM_POSITIVE_P_iff [OF assms(1)] unfolding bignum_integer_length_def Let_def bl list_ex_nonzero t_def [symmetric]
    by simp
  show ?thesis
  proof (cases "digits_int (butlast ?ds) = 0 \<and> t AND (t - 1) = 0")
    case p: True
    obtain j where j: "uint t = 2 ^ j" using power_of_two_digit [of t] p t0 by blast
    have "j < k" "k - 1 \<le> j" using kb(1,2) unfolding j by (simp_all add: power_less_imp_less_exp)
    then have b: "\<bar>bignum_int b\<bar> = 2 ^ (K - 1)" using d(1) p j unfolding W pK by auto
    have "bignum_length_in_bits b \<noteq> 0" using K(3) unfolding K_def by auto
    then have "L = K - 1" unfolding L_def def' K_def using p by (simp add: unat_minus_one)
    then show ?thesis using v b by (cases "K = 1") (auto simp: power_strict_increasing)
  next
    case p: False
    have "L = K" unfolding L_def def' K_def using p by auto
    moreover have "2 ^ (K - 1) < \<bar>bignum_int b\<bar>"
    proof (cases "digits_int (butlast ?ds) = 0")
      case z: True
      then have "uint t \<noteq> 2 ^ (k - 1)" using power_of_two_test [of t "k - 1"] p by blast
      then have "2 ^ (k - 1) < uint t" using kb(1) by linarith
      then show ?thesis unfolding d(1) W pK z by simp
    next
      case z: False
      have "2 ^ (62 * ?i) * 2 ^ (k - 1) \<le> 2 ^ (62 * ?i) * uint t" using kb(1) by (intro mult_left_mono) simp_all
      then show ?thesis using z digits_int_nonneg [of "butlast ?ds"] unfolding d(1) W pK by linarith
    qed
    ultimately show ?thesis using v K by simp
  qed
qed

text \<open>The lowest set bit of the magnitude.\<close>

lemma popcount_mask: "popcount (2 ^ n - 1) = n"
proof -
  have "{i. bit ((2 :: int) ^ n - 1) i} = {..< n}"
    unfolding mask_eq_exp_minus_1 [symmetric] by (auto simp: bit_mask_iff)
  then show ?thesis by (simp add: popcount_def)
qed

lemma nonzero_scan_correct:
  assumes "digits_ok ds" "digits_int ds \<noteq> 0"
  shows "\<exists>d j. nonzero_scan ds i = Some (d, i + j) \<and> j < length ds \<and> d \<noteq> 0 \<and> uint d < 2 ^ 62
    \<and> digits_int ds = 2 ^ (62 * j) * (uint d + 2 ^ 62 * digits_int (drop (Suc j) ds))"
  using assms
proof (induction ds arbitrary: i)
  case (Cons a ds)
  show ?case
  proof (cases "a = 0")
    case True
    then obtain d j where "nonzero_scan ds (Suc i) = Some (d, Suc i + j)" "j < length ds" "d \<noteq> 0" "uint d < 2 ^ 62"
      "digits_int ds = 2 ^ (62 * j) * (uint d + 2 ^ 62 * digits_int (drop (Suc j) ds))"
      using Cons.IH [of "Suc i"] Cons.prems by auto
    then show ?thesis using True by (intro exI [of _ d] exI [of _ "Suc j"]) (simp add: power_add)
  next
    case False
    then show ?thesis using Cons.prems by (intro exI [of _ a] exI [of _ 0]) simp
  qed
qed simp

lemma lowest_bit_exists:
  fixes d :: ulong
  assumes "d \<noteq> 0"
  obtains n where "bit d n" "\<And>i. i < n \<Longrightarrow> \<not> bit d i" "n < 64"
proof -
  have "\<exists>n. bit d n" using assms bit_eqI [of d 0] by auto
  then have "bit d (LEAST n. bit d n)" by (rule LeastI_ex)
  moreover from this have "(LEAST n. bit d n) < 64" using bit_imp_le_length by fastforce
  ultimately show ?thesis using that not_less_Least by blast
qed

theorem bignum_first_set_bit_correct:
  assumes "bignum_wf b" "bignum_int b \<noteq> 0"
  shows "\<exists>n. bignum_first_set_bit b = Some (word_of_nat n) \<and> bit \<bar>bignum_int b\<bar> n \<and> (\<forall>i<n. \<not> bit \<bar>bignum_int b\<bar> i)"
proof -
  note w = bignum_wf_simps [OF assms(1)]
  obtain d j where dj: "nonzero_scan (bignum_digits b) 0 = Some (d, j)" "d \<noteq> 0" "uint d < 2 ^ 62"
    "\<bar>bignum_int b\<bar> = 2 ^ (62 * j) * (uint d + 2 ^ 62 * digits_int (drop (Suc j) (bignum_digits b)))"
    using nonzero_scan_correct [OF w(3), of 0] assms(2) w(9) by auto
  obtain n where n: "bit d n" "\<And>i. i < n \<Longrightarrow> \<not> bit d i" "n < 64" using dj(2) by (rule lowest_bit_exists) blast
  have "uint (d XOR (d - 1)) < 2 ^ 63"
  proof -
    have "uint (d - 1) < 2 ^ 62" using dj(3) uint_pos [OF dj(2)] by (simp add: uint_sub_exact)
    then have "uint (d XOR (d - 1)) < 2 ^ 62" using dj(3) by (simp only: uint_xor) (intro XOR_upper; simp)
    then show ?thesis by simp
  qed
  then have "long_shr (d XOR (d - 1)) 1 = drop_bit 1 (d XOR (d - 1))" by (simp only: word_uint_eq_iff uint_long_shr uint_drop_bit64)
  then have c: "ulong_bit_count (long_shr (d XOR (d - 1)) 1) = n"
    using below_lowest_bit [OF n(1,2)] by (simp only: ulong_bit_count_correct popcount_mask)
  have "n < 62"
  proof (rule ccontr)
    assume "\<not> n < 62"
    have "take_bit 62 (uint d) = uint d" using dj(3) by (simp add: take_bit_int_eq_self)
    moreover have "bit (uint d) n" using n(1,3) by (simp add: bit_uint_iff)
    ultimately show False using \<open>\<not> n < 62\<close> by (metis bit_take_bit_iff)
  qed
  have m: "bit \<bar>bignum_int b\<bar> i \<longleftrightarrow> 62 * j \<le> i \<and> (if i - 62 * j < 62 then bit d (i - 62 * j)
      else bit (digits_int (drop (Suc j) (bignum_digits b))) (i - 62 * j - 62))" for i
  proof -
    define V where "V = uint d + 2 ^ 62 * digits_int (drop (Suc j) (bignum_digits b))"
    have "bit V k \<longleftrightarrow> (if k < 62 then bit d k else bit (digits_int (drop (Suc j) (bignum_digits b))) (k - 62))" for k
      unfolding V_def using dj(3) by (subst bit_digit_add) (simp_all add: bit_uint_iff)
    moreover have "\<bar>bignum_int b\<bar> = push_bit (62 * j) V" unfolding dj(4) V_def by (simp add: push_bit_eq_mult)
    ultimately show ?thesis by (simp add: bit_push_bit_iff)
  qed
  have "bignum_first_set_bit b = Some (word_of_nat (n + j * 62))"
    using assms(2) w(6) dj(1) c by (simp add: bignum_first_set_bit_def)
  moreover have "bit \<bar>bignum_int b\<bar> (n + j * 62)" "\<forall>i<n + j * 62. \<not> bit \<bar>bignum_int b\<bar> i"
    using n \<open>n < 62\<close> by (auto simp: m)
  ultimately show ?thesis by blast
qed

end
