(* ===== verification/Bignum_Shift.thy ===== *)
theory Bignum_Shift
  imports Bignum_Bits
begin

text \<open>
  The shifts of \<open>microcode/bignum.c\<close>: \<open>bignum_shift_right\<close> (which rounds towards minus
  infinity), \<open>bignum_shift_left\<close>, \<open>unsigned_long_to_shifted_bignum\<close>, and the masks
  \<open>bignum_nonnegative_one_bits\<close> and \<open>bignum_negative_zero_bits\<close> built from them.
\<close>

section \<open>Shifting right\<close>

fun shift_right_scan :: "nat \<Rightarrow> long list \<Rightarrow> long \<Rightarrow> long list \<times> long" where
  "shift_right_scan bits [] extra = ([], extra)"
| "shift_right_scan bits (digit # ds) extra =
     (let (rs, e) = shift_right_scan bits ds (long_shr digit bits)
      in ((push_bit (62 - bits) (digit AND BIGNUM_DIGIT_ONES bits) OR extra) # rs, e))"

text \<open>
  When all digits are shifted out the code reads the word that follows the last digit; it
  is the parameter \<open>beyond\<close>.
\<close>

definition bignum_shift_right_unsigned :: "long \<Rightarrow> bignum \<Rightarrow> nat \<Rightarrow> nat \<Rightarrow> bignum option" where
  "bignum_shift_right_unsigned beyond n digits bits =
     (let n_length = BIGNUM_LENGTH n;
          ds = bignum_digits n;
          r_length = int n_length - int digits -
            (if 0 < n_length \<and> long_shr (ds ! (n_length - 1)) bits = 0 then 1 else 0)
      in if r_length < 0 then None
         else do {
           r \<leftarrow> bignum_allocate (nat r_length) False;
           if bits = 0
           then Some (r\<lparr>bignum_digits := drop digits ds\<rparr>)
           else let extra = long_shr (if digits < n_length then ds ! digits else beyond) bits;
                    (rs, extra') = shift_right_scan bits (drop (Suc digits) ds) extra;
                    out = (if extra' \<noteq> 0 then rs @ [extra'] else rs)
                in if int (length out) = r_length then Some (r\<lparr>bignum_digits := out\<rparr>) else None
         })"

definition bignum_shift_right :: "long \<Rightarrow> bignum \<Rightarrow> ulong \<Rightarrow> bignum option" where
  "bignum_shift_right beyond n m =
     (let digits = unat (m div 62);
          bits = unat (m mod 62)
      in if digits \<ge> BIGNUM_LENGTH n
         then Some (if BIGNUM_NEGATIVE_P n then bignum_make_one True else bignum_make_zero)
         else if BIGNUM_NEGATIVE_P n
         then do {
           n' \<leftarrow> bignum_bitwise_not n;
           r \<leftarrow> bignum_shift_right_unsigned beyond n' digits bits;
           bignum_bitwise_not r
         }
         else bignum_shift_right_unsigned beyond n digits bits)"

section \<open>Shifting left\<close>

fun shift_left_scan :: "nat \<Rightarrow> long list \<Rightarrow> ulong \<Rightarrow> long list \<times> ulong" where
  "shift_left_scan shift [] temp = ([], temp)"
| "shift_left_scan shift (digit # ds) temp =
     (let (rs, t) = shift_left_scan shift ds (long_shr digit (62 - shift))
      in (((push_bit shift digit AND BIGNUM_DIGIT_MASK) OR temp) # rs, t))"

definition bignum_shift_left :: "bignum \<Rightarrow> ulong \<Rightarrow> bignum option" where
  "bignum_shift_left n m =
     (if m = 0 \<or> BIGNUM_ZERO_P n then Some n
      else let ln = word_of_nat (BIGNUM_LENGTH n) :: ulong;
               delta = word_of_nat (ulong_length_in_bits (BIGNUM_REF n (BIGNUM_LENGTH n - 1)));
               zeroes = unat (m div 62);
               shift = unat (m mod 62);
               ln2 = ln - 1 + (delta + m) div 62 + (if (delta + m) mod 62 \<noteq> 0 then 1 else 0);
               (rs, temp) = (if shift = 0 then (bignum_digits n, 0) else shift_left_scan shift (bignum_digits n) 0);
               out = replicate zeroes 0 @ rs @ (if temp \<noteq> 0 then [temp] else [])
           in map_option (\<lambda>result. result\<lparr>bignum_digits := out @ drop (length out) (bignum_digits result)\<rparr>)
                (bignum_allocate (unat ln2) (BIGNUM_NEGATIVE_P n)))"

text \<open>The \<open>while\<close> loop that writes the remaining digits of a word.\<close>

definition word_digits_loop :: "ulong \<Rightarrow> long list" where
  "word_digits_loop n = (if n = 0 then [] else split_digits n)"

definition unsigned_long_to_shifted_bignum :: "ulong \<Rightarrow> ulong \<Rightarrow> bool \<Rightarrow> bignum option" where
  "unsigned_long_to_shifted_bignum n m sign =
     (if n = 0 then Some bignum_make_zero
      else let delta = word_of_nat (ulong_length_in_bits n) :: ulong;
               zeroes = unat (m div 62);
               shift = unat (m mod 62);
               ln = (delta + m) div 62 + (if (delta + m) mod 62 \<noteq> 0 then 1 else 0);
               out = replicate zeroes 0 @ (push_bit shift n AND BIGNUM_DIGIT_MASK)
                       # word_digits_loop (drop_bit (62 - shift) n)
           in map_option (\<lambda>result. result\<lparr>bignum_digits := out @ drop (length out) (bignum_digits result)\<rparr>)
                (bignum_allocate (unat ln) sign))"

definition bignum_nonnegative_one_bits :: "ulong \<Rightarrow> ulong \<Rightarrow> bignum option" where
  "bignum_nonnegative_one_bits n position =
     do {
       a \<leftarrow> bignum_shift_left (bignum_make_one True) n;
       b \<leftarrow> bignum_bitwise_not a;
       bignum_shift_left b position
     }"

definition bignum_negative_zero_bits :: "ulong \<Rightarrow> ulong \<Rightarrow> bignum option" where
  "bignum_negative_zero_bits n m = do { a \<leftarrow> bignum_nonnegative_one_bits n m; bignum_bitwise_not a }"

section \<open>Digit lists of a given bit length\<close>

lemma normal_length_bits:
  assumes "digits_normal ds" "2 ^ (L - 1) \<le> digits_int ds" "digits_int ds < 2 ^ L" "0 < L"
  shows "length ds = (L + 61) div 62"
proof -
  have ne: "ds \<noteq> []" using assms(2) by (auto simp: power_le_zero_eq not_le)
  have "(2 :: int) ^ (62 * (length ds - 1)) < 2 ^ L"
    using digits_normal_lower [OF assms(1) ne] assms(3) by (simp add: power_mult)
  then have a: "62 * (length ds - 1) < L" using power_less_imp_less_exp [of "2 :: int"] by simp
  have "(2 :: int) ^ (L - 1) < 2 ^ (62 * length ds)"
    using digits_int_less [of ds] assms(1,2) by (simp add: digits_normal_def power_mult)
  then have "L - 1 < 62 * length ds" using power_less_imp_less_exp [of "2 :: int"] by simp
  then show ?thesis using a assms(4) ne by (cases ds) auto
qed

lemma uint_BIGNUM_DIGIT_ONES: "n < 64 \<Longrightarrow> x AND BIGNUM_DIGIT_ONES n = x AND mask n"
  by (rule bit_word_eqI) (auto simp: BIGNUM_DIGIT_ONES_def bit_simps)

lemma regroup: "e + m * P + Q * P * (h + P * y) = e + P * (m + Q * h) + Q * P * P * (y :: int)"
  by (simp add: algebra_simps)

lemma shift_right_scan_correct:
  assumes "0 < bits" "bits < 62"
  shows "digits_ok ds \<Longrightarrow> uint e < 2 ^ (62 - bits) \<Longrightarrow> shift_right_scan bits ds e = (rs, e') \<Longrightarrow>
    length rs = length ds \<and> digits_ok rs \<and> e' = (if ds = [] then e else long_shr (last ds) bits)
    \<and> uint e' < 2 ^ (62 - bits)
    \<and> digits_int rs + (2 ^ 62) ^ length ds * uint e' = uint e + 2 ^ (62 - bits) * digits_int ds"
proof (induction ds arbitrary: e rs)
  case Nil
  then show ?case by simp
next
  case (Cons d ds)
  define lo where "lo = push_bit (62 - bits) (d AND BIGNUM_DIGIT_ONES bits)"
  obtain rs1 where s: "shift_right_scan bits ds (long_shr d bits) = (rs1, e')" "rs = (lo OR e) # rs1"
    using Cons.prems(3) by (auto simp: lo_def split: prod.splits)
  have p: "(2 :: int) ^ 62 = 2 ^ bits * 2 ^ (62 - bits)" using assms by (simp flip: power_add)
  have d: "uint d < 2 ^ 62" using Cons.prems(1) by simp
  have "uint d div 2 ^ bits < 2 ^ (62 - bits)" using d p by (intro int_div_less) simp_all
  then have hi: "uint (long_shr d bits) = uint d div 2 ^ bits" "uint (long_shr d bits) < 2 ^ (62 - bits)"
    using d by (simp_all add: uint_long_shr)
  have m: "uint d mod 2 ^ bits < 2 ^ bits" by simp
  then have "uint d mod 2 ^ bits + 1 \<le> 2 ^ bits" by linarith
  then have le: "(uint d mod 2 ^ bits + 1) * 2 ^ (62 - bits) \<le> 2 ^ 62" unfolding p by (intro mult_right_mono) simp_all
  then have lt: "uint d mod 2 ^ bits * 2 ^ (62 - bits) + uint e < 2 ^ 62" using Cons.prems(2) by (simp add: algebra_simps)
  have lo: "uint lo = uint d mod 2 ^ bits * 2 ^ (62 - bits)"
  proof -
    have "uint (d AND BIGNUM_DIGIT_ONES bits) = uint d mod 2 ^ bits"
      using assms by (simp add: uint_BIGNUM_DIGIT_ONES uint_and_mask64)
    moreover from this have "uint (d AND BIGNUM_DIGIT_ONES bits) * 2 ^ (62 - bits) < 2 ^ 64"
    proof -
      have "uint d mod 2 ^ bits * 2 ^ (62 - bits) < 2 ^ 62" using lt uint_bounds64(1) [of e] by linarith
      also have "(2 :: int) ^ 62 < 2 ^ 64" by simp
      finally show ?thesis by (simp only: \<open>uint (d AND BIGNUM_DIGIT_ONES bits) = uint d mod 2 ^ bits\<close>)
    qed
    ultimately show ?thesis by (simp only: lo_def uint_push_bit_exact)
  qed
  have r: "uint (lo OR e) = uint d mod 2 ^ bits * 2 ^ (62 - bits) + uint e"
    using uint_or_disjoint [of e "62 - bits" lo] lo Cons.prems(2) by simp
  have ih: "length rs1 = length ds" "digits_ok rs1" "e' = (if ds = [] then long_shr d bits else long_shr (last ds) bits)"
    "uint e' < 2 ^ (62 - bits)"
    "digits_int rs1 + (2 ^ 62) ^ length ds * uint e' = uint d div 2 ^ bits + 2 ^ (62 - bits) * digits_int ds"
  proof -
    have "digits_ok ds" using Cons.prems(1) by simp
    from Cons.IH [OF this hi(2) s(1)] show "length rs1 = length ds" "digits_ok rs1"
      "e' = (if ds = [] then long_shr d bits else long_shr (last ds) bits)" "uint e' < 2 ^ (62 - bits)"
      "digits_int rs1 + (2 ^ 62) ^ length ds * uint e' = uint d div 2 ^ bits + 2 ^ (62 - bits) * digits_int ds"
      unfolding hi(1) by blast+
  qed
  have "digits_int rs + (2 ^ 62) ^ length (d # ds) * uint e' =
      uint e + uint d mod 2 ^ bits * 2 ^ (62 - bits) + 2 ^ 62 * (digits_int rs1 + (2 ^ 62) ^ length ds * uint e')"
    unfolding s(2) by (simp add: r algebra_simps)
  also have "\<dots> = uint e + 2 ^ (62 - bits) * (uint d mod 2 ^ bits + 2 ^ bits * (uint d div 2 ^ bits)) + 2 ^ 62 * 2 ^ (62 - bits) * digits_int ds"
    by (simp only: ih(5)) (simp only: p, rule regroup)
  also have "\<dots> = uint e + 2 ^ (62 - bits) * digits_int (d # ds)" by (simp add: algebra_simps)
  finally have total: "digits_int rs + (2 ^ 62) ^ length (d # ds) * uint e' = uint e + 2 ^ (62 - bits) * digits_int (d # ds)" .
  have "length rs = length (d # ds)" "digits_ok rs" using ih(1,2) s(2) r lt by simp_all
  moreover have "e' = (if d # ds = [] then e else long_shr (last (d # ds)) bits)" using ih(3) by simp
  ultimately show ?case using total ih(4) by blast
qed

section \<open>The right shift\<close>

lemma shift_right_value:
  assumes "0 < bits" "bits < 62" "digits_ok (d # ds)" "shift_right_scan bits ds (long_shr d bits) = (rs, e)"
  shows "digits_ok (rs @ [e])" "length rs = length ds" "e = long_shr (last (d # ds)) bits"
    "digits_int (rs @ [e]) = digits_int (d # ds) div 2 ^ bits"
proof -
  have p: "(2 :: int) ^ 62 = 2 ^ bits * 2 ^ (62 - bits)" using assms(1,2) by (simp flip: power_add)
  have "uint d div 2 ^ bits < 2 ^ (62 - bits)" using assms(3) p by (intro int_div_less) simp_all
  then have hi: "uint (long_shr d bits) = uint d div 2 ^ bits" "uint (long_shr d bits) < 2 ^ (62 - bits)"
    using assms(3) by (simp_all add: uint_long_shr)
  have sc: "length rs = length ds" "digits_ok rs" "e = (if ds = [] then long_shr d bits else long_shr (last ds) bits)"
    "uint e < 2 ^ (62 - bits)"
    "digits_int rs + (2 ^ 62) ^ length ds * uint e = uint (long_shr d bits) + 2 ^ (62 - bits) * digits_int ds"
  proof -
    have "digits_ok ds" using assms(3) by simp
    from shift_right_scan_correct [OF assms(1,2) this hi(2) assms(4)]
    show "length rs = length ds" "digits_ok rs" "e = (if ds = [] then long_shr d bits else long_shr (last ds) bits)"
      "uint e < 2 ^ (62 - bits)"
      "digits_int rs + (2 ^ 62) ^ length ds * uint e = uint (long_shr d bits) + 2 ^ (62 - bits) * digits_int ds"
      by blast+
  qed
  have "(2 :: int) ^ (62 - bits) \<le> 2 ^ 62" by (intro power_increasing) simp_all
  then have "uint e < 2 ^ 62" using sc(4) by linarith
  then show "digits_ok (rs @ [e])" "length rs = length ds" "e = long_shr (last (d # ds)) bits"
    using sc(1-3) by simp_all
  have "digits_int (d # ds) = uint d + 2 ^ bits * (2 ^ (62 - bits) * digits_int ds)" by (simp only: digits_int_simps p mult.assoc)
  then have "digits_int (d # ds) div 2 ^ bits = uint d div 2 ^ bits + 2 ^ (62 - bits) * digits_int ds" by (simp only:) simp
  then show "digits_int (rs @ [e]) = digits_int (d # ds) div 2 ^ bits"
    using sc(1,5) hi(1) by simp
qed

lemma drop_digits_int:
  assumes "digits_ok ds" "n \<le> length ds"
  shows "digits_int (drop n ds) = digits_int ds div 2 ^ (62 * n)"
proof -
  have "digits_int ds = digits_int (take n ds) + (2 ^ 62) ^ n * digits_int (drop n ds)"
    using digits_int_simps(4) [of "take n ds" "drop n ds"] assms(2) by simp
  moreover have "digits_int (take n ds) < (2 ^ 62) ^ n"
    using digits_int_less [OF digits_ok_take_drop(1) [OF assms(1)], of n] assms(2) by simp
  ultimately show ?thesis by (simp add: power_mult)
qed

lemma bignum_shift_right_unsigned_correct:
  assumes "bignum_wf n" "0 \<le> bignum_int n" "bits < 62" "digits < BIGNUM_LENGTH n"
  shows "yields (bignum_shift_right_unsigned beyond n digits bits) (bignum_int n div 2 ^ (62 * digits + bits))"
proof -
  let ?ds = "bignum_digits n"
  note w = bignum_wf_simps [OF assms(1)]
  have v: "digits_int ?ds = bignum_int n" using w(9) assms(2) by simp
  have ne: "?ds \<noteq> []" "digits < length ?ds" using assms(4) w(1) by auto
  define d es where "d = ?ds ! digits" and "es = drop (Suc digits) ?ds"
  have dr: "drop digits ?ds = d # es" unfolding d_def es_def using ne(2) by (rule Cons_nth_drop_Suc [symmetric])
  have ok: "digits_ok (d # es)" using digits_ok_take_drop(2) [OF w(3), of digits] by (simp only: dr)
  have val: "digits_int (d # es) = bignum_int n div 2 ^ (62 * digits)"
    using drop_digits_int [OF w(3), of digits] ne(2) v by (simp only: dr less_imp_le)
  have last: "?ds ! (length ?ds - 1) = last (d # es)"
    using ne(1,2) by (simp only: dr [symmetric] last_drop) (simp add: last_conv_nth)
  have l0: "last (d # es) \<noteq> 0" using w(4) ne(1) last by (simp add: digits_normal_def last_conv_nth)
  have len: "length (d # es) = length ?ds - digits" by (simp only: dr [symmetric] length_drop)
  then have lmax: "length (d # es) \<le> BIGNUM_LENGTH_MAX" using w(2) by linarith
  show ?thesis
  proof (cases "bits = 0")
    case True
    have "long_shr (last (d # es)) 0 = last (d # es)" by (simp add: long_shr_def)
    then have "bignum_shift_right_unsigned beyond n digits bits = Some (mk_bignum False (d # es))"
      using True l0 last len lmax ne w(1) dr
      by (simp add: bignum_shift_right_unsigned_def Let_def bignum_allocate_eq nat_diff_distrib' flip: of_nat_diff)
    then show ?thesis using True ok l0 val lmax
      by (simp only:) (rule yields_mk, simp_all add: digits_normal_def)
  next
    case False
    obtain rs e where s: "shift_right_scan bits es (long_shr d bits) = (rs, e)" by fastforce
    have "0 < bits" using False by simp
    note sv = shift_right_value [OF this assms(3) ok s]
    define out where "out = (if e \<noteq> 0 then rs @ [e] else rs)"
    have d: "digits_ok out" "digits_int out = digits_int (d # es) div 2 ^ bits"
      using sv(1,4) by (auto simp: out_def)
    have norm: "digits_normal out"
    proof (rule digits_normalI [OF d(1)])
      assume ne': "out \<noteq> []"
      show "(2 ^ 62) ^ (length out - 1) \<le> digits_int out"
      proof (cases "e = 0")
        case True
        then have "length out = length es" "es \<noteq> []" using ne' sv(2) by (auto simp: out_def)
        moreover have "digits_normal (d # es)" using ok l0 by (simp add: digits_normal_def)
        ultimately have "(2 ^ 62) ^ Suc (length out - 1) \<le> digits_int (d # es)"
          using digits_normal_lower [of "d # es"] by (cases es) simp_all
        then have "(2 ^ 62) ^ (length out - 1) * 2 ^ 62 \<le> digits_int (d # es)" by (simp only: power_Suc2)
        moreover have "(2 ^ 62) ^ (length out - 1) * 2 ^ bits \<le> ((2 ^ 62) ^ (length out - 1) * 2 ^ 62 :: int)"
          using assms(3) by (intro mult_left_mono power_increasing) simp_all
        ultimately have le: "(2 ^ 62) ^ (length out - 1) * 2 ^ bits \<le> digits_int (d # es)" by (rule order_trans [rotated])
        show ?thesis unfolding d(2) by (rule le_divI [OF _ le]) simp
      next
        case False
        then have "digits_normal out" using d(1) by (simp add: digits_normal_def out_def)
        then show ?thesis using digits_normal_lower ne' by blast
      qed
    qed
    have l: "int (length out) = int (length ?ds) - int digits - (if 0 < length ?ds \<and> long_shr (?ds ! (length ?ds - 1)) bits = 0 then 1 else 0)"
      using sv(2,3) last len ne by (auto simp: out_def)
    have lm: "length out \<le> BIGNUM_LENGTH_MAX" using sv(2) lmax by (simp add: out_def)
    have "drop (Suc digits) ?ds = es" "?ds ! digits = d" by (simp_all add: es_def d_def)
    then have "bignum_shift_right_unsigned beyond n digits bits = Some (mk_bignum False out)"
      unfolding bignum_shift_right_unsigned_def w(1) Let_def l [symmetric]
      using False ne s lm by (simp add: bignum_allocate_eq flip: out_def)
    moreover have "digits_int out = bignum_int n div 2 ^ (62 * digits + bits)"
      unfolding d(2) val by (simp add: power_add zdiv_zmult2_eq)
    ultimately show ?thesis using norm lm by (simp only:) (rule yields_mk, simp_all)
  qed
qed

lemma div_complement: "NOT k div 2 ^ m = NOT (k div 2 ^ m :: int)"
proof -
  have "drop_bit m (NOT k) = NOT (drop_bit m k)" by (rule bit_eqI) (simp add: bit_simps)
  then show ?thesis by (simp add: drop_bit_eq_div)
qed

lemma split_count: "62 * unat (m div 62) + unat (m mod 62) = unat (m :: ulong)" "unat (m mod 62) < 62"
  by (simp_all add: unat_div unat_mod)

text \<open>All digits shifted out: only the complement of a negative power of the radix gets here.\<close>

lemma shift_out_all_digits:
  assumes "bignum_wf n" "bignum_int n = (2 ^ 62) ^ digits - 1" "bits < 62" "long_shr beyond bits = 0"
  shows "yields (bignum_shift_right_unsigned beyond n digits bits) 0"
proof -
  let ?ds = "bignum_digits n"
  note w = bignum_wf_simps [OF assms(1)]
  have "0 \<le> bignum_int n" unfolding assms(2) by simp
  then have v: "digits_int ?ds = (2 ^ 62) ^ digits - 1" using w(9) assms(2) by linarith
  have le: "length ?ds \<le> digits"
  proof (rule ccontr)
    assume "\<not> length ?ds \<le> digits"
    then have ne: "?ds \<noteq> []" and l: "digits \<le> length ?ds - 1" by auto
    have "(2 ^ 62 :: int) ^ digits \<le> (2 ^ 62) ^ (length ?ds - 1)" using l by (intro power_increasing) simp_all
    then show False using digits_normal_lower [OF w(4) ne] v by linarith
  qed
  have ge: "digits \<le> length ?ds"
  proof (rule ccontr)
    assume "\<not> digits \<le> length ?ds"
    then have "(2 ^ 62 :: int) ^ Suc (length ?ds) \<le> (2 ^ 62) ^ digits" by (intro power_increasing) simp_all
    moreover have "(2 ^ 62 :: int) ^ length ?ds + 1 \<le> (2 ^ 62) ^ Suc (length ?ds)"
    proof -
      have "1 \<le> (2 ^ 62 :: int) ^ length ?ds" by (rule one_le_power) simp
      moreover have "x + 1 \<le> 2 ^ 62 * x" if "1 \<le> x" for x :: int using that by simp
      ultimately show ?thesis unfolding power_Suc by blast
    qed
    ultimately show False using digits_int_less [OF w(3)] v by linarith
  qed
  have len: "length ?ds = digits" using le ge by simp
  have top: "long_shr (?ds ! (digits - 1)) bits \<noteq> 0" if "0 < digits"
  proof -
    have ne: "?ds \<noteq> []" using that len by auto
    have "uint (last ?ds) = digits_int ?ds div (2 ^ 62) ^ (digits - 1)" using digits_last(3) [OF w(3) ne] len by simp
    also have "(2 ^ 62) ^ digits = (2 ^ 62 :: int) ^ (digits - 1) * 2 ^ 62" using that by (simp flip: power_Suc2)
    then have "digits_int ?ds div (2 ^ 62) ^ (digits - 1) \<ge> 2 ^ 62 - 1"
      unfolding v by (intro le_divI) (simp_all add: algebra_simps)
    finally have t: "2 ^ 62 - 1 \<le> uint (last ?ds)" .
    have t62: "uint (last ?ds) < 2 ^ 62" using w(3) ne by (simp add: digits_ok_def list_all_iff)
    have "(2 :: int) ^ bits \<le> 2 ^ 61" using assms(3) by (intro power_increasing) simp_all
    then have "1 * 2 ^ bits \<le> uint (last ?ds)" using t by simp
    then have "1 \<le> uint (last ?ds) div 2 ^ bits" by (intro le_divI) simp_all
    moreover have "uint (long_shr (last ?ds) bits) = uint (last ?ds) div 2 ^ bits" using t62 by (intro uint_long_shr) simp
    ultimately show ?thesis using ne len by (auto simp: last_conv_nth)
  qed
  have e: "int 0 - (if 0 < digits \<and> long_shr (?ds ! (digits - 1)) bits = 0 then 1 else 0) = 0" using top by auto
  have d: "drop digits ?ds = []" "drop (Suc digits) ?ds = []" "length ?ds = digits" using len by simp_all
  have "bignum_shift_right_unsigned beyond n digits bits = Some (mk_bignum False [])"
    using e assms(4) w(1) top unfolding bignum_shift_right_unsigned_def Let_def
    by (simp add: d bignum_allocate_eq)
  then show ?thesis by (simp add: mk_bignum_wf mk_bignum_int digits_normal_def)
qed

theorem bignum_shift_right_correct:
  assumes "short_bignum n" "\<And>k. bignum_int n = - ((2 ^ 62) ^ k) \<Longrightarrow> beyond = 0"
  shows "yields (bignum_shift_right beyond n m) (bignum_int n div 2 ^ unat m)"
proof -
  let ?digits = "unat (m div 62)" and ?bits = "unat (m mod 62)"
  note w = bignum_wf_simps [OF conjunct1 [OF assms(1)]]
  note sp = split_count [of m]
  show ?thesis
  proof (cases "BIGNUM_LENGTH n \<le> ?digits")
    case True
    then have "62 * BIGNUM_LENGTH n \<le> unat m" using sp by linarith
    then have "(2 :: int) ^ (62 * BIGNUM_LENGTH n) \<le> 2 ^ unat m" by (intro power_increasing) simp_all
    then have "\<bar>bignum_int n\<bar> < 2 ^ unat m"
      using digits_int_less [OF w(3)] w(1,9) by (simp add: power_mult)
    then have "bignum_int n div 2 ^ unat m = (if bignum_int n < 0 then - 1 else 0)"
      by (cases "bignum_int n < 0") (auto intro: int_div_pos_eq [where r = "bignum_int n + 2 ^ unat m"] simp: div_pos_pos_trivial)
    then show ?thesis using True w(8) by (simp add: bignum_shift_right_def)
  next
    case less: False
    show ?thesis
    proof (cases "bignum_int n < 0")
      case False
      then have "yields (bignum_shift_right_unsigned beyond n ?digits ?bits) (bignum_int n div 2 ^ (62 * ?digits + ?bits))"
        using assms(1) less sp(2) by (intro bignum_shift_right_unsigned_correct) simp_all
      then show ?thesis using False less w(8) by (simp add: bignum_shift_right_def Let_def sp(1))
    next
      case True
      obtain n' where n': "bignum_bitwise_not n = Some n'" "short_bignum n'" "0 \<le> bignum_int n'" "bignum_int n = NOT (bignum_int n')"
        using complement_negative [OF assms(1) True] .
      have u: "yields (bignum_shift_right_unsigned beyond n' ?digits ?bits) (bignum_int n' div 2 ^ (62 * ?digits + ?bits))"
      proof (cases "?digits < BIGNUM_LENGTH n'")
        case True
        then show ?thesis using n' sp(2) by (intro bignum_shift_right_unsigned_correct) simp_all
      next
        case False
        have nv: "bignum_int n = - (bignum_int n' + 1)" unfolding n'(4) by (simp add: not_int_def)
        have "bignum_digits n \<noteq> []" using less w(1) by auto
        moreover have "(2 ^ 62 :: int) ^ ?digits \<le> (2 ^ 62) ^ (length (bignum_digits n) - 1)"
          using less w(1) by (intro power_increasing) simp_all
        ultimately have lo: "(2 ^ 62) ^ ?digits \<le> bignum_int n' + 1"
          using digits_normal_lower [OF w(4)] w(9) nv n'(3) by linarith
        note w' = bignum_wf_simps [OF conjunct1 [OF n'(2)]]
        have "(2 ^ 62 :: int) ^ length (bignum_digits n') \<le> (2 ^ 62) ^ ?digits"
          using False w'(1) by (intro power_increasing) simp_all
        then have "bignum_int n' < (2 ^ 62) ^ ?digits" using digits_int_less [OF w'(3)] w'(9) n'(3) by linarith
        then have eq: "bignum_int n' = (2 ^ 62) ^ ?digits - 1" using lo by linarith
        then have b: "beyond = 0" using nv by (intro assms(2) [of ?digits]) simp
        have "bignum_int n' < 2 ^ (62 * ?digits + ?bits)"
        proof -
          have "(2 :: int) ^ (62 * ?digits) \<le> 2 ^ (62 * ?digits + ?bits)" by (intro power_increasing) simp_all
          then show ?thesis unfolding eq by (simp add: power_mult)
        qed
        then have "bignum_int n' div 2 ^ (62 * ?digits + ?bits) = 0" using n'(3) by simp
        moreover have "long_shr beyond ?bits = 0" using b by (simp add: long_shr_def)
        ultimately show ?thesis using shift_out_all_digits [OF conjunct1 [OF n'(2)] eq sp(2)] by simp
      qed
      obtain r where r: "bignum_shift_right_unsigned beyond n' ?digits ?bits = Some r" "bignum_wf r"
        "bignum_int r = bignum_int n' div 2 ^ unat m"
        using u sp(1) by (auto simp: yields_def split: option.splits)
      have "\<bar>bignum_int r\<bar> \<le> \<bar>bignum_int n'\<bar>"
        using n'(3) int_div_bounds(1,2) [OF n'(3), of "2 ^ unat m"] unfolding r(3) by simp
      then have "short_bignum r" using length_mono [OF r(2)] n'(2) r(2) le_less_trans by blast
      then have "yields (bignum_bitwise_not r) (NOT (bignum_int n' div 2 ^ unat m))"
        using bignum_bitwise_not_correct [of r] r(3) by simp
      then show ?thesis
        using True less w(8) n'(1) r(1) unfolding n'(4) div_complement
        by (simp add: bignum_shift_right_def Let_def)
    qed
  qed
qed

section \<open>The left shift\<close>

lemma push_bit_low_digit:
  assumes "shift < 62"
  shows "uint (push_bit shift n AND BIGNUM_DIGIT_MASK) = uint n mod 2 ^ (62 - shift) * 2 ^ shift"
proof -
  have lo_eq: "push_bit shift n AND BIGNUM_DIGIT_MASK = push_bit shift (n AND mask (62 - shift))"
    using assms unfolding BIGNUM_DIGIT_MASK_eq by (intro bit_word_eqI) (auto simp: bit_simps)
  have a: "uint (n AND mask (62 - shift)) = uint n mod 2 ^ (62 - shift)" by (simp add: uint_and_mask64)
  have "uint n mod 2 ^ (62 - shift) * 2 ^ shift < 2 ^ (62 - shift) * 2 ^ shift" by (intro mult_strict_right_mono) simp_all
  also have "\<dots> = 2 ^ 62" using assms by (simp flip: power_add)
  also have "(2 :: int) ^ 62 < 2 ^ 64" by simp
  finally show ?thesis using uint_push_bit_exact [of "n AND mask (62 - shift)" shift] by (simp only: lo_eq a)
qed

lemma shift_left_scan_correct:
  assumes "0 < shift" "shift < 62"
  shows "digits_ok ds \<Longrightarrow> uint t < 2 ^ shift \<Longrightarrow> shift_left_scan shift ds t = (rs, t') \<Longrightarrow>
    length rs = length ds \<and> digits_ok rs \<and> uint t' < 2 ^ shift
    \<and> digits_int rs + (2 ^ 62) ^ length ds * uint t' = uint t + 2 ^ shift * digits_int ds"
proof (induction ds arbitrary: t rs)
  case Nil
  then show ?case by simp
next
  case (Cons d ds)
  define lo where "lo = push_bit shift d AND BIGNUM_DIGIT_MASK"
  obtain rs1 where s: "shift_left_scan shift ds (long_shr d (62 - shift)) = (rs1, t')" "rs = (lo OR t) # rs1"
    using Cons.prems(3) by (auto simp: lo_def split: prod.splits)
  have p: "(2 :: int) ^ 62 = 2 ^ shift * 2 ^ (62 - shift)" using assms by (simp flip: power_add)
  have d: "uint d < 2 ^ 62" using Cons.prems(1) by simp
  have "uint d div 2 ^ (62 - shift) < 2 ^ shift" using d p by (intro int_div_less) (simp_all add: mult.commute)
  then have hi: "uint (long_shr d (62 - shift)) = uint d div 2 ^ (62 - shift)" "uint (long_shr d (62 - shift)) < 2 ^ shift"
    using d by (simp_all add: uint_long_shr)
  have lo: "uint lo = uint d mod 2 ^ (62 - shift) * 2 ^ shift" unfolding lo_def by (rule push_bit_low_digit [OF assms(2)])
  have "uint d mod 2 ^ (62 - shift) + 1 \<le> 2 ^ (62 - shift)"
  proof -
    have "uint d mod 2 ^ (62 - shift) < 2 ^ (62 - shift)" by simp
    then show ?thesis by linarith
  qed
  then have "(uint d mod 2 ^ (62 - shift) + 1) * 2 ^ shift \<le> 2 ^ (62 - shift) * 2 ^ shift" by (intro mult_right_mono) simp_all
  then have lt: "uint d mod 2 ^ (62 - shift) * 2 ^ shift + uint t < 2 ^ 62"
    using Cons.prems(2) by (simp add: algebra_simps p del: power_numeral)
  have r: "uint (lo OR t) = uint d mod 2 ^ (62 - shift) * 2 ^ shift + uint t"
    using uint_or_disjoint [of t shift lo] lo Cons.prems(2) by simp
  have "digits_ok ds" using Cons.prems(1) by simp
  from Cons.IH [OF this hi(2) s(1)] have ih: "length rs1 = length ds" "digits_ok rs1" "uint t' < 2 ^ shift"
    "digits_int rs1 + (2 ^ 62) ^ length ds * uint t' = uint d div 2 ^ (62 - shift) + 2 ^ shift * digits_int ds"
    unfolding hi(1) by blast+
  have "digits_int rs + (2 ^ 62) ^ length (d # ds) * uint t' =
      uint t + uint d mod 2 ^ (62 - shift) * 2 ^ shift + 2 ^ 62 * (digits_int rs1 + (2 ^ 62) ^ length ds * uint t')"
    unfolding s(2) by (simp add: r algebra_simps)
  also have "\<dots> = uint t + 2 ^ shift * (uint d mod 2 ^ (62 - shift) + 2 ^ (62 - shift) * (uint d div 2 ^ (62 - shift)))
      + 2 ^ (62 - shift) * 2 ^ shift * 2 ^ shift * digits_int ds"
    by (simp only: ih(4)) (simp only: p mult.commute [of "2 ^ shift" "2 ^ (62 - shift)"], rule regroup)
  also have "\<dots> = uint t + 2 ^ shift * digits_int (d # ds)"
  proof -
    have "2 ^ (62 - shift) * 2 ^ shift = (2 ^ 62 :: int)" by (simp only: p mult.commute)
    then show ?thesis by (simp add: algebra_simps)
  qed
  finally have total: "digits_int rs + (2 ^ 62) ^ length (d # ds) * uint t' = uint t + 2 ^ shift * digits_int (d # ds)" .
  have "length rs = length (d # ds)" "digits_ok rs" using ih(1,2) s(2) r lt by simp_all
  then show ?case using total ih(3) by blast
qed

lemma word_ceiling:
  assumes "a + 61 < 2 ^ 64"
  shows "word_of_nat a div 62 + (if (word_of_nat a :: ulong) mod 62 \<noteq> 0 then 1 else 0) = (word_of_nat ((a + 61) div 62) :: ulong)"
proof -
  have u: "unat (word_of_nat a :: ulong) = a" using assms by (intro unat_of_nat64) simp
  have d: "(word_of_nat a :: ulong) div 62 = word_of_nat (a div 62)" "(word_of_nat a :: ulong) mod 62 = word_of_nat (a mod 62)"
    using assms by (simp_all add: word_unat_eq_iff unat_div unat_mod u unat_of_nat64)
  have "unat (word_of_nat (a mod 62) :: ulong) = a mod 62" by (intro unat_of_nat64) simp
  then have "(word_of_nat (a mod 62) :: ulong) \<noteq> 0 \<longleftrightarrow> a mod 62 \<noteq> 0" by (simp add: word_unat_eq_iff)
  moreover have "(a + 61) div 62 = a div 62 + (if a mod 62 \<noteq> 0 then 1 else 0)"
  proof (cases "a mod 62 = 0")
    case True
    then have "a + 61 = 61 + 62 * (a div 62)" using mult_div_mod_eq [of 62 a] by simp
    then show ?thesis using True by (simp only:) simp
  next
    case False
    then have "a + 61 = (a mod 62 - 1) + 62 * (a div 62 + 1)" "a mod 62 - 1 < 62" using mult_div_mod_eq [of 62 a] by simp_all
    then have "(a + 61) div 62 = (a mod 62 - 1) div 62 + (a div 62 + 1)" "(a mod 62 - 1) div 62 = 0"
      by (simp_all only: div_mult_self2 div_less)
    then show ?thesis using False by simp
  qed
  ultimately show ?thesis by (simp add: d)
qed

text \<open>A result with zeros below given digits: its value, its normal form and its length.\<close>

lemma shifted_digits:
  fixes z s K :: nat and v :: int
  assumes "digits_normal ds" "ds \<noteq> []" "digits_int ds = v * 2 ^ s" "2 ^ (K - 1) \<le> v" "v < 2 ^ K" "0 < K"
  defines "out \<equiv> replicate z 0 @ ds"
  shows "digits_normal out" "digits_int out = v * 2 ^ (62 * z + s)" "length out = (K + (62 * z + s) + 61) div 62"
proof -
  show n: "digits_normal out" using assms(1,2) by (simp add: out_def digits_normal_def)
  show v: "digits_int out = v * 2 ^ (62 * z + s)" by (simp add: out_def assms(3) power_add power_mult)
  have "2 ^ (K + (62 * z + s) - 1) = 2 ^ (K - 1) * (2 :: int) ^ (62 * z + s)"
    using assms(6) by (simp flip: power_add)
  also have "\<dots> \<le> v * 2 ^ (62 * z + s)" using assms(4) by (intro mult_right_mono) simp_all
  finally have lo: "2 ^ (K + (62 * z + s) - 1) \<le> digits_int out" unfolding v .
  have "v * 2 ^ (62 * z + s) < 2 ^ K * 2 ^ (62 * z + s)" using assms(5) by (intro mult_strict_right_mono) simp_all
  then have "digits_int out < 2 ^ (K + (62 * z + s))" unfolding v by (simp only: power_add)
  with lo show "length out = (K + (62 * z + s) + 61) div 62"
    using assms(6) by (intro normal_length_bits [OF n]) simp_all
qed

lemma yields_shifted:
  assumes "digits_normal out" "out \<noteq> []" "length out = len" "len \<le> BIGNUM_LENGTH_MAX" "k = (if neg then - digits_int out else digits_int out)"
  shows "yields (map_option (\<lambda>r. r\<lparr>bignum_digits := out @ drop (length out) (bignum_digits r)\<rparr>) (bignum_allocate len neg)) k"
proof -
  have "map_option (\<lambda>r. r\<lparr>bignum_digits := out @ drop (length out) (bignum_digits r)\<rparr>) (bignum_allocate len neg)
      = Some (mk_bignum neg out)" using assms(3,4) by (simp add: bignum_allocate_eq)
  then show ?thesis using assms by (simp only:) (rule yields_mk, simp_all)
qed

lemma shift_left_digits:
  assumes "digits_normal ds" "ds \<noteq> []" "shift < 62"
    "(if shift = 0 then (ds, 0) else shift_left_scan shift ds 0) = (rs, t)"
  defines "out \<equiv> rs @ (if t \<noteq> 0 then [t] else [])"
  shows "digits_normal out \<and> out \<noteq> [] \<and> digits_int out = digits_int ds * 2 ^ shift"
proof (cases "shift = 0")
  case True
  then show ?thesis using assms by (simp add: out_def)
next
  case False
  have ok: "digits_ok ds" using assms(1) by (simp add: digits_normal_def)
  have sc: "length rs = length ds" "digits_ok rs" "uint t < 2 ^ shift"
    "digits_int rs + (2 ^ 62) ^ length ds * uint t = 2 ^ shift * digits_int ds"
    using shift_left_scan_correct [of shift ds 0 rs t] False ok assms(3,4) by simp_all
  have "(2 :: int) ^ shift \<le> 2 ^ 62" using assms(3) by (intro power_increasing) simp_all
  then have t: "uint t < 2 ^ 62" using sc(3) by linarith
  have v: "digits_int out = digits_int ds * 2 ^ shift"
    using sc(1,4) by (cases "t = 0") (simp_all add: out_def mult.commute)
  have o: "digits_ok out" "out \<noteq> []" using sc(1,2) t assms(2) by (auto simp: out_def)
  have "digits_normal out"
  proof (cases "t = 0")
    case True
    have "(2 ^ 62) ^ (length out - 1) * 1 \<le> digits_int ds * (2 ^ shift :: int)"
      using digits_normal_lower [OF assms(1,2)] True sc(1) by (intro mult_mono) (simp_all add: out_def)
    then show ?thesis using o(1) v by (intro digits_normalI) simp_all
  next
    case False
    then show ?thesis using o(1) by (simp add: digits_normal_def out_def)
  qed
  then show ?thesis using o(2) v by blast
qed

theorem bignum_shift_left_correct:
  assumes "bignum_wf n" "62 * BIGNUM_LENGTH n + unat m \<le> 62 * BIGNUM_LENGTH_MAX"
  shows "yields (bignum_shift_left n m) (bignum_int n * 2 ^ unat m)"
proof (cases "m = 0 \<or> BIGNUM_ZERO_P n")
  case True
  then show ?thesis using assms(1) bignum_wf_simps(6) [OF assms(1)] by (auto simp: bignum_shift_left_def)
next
  case nz: False
  let ?ds = "bignum_digits n" and ?z = "unat (m div 62)" and ?s = "unat (m mod 62)" and ?ln = "BIGNUM_LENGTH n"
  define k where "k = ulong_length_in_bits (BIGNUM_REF n (?ln - 1))"
  note w = bignum_wf_simps [OF assms(1)]
  have n0: "bignum_int n \<noteq> 0" and ne: "?ds \<noteq> []" using nz w(5,6) by auto
  define K where "K = k + 62 * (?ln - 1)"
  have K: "2 ^ (K - 1) \<le> digits_int ?ds" "digits_int ?ds < 2 ^ K" "0 < K" "K \<le> 62 * ?ln"
  proof -
    have e: "unat (bignum_length_in_bits n) = K" using length_in_bits_bounds [OF assms(1) n0] unfolding k_def K_def by blast
    then show "2 ^ (K - 1) \<le> digits_int ?ds" "digits_int ?ds < 2 ^ K" "0 < K" "K \<le> 62 * ?ln"
      using length_in_bits_bounds [OF assms(1) n0] unfolding e w(9) by blast+
  qed
  obtain rs t where s: "(if ?s = 0 then (?ds, 0) else shift_left_scan ?s ?ds 0) = (rs, t)" by fastforce
  define ds' where "ds' = rs @ (if t \<noteq> 0 then [t] else [])"
  have "digits_normal ds' \<and> ds' \<noteq> [] \<and> digits_int ds' = digits_int ?ds * 2 ^ ?s"
    using shift_left_digits [OF w(4) ne split_count(2) s] unfolding ds'_def .
  then have d: "digits_normal ds'" "ds' \<noteq> []" "digits_int ds' = digits_int ?ds * 2 ^ ?s" by blast+
  note sh = shifted_digits [OF d K(1-3), of ?z, unfolded split_count(1)]
  have len: "(K + unat m + 61) div 62 = ?ln - 1 + (k + unat m + 61) div 62" by (simp add: K_def)
  have ln1: "1 \<le> ?ln" using ne w(1) by (cases ?ds) auto
  have small: "k + unat m + 61 < 2 ^ 64" "(K + unat m + 61) div 62 \<le> BIGNUM_LENGTH_MAX"
    using assms(2) K(4) unfolding K_def by (simp_all add: BIGNUM_LENGTH_MAX_eq)
  have "word_of_nat ?ln - 1 + (word_of_nat k + m) div 62 + (if (word_of_nat k + m) mod 62 \<noteq> 0 then 1 else 0)
      = (word_of_nat ((K + unat m + 61) div 62) :: ulong)"
    using word_ceiling [OF small(1)] ln1 unfolding len by (simp add: add.assoc)
  then have ln2: "unat (word_of_nat ?ln - 1 + (word_of_nat k + m) div 62 + (if (word_of_nat k + m) mod 62 \<noteq> 0 then 1 else 0) :: ulong)
      = (K + unat m + 61) div 62"
    using small(2) LENGTH_MAX_small by (simp only:) (intro unat_of_nat64, simp add: BIGNUM_LENGTH_MAX_eq)
  have "yields (map_option (\<lambda>r. r\<lparr>bignum_digits := (replicate ?z 0 @ ds') @ drop (length (replicate ?z 0 @ ds')) (bignum_digits r)\<rparr>)
      (bignum_allocate ((K + unat m + 61) div 62) (BIGNUM_NEGATIVE_P n))) (bignum_int n * 2 ^ unat m)"
    using sh d(2) small(2) w(8,9) by (intro yields_shifted) auto
  then show ?thesis
    using nz unfolding bignum_shift_left_def Let_def k_def [symmetric] ln2 s ds'_def by simp
qed

section \<open>Shifted words and masks\<close>

lemma shifted_word_digits:
  assumes "n \<noteq> 0" "shift < 62"
  defines "ds \<equiv> (push_bit shift n AND BIGNUM_DIGIT_MASK) # word_digits_loop (drop_bit (62 - shift) n)"
  shows "digits_normal ds \<and> digits_int ds = uint n * 2 ^ shift"
proof -
  let ?hi = "drop_bit (62 - shift) n" and ?lo = "push_bit shift n AND BIGNUM_DIGIT_MASK"
  note lo = push_bit_low_digit [OF assms(2), of n]
  have p: "(2 :: int) ^ 62 = 2 ^ (62 - shift) * 2 ^ shift" using assms(2) by (simp flip: power_add)
  have "uint n mod 2 ^ (62 - shift) * 2 ^ shift < 2 ^ (62 - shift) * 2 ^ shift" by (intro mult_strict_right_mono) simp_all
  then have lo62: "uint ?lo < 2 ^ 62" by (simp only: lo p)
  note sp = split_digits_props [of ?hi]
  have hv: "digits_int (word_digits_loop ?hi) = uint n div 2 ^ (62 - shift)"
    using sp by (simp add: word_digits_loop_def uint_drop_bit64 [symmetric])
  have "digits_int ds = (uint n mod 2 ^ (62 - shift) + 2 ^ (62 - shift) * (uint n div 2 ^ (62 - shift))) * 2 ^ shift"
    unfolding ds_def digits_int_simps(2) lo hv p by (simp only: distrib_right distrib_left mult_ac)
  then have v: "digits_int ds = uint n * 2 ^ shift" by (simp only: mod_mult_div_eq)
  have "digits_normal ds"
  proof (cases "?hi = 0")
    case True
    then have "uint ?lo = uint n * 2 ^ shift" using v by (simp add: ds_def word_digits_loop_def)
    then have "?lo \<noteq> 0" using assms(1) by (auto simp: uint_0_iff)
    then show ?thesis using True lo62 by (simp add: ds_def word_digits_loop_def digits_normal_def)
  next
    case False
    then show ?thesis using sp lo62 by (simp add: ds_def word_digits_loop_def digits_normal_def)
  qed
  then show ?thesis using v by blast
qed

theorem unsigned_long_to_shifted_bignum_correct:
  assumes "unat m + 64 \<le> 62 * BIGNUM_LENGTH_MAX"
  shows "yields (unsigned_long_to_shifted_bignum n m sign) ((if sign then - uint n else uint n) * 2 ^ unat m)"
proof (cases "n = 0")
  case True
  then show ?thesis by (simp add: unsigned_long_to_shifted_bignum_def)
next
  case nz: False
  let ?z = "unat (m div 62)" and ?s = "unat (m mod 62)" and ?k = "ulong_length_in_bits n"
  define ds where "ds = (push_bit ?s n AND BIGNUM_DIGIT_MASK) # word_digits_loop (drop_bit (62 - ?s) n)"
  have d: "digits_normal ds" "ds \<noteq> []" "digits_int ds = uint n * 2 ^ ?s"
    using shifted_word_digits [OF nz split_count(2), of m] unfolding ds_def by simp_all
  note kb = ulong_length_in_bits_bounds [OF nz]
  note sh = shifted_digits [OF d kb(1-3), of ?z, unfolded split_count(1)]
  have small: "?k + unat m + 61 < 2 ^ 64" "(?k + unat m + 61) div 62 \<le> BIGNUM_LENGTH_MAX"
    using assms kb(4) by (simp_all add: BIGNUM_LENGTH_MAX_eq)
  have "(word_of_nat ?k + m) div 62 + (if (word_of_nat ?k + m) mod 62 \<noteq> 0 then 1 else 0)
      = (word_of_nat ((?k + unat m + 61) div 62) :: ulong)"
    using word_ceiling [OF small(1)] by simp
  then have ln: "unat ((word_of_nat ?k + m) div 62 + (if (word_of_nat ?k + m) mod 62 \<noteq> 0 then 1 else 0) :: ulong)
      = (?k + unat m + 61) div 62"
    using small(2) by (simp only:) (intro unat_of_nat64, simp add: BIGNUM_LENGTH_MAX_eq)
  have "yields (map_option (\<lambda>r. r\<lparr>bignum_digits := (replicate ?z 0 @ ds) @ drop (length (replicate ?z 0 @ ds)) (bignum_digits r)\<rparr>)
      (bignum_allocate ((?k + unat m + 61) div 62) sign)) ((if sign then - uint n else uint n) * 2 ^ unat m)"
    using sh d(2) small(2) by (intro yields_shifted) auto
  then show ?thesis
    using nz unfolding unsigned_long_to_shifted_bignum_def Let_def ln ds_def by simp
qed

lemma length_le_bits:
  assumes "bignum_wf b" "\<bar>bignum_int b\<bar> < 2 ^ (62 * l)"
  shows "BIGNUM_LENGTH b \<le> l"
proof (rule ccontr)
  assume n: "\<not> BIGNUM_LENGTH b \<le> l"
  note w = bignum_wf_simps [OF assms(1)]
  have "bignum_digits b \<noteq> []" using n w(1) by auto
  moreover have "(2 ^ 62 :: int) ^ l \<le> (2 ^ 62) ^ (length (bignum_digits b) - 1)"
    using n w(1) by (intro power_increasing) simp_all
  ultimately show False using digits_normal_lower [OF w(4)] assms(2) w(9) unfolding power_mult by linarith
qed

theorem bignum_nonnegative_one_bits_correct:
  assumes "unat n + unat p + 186 \<le> 62 * BIGNUM_LENGTH_MAX"
  shows "yields (bignum_nonnegative_one_bits n p) ((2 ^ unat n - 1) * 2 ^ unat p)"
    "yields (bignum_negative_zero_bits n p) (NOT ((2 ^ unat n - 1) * 2 ^ unat p))"
proof -
  have one: "BIGNUM_LENGTH (bignum_make_one True) = 1" by (simp add: bignum_make_eq)
  obtain a where a: "bignum_shift_left (bignum_make_one True) n = Some a" "bignum_wf a" "bignum_int a = - (2 ^ unat n)"
    using bignum_shift_left_correct [of "bignum_make_one True" n] assms one by (auto simp: yields_def split: option.splits)
  have len: "BIGNUM_LENGTH b \<le> (k + 61) div 62" if "bignum_wf b" "\<bar>bignum_int b\<bar> < 2 ^ k" for b k
  proof -
    have "(2 :: int) ^ k \<le> 2 ^ (62 * ((k + 61) div 62))" by (intro power_increasing) simp_all
    then have "\<bar>bignum_int b\<bar> < 2 ^ (62 * ((k + 61) div 62))" using that(2) by linarith
    with that(1) show ?thesis by (rule length_le_bits)
  qed
  have "BIGNUM_LENGTH a \<le> (unat n + 1 + 61) div 62" using a by (intro len) simp_all
  then have "short_bignum a" using a(2) assms by simp
  then obtain b where b: "bignum_bitwise_not a = Some b" "bignum_wf b" "bignum_int b = 2 ^ unat n - 1"
    using bignum_bitwise_not_correct [of a] a(3) by (auto simp: yields_def not_int_def split: option.splits)
  have lb: "BIGNUM_LENGTH b \<le> (unat n + 61) div 62" using b by (intro len) simp_all
  show y: "yields (bignum_nonnegative_one_bits n p) ((2 ^ unat n - 1) * 2 ^ unat p)"
    using bignum_shift_left_correct [OF b(2), of p] b(3) lb assms a(1) b(1) by (simp add: bignum_nonnegative_one_bits_def)
  then obtain c where c: "bignum_nonnegative_one_bits n p = Some c" "bignum_wf c" "bignum_int c = (2 ^ unat n - 1) * 2 ^ unat p"
    by (auto simp: yields_def split: option.splits)
  have "(2 ^ unat n - 1) * 2 ^ unat p < (2 :: int) ^ (unat n + unat p)" by (simp add: power_add)
  then have "BIGNUM_LENGTH c \<le> (unat n + unat p + 61) div 62" using c by (intro len) simp_all
  then have "short_bignum c" using c(2) assms by simp
  then show "yields (bignum_negative_zero_bits n p) (NOT ((2 ^ unat n - 1) * 2 ^ unat p))"
    using bignum_bitwise_not_correct [of c] c by (simp add: bignum_negative_zero_bits_def)
qed

end
