(* ===== verification/Bignum_Stream.thy ===== *)
theory Bignum_Stream
  imports Bignum_Div Bignum_Shift
begin

text \<open>
  The conversion of bignums from and to digit streams in a small radix
  (\<open>microcode/bignum.c\<close>). A stream is a callback with a context: the producer of
  \<open>digit_stream_to_bignum\<close> is a function from a context to a digit and the next context, the
  consumer of \<open>bignum_to_digit_stream\<close> a function from a context and a digit to the next
  context.
\<close>

section \<open>Reading a stream\<close>

fun increment_scan :: "long list \<Rightarrow> long list option" where
  "increment_scan [] = None"
| "increment_scan (d # ds) =
     (let digit = d + 1
      in if digit < BIGNUM_RADIX then Some (digit # ds)
         else map_option (Cons (digit - BIGNUM_RADIX)) (increment_scan ds))"

text \<open>The code does not check for the end of the digits; running past it is \<^const>\<open>None\<close>.\<close>

definition bignum_destructive_add :: "bignum \<Rightarrow> long \<Rightarrow> bignum option" where
  "bignum_destructive_add b n =
     (case bignum_digits b of
        [] \<Rightarrow> None
      | d # ds \<Rightarrow>
          let digit = d + n
          in if digit < BIGNUM_RADIX then Some (b\<lparr>bignum_digits := digit # ds\<rparr>)
             else map_option (\<lambda>ds'. b\<lparr>bignum_digits := (digit - BIGNUM_RADIX) # ds'\<rparr>) (increment_scan ds))"

primrec read_stream :: "nat \<Rightarrow> ('c \<Rightarrow> 32 word \<times> 'c) \<Rightarrow> 'c \<Rightarrow> 32 word \<Rightarrow> bignum \<Rightarrow> (bignum \<times> 'c) option" where
  "read_stream 0 producer context radix result = Some (result, context)"
| "read_stream (Suc n) producer context radix result =
     do {
       result \<leftarrow> bignum_destructive_scale_up result (ucast radix);
       let (digit, context) = producer context;
       result \<leftarrow> bignum_destructive_add result (ucast digit);
       read_stream n producer context radix result
     }"

text \<open>
  The product that gives the length is computed in \<open>unsigned int\<close>, the type of both of its
  factors.
\<close>

definition digit_stream_to_bignum ::
  "32 word \<Rightarrow> ('c \<Rightarrow> 32 word \<times> 'c) \<Rightarrow> 'c \<Rightarrow> 32 word \<Rightarrow> bool \<Rightarrow> (bignum \<times> 'c) option" where
  "digit_stream_to_bignum n_digits producer context radix negative_p =
     (if radix > 1 \<and> ucast radix \<le> BIGNUM_RADIX_ROOT
      then (if n_digits = 0 then Some (bignum_make_zero, context)
            else if n_digits = 1
            then (let (d, context) = producer context;
                      digit = ucast d
                  in map_option (\<lambda>r. (r, context)) (long_to_bignum (if negative_p then - digit else digit)))
            else let len = unat (BIGNUM_BITS_TO_DIGITS
                       (ucast (n_digits * word_of_nat (ulong_length_in_bits (ucast radix)))))
                 in do {
                   result \<leftarrow> bignum_allocate_zeroed len negative_p;
                   (result, context) \<leftarrow> read_stream (unat n_digits) producer context radix result;
                   Some (bignum_trim result, context)
                 })
      else None)"

section \<open>Writing a stream\<close>

partial_function (option) write_stream ::
  "32 word \<Rightarrow> ('c \<Rightarrow> long \<Rightarrow> 'c) \<Rightarrow> bignum \<Rightarrow> nat \<Rightarrow> 'c \<Rightarrow> 'c option" where
  "write_stream radix consumer working_copy scan context =
     (if scan = 0 then Some context
      else if bignum_digits working_copy ! (scan - 1) = 0
      then write_stream radix consumer working_copy (scan - 1) context
      else do {
        wr \<leftarrow> bignum_destructive_scale_down working_copy (ucast radix);
        write_stream radix consumer (fst wr) scan (consumer context (snd wr))
      })"

definition bignum_to_digit_stream :: "bignum \<Rightarrow> 32 word \<Rightarrow> ('c \<Rightarrow> long \<Rightarrow> 'c) \<Rightarrow> 'c \<Rightarrow> 'c option" where
  "bignum_to_digit_stream b radix consumer context =
     (if radix > 1 \<and> ucast radix \<le> BIGNUM_RADIX_ROOT
      then (if \<not> BIGNUM_ZERO_P b
            then do {
              working_copy \<leftarrow> bignum_copy b;
              write_stream radix consumer working_copy (BIGNUM_LENGTH working_copy) context
            }
            else Some context)
      else None)"

definition bignum_max_digit_stream_radix :: long where
  "bignum_max_digit_stream_radix = BIGNUM_RADIX_ROOT"

section \<open>The digits a producer delivers\<close>

primrec produced :: "nat \<Rightarrow> ('c \<Rightarrow> 32 word \<times> 'c) \<Rightarrow> 'c \<Rightarrow> 32 word list \<times> 'c" where
  "produced 0 producer context = ([], context)"
| "produced (Suc n) producer context =
     (let (d, context) = producer context; (ds, context) = produced n producer context in (d # ds, context))"

definition horner :: "int \<Rightarrow> int \<Rightarrow> 32 word list \<Rightarrow> int" where
  "horner r v ds = foldl (\<lambda>v d. r * v + uint d) v ds"

lemma horner_simps [simp]: "horner r v [] = v" "horner r v (d # ds) = horner r (r * v + uint d) ds"
  by (simp_all add: horner_def)

lemma produced_length: "length (fst (produced n p c)) = n"
  by (induction n arbitrary: c) (auto simp: Let_def split: prod.splits, metis fst_conv)

section \<open>Correctness of reading\<close>

lemma increment_scan_correct:
  assumes "digits_ok ds" "digits_int ds + 1 < (2 ^ 62) ^ length ds"
  shows "\<exists>rs. increment_scan ds = Some rs \<and> length rs = length ds \<and> digits_ok rs \<and> digits_int rs = digits_int ds + 1"
  using assms
proof (induction ds)
  case (Cons d ds)
  have d: "uint d < 2 ^ 62" "digits_ok ds" using Cons.prems(1) by simp_all
  have d1: "uint (d + 1) = uint d + 1" using d(1) by (simp add: uint_add_exact)
  show ?case
  proof (cases "d + 1 < BIGNUM_RADIX")
    case True
    then have "uint d + 1 < 2 ^ 62" by (simp add: word_less_def d1)
    then show ?thesis using True d d1 by simp
  next
    case False
    then have e: "uint d = 2 ^ 62 - 1" using d(1) by (simp add: word_less_def d1)
    have "digits_int ds + 1 < (2 ^ 62) ^ length ds"
    proof -
      have "2 ^ 62 * (digits_int ds + 1) < 2 ^ 62 * (2 ^ 62) ^ length ds" using Cons.prems(2) e by simp
      then show ?thesis by (simp only: mult_less_cancel_left_pos zero_less_power zero_less_numeral)
    qed
    then obtain rs where "increment_scan ds = Some rs" "length rs = length ds" "digits_ok rs" "digits_int rs = digits_int ds + 1"
      using Cons.IH d(2) by blast
    moreover have "uint (d + 1 - BIGNUM_RADIX) = 0" using e by (subst uint_sub_exact) (simp_all add: d1)
    ultimately show ?thesis using False e by simp
  qed
qed simp

lemma bignum_destructive_add_correct:
  assumes "digits_ok ds" "uint n < 2 ^ 62" "digits_int ds + uint n < (2 ^ 62) ^ length ds" "ds \<noteq> []"
  shows "\<exists>rs. bignum_destructive_add (mk_bignum neg ds) n = Some (mk_bignum neg rs)
    \<and> length rs = length ds \<and> digits_ok rs \<and> digits_int rs = digits_int ds + uint n"
proof -
  obtain d es where ds: "ds = d # es" using assms(4) by (cases ds) auto
  have d: "uint d < 2 ^ 62" "digits_ok es" using assms(1) ds by simp_all
  have dn: "uint (d + n) = uint d + uint n" using d(1) assms(2) by (intro uint_add_exact) simp
  show ?thesis
  proof (cases "d + n < BIGNUM_RADIX")
    case True
    then have "uint d + uint n < 2 ^ 62" by (simp add: word_less_def dn)
    then show ?thesis using True d dn by (intro exI [of _ "(d + n) # es"]) (simp add: bignum_destructive_add_def ds)
  next
    case False
    then have g: "2 ^ 62 \<le> uint d + uint n" by (simp add: word_less_def dn)
    have l: "uint (d + n - BIGNUM_RADIX) = uint d + uint n - 2 ^ 62" using g by (subst uint_sub_exact) (simp_all add: dn)
    have "2 ^ 62 * (digits_int es + 1) < 2 ^ 62 * (2 ^ 62) ^ length es" using assms(3) g ds by simp
    then have "digits_int es + 1 < (2 ^ 62) ^ length es"
      by (simp only: mult_less_cancel_left_pos zero_less_power zero_less_numeral)
    then obtain rs where "increment_scan es = Some rs" "length rs = length es" "digits_ok rs" "digits_int rs = digits_int es + 1"
      using increment_scan_correct [OF d(2)] by blast
    then show ?thesis using False d(1) assms(2) l
      by (intro exI [of _ "(d + n - BIGNUM_RADIX) # rs"]) (simp add: bignum_destructive_add_def ds)
  qed
qed

lemma radix_factor:
  fixes radix :: "32 word"
  assumes "1 < uint radix" "uint radix < 2 ^ 31"
  shows "uint (ucast radix :: ulong) = uint radix" "long_less 1 (ucast radix)" "ucast radix < BIGNUM_RADIX_ROOT"
proof -
  show u: "uint (ucast radix :: ulong) = uint radix"
    using assms by (simp add: unsigned_ucast_eq take_bit_int_eq_self)
  show "long_less 1 (ucast radix)" using assms u by (subst long_less_uint) simp_all
  show "ucast radix < BIGNUM_RADIX_ROOT" using assms(2) u by (simp add: word_less_def)
qed

lemma uint_ucast32: "uint (ucast (d :: 32 word) :: ulong) = uint d"
proof -
  have "uint d < 2 ^ 32" using uint_lt2p [of d] by simp
  then show ?thesis by (simp add: unsigned_ucast_eq take_bit_int_eq_self)
qed

lemma read_stream_correct:
  assumes "1 < uint radix" "uint radix < 2 ^ 31"
  shows "produced n producer c = (ds, c') \<Longrightarrow> \<forall>d\<in>set ds. d < radix \<Longrightarrow>
    digits_ok ws \<Longrightarrow> ws \<noteq> [] \<Longrightarrow> length ws < 2 ^ 62 \<Longrightarrow>
    (digits_int ws + 1) * uint radix ^ n \<le> (2 ^ 62) ^ length ws \<Longrightarrow>
    \<exists>rs. read_stream n producer c radix (mk_bignum neg ws) = Some (mk_bignum neg rs, c')
      \<and> digits_ok rs \<and> length rs = length ws \<and> digits_int rs = horner (uint radix) (digits_int ws) ds"
proof (induction n arbitrary: c ds ws)
  case 0
  then show ?case by (intro exI [of _ ws]) auto
next
  case (Suc n)
  let ?r = "uint radix"
  obtain d c1 where p: "producer c = (d, c1)" by fastforce
  obtain ds1 where ds: "produced n producer c1 = (ds1, c')" "ds = d # ds1"
    using Suc.prems(1) p by (auto split: prod.splits)
  have dr: "uint d + 1 \<le> ?r" using Suc.prems(2) ds(2) by (simp add: word_less_def)
  have r1: "1 \<le> ?r ^ n" using assms(1) by (intro one_le_power) simp
  have v0: "0 \<le> digits_int ws" by simp
  have le: "?r * digits_int ws + uint d + 1 \<le> (digits_int ws + 1) * ?r" using dr by (simp add: algebra_simps)
  have "(?r * digits_int ws + uint d + 1) * ?r ^ n \<le> (digits_int ws + 1) * ?r * ?r ^ n"
    using le r1 by (intro mult_right_mono) simp_all
  then have step: "(?r * digits_int ws + uint d + 1) * ?r ^ n \<le> (2 ^ 62) ^ length ws"
    using Suc.prems(6) by (simp add: mult.assoc)
  have "(?r * digits_int ws + uint d + 1) * 1 \<le> (?r * digits_int ws + uint d + 1) * ?r ^ n"
    using r1 v0 assms(1) by (intro mult_left_mono) (simp_all add: add_nonneg_nonneg)
  then have lt: "?r * digits_int ws + uint d < (2 ^ 62) ^ length ws" using step unfolding mult_1_right by linarith
  have d0: "0 \<le> uint d" by simp
  note rf = radix_factor [OF assms]
  obtain as where as: "bignum_destructive_scale_up (mk_bignum neg ws) (ucast radix) = Some (mk_bignum neg as)"
    "length as = length ws" "digits_ok as" "digits_int as = ?r * digits_int ws"
  proof -
    have "?r * digits_int ws < (2 ^ 62) ^ length ws" using lt d0 by linarith
    then show ?thesis
      using bignum_destructive_scale_up_correct [OF rf(2,3) Suc.prems(3,5), of neg] that unfolding rf(1) by blast
  qed
  have d62: "uint (ucast d :: ulong) < 2 ^ 62" using dr assms(2) unfolding uint_ucast32 by simp
  obtain bs where bs: "bignum_destructive_add (mk_bignum neg as) (ucast d) = Some (mk_bignum neg bs)"
    "length bs = length as" "digits_ok bs" "digits_int bs = digits_int as + uint d"
  proof -
    have "digits_int as + uint d < (2 ^ 62) ^ length as" "as \<noteq> []" using lt as(2,4) Suc.prems(4) by auto
    then show ?thesis
      using bignum_destructive_add_correct [OF as(3) d62, of neg] that unfolding uint_ucast32 by blast
  qed
  have "bs \<noteq> []" using bs(2) as(2) Suc.prems(4) by auto
  moreover have "\<forall>d\<in>set ds1. d < radix" "length bs < 2 ^ 62" "(digits_int bs + 1) * ?r ^ n \<le> (2 ^ 62) ^ length bs"
    using Suc.prems(2,5) ds(2) bs(2,4) as(2,4) step by simp_all
  ultimately obtain rs where "read_stream n producer c1 radix (mk_bignum neg bs) = Some (mk_bignum neg rs, c')"
    "digits_ok rs" "length rs = length bs" "digits_int rs = horner ?r (digits_int bs) ds1"
    using Suc.IH [OF ds(1) _ bs(3)] by blast
  then show ?case using p as(1,2,4) bs(1,2,4) ds(2) by (intro exI [of _ rs]) simp
qed

lemma horner_bounds:
  assumes "\<forall>d\<in>set ds. uint d < r" "0 \<le> v" "1 < r"
  shows "0 \<le> horner r v ds" "horner r v ds < (v + 1) * r ^ length ds"
proof -
  have "0 \<le> horner r v ds \<and> horner r v ds < (v + 1) * r ^ length ds" using assms
  proof (induction ds arbitrary: v)
    case (Cons d ds)
    have d: "uint d + 1 \<le> r" "0 \<le> uint d" using Cons.prems(1) by simp_all
    have "0 \<le> r * v + uint d" using Cons.prems d by (intro add_nonneg_nonneg mult_nonneg_nonneg) simp_all
    with Cons have ih: "0 \<le> horner r (r * v + uint d) ds" "horner r (r * v + uint d) ds < (r * v + uint d + 1) * r ^ length ds"
      by simp_all
    have "(r * v + uint d + 1) * r ^ length ds \<le> ((v + 1) * r) * r ^ length ds"
      using d Cons.prems by (intro mult_right_mono) (simp_all add: algebra_simps)
    with ih show ?case by (simp add: mult.assoc)
  qed simp
  then show "0 \<le> horner r v ds" "horner r v ds < (v + 1) * r ^ length ds" by blast+
qed

theorem digit_stream_to_bignum_correct:
  assumes "1 < uint radix" "uint radix < 2 ^ 31"
    "unat n_digits * ulong_length_in_bits (ucast radix) < 2 ^ 32"
    "produced (unat n_digits) producer c = (ds, c')" "\<forall>d\<in>set ds. d < radix"
  shows "\<exists>r. digit_stream_to_bignum n_digits producer c radix neg = Some (r, c') \<and> bignum_wf r
    \<and> bignum_int r = (if neg then - horner (uint radix) 0 ds else horner (uint radix) 0 ds)"
proof -
  let ?n = "unat n_digits" and ?k = "ulong_length_in_bits (ucast radix)"
  note rf = radix_factor [OF assms(1,2)]
  have ok: "radix > 1 \<and> ucast radix \<le> BIGNUM_RADIX_ROOT" using less_imp_le [OF rf(3)] assms(1) by (simp add: word_less_def)
  consider "n_digits = 0" | "n_digits = 1" | "n_digits \<noteq> 0" "n_digits \<noteq> 1" by blast
  then show ?thesis
  proof cases
    case 1
    then show ?thesis using ok assms(4) by (auto simp: digit_stream_to_bignum_def)
  next
    case 2
    obtain d where d: "producer c = (d, c')" "ds = [d]" using 2 assms(4) by (auto split: prod.splits)
    have "uint (ucast d :: ulong) < 2 ^ 63" using uint_lt2p [of d] by (simp add: uint_ucast32)
    then have "sint (ucast d :: ulong) = uint d" by (simp add: sint_eq_uint64 uint_ucast32)
    moreover have "- (2 ^ 63) < uint d" by (rule less_le_trans [of _ 0]) simp_all
    ultimately have "sint (ucast d :: ulong) = uint d" "sint (- (ucast d :: ulong)) = - uint d"
      by (simp_all add: sint_arith64(3))
    then show ?thesis
      using ok 2 d long_to_bignum_correct [of "if neg then - ucast d else ucast d"]
      by (cases "long_to_bignum (if neg then - ucast d else ucast d)") (auto simp: digit_stream_to_bignum_def)
  next
    case 3
    define len where "len = (?n * ?k + 61) div 62"
    have r0: "(ucast radix :: ulong) \<noteq> 0" using assms(1) rf(1) by auto
    note kb = ulong_length_in_bits_bounds [OF r0, unfolded rf(1)]
    have n0: "0 < ?n" using 3(1) by (simp add: unat_gt_0)
    have "1 \<le> ?n * ?k" using n0 kb(3) by simp
    then have "1 \<le> len" unfolding len_def by linarith
    then have l: "1 \<le> len" "len \<le> BIGNUM_LENGTH_MAX" "len < 2 ^ 62" "?n * ?k \<le> 62 * len"
      using assms(3) unfolding len_def by (simp_all add: BIGNUM_LENGTH_MAX_eq)
    have le: "unat (BIGNUM_BITS_TO_DIGITS (ucast (n_digits * word_of_nat ?k))) = len"
    proof -
      have "unat (n_digits * word_of_nat ?k) = ?n * ?k"
        using assms(3) kb(4) by (simp add: unat_word_ariths(2) unat_of_nat take_bit_nat_eq_self)
      then have "unat (ucast (n_digits * word_of_nat ?k) :: ulong) = ?n * ?k"
        using assms(3) by (simp add: unsigned_ucast_eq take_bit_nat_eq_self)
      moreover from this have "unat (ucast (n_digits * word_of_nat ?k) + 61 :: ulong) = ?n * ?k + 61"
        using assms(3) by (subst unat_add_lem [THEN iffD1]) simp_all
      ultimately show ?thesis by (simp add: BIGNUM_BITS_TO_DIGITS_def unat_div len_def)
    qed
    have "uint radix ^ ?n \<le> (2 ^ ?k) ^ ?n" using kb(2) assms(1) by (intro power_mono) simp_all
    also have "\<dots> = 2 ^ (?n * ?k)" by (simp add: mult.commute flip: power_mult)
    also have "\<dots> \<le> 2 ^ (62 * len)" using l(4) by (intro power_increasing) simp_all
    finally have fits: "(digits_int (replicate len 0) + 1) * uint radix ^ ?n \<le> (2 ^ 62) ^ length (replicate len (0 :: long))"
      by (simp add: power_mult)
    obtain rs where rs: "read_stream ?n producer c radix (mk_bignum neg (replicate len 0)) = Some (mk_bignum neg rs, c')"
      "digits_ok rs" "length rs = len" "digits_int rs = horner (uint radix) 0 ds"
      using read_stream_correct [OF assms(1,2,4,5) _ _ _ fits, of neg] l by auto
    have "yields (Some (bignum_trim (mk_bignum neg rs))) (if neg then - horner (uint radix) 0 ds else horner (uint radix) 0 ds)"
      using rs(2-4) l by (intro yields_trim) auto
    then show ?thesis using ok 3 le rs(1) l(2) by (simp add: digit_stream_to_bignum_def bignum_allocate_eq)
  qed
qed

section \<open>Correctness of writing\<close>

text \<open>The digits of a nonnegative integer, least significant first.\<close>

function int_digits :: "int \<Rightarrow> int \<Rightarrow> int list" where
  "int_digits r v = (if v \<le> 0 \<or> r \<le> 1 then [] else v mod r # int_digits r (v div r))"
  by pat_completeness auto

termination
  by (relation "measure (\<lambda>(r, v). nat v)") (auto intro: int_div_less_self)

declare int_digits.simps [simp del]

lemma destructive_scale_down_correct:
  assumes "long_less 1 d" "d < BIGNUM_RADIX_ROOT" "digits_ok ws"
  shows "\<exists>rs r. bignum_destructive_scale_down (mk_bignum neg ws) d = Some (mk_bignum neg rs, r)
    \<and> length rs = length ws \<and> digits_ok rs \<and> digits_int rs = digits_int ws div uint d \<and> uint r = digits_int ws mod uint d"
proof -
  note d = uint_gt_1 [OF assms(1,2)]
  obtain qs r where s: "scale_down_scan d (rev ws) 0 = (qs, r)" by fastforce
  have sd: "short_division (uint d) (rev ws) 0 qs (uint r)"
    using scale_down_scan_correct [of d 0 "rev ws" qs r] d s assms(3) by simp
  have v: "digits_int (rev (rev ws)) = digits_int ws" by simp
  show ?thesis
    using short_division_div_mod [OF sd v] sd s assms(1,2)
    by (intro exI [of _ "rev qs"] exI [of _ r]) (simp add: bignum_destructive_scale_down_def short_division_def)
qed

lemma write_stream_correct:
  assumes "1 < uint radix" "uint radix < 2 ^ 31"
  shows "digits_ok ws \<Longrightarrow> scan \<le> length ws \<Longrightarrow> digits_int (drop scan ws) = 0 \<Longrightarrow>
    write_stream radix consumer (mk_bignum neg ws) scan c =
    Some (foldl consumer c (map word_of_int (int_digits (uint radix) (digits_int ws))))"
proof (induction "nat (digits_int ws) + scan" arbitrary: ws scan c rule: less_induct)
  case less
  note rf = radix_factor [OF assms]
  have split: "digits_int ws = digits_int (take scan ws) + (2 ^ 62) ^ scan * digits_int (drop scan ws)"
    using digits_int_simps(4) [of "take scan ws" "drop scan ws"] less.prems(2) by simp
  show ?case
  proof (cases scan)
    case 0
    then have "digits_int ws = 0" using less.prems(3) by simp
    then show ?thesis using 0 by (subst write_stream.simps, subst int_digits.simps) simp
  next
    case (Suc k)
    have kl: "k < length ws" using Suc less.prems(2) by simp
    have dr: "drop k ws = ws ! k # drop (Suc k) ws" using kl by (rule Cons_nth_drop_Suc [symmetric])
    show ?thesis
    proof (cases "ws ! k = 0")
      case True
      have "digits_int (drop k ws) = 0" using less.prems(3) Suc True unfolding dr by simp
      then show ?thesis
        using less.hyps [of ws k c] less.prems(1,2) Suc True by (subst write_stream.simps) simp
    next
      case False
      have "0 < uint (ws ! k)" using uint_pos [OF False] by linarith
      have "0 < digits_int (drop k ws)" unfolding dr using \<open>0 < uint (ws ! k)\<close> by (simp add: add_pos_nonneg)
      moreover have "digits_int ws = digits_int (take k ws) + (2 ^ 62) ^ k * digits_int (drop k ws)"
        using digits_int_simps(4) [of "take k ws" "drop k ws"] kl by simp
      ultimately have pos: "0 < digits_int ws" by (simp add: add_nonneg_pos)
      obtain rs r where r: "bignum_destructive_scale_down (mk_bignum neg ws) (ucast radix) = Some (mk_bignum neg rs, r)"
        "length rs = length ws" "digits_ok rs" "digits_int rs = digits_int ws div uint radix" "uint r = digits_int ws mod uint radix"
        using destructive_scale_down_correct [OF rf(2,3) less.prems(1), of neg] unfolding rf(1) by blast
      have "digits_int ws div uint radix < digits_int ws" using pos assms(1) by (intro int_div_less_self) simp_all
      then have m: "nat (digits_int rs) + scan < nat (digits_int ws) + scan" using r(4) pos by simp
      have z: "digits_int (drop scan rs) = 0"
      proof -
        have "digits_int rs \<le> digits_int ws" using r(4) pos assms(1) by (simp add: int_div_less_self less_imp_le)
        also have "\<dots> < (2 ^ 62) ^ scan"
          using split less.prems(3) digits_int_less [OF digits_ok_take_drop(1) [OF less.prems(1)], of scan] less.prems(2) by simp
        finally have "digits_int rs div (2 ^ 62) ^ scan = 0" by simp
        moreover have "digits_int (drop scan rs) = digits_int rs div 2 ^ (62 * scan)"
          using drop_digits_int [OF r(3)] r(2) less.prems(2) by simp
        ultimately show ?thesis by (simp only: power_mult)
      qed
      have rw: "r = word_of_int (digits_int ws mod uint radix)" using r(5) by (metis word_of_int_uint)
      have "write_stream radix consumer (mk_bignum neg ws) scan c = write_stream radix consumer (mk_bignum neg rs) scan (consumer c r)"
        using Suc False r(1) by (subst write_stream.simps) simp
      also have "\<dots> = Some (foldl consumer (consumer c r) (map word_of_int (int_digits (uint radix) (digits_int ws div uint radix))))"
        using less.hyps [OF m r(3) _ z] r(2,4) less.prems(2) by simp
      also have "\<dots> = Some (foldl consumer c (map word_of_int (int_digits (uint radix) (digits_int ws))))"
        using pos assms(1) by (subst (2) int_digits.simps) (simp add: rw)
      finally show ?thesis .
    qed
  qed
qed

theorem bignum_to_digit_stream_correct:
  assumes "bignum_wf b" "1 < uint radix" "uint radix < 2 ^ 31"
  shows "bignum_to_digit_stream b radix consumer c =
    Some (foldl consumer c (map word_of_int (int_digits (uint radix) \<bar>bignum_int b\<bar>)))"
proof -
  note rf = radix_factor [OF assms(2,3)]
  have ok: "radix > 1 \<and> ucast radix \<le> BIGNUM_RADIX_ROOT" using less_imp_le [OF rf(3)] assms(2) by (simp add: word_less_def)
  obtain neg ds where b: "b = mk_bignum neg ds" "length ds \<le> BIGNUM_LENGTH_MAX" "length ds < 2 ^ 62" "digits_normal ds"
    using assms(1) by (rule bignum_wf_cases)
  show ?thesis
  proof (cases "BIGNUM_ZERO_P b")
    case True
    then have "bignum_int b = 0" using bignum_wf_simps(6) [OF assms(1)] by simp
    then show ?thesis using True ok by (simp add: bignum_to_digit_stream_def int_digits.simps)
  next
    case False
    have "write_stream radix consumer b (length ds) c =
        Some (foldl consumer c (map word_of_int (int_digits (uint radix) (digits_int ds))))"
      unfolding b(1) using b(4) by (intro write_stream_correct assms) (simp_all add: digits_normal_def)
    then show ?thesis
      using False ok b bignum_wf_simps(9) [OF assms(1)]
      by (simp add: bignum_to_digit_stream_def bignum_copy_eq)
  qed
qed

text \<open>Reading the digits back, most significant first, gives the magnitude.\<close>

lemma horner_append: "horner r v (xs @ [d]) = r * horner r v xs + uint d"
  by (simp add: horner_def)

lemma horner_int_digits:
  assumes "1 < r" "r \<le> 2 ^ 32"
  shows "0 \<le> v \<Longrightarrow> horner r 0 (map word_of_int (rev (int_digits r v))) = v"
proof (induction "nat v" arbitrary: v rule: less_induct)
  case less
  show ?case
  proof (cases "v = 0")
    case True
    then show ?thesis by (simp add: int_digits.simps)
  next
    case False
    then have v: "0 < v" using less.prems by simp
    have "v div r < v" "0 \<le> v div r" using v assms(1) by (simp_all add: int_div_less_self pos_imp_zdiv_nonneg_iff)
    then have ih: "horner r 0 (map word_of_int (rev (int_digits r (v div r)))) = v div r" using v by (intro less.hyps) simp_all
    have "0 \<le> v mod r" "v mod r < 2 ^ 32"
      using assms less_le_trans [OF pos_mod_bound [of r v] assms(2)] by simp_all
    then have "uint (word_of_int (v mod r) :: 32 word) = v mod r" by (simp add: uint_word_of_int_eq take_bit_int_eq_self)
    then show ?thesis using v assms(1) ih by (subst int_digits.simps) (simp add: horner_append)
  qed
qed

text \<open>
  The 32-bit product that sizes the result wraps: for \<open>2 ^ 30\<close> decimal digits it is zero,
  no digit is allocated, and the first digit of the stream is added past the end.
\<close>

theorem digit_stream_length_wraps:
  "digit_stream_to_bignum 0x40000000 producer c 10 neg = None"
proof -
  have k: "ulong_length_in_bits 10 = 4" by (rule ulong_length_in_bits_eq [of 3, simplified]) simp_all
  obtain d c' where p: "producer c = (d, c')" by fastforce
  have n: "unat (0x40000000 :: 32 word) = Suc 0x3FFFFFFF" by simp
  have u: "(ucast (10 :: 32 word) :: ulong) = 10" by (simp add: word_uint_eq_iff uint_ucast32)
  have l: "long_less 1 (10 :: long)" "(10 :: ulong) < BIGNUM_RADIX_ROOT"
    using radix_factor [of 10] u by simp_all
  have "read_stream (Suc k) producer c 10 (mk_bignum neg []) = None" for k
    using l p by (simp add: u bignum_destructive_scale_up_def bignum_destructive_add_def)
  then have "read_stream (unat (0x40000000 :: 32 word)) producer c 10 (mk_bignum neg []) = None" by (simp only: n)
  moreover have "unat (BIGNUM_BITS_TO_DIGITS (ucast (0x40000000 * 4 :: 32 word))) = 0"
    by (simp add: BIGNUM_BITS_TO_DIGITS_def)
  ultimately show ?thesis using l by (simp add: digit_stream_to_bignum_def u k bignum_allocate_eq)
qed

end
