(* ===== verification/Integer_Ops.thy ===== *)
theory Integer_Ops
  imports Fixnum Bignum_Mul Bignum_Long_Div Bignum_Conv Bignum_Bitwise Bignum_Bits Bignum_Shift
begin

text \<open>
  The generic exact integers of \<open>microcode/artutl.c\<close>. A Scheme integer is a fixnum object
  or a bignum; the C functions test the tag with \<open>FIXNUM_P\<close> and use \<open>long\<close> arithmetic on
  two fixnums and the bignum code otherwise, converting a fixnum operand with
  \<open>FIXNUM_TO_BIGNUM\<close> and the result back with \<open>bignum_to_integer\<close>. The tag test is the
  case distinction on \<open>integer\<close> here; the callers have checked that an operand is an
  integer. As in the bignum theories, a result \<^const>\<open>None\<close> is a failed assertion.

  The invariant \<open>integer_ok\<close> is the canonical form: a fixnum object, or a bignum in normal
  form outside the fixnum range. Every operation maps canonical integers to the canonical
  integer of the mathematical result.
\<close>

section \<open>Integers\<close>

datatype integer = Fixnum_Object ulong | Bignum_Object bignum

definition FIXNUM_TO_BIGNUM :: "ulong \<Rightarrow> bignum option" where
  "FIXNUM_TO_BIGNUM fixnum = long_to_bignum (FIXNUM_TO_LONG fixnum)"

definition BIGNUM_TO_FIXNUM_P :: "bignum \<Rightarrow> bool option" where
  "BIGNUM_TO_FIXNUM_P b = bignum_fits_in_word_p b (word_of_nat (FIXNUM_LENGTH + 1)) True"

definition BIGNUM_TO_FIXNUM :: "bignum \<Rightarrow> ulong" where
  "BIGNUM_TO_FIXNUM b = LONG_TO_FIXNUM (bignum_to_long b)"

definition BIGNUM_TO_LONG_P :: "bignum \<Rightarrow> bool option" where
  "BIGNUM_TO_LONG_P b = bignum_fits_in_word_p b 64 True"

definition BIGNUM_TO_ULONG_P :: "bignum \<Rightarrow> bool option" where
  "BIGNUM_TO_ULONG_P b = bignum_fits_in_word_p b 64 False"

definition BIGNUM_LESS_P :: "bignum \<Rightarrow> bignum \<Rightarrow> bool" where
  "BIGNUM_LESS_P x y = (bignum_compare x y = bignum_comparison_less)"

text \<open>A bignum operand: a fixnum is converted first.\<close>

fun to_bignum :: "integer \<Rightarrow> bignum option" where
  "to_bignum (Fixnum_Object x) = FIXNUM_TO_BIGNUM x"
| "to_bignum (Bignum_Object b) = Some b"

section \<open>Conversions\<close>

fun integer_to_long_p :: "integer \<Rightarrow> bool option" where
  "integer_to_long_p (Fixnum_Object n) = Some True"
| "integer_to_long_p (Bignum_Object n) = BIGNUM_TO_LONG_P n"

fun integer_to_long :: "integer \<Rightarrow> long" where
  "integer_to_long (Fixnum_Object n) = FIXNUM_TO_LONG n"
| "integer_to_long (Bignum_Object n) = bignum_to_long n"

definition long_to_integer :: "long \<Rightarrow> integer option" where
  "long_to_integer number =
     (if LONG_TO_FIXNUM_P number then Some (Fixnum_Object (LONG_TO_FIXNUM number))
      else map_option Bignum_Object (long_to_bignum number))"

fun integer_to_ulong_p :: "integer \<Rightarrow> bool option" where
  "integer_to_ulong_p (Fixnum_Object n) = Some (\<not> FIXNUM_NEGATIVE_P n)"
| "integer_to_ulong_p (Bignum_Object n) = BIGNUM_TO_ULONG_P n"

fun integer_to_ulong :: "integer \<Rightarrow> ulong option" where
  "integer_to_ulong (Fixnum_Object n) = Some (FIXNUM_TO_LONG n)"
| "integer_to_ulong (Bignum_Object n) = bignum_to_ulong n"

definition ulong_to_integer :: "ulong \<Rightarrow> integer option" where
  "ulong_to_integer number =
     (let s_number = number
      in if \<not> long_less s_number 0
         then if LONG_TO_FIXNUM_P s_number then Some (Fixnum_Object (LONG_TO_FIXNUM s_number))
              else map_option Bignum_Object (long_to_bignum s_number)
         else map_option Bignum_Object (ulong_to_bignum number))"

definition bignum_to_fixnum :: "bignum \<Rightarrow> ulong option" where
  "bignum_to_fixnum b =
     do { p \<leftarrow> BIGNUM_TO_FIXNUM_P b; Some (if p then BIGNUM_TO_FIXNUM b else SHARP_F) }"

definition bignum_to_integer :: "bignum \<Rightarrow> integer option" where
  "bignum_to_integer b =
     do { p \<leftarrow> BIGNUM_TO_FIXNUM_P b;
          Some (if p then Fixnum_Object (BIGNUM_TO_FIXNUM b) else Bignum_Object b) }"

section \<open>Predicates\<close>

fun integer_zero_p :: "integer \<Rightarrow> bool" where
  "integer_zero_p (Fixnum_Object n) = FIXNUM_ZERO_P n"
| "integer_zero_p (Bignum_Object n) = BIGNUM_ZERO_P n"

text \<open>
  \<open>artutl.c\<close> sees the \<open>BIGNUM_NEGATIVE_P\<close> of \<open>object.h\<close>, which tests the result of
  \<open>bignum_test\<close>; the header bit is the one of \<open>bignmint.h\<close>.
\<close>

fun integer_negative_p :: "integer \<Rightarrow> bool" where
  "integer_negative_p (Fixnum_Object n) = FIXNUM_NEGATIVE_P n"
| "integer_negative_p (Bignum_Object n) = (bignum_test n = bignum_comparison_less)"

fun integer_positive_p :: "integer \<Rightarrow> bool" where
  "integer_positive_p (Fixnum_Object n) = FIXNUM_POSITIVE_P n"
| "integer_positive_p (Bignum_Object n) = BIGNUM_POSITIVE_P n"

text \<open>
  The dispatch on two operands that the comparisons and the binary operations share: a
  fixnum case, and a bignum case on converted operands.
\<close>

fun integer_dispatch ::
  "(ulong \<Rightarrow> ulong \<Rightarrow> 'a option) \<Rightarrow> (bignum \<Rightarrow> bignum \<Rightarrow> 'a option) \<Rightarrow> integer \<Rightarrow> integer \<Rightarrow> 'a option" where
  "integer_dispatch fix_case big_case (Fixnum_Object n) (Fixnum_Object m) = fix_case n m"
| "integer_dispatch fix_case big_case n m = do { x \<leftarrow> to_bignum n; y \<leftarrow> to_bignum m; big_case x y }"

definition integer_equal_p :: "integer \<Rightarrow> integer \<Rightarrow> bool option" where
  "integer_equal_p = integer_dispatch (\<lambda>n m. Some (FIXNUM_EQUAL_P n m)) (\<lambda>n m. Some (bignum_equal_p n m))"

definition integer_less_p :: "integer \<Rightarrow> integer \<Rightarrow> bool option" where
  "integer_less_p = integer_dispatch (\<lambda>n m. Some (FIXNUM_LESS_P n m)) (\<lambda>n m. Some (BIGNUM_LESS_P n m))"

section \<open>Arithmetic\<close>

fun integer_negate :: "integer \<Rightarrow> integer option" where
  "integer_negate (Fixnum_Object n) = long_to_integer (- FIXNUM_TO_LONG n)"
| "integer_negate (Bignum_Object n) = bignum_negate n \<bind> bignum_to_integer"

definition integer_add :: "integer \<Rightarrow> integer \<Rightarrow> integer option" where
  "integer_add =
     integer_dispatch (\<lambda>n m. long_to_integer (FIXNUM_TO_LONG n + FIXNUM_TO_LONG m))
       (\<lambda>n m. bignum_add n m \<bind> bignum_to_integer)"

fun integer_add_1 :: "integer \<Rightarrow> integer option" where
  "integer_add_1 (Fixnum_Object n) = long_to_integer (FIXNUM_TO_LONG n + 1)"
| "integer_add_1 (Bignum_Object n) =
     do { one \<leftarrow> long_to_bignum 1; r \<leftarrow> bignum_add n one; bignum_to_integer r }"

definition integer_subtract :: "integer \<Rightarrow> integer \<Rightarrow> integer option" where
  "integer_subtract =
     integer_dispatch (\<lambda>n m. long_to_integer (FIXNUM_TO_LONG n - FIXNUM_TO_LONG m))
       (\<lambda>n m. bignum_subtract n m \<bind> bignum_to_integer)"

fun integer_subtract_1 :: "integer \<Rightarrow> integer option" where
  "integer_subtract_1 (Fixnum_Object n) = long_to_integer (FIXNUM_TO_LONG n - 1)"
| "integer_subtract_1 (Bignum_Object n) =
     do { one \<leftarrow> long_to_bignum 1; r \<leftarrow> bignum_subtract n one; bignum_to_integer r }"

definition integer_multiply_fixnums :: "ulong \<Rightarrow> ulong \<Rightarrow> integer option" where
  "integer_multiply_fixnums n m =
     (let result = Mul n m
      in if result \<noteq> SHARP_F then Some (Fixnum_Object result)
         else do { x \<leftarrow> FIXNUM_TO_BIGNUM n; y \<leftarrow> FIXNUM_TO_BIGNUM m;
                   r \<leftarrow> bignum_multiply x y; bignum_to_integer r })"

definition integer_multiply :: "integer \<Rightarrow> integer \<Rightarrow> integer option" where
  "integer_multiply =
     integer_dispatch integer_multiply_fixnums (\<lambda>n m. bignum_multiply n m \<bind> bignum_to_integer)"

text \<open>
  The inner option of the divisions is the error return on a zero divisor: \<open>true\<close> from
  \<open>integer_divide\<close>, \<open>SHARP_F\<close> from the other two.
\<close>

definition integer_divide_fixnums :: "ulong \<Rightarrow> ulong \<Rightarrow> (integer \<times> integer) option option" where
  "integer_divide_fixnums n d =
     (let lx = FIXNUM_TO_LONG n; ly = FIXNUM_TO_LONG d
       in if ly = 0 then Some None
          else let (quotient, remainder) =
                 (if long_less lx 0
                  then let lx = - lx
                       in if long_less ly 0
                          then let ly = - ly in (long_div lx ly, - long_mod lx ly)
                          else (- long_div lx ly, - long_mod lx ly)
                  else if long_less ly 0
                       then let ly = - ly in (- long_div lx ly, long_mod lx ly)
                       else (long_div lx ly, long_mod lx ly))
               in do { q \<leftarrow> long_to_integer quotient;
                       Some (Some (q, Fixnum_Object (LONG_TO_FIXNUM remainder))) })"

definition integer_divide_bignums :: "bignum \<Rightarrow> bignum \<Rightarrow> (integer \<times> integer) option option" where
  "integer_divide_bignums n d =
     do { r \<leftarrow> bignum_divide n d;
            case r of None \<Rightarrow> Some None
            | Some (qb, rb) \<Rightarrow>
                do { q \<leftarrow> bignum_to_integer qb; r \<leftarrow> bignum_to_integer rb;
                     Some (Some (q, r)) } }"

definition integer_divide :: "integer \<Rightarrow> integer \<Rightarrow> (integer \<times> integer) option option" where
  "integer_divide = integer_dispatch integer_divide_fixnums integer_divide_bignums"

definition integer_quotient_fixnums :: "ulong \<Rightarrow> ulong \<Rightarrow> integer option option" where
  "integer_quotient_fixnums n d =
     (let lx = FIXNUM_TO_LONG n; ly = FIXNUM_TO_LONG d
       in if ly = 0 then Some None
          else map_option Some (long_to_integer
            (if long_less lx 0
             then if long_less ly 0 then long_div (- lx) (- ly) else - long_div (- lx) ly
             else if long_less ly 0 then - long_div lx (- ly) else long_div lx ly)))"

definition integer_quotient_bignums :: "bignum \<Rightarrow> bignum \<Rightarrow> integer option option" where
  "integer_quotient_bignums n d =
     do { r \<leftarrow> bignum_quotient n d;
            case r of None \<Rightarrow> Some None
            | Some result \<Rightarrow> map_option Some (bignum_to_integer result) }"

definition integer_quotient :: "integer \<Rightarrow> integer \<Rightarrow> integer option option" where
  "integer_quotient = integer_dispatch integer_quotient_fixnums integer_quotient_bignums"

definition integer_remainder_fixnums :: "ulong \<Rightarrow> ulong \<Rightarrow> integer option option" where
  "integer_remainder_fixnums n d =
     (let lx = FIXNUM_TO_LONG n; ly = FIXNUM_TO_LONG d
       in if ly = 0 then Some None
          else map_option Some (long_to_integer
            (if long_less lx 0
             then - long_mod (- lx) (if long_less ly 0 then - ly else ly)
             else long_mod lx (if long_less ly 0 then - ly else ly))))"

definition integer_remainder_bignums :: "bignum \<Rightarrow> bignum \<Rightarrow> integer option option" where
  "integer_remainder_bignums n d =
     do { r \<leftarrow> bignum_remainder n d;
            case r of None \<Rightarrow> Some None
            | Some result \<Rightarrow> map_option Some (bignum_to_integer result) }"

definition integer_remainder :: "integer \<Rightarrow> integer \<Rightarrow> integer option option" where
  "integer_remainder = integer_dispatch integer_remainder_fixnums integer_remainder_bignums"

section \<open>Lengths and bit counts\<close>

fun integer_length_in_bits :: "integer \<Rightarrow> integer option" where
  "integer_length_in_bits (Fixnum_Object n) =
     (let n1 = FIXNUM_TO_LONG n
      in Some (Fixnum_Object (ULONG_TO_FIXNUM
           (word_of_nat (ulong_length_in_bits (if long_less n1 0 then - n1 else n1))))))"
| "integer_length_in_bits (Bignum_Object n) = ulong_to_integer (bignum_length_in_bits n)"

fun integer_length :: "integer \<Rightarrow> integer option" where
  "integer_length (Fixnum_Object n) =
     (let n1 = FIXNUM_TO_LONG n
      in Some (Fixnum_Object (ULONG_TO_FIXNUM
           (word_of_nat (ulong_length_in_bits (if long_less n1 0 then NOT n1 else n1))))))"
| "integer_length (Bignum_Object n) = ulong_to_integer (bignum_integer_length n)"

fun integer_first_set_bit :: "integer \<Rightarrow> integer option" where
  "integer_first_set_bit (Fixnum_Object n) =
     (let n1 = FIXNUM_TO_LONG n
      in Some (Fixnum_Object (LONG_TO_FIXNUM
           (word_of_int (ulong_first_set_bit (if long_less n1 0 then NOT (NOT n1) else n1))))))"
| "integer_first_set_bit (Bignum_Object n) = bignum_first_set_bit n \<bind> long_to_integer"

fun integer_bit_count :: "integer \<Rightarrow> integer option" where
  "integer_bit_count (Fixnum_Object n) =
     (let n1 = FIXNUM_TO_LONG n
      in Some (Fixnum_Object (ULONG_TO_FIXNUM
           (word_of_nat (ulong_bit_count (if long_less n1 0 then NOT n1 else n1))))))"
| "integer_bit_count (Bignum_Object n) = bignum_bit_count n \<bind> ulong_to_integer"

text \<open>The parameter tells whether the two operands are the same bignum object.\<close>

definition integer_hamming_distance :: "bool \<Rightarrow> integer \<Rightarrow> integer \<Rightarrow> integer option" where
  "integer_hamming_distance same =
     integer_dispatch
       (\<lambda>n m. let x = FIXNUM_TO_LONG n XOR FIXNUM_TO_LONG m
              in Some (Fixnum_Object
                   (if long_less x 0 then LONG_TO_FIXNUM (- 1)
                    else ULONG_TO_FIXNUM (word_of_nat (ulong_bit_count x)))))
       (\<lambda>n m. bignum_hamming_distance same n m \<bind> long_to_integer)"

section \<open>Bitwise operations\<close>

fun integer_bitwise_not :: "integer \<Rightarrow> integer option" where
  "integer_bitwise_not (Fixnum_Object n) =
     Some (Fixnum_Object (LONG_TO_FIXNUM (NOT (FIXNUM_TO_LONG n))))"
| "integer_bitwise_not (Bignum_Object n) = map_option Bignum_Object (bignum_bitwise_not n)"

text \<open>The macro \<open>DEFINE_BITWISE\<close> of \<open>artutl.c\<close> and its ten uses.\<close>

definition DEFINE_INTEGER_BITWISE ::
  "(long \<Rightarrow> long \<Rightarrow> long) \<Rightarrow> (bignum \<Rightarrow> bignum \<Rightarrow> bignum option) \<Rightarrow> integer \<Rightarrow> integer \<Rightarrow> integer option" where
  "DEFINE_INTEGER_BITWISE bitwise_op bignum_bitwise_op =
     integer_dispatch
       (\<lambda>n m. Some (Fixnum_Object (LONG_TO_FIXNUM (bitwise_op (FIXNUM_TO_LONG n) (FIXNUM_TO_LONG m)))))
       (\<lambda>n m. bignum_bitwise_op n m \<bind> bignum_to_integer)"

definition BITWISE_and :: "long \<Rightarrow> long \<Rightarrow> long" where "BITWISE_and x y = x AND y"
definition BITWISE_andc2 :: "long \<Rightarrow> long \<Rightarrow> long" where "BITWISE_andc2 x y = x AND NOT y"
definition BITWISE_andc1 :: "long \<Rightarrow> long \<Rightarrow> long" where "BITWISE_andc1 x y = y AND NOT x"
definition BITWISE_xor :: "long \<Rightarrow> long \<Rightarrow> long" where "BITWISE_xor x y = x XOR y"
definition BITWISE_ior :: "long \<Rightarrow> long \<Rightarrow> long" where "BITWISE_ior x y = x OR y"
definition BITWISE_nor :: "long \<Rightarrow> long \<Rightarrow> long" where "BITWISE_nor x y = NOT (x OR y)"
definition BITWISE_eqv :: "long \<Rightarrow> long \<Rightarrow> long" where "BITWISE_eqv x y = NOT (x XOR y)"
definition BITWISE_orc2 :: "long \<Rightarrow> long \<Rightarrow> long" where "BITWISE_orc2 x y = x OR NOT y"
definition BITWISE_orc1 :: "long \<Rightarrow> long \<Rightarrow> long" where "BITWISE_orc1 x y = y OR NOT x"
definition BITWISE_nand :: "long \<Rightarrow> long \<Rightarrow> long" where "BITWISE_nand x y = NOT (x AND y)"

definition integer_bitwise_and :: "integer \<Rightarrow> integer \<Rightarrow> integer option" where
  "integer_bitwise_and = DEFINE_INTEGER_BITWISE BITWISE_and bignum_bitwise_and"
definition integer_bitwise_andc2 :: "integer \<Rightarrow> integer \<Rightarrow> integer option" where
  "integer_bitwise_andc2 = DEFINE_INTEGER_BITWISE BITWISE_andc2 bignum_bitwise_andc2"
definition integer_bitwise_andc1 :: "integer \<Rightarrow> integer \<Rightarrow> integer option" where
  "integer_bitwise_andc1 = DEFINE_INTEGER_BITWISE BITWISE_andc1 bignum_bitwise_andc1"
definition integer_bitwise_xor :: "integer \<Rightarrow> integer \<Rightarrow> integer option" where
  "integer_bitwise_xor = DEFINE_INTEGER_BITWISE BITWISE_xor bignum_bitwise_xor"
definition integer_bitwise_ior :: "integer \<Rightarrow> integer \<Rightarrow> integer option" where
  "integer_bitwise_ior = DEFINE_INTEGER_BITWISE BITWISE_ior bignum_bitwise_ior"
definition integer_bitwise_nor :: "integer \<Rightarrow> integer \<Rightarrow> integer option" where
  "integer_bitwise_nor = DEFINE_INTEGER_BITWISE BITWISE_nor bignum_bitwise_nor"
definition integer_bitwise_eqv :: "integer \<Rightarrow> integer \<Rightarrow> integer option" where
  "integer_bitwise_eqv = DEFINE_INTEGER_BITWISE BITWISE_eqv bignum_bitwise_eqv"
definition integer_bitwise_orc2 :: "integer \<Rightarrow> integer \<Rightarrow> integer option" where
  "integer_bitwise_orc2 = DEFINE_INTEGER_BITWISE BITWISE_orc2 bignum_bitwise_orc2"
definition integer_bitwise_orc1 :: "integer \<Rightarrow> integer \<Rightarrow> integer option" where
  "integer_bitwise_orc1 = DEFINE_INTEGER_BITWISE BITWISE_orc1 bignum_bitwise_orc1"
definition integer_bitwise_nand :: "integer \<Rightarrow> integer \<Rightarrow> integer option" where
  "integer_bitwise_nand = DEFINE_INTEGER_BITWISE BITWISE_nand bignum_bitwise_nand"

text \<open>A C shift by 64 or more is undefined; the guards below keep \<open>n\<close> and \<open>m\<close> under 58.\<close>

definition integer_nonnegative_one_bits :: "ulong \<Rightarrow> ulong \<Rightarrow> integer option" where
  "integer_nonnegative_one_bits n m =
     (if n = 0 then Some (Fixnum_Object (LONG_TO_FIXNUM 0))
      else if n + m \<le> word_of_nat FIXNUM_LENGTH
      then Some (Fixnum_Object (ULONG_TO_FIXNUM
             (push_bit (unat m) (NOT (push_bit (unat n) (NOT 0))))))
      else map_option Bignum_Object (bignum_nonnegative_one_bits n m))"

definition integer_negative_zero_bits :: "ulong \<Rightarrow> ulong \<Rightarrow> integer option" where
  "integer_negative_zero_bits n m =
     (if n = 0 then Some (Fixnum_Object (LONG_TO_FIXNUM (- 1)))
      else if n + m \<le> word_of_nat FIXNUM_LENGTH
      then Some (Fixnum_Object (LONG_TO_FIXNUM
             (NOT (push_bit (unat m) (NOT (push_bit (unat n) (NOT 0)))))))
      else map_option Bignum_Object (bignum_negative_zero_bits n m))"

section \<open>Shifts\<close>

fun integer_shift_left :: "integer \<Rightarrow> ulong \<Rightarrow> integer option" where
  "integer_shift_left (Fixnum_Object n) m =
     (if m = 0 then Some (Fixnum_Object n)
      else let n1 = FIXNUM_TO_LONG n
           in if long_less n1 0
              then if m + word_of_nat (ulong_length_in_bits (NOT n1)) \<le> word_of_nat FIXNUM_LENGTH
                   then Some (Fixnum_Object (LONG_TO_FIXNUM (- push_bit (unat m) (- n1))))
                   else map_option Bignum_Object
                          (unsigned_long_to_shifted_bignum (- n1) m False \<bind> bignum_negate)
              else if long_less 0 n1
              then if m + word_of_nat (ulong_length_in_bits n1) \<le> word_of_nat FIXNUM_LENGTH
                   then Some (Fixnum_Object (LONG_TO_FIXNUM (push_bit (unat m) n1)))
                   else map_option Bignum_Object (unsigned_long_to_shifted_bignum n1 m False)
              else Some (Fixnum_Object (LONG_TO_FIXNUM 0)))"
| "integer_shift_left (Bignum_Object n) m =
     (if m = 0 then Some (Bignum_Object n) else map_option Bignum_Object (bignum_shift_left n m))"

text \<open>\<open>beyond\<close> is the word that follows the digits in memory; see \<open>bignum_shift_right\<close>.\<close>

fun integer_shift_right :: "long \<Rightarrow> integer \<Rightarrow> ulong \<Rightarrow> integer option" where
  "integer_shift_right beyond (Fixnum_Object n) m =
     (if m = 0 then Some (Fixnum_Object n)
      else let n1 = FIXNUM_TO_LONG n
           in if m \<ge> 64 then Some (Fixnum_Object (LONG_TO_FIXNUM (if long_less n1 0 then - 1 else 0)))
              else Some (Fixnum_Object (LONG_TO_FIXNUM
                     (if long_less n1 0 then NOT (long_shr (NOT n1) (unat m)) else long_shr n1 (unat m)))))"
| "integer_shift_right beyond (Bignum_Object n) m =
     (if m = 0 then Some (Bignum_Object n)
      else bignum_shift_right beyond n m \<bind> bignum_to_integer)"

end
