(* ===== verification/Integer_Arith.thy ===== *)
theory Integer_Arith
  imports Integer_Ops
begin

text \<open>
  Correctness of the generic integer arithmetic and comparisons of \<open>artutl.c\<close>
  (\<^theory_text>\<open>Integer_Ops\<close>): the canonical form, the conversions into and out of it, and the
  locale \<open>integer_operator\<close>, which carries the dispatch on fixnum and bignum operands
  once for all binary operations.
\<close>

section \<open>Canonical integers\<close>

fun int_of :: "integer \<Rightarrow> int" where
  "int_of (Fixnum_Object x) = fixnum_int x"
| "int_of (Bignum_Object b) = bignum_int b"

fun integer_ok :: "integer \<Rightarrow> bool" where
  "integer_ok (Fixnum_Object x) = FIXNUM_P x"
| "integer_ok (Bignum_Object b) = (bignum_wf b \<and> \<not> fixnum_range (bignum_int b))"

text \<open>The number of digits an operand has as a bignum; a fixnum needs at most one.\<close>

fun integer_digits :: "integer \<Rightarrow> nat" where
  "integer_digits (Fixnum_Object x) = 1"
| "integer_digits (Bignum_Object b) = BIGNUM_LENGTH b"

definition delivers :: "integer option \<Rightarrow> int \<Rightarrow> bool" where
  "delivers r k \<longleftrightarrow> (case r of None \<Rightarrow> False | Some n \<Rightarrow> integer_ok n \<and> int_of n = k)"

lemma delivers_simps [simp]:
  "delivers (Some n) k \<longleftrightarrow> integer_ok n \<and> int_of n = k" "\<not> delivers None k"
  by (simp_all add: delivers_def)

text \<open>The representation is canonical: equal integers are equal objects.\<close>

theorem int_of_inj:
  assumes "integer_ok n" "integer_ok m" "int_of n = int_of m"
  shows "n = m"
proof -
  have "fixnum_range (int_of n) = fixnum_range (int_of m)" using assms(3) by simp
  then show ?thesis
    using assms fixnum_int_inj bignum_int_inj by (cases n; cases m) (simp_all del: fixnum_range_def)
qed

lemma delivers_unique: "delivers r k \<Longrightarrow> integer_ok n \<Longrightarrow> int_of n = k \<Longrightarrow> r = Some n"
  using int_of_inj by (cases r) auto

lemma delivers_fixnum: "fixnum_range k \<Longrightarrow> delivers (Some (Fixnum_Object (fixnum_object k))) k"
  by simp

lemma delivers_LONG_TO_FIXNUM:
  "fixnum_range (sint w) \<Longrightarrow> sint w = k \<Longrightarrow> delivers (Some (Fixnum_Object (LONG_TO_FIXNUM w))) k"
  by (simp add: LONG_TO_FIXNUM_sint)

lemma fixnum_range_num: "fixnum_range k \<longleftrightarrow> -144115188075855872 \<le> k \<and> k \<le> 144115188075855871"
  by (simp add: fixnum_range_def)

lemma fixnum_int_num: "-144115188075855872 \<le> fixnum_int x" "fixnum_int x \<le> 144115188075855871"
  using fixnum_int_range [of x] by simp_all

lemma yields_Bignum_Object:
  "yields r k \<Longrightarrow> \<not> fixnum_range k \<Longrightarrow> delivers (map_option Bignum_Object r) k"
  by (cases r) auto

lemma yieldsE:
  assumes "yields r k"
  obtains b where "r = Some b" "bignum_wf b" "bignum_int b = k"
  using assms by (cases r) auto

lemma deliversE:
  assumes "delivers r k"
  obtains n where "r = Some n" "integer_ok n" "int_of n = k"
  using assms by (cases r) auto

section \<open>Conversions\<close>

lemma BIGNUM_TO_FIXNUM_P_correct:
  assumes "bignum_wf b" "BIGNUM_LENGTH b < 2 ^ 32"
  shows "BIGNUM_TO_FIXNUM_P b = Some (fixnum_range (bignum_int b))"
proof -
  have "fits_spec 57 True k \<longleftrightarrow> fixnum_range k" for k
    by (auto simp: fits_spec_def fixnum_range_num)
  then show ?thesis
    using bignum_fits_in_word_p_correct [OF assms, of 57 True] by (simp add: BIGNUM_TO_FIXNUM_P_def)
qed

lemma BIGNUM_TO_FIXNUM_correct:
  "bignum_wf b \<Longrightarrow> BIGNUM_TO_FIXNUM b = fixnum_object (bignum_int b)"
  by (simp add: BIGNUM_TO_FIXNUM_def bignum_to_long_correct fixnum_object_def)

theorem bignum_to_integer_correct:
  assumes "bignum_wf b" "BIGNUM_LENGTH b < 2 ^ 32"
  shows "delivers (bignum_to_integer b) (bignum_int b)"
  using assms by (auto simp: bignum_to_integer_def BIGNUM_TO_FIXNUM_P_correct BIGNUM_TO_FIXNUM_correct)

theorem bignum_to_fixnum_correct:
  assumes "bignum_wf b" "BIGNUM_LENGTH b < 2 ^ 32"
  shows "bignum_to_fixnum b =
    Some (if fixnum_range (bignum_int b) then fixnum_object (bignum_int b) else SHARP_F)"
  using assms by (simp add: bignum_to_fixnum_def BIGNUM_TO_FIXNUM_P_correct BIGNUM_TO_FIXNUM_correct)

text \<open>A bignum result of bounded size is converted to the canonical integer.\<close>

lemma yields_bignum_to_integer:
  assumes "yields r k" "\<bar>k\<bar> < 2 ^ (62 * l)" "l < 4294967296"
  shows "delivers (r \<bind> bignum_to_integer) k"
proof -
  obtain b where b: "r = Some b" "bignum_wf b" "bignum_int b = k" using assms(1) by (rule yieldsE)
  then have "BIGNUM_LENGTH b \<le> l" using assms(2) length_le_bits [of b l] by simp
  then show ?thesis using b assms(3) bignum_to_integer_correct [of b] by simp
qed

theorem long_to_integer_correct: "delivers (long_to_integer w) (sint w)"
proof (cases "fixnum_range (sint w)")
  case True
  then have "LONG_TO_FIXNUM_P w" by (simp add: LONG_TO_FIXNUM_P_iff fixnum_range_def)
  with True show ?thesis by (simp add: long_to_integer_def LONG_TO_FIXNUM_sint)
next
  case False
  then have "\<not> LONG_TO_FIXNUM_P w" by (simp add: LONG_TO_FIXNUM_P_iff fixnum_range_def)
  with False show ?thesis
    using yields_Bignum_Object [OF long_to_bignum_correct [of w]] by (simp add: long_to_integer_def)
qed

lemma delivers_long: "sint w = k \<Longrightarrow> delivers (long_to_integer w) k"
  using long_to_integer_correct by blast

theorem ulong_to_integer_correct: "delivers (ulong_to_integer w) (uint w)"
proof (cases "long_less w 0")
  case True
  then have "2 ^ 63 \<le> uint w" by (simp add: long_less_0_iff)
  then have "\<not> fixnum_range (uint w)" by (simp add: fixnum_range_num)
  then show ?thesis
    using True yields_Bignum_Object [OF ulong_to_bignum_correct [of w]] by (simp add: ulong_to_integer_def)
next
  case False
  then have "sint w = uint w" by (intro sint_eq_uint64) (simp add: long_less_0_iff)
  then show ?thesis
    using False long_to_integer_correct [of w] by (simp add: ulong_to_integer_def long_to_integer_def)
qed

lemma to_bignum_correct: "integer_ok n \<Longrightarrow> yields (to_bignum n) (int_of n)"
  using long_to_bignum_correct by (cases n) (simp_all add: FIXNUM_TO_BIGNUM_def flip: sint_FIXNUM_TO_LONG)

theorem integer_to_long_correct:
  assumes "integer_ok n" "integer_digits n < 2 ^ 32"
  shows "integer_to_long_p n = Some (- (3 * 2 ^ 62) < int_of n \<and> int_of n < 2 ^ 63)"
    "- (2 ^ 63) \<le> int_of n \<Longrightarrow> int_of n < 2 ^ 63 \<Longrightarrow> sint (integer_to_long n) = int_of n"
proof -
  show "integer_to_long_p n = Some (- (3 * 2 ^ 62) < int_of n \<and> int_of n < 2 ^ 63)"
  proof (cases n)
    case (Fixnum_Object x)
    then show ?thesis using fixnum_int_num [of x] by simp
  next
    case (Bignum_Object b)
    then show ?thesis using assms bignum_fits_in_long(1) [of b] by (simp add: BIGNUM_TO_LONG_P_def)
  qed
  show "- (2 ^ 63) \<le> int_of n \<Longrightarrow> int_of n < 2 ^ 63 \<Longrightarrow> sint (integer_to_long n) = int_of n"
    using assms by (cases n) (simp_all add: sint_FIXNUM_TO_LONG bignum_to_long_correct sint_of_int64)
qed

theorem integer_to_ulong_correct:
  assumes "integer_ok n" "integer_digits n < 2 ^ 32"
  shows "integer_to_ulong_p n = Some (0 \<le> int_of n \<and> int_of n < 2 ^ 64)"
    "0 \<le> int_of n \<Longrightarrow> int_of n < 2 ^ 64 \<Longrightarrow> \<exists>w. integer_to_ulong n = Some w \<and> uint w = int_of n"
proof -
  show "integer_to_ulong_p n = Some (0 \<le> int_of n \<and> int_of n < 2 ^ 64)"
  proof (cases n)
    case (Fixnum_Object x)
    then show ?thesis using assms fixnum_int_num(2) [of x] by (auto simp: fixnum_predicates)
  next
    case (Bignum_Object b)
    then show ?thesis using assms bignum_fits_in_long(2) [of b] by (simp add: BIGNUM_TO_ULONG_P_def)
  qed
  assume "0 \<le> int_of n" "int_of n < 2 ^ 64"
  then show "\<exists>w. integer_to_ulong n = Some w \<and> uint w = int_of n"
    using assms by (cases n) (simp_all add: uint_eq_sint64 sint_FIXNUM_TO_LONG bignum_to_ulong_correct uint_of_int64)
qed

section \<open>Bounds\<close>

lemma fixnum_int_bits: "\<bar>fixnum_int x\<bar> < 2 ^ 62"
  using fixnum_int_num [of x] by simp

lemma integer_bits: "integer_ok n \<Longrightarrow> \<bar>int_of n\<bar> < 2 ^ (62 * integer_digits n)"
proof (cases n)
  case (Fixnum_Object x)
  then show ?thesis using fixnum_int_bits [of x] by simp
next
  case (Bignum_Object b)
  assume "integer_ok n"
  then have w: "bignum_wf b" using Bignum_Object by simp
  show ?thesis
    using digits_int_less [OF bignum_wf_simps(3) [OF w]] bignum_wf_simps(1,9) [OF w] Bignum_Object
    by (simp add: power_mult)
qed

lemma bignum_bits: "bignum_wf b \<Longrightarrow> \<bar>bignum_int b\<bar> < 2 ^ (62 * BIGNUM_LENGTH b)"
  using digits_int_less [OF bignum_wf_simps(3)] bignum_wf_simps(1,9) by (simp add: power_mult)

lemma to_bignum_length:
  assumes "integer_ok n" "to_bignum n = Some b"
  shows "BIGNUM_LENGTH b \<le> integer_digits n"
  using to_bignum_correct [OF assms(1)] integer_bits [OF assms(1)] assms(2) by (simp add: length_le_bits)

section \<open>The dispatch on fixnums and bignums\<close>

text \<open>
  What \<open>integer_dispatch\<close> needs of its two cases. \<open>rel\<close> says which results are right for
  given operand values, so that the same locale serves operations and predicates.
\<close>

locale integer_operator =
  fixes fix_case :: "ulong \<Rightarrow> ulong \<Rightarrow> 'a option"
    and big_case :: "bignum \<Rightarrow> bignum \<Rightarrow> 'a option"
    and rel :: "int \<Rightarrow> int \<Rightarrow> 'a option \<Rightarrow> bool"
  assumes fix_correct: "FIXNUM_P x \<Longrightarrow> FIXNUM_P y \<Longrightarrow> rel (fixnum_int x) (fixnum_int y) (fix_case x y)"
    and big_correct: "bignum_wf a \<Longrightarrow> bignum_wf b \<Longrightarrow>
      BIGNUM_LENGTH a + BIGNUM_LENGTH b < 4294967295 \<Longrightarrow>
      rel (bignum_int a) (bignum_int b) (big_case a b)"
begin

lemma dispatch_correct:
  assumes "integer_ok n" "integer_ok m" "integer_digits n + integer_digits m < 4294967295"
  shows "rel (int_of n) (int_of m) (integer_dispatch fix_case big_case n m)"
proof (cases "\<exists>x y. n = Fixnum_Object x \<and> m = Fixnum_Object y")
  case True
  then show ?thesis using assms fix_correct by auto
next
  case False
  obtain x where x: "to_bignum n = Some x" "bignum_wf x" "bignum_int x = int_of n"
    using to_bignum_correct [OF assms(1)] by (rule yieldsE)
  obtain y where y: "to_bignum m = Some y" "bignum_wf y" "bignum_int y = int_of m"
    using to_bignum_correct [OF assms(2)] by (rule yieldsE)
  have "rel (int_of n) (int_of m) (big_case x y)"
    using big_correct [OF x(2) y(2)] x(3) y(3) assms(3)
      to_bignum_length [OF assms(1) x(1)] to_bignum_length [OF assms(2) y(1)] by simp
  moreover have "integer_dispatch fix_case big_case n m = big_case x y"
    using False x(1) y(1) by (cases n; cases m) auto
  ultimately show ?thesis by simp
qed

end

abbreviation fits_together :: "integer \<Rightarrow> integer \<Rightarrow> bool" where
  "fits_together n m \<equiv> integer_ok n \<and> integer_ok m \<and> integer_digits n + integer_digits m < 4294967295"

section \<open>Predicates\<close>

theorem integer_sign_tests:
  assumes "integer_ok n"
  shows "integer_zero_p n \<longleftrightarrow> int_of n = 0" "integer_negative_p n \<longleftrightarrow> int_of n < 0"
    "integer_positive_p n \<longleftrightarrow> 0 < int_of n"
  using assms by (cases n; auto simp: fixnum_predicates bignum_wf_simps(6) bignum_test_correct
      BIGNUM_POSITIVE_P_iff int_compare_def)+

lemma FIXNUM_EQUAL_P_correct:
  assumes "FIXNUM_P x" "FIXNUM_P y"
  shows "FIXNUM_EQUAL_P x y \<longleftrightarrow> fixnum_int x = fixnum_int y"
proof
  assume "FIXNUM_EQUAL_P x y"
  then show "fixnum_int x = fixnum_int y" by (simp add: FIXNUM_EQUAL_P_def fixnum_int_def)
next
  assume "fixnum_int x = fixnum_int y"
  with assms have "x = y" by (rule fixnum_int_inj)
  then show "FIXNUM_EQUAL_P x y" by (simp add: FIXNUM_EQUAL_P_def)
qed

interpretation int_equal: integer_operator
  "\<lambda>n m. Some (FIXNUM_EQUAL_P n m)" "\<lambda>n m. Some (bignum_equal_p n m)" "\<lambda>k l r. r = Some (k = l)"
  by unfold_locales (simp_all add: FIXNUM_EQUAL_P_correct bignum_equal_p_correct)

interpretation int_less: integer_operator
  "\<lambda>n m. Some (FIXNUM_LESS_P n m)" "\<lambda>n m. Some (BIGNUM_LESS_P n m)" "\<lambda>k l r. r = Some (k < l)"
  by unfold_locales
    (simp_all add: FIXNUM_LESS_P_def word_sless_alt sint_FIXNUM_TO_LONG BIGNUM_LESS_P_def
      bignum_compare_correct int_compare_def)

theorem integer_comparisons_correct:
  assumes "fits_together n m"
  shows "integer_equal_p n m = Some (int_of n = int_of m)" "integer_less_p n m = Some (int_of n < int_of m)"
  using assms by (simp_all add: integer_equal_p_def integer_less_p_def int_equal.dispatch_correct
      int_less.dispatch_correct)

section \<open>Addition, subtraction and multiplication\<close>

lemma short_lengths:
  "l < 4294967295 \<Longrightarrow> (l :: nat) < BIGNUM_LENGTH_MAX"
  by (simp add: BIGNUM_LENGTH_MAX_eq)

lemma sum_bits:
  assumes "\<bar>k\<bar> < 2 ^ (62 * a)" "\<bar>l\<bar> < 2 ^ (62 * b)"
  shows "\<bar>k\<bar> + \<bar>l\<bar> < (2 :: int) ^ (62 * (a + b + 1))"
proof -
  define P where "P = (2 :: int) ^ (62 * (a + b))"
  have P: "(2 :: int) ^ (62 * a) \<le> P" "(2 :: int) ^ (62 * b) \<le> P" "0 < P"
    unfolding P_def by (auto intro: power_increasing)
  have "(2 :: int) ^ (62 * (a + b + 1)) = P * 2 ^ 62"
    unfolding P_def by (simp only: distrib_left power_add mult_1_right)
  then show ?thesis using assms P by simp
qed

lemma product_bits:
  assumes "\<bar>k\<bar> < 2 ^ (62 * a)" "\<bar>l\<bar> < 2 ^ (62 * b)"
  shows "\<bar>k * l\<bar> < (2 :: int) ^ (62 * (a + b + 1))"
proof -
  have "\<bar>k * l\<bar> < 2 ^ (62 * a) * 2 ^ (62 * b)"
    unfolding abs_mult by (rule mult_strict_mono) (use assms in simp_all)
  also have "\<dots> \<le> 2 ^ (62 * (a + b + 1))" by (simp only: power_add [symmetric]) (intro power_increasing, simp_all)
  finally show ?thesis .
qed

lemma bignum_sum_correct:
  assumes "bignum_wf x" "bignum_wf y" "BIGNUM_LENGTH x + BIGNUM_LENGTH y < 4294967295"
  shows "delivers (bignum_add x y \<bind> bignum_to_integer) (bignum_int x + bignum_int y)"
    "delivers (bignum_subtract x y \<bind> bignum_to_integer) (bignum_int x - bignum_int y)"
    "delivers (bignum_multiply x y \<bind> bignum_to_integer) (bignum_int x * bignum_int y)"
proof -
  let ?l = "BIGNUM_LENGTH x + BIGNUM_LENGTH y + 1"
  have l: "BIGNUM_LENGTH x < BIGNUM_LENGTH_MAX" "BIGNUM_LENGTH y < BIGNUM_LENGTH_MAX"
    "BIGNUM_LENGTH x + BIGNUM_LENGTH y \<le> BIGNUM_LENGTH_MAX" "?l < 4294967296"
    using assms(3) by (simp_all add: BIGNUM_LENGTH_MAX_eq)
  note s = sum_bits [OF bignum_bits bignum_bits, OF assms(1,2)]
  have b: "\<bar>bignum_int x + bignum_int y\<bar> < 2 ^ (62 * ?l)" "\<bar>bignum_int x - bignum_int y\<bar> < 2 ^ (62 * ?l)"
    using s by linarith+
  show "delivers (bignum_add x y \<bind> bignum_to_integer) (bignum_int x + bignum_int y)"
    by (rule yields_bignum_to_integer [OF bignum_add_correct [OF assms(1,2) l(1,2)] b(1) l(4)])
  show "delivers (bignum_subtract x y \<bind> bignum_to_integer) (bignum_int x - bignum_int y)"
    by (rule yields_bignum_to_integer [OF bignum_subtract_correct [OF assms(1,2) l(1,2)] b(2) l(4)])
  show "delivers (bignum_multiply x y \<bind> bignum_to_integer) (bignum_int x * bignum_int y)"
    by (rule yields_bignum_to_integer [OF bignum_multiply_correct [OF assms(1,2) l(3)]
          product_bits [OF bignum_bits bignum_bits, OF assms(1,2)] l(4)])
qed

lemma sint_fixnum_sum:
  assumes "FIXNUM_P x" "FIXNUM_P y"
  shows "sint (FIXNUM_TO_LONG x + FIXNUM_TO_LONG y) = fixnum_int x + fixnum_int y"
    "sint (FIXNUM_TO_LONG x - FIXNUM_TO_LONG y) = fixnum_int x - fixnum_int y"
    "sint (FIXNUM_TO_LONG x + 1) = fixnum_int x + 1" "sint (FIXNUM_TO_LONG x - 1) = fixnum_int x - 1"
    "sint (- FIXNUM_TO_LONG x) = - fixnum_int x"
  using fixnum_int_num [of x] fixnum_int_num [of y] assms
  by (simp_all add: sint_arith64 sint_FIXNUM_TO_LONG)

interpretation int_add: integer_operator
  "\<lambda>n m. long_to_integer (FIXNUM_TO_LONG n + FIXNUM_TO_LONG m)"
  "\<lambda>n m. bignum_add n m \<bind> bignum_to_integer" "\<lambda>k l r. delivers r (k + l)"
  by unfold_locales (simp_all add: delivers_long sint_fixnum_sum bignum_sum_correct)

interpretation int_subtract: integer_operator
  "\<lambda>n m. long_to_integer (FIXNUM_TO_LONG n - FIXNUM_TO_LONG m)"
  "\<lambda>n m. bignum_subtract n m \<bind> bignum_to_integer" "\<lambda>k l r. delivers r (k - l)"
  by unfold_locales (simp_all add: delivers_long sint_fixnum_sum bignum_sum_correct)

lemma fixnum_multiply_case:
  assumes "FIXNUM_P n" "FIXNUM_P m"
  shows "delivers (integer_multiply_fixnums n m) (fixnum_int n * fixnum_int m)"
proof (cases "Mul n m = SHARP_F")
  case True
  have c: "yields (to_bignum (Fixnum_Object z)) (fixnum_int z)" if "FIXNUM_P z" for z
    using to_bignum_correct [of "Fixnum_Object z"] that by simp
  obtain x where x: "FIXNUM_TO_BIGNUM n = Some x" "bignum_wf x" "bignum_int x = fixnum_int n"
    using c [OF assms(1)] by (auto elim: yieldsE)
  obtain y where y: "FIXNUM_TO_BIGNUM m = Some y" "bignum_wf y" "bignum_int y = fixnum_int m"
    using c [OF assms(2)] by (auto elim: yieldsE)
  have "BIGNUM_LENGTH x \<le> 1" "BIGNUM_LENGTH y \<le> 1"
    using length_le_bits [OF x(2), of 1] length_le_bits [OF y(2), of 1] fixnum_int_bits x(3) y(3) by simp_all
  then show ?thesis using True x y bignum_sum_correct(3) [OF x(2) y(2)]
    by (simp add: integer_multiply_fixnums_def)
next
  case False
  then have b: "\<bar>fixnum_int n * fixnum_int m\<bar> < 2 ^ 57" and "Mul n m = fixnum_object (fixnum_int n * fixnum_int m)"
    using assms by (simp_all add: Mul_spec split: if_splits)
  moreover have "fixnum_range (fixnum_int n * fixnum_int m)"
    using b unfolding fixnum_range_num by (simp add: abs_less_iff)
  ultimately show ?thesis using False by (simp add: integer_multiply_fixnums_def)
qed

interpretation int_multiply: integer_operator integer_multiply_fixnums
  "\<lambda>n m. bignum_multiply n m \<bind> bignum_to_integer" "\<lambda>k l r. delivers r (k * l)"
  by unfold_locales (rule fixnum_multiply_case bignum_sum_correct(3); assumption)+

theorem integer_arithmetic_correct:
  assumes "fits_together n m"
  shows "delivers (integer_add n m) (int_of n + int_of m)"
    "delivers (integer_subtract n m) (int_of n - int_of m)"
    "delivers (integer_multiply n m) (int_of n * int_of m)"
  unfolding integer_add_def integer_subtract_def integer_multiply_def
  using assms by (blast intro: int_add.dispatch_correct int_subtract.dispatch_correct
      int_multiply.dispatch_correct)+

theorem integer_unary_correct:
  assumes "integer_ok n" "integer_digits n < 4294967294"
  shows "delivers (integer_negate n) (- int_of n)" "delivers (integer_add_1 n) (int_of n + 1)"
    "delivers (integer_subtract_1 n) (int_of n - 1)"
proof -
  have "delivers (integer_negate n) (- int_of n) \<and> delivers (integer_add_1 n) (int_of n + 1)
    \<and> delivers (integer_subtract_1 n) (int_of n - 1)"
  proof (cases n)
    case (Fixnum_Object x)
    then show ?thesis using assms sint_fixnum_sum [of x x] by (simp add: delivers_long)
  next
    case (Bignum_Object b)
    then have b: "bignum_wf b" "BIGNUM_LENGTH b < 4294967294" using assms by simp_all
    obtain u where u: "long_to_bignum 1 = Some u" "bignum_wf u" "bignum_int u = 1"
      using long_to_bignum_correct [of 1] by (auto elim: yieldsE)
    have "BIGNUM_LENGTH u \<le> 1" using length_le_bits [OF u(2), of 1] u(3) by simp
    then show ?thesis
      using Bignum_Object u b bignum_sum_correct(1,2) [OF b(1) u(2)] bignum_bits [OF b(1)]
        yields_bignum_to_integer [OF bignum_negate_correct [OF b(1)], of "BIGNUM_LENGTH b"]
      by simp
  qed
  then show "delivers (integer_negate n) (- int_of n)" "delivers (integer_add_1 n) (int_of n + 1)"
    "delivers (integer_subtract_1 n) (int_of n - 1)" by blast+
qed

section \<open>Division\<close>

text \<open>What a division returns: the error value on a zero divisor, and truncated results otherwise.\<close>

definition divides :: "int \<Rightarrow> int \<Rightarrow> (integer \<times> integer) option option \<Rightarrow> bool" where
  "divides k l res \<longleftrightarrow>
     (if l = 0 then res = Some None
      else \<exists>q r. res = Some (Some (q, r)) \<and> delivers (Some q) (k sdiv l) \<and> delivers (Some r) (k smod l))"

definition divides_to :: "(int \<Rightarrow> int \<Rightarrow> int) \<Rightarrow> int \<Rightarrow> int \<Rightarrow> integer option option \<Rightarrow> bool" where
  "divides_to g k l res \<longleftrightarrow>
     (if l = 0 then res = Some None else \<exists>q. res = Some (Some q) \<and> delivers (Some q) (g k l))"

lemma sdiv_smod_abs:
  fixes k l :: int
  assumes "l \<noteq> 0"
  shows "\<bar>k sdiv l\<bar> \<le> \<bar>k\<bar>" "\<bar>k smod l\<bar> \<le> \<bar>k\<bar>" "\<bar>k smod l\<bar> < \<bar>l\<bar>"
  using int_div_bounds [of "\<bar>k\<bar>" "\<bar>l\<bar>"] assms pos_mod_bound [of "\<bar>l\<bar>" "\<bar>k\<bar>"]
  by (auto simp: sdiv_int_cases)

lemma fixnum_division:
  assumes "FIXNUM_P n" "FIXNUM_P d" "fixnum_int d \<noteq> 0"
  defines "lx \<equiv> FIXNUM_TO_LONG n" and "ly \<equiv> FIXNUM_TO_LONG d"
  defines "x \<equiv> if long_less lx 0 then - lx else lx" and "y \<equiv> if long_less ly 0 then - ly else ly"
  shows "sint (if long_less lx 0 = long_less ly 0 then long_div x y else - long_div x y) =
      fixnum_int n sdiv fixnum_int d"
    and "sint (if long_less lx 0 then - long_mod x y else long_mod x y) = fixnum_int n smod fixnum_int d"
    and "ly \<noteq> 0" "fixnum_range (fixnum_int n smod fixnum_int d)"
proof -
  have s: "sint lx = fixnum_int n" "sint ly = fixnum_int d"
    using assms by (simp_all add: sint_FIXNUM_TO_LONG)
  show ly: "ly \<noteq> 0" using s(2) assms(3) by auto
  note a = long_abs_div_mod [of lx ly, folded x_def y_def, unfolded s, OF _ _ assms(3)]
  have g: "long_less lx 0 \<longleftrightarrow> fixnum_int n < 0" "long_less ly 0 \<longleftrightarrow> fixnum_int d < 0"
    by (simp_all add: word_sless_alt s)
  show "sint (if long_less lx 0 = long_less ly 0 then long_div x y else - long_div x y) =
      fixnum_int n sdiv fixnum_int d"
    "sint (if long_less lx 0 then - long_mod x y else long_mod x y) = fixnum_int n smod fixnum_int d"
    using a assms(3) unfolding g by (simp_all add: sdiv_int_cases)
  have "\<bar>fixnum_int n smod fixnum_int d\<bar> < \<bar>fixnum_int d\<bar>" using assms(3) by (rule sdiv_smod_abs)
  then show "fixnum_range (fixnum_int n smod fixnum_int d)"
    using fixnum_int_num [of d] unfolding fixnum_range_num by linarith
qed

lemma bignum_division:
  assumes "bignum_wf n" "bignum_wf d" "BIGNUM_LENGTH n < 4294967295" "bignum_int d \<noteq> 0"
  shows "yields (Some q) (bignum_int n sdiv bignum_int d) \<Longrightarrow>
      \<exists>i. bignum_to_integer q = Some i \<and> integer_ok i \<and> int_of i = bignum_int n sdiv bignum_int d"
    "yields (Some r) (bignum_int n smod bignum_int d) \<Longrightarrow>
      \<exists>i. bignum_to_integer r = Some i \<and> integer_ok i \<and> int_of i = bignum_int n smod bignum_int d"
proof -
  have "delivers (bignum_to_integer b) k" if "\<bar>k\<bar> \<le> \<bar>bignum_int n\<bar>" "yields (Some b) k" for b k
    using that bignum_bits [OF assms(1)] assms(3) yields_bignum_to_integer [of "Some b" k "BIGNUM_LENGTH n"]
    by simp
  then have "\<exists>i. bignum_to_integer b = Some i \<and> integer_ok i \<and> int_of i = k"
    if "\<bar>k\<bar> \<le> \<bar>bignum_int n\<bar>" "yields (Some b) k" for b k
    using that by (blast elim: deliversE)
  then show "yields (Some q) (bignum_int n sdiv bignum_int d) \<Longrightarrow>
      \<exists>i. bignum_to_integer q = Some i \<and> integer_ok i \<and> int_of i = bignum_int n sdiv bignum_int d"
    "yields (Some r) (bignum_int n smod bignum_int d) \<Longrightarrow>
      \<exists>i. bignum_to_integer r = Some i \<and> integer_ok i \<and> int_of i = bignum_int n smod bignum_int d"
    using sdiv_smod_abs [OF assms(4), of "bignum_int n"] by blast+
qed

lemma FIXNUM_TO_LONG_zero: "FIXNUM_P d \<Longrightarrow> fixnum_int d = 0 \<Longrightarrow> FIXNUM_TO_LONG d = 0"
  by (simp add: FIXNUM_TO_LONG_0_iff)

lemma division_length:
  assumes "BIGNUM_LENGTH a + BIGNUM_LENGTH b < 4294967295"
  shows "BIGNUM_LENGTH a < 4294967295" "BIGNUM_LENGTH a < BIGNUM_LENGTH_MAX"
  using assms by (simp_all add: BIGNUM_LENGTH_MAX_eq)

interpretation int_divide: integer_operator integer_divide_fixnums integer_divide_bignums divides
proof unfold_locales
  fix n d assume f: "FIXNUM_P n" "FIXNUM_P d"
  let ?lx = "FIXNUM_TO_LONG n" and ?ly = "FIXNUM_TO_LONG d"
  show "divides (fixnum_int n) (fixnum_int d) (integer_divide_fixnums n d)"
  proof (cases "fixnum_int d = 0")
    case False
    note d = fixnum_division [OF f False]
    obtain q where q: "long_to_integer (if long_less ?lx 0 = long_less ?ly 0
        then long_div (if long_less ?lx 0 then - ?lx else ?lx) (if long_less ?ly 0 then - ?ly else ?ly)
        else - long_div (if long_less ?lx 0 then - ?lx else ?lx) (if long_less ?ly 0 then - ?ly else ?ly)) = Some q"
      "integer_ok q" "int_of q = fixnum_int n sdiv fixnum_int d"
      using delivers_long [OF d(1)] by (rule deliversE)
    show ?thesis
      using False d(2-4) q
      by (auto simp: divides_def integer_divide_fixnums_def LONG_TO_FIXNUM_sint Let_def)
  qed (simp add: divides_def integer_divide_fixnums_def FIXNUM_TO_LONG_zero f)
next
  fix a b assume w: "bignum_wf a" "bignum_wf b" "BIGNUM_LENGTH a + BIGNUM_LENGTH b < 4294967295"
  note l = division_length [OF w(3)] and c = bignum_divide_correct [OF w(1,2) division_length(2), OF w(3)]
  show "divides (bignum_int a) (bignum_int b) (integer_divide_bignums a b)"
  proof (cases "bignum_int b = 0")
    case False
    then obtain q r where qr: "bignum_divide a b = Some (Some (q, r))"
      "yields (Some q) (bignum_int a sdiv bignum_int b)" "yields (Some r) (bignum_int a smod bignum_int b)"
      using c(2) by blast
    note b = bignum_division [OF w(1,2) l(1) False]
    show ?thesis
      using b(1) [OF qr(2)] b(2) [OF qr(3)] qr(1) False
      by (auto simp: divides_def integer_divide_bignums_def)
  qed (simp add: divides_def integer_divide_bignums_def c)
qed

theorem integer_divide_correct:
  assumes "fits_together n d"
  shows "divides (int_of n) (int_of d) (integer_divide n d)"
  unfolding integer_divide_def using assms by (blast intro: int_divide.dispatch_correct)

interpretation int_quotient: integer_operator
  integer_quotient_fixnums integer_quotient_bignums "divides_to (sdiv)"
proof unfold_locales
  fix n d assume f: "FIXNUM_P n" "FIXNUM_P d"
  show "divides_to (sdiv) (fixnum_int n) (fixnum_int d) (integer_quotient_fixnums n d)"
  proof (cases "fixnum_int d = 0")
    case False
    note d = fixnum_division [OF f False]
    show ?thesis
      using False d(3) delivers_long [OF d(1)]
      by (auto simp: divides_to_def integer_quotient_fixnums_def Let_def elim!: deliversE split: if_splits)
  qed (simp add: divides_to_def integer_quotient_fixnums_def FIXNUM_TO_LONG_zero f)
next
  fix a b assume w: "bignum_wf a" "bignum_wf b" "BIGNUM_LENGTH a + BIGNUM_LENGTH b < 4294967295"
  note c = bignum_quotient_correct [OF w(1,2) division_length(2), OF w(3)]
  show "divides_to (sdiv) (bignum_int a) (bignum_int b) (integer_quotient_bignums a b)"
    using c bignum_division(1) [OF w(1,2) division_length(1) [OF w(3)]]
    by (cases "bignum_int b = 0") (fastforce simp: divides_to_def integer_quotient_bignums_def)+
qed

interpretation int_remainder: integer_operator
  integer_remainder_fixnums integer_remainder_bignums "divides_to (smod)"
proof unfold_locales
  fix n d assume f: "FIXNUM_P n" "FIXNUM_P d"
  show "divides_to (smod) (fixnum_int n) (fixnum_int d) (integer_remainder_fixnums n d)"
  proof (cases "fixnum_int d = 0")
    case False
    note d = fixnum_division [OF f False]
    show ?thesis
      using False d(3) delivers_long [OF d(2)]
      by (auto simp: divides_to_def integer_remainder_fixnums_def Let_def elim!: deliversE split: if_splits)
  qed (simp add: divides_to_def integer_remainder_fixnums_def FIXNUM_TO_LONG_zero f)
next
  fix a b assume w: "bignum_wf a" "bignum_wf b" "BIGNUM_LENGTH a + BIGNUM_LENGTH b < 4294967295"
  note c = bignum_remainder_correct [OF w(1,2) division_length(2), OF w(3)]
  show "divides_to (smod) (bignum_int a) (bignum_int b) (integer_remainder_bignums a b)"
    using c bignum_division(2) [OF w(1,2) division_length(1) [OF w(3)]]
    by (cases "bignum_int b = 0") (fastforce simp: divides_to_def integer_remainder_bignums_def)+
qed

theorem integer_quotient_remainder_correct:
  assumes "fits_together n d"
  shows "divides_to (sdiv) (int_of n) (int_of d) (integer_quotient n d)"
    "divides_to (smod) (int_of n) (int_of d) (integer_remainder n d)"
  unfolding integer_quotient_def integer_remainder_def
  using assms by (blast intro: int_quotient.dispatch_correct int_remainder.dispatch_correct)+

end
