(* ===== verification/Integer_Bits.thy ===== *)
theory Integer_Bits
  imports Integer_Arith
begin

text \<open>
  Correctness of the bit-level integer operations of \<open>artutl.c\<close>: the bitwise operations
  on two's complement, lengths and bit counts, blocks of one bits, and the shifts. The
  locale \<open>bitwise_function\<close> covers all ten binary operations: a word operation and an
  integer operation that act bit by bit in the same way agree on fixnums, stay in range,
  and do not grow beyond the larger operand.
\<close>

section \<open>Bitwise operations\<close>

lemma bit_sint64: "bit (sint (w :: 64 word)) i \<longleftrightarrow> bit w (min i 63)"
  using bit_imp_le_length [of w i] by (auto simp: bit_sint_iff min_def)

lemma in_bits_iff: "signed_take_bit n k = k \<longleftrightarrow> - (2 ^ n) \<le> k \<and> k < (2 ^ n :: int)"
  using signed_take_bit_int_eq_self_iff [of n k] by simp

locale bitwise_function =
  fixes f :: "long \<Rightarrow> long \<Rightarrow> long" and g :: "int \<Rightarrow> int \<Rightarrow> int" and h :: "bool \<Rightarrow> bool \<Rightarrow> bool"
    and big :: "bignum \<Rightarrow> bignum \<Rightarrow> bignum option"
  assumes word_bits: "i < 64 \<Longrightarrow> bit (f a b) i \<longleftrightarrow> h (bit a i) (bit b i)"
    and int_bits: "bit (g k l) i \<longleftrightarrow> h (bit k i) (bit l i)"
    and bignums: "short_bignum x \<Longrightarrow> short_bignum y \<Longrightarrow> yields (big x y) (g (bignum_int x) (bignum_int y))"
begin

lemma sint_op: "sint (f a b) = g (sint a) (sint b)"
  by (rule bit_eqI) (simp add: bit_sint64 word_bits int_bits)

lemma op_range:
  assumes "- (2 ^ n) \<le> k" "k < 2 ^ n" "- (2 ^ n) \<le> l" "l < 2 ^ n"
  shows "- (2 ^ n) \<le> g k l \<and> g k l < 2 ^ n"
proof -
  have e: "signed_take_bit n k = k" "signed_take_bit n l = l" using assms by (simp_all add: in_bits_iff)
  have "signed_take_bit n (g (signed_take_bit n k) (signed_take_bit n l)) =
      g (signed_take_bit n k) (signed_take_bit n l)"
    by (rule bit_eqI) (simp add: bit_signed_take_bit_iff int_bits)
  then show ?thesis unfolding e by (simp add: in_bits_iff)
qed

lemma fixnums:
  assumes "FIXNUM_P n" "FIXNUM_P m"
  shows "delivers (Some (Fixnum_Object (LONG_TO_FIXNUM (f (FIXNUM_TO_LONG n) (FIXNUM_TO_LONG m)))))
    (g (fixnum_int n) (fixnum_int m))"
proof (rule delivers_LONG_TO_FIXNUM)
  show "sint (f (FIXNUM_TO_LONG n) (FIXNUM_TO_LONG m)) = g (fixnum_int n) (fixnum_int m)"
    using assms by (simp add: sint_op sint_FIXNUM_TO_LONG)
  then show "fixnum_range (sint (f (FIXNUM_TO_LONG n) (FIXNUM_TO_LONG m)))"
    using op_range [of 57 "fixnum_int n" "fixnum_int m"] fixnum_int_num [of n] fixnum_int_num [of m]
    by (simp add: fixnum_range_num)
qed

lemma bignum_case:
  assumes "bignum_wf x" "bignum_wf y" "BIGNUM_LENGTH x + BIGNUM_LENGTH y < 4294967295"
  shows "delivers (big x y \<bind> bignum_to_integer) (g (bignum_int x) (bignum_int y))"
proof (rule yields_bignum_to_integer [where l = "BIGNUM_LENGTH x + BIGNUM_LENGTH y + 1"])
  let ?n = "62 * (BIGNUM_LENGTH x + BIGNUM_LENGTH y)"
  show "yields (big x y) (g (bignum_int x) (bignum_int y))"
    using assms by (intro bignums) (simp_all add: BIGNUM_LENGTH_MAX_eq)
  have "(2 :: int) ^ (62 * BIGNUM_LENGTH x) \<le> 2 ^ ?n" "(2 :: int) ^ (62 * BIGNUM_LENGTH y) \<le> 2 ^ ?n"
    by (intro power_increasing; simp)+
  then have "- (2 ^ ?n) \<le> g (bignum_int x) (bignum_int y) \<and> g (bignum_int x) (bignum_int y) < 2 ^ ?n"
    using bignum_bits [OF assms(1)] bignum_bits [OF assms(2)] by (intro op_range) linarith+
  then have "\<bar>g (bignum_int x) (bignum_int y)\<bar> \<le> 2 ^ ?n" by linarith
  also have "\<dots> < 2 ^ (62 * (BIGNUM_LENGTH x + BIGNUM_LENGTH y + 1))"
    by (intro power_strict_increasing) simp_all
  finally show "\<bar>g (bignum_int x) (bignum_int y)\<bar> < 2 ^ (62 * (BIGNUM_LENGTH x + BIGNUM_LENGTH y + 1))" .
qed (use assms in simp)

lemma operator:
  "integer_operator (\<lambda>n m. Some (Fixnum_Object (LONG_TO_FIXNUM (f (FIXNUM_TO_LONG n) (FIXNUM_TO_LONG m)))))
     (\<lambda>n m. big n m \<bind> bignum_to_integer) (\<lambda>k l r. delivers r (g k l))"
  by unfold_locales (rule fixnums bignum_case; assumption)+

lemma defined:
  "fits_together n m \<Longrightarrow> delivers (DEFINE_INTEGER_BITWISE f big n m) (g (int_of n) (int_of m))"
  unfolding DEFINE_INTEGER_BITWISE_def by (rule integer_operator.dispatch_correct [OF operator]) blast+

end

lemmas bitwise_defs = BITWISE_and_def BITWISE_andc2_def BITWISE_andc1_def BITWISE_xor_def BITWISE_ior_def
  BITWISE_nor_def BITWISE_eqv_def BITWISE_orc2_def BITWISE_orc1_def BITWISE_nand_def

interpretation ib_and: bitwise_function BITWISE_and "\<lambda>k l. k AND l" "\<lambda>p q. p \<and> q" bignum_bitwise_and
  by unfold_locales (simp_all add: bit_simps bitwise_defs bignum_bitwise_correct)

interpretation ib_andc2: bitwise_function BITWISE_andc2 "\<lambda>k l. k AND NOT l" "\<lambda>p q. p \<and> \<not> q" bignum_bitwise_andc2
  by unfold_locales (simp_all add: bit_simps bitwise_defs bignum_bitwise_correct)

interpretation ib_andc1: bitwise_function BITWISE_andc1 "\<lambda>k l. NOT k AND l" "\<lambda>p q. \<not> p \<and> q" bignum_bitwise_andc1
  by unfold_locales (auto simp add: bit_simps bitwise_defs bignum_bitwise_correct)

interpretation ib_xor: bitwise_function BITWISE_xor "\<lambda>k l. k XOR l" "\<lambda>p q. p \<noteq> q" bignum_bitwise_xor
  by unfold_locales (simp_all add: bit_simps bitwise_defs bignum_bitwise_correct)

interpretation ib_ior: bitwise_function BITWISE_ior "\<lambda>k l. k OR l" "\<lambda>p q. p \<or> q" bignum_bitwise_ior
  by unfold_locales (simp_all add: bit_simps bitwise_defs bignum_bitwise_correct)

interpretation ib_nor: bitwise_function BITWISE_nor "\<lambda>k l. NOT (k OR l)" "\<lambda>p q. \<not> (p \<or> q)" bignum_bitwise_nor
  by unfold_locales (simp_all only: bit_simps bitwise_defs bignum_bitwise_correct, simp_all)

interpretation ib_eqv: bitwise_function BITWISE_eqv "\<lambda>k l. NOT (k XOR l)" "\<lambda>p q. p = q" bignum_bitwise_eqv
  by unfold_locales (simp_all only: bit_simps bitwise_defs bignum_bitwise_correct, simp_all)

interpretation ib_orc2: bitwise_function BITWISE_orc2 "\<lambda>k l. k OR NOT l" "\<lambda>p q. p \<or> \<not> q" bignum_bitwise_orc2
  by unfold_locales (simp_all add: bit_simps bitwise_defs bignum_bitwise_correct)

interpretation ib_orc1: bitwise_function BITWISE_orc1 "\<lambda>k l. NOT k OR l" "\<lambda>p q. \<not> p \<or> q" bignum_bitwise_orc1
  by unfold_locales (auto simp add: bit_simps bitwise_defs bignum_bitwise_correct)

interpretation ib_nand: bitwise_function BITWISE_nand "\<lambda>k l. NOT (k AND l)" "\<lambda>p q. \<not> (p \<and> q)" bignum_bitwise_nand
  by unfold_locales (simp_all only: bit_simps bitwise_defs bignum_bitwise_correct, simp_all)

theorem integer_bitwise_correct:
  assumes "fits_together n m"
  shows "delivers (integer_bitwise_and n m) (int_of n AND int_of m)"
    "delivers (integer_bitwise_andc2 n m) (int_of n AND NOT (int_of m))"
    "delivers (integer_bitwise_andc1 n m) (NOT (int_of n) AND int_of m)"
    "delivers (integer_bitwise_xor n m) (int_of n XOR int_of m)"
    "delivers (integer_bitwise_ior n m) (int_of n OR int_of m)"
    "delivers (integer_bitwise_nor n m) (NOT (int_of n OR int_of m))"
    "delivers (integer_bitwise_eqv n m) (NOT (int_of n XOR int_of m))"
    "delivers (integer_bitwise_orc2 n m) (int_of n OR NOT (int_of m))"
    "delivers (integer_bitwise_orc1 n m) (NOT (int_of n) OR int_of m)"
    "delivers (integer_bitwise_nand n m) (NOT (int_of n AND int_of m))"
  using ib_and.defined [OF assms] ib_andc2.defined [OF assms] ib_andc1.defined [OF assms]
    ib_xor.defined [OF assms] ib_ior.defined [OF assms] ib_nor.defined [OF assms]
    ib_eqv.defined [OF assms] ib_orc2.defined [OF assms] ib_orc1.defined [OF assms]
    ib_nand.defined [OF assms]
  unfolding integer_bitwise_and_def integer_bitwise_andc2_def integer_bitwise_andc1_def
    integer_bitwise_xor_def integer_bitwise_ior_def integer_bitwise_nor_def integer_bitwise_eqv_def
    integer_bitwise_orc2_def integer_bitwise_orc1_def integer_bitwise_nand_def
  by (simp_all only:)

lemma sint_NOT64: "sint (NOT w :: 64 word) = NOT (sint w)"
  by (rule bit_eqI) (simp add: bit_sint64 bit_not_iff min_less_iff_disj)

text \<open>
  The complement of a bignum is not converted to a fixnum, and need not be: the
  complement of an integer outside the fixnum range is outside it.
\<close>

theorem integer_bitwise_not_correct:
  assumes "integer_ok n" "integer_digits n < 4294967295"
  shows "delivers (integer_bitwise_not n) (NOT (int_of n))"
proof (cases n)
  case (Fixnum_Object x)
  then show ?thesis
    using assms fixnum_int_num [of x] delivers_LONG_TO_FIXNUM [of "NOT (FIXNUM_TO_LONG x)" "NOT (fixnum_int x)"]
    by (simp add: sint_NOT64 sint_FIXNUM_TO_LONG fixnum_range_num not_int_def)
next
  case (Bignum_Object b)
  then have "yields (bignum_bitwise_not b) (NOT (bignum_int b))"
    using assms by (intro bignum_bitwise_not_correct) (simp add: BIGNUM_LENGTH_MAX_eq)
  moreover have "\<not> fixnum_range (NOT (bignum_int b))"
    using assms Bignum_Object by (auto simp: fixnum_range_num not_int_def)
  ultimately show ?thesis using Bignum_Object yields_Bignum_Object by simp
qed

section \<open>Lengths and bit counts\<close>

definition unsigned_part :: "int \<Rightarrow> int" where
  "unsigned_part k = (if k < 0 then NOT k else k)"

lemma unsigned_part_bounds: "0 \<le> unsigned_part k" "unsigned_part k \<le> \<bar>k\<bar>"
  by (simp_all add: unsigned_part_def not_int_def)

lemma uint_unsigned_part:
  "FIXNUM_P x \<Longrightarrow>
   uint (if long_less (FIXNUM_TO_LONG x) 0 then NOT (FIXNUM_TO_LONG x) else FIXNUM_TO_LONG x) =
   unsigned_part (fixnum_int x)"
  using uint_length_operand [of x] by (simp add: unsigned_part_def not_int_def)

lemma uint_word_of_nat64: "m < 18446744073709551616 \<Longrightarrow> uint (word_of_nat m :: ulong) = int m"
  using unat_of_nat64 [of m] by (simp add: uint_nat)

lemma ULONG_TO_FIXNUM_small: "m < 2 ^ 57 \<Longrightarrow> ULONG_TO_FIXNUM (word_of_nat m) = fixnum_object (int m)"
proof -
  assume "m < 2 ^ 57"
  then have "uint (word_of_nat m :: ulong) = int m" by (intro uint_word_of_nat64) simp
  then show ?thesis
    using \<open>m < 2 ^ 57\<close> LONG_TO_UNSIGNED_FIXNUM_eq [of "word_of_nat m"]
    by (simp add: ULONG_TO_FIXNUM_def LONG_TO_UNSIGNED_FIXNUM_def)
qed

lemma delivers_small_count:
  "m \<le> 64 \<Longrightarrow> delivers (Some (Fixnum_Object (ULONG_TO_FIXNUM (word_of_nat m)))) (int m)"
  by (simp add: ULONG_TO_FIXNUM_small fixnum_range_num)

lemma delivers_count:
  "m < 18446744073709551616 \<Longrightarrow> delivers (ulong_to_integer (word_of_nat m)) (int m)"
  using ulong_to_integer_correct [of "word_of_nat m"] by (simp add: uint_word_of_nat64)

lemma popcount_bits:
  assumes "0 \<le> v" "v \<le> k" "k < 2 ^ (62 * l)" "l < 4294967295"
  shows "popcount v < 9223372036854775808"
  using popcount_le [of v "62 * l"] assms by simp

theorem integer_bit_count_correct:
  assumes "integer_ok n" "integer_digits n < 4294967295"
  shows "delivers (integer_bit_count n) (int (popcount (unsigned_part (int_of n))))"
proof (cases n)
  case (Fixnum_Object x)
  let ?w = "if long_less (FIXNUM_TO_LONG x) 0 then NOT (FIXNUM_TO_LONG x) else FIXNUM_TO_LONG x"
  have u: "uint ?w = unsigned_part (fixnum_int x)" using assms Fixnum_Object by (simp add: uint_unsigned_part)
  have c: "ulong_bit_count ?w = popcount (unsigned_part (fixnum_int x))"
    unfolding ulong_bit_count_correct u ..
  have "popcount (unsigned_part (fixnum_int x)) \<le> 64"
    using popcount_le [OF uint_bounds64, of ?w] unfolding u .
  then show ?thesis
    using delivers_small_count [of "ulong_bit_count ?w"] Fixnum_Object by (simp add: Let_def c)
next
  case (Bignum_Object b)
  then have b: "short_bignum b" using assms by (simp add: BIGNUM_LENGTH_MAX_eq)
  have "popcount (unsigned_part (bignum_int b)) < 9223372036854775808"
    using popcount_bits [OF unsigned_part_bounds integer_bits] assms Bignum_Object by fastforce
  then show ?thesis
    using bignum_bit_count_correct [OF b] delivers_count Bignum_Object by (simp add: unsigned_part_def)
qed

text \<open>The number of bits of a nonnegative integer.\<close>

definition bit_length :: "int \<Rightarrow> nat \<Rightarrow> bool" where
  "bit_length v l \<longleftrightarrow> v < 2 ^ l \<and> (l = 0 \<or> 2 ^ (l - 1) \<le> v)"

lemma bit_length_word: "bit_length (uint w) (ulong_length_in_bits w)" "ulong_length_in_bits w \<le> 64"
  using ulong_length_in_bits_bounds [of w] by (cases "w = 0"; simp add: bit_length_def)+

lemma delivers_word: "delivers (ulong_to_integer w) (int (unat w))"
  using ulong_to_integer_correct [of w] by simp

theorem integer_length_correct:
  assumes "integer_ok n"
  shows "\<exists>l. delivers (integer_length n) (int l) \<and> bit_length (unsigned_part (int_of n)) l"
proof (cases n)
  case (Fixnum_Object x)
  let ?w = "if long_less (FIXNUM_TO_LONG x) 0 then NOT (FIXNUM_TO_LONG x) else FIXNUM_TO_LONG x"
  have "uint ?w = unsigned_part (fixnum_int x)" using assms Fixnum_Object by (simp add: uint_unsigned_part)
  then show ?thesis
    using bit_length_word [of ?w] delivers_small_count [of "ulong_length_in_bits ?w"] Fixnum_Object
    by (intro exI [of _ "ulong_length_in_bits ?w"]) (simp add: Let_def)
next
  case (Bignum_Object b)
  then show ?thesis
    using bignum_integer_length_correct [of b] delivers_word [of "bignum_integer_length b"] assms
    by (intro exI [of _ "unat (bignum_integer_length b)"]) (simp add: bit_length_def unsigned_part_def)
qed

theorem integer_length_in_bits_correct:
  assumes "integer_ok n"
  shows "\<exists>l. delivers (integer_length_in_bits n) (int l) \<and> bit_length \<bar>int_of n\<bar> l"
proof (cases n)
  case (Fixnum_Object x)
  let ?w = "if long_less (FIXNUM_TO_LONG x) 0 then - FIXNUM_TO_LONG x else FIXNUM_TO_LONG x"
  have "sint ?w = \<bar>fixnum_int x\<bar>"
    using assms Fixnum_Object sint_fixnum_sum(5) [of x x] by (simp add: word_sless_alt sint_FIXNUM_TO_LONG)
  then have "uint ?w = \<bar>fixnum_int x\<bar>" using uint_eq_sint64 [of ?w] by simp
  then show ?thesis
    using bit_length_word [of ?w] delivers_small_count [of "ulong_length_in_bits ?w"] Fixnum_Object
    by (intro exI [of _ "ulong_length_in_bits ?w"]) (simp add: Let_def)
next
  case (Bignum_Object b)
  then have "bignum_int b \<noteq> 0" using assms by (auto simp: fixnum_range_num)
  then show ?thesis
    using bignum_length_in_bits_correct(2) [of b] delivers_word [of "bignum_length_in_bits b"] assms Bignum_Object
    by (intro exI [of _ "unat (bignum_length_in_bits b)"]) (simp add: bit_length_def)
qed

text \<open>The lowest one bit of an integer; it is the same in its negation.\<close>

definition lowest_one :: "int \<Rightarrow> nat \<Rightarrow> bool" where
  "lowest_one k n \<longleftrightarrow> bit k n \<and> (\<forall>i<n. \<not> bit k i)"

lemma lowest_one_dvd: "lowest_one k n \<longleftrightarrow> 2 ^ n dvd k \<and> odd (k div 2 ^ n)"
proof -
  have "(\<forall>i<n. \<not> bit k i) \<longleftrightarrow> take_bit n k = 0"
    by (auto simp: bit_eq_iff bit_take_bit_iff)
  then show ?thesis by (auto simp: lowest_one_def take_bit_eq_mod bit_iff_odd dvd_eq_mod_eq_0)
qed

lemma lowest_one_minus: "lowest_one (- k) n \<longleftrightarrow> lowest_one k n"
  by (auto simp: lowest_one_dvd dvd_neg_div)

lemma lowest_one_abs: "lowest_one \<bar>k\<bar> n \<longleftrightarrow> lowest_one k n"
  by (simp add: abs_if lowest_one_minus)

theorem integer_first_set_bit_correct:
  assumes "integer_ok n" "integer_digits n < 4294967295"
  shows "int_of n = 0 \<Longrightarrow> delivers (integer_first_set_bit n) (- 1)"
    "lowest_one (int_of n) i \<Longrightarrow> delivers (integer_first_set_bit n) (int i)"
proof -
  show "int_of n = 0 \<Longrightarrow> delivers (integer_first_set_bit n) (- 1)"
  proof (cases n)
    case (Fixnum_Object x)
    assume "int_of n = 0"
    then show ?thesis
      using assms Fixnum_Object delivers_LONG_TO_FIXNUM [of "- 1" "- 1"]
      by (simp add: FIXNUM_TO_LONG_zero ulong_first_set_bit_def fixnum_range_num)
  qed (use assms in \<open>simp add: fixnum_range_num\<close>)
  assume l: "lowest_one (int_of n) i"
  show "delivers (integer_first_set_bit n) (int i)"
  proof (cases n)
    case (Fixnum_Object x)
    let ?w = "FIXNUM_TO_LONG x"
    have s: "sint ?w = fixnum_int x" using assms Fixnum_Object by (simp add: sint_FIXNUM_TO_LONG)
    have b: "bit ?w j \<longleftrightarrow> bit (fixnum_int x) j" if "j < 64" for j
      using bit_sint64 [of ?w j] that unfolding s by (simp add: min_def)
    have "i < 64"
    proof (rule ccontr)
      assume "\<not> i < 64"
      then have "bit (fixnum_int x) 63" using l Fixnum_Object by (simp add: lowest_one_def bit_fixnum_int)
      then show False using l Fixnum_Object \<open>\<not> i < 64\<close> by (simp add: lowest_one_def)
    qed
    then have "ulong_first_set_bit ?w = int i"
      using l Fixnum_Object b by (intro ulong_first_set_bit_correct) (simp_all add: lowest_one_def)
    then show ?thesis
      using Fixnum_Object \<open>i < 64\<close> delivers_LONG_TO_FIXNUM [of "word_of_int (int i)" "int i"]
      by (simp add: Let_def sint_of_int64 [of "int i", simplified] fixnum_range_num)
  next
    case (Bignum_Object b)
    then have w: "bignum_wf b" "bignum_int b \<noteq> 0" using assms by (auto simp: fixnum_range_num)
    obtain m where m: "bignum_first_set_bit b = Some (word_of_nat m)" "lowest_one \<bar>bignum_int b\<bar> m"
      using bignum_first_set_bit_correct [OF w] unfolding lowest_one_def by blast
    have e: "m = i"
      using m(2) l Bignum_Object unfolding lowest_one_abs
      by (cases m i rule: linorder_cases) (auto simp: lowest_one_def)
    have "2 ^ m dvd \<bar>bignum_int b\<bar>" using m(2) unfolding lowest_one_dvd by blast
    then have "(2 :: int) ^ m \<le> \<bar>bignum_int b\<bar>" using w(2) by (intro zdvd_imp_le) simp_all
    also have "\<dots> < 2 ^ (62 * BIGNUM_LENGTH b)" using w(1) by (rule bignum_bits)
    finally have "m < 62 * BIGNUM_LENGTH b" by simp
    then have "m < 9223372036854775808" using assms Bignum_Object by simp
    then show ?thesis
      using Bignum_Object m(1) e delivers_long [of "word_of_nat m" "int m"] sint_of_int64 [of "int m"] by simp
  qed
qed

theorem integer_hamming_distance_correct:
  assumes "fits_together n m" "same \<Longrightarrow> n = m"
  shows "delivers (integer_hamming_distance same n m)
    (if (int_of n < 0) = (int_of m < 0) then int (popcount (int_of n XOR int_of m)) else - 1)"
proof -
  define fixc where "fixc = (\<lambda>n m. let x = FIXNUM_TO_LONG n XOR FIXNUM_TO_LONG m
    in Some (Fixnum_Object (if long_less x 0 then LONG_TO_FIXNUM (- 1)
                            else ULONG_TO_FIXNUM (word_of_nat (ulong_bit_count x)))))"
  define bigc where "bigc = (\<lambda>n m. bignum_hamming_distance (same \<and> n = m) n m \<bind> long_to_integer)"
  define spec where "spec = (\<lambda>k l. if (k < 0) = (l < 0) then int (popcount (k XOR l)) else (- 1 :: int))"
  have "integer_operator fixc bigc (\<lambda>k l r. delivers r (spec k l))"
  proof
    fix x y assume f: "FIXNUM_P x" "FIXNUM_P y"
    let ?w = "FIXNUM_TO_LONG x XOR FIXNUM_TO_LONG y"
    have s: "sint ?w = fixnum_int x XOR fixnum_int y"
      using f by (simp add: sint_FIXNUM_TO_LONG signed_xor_eq)
    then have g: "long_less ?w 0 \<longleftrightarrow> (fixnum_int x < 0) \<noteq> (fixnum_int y < 0)"
      by (auto simp: word_sless_alt)
    have c: "ulong_bit_count ?w = popcount (fixnum_int x XOR fixnum_int y)" if "\<not> long_less ?w 0"
    proof -
      have "0 \<le> sint ?w" using that by (simp add: word_sless_alt)
      then have "uint ?w = fixnum_int x XOR fixnum_int y" unfolding s [symmetric] by (rule uint_eq_sint64)
      then show ?thesis by (simp only: ulong_bit_count_correct)
    qed
    have "ulong_bit_count ?w \<le> 64" using popcount_le [OF uint_bounds64, of ?w] by (simp only: ulong_bit_count_correct)
    then show "delivers (fixc x y) (spec (fixnum_int x) (fixnum_int y))"
      using g c delivers_small_count [of "ulong_bit_count ?w"] delivers_LONG_TO_FIXNUM [of "- 1" "- 1"]
      by (auto simp: fixc_def spec_def Let_def fixnum_range_num)
  next
    fix a b assume w: "bignum_wf a" "bignum_wf b" "BIGNUM_LENGTH a + BIGNUM_LENGTH b < 4294967295"
    then have sh: "short_bignum a" "short_bignum b" by (simp_all add: BIGNUM_LENGTH_MAX_eq)
    let ?n = "62 * (BIGNUM_LENGTH a + BIGNUM_LENGTH b)" and ?x = "bignum_int a XOR bignum_int b"
    have "(2 :: int) ^ (62 * BIGNUM_LENGTH a) \<le> 2 ^ ?n" "(2 :: int) ^ (62 * BIGNUM_LENGTH b) \<le> 2 ^ ?n"
      by (intro power_increasing; simp)+
    then have r: "?x < 2 ^ ?n"
      using ib_xor.op_range [of ?n "bignum_int a" "bignum_int b"] bignum_bits [OF w(1)] bignum_bits [OF w(2)]
      by linarith
    have p: "popcount ?x < 9223372036854775808" if "(bignum_int a < 0) = (bignum_int b < 0)"
    proof -
      have "(0 \<le> bignum_int a) = (0 \<le> bignum_int b)" using that by linarith
      then have "popcount ?x \<le> ?n" using r by (intro popcount_le) simp_all
      then show ?thesis using w(3) by simp
    qed
    have h: "bignum_hamming_distance (same \<and> a = b) a b = Some (if (bignum_int a < 0) = (bignum_int b < 0)
        then word_of_nat (popcount ?x) else - 1)"
      using bignum_hamming_distance_correct [OF sh, of "same \<and> a = b"] by simp
    show "delivers (bigc a b) (spec (bignum_int a) (bignum_int b))"
      using h p delivers_long [of "- 1" "- 1"] delivers_long [of "word_of_nat (popcount ?x)" "int (popcount ?x)"]
        sint_of_int64 [of "int (popcount ?x)"]
      by (auto simp: bigc_def spec_def)
  qed
  from integer_operator.dispatch_correct [OF this, of n m]
  have d: "delivers (integer_dispatch fixc bigc n m) (spec (int_of n) (int_of m))" using assms(1) by simp
  have "integer_hamming_distance same n m = integer_dispatch fixc bigc n m"
    using assms(2) unfolding integer_hamming_distance_def fixc_def [symmetric] bigc_def
    by (cases same; cases n; cases m) (auto split: Option.bind_split)
  then show ?thesis using d by (simp add: spec_def)
qed

section \<open>Blocks of one bits\<close>

lemma one_bits_bound:
  assumes "n + m \<le> 57"
  shows "0 \<le> (2 ^ n - 1) * (2 :: int) ^ m" "(2 ^ n - 1) * (2 :: int) ^ m < 2 ^ 57"
proof -
  have "(2 :: int) ^ n * 2 ^ m \<le> 2 ^ 57"
    using assms by (simp only: power_add [symmetric]) (intro power_increasing, simp_all)
  moreover have "(0 :: int) < 2 ^ m" by simp
  ultimately show "(2 ^ n - 1) * (2 :: int) ^ m < 2 ^ 57" unfolding left_diff_distrib mult_1 by linarith
qed simp

lemma uint_one_bits:
  assumes "n + m \<le> 57"
  shows "uint (push_bit m (NOT (push_bit n (NOT 0))) :: ulong) = (2 ^ n - 1) * 2 ^ m"
proof -
  have e: "NOT (push_bit n (NOT 0)) = (mask n :: ulong)" by (rule bit_eqI) (auto simp: bit_simps)
  have b: "((2 :: int) ^ n - 1) * 2 ^ m < 2 ^ 64" using one_bits_bound(2) [OF assms] by simp
  have u: "uint (mask n :: ulong) = 2 ^ n - 1"
    using uint_and_mask64 [of "- 1" n] assms
    by (simp add: unsigned_minus_1_eq_mask take_bit_eq_mod [symmetric] min_absorb2 mask_eq_exp_minus_1 [symmetric])
  show ?thesis unfolding e using uint_push_bit_exact [of "mask n :: ulong" m] b by (simp add: u)
qed

lemma block_size:
  assumes "0 < n" "57 < n + m"
  shows "(2 :: int) ^ 57 \<le> (2 ^ n - 1) * 2 ^ m"
proof -
  have "(2 :: int) ^ 57 \<le> 2 ^ (n - 1 + m)" using assms by (intro power_increasing) simp_all
  also have "\<dots> = 2 ^ (n - 1) * 2 ^ m" by (simp only: power_add)
  also have "\<dots> \<le> (2 ^ n - 1) * 2 ^ m"
  proof (intro mult_right_mono)
    have "(2 :: int) ^ n = 2 * 2 ^ (n - 1)" using assms(1) by (cases n) simp_all
    moreover have "(1 :: int) \<le> 2 ^ (n - 1)" by simp
    ultimately show "(2 :: int) ^ (n - 1) \<le> 2 ^ n - 1" by linarith
  qed simp
  finally show ?thesis .
qed

lemma word_sum_le:
  fixes n m :: ulong
  assumes "unat n + unat m < 2 ^ 64"
  shows "n + m \<le> word_of_nat FIXNUM_LENGTH \<longleftrightarrow> unat n + unat m \<le> 57"
  using assms unat_add_lem [of n m] by (simp add: word_le_nat_alt)

theorem integer_one_bits_correct:
  assumes "unat n + unat m + 186 \<le> 62 * BIGNUM_LENGTH_MAX"
  shows "delivers (integer_nonnegative_one_bits n m) ((2 ^ unat n - 1) * 2 ^ unat m)"
    "delivers (integer_negative_zero_bits n m) (NOT ((2 ^ unat n - 1) * 2 ^ unat m))"
proof -
  let ?k = "(2 ^ unat n - 1) * 2 ^ unat m :: int"
  note b = bignum_nonnegative_one_bits_correct [OF assms]
  have lt: "unat n + unat m < 2 ^ 64" using assms by (simp add: BIGNUM_LENGTH_MAX_eq)
  have "delivers (integer_nonnegative_one_bits n m) ?k \<and> delivers (integer_negative_zero_bits n m) (NOT ?k)"
  proof (cases "n = 0")
    case True
    then show ?thesis
      using delivers_LONG_TO_FIXNUM [of 0 0] delivers_LONG_TO_FIXNUM [of "- 1" "- 1"]
      by (simp add: integer_nonnegative_one_bits_def integer_negative_zero_bits_def fixnum_range_num)
  next
    case n: False
    then have n0: "0 < unat n" by (simp add: unat_gt_0)
    show ?thesis
    proof (cases "unat n + unat m \<le> 57")
      case True
      let ?w = "push_bit (unat m) (NOT (push_bit (unat n) (NOT 0))) :: ulong"
      have u: "uint ?w = ?k" using True by (rule uint_one_bits)
      note k = one_bits_bound [OF True]
      then have s: "sint ?w = ?k" using sint_eq_uint64 [of ?w] u by simp
      have "ULONG_TO_FIXNUM ?w = fixnum_object ?k"
        using LONG_TO_UNSIGNED_FIXNUM_eq [of ?w] k unfolding u
        by (simp add: ULONG_TO_FIXNUM_def LONG_TO_UNSIGNED_FIXNUM_def)
      moreover have "delivers (Some (Fixnum_Object (LONG_TO_FIXNUM (NOT ?w)))) (NOT ?k)"
      proof (rule delivers_LONG_TO_FIXNUM)
        show "sint (NOT ?w) = NOT ?k" unfolding sint_NOT64 s ..
        moreover have "fixnum_range (NOT z)" if "0 \<le> z" "z < 2 ^ 57" for z
          using that by (simp add: fixnum_range_num not_int_def)
        ultimately show "fixnum_range (sint (NOT ?w))" using k by (simp only:)
      qed
      moreover have "delivers (Some (Fixnum_Object (fixnum_object ?k))) ?k"
      proof (rule delivers_fixnum)
        have "fixnum_range z" if "0 \<le> z" "z < 2 ^ 57" for z using that by (simp add: fixnum_range_num)
        then show "fixnum_range ?k" using k by blast
      qed
      ultimately show ?thesis
        using n True word_sum_le [OF lt]
        by (simp add: integer_nonnegative_one_bits_def integer_negative_zero_bits_def)
    next
      case False
      then have big: "2 ^ 57 \<le> ?k" using n0 by (intro block_size) simp_all
      then have "\<not> fixnum_range ?k" "\<not> fixnum_range (NOT ?k)"
        by (simp_all add: fixnum_range_num not_int_def)
      then show ?thesis
        using n False word_sum_le [OF lt] yields_Bignum_Object [OF b(1)] yields_Bignum_Object [OF b(2)]
        by (simp add: integer_nonnegative_one_bits_def integer_negative_zero_bits_def)
    qed
  qed
  then show "delivers (integer_nonnegative_one_bits n m) ?k"
    "delivers (integer_negative_zero_bits n m) (NOT ?k)" by blast+
qed

section \<open>Shifts\<close>

lemma push_bit_exact_abs:
  assumes "0 \<le> sint w" "sint w * 2 ^ m \<le> 2 ^ 57"
  shows "sint (push_bit m (w :: long)) = sint w * 2 ^ m" "sint (- push_bit m w) = - (sint w * 2 ^ m)"
proof -
  have u: "uint w = sint w" using assms(1) by (rule uint_eq_sint64)
  then have p: "uint (push_bit m w) = sint w * 2 ^ m"
    using assms(2) uint_push_bit_exact [of w m] by simp
  then show s: "sint (push_bit m w) = sint w * 2 ^ m"
    using assms(2) sint_eq_uint64 [of "push_bit m w"] by simp
  have "- (2 ^ 63) < sint w * 2 ^ m" by (rule less_le_trans [of _ 0]) (use assms(1) in simp_all)
  then show "sint (- push_bit m w) = - (sint w * 2 ^ m)"
    using sint_arith64(3) [of "push_bit m w"] unfolding s by blast
qed

lemma shifted_bits:
  fixes v :: int
  assumes "bit_length v l" "0 < v"
  shows "m + l \<le> 57 \<Longrightarrow> v * 2 ^ m < 2 ^ 57" "57 < m + l \<Longrightarrow> 2 ^ 57 \<le> v * 2 ^ m"
proof -
  have l: "0 < l" "2 ^ (l - 1) \<le> v" "v < 2 ^ l" using assms by (cases l; simp add: bit_length_def)+
  show "v * 2 ^ m < 2 ^ 57" if "m + l \<le> 57"
  proof -
    have "v * 2 ^ m < 2 ^ l * 2 ^ m" using l(3) by simp
    also have "\<dots> \<le> 2 ^ 57" using that by (simp only: power_add [symmetric]) (intro power_increasing, simp_all)
    finally show ?thesis .
  qed
  show "2 ^ 57 \<le> v * 2 ^ m" if "57 < m + l"
  proof -
    have "(2 :: int) ^ 57 \<le> 2 ^ (l - 1 + m)" using that l(1) by (intro power_increasing) simp_all
    also have "\<dots> \<le> v * 2 ^ m" unfolding power_add using l(2) by simp
    finally show ?thesis .
  qed
qed

lemma shift_sum_le:
  assumes "unat (m :: ulong) + 64 < 2 ^ 64" "l \<le> 64"
  shows "m + word_of_nat l \<le> word_of_nat FIXNUM_LENGTH \<longleftrightarrow> unat m + l \<le> 57"
proof -
  have "unat (word_of_nat l :: ulong) = l" using assms(2) by (intro unat_of_nat64) simp
  then show ?thesis using word_sum_le [of m "word_of_nat l"] assms by simp
qed

lemma shift_left_negative:
  assumes "FIXNUM_P x" "fixnum_int x < 0" "m \<noteq> 0" "unat m + 64 \<le> 62 * BIGNUM_LENGTH_MAX"
  shows "delivers (integer_shift_left (Fixnum_Object x) m) (fixnum_int x * 2 ^ unat m)"
proof -
  let ?n1 = "FIXNUM_TO_LONG x" and ?k = "fixnum_int x" and ?M = "unat m"
  let ?l = "ulong_length_in_bits (NOT ?n1)"
  have s: "sint ?n1 = ?k" "sint (- ?n1) = - ?k" "uint (- ?n1) = - ?k"
    using assms sint_fixnum_sum(5) [OF assms(1,1)] uint_eq_sint64 [of "- ?n1"] by (simp_all add: sint_FIXNUM_TO_LONG)
  have lt: "?M + 64 < 2 ^ 64" using assms(4) by (simp add: BIGNUM_LENGTH_MAX_eq)
  have "uint (NOT ?n1) = - ?k - 1"
    using uint_length_operand [OF assms(1)] assms(2) by (simp add: word_sless_alt s)
  then have l: "bit_length (- ?k - 1) ?l" "?l \<le> 64" using bit_length_word [of "NOT ?n1"] by simp_all
  note c = shift_sum_le [OF lt l(2)]
  have neg: "long_less ?n1 0" using assms(2) by (simp add: word_sless_alt s)
  show ?thesis
  proof (cases "?M + ?l \<le> 57")
    case True
    have "- ?k \<le> 2 ^ ?l" using l(1) by (simp add: bit_length_def)
    then have "- ?k * 2 ^ ?M \<le> 2 ^ ?l * 2 ^ ?M" by (intro mult_right_mono) simp_all
    also have "\<dots> \<le> 2 ^ 57" using True by (simp only: power_add [symmetric]) (intro power_increasing, simp_all)
    finally have b: "- ?k * 2 ^ ?M \<le> 2 ^ 57" .
    have "sint (- push_bit ?M (- ?n1)) = ?k * 2 ^ ?M"
      using push_bit_exact_abs(2) [of "- ?n1" ?M] s(2) assms(2) b by simp
    moreover have "?k * 2 ^ ?M < 0" using assms(2) by (simp add: mult_less_0_iff)
    then have "fixnum_range (?k * 2 ^ ?M)" using b by (simp add: fixnum_range_num)
    ultimately show ?thesis
      using neg assms(3) True c by (simp add: Let_def LONG_TO_FIXNUM_sint)
  next
    case False
    have "2 ^ 57 < - ?k * 2 ^ ?M"
    proof (cases "- ?k - 1 = 0")
      case True
      then have "?l = 0" using l(1) by (cases ?l) (simp_all add: bit_length_def)
      then have "(2 :: int) ^ 57 < 2 ^ ?M" using False by (intro power_strict_increasing) simp_all
      then show ?thesis using True by simp
    next
      case nz: False
      have "2 ^ 57 \<le> (- ?k - 1) * 2 ^ ?M" using shifted_bits(2) [OF l(1), of ?M] nz assms(2) False by simp
      moreover have "(0 :: int) < 2 ^ ?M" by simp
      ultimately show ?thesis unfolding left_diff_distrib mult_1 by linarith
    qed
    then have r: "\<not> fixnum_range (?k * 2 ^ ?M)" by (simp add: fixnum_range_num)
    obtain b where b: "unsigned_long_to_shifted_bignum (- ?n1) m False = Some b" "bignum_wf b"
      "bignum_int b = - ?k * 2 ^ ?M"
      using unsigned_long_to_shifted_bignum_correct [OF assms(4), of "- ?n1" False] s(3) by (auto elim: yieldsE)
    have "yields (bignum_negate b) (?k * 2 ^ ?M)" using bignum_negate_correct [OF b(2)] b(3) by simp
    then show ?thesis
      using neg assms(3) False c b(1) r by (simp add: Let_def yields_Bignum_Object)
  qed
qed

lemma shift_left_positive:
  assumes "FIXNUM_P x" "0 < fixnum_int x" "m \<noteq> 0" "unat m + 64 \<le> 62 * BIGNUM_LENGTH_MAX"
  shows "delivers (integer_shift_left (Fixnum_Object x) m) (fixnum_int x * 2 ^ unat m)"
proof -
  let ?n1 = "FIXNUM_TO_LONG x" and ?k = "fixnum_int x" and ?M = "unat m"
  let ?l = "ulong_length_in_bits ?n1"
  have s: "sint ?n1 = ?k" "uint ?n1 = ?k"
    using assms uint_eq_sint64 [of ?n1] by (simp_all add: sint_FIXNUM_TO_LONG)
  have lt: "?M + 64 < 2 ^ 64" using assms(4) by (simp add: BIGNUM_LENGTH_MAX_eq)
  have l: "bit_length ?k ?l" "?l \<le> 64" using bit_length_word [of ?n1] s(2) by simp_all
  note c = shift_sum_le [OF lt l(2)]
  have pos: "\<not> long_less ?n1 0" "long_less 0 ?n1" using assms(2) by (simp_all add: word_sless_alt s)
  show ?thesis
  proof (cases "?M + ?l \<le> 57")
    case True
    have b: "?k * 2 ^ ?M < 2 ^ 57" using shifted_bits(1) [OF l(1) assms(2) True] .
    have "sint (push_bit ?M ?n1) = ?k * 2 ^ ?M"
      using push_bit_exact_abs(1) [of ?n1 ?M] s(1) assms(2) b by simp
    moreover have "0 < ?k * 2 ^ ?M" using assms(2) by simp
    then have "fixnum_range (?k * 2 ^ ?M)" using b by (simp add: fixnum_range_num)
    ultimately show ?thesis
      using pos assms(3) True c by (simp add: Let_def LONG_TO_FIXNUM_sint)
  next
    case False
    then have "2 ^ 57 \<le> ?k * 2 ^ ?M" using shifted_bits(2) [OF l(1) assms(2), of ?M] by simp
    then have r: "\<not> fixnum_range (?k * 2 ^ ?M)" by (simp add: fixnum_range_num)
    have "yields (unsigned_long_to_shifted_bignum ?n1 m False) (?k * 2 ^ ?M)"
      using unsigned_long_to_shifted_bignum_correct [OF assms(4), of ?n1 False] s(2) by simp
    then show ?thesis
      using pos assms(3) False c r by (simp add: Let_def yields_Bignum_Object)
  qed
qed

theorem integer_shift_left_correct:
  assumes "integer_ok n" "62 * (integer_digits n + 2) + unat m \<le> 62 * BIGNUM_LENGTH_MAX"
  shows "delivers (integer_shift_left n m) (int_of n * 2 ^ unat m)"
proof (cases "m = 0")
  case True
  then show ?thesis using assms by (cases n) simp_all
next
  case m: False
  show ?thesis
  proof (cases n)
    case (Fixnum_Object x)
    then have x: "FIXNUM_P x" "unat m + 64 \<le> 62 * BIGNUM_LENGTH_MAX" using assms by simp_all
    consider "fixnum_int x < 0" | "0 < fixnum_int x" | "fixnum_int x = 0" by linarith
    then show ?thesis
    proof cases
      case 3
      then show ?thesis
        using m x Fixnum_Object delivers_LONG_TO_FIXNUM [of 0 0]
        by (simp add: FIXNUM_TO_LONG_zero fixnum_range_num)
    qed (use shift_left_negative shift_left_positive m x Fixnum_Object in simp_all)
  next
    case (Bignum_Object b)
    then have b: "bignum_wf b" "\<not> fixnum_range (bignum_int b)"
      and l: "62 * BIGNUM_LENGTH b + unat m \<le> 62 * BIGNUM_LENGTH_MAX" using assms by simp_all
    have "\<bar>bignum_int b\<bar> * 1 \<le> \<bar>bignum_int b\<bar> * 2 ^ unat m" by (intro mult_left_mono) simp_all
    then have "\<bar>bignum_int b\<bar> \<le> \<bar>bignum_int b * 2 ^ unat m\<bar>" by (simp add: abs_mult)
    moreover have "bignum_int b * 2 ^ unat m < 0 \<longleftrightarrow> bignum_int b < 0" by (simp add: mult_less_0_iff)
    ultimately have "\<not> fixnum_range (bignum_int b * 2 ^ unat m)"
      using b(2) unfolding fixnum_range_num by linarith
    then show ?thesis
      using m Bignum_Object yields_Bignum_Object [OF bignum_shift_left_correct [OF b(1) l]] by simp
  qed
qed

lemma sint_shift_right:
  fixes w :: long
  shows "sint (if long_less w 0 then NOT (long_shr (NOT w) m) else long_shr w m) = sint w div 2 ^ m"
proof -
  have "NOT (drop_bit m (NOT k)) = drop_bit m k" for k :: int
    by (rule bit_eqI) (simp add: bit_simps)
  then show ?thesis by (simp add: long_shr_def sint_signed_drop_bit_eq sint_NOT64 drop_bit_eq_div)
qed

lemma int_div_power_bound: "\<bar>k div 2 ^ m\<bar> \<le> \<bar>k :: int\<bar>"
proof (cases "0 \<le> k")
  case True
  then show ?thesis using int_div_bounds [of k "2 ^ m"] by simp
next
  case False
  have "k div 1 \<le> k div 2 ^ m" using False by (intro zdiv_mono2_neg) simp_all
  moreover have "k div 2 ^ m < 0" using False by (simp add: pos_imp_zdiv_neg_iff)
  ultimately show ?thesis using False by simp
qed

theorem integer_shift_right_correct:
  assumes "integer_ok n" "integer_digits n < 4294967295"
    and "\<And>k. int_of n = - ((2 ^ 62) ^ k) \<Longrightarrow> beyond = 0"
  shows "delivers (integer_shift_right beyond n m) (int_of n div 2 ^ unat m)"
proof (cases "m = 0")
  case True
  then show ?thesis using assms by (cases n) simp_all
next
  case m: False
  show ?thesis
  proof (cases n)
    case (Fixnum_Object x)
    let ?k = "fixnum_int x"
    have s: "sint (FIXNUM_TO_LONG x) = ?k" using assms Fixnum_Object by (simp add: sint_FIXNUM_TO_LONG)
    have r: "fixnum_range (?k div 2 ^ j)" for j
    proof (cases "0 \<le> ?k")
      case True
      then show ?thesis
        using int_div_bounds [of ?k "2 ^ j"] fixnum_int_num [of x] by (simp add: fixnum_range_num)
    next
      case False
      then have "?k div 1 \<le> ?k div 2 ^ j" "?k div 2 ^ j < 0"
        by (intro zdiv_mono2_neg, simp_all add: pos_imp_zdiv_neg_iff)
      then show ?thesis using fixnum_int_num [of x] by (simp add: fixnum_range_num)
    qed
    show ?thesis
    proof (cases "m \<ge> 64")
      case True
      then have "64 \<le> unat m" by (simp add: word_le_nat_alt)
      then have p: "(2 :: int) ^ 64 \<le> 2 ^ unat m" by (intro power_increasing) simp_all
      have "?k div 2 ^ unat m = (if ?k < 0 then - 1 else 0)"
        using fixnum_int_num [of x] p int_div_pos_eq [of ?k "2 ^ unat m" "- 1" "?k + 2 ^ unat m"]
        by (auto intro: div_pos_pos_trivial)
      then show ?thesis
        using m True Fixnum_Object delivers_LONG_TO_FIXNUM [of "- 1" "- 1"] delivers_LONG_TO_FIXNUM [of 0 0]
        by (simp add: Let_def word_sless_alt s fixnum_range_num)
    next
      case False
      then show ?thesis
        using m r sint_shift_right [of "FIXNUM_TO_LONG x" "unat m"]
        by (simp only: Fixnum_Object integer_shift_right.simps Let_def LONG_TO_FIXNUM_sint s if_False
            int_of.simps delivers_fixnum)
    qed
  next
    case (Bignum_Object b)
    then have b: "short_bignum b" using assms by (simp add: BIGNUM_LENGTH_MAX_eq)
    have "yields (bignum_shift_right beyond b m) (bignum_int b div 2 ^ unat m)"
      using b assms(3) Bignum_Object by (intro bignum_shift_right_correct) simp_all
    then have "delivers (bignum_shift_right beyond b m \<bind> bignum_to_integer) (bignum_int b div 2 ^ unat m)"
    proof (rule yields_bignum_to_integer [where l = "BIGNUM_LENGTH b"])
      show "\<bar>bignum_int b div 2 ^ unat m\<bar> < 2 ^ (62 * BIGNUM_LENGTH b)"
        using int_div_power_bound [of "bignum_int b" "unat m"] bignum_bits [of b] b by (blast intro: le_less_trans)
    qed (use assms Bignum_Object in simp)
    then show ?thesis using m Bignum_Object by simp
  qed
qed

end
