(* ===== verification/Integer_Prims.thy ===== *)
theory Integer_Prims
  imports Integer_Bits Bignum_Stream
begin

text \<open>
  The primitives on integers: \<open>microcode/intprm.c\<close> (generic integers), \<open>bigprm.c\<close>
  (bignums), \<open>generic.c\<close> (the fixnum fast paths of generic arithmetic) and the argument
  checks of \<open>utils.c\<close> they use. A primitive receives Scheme objects; it checks their types,
  signals an error with the index of the offending argument, or returns an object. Integer
  arguments are the integers of \<^theory_text>\<open>Integer_Ops\<close>; lists, which \<open>LIST->INTEGER\<close> reads and
  \<open>LISTIFY-BIGNUM\<close> and the divisions build, are finite trees of pairs; every other object is
  its word. A result \<^const>\<open>None\<close> is a failed assertion in the bignum code.
\<close>

section \<open>Objects and argument checks\<close>

datatype object = Integer_Object integer | Pair_Object object object | Other_Object ulong

type_synonym result = "object prim option"

definition BOOLEAN_OBJECT :: "bool \<Rightarrow> object" where
  "BOOLEAN_OBJECT b = Other_Object (BOOLEAN_TO_OBJECT b)"

definition EMPTY_LIST_OBJECT :: object where
  "EMPTY_LIST_OBJECT = Other_Object EMPTY_LIST"

definition check_integer :: "nat \<Rightarrow> object \<Rightarrow> (integer \<Rightarrow> 'a prim option) \<Rightarrow> 'a prim option" where
  "check_integer arg x f = (case x of Integer_Object n \<Rightarrow> f n | _ \<Rightarrow> Some (Inl (Wrong_Type arg)))"

definition check_bignum :: "nat \<Rightarrow> object \<Rightarrow> (bignum \<Rightarrow> 'a prim option) \<Rightarrow> 'a prim option" where
  "check_bignum arg x f =
     (case x of Integer_Object (Bignum_Object b) \<Rightarrow> f b | _ \<Rightarrow> Some (Inl (Wrong_Type arg)))"

definition check_pair :: "nat \<Rightarrow> object \<Rightarrow> (object \<Rightarrow> object \<Rightarrow> 'a prim option) \<Rightarrow> 'a prim option" where
  "check_pair arg x f = (case x of Pair_Object a d \<Rightarrow> f a d | _ \<Rightarrow> Some (Inl (Wrong_Type arg)))"

definition with_prim :: "'a prim option \<Rightarrow> ('a \<Rightarrow> 'b prim option) \<Rightarrow> 'b prim option" where
  "with_prim r f = (case r of None \<Rightarrow> None | Some (Inl e) \<Rightarrow> Some (Inl e) | Some (Inr a) \<Rightarrow> f a)"

lemma with_prim_simps [simp]:
  "with_prim None f = None" "with_prim (Some (Inl e)) f = Some (Inl e)" "with_prim (Some (Inr a)) f = f a"
  by (simp_all add: with_prim_def)

lemma check_simps [simp]:
  "check_integer arg (Integer_Object n) f = f n"
  "check_integer arg (Pair_Object a d) f = Some (Inl (Wrong_Type arg))"
  "check_integer arg (Other_Object w) f = Some (Inl (Wrong_Type arg))"
  "check_bignum arg (Integer_Object (Bignum_Object b)) g = g b"
  "check_bignum arg (Integer_Object (Fixnum_Object w)) g = Some (Inl (Wrong_Type arg))"
  "check_bignum arg (Pair_Object a d) g = Some (Inl (Wrong_Type arg))"
  "check_bignum arg (Other_Object w) g = Some (Inl (Wrong_Type arg))"
  "check_pair arg (Pair_Object a d) h = h a d"
  "check_pair arg (Integer_Object n) h = Some (Inl (Wrong_Type arg))"
  "check_pair arg (Other_Object w) h = Some (Inl (Wrong_Type arg))"
  by (simp_all add: check_integer_def check_bignum_def check_pair_def)

definition arg_integer :: "nat \<Rightarrow> object \<Rightarrow> long prim option" where
  "arg_integer arg_number x =
     check_integer arg_number x (\<lambda>n. do {
       p \<leftarrow> integer_to_long_p n;
       Some (if \<not> p then Inl (Bad_Range arg_number) else Inr (integer_to_long n)) })"

definition arg_nonnegative_integer :: "nat \<Rightarrow> object \<Rightarrow> long prim option" where
  "arg_nonnegative_integer arg_number x =
     with_prim (arg_integer arg_number x) (\<lambda>result.
       Some (if long_less result 0 then Inl (Bad_Range arg_number) else Inr result))"

definition arg_index_integer :: "nat \<Rightarrow> object \<Rightarrow> long \<Rightarrow> long prim option" where
  "arg_index_integer arg_number x upper_limit =
     with_prim (arg_integer arg_number x) (\<lambda>result.
       Some (if long_less result 0 \<or> \<not> long_less result upper_limit
             then Inl (Bad_Range arg_number) else Inr result))"

definition arg_integer_in_range :: "nat \<Rightarrow> object \<Rightarrow> long \<Rightarrow> long \<Rightarrow> long prim option" where
  "arg_integer_in_range arg_number x lower_limit upper_limit =
     with_prim (arg_integer arg_number x) (\<lambda>result.
       Some (if long_less result lower_limit \<or> \<not> long_less result upper_limit
             then Inl (Bad_Range arg_number) else Inr result))"

definition arg_ulong_integer :: "nat \<Rightarrow> object \<Rightarrow> ulong prim option" where
  "arg_ulong_integer arg_number x =
     check_integer arg_number x (\<lambda>n. do {
       p \<leftarrow> integer_to_ulong_p n;
       if \<not> p then Some (Inl (Bad_Range arg_number)) else map_option Inr (integer_to_ulong n) })"

definition arg_ulong_index_integer :: "nat \<Rightarrow> object \<Rightarrow> ulong \<Rightarrow> ulong prim option" where
  "arg_ulong_index_integer arg_number x upper_limit =
     with_prim (arg_ulong_integer arg_number x) (\<lambda>result.
       Some (if result \<ge> upper_limit then Inl (Bad_Range arg_number) else Inr result))"

definition arg_ulong_integer_in_range :: "nat \<Rightarrow> object \<Rightarrow> ulong \<Rightarrow> ulong \<Rightarrow> ulong prim option" where
  "arg_ulong_integer_in_range arg_number x lower_limit upper_limit =
     with_prim (arg_ulong_integer arg_number x) (\<lambda>result.
       Some (if \<not> (result \<ge> lower_limit \<and> result < upper_limit)
             then Inl (Bad_Range arg_number) else Inr result))"

section \<open>Generic integer primitives\<close>

definition INTEGER_TEST :: "(integer \<Rightarrow> bool) \<Rightarrow> object \<Rightarrow> result" where
  "INTEGER_TEST test x = check_integer 1 x (\<lambda>n. Some (Inr (BOOLEAN_OBJECT (test n))))"

definition Prim_integer_zero_p :: "object \<Rightarrow> result" where
  "Prim_integer_zero_p = INTEGER_TEST integer_zero_p"
definition Prim_integer_negative_p :: "object \<Rightarrow> result" where
  "Prim_integer_negative_p = INTEGER_TEST integer_negative_p"
definition Prim_integer_positive_p :: "object \<Rightarrow> result" where
  "Prim_integer_positive_p = INTEGER_TEST integer_positive_p"

definition INTEGER_COMPARISON :: "(integer \<Rightarrow> integer \<Rightarrow> bool option) \<Rightarrow> object \<Rightarrow> object \<Rightarrow> result" where
  "INTEGER_COMPARISON comparison x y =
     check_integer 1 x (\<lambda>n. check_integer 2 y (\<lambda>m.
       map_option (\<lambda>b. Inr (BOOLEAN_OBJECT b)) (comparison n m)))"

definition Prim_integer_equal_p :: "object \<Rightarrow> object \<Rightarrow> result" where
  "Prim_integer_equal_p = INTEGER_COMPARISON integer_equal_p"
definition Prim_integer_less_p :: "object \<Rightarrow> object \<Rightarrow> result" where
  "Prim_integer_less_p = INTEGER_COMPARISON integer_less_p"

definition Prim_integer_greater_p :: "object \<Rightarrow> object \<Rightarrow> result" where
  "Prim_integer_greater_p x y =
     check_integer 1 x (\<lambda>n. check_integer 2 y (\<lambda>m.
       map_option (\<lambda>b. Inr (BOOLEAN_OBJECT b)) (integer_less_p m n)))"

definition INTEGER_BINARY_OPERATION ::
  "(integer \<Rightarrow> integer \<Rightarrow> integer option) \<Rightarrow> object \<Rightarrow> object \<Rightarrow> result" where
  "INTEGER_BINARY_OPERATION operator x y =
     check_integer 1 x (\<lambda>n. check_integer 2 y (\<lambda>m.
       map_option (\<lambda>r. Inr (Integer_Object r)) (operator n m)))"

definition Prim_integer_add :: "object \<Rightarrow> object \<Rightarrow> result" where
  "Prim_integer_add = INTEGER_BINARY_OPERATION integer_add"
definition Prim_integer_subtract :: "object \<Rightarrow> object \<Rightarrow> result" where
  "Prim_integer_subtract = INTEGER_BINARY_OPERATION integer_subtract"
definition Prim_integer_multiply :: "object \<Rightarrow> object \<Rightarrow> result" where
  "Prim_integer_multiply = INTEGER_BINARY_OPERATION integer_multiply"
definition Prim_integer_hamming_distance :: "bool \<Rightarrow> object \<Rightarrow> object \<Rightarrow> result" where
  "Prim_integer_hamming_distance same = INTEGER_BINARY_OPERATION (integer_hamming_distance same)"
definition Prim_integer_bitwise_and :: "object \<Rightarrow> object \<Rightarrow> result" where
  "Prim_integer_bitwise_and = INTEGER_BINARY_OPERATION integer_bitwise_and"
definition Prim_integer_bitwise_andc2 :: "object \<Rightarrow> object \<Rightarrow> result" where
  "Prim_integer_bitwise_andc2 = INTEGER_BINARY_OPERATION integer_bitwise_andc2"
definition Prim_integer_bitwise_andc1 :: "object \<Rightarrow> object \<Rightarrow> result" where
  "Prim_integer_bitwise_andc1 = INTEGER_BINARY_OPERATION integer_bitwise_andc1"
definition Prim_integer_bitwise_xor :: "object \<Rightarrow> object \<Rightarrow> result" where
  "Prim_integer_bitwise_xor = INTEGER_BINARY_OPERATION integer_bitwise_xor"
definition Prim_integer_bitwise_ior :: "object \<Rightarrow> object \<Rightarrow> result" where
  "Prim_integer_bitwise_ior = INTEGER_BINARY_OPERATION integer_bitwise_ior"
definition Prim_integer_bitwise_nor :: "object \<Rightarrow> object \<Rightarrow> result" where
  "Prim_integer_bitwise_nor = INTEGER_BINARY_OPERATION integer_bitwise_nor"
definition Prim_integer_bitwise_eqv :: "object \<Rightarrow> object \<Rightarrow> result" where
  "Prim_integer_bitwise_eqv = INTEGER_BINARY_OPERATION integer_bitwise_eqv"
definition Prim_integer_bitwise_orc2 :: "object \<Rightarrow> object \<Rightarrow> result" where
  "Prim_integer_bitwise_orc2 = INTEGER_BINARY_OPERATION integer_bitwise_orc2"
definition Prim_integer_bitwise_orc1 :: "object \<Rightarrow> object \<Rightarrow> result" where
  "Prim_integer_bitwise_orc1 = INTEGER_BINARY_OPERATION integer_bitwise_orc1"
definition Prim_integer_bitwise_nand :: "object \<Rightarrow> object \<Rightarrow> result" where
  "Prim_integer_bitwise_nand = INTEGER_BINARY_OPERATION integer_bitwise_nand"

definition INTEGER_UNARY_OPERATION :: "(integer \<Rightarrow> integer option) \<Rightarrow> object \<Rightarrow> result" where
  "INTEGER_UNARY_OPERATION operator x =
     check_integer 1 x (\<lambda>n. map_option (\<lambda>r. Inr (Integer_Object r)) (operator n))"

definition Prim_integer_negate :: "object \<Rightarrow> result" where
  "Prim_integer_negate = INTEGER_UNARY_OPERATION integer_negate"
definition Prim_integer_add_1 :: "object \<Rightarrow> result" where
  "Prim_integer_add_1 = INTEGER_UNARY_OPERATION integer_add_1"
definition Prim_integer_subtract_1 :: "object \<Rightarrow> result" where
  "Prim_integer_subtract_1 = INTEGER_UNARY_OPERATION integer_subtract_1"
definition Prim_integer_length_in_bits :: "object \<Rightarrow> result" where
  "Prim_integer_length_in_bits = INTEGER_UNARY_OPERATION integer_length_in_bits"
definition Prim_integer_length :: "object \<Rightarrow> result" where
  "Prim_integer_length = INTEGER_UNARY_OPERATION integer_length"
definition Prim_integer_first_set_bit :: "object \<Rightarrow> result" where
  "Prim_integer_first_set_bit = INTEGER_UNARY_OPERATION integer_first_set_bit"
definition Prim_integer_bit_count :: "object \<Rightarrow> result" where
  "Prim_integer_bit_count = INTEGER_UNARY_OPERATION integer_bit_count"
definition Prim_integer_bitwise_not :: "object \<Rightarrow> result" where
  "Prim_integer_bitwise_not = INTEGER_UNARY_OPERATION integer_bitwise_not"

definition Prim_integer_divide :: "object \<Rightarrow> object \<Rightarrow> result" where
  "Prim_integer_divide x y =
     check_integer 1 x (\<lambda>n. check_integer 2 y (\<lambda>d.
       map_option (\<lambda>r. case r of None \<Rightarrow> Inl (Bad_Range 2)
                   | Some (q, r) \<Rightarrow> Inr (Pair_Object (Integer_Object q) (Integer_Object r)))
         (integer_divide n d)))"

definition INTEGER_QR :: "(integer \<Rightarrow> integer \<Rightarrow> integer option option) \<Rightarrow> object \<Rightarrow> object \<Rightarrow> result" where
  "INTEGER_QR operator x y =
     check_integer 1 x (\<lambda>n. check_integer 2 y (\<lambda>d.
       map_option (\<lambda>r. case r of None \<Rightarrow> Inl (Bad_Range 2) | Some q \<Rightarrow> Inr (Integer_Object q))
         (operator n d)))"

definition Prim_integer_quotient :: "object \<Rightarrow> object \<Rightarrow> result" where
  "Prim_integer_quotient = INTEGER_QR integer_quotient"
definition Prim_integer_remainder :: "object \<Rightarrow> object \<Rightarrow> result" where
  "Prim_integer_remainder = INTEGER_QR integer_remainder"

definition Prim_integer_p :: "object \<Rightarrow> result" where
  "Prim_integer_p x = Some (Inr (BOOLEAN_OBJECT (case x of Integer_Object n \<Rightarrow> True | _ \<Rightarrow> False)))"

text \<open>
  C does not fix which of the two arguments is checked first here; the model takes them
  from left to right.
\<close>

definition Prim_integer_nonnegative_one_bits :: "object \<Rightarrow> object \<Rightarrow> result" where
  "Prim_integer_nonnegative_one_bits x y =
     with_prim (arg_ulong_integer 1 x) (\<lambda>n. with_prim (arg_ulong_integer 2 y) (\<lambda>m.
       map_option (\<lambda>r. Inr (Integer_Object r)) (integer_nonnegative_one_bits n m)))"

definition Prim_integer_negative_zero_bits :: "object \<Rightarrow> object \<Rightarrow> result" where
  "Prim_integer_negative_zero_bits x y =
     with_prim (arg_ulong_integer 1 x) (\<lambda>n. with_prim (arg_ulong_integer 2 y) (\<lambda>m.
       map_option (\<lambda>r. Inr (Integer_Object r)) (integer_negative_zero_bits n m)))"

definition Prim_integer_shift_left :: "object \<Rightarrow> object \<Rightarrow> result" where
  "Prim_integer_shift_left x y =
     check_integer 1 x (\<lambda>n. with_prim (arg_ulong_integer 2 y) (\<lambda>m.
       map_option (\<lambda>r. Inr (Integer_Object r)) (integer_shift_left n m)))"

definition Prim_integer_shift_right :: "long \<Rightarrow> object \<Rightarrow> object \<Rightarrow> result" where
  "Prim_integer_shift_right beyond x y =
     check_integer 1 x (\<lambda>n.
       case y of
         Integer_Object (Fixnum_Object m) \<Rightarrow>
           if FIXNUM_NEGATIVE_P m then Some (Inl (Bad_Range 2))
           else map_option (\<lambda>r. Inr (Integer_Object r)) (integer_shift_right beyond n (OBJECT_DATUM m))
       | Integer_Object (Bignum_Object m) \<Rightarrow>
           if bignum_test m = bignum_comparison_less then Some (Inl (Bad_Range 2))
           else Some (Inr (Integer_Object (Fixnum_Object (LONG_TO_FIXNUM 0))))
       | _ \<Rightarrow> Some (Inl (Wrong_Type 2)))"

section \<open>Digit lists\<close>

text \<open>The check of the digit list: every element an index fixnum below the radix, a proper list.\<close>

definition digit_of :: "object \<Rightarrow> ulong option" where
  "digit_of x = (case x of Integer_Object (Fixnum_Object w) \<Rightarrow>
       if UNSIGNED_FIXNUM_P w then Some (OBJECT_DATUM w) else None | _ \<Rightarrow> None)"

fun check_digits :: "ulong \<Rightarrow> object \<Rightarrow> 32 word \<Rightarrow> 32 word prim" where
  "check_digits radix (Pair_Object digit rest) n_digits =
     (case digit_of digit of
        None \<Rightarrow> Inl (Wrong_Type 1)
      | Some d \<Rightarrow>
          if d \<ge> radix then Inl (Bad_Range 1)
          else if rest = EMPTY_LIST_OBJECT then Inr (n_digits + 1)
          else check_digits radix rest (n_digits + 1))"
| "check_digits radix x n_digits = Inl (Wrong_Type 1)"

fun list_to_integer_producer :: "object \<Rightarrow> 32 word \<times> object" where
  "list_to_integer_producer (Pair_Object digit rest) =
     (case digit_of digit of Some d \<Rightarrow> (ucast d, rest) | None \<Rightarrow> (0, rest))"
| "list_to_integer_producer x = (0, x)"

definition Prim_list_to_integer :: "object \<Rightarrow> object \<Rightarrow> object \<Rightarrow> result" where
  "Prim_list_to_integer x y z =
     check_pair 1 x (\<lambda>first rest.
       with_prim (arg_ulong_integer 2 y) (\<lambda>radix.
         if radix < 2 \<or> radix \<ge> bignum_max_digit_stream_radix then Some (Inl (Bad_Range 2))
         else with_prim (Some (check_digits radix x 0)) (\<lambda>n_digits. do {
           br \<leftarrow> digit_stream_to_bignum n_digits list_to_integer_producer x (ucast radix)
                  (z \<noteq> Other_Object SHARP_F);
           r \<leftarrow> bignum_to_integer (fst br);
           Some (Inr (Integer_Object r)) })))"

section \<open>Bignum primitives\<close>

definition BIGNUM_TEST :: "(bignum \<Rightarrow> bool) \<Rightarrow> object \<Rightarrow> result" where
  "BIGNUM_TEST predicate x = check_bignum 1 x (\<lambda>b. Some (Inr (BOOLEAN_OBJECT (predicate b))))"

definition Prim_bignum_zero_p :: "object \<Rightarrow> result" where
  "Prim_bignum_zero_p = BIGNUM_TEST BIGNUM_ZERO_P"
definition Prim_bignum_negative_p :: "object \<Rightarrow> result" where
  "Prim_bignum_negative_p = BIGNUM_TEST (\<lambda>b. bignum_test b = bignum_comparison_less)"
definition Prim_bignum_positive_p :: "object \<Rightarrow> result" where
  "Prim_bignum_positive_p = BIGNUM_TEST BIGNUM_POSITIVE_P"

definition BIGNUM_COMPARISON :: "(bignum \<Rightarrow> bignum \<Rightarrow> bool) \<Rightarrow> object \<Rightarrow> object \<Rightarrow> result" where
  "BIGNUM_COMPARISON predicate x y =
     check_bignum 1 x (\<lambda>a. check_bignum 2 y (\<lambda>b. Some (Inr (BOOLEAN_OBJECT (predicate a b)))))"

definition Prim_bignum_equal_p :: "object \<Rightarrow> object \<Rightarrow> result" where
  "Prim_bignum_equal_p = BIGNUM_COMPARISON bignum_equal_p"
definition Prim_bignum_less_p :: "object \<Rightarrow> object \<Rightarrow> result" where
  "Prim_bignum_less_p = BIGNUM_COMPARISON BIGNUM_LESS_P"

definition BIGNUM_BINARY :: "(bignum \<Rightarrow> bignum \<Rightarrow> bignum option) \<Rightarrow> object \<Rightarrow> object \<Rightarrow> result" where
  "BIGNUM_BINARY operator x y =
     check_bignum 1 x (\<lambda>a. check_bignum 2 y (\<lambda>b.
       map_option (\<lambda>r. Inr (Integer_Object (Bignum_Object r))) (operator a b)))"

definition Prim_bignum_add :: "object \<Rightarrow> object \<Rightarrow> result" where
  "Prim_bignum_add = BIGNUM_BINARY bignum_add"
definition Prim_bignum_subtract :: "object \<Rightarrow> object \<Rightarrow> result" where
  "Prim_bignum_subtract = BIGNUM_BINARY bignum_subtract"
definition Prim_bignum_multiply :: "object \<Rightarrow> object \<Rightarrow> result" where
  "Prim_bignum_multiply = BIGNUM_BINARY bignum_multiply"

definition Prim_bignum_divide :: "object \<Rightarrow> object \<Rightarrow> result" where
  "Prim_bignum_divide x y =
     check_bignum 1 x (\<lambda>a. check_bignum 2 y (\<lambda>b.
       map_option (\<lambda>r. case r of None \<Rightarrow> Inl (Bad_Range 2)
           | Some (q, r) \<Rightarrow> Inr (Pair_Object (Integer_Object (Bignum_Object q)) (Integer_Object (Bignum_Object r))))
         (bignum_divide a b)))"

definition BIGNUM_QR :: "(bignum \<Rightarrow> bignum \<Rightarrow> bignum option option) \<Rightarrow> object \<Rightarrow> object \<Rightarrow> result" where
  "BIGNUM_QR operator x y =
     check_bignum 1 x (\<lambda>a. check_bignum 2 y (\<lambda>b.
       map_option (\<lambda>r. case r of None \<Rightarrow> Inl (Bad_Range 2)
           | Some q \<Rightarrow> Inr (Integer_Object (Bignum_Object q))) (operator a b)))"

definition Prim_bignum_quotient :: "object \<Rightarrow> object \<Rightarrow> result" where
  "Prim_bignum_quotient = BIGNUM_QR bignum_quotient"
definition Prim_bignum_remainder :: "object \<Rightarrow> object \<Rightarrow> result" where
  "Prim_bignum_remainder = BIGNUM_QR bignum_remainder"

definition listify_bignum_consumer :: "object \<Rightarrow> long \<Rightarrow> object" where
  "listify_bignum_consumer previous_cdr digit =
     Pair_Object (Integer_Object (Fixnum_Object (LONG_TO_UNSIGNED_FIXNUM digit))) previous_cdr"

definition Prim_listify_bignum :: "object \<Rightarrow> object \<Rightarrow> result" where
  "Prim_listify_bignum x y =
     check_bignum 1 x (\<lambda>b.
       with_prim (arg_integer_in_range 2 y 2 bignum_max_digit_stream_radix) (\<lambda>radix.
         if BIGNUM_ZERO_P b
         then Some (Inr (Pair_Object (Integer_Object (Fixnum_Object (LONG_TO_UNSIGNED_FIXNUM 0)))
                                     EMPTY_LIST_OBJECT))
         else map_option Inr
                (bignum_to_digit_stream b (ucast radix) listify_bignum_consumer EMPTY_LIST_OBJECT)))"

definition Prim_fixnum_to_bignum :: "object \<Rightarrow> result" where
  "Prim_fixnum_to_bignum x =
     (case x of Integer_Object (Fixnum_Object n) \<Rightarrow>
        map_option (\<lambda>b. Inr (Integer_Object (Bignum_Object b))) (FIXNUM_TO_BIGNUM n)
      | _ \<Rightarrow> Some (Inl (Wrong_Type 1)))"

text \<open>A word that does not carry the fixnum tag is returned as it is.\<close>

definition word_object :: "ulong \<Rightarrow> object" where
  "word_object w = (if FIXNUM_P w then Integer_Object (Fixnum_Object w) else Other_Object w)"

definition Prim_bignum_to_fixnum :: "object \<Rightarrow> result" where
  "Prim_bignum_to_fixnum x = check_bignum 1 x (\<lambda>b. map_option (\<lambda>w. Inr (word_object w)) (bignum_to_fixnum b))"

definition Prim_bignum_length_in_bits :: "object \<Rightarrow> result" where
  "Prim_bignum_length_in_bits x = check_bignum 1 x (\<lambda>b. Some (Inr (word_object (bignum_length_in_bits b))))"

section \<open>Generic arithmetic\<close>

text \<open>
  The generic primitives compute on two fixnums and otherwise leave through \<open>PRIM_APPLY\<close>:
  the interpreter applies the procedure in a slot of the fixed objects vector to the
  arguments of the primitive.
\<close>

datatype generic_result = Value object | Apply_Slot nat "object list"

definition GENERIC_TRAMPOLINE_ZERO_P :: nat where "GENERIC_TRAMPOLINE_ZERO_P = 0x24"
definition GENERIC_TRAMPOLINE_POSITIVE_P :: nat where "GENERIC_TRAMPOLINE_POSITIVE_P = 0x25"
definition GENERIC_TRAMPOLINE_NEGATIVE_P :: nat where "GENERIC_TRAMPOLINE_NEGATIVE_P = 0x26"
definition GENERIC_TRAMPOLINE_SUCCESSOR :: nat where "GENERIC_TRAMPOLINE_SUCCESSOR = 0x27"
definition GENERIC_TRAMPOLINE_PREDECESSOR :: nat where "GENERIC_TRAMPOLINE_PREDECESSOR = 0x28"
definition GENERIC_TRAMPOLINE_EQUAL_P :: nat where "GENERIC_TRAMPOLINE_EQUAL_P = 0x29"
definition GENERIC_TRAMPOLINE_LESS_P :: nat where "GENERIC_TRAMPOLINE_LESS_P = 0x2A"
definition GENERIC_TRAMPOLINE_GREATER_P :: nat where "GENERIC_TRAMPOLINE_GREATER_P = 0x2B"
definition GENERIC_TRAMPOLINE_ADD :: nat where "GENERIC_TRAMPOLINE_ADD = 0x2C"
definition GENERIC_TRAMPOLINE_SUBTRACT :: nat where "GENERIC_TRAMPOLINE_SUBTRACT = 0x2D"
definition GENERIC_TRAMPOLINE_MULTIPLY :: nat where "GENERIC_TRAMPOLINE_MULTIPLY = 0x2E"
definition GENERIC_TRAMPOLINE_DIVIDE :: nat where "GENERIC_TRAMPOLINE_DIVIDE = 0x2F"
definition GENERIC_TRAMPOLINE_QUOTIENT :: nat where "GENERIC_TRAMPOLINE_QUOTIENT = 0x30"
definition GENERIC_TRAMPOLINE_REMAINDER :: nat where "GENERIC_TRAMPOLINE_REMAINDER = 0x31"
definition GENERIC_TRAMPOLINE_MODULO :: nat where "GENERIC_TRAMPOLINE_MODULO = 0x32"

definition INDIRECT_TEST_1 :: "(ulong \<Rightarrow> bool) \<Rightarrow> nat \<Rightarrow> object \<Rightarrow> generic_result" where
  "INDIRECT_TEST_1 test slot x =
     (case x of Integer_Object (Fixnum_Object w) \<Rightarrow> Value (BOOLEAN_OBJECT (test w))
      | _ \<Rightarrow> Apply_Slot slot [x])"

definition Prim_zero :: "object \<Rightarrow> generic_result" where
  "Prim_zero = INDIRECT_TEST_1 FIXNUM_ZERO_P GENERIC_TRAMPOLINE_ZERO_P"
definition Prim_positive :: "object \<Rightarrow> generic_result" where
  "Prim_positive = INDIRECT_TEST_1 FIXNUM_POSITIVE_P GENERIC_TRAMPOLINE_POSITIVE_P"
definition Prim_negative :: "object \<Rightarrow> generic_result" where
  "Prim_negative = INDIRECT_TEST_1 FIXNUM_NEGATIVE_P GENERIC_TRAMPOLINE_NEGATIVE_P"

definition INDIRECT_INCREMENT :: "(long \<Rightarrow> long \<Rightarrow> long) \<Rightarrow> nat \<Rightarrow> object \<Rightarrow> generic_result option" where
  "INDIRECT_INCREMENT oper slot x =
     (case x of Integer_Object (Fixnum_Object w) \<Rightarrow>
        map_option (\<lambda>r. Value (Integer_Object r)) (long_to_integer (oper (FIXNUM_TO_LONG w) 1))
      | _ \<Rightarrow> Some (Apply_Slot slot [x]))"

definition Prim_add_one :: "object \<Rightarrow> generic_result option" where
  "Prim_add_one = INDIRECT_INCREMENT (+) GENERIC_TRAMPOLINE_SUCCESSOR"
definition Prim_subtract_one :: "object \<Rightarrow> generic_result option" where
  "Prim_subtract_one = INDIRECT_INCREMENT (-) GENERIC_TRAMPOLINE_PREDECESSOR"

definition INDIRECT_TEST_2 :: "(ulong \<Rightarrow> ulong \<Rightarrow> bool) \<Rightarrow> nat \<Rightarrow> object \<Rightarrow> object \<Rightarrow> generic_result" where
  "INDIRECT_TEST_2 test slot x y =
     (case (x, y) of (Integer_Object (Fixnum_Object v), Integer_Object (Fixnum_Object w)) \<Rightarrow>
        Value (BOOLEAN_OBJECT (test v w))
      | _ \<Rightarrow> Apply_Slot slot [x, y])"

definition FIXNUM_GREATER_P :: "ulong \<Rightarrow> ulong \<Rightarrow> bool" where
  "FIXNUM_GREATER_P x y = FIXNUM_LESS_P y x"

definition Prim_equal_number :: "object \<Rightarrow> object \<Rightarrow> generic_result" where
  "Prim_equal_number = INDIRECT_TEST_2 FIXNUM_EQUAL_P GENERIC_TRAMPOLINE_EQUAL_P"
definition Prim_less :: "object \<Rightarrow> object \<Rightarrow> generic_result" where
  "Prim_less = INDIRECT_TEST_2 FIXNUM_LESS_P GENERIC_TRAMPOLINE_LESS_P"
definition Prim_greater :: "object \<Rightarrow> object \<Rightarrow> generic_result" where
  "Prim_greater = INDIRECT_TEST_2 FIXNUM_GREATER_P GENERIC_TRAMPOLINE_GREATER_P"

definition INDIRECT_SUM ::
  "(long \<Rightarrow> long \<Rightarrow> long) \<Rightarrow> nat \<Rightarrow> object \<Rightarrow> object \<Rightarrow> generic_result option" where
  "INDIRECT_SUM oper slot x y =
     (case (x, y) of (Integer_Object (Fixnum_Object v), Integer_Object (Fixnum_Object w)) \<Rightarrow>
        map_option (\<lambda>r. Value (Integer_Object r))
          (long_to_integer (oper (FIXNUM_TO_LONG v) (FIXNUM_TO_LONG w)))
      | _ \<Rightarrow> Some (Apply_Slot slot [x, y]))"

definition Prim_add :: "object \<Rightarrow> object \<Rightarrow> generic_result option" where
  "Prim_add = INDIRECT_SUM (+) GENERIC_TRAMPOLINE_ADD"
definition Prim_subtract :: "object \<Rightarrow> object \<Rightarrow> generic_result option" where
  "Prim_subtract = INDIRECT_SUM (-) GENERIC_TRAMPOLINE_SUBTRACT"

definition INDIRECT_2 :: "nat \<Rightarrow> object \<Rightarrow> object \<Rightarrow> generic_result" where
  "INDIRECT_2 slot x y = Apply_Slot slot [x, y]"

definition Prim_multiply :: "object \<Rightarrow> object \<Rightarrow> generic_result" where
  "Prim_multiply = INDIRECT_2 GENERIC_TRAMPOLINE_MULTIPLY"
definition Prim_divide :: "object \<Rightarrow> object \<Rightarrow> generic_result" where
  "Prim_divide = INDIRECT_2 GENERIC_TRAMPOLINE_DIVIDE"
definition Prim_quotient :: "object \<Rightarrow> object \<Rightarrow> generic_result" where
  "Prim_quotient = INDIRECT_2 GENERIC_TRAMPOLINE_QUOTIENT"
definition Prim_remainder :: "object \<Rightarrow> object \<Rightarrow> generic_result" where
  "Prim_remainder = INDIRECT_2 GENERIC_TRAMPOLINE_REMAINDER"
definition Prim_modulo :: "object \<Rightarrow> object \<Rightarrow> generic_result" where
  "Prim_modulo = INDIRECT_2 GENERIC_TRAMPOLINE_MODULO"

end
