(* ===== verification/Integer_Prims_Correct.thy ===== *)
theory Integer_Prims_Correct
  imports Integer_Prims
begin

text \<open>
  What the integer primitives of \<^theory_text>\<open>Integer_Prims\<close> return and which errors they signal. The
  encoding \<open>integer_of\<close> gives the canonical object of a mathematical integer; a primitive
  on integers returns the encoding of the exact result. The last part is the round trip of
  \<open>LIST->INTEGER\<close> and \<open>LISTIFY-BIGNUM\<close>.
\<close>

section \<open>The canonical object of an integer\<close>

definition bignum_of :: "int \<Rightarrow> bignum" where
  "bignum_of k = mk_bignum (k < 0) (map word_of_int (int_digits (2 ^ 62) \<bar>k\<bar>))"

definition integer_of :: "int \<Rightarrow> integer" where
  "integer_of k =
     (if fixnum_range k then Fixnum_Object (fixnum_object k) else Bignum_Object (bignum_of k))"

lemma int_digits_of_digits:
  "digits_normal ds \<Longrightarrow> map word_of_int (int_digits (2 ^ 62) (digits_int ds)) = ds"
proof (induction ds)
  case Nil
  then show ?case by (simp add: int_digits.simps)
next
  case (Cons d ds)
  have d: "0 \<le> uint d" "uint d < 2 ^ 62" using Cons.prems by (simp_all add: digits_normal_def)
  have pos: "0 < digits_int (d # ds)" using Cons.prems by (intro digits_normal_pos) simp_all
  have m: "digits_int (d # ds) mod 2 ^ 62 = uint d" "digits_int (d # ds) div 2 ^ 62 = digits_int ds"
    using d by simp_all
  have "digits_normal ds" using Cons.prems by (auto simp: digits_normal_def)
  then show ?case
    using Cons.IH pos by (subst int_digits.simps) (simp only: m not_le if_False list.map, simp)
qed

lemma bignum_of_int: "bignum_wf b \<Longrightarrow> bignum_of (bignum_int b) = b"
proof (elim bignum_wf_cases)
  fix neg ds
  assume b: "b = mk_bignum neg ds" "length ds \<le> BIGNUM_LENGTH_MAX" "digits_normal ds" "ds = [] \<longrightarrow> \<not> neg"
  have "ds = [] \<or> 0 < digits_int ds" using digits_normal_pos [OF b(3)] by blast
  then have "(bignum_int b < 0) = neg" "\<bar>bignum_int b\<bar> = digits_int ds"
    using b by (auto simp: mk_bignum_int)
  then show "bignum_of (bignum_int b) = b"
    using b by (simp only: bignum_of_def int_digits_of_digits)
qed

theorem integer_of_int_of: "integer_ok n \<Longrightarrow> integer_of (int_of n) = n"
  by (cases n) (auto simp: integer_of_def fixnum_object_fixnum_int bignum_of_int)

lemma integer_of_unique: "integer_ok n \<Longrightarrow> int_of n = k \<Longrightarrow> integer_of k = n"
  using integer_of_int_of by blast

lemma delivers_encoded: "delivers r k \<Longrightarrow> r = Some (integer_of k)"
  by (cases r) (auto simp: integer_of_int_of)

lemma yields_encoded: "yields r k \<Longrightarrow> r = Some (bignum_of k)"
  by (cases r) (auto simp: bignum_of_int)

section \<open>Type errors\<close>

definition integer_object_p :: "object \<Rightarrow> bool" where
  "integer_object_p x \<longleftrightarrow> (case x of Integer_Object n \<Rightarrow> True | _ \<Rightarrow> False)"

lemma check_integer_error: "\<not> integer_object_p x \<Longrightarrow> check_integer arg x f = Some (Inl (Wrong_Type arg))"
  by (cases x) (auto simp: integer_object_p_def)

lemma integer_object_cases: "integer_object_p x \<Longrightarrow> \<exists>n. x = Integer_Object n"
  by (cases x) (auto simp: integer_object_p_def)

lemma binary_type_errors:
  assumes "\<not> integer_object_p x \<or> \<not> integer_object_p y"
  defines "e \<equiv> Some (Inl (Wrong_Type (if integer_object_p x then 2 else 1)))"
  shows "INTEGER_BINARY_OPERATION f x y = e" "INTEGER_COMPARISON c x y = e" "INTEGER_QR d x y = e"
    "Prim_integer_divide x y = e" "Prim_integer_greater_p x y = e"
  using assms integer_object_cases [of x]
  by (auto simp: INTEGER_BINARY_OPERATION_def INTEGER_COMPARISON_def INTEGER_QR_def
      Prim_integer_divide_def Prim_integer_greater_p_def check_integer_error)

section \<open>Arithmetic primitives\<close>

lemma binary_result:
  "delivers (f n m) k \<Longrightarrow>
   INTEGER_BINARY_OPERATION f (Integer_Object n) (Integer_Object m) = Some (Inr (Integer_Object (integer_of k)))"
  using delivers_encoded [of "f n m" k] by (simp add: INTEGER_BINARY_OPERATION_def)

lemma unary_result:
  "delivers (f n) k \<Longrightarrow>
   INTEGER_UNARY_OPERATION f (Integer_Object n) = Some (Inr (Integer_Object (integer_of k)))"
  using delivers_encoded [of "f n" k] by (simp add: INTEGER_UNARY_OPERATION_def)

theorem integer_primitives_correct:
  assumes "fits_together n m"
  shows "Prim_integer_add (Integer_Object n) (Integer_Object m) =
      Some (Inr (Integer_Object (integer_of (int_of n + int_of m))))"
    "Prim_integer_subtract (Integer_Object n) (Integer_Object m) =
      Some (Inr (Integer_Object (integer_of (int_of n - int_of m))))"
    "Prim_integer_multiply (Integer_Object n) (Integer_Object m) =
      Some (Inr (Integer_Object (integer_of (int_of n * int_of m))))"
  unfolding Prim_integer_add_def Prim_integer_subtract_def Prim_integer_multiply_def
  using integer_arithmetic_correct [OF assms] by (simp_all only: binary_result)

lemma divide_result:
  assumes "divides k l (integer_divide n d)"
  shows "Prim_integer_divide (Integer_Object n) (Integer_Object d) = Some
    (if l = 0 then Inl (Bad_Range 2)
     else Inr (Pair_Object (Integer_Object (integer_of (k sdiv l))) (Integer_Object (integer_of (k smod l)))))"
  using assms by (auto simp: divides_def Prim_integer_divide_def integer_of_unique)

lemma qr_result:
  assumes "divides_to g k l (f n d)"
  shows "INTEGER_QR f (Integer_Object n) (Integer_Object d) = Some
    (if l = 0 then Inl (Bad_Range 2) else Inr (Integer_Object (integer_of (g k l))))"
  using assms by (auto simp: divides_to_def INTEGER_QR_def integer_of_unique)

theorem integer_division_primitives_correct:
  assumes "fits_together n d"
  shows "Prim_integer_divide (Integer_Object n) (Integer_Object d) = Some
      (if int_of d = 0 then Inl (Bad_Range 2)
       else Inr (Pair_Object (Integer_Object (integer_of (int_of n sdiv int_of d)))
                             (Integer_Object (integer_of (int_of n smod int_of d)))))"
    "Prim_integer_quotient (Integer_Object n) (Integer_Object d) = Some
      (if int_of d = 0 then Inl (Bad_Range 2) else Inr (Integer_Object (integer_of (int_of n sdiv int_of d))))"
    "Prim_integer_remainder (Integer_Object n) (Integer_Object d) = Some
      (if int_of d = 0 then Inl (Bad_Range 2) else Inr (Integer_Object (integer_of (int_of n smod int_of d))))"
  unfolding Prim_integer_quotient_def Prim_integer_remainder_def
  using divide_result [OF integer_divide_correct [OF assms]]
    qr_result [where g = "(sdiv)" and f = integer_quotient] qr_result [where g = "(smod)" and f = integer_remainder]
    integer_quotient_remainder_correct [OF assms] by blast+

theorem integer_comparison_primitives_correct:
  assumes "fits_together n m"
  shows "Prim_integer_equal_p (Integer_Object n) (Integer_Object m) =
      Some (Inr (BOOLEAN_OBJECT (int_of n = int_of m)))"
    "Prim_integer_less_p (Integer_Object n) (Integer_Object m) =
      Some (Inr (BOOLEAN_OBJECT (int_of n < int_of m)))"
    "Prim_integer_greater_p (Integer_Object n) (Integer_Object m) =
      Some (Inr (BOOLEAN_OBJECT (int_of m < int_of n)))"
  using integer_comparisons_correct [OF assms] integer_comparisons_correct(2) [of m n] assms
  by (simp_all add: Prim_integer_equal_p_def Prim_integer_less_p_def Prim_integer_greater_p_def
      INTEGER_COMPARISON_def add.commute)

section \<open>Argument checks\<close>

lemma nonneg_datum: "0 \<le> fixnum_int y \<Longrightarrow> uint (OBJECT_DATUM y) = fixnum_int y"
  using OBJECT_DATUM_bound [of y] unfolding fixnum_int_def Let_def by (simp split: if_splits)

lemma arg_ulong_integer_correct:
  assumes "integer_ok n" "integer_digits n < 2 ^ 32"
  shows "0 \<le> int_of n \<Longrightarrow> int_of n < 2 ^ 64 \<Longrightarrow>
      arg_ulong_integer a (Integer_Object n) = Some (Inr (word_of_int (int_of n)))"
    "\<not> (0 \<le> int_of n \<and> int_of n < 2 ^ 64) \<Longrightarrow>
      arg_ulong_integer a (Integer_Object n) = Some (Inl (Bad_Range a))"
proof -
  note c = integer_to_ulong_correct [OF assms]
  show "\<not> (0 \<le> int_of n \<and> int_of n < 2 ^ 64) \<Longrightarrow>
      arg_ulong_integer a (Integer_Object n) = Some (Inl (Bad_Range a))"
    using c(1) by (auto simp: arg_ulong_integer_def)
  assume r: "0 \<le> int_of n" "int_of n < 2 ^ 64"
  then obtain w where w: "integer_to_ulong n = Some w" "uint w = int_of n" using c(2) by blast
  have "w = word_of_int (int_of n)" using w(2) by (simp flip: w(2))
  then show "arg_ulong_integer a (Integer_Object n) = Some (Inr (word_of_int (int_of n)))"
    using w(1) r c(1) by (simp add: arg_ulong_integer_def)
qed

lemma arg_integer_correct:
  assumes "integer_ok n" "integer_digits n < 2 ^ 32"
  shows "- (2 ^ 63) \<le> int_of n \<Longrightarrow> int_of n < 2 ^ 63 \<Longrightarrow>
    \<exists>w. arg_integer a (Integer_Object n) = Some (Inr w) \<and> sint w = int_of n"
  using integer_to_long_correct [OF assms] by (simp add: arg_integer_def)

text \<open>
  The long check accepts negative integers that a \<open>long\<close> cannot hold, down to
  \<open>- 3 * 2 ^ 62\<close>; the conversion then wraps them.
\<close>

theorem arg_integer_wraps:
  assumes "integer_ok n" "integer_digits n < 2 ^ 32" "- (3 * 2 ^ 62) < int_of n" "int_of n < - (2 ^ 63)"
  shows "\<exists>w. arg_integer a (Integer_Object n) = Some (Inr w) \<and> sint w = int_of n + 2 ^ 64"
proof (cases n)
  case (Fixnum_Object x)
  then show ?thesis using assms(4) fixnum_int_num [of x] by simp
next
  case (Bignum_Object b)
  then have "integer_to_long n = word_of_int (bignum_int b + 2 ^ 64)"
    using assms by (simp add: bignum_to_long_correct)
  then have "sint (integer_to_long n) = int_of n + 2 ^ 64"
    using sint_of_int64 [of "bignum_int b + 2 ^ 64"] assms Bignum_Object by simp
  then show ?thesis
    using integer_to_long_correct(1) [OF assms(1,2)] assms(3,4) by (simp add: arg_integer_def)
qed

theorem integer_shift_left_primitive_correct:
  assumes "integer_ok n" "integer_ok m" "integer_digits m < 2 ^ 32" "0 \<le> int_of m"
    "62 * (integer_digits n + 2) + nat (int_of m) \<le> 62 * BIGNUM_LENGTH_MAX"
  shows "Prim_integer_shift_left (Integer_Object n) (Integer_Object m) =
    Some (Inr (Integer_Object (integer_of (int_of n * 2 ^ nat (int_of m)))))"
proof -
  have "nat (int_of m) < 2 ^ 63" using assms(5) by (simp add: BIGNUM_LENGTH_MAX_eq)
  then have l: "int_of m < 2 ^ 63" using assms(4) by (simp add: nat_less_iff)
  have u: "unat (word_of_int (int_of m) :: ulong) = nat (int_of m)"
    using l assms(4) by (simp add: unat_eq_nat_uint uint_of_int64)
  have "arg_ulong_integer 2 (Integer_Object m) = Some (Inr (word_of_int (int_of m)))"
    using arg_ulong_integer_correct(1) [OF assms(2,3,4)] l by simp
  then show ?thesis
    using delivers_encoded [OF integer_shift_left_correct [OF assms(1), of "word_of_int (int_of m)"]] assms(5)
    by (simp add: Prim_integer_shift_left_def u)
qed

text \<open>
  The shift count of \<open>INTEGER-SHIFT-RIGHT\<close> is an index fixnum, or any nonnegative bignum;
  on a bignum count the result is zero whatever the sign of the first argument.
\<close>

theorem integer_shift_right_primitive_correct:
  assumes "integer_ok n" "integer_digits n < 4294967295" "FIXNUM_P m" "0 \<le> fixnum_int m"
    "\<And>k. int_of n = - ((2 ^ 62) ^ k) \<Longrightarrow> beyond = 0"
  shows "Prim_integer_shift_right beyond (Integer_Object n) (Integer_Object (Fixnum_Object m)) =
    Some (Inr (Integer_Object (integer_of (int_of n div 2 ^ nat (fixnum_int m)))))"
proof -
  have "unat (OBJECT_DATUM m) = nat (fixnum_int m)"
    using assms(4) by (simp add: unat_eq_nat_uint nonneg_datum)
  then show ?thesis
    using delivers_encoded [OF integer_shift_right_correct [of n beyond "OBJECT_DATUM m", OF assms(1,2,5)]] assms(3,4)
    by (simp add: Prim_integer_shift_right_def fixnum_predicates)
qed

theorem integer_shift_right_bignum_count:
  assumes "bignum_wf m" "0 \<le> bignum_int m"
  shows "Prim_integer_shift_right beyond (Integer_Object n) (Integer_Object (Bignum_Object m)) =
    Some (Inr (Integer_Object (integer_of 0)))"
proof -
  have "integer_of 0 = Fixnum_Object (LONG_TO_FIXNUM 0)"
    by (simp add: integer_of_def fixnum_range_num fixnum_object_def)
  then show ?thesis
    using assms by (simp add: Prim_integer_shift_right_def bignum_test_correct int_compare_def)
qed

section \<open>Bignum primitives\<close>

theorem bignum_primitives_correct:
  assumes "short_bignum x" "short_bignum y"
  shows "Prim_bignum_add (Integer_Object (Bignum_Object x)) (Integer_Object (Bignum_Object y)) =
      Some (Inr (Integer_Object (Bignum_Object (bignum_of (bignum_int x + bignum_int y)))))"
    "Prim_bignum_subtract (Integer_Object (Bignum_Object x)) (Integer_Object (Bignum_Object y)) =
      Some (Inr (Integer_Object (Bignum_Object (bignum_of (bignum_int x - bignum_int y)))))"
    "BIGNUM_LENGTH x + BIGNUM_LENGTH y \<le> BIGNUM_LENGTH_MAX \<Longrightarrow>
     Prim_bignum_multiply (Integer_Object (Bignum_Object x)) (Integer_Object (Bignum_Object y)) =
      Some (Inr (Integer_Object (Bignum_Object (bignum_of (bignum_int x * bignum_int y)))))"
  using yields_encoded [OF bignum_add_correct [of x y]] yields_encoded [OF bignum_subtract_correct [of x y]]
    yields_encoded [OF bignum_multiply_correct [of x y]] assms
  by (simp_all add: Prim_bignum_add_def Prim_bignum_subtract_def Prim_bignum_multiply_def BIGNUM_BINARY_def)

text \<open>
  \<open>FIXNUM->BIGNUM\<close> and \<open>BIGNUM->FIXNUM\<close> are inverse to each other; the latter returns false on
  a bignum outside the fixnum range.
\<close>

theorem fixnum_bignum_round_trip:
  assumes "FIXNUM_P x"
  shows "\<exists>b. Prim_fixnum_to_bignum (Integer_Object (Fixnum_Object x)) = Some (Inr (Integer_Object (Bignum_Object b)))
    \<and> bignum_wf b \<and> bignum_int b = fixnum_int x
    \<and> Prim_bignum_to_fixnum (Integer_Object (Bignum_Object b)) = Some (Inr (Integer_Object (Fixnum_Object x)))"
proof -
  have "yields (FIXNUM_TO_BIGNUM x) (fixnum_int x)"
    using to_bignum_correct [of "Fixnum_Object x"] assms by simp
  then obtain b where b: "FIXNUM_TO_BIGNUM x = Some b" "bignum_wf b" "bignum_int b = fixnum_int x"
    by (rule yieldsE)
  have "BIGNUM_LENGTH b \<le> 1" using length_le_bits [OF b(2), of 1] b(3) fixnum_int_bits by simp
  then show ?thesis
    using b assms bignum_to_fixnum_correct [OF b(2)]
    by (simp add: Prim_fixnum_to_bignum_def Prim_bignum_to_fixnum_def fixnum_object_fixnum_int word_object_def)
qed

text \<open>
  \<open>BIGNUM-LENGTH-IN-BITS\<close> returns the C integer itself in place of a fixnum object: for
  every length below \<open>2 ^ 58\<close> the result is not an integer object at all.
\<close>

theorem bignum_length_in_bits_untagged:
  assumes "uint (bignum_length_in_bits b) < 2 ^ 58"
  shows "Prim_bignum_length_in_bits (Integer_Object (Bignum_Object b)) =
    Some (Inr (Other_Object (bignum_length_in_bits b)))"
  using assms by (simp add: Prim_bignum_length_in_bits_def word_object_def FIXNUM_P_iff)

section \<open>Digit lists\<close>

definition digit_object :: "int \<Rightarrow> object" where
  "digit_object d = Integer_Object (Fixnum_Object (fixnum_object d))"

definition digit_list :: "int list \<Rightarrow> object" where
  "digit_list ds = foldr (\<lambda>d l. Pair_Object (digit_object d) l) ds EMPTY_LIST_OBJECT"

lemma digit_list_simps [simp]:
  "digit_list [] = EMPTY_LIST_OBJECT" "digit_list (d # ds) = Pair_Object (digit_object d) (digit_list ds)"
  by (simp_all add: digit_list_def)

lemma digit_list_empty [simp]: "digit_list ds = EMPTY_LIST_OBJECT \<longleftrightarrow> ds = []"
  by (cases ds) (simp_all add: EMPTY_LIST_OBJECT_def)

lemma digit_of_digit: "0 \<le> d \<Longrightarrow> d < 2 ^ 57 \<Longrightarrow> digit_of (digit_object d) = Some (word_of_int d)"
proof -
  assume d: "0 \<le> d" "d < 2 ^ 57"
  then have r: "fixnum_range d" by (simp add: fixnum_range_num)
  have "uint (OBJECT_DATUM (fixnum_object d)) = d" using nonneg_datum [of "fixnum_object d"] d r by simp
  then have "OBJECT_DATUM (fixnum_object d) = word_of_int d"
    by (metis word_of_int_uint)
  then show ?thesis
    using d r by (simp add: digit_of_def digit_object_def UNSIGNED_FIXNUM_P_def fixnum_predicates)
qed

definition digits_below :: "int \<Rightarrow> int list \<Rightarrow> bool" where
  "digits_below r ds \<longleftrightarrow> list_all (\<lambda>d. 0 \<le> d \<and> d < r) ds"

lemma digits_below_simps [simp]:
  "digits_below r []" "digits_below r (d # ds) \<longleftrightarrow> 0 \<le> d \<and> d < r \<and> digits_below r ds"
  by (simp_all add: digits_below_def)

lemma word_of_digit:
  assumes "0 \<le> d" "d < r" "r < 2 ^ 31"
  shows "uint (word_of_int d :: ulong) = d" "uint (word_of_int d :: 32 word) = d"
    "ucast (word_of_int d :: ulong) = (word_of_int d :: 32 word)"
proof -
  show u: "uint (word_of_int d :: ulong) = d" "uint (word_of_int d :: 32 word) = d"
    using assms by (simp_all add: uint_word_of_int_eq take_bit_int_eq_self)
  show "ucast (word_of_int d :: ulong) = (word_of_int d :: 32 word)"
    by (simp only: word_uint_eq_iff unsigned_ucast_eq u) (use assms in \<open>simp add: take_bit_int_eq_self\<close>)
qed

lemma check_digits_correct:
  assumes "1 < r" "r < 2 ^ 31"
  shows "digits_below r ds \<Longrightarrow> ds \<noteq> [] \<Longrightarrow>
    check_digits (word_of_int r) (digit_list ds) n = Inr (n + word_of_nat (length ds))"
proof (induction ds arbitrary: n)
  case (Cons d ds)
  have d: "0 \<le> d" "d < r" using Cons.prems(1) by simp_all
  have "\<not> (word_of_int r :: ulong) \<le> word_of_int d"
    using d assms by (simp add: word_le_def uint_of_int64)
  then show ?case
    using Cons digit_of_digit [of d] d assms(2) by (cases "ds = []") (simp_all add: add.assoc add.commute)
qed simp

lemma produced_digits:
  assumes "r < 2 ^ 31"
  shows "digits_below r ds \<Longrightarrow>
    produced (length ds) list_to_integer_producer (digit_list ds) = (map word_of_int ds, EMPTY_LIST_OBJECT)"
proof (induction ds)
  case (Cons d ds)
  then show ?case using digit_of_digit [of d] word_of_digit [of d r] assms by simp
qed simp

text \<open>
  \<open>LIST->INTEGER\<close> reads a nonempty list of digits, most significant first. The number of
  digits is limited by the 32-bit product that sizes the result.
\<close>

definition list_value :: "int \<Rightarrow> int list \<Rightarrow> int" where
  "list_value r ds = foldl (\<lambda>v d. r * v + d) 0 ds"

lemma horner_list_value:
  assumes "r < 2 ^ 31" "digits_below r ds"
  shows "horner r 0 (map word_of_int ds) = list_value r ds"
proof -
  have "horner r v (map word_of_int ds) = foldl (\<lambda>v d. r * v + d) v ds" for v
    using assms(2) by (induction ds arbitrary: v) (simp_all add: word_of_digit(2) [OF _ _ assms(1)])
  then show ?thesis by (simp add: list_value_def)
qed

lemma list_value_length:
  assumes "1 < r" "r < 2 ^ 31" "digits_below r ds"
    and "length ds * ulong_length_in_bits (word_of_int r) < 2 ^ 32"
    and "bignum_wf b" "\<bar>bignum_int b\<bar> = \<bar>list_value r ds\<bar>"
  shows "BIGNUM_LENGTH b < 2 ^ 32"
proof -
  let ?L = "ulong_length_in_bits (word_of_int r)"
  have h: "0 \<le> list_value r ds" "list_value r ds < r ^ length ds"
    using horner_bounds [of "map word_of_int ds" r 0] word_of_digit(2) [OF _ _ assms(2)] assms(1,3)
    unfolding horner_list_value [OF assms(2,3)] by (auto simp: digits_below_def list_all_iff)
  have "r < 2 ^ ?L"
    using bit_length_word(1) [of "word_of_int r"] assms(1,2) by (simp add: bit_length_def uint_of_int64)
  then have "r ^ length ds \<le> (2 ^ ?L) ^ length ds" using assms(1) by (intro power_mono) simp_all
  also have "\<dots> \<le> 2 ^ (62 * ((length ds * ?L + 61) div 62))"
    unfolding power_mult [symmetric] by (intro power_increasing) (simp_all add: mult.commute)
  finally have "BIGNUM_LENGTH b \<le> (length ds * ?L + 61) div 62"
    using h assms(5,6) by (intro length_le_bits) simp_all
  then show ?thesis using assms(4) by simp
qed

theorem list_to_integer_correct:
  assumes "integer_ok rn" "int_of rn = r" "1 < r" "r < 2 ^ 31"
    and "digits_below r ds" "ds \<noteq> []"
    and "length ds * ulong_length_in_bits (word_of_int r) < 2 ^ 32"
  shows "Prim_list_to_integer (digit_list ds) (Integer_Object rn) z = Some (Inr (Integer_Object (integer_of
    (if z = Other_Object SHARP_F then list_value r ds else - list_value r ds))))"
proof -
  define neg where "neg = (z \<noteq> Other_Object SHARP_F)"
  define w where "w = (word_of_int r :: 32 word)"
  let ?k = "if neg then - list_value r ds else list_value r ds"
  have w: "uint w = r" "ucast w = (word_of_int r :: ulong)" "ucast (word_of_int r :: ulong) = w"
  proof -
    show u: "uint w = r" unfolding w_def using assms(3,4) by (simp add: uint_word_of_int_eq take_bit_int_eq_self)
    show "ucast (word_of_int r :: ulong) = w"
      unfolding w_def using word_of_digit(3) [of r "r + 1"] assms(3,4)
      by (cases "r + 1 < 2 ^ 31") (auto simp: word_uint_eq_iff unsigned_ucast_eq uint_of_int64 take_bit_int_eq_self uint_word_of_int_eq)
    show "ucast w = (word_of_int r :: ulong)"
      using uint_ucast32 [of w] u assms(3,4) by (simp add: word_uint_eq_iff uint_of_int64)
  qed
  have "rn = Fixnum_Object (fixnum_object r)"
    using integer_of_int_of [OF assms(1)] assms(2-4) by (simp add: integer_of_def fixnum_range_num)
  then have a: "arg_ulong_integer 2 (Integer_Object rn) = Some (Inr (word_of_int r))"
    using arg_ulong_integer_correct(1) [OF assms(1)] assms(2-4) by simp
  have rr: "\<not> ((word_of_int r :: ulong) < 2 \<or> word_of_int r \<ge> bignum_max_digit_stream_radix)"
    using assms(3,4) by (simp add: word_less_def word_le_def uint_of_int64 bignum_max_digit_stream_radix_def
        BIGNUM_RADIX_ROOT_def)
  have l0: "ulong_length_in_bits (word_of_int r) \<noteq> 0"
    using ulong_length_in_bits_bounds(3) [of "word_of_int r"] assms(3,4)
    by (auto simp: word_uint_eq_iff uint_of_int64)
  then have "length ds * 1 \<le> length ds * ulong_length_in_bits (word_of_int r)" by (intro mult_le_mono2) simp
  then have "length ds < 2 ^ 32" using assms(7) by linarith
  then have n: "unat (word_of_nat (length ds) :: 32 word) = length ds"
    by (simp add: unat_of_nat take_bit_nat_eq_self)
  have c: "check_digits (word_of_int r) (digit_list ds) 0 = Inr (word_of_nat (length ds))"
    using check_digits_correct [OF assms(3-6), of 0] by simp
  have ex: "\<exists>b. digit_stream_to_bignum (word_of_nat (length ds)) list_to_integer_producer (digit_list ds) w neg =
      Some (b, EMPTY_LIST_OBJECT) \<and> bignum_wf b
    \<and> bignum_int b = (if neg then - horner (uint w) 0 (map word_of_int ds) else horner (uint w) 0 (map word_of_int ds))"
  proof (rule digit_stream_to_bignum_correct)
    show "\<forall>d\<in>set (map word_of_int ds). d < w"
      using assms(5) word_of_digit(2) [OF _ _ assms(4)]
      by (auto simp: digits_below_def list_all_iff word_less_def w(1))
    show "produced (unat (word_of_nat (length ds) :: 32 word)) list_to_integer_producer (digit_list ds) =
        (map word_of_int ds, EMPTY_LIST_OBJECT)"
      using produced_digits [OF assms(4,5)] by (simp only: n)
  qed (use assms w n in simp_all)
  then obtain b where b: "digit_stream_to_bignum (word_of_nat (length ds)) list_to_integer_producer (digit_list ds) w neg =
      Some (b, EMPTY_LIST_OBJECT)" "bignum_wf b" "bignum_int b = ?k"
    using horner_list_value [OF assms(4,5)] by (auto simp: w(1))
  have "BIGNUM_LENGTH b < 2 ^ 32"
    using list_value_length [OF assms(3-5,7) b(2)] b(3) by (simp split: if_splits)
  then have "bignum_to_integer b = Some (integer_of ?k)"
    using delivers_encoded [OF bignum_to_integer_correct [OF b(2)]] b(3) by simp
  moreover have "\<exists>x y. digit_list ds = Pair_Object x y" using assms(6) by (cases ds) simp_all
  ultimately show ?thesis
    using a rr c b(1) w(3) by (auto simp: Prim_list_to_integer_def neg_def)
qed

lemma int_digits_below: "1 < r \<Longrightarrow> digits_below r (rev (int_digits r v))"
proof (induction r v rule: int_digits.induct)
  case (1 r v)
  then show ?case
    by (subst int_digits.simps) (auto simp: digits_below_def)
qed

lemma list_value_digits: "1 < r \<Longrightarrow> 0 \<le> v \<Longrightarrow> list_value r (rev (int_digits r v)) = v"
proof (induction r v rule: int_digits.induct)
  case (1 r v)
  show ?case
  proof (cases "v = 0")
    case False
    then have "0 \<le> v div r" using 1(2,3) by (simp add: pos_imp_zdiv_nonneg_iff)
    then have "list_value r (rev (int_digits r (v div r))) = v div r" using 1 False by simp
    then show ?thesis using 1(2,3) False by (subst int_digits.simps) (simp add: list_value_def)
  qed (simp add: int_digits.simps list_value_def)
qed

lemma listify_fold:
  assumes "digits_below r ds" "r < 2 ^ 31"
  shows "foldl listify_bignum_consumer (digit_list es) (map word_of_int ds) = digit_list (rev ds @ es)"
  using assms(1)
proof (induction ds arbitrary: es)
  case (Cons d ds)
  then have d: "0 \<le> d" "d < r" by simp_all
  then have "LONG_TO_UNSIGNED_FIXNUM (word_of_int d) = fixnum_object d"
    using LONG_TO_UNSIGNED_FIXNUM_eq [of "word_of_int d"] assms(2) by (simp add: uint_of_int64)
  then have "listify_bignum_consumer (digit_list es) (word_of_int d) = digit_list (d # es)"
    by (simp add: listify_bignum_consumer_def digit_object_def)
  then show ?case using Cons.IH [of "d # es"] Cons.prems by simp
qed simp

theorem listify_bignum_correct:
  assumes "bignum_wf b" "integer_ok rn" "int_of rn = r" "1 < r" "r < 2 ^ 31"
  shows "Prim_listify_bignum (Integer_Object (Bignum_Object b)) (Integer_Object rn) =
    Some (Inr (digit_list (if bignum_int b = 0 then [0] else rev (int_digits r \<bar>bignum_int b\<bar>))))"
proof -
  have rn: "rn = Fixnum_Object (fixnum_object r)"
    using integer_of_int_of [OF assms(2)] assms(3-5) by (simp add: integer_of_def fixnum_range_num)
  then obtain w where w: "arg_integer 2 (Integer_Object rn) = Some (Inr w)" "sint w = r"
    using arg_integer_correct [OF assms(2)] assms(3-5) by auto
  have u: "uint w = r" using w(2) assms(4) uint_eq_sint64 [of w] by simp
  have "\<not> (long_less w 2 \<or> \<not> long_less w bignum_max_digit_stream_radix)"
    using w(2) assms(4,5) sint_of_int64 [of "2 ^ 31"]
    by (simp add: word_sless_alt bignum_max_digit_stream_radix_def BIGNUM_RADIX_ROOT_def)
  then have a: "arg_integer_in_range 2 (Integer_Object rn) 2 bignum_max_digit_stream_radix = Some (Inr w)"
    using w(1) by (simp add: arg_integer_in_range_def)
  have ur: "uint (ucast w :: 32 word) = r"
    using u assms(4,5) by (simp add: unsigned_ucast_eq take_bit_int_eq_self)
  have z: "LONG_TO_UNSIGNED_FIXNUM 0 = fixnum_object 0" using LONG_TO_UNSIGNED_FIXNUM_eq [of 0] by simp
  have "digits_below r (int_digits r \<bar>bignum_int b\<bar>)"
    using int_digits_below [OF assms(4)] by (simp add: digits_below_def)
  then have f: "foldl listify_bignum_consumer EMPTY_LIST_OBJECT (map word_of_int (int_digits r \<bar>bignum_int b\<bar>)) =
      digit_list (rev (int_digits r \<bar>bignum_int b\<bar>))"
    using listify_fold [OF _ assms(5), of _ "[]"] by simp
  have "bignum_to_digit_stream b (ucast w) listify_bignum_consumer EMPTY_LIST_OBJECT =
      Some (digit_list (rev (int_digits r \<bar>bignum_int b\<bar>)))"
    using bignum_to_digit_stream_correct [OF assms(1), of "ucast w :: 32 word" listify_bignum_consumer EMPTY_LIST_OBJECT]
      assms(4,5) by (simp only: ur f)
  then show ?thesis
    using a z by (simp add: Prim_listify_bignum_def bignum_wf_simps(6) [OF assms(1)] digit_object_def)
qed

lemma int_digits_nonempty: "1 < r \<Longrightarrow> 0 < v \<Longrightarrow> int_digits r v \<noteq> []"
  by (subst int_digits.simps) simp

text \<open>
  A list written by \<open>LISTIFY-BIGNUM\<close> is read back by \<open>LIST->INTEGER\<close> as the magnitude of the
  bignum, as long as the 32-bit size computation does not wrap.
\<close>

theorem digit_list_round_trip:
  assumes "bignum_wf b" "integer_ok rn" "int_of rn = r" "1 < r" "r < 2 ^ 31"
    and "length (int_digits r \<bar>bignum_int b\<bar>) * ulong_length_in_bits (word_of_int r) < 2 ^ 32"
  shows "\<exists>l. Prim_listify_bignum (Integer_Object (Bignum_Object b)) (Integer_Object rn) = Some (Inr l)
    \<and> Prim_list_to_integer l (Integer_Object rn) (Other_Object SHARP_F) =
      Some (Inr (Integer_Object (integer_of \<bar>bignum_int b\<bar>)))"
proof -
  let ?ds = "if bignum_int b = 0 then [0] else rev (int_digits r \<bar>bignum_int b\<bar>)"
  have "ulong_length_in_bits (word_of_int r) \<le> 64" by (rule bit_length_word)
  then have n: "length ?ds * ulong_length_in_bits (word_of_int r) < 2 ^ 32" using assms(6) by simp
  have ne: "?ds \<noteq> []" using int_digits_nonempty [OF assms(4)] by simp
  have b: "digits_below r ?ds" using int_digits_below [OF assms(4)] assms(4) by simp
  have v: "list_value r ?ds = \<bar>bignum_int b\<bar>"
    using list_value_digits [OF assms(4), of "\<bar>bignum_int b\<bar>"] by (simp add: list_value_def)
  show ?thesis
    using listify_bignum_correct [OF assms(1-5)] list_to_integer_correct [OF assms(2-5) b ne n, of "Other_Object SHARP_F"]
    by (simp only: v) simp
qed

section \<open>Generic arithmetic\<close>

lemma generic_sum:
  assumes "FIXNUM_P x" "FIXNUM_P y"
  shows "Prim_add (Integer_Object (Fixnum_Object x)) (Integer_Object (Fixnum_Object y)) =
      Some (Value (Integer_Object (integer_of (fixnum_int x + fixnum_int y))))"
    "Prim_subtract (Integer_Object (Fixnum_Object x)) (Integer_Object (Fixnum_Object y)) =
      Some (Value (Integer_Object (integer_of (fixnum_int x - fixnum_int y))))"
    "Prim_add_one (Integer_Object (Fixnum_Object x)) =
      Some (Value (Integer_Object (integer_of (fixnum_int x + 1))))"
    "Prim_subtract_one (Integer_Object (Fixnum_Object x)) =
      Some (Value (Integer_Object (integer_of (fixnum_int x - 1))))"
  using sint_fixnum_sum [OF assms, THEN delivers_long, THEN delivers_encoded]
  by (simp_all add: Prim_add_def Prim_subtract_def Prim_add_one_def Prim_subtract_one_def INDIRECT_SUM_def
      INDIRECT_INCREMENT_def)

text \<open>
  The generic primitives take the fixnum path exactly when every argument is a fixnum, and
  hand every other call to the procedure in their slot, with the arguments unchanged.
\<close>

definition fixnum_object_p :: "object \<Rightarrow> bool" where
  "fixnum_object_p x \<longleftrightarrow> (case x of Integer_Object (Fixnum_Object w) \<Rightarrow> True | _ \<Rightarrow> False)"

theorem generic_dispatch:
  assumes "\<not> (fixnum_object_p x \<and> fixnum_object_p y)"
  shows "Prim_add x y = Some (Apply_Slot GENERIC_TRAMPOLINE_ADD [x, y])"
    "Prim_subtract x y = Some (Apply_Slot GENERIC_TRAMPOLINE_SUBTRACT [x, y])"
    "Prim_equal_number x y = Apply_Slot GENERIC_TRAMPOLINE_EQUAL_P [x, y]"
    "Prim_less x y = Apply_Slot GENERIC_TRAMPOLINE_LESS_P [x, y]"
    "Prim_greater x y = Apply_Slot GENERIC_TRAMPOLINE_GREATER_P [x, y]"
  using assms
  by (auto simp: fixnum_object_p_def Prim_add_def Prim_subtract_def Prim_equal_number_def Prim_less_def
      Prim_greater_def INDIRECT_SUM_def INDIRECT_TEST_2_def split: object.splits integer.splits)

end
