(* ===== verification/Scheme_Memory.thy ===== *)
theory Scheme_Memory
  imports Integer_Prims_Correct
begin

text \<open>
  The memory of the microcode: words addressed by their index from \<open>memory_base\<close>, the
  allocation pointer \<open>Free\<close> with its limits (\<open>memmag.h\<close>), the two interrupt registers the
  allocator looks at (\<open>intrpt.h\<close>), and access to the fields of objects (\<open>object.h\<close>). A
  primitive that works on memory is an \<open>action\<close>: it maps a machine to the value it returns,
  or the way it aborts, and the machine it leaves; \<open>Hardware_Trap\<close> is a trapped instruction,
  a division by zero, \<open>Error_Code\<close> an error signalled by its number. The guards of the compiled-code
  interface (\<open>MEMTOP\<close>, the stack guard) are not part of the machine.
\<close>

section \<open>The machine\<close>

record machine =
  mem :: "nat \<Rightarrow> ulong"
  heap_start :: nat
  heap_end :: nat
  heap_alloc_limit :: nat
  Free :: nat
  Free_primitive :: nat
  int_mask :: ulong
  int_code :: ulong
  gc_space_needed :: nat
  fixed_objects :: ulong

datatype abort =
  Prim_Error prim_error | Wrong_Number_Of_Arguments | PRIM_INTERRUPT | Assertion_Failure | Microcode_Termination
| Hardware_Trap | Error_Code int

type_synonym 'a action = "machine \<Rightarrow> (abort + 'a) \<times> machine"

definition give :: "'a \<Rightarrow> 'a action" where
  "give a s = (Inr a, s)"

definition abort_with :: "abort \<Rightarrow> 'a action" where
  "abort_with e s = (Inl e, s)"

definition andthen :: "'a action \<Rightarrow> ('a \<Rightarrow> 'b action) \<Rightarrow> 'b action" where
  "andthen m f s = (case m s of (Inl e, s') \<Rightarrow> (Inl e, s') | (Inr a, s') \<Rightarrow> f a s')"

definition error_wrong_type_arg :: "nat \<Rightarrow> 'a action" where
  "error_wrong_type_arg n = abort_with (Prim_Error (Wrong_Type n))"

definition error_bad_range_arg :: "nat \<Rightarrow> 'a action" where
  "error_bad_range_arg n = abort_with (Prim_Error (Bad_Range n))"

text \<open>Actions that only read, or only write, the machine; the type check of an argument.\<close>

definition reading :: "(machine \<Rightarrow> 'a) \<Rightarrow> 'a action" where
  "reading f s = (Inr (f s), s)"

definition updating :: "(machine \<Rightarrow> machine) \<Rightarrow> ulong action" where
  "updating f s = (Inr UNSPECIFIC, f s)"

definition CHECK_ARG :: "nat \<Rightarrow> (ulong \<Rightarrow> bool) \<Rightarrow> ulong \<Rightarrow> 'a action \<Rightarrow> 'a action" where
  "CHECK_ARG argument type_p x rest = (if \<not> type_p x then error_wrong_type_arg argument else rest)"

lemma reading_simps [simp]: "reading f s = (Inr (f s), s)" "updating g s = (Inr UNSPECIFIC, g s)"
  by (simp_all add: reading_def updating_def)

lemma CHECK_ARG_simps [simp]:
  "p x \<Longrightarrow> CHECK_ARG n p x rest = rest" "\<not> p x \<Longrightarrow> CHECK_ARG n p x rest = error_wrong_type_arg n"
  by (simp_all add: CHECK_ARG_def)

lemma action_simps [simp]:
  "give a s = (Inr a, s)" "abort_with e s = (Inl e, s)"
  "error_wrong_type_arg n s = (Inl (Prim_Error (Wrong_Type n)), s)"
  "error_bad_range_arg n s = (Inl (Prim_Error (Bad_Range n)), s)"
  by (simp_all add: give_def abort_with_def error_wrong_type_arg_def error_bad_range_arg_def)

lemma andthen_simps [simp]:
  "m s = (Inr a, s') \<Longrightarrow> andthen m f s = f a s'" "m s = (Inl e, s') \<Longrightarrow> andthen m f s = (Inl e, s')"
  by (simp_all add: andthen_def)

section \<open>Interrupts and the allocator\<close>

definition INT_GC :: ulong where "INT_GC = 4"

definition GC_ENABLED_P :: "machine \<Rightarrow> bool" where
  "GC_ENABLED_P s = (int_mask s AND INT_GC \<noteq> 0)"

definition PENDING_INTERRUPTS :: "machine \<Rightarrow> ulong" where
  "PENDING_INTERRUPTS s = int_mask s AND int_code s"

definition REQUEST_INTERRUPT :: "ulong \<Rightarrow> machine \<Rightarrow> machine" where
  "REQUEST_INTERRUPT code s = s\<lparr>int_code := int_code s OR code\<rparr>"

definition FREE_OK_P :: "machine \<Rightarrow> nat \<Rightarrow> bool" where
  "FREE_OK_P s free = (free \<ge> heap_start s \<and> free < heap_alloc_limit s)"

definition HEAP_AVAILABLE :: "machine \<Rightarrow> nat" where
  "HEAP_AVAILABLE s = (if FREE_OK_P s (Free s) then heap_alloc_limit s - Free s else 0)"

definition HEAP_AVAILABLE_P :: "machine \<Rightarrow> nat \<Rightarrow> bool" where
  "HEAP_AVAILABLE_P s n_words = (FREE_OK_P s (Free s) \<and> Free s + n_words \<le> heap_alloc_limit s)"

definition GC_NEEDED_P :: "machine \<Rightarrow> nat \<Rightarrow> bool" where
  "GC_NEEDED_P s n_words = (\<not> HEAP_AVAILABLE_P s n_words \<and> GC_ENABLED_P s)"

definition REQUEST_GC :: "nat \<Rightarrow> machine \<Rightarrow> machine" where
  "REQUEST_GC n_words s = (REQUEST_INTERRUPT INT_GC s)\<lparr>gc_space_needed := n_words\<rparr>"

definition Primitive_GC :: "nat \<Rightarrow> 'a action" where
  "Primitive_GC amount s =
     (if Free_primitive s < heap_start s then (Inl Microcode_Termination, s)
      else if Free s < Free_primitive s then (Inl Microcode_Termination, s)
      else (Inl PRIM_INTERRUPT, REQUEST_GC (amount + (Free s - Free_primitive s)) s))"

definition Primitive_GC_If_Needed :: "nat \<Rightarrow> unit action" where
  "Primitive_GC_If_Needed amount s = (if GC_NEEDED_P s amount then Primitive_GC amount s else (Inr (), s))"

section \<open>Memory access\<close>

definition OBJECT_ADDRESS :: "ulong \<Rightarrow> nat" where
  "OBJECT_ADDRESS x = unat (OBJECT_DATUM x)"

definition MAKE_POINTER_OBJECT :: "ulong \<Rightarrow> nat \<Rightarrow> ulong" where
  "MAKE_POINTER_OBJECT ty address = MAKE_OBJECT ty (word_of_nat address)"

definition MEMORY_REF :: "machine \<Rightarrow> ulong \<Rightarrow> nat \<Rightarrow> ulong" where
  "MEMORY_REF s x i = mem s (OBJECT_ADDRESS x + i)"

definition write_word :: "nat \<Rightarrow> ulong \<Rightarrow> machine \<Rightarrow> machine" where
  "write_word a v s = s\<lparr>mem := (mem s)(a := v)\<rparr>"

definition MEMORY_SET :: "ulong \<Rightarrow> nat \<Rightarrow> ulong \<Rightarrow> machine \<Rightarrow> machine" where
  "MEMORY_SET x i v s = write_word (OBJECT_ADDRESS x + i) v s"

text \<open>\<open>(*Free++) = v\<close>\<close>

definition push_free :: "ulong \<Rightarrow> machine \<Rightarrow> machine" where
  "push_free v s = (write_word (Free s) v s)\<lparr>Free := Free s + 1\<rparr>"

definition PAIR_P :: "ulong \<Rightarrow> bool" where "PAIR_P x = (OBJECT_TYPE x = TC_LIST)"
definition WEAK_PAIR_P :: "ulong \<Rightarrow> bool" where "WEAK_PAIR_P x = (OBJECT_TYPE x = TC_WEAK_CONS)"
definition TAGGED_OBJECT_P :: "ulong \<Rightarrow> bool" where "TAGGED_OBJECT_P x = (OBJECT_TYPE x = TC_TAGGED_OBJECT)"
definition VECTOR_P :: "ulong \<Rightarrow> bool" where "VECTOR_P x = (OBJECT_TYPE x = TC_VECTOR)"
definition RECORD_P :: "ulong \<Rightarrow> bool" where "RECORD_P x = (OBJECT_TYPE x = TC_RECORD)"
definition BIGNUM_P :: "ulong \<Rightarrow> bool" where "BIGNUM_P x = (OBJECT_TYPE x = TC_BIG_FIXNUM)"
definition EMPTY_LIST_P :: "ulong \<Rightarrow> bool" where "EMPTY_LIST_P x = (x = EMPTY_LIST)"

definition PAIR_CAR :: "machine \<Rightarrow> ulong \<Rightarrow> ulong" where "PAIR_CAR s x = MEMORY_REF s x 0"
definition PAIR_CDR :: "machine \<Rightarrow> ulong \<Rightarrow> ulong" where "PAIR_CDR s x = MEMORY_REF s x 1"
definition SET_PAIR_CAR :: "ulong \<Rightarrow> ulong \<Rightarrow> machine \<Rightarrow> machine" where "SET_PAIR_CAR x v = MEMORY_SET x 0 v"
definition SET_PAIR_CDR :: "ulong \<Rightarrow> ulong \<Rightarrow> machine \<Rightarrow> machine" where "SET_PAIR_CDR x v = MEMORY_SET x 1 v"

definition VECTOR_LENGTH :: "machine \<Rightarrow> ulong \<Rightarrow> ulong" where
  "VECTOR_LENGTH s v = OBJECT_DATUM (MEMORY_REF s v 0)"
definition VECTOR_LOC :: "ulong \<Rightarrow> nat \<Rightarrow> nat" where
  "VECTOR_LOC v i = OBJECT_ADDRESS v + (i + 1)"
definition VECTOR_REF :: "machine \<Rightarrow> ulong \<Rightarrow> nat \<Rightarrow> ulong" where
  "VECTOR_REF s v i = MEMORY_REF s v (i + 1)"
definition VECTOR_SET :: "ulong \<Rightarrow> nat \<Rightarrow> ulong \<Rightarrow> machine \<Rightarrow> machine" where
  "VECTOR_SET v i x = MEMORY_SET v (i + 1) x"

section \<open>Types and their storage\<close>

datatype gc_type =
  GC_COMPILED_ENTRY | GC_VECTOR | GC_SPECIAL | GC_UNDEFINED | GC_NON_POINTER | GC_CELL | GC_PAIR
| GC_TRIPLE | GC_QUADRUPLE | GC_COMPILED_RETURN

definition N_TYPE_CODES :: nat where [simp]: "N_TYPE_CODES = 0x40"

definition gc_type_map :: "gc_type list" where
  "gc_type_map =
    [GC_NON_POINTER, GC_PAIR, GC_NON_POINTER, GC_PAIR, GC_COMPILED_RETURN, GC_PAIR, GC_VECTOR, GC_UNDEFINED,
     GC_NON_POINTER, GC_PAIR, GC_VECTOR, GC_NON_POINTER, GC_UNDEFINED, GC_SPECIAL, GC_VECTOR, GC_PAIR,
     GC_PAIR, GC_PAIR, GC_VECTOR, GC_PAIR, GC_TRIPLE, GC_PAIR, GC_VECTOR, GC_PAIR,
     GC_NON_POINTER, GC_PAIR, GC_NON_POINTER, GC_VECTOR, GC_VECTOR, GC_PAIR, GC_VECTOR, GC_PAIR,
     GC_TRIPLE, GC_PAIR, GC_SPECIAL, GC_PAIR, GC_TRIPLE, GC_PAIR, GC_VECTOR, GC_SPECIAL,
     GC_COMPILED_ENTRY, GC_PAIR, GC_UNDEFINED, GC_VECTOR, GC_TRIPLE, GC_NON_POINTER, GC_PAIR, GC_VECTOR,
     GC_UNDEFINED, GC_VECTOR, GC_SPECIAL, GC_VECTOR, GC_TRIPLE, GC_PAIR, GC_CELL, GC_PAIR,
     GC_QUADRUPLE, GC_SPECIAL, GC_PAIR, GC_NON_POINTER, GC_PAIR, GC_VECTOR, GC_VECTOR, GC_UNDEFINED]"

definition gc_type_code :: "ulong \<Rightarrow> gc_type" where
  "gc_type_code type_code = gc_type_map ! unat type_code"

definition GC_TYPE_PAIR :: "ulong \<Rightarrow> bool" where
  "GC_TYPE_PAIR x = (gc_type_code (OBJECT_TYPE x) = GC_PAIR)"

definition GC_TYPE_VECTOR :: "ulong \<Rightarrow> bool" where
  "GC_TYPE_VECTOR x = (gc_type_code (OBJECT_TYPE x) = GC_VECTOR)"

section \<open>Integer arguments in memory\<close>

text \<open>
  A bignum object points to a vector header; the bignum header word and the digits follow.
\<close>

definition load_bignum :: "machine \<Rightarrow> ulong \<Rightarrow> bignum" where
  "load_bignum s x =
     (let h = VECTOR_REF s x 0
      in \<lparr>bignum_header = h,
          bignum_digits = map (\<lambda>i. VECTOR_REF s x (i + 1)) [0..<unat (h AND BIGNUM_DIGIT_MASK)]\<rparr>)"

definition load_object :: "machine \<Rightarrow> ulong \<Rightarrow> object" where
  "load_object s x =
     (if FIXNUM_P x then Integer_Object (Fixnum_Object x)
      else if BIGNUM_P x then Integer_Object (Bignum_Object (load_bignum s x))
      else Other_Object x)"

definition from_prim :: "'a prim option \<Rightarrow> 'a action" where
  "from_prim r = (case r of None \<Rightarrow> abort_with Assertion_Failure
     | Some (Inl e) \<Rightarrow> abort_with (Prim_Error e) | Some (Inr a) \<Rightarrow> give a)"

definition index_arg :: "nat \<Rightarrow> ulong \<Rightarrow> long \<Rightarrow> long action" where
  "index_arg n x upper_limit s = from_prim (arg_index_integer n (load_object s x) upper_limit) s"

definition nonnegative_arg :: "nat \<Rightarrow> ulong \<Rightarrow> long action" where
  "nonnegative_arg n x s = from_prim (arg_nonnegative_integer n (load_object s x)) s"

definition ulong_arg :: "nat \<Rightarrow> ulong \<Rightarrow> ulong action" where
  "ulong_arg n x s = from_prim (arg_ulong_integer n (load_object s x)) s"

definition ulong_index_arg :: "nat \<Rightarrow> ulong \<Rightarrow> ulong \<Rightarrow> ulong action" where
  "ulong_index_arg n x upper_limit s = from_prim (arg_ulong_index_integer n (load_object s x) upper_limit) s"

section \<open>Laws of memory\<close>

lemma write_word_simps [simp]:
  "mem (write_word a v s) = (mem s)(a := v)" "Free (write_word a v s) = Free s"
  "heap_start (write_word a v s) = heap_start s" "heap_end (write_word a v s) = heap_end s"
  "heap_alloc_limit (write_word a v s) = heap_alloc_limit s"
  "Free_primitive (write_word a v s) = Free_primitive s" "int_mask (write_word a v s) = int_mask s"
  "int_code (write_word a v s) = int_code s" "gc_space_needed (write_word a v s) = gc_space_needed s"
  "fixed_objects (write_word a v s) = fixed_objects s"
  by (simp_all add: write_word_def)

lemma push_free_simps [simp]:
  "mem (push_free v s) = (mem s)(Free s := v)" "Free (push_free v s) = Suc (Free s)"
  "heap_start (push_free v s) = heap_start s" "heap_end (push_free v s) = heap_end s"
  "heap_alloc_limit (push_free v s) = heap_alloc_limit s"
  "Free_primitive (push_free v s) = Free_primitive s" "int_mask (push_free v s) = int_mask s"
  "int_code (push_free v s) = int_code s" "gc_space_needed (push_free v s) = gc_space_needed s"
  "fixed_objects (push_free v s) = fixed_objects s"
  by (simp_all add: push_free_def)

lemma MEMORY_SET_simps [simp]:
  "mem (MEMORY_SET x i v s) = (mem s)(OBJECT_ADDRESS x + i := v)" "Free (MEMORY_SET x i v s) = Free s"
  by (simp_all add: MEMORY_SET_def)

text \<open>A datum has 58 bits, so that every address below \<open>2 ^ 58\<close> can be stored in a pointer.\<close>

definition addressable :: "nat \<Rightarrow> bool" where
  "addressable a \<longleftrightarrow> a < 288230376151711744"

lemma pointer_fields [simp]:
  assumes "addressable a" "uint ty < 64"
  shows "OBJECT_ADDRESS (MAKE_POINTER_OBJECT ty a) = a" "OBJECT_TYPE (MAKE_POINTER_OBJECT ty a) = ty"
proof -
  have "unat (word_of_nat a :: ulong) = a" using assms(1) by (intro unat_of_nat64) (simp add: addressable_def)
  moreover from this have "uint (word_of_nat a :: ulong) < 2 ^ 58"
    using assms(1) by (simp add: uint_nat addressable_def)
  ultimately show "OBJECT_ADDRESS (MAKE_POINTER_OBJECT ty a) = a" "OBJECT_TYPE (MAKE_POINTER_OBJECT ty a) = ty"
    using assms(2) by (simp_all add: OBJECT_ADDRESS_def MAKE_POINTER_OBJECT_def)
qed

text \<open>Room for an allocation: no garbage collection is requested, and the new words have addresses.\<close>

definition room :: "machine \<Rightarrow> nat \<Rightarrow> bool" where
  "room s n \<longleftrightarrow> \<not> GC_NEEDED_P s n \<and> addressable (Free s + n)"

lemma room_allocates: "room s n \<Longrightarrow> Primitive_GC_If_Needed n s = (Inr (), s)"
  by (simp add: room_def Primitive_GC_If_Needed_def)

lemma addressable_mono: "addressable b \<Longrightarrow> a \<le> b \<Longrightarrow> addressable a"
  by (simp add: addressable_def)

text \<open>Consecutive words: \<open>words_at s a n\<close> reads them, \<open>push_words\<close> allocates them.\<close>

definition words_at :: "machine \<Rightarrow> nat \<Rightarrow> nat \<Rightarrow> ulong list" where
  "words_at s a n = map (\<lambda>i. mem s (a + i)) [0..<n]"

definition store_words :: "nat \<Rightarrow> ulong list \<Rightarrow> (nat \<Rightarrow> ulong) \<Rightarrow> nat \<Rightarrow> ulong" where
  "store_words a ws m = (\<lambda>b. if a \<le> b \<and> b < a + length ws then ws ! (b - a) else m b)"

definition push_words :: "ulong list \<Rightarrow> machine \<Rightarrow> machine" where
  "push_words ws s = s\<lparr>mem := store_words (Free s) ws (mem s), Free := Free s + length ws\<rparr>"

lemma length_words_at [simp]: "length (words_at s a n) = n"
  by (simp add: words_at_def)

lemma nth_words_at [simp]: "i < n \<Longrightarrow> words_at s a n ! i = mem s (a + i)"
  by (simp add: words_at_def)

lemma words_at_0 [simp]: "words_at s a 0 = []"
  by (simp add: words_at_def)

lemma words_at_cong: "(\<And>i. i < n \<Longrightarrow> mem s (a + i) = mem s' (a + i)) \<Longrightarrow> words_at s a n = words_at s' a n"
  by (simp add: words_at_def)

lemma words_at_Suc: "words_at s a (Suc n) = mem s a # words_at s (Suc a) n"
  by (rule nth_equalityI) (auto simp: nth_Cons split: nat.splits)

lemma store_words_Nil [simp]: "store_words a [] m = m"
  by (rule ext) (auto simp: store_words_def)

lemma store_words_Cons: "store_words a (w # ws) m = store_words (Suc a) ws (m(a := w))"
proof
  fix b
  show "store_words a (w # ws) m b = store_words (Suc a) ws (m(a := w)) b"
    by (cases "b \<le> a") (auto simp: store_words_def nth_Cons' not_le)
qed

lemma push_words_Nil [simp]: "push_words [] s = s"
  by (simp add: push_words_def)

lemma push_words_Cons: "push_words (w # ws) s = push_words ws (push_free w s)"
  by (simp add: push_words_def store_words_Cons push_free_def write_word_def)

lemma push_words_simps [simp]:
  "Free (push_words ws s) = Free s + length ws" "mem (push_words ws s) = store_words (Free s) ws (mem s)"
  "heap_start (push_words ws s) = heap_start s" "heap_end (push_words ws s) = heap_end s"
  "heap_alloc_limit (push_words ws s) = heap_alloc_limit s"
  "Free_primitive (push_words ws s) = Free_primitive s" "int_mask (push_words ws s) = int_mask s"
  "int_code (push_words ws s) = int_code s" "gc_space_needed (push_words ws s) = gc_space_needed s"
  "fixed_objects (push_words ws s) = fixed_objects s"
  by (simp_all add: push_words_def)

lemma store_words_below: "b < a \<Longrightarrow> store_words a ws m b = m b"
  by (simp add: store_words_def)

lemma store_words_in: "i < length ws \<Longrightarrow> store_words a ws m (a + i) = ws ! i"
  by (simp add: store_words_def)

lemma words_at_push_words: "words_at (push_words ws s) (Free s) (length ws) = ws"
  by (rule nth_equalityI) (simp_all add: store_words_in)

lemma gc_type_examples:
  "gc_type_code TC_LIST = GC_PAIR" "gc_type_code TC_WEAK_CONS = GC_PAIR" "gc_type_code TC_VECTOR = GC_VECTOR"
  "gc_type_code TC_RECORD = GC_VECTOR" "gc_type_code TC_FIXNUM = GC_NON_POINTER"
  "gc_type_code TC_BIG_FIXNUM = GC_VECTOR" "gc_type_code TC_CONSTANT = GC_NON_POINTER"
  by (simp_all add: gc_type_code_def gc_type_map_def)

lemma gc_type_map_total: "length gc_type_map = N_TYPE_CODES"
  by (simp add: gc_type_map_def)

lemma EMPTY_LIST_not_pair [simp]: "\<not> PAIR_P EMPTY_LIST"
  by (simp add: PAIR_P_def EMPTY_LIST_def)

section \<open>The contract of an allocator\<close>

text \<open>
  An operation that makes an object of type \<open>ty x\<close> whose words are \<open>layout x\<close>: with room it
  returns a pointer to the words it has pushed; where a collection is needed it requests one.
\<close>

definition unchanged_below :: "nat \<Rightarrow> machine \<Rightarrow> machine \<Rightarrow> bool" where
  "unchanged_below n s s' \<longleftrightarrow> (\<forall>a < n. mem s' a = mem s a)"

lemma unchanged_belowD: "unchanged_below n s s' \<Longrightarrow> a < n \<Longrightarrow> mem s' a = mem s a"
  by (simp add: unchanged_below_def)

lemma unchanged_below_refl [simp]: "unchanged_below n s s"
  by (simp add: unchanged_below_def)

lemma unchanged_below_trans:
  "unchanged_below n s s' \<Longrightarrow> unchanged_below m s' s'' \<Longrightarrow> k \<le> n \<Longrightarrow> k \<le> m \<Longrightarrow> unchanged_below k s s''"
  by (simp add: unchanged_below_def)

lemma unchanged_below_push [simp]: "unchanged_below (Free s) s (push_words ws s)"
  by (simp add: unchanged_below_def store_words_below)

lemma Primitive_GC_requests:
  assumes "heap_start s \<le> Free_primitive s" "Free_primitive s \<le> Free s"
  shows "Primitive_GC n s = (Inl PRIM_INTERRUPT, REQUEST_GC (n + (Free s - Free_primitive s)) s)"
  using assms by (simp add: Primitive_GC_def)

lemma REQUEST_GC_simps [simp]:
  "mem (REQUEST_GC n s) = mem s" "Free (REQUEST_GC n s) = Free s" "gc_space_needed (REQUEST_GC n s) = n"
  "heap_alloc_limit (REQUEST_GC n s) = heap_alloc_limit s" "int_mask (REQUEST_GC n s) = int_mask s"
  by (simp_all add: REQUEST_GC_def REQUEST_INTERRUPT_def)

text \<open>The request is pending: a collection is needed only while its interrupt is enabled.\<close>

lemma REQUEST_GC_pending: "GC_NEEDED_P s n \<Longrightarrow> PENDING_INTERRUPTS (REQUEST_GC m s) AND INT_GC = INT_GC"
proof -
  assume "GC_NEEDED_P s n"
  then have "bit (int_mask s) 2"
    using and_exp_eq_0_iff_not_bit [of "int_mask s" 2] by (simp add: GC_NEEDED_P_def GC_ENABLED_P_def INT_GC_def)
  moreover have fields: "int_mask (REQUEST_GC m s) = int_mask s" "int_code (REQUEST_GC m s) = int_code s OR INT_GC"
    by (simp_all add: REQUEST_GC_def REQUEST_INTERRUPT_def)
  moreover have four: "INT_GC = 2 ^ 2" by (simp add: INT_GC_def)
  ultimately show ?thesis
    unfolding PENDING_INTERRUPTS_def fields four
    by (intro bit_eqI) (auto simp only: bit_and_iff bit_or_iff bit_exp_iff)
qed

locale allocator =
  fixes make :: "'x \<Rightarrow> ulong action" and ty :: "'x \<Rightarrow> ulong" and layout :: "'x \<Rightarrow> ulong list"
    and fits :: "'x \<Rightarrow> bool"
  assumes allocates: "fits x \<Longrightarrow> room s (length (layout x)) \<Longrightarrow>
      make x s = (Inr (MAKE_POINTER_OBJECT (ty x) (Free s)), push_words (layout x) s)"
    and collects: "fits x \<Longrightarrow> GC_NEEDED_P s (length (layout x)) \<Longrightarrow> make x s = Primitive_GC (length (layout x)) s"
begin

lemma made:
  assumes "fits x" "room s (length (layout x))" "ty x < 64"
  shows "\<exists>p s'. make x s = (Inr p, s') \<and> OBJECT_TYPE p = ty x \<and> OBJECT_ADDRESS p = Free s
    \<and> words_at s' (OBJECT_ADDRESS p) (length (layout x)) = layout x
    \<and> Free s' = Free s + length (layout x) \<and> unchanged_below (Free s) s s'"
proof -
  have "addressable (Free s)" using assms(2) by (auto simp: room_def intro: addressable_mono)
  then show ?thesis
    using allocates [OF assms(1,2)] assms(3) by (simp add: words_at_push_words word_less_def)
qed

lemma requests:
  assumes "fits x" "GC_NEEDED_P s (length (layout x))" "heap_start s \<le> Free_primitive s" "Free_primitive s \<le> Free s"
  shows "make x s = (Inl PRIM_INTERRUPT, REQUEST_GC (length (layout x) + (Free s - Free_primitive s)) s)"
  using collects [OF assms(1,2)] Primitive_GC_requests assms(3,4) by simp

text \<open>Objects made one after the other do not overlap, and the first keeps its contents.\<close>

lemma made_twice:
  assumes "fits x" "room s (length (layout x))" "ty x < 64" "make x s = (Inr p, s1)"
    and "fits y" "room s1 (length (layout y))" "ty y < 64" "make y s1 = (Inr q, s2)"
  shows "OBJECT_ADDRESS p + length (layout x) \<le> OBJECT_ADDRESS q
    \<and> words_at s2 (OBJECT_ADDRESS p) (length (layout x)) = layout x"
proof -
  note first = made [OF assms(1,2,3)] and second = made [OF assms(5,6,7)]
  have p: "OBJECT_ADDRESS p = Free s" "Free s1 = Free s + length (layout x)"
    "words_at s1 (OBJECT_ADDRESS p) (length (layout x)) = layout x"
    using first assms(4) by auto
  moreover have q: "OBJECT_ADDRESS q = Free s1" "unchanged_below (Free s1) s1 s2"
    using second assms(8) by auto
  moreover have "words_at s2 (OBJECT_ADDRESS p) (length (layout x)) = words_at s1 (OBJECT_ADDRESS p) (length (layout x))"
    using p q by (intro words_at_cong) (simp add: unchanged_belowD)
  ultimately show ?thesis by simp
qed

end

end
