(* ===== verification/Prim_Args.thy ===== *)
theory Prim_Args
  imports Scheme_Memory
begin

text \<open>
  Integer arguments and integer results of primitives that work on memory
  (\<open>microcode/utils.c\<close>, \<open>artutl.c\<close>). An argument denotes the integer \<open>k\<close> when the machine
  word is a fixnum of that value or points to a normalised bignum of that value; the lemmas
  say for every \<open>k\<close> whether a check accepts it and which C integer it passes on.
\<close>

section \<open>Which integers a check accepts\<close>

definition integer_arg :: "machine \<Rightarrow> ulong \<Rightarrow> int \<Rightarrow> bool" where
  "integer_arg s x k \<longleftrightarrow> (\<exists>n. load_object s x = Integer_Object n \<and> integer_ok n \<and> integer_digits n < 2 ^ 32 \<and> int_of n = k)"

definition not_integer :: "ulong \<Rightarrow> bool" where
  "not_integer x \<longleftrightarrow> \<not> FIXNUM_P x \<and> \<not> BIGNUM_P x"

lemma integer_arg_fixnum: "FIXNUM_P x \<Longrightarrow> integer_arg s x (fixnum_int x)"
  by (auto simp: integer_arg_def load_object_def)

lemma integer_arg_fixnum_object [simp]:
  "-144115188075855872 \<le> k \<Longrightarrow> k \<le> 144115188075855871 \<Longrightarrow> integer_arg s (fixnum_object k) k"
  using integer_arg_fixnum [of "fixnum_object k" s] by (simp add: fixnum_range_num)

lemma arg_integer_word:
  assumes "integer_ok n" "integer_digits n < 2 ^ 32"
  shows "arg_integer a (Integer_Object n) =
    Some (if - (3 * 2 ^ 62) < int_of n \<and> int_of n < 2 ^ 63 then Inr (word_of_int (int_of n)) else Inl (Bad_Range a))"
proof -
  have "integer_to_long n = word_of_int (int_of n)"
  proof (cases n)
    case (Fixnum_Object x)
    then have "sint (FIXNUM_TO_LONG x) = sint (word_of_int (int_of n) :: long)"
      using assms(1) fixnum_int_num [of x] by (simp add: sint_FIXNUM_TO_LONG sint_of_int64)
    then show ?thesis using Fixnum_Object by (simp add: signed_word_eqI)
  next
    case (Bignum_Object b) then show ?thesis using assms(1) by (simp add: bignum_to_long_correct)
  qed
  then show ?thesis using integer_to_long_correct(1) [OF assms] by (simp add: arg_integer_def)
qed

text \<open>The nonnegative longs, and the negative integers the conversion to long wraps to one.\<close>

definition accepted_nonnegative :: "int \<Rightarrow> bool" where
  "accepted_nonnegative k \<longleftrightarrow> 0 \<le> k \<and> k < 2 ^ 63 \<or> - (3 * 2 ^ 62) < k \<and> k < - (2 ^ 63)"

lemma uint_word_of_int_neg: "- (2 ^ 64) \<le> k \<Longrightarrow> k < 0 \<Longrightarrow> uint (word_of_int k :: 64 word) = k + 2 ^ 64"
  using mod_pos_pos_trivial [of "k + 2 ^ 64" "2 ^ 64"] mod_add_self2 [of k "2 ^ 64"]
  by (simp add: uint_word_of_int)

lemma uint_word_of_int_pos: "0 \<le> k \<Longrightarrow> k < 2 ^ 64 \<Longrightarrow> uint (word_of_int k :: 64 word) = k"
  by (simp add: uint_word_of_int)

theorem nonnegative_arg_correct:
  assumes "integer_arg s x k"
  shows "nonnegative_arg n x s =
    (if accepted_nonnegative k then Inr (word_of_int k) else Inl (Prim_Error (Bad_Range n)), s)"
proof -
  obtain i where i: "load_object s x = Integer_Object i" "integer_ok i" "integer_digits i < 2 ^ 32" "int_of i = k"
    using assms by (auto simp: integer_arg_def)
  have neg: "long_less (word_of_int k :: long) 0 \<longleftrightarrow> \<not> accepted_nonnegative k"
    if "- (3 * 2 ^ 62) < k" "k < 2 ^ 63"
  proof (cases "0 \<le> k")
    case True with that show ?thesis by (simp add: long_less_0_iff uint_word_of_int_pos accepted_nonnegative_def)
  next
    case False with that show ?thesis
      using uint_word_of_int_neg [of k] by (auto simp: long_less_0_iff accepted_nonnegative_def)
  qed
  have out: "\<not> accepted_nonnegative k" if "\<not> (- (3 * 2 ^ 62) < k \<and> k < 2 ^ 63)"
    using that by (auto simp: accepted_nonnegative_def)
  show ?thesis
    using arg_integer_word [OF i(2,3)] i(1,4) neg out
    by (cases "- (3 * 2 ^ 62) < k \<and> k < 2 ^ 63")
      (auto simp: nonnegative_arg_def arg_nonnegative_integer_def from_prim_def)
qed

theorem index_arg_correct:
  assumes "integer_arg s x k" "uint limit \<le> 2 ^ 62"
  shows "index_arg n x limit s =
    (if 0 \<le> k \<and> k < uint limit then Inr (word_of_int k) else Inl (Prim_Error (Bad_Range n)), s)"
proof -
  obtain i where i: "load_object s x = Integer_Object i" "integer_ok i" "integer_digits i < 2 ^ 32" "int_of i = k"
    using assms by (auto simp: integer_arg_def)
  have check: "long_less (word_of_int k :: long) 0 \<or> \<not> long_less (word_of_int k) limit \<longleftrightarrow> \<not> (0 \<le> k \<and> k < uint limit)"
    if "- (3 * 2 ^ 62) < k" "k < 2 ^ 63"
  proof (cases "0 \<le> k")
    case True with that assms(2) show ?thesis
      by (simp add: long_less_0_iff long_less_uint uint_word_of_int_pos)
  next
    case False
    with that have u: "uint (word_of_int k :: long) = k + 2 ^ 64" by (simp add: uint_word_of_int_neg)
    show ?thesis
    proof (cases "uint (word_of_int k :: long) < 2 ^ 63")
      case True
      then have "\<not> long_less (word_of_int k) limit" using u that assms(2) by (simp add: long_less_uint)
      then show ?thesis using False by simp
    qed (simp add: long_less_0_iff False)
  qed
  show ?thesis
    using arg_integer_word [OF i(2,3)] i(1,4) check assms(2)
    by (cases "- (3 * 2 ^ 62) < k \<and> k < 2 ^ 63")
      (auto simp: index_arg_def arg_index_integer_def from_prim_def)
qed

theorem ulong_arg_correct:
  assumes "integer_arg s x k"
  shows "ulong_arg n x s = (if 0 \<le> k \<and> k < 2 ^ 64 then Inr (word_of_int k) else Inl (Prim_Error (Bad_Range n)), s)"
proof -
  obtain i where i: "load_object s x = Integer_Object i" "integer_ok i" "integer_digits i < 2 ^ 32" "int_of i = k"
    using assms by (auto simp: integer_arg_def)
  show ?thesis
    using arg_ulong_integer_correct [OF i(2,3), of n] i(1,4)
    by (cases "0 \<le> k \<and> k < 2 ^ 64") (simp_all add: ulong_arg_def from_prim_def del: not_le not_less)
qed

theorem ulong_index_arg_correct:
  assumes "integer_arg s x k"
  shows "ulong_index_arg n x limit s =
    (if 0 \<le> k \<and> k < uint limit then Inr (word_of_int k) else Inl (Prim_Error (Bad_Range n)), s)"
proof -
  obtain i where i: "load_object s x = Integer_Object i" "integer_ok i" "integer_digits i < 2 ^ 32" "int_of i = k"
    using assms by (auto simp: integer_arg_def)
  show ?thesis
  proof (cases "0 \<le> k \<and> k < 2 ^ 64")
    case True
    then show ?thesis
      using arg_ulong_integer_correct(1) [OF i(2,3), of n] i(1,4)
      by (simp add: ulong_index_arg_def arg_ulong_index_integer_def from_prim_def word_le_def uint_word_of_int_pos)
  next
    case False
    then show ?thesis
      using arg_ulong_integer_correct(2) [OF i(2,3), of n] i(1,4) uint_bounds64 [of limit]
      by (auto simp: ulong_index_arg_def arg_ulong_index_integer_def from_prim_def)
  qed
qed

theorem argument_type_errors:
  assumes "not_integer x"
  shows "nonnegative_arg n x s = (Inl (Prim_Error (Wrong_Type n)), s)"
    "index_arg n x limit s = (Inl (Prim_Error (Wrong_Type n)), s)"
    "ulong_arg n x s = (Inl (Prim_Error (Wrong_Type n)), s)"
    "ulong_index_arg n x limit s = (Inl (Prim_Error (Wrong_Type n)), s)"
  using assms
  by (simp_all add: not_integer_def load_object_def nonnegative_arg_def index_arg_def ulong_arg_def ulong_index_arg_def
      arg_nonnegative_integer_def arg_index_integer_def arg_ulong_integer_def arg_ulong_index_integer_def
      arg_integer_def from_prim_def)

end
