(* ===== verification/List_Prims.thy ===== *)
theory List_Prims
  imports Prim_Args
begin

text \<open>
  The primitives of \<open>microcode/list.c\<close>: pairs, the generalised selector \<open>GENERAL-CAR-CDR\<close>,
  the pairs of the system types, tagged objects and weak pairs. The lemmas show the laws of
  pairs, what the primitives leave unchanged, the type errors, and that lists in memory are
  built and taken apart as the lists they represent.
\<close>

section \<open>Pairs\<close>

definition Prim_pair :: "ulong \<Rightarrow> ulong action" where
  "Prim_pair x = give (BOOLEAN_TO_OBJECT (PAIR_P x))"

definition cons :: "ulong \<Rightarrow> ulong \<Rightarrow> ulong action" where
  "cons car cdr = andthen (Primitive_GC_If_Needed 2) (\<lambda>_ s.
     let s = push_free cdr (push_free car s) in (Inr (MAKE_POINTER_OBJECT TC_LIST (Free s - 2)), s))"

definition Prim_cons :: "ulong \<Rightarrow> ulong \<Rightarrow> ulong action" where
  "Prim_cons x y = cons x y"

definition Prim_car :: "ulong \<Rightarrow> ulong action" where
  "Prim_car x = CHECK_ARG 1 PAIR_P x (reading (\<lambda>s. PAIR_CAR s x))"

definition Prim_cdr :: "ulong \<Rightarrow> ulong action" where
  "Prim_cdr x = CHECK_ARG 1 PAIR_P x (reading (\<lambda>s. PAIR_CDR s x))"

definition Prim_set_car :: "ulong \<Rightarrow> ulong \<Rightarrow> ulong action" where
  "Prim_set_car x v = CHECK_ARG 1 PAIR_P x (updating (SET_PAIR_CAR x v))"

definition Prim_set_cdr :: "ulong \<Rightarrow> ulong \<Rightarrow> ulong action" where
  "Prim_set_cdr x v = CHECK_ARG 1 PAIR_P x (updating (SET_PAIR_CDR x v))"

section \<open>The generalised selector\<close>

function general_car_cdr_loop :: "ulong \<Rightarrow> ulong \<Rightarrow> ulong action" where
  "general_car_cdr_loop path object s =
     (if path > 1 then
        if \<not> PAIR_P object then error_wrong_type_arg 1 s
        else general_car_cdr_loop (drop_bit 1 path)
               (if path AND 1 = 0 then PAIR_CDR s object else PAIR_CAR s object) s
      else (Inr object, s))"
  by pat_completeness auto
termination
  by (relation "measure (\<lambda>(path, _, _). unat path)")
    (simp_all add: unat_drop_bit_eq word_less_nat_alt drop_bit_Suc unat_div)

declare general_car_cdr_loop.simps [simp del]

definition Prim_general_car_cdr :: "ulong \<Rightarrow> ulong \<Rightarrow> ulong action" where
  "Prim_general_car_cdr object x = andthen (ulong_arg 2 x) (\<lambda>path. general_car_cdr_loop path object)"

section \<open>System pairs\<close>

definition Prim_sys_pair :: "ulong \<Rightarrow> ulong action" where
  "Prim_sys_pair x = give (BOOLEAN_TO_OBJECT (GC_TYPE_PAIR x))"

definition system_pair_cons :: "ulong \<Rightarrow> ulong \<Rightarrow> ulong \<Rightarrow> ulong action" where
  "system_pair_cons ty car cdr = andthen (Primitive_GC_If_Needed 2) (\<lambda>_ s.
     let s = push_free cdr (push_free car s) in (Inr (MAKE_POINTER_OBJECT ty (Free s - 2)), s))"

definition Prim_sys_pair_cons :: "ulong \<Rightarrow> ulong \<Rightarrow> ulong \<Rightarrow> ulong action" where
  "Prim_sys_pair_cons x y z =
     andthen (ulong_index_arg 1 x (of_nat N_TYPE_CODES)) (\<lambda>ty.
       if gc_type_code ty \<noteq> GC_PAIR then error_bad_range_arg 1 else system_pair_cons ty y z)"

definition Prim_sys_pair_car :: "ulong \<Rightarrow> ulong action" where
  "Prim_sys_pair_car x = CHECK_ARG 1 GC_TYPE_PAIR x (reading (\<lambda>s. PAIR_CAR s x))"

definition Prim_sys_pair_cdr :: "ulong \<Rightarrow> ulong action" where
  "Prim_sys_pair_cdr x = CHECK_ARG 1 GC_TYPE_PAIR x (reading (\<lambda>s. PAIR_CDR s x))"

definition Prim_sys_set_car :: "ulong \<Rightarrow> ulong \<Rightarrow> ulong action" where
  "Prim_sys_set_car x v = CHECK_ARG 1 GC_TYPE_PAIR x (updating (SET_PAIR_CAR x v))"

definition Prim_sys_set_cdr :: "ulong \<Rightarrow> ulong \<Rightarrow> ulong action" where
  "Prim_sys_set_cdr x v = CHECK_ARG 1 GC_TYPE_PAIR x (updating (SET_PAIR_CDR x v))"

section \<open>Tagged objects and weak pairs\<close>

definition Prim_tagged_object_p :: "ulong \<Rightarrow> ulong action" where
  "Prim_tagged_object_p x = give (BOOLEAN_TO_OBJECT (TAGGED_OBJECT_P x))"

definition Prim_make_tagged_object :: "ulong \<Rightarrow> ulong \<Rightarrow> ulong action" where
  "Prim_make_tagged_object x y = andthen (Primitive_GC_If_Needed 2) (\<lambda>_ s.
     (Inr (MAKE_POINTER_OBJECT TC_TAGGED_OBJECT (Free s)), push_free y (push_free x s)))"

definition Prim_tagged_object_tag :: "ulong \<Rightarrow> ulong action" where
  "Prim_tagged_object_tag x = CHECK_ARG 1 TAGGED_OBJECT_P x (reading (\<lambda>s. MEMORY_REF s x 0))"

definition Prim_tagged_object_datum :: "ulong \<Rightarrow> ulong action" where
  "Prim_tagged_object_datum x = CHECK_ARG 1 TAGGED_OBJECT_P x (reading (\<lambda>s. MEMORY_REF s x 1))"

definition Prim_weak_pair_p :: "ulong \<Rightarrow> ulong action" where
  "Prim_weak_pair_p x = give (BOOLEAN_TO_OBJECT (WEAK_PAIR_P x))"

definition Prim_weak_cons :: "ulong \<Rightarrow> ulong \<Rightarrow> ulong action" where
  "Prim_weak_cons x y = andthen (Primitive_GC_If_Needed 2) (\<lambda>_ s.
     (Inr (MAKE_POINTER_OBJECT TC_WEAK_CONS (Free s)), push_free y (push_free x s)))"

definition Prim_weak_car :: "ulong \<Rightarrow> ulong action" where
  "Prim_weak_car x = CHECK_ARG 1 WEAK_PAIR_P x (reading (\<lambda>s. MEMORY_REF s x 0))"

definition Prim_weak_cdr :: "ulong \<Rightarrow> ulong action" where
  "Prim_weak_cdr x = CHECK_ARG 1 WEAK_PAIR_P x (reading (\<lambda>s. MEMORY_REF s x 1))"

definition Prim_weak_set_car :: "ulong \<Rightarrow> ulong \<Rightarrow> ulong action" where
  "Prim_weak_set_car x v = CHECK_ARG 1 WEAK_PAIR_P x (updating (MEMORY_SET x 0 v))"

definition Prim_weak_set_cdr :: "ulong \<Rightarrow> ulong \<Rightarrow> ulong action" where
  "Prim_weak_set_cdr x v = CHECK_ARG 1 WEAK_PAIR_P x (updating (MEMORY_SET x 1 v))"

section \<open>Allocation of pairs\<close>

lemma GC_If_Needed_collects:
  "GC_NEEDED_P s n \<Longrightarrow> andthen (Primitive_GC_If_Needed n) f s = Primitive_GC n s"
  by (simp add: andthen_def Primitive_GC_If_Needed_def Primitive_GC_def)

lemma two_words:
  "room s (Suc (Suc 0)) \<Longrightarrow> Primitive_GC_If_Needed 2 s = (Inr (), s)"
  "GC_NEEDED_P s (Suc (Suc 0)) \<Longrightarrow> andthen (Primitive_GC_If_Needed 2) f s = Primitive_GC (Suc (Suc 0)) s"
  using room_allocates GC_If_Needed_collects by (simp_all add: numeral_2_eq_2)

lemma push_two: "push_free b (push_free a s) = push_words [a, b] s"
  by (simp add: push_words_Cons)

interpretation pairs: allocator "\<lambda>(a, d). cons a d" "\<lambda>_. TC_LIST" "\<lambda>(a, d). [a, d]"
    "\<lambda>_. True"
  by unfold_locales (auto simp: cons_def two_words push_two Let_def)

interpretation system_pairs: allocator "\<lambda>(ty, a, d). system_pair_cons ty a d" "\<lambda>(ty, a, d). ty"
    "\<lambda>(ty, a, d). [a, d]" "\<lambda>_. True"
  by unfold_locales (auto simp: system_pair_cons_def two_words push_two Let_def)

interpretation tagged_objects: allocator "\<lambda>(a, d). Prim_make_tagged_object a d" "\<lambda>_. TC_TAGGED_OBJECT"
    "\<lambda>(a, d). [a, d]" "\<lambda>_. True"
  by unfold_locales (auto simp: Prim_make_tagged_object_def two_words push_two)

interpretation weak_pairs: allocator "\<lambda>(a, d). Prim_weak_cons a d" "\<lambda>_. TC_WEAK_CONS" "\<lambda>(a, d). [a, d]"
    "\<lambda>_. True"
  by unfold_locales (auto simp: Prim_weak_cons_def two_words push_two)

section \<open>Laws of pairs\<close>

lemma pair_words [simp]: "words_at s a (Suc (Suc 0)) = [mem s a, mem s (Suc a)]"
  by (simp add: words_at_Suc)

lemma room_2: "room s 2 \<Longrightarrow> room s (Suc (Suc 0))"
  by (simp add: numeral_2_eq_2)

lemma pair_access [simp]:
  "PAIR_CAR s x = mem s (OBJECT_ADDRESS x)" "PAIR_CDR s x = mem s (Suc (OBJECT_ADDRESS x))"
  "mem (SET_PAIR_CAR x v s) = (mem s)(OBJECT_ADDRESS x := v)"
  "mem (SET_PAIR_CDR x v s) = (mem s)(Suc (OBJECT_ADDRESS x) := v)"
  by (simp_all add: PAIR_CAR_def PAIR_CDR_def MEMORY_REF_def SET_PAIR_CAR_def SET_PAIR_CDR_def)

theorem cons_correct:
  assumes "room s 2"
  shows "\<exists>p s'. Prim_cons a d s = (Inr p, s') \<and> PAIR_P p \<and> Prim_car p s' = (Inr a, s')
    \<and> Prim_cdr p s' = (Inr d, s') \<and> OBJECT_ADDRESS p = Free s \<and> Free s' = Free s + 2 \<and> unchanged_below (Free s) s s'"
  using pairs.made [of s "(a, d)"] room_2 [OF assms]
  by (auto simp: Prim_cons_def Prim_car_def Prim_cdr_def PAIR_P_def)

theorem set_pair_correct:
  assumes "PAIR_P p"
  shows "\<exists>s'. Prim_set_car p v s = (Inr UNSPECIFIC, s') \<and> Prim_car p s' = (Inr v, s')
      \<and> Prim_cdr p s' = (fst (Prim_cdr p s), s')"
    and "\<exists>s'. Prim_set_cdr p v s = (Inr UNSPECIFIC, s') \<and> Prim_cdr p s' = (Inr v, s')
      \<and> Prim_car p s' = (fst (Prim_car p s), s')"
  using assms by (simp_all add: Prim_set_car_def Prim_set_cdr_def Prim_car_def Prim_cdr_def)

theorem pair_type_errors:
  assumes "\<not> PAIR_P p"
  shows "Prim_car p s = (Inl (Prim_Error (Wrong_Type 1)), s)" "Prim_cdr p s = (Inl (Prim_Error (Wrong_Type 1)), s)"
    "Prim_set_car p v s = (Inl (Prim_Error (Wrong_Type 1)), s)"
    "Prim_set_cdr p v s = (Inl (Prim_Error (Wrong_Type 1)), s)"
  using assms by (simp_all add: Prim_set_car_def Prim_set_cdr_def Prim_car_def Prim_cdr_def)

theorem weak_cons_correct:
  assumes "room s 2"
  shows "\<exists>p s'. Prim_weak_cons a d s = (Inr p, s') \<and> WEAK_PAIR_P p \<and> Prim_weak_car p s' = (Inr a, s')
    \<and> Prim_weak_cdr p s' = (Inr d, s') \<and> unchanged_below (Free s) s s'"
  using weak_pairs.made [of s "(a, d)"] room_2 [OF assms]
  by (auto simp: Prim_weak_car_def Prim_weak_cdr_def WEAK_PAIR_P_def MEMORY_REF_def)

theorem tagged_object_correct:
  assumes "room s 2"
  shows "\<exists>p s'. Prim_make_tagged_object tag datum s = (Inr p, s') \<and> TAGGED_OBJECT_P p
    \<and> Prim_tagged_object_tag p s' = (Inr tag, s') \<and> Prim_tagged_object_datum p s' = (Inr datum, s')
    \<and> unchanged_below (Free s) s s'"
  using tagged_objects.made [of s "(tag, datum)"] room_2 [OF assms]
  by (auto simp: Prim_tagged_object_tag_def Prim_tagged_object_datum_def TAGGED_OBJECT_P_def MEMORY_REF_def)

text \<open>\<open>SYSTEM-PAIR-CONS\<close> makes a pair of every type whose objects are pairs, and of no other.\<close>

theorem system_pair_cons_correct:
  assumes "integer_arg s x k" "room s 2"
  shows "if 0 \<le> k \<and> k < 64 \<and> gc_type_map ! nat k = GC_PAIR
     then \<exists>p s'. Prim_sys_pair_cons x a d s = (Inr p, s') \<and> OBJECT_TYPE p = word_of_int k \<and> GC_TYPE_PAIR p
       \<and> Prim_sys_pair_car p s' = (Inr a, s') \<and> Prim_sys_pair_cdr p s' = (Inr d, s') \<and> unchanged_below (Free s) s s'
     else Prim_sys_pair_cons x a d s = (Inl (Prim_Error (Bad_Range 1)), s)"
proof (cases "0 \<le> k \<and> k < 64")
  case True
  then have u: "uint (word_of_int k :: ulong) = k" by (simp add: uint_word_of_int_pos)
  have small: "(word_of_int k :: ulong) < 64" using u True by (simp add: word_less_def)
  have type: "gc_type_code (word_of_int k) = gc_type_map ! nat k" using u by (simp add: gc_type_code_def unat_eq_nat_uint)
  have "ulong_index_arg 1 x (of_nat N_TYPE_CODES) s = (Inr (word_of_int k), s)"
    using True by (simp add: ulong_index_arg_correct [OF assms(1)])
  then show ?thesis
    using True type small system_pairs.made [of s "(word_of_int k, a, d)"] room_2 [OF assms(2)]
    by (auto simp: Prim_sys_pair_cons_def Prim_sys_pair_car_def Prim_sys_pair_cdr_def GC_TYPE_PAIR_def)
next
  case False
  then show ?thesis by (auto simp: Prim_sys_pair_cons_def ulong_index_arg_correct [OF assms(1)])
qed

section \<open>Lists in memory\<close>

text \<open>The object \<open>x\<close> is the list \<open>xs\<close>, all pairs of which lie below the address \<open>n\<close>.\<close>

fun list_at :: "machine \<Rightarrow> nat \<Rightarrow> ulong \<Rightarrow> ulong list \<Rightarrow> bool" where
  "list_at s n x [] \<longleftrightarrow> x = EMPTY_LIST"
| "list_at s n x (v # vs) \<longleftrightarrow>
     PAIR_P x \<and> OBJECT_ADDRESS x + 1 < n \<and> PAIR_CAR s x = v \<and> list_at s n (PAIR_CDR s x) vs"

lemma list_at_unchanged: "list_at s n x vs \<Longrightarrow> unchanged_below n s s' \<Longrightarrow> list_at s' n x vs"
  by (induction s n x vs rule: list_at.induct) (auto simp: unchanged_below_def)

lemma list_at_mono: "list_at s n x vs \<Longrightarrow> n \<le> m \<Longrightarrow> list_at s m x vs"
  by (induction s n x vs rule: list_at.induct) auto

lemma list_at_unique: "list_at s n x vs \<Longrightarrow> list_at s m x ws \<Longrightarrow> vs = ws"
proof (induction s n x vs arbitrary: ws rule: list_at.induct)
  case (1 s n x) then show ?case by (cases ws) auto
next
  case (2 s n x v vs) then show ?case by (cases ws) auto
qed

theorem cons_list:
  assumes "room s 2" "list_at s (Free s) d vs"
  shows "\<exists>p s'. Prim_cons v d s = (Inr p, s') \<and> list_at s' (Free s') p (v # vs) \<and> unchanged_below (Free s) s s'"
proof -
  obtain p s' where p: "Prim_cons v d s = (Inr p, s')" "PAIR_P p" "Prim_car p s' = (Inr v, s')" "Prim_cdr p s' = (Inr d, s')"
    "OBJECT_ADDRESS p = Free s" "Free s' = Free s + 2" "unchanged_below (Free s) s s'"
    using cons_correct [OF assms(1)] by blast
  have "list_at s' (Free s') d vs" using assms(2) p(6,7) by (auto intro: list_at_unchanged list_at_mono)
  then show ?thesis using p by (auto simp: Prim_car_def Prim_cdr_def)
qed

section \<open>Paths\<close>

text \<open>The selectors a path stands for, from its least significant bit; true is \<open>CAR\<close>.\<close>

fun path_selectors :: "nat \<Rightarrow> bool list" where
  "path_selectors n = (if n \<le> 1 then [] else odd n # path_selectors (n div 2))"

declare path_selectors.simps [simp del]

fun select_path :: "bool list \<Rightarrow> ulong \<Rightarrow> ulong action" where
  "select_path [] object = give object"
| "select_path (b # bs) object = andthen ((if b then Prim_car else Prim_cdr) object) (select_path bs)"

theorem general_car_cdr_selects:
  "general_car_cdr_loop path object s = select_path (path_selectors (unat path)) object s"
proof (induction path object s rule: general_car_cdr_loop.induct)
  case (1 path object s)
  have gt: "path > 1 \<longleftrightarrow> \<not> unat path \<le> 1" by (simp add: word_less_nat_alt not_le)
  have half: "unat (drop_bit (Suc 0) path) = unat path div 2" by (simp add: unat_drop_bit_eq drop_bit_Suc unat_div)
  have par: "path AND 1 = 0 \<longleftrightarrow> even (unat path)" 
    using bit_unsigned_iff [where ?'a = nat, of path 0] by (simp add: and_one_eq mod2_eq_if bit_0)
  show ?case
  proof (cases "path > 1 \<and> PAIR_P object")
    case True
    with 1 show ?thesis
      by (subst general_car_cdr_loop.simps, subst path_selectors.simps)
        (simp add: gt half par Prim_car_def Prim_cdr_def andthen_def)
  next
    case False
    then show ?thesis
      by (subst general_car_cdr_loop.simps, subst path_selectors.simps)
        (auto simp: gt Prim_car_def Prim_cdr_def andthen_def)
  qed
qed

text \<open>The path of a sequence of selectors, with its end marker.\<close>

fun path_of :: "bool list \<Rightarrow> nat" where
  "path_of [] = 1"
| "path_of (b # bs) = of_bool b + 2 * path_of bs"

lemma path_of_positive: "0 < path_of bs"
  by (induction bs) auto

lemma path_selectors_path_of: "path_selectors (path_of bs) = bs"
proof (induction bs)
  case Nil then show ?case by (simp add: path_selectors.simps)
next
  case (Cons b bs)
  then show ?case using path_of_positive [of bs] by (subst path_selectors.simps) auto
qed

lemma path_of_bound: "path_of bs < 2 ^ (length bs + 1)"
  by (induction bs) auto

theorem general_car_cdr_path:
  assumes "length bs < 64"
  shows "general_car_cdr_loop (word_of_nat (path_of bs)) object s = select_path bs object s"
proof -
  have "path_of bs < 2 ^ 64"
    using path_of_bound [of bs] assms by (metis Suc_eq_plus1 Suc_leI less_le_trans one_le_numeral power_increasing)
  then have "unat (word_of_nat (path_of bs) :: ulong) = path_of bs" by (intro unat_of_nat64) simp
  then show ?thesis by (simp add: general_car_cdr_selects path_selectors_path_of)
qed

end
