(* ===== verification/Vector_Prims.thy ===== *)
theory Vector_Prims
  imports List_Prims
begin

text \<open>
  The primitives of \<open>microcode/vector.c\<close>: allocation, access, conversion between vectors and
  lists, moving and filling of subvectors, and the applicator of records. Arguments on the
  stack are the arguments of the definitions; a primitive of any number of arguments takes
  their list. Integer arguments go through the checks of \<^theory_text>\<open>Prim_Args\<close>.
\<close>

section \<open>Allocation\<close>

definition allocate_vector :: "ulong \<Rightarrow> ulong \<Rightarrow> ulong \<Rightarrow> ulong action" where
  "allocate_vector ty manifest_type len s =
     (let result = MAKE_POINTER_OBJECT ty (Free s);
          s = push_free (MAKE_OBJECT manifest_type len) s
      in (Inr result, s\<lparr>Free := Free s + unat len\<rparr>))"

definition gc_check :: "bool \<Rightarrow> ulong \<Rightarrow> unit action" where
  "gc_check gc_check_p amount = (if gc_check_p then Primitive_GC_If_Needed (unat amount) else give ())"

definition allocate_non_marked_vector :: "ulong \<Rightarrow> ulong \<Rightarrow> bool \<Rightarrow> ulong action" where
  "allocate_non_marked_vector ty len gc_check_p =
     andthen (gc_check gc_check_p (1 + len)) (\<lambda>_. allocate_vector ty TC_MANIFEST_NM_VECTOR len)"

definition allocate_marked_vector :: "ulong \<Rightarrow> ulong \<Rightarrow> bool \<Rightarrow> ulong action" where
  "allocate_marked_vector ty len gc_check_p =
     andthen (gc_check gc_check_p (1 + len)) (\<lambda>_. allocate_vector ty TC_MANIFEST_VECTOR len)"

primrec fill_free :: "nat \<Rightarrow> ulong \<Rightarrow> machine \<Rightarrow> machine" where
  "fill_free 0 fill_value s = s"
| "fill_free (Suc n) fill_value s = fill_free n fill_value (push_free fill_value s)"

definition make_marked_vector :: "ulong \<Rightarrow> ulong \<Rightarrow> ulong \<Rightarrow> bool \<Rightarrow> ulong action" where
  "make_marked_vector ty len fill_value gc_check_p =
     andthen (gc_check gc_check_p (len + 1)) (\<lambda>_ s.
       (Inr (MAKE_POINTER_OBJECT ty (Free s)),
        fill_free (unat len) fill_value (push_free (MAKE_OBJECT TC_MANIFEST_VECTOR len) s)))"

definition make_vector :: "ulong \<Rightarrow> ulong \<Rightarrow> bool \<Rightarrow> ulong action" where
  "make_vector len filler gc_check_p = make_marked_vector TC_VECTOR len filler gc_check_p"

text \<open>C does not fix which of the two arguments is checked first here; the model takes them in order.\<close>

definition Prim_allocate_nm_vector :: "ulong \<Rightarrow> ulong \<Rightarrow> ulong action" where
  "Prim_allocate_nm_vector x y =
     andthen (ulong_index_arg 1 x (of_nat N_TYPE_CODES)) (\<lambda>ty.
     andthen (ulong_index_arg 2 y (push_bit DATUM_LENGTH 1)) (\<lambda>len.
       allocate_non_marked_vector ty len True))"

definition Prim_vector_cons :: "ulong \<Rightarrow> ulong \<Rightarrow> ulong action" where
  "Prim_vector_cons x y = andthen (nonnegative_arg 1 x) (\<lambda>len. make_vector len y True)"

primrec copy_words :: "ulong list \<Rightarrow> nat \<Rightarrow> machine \<Rightarrow> machine" where
  "copy_words [] result_scan s = s"
| "copy_words (a # as) result_scan s = copy_words as (result_scan + 1) (write_word result_scan a s)"

definition Prim_vector :: "ulong list \<Rightarrow> ulong action" where
  "Prim_vector args =
     andthen (allocate_marked_vector TC_VECTOR (of_nat (length args)) True) (\<lambda>result s.
       (Inr result, copy_words args (VECTOR_LOC result 0) s))"

definition Prim_make_record :: "ulong \<Rightarrow> ulong \<Rightarrow> ulong action" where
  "Prim_make_record x y =
     andthen (ulong_index_arg 1 x (push_bit DATUM_LENGTH 1)) (\<lambda>len. make_marked_vector TC_RECORD len y True)"

definition Prim_record :: "ulong list \<Rightarrow> ulong action" where
  "Prim_record args =
     (if length args < 1 then abort_with Wrong_Number_Of_Arguments
      else andthen (allocate_marked_vector TC_RECORD (of_nat (length args)) True) (\<lambda>result s.
        (Inr result, copy_words args (VECTOR_LOC result 0) s)))"

section \<open>Access\<close>

definition Prim_vector_p :: "ulong \<Rightarrow> ulong action" where
  "Prim_vector_p x = give (BOOLEAN_TO_OBJECT (VECTOR_P x))"
definition Prim_record_p :: "ulong \<Rightarrow> ulong action" where
  "Prim_record_p x = give (BOOLEAN_TO_OBJECT (RECORD_P x))"
definition Prim_sys_vector :: "ulong \<Rightarrow> ulong action" where
  "Prim_sys_vector x = give (BOOLEAN_TO_OBJECT (GC_TYPE_VECTOR x))"

text \<open>An integer result is a fixnum, or a bignum object in newly allocated memory.\<close>

definition store_bignum :: "bignum \<Rightarrow> ulong action" where
  "store_bignum b =
     andthen (allocate_non_marked_vector TC_BIG_FIXNUM (of_nat (length (bignum_digits b) + 1)) True) (\<lambda>result s.
       (Inr result, copy_words (bignum_header b # bignum_digits b) (VECTOR_LOC result 0) s))"

fun store_integer :: "integer option \<Rightarrow> ulong action" where
  "store_integer None = abort_with Assertion_Failure"
| "store_integer (Some (Fixnum_Object w)) = give w"
| "store_integer (Some (Bignum_Object b)) = store_bignum b"

definition VECTOR_LENGTH_PRIMITIVE :: "(ulong \<Rightarrow> bool) \<Rightarrow> ulong \<Rightarrow> ulong action" where
  "VECTOR_LENGTH_PRIMITIVE arg_type x =
     CHECK_ARG 1 arg_type x (\<lambda>s. store_integer (long_to_integer (VECTOR_LENGTH s x)) s)"

definition Prim_vector_length :: "ulong \<Rightarrow> ulong action" where
  "Prim_vector_length = VECTOR_LENGTH_PRIMITIVE VECTOR_P"
definition Prim_record_length :: "ulong \<Rightarrow> ulong action" where
  "Prim_record_length = VECTOR_LENGTH_PRIMITIVE RECORD_P"
definition Prim_sys_vec_size :: "ulong \<Rightarrow> ulong action" where
  "Prim_sys_vec_size = VECTOR_LENGTH_PRIMITIVE GC_TYPE_VECTOR"

definition ARG_VECTOR_INDEX :: "nat \<Rightarrow> ulong \<Rightarrow> ulong \<Rightarrow> long action" where
  "ARG_VECTOR_INDEX argument_number x vector s = index_arg argument_number x (VECTOR_LENGTH s vector) s"

definition VECTOR_REF_PRIMITIVE :: "(ulong \<Rightarrow> bool) \<Rightarrow> ulong \<Rightarrow> ulong \<Rightarrow> ulong action" where
  "VECTOR_REF_PRIMITIVE arg_type vector x =
     CHECK_ARG 1 arg_type vector
       (andthen (ARG_VECTOR_INDEX 2 x vector) (\<lambda>i. reading (\<lambda>s. VECTOR_REF s vector (unat i))))"

definition Prim_vector_ref :: "ulong \<Rightarrow> ulong \<Rightarrow> ulong action" where
  "Prim_vector_ref = VECTOR_REF_PRIMITIVE VECTOR_P"
definition Prim_record_ref :: "ulong \<Rightarrow> ulong \<Rightarrow> ulong action" where
  "Prim_record_ref = VECTOR_REF_PRIMITIVE RECORD_P"
definition Prim_sys_vector_ref :: "ulong \<Rightarrow> ulong \<Rightarrow> ulong action" where
  "Prim_sys_vector_ref = VECTOR_REF_PRIMITIVE GC_TYPE_VECTOR"

definition VECTOR_SET_PRIMITIVE :: "(ulong \<Rightarrow> bool) \<Rightarrow> ulong \<Rightarrow> ulong \<Rightarrow> ulong \<Rightarrow> ulong action" where
  "VECTOR_SET_PRIMITIVE arg_type vector x new_value =
     CHECK_ARG 1 arg_type vector
       (andthen (ARG_VECTOR_INDEX 2 x vector) (\<lambda>i. updating (VECTOR_SET vector (unat i) new_value)))"

definition Prim_vector_set :: "ulong \<Rightarrow> ulong \<Rightarrow> ulong \<Rightarrow> ulong action" where
  "Prim_vector_set = VECTOR_SET_PRIMITIVE VECTOR_P"
definition Prim_record_set :: "ulong \<Rightarrow> ulong \<Rightarrow> ulong \<Rightarrow> ulong action" where
  "Prim_record_set = VECTOR_SET_PRIMITIVE RECORD_P"
definition Prim_sys_vec_set :: "ulong \<Rightarrow> ulong \<Rightarrow> ulong \<Rightarrow> ulong action" where
  "Prim_sys_vec_set = VECTOR_SET_PRIMITIVE GC_TYPE_VECTOR"

section \<open>Vectors and lists\<close>

text \<open>The loop runs \<open>n\<close> times, once for every element but the last.\<close>

primrec subvector_scan :: "nat \<Rightarrow> nat \<Rightarrow> nat \<Rightarrow> machine \<Rightarrow> machine" where
  "subvector_scan 0 scan pair_scan s =
     (let s = s\<lparr>Free := Free s + 2\<rparr>;
          s = write_word pair_scan (mem s scan) s
      in write_word (pair_scan + 1) EMPTY_LIST s)"
| "subvector_scan (Suc n) scan pair_scan s =
     (let s = s\<lparr>Free := Free s + 2\<rparr>;
          s = write_word pair_scan (mem s scan) s;
          s = write_word (pair_scan + 1) (MAKE_POINTER_OBJECT TC_LIST (Free s)) s
      in subvector_scan n (scan + 1) (pair_scan + 2) s)"

definition subvector_to_list :: "ulong \<Rightarrow> nat \<Rightarrow> nat \<Rightarrow> ulong action" where
  "subvector_to_list vector start end =
     (if start = end then give EMPTY_LIST
      else andthen (Primitive_GC_If_Needed (2 * (end - start))) (\<lambda>_ s.
        (Inr (MAKE_POINTER_OBJECT TC_LIST (Free s)),
         subvector_scan (end - 1 - start) (VECTOR_LOC vector start) (Free s) s)))"

definition SUBVECTOR_TO_LIST_PRIMITIVE :: "(ulong \<Rightarrow> bool) \<Rightarrow> ulong \<Rightarrow> ulong \<Rightarrow> ulong \<Rightarrow> ulong action" where
  "SUBVECTOR_TO_LIST_PRIMITIVE arg_type vector x y =
     CHECK_ARG 1 arg_type vector
       (andthen (nonnegative_arg 2 x) (\<lambda>start. andthen (nonnegative_arg 3 y) (\<lambda>end s.
         if long_less (VECTOR_LENGTH s vector) end then error_bad_range_arg 3 s
         else if long_less end start then error_bad_range_arg 2 s
         else subvector_to_list vector (unat start) (unat end) s)))"

definition Prim_subvector_to_list :: "ulong \<Rightarrow> ulong \<Rightarrow> ulong \<Rightarrow> ulong action" where
  "Prim_subvector_to_list = SUBVECTOR_TO_LIST_PRIMITIVE VECTOR_P"
definition Prim_sys_subvector_to_list :: "ulong \<Rightarrow> ulong \<Rightarrow> ulong \<Rightarrow> ulong action" where
  "Prim_sys_subvector_to_list = SUBVECTOR_TO_LIST_PRIMITIVE GC_TYPE_VECTOR"

text \<open>
  The list may be circular; the loop then ends when the heap is exhausted, if garbage
  collection is enabled. A run that does not end is \<^const>\<open>None\<close>.
\<close>

partial_function (option) list_scan :: "nat \<Rightarrow> ulong \<Rightarrow> ulong \<Rightarrow> machine \<Rightarrow> ((abort + ulong) \<times> machine) option" where
  "list_scan argument_number count list s =
     (if PAIR_P list then
        (case Primitive_GC_If_Needed 0 s of
           (Inl e, s) \<Rightarrow> Some (Inl e, s)
         | (Inr _, s) \<Rightarrow>
             let s = push_free (PAIR_CAR s list) s
             in list_scan argument_number (count + 1) (PAIR_CDR s list) s)
      else if \<not> EMPTY_LIST_P list then Some (error_wrong_type_arg argument_number s)
      else Some (Inr count, s))"

definition list_to_vector :: "ulong \<Rightarrow> nat \<Rightarrow> ulong \<Rightarrow> machine \<Rightarrow> ((abort + ulong) \<times> machine) option" where
  "list_to_vector result_type argument_number list s =
     (let result = Free s
      in map_option (\<lambda>(r, s). case r of
             Inl e \<Rightarrow> (Inl e, s)
           | Inr count \<Rightarrow> (Inr (MAKE_POINTER_OBJECT result_type result),
                           write_word result (MAKE_OBJECT TC_MANIFEST_VECTOR count) s))
           (list_scan argument_number 0 list (s\<lparr>Free := Free s + 1\<rparr>)))"

definition Prim_list_to_vector :: "ulong \<Rightarrow> machine \<Rightarrow> ((abort + ulong) \<times> machine) option" where
  "Prim_list_to_vector x = list_to_vector TC_VECTOR 1 x"

definition Prim_sys_list_to_vector :: "ulong \<Rightarrow> ulong \<Rightarrow> machine \<Rightarrow> ((abort + ulong) \<times> machine) option" where
  "Prim_sys_list_to_vector x y s =
     (case ulong_index_arg 1 x (of_nat N_TYPE_CODES) s of
        (Inl e, s) \<Rightarrow> Some (Inl e, s)
      | (Inr type_code, s) \<Rightarrow>
          if gc_type_code type_code \<noteq> GC_VECTOR then Some (error_bad_range_arg 1 s)
          else list_to_vector type_code 2 y s)"

section \<open>Moving and filling\<close>

text \<open>
  The sum \<open>start2 + length\<close> is a \<open>long\<close> and wraps. The pointers below are those of the
  indices in range; a pointer past the end of the address space is undefined in C.
\<close>

definition SUBVECTOR_MOVE_PREFIX ::
  "ulong \<Rightarrow> ulong \<Rightarrow> ulong \<Rightarrow> ulong \<Rightarrow> ulong \<Rightarrow> (long \<Rightarrow> long \<Rightarrow> long \<Rightarrow> long \<Rightarrow> long \<Rightarrow> 'a action) \<Rightarrow> 'a action" where
  "SUBVECTOR_MOVE_PREFIX vector1 x y vector2 z body =
     CHECK_ARG 1 VECTOR_P vector1 (andthen (nonnegative_arg 2 x) (\<lambda>start1. andthen (nonnegative_arg 3 y) (\<lambda>end1.
     CHECK_ARG 4 VECTOR_P vector2 (andthen (nonnegative_arg 5 z) (\<lambda>start2 s.
       if long_less (VECTOR_LENGTH s vector1) end1 then error_bad_range_arg 3 s
       else if long_less end1 start1 then error_bad_range_arg 2 s
       else let len = end1 - start1; end2 = start2 + len
            in if long_less (VECTOR_LENGTH s vector2) end2 then error_bad_range_arg 5 s
               else body start1 end1 start2 end2 len s)))))"

primrec move_right :: "nat \<Rightarrow> nat \<Rightarrow> nat \<Rightarrow> machine \<Rightarrow> machine" where
  "move_right 0 scan1 scan2 s = s"
| "move_right (Suc len) scan1 scan2 s =
     move_right len (scan1 - 1) (scan2 - 1) (write_word (scan2 - 1) (mem s (scan1 - 1)) s)"

primrec move_left :: "nat \<Rightarrow> nat \<Rightarrow> nat \<Rightarrow> machine \<Rightarrow> machine" where
  "move_left 0 scan1 scan2 s = s"
| "move_left (Suc len) scan1 scan2 s =
     move_left len (scan1 + 1) (scan2 + 1) (write_word scan2 (mem s scan1) s)"

definition Prim_subvector_move_right :: "ulong \<Rightarrow> ulong \<Rightarrow> ulong \<Rightarrow> ulong \<Rightarrow> ulong \<Rightarrow> ulong action" where
  "Prim_subvector_move_right vector1 x y vector2 z =
     SUBVECTOR_MOVE_PREFIX vector1 x y vector2 z (\<lambda>start1 end1 start2 end2 len.
       updating (move_right (unat len) (VECTOR_LOC vector1 (unat end1)) (VECTOR_LOC vector2 (unat end2))))"

definition Prim_subvector_move_left :: "ulong \<Rightarrow> ulong \<Rightarrow> ulong \<Rightarrow> ulong \<Rightarrow> ulong \<Rightarrow> ulong action" where
  "Prim_subvector_move_left vector1 x y vector2 z =
     SUBVECTOR_MOVE_PREFIX vector1 x y vector2 z (\<lambda>start1 end1 start2 end2 len.
       updating (move_left (unat len) (VECTOR_LOC vector1 (unat start1)) (VECTOR_LOC vector2 (unat start2))))"

primrec fill_words :: "nat \<Rightarrow> ulong \<Rightarrow> nat \<Rightarrow> machine \<Rightarrow> machine" where
  "fill_words 0 fill_value scan s = s"
| "fill_words (Suc len) fill_value scan s = fill_words len fill_value (scan + 1) (write_word scan fill_value s)"

definition Prim_vector_fill :: "ulong \<Rightarrow> ulong \<Rightarrow> ulong \<Rightarrow> ulong \<Rightarrow> ulong action" where
  "Prim_vector_fill vector x y fill_value =
     CHECK_ARG 1 VECTOR_P vector
       (andthen (nonnegative_arg 2 x) (\<lambda>start. andthen (nonnegative_arg 3 y) (\<lambda>end s.
         if long_less (VECTOR_LENGTH s vector) end then error_bad_range_arg 3 s
         else if long_less end start then error_bad_range_arg 2 s
         else updating (fill_words (unat (end - start)) fill_value (VECTOR_LOC vector (unat start))) s)))"

section \<open>Applicable records\<close>

definition FIXOBJ_RECORD_TAG :: nat where "FIXOBJ_RECORD_TAG = 0x11"
definition FIXOBJ_RECORD_APP_INDEX :: nat where "FIXOBJ_RECORD_APP_INDEX = 0x12"
definition FIXOBJ_PROXIED_RECORD_TYPES :: nat where "FIXOBJ_PROXIED_RECORD_TYPES = 0x15"
definition FASDUMP_RECORD_MARKER_START :: ulong where "FASDUMP_RECORD_MARKER_START = 0x100"
definition FASDUMP_RECORD_MARKER_END :: ulong where "FASDUMP_RECORD_MARKER_END = 0x200"

definition record_marker :: "machine \<Rightarrow> ulong \<Rightarrow> ulong" where
  "record_marker s rec =
     (let marker = VECTOR_REF s rec 0
      in if OBJECT_TYPE marker = TC_CONSTANT \<and> OBJECT_DATUM marker \<ge> FASDUMP_RECORD_MARKER_START
              \<and> OBJECT_DATUM marker < FASDUMP_RECORD_MARKER_END
         then VECTOR_REF s (VECTOR_REF s (fixed_objects s) FIXOBJ_PROXIED_RECORD_TYPES)
                (unat (OBJECT_DATUM marker - FASDUMP_RECORD_MARKER_START))
         else marker)"

definition record_applicator :: "machine \<Rightarrow> ulong \<Rightarrow> ulong" where
  "record_applicator s rec =
     (let marker = record_marker s rec
      in if RECORD_P marker \<and> VECTOR_REF s marker 0 = VECTOR_REF s (fixed_objects s) FIXOBJ_RECORD_TAG
         then VECTOR_REF s marker (unat (OBJECT_DATUM (VECTOR_REF s (fixed_objects s) FIXOBJ_RECORD_APP_INDEX)))
         else SHARP_F)"

end
