(* ===== verification/Vector_Correct.thy ===== *)
theory Vector_Correct
  imports Vector_Prims
begin

text \<open>
  Correctness of the vector primitives: what the allocators build, bounds of access, the
  representation of integer results, vectors and lists converted into each other, and the
  moves of overlapping subvectors.
\<close>

section \<open>Allocated vectors\<close>

text \<open>The words of the object \<open>v\<close> are the vector \<open>xs\<close>.\<close>

definition vector_at :: "machine \<Rightarrow> ulong \<Rightarrow> ulong list \<Rightarrow> bool" where
  "vector_at s v xs \<longleftrightarrow>
     unat (VECTOR_LENGTH s v) = length xs \<and> words_at s (OBJECT_ADDRESS v + 1) (length xs) = xs"

lemma fill_free_eq: "fill_free n v s = push_words (replicate n v) s"
  by (induction n arbitrary: s) (simp_all add: push_words_Cons)

lemma copy_words_mem: "copy_words ws a s = s\<lparr>mem := store_words a ws (mem s)\<rparr>"
  by (induction ws arbitrary: a s) (simp_all add: store_words_Cons write_word_def)

lemma header_then_words:
  "(copy_words ws (Suc (Free s)) (push_free h s\<lparr>Free := Suc (Free s) + length ws\<rparr>)) = push_words (h # ws) s"
  by (simp add: copy_words_mem push_words_def push_free_def write_word_def store_words_Cons)

lemma unat_length_plus_1: "n + 1 < 2 ^ 64 \<Longrightarrow> unat (1 + word_of_nat n :: ulong) = Suc n"
  using unat_of_nat64 [of "n + 1"] by (simp add: add.commute)

lemma gc_check_room [simp]: "room s n \<Longrightarrow> n = unat amount \<Longrightarrow> gc_check True amount s = (Inr (), s)"
  by (simp add: gc_check_def room_allocates)

lemma gc_check_collects:
  "GC_NEEDED_P s n \<Longrightarrow> n = unat amount \<Longrightarrow> andthen (gc_check True amount) f s = Primitive_GC n s"
  by (simp add: gc_check_def GC_If_Needed_collects)

lemma room_vector_loc:
  assumes "room s (Suc n)" "ty < 64"
  shows "VECTOR_LOC (MAKE_POINTER_OBJECT ty (Free s)) 0 = Suc (Free s)"
proof -
  have "addressable (Free s)" using assms(1) by (auto simp: room_def intro: addressable_mono)
  then show ?thesis using assms(2) by (simp add: VECTOR_LOC_def word_less_def)
qed

lemma allocate_room:
  assumes "room s (Suc n)" "ty < 64" "n + 1 < 2 ^ 64" "gc_check_p"
  shows "andthen (andthen (gc_check gc_check_p (1 + word_of_nat n)) (\<lambda>_. allocate_vector ty mty (word_of_nat n)))
      (\<lambda>result s. (Inr (f result), copy_words ws (VECTOR_LOC result 0) s)) s =
    (Inr (f (MAKE_POINTER_OBJECT ty (Free s))),
     copy_words ws (Suc (Free s)) (push_free (MAKE_OBJECT mty (word_of_nat n)) s\<lparr>Free := Suc (Free s) + n\<rparr>))"
  using assms
  by (simp add: gc_check_def andthen_def unat_length_plus_1 room_allocates allocate_vector_def room_vector_loc unat_of_nat64)

lemma allocate_collects:
  assumes "GC_NEEDED_P s (Suc n)" "n + 1 < 2 ^ 64"
  shows "andthen (andthen (gc_check True (1 + word_of_nat n)) g) f s = Primitive_GC (Suc n) s"
  using assms by (simp add: gc_check_def andthen_def unat_length_plus_1 Primitive_GC_If_Needed_def Primitive_GC_def)

definition vector_layout :: "ulong \<Rightarrow> ulong list \<Rightarrow> ulong list" where
  "vector_layout mty xs = MAKE_OBJECT mty (of_nat (length xs)) # xs"

lemma vector_layout_length [simp]: "length (vector_layout mty xs) = Suc (length xs)"
  by (simp add: vector_layout_def)

interpretation vectors: allocator Prim_vector "\<lambda>_. TC_VECTOR" "vector_layout TC_MANIFEST_VECTOR"
    "\<lambda>xs. length xs + 1 < 2 ^ 64"
proof
  fix s and xs :: "ulong list"
  assume fits: "length xs + 1 < 2 ^ 64"
  show "Prim_vector xs s = (Inr (MAKE_POINTER_OBJECT TC_VECTOR (Free s)), push_words (vector_layout TC_MANIFEST_VECTOR xs) s)"
    if "room s (length (vector_layout TC_MANIFEST_VECTOR xs))"
    using that fits allocate_room [of s "length xs" TC_VECTOR True TC_MANIFEST_VECTOR "\<lambda>r. r" xs] header_then_words [of xs s]
    by (simp add: Prim_vector_def allocate_marked_vector_def vector_layout_def del: header_then_words)
  show "Prim_vector xs s = Primitive_GC (length (vector_layout TC_MANIFEST_VECTOR xs)) s"
    if "GC_NEEDED_P s (length (vector_layout TC_MANIFEST_VECTOR xs))"
    using that fits by (simp add: Prim_vector_def allocate_marked_vector_def allocate_collects)
qed

interpretation records: allocator Prim_record "\<lambda>_. TC_RECORD" "vector_layout TC_MANIFEST_VECTOR"
    "\<lambda>xs. 0 < length xs \<and> length xs + 1 < 2 ^ 64"
proof
  fix s and xs :: "ulong list"
  assume fits: "0 < length xs \<and> length xs + 1 < 2 ^ 64"
  show "Prim_record xs s = (Inr (MAKE_POINTER_OBJECT TC_RECORD (Free s)), push_words (vector_layout TC_MANIFEST_VECTOR xs) s)"
    if "room s (length (vector_layout TC_MANIFEST_VECTOR xs))"
    using that fits allocate_room [of s "length xs" TC_RECORD True TC_MANIFEST_VECTOR "\<lambda>r. r" xs] header_then_words [of xs s]
    by (simp add: Prim_record_def allocate_marked_vector_def vector_layout_def)
  show "Prim_record xs s = Primitive_GC (length (vector_layout TC_MANIFEST_VECTOR xs)) s"
    if "GC_NEEDED_P s (length (vector_layout TC_MANIFEST_VECTOR xs))"
    using that fits by (simp add: Prim_record_def allocate_marked_vector_def allocate_collects)
qed

interpretation filled_vectors: allocator "\<lambda>(ty, n, v). make_marked_vector ty (of_nat n) v True" "\<lambda>(ty, n, v). ty"
    "\<lambda>(ty, n, v). vector_layout TC_MANIFEST_VECTOR (replicate n v)" "\<lambda>(ty, n, v). n + 1 < 2 ^ 64"
  by unfold_locales
    (auto simp: make_marked_vector_def gc_check_def andthen_def unat_length_plus_1 add.commute [of _ 1] room_allocates
      fill_free_eq unat_of_nat64 vector_layout_def push_words_Cons Primitive_GC_If_Needed_def Primitive_GC_def room_def Suc_diff_le)

interpretation bignums: allocator store_bignum "\<lambda>_. TC_BIG_FIXNUM"
    "\<lambda>b. vector_layout TC_MANIFEST_NM_VECTOR (bignum_header b # bignum_digits b)"
    "\<lambda>b. length (bignum_digits b) + 2 < 2 ^ 64"
proof
  fix s and b :: bignum
  let ?ws = "bignum_header b # bignum_digits b"
  assume fits: "length (bignum_digits b) + 2 < 2 ^ 64"
  show "store_bignum b s = (Inr (MAKE_POINTER_OBJECT TC_BIG_FIXNUM (Free s)), push_words (vector_layout TC_MANIFEST_NM_VECTOR ?ws) s)"
    if "room s (length (vector_layout TC_MANIFEST_NM_VECTOR ?ws))"
    using that fits allocate_room [of s "length ?ws" TC_BIG_FIXNUM True TC_MANIFEST_NM_VECTOR "\<lambda>r. r" ?ws] header_then_words [of ?ws s]
    by (simp add: store_bignum_def allocate_non_marked_vector_def vector_layout_def del: of_nat_Suc copy_words.simps)
  show "store_bignum b s = Primitive_GC (length (vector_layout TC_MANIFEST_NM_VECTOR ?ws)) s"
    if "GC_NEEDED_P s (length (vector_layout TC_MANIFEST_NM_VECTOR ?ws))"
    using that fits by (simp add: store_bignum_def allocate_non_marked_vector_def allocate_collects del: of_nat_Suc)
qed

section \<open>Vectors made\<close>

lemma vector_at_layout:
  assumes "words_at s a (Suc (length xs)) = vector_layout mty xs" "length xs < 2 ^ 58" "OBJECT_ADDRESS v = a" "mty < 64"
  shows "vector_at s v xs"
proof -
  have "mem s a = MAKE_OBJECT mty (of_nat (length xs))" and w: "words_at s (Suc a) (length xs) = xs"
    using assms(1) by (simp_all add: words_at_Suc vector_layout_def)
  moreover have "uint (word_of_nat (length xs) :: ulong) < 2 ^ 58" using assms(2) by (simp add: uint_nat unat_of_nat64)
  ultimately have "VECTOR_LENGTH s v = of_nat (length xs)"
    using assms(3,4) by (simp add: VECTOR_LENGTH_def MEMORY_REF_def word_less_def)
  then show ?thesis using w assms(2,3) by (simp add: vector_at_def unat_of_nat64)
qed

lemma room_bound: "room s (Suc n) \<Longrightarrow> n < 2 ^ 58"
  by (simp add: room_def addressable_def)

theorem vector_correct:
  assumes "room s (length xs + 1)"
  shows "\<exists>v s'. Prim_vector xs s = (Inr v, s') \<and> VECTOR_P v \<and> vector_at s' v xs \<and> unchanged_below (Free s) s s'
    \<and> OBJECT_ADDRESS v = Free s \<and> Free s' = Free s + length xs + 1"
proof -
  have n: "room s (Suc (length xs))" "length xs < 2 ^ 58" using assms room_bound [of s "length xs"] by simp_all
  then obtain v s' where v: "Prim_vector xs s = (Inr v, s')" "OBJECT_TYPE v = TC_VECTOR" "OBJECT_ADDRESS v = Free s"
    "words_at s' (OBJECT_ADDRESS v) (Suc (length xs)) = vector_layout TC_MANIFEST_VECTOR xs"
    "Free s' = Free s + Suc (length xs)" "unchanged_below (Free s) s s'"
    using vectors.made [of xs s] by auto
  then show ?thesis using vector_at_layout [OF v(4) n(2) refl] by (auto simp: VECTOR_P_def)
qed

theorem record_correct:
  assumes "room s (length xs + 1)" "xs \<noteq> []"
  shows "\<exists>v s'. Prim_record xs s = (Inr v, s') \<and> RECORD_P v \<and> vector_at s' v xs \<and> unchanged_below (Free s) s s'"
proof -
  have n: "room s (Suc (length xs))" "length xs < 2 ^ 58" using assms room_bound [of s "length xs"] by simp_all
  then obtain v s' where v: "Prim_record xs s = (Inr v, s')" "OBJECT_TYPE v = TC_RECORD"
    "words_at s' (OBJECT_ADDRESS v) (Suc (length xs)) = vector_layout TC_MANIFEST_VECTOR xs" "unchanged_below (Free s) s s'"
    using records.made [of xs s] assms(2) by auto
  then show ?thesis using vector_at_layout [OF v(3) n(2) refl] by (auto simp: RECORD_P_def)
qed

lemma make_marked_vector_correct:
  assumes "room s (n + 1)" "ty < 64"
  shows "\<exists>v s'. make_marked_vector ty (of_nat n) x True s = (Inr v, s') \<and> OBJECT_TYPE v = ty
    \<and> vector_at s' v (replicate n x) \<and> unchanged_below (Free s) s s'"
proof -
  have n: "room s (Suc n)" "n < 2 ^ 58" using assms room_bound [of s n] by simp_all
  then obtain v s' where v: "make_marked_vector ty (of_nat n) x True s = (Inr v, s')" "OBJECT_TYPE v = ty"
    "words_at s' (OBJECT_ADDRESS v) (Suc n) = vector_layout TC_MANIFEST_VECTOR (replicate n x)" "unchanged_below (Free s) s s'"
    using filled_vectors.made [of "(ty, n, x)" s] assms(2) by auto
  then show ?thesis using vector_at_layout [of s' _ "replicate n x", OF _ _ refl] n(2) by auto
qed

theorem vector_cons_correct:
  assumes "integer_arg s x k" "0 \<le> k" "room s (nat k + 1)"
  shows "\<exists>v s'. Prim_vector_cons x y s = (Inr v, s') \<and> VECTOR_P v \<and> vector_at s' v (replicate (nat k) y)
    \<and> unchanged_below (Free s) s s'"
proof -
  have "nat k < 2 ^ 58" using room_bound [of s "nat k"] assms(3) by simp
  then have "nonnegative_arg 1 x s = (Inr (word_of_nat (nat k)), s)"
    using assms(2) by (simp add: nonnegative_arg_correct [OF assms(1)] accepted_nonnegative_def)
  then show ?thesis
    using make_marked_vector_correct [OF assms(3), of TC_VECTOR y]
    by (auto simp: Prim_vector_cons_def make_vector_def VECTOR_P_def)
qed

section \<open>Bounds of access\<close>

lemma VECTOR_LENGTH_bound: "uint (VECTOR_LENGTH s v) < 2 ^ 58"
  unfolding VECTOR_LENGTH_def by (rule OBJECT_DATUM_bound)

lemma vector_at_length: "vector_at s v xs \<Longrightarrow> uint (VECTOR_LENGTH s v) = int (length xs)"
  by (simp add: vector_at_def uint_nat)

lemma vector_at_bound: "vector_at s v xs \<Longrightarrow> length xs < 2 ^ 58"
  using VECTOR_LENGTH_bound [of s v] vector_at_length [of s v xs] by simp

lemma vector_at_ref:
  assumes "vector_at s v xs" "i < length xs"
  shows "VECTOR_REF s v i = xs ! i"
  using assms nth_words_at [of i "length xs" s "OBJECT_ADDRESS v + 1"]
  by (simp add: vector_at_def VECTOR_REF_def MEMORY_REF_def add.commute)

lemma vector_index_correct:
  assumes "integer_arg s x k" "vector_at s v xs"
  shows "ARG_VECTOR_INDEX n x v s =
    (if 0 \<le> k \<and> k < int (length xs) then Inr (word_of_int k) else Inl (Prim_Error (Bad_Range n)), s)"
  using index_arg_correct [OF assms(1), of "VECTOR_LENGTH s v"] VECTOR_LENGTH_bound [of s v] vector_at_length [OF assms(2)]
  by (simp add: ARG_VECTOR_INDEX_def)

lemma unat_word_index: "0 \<le> k \<Longrightarrow> k < 2 ^ 58 \<Longrightarrow> unat (word_of_int k :: ulong) = nat k"
  by (simp add: unat_eq_nat_uint uint_word_of_int_pos)

theorem vector_ref_correct:
  assumes "p v" "integer_arg s x k" "vector_at s v xs"
  shows "VECTOR_REF_PRIMITIVE p v x s =
    (if 0 \<le> k \<and> k < int (length xs) then Inr (xs ! nat k) else Inl (Prim_Error (Bad_Range 2)), s)"
  using assms(1) vector_at_bound [OF assms(3)] vector_at_ref [OF assms(3), of "nat k"]
  by (auto simp: VECTOR_REF_PRIMITIVE_def vector_index_correct [OF assms(2,3)] unat_word_index)

lemma vector_at_update:
  assumes "vector_at s v xs" "i < length xs"
  shows "vector_at (VECTOR_SET v i y s) v (xs[i := y])"
  unfolding vector_at_def
proof (intro conjI nth_equalityI)
  show "unat (VECTOR_LENGTH (VECTOR_SET v i y s) v) = length (xs[i := y])"
    using assms(1) by (simp add: vector_at_def VECTOR_LENGTH_def MEMORY_REF_def VECTOR_SET_def)
  fix j assume "j < length (words_at (VECTOR_SET v i y s) (OBJECT_ADDRESS v + 1) (length (xs[i := y])))"
  then have j: "j < length xs" by simp
  then show "words_at (VECTOR_SET v i y s) (OBJECT_ADDRESS v + 1) (length (xs[i := y])) ! j = xs[i := y] ! j"
    using vector_at_ref [OF assms(1) j]
    by (simp add: nth_list_update VECTOR_SET_def VECTOR_REF_def MEMORY_REF_def add.commute)
qed simp

theorem vector_set_correct:
  assumes "p v" "integer_arg s x k" "vector_at s v xs"
  shows "if 0 \<le> k \<and> k < int (length xs)
     then \<exists>s'. VECTOR_SET_PRIMITIVE p v x y s = (Inr UNSPECIFIC, s') \<and> vector_at s' v (xs[nat k := y])
       \<and> (\<forall>a. a \<noteq> OBJECT_ADDRESS v + 1 + nat k \<longrightarrow> mem s' a = mem s a)
     else VECTOR_SET_PRIMITIVE p v x y s = (Inl (Prim_Error (Bad_Range 2)), s)"
  using assms(1) vector_at_bound [OF assms(3)] vector_at_update [OF assms(3), of "nat k" y]
  by (auto simp: VECTOR_SET_PRIMITIVE_def vector_index_correct [OF assms(2,3)] unat_word_index VECTOR_SET_def)

theorem vector_type_errors:
  assumes "\<not> p v"
  shows "VECTOR_REF_PRIMITIVE p v x s = (Inl (Prim_Error (Wrong_Type 1)), s)"
    "VECTOR_SET_PRIMITIVE p v x y s = (Inl (Prim_Error (Wrong_Type 1)), s)"
    "VECTOR_LENGTH_PRIMITIVE p v s = (Inl (Prim_Error (Wrong_Type 1)), s)"
    "SUBVECTOR_TO_LIST_PRIMITIVE p v x y s = (Inl (Prim_Error (Wrong_Type 1)), s)"
  using assms
  by (simp_all add: VECTOR_REF_PRIMITIVE_def VECTOR_SET_PRIMITIVE_def VECTOR_LENGTH_PRIMITIVE_def
      SUBVECTOR_TO_LIST_PRIMITIVE_def)

section \<open>Integer results\<close>

lemma load_stored_bignum:
  assumes "words_at s a (Suc (length (bignum_header b # bignum_digits b))) = vector_layout mty (bignum_header b # bignum_digits b)"
    "OBJECT_ADDRESS v = a" "bignum_wf b"
  shows "load_bignum s v = b"
proof -
  have w: "mem s (Suc a) = bignum_header b" "words_at s (Suc (Suc a)) (length (bignum_digits b)) = bignum_digits b"
    using assms(1) by (simp_all add: words_at_Suc vector_layout_def)
  have len: "unat (bignum_header b AND BIGNUM_DIGIT_MASK) = length (bignum_digits b)"
    using bignum_wf_simps(1) [OF assms(3)] by (simp add: BIGNUM_LENGTH_def)
  have "map (\<lambda>i. VECTOR_REF s v (i + 1)) [0..<length (bignum_digits b)] = bignum_digits b"
    using w(2) assms(2) by (simp add: words_at_def VECTOR_REF_def MEMORY_REF_def add.commute)
  then show ?thesis using w(1) assms(2) len by (simp add: load_bignum_def VECTOR_REF_def MEMORY_REF_def Let_def)
qed

text \<open>Whatever integer is stored, it is read back.\<close>

theorem store_integer_correct:
  assumes "integer_ok n" "room s (integer_digits n + 2)"
  shows "\<exists>p s'. store_integer (Some n) s = (Inr p, s') \<and> load_object s' p = Integer_Object n \<and> unchanged_below (Free s) s s'"
proof (cases n)
  case (Fixnum_Object w) then show ?thesis using assms(1) by (simp add: load_object_def)
next
  case (Bignum_Object b)
  then have b: "bignum_wf b" "BIGNUM_LENGTH b = length (bignum_digits b)" using assms(1) bignum_wf_simps(1) [of b] by simp_all
  then have r: "room s (Suc (Suc (length (bignum_digits b))))" using assms(2) Bignum_Object by simp
  then have "length (bignum_digits b) + 2 < 2 ^ 64" by (simp add: room_def addressable_def)
  then obtain p s' where p: "store_bignum b s = (Inr p, s')" "OBJECT_TYPE p = TC_BIG_FIXNUM" "unchanged_below (Free s) s s'"
    "words_at s' (OBJECT_ADDRESS p) (Suc (Suc (length (bignum_digits b)))) =
       vector_layout TC_MANIFEST_NM_VECTOR (bignum_header b # bignum_digits b)"
    using bignums.made [of b s] r by auto
  then have "load_bignum s' p = b" using b(1) by (intro load_stored_bignum [OF _ refl]) simp_all
  then show ?thesis using p Bignum_Object by (simp add: load_object_def FIXNUM_P_def BIGNUM_P_def)
qed

lemma integer_digits_small: "integer_ok n \<Longrightarrow> \<bar>int_of n\<bar> < 2 ^ 62 \<Longrightarrow> integer_digits n \<le> 1"
proof (cases n)
  case (Bignum_Object b)
  assume n: "integer_ok n" "\<bar>int_of n\<bar> < 2 ^ 62"
  then have w: "bignum_wf b" using Bignum_Object by simp
  show ?thesis
  proof (rule ccontr)
    assume "\<not> integer_digits n \<le> 1"
    then have l: "2 \<le> length (bignum_digits b)" using Bignum_Object bignum_wf_simps(1) [OF w] by simp
    then have "bignum_digits b \<noteq> []" by auto
    then have "(2 ^ 62) ^ (length (bignum_digits b) - 1) \<le> \<bar>bignum_int b\<bar>"
      using digits_normal_lower [OF bignum_wf_simps(4) [OF w]] bignum_wf_simps(9) [OF w] by simp
    moreover have "(2 ^ 62 :: int) ^ 1 \<le> (2 ^ 62) ^ (length (bignum_digits b) - 1)"
      using l by (intro power_increasing) simp_all
    ultimately show False using n(2) Bignum_Object by simp
  qed
qed simp

lemma room_mono: "room s n \<Longrightarrow> m \<le> n \<Longrightarrow> room s m"
  by (auto simp: room_def GC_NEEDED_P_def HEAP_AVAILABLE_P_def intro: addressable_mono)

theorem vector_length_correct:
  assumes "p v" "vector_at s v xs" "room s 5"
  shows "\<exists>x s' n. VECTOR_LENGTH_PRIMITIVE p v s = (Inr x, s') \<and> unchanged_below (Free s) s s'
    \<and> load_object s' x = Integer_Object n \<and> integer_ok n \<and> int_of n = int (length xs)"
proof -
  have "uint (VECTOR_LENGTH s v) = int (length xs)" "length xs < 2 ^ 58"
    using vector_at_length [OF assms(2)] vector_at_bound [OF assms(2)] by simp_all
  then have "sint (VECTOR_LENGTH s v) = int (length xs)" by (simp add: sint_eq_uint64)
  then have d: "delivers (long_to_integer (VECTOR_LENGTH s v)) (int (length xs))" by (rule delivers_long)
  show ?thesis
  proof (cases "long_to_integer (VECTOR_LENGTH s v)")
    case None with d show ?thesis by simp
  next
    case (Some n)
    then have n: "integer_ok n" "int_of n = int (length xs)" using d by simp_all
    have "room s (integer_digits n + 2)" 
      using integer_digits_small [OF n(1)] n(2) \<open>length xs < 2 ^ 58\<close> by (intro room_mono [OF assms(3)]) simp
    then show ?thesis using store_integer_correct [OF n(1)] n Some assms(1) by (fastforce simp: VECTOR_LENGTH_PRIMITIVE_def)
  qed
qed

section \<open>Vectors and lists\<close>

lemma subvector_scan_list:
  assumes "scan + Suc n \<le> Free s" "addressable (Free s + 2 * Suc n)"
  shows "let s' = subvector_scan n scan (Free s) s
     in list_at s' (Free s') (MAKE_POINTER_OBJECT TC_LIST (Free s)) (words_at s scan (Suc n))
      \<and> Free s' = Free s + 2 * Suc n \<and> unchanged_below (Free s) s s'"
  using assms
proof (induction n arbitrary: scan s)
  case 0
  then have "addressable (Free s)" by (auto intro: addressable_mono)
  then show ?case using 0 by (auto simp: Let_def words_at_Suc PAIR_P_def unchanged_below_def)
next
  case (Suc n)
  let ?s = "write_word (Free s + 1) (MAKE_POINTER_OBJECT TC_LIST (Free s + 2))
      (write_word (Free s) (mem s scan) (s\<lparr>Free := Free s + 2\<rparr>))"
  let ?s' = "subvector_scan n (scan + 1) (Free ?s) ?s"
  have a: "addressable (Free s)" "addressable (Free s + 2)" using Suc.prems(2) by (auto elim: addressable_mono)
  have IH: "list_at ?s' (Free ?s') (MAKE_POINTER_OBJECT TC_LIST (Free ?s)) (words_at ?s (scan + 1) (Suc n))"
    "Free ?s' = Free s + 2 * Suc (Suc n)" "unchanged_below (Free ?s) ?s ?s'"
  proof -
    have "scan + 1 + Suc n \<le> Free ?s" "addressable (Free ?s + 2 * Suc n)" using Suc.prems by simp_all
    note * = Suc.IH [OF this, unfolded Let_def]
    show "list_at ?s' (Free ?s') (MAKE_POINTER_OBJECT TC_LIST (Free ?s)) (words_at ?s (scan + 1) (Suc n))"
      "unchanged_below (Free ?s) ?s ?s'" using * by blast+
    show "Free ?s' = Free s + 2 * Suc (Suc n)" using * by simp
  qed
  have w: "words_at ?s (scan + 1) (Suc n) = words_at s (scan + 1) (Suc n)"
    using Suc.prems(1) by (intro words_at_cong) auto
  have m: "mem ?s' (Free s) = mem s scan" "mem ?s' (Suc (Free s)) = MAKE_POINTER_OBJECT TC_LIST (Free s + 2)"
    using IH(3) by (auto simp: unchanged_below_def)
  have "unchanged_below (Free s) s ?s'" using IH(3) by (auto simp: unchanged_below_def)
  moreover have "subvector_scan (Suc n) scan (Free s) s = ?s'" by (simp add: Let_def)
  ultimately show ?case
    using IH(1,2) m a w Suc.prems(1) words_at_Suc [of s scan "Suc n"] by (simp add: Let_def PAIR_P_def)
qed

lemma words_at_split: "m \<le> n \<Longrightarrow> words_at s (a + m) (n - m) = drop m (words_at s a n)"
  by (rule nth_equalityI) (auto simp: add.assoc)

lemma take_words_at: "m \<le> n \<Longrightarrow> take m (words_at s a n) = words_at s a m"
  by (rule nth_equalityI) auto

lemma vector_at_words:
  assumes "vector_at s v xs" "i \<le> j" "j \<le> length xs"
  shows "words_at s (VECTOR_LOC v i) (j - i) = take (j - i) (drop i xs)"
proof -
  have "drop i xs = words_at s (OBJECT_ADDRESS v + 1 + i) (length xs - i)"
    using assms words_at_split [of i "length xs" s "OBJECT_ADDRESS v + 1"] by (simp add: vector_at_def)
  then show ?thesis using assms take_words_at [of "j - i" "length xs - i" s "OBJECT_ADDRESS v + 1 + i"]
    by (simp add: VECTOR_LOC_def add.commute add.left_commute)
qed

text \<open>What an allocation does not change besides the words below: the limits and the interrupt mask.\<close>

definition same_limits :: "machine \<Rightarrow> machine \<Rightarrow> bool" where
  "same_limits s s' \<longleftrightarrow> heap_start s' = heap_start s \<and> heap_alloc_limit s' = heap_alloc_limit s \<and> int_mask s' = int_mask s"

lemma room_later: "room s (m + Suc n) \<Longrightarrow> same_limits s s' \<Longrightarrow> Free s' = Free s + m \<Longrightarrow> room s' (Suc n)"
  by (auto simp: room_def same_limits_def GC_NEEDED_P_def HEAP_AVAILABLE_P_def FREE_OK_P_def GC_ENABLED_P_def add.assoc)

lemma subvector_scan_limits: "same_limits s (subvector_scan n scan pair_scan s)"
proof (induction n arbitrary: scan pair_scan s)
  case 0 then show ?case by (simp add: same_limits_def Let_def)
next
  case (Suc n)
  show ?case using Suc [of "write_word (pair_scan + 1) (MAKE_POINTER_OBJECT TC_LIST (Free s + 2))
      (write_word pair_scan (mem s scan) (s\<lparr>Free := Free s + 2\<rparr>))" "scan + 1" "pair_scan + 2"]
    by (simp add: same_limits_def Let_def)
qed

lemma subvector_to_list_correct:
  assumes "vector_at s v xs" "i \<le> j" "j \<le> length xs" "room s (2 * (j - i))" "OBJECT_ADDRESS v + length xs < Free s"
  shows "\<exists>l s'. subvector_to_list v i j s = (Inr l, s') \<and> list_at s' (Free s') l (take (j - i) (drop i xs))
    \<and> Free s' = Free s + 2 * (j - i) \<and> same_limits s s' \<and> unchanged_below (Free s) s s'"
proof (cases "i = j")
  case False
  then obtain n where n: "j - i = Suc n" using assms(2) by (cases "j - i") auto
  then have "j - 1 - i = n" by simp
  moreover have "VECTOR_LOC v i + Suc n \<le> Free s" using assms(3,5) n by (simp add: VECTOR_LOC_def)
  moreover have "addressable (Free s + 2 * Suc n)" using assms(4) n by (simp add: room_def)
  moreover have "subvector_to_list v i j s =
      (Inr (MAKE_POINTER_OBJECT TC_LIST (Free s)), subvector_scan (j - 1 - i) (VECTOR_LOC v i) (Free s) s)"
    using False room_allocates [OF assms(4)] by (simp add: subvector_to_list_def andthen_def)
  ultimately show ?thesis
    using subvector_scan_list [of "VECTOR_LOC v i" n s] subvector_scan_limits [of s n "VECTOR_LOC v i" "Free s"]
      vector_at_words [OF assms(1-3)] n by (metis (no_types))
qed (simp add: subvector_to_list_def same_limits_def)

lemma long_less_words:
  "0 \<le> k \<Longrightarrow> k < 2 ^ 63 \<Longrightarrow> 0 \<le> m \<Longrightarrow> m < 2 ^ 63 \<Longrightarrow> long_less (word_of_int k) (word_of_int m) \<longleftrightarrow> k < m"
  by (simp add: long_less_uint uint_word_of_int_pos)

lemma VECTOR_LENGTH_less:
  assumes "vector_at s v xs" "0 \<le> m" "m < 2 ^ 63"
  shows "long_less (VECTOR_LENGTH s v) (word_of_int m) \<longleftrightarrow> int (length xs) < m"
  using vector_at_length [OF assms(1)] vector_at_bound [OF assms(1)] assms(2,3)
  by (simp add: long_less_uint uint_word_of_int_pos)

text \<open>The arguments of a subvector operation: the end is checked against the length, then the start.\<close>

definition subvector_range :: "ulong list \<Rightarrow> int \<Rightarrow> int \<Rightarrow> bool" where
  "subvector_range xs start end \<longleftrightarrow> 0 \<le> start \<and> start \<le> end \<and> end \<le> int (length xs)"

theorem subvector_to_list_primitive:
  assumes "p v" "vector_at s v xs" "integer_arg s x start" "integer_arg s y end" "subvector_range xs start end"
    "room s (2 * nat (end - start))" "OBJECT_ADDRESS v + length xs < Free s"
  shows "\<exists>l s'. SUBVECTOR_TO_LIST_PRIMITIVE p v x y s = (Inr l, s')
    \<and> list_at s' (Free s') l (take (nat (end - start)) (drop (nat start) xs))
    \<and> Free s' = Free s + 2 * nat (end - start) \<and> same_limits s s' \<and> unchanged_below (Free s) s s'"
proof -
  have b: "0 \<le> start" "start \<le> end" "end \<le> int (length xs)" "end < 2 ^ 58"
    using assms(5) vector_at_bound [OF assms(2)] by (simp_all add: subvector_range_def)
  have a: "nonnegative_arg 2 x s = (Inr (word_of_int start), s)" "nonnegative_arg 3 y s = (Inr (word_of_int end), s)"
    using b by (simp_all add: nonnegative_arg_correct [OF assms(3)] nonnegative_arg_correct [OF assms(4)] accepted_nonnegative_def)
  have "\<not> long_less (VECTOR_LENGTH s v) (word_of_int end)" "\<not> long_less (word_of_int end :: long) (word_of_int start)"
    using b vector_at_bound [OF assms(2)] by (simp_all add: VECTOR_LENGTH_less [OF assms(2)] long_less_words)
  then have "SUBVECTOR_TO_LIST_PRIMITIVE p v x y s = subvector_to_list v (nat start) (nat end) s"
    using assms(1) a b by (simp add: SUBVECTOR_TO_LIST_PRIMITIVE_def unat_word_index)
  moreover have "nat end - nat start = nat (end - start)" using b by simp
  ultimately show ?thesis
    using subvector_to_list_correct [OF assms(2), of "nat start" "nat end"] b assms(6,7) by simp
qed

theorem subvector_to_list_range_errors:
  assumes "p v" "vector_at s v xs" "integer_arg s x start" "integer_arg s y end" "0 \<le> start" "start < 2 ^ 63" "0 \<le> end" "end < 2 ^ 63"
    "\<not> subvector_range xs start end"
  shows "SUBVECTOR_TO_LIST_PRIMITIVE p v x y s =
    (Inl (Prim_Error (Bad_Range (if int (length xs) < end then 3 else 2))), s)"
proof -
  have a: "nonnegative_arg 2 x s = (Inr (word_of_int start), s)" "nonnegative_arg 3 y s = (Inr (word_of_int end), s)"
    using assms by (simp_all add: nonnegative_arg_correct [OF assms(3)] nonnegative_arg_correct [OF assms(4)] accepted_nonnegative_def)
  have "long_less (VECTOR_LENGTH s v) (word_of_int end) \<longleftrightarrow> int (length xs) < end"
    "long_less (word_of_int end :: long) (word_of_int start) \<longleftrightarrow> end < start"
    using assms(5-8) vector_at_bound [OF assms(2)] by (simp_all add: VECTOR_LENGTH_less [OF assms(2)] long_less_words)
  then show ?thesis using assms(1,5,9) a by (auto simp: SUBVECTOR_TO_LIST_PRIMITIVE_def subvector_range_def)
qed

section \<open>From lists to vectors\<close>

lemma GC_NEEDED_push:
  "\<not> GC_NEEDED_P s (Suc n) \<Longrightarrow> \<not> GC_NEEDED_P s 0 \<and> \<not> GC_NEEDED_P (push_free w s) n \<or> n = 0 \<and> \<not> GC_NEEDED_P s 0"
  by (auto simp: GC_NEEDED_P_def HEAP_AVAILABLE_P_def FREE_OK_P_def GC_ENABLED_P_def)

lemma list_scan_step:
  assumes "PAIR_P x" "\<not> GC_NEEDED_P s 0"
  shows "list_scan n c x s =
    list_scan n (c + 1) (PAIR_CDR (push_free (PAIR_CAR s x) s) x) (push_free (PAIR_CAR s x) s)"
  using assms by (subst list_scan.simps) (simp add: Primitive_GC_If_Needed_def Let_def)

lemma list_scan_end: "list_scan n c EMPTY_LIST s = Some (Inr c, s)"
  by (subst list_scan.simps) (simp add: EMPTY_LIST_P_def)

lemma list_scan_list:
  assumes "list_at s b x xs" "b \<le> Free s" "xs = [] \<or> \<not> GC_NEEDED_P s (length xs)"
  shows "list_scan n c x s = Some (Inr (c + of_nat (length xs)), push_words xs s)"
  using assms
proof (induction xs arbitrary: s x c)
  case Nil then show ?case by (simp add: list_scan_end)
next
  case (Cons v vs)
  let ?s = "push_free v s"
  have x: "PAIR_P x" "OBJECT_ADDRESS x + 1 < b" "PAIR_CAR s x = v" "list_at s b (PAIR_CDR s x) vs"
    using Cons.prems(1) by auto
  have gc: "\<not> GC_NEEDED_P s 0" "vs = [] \<or> \<not> GC_NEEDED_P ?s (length vs)"
    using GC_NEEDED_push [of s "length vs" v] Cons.prems(3) by auto
  have "unchanged_below b s ?s" using Cons.prems(2) by (simp add: unchanged_below_def)
  then have "list_at ?s b (PAIR_CDR s x) vs" using x(4) list_at_unchanged by blast
  moreover have "Suc (OBJECT_ADDRESS x) \<noteq> Free s" "PAIR_CDR ?s x = PAIR_CDR s x" using x(2) Cons.prems(2) by simp_all
  ultimately have "list_scan n c x s = Some (Inr (c + 1 + of_nat (length vs)), push_words vs ?s)"
    using list_scan_step [OF x(1) gc(1)] x(3) Cons.IH [of ?s "PAIR_CDR s x" "c + 1"] Cons.prems(2) gc(2) by simp
  then show ?case by (simp add: push_words_Cons add.assoc)
qed

theorem list_to_vector_correct:
  assumes "list_at s (Free s) x xs" "room s (length xs + 1)" "ty < 64"
  shows "\<exists>v s'. list_to_vector ty n x s = Some (Inr v, s') \<and> OBJECT_TYPE v = ty \<and> vector_at s' v xs
    \<and> unchanged_below (Free s) s s'"
proof -
  let ?s = "s\<lparr>Free := Free s + 1\<rparr>"
  have r: "room s (Suc (length xs))" "length xs < 2 ^ 58" using assms(2) room_bound [of s "length xs"] by simp_all
  have gc: "xs = [] \<or> \<not> GC_NEEDED_P ?s (length xs)"
    using r(1) by (cases xs) (auto simp: room_def GC_NEEDED_P_def HEAP_AVAILABLE_P_def FREE_OK_P_def GC_ENABLED_P_def)
  have "unchanged_below (Free s) s ?s" by (simp add: unchanged_below_def)
  then have "list_scan n 0 x ?s = Some (Inr (of_nat (length xs)), push_words xs ?s)"
    using list_scan_list [of ?s "Free s" x xs n 0] list_at_unchanged [OF assms(1)] gc by simp
  moreover have "write_word (Free s) (MAKE_OBJECT TC_MANIFEST_VECTOR (of_nat (length xs))) (push_words xs ?s) =
      push_words (vector_layout TC_MANIFEST_VECTOR xs) s" (is "?l = ?r")
  proof -
    have "mem ?l a = mem ?r a" for a
      by (cases "a = Free s") (auto simp: store_words_def vector_layout_def nth_Cons' not_le)
    then have "mem ?l = mem ?r" by blast
    then show ?thesis by (simp add: push_words_def write_word_def)
  qed
  ultimately have eq: "list_to_vector ty n x s =
      Some (Inr (MAKE_POINTER_OBJECT ty (Free s)), push_words (vector_layout TC_MANIFEST_VECTOR xs) s)"
    by (simp add: list_to_vector_def Let_def)
  have p: "OBJECT_ADDRESS (MAKE_POINTER_OBJECT ty (Free s)) = Free s" "OBJECT_TYPE (MAKE_POINTER_OBJECT ty (Free s)) = ty"
    using r(1) assms(3) by (auto simp: room_def word_less_def intro!: pointer_fields elim: addressable_mono)
  have "vector_at (push_words (vector_layout TC_MANIFEST_VECTOR xs) s) (MAKE_POINTER_OBJECT ty (Free s)) xs"
    using words_at_push_words [of "vector_layout TC_MANIFEST_VECTOR xs" s] r(2) p(1)
    by (intro vector_at_layout [of _ "Free s" xs TC_MANIFEST_VECTOR]) simp_all
  then show ?thesis using eq p by simp
qed

text \<open>An improper list is rejected when its end is reached.\<close>

lemma list_scan_improper: "\<not> PAIR_P x \<Longrightarrow> x \<noteq> EMPTY_LIST \<Longrightarrow> list_scan n c x s = Some (Inl (Prim_Error (Wrong_Type n)), s)"
  by (subst list_scan.simps) (simp add: EMPTY_LIST_P_def)

text \<open>
  With garbage collection enabled the conversion ends on every object, circular lists included: every round
  takes a word of the heap, and a round that finds no word left requests a collection.
\<close>

lemma list_scan_returns: "GC_ENABLED_P s \<Longrightarrow> \<exists>r. list_scan n c x s = Some r"
proof (induction "heap_alloc_limit s - Free s" arbitrary: s c x rule: less_induct)
  case less
  show ?case
  proof (cases "PAIR_P x")
    case False
    then show ?thesis by (subst list_scan.simps) simp
  next
    case pair: True
    show ?thesis
    proof (cases "GC_NEEDED_P s 0")
      case True
      then show ?thesis using pair by (subst list_scan.simps) (simp add: Primitive_GC_If_Needed_def Primitive_GC_def)
    next
      case False
      then have "Free s < heap_alloc_limit s"
        using less.prems by (simp add: GC_NEEDED_P_def HEAP_AVAILABLE_P_def FREE_OK_P_def)
      then have "heap_alloc_limit s - Suc (Free s) < heap_alloc_limit s - Free s" by simp
      then show ?thesis
        using list_scan_step [OF pair False, of n c] less.hyps [of "push_free (PAIR_CAR s x) s"] less.prems
        by (simp add: GC_ENABLED_P_def)
    qed
  qed
qed

theorem list_to_vector_returns: "GC_ENABLED_P s \<Longrightarrow> \<exists>r. list_to_vector ty n x s = Some r"
  using list_scan_returns [of "s\<lparr>Free := Free s + 1\<rparr>" n 0 x] by (auto simp: list_to_vector_def Let_def GC_ENABLED_P_def)

text \<open>The elements of a subvector, listed and collected again.\<close>

theorem subvector_list_vector:
  assumes "VECTOR_P v" "vector_at s v xs" "integer_arg s x start" "integer_arg s y end" "subvector_range xs start end"
    "room s (3 * nat (end - start) + 1)" "OBJECT_ADDRESS v + length xs < Free s"
  shows "\<exists>l s' w s''. Prim_subvector_to_list v x y s = (Inr l, s') \<and> Prim_list_to_vector l s' = Some (Inr w, s'')
    \<and> VECTOR_P w \<and> vector_at s'' w (take (nat (end - start)) (drop (nat start) xs)) \<and> unchanged_below (Free s) s s''"
proof -
  let ?n = "nat (end - start)" and ?ys = "take (nat (end - start)) (drop (nat start) xs)"
  have len: "length ?ys = ?n" using assms(5) by (auto simp: subvector_range_def)
  obtain l s' where l: "Prim_subvector_to_list v x y s = (Inr l, s')" "list_at s' (Free s') l ?ys"
    "Free s' = Free s + 2 * ?n" "same_limits s s'" "unchanged_below (Free s) s s'"
    using subvector_to_list_primitive [of VECTOR_P, OF assms(1-5) room_mono [OF assms(6)] assms(7)]
    by (auto simp: Prim_subvector_to_list_def)
  have "room s (2 * ?n + Suc ?n)" using assms(6) by simp
  then have "room s' (length ?ys + 1)" using room_later [OF _ l(4,3)] len by simp
  then obtain w s'' where w: "Prim_list_to_vector l s' = Some (Inr w, s'')" "OBJECT_TYPE w = TC_VECTOR"
    "vector_at s'' w ?ys" "unchanged_below (Free s') s' s''"
    using list_to_vector_correct [OF l(2), of TC_VECTOR 1] by (auto simp: Prim_list_to_vector_def)
  have "unchanged_below (Free s) s s''" using unchanged_below_trans [OF l(5) w(4)] l(3) by simp
  then show ?thesis using l(1) w by (auto simp: VECTOR_P_def)
qed

section \<open>Moving subvectors\<close>

text \<open>
  The words of the source before the move, copied: what \<open>memmove\<close> does. Moving to the left is
  a copy unless the target starts inside the source, to the right unless it ends inside.
\<close>

definition copied :: "nat \<Rightarrow> nat \<Rightarrow> nat \<Rightarrow> machine \<Rightarrow> machine" where
  "copied n a b s = s\<lparr>mem := store_words b (words_at s a n) (mem s)\<rparr>"

lemma move_left_copies:
  assumes "b \<le> a \<or> a + n \<le> b"
  shows "move_left n a b s = copied n a b s"
  using assms
proof (induction n arbitrary: a b s)
  case 0 then show ?case by (simp add: copied_def)
next
  case (Suc n)
  let ?s = "write_word b (mem s a) s"
  have "words_at ?s (Suc a) n = words_at s (Suc a) n" using Suc.prems by (intro words_at_cong) auto
  moreover have "move_left n (Suc a) (Suc b) ?s = copied n (Suc a) (Suc b) ?s" using Suc.prems by (intro Suc.IH) auto
  ultimately show ?case by (simp add: copied_def words_at_Suc store_words_Cons write_word_def)
qed

lemma words_at_snoc: "words_at s a (Suc n) = words_at s a n @ [mem s (a + n)]"
  by (simp add: words_at_def)

lemma store_words_snoc: "store_words b (ws @ [w]) m = store_words b ws (m(b + length ws := w))"
proof
  fix x show "store_words b (ws @ [w]) m x = store_words b ws (m(b + length ws := w)) x"
    by (auto simp: store_words_def nth_append)
qed

lemma move_right_copies:
  assumes "a \<le> b \<or> b + n \<le> a"
  shows "move_right n (a + n) (b + n) s = copied n a b s"
  using assms
proof (induction n arbitrary: s)
  case 0 then show ?case by (simp add: copied_def)
next
  case (Suc n)
  let ?s = "write_word (b + n) (mem s (a + n)) s"
  have "words_at ?s a n = words_at s a n" using Suc.prems by (intro words_at_cong) auto
  moreover have "move_right n (a + n) (b + n) ?s = copied n a b ?s" using Suc.prems by (intro Suc.IH) auto
  ultimately show ?case by (simp add: copied_def words_at_snoc store_words_snoc write_word_def)
qed

lemma fill_words_eq: "fill_words n v a s = s\<lparr>mem := store_words a (replicate n v) (mem s)\<rparr>"
  by (induction n arbitrary: a s) (simp_all add: store_words_Cons write_word_def)

text \<open>Words stored inside a vector replace that part of it.\<close>

lemma vector_at_store:
  assumes "vector_at s v xs" "i + length ws \<le> length xs"
  shows "vector_at (s\<lparr>mem := store_words (VECTOR_LOC v i) ws (mem s)\<rparr>) v (take i xs @ ws @ drop (i + length ws) xs)"
    (is "vector_at ?s v ?xs")
  unfolding vector_at_def
proof (intro conjI nth_equalityI)
  have len: "length ?xs = length xs" using assms(2) by simp
  show "unat (VECTOR_LENGTH ?s v) = length ?xs"
    using assms(1) len by (simp add: vector_at_def VECTOR_LENGTH_def MEMORY_REF_def store_words_def VECTOR_LOC_def)
  show "length (words_at ?s (OBJECT_ADDRESS v + 1) (length ?xs)) = length ?xs" by simp
  fix j assume "j < length (words_at ?s (OBJECT_ADDRESS v + 1) (length ?xs))"
  then have j: "j < length xs" using len by simp
  then have "words_at ?s (OBJECT_ADDRESS v + 1) (length ?xs) ! j = mem ?s (OBJECT_ADDRESS v + 1 + j)" using len by simp
  also have "\<dots> = ?xs ! j"
    using vector_at_ref [OF assms(1) j] assms(2) j
    by (auto simp: store_words_def VECTOR_LOC_def VECTOR_REF_def MEMORY_REF_def nth_append min_def)
  finally show "words_at ?s (OBJECT_ADDRESS v + 1) (length ?xs) ! j = ?xs ! j" .
qed

lemma move_prefix_correct:
  assumes "VECTOR_P v" "VECTOR_P w" "vector_at s v xs" "vector_at s w ys"
    and "integer_arg s x start1" "integer_arg s y end1" "integer_arg s z start2"
    and "subvector_range xs start1 end1" "0 \<le> start2" "start2 + (end1 - start1) \<le> int (length ys)"
  shows "SUBVECTOR_MOVE_PREFIX v x y w z body s =
    body (word_of_int start1) (word_of_int end1) (word_of_int start2) (word_of_int (start2 + (end1 - start1)))
      (word_of_int (end1 - start1)) s"
proof -
  have b: "0 \<le> start1" "start1 \<le> end1" "end1 \<le> int (length xs)" "end1 < 2 ^ 58" "start2 < 2 ^ 58"
    "start2 + (end1 - start1) < 2 ^ 58"
    using assms(8-10) vector_at_bound [OF assms(3)] vector_at_bound [OF assms(4)] by (simp_all add: subvector_range_def)
  have a: "nonnegative_arg 2 x s = (Inr (word_of_int start1), s)" "nonnegative_arg 3 y s = (Inr (word_of_int end1), s)"
    "nonnegative_arg 5 z s = (Inr (word_of_int start2), s)"
    using b assms(9) by (simp_all add: nonnegative_arg_correct [OF assms(5)] nonnegative_arg_correct [OF assms(6)]
        nonnegative_arg_correct [OF assms(7)] accepted_nonnegative_def)
  have c: "\<not> long_less (VECTOR_LENGTH s v) (word_of_int end1)" "\<not> long_less (word_of_int end1 :: long) (word_of_int start1)"
    using b by (simp_all add: VECTOR_LENGTH_less [OF assms(3)] long_less_words)
  moreover have "\<not> long_less (VECTOR_LENGTH s w) (word_of_int e)" if "e = start2 + (end1 - start1)" for e
  proof -
    have "0 \<le> e" "e < 2 ^ 63" "\<not> int (length ys) < e" using that b assms(9,10) by simp_all
    then show ?thesis using VECTOR_LENGTH_less [OF assms(4)] by blast
  qed
  note this [OF refl]
  ultimately show ?thesis using assms(1,2) a by (simp add: SUBVECTOR_MOVE_PREFIX_def Let_def algebra_simps)
qed

text \<open>
  Both moves are \<open>memmove\<close> in their direction: the target receives the old elements of the
  source, also where the two overlap, and nothing else changes.
\<close>

lemma moved_vector:
  assumes "vector_at s v xs" "vector_at s w ys" "subvector_range xs start1 end1" "0 \<le> start2"
    "start2 + (end1 - start1) \<le> int (length ys)"
  defines "n \<equiv> nat (end1 - start1)"
  shows "vector_at (copied n (VECTOR_LOC v (nat start1)) (VECTOR_LOC w (nat start2)) s) w
     (take (nat start2) ys @ take n (drop (nat start1) xs) @ drop (nat start2 + n) ys)"
proof -
  have b: "nat start1 \<le> nat end1" "nat end1 \<le> length xs" "nat end1 - nat start1 = n" "nat start2 + n \<le> length ys"
    using assms by (auto simp: subvector_range_def n_def)
  have len: "length (take n (drop (nat start1) xs)) = n" using b by simp
  show ?thesis
    using vector_at_store [OF assms(2), of "nat start2" "take n (drop (nat start1) xs)"] vector_at_words [OF assms(1) b(1,2)] b(3,4) len
    by (simp add: copied_def)
qed

theorem subvector_move_left_correct:
  assumes "VECTOR_P v" "VECTOR_P w" "vector_at s v xs" "vector_at s w ys"
    and "integer_arg s x start1" "integer_arg s y end1" "integer_arg s z start2"
    and "subvector_range xs start1 end1" "0 \<le> start2" "start2 + (end1 - start1) \<le> int (length ys)"
    and "VECTOR_LOC w (nat start2) \<le> VECTOR_LOC v (nat start1) \<or> VECTOR_LOC v (nat end1) \<le> VECTOR_LOC w (nat start2)"
  shows "Prim_subvector_move_left v x y w z s =
    (Inr UNSPECIFIC, copied (nat (end1 - start1)) (VECTOR_LOC v (nat start1)) (VECTOR_LOC w (nat start2)) s)"
proof -
  have b: "0 \<le> start1" "start1 < 2 ^ 58" "start2 < 2 ^ 58" "0 \<le> end1 - start1" "end1 - start1 < 2 ^ 58"
    using assms(8-10) vector_at_bound [OF assms(3)] vector_at_bound [OF assms(4)] by (simp_all add: subvector_range_def)
  have "VECTOR_LOC v (nat end1) = VECTOR_LOC v (nat start1) + nat (end1 - start1)"
    using assms(8) by (auto simp: VECTOR_LOC_def subvector_range_def)
  then show ?thesis
    using move_left_copies [of "VECTOR_LOC w (nat start2)" "VECTOR_LOC v (nat start1)" "nat (end1 - start1)" s] assms(11)
      b assms(9) unat_word_index [of start1] unat_word_index [of start2] unat_word_index [of "end1 - start1"]
    by (simp add: Prim_subvector_move_left_def move_prefix_correct [OF assms(1-10)])
qed

theorem subvector_move_right_correct:
  assumes "VECTOR_P v" "VECTOR_P w" "vector_at s v xs" "vector_at s w ys"
    and "integer_arg s x start1" "integer_arg s y end1" "integer_arg s z start2"
    and "subvector_range xs start1 end1" "0 \<le> start2" "start2 + (end1 - start1) \<le> int (length ys)"
    and "VECTOR_LOC v (nat start1) \<le> VECTOR_LOC w (nat start2) \<or>
      VECTOR_LOC w (nat (start2 + (end1 - start1))) \<le> VECTOR_LOC v (nat start1)"
  shows "Prim_subvector_move_right v x y w z s =
    (Inr UNSPECIFIC, copied (nat (end1 - start1)) (VECTOR_LOC v (nat start1)) (VECTOR_LOC w (nat start2)) s)"
proof -
  let ?n = "nat (end1 - start1)"
  have b: "0 \<le> end1" "end1 < 2 ^ 58" "0 \<le> start2 + (end1 - start1)" "start2 + (end1 - start1) < 2 ^ 58"
    "0 \<le> end1 - start1" "end1 - start1 < 2 ^ 58"
    using assms(8-10) vector_at_bound [OF assms(3)] vector_at_bound [OF assms(4)] by (simp_all add: subvector_range_def)
  have e: "VECTOR_LOC v (nat end1) = VECTOR_LOC v (nat start1) + ?n"
    "VECTOR_LOC w (nat (start2 + (end1 - start1))) = VECTOR_LOC w (nat start2) + ?n"
    using assms(8,9) by (auto simp: VECTOR_LOC_def subvector_range_def)
  show ?thesis
    using move_right_copies [of "VECTOR_LOC v (nat start1)" "VECTOR_LOC w (nat start2)" ?n s] assms(11) e
      unat_word_index [OF b(1,2)] unat_word_index [OF b(3,4)] unat_word_index [OF b(5,6)]
    unfolding Prim_subvector_move_right_def move_prefix_correct [OF assms(1-10)] by simp
qed

text \<open>
  The bound of the target is checked on the sum \<open>start2 + length\<close> of two \<open>long\<close>s: where it
  exceeds a \<open>long\<close> it wraps to a negative number and the check passes.
\<close>

theorem subvector_move_overflow:
  assumes "VECTOR_P v" "VECTOR_P w" "vector_at s v xs" "vector_at s w ys"
    and "integer_arg s x start1" "integer_arg s y end1" "integer_arg s z start2"
    and "subvector_range xs start1 end1" "0 \<le> start2" "start2 < 2 ^ 63" "2 ^ 63 \<le> start2 + (end1 - start1)"
  shows "\<exists>s'. Prim_subvector_move_left v x y w z s = (Inr UNSPECIFIC, s')"
proof -
  have b: "0 \<le> start1" "start1 \<le> end1" "end1 \<le> int (length xs)" "end1 < 2 ^ 58"
    using assms(8) vector_at_bound [OF assms(3)] by (simp_all add: subvector_range_def)
  have a: "nonnegative_arg 2 x s = (Inr (word_of_int start1), s)" "nonnegative_arg 3 y s = (Inr (word_of_int end1), s)"
    "nonnegative_arg 5 z s = (Inr (word_of_int start2), s)"
    using b assms(9,10) by (simp_all add: nonnegative_arg_correct [OF assms(5)] nonnegative_arg_correct [OF assms(6)]
        nonnegative_arg_correct [OF assms(7)] accepted_nonnegative_def)
  have c: "\<not> long_less (VECTOR_LENGTH s v) (word_of_int end1)" "\<not> long_less (word_of_int end1 :: long) (word_of_int start1)"
    using b by (simp_all add: VECTOR_LENGTH_less [OF assms(3)] long_less_words)
  have "\<not> long_less (VECTOR_LENGTH s w) (word_of_int e)" if "e = start2 + (end1 - start1)" for e
  proof -
    have "uint (word_of_int e :: long) = e" using that b assms(9-11) by (intro uint_word_of_int_pos) simp_all
    then have "sint (word_of_int e :: long) < 0" using that b assms(10,11) by (simp add: sint_cases64)
    moreover have "0 \<le> sint (VECTOR_LENGTH s w)" using VECTOR_LENGTH_bound [of s w] by (simp add: sint_eq_uint64)
    ultimately show ?thesis by (simp add: word_sless_alt)
  qed
  note this [OF refl]
  then show ?thesis
    using assms(1,2) a c by (simp add: Prim_subvector_move_left_def SUBVECTOR_MOVE_PREFIX_def Let_def algebra_simps)
qed

theorem vector_fill_correct:
  assumes "VECTOR_P v" "vector_at s v xs" "integer_arg s x start" "integer_arg s y end" "subvector_range xs start end"
  shows "\<exists>s'. Prim_vector_fill v x y fill s = (Inr UNSPECIFIC, s')
    \<and> vector_at s' v (take (nat start) xs @ replicate (nat (end - start)) fill @ drop (nat end) xs)"
proof -
  have b: "0 \<le> start" "start \<le> end" "end \<le> int (length xs)" "end < 2 ^ 58" "start < 2 ^ 58" "0 \<le> end - start" "end - start < 2 ^ 58"
    using assms(5) vector_at_bound [OF assms(2)] by (simp_all add: subvector_range_def)
  have a: "nonnegative_arg 2 x s = (Inr (word_of_int start), s)" "nonnegative_arg 3 y s = (Inr (word_of_int end), s)"
    using b by (simp_all add: nonnegative_arg_correct [OF assms(3)] nonnegative_arg_correct [OF assms(4)] accepted_nonnegative_def)
  have c: "\<not> long_less (VECTOR_LENGTH s v) (word_of_int end)" "\<not> long_less (word_of_int end :: long) (word_of_int start)"
    using b by (simp_all add: VECTOR_LENGTH_less [OF assms(2)] long_less_words)
  have "nat start + length (replicate (nat (end - start)) fill) = nat end" using b by simp
  then show ?thesis
    using assms(1) a c b unat_word_index [OF b(6,7)] unat_word_index [OF b(1,5)]
      vector_at_store [OF assms(2), of "nat start" "replicate (nat (end - start)) fill"]
    by (simp add: Prim_vector_fill_def fill_words_eq)
qed

end
