(* ===== verification/Byte_Prims.thy ===== *)
theory Byte_Prims
  imports Vector_Correct
begin

text \<open>
  Bytes in memory, and the primitives on bytevectors and characters
  (\<open>microcode/bytevector.c\<close>, \<open>char.c\<close>, \<open>object.h\<close>, \<open>sdata.h\<close>). A byte address counts the bytes
  from \<open>memory_base\<close>; the machine is little-endian, so that byte \<open>8 * a + i\<close> is bits \<open>8 * i\<close> to
  \<open>8 * i + 7\<close> of word \<open>a\<close>.
\<close>

section \<open>Bytes\<close>

type_synonym byte = "8 word"

definition read_byte :: "machine \<Rightarrow> nat \<Rightarrow> byte" where
  "read_byte s b = ucast (drop_bit (8 * (b mod 8)) (mem s (b div 8)))"

definition write_byte :: "nat \<Rightarrow> byte \<Rightarrow> machine \<Rightarrow> machine" where
  "write_byte b v s =
     (let w = mem s (b div 8); i = 8 * (b mod 8)
      in write_word (b div 8) (w AND NOT (push_bit i 0xFF) OR push_bit i (ucast v)) s)"

text \<open>\<open>memcpy\<close> and \<open>memset\<close> go byte by byte; \<open>memmove\<close> reads all bytes before it writes.\<close>

primrec write_bytes :: "nat \<Rightarrow> byte list \<Rightarrow> machine \<Rightarrow> machine" where
  "write_bytes b [] s = s"
| "write_bytes b (v # vs) s = write_bytes (b + 1) vs (write_byte b v s)"

definition read_bytes :: "machine \<Rightarrow> nat \<Rightarrow> nat \<Rightarrow> byte list" where
  "read_bytes s b n = map (\<lambda>i. read_byte s (b + i)) [0..<n]"

primrec memcpy :: "nat \<Rightarrow> nat \<Rightarrow> nat \<Rightarrow> machine \<Rightarrow> machine" where
  "memcpy to src 0 s = s"
| "memcpy to src (Suc n) s = memcpy (to + 1) (src + 1) n (write_byte to (read_byte s src) s)"

definition memset :: "nat \<Rightarrow> byte \<Rightarrow> nat \<Rightarrow> machine \<Rightarrow> machine" where
  "memset b v n s = write_bytes b (replicate n v) s"

definition memmove :: "nat \<Rightarrow> nat \<Rightarrow> nat \<Rightarrow> machine \<Rightarrow> machine" where
  "memmove to src n s = write_bytes to (read_bytes s src n) s"

lemma write_byte_simps [simp]:
  "Free (write_byte b v s) = Free s" "heap_start (write_byte b v s) = heap_start s"
  "heap_end (write_byte b v s) = heap_end s" "heap_alloc_limit (write_byte b v s) = heap_alloc_limit s"
  "Free_primitive (write_byte b v s) = Free_primitive s" "int_mask (write_byte b v s) = int_mask s"
  "int_code (write_byte b v s) = int_code s" "gc_space_needed (write_byte b v s) = gc_space_needed s"
  "fixed_objects (write_byte b v s) = fixed_objects s"
  by (simp_all add: write_byte_def Let_def)

lemma mem_write_byte: "a \<noteq> b div 8 \<Longrightarrow> mem (write_byte b v s) a = mem s a"
  by (simp add: write_byte_def Let_def)

lemma read_write_byte: "read_byte (write_byte b v s) c = (if c = b then v else read_byte s c)"
proof (cases "c div 8 = b div 8")
  case False
  then have "c \<noteq> b" by auto
  then show ?thesis using False by (simp add: read_byte_def mem_write_byte)
next
  case True
  let ?w = "mem s (b div 8)" and ?i = "8 * (b mod 8)" and ?j = "8 * (c mod 8)"
  have word: "mem (write_byte b v s) (c div 8) = ?w AND NOT (push_bit ?i 0xFF) OR push_bit ?i (ucast v)"
    using True by (simp add: write_byte_def Let_def)
  have mask: "(0xFF :: ulong) = mask 8" by (simp add: mask_eq_exp_minus_1)
  have j: "?j + n < 64" if "n < 8" for n using that mod_less_divisor [of 8 c] by linarith
  show ?thesis
  proof (cases "c = b")
    case True
    show ?thesis unfolding read_byte_def word mask
      by (rule bit_word_eqI) (use True j in \<open>auto simp: bit_simps\<close>)
  next
    case False
    then have "c mod 8 \<noteq> b mod 8" using True by (metis div_mult_mod_eq)
    then have away: "?j + n < ?i \<or> ?i + 8 \<le> ?j + n" if "n < 8" for n using that by linarith
    show ?thesis unfolding read_byte_def word mask
    proof (rule bit_word_eqI)
      fix n assume "n < LENGTH(8)"
      then have n: "n < 8" by simp
      show "bit (ucast (drop_bit ?j (?w AND NOT (push_bit ?i (mask 8)) OR push_bit ?i (ucast v))) :: byte) n
          = bit (if c = b then v else ucast (drop_bit ?j (mem s (c div 8)))) n"
        using away [OF n] j [OF n] n False True by (auto simp: bit_simps dest: bit_imp_le_length)
    qed
  qed
qed

lemma write_bytes_simps [simp]:
  "Free (write_bytes b vs s) = Free s" "heap_start (write_bytes b vs s) = heap_start s"
  "heap_end (write_bytes b vs s) = heap_end s" "heap_alloc_limit (write_bytes b vs s) = heap_alloc_limit s"
  "Free_primitive (write_bytes b vs s) = Free_primitive s" "int_mask (write_bytes b vs s) = int_mask s"
  "int_code (write_bytes b vs s) = int_code s" "gc_space_needed (write_bytes b vs s) = gc_space_needed s"
  "fixed_objects (write_bytes b vs s) = fixed_objects s"
  by (induction vs arbitrary: b s) simp_all

lemma read_write_bytes:
  "read_byte (write_bytes b vs s) c = (if b \<le> c \<and> c < b + length vs then vs ! (c - b) else read_byte s c)"
proof (induction vs arbitrary: b s)
  case (Cons v vs)
  show ?case
    by (auto simp: Cons.IH read_write_byte nth_Cons' Suc_le_eq)
qed auto

lemma mem_write_bytes:
  "(\<And>c. c < length vs \<Longrightarrow> a \<noteq> (b + c) div 8) \<Longrightarrow> mem (write_bytes b vs s) a = mem s a"
proof (induction vs arbitrary: b s)
  case (Cons v vs)
  have "a \<noteq> (b + 1 + c) div 8" if "c < length vs" for c using Cons.prems [of "Suc c"] that by simp
  moreover have "a \<noteq> b div 8" using Cons.prems [of 0] by simp
  ultimately show ?case by (simp add: Cons.IH mem_write_byte)
qed simp

lemma memcpy_disjoint:
  "src + n \<le> to \<or> to + n \<le> src \<Longrightarrow> memcpy to src n s = write_bytes to (read_bytes s src n) s"
proof (induction n arbitrary: to src s)
  case (Suc n)
  let ?s = "write_byte to (read_byte s src) s"
  have "read_bytes ?s (src + 1) n = read_bytes s (src + 1) n"
    unfolding read_bytes_def by (rule map_cong) (use Suc.prems in \<open>auto simp: read_write_byte\<close>)
  moreover have "read_bytes s src (Suc n) = read_byte s src # read_bytes s (src + 1) n"
    by (simp add: read_bytes_def upt_conv_Cons map_Suc_upt [symmetric] del: upt_Suc)
  ultimately show ?case using Suc.IH [of "src + 1" "to + 1" ?s] Suc.prems by auto
qed (simp add: read_bytes_def)

lemma length_read_bytes [simp]: "length (read_bytes s b n) = n"
  by (simp add: read_bytes_def)

lemma nth_read_bytes [simp]: "i < n \<Longrightarrow> read_bytes s b n ! i = read_byte s (b + i)"
  by (simp add: read_bytes_def)

text \<open>Moving bytes copies what the source held before, also where the two ranges overlap.\<close>

theorem read_memmove:
  "read_byte (memmove to src n s) c = (if to \<le> c \<and> c < to + n then read_byte s (src + (c - to)) else read_byte s c)"
  by (auto simp: memmove_def read_write_bytes)

section \<open>Bytevectors\<close>

definition BYTEVECTOR_P :: "ulong \<Rightarrow> bool" where "BYTEVECTOR_P x = (OBJECT_TYPE x = TC_BYTEVECTOR)"
definition CHARACTER_P :: "ulong \<Rightarrow> bool" where "CHARACTER_P x = (OBJECT_TYPE x = TC_CHARACTER)"

definition BYTEVECTOR_HEADER :: nat where [simp]: "BYTEVECTOR_HEADER = 0"
definition BYTEVECTOR_LENGTH_INDEX :: nat where [simp]: "BYTEVECTOR_LENGTH_INDEX = 1"
definition BYTEVECTOR_LENGTH_SIZE :: ulong where [simp]: "BYTEVECTOR_LENGTH_SIZE = 1"
definition BYTEVECTOR_DATA :: nat where [simp]: "BYTEVECTOR_DATA = 2"

definition BYTEVECTOR_LENGTH :: "machine \<Rightarrow> ulong \<Rightarrow> ulong" where
  "BYTEVECTOR_LENGTH s v = OBJECT_DATUM (MEMORY_REF s v BYTEVECTOR_LENGTH_INDEX)"
definition SET_BYTEVECTOR_LENGTH :: "ulong \<Rightarrow> ulong \<Rightarrow> machine \<Rightarrow> machine" where
  "SET_BYTEVECTOR_LENGTH v n_bytes = MEMORY_SET v BYTEVECTOR_LENGTH_INDEX (MAKE_OBJECT 0 n_bytes)"
definition BYTEVECTOR_POINTER :: "ulong \<Rightarrow> nat" where
  "BYTEVECTOR_POINTER v = 8 * (OBJECT_ADDRESS v + BYTEVECTOR_DATA)"

text \<open>\<open>BYTES_TO_WORDS\<close> on an \<open>unsigned long\<close>.\<close>

definition bytes_to_words :: "ulong \<Rightarrow> ulong" where
  "bytes_to_words nbytes = (nbytes + (8 - 1)) div 8"

definition arg_bytevector :: "nat \<Rightarrow> ulong \<Rightarrow> (nat \<times> ulong) action" where
  "arg_bytevector n x = CHECK_ARG n BYTEVECTOR_P x (reading (\<lambda>s. (BYTEVECTOR_POINTER x, BYTEVECTOR_LENGTH s x)))"

definition FIXNUM_TO_ULONG_P :: "ulong \<Rightarrow> bool" where
  "FIXNUM_TO_ULONG_P x = (OBJECT_DATUM x AND SIGN_MASK = 0)"

definition arg_byte :: "nat \<Rightarrow> ulong \<Rightarrow> byte action" where
  "arg_byte n x = CHECK_ARG n FIXNUM_P x
     (if \<not> FIXNUM_TO_ULONG_P x then error_bad_range_arg n
      else let v = OBJECT_DATUM x in if v \<ge> 0x100 then error_bad_range_arg n else give (ucast v))"

definition allocate_bytevector :: "ulong \<Rightarrow> ulong action" where
  "allocate_bytevector nbytes =
     andthen (allocate_non_marked_vector TC_BYTEVECTOR (bytes_to_words (nbytes + 1) + BYTEVECTOR_LENGTH_SIZE) True)
       (\<lambda>result s. (Inr result, write_byte (BYTEVECTOR_POINTER result + unat nbytes) 0 (SET_BYTEVECTOR_LENGTH result nbytes s)))"

definition memory_to_bytevector :: "ulong \<Rightarrow> nat \<Rightarrow> ulong action" where
  "memory_to_bytevector n_bytes vp =
     andthen (allocate_bytevector n_bytes) (\<lambda>result s. (Inr result, memcpy (BYTEVECTOR_POINTER result) vp (unat n_bytes) s))"

definition Prim_allocate_bytevector :: "ulong \<Rightarrow> ulong action" where
  "Prim_allocate_bytevector x = andthen (ulong_arg 1 x) allocate_bytevector"

definition Prim_bytevector_p :: "ulong \<Rightarrow> ulong action" where
  "Prim_bytevector_p x = give (BOOLEAN_TO_OBJECT (BYTEVECTOR_P x))"

definition Prim_bytevector_length :: "ulong \<Rightarrow> ulong action" where
  "Prim_bytevector_length x =
     CHECK_ARG 1 BYTEVECTOR_P x (\<lambda>s. store_integer (ulong_to_integer (BYTEVECTOR_LENGTH s x)) s)"

definition Prim_bytevector_u8_ref :: "ulong \<Rightarrow> ulong \<Rightarrow> ulong action" where
  "Prim_bytevector_u8_ref x y =
     andthen (arg_bytevector 1 x) (\<lambda>(v, len).
     andthen (ulong_index_arg 2 y len) (\<lambda>index s. store_integer (ulong_to_integer (ucast (read_byte s (v + unat index)))) s))"

definition Prim_bytevector_u8_set :: "ulong \<Rightarrow> ulong \<Rightarrow> ulong \<Rightarrow> ulong action" where
  "Prim_bytevector_u8_set x y z =
     andthen (arg_bytevector 1 x) (\<lambda>(v, len).
     andthen (ulong_index_arg 2 y len) (\<lambda>index.
     andthen (arg_byte 3 z) (\<lambda>b. updating (write_byte (v + unat index) b))))"

definition Prim_bytevector_fill :: "ulong \<Rightarrow> ulong \<Rightarrow> ulong \<Rightarrow> ulong \<Rightarrow> ulong action" where
  "Prim_bytevector_fill x1 x2 x3 x4 =
     andthen (arg_bytevector 1 x1) (\<lambda>(v, len).
     andthen (arg_byte 2 x2) (\<lambda>b.
     andthen (ulong_index_arg 4 x4 (len + 1)) (\<lambda>end_index.
     andthen (ulong_index_arg 3 x3 (end_index + 1)) (\<lambda>start.
       updating (memset (v + unat start) b (unat (end_index - start)))))))"

definition Prim_bytevector_copy :: "ulong \<Rightarrow> ulong \<Rightarrow> ulong \<Rightarrow> ulong action" where
  "Prim_bytevector_copy x1 x2 x3 =
     andthen (arg_bytevector 1 x1) (\<lambda>(v, len).
     andthen (ulong_index_arg 3 x3 (len + 1)) (\<lambda>end_index.
     andthen (ulong_index_arg 2 x2 (end_index + 1)) (\<lambda>start.
       memory_to_bytevector (end_index - start) (v + unat start))))"

definition Prim_bytevector_copyx :: "ulong \<Rightarrow> ulong \<Rightarrow> ulong \<Rightarrow> ulong \<Rightarrow> ulong \<Rightarrow> ulong action" where
  "Prim_bytevector_copyx x1 x2 x3 x4 x5 =
     andthen (arg_bytevector 1 x1) (\<lambda>(to_v, to_length).
     andthen (ulong_index_arg 2 x2 (to_length + 1)) (\<lambda>to_start.
     andthen (arg_bytevector 3 x3) (\<lambda>(from_v, from_length).
     andthen (ulong_index_arg 5 x5 (from_length + 1)) (\<lambda>from_end.
     andthen (ulong_index_arg 4 x4 (from_end + 1)) (\<lambda>from_start.
       let len = from_end - from_start; to_end = to_start + len
       in if to_end > to_length then error_bad_range_arg 5
          else (\<lambda>s. store_integer (ulong_to_integer to_end)
                 (memmove (to_v + unat to_start) (from_v + unat from_start) (unat len) s)))))))"

section \<open>Characters\<close>

definition MAX_ASCII :: ulong where "MAX_ASCII = push_bit 8 1"
definition MAX_CODE :: ulong where "MAX_CODE = push_bit CODE_LENGTH 1"
definition MAX_BITS :: ulong where "MAX_BITS = push_bit BITS_LENGTH 1"
definition MAX_MIT_ASCII :: ulong where "MAX_MIT_ASCII = push_bit 25 1"
definition MASK_MIT_ASCII :: ulong where "MASK_MIT_ASCII = MAX_MIT_ASCII - 1"
definition MASK_ASCII :: ulong where "MASK_ASCII = MAX_ASCII - 1"
definition ASCII_TO_CHAR :: "ulong \<Rightarrow> ulong" where "ASCII_TO_CHAR ascii = MAKE_OBJECT TC_CHARACTER ascii"
definition CHAR_TO_ASCII_P :: "ulong \<Rightarrow> bool" where "CHAR_TO_ASCII_P x = (OBJECT_DATUM x < MAX_ASCII)"
definition CHAR_TO_ASCII :: "ulong \<Rightarrow> ulong" where "CHAR_TO_ASCII x = x AND MASK_ASCII"

definition arg_ascii_char :: "nat \<Rightarrow> ulong \<Rightarrow> ulong action" where
  "arg_ascii_char n x = CHECK_ARG n CHARACTER_P x
     (if \<not> CHAR_TO_ASCII_P x then error_bad_range_arg n else give (CHAR_TO_ASCII x))"

definition arg_ascii_integer :: "nat \<Rightarrow> ulong \<Rightarrow> long action" where
  "arg_ascii_integer n x = index_arg n x MAX_ASCII"

definition Prim_char_p :: "ulong \<Rightarrow> ulong action" where
  "Prim_char_p x = give (BOOLEAN_TO_OBJECT (CHARACTER_P x))"

text \<open>C does not fix which argument is checked first here; the model takes the bits first.\<close>

definition Prim_make_char :: "ulong \<Rightarrow> ulong \<Rightarrow> ulong action" where
  "Prim_make_char x y =
     andthen (index_arg 2 y MAX_BITS) (\<lambda>bits. andthen (index_arg 1 x MAX_CODE) (\<lambda>code. give (MAKE_CHAR bits code)))"

definition Prim_char_bits :: "ulong \<Rightarrow> ulong action" where
  "Prim_char_bits x = CHECK_ARG 1 CHARACTER_P x (give (LONG_TO_UNSIGNED_FIXNUM (CHAR_BITS x)))"

definition Prim_char_code :: "ulong \<Rightarrow> ulong action" where
  "Prim_char_code x = CHECK_ARG 1 CHARACTER_P x (give (LONG_TO_UNSIGNED_FIXNUM (CHAR_CODE x)))"

definition Prim_char_to_integer :: "ulong \<Rightarrow> ulong action" where
  "Prim_char_to_integer x = CHECK_ARG 1 CHARACTER_P x (give (LONG_TO_UNSIGNED_FIXNUM (x AND MASK_MIT_ASCII)))"

definition Prim_integer_to_char :: "ulong \<Rightarrow> ulong action" where
  "Prim_integer_to_char x = andthen (index_arg 1 x MAX_MIT_ASCII) (\<lambda>i. give (MAKE_OBJECT TC_CHARACTER i))"

text \<open>
  \<open>isupper\<close> and \<open>islower\<close> of the C locale. C defines them for the values of \<open>unsigned char\<close> only; what
  the library says of other codes is the parameter \<open>beyond\<close>.
\<close>

definition isupper :: "(long \<Rightarrow> bool) \<Rightarrow> long \<Rightarrow> bool" where
  "isupper beyond c = (if c < 0x100 then 65 \<le> c \<and> c \<le> 90 else beyond c)"

definition islower :: "(long \<Rightarrow> bool) \<Rightarrow> long \<Rightarrow> bool" where
  "islower beyond c = (if c < 0x100 then 97 \<le> c \<and> c \<le> 122 else beyond c)"

definition char_downcase :: "(long \<Rightarrow> bool) \<Rightarrow> long \<Rightarrow> long" where
  "char_downcase beyond c = (if isupper beyond c then (c - 65) + 97 else c)"

definition char_upcase :: "(long \<Rightarrow> bool) \<Rightarrow> long \<Rightarrow> long" where
  "char_upcase beyond c = (if islower beyond c then (c - 97) + 65 else c)"

definition Prim_char_downcase :: "(long \<Rightarrow> bool) \<Rightarrow> ulong \<Rightarrow> ulong action" where
  "Prim_char_downcase beyond x =
     CHECK_ARG 1 CHARACTER_P x (give (MAKE_CHAR (CHAR_BITS x) (char_downcase beyond (CHAR_CODE x))))"

definition Prim_char_upcase :: "(long \<Rightarrow> bool) \<Rightarrow> ulong \<Rightarrow> ulong action" where
  "Prim_char_upcase beyond x =
     CHECK_ARG 1 CHARACTER_P x (give (MAKE_CHAR (CHAR_BITS x) (char_upcase beyond (CHAR_CODE x))))"

definition Prim_ascii_to_char :: "ulong \<Rightarrow> ulong action" where
  "Prim_ascii_to_char x = andthen (index_arg 1 x MAX_ASCII) (\<lambda>i. give (ASCII_TO_CHAR i))"

definition Prim_char_to_ascii :: "ulong \<Rightarrow> ulong action" where
  "Prim_char_to_ascii x = andthen (arg_ascii_char 1 x) (\<lambda>c. give (LONG_TO_UNSIGNED_FIXNUM c))"

definition Prim_char_ascii_p :: "ulong \<Rightarrow> ulong action" where
  "Prim_char_ascii_p x = CHECK_ARG 1 CHARACTER_P x
     (give (if OBJECT_DATUM x \<ge> MAX_ASCII then SHARP_F else LONG_TO_UNSIGNED_FIXNUM (CHAR_TO_ASCII x)))"

end
