(* ===== verification/Machine_Loop.thy ===== *)
theory Machine_Loop
  imports Byte_Prims
begin

text \<open>
  Procedures with loops over structures in memory. A list in memory can be circular, so that
  a procedure maps a machine to an option: \<^const>\<open>None\<close> when it does not return, otherwise what an
  action delivers. The rule for loops proves that one returns from a measure.
\<close>

type_synonym 'a proc = "machine \<Rightarrow> ((abort + 'a) \<times> machine) option"

definition act :: "'a action \<Rightarrow> 'a proc" where
  "act f s = Some (f s)"

definition bindp :: "'a proc \<Rightarrow> ('a \<Rightarrow> 'b proc) \<Rightarrow> 'b proc" where
  "bindp m f s = (case m s of None \<Rightarrow> None | Some (Inl e, s') \<Rightarrow> Some (Inl e, s') | Some (Inr a, s') \<Rightarrow> f a s')"

definition returnp :: "'a \<Rightarrow> 'a proc" where
  "returnp a s = Some (Inr a, s)"

definition readp :: "(machine \<Rightarrow> 'a) \<Rightarrow> 'a proc" where
  "readp f s = Some (Inr (f s), s)"

definition updatep :: "(machine \<Rightarrow> machine) \<Rightarrow> unit proc" where
  "updatep f s = Some (Inr (), f s)"

text \<open>
  \<open>loop body x\<close> repeats \<open>body\<close>, which maps the loop's variables to their new values, or to the
  result that ends the loop.
\<close>

partial_function (option) loop :: "('x \<Rightarrow> ('r + 'x) proc) \<Rightarrow> 'x \<Rightarrow> 'r proc" where
  "loop body x s =
     (case body x s of
        None \<Rightarrow> None
      | Some (Inl e, s') \<Rightarrow> Some (Inl e, s')
      | Some (Inr r, s') \<Rightarrow> (case r of Inl result \<Rightarrow> Some (Inr result, s') | Inr x' \<Rightarrow> loop body x' s'))"

lemma proc_simps [simp]:
  "act f s = Some (f s)" "returnp a s = Some (Inr a, s)" "readp g s = Some (Inr (g s), s)"
  "updatep h s = Some (Inr (), h s)"
  by (simp_all add: act_def returnp_def readp_def updatep_def)

lemma bindp_simps [simp]:
  "m s = Some (Inr a, s') \<Longrightarrow> bindp m f s = f a s'"
  "m s = Some (Inl e, s') \<Longrightarrow> bindp m f s = Some (Inl e, s')"
  "m s = None \<Longrightarrow> bindp m f s = None"
  by (simp_all add: bindp_def)

lemma loop_simps:
  "body x s = Some (Inr (Inl r), s') \<Longrightarrow> loop body x s = Some (Inr r, s')"
  "body x s = Some (Inr (Inr x'), s') \<Longrightarrow> loop body x s = loop body x' s'"
  "body x s = Some (Inl e, s') \<Longrightarrow> loop body x s = Some (Inl e, s')"
  "body x s = None \<Longrightarrow> loop body x s = None"
  by (simp_all add: loop.simps [of body x s])

text \<open>A loop that keeps an invariant and decreases a measure at every turn returns.\<close>

theorem loop_rule:
  fixes m :: "'x \<Rightarrow> machine \<Rightarrow> nat"
  assumes "I x s"
    and turn: "\<And>x s. I x s \<Longrightarrow>
      (\<exists>r s'. body x s = Some (Inr (Inl r), s') \<and> Q r s')
      \<or> (\<exists>x' s'. body x s = Some (Inr (Inr x'), s') \<and> I x' s' \<and> m x' s' < m x s)"
  shows "\<exists>r s'. loop body x s = Some (Inr r, s') \<and> Q r s'"
  using assms(1)
proof (induction "m x s" arbitrary: x s rule: less_induct)
  case less
  from turn [OF less.prems] show ?case
  proof (elim disjE exE conjE)
    fix r s' assume "body x s = Some (Inr (Inl r), s')" "Q r s'"
    then show ?case using loop_simps(1) by fastforce
  next
    fix x' s' assume b: "body x s = Some (Inr (Inr x'), s')" and i: "I x' s'" "m x' s' < m x s"
    show ?case unfolding loop_simps(2) [where body = body, OF b] using less.hyps [OF i(2,1)] .
  qed
qed

end
