(* ===== verification/Symbol_Table.thy ===== *)
theory Symbol_Table
  imports Machine_Loop
begin

text \<open>
  Hashing of objects (\<open>microcode/utils.c\<close>, \<open>prim.c\<close>) and the table of interned symbols
  (\<open>microcode/intern.c\<close>). The table is a vector of buckets, each a list of symbols on weak
  pairs, or on strong ones for symbols that are bound in the global environment; an entry
  whose symbol the collector has reclaimed is spliced out by the next search that meets it.
\<close>

section \<open>Hashing\<close>

text \<open>The 32-bit FNV-1a hash.\<close>

definition memory_hash :: "byte list \<Rightarrow> 32 word" where
  "memory_hash bytes = foldl (\<lambda>result b. (result XOR ucast b) * 16777619) 2166136261 bytes"

definition HASH_TO_FIXNUM :: "32 word \<Rightarrow> ulong" where
  "HASH_TO_FIXNUM h = ULONG_TO_FIXNUM (ucast h)"

definition combine_hashes :: "32 word \<Rightarrow> 32 word \<Rightarrow> 32 word" where
  "combine_hashes hash1 hash2 = hash1 * 31 + hash2"

definition FIXOBJ_INITIAL_HASH :: nat where [simp]: "FIXOBJ_INITIAL_HASH = 0x19"
definition OBARRAY :: nat where [simp]: "OBARRAY = 0x03"

definition initial_hash :: "machine \<Rightarrow> 32 word" where
  "initial_hash s =
     (let x = VECTOR_REF s (fixed_objects s) FIXOBJ_INITIAL_HASH
      in if FIXNUM_P x \<and> FIXNUM_TO_ULONG_P x \<and> OBJECT_DATUM x \<le> 0xFFFFFFFF then ucast (OBJECT_DATUM x) else 0)"

definition hashable_object_p :: "ulong \<Rightarrow> bool" where
  "hashable_object_p x = (OBJECT_TYPE x \<in> {TC_BYTEVECTOR, TC_CHARACTER_STRING, TC_INTERNED_SYMBOL, TC_UNINTERNED_SYMBOL,
     TC_BIG_FIXNUM, TC_BIG_FLONUM, TC_RATNUM, TC_COMPLEX, TC_LIST, TC_WEAK_CONS, TC_VECTOR, TC_CELL})"

definition bytevector_bytes :: "machine \<Rightarrow> ulong \<Rightarrow> byte list" where
  "bytevector_bytes s v = read_bytes s (BYTEVECTOR_POINTER v) (unat (BYTEVECTOR_LENGTH s v))"

definition SYMBOL_NAME :: nat where [simp]: "SYMBOL_NAME = 0"
definition SYMBOL_GLOBAL_VALUE :: nat where [simp]: "SYMBOL_GLOBAL_VALUE = 1"

text \<open>
  The digits of a bignum follow its header word; the doubles of a flonum vector its header. The
  function recurs on objects and, for the elements of a vector, on a range of words with the
  result so far. It does not return on a circular object.
\<close>

partial_function (option) hash_request :: "machine \<Rightarrow> ulong + nat \<times> nat \<times> 32 word \<Rightarrow> 32 word option" where
  "hash_request s request =
     (case request of
        Inr (scan, n, result) \<Rightarrow>
          if n = 0 then Some result
          else Option.bind (hash_request s (Inl (mem s scan))) (\<lambda>h.
                 hash_request s (Inr (scan + 1, n - 1, combine_hashes result h)))
      | Inl x \<Rightarrow>
          let ty = OBJECT_TYPE x
          in if ty = TC_BYTEVECTOR \<or> ty = TC_CHARACTER_STRING then Some (memory_hash (bytevector_bytes s x))
             else if ty = TC_INTERNED_SYMBOL \<or> ty = TC_UNINTERNED_SYMBOL
             then Some (memory_hash (bytevector_bytes s (MEMORY_REF s x SYMBOL_NAME)))
             else if ty = TC_BIG_FIXNUM
             then Some (memory_hash (read_bytes s (8 * (OBJECT_ADDRESS x + 2)) (8 * unat (MEMORY_REF s x 1 AND BIGNUM_DIGIT_MASK))))
             else if ty = TC_BIG_FLONUM
             then Some (memory_hash (read_bytes s (8 * (OBJECT_ADDRESS x + 1)) (8 * unat (VECTOR_LENGTH s x))))
             else if ty = TC_RATNUM \<or> ty = TC_COMPLEX \<or> ty = TC_LIST \<or> ty = TC_WEAK_CONS
             then Option.bind (hash_request s (Inl (MEMORY_REF s x 0))) (\<lambda>h1.
                    Option.bind (hash_request s (Inl (MEMORY_REF s x 1))) (\<lambda>h2. Some (combine_hashes h1 h2)))
             else if ty = TC_VECTOR
             then hash_request s (Inr (VECTOR_LOC x 0, unat (VECTOR_LENGTH s x), initial_hash s))
             else if ty = TC_CELL then hash_request s (Inl (MEMORY_REF s x 0))
             else Some 0)"

definition hash_object :: "ulong \<Rightarrow> 32 word proc" where
  "hash_object x s = (case hash_request s (Inl x) of None \<Rightarrow> None | Some h \<Rightarrow> Some (Inr h, s))"

definition Prim_primitive_object_hash :: "ulong \<Rightarrow> ulong proc" where
  "Prim_primitive_object_hash x =
     (if hashable_object_p x then bindp (hash_object x) (\<lambda>h. returnp (HASH_TO_FIXNUM h)) else returnp SHARP_F)"

definition Prim_primitive_object_hash_2 :: "ulong \<Rightarrow> ulong \<Rightarrow> ulong proc" where
  "Prim_primitive_object_hash_2 x y =
     (if hashable_object_p x \<and> hashable_object_p y
      then bindp (hash_object x) (\<lambda>h1. bindp (hash_object y) (\<lambda>h2. returnp (HASH_TO_FIXNUM (combine_hashes h1 h2))))
      else returnp SHARP_F)"

definition Prim_primitive_memory_hash :: "ulong \<Rightarrow> ulong \<Rightarrow> ulong \<Rightarrow> ulong action" where
  "Prim_primitive_memory_hash x y z s =
     (if \<not> (GC_TYPE_VECTOR x \<and> OBJECT_TYPE (MEMORY_REF s x 0) = TC_MANIFEST_NM_VECTOR) then error_wrong_type_arg 1 s
      else andthen (ulong_arg 2 y) (\<lambda>start. andthen (ulong_arg 3 z) (\<lambda>end_index s.
        let min_index = 8; max_index = min_index + VECTOR_LENGTH s x * 8
        in if \<not> (start \<ge> min_index \<and> start \<le> max_index) then error_bad_range_arg 2 s
           else if \<not> (end_index \<ge> start \<and> end_index \<le> max_index) then error_bad_range_arg 3 s
           else give (HASH_TO_FIXNUM (memory_hash
             (read_bytes s (8 * OBJECT_ADDRESS x + unat start) (unat (end_index - start))))) s)) s)"

section \<open>Strings and symbols\<close>

definition LEGACY_STRING_P :: "ulong \<Rightarrow> bool" where "LEGACY_STRING_P x = (OBJECT_TYPE x = TC_CHARACTER_STRING)"
definition UNICODE_STRING_P :: "ulong \<Rightarrow> bool" where "UNICODE_STRING_P x = (OBJECT_TYPE x = TC_UNICODE_STRING)"
definition INTERNED_SYMBOL_P :: "ulong \<Rightarrow> bool" where "INTERNED_SYMBOL_P x = (OBJECT_TYPE x = TC_INTERNED_SYMBOL)"
definition UNINTERNED_SYMBOL_P :: "ulong \<Rightarrow> bool" where "UNINTERNED_SYMBOL_P x = (OBJECT_TYPE x = TC_UNINTERNED_SYMBOL)"
definition SYMBOL_P :: "ulong \<Rightarrow> bool" where "SYMBOL_P x = (INTERNED_SYMBOL_P x \<or> UNINTERNED_SYMBOL_P x)"

definition UNICODE_STRING_LENGTH_INDEX :: nat where [simp]: "UNICODE_STRING_LENGTH_INDEX = 1"

definition UNICODE_STRING_FLAGS :: "machine \<Rightarrow> ulong \<Rightarrow> ulong" where
  "UNICODE_STRING_FLAGS s u = OBJECT_TYPE (MEMORY_REF s u UNICODE_STRING_LENGTH_INDEX)"

definition UNICODE_STRING_BYTES_PER_CP :: "machine \<Rightarrow> ulong \<Rightarrow> ulong" where
  "UNICODE_STRING_BYTES_PER_CP s u =
     (if UNICODE_STRING_FLAGS s u AND 0x3 = 0 then 3 else UNICODE_STRING_FLAGS s u AND 0x3)"

text \<open>What the string primitives accept (\<open>string.c\<close>).\<close>

definition string_p :: "machine \<Rightarrow> ulong \<Rightarrow> bool" where
  "string_p s x = (LEGACY_STRING_P x \<or> BYTEVECTOR_P x \<or> (UNICODE_STRING_P x \<and> UNICODE_STRING_BYTES_PER_CP s x = 1))"

definition STRING_LENGTH :: "machine \<Rightarrow> ulong \<Rightarrow> ulong" where "STRING_LENGTH = BYTEVECTOR_LENGTH"
definition STRING_POINTER :: "ulong \<Rightarrow> nat" where "STRING_POINTER = BYTEVECTOR_POINTER"

definition check_string :: "nat \<Rightarrow> ulong \<Rightarrow> unit action" where
  "check_string n x s = (if \<not> string_p s x then error_wrong_type_arg n s else give () s)"

definition UNBOUND_OBJECT :: ulong where "UNBOUND_OBJECT = MAKE_OBJECT TC_REFERENCE_TRAP 2"

section \<open>The table\<close>

text \<open>The bucket of a name; the remainder by the length of an empty vector traps.\<close>

definition bucket_of :: "nat \<Rightarrow> nat \<Rightarrow> nat action" where
  "bucket_of len name s =
     (let obarray = VECTOR_REF s (fixed_objects s) OBARRAY;
          n = VECTOR_LENGTH s obarray
      in if n = 0 then abort_with Hardware_Trap s
         else give (VECTOR_LOC obarray (unat (memory_hash (read_bytes s name len)) mod unat n)) s)"

definition find_symbol_step :: "nat \<Rightarrow> nat \<Rightarrow> nat \<Rightarrow> (nat + nat) proc" where
  "find_symbol_step len name bucket s =
     (let entry = mem s bucket
      in if WEAK_PAIR_P entry \<or> PAIR_P entry then
           (let symbol = PAIR_CAR s entry
            in if INTERNED_SYMBOL_P symbol then
                 (let name2 = MEMORY_REF s symbol SYMBOL_NAME
                  in if unat (STRING_LENGTH s name2) = len
                        \<and> read_bytes s (STRING_POINTER name2) len = read_bytes s name len
                     then returnp (Inl (OBJECT_ADDRESS entry)) s
                     else returnp (Inr (OBJECT_ADDRESS entry + 1)) s)
               else Some (Inr (Inr bucket), write_word bucket (PAIR_CDR s entry) s))
         else returnp (Inl bucket) s)"

text \<open>The location that holds the symbol, or the end of the bucket, where it is to be added.\<close>

definition find_symbol_internal :: "nat \<Rightarrow> nat \<Rightarrow> nat proc" where
  "find_symbol_internal len name = bindp (act (bucket_of len name)) (loop (find_symbol_step len name))"

definition replace_bucket_step :: "ulong \<Rightarrow> ulong \<Rightarrow> nat \<Rightarrow> (unit + nat) proc" where
  "replace_bucket_step symbol ty bucket s =
     (let entry = mem s bucket
      in if \<not> (WEAK_PAIR_P entry \<or> PAIR_P entry) then Some (Inl Assertion_Failure, s)
         else let element = PAIR_CAR s entry
              in if INTERNED_SYMBOL_P element
                 then (if element = symbol then Some (Inr (Inl ()), write_word bucket (OBJECT_NEW_TYPE ty entry) s)
                       else returnp (Inr (OBJECT_ADDRESS entry + 1)) s)
                 else Some (Inr (Inr bucket), write_word bucket (PAIR_CDR s entry) s))"

definition replace_symbol_bucket_type :: "ulong \<Rightarrow> ulong \<Rightarrow> unit proc" where
  "replace_symbol_bucket_type symbol ty s =
     (if UNINTERNED_SYMBOL_P symbol then returnp () s
      else if \<not> INTERNED_SYMBOL_P symbol then Some (Inl Assertion_Failure, s)
      else let name = MEMORY_REF s symbol SYMBOL_NAME
           in bindp (act (bucket_of (unat (STRING_LENGTH s name)) (STRING_POINTER name)))
                (loop (replace_bucket_step symbol ty)) s)"

definition strengthen_symbol :: "ulong \<Rightarrow> unit proc" where
  "strengthen_symbol symbol = replace_symbol_bucket_type symbol TC_LIST"

definition weaken_symbol :: "ulong \<Rightarrow> unit proc" where
  "weaken_symbol symbol = replace_symbol_bucket_type symbol TC_WEAK_CONS"

definition make_symbol :: "ulong \<Rightarrow> nat \<Rightarrow> ulong action" where
  "make_symbol name cell =
     andthen (Primitive_GC_If_Needed 4) (\<lambda>_ s.
       let symbol = MAKE_POINTER_OBJECT TC_INTERNED_SYMBOL (Free s);
           s = s\<lparr>Free := Free s + 2\<rparr>;
           s = MEMORY_SET symbol SYMBOL_NAME name s;
           s = MEMORY_SET symbol SYMBOL_GLOBAL_VALUE UNBOUND_OBJECT s
       in andthen (system_pair_cons TC_WEAK_CONS symbol EMPTY_LIST) (\<lambda>pair s. (Inr symbol, write_word cell pair s)) s)"

definition find_symbol :: "nat \<Rightarrow> nat \<Rightarrow> ulong proc" where
  "find_symbol len name = bindp (find_symbol_internal len name) (\<lambda>cell s.
     returnp (if INTERNED_SYMBOL_P (mem s cell) then mem s cell else SHARP_F) s)"

definition memory_to_symbol :: "nat \<Rightarrow> nat \<Rightarrow> ulong proc" where
  "memory_to_symbol len name = bindp (find_symbol_internal len name) (\<lambda>cell s.
     if INTERNED_SYMBOL_P (mem s cell) then returnp (mem s cell) s
     else bindp (act (memory_to_bytevector (word_of_nat len) name)) (\<lambda>string. act (make_symbol string cell)) s)"

text \<open>\<open>strlen\<close> looks for the byte 0.\<close>

partial_function (option) strlen :: "machine \<Rightarrow> nat \<Rightarrow> nat option" where
  "strlen s name = (if read_byte s name = 0 then Some 0 else Option.bind (strlen s (name + 1)) (\<lambda>n. Some (Suc n)))"

definition char_pointer_to_symbol :: "nat \<Rightarrow> ulong proc" where
  "char_pointer_to_symbol name s = (case strlen s name of None \<Rightarrow> None | Some len \<Rightarrow> memory_to_symbol len name s)"

definition string_to_symbol :: "ulong \<Rightarrow> ulong proc" where
  "string_to_symbol name s =
     bindp (find_symbol_internal (unat (STRING_LENGTH s name)) (STRING_POINTER name)) (\<lambda>cell s.
       if INTERNED_SYMBOL_P (mem s cell) then returnp (mem s cell) s else act (make_symbol name cell) s) s"

definition intern_symbol :: "ulong \<Rightarrow> ulong proc" where
  "intern_symbol symbol s =
     (let name = MEMORY_REF s symbol SYMBOL_NAME
      in bindp (find_symbol_internal (unat (STRING_LENGTH s name)) (STRING_POINTER name)) (\<lambda>cell s.
           if INTERNED_SYMBOL_P (mem s cell) then returnp (mem s cell) s
           else let s = (if LEGACY_STRING_P name then MEMORY_SET symbol SYMBOL_NAME (OBJECT_NEW_TYPE TC_BYTEVECTOR name) s else s);
                    result = OBJECT_NEW_TYPE TC_INTERNED_SYMBOL symbol
                in act (andthen (system_pair_cons TC_WEAK_CONS result EMPTY_LIST)
                     (\<lambda>pair s. (Inr result, write_word cell pair s))) s) s)"

definition arg_symbol :: "nat \<Rightarrow> ulong \<Rightarrow> nat action" where
  "arg_symbol n x = CHECK_ARG n SYMBOL_P x (reading (\<lambda>s. STRING_POINTER (MEMORY_REF s x SYMBOL_NAME)))"

definition arg_interned_symbol :: "nat \<Rightarrow> ulong \<Rightarrow> nat action" where
  "arg_interned_symbol n x = CHECK_ARG n INTERNED_SYMBOL_P x (reading (\<lambda>s. STRING_POINTER (MEMORY_REF s x SYMBOL_NAME)))"

section \<open>Primitives\<close>

definition Prim_find_symbol :: "ulong \<Rightarrow> ulong proc" where
  "Prim_find_symbol x = bindp (act (check_string 1 x)) (\<lambda>_ s. find_symbol (unat (STRING_LENGTH s x)) (STRING_POINTER x) s)"

definition Prim_string_to_symbol :: "ulong \<Rightarrow> ulong proc" where
  "Prim_string_to_symbol x = bindp (act (check_string 1 x)) (\<lambda>_. string_to_symbol x)"

definition Prim_string_hash :: "ulong \<Rightarrow> ulong action" where
  "Prim_string_hash x = andthen (check_string 1 x) (\<lambda>_ s. give (HASH_TO_FIXNUM (memory_hash (bytevector_bytes s x))) s)"

text \<open>The remainder is taken on \<open>unsigned long\<close>; a zero denominator traps.\<close>

definition Prim_string_hash_mod :: "ulong \<Rightarrow> ulong \<Rightarrow> ulong action" where
  "Prim_string_hash_mod x y =
     andthen (check_string 1 x) (\<lambda>_. andthen (ulong_arg 2 y) (\<lambda>d s.
       if d = 0 then abort_with Hardware_Trap s
       else give (ULONG_TO_FIXNUM (ucast (memory_hash (bytevector_bytes s x)) mod d)) s))"

end
