(* ===== verification/Lookup.thy ===== *)
theory Lookup
  imports Symbol_Table
begin

text \<open>
  Variables in first-class environments (\<open>microcode/lookup.c\<close>, \<open>lookprm.c\<close>, \<open>trap.h\<close>, \<open>sdata.h\<close>),
  on the configuration without compiled code: lookup, assignment, definition, linking and
  unbinding. A frame holds the cells of the parameters of the procedure that made it, and an
  extension the bindings defined later; a symbol holds the cell of its global binding. A cell
  with a reference trap of kind \<open>TRAP_COMPILER_CACHED\<close> stands for the cell of its cache, which
  linked variables share. Procedures return the codes of the C functions; a pointer to a
  result that a function may leave alone is an option. The chain of frames can be circular,
  so that a search need not return.
\<close>

section \<open>Codes\<close>

definition PRIM_DONE :: int where [simp]: "PRIM_DONE = - 1"
definition PRIM_INTERRUPT_CODE :: int where [simp]: "PRIM_INTERRUPT_CODE = - 4"
definition ERR_UNBOUND_VARIABLE :: int where [simp]: "ERR_UNBOUND_VARIABLE = 0x01"
definition ERR_UNASSIGNED_VARIABLE :: int where [simp]: "ERR_UNASSIGNED_VARIABLE = 0x02"
definition ERR_BAD_FRAME :: int where [simp]: "ERR_BAD_FRAME = 0x06"
definition ERR_MACRO_BINDING :: int where [simp]: "ERR_MACRO_BINDING = 0x13"
definition ERR_ILLEGAL_REFERENCE_TRAP :: int where [simp]: "ERR_ILLEGAL_REFERENCE_TRAP = 0x34"

definition TRAP_UNASSIGNED :: ulong where [simp]: "TRAP_UNASSIGNED = 0"
definition TRAP_UNBOUND :: ulong where [simp]: "TRAP_UNBOUND = 2"
definition TRAP_EXPENSIVE :: ulong where [simp]: "TRAP_EXPENSIVE = 6"
definition TRAP_COMPILER_CACHED :: ulong where [simp]: "TRAP_COMPILER_CACHED = 14"
definition TRAP_MACRO :: ulong where [simp]: "TRAP_MACRO = 15"
definition NON_TRAP_KIND :: ulong where [simp]: "NON_TRAP_KIND = 32"
definition UNASSIGNED_OBJECT :: ulong where "UNASSIGNED_OBJECT = MAKE_OBJECT TC_REFERENCE_TRAP TRAP_UNASSIGNED"
definition EXPENSIVE_OBJECT :: ulong where "EXPENSIVE_OBJECT = MAKE_OBJECT TC_REFERENCE_TRAP TRAP_EXPENSIVE"
definition CACHE_TYPE :: ulong where [simp]: "CACHE_TYPE = TC_HUNK3_A"
definition NON_OBJECT :: nat where [simp]: "NON_OBJECT = 0"

text \<open>\<open>GC_CHECK\<close>: without room a collection is requested and the function returns \<open>PRIM_INTERRUPT\<close>.\<close>

definition GC_CHECK :: "nat \<Rightarrow> int proc \<Rightarrow> int proc" where
  "GC_CHECK n k s = (if GC_NEEDED_P s n then returnp PRIM_INTERRUPT_CODE (REQUEST_GC n s) else k s)"

definition RETURN_IF_ERROR :: "int proc \<Rightarrow> int proc \<Rightarrow> int proc" where
  "RETURN_IF_ERROR m k = bindp m (\<lambda>code. if code \<noteq> PRIM_DONE then returnp code else k)"

definition DIE_IF_ERROR :: "int proc \<Rightarrow> 'a proc \<Rightarrow> 'a proc" where
  "DIE_IF_ERROR m k = bindp m (\<lambda>code. if code \<noteq> PRIM_DONE then act (abort_with Microcode_Termination) else k)"

section \<open>Fields\<close>


definition get_trap_kind :: "machine \<Rightarrow> ulong \<Rightarrow> ulong" where
  "get_trap_kind s x =
     (if REFERENCE_TRAP_P x
      then (if OBJECT_DATUM x \<le> TRAP_MAX_IMMEDIATE then OBJECT_DATUM x else OBJECT_DATUM (MEMORY_REF s x 0))
      else NON_TRAP_KIND)"

definition GET_TRAP_CACHE :: "machine \<Rightarrow> ulong \<Rightarrow> ulong" where "GET_TRAP_CACHE s x = MEMORY_REF s x 1"
definition SET_TRAP_CACHE :: "ulong \<Rightarrow> ulong \<Rightarrow> machine \<Rightarrow> machine" where "SET_TRAP_CACHE x c = MEMORY_SET x 1 c"
definition GET_CACHE_VALUE :: "machine \<Rightarrow> ulong \<Rightarrow> ulong" where "GET_CACHE_VALUE s c = MEMORY_REF s c 0"
definition SET_CACHE_VALUE :: "ulong \<Rightarrow> ulong \<Rightarrow> machine \<Rightarrow> machine" where "SET_CACHE_VALUE c v = MEMORY_SET c 0 v"
definition GET_CACHE_CLONE :: "machine \<Rightarrow> ulong \<Rightarrow> ulong" where "GET_CACHE_CLONE s c = MEMORY_REF s c 1"
definition SET_CACHE_CLONE :: "ulong \<Rightarrow> ulong \<Rightarrow> machine \<Rightarrow> machine" where "SET_CACHE_CLONE c v = MEMORY_SET c 1 v"
definition GET_CACHE_REFERENCES_OBJECT :: "machine \<Rightarrow> ulong \<Rightarrow> ulong" where
  "GET_CACHE_REFERENCES_OBJECT s c = MEMORY_REF s c 2"
definition GET_CACHE_REFERENCES :: "machine \<Rightarrow> ulong \<Rightarrow> nat \<Rightarrow> nat" where
  "GET_CACHE_REFERENCES s c kind = OBJECT_ADDRESS (GET_CACHE_REFERENCES_OBJECT s c) + kind"
definition CACHE_REFERENCES_ASSIGNMENT :: nat where [simp]: "CACHE_REFERENCES_ASSIGNMENT = 1"
definition CACHE_REFERENCES_OPERATOR :: nat where [simp]: "CACHE_REFERENCES_OPERATOR = 2"

definition THE_GLOBAL_ENV :: ulong where "THE_GLOBAL_ENV = MAKE_OBJECT TC_FALSE 0"
definition THE_NULL_ENV :: ulong where "THE_NULL_ENV = MAKE_OBJECT TC_FALSE 1"
definition GLOBAL_FRAME_P :: "ulong \<Rightarrow> bool" where "GLOBAL_FRAME_P frame = (frame = THE_GLOBAL_ENV)"
definition NULL_FRAME_P :: "ulong \<Rightarrow> bool" where "NULL_FRAME_P frame = (frame = THE_NULL_ENV)"
definition PROCEDURE_FRAME_P :: "ulong \<Rightarrow> bool" where "PROCEDURE_FRAME_P frame = (OBJECT_TYPE frame = TC_ENVIRONMENT)"
definition ENVIRONMENT_P :: "ulong \<Rightarrow> bool" where "ENVIRONMENT_P env = (OBJECT_TYPE env = TC_ENVIRONMENT \<or> GLOBAL_FRAME_P env)"

definition PROCEDURE_LAMBDA_EXPR :: nat where [simp]: "PROCEDURE_LAMBDA_EXPR = 0"
definition PROCEDURE_ENVIRONMENT :: nat where [simp]: "PROCEDURE_ENVIRONMENT = 1"
definition ENVIRONMENT_FUNCTION :: nat where [simp]: "ENVIRONMENT_FUNCTION = 1"
definition ENVIRONMENT_FIRST_ARG :: nat where [simp]: "ENVIRONMENT_FIRST_ARG = 2"
definition LAMBDA_SCODE :: nat where [simp]: "LAMBDA_SCODE = 0"
definition LAMBDA_FORMALS :: nat where [simp]: "LAMBDA_FORMALS = 1"

definition GET_FRAME_PROCEDURE :: "machine \<Rightarrow> ulong \<Rightarrow> ulong" where
  "GET_FRAME_PROCEDURE s frame = MEMORY_REF s frame ENVIRONMENT_FUNCTION"
definition SET_FRAME_EXTENSION :: "ulong \<Rightarrow> ulong \<Rightarrow> machine \<Rightarrow> machine" where
  "SET_FRAME_EXTENSION frame extension = MEMORY_SET frame ENVIRONMENT_FUNCTION extension"
definition GET_PROCEDURE_LAMBDA :: "machine \<Rightarrow> ulong \<Rightarrow> ulong" where
  "GET_PROCEDURE_LAMBDA s p = MEMORY_REF s p PROCEDURE_LAMBDA_EXPR"
definition GET_PROCEDURE_ENVIRONMENT :: "machine \<Rightarrow> ulong \<Rightarrow> ulong" where
  "GET_PROCEDURE_ENVIRONMENT s p = MEMORY_REF s p PROCEDURE_ENVIRONMENT"
definition GET_FRAME_PARENT :: "machine \<Rightarrow> ulong \<Rightarrow> ulong" where
  "GET_FRAME_PARENT s frame = GET_PROCEDURE_ENVIRONMENT s (GET_FRAME_PROCEDURE s frame)"
definition GET_FRAME_ARG_CELL :: "ulong \<Rightarrow> nat \<Rightarrow> nat" where
  "GET_FRAME_ARG_CELL frame i = OBJECT_ADDRESS frame + (ENVIRONMENT_FIRST_ARG + i)"
definition GET_LAMBDA_FORMALS :: "machine \<Rightarrow> ulong \<Rightarrow> ulong" where
  "GET_LAMBDA_FORMALS s lambda = MEMORY_REF s lambda LAMBDA_FORMALS"
definition GET_LAMBDA_PARAMETERS :: "machine \<Rightarrow> ulong \<Rightarrow> nat" where
  "GET_LAMBDA_PARAMETERS s lambda = OBJECT_ADDRESS (GET_LAMBDA_FORMALS s lambda) + 2"
definition GET_LAMBDA_N_PARAMETERS :: "machine \<Rightarrow> ulong \<Rightarrow> nat" where
  "GET_LAMBDA_N_PARAMETERS s lambda = unat (VECTOR_LENGTH s (GET_LAMBDA_FORMALS s lambda)) - 1"

definition ENV_EXTENSION_PARENT_FRAME :: nat where [simp]: "ENV_EXTENSION_PARENT_FRAME = 1"
definition ENV_EXTENSION_PROCEDURE :: nat where [simp]: "ENV_EXTENSION_PROCEDURE = 2"
definition ENV_EXTENSION_COUNT :: nat where [simp]: "ENV_EXTENSION_COUNT = 3"
definition ENV_EXTENSION_MIN_SIZE :: nat where [simp]: "ENV_EXTENSION_MIN_SIZE = 4"

definition EXTENDED_FRAME_P :: "machine \<Rightarrow> ulong \<Rightarrow> bool" where
  "EXTENDED_FRAME_P s frame = VECTOR_P (GET_FRAME_PROCEDURE s frame)"
definition GET_FRAME_EXTENSION_BINDINGS :: "ulong \<Rightarrow> nat" where
  "GET_FRAME_EXTENSION_BINDINGS extension = OBJECT_ADDRESS extension + ENV_EXTENSION_MIN_SIZE"
definition GET_EXTENDED_FRAME_BINDINGS :: "machine \<Rightarrow> ulong \<Rightarrow> nat" where
  "GET_EXTENDED_FRAME_BINDINGS s frame = GET_FRAME_EXTENSION_BINDINGS (GET_FRAME_PROCEDURE s frame)"
definition GET_FRAME_EXTENSION_LENGTH :: "machine \<Rightarrow> ulong \<Rightarrow> nat" where
  "GET_FRAME_EXTENSION_LENGTH s extension = unat (OBJECT_DATUM (MEMORY_REF s extension ENV_EXTENSION_COUNT))"
definition GET_EXTENDED_FRAME_LENGTH :: "machine \<Rightarrow> ulong \<Rightarrow> nat" where
  "GET_EXTENDED_FRAME_LENGTH s frame = GET_FRAME_EXTENSION_LENGTH s (GET_FRAME_PROCEDURE s frame)"
definition SET_FRAME_EXTENSION_LENGTH :: "ulong \<Rightarrow> nat \<Rightarrow> machine \<Rightarrow> machine" where
  "SET_FRAME_EXTENSION_LENGTH extension n = MEMORY_SET extension ENV_EXTENSION_COUNT (LONG_TO_UNSIGNED_FIXNUM (word_of_nat n))"
definition SET_EXTENDED_FRAME_LENGTH :: "ulong \<Rightarrow> nat \<Rightarrow> machine \<Rightarrow> machine" where
  "SET_EXTENDED_FRAME_LENGTH frame n s = SET_FRAME_EXTENSION_LENGTH (GET_FRAME_PROCEDURE s frame) n s"
definition GET_MAX_EXTENDED_FRAME_LENGTH :: "machine \<Rightarrow> ulong \<Rightarrow> nat" where
  "GET_MAX_EXTENDED_FRAME_LENGTH s frame = unat (VECTOR_LENGTH s (GET_FRAME_PROCEDURE s frame)) - (ENV_EXTENSION_MIN_SIZE - 1)"
definition GET_EXTENDED_FRAME_PROCEDURE :: "machine \<Rightarrow> ulong \<Rightarrow> ulong" where
  "GET_EXTENDED_FRAME_PROCEDURE s frame = MEMORY_REF s (GET_FRAME_PROCEDURE s frame) ENV_EXTENSION_PROCEDURE"

section \<open>Finding a cell\<close>

primrec scan_parameters :: "nat \<Rightarrow> nat \<Rightarrow> ulong \<Rightarrow> ulong \<Rightarrow> nat \<Rightarrow> bool \<Rightarrow> machine \<Rightarrow> nat option" where
  "scan_parameters 0 scan frame symbol i find_unbound_p s = None"
| "scan_parameters (Suc n) scan frame symbol i find_unbound_p s =
     (let cell = GET_FRAME_ARG_CELL frame i
      in if mem s scan = symbol \<and> (find_unbound_p \<or> mem s cell \<noteq> UNBOUND_OBJECT) then Some cell
         else scan_parameters n (scan + 1) frame symbol (i + 1) find_unbound_p s)"

definition scan_procedure_bindings :: "ulong \<Rightarrow> ulong \<Rightarrow> ulong \<Rightarrow> bool \<Rightarrow> machine \<Rightarrow> nat option" where
  "scan_procedure_bindings procedure frame symbol find_unbound_p s =
     (let lambda = GET_PROCEDURE_LAMBDA s procedure
      in scan_parameters (GET_LAMBDA_N_PARAMETERS s lambda) (GET_LAMBDA_PARAMETERS s lambda) frame symbol 0 find_unbound_p s)"

primrec scan_bindings :: "nat \<Rightarrow> nat \<Rightarrow> ulong \<Rightarrow> machine \<Rightarrow> nat option" where
  "scan_bindings 0 scan symbol s = None"
| "scan_bindings (Suc n) scan symbol s =
     (if PAIR_CAR s (mem s scan) = symbol then Some (OBJECT_ADDRESS (mem s scan) + 1) else scan_bindings n (scan + 1) symbol s)"

definition scan_frame :: "ulong \<Rightarrow> ulong \<Rightarrow> bool \<Rightarrow> nat option action" where
  "scan_frame frame symbol find_unbound_p s =
     (if PROCEDURE_FRAME_P frame
      then (if EXTENDED_FRAME_P s frame
            then (case scan_bindings (GET_EXTENDED_FRAME_LENGTH s frame) (GET_EXTENDED_FRAME_BINDINGS s frame) symbol s of
                    Some cell \<Rightarrow> give (Some cell) s
                  | None \<Rightarrow> give (scan_procedure_bindings (GET_EXTENDED_FRAME_PROCEDURE s frame) frame symbol find_unbound_p s) s)
            else give (scan_procedure_bindings (GET_FRAME_PROCEDURE s frame) frame symbol find_unbound_p s) s)
      else if \<not> GLOBAL_FRAME_P frame then abort_with Assertion_Failure s
      else give (Some (OBJECT_ADDRESS symbol + SYMBOL_GLOBAL_VALUE)) s)"

definition find_cell_step :: "ulong \<Rightarrow> ulong \<Rightarrow> ((nat option \<times> ulong) + ulong) proc" where
  "find_cell_step symbol frame = bindp (act (scan_frame frame symbol False)) (\<lambda>cell s.
     if cell \<noteq> None \<or> \<not> ENVIRONMENT_P (GET_FRAME_PARENT s frame) then returnp (Inl (cell, frame)) s
     else returnp (Inr (GET_FRAME_PARENT s frame)) s)"

text \<open>The cell, if there is one, and the frame where the search ended.\<close>

definition find_binding_cell :: "ulong \<Rightarrow> ulong \<Rightarrow> (nat option \<times> ulong) proc" where
  "find_binding_cell environment symbol =
     (if NULL_FRAME_P environment then returnp (None, environment)
      else if \<not> ENVIRONMENT_P environment then act (abort_with Assertion_Failure)
      else loop (find_cell_step symbol) environment)"

section \<open>Lookup\<close>

definition lookup_variable_cache :: "ulong \<Rightarrow> (int \<times> ulong option) proc" where
  "lookup_variable_cache cache s =
     (let v = GET_CACHE_VALUE s cache; k = get_trap_kind s v
      in returnp (if k = NON_TRAP_KIND then (PRIM_DONE, Some v)
           else if k = TRAP_UNASSIGNED then (ERR_UNASSIGNED_VARIABLE, None)
           else if k = TRAP_UNBOUND then (ERR_UNBOUND_VARIABLE, None)
           else if k = TRAP_MACRO then (ERR_MACRO_BINDING, Some v)
           else (ERR_ILLEGAL_REFERENCE_TRAP, None)) s)"

definition lookup_variable :: "ulong \<Rightarrow> ulong \<Rightarrow> (int \<times> ulong option) proc" where
  "lookup_variable environment symbol =
     (if \<not> (ENVIRONMENT_P environment \<and> SYMBOL_P symbol) then returnp (ERR_BAD_FRAME, None)
      else bindp (find_binding_cell environment symbol) (\<lambda>(cell, frame) s.
        case cell of
          None \<Rightarrow> returnp (ERR_UNBOUND_VARIABLE, None) s
        | Some cell \<Rightarrow>
            (let v = mem s cell; k = get_trap_kind s v
             in if k = NON_TRAP_KIND then returnp (PRIM_DONE, Some v) s
                else if k = TRAP_UNASSIGNED then returnp (ERR_UNASSIGNED_VARIABLE, None) s
                else if k = TRAP_UNBOUND then returnp (ERR_UNBOUND_VARIABLE, None) s
                else if k = TRAP_MACRO then returnp (ERR_MACRO_BINDING, Some v) s
                else if k = TRAP_COMPILER_CACHED then lookup_variable_cache (GET_TRAP_CACHE s v) s
                else returnp (ERR_ILLEGAL_REFERENCE_TRAP, None) s)))"

definition EXTERNAL_UNASSIGNED_OBJECT :: "machine \<Rightarrow> ulong" where
  "EXTERNAL_UNASSIGNED_OBJECT s = VECTOR_REF s (fixed_objects s) NON_OBJECT"

definition MAP_TO_UNASSIGNED :: "machine \<Rightarrow> ulong \<Rightarrow> ulong" where
  "MAP_TO_UNASSIGNED s v = (if v = EXTERNAL_UNASSIGNED_OBJECT s then UNASSIGNED_OBJECT else v)"

definition MAP_FROM_UNASSIGNED :: "machine \<Rightarrow> ulong \<Rightarrow> ulong" where
  "MAP_FROM_UNASSIGNED s v = (if v = UNASSIGNED_OBJECT then EXTERNAL_UNASSIGNED_OBJECT s else v)"

definition safe_lookup_variable :: "ulong \<Rightarrow> ulong \<Rightarrow> (int \<times> ulong option) proc" where
  "safe_lookup_variable environment symbol = bindp (lookup_variable environment symbol) (\<lambda>(code, v) s.
     returnp (if code = ERR_UNASSIGNED_VARIABLE then (PRIM_DONE, Some (EXTERNAL_UNASSIGNED_OBJECT s)) else (code, v)) s)"

definition variable_unassigned_p :: "ulong \<Rightarrow> ulong \<Rightarrow> (int \<times> ulong option) proc" where
  "variable_unassigned_p environment symbol = bindp (lookup_variable environment symbol) (\<lambda>(code, v).
     returnp (if code = ERR_UNASSIGNED_VARIABLE then (PRIM_DONE, Some SHARP_T)
       else if code = PRIM_DONE then (PRIM_DONE, Some SHARP_F) else (code, None)))"

definition variable_unbound_p :: "ulong \<Rightarrow> ulong \<Rightarrow> (int \<times> ulong option) proc" where
  "variable_unbound_p environment symbol = bindp (lookup_variable environment symbol) (\<lambda>(code, v).
     returnp (if code = ERR_UNBOUND_VARIABLE then (PRIM_DONE, Some SHARP_T)
       else if code = ERR_UNASSIGNED_VARIABLE \<or> code = ERR_MACRO_BINDING \<or> code = PRIM_DONE then (PRIM_DONE, Some SHARP_F)
       else (code, None)))"

definition variable_unreferenceable_p :: "ulong \<Rightarrow> ulong \<Rightarrow> (int \<times> ulong option) proc" where
  "variable_unreferenceable_p environment symbol = bindp (lookup_variable environment symbol) (\<lambda>(code, v).
     returnp (if code = ERR_UNBOUND_VARIABLE \<or> code = ERR_UNASSIGNED_VARIABLE \<or> code = ERR_MACRO_BINDING
       then (PRIM_DONE, Some SHARP_T)
       else if code = PRIM_DONE then (PRIM_DONE, Some SHARP_F) else (code, None)))"

section \<open>Assignment\<close>

definition assign_variable_cache :: "ulong \<Rightarrow> ulong \<Rightarrow> bool \<Rightarrow> (int \<times> ulong option) proc" where
  "assign_variable_cache cache v force_p s =
     (let old = GET_CACHE_VALUE s cache; k = get_trap_kind s old
      in if k = NON_TRAP_KIND \<or> k = TRAP_UNASSIGNED \<or> (k = TRAP_UNBOUND \<or> k = TRAP_MACRO) \<and> force_p
         then returnp (PRIM_DONE, Some (MAP_FROM_UNASSIGNED s old)) (SET_CACHE_VALUE cache (MAP_TO_UNASSIGNED s v) s)
         else if k = TRAP_UNBOUND then returnp (ERR_UNBOUND_VARIABLE, None) s
         else if k = TRAP_MACRO then returnp (ERR_MACRO_BINDING, None) s
         else returnp (ERR_ILLEGAL_REFERENCE_TRAP, None) s)"

definition assign_variable_end :: "nat \<Rightarrow> ulong \<Rightarrow> bool \<Rightarrow> (int \<times> ulong option) proc" where
  "assign_variable_end cell v force_p s =
     (let old = mem s cell; k = get_trap_kind s old
      in if k = NON_TRAP_KIND \<or> k = TRAP_UNASSIGNED \<or> (k = TRAP_UNBOUND \<or> k = TRAP_MACRO) \<and> force_p
         then returnp (PRIM_DONE, Some (MAP_FROM_UNASSIGNED s old)) (write_word cell (MAP_TO_UNASSIGNED s v) s)
         else if k = TRAP_UNBOUND then returnp (ERR_UNBOUND_VARIABLE, None) s
         else if k = TRAP_MACRO then returnp (ERR_MACRO_BINDING, None) s
         else if k = TRAP_COMPILER_CACHED then assign_variable_cache (GET_TRAP_CACHE s old) v force_p s
         else returnp (ERR_ILLEGAL_REFERENCE_TRAP, None) s)"

definition assign_variable :: "ulong \<Rightarrow> ulong \<Rightarrow> ulong \<Rightarrow> (int \<times> ulong option) proc" where
  "assign_variable environment symbol v =
     (if \<not> (ENVIRONMENT_P environment \<or> SYMBOL_P symbol) then returnp (ERR_BAD_FRAME, None)
      else bindp (find_binding_cell environment symbol) (\<lambda>(cell, frame).
        case cell of None \<Rightarrow> returnp (ERR_UNBOUND_VARIABLE, None) | Some cell \<Rightarrow> assign_variable_end cell v False))"

section \<open>Caches\<close>

text \<open>\<open>WALK_REFERENCES\<close> that counts: the place of the list of names, of the list of references, and the count.\<close>

definition count_step :: "nat \<times> nat option \<times> nat \<Rightarrow> (nat + nat \<times> nat option \<times> nat) proc" where
  "count_step = (\<lambda>(palist, prefs, n) s.
     case prefs of
       None \<Rightarrow> (if PAIR_P (mem s palist)
         then returnp (Inr (palist, Some (OBJECT_ADDRESS (PAIR_CAR s (mem s palist)) + 1), n)) s else returnp (Inl n) s)
     | Some prefs \<Rightarrow>
         (if PAIR_P (mem s prefs)
          then (if PAIR_CAR s (PAIR_CAR s (mem s prefs)) = GC_RECLAIMED
                then Some (Inr (Inr (palist, Some prefs, n)), write_word prefs (PAIR_CDR s (mem s prefs)) s)
                else returnp (Inr (palist, Some (OBJECT_ADDRESS (mem s prefs) + 1), n + 1)) s)
          else if PAIR_P (PAIR_CDR s (PAIR_CAR s (mem s palist)))
          then returnp (Inr (OBJECT_ADDRESS (mem s palist) + 1, None, n)) s
          else Some (Inr (Inr (palist, None, n)), write_word palist (PAIR_CDR s (mem s palist)) s)))"

definition count_references :: "nat \<Rightarrow> nat proc" where
  "count_references palist = loop count_step (palist, None, 0)"

definition make_cache :: "ulong \<Rightarrow> ulong \<Rightarrow> ulong \<Rightarrow> (ulong \<Rightarrow> int proc) \<Rightarrow> int proc" where
  "make_cache v clone references k = GC_CHECK 3 (\<lambda>s.
     let s = push_free references (push_free clone (push_free v s)) in k (MAKE_POINTER_OBJECT CACHE_TYPE (Free s - 3)) s)"

definition update_clone :: "ulong \<Rightarrow> unit proc" where
  "update_clone cache s =
     (if PAIR_P (mem s (GET_CACHE_REFERENCES s cache CACHE_REFERENCES_ASSIGNMENT))
         \<and> PAIR_P (mem s (GET_CACHE_REFERENCES s cache CACHE_REFERENCES_OPERATOR))
      then (if GET_CACHE_CLONE s cache = SHARP_F
            then DIE_IF_ERROR (make_cache EXPENSIVE_OBJECT cache (GET_CACHE_REFERENCES_OBJECT s cache)
                   (\<lambda>clone s. returnp PRIM_DONE (SET_CACHE_CLONE cache clone s))) (returnp ()) s
            else returnp () s)
      else if GET_CACHE_CLONE s cache \<noteq> SHARP_F then updatep (SET_CACHE_CLONE cache SHARP_F) s
      else returnp () s)"

definition guarantee_cache :: "nat \<Rightarrow> int proc" where
  "guarantee_cache cell s =
     (if get_trap_kind s (mem s cell) = TRAP_COMPILER_CACHED then returnp PRIM_DONE s
      else GC_CHECK 3 (\<lambda>s.
        let references = MAKE_POINTER_OBJECT CACHE_TYPE (Free s);
            s = push_free EMPTY_LIST (push_free EMPTY_LIST (push_free EMPTY_LIST s))
        in make_cache (mem s cell) SHARP_F references (\<lambda>cache. GC_CHECK 2 (\<lambda>s.
             let s = push_free cache (push_free (LONG_TO_UNSIGNED_FIXNUM TRAP_COMPILER_CACHED) s)
             in returnp PRIM_DONE (write_word cell (MAKE_POINTER_OBJECT TC_REFERENCE_TRAP (Free s - 2)) s))) s) s)"

text \<open>Without compiled code no references move; the caches are made all the same.\<close>

definition update_cache_references :: "ulong \<Rightarrow> nat option \<Rightarrow> int proc" where
  "update_cache_references from_cache to_cell =
     bindp (case to_cell of
         None \<Rightarrow> returnp ()
       | Some cell \<Rightarrow> DIE_IF_ERROR (guarantee_cache cell) (\<lambda>s. update_clone (GET_TRAP_CACHE s (mem s cell)) s))
       (\<lambda>_. bindp (update_clone from_cache) (\<lambda>_. returnp PRIM_DONE))"

definition update_cache_refs_space :: "ulong \<Rightarrow> nat" where "update_cache_refs_space from_cache = 0"

section \<open>Definition\<close>

definition allocate_frame_extension :: "nat \<Rightarrow> ulong \<Rightarrow> (ulong \<Rightarrow> int proc) \<Rightarrow> int proc" where
  "allocate_frame_extension len procedure k =
     (let n_words = ENV_EXTENSION_MIN_SIZE + len
      in GC_CHECK n_words (bindp (act (make_vector (word_of_nat (n_words - 1)) SHARP_F False)) (\<lambda>extension s.
           let s = MEMORY_SET extension ENV_EXTENSION_PARENT_FRAME (GET_PROCEDURE_ENVIRONMENT s procedure) s;
               s = MEMORY_SET extension ENV_EXTENSION_PROCEDURE procedure s
           in k extension (SET_FRAME_EXTENSION_LENGTH extension 0 s))))"

definition guarantee_extension_space :: "ulong \<Rightarrow> int proc" where
  "guarantee_extension_space environment s =
     (if EXTENDED_FRAME_P s environment
      then (let len = GET_EXTENDED_FRAME_LENGTH s environment
            in if len = GET_MAX_EXTENDED_FRAME_LENGTH s environment
               then allocate_frame_extension (2 * len) (GET_EXTENDED_FRAME_PROCEDURE s environment) (\<lambda>extension s.
                 let s = move_left len (GET_EXTENDED_FRAME_BINDINGS s environment) (GET_FRAME_EXTENSION_BINDINGS extension) s;
                     s = SET_FRAME_EXTENSION_LENGTH extension len s
                 in returnp PRIM_DONE (SET_FRAME_EXTENSION environment extension s)) s
               else returnp PRIM_DONE s)
      else allocate_frame_extension 16 (GET_FRAME_PROCEDURE s environment) (\<lambda>extension s.
             returnp PRIM_DONE (SET_FRAME_EXTENSION environment extension s)) s)"

definition extend_environment :: "ulong \<Rightarrow> ulong \<Rightarrow> ulong \<Rightarrow> nat action" where
  "extend_environment environment symbol v s =
     andthen (cons symbol (MAP_TO_UNASSIGNED s v)) (\<lambda>pair s.
       let len = GET_EXTENDED_FRAME_LENGTH s environment;
           s = write_word (GET_EXTENDED_FRAME_BINDINGS s environment + len) pair s
       in (Inr (OBJECT_ADDRESS pair + 1), SET_EXTENDED_FRAME_LENGTH environment (len + 1) s)) s"

definition define_variable :: "ulong \<Rightarrow> ulong \<Rightarrow> ulong \<Rightarrow> int proc" where
  "define_variable environment symbol v =
     (if \<not> (ENVIRONMENT_P environment \<or> SYMBOL_P symbol) then returnp ERR_BAD_FRAME
      else bindp (act (scan_frame environment symbol True)) (\<lambda>cell.
        case cell of
          Some cell \<Rightarrow>
            bindp (if GLOBAL_FRAME_P environment then strengthen_symbol symbol else returnp ()) (\<lambda>_.
              bindp (assign_variable_end cell v True) (\<lambda>(code, old). returnp code))
        | None \<Rightarrow>
            RETURN_IF_ERROR (guarantee_extension_space environment) (\<lambda>s.
              bindp (find_binding_cell (GET_FRAME_PARENT s environment) symbol) (\<lambda>(shadowed, frame) s.
                let old_cache = (case shadowed of None \<Rightarrow> SHARP_F
                      | Some c \<Rightarrow> if get_trap_kind s (mem s c) = TRAP_COMPILER_CACHED then GET_TRAP_CACHE s (mem s c) else SHARP_F)
                in GC_CHECK (2 + (if old_cache \<noteq> SHARP_F then update_cache_refs_space old_cache else 0))
                     (bindp (act (extend_environment environment symbol v)) (\<lambda>cell.
                        if old_cache \<noteq> SHARP_F then update_cache_references old_cache (Some cell)
                        else returnp PRIM_DONE)) s) s)))"

section \<open>Linking and unbinding\<close>

definition SPACE_PER_UUO_LINK :: nat where [simp]: "SPACE_PER_UUO_LINK = 10"
definition SPACE_PER_CACHE :: nat where [simp]: "SPACE_PER_CACHE = 3"

definition link_caches :: "nat \<Rightarrow> nat \<Rightarrow> int proc" where
  "link_caches source_cell target_cell s =
     (let target_cache = GET_TRAP_CACHE s (mem s target_cell);
          finish = (\<lambda>s. returnp PRIM_DONE (write_word source_cell (mem s target_cell) s))
      in if get_trap_kind s (mem s source_cell) = TRAP_COMPILER_CACHED
         then (let source_cache = GET_TRAP_CACHE s (mem s source_cell)
               in if source_cache = target_cache then returnp PRIM_DONE s
                  else bindp (count_references (GET_CACHE_REFERENCES s target_cache CACHE_REFERENCES_OPERATOR)) (\<lambda>n.
                    GC_CHECK (n * SPACE_PER_UUO_LINK + 2 * SPACE_PER_CACHE)
                      (bindp (\<lambda>s. updatep (SET_CACHE_VALUE target_cache (GET_CACHE_VALUE s source_cache)) s) (\<lambda>_.
                       bindp (update_clone source_cache) (\<lambda>_.
                       bindp (update_clone target_cache) (\<lambda>_ s.
                         finish (SET_TRAP_CACHE (mem s source_cell) target_cache s)))))) s)
         else finish (SET_CACHE_VALUE target_cache (mem s source_cell) s))"

definition link_variables :: "ulong \<Rightarrow> ulong \<Rightarrow> ulong \<Rightarrow> ulong \<Rightarrow> int proc" where
  "link_variables target_environment target_symbol source_environment source_symbol =
     (if \<not> (ENVIRONMENT_P target_environment \<and> ENVIRONMENT_P source_environment \<and> SYMBOL_P target_symbol \<and> SYMBOL_P source_symbol)
      then returnp ERR_BAD_FRAME
      else bindp (find_binding_cell source_environment source_symbol) (\<lambda>(source, frame) s.
        case source of
          None \<Rightarrow> returnp ERR_UNBOUND_VARIABLE s
        | Some source_cell \<Rightarrow>
            if get_trap_kind s (mem s source_cell) = TRAP_UNBOUND then returnp ERR_UNBOUND_VARIABLE s
            else bindp (act (scan_frame target_environment target_symbol True)) (\<lambda>target.
              if target = Some source_cell then returnp PRIM_DONE
              else bindp (if target \<noteq> None \<and> GLOBAL_FRAME_P target_environment then strengthen_symbol target_symbol else returnp ()) (\<lambda>_ s.
                if target \<noteq> None \<and> get_trap_kind s (mem s (the target)) = TRAP_COMPILER_CACHED
                then link_caches source_cell (the target) s
                else RETURN_IF_ERROR (guarantee_cache source_cell)
                       (\<lambda>s. define_variable target_environment target_symbol (mem s source_cell) s) s)) s))"

primrec unbind_scan :: "nat \<Rightarrow> nat \<Rightarrow> nat \<Rightarrow> ulong \<Rightarrow> machine \<Rightarrow> nat option" where
  "unbind_scan 0 i start symbol s = None"
| "unbind_scan (Suc n) i start symbol s = (if PAIR_CAR s (mem s (start + i)) = symbol then Some i else unbind_scan n (i + 1) start symbol s)"

definition unbind_variable_1 :: "nat \<Rightarrow> ulong \<Rightarrow> ulong \<Rightarrow> machine \<Rightarrow> machine" where
  "unbind_variable_1 cell frame symbol s =
     (let found = (if PROCEDURE_FRAME_P frame \<and> EXTENDED_FRAME_P s frame
                   then unbind_scan (GET_EXTENDED_FRAME_LENGTH s frame) 0 (GET_EXTENDED_FRAME_BINDINGS s frame) symbol s else None)
      in case found of
           None \<Rightarrow> write_word cell UNBOUND_OBJECT s
         | Some index \<Rightarrow>
             (let start = GET_EXTENDED_FRAME_BINDINGS s frame; len = GET_EXTENDED_FRAME_LENGTH s frame;
                  s = (if index < len - 1 then write_word (start + index) (mem s (start + (len - 1))) s else s);
                  s = SET_EXTENDED_FRAME_LENGTH frame (len - 1) s
              in write_word (start + (len - 1)) SHARP_F s))"

definition unbind_cached_variable :: "nat \<Rightarrow> ulong \<Rightarrow> ulong \<Rightarrow> int proc" where
  "unbind_cached_variable cell frame symbol s =
     (let cache = GET_TRAP_CACHE s (mem s cell)
      in bindp (find_binding_cell (GET_FRAME_PARENT s frame) symbol) (\<lambda>(shadowed, f).
           GC_CHECK (update_cache_refs_space cache)
             (bindp (updatep (unbind_variable_1 cell frame symbol)) (\<lambda>_. update_cache_references cache shadowed))) s)"

definition unbind_variable :: "ulong \<Rightarrow> ulong \<Rightarrow> (int \<times> ulong option) proc" where
  "unbind_variable environment symbol =
     bindp (find_binding_cell environment symbol) (\<lambda>(found, frame).
       bindp (if GLOBAL_FRAME_P frame then weaken_symbol symbol else returnp ()) (\<lambda>_ s.
         case found of
           None \<Rightarrow> returnp (PRIM_DONE, Some SHARP_F) s
         | Some cell \<Rightarrow>
             (let k = get_trap_kind s (mem s cell)
              in if k = TRAP_UNBOUND then returnp (PRIM_DONE, Some SHARP_F) s
                 else if k = NON_TRAP_KIND \<or> k = TRAP_UNASSIGNED \<or> k = TRAP_MACRO
                 then returnp (PRIM_DONE, Some SHARP_T) (unbind_variable_1 cell frame symbol s)
                 else if k = TRAP_COMPILER_CACHED
                 then (let cache = GET_TRAP_CACHE s (mem s cell); ck = get_trap_kind s (GET_CACHE_VALUE s cache)
                       in if ck = TRAP_UNBOUND then returnp (PRIM_DONE, Some SHARP_F) s
                          else if ck = NON_TRAP_KIND \<or> ck = TRAP_UNASSIGNED \<or> ck = TRAP_MACRO
                          then (if PROCEDURE_FRAME_P frame
                                then bindp (unbind_cached_variable cell frame symbol) (\<lambda>code.
                                  returnp (if code \<noteq> PRIM_DONE then (code, None) else (PRIM_DONE, Some SHARP_T))) s
                                else returnp (PRIM_DONE, Some SHARP_T) (SET_CACHE_VALUE cache UNBOUND_OBJECT s))
                          else returnp (ERR_ILLEGAL_REFERENCE_TRAP, None) s)
                 else returnp (ERR_ILLEGAL_REFERENCE_TRAP, None) s)))"

section \<open>Primitives\<close>

definition signal_code :: "int \<Rightarrow> 'a proc" where
  "signal_code code = act (abort_with (if code = PRIM_INTERRUPT_CODE then PRIM_INTERRUPT else Error_Code code))"

definition STD_LOOKUP :: "(int \<times> ulong option) proc \<Rightarrow> ulong proc" where
  "STD_LOOKUP m = bindp m (\<lambda>(code, v). if code \<noteq> PRIM_DONE then signal_code code else returnp (the v))"

definition STD_LOOKUP_CODE :: "int proc \<Rightarrow> ulong \<Rightarrow> ulong proc" where
  "STD_LOOKUP_CODE m v = bindp m (\<lambda>code. if code \<noteq> PRIM_DONE then signal_code code else returnp v)"

definition check_arg :: "nat \<Rightarrow> (ulong \<Rightarrow> bool) \<Rightarrow> ulong \<Rightarrow> 'a proc \<Rightarrow> 'a proc" where
  "check_arg n p x k = (if \<not> p x then act (error_wrong_type_arg n) else k)"

definition Prim_lexical_reference :: "ulong \<Rightarrow> ulong \<Rightarrow> ulong proc" where
  "Prim_lexical_reference env symbol = check_arg 1 ENVIRONMENT_P env (check_arg 2 SYMBOL_P symbol (STD_LOOKUP (lookup_variable env symbol)))"

definition Prim_local_reference :: "ulong \<Rightarrow> ulong \<Rightarrow> ulong proc" where
  "Prim_local_reference env symbol = check_arg 1 ENVIRONMENT_P env (check_arg 2 SYMBOL_P symbol (STD_LOOKUP (lookup_variable env symbol)))"

definition Prim_lexical_assignment :: "ulong \<Rightarrow> ulong \<Rightarrow> ulong \<Rightarrow> ulong proc" where
  "Prim_lexical_assignment env symbol v =
     check_arg 1 ENVIRONMENT_P env (check_arg 2 SYMBOL_P symbol (STD_LOOKUP (assign_variable env symbol v)))"

definition Prim_local_assignment :: "ulong \<Rightarrow> ulong \<Rightarrow> ulong \<Rightarrow> ulong proc" where
  "Prim_local_assignment env symbol v =
     check_arg 1 ENVIRONMENT_P env (check_arg 2 SYMBOL_P symbol (STD_LOOKUP_CODE (define_variable env symbol v) symbol))"

definition Prim_lexical_reference_type :: "ulong \<Rightarrow> ulong \<Rightarrow> ulong proc" where
  "Prim_lexical_reference_type env symbol =
     check_arg 1 ENVIRONMENT_P env (check_arg 2 SYMBOL_P symbol (bindp (lookup_variable env symbol) (\<lambda>(code, v).
       if code = ERR_UNBOUND_VARIABLE then returnp (LONG_TO_UNSIGNED_FIXNUM 0)
       else if code = ERR_UNASSIGNED_VARIABLE then returnp (LONG_TO_UNSIGNED_FIXNUM 1)
       else if code = PRIM_DONE then returnp (LONG_TO_UNSIGNED_FIXNUM 2)
       else if code = ERR_MACRO_BINDING then returnp (LONG_TO_UNSIGNED_FIXNUM 3)
       else signal_code code)))"

definition Prim_safe_lexical_reference :: "ulong \<Rightarrow> ulong \<Rightarrow> ulong proc" where
  "Prim_safe_lexical_reference env symbol =
     check_arg 1 ENVIRONMENT_P env (check_arg 2 SYMBOL_P symbol (bindp (lookup_variable env symbol) (\<lambda>(code, v).
       if code = PRIM_DONE \<or> code = ERR_MACRO_BINDING then returnp (the v)
       else if code = ERR_UNASSIGNED_VARIABLE then returnp UNASSIGNED_OBJECT
       else signal_code code)))"

definition Prim_unassigned_test :: "ulong \<Rightarrow> ulong \<Rightarrow> ulong proc" where
  "Prim_unassigned_test env symbol = check_arg 1 ENVIRONMENT_P env (check_arg 2 SYMBOL_P symbol (STD_LOOKUP (variable_unassigned_p env symbol)))"

definition Prim_unbound_test :: "ulong \<Rightarrow> ulong \<Rightarrow> ulong proc" where
  "Prim_unbound_test env symbol = check_arg 1 ENVIRONMENT_P env (check_arg 2 SYMBOL_P symbol (STD_LOOKUP (variable_unbound_p env symbol)))"

definition Prim_unreferenceable_test :: "ulong \<Rightarrow> ulong \<Rightarrow> ulong proc" where
  "Prim_unreferenceable_test env symbol = STD_LOOKUP (variable_unreferenceable_p env symbol)"

definition Prim_environment_link_name :: "ulong \<Rightarrow> ulong \<Rightarrow> ulong \<Rightarrow> ulong proc" where
  "Prim_environment_link_name env1 env2 symbol =
     check_arg 1 ENVIRONMENT_P env1 (check_arg 2 ENVIRONMENT_P env2 (check_arg 3 SYMBOL_P symbol
       (STD_LOOKUP_CODE (link_variables env1 symbol env2 symbol) UNSPECIFIC)))"

definition Prim_link_variables :: "ulong \<Rightarrow> ulong \<Rightarrow> ulong \<Rightarrow> ulong \<Rightarrow> ulong proc" where
  "Prim_link_variables target_env target_name source_env source_name =
     check_arg 1 ENVIRONMENT_P target_env (check_arg 2 SYMBOL_P target_name (check_arg 3 ENVIRONMENT_P source_env (check_arg 4 SYMBOL_P source_name
       (STD_LOOKUP_CODE (link_variables target_env target_name source_env source_name) UNSPECIFIC))))"

definition Prim_unbind_variable :: "ulong \<Rightarrow> ulong \<Rightarrow> ulong proc" where
  "Prim_unbind_variable env symbol = check_arg 1 ENVIRONMENT_P env (check_arg 2 SYMBOL_P symbol (STD_LOOKUP (unbind_variable env symbol)))"

end
