(* ===== verification/Gc_Loop.thy ===== *)
theory Gc_Loop
  imports Vector_Correct
begin

text \<open>
  The core of the garbage collector (\<open>microcode/gcloop.c\<close>, \<open>gccode.h\<close>), on the configuration
  without compiled code (\<open>CC_SUPPORT_P\<close> undefined) and without the debugging tools. The state
  extends the machine by the static variables of \<open>gcloop.c\<close> and the variables of the
  collection in \<open>memmag.c\<close>. Addresses are word indices from \<open>memory_base\<close>; tospace is a
  range of the same memory. A null pointer is \<open>None\<close>; tospace is closed, its pointers null,
  when \<open>tospace_open_p\<close> is false. The table of handlers holds the names of the handler
  functions, in the place of pointers to them. Every function returns an option, for loops
  that need not end, of the collector's death or a result with the new state.
\<close>

section \<open>State\<close>

datatype gc_handler =
  Handle_Non_Pointer | Handle_Cell | Handle_Pair | Handle_Triple | Handle_Quadruple | Handle_Weak_Pair
| Handle_Ephemeron | Handle_Cc_Entry | Handle_Cc_Return | Handle_Aligned_Vector | Handle_Unaligned_Vector
| Handle_Broken_Heart | Handle_Nmv | Handle_Reference_Trap | Handle_Linkage_Section
| Handle_Manifest_Closure | Handle_Undefined

record gc_table =
  handlers :: "gc_handler list"
  transport_p :: bool
  ignore_object_p :: "(ulong \<Rightarrow> bool) option"

record gc_state = machine +
  memory_base :: ulong
  tospace_open_p :: bool
  tospace_start :: nat
  tospace_next :: nat
  tospace_end :: nat
  newspace_start :: nat
  newspace_next :: nat
  newspace_end :: nat
  current_gc_table :: gc_table
  weak_chain :: "nat option"
  ephemeron_list :: ulong
  ephemeron_queue :: ulong
  scanning_ephemerons_p :: bool
  ephemeron_array :: ulong
  ephemeron_count :: ulong
  n_ephemerons_requested :: ulong
  ephemeron_request_hard_p :: bool
  stack_start :: nat
  stack_pointer :: nat
  stack_end :: nat
  constant_start :: nat
  constant_alloc_next :: nat
  constant_end :: nat
  history_register :: nat
  saved_to :: nat
  heap_reserved :: nat

datatype gc_death =
  Broken_Heart_In_Scan ulong | Bad_Type ulong | No_Compiled_Code_Support | Transport_Not_Allowed
| Tospace_Already_Open | Unknown_Special_Type nat | Weak_Non_Pointer | Division_By_Zero | Out_Of_Memory | Bad_Configuration | Allocation_Too_Large

type_synonym 'a gc = "gc_state \<Rightarrow> (gc_death + 'a \<times> gc_state) option"

definition gc_return :: "'a \<Rightarrow> 'a gc" where
  "gc_return a s = Some (Inr (a, s))"

definition std_gc_death :: "gc_death \<Rightarrow> 'a gc" where
  "std_gc_death d s = Some (Inl d)"

definition gc_bind :: "'a gc \<Rightarrow> ('a \<Rightarrow> 'b gc) \<Rightarrow> 'b gc" where
  "gc_bind m f s = (case m s of None \<Rightarrow> None | Some (Inl d) \<Rightarrow> Some (Inl d) | Some (Inr (a, s')) \<Rightarrow> f a s')"

text \<open>\<open>while (c) { x = b(x); }\<close>\<close>

partial_function (option) gc_while :: "('x \<Rightarrow> gc_state \<Rightarrow> bool) \<Rightarrow> ('x \<Rightarrow> 'x gc) \<Rightarrow> 'x \<Rightarrow> 'x gc" where
  "gc_while c b x s =
     (if c x s then
        (case b x s of None \<Rightarrow> None | Some (Inl d) \<Rightarrow> Some (Inl d) | Some (Inr (x', s')) \<Rightarrow> gc_while c b x' s')
      else Some (Inr (x, s)))"

definition store :: "nat \<Rightarrow> ulong \<Rightarrow> gc_state \<Rightarrow> gc_state" where
  "store a v s = s\<lparr>mem := (mem s)(a := v)\<rparr>"

section \<open>Tospace\<close>

definition ADDRESS_IN_FROMSPACE_P :: "gc_state \<Rightarrow> nat \<Rightarrow> bool" where
  "ADDRESS_IN_FROMSPACE_P s addr = (addr \<ge> heap_start s \<and> addr < Free s)"

definition TOSPACE_TO_NEWSPACE :: "gc_state \<Rightarrow> nat \<Rightarrow> nat" where
  "TOSPACE_TO_NEWSPACE s p = p - tospace_start s + newspace_start s"
definition NEWSPACE_TO_TOSPACE :: "gc_state \<Rightarrow> nat \<Rightarrow> nat" where
  "NEWSPACE_TO_TOSPACE s p = p - newspace_start s + tospace_start s"
definition READ_TOSPACE :: "gc_state \<Rightarrow> nat \<Rightarrow> ulong" where
  "READ_TOSPACE s addr = mem s (NEWSPACE_TO_TOSPACE s addr)"
definition WRITE_TOSPACE :: "nat \<Rightarrow> ulong \<Rightarrow> gc_state \<Rightarrow> gc_state" where
  "WRITE_TOSPACE addr obj s = store (NEWSPACE_TO_TOSPACE s addr) obj s"

definition CLOSE_TOSPACE :: "gc_state \<Rightarrow> gc_state" where
  "CLOSE_TOSPACE s = s\<lparr>tospace_open_p := False\<rparr>"

definition GUARANTEE_TOSPACE_OPEN :: "'a gc \<Rightarrow> 'a gc" where
  "GUARANTEE_TOSPACE_OPEN k s = (if tospace_open_p s then k s else std_gc_death Transport_Not_Allowed s)"
definition GUARANTEE_TOSPACE_CLOSED :: "'a gc \<Rightarrow> 'a gc" where
  "GUARANTEE_TOSPACE_CLOSED k s = (if tospace_open_p s then std_gc_death Tospace_Already_Open s else k s)"

definition open_tospace :: "nat \<Rightarrow> unit gc" where
  "open_tospace start = GUARANTEE_TOSPACE_CLOSED (\<lambda>s. gc_return ()
     (s\<lparr>tospace_open_p := True, tospace_next := tospace_start s, newspace_start := start, newspace_next := start,
        newspace_end := start + (tospace_end s - tospace_start s)\<rparr>))"

text \<open>
  The allocator of tospace is the code of \<open>memmag.c\<close>; what \<open>malloc\<close> and \<open>realloc\<close> return for the new
  number of words is the parameter \<open>alloc\<close>. Without memory the process exits.
\<close>

definition allocate_tospace :: "(nat \<Rightarrow> nat option) \<Rightarrow> nat \<Rightarrow> unit gc" where
  "allocate_tospace alloc n_words s =
     (if n_words > 0
      then (case alloc n_words of None \<Rightarrow> std_gc_death Out_Of_Memory s
            | Some p \<Rightarrow> gc_return () (s\<lparr>tospace_start := p, tospace_end := p + n_words\<rparr>))
      else gc_return () (s\<lparr>tospace_start := 0, tospace_end := 0\<rparr>))"

definition initialize_gc :: "(nat \<Rightarrow> nat option) \<Rightarrow> nat \<Rightarrow> unit gc" where
  "initialize_gc alloc n_words s =
     allocate_tospace alloc n_words ((CLOSE_TOSPACE s)\<lparr>tospace_start := 0, tospace_end := 0\<rparr>)"

definition resize_tospace :: "(nat \<Rightarrow> nat option) \<Rightarrow> nat \<Rightarrow> unit gc" where
  "resize_tospace alloc n_words = GUARANTEE_TOSPACE_CLOSED (allocate_tospace alloc n_words)"

text \<open>The walk is \<open>proc (tospace_start, tospace_next, ctx)\<close>; freeing pages changes no state of the model.\<close>

definition save_tospace :: "(nat \<Rightarrow> nat \<Rightarrow> gc_state \<Rightarrow> bool \<times> gc_state) \<Rightarrow> bool gc" where
  "save_tospace proc = GUARANTEE_TOSPACE_OPEN (\<lambda>s.
     case proc (tospace_start s) (tospace_next s) s of (ok, s) \<Rightarrow> gc_return ok (CLOSE_TOSPACE s))"

definition discard_tospace :: "unit gc" where
  "discard_tospace = GUARANTEE_TOSPACE_OPEN (\<lambda>s. gc_return () (CLOSE_TOSPACE s))"

definition tospace_available_p :: "nat \<Rightarrow> bool gc" where
  "tospace_available_p n_words = GUARANTEE_TOSPACE_OPEN (\<lambda>s. gc_return (tospace_end s - tospace_next s \<ge> n_words) s)"

text \<open>\<open>(*tospace_next++) = object; newspace_next += 1;\<close>\<close>

definition push_tospace :: "ulong \<Rightarrow> gc_state \<Rightarrow> gc_state" where
  "push_tospace x s = (store (tospace_next s) x s)\<lparr>tospace_next := tospace_next s + 1, newspace_next := newspace_next s + 1\<rparr>"

definition add_to_tospace :: "ulong \<Rightarrow> unit gc" where
  "add_to_tospace x = GUARANTEE_TOSPACE_OPEN (\<lambda>s. gc_return () (push_tospace x s))"

definition read_tospace :: "nat \<Rightarrow> ulong gc" where
  "read_tospace addr = GUARANTEE_TOSPACE_OPEN (\<lambda>s. gc_return (READ_TOSPACE s addr) s)"

definition write_tospace :: "nat \<Rightarrow> ulong \<Rightarrow> unit gc" where
  "write_tospace addr x = GUARANTEE_TOSPACE_OPEN (\<lambda>s. gc_return () (WRITE_TOSPACE addr x s))"

definition increment_tospace_ptr :: "nat \<Rightarrow> unit gc" where
  "increment_tospace_ptr n_words = GUARANTEE_TOSPACE_OPEN (\<lambda>s. gc_return ()
     (s\<lparr>tospace_next := tospace_next s + n_words, newspace_next := newspace_next s + n_words\<rparr>))"

definition get_newspace_ptr :: "gc_state \<Rightarrow> nat" where
  "get_newspace_ptr s = newspace_next s"

definition tospace_to_newspace :: "gc_state \<Rightarrow> nat \<Rightarrow> nat" where
  "tospace_to_newspace s addr =
     (if addr \<ge> tospace_start s \<and> addr \<le> tospace_end s then addr - tospace_start s + newspace_start s else addr)"

definition newspace_to_tospace :: "gc_state \<Rightarrow> nat \<Rightarrow> nat" where
  "newspace_to_tospace s addr =
     (if addr \<ge> newspace_start s \<and> addr \<le> newspace_end s then addr - newspace_start s + tospace_start s else addr)"

section \<open>The table of handlers\<close>

definition GC_TYPE :: "ulong \<Rightarrow> gc_type" where "GC_TYPE x = gc_type_code (OBJECT_TYPE x)"

definition type_handler :: "nat \<Rightarrow> gc_handler gc" where
  "type_handler i =
     (case gc_type_map ! i of
        GC_NON_POINTER \<Rightarrow> gc_return Handle_Non_Pointer
      | GC_CELL \<Rightarrow> gc_return Handle_Cell
      | GC_PAIR \<Rightarrow> gc_return Handle_Pair
      | GC_TRIPLE \<Rightarrow> gc_return Handle_Triple
      | GC_QUADRUPLE \<Rightarrow> gc_return Handle_Quadruple
      | GC_VECTOR \<Rightarrow> gc_return Handle_Unaligned_Vector
      | GC_COMPILED_ENTRY \<Rightarrow> gc_return Handle_Cc_Entry
      | GC_COMPILED_RETURN \<Rightarrow> gc_return Handle_Cc_Return
      | GC_UNDEFINED \<Rightarrow> gc_return Handle_Undefined
      | GC_SPECIAL \<Rightarrow>
          (if i = unat TC_BROKEN_HEART then gc_return Handle_Broken_Heart
           else if i = unat TC_REFERENCE_TRAP then gc_return Handle_Reference_Trap
           else if i = unat TC_LINKAGE_SECTION then gc_return Handle_Linkage_Section
           else if i = unat TC_MANIFEST_CLOSURE then gc_return Handle_Manifest_Closure
           else if i = unat TC_MANIFEST_NM_VECTOR then gc_return Handle_Nmv
           else std_gc_death (Unknown_Special_Type i)))"

fun all_handlers :: "nat list \<Rightarrow> gc_handler list gc" where
  "all_handlers [] = gc_return []"
| "all_handlers (i # is) = gc_bind (type_handler i) (\<lambda>h. gc_bind (all_handlers is) (\<lambda>hs. gc_return (h # hs)))"

definition initialize_gc_table :: "bool \<Rightarrow> gc_table gc" where
  "initialize_gc_table transport =
     gc_bind (all_handlers [0..<N_TYPE_CODES]) (\<lambda>table.
       gc_return \<lparr>handlers = table [unat TC_WEAK_CONS := Handle_Weak_Pair, unat TC_EPHEMERON := Handle_Ephemeron,
           unat TC_BIG_FLONUM := Handle_Aligned_Vector, unat TC_COMPILED_CODE_BLOCK := Handle_Aligned_Vector],
         transport_p = transport, ignore_object_p = None\<rparr>)"

text \<open>The standard table is built once; it is the same at every call.\<close>

definition std_gc_table :: "gc_table gc" where
  "std_gc_table = initialize_gc_table True"

definition GCT_ENTRY :: "gc_table \<Rightarrow> ulong \<Rightarrow> gc_handler" where
  "GCT_ENTRY table ty = handlers table ! unat ty"

section \<open>References to objects\<close>

definition OBJECT_NEW_ADDRESS :: "ulong \<Rightarrow> nat \<Rightarrow> ulong" where
  "OBJECT_NEW_ADDRESS x address = OBJECT_NEW_DATUM x (word_of_nat address)"
definition MAKE_BROKEN_HEART :: "nat \<Rightarrow> ulong" where
  "MAKE_BROKEN_HEART address = MAKE_POINTER_OBJECT TC_BROKEN_HEART address"
definition BROKEN_HEART_P :: "ulong \<Rightarrow> bool" where "BROKEN_HEART_P x = (OBJECT_TYPE x = TC_BROKEN_HEART)"
definition EPHEMERON_P :: "ulong \<Rightarrow> bool" where "EPHEMERON_P x = (OBJECT_TYPE x = TC_EPHEMERON)"

definition EPHEMERON_KEY :: nat where [simp]: "EPHEMERON_KEY = 1"
definition EPHEMERON_DATUM :: nat where [simp]: "EPHEMERON_DATUM = 2"
definition EPHEMERON_LIST :: nat where [simp]: "EPHEMERON_LIST = 3"
definition EPHEMERON_NEXT :: nat where [simp]: "EPHEMERON_NEXT = 4"
definition EPHEMERON_SIZE :: nat where [simp]: "EPHEMERON_SIZE = 5"
definition CONS_CDR :: nat where [simp]: "CONS_CDR = 1"
definition MARKED_EPHEMERON_MANIFEST :: ulong where
  "MARKED_EPHEMERON_MANIFEST = MAKE_OBJECT TC_MANIFEST_VECTOR (of_nat (EPHEMERON_SIZE - 1))"
definition UNMARKED_EPHEMERON_MANIFEST :: ulong where
  "UNMARKED_EPHEMERON_MANIFEST = MAKE_OBJECT TC_MANIFEST_NM_VECTOR (of_nat (EPHEMERON_SIZE - 1))"

datatype gc_ptr_type = GC_POINTER_NORMAL | GC_POINTER_COMPILED_ENTRY | GC_POINTER_COMPILED_RETURN | GC_POINTER_NOT

definition gc_ptr_type :: "ulong \<Rightarrow> gc_ptr_type" where
  "gc_ptr_type x =
     (case GC_TYPE x of
        GC_SPECIAL \<Rightarrow> (if REFERENCE_TRAP_P x \<and> OBJECT_DATUM x \<ge> TRAP_MAX_IMMEDIATE then GC_POINTER_NORMAL else GC_POINTER_NOT)
      | GC_CELL \<Rightarrow> GC_POINTER_NORMAL
      | GC_PAIR \<Rightarrow> GC_POINTER_NORMAL
      | GC_TRIPLE \<Rightarrow> GC_POINTER_NORMAL
      | GC_QUADRUPLE \<Rightarrow> GC_POINTER_NORMAL
      | GC_VECTOR \<Rightarrow> GC_POINTER_NORMAL
      | GC_COMPILED_ENTRY \<Rightarrow> GC_POINTER_COMPILED_ENTRY
      | GC_COMPILED_RETURN \<Rightarrow> GC_POINTER_COMPILED_RETURN
      | _ \<Rightarrow> GC_POINTER_NOT)"

text \<open>Without compiled code the cases of compiled pointers fall through to the default.\<close>

definition get_object_address :: "ulong \<Rightarrow> nat option" where
  "get_object_address x = (case gc_ptr_type x of GC_POINTER_NORMAL \<Rightarrow> Some (OBJECT_ADDRESS x) | _ \<Rightarrow> None)"

definition weak_referent_address :: "ulong \<Rightarrow> nat option gc" where
  "weak_referent_address x =
     (case gc_ptr_type x of
        GC_POINTER_NORMAL \<Rightarrow> gc_return (Some (OBJECT_ADDRESS x))
      | GC_POINTER_COMPILED_ENTRY \<Rightarrow> std_gc_death No_Compiled_Code_Support
      | GC_POINTER_COMPILED_RETURN \<Rightarrow> std_gc_death No_Compiled_Code_Support
      | GC_POINTER_NOT \<Rightarrow> gc_return None)"

definition weak_referent_forward :: "ulong \<Rightarrow> ulong \<Rightarrow> ulong gc" where
  "weak_referent_forward x collected s =
     (case gc_ptr_type x of
        GC_POINTER_NORMAL \<Rightarrow>
          (let addr = OBJECT_ADDRESS x
           in if BROKEN_HEART_P (mem s addr) then gc_return (MAKE_OBJECT_FROM_OBJECTS x (mem s addr)) s
              else gc_return collected s)
      | GC_POINTER_COMPILED_ENTRY \<Rightarrow> std_gc_death No_Compiled_Code_Support s
      | GC_POINTER_COMPILED_RETURN \<Rightarrow> std_gc_death No_Compiled_Code_Support s
      | GC_POINTER_NOT \<Rightarrow> std_gc_death Weak_Non_Pointer s)"

section \<open>Moving words\<close>

text \<open>\<open>((unsigned long) addr) % (VECTOR_LENGTH (ht))\<close>; a division by zero ends the process.\<close>

definition ephemeron_index :: "nat \<Rightarrow> nat gc" where
  "ephemeron_index addr s =
     (let len = VECTOR_LENGTH (machine.truncate s) (ephemeron_array s)
      in if len = 0 then std_gc_death Division_By_Zero s
         else gc_return (unat ((memory_base s + 8 * word_of_nat addr) mod len)) s)"

definition queue_ephemerons_for_key :: "nat \<Rightarrow> unit gc" where
  "queue_ephemerons_for_key addr =
     gc_bind (ephemeron_index addr) (\<lambda>index s.
       gc_bind (gc_while (\<lambda>entry_loc s. EPHEMERON_P (mem s entry_loc))
         (\<lambda>entry_loc s.
            let entry = mem s entry_loc;
                entry_addr = OBJECT_ADDRESS entry;
                next_loc = NEWSPACE_TO_TOSPACE s (entry_addr + EPHEMERON_NEXT)
            in gc_bind (weak_referent_address (READ_TOSPACE s (entry_addr + EPHEMERON_KEY))) (\<lambda>key_addr s.
                 if key_addr = Some addr
                 then let s = store entry_loc (mem s next_loc) s;
                          s = store next_loc (ephemeron_queue s) s
                      in gc_return next_loc (s\<lparr>ephemeron_queue := entry\<rparr>)
                 else gc_return next_loc s) s)
         (VECTOR_LOC (ephemeron_array s) index)) (\<lambda>_. gc_return ()) s)"

definition gc_precheck_from :: "nat \<Rightarrow> nat option gc" where
  "gc_precheck_from from_addr s =
     (if \<not> ADDRESS_IN_FROMSPACE_P s from_addr then gc_return (Some from_addr) s
      else if BROKEN_HEART_P (mem s from_addr) then gc_return (Some (OBJECT_ADDRESS (mem s from_addr))) s
      else if scanning_ephemerons_p s then gc_bind (queue_ephemerons_for_key from_addr) (\<lambda>_. gc_return None) s
      else gc_return None s)"

definition gc_precheck_from_no_transport :: "nat \<Rightarrow> nat option gc" where
  "gc_precheck_from_no_transport from_addr = gc_return (Some from_addr)"

definition GC_PRECHECK_FROM :: "nat \<Rightarrow> nat option gc" where
  "GC_PRECHECK_FROM from_addr s =
     (if transport_p (current_gc_table s) then gc_precheck_from from_addr s
      else gc_precheck_from_no_transport from_addr s)"

definition FLOATING_ALIGNMENT :: ulong where "FLOATING_ALIGNMENT = 0x7"

definition FLOATING_ALIGNED_P :: "gc_state \<Rightarrow> nat \<Rightarrow> bool" where
  "FLOATING_ALIGNED_P s ptr = ((memory_base s + 8 * (word_of_nat ptr + 1)) AND FLOATING_ALIGNMENT = 0)"

primrec transport_loop :: "nat \<Rightarrow> nat \<Rightarrow> gc_state \<Rightarrow> gc_state" where
  "transport_loop 0 from_addr s = s"
| "transport_loop (Suc n) from_addr s = transport_loop n (from_addr + 1) (push_tospace (mem s from_addr) s)"

definition gc_transport_words :: "nat \<Rightarrow> nat \<Rightarrow> bool \<Rightarrow> nat gc" where
  "gc_transport_words from_addr n_words align_p = GUARANTEE_TOSPACE_OPEN
     (gc_bind (if align_p
         then gc_while (\<lambda>_ s. \<not> FLOATING_ALIGNED_P s (newspace_next s))
           (\<lambda>_ s. gc_return () (push_tospace (MAKE_OBJECT TC_MANIFEST_NM_VECTOR 0) s)) ()
         else gc_return ())
       (\<lambda>_ s. let new_address = newspace_next s;
                 s = transport_loop n_words from_addr s
             in gc_return new_address (store from_addr (MAKE_BROKEN_HEART new_address) s)))"

definition gc_no_transport_words :: "nat \<Rightarrow> nat \<Rightarrow> bool \<Rightarrow> nat gc" where
  "gc_no_transport_words from_addr n_words align_p = std_gc_death Transport_Not_Allowed"

definition GC_TRANSPORT_WORDS :: "nat \<Rightarrow> nat \<Rightarrow> bool \<Rightarrow> nat gc" where
  "GC_TRANSPORT_WORDS from_addr n_words align_p s =
     (if transport_p (current_gc_table s) then gc_transport_words from_addr n_words align_p s
      else gc_no_transport_words from_addr n_words align_p s)"

text \<open>
  The test of the loop over the cdrs calls the precheck, which may queue ephemerons, so the
  loop's variable says whether its test has held. After a null precheck \<open>None\<close> the loop
  transports the next pair.
\<close>

definition cdr_untransported_p :: "ulong \<Rightarrow> bool gc" where
  "cdr_untransported_p cdr =
     (if OBJECT_TYPE cdr = TC_LIST
      then gc_bind (GC_PRECHECK_FROM (OBJECT_ADDRESS cdr)) (\<lambda>new. gc_return (new = None))
      else gc_return False)"

definition transport_cdrs :: "ulong \<Rightarrow> unit gc" where
  "transport_cdrs cdr =
     gc_bind (cdr_untransported_p cdr) (\<lambda>go.
     gc_bind (gc_while (\<lambda>(cdr, go) s. go)
       (\<lambda>(cdr, go). gc_bind (GC_TRANSPORT_WORDS (OBJECT_ADDRESS cdr) 2 False) (\<lambda>new s.
          let cdr = READ_TOSPACE s (new + CONS_CDR)
          in gc_bind (cdr_untransported_p cdr) (\<lambda>go. gc_return (cdr, go)) s)) (cdr, go)) (\<lambda>_. gc_return ()))"

definition gc_tuple :: "ulong \<Rightarrow> nat \<Rightarrow> ulong gc" where
  "gc_tuple tuple n_words =
     (let from_addr = OBJECT_ADDRESS tuple
      in gc_bind (GC_PRECHECK_FROM from_addr) (\<lambda>new_address.
           case new_address of
             Some new_address \<Rightarrow> gc_return (OBJECT_NEW_ADDRESS tuple new_address)
           | None \<Rightarrow>
               gc_bind (GC_TRANSPORT_WORDS from_addr n_words False) (\<lambda>new_address s.
                 gc_bind (if n_words = 2 then transport_cdrs (READ_TOSPACE s (new_address + CONS_CDR)) else gc_return ())
                   (\<lambda>_. gc_return (OBJECT_NEW_ADDRESS tuple new_address)) s)))"

definition gc_vector :: "ulong \<Rightarrow> bool \<Rightarrow> ulong gc" where
  "gc_vector vector align_p =
     (let from_addr = OBJECT_ADDRESS vector
      in gc_bind (GC_PRECHECK_FROM from_addr) (\<lambda>new_address s.
           case new_address of
             Some new_address \<Rightarrow> gc_return (OBJECT_NEW_ADDRESS vector new_address) s
           | None \<Rightarrow>
               gc_bind (GC_TRANSPORT_WORDS from_addr (1 + unat (OBJECT_DATUM (mem s from_addr))) align_p)
                 (\<lambda>new_address. gc_return (OBJECT_NEW_ADDRESS vector new_address)) s))"

definition gc_cc_entry :: "ulong \<Rightarrow> ulong gc" where "gc_cc_entry x = std_gc_death No_Compiled_Code_Support"
definition gc_cc_return :: "ulong \<Rightarrow> ulong gc" where "gc_cc_return x = std_gc_death No_Compiled_Code_Support"

section \<open>Weak pairs and ephemerons\<close>

definition gc_transport_weak_pair :: "ulong \<Rightarrow> ulong gc" where
  "gc_transport_weak_pair pair =
     (let old_addr = OBJECT_ADDRESS pair
      in gc_bind (GC_TRANSPORT_WORDS old_addr 2 False) (\<lambda>new_addr s.
           let old_car = READ_TOSPACE s new_addr
           in gc_bind (weak_referent_address old_car) (\<lambda>caddr s.
                case caddr of
                  None \<Rightarrow> gc_return (OBJECT_NEW_ADDRESS pair new_addr) s
                | Some caddr \<Rightarrow>
                    (if ADDRESS_IN_FROMSPACE_P s caddr
                     then let s = WRITE_TOSPACE new_addr (OBJECT_NEW_TYPE TC_FALSE old_car) s;
                              s = store (old_addr + 1)
                                (case weak_chain s of None \<Rightarrow> MAKE_OBJECT (OBJECT_TYPE old_car) 0
                                 | Some chain \<Rightarrow> MAKE_POINTER_OBJECT (OBJECT_TYPE old_car) chain) s
                          in gc_return (OBJECT_NEW_ADDRESS pair new_addr) (s\<lparr>weak_chain := Some old_addr\<rparr>)
                     else gc_return (OBJECT_NEW_ADDRESS pair new_addr) s)) s))"

definition gc_transport_ephemeron :: "ulong \<Rightarrow> ulong gc" where
  "gc_transport_ephemeron old_ephemeron =
     (let old_addr = OBJECT_ADDRESS old_ephemeron
      in gc_bind (GC_TRANSPORT_WORDS old_addr EPHEMERON_SIZE False) (\<lambda>new_addr s.
           let new_ephemeron = OBJECT_NEW_ADDRESS old_ephemeron new_addr;
               old_key = READ_TOSPACE s (new_addr + EPHEMERON_KEY)
           in gc_bind (weak_referent_address old_key) (\<lambda>old_key_addr s.
                let s = s\<lparr>ephemeron_count := ephemeron_count s + 1\<rparr>
                in gc_bind (case old_key_addr of
                       None \<Rightarrow> gc_return True
                     | Some a \<Rightarrow> (\<lambda>s. if \<not> ADDRESS_IN_FROMSPACE_P s a then gc_return True s
                                       else gc_bind (weak_referent_forward old_key SHARP_F) (\<lambda>f. gc_return (SHARP_F \<noteq> f)) s))
                     (\<lambda>live s.
                        if live then gc_return new_ephemeron (WRITE_TOSPACE new_addr MARKED_EPHEMERON_MANIFEST s)
                        else let s = WRITE_TOSPACE new_addr UNMARKED_EPHEMERON_MANIFEST s
                             in gc_bind (ephemeron_index (the old_key_addr)) (\<lambda>index s.
                                  let slot = VECTOR_LOC (ephemeron_array s) index;
                                      s = WRITE_TOSPACE (new_addr + EPHEMERON_NEXT) (mem s slot) s;
                                      s = store slot new_ephemeron s;
                                      s = WRITE_TOSPACE (new_addr + EPHEMERON_LIST) (ephemeron_list s) s
                                  in gc_return new_ephemeron (s\<lparr>ephemeron_list := new_ephemeron\<rparr>)) s) s) s))"

section \<open>The handlers and the loop\<close>

text \<open>\<open>(*scan) = f (object); return (scan + 1);\<close>\<close>

definition replace_word :: "nat \<Rightarrow> ulong gc \<Rightarrow> nat gc" where
  "replace_word scan f = gc_bind f (\<lambda>x s. gc_return (scan + 1) (store scan x s))"

definition gc_handle_weak_pair :: "nat \<Rightarrow> ulong \<Rightarrow> nat gc" where
  "gc_handle_weak_pair scan x =
     replace_word scan (gc_bind (GC_PRECHECK_FROM (OBJECT_ADDRESS x)) (\<lambda>new_address.
       case new_address of Some new_address \<Rightarrow> gc_return (OBJECT_NEW_ADDRESS x new_address)
       | None \<Rightarrow> gc_transport_weak_pair x))"

definition gc_handle_ephemeron :: "nat \<Rightarrow> ulong \<Rightarrow> nat gc" where
  "gc_handle_ephemeron scan x =
     replace_word scan (gc_bind (GC_PRECHECK_FROM (OBJECT_ADDRESS x)) (\<lambda>new_address.
       case new_address of Some new_address \<Rightarrow> gc_return (OBJECT_NEW_ADDRESS x new_address)
       | None \<Rightarrow> gc_transport_ephemeron x))"

definition gc_handle_reference_trap :: "nat \<Rightarrow> ulong \<Rightarrow> nat gc" where
  "gc_handle_reference_trap scan x =
     replace_word scan (if OBJECT_DATUM x \<le> TRAP_MAX_IMMEDIATE then gc_return x else gc_tuple x 2)"

definition gc_handle_nmv :: "nat \<Rightarrow> ulong \<Rightarrow> nat gc" where
  "gc_handle_nmv scan x = gc_return (scan + 1 + unat (OBJECT_DATUM x))"

definition gc_handle :: "gc_handler \<Rightarrow> nat \<Rightarrow> ulong \<Rightarrow> nat gc" where
  "gc_handle h scan x =
     (case h of
        Handle_Non_Pointer \<Rightarrow> gc_return (scan + 1)
      | Handle_Cell \<Rightarrow> replace_word scan (gc_tuple x 1)
      | Handle_Pair \<Rightarrow> replace_word scan (gc_tuple x 2)
      | Handle_Triple \<Rightarrow> replace_word scan (gc_tuple x 3)
      | Handle_Quadruple \<Rightarrow> replace_word scan (gc_tuple x 4)
      | Handle_Weak_Pair \<Rightarrow> gc_handle_weak_pair scan x
      | Handle_Ephemeron \<Rightarrow> gc_handle_ephemeron scan x
      | Handle_Cc_Entry \<Rightarrow> replace_word scan (gc_cc_entry x)
      | Handle_Cc_Return \<Rightarrow> replace_word scan (gc_cc_return x)
      | Handle_Aligned_Vector \<Rightarrow> replace_word scan (gc_vector x True)
      | Handle_Unaligned_Vector \<Rightarrow> replace_word scan (gc_vector x False)
      | Handle_Broken_Heart \<Rightarrow> std_gc_death (Broken_Heart_In_Scan x)
      | Handle_Nmv \<Rightarrow> gc_handle_nmv scan x
      | Handle_Reference_Trap \<Rightarrow> gc_handle_reference_trap scan x
      | Handle_Linkage_Section \<Rightarrow> std_gc_death No_Compiled_Code_Support
      | Handle_Manifest_Closure \<Rightarrow> std_gc_death No_Compiled_Code_Support
      | Handle_Undefined \<Rightarrow> std_gc_death (Bad_Type x))"

definition gc_ignored :: "gc_state \<Rightarrow> ulong \<Rightarrow> bool" where
  "gc_ignored s x = (case ignore_object_p (current_gc_table s) of None \<Rightarrow> False | Some p \<Rightarrow> p x)"

definition scan_word :: "nat \<Rightarrow> nat gc" where
  "scan_word scan s =
     (let x = mem s scan
      in if gc_ignored s x then gc_return (scan + 1) s
         else gc_handle (GCT_ENTRY (current_gc_table s) (OBJECT_TYPE x)) scan x s)"

text \<open>The end of the loop is read again at every test: it is \<open>tospace_next\<close> or a fixed address.\<close>

definition run_gc_loop :: "nat \<Rightarrow> (gc_state \<Rightarrow> nat) \<Rightarrow> nat gc" where
  "run_gc_loop start pend = gc_while (\<lambda>scan s. scan < pend s) scan_word start"

definition gc_scan_oldspace :: "nat \<Rightarrow> nat \<Rightarrow> unit gc" where
  "gc_scan_oldspace scan end_addr = gc_bind (run_gc_loop scan (\<lambda>_. end_addr)) (\<lambda>_. gc_return ())"

definition gc_scan_tospace :: "nat \<Rightarrow> nat option \<Rightarrow> unit gc" where
  "gc_scan_tospace scan end_addr s =
     gc_bind (case end_addr of
         None \<Rightarrow> run_gc_loop (NEWSPACE_TO_TOSPACE s scan) tospace_next
       | Some e \<Rightarrow> run_gc_loop (NEWSPACE_TO_TOSPACE s scan) (\<lambda>_. NEWSPACE_TO_TOSPACE s e)) (\<lambda>_. gc_return ()) s"

section \<open>The pass over the weak pointers\<close>

text \<open>The address after the word is ignored.\<close>

definition scan_newspace_addr :: "nat \<Rightarrow> unit gc" where
  "scan_newspace_addr addr s = gc_bind (scan_word (NEWSPACE_TO_TOSPACE s addr)) (\<lambda>_. gc_return ()) s"

definition queue_live_ephemeron :: "ulong \<Rightarrow> ulong gc" where
  "queue_live_ephemeron ephemeron s =
     (let ephemeron_addr = OBJECT_ADDRESS ephemeron;
          old_key = READ_TOSPACE s (ephemeron_addr + EPHEMERON_KEY);
          ephemeron = READ_TOSPACE s (ephemeron_addr + EPHEMERON_LIST)
      in gc_bind (weak_referent_forward old_key SHARP_F) (\<lambda>f.
           if SHARP_F \<noteq> f
           then gc_bind (weak_referent_address old_key) (\<lambda>a. gc_bind (queue_ephemerons_for_key (the a)) (\<lambda>_. gc_return ephemeron))
           else gc_return ephemeron) s)"

definition scan_queued_ephemeron :: "ulong \<Rightarrow> ulong gc" where
  "scan_queued_ephemeron ephemeron s =
     (let ephemeron_addr = OBJECT_ADDRESS ephemeron;
          s = s\<lparr>ephemeron_queue := READ_TOSPACE s (ephemeron_addr + EPHEMERON_NEXT)\<rparr>;
          saved_newspace_next = newspace_next s
      in gc_bind (scan_newspace_addr (ephemeron_addr + EPHEMERON_DATUM)) (\<lambda>_.
           gc_bind (gc_scan_tospace saved_newspace_next None) (\<lambda>_ s. gc_return (ephemeron_queue s) s)) s)"

definition scan_ephemerons :: "unit gc" where
  "scan_ephemerons s =
     gc_bind (gc_while (\<lambda>ephemeron s. EPHEMERON_P ephemeron) queue_live_ephemeron (ephemeron_list s)) (\<lambda>_ s.
       gc_bind (gc_while (\<lambda>ephemeron s. EPHEMERON_P ephemeron) scan_queued_ephemeron (ephemeron_queue s)) (\<lambda>_ s.
         gc_return () (s\<lparr>scanning_ephemerons_p := False\<rparr>)) s) (s\<lparr>scanning_ephemerons_p := True\<rparr>)"

definition initialize_weak_chain :: "gc_state \<Rightarrow> gc_state" where
  "initialize_weak_chain s = s\<lparr>weak_chain := None\<rparr>"

definition update_ephemeron :: "ulong \<Rightarrow> ulong gc" where
  "update_ephemeron ephemeron s =
     (let ephemeron_addr = OBJECT_ADDRESS ephemeron;
          key_loc = ephemeron_addr + EPHEMERON_KEY;
          old_key = READ_TOSPACE s key_loc
      in gc_bind (weak_referent_forward old_key SHARP_F) (\<lambda>new_key s.
           let s = WRITE_TOSPACE ephemeron_addr MARKED_EPHEMERON_MANIFEST s;
               s = WRITE_TOSPACE key_loc new_key s;
               ephemeron = READ_TOSPACE s (ephemeron_addr + EPHEMERON_LIST);
               s = WRITE_TOSPACE (ephemeron_addr + EPHEMERON_LIST) SHARP_F s;
               s = WRITE_TOSPACE (ephemeron_addr + EPHEMERON_NEXT) SHARP_F s
           in gc_return ephemeron
                (if new_key = SHARP_F then WRITE_TOSPACE (ephemeron_addr + EPHEMERON_DATUM) SHARP_F s else s)) s)"

definition update_ephemerons :: "unit gc" where
  "update_ephemerons s =
     gc_bind (gc_while (\<lambda>ephemeron s. EPHEMERON_P ephemeron) update_ephemeron (ephemeron_list s))
       (\<lambda>_ s. gc_return () (s\<lparr>ephemeron_list := SHARP_F\<rparr>)) s"

definition update_weak_pair :: "unit \<Rightarrow> unit gc" where
  "update_weak_pair _ s =
     (let chain = the (weak_chain s);
          new_addr = OBJECT_ADDRESS (mem s chain);
          obj = mem s (chain + 1);
          old_car = OBJECT_NEW_TYPE (OBJECT_TYPE obj) (READ_TOSPACE s new_addr)
      in gc_bind (weak_referent_forward old_car GC_RECLAIMED) (\<lambda>car s.
           gc_return () ((WRITE_TOSPACE new_addr car s)
             \<lparr>weak_chain := (if OBJECT_DATUM obj = 0 then None else Some (OBJECT_ADDRESS obj))\<rparr>)) s)"

definition update_weak_pairs :: "unit gc" where
  "update_weak_pairs = gc_while (\<lambda>_ s. weak_chain s \<noteq> None) update_weak_pair ()"

definition update_weak_pointers :: "unit gc" where
  "update_weak_pointers = gc_bind scan_ephemerons (\<lambda>_. gc_bind update_ephemerons (\<lambda>_. update_weak_pairs))"

section \<open>Rules\<close>

lemma gc_simps [simp]:
  "gc_return a s = Some (Inr (a, s))" "std_gc_death d s = Some (Inl d)"
  by (simp_all add: gc_return_def std_gc_death_def)

lemma gc_bind_simps [simp]:
  "m s = Some (Inr (a, s')) \<Longrightarrow> gc_bind m f s = f a s'" "m s = Some (Inl d) \<Longrightarrow> gc_bind m f s = Some (Inl d)"
  by (simp_all add: gc_bind_def)

lemma gc_bind_return [simp]: "gc_bind (gc_return a) f = f a"
  by (rule ext) (simp add: gc_bind_def)

text \<open>A loop whose body returns, keeps the invariant and decreases a measure, returns.\<close>

theorem gc_while_rule:
  fixes m :: "'x \<Rightarrow> gc_state \<Rightarrow> nat"
  assumes "I x s"
    and "\<And>x s. I x s \<Longrightarrow> c x s \<Longrightarrow> \<exists>x' s'. b x s = Some (Inr (x', s')) \<and> I x' s' \<and> m x' s' < m x s"
  shows "\<exists>x' s'. gc_while c b x s = Some (Inr (x', s')) \<and> I x' s' \<and> \<not> c x' s'"
  using assms(1)
proof (induction "m x s" arbitrary: x s rule: less_induct)
  case less
  show ?case
  proof (cases "c x s")
    case True
    then obtain x' s' where "b x s = Some (Inr (x', s'))" "I x' s'" "m x' s' < m x s"
      using assms(2) [OF less.prems] by blast
    with True less.hyps [of x' s'] show ?thesis by (subst gc_while.simps) simp
  next
    case False
    then show ?thesis using less.prems by (subst gc_while.simps) simp
  qed
qed

lemma store_simps [simp]:
  "mem (store a v s) = (mem s)(a := v)" "Free (store a v s) = Free s" "heap_start (store a v s) = heap_start s"
  "memory_base (store a v s) = memory_base s" "tospace_open_p (store a v s) = tospace_open_p s"
  "tospace_start (store a v s) = tospace_start s" "tospace_next (store a v s) = tospace_next s"
  "tospace_end (store a v s) = tospace_end s" "newspace_start (store a v s) = newspace_start s"
  "newspace_next (store a v s) = newspace_next s" "newspace_end (store a v s) = newspace_end s"
  "current_gc_table (store a v s) = current_gc_table s" "weak_chain (store a v s) = weak_chain s"
  "ephemeron_list (store a v s) = ephemeron_list s" "ephemeron_queue (store a v s) = ephemeron_queue s"
  "scanning_ephemerons_p (store a v s) = scanning_ephemerons_p s" "ephemeron_array (store a v s) = ephemeron_array s"
  by (simp_all add: store_def)

lemma handler_table:
  "initialize_gc_table tr s = Some (Inr (\<lparr>handlers =
    [Handle_Non_Pointer, Handle_Pair, Handle_Non_Pointer, Handle_Pair, Handle_Cc_Return, Handle_Pair,
     Handle_Aligned_Vector, Handle_Undefined, Handle_Non_Pointer, Handle_Pair, Handle_Unaligned_Vector,
     Handle_Non_Pointer, Handle_Undefined, Handle_Manifest_Closure, Handle_Unaligned_Vector, Handle_Pair,
     Handle_Pair, Handle_Pair, Handle_Unaligned_Vector, Handle_Pair, Handle_Triple, Handle_Pair,
     Handle_Unaligned_Vector, Handle_Pair, Handle_Non_Pointer, Handle_Pair, Handle_Non_Pointer,
     Handle_Unaligned_Vector, Handle_Unaligned_Vector, Handle_Pair, Handle_Unaligned_Vector, Handle_Pair,
     Handle_Triple, Handle_Pair, Handle_Broken_Heart, Handle_Pair, Handle_Triple, Handle_Pair,
     Handle_Unaligned_Vector, Handle_Nmv, Handle_Cc_Entry, Handle_Pair, Handle_Undefined, Handle_Ephemeron,
     Handle_Triple, Handle_Non_Pointer, Handle_Pair, Handle_Unaligned_Vector, Handle_Undefined,
     Handle_Unaligned_Vector, Handle_Reference_Trap, Handle_Unaligned_Vector, Handle_Triple, Handle_Pair,
     Handle_Cell, Handle_Weak_Pair, Handle_Quadruple, Handle_Linkage_Section, Handle_Pair,
     Handle_Non_Pointer, Handle_Pair, Handle_Aligned_Vector, Handle_Unaligned_Vector, Handle_Undefined],
    transport_p = tr, ignore_object_p = None\<rparr>, s))"
  by (simp add: initialize_gc_table_def type_handler_def gc_type_map_def gc_bind_def upt_conv_Cons)

end
