(* ===== verification/Avl_Tree.thy ===== *)
theory Avl_Tree
  imports Scheme_Prelude "HOL-Library.List_Lexorder"
begin

text \<open>
  The name tables of the microcode: \<open>microcode/avltree.c\<close>, with the comparison
  \<open>strcmp_ci\<close> of \<open>primutl.c\<close>. A C string is the list of its bytes before the terminating
  NUL. A null pointer is \<open>Null\<close>; dereferencing it is the result \<^const>\<open>None\<close>. Every node
  is owned by one parent, so that the destructive operations are functions on trees. The
  parameter \<open>allocated\<close> of an insertion tells whether \<open>malloc\<close> delivers the new node.
\<close>

section \<open>Names\<close>

type_synonym cstring = "8 word list"

definition toupper :: "8 word \<Rightarrow> 8 word" where
  "toupper c = (if 97 \<le> c \<and> c \<le> 122 then c - 32 else c)"

fun strcmp_ci :: "cstring \<Rightarrow> cstring \<Rightarrow> int" where
  "strcmp_ci [] p2 = (if p2 = [] then 0 else - 1)"
| "strcmp_ci (c1 # p1) [] = 1"
| "strcmp_ci (c1 # p1) (c2 # p2) =
     (let c1 = toupper c1; c2 = toupper c2
      in if c1 < c2 then - 1 else if c1 > c2 then 1 else strcmp_ci p1 p2)"

section \<open>Trees\<close>

datatype tree = Null | Node (tree_height: int) (tree_left: tree) (tree_rite: tree) (tree_name: cstring) (tree_value: nat)

datatype tree_error = Malloc_Failed | Duplicate_Entry cstring

definition BRANCH_HEIGHT :: "tree \<Rightarrow> int" where
  "BRANCH_HEIGHT t = (case t of Null \<Rightarrow> 0 | Node h l r n v \<Rightarrow> h)"

fun update_height :: "tree \<Rightarrow> tree option" where
  "update_height Null = None"
| "update_height (Node h l r n v) = Some (Node (1 + max (BRANCH_HEIGHT l) (BRANCH_HEIGHT r)) l r n v)"

definition leaf_make :: "cstring \<Rightarrow> nat \<Rightarrow> tree" where
  "leaf_make nm v = Node 1 Null Null nm v"

fun rotate_left :: "tree \<Rightarrow> tree option" where
  "rotate_left (Node h l (Node hr beta rr nr vr) n v) = do {
     tree \<leftarrow> update_height (Node h l beta n v);
     update_height (Node hr tree rr nr vr) }"
| "rotate_left t = None"

fun rotate_rite :: "tree \<Rightarrow> tree option" where
  "rotate_rite (Node h (Node hl ll beta nl vl) r n v) = do {
     tree \<leftarrow> update_height (Node h beta r n v);
     update_height (Node hl ll tree nl vl) }"
| "rotate_rite t = None"

fun rebalance_left :: "tree \<Rightarrow> tree option" where
  "rebalance_left Null = None"
| "rebalance_left (Node h l r n v) =
     (if 1 + BRANCH_HEIGHT r \<ge> BRANCH_HEIGHT l then update_height (Node h l r n v)
      else if l = Null then None
      else do {
        l \<leftarrow> (if BRANCH_HEIGHT (tree_rite l) > BRANCH_HEIGHT (tree_left l) then rotate_left l else Some l);
        rotate_rite (Node h l r n v) })"

fun rebalance_rite :: "tree \<Rightarrow> tree option" where
  "rebalance_rite Null = None"
| "rebalance_rite (Node h l r n v) =
     (if 1 + BRANCH_HEIGHT l \<ge> BRANCH_HEIGHT r then update_height (Node h l r n v)
      else if r = Null then None
      else do {
        r \<leftarrow> (if BRANCH_HEIGHT (tree_left r) > BRANCH_HEIGHT (tree_rite r) then rotate_rite r else Some r);
        rotate_left (Node h l r n v) })"

fun tree_insert :: "bool \<Rightarrow> tree \<Rightarrow> cstring \<Rightarrow> nat \<Rightarrow> (tree \<times> tree_error option) option" where
  "tree_insert allocated Null nm v =
     Some (if allocated then (leaf_make nm v, None) else (Null, Some Malloc_Failed))"
| "tree_insert allocated (Node h l r n w) nm v =
     (let c = strcmp_ci nm n
      in if c = 0 then Some (Node h l r n w, Some (Duplicate_Entry nm))
         else if c = - 1 then do {
           (l, e) \<leftarrow> tree_insert allocated l nm v;
           t \<leftarrow> rebalance_left (Node h l r n w);
           Some (t, e) }
         else if c = 1 then do {
           (r, e) \<leftarrow> tree_insert allocated r nm v;
           t \<leftarrow> rebalance_rite (Node h l r n w);
           Some (t, e) }
         else Some (Null, None))"

fun tree_lookup :: "tree \<Rightarrow> cstring \<Rightarrow> tree" where
  "tree_lookup Null nm = Null"
| "tree_lookup (Node h l r n w) nm =
     (let c = strcmp_ci nm n
      in if c = 0 then Node h l r n w else if c = - 1 then tree_lookup l nm else tree_lookup r nm)"

text \<open>The static variable \<open>bias\<close> alternates the side of the longer half; \<open>malloc\<close> succeeds here.\<close>

function tree_build :: "nat \<Rightarrow> cstring list \<Rightarrow> nat \<Rightarrow> nat \<Rightarrow> (tree \<times> nat) option" where
  "tree_build high names v bias =
     (if high > 1 then
        let middle = high div 2;
            (middle, bias) = (if even high then (middle - bias, 1 - bias) else (middle, bias));
            next = middle + 1
        in do {
          (l, bias) \<leftarrow> tree_build middle names v bias;
          (r, bias) \<leftarrow> tree_build (high - next) (drop next names) (v + next) bias;
          t \<leftarrow> update_height (Node 1 l r (names ! middle) (v + middle));
          Some (t, bias) }
      else Some (if high = 1 then leaf_make (names ! 0) v else Null, bias))"
  by pat_completeness auto
termination
  by (relation "measure (\<lambda>(high, _). high)") (auto split: if_splits)

declare tree_build.simps [simp del]

section \<open>The order of names\<close>

definition name_key :: "cstring \<Rightarrow> nat list" where
  "name_key s = map (\<lambda>c. unat (toupper c)) s"

lemma strcmp_ci_key:
  "strcmp_ci s t = (if name_key s = name_key t then 0 else if name_key s < name_key t then - 1 else 1)"
proof (induction s t rule: strcmp_ci.induct)
  case (1 p2) then show ?case by (cases p2) (auto simp: name_key_def)
next
  case (3 c1 p1 c2 p2)
  then show ?case by (auto simp: name_key_def Let_def word_less_nat_alt unat_arith_simps)
qed (auto simp: name_key_def)

lemma strcmp_ci_cases: "strcmp_ci s t \<in> {- 1, 0, 1}"
  by (simp add: strcmp_ci_key)

section \<open>Balance\<close>

fun avl :: "tree \<Rightarrow> bool" where
  "avl Null \<longleftrightarrow> True"
| "avl (Node h l r n v) \<longleftrightarrow> avl l \<and> avl r \<and> \<bar>BRANCH_HEIGHT l - BRANCH_HEIGHT r\<bar> \<le> 1
     \<and> h = 1 + max (BRANCH_HEIGHT l) (BRANCH_HEIGHT r)"

fun entries :: "tree \<Rightarrow> (cstring \<times> nat) list" where
  "entries Null = []"
| "entries (Node h l r n v) = entries l @ (n, v) # entries r"

lemma BRANCH_HEIGHT_simps [simp]: "BRANCH_HEIGHT Null = 0" "BRANCH_HEIGHT (Node h l r n v) = h"
  by (simp_all add: BRANCH_HEIGHT_def)

lemma avl_height_nonneg: "avl t \<Longrightarrow> 0 \<le> BRANCH_HEIGHT t"
  by (induction t) auto

lemma rebalance_left_avl:
  assumes "avl l" "avl r" "BRANCH_HEIGHT l \<le> BRANCH_HEIGHT r + 2" "BRANCH_HEIGHT r \<le> BRANCH_HEIGHT l + 1"
  shows "\<exists>t. rebalance_left (Node h l r n v) = Some t \<and> avl t \<and> entries t = entries l @ (n, v) # entries r
    \<and> (if BRANCH_HEIGHT l \<le> BRANCH_HEIGHT r + 1 then BRANCH_HEIGHT t = 1 + max (BRANCH_HEIGHT l) (BRANCH_HEIGHT r)
       else BRANCH_HEIGHT t = BRANCH_HEIGHT l \<or> BRANCH_HEIGHT t = BRANCH_HEIGHT l + 1)"
proof (cases "BRANCH_HEIGHT l \<le> BRANCH_HEIGHT r + 1")
  case True
  then show ?thesis using assms by (auto simp: max_def)
next
  case False
  then obtain hl ll lr nl vl where l: "l = Node hl ll lr nl vl" using avl_height_nonneg [OF assms(2)] by (cases l) auto
  show ?thesis
  proof (cases "BRANCH_HEIGHT lr > BRANCH_HEIGHT ll")
    case True
    then obtain hm ml mr nm vm where "lr = Node hm ml mr nm vm"
      using avl_height_nonneg [of ll] assms(1) l by (cases lr) auto
    then show ?thesis using True False assms l by (auto simp: max_def split: if_splits)
  next
    case f: False
    then show ?thesis using False assms l by (auto simp: max_def split: if_splits)
  qed
qed

lemma rebalance_rite_avl:
  assumes "avl l" "avl r" "BRANCH_HEIGHT r \<le> BRANCH_HEIGHT l + 2" "BRANCH_HEIGHT l \<le> BRANCH_HEIGHT r + 1"
  shows "\<exists>t. rebalance_rite (Node h l r n v) = Some t \<and> avl t \<and> entries t = entries l @ (n, v) # entries r
    \<and> (if BRANCH_HEIGHT r \<le> BRANCH_HEIGHT l + 1 then BRANCH_HEIGHT t = 1 + max (BRANCH_HEIGHT l) (BRANCH_HEIGHT r)
       else BRANCH_HEIGHT t = BRANCH_HEIGHT r \<or> BRANCH_HEIGHT t = BRANCH_HEIGHT r + 1)"
proof (cases "BRANCH_HEIGHT r \<le> BRANCH_HEIGHT l + 1")
  case True
  then show ?thesis using assms by (auto simp: max_def)
next
  case False
  then obtain hr rl rr nr vr where r: "r = Node hr rl rr nr vr" using avl_height_nonneg [OF assms(1)] by (cases r) auto
  show ?thesis
  proof (cases "BRANCH_HEIGHT rl > BRANCH_HEIGHT rr")
    case True
    then obtain hm ml mr nm vm where "rl = Node hm ml mr nm vm"
      using avl_height_nonneg [of rr] assms(2) r by (cases rl) auto
    then show ?thesis using True False assms r by (auto simp: max_def split: if_splits)
  next
    case f: False
    then show ?thesis using False assms r by (auto simp: max_def split: if_splits)
  qed
qed

section \<open>Search\<close>

abbreviation entry_key :: "cstring \<times> nat \<Rightarrow> nat list" where
  "entry_key e \<equiv> name_key (fst e)"

definition ordered :: "(cstring \<times> nat) list \<Rightarrow> bool" where
  "ordered es \<longleftrightarrow> sorted_wrt (\<lambda>x y. entry_key x < entry_key y) es"

fun insert_entry :: "cstring \<times> nat \<Rightarrow> (cstring \<times> nat) list \<Rightarrow> (cstring \<times> nat) list" where
  "insert_entry x [] = [x]"
| "insert_entry x (y # ys) =
     (if entry_key x < entry_key y then x # y # ys
      else if entry_key x = entry_key y then y # ys else y # insert_entry x ys)"

lemma ordered_simps [simp]:
  "ordered []" "ordered (x # xs) \<longleftrightarrow> (\<forall>y \<in> set xs. entry_key x < entry_key y) \<and> ordered xs"
  "ordered (xs @ ys) \<longleftrightarrow> ordered xs \<and> ordered ys \<and> (\<forall>x \<in> set xs. \<forall>y \<in> set ys. entry_key x < entry_key y)"
  by (auto simp: ordered_def sorted_wrt_append)

lemma insert_entry_left:
  "ordered (xs @ y # ys) \<Longrightarrow> entry_key x < entry_key y \<Longrightarrow> insert_entry x (xs @ y # ys) = insert_entry x xs @ y # ys"
  by (induction xs) auto

lemma insert_entry_right:
  "ordered (xs @ y # ys) \<Longrightarrow> entry_key y < entry_key x \<Longrightarrow> insert_entry x (xs @ y # ys) = xs @ y # insert_entry x ys"
  by (induction xs) auto

lemma insert_entry_present: "ordered es \<Longrightarrow> y \<in> set es \<Longrightarrow> entry_key x = entry_key y \<Longrightarrow> insert_entry x es = es"
  by (induction es) auto

lemma set_insert_entry:
  "ordered es \<Longrightarrow> set (insert_entry x es) = (if \<exists>y \<in> set es. entry_key x = entry_key y then set es else insert x (set es))"
  by (induction es) auto

lemma ordered_insert_entry: "ordered es \<Longrightarrow> ordered (insert_entry x es)"
  by (induction es) (auto simp: set_insert_entry split: if_splits)

text \<open>An insertion with memory keeps the tree balanced and its entries in order.\<close>

theorem tree_insert_correct:
  assumes "avl t" "ordered (entries t)"
  shows "\<exists>t' e. tree_insert True t nm v = Some (t', e) \<and> avl t' \<and> entries t' = insert_entry (nm, v) (entries t)
    \<and> e = (if \<exists>y \<in> set (entries t). entry_key y = name_key nm then Some (Duplicate_Entry nm) else None)
    \<and> (BRANCH_HEIGHT t' = BRANCH_HEIGHT t \<or> BRANCH_HEIGHT t' = BRANCH_HEIGHT t + 1)"
  using assms
proof (induction t)
  case Null then show ?case by (simp add: leaf_make_def)
next
  case (Node h l r n w)
  consider (eq) "name_key nm = name_key n" | (lt) "name_key nm < name_key n" | (gt) "name_key n < name_key nm" by fastforce
  then show ?case
  proof cases
    case eq
    then have "insert_entry (nm, v) (entries l @ (n, w) # entries r) = entries l @ (n, w) # entries r"
      using Node.prems(2) by (intro insert_entry_present [of _ "(n, w)"]) auto
    then show ?thesis using eq Node.prems by (auto simp: strcmp_ci_key)
  next
    case lt
    then have absent: "(\<exists>y \<in> set (entries r). entry_key y = name_key nm) \<longleftrightarrow> False"
      using Node.prems(2) by (auto dest!: bspec)
    obtain l' e where l: "tree_insert True l nm v = Some (l', e)" "avl l'" "entries l' = insert_entry (nm, v) (entries l)"
      "e = (if \<exists>y \<in> set (entries l). entry_key y = name_key nm then Some (Duplicate_Entry nm) else None)"
      "BRANCH_HEIGHT l' = BRANCH_HEIGHT l \<or> BRANCH_HEIGHT l' = BRANCH_HEIGHT l + 1"
      using Node by auto
    have b: "avl r" "BRANCH_HEIGHT l' \<le> BRANCH_HEIGHT r + 2" "BRANCH_HEIGHT r \<le> BRANCH_HEIGHT l' + 1"
      using Node.prems(1) l(5) by auto
    obtain t where t: "rebalance_left (Node h l' r n w) = Some t" "avl t" "entries t = entries l' @ (n, w) # entries r"
      "if BRANCH_HEIGHT l' \<le> BRANCH_HEIGHT r + 1 then BRANCH_HEIGHT t = 1 + max (BRANCH_HEIGHT l') (BRANCH_HEIGHT r)
       else BRANCH_HEIGHT t = BRANCH_HEIGHT l' \<or> BRANCH_HEIGHT t = BRANCH_HEIGHT l' + 1"
      using rebalance_left_avl [OF l(2) b, of h n w] by blast
    have "insert_entry (nm, v) (entries l @ (n, w) # entries r) = insert_entry (nm, v) (entries l) @ (n, w) # entries r"
      using lt Node.prems(2) by (intro insert_entry_left) simp_all
    moreover have "BRANCH_HEIGHT t = h \<or> BRANCH_HEIGHT t = h + 1" using t(4) l(5) Node.prems(1) by (auto split: if_splits)
    ultimately show ?thesis using lt l t absent by (auto simp: strcmp_ci_key Let_def)
  next
    case gt
    then have absent: "(\<exists>y \<in> set (entries l). entry_key y = name_key nm) \<longleftrightarrow> False"
      using Node.prems(2) by auto
    obtain r' e where r: "tree_insert True r nm v = Some (r', e)" "avl r'" "entries r' = insert_entry (nm, v) (entries r)"
      "e = (if \<exists>y \<in> set (entries r). entry_key y = name_key nm then Some (Duplicate_Entry nm) else None)"
      "BRANCH_HEIGHT r' = BRANCH_HEIGHT r \<or> BRANCH_HEIGHT r' = BRANCH_HEIGHT r + 1"
      using Node by auto
    have b: "avl l" "BRANCH_HEIGHT r' \<le> BRANCH_HEIGHT l + 2" "BRANCH_HEIGHT l \<le> BRANCH_HEIGHT r' + 1"
      using Node.prems(1) r(5) by auto
    obtain t where t: "rebalance_rite (Node h l r' n w) = Some t" "avl t" "entries t = entries l @ (n, w) # entries r'"
      "if BRANCH_HEIGHT r' \<le> BRANCH_HEIGHT l + 1 then BRANCH_HEIGHT t = 1 + max (BRANCH_HEIGHT l) (BRANCH_HEIGHT r')
       else BRANCH_HEIGHT t = BRANCH_HEIGHT r' \<or> BRANCH_HEIGHT t = BRANCH_HEIGHT r' + 1"
      using rebalance_rite_avl [OF b(1) r(2) b(2,3), of h n w] by blast
    have "insert_entry (nm, v) (entries l @ (n, w) # entries r) = entries l @ (n, w) # insert_entry (nm, v) (entries r)"
      using gt Node.prems(2) by (intro insert_entry_right) simp_all
    moreover have "BRANCH_HEIGHT t = h \<or> BRANCH_HEIGHT t = h + 1" using t(4) r(5) Node.prems(1) by (auto split: if_splits)
    ultimately show ?thesis using gt r t absent by (auto simp: strcmp_ci_key Let_def)
  qed
qed

text \<open>A lookup finds the entry of the name, up to case, and only that.\<close>

theorem tree_lookup_correct:
  assumes "ordered (entries t)"
  shows "case tree_lookup t nm of
      Null \<Rightarrow> \<forall>e \<in> set (entries t). entry_key e \<noteq> name_key nm
    | Node h l r n v \<Rightarrow> (n, v) \<in> set (entries t) \<and> name_key n = name_key nm"
  using assms
proof (induction t)
  case (Node h l r n w)
  consider (eq) "name_key nm = name_key n" | (lt) "name_key nm < name_key n" | (gt) "name_key n < name_key nm" by fastforce
  then show ?case
  proof cases
    case lt
    then have "\<forall>e \<in> set (entries r). entry_key e \<noteq> name_key nm" using Node.prems by (auto dest!: bspec)
    then show ?thesis using lt Node by (auto simp: strcmp_ci_key split: tree.splits)
  next
    case gt
    then have "\<forall>e \<in> set (entries l). entry_key e \<noteq> name_key nm" using Node.prems by auto
    then show ?thesis using gt Node by (auto simp: strcmp_ci_key split: tree.splits)
  qed (simp add: strcmp_ci_key)
qed simp

section \<open>Building from a table\<close>

text \<open>The height of a built tree is the length of its size in bits.\<close>

fun size_bits :: "nat \<Rightarrow> nat" where
  "size_bits n = (if n = 0 then 0 else Suc (size_bits (n div 2)))"

declare size_bits.simps [simp del]

lemma size_bits_0 [simp]: "size_bits 0 = 0" "size_bits (Suc 0) = 1"
  by (simp_all add: size_bits.simps)

lemma size_bits_half: "0 < n \<Longrightarrow> size_bits n = Suc (size_bits (n div 2))"
  by (subst size_bits.simps) simp

lemma size_bits_mono: "m \<le> n \<Longrightarrow> size_bits m \<le> size_bits n"
proof (induction n arbitrary: m rule: size_bits.induct)
  case (1 n)
  show ?case
  proof (cases "m = 0")
    case False
    then have "size_bits (m div 2) \<le> size_bits (n div 2)" using 1 by (intro 1) (auto simp: div_le_mono)
    then show ?thesis using False "1.prems" by (simp add: size_bits_half)
  qed simp
qed

lemma size_bits_Suc: "size_bits (Suc n) \<le> Suc (size_bits n)"
proof (induction n rule: size_bits.induct)
  case (1 n)
  show ?case
  proof (cases "n = 0")
    case False
    have "size_bits (Suc n div 2) \<le> Suc (size_bits (n div 2))"
    proof (cases "even n")
      case True then show ?thesis by simp
    next
      case f: False
      then have "Suc n div 2 = Suc (n div 2)" by simp
      then show ?thesis using 1 [OF False] by simp
    qed
    then show ?thesis using False size_bits_half [of "Suc n"] size_bits_half [of n] by simp
  qed simp
qed

lemma split_sizes:
  assumes "1 < high" "m = high div 2 \<or> even high \<and> m = high div 2 - 1"
  shows "m < high" "high - (m + 1) < high"
    "max (size_bits m) (size_bits (high - (m + 1))) + 1 = size_bits high"
    "\<bar>int (size_bits m) - int (size_bits (high - (m + 1)))\<bar> \<le> 1"
proof -
  obtain a where a: "a \<le> high div 2" "high div 2 \<le> Suc a"
    "m = high div 2 \<and> high - (m + 1) = a \<or> m = a \<and> high - (m + 1) = high div 2"
  proof (cases "even high")
    case True
    then obtain k where "high = 2 * k" by blast
    then show thesis using assms that [of "k - 1"] by auto
  next
    case False
    then obtain k where "high = 2 * k + 1" using oddE by blast
    then show thesis using assms that [of k] by auto
  qed
  have "size_bits a \<le> size_bits (high div 2)" "size_bits (high div 2) \<le> Suc (size_bits a)"
    using size_bits_mono [OF a(1)] size_bits_mono [OF a(2)] size_bits_Suc [of a] by simp_all
  then show "max (size_bits m) (size_bits (high - (m + 1))) + 1 = size_bits high"
    "\<bar>int (size_bits m) - int (size_bits (high - (m + 1)))\<bar> \<le> 1"
    using a(3) size_bits_half [of high] assms(1) by auto
  show "m < high" "high - (m + 1) < high" using assms by auto
qed

definition table_entries :: "cstring list \<Rightarrow> nat \<Rightarrow> nat \<Rightarrow> (cstring \<times> nat) list" where
  "table_entries names v n = map (\<lambda>i. (names ! i, v + i)) [0..<n]"

lemma table_entries_split:
  assumes "m < n" "n \<le> length names"
  shows "table_entries names v n =
    table_entries names v m @ (names ! m, v + m) # table_entries (drop (m + 1) names) (v + (m + 1)) (n - (m + 1))"
proof -
  have "[0..<n] = [0..<m] @ [m..<n]" using upt_add_eq_append [of 0 m "n - m"] assms by simp
  moreover have "[m..<n] = m # map (\<lambda>i. i + (m + 1)) [0..<n - (m + 1)]"
    using assms map_add_upt [of "m + 1" "n - (m + 1)"] by (simp add: upt_conv_Cons)
  ultimately show ?thesis using assms by (simp add: table_entries_def o_def add.commute)
qed

theorem tree_build_correct:
  assumes "high \<le> length names" "bias \<le> 1"
  shows "\<exists>t b. tree_build high names v bias = Some (t, b) \<and> b \<le> 1 \<and> avl t
    \<and> entries t = table_entries names v high \<and> BRANCH_HEIGHT t = int (size_bits high)"
  using assms
proof (induction high names v bias rule: tree_build.induct)
  case (1 high names v bias)
  show ?case
  proof (cases "high > 1")
    case False
    then consider "high = 0" | "high = 1" by linarith
    then show ?thesis
      using "1.prems"(2) by cases (simp_all add: tree_build.simps leaf_make_def table_entries_def)
  next
    case True
    obtain m b0 where m: "(if even high then (high div 2 - bias, 1 - bias) else (high div 2, bias)) = (m, b0)" by fastforce
    have b0: "b0 \<le> 1" and mc: "m = high div 2 \<or> even high \<and> m = high div 2 - 1"
      using m "1.prems"(2) by (cases bias; auto split: if_splits)+
    note sizes = split_sizes [OF True mc]
    obtain l b1 where l: "tree_build m names v b0 = Some (l, b1)" "b1 \<le> 1" "avl l"
      "entries l = table_entries names v m" "BRANCH_HEIGHT l = int (size_bits m)"
      using "1.IH"(1) [OF True refl m [symmetric] refl] sizes(1) "1.prems"(1) b0 by auto
    obtain r b2 where r: "tree_build (high - (m + 1)) (drop (m + 1) names) (v + (m + 1)) b1 = Some (r, b2)" "b2 \<le> 1" "avl r"
      "entries r = table_entries (drop (m + 1) names) (v + (m + 1)) (high - (m + 1))"
      "BRANCH_HEIGHT r = int (size_bits (high - (m + 1)))"
      using "1.IH"(2) [OF True refl m [symmetric] refl refl, of "(l, b1)" l b1] l(1,2) "1.prems"(1)
      by (auto simp: diff_le_mono)
    have "tree_build high names v bias = Some (Node (1 + max (BRANCH_HEIGHT l) (BRANCH_HEIGHT r)) l r (names ! m) (v + m), b2)"
      using True m l(1) r(1) by (subst tree_build.simps) (simp add: Let_def)
    moreover have "1 + max (BRANCH_HEIGHT l) (BRANCH_HEIGHT r) = int (size_bits high)"
      using sizes(3) l(5) r(5) by simp
    ultimately show ?thesis
      using l r sizes(4) table_entries_split [OF sizes(1) "1.prems"(1), of v] by simp
  qed
qed

text \<open>A tree built from a table of names in ascending order finds every name at its index.\<close>

theorem tree_build_lookup:
  assumes "sorted_wrt (\<lambda>a b. name_key a < name_key b) names" "bias \<le> 1"
  shows "\<exists>t b. tree_build (length names) names 0 bias = Some (t, b) \<and> avl t \<and> ordered (entries t)
    \<and> (\<forall>i < length names. tree_value (tree_lookup t (names ! i)) = i)"
proof -
  obtain t b where t: "tree_build (length names) names 0 bias = Some (t, b)" "avl t"
    "entries t = table_entries names 0 (length names)"
    using tree_build_correct [of "length names" names bias 0] assms(2) by auto
  have ord: "ordered (entries t)"
    unfolding ordered_def t(3) table_entries_def sorted_wrt_iff_nth_less using sorted_wrt_nth_less [OF assms(1)] by simp
  have "tree_value (tree_lookup t (names ! i)) = i" if i: "i < length names" for i
  proof -
    have "(names ! i, i) \<in> set (entries t)" using i t(3) by (auto simp: table_entries_def)
    then obtain h l r n v where n: "tree_lookup t (names ! i) = Node h l r n v" "(n, v) \<in> set (entries t)" "name_key n = name_key (names ! i)"
      using tree_lookup_correct [OF ord, of "names ! i"] by (auto split: tree.splits)
    then obtain j where j: "j < length names" "n = names ! j" "v = j" using t(3) by (auto simp: table_entries_def)
    have "j = i" using n(3) j i sorted_wrt_nth_less [OF assms(1)] by (metis less_irrefl linorder_less_linear)
    then show ?thesis using n j by simp
  qed
  then show ?thesis using t ord by blast
qed

end
