(* ===== verification/Primitive_Table.thy ===== *)
theory Primitive_Table
  imports Avl_Tree Scheme_Object
begin

text \<open>
  The table of primitive procedures: \<open>microcode/primutl.c\<close>. Names map to indices through
  the AVL tree; the arrays of procedures, arities, names and documentation are functions of
  the index, of which the entries below \<open>MAX_PRIMITIVE\<close> are in use and those below
  \<open>prim_table_size\<close> exist. Primitives that a dumped object refers to are renumbered to a
  contiguous range.
\<close>

section \<open>The table\<close>

datatype procedure = Prim_unimplemented | Procedure nat

record primitive_table =
  MAX_PRIMITIVE :: nat
  prim_table_size :: nat
  Primitive_Procedure_Table :: "nat \<Rightarrow> procedure"
  Primitive_Arity_Table :: "nat \<Rightarrow> int"
  Primitive_Count_Table :: "nat \<Rightarrow> int"
  Primitive_Name_Table :: "nat \<Rightarrow> cstring"
  Primitive_Documentation_Table :: "nat \<Rightarrow> cstring option"
  prim_procedure_tree :: tree

definition LEXPR_PRIMITIVE_ARITY :: int where "LEXPR_PRIMITIVE_ARITY = - 1"
definition UNKNOWN_PRIMITIVE_ARITY :: int where "UNKNOWN_PRIMITIVE_ARITY = - 2"

definition PRIMITIVE_NUMBER :: "ulong \<Rightarrow> nat" where
  "PRIMITIVE_NUMBER p = unat (OBJECT_DATUM p)"

definition MAKE_PRIMITIVE_OBJECT :: "nat \<Rightarrow> ulong" where
  "MAKE_PRIMITIVE_OBJECT index = MAKE_OBJECT TC_PRIMITIVE (of_nat index)"

definition IMPLEMENTED_PRIMITIVE_P :: "primitive_table \<Rightarrow> ulong \<Rightarrow> bool" where
  "IMPLEMENTED_PRIMITIVE_P tab p = (Primitive_Procedure_Table tab (PRIMITIVE_NUMBER p) \<noteq> Prim_unimplemented)"

definition PRIMITIVE_ARITY :: "primitive_table \<Rightarrow> ulong \<Rightarrow> int" where
  "PRIMITIVE_ARITY tab p = Primitive_Arity_Table tab (PRIMITIVE_NUMBER p)"

definition grow_primitive_tables :: "primitive_table \<Rightarrow> primitive_table" where
  "grow_primitive_tables tab = tab\<lparr>prim_table_size := MAX_PRIMITIVE tab + MAX_PRIMITIVE tab div 10\<rparr>"

section \<open>Declaring primitives\<close>

text \<open>
  The assignments that install a procedure at an index. A result \<^const>\<open>None\<close> below is a null
  pointer dereferenced in the tree.
\<close>

definition install_at :: "nat \<Rightarrow> procedure \<Rightarrow> int \<Rightarrow> cstring option \<Rightarrow> primitive_table \<Rightarrow> primitive_table" where
  "install_at index code nargs_hi ndocstr tab = tab\<lparr>
     Primitive_Procedure_Table := (Primitive_Procedure_Table tab)(index := code),
     Primitive_Arity_Table := (Primitive_Arity_Table tab)(index := nargs_hi),
     Primitive_Count_Table := (Primitive_Count_Table tab)(index := nargs_hi * 8),
     Primitive_Documentation_Table := (Primitive_Documentation_Table tab)(index := ndocstr)\<rparr>"

definition declare_primitive_internal ::
  "bool \<Rightarrow> bool \<Rightarrow> cstring \<Rightarrow> procedure \<Rightarrow> int \<Rightarrow> cstring option \<Rightarrow> primitive_table \<Rightarrow> (ulong \<times> primitive_table) option" where
  "declare_primitive_internal allocated override_p nm code nargs_hi docstr tab =
     (case tree_lookup (prim_procedure_tree tab) nm of
        Node h l r n index \<Rightarrow>
          let primitive = MAKE_PRIMITIVE_OBJECT index
          in if PRIMITIVE_ARITY tab primitive \<noteq> nargs_hi \<and> PRIMITIVE_ARITY tab primitive \<noteq> UNKNOWN_PRIMITIVE_ARITY
                \<or> IMPLEMENTED_PRIMITIVE_P tab primitive \<and> \<not> override_p
             then Some (LONG_TO_UNSIGNED_FIXNUM (OBJECT_DATUM primitive), tab)
             else Some (primitive,
                    install_at index code nargs_hi
                      (if docstr = None then Primitive_Documentation_Table tab index else docstr) tab)
      | Null \<Rightarrow>
          let tab = (if MAX_PRIMITIVE tab = prim_table_size tab then grow_primitive_tables tab else tab);
              index = MAX_PRIMITIVE tab
          in map_option (\<lambda>(prim, e).
               if e \<noteq> None then (SHARP_F, tab)
               else (MAKE_PRIMITIVE_OBJECT index,
                     install_at index code nargs_hi docstr
                       (tab\<lparr>prim_procedure_tree := prim, MAX_PRIMITIVE := MAX_PRIMITIVE tab + 1,
                            Primitive_Name_Table := (Primitive_Name_Table tab)(index := nm)\<rparr>)))
             (tree_insert allocated (prim_procedure_tree tab) nm index))"

definition declare_primitive ::
  "bool \<Rightarrow> cstring \<Rightarrow> procedure \<Rightarrow> int \<Rightarrow> cstring option \<Rightarrow> primitive_table \<Rightarrow> (ulong \<times> primitive_table) option" where
  "declare_primitive allocated nm code nargs_hi docstr = declare_primitive_internal allocated False nm code nargs_hi docstr"

definition install_primitive ::
  "bool \<Rightarrow> cstring \<Rightarrow> procedure \<Rightarrow> int \<Rightarrow> cstring option \<Rightarrow> primitive_table \<Rightarrow> (ulong \<times> primitive_table) option" where
  "install_primitive allocated nm code nargs_hi docstr = declare_primitive_internal allocated True nm code nargs_hi docstr"

definition make_primitive :: "bool \<Rightarrow> cstring \<Rightarrow> int \<Rightarrow> primitive_table \<Rightarrow> (ulong \<times> primitive_table) option" where
  "make_primitive allocated nm arity tab =
     (let cname = (case tree_lookup (prim_procedure_tree tab) nm of Null \<Rightarrow> nm | Node h l r n v \<Rightarrow> n)
      in map_option (\<lambda>(result, tab). (if result = SHARP_F then SHARP_F else OBJECT_NEW_TYPE TC_PRIMITIVE result, tab))
           (declare_primitive allocated cname Prim_unimplemented arity None tab))"

text \<open>The result \<^const>\<open>Inl\<close> stands for the error in the system call that \<open>malloc\<close> is.\<close>

definition find_primitive_cname ::
  "bool \<Rightarrow> cstring \<Rightarrow> bool \<Rightarrow> bool \<Rightarrow> int \<Rightarrow> primitive_table \<Rightarrow> ((unit + ulong) \<times> primitive_table) option" where
  "find_primitive_cname allocated nm intern_p allow_p arity tab =
     (case tree_lookup (prim_procedure_tree tab) nm of
        Node h l r n index \<Rightarrow>
          let primitive = MAKE_PRIMITIVE_OBJECT index
          in if \<not> allow_p \<and> \<not> IMPLEMENTED_PRIMITIVE_P tab primitive then Some (Inr SHARP_F, tab)
             else if arity = UNKNOWN_PRIMITIVE_ARITY \<or> arity = PRIMITIVE_ARITY tab primitive then Some (Inr primitive, tab)
             else if PRIMITIVE_ARITY tab primitive = UNKNOWN_PRIMITIVE_ARITY
             then Some (Inr primitive,
                    tab\<lparr>Primitive_Arity_Table := (Primitive_Arity_Table tab)(PRIMITIVE_NUMBER primitive := arity)\<rparr>)
             else Some (Inr (LONG_TO_FIXNUM (word_of_int (PRIMITIVE_ARITY tab primitive))), tab)
      | Null \<Rightarrow>
          if \<not> intern_p then Some (Inr SHARP_F, tab)
          else map_option (\<lambda>(primitive, tab). (if primitive = SHARP_F then Inl () else Inr primitive, tab))
                 (declare_primitive allocated nm Prim_unimplemented arity None tab))"

section \<open>Renumbering\<close>

record prim_renumber =
  internal :: "nat \<Rightarrow> nat option"
  external :: "nat \<Rightarrow> nat option"
  next_code :: nat

text \<open>The entry \<open>ULONG_MAX\<close> of an index not yet seen is \<^const>\<open>None\<close>.\<close>

definition make_prim_renumber :: prim_renumber where
  "make_prim_renumber = \<lparr>internal = (\<lambda>_. None), external = (\<lambda>_. None), next_code = 0\<rparr>"

definition renumber_primitive :: "ulong \<Rightarrow> prim_renumber \<Rightarrow> ulong \<times> prim_renumber" where
  "renumber_primitive primitive pr =
     (let old = unat (OBJECT_DATUM primitive)
      in case internal pr old of
           Some new \<Rightarrow> (OBJECT_NEW_DATUM primitive (of_nat new), pr)
         | None \<Rightarrow>
             let new = next_code pr
             in (OBJECT_NEW_DATUM primitive (of_nat new),
                 pr\<lparr>next_code := next_code pr + 1, internal := (internal pr)(old := Some new),
                    external := (external pr)(new := Some old)\<rparr>))"

primrec renumber_all :: "ulong list \<Rightarrow> prim_renumber \<Rightarrow> ulong list \<times> prim_renumber" where
  "renumber_all [] pr = ([], pr)"
| "renumber_all (p # ps) pr =
     (let (q, pr) = renumber_primitive p pr; (qs, pr) = renumber_all ps pr in (q # qs, pr))"

section \<open>The invariant of the table\<close>

definition index_of :: "primitive_table \<Rightarrow> cstring \<Rightarrow> nat option" where
  "index_of tab nm = (case tree_lookup (prim_procedure_tree tab) nm of Null \<Rightarrow> None | Node h l r n v \<Rightarrow> Some v)"

definition table_ok :: "primitive_table \<Rightarrow> bool" where
  "table_ok tab \<longleftrightarrow> avl (prim_procedure_tree tab) \<and> ordered (entries (prim_procedure_tree tab))
     \<and> 10 \<le> MAX_PRIMITIVE tab \<and> MAX_PRIMITIVE tab \<le> prim_table_size tab
     \<and> (\<forall>(n, i) \<in> set (entries (prim_procedure_tree tab)). i < MAX_PRIMITIVE tab)
     \<and> (\<forall>i < MAX_PRIMITIVE tab. index_of tab (Primitive_Name_Table tab i) = Some i)"

lemma ordered_unique:
  "ordered es \<Longrightarrow> e \<in> set es \<Longrightarrow> e' \<in> set es \<Longrightarrow> entry_key e = entry_key e' \<Longrightarrow> e = e'"
  by (induction es) (auto dest: bspec)

lemma index_of_iff:
  assumes "ordered (entries (prim_procedure_tree tab))"
  shows "index_of tab nm = Some v \<longleftrightarrow> (\<exists>n. (n, v) \<in> set (entries (prim_procedure_tree tab)) \<and> name_key n = name_key nm)"
proof (cases "tree_lookup (prim_procedure_tree tab) nm")
  case Null
  then have "\<forall>e \<in> set (entries (prim_procedure_tree tab)). entry_key e \<noteq> name_key nm"
    using tree_lookup_correct [OF assms, of nm] by simp
  then show ?thesis using Null by (auto simp: index_of_def)
next
  case (Node h l r n w)
  then have "(n, w) \<in> set (entries (prim_procedure_tree tab))" "name_key n = name_key nm"
    using tree_lookup_correct [OF assms, of nm] by simp_all
  note found = this
  have uniq: "v' = w" if "(n', v') \<in> set (entries (prim_procedure_tree tab))" "name_key n' = name_key nm" for n' v'
    using ordered_unique [OF assms found(1) that(1)] found(2) that(2) by simp
  have "index_of tab nm = Some w" using Node by (simp add: index_of_def)
  then show ?thesis using found uniq by (metis option.inject)
qed

lemma index_of_None:
  assumes "ordered (entries (prim_procedure_tree tab))"
  shows "index_of tab nm = None \<longleftrightarrow> (\<forall>e \<in> set (entries (prim_procedure_tree tab)). entry_key e \<noteq> name_key nm)"
  using index_of_iff [OF assms, of nm] by (metis fst_conv not_None_eq prod.collapse)

lemma install_at_simps [simp]:
  "prim_procedure_tree (install_at i c a d tab) = prim_procedure_tree tab"
  "MAX_PRIMITIVE (install_at i c a d tab) = MAX_PRIMITIVE tab" "prim_table_size (install_at i c a d tab) = prim_table_size tab"
  "Primitive_Name_Table (install_at i c a d tab) = Primitive_Name_Table tab"
  "Primitive_Procedure_Table (install_at i c a d tab) = (Primitive_Procedure_Table tab)(i := c)"
  "Primitive_Arity_Table (install_at i c a d tab) = (Primitive_Arity_Table tab)(i := a)"
  "index_of (install_at i c a d tab) nm = index_of tab nm"
  by (simp_all add: install_at_def index_of_def)

lemma table_ok_install_at [simp]: "table_ok (install_at i c a d tab) \<longleftrightarrow> table_ok tab"
  by (simp add: table_ok_def)

text \<open>The table grows when it is full: by a tenth, at least by one entry.\<close>

definition room_for_one :: "primitive_table \<Rightarrow> primitive_table" where
  "room_for_one tab = (if MAX_PRIMITIVE tab = prim_table_size tab then grow_primitive_tables tab else tab)"

lemma room_for_one_simps [simp]:
  "prim_procedure_tree (room_for_one tab) = prim_procedure_tree tab" "MAX_PRIMITIVE (room_for_one tab) = MAX_PRIMITIVE tab"
  "Primitive_Name_Table (room_for_one tab) = Primitive_Name_Table tab"
  "Primitive_Procedure_Table (room_for_one tab) = Primitive_Procedure_Table tab"
  "Primitive_Arity_Table (room_for_one tab) = Primitive_Arity_Table tab"
  "index_of (room_for_one tab) nm = index_of tab nm"
  by (simp_all add: room_for_one_def grow_primitive_tables_def index_of_def)

lemma room_for_one_room: "table_ok tab \<Longrightarrow> MAX_PRIMITIVE tab < prim_table_size (room_for_one tab)"
  by (auto simp: room_for_one_def grow_primitive_tables_def table_ok_def)

lemma table_ok_room: "table_ok tab \<Longrightarrow> table_ok (room_for_one tab)"
  using room_for_one_room [of tab] by (simp add: table_ok_def less_imp_le)

text \<open>A new name gets the next index; the write is inside the arrays.\<close>

lemma declare_new:
  assumes "table_ok tab" "index_of tab nm = None"
  shows "\<exists>tab'. declare_primitive_internal True ovr nm code hi doc tab = Some (MAKE_PRIMITIVE_OBJECT (MAX_PRIMITIVE tab), tab')
    \<and> table_ok tab' \<and> MAX_PRIMITIVE tab' = MAX_PRIMITIVE tab + 1 \<and> MAX_PRIMITIVE tab < prim_table_size tab'
    \<and> (\<forall>s. index_of tab' s = (if name_key s = name_key nm then Some (MAX_PRIMITIVE tab) else index_of tab s))
    \<and> Primitive_Procedure_Table tab' = (Primitive_Procedure_Table tab)(MAX_PRIMITIVE tab := code)
    \<and> Primitive_Arity_Table tab' = (Primitive_Arity_Table tab)(MAX_PRIMITIVE tab := hi)"
proof -
  let ?m = "MAX_PRIMITIVE tab" and ?t = "prim_procedure_tree tab"
  have t: "avl ?t" "ordered (entries ?t)" using assms(1) by (simp_all add: table_ok_def)
  have absent: "\<forall>e \<in> set (entries ?t). entry_key e \<noteq> name_key nm" using index_of_None [OF t(2)] assms(2) by blast
  obtain t' where t': "tree_insert True ?t nm ?m = Some (t', None)" "avl t'" "entries t' = insert_entry (nm, ?m) (entries ?t)"
    using tree_insert_correct [OF t, of nm ?m] absent by auto
  have ord: "ordered (entries t')" using ordered_insert_entry [OF t(2)] t'(3) by simp
  have set: "set (entries t') = insert (nm, ?m) (set (entries ?t))"
    using set_insert_entry [OF t(2), of "(nm, ?m)"] absent t'(3) by (auto dest: bspec)
  define tab' where "tab' = install_at ?m code hi doc ((room_for_one tab)\<lparr>prim_procedure_tree := t', MAX_PRIMITIVE := ?m + 1,
      Primitive_Name_Table := (Primitive_Name_Table tab)(?m := nm)\<rparr>)"
  have tree': "prim_procedure_tree tab' = t'" by (simp add: tab'_def)
  have ix: "index_of tab' s = (if name_key s = name_key nm then Some ?m else index_of tab s)" for s
  proof (cases "name_key s = name_key nm")
    case True then show ?thesis using index_of_iff [of tab' s ?m] ord set tree' by auto
  next
    case False
    then have "index_of tab' s = Some v \<longleftrightarrow> index_of tab s = Some v" for v
      using index_of_iff [of tab' s v] index_of_iff [OF t(2), of s v] ord set tree' by auto
    then show ?thesis using False by (cases "index_of tab s"; cases "index_of tab' s") auto
  qed
  have names: "index_of tab' (Primitive_Name_Table tab' i) = Some i" if "i < Suc ?m" for i
  proof (cases "i = ?m")
    case False
    then have i: "i < ?m" "index_of tab (Primitive_Name_Table tab i) = Some i" using that assms(1) by (auto simp: table_ok_def)
    then have "name_key (Primitive_Name_Table tab i) \<noteq> name_key nm"
      using index_of_iff [OF t(2), of "Primitive_Name_Table tab i" i] absent by auto
    then show ?thesis using i False ix by (simp add: tab'_def)
  next
    case True
    have "Primitive_Name_Table tab' ?m = nm" by (simp add: tab'_def)
    then show ?thesis using True ix by simp
  qed
  have "table_ok tab'"
    using assms(1) t'(2) ord set names room_for_one_room [OF assms(1)]
    by (auto simp: table_ok_def tree') (auto simp: tab'_def)
  moreover have "declare_primitive_internal True ovr nm code hi doc tab = Some (MAKE_PRIMITIVE_OBJECT ?m, tab')"
  proof -
    have "tree_lookup ?t nm = Null" using assms(2) by (simp add: index_of_def split: tree.splits)
    then show ?thesis
      using t'(1) by (simp add: declare_primitive_internal_def Let_def tab'_def flip: room_for_one_def)
  qed
  ultimately show ?thesis using ix room_for_one_room [OF assms(1)] by (auto simp: tab'_def)
qed

section \<open>Histories of the table\<close>

text \<open>Without memory for the node an insertion reports an error.\<close>

lemma tree_insert_failed: "tree_insert False t nm v = Some (t', e) \<Longrightarrow> e \<noteq> None"
proof (induction t arbitrary: t' e)
  case (Node h l r n w)
  then show ?case using strcmp_ci_cases [of nm n] by (fastforce simp: Let_def split: if_splits bind_splits)
qed auto

definition extends :: "primitive_table \<Rightarrow> primitive_table \<Rightarrow> bool" where
  "extends tab tab' \<longleftrightarrow> table_ok tab' \<and> MAX_PRIMITIVE tab \<le> MAX_PRIMITIVE tab'
     \<and> (\<forall>s i. index_of tab s = Some i \<longrightarrow> index_of tab' s = Some i)"

lemma declare_extends:
  assumes "table_ok tab" "declare_primitive_internal al ovr nm code hi doc tab = Some (p, tab')"
  shows "extends tab tab'"
proof (cases "tree_lookup (prim_procedure_tree tab) nm")
  case (Node h l r n w)
  then show ?thesis
    using assms by (auto simp: declare_primitive_internal_def extends_def Let_def split: if_splits)
next
  case Null
  then have none: "index_of tab nm = None" by (simp add: index_of_def)
  show ?thesis
  proof (cases al)
    case True
    obtain t where t: "declare_primitive_internal True ovr nm code hi doc tab = Some (MAKE_PRIMITIVE_OBJECT (MAX_PRIMITIVE tab), t)"
      "table_ok t" "MAX_PRIMITIVE t = MAX_PRIMITIVE tab + 1"
      "\<forall>s. index_of t s = (if name_key s = name_key nm then Some (MAX_PRIMITIVE tab) else index_of tab s)"
      using declare_new [OF assms(1) none, of ovr code hi doc] by blast
    have key: "index_of tab s = None" if "name_key s = name_key nm" for s
      using none that assms(1) index_of_None [of tab s] index_of_None [of tab nm] by (simp add: table_ok_def)
    have "tab' = t" using t(1) assms(2) True by simp
    then show ?thesis using t(2-4) key by (auto simp: extends_def)
  next
    case False
    then have "tab' = room_for_one tab"
      using assms(2) Null tree_insert_failed [of "prim_procedure_tree tab" nm]
      by (auto simp: declare_primitive_internal_def Let_def simp flip: room_for_one_def)
    then show ?thesis using table_ok_room [OF assms(1)] by (simp add: extends_def)
  qed
qed

inductive table_step :: "primitive_table \<Rightarrow> primitive_table \<Rightarrow> bool" where
  step_declare: "declare_primitive al nm code hi doc tab = Some (p, tab') \<Longrightarrow> table_step tab tab'"
| step_install: "install_primitive al nm code hi doc tab = Some (p, tab') \<Longrightarrow> table_step tab tab'"
| step_make: "make_primitive al nm arity tab = Some (p, tab') \<Longrightarrow> table_step tab tab'"
| step_find: "find_primitive_cname al nm intern_p allow_p arity tab = Some (r, tab') \<Longrightarrow> table_step tab tab'"

inductive_cases table_stepE: "table_step tab tab'"

lemma extends_arity: "table_ok tab \<Longrightarrow> extends tab (tab\<lparr>Primitive_Arity_Table := f\<rparr>)"
  by (simp add: extends_def table_ok_def index_of_def)

lemma table_step_extends: "table_step tab tab' \<Longrightarrow> table_ok tab \<Longrightarrow> extends tab tab'"
proof (erule table_stepE)
  fix al nm code hi doc p
  assume "table_ok tab" "declare_primitive al nm code hi doc tab = Some (p, tab')"
  then show "extends tab tab'" using declare_extends by (auto simp: declare_primitive_def)
next
  fix al nm code hi doc p
  assume "table_ok tab" "install_primitive al nm code hi doc tab = Some (p, tab')"
  then show "extends tab tab'" using declare_extends by (auto simp: install_primitive_def)
next
  fix al nm arity p
  assume "table_ok tab" "make_primitive al nm arity tab = Some (p, tab')"
  then show "extends tab tab'" using declare_extends by (auto simp: make_primitive_def declare_primitive_def Let_def)
next
  fix al nm intern_p allow_p arity r
  assume ok: "table_ok tab" and "find_primitive_cname al nm intern_p allow_p arity tab = Some (r, tab')"
  then show "extends tab tab'"
    using declare_extends [OF ok] extends_arity [OF ok]
    by (auto simp: find_primitive_cname_def declare_primitive_def extends_def Let_def split: tree.splits if_splits)
qed

text \<open>Through every sequence of operations the invariant holds and a name keeps its index.\<close>

theorem table_history: "table_step\<^sup>*\<^sup>* tab tab' \<Longrightarrow> table_ok tab \<Longrightarrow> extends tab tab'"
proof (induction rule: rtranclp_induct)
  case base then show ?case by (simp add: extends_def)
next
  case (step t t')
  then show ?case using table_step_extends [OF step.hyps(2)] by (auto simp: extends_def)
qed

text \<open>Making a primitive and finding it again.\<close>

lemma small_datum: "n < 2 ^ 58 \<Longrightarrow> uint (word_of_nat n :: ulong) < 2 ^ 58"
  by (simp add: uint_nat unat_of_nat64)

lemma MAKE_PRIMITIVE_OBJECT_fields:
  assumes "i < 2 ^ 58"
  shows "OBJECT_DATUM (MAKE_PRIMITIVE_OBJECT i) = word_of_nat i" "OBJECT_TYPE (MAKE_PRIMITIVE_OBJECT i) = TC_PRIMITIVE"
    "PRIMITIVE_NUMBER (MAKE_PRIMITIVE_OBJECT i) = i"
  using small_datum [OF assms] assms by (simp_all add: MAKE_PRIMITIVE_OBJECT_def PRIMITIVE_NUMBER_def unat_of_nat64)

lemma make_result:
  assumes "i < 2 ^ 58" "r = MAKE_PRIMITIVE_OBJECT i \<or> r = LONG_TO_UNSIGNED_FIXNUM (OBJECT_DATUM (MAKE_PRIMITIVE_OBJECT i))"
  shows "r \<noteq> SHARP_F" "OBJECT_NEW_TYPE TC_PRIMITIVE r = MAKE_PRIMITIVE_OBJECT i"
proof -
  have d: "OBJECT_DATUM r = word_of_nat i"
    using assms(2) small_datum [OF assms(1)] MAKE_PRIMITIVE_OBJECT_fields [OF assms(1)]
    by (auto simp: LONG_TO_UNSIGNED_FIXNUM_def)
  then show "OBJECT_NEW_TYPE TC_PRIMITIVE r = MAKE_PRIMITIVE_OBJECT i" by (simp add: OBJECT_NEW_TYPE_def MAKE_PRIMITIVE_OBJECT_def)
  have "OBJECT_TYPE r \<noteq> 0"
    using assms(2) small_datum [OF assms(1)] MAKE_PRIMITIVE_OBJECT_fields [OF assms(1)]
    by (auto simp: LONG_TO_UNSIGNED_FIXNUM_def)
  moreover have "OBJECT_TYPE SHARP_F = 0" by (simp add: SHARP_F_def)
  ultimately show "r \<noteq> SHARP_F" by auto
qed

lemma tree_lookup_key: "name_key a = name_key b \<Longrightarrow> tree_lookup t a = tree_lookup t b"
  by (induction t) (simp_all add: strcmp_ci_key)

theorem make_then_find:
  assumes "table_ok tab" "MAX_PRIMITIVE tab < 2 ^ 58"
  shows "\<exists>p tab'. make_primitive True nm arity tab = Some (p, tab')
    \<and> find_primitive_cname True nm False True UNKNOWN_PRIMITIVE_ARITY tab' = Some (Inr p, tab')
    \<and> index_of tab' nm = Some (PRIMITIVE_NUMBER p)"
proof (cases "tree_lookup (prim_procedure_tree tab) nm")
  case Null
  let ?i = "MAX_PRIMITIVE tab"
  have "index_of tab nm = None" using Null by (simp add: index_of_def)
  then obtain tab' where d: "declare_primitive_internal True False nm Prim_unimplemented arity None tab = Some (MAKE_PRIMITIVE_OBJECT ?i, tab')"
    "index_of tab' nm = Some ?i"
    using declare_new [OF assms(1), of nm False Prim_unimplemented arity None] by auto
  have m: "make_primitive True nm arity tab = Some (MAKE_PRIMITIVE_OBJECT ?i, tab')"
    using d(1) Null make_result [OF assms(2)] by (simp add: make_primitive_def declare_primitive_def)
  obtain h l r n where "tree_lookup (prim_procedure_tree tab') nm = Node h l r n ?i"
    using d(2) by (auto simp: index_of_def split: tree.splits)
  then show ?thesis using m d(2) MAKE_PRIMITIVE_OBJECT_fields [OF assms(2)] by (simp add: find_primitive_cname_def)
next
  case (Node h l r n i)
  have ord: "ordered (entries (prim_procedure_tree tab))" using assms(1) by (simp add: table_ok_def)
  have n: "(n, i) \<in> set (entries (prim_procedure_tree tab))" "name_key n = name_key nm"
    using tree_lookup_correct [OF ord, of nm] Node by simp_all
  then have i: "i < 2 ^ 58" using assms by (auto simp: table_ok_def dest: bspec)
  have look: "tree_lookup (prim_procedure_tree tab) n = Node h l r n i" using tree_lookup_key [OF n(2)] Node by simp
  have "\<exists>q tab'. declare_primitive_internal True False n Prim_unimplemented arity None tab = Some (q, tab')
    \<and> (q = MAKE_PRIMITIVE_OBJECT i \<or> q = LONG_TO_UNSIGNED_FIXNUM (OBJECT_DATUM (MAKE_PRIMITIVE_OBJECT i)))
    \<and> prim_procedure_tree tab' = prim_procedure_tree tab"
    using look by (simp add: declare_primitive_internal_def Let_def split del: if_split) (simp split: if_split)
  then obtain q tab' where d: "declare_primitive_internal True False n Prim_unimplemented arity None tab = Some (q, tab')"
    "q = MAKE_PRIMITIVE_OBJECT i \<or> q = LONG_TO_UNSIGNED_FIXNUM (OBJECT_DATUM (MAKE_PRIMITIVE_OBJECT i))"
    "prim_procedure_tree tab' = prim_procedure_tree tab" by blast
  have "make_primitive True nm arity tab = Some (MAKE_PRIMITIVE_OBJECT i, tab')"
    using d(1) Node make_result [OF i d(2)] by (simp add: make_primitive_def declare_primitive_def)
  then show ?thesis
    using Node d(3) MAKE_PRIMITIVE_OBJECT_fields [OF i] by (simp add: find_primitive_cname_def index_of_def)
qed

section \<open>Renumbering is injective\<close>

definition renumber_ok :: "prim_renumber \<Rightarrow> bool" where
  "renumber_ok pr \<longleftrightarrow> (\<forall>i j. internal pr i = Some j \<longleftrightarrow> external pr j = Some i)
     \<and> (\<forall>j. external pr j \<noteq> None \<longleftrightarrow> j < next_code pr)"

lemma renumber_initial: "renumber_ok make_prim_renumber"
  by (simp add: renumber_ok_def make_prim_renumber_def)

definition renumbers :: "prim_renumber \<Rightarrow> ulong \<Rightarrow> ulong \<Rightarrow> bool" where
  "renumbers pr p q \<longleftrightarrow> OBJECT_TYPE q = OBJECT_TYPE p
     \<and> external pr (unat (OBJECT_DATUM q)) = Some (unat (OBJECT_DATUM p))"

lemma OBJECT_NEW_DATUM_fields:
  assumes "n < 2 ^ 58"
  shows "OBJECT_DATUM (OBJECT_NEW_DATUM p (of_nat n)) = of_nat n" "OBJECT_TYPE (OBJECT_NEW_DATUM p (of_nat n)) = OBJECT_TYPE p"
  using small_datum [OF assms] OBJECT_TYPE_bound [of p] by (simp_all add: OBJECT_NEW_DATUM_def)

text \<open>Later steps keep the external numbers given out.\<close>

definition keeps :: "prim_renumber \<Rightarrow> prim_renumber \<Rightarrow> bool" where
  "keeps pr pr' \<longleftrightarrow> (\<forall>j i. external pr j = Some i \<longrightarrow> external pr' j = Some i) \<and> next_code pr \<le> next_code pr'"

lemma renumber_step:
  assumes "renumber_ok pr" "next_code pr < 2 ^ 58" "renumber_primitive p pr = (q, pr')"
  shows "renumber_ok pr' \<and> renumbers pr' p q \<and> keeps pr pr' \<and> next_code pr' \<le> next_code pr + 1"
proof (cases "internal pr (unat (OBJECT_DATUM p))")
  case (Some new)
  then have "external pr new = Some (unat (OBJECT_DATUM p))" "new < next_code pr"
    using assms(1) by (auto simp: renumber_ok_def)
  then show ?thesis
    using Some assms OBJECT_NEW_DATUM_fields [of new p]
    by (simp add: renumber_primitive_def renumbers_def keeps_def unat_of_nat64)
next
  case None
  have q: "q = OBJECT_NEW_DATUM p (of_nat (next_code pr))"
    "pr' = pr\<lparr>next_code := next_code pr + 1, internal := (internal pr)(unat (OBJECT_DATUM p) := Some (next_code pr)),
       external := (external pr)(next_code pr := Some (unat (OBJECT_DATUM p)))\<rparr>"
    using None assms(3) by (simp_all add: renumber_primitive_def Let_def)
  have free: "external pr (next_code pr) = None" "\<And>i. internal pr i \<noteq> Some (next_code pr)"
    using assms(1) by (auto simp: renumber_ok_def)
  have "external pr j \<noteq> Some (unat (OBJECT_DATUM p))" for j using None assms(1) by (simp add: renumber_ok_def) (metis option.distinct(1))
  then have "renumber_ok pr'" using assms(1) free None unfolding q(2) renumber_ok_def by auto
  moreover have "keeps pr pr'" using free(1) by (auto simp: q(2) keeps_def)
  ultimately show ?thesis
    using OBJECT_NEW_DATUM_fields [OF assms(2), of p] assms(2) by (simp add: q renumbers_def unat_of_nat64)
qed

text \<open>
  Renumbering a sequence of primitives: the external table leads back from every new number to
  the old one, and the new numbers are a contiguous range from zero.
\<close>

theorem renumber_all_correct:
  assumes "renumber_ok pr" "next_code pr + length ps < 2 ^ 58" "renumber_all ps pr = (qs, pr')"
  shows "renumber_ok pr' \<and> keeps pr pr' \<and> list_all2 (renumbers pr') ps qs"
  using assms
proof (induction ps arbitrary: pr qs)
  case Nil then show ?case by (simp add: keeps_def)
next
  case (Cons p ps)
  obtain q pr1 where one: "renumber_primitive p pr = (q, pr1)" by fastforce
  obtain rs where rest: "renumber_all ps pr1 = (rs, pr')" "qs = q # rs"
    using Cons.prems(3) one by (auto simp: Let_def split: prod.splits)
  note s = renumber_step [OF Cons.prems(1) _ one]
  have "renumber_ok pr1" "renumbers pr1 p q" "keeps pr pr1" "next_code pr1 \<le> next_code pr + 1" using s Cons.prems(2) by simp_all
  then show ?case
    using Cons.IH [OF _ _ rest(1)] Cons.prems(2) rest(2) by (auto simp: keeps_def renumbers_def)
qed

end
