(* ===== verification/Interp_State.thy ===== *)
theory Interp_State
  imports Lookup Gc_Loop Primitive_Table
begin

text \<open>
  The state of the interpreter and the operations on it: the stack (\<open>stack.h\<close>), the registers
  and continuations (\<open>interp.h\<close>, \<open>extern.h\<close>), terminations (\<open>term.c\<close>), the history of
  evaluations (\<open>history.h\<close>, \<open>utils.c\<close>), interrupts (\<open>intrpt.h\<close>, \<open>utils.c\<close>) and the set-up of
  an error handler (\<open>utils.c\<close>). The stack lies in the memory of the machine and grows
  downwards. A piece of code is a function to an option, \<^const>\<open>None\<close> when it does not return;
  it takes the code that follows it as an argument, and ends early by an exit of the program
  or an abort to the interpreter, the \<open>longjmp\<close> of the C program. The configuration is that of a production
  version without compiled code: assertions are kept, debugging output is left out.
\<close>

declare LEXPR_PRIMITIVE_ARITY_def [simp] FIXOBJ_RECORD_TAG_def [simp] FIXOBJ_RECORD_APP_INDEX_def [simp]
  FIXOBJ_PROXIED_RECORD_TYPES_def [simp] FASDUMP_RECORD_MARKER_START_def [simp] FASDUMP_RECORD_MARKER_END_def [simp]

section \<open>Registers and the stack\<close>

record interp =
  memory :: machine
  stack_pointer :: nat
  stack_start :: nat
  stack_end :: nat
  stack_guard :: nat
  reg_val :: ulong
  reg_env :: ulong
  reg_exp :: ulong
  reg_ret :: ulong
  reg_primitive :: ulong
  lexpr_actuals :: ulong
  history_register :: nat
  prev_restore_history_offset :: ulong
  trapping :: bool
  critical_section :: bool
  critical_section_hook_p :: bool
  error_argument :: ulong
  death_blow :: int
  prim_apply_error_code :: int
  interpreter_states :: nat

text \<open>
  The only hook the system installs at the end of a critical section is \<open>invoke_soft_reset\<close> (\<open>uxsig.c\<close>),
  which never returns: the model ends with \<open>Soft_Reset\<close>.
\<close>

datatype outcome = Abort_To_Interpreter int | Exit_Scheme int | Died abort | Soft_Reset

type_synonym 'r code = "interp \<Rightarrow> ((outcome + 'r) \<times> interp) option"

definition deliver :: "'r \<Rightarrow> 'r code" where
  "deliver r s = Some (Inr r, s)"

definition leave :: "outcome \<Rightarrow> 'r code" where
  "leave q s = Some (Inl q, s)"

definition doing :: "(interp \<Rightarrow> interp) \<Rightarrow> 'r code \<Rightarrow> 'r code" where
  "doing f k s = k (f s)"

definition doing_all :: "(interp \<Rightarrow> interp) list \<Rightarrow> 'r code \<Rightarrow> 'r code" where
  "doing_all fs k s = k (fold (\<lambda>f s. f s) fs s)"

text \<open>The codes an abort carries (\<open>error_wrong_type_arg\<close>, \<open>error_bad_range_arg\<close>).\<close>

fun prim_error_code :: "prim_error \<Rightarrow> int" where
  "prim_error_code (Wrong_Type n) =
     (if 1 \<le> n \<and> n \<le> 3 then 0x0D + (int n - 1) else if 4 \<le> n \<and> n \<le> 10 then 0x29 + (int n - 4) else 0x0A)"
| "prim_error_code (Bad_Range n) =
     (if 1 \<le> n \<and> n \<le> 3 then 0x10 + (int n - 1) else if 4 \<le> n \<and> n \<le> 10 then 0x22 + (int n - 4) else 0x0A)"

fun outcome_of :: "abort \<Rightarrow> outcome" where
  "outcome_of (Prim_Error e) = Abort_To_Interpreter (prim_error_code e)"
| "outcome_of Wrong_Number_Of_Arguments = Abort_To_Interpreter 0x0C"
| "outcome_of PRIM_INTERRUPT = Abort_To_Interpreter PRIM_INTERRUPT_CODE"
| "outcome_of (Error_Code code) = Abort_To_Interpreter code"
| "outcome_of e = Died e"

definition calling :: "'a proc \<Rightarrow> ('a \<Rightarrow> 'r code) \<Rightarrow> 'r code" where
  "calling p k s =
     (case p (memory s) of
        None \<Rightarrow> None
      | Some (Inl e, m) \<Rightarrow> leave (outcome_of e) (s\<lparr>memory := m\<rparr>)
      | Some (Inr a, m) \<Rightarrow> k a (s\<lparr>memory := m\<rparr>))"

definition ASSERT :: "bool \<Rightarrow> 'r code \<Rightarrow> 'r code" where
  "ASSERT p k = (if p then k else leave (Died Assertion_Failure))"

definition SET_VAL :: "ulong \<Rightarrow> interp \<Rightarrow> interp" where "SET_VAL v s = s\<lparr>reg_val := v\<rparr>"
definition SET_ENV :: "ulong \<Rightarrow> interp \<Rightarrow> interp" where "SET_ENV v s = s\<lparr>reg_env := v\<rparr>"
definition SET_EXP :: "ulong \<Rightarrow> interp \<Rightarrow> interp" where "SET_EXP v s = s\<lparr>reg_exp := v\<rparr>"
definition SET_RET :: "ulong \<Rightarrow> interp \<Rightarrow> interp" where "SET_RET v s = s\<lparr>reg_ret := v\<rparr>"
definition SET_PRIMITIVE :: "ulong \<Rightarrow> interp \<Rightarrow> interp" where "SET_PRIMITIVE v s = s\<lparr>reg_primitive := v\<rparr>"
definition SET_LEXPR_ACTUALS :: "ulong \<Rightarrow> interp \<Rightarrow> interp" where "SET_LEXPR_ACTUALS n s = s\<lparr>lexpr_actuals := n\<rparr>"
definition MAKE_RETURN_CODE :: "ulong \<Rightarrow> ulong" where "MAKE_RETURN_CODE n = MAKE_OBJECT TC_RETURN_CODE n"
definition SET_RC :: "ulong \<Rightarrow> interp \<Rightarrow> interp" where "SET_RC code = SET_RET (MAKE_RETURN_CODE code)"

definition on_memory :: "(machine \<Rightarrow> machine) \<Rightarrow> interp \<Rightarrow> interp" where
  "on_memory f s = s\<lparr>memory := f (memory s)\<rparr>"

text \<open>Locations relative to the stack pointer; \<open>STACK_REF\<close> reads one.\<close>

definition STACK_LOC :: "interp \<Rightarrow> int \<Rightarrow> nat" where
  "STACK_LOC s i = nat (int (stack_pointer s) + i)"

definition STACK_REF :: "interp \<Rightarrow> nat \<Rightarrow> ulong" where
  "STACK_REF s i = mem (memory s) (stack_pointer s + i)"

definition STACK_SET :: "nat \<Rightarrow> ulong \<Rightarrow> interp \<Rightarrow> interp" where
  "STACK_SET i v s = on_memory (write_word (stack_pointer s + i) v) s"

definition STACK_PUSH :: "ulong \<Rightarrow> interp \<Rightarrow> interp" where
  "STACK_PUSH v s = on_memory (write_word (stack_pointer s - 1) v) (s\<lparr>stack_pointer := stack_pointer s - 1\<rparr>)"

definition STACK_DROP :: "nat \<Rightarrow> interp \<Rightarrow> interp" where
  "STACK_DROP n s = s\<lparr>stack_pointer := stack_pointer s + n\<rparr>"

definition STACK_N_PUSHED :: "interp \<Rightarrow> nat" where
  "STACK_N_PUSHED s = stack_end s - stack_pointer s"

definition PUSH_ENV :: "interp \<Rightarrow> interp" where "PUSH_ENV s = STACK_PUSH (reg_env s) s"
definition PUSH_VAL :: "interp \<Rightarrow> interp" where "PUSH_VAL s = STACK_PUSH (reg_val s) s"
definition PUSH_EXP :: "interp \<Rightarrow> interp" where "PUSH_EXP s = STACK_PUSH (reg_exp s) s"
definition PUSH_RET :: "interp \<Rightarrow> interp" where "PUSH_RET s = STACK_PUSH (reg_ret s) s"
definition POP_ENV :: "interp \<Rightarrow> interp" where "POP_ENV s = STACK_DROP 1 (SET_ENV (STACK_REF s 0) s)"
definition POP_RET :: "interp \<Rightarrow> interp" where "POP_RET s = STACK_DROP 1 (SET_RET (STACK_REF s 0) s)"
definition POP_EXP :: "interp \<Rightarrow> interp" where "POP_EXP s = STACK_DROP 1 (SET_EXP (STACK_REF s 0) s)"
definition SAVE_CONT :: "interp \<Rightarrow> interp" where "SAVE_CONT s = PUSH_RET (PUSH_EXP s)"
definition RESTORE_CONT :: "interp \<Rightarrow> interp" where "RESTORE_CONT s = POP_EXP (POP_RET s)"

definition CONTINUATION_SIZE :: int where [simp]: "CONTINUATION_SIZE = 2"
definition HISTORY_SIZE :: int where [simp]: "HISTORY_SIZE = CONTINUATION_SIZE + 2"
definition STACK_ENV_EXTRA_SLOTS :: int where [simp]: "STACK_ENV_EXTRA_SLOTS = 1"
definition CONTINUATION_RETURN_CODE :: nat where [simp]: "CONTINUATION_RETURN_CODE = 0"
definition CONTINUATION_EXPRESSION :: nat where [simp]: "CONTINUATION_EXPRESSION = 1"
definition STACK_COMB_FINGER :: nat where [simp]: "STACK_COMB_FINGER = 0"
definition STACK_COMB_FIRST_ARG :: nat where [simp]: "STACK_COMB_FIRST_ARG = 1"

definition PUSH_APPLY_FRAME_HEADER :: "ulong \<Rightarrow> interp \<Rightarrow> interp" where
  "PUSH_APPLY_FRAME_HEADER n_args = STACK_PUSH (MAKE_OBJECT 0 (n_args + 1))"
definition APPLY_FRAME_HEADER_N_ARGS :: "ulong \<Rightarrow> ulong" where "APPLY_FRAME_HEADER_N_ARGS header = OBJECT_DATUM header - 1"
definition APPLY_FRAME_SIZE :: "interp \<Rightarrow> ulong" where "APPLY_FRAME_SIZE s = OBJECT_DATUM (STACK_REF s 0)"
definition APPLY_FRAME_N_ARGS :: "interp \<Rightarrow> ulong" where "APPLY_FRAME_N_ARGS s = APPLY_FRAME_HEADER_N_ARGS (STACK_REF s 0)"
definition APPLY_FRAME_PROCEDURE :: "interp \<Rightarrow> ulong" where "APPLY_FRAME_PROCEDURE s = STACK_REF s 1"
definition SET_APPLY_FRAME_PROCEDURE :: "ulong \<Rightarrow> interp \<Rightarrow> interp" where "SET_APPLY_FRAME_PROCEDURE v = STACK_SET 1 v"
definition CONT_RET :: "interp \<Rightarrow> nat \<Rightarrow> ulong" where "CONT_RET s offset = STACK_REF s (offset + CONTINUATION_RETURN_CODE)"
definition CONT_EXP :: "interp \<Rightarrow> nat \<Rightarrow> ulong" where "CONT_EXP s offset = STACK_REF s (offset + CONTINUATION_EXPRESSION)"
definition RETURN_CODE_P :: "ulong \<Rightarrow> bool" where "RETURN_CODE_P x = (OBJECT_TYPE x = TC_RETURN_CODE)"
definition CHECK_RETURN_CODE :: "interp \<Rightarrow> ulong \<Rightarrow> nat \<Rightarrow> bool" where
  "CHECK_RETURN_CODE s code offset = (CONT_RET s offset = MAKE_RETURN_CODE code)"
definition ARG_REF :: "interp \<Rightarrow> nat \<Rightarrow> ulong" where "ARG_REF s argument = STACK_REF s (argument - 1)"
definition POP_PRIMITIVE_FRAME :: "nat \<Rightarrow> interp \<Rightarrow> interp" where "POP_PRIMITIVE_FRAME arity = STACK_DROP arity"

section \<open>Codes\<close>

definition PRIM_DO_EXPRESSION :: int where [simp]: "PRIM_DO_EXPRESSION = - 2"
definition PRIM_APPLY :: int where [simp]: "PRIM_APPLY = - 3"
definition PRIM_NO_TRAP_EVAL :: int where [simp]: "PRIM_NO_TRAP_EVAL = - 5"
definition PRIM_NO_TRAP_APPLY :: int where [simp]: "PRIM_NO_TRAP_APPLY = - 6"
definition PRIM_POP_RETURN :: int where [simp]: "PRIM_POP_RETURN = - 7"
definition PRIM_APPLY_INTERRUPT :: int where [simp]: "PRIM_APPLY_INTERRUPT = - 9"
definition PRIM_APPLY_ERROR :: int where [simp]: "PRIM_APPLY_ERROR = - 10"
definition PRIM_NO_TRAP_POP_RETURN :: int where [simp]: "PRIM_NO_TRAP_POP_RETURN = - 11"
definition PRIM_RETURN_TO_C :: int where [simp]: "PRIM_RETURN_TO_C = - 12"
definition PRIM_ABORT_TO_C :: int where [simp]: "PRIM_ABORT_TO_C = - 13"

definition ERR_BAD_ERROR_CODE :: int where [simp]: "ERR_BAD_ERROR_CODE = 0x00"
definition ERR_INAPPLICABLE_OBJECT :: int where [simp]: "ERR_INAPPLICABLE_OBJECT = 0x03"
definition ERR_IN_SYSTEM_CALL :: int where [simp]: "ERR_IN_SYSTEM_CALL = 0x04"
definition ERR_WITH_ARGUMENT :: int where [simp]: "ERR_WITH_ARGUMENT = 0x05"
definition ERR_EXTERNAL_RETURN :: int where [simp]: "ERR_EXTERNAL_RETURN = 0x0A"
definition ERR_EXECUTE_MANIFEST_VECTOR :: int where [simp]: "ERR_EXECUTE_MANIFEST_VECTOR = 0x0B"
definition ERR_WRONG_NUMBER_OF_ARGUMENTS :: int where [simp]: "ERR_WRONG_NUMBER_OF_ARGUMENTS = 0x0C"
definition ERR_SYNTAX_ERROR :: int where [simp]: "ERR_SYNTAX_ERROR = 0x15"
definition ERR_INAPPLICABLE_CONTINUATION :: int where [simp]: "ERR_INAPPLICABLE_CONTINUATION = 0x30"
definition ERR_UNIMPLEMENTED_PRIMITIVE :: int where [simp]: "ERR_UNIMPLEMENTED_PRIMITIVE = 0x33"

definition TERM_HALT :: int where [simp]: "TERM_HALT = 0x00"
definition TERM_BROKEN_HEART :: int where [simp]: "TERM_BROKEN_HEART = 0x02"
definition TERM_STACK_OVERFLOW :: int where [simp]: "TERM_STACK_OVERFLOW = 0x07"
definition TERM_NO_ERROR_HANDLER :: int where [simp]: "TERM_NO_ERROR_HANDLER = 0x09"
definition TERM_NO_INTERRUPT_HANDLER :: int where [simp]: "TERM_NO_INTERRUPT_HANDLER = 0x0A"
definition TERM_TERM_HANDLER :: int where [simp]: "TERM_TERM_HANDLER = 0x10"
definition TERM_END_OF_COMPUTATION :: int where [simp]: "TERM_END_OF_COMPUTATION = 0x11"
definition TERM_GC_OUT_OF_SPACE :: int where [simp]: "TERM_GC_OUT_OF_SPACE = 0x14"
definition TERM_TRAP :: int where [simp]: "TERM_TRAP = 0x19"

definition RC_END_OF_COMPUTATION :: ulong where [simp]: "RC_END_OF_COMPUTATION = 0x00"
definition RC_JOIN_STACKLETS :: ulong where [simp]: "RC_JOIN_STACKLETS = 0x01"
definition RC_INTERNAL_APPLY :: ulong where [simp]: "RC_INTERNAL_APPLY = 0x03"
definition RC_RESTORE_HISTORY :: ulong where [simp]: "RC_RESTORE_HISTORY = 0x05"
definition RC_EXECUTE_ASSIGNMENT_FINISH :: ulong where [simp]: "RC_EXECUTE_ASSIGNMENT_FINISH = 0x08"
definition RC_EXECUTE_DEFINITION_FINISH :: ulong where [simp]: "RC_EXECUTE_DEFINITION_FINISH = 0x09"
definition RC_EXECUTE_ACCESS_FINISH :: ulong where [simp]: "RC_EXECUTE_ACCESS_FINISH = 0x0A"
definition RC_EXECUTE_SEQUENCE_FINISH :: ulong where [simp]: "RC_EXECUTE_SEQUENCE_FINISH = 0x0C"
definition RC_CONDITIONAL_DECIDE :: ulong where [simp]: "RC_CONDITIONAL_DECIDE = 0x0F"
definition RC_DISJUNCTION_DECIDE :: ulong where [simp]: "RC_DISJUNCTION_DECIDE = 0x10"
definition RC_COMB_APPLY_FUNCTION :: ulong where [simp]: "RC_COMB_APPLY_FUNCTION = 0x12"
definition RC_COMB_SAVE_VALUE :: ulong where [simp]: "RC_COMB_SAVE_VALUE = 0x15"
definition RC_SNAP_NEED_THUNK :: ulong where [simp]: "RC_SNAP_NEED_THUNK = 0x1C"
definition RC_NORMAL_GC_DONE :: ulong where [simp]: "RC_NORMAL_GC_DONE = 0x20"
definition RC_POP_FROM_COMPILED_CODE :: ulong where [simp]: "RC_POP_FROM_COMPILED_CODE = 0x29"
definition RC_RESTORE_VALUE :: ulong where [simp]: "RC_RESTORE_VALUE = 0x2E"
definition RC_RESTORE_DONT_COPY_HISTORY :: ulong where [simp]: "RC_RESTORE_DONT_COPY_HISTORY = 0x2F"
definition RC_POP_RETURN_ERROR :: ulong where [simp]: "RC_POP_RETURN_ERROR = 0x40"
definition RC_EVAL_ERROR :: ulong where [simp]: "RC_EVAL_ERROR = 0x41"
definition RC_STACK_MARKER :: ulong where [simp]: "RC_STACK_MARKER = 0x42"
definition RC_RESTORE_INT_MASK :: ulong where [simp]: "RC_RESTORE_INT_MASK = 0x45"
definition RC_HALT :: ulong where [simp]: "RC_HALT = 0x46"
definition RC_HARDWARE_TRAP :: ulong where [simp]: "RC_HARDWARE_TRAP = 0x5C"
definition RC_INTERNAL_APPLY_VAL :: ulong where [simp]: "RC_INTERNAL_APPLY_VAL = 0x5D"

definition SYSTEM_INTERRUPT_VECTOR :: nat where [simp]: "SYSTEM_INTERRUPT_VECTOR = 0x01"
definition SYSTEM_ERROR_VECTOR :: nat where [simp]: "SYSTEM_ERROR_VECTOR = 0x02"
definition FIXOBJ_INTERRUPT_MASK_VECTOR :: nat where [simp]: "FIXOBJ_INTERRUPT_MASK_VECTOR = 0x06"
definition TRAP_HANDLER :: nat where [simp]: "TRAP_HANDLER = 0x0C"
definition STEPPER_STATE :: nat where [simp]: "STEPPER_STATE = 0x0E"

definition DUMMY_HISTORY :: nat where [simp]: "DUMMY_HISTORY = 0x13"

definition Termination_Proc_Vector :: nat where [simp]: "Termination_Proc_Vector = 0x17"
definition Error_Procedure :: nat where [simp]: "Error_Procedure = 0x1D"
definition ARITY_DISPATCHER_TAG :: nat where [simp]: "ARITY_DISPATCHER_TAG = 0x33"

definition FIXED_OBJECT :: "interp \<Rightarrow> nat \<Rightarrow> ulong" where
  "FIXED_OBJECT s i = VECTOR_REF (memory s) (fixed_objects (memory s)) i"

definition FIXED_OBJECTS_P :: "interp \<Rightarrow> bool" where
  "FIXED_OBJECTS_P s = VECTOR_P (fixed_objects (memory s))"

section \<open>Interrupts and the limits of the stack\<close>

definition INT_Stack_Overflow :: ulong where "INT_Stack_Overflow = 1"
definition MAX_INTERRUPT_NUMBER :: nat where [simp]: "MAX_INTERRUPT_NUMBER = 0xF"
definition INT_Mask :: ulong where "INT_Mask = push_bit (MAX_INTERRUPT_NUMBER + 1) 1 - 1"

definition PENDING_INTERRUPTS_P :: "interp \<Rightarrow> bool" where
  "PENDING_INTERRUPTS_P s = (PENDING_INTERRUPTS (memory s) \<noteq> 0)"

definition SET_INTERRUPT_MASK :: "ulong \<Rightarrow> machine \<Rightarrow> machine" where
  "SET_INTERRUPT_MASK new_mask m = m\<lparr>int_mask := new_mask\<rparr>"

definition CLEAR_INTERRUPT_NOLOCK :: "ulong \<Rightarrow> machine \<Rightarrow> machine" where
  "CLEAR_INTERRUPT_NOLOCK code m = m\<lparr>int_code := int_code m AND NOT code\<rparr>"

definition CAN_PUSH_P :: "interp \<Rightarrow> int \<Rightarrow> bool" where
  "CAN_PUSH_P s n = (int (stack_guard s) \<le> int (stack_pointer s) - n)"

definition interp_STACK_OVERFLOWED_P :: "interp \<Rightarrow> bool" where
  "interp_STACK_OVERFLOWED_P s = (mem (memory s) (stack_start s) \<noteq> MAKE_BROKEN_HEART (stack_start s))"

definition STACK_GUARD_SIZE :: nat where "STACK_GUARD_SIZE = 4096"

definition INITIALIZE_STACK :: "interp \<Rightarrow> interp" where
  "INITIALIZE_STACK s =
     (on_memory (write_word (stack_start s) (MAKE_BROKEN_HEART (stack_start s))) (s\<lparr>stack_pointer := stack_end s\<rparr>))
       \<lparr>stack_guard := stack_start s + STACK_GUARD_SIZE\<rparr>"

section \<open>Terminations\<close>

text \<open>
  A termination with a handler in the fixed objects applies the handler; it checks the stack first,
  and a stack that has overflowed is itself a termination.
\<close>

definition termination_handler :: "int \<Rightarrow> interp \<Rightarrow> ulong option" where
  "termination_handler code s =
     (if critical_section s \<or> code = TERM_HALT \<or> \<not> FIXED_OBJECTS_P s then None
      else let v = FIXED_OBJECT s Termination_Proc_Vector
           in if \<not> VECTOR_P v \<or> int (unat (VECTOR_LENGTH (memory s) v)) \<le> code then None
              else let procedure = VECTOR_REF (memory s) v (nat code)
                   in if procedure = SHARP_F then None else Some procedure)"

definition apply_termination_handler :: "int \<Rightarrow> ulong \<Rightarrow> 'r code" where
  "apply_termination_handler code procedure =
     doing_all ([SET_RC RC_HALT, SET_EXP (LONG_TO_UNSIGNED_FIXNUM (word_of_int code)), SAVE_CONT]
         @ (if code = TERM_NO_ERROR_HANDLER then [\<lambda>s. STACK_PUSH (LONG_TO_UNSIGNED_FIXNUM (word_of_int (death_blow s))) s] else [])
         @ [PUSH_VAL, PUSH_ENV, PUSH_EXP, STACK_PUSH procedure,
            PUSH_APPLY_FRAME_HEADER (if code = TERM_NO_ERROR_HANDLER then 4 else 3)])
       (leave (Abort_To_Interpreter PRIM_NO_TRAP_APPLY))"

partial_function (option) terminate_microcode :: "int \<Rightarrow> 'r code" where
  "terminate_microcode code s =
     (case termination_handler code s of
        None \<Rightarrow> leave (Exit_Scheme code) s
      | Some procedure \<Rightarrow>
          if CAN_PUSH_P s (CONTINUATION_SIZE + STACK_ENV_EXTRA_SLOTS + (if code = TERM_NO_ERROR_HANDLER then 5 else 4))
          then apply_termination_handler code procedure s
          else if interp_STACK_OVERFLOWED_P s then terminate_microcode TERM_STACK_OVERFLOW s
          else apply_termination_handler code procedure (on_memory (REQUEST_INTERRUPT INT_Stack_Overflow) s))"

definition STACK_CHECK :: "int \<Rightarrow> 'r code \<Rightarrow> 'r code" where
  "STACK_CHECK n k s =
     (if CAN_PUSH_P s n then k s
      else if interp_STACK_OVERFLOWED_P s then terminate_microcode TERM_STACK_OVERFLOW s
      else k (on_memory (REQUEST_INTERRUPT INT_Stack_Overflow) s))"

definition Will_Push :: "int \<Rightarrow> 'r code \<Rightarrow> 'r code" where
  "Will_Push = STACK_CHECK"

section \<open>History\<close>

text \<open>
  The vertebrae form a doubly linked ring of subproblems; the rib of a vertebra is a ring of
  reductions. Marks are kept in the type of the second word of a vertebra and the third of a reduction.
\<close>

definition HIST_RIB :: nat where [simp]: "HIST_RIB = 0"
definition HIST_NEXT_SUBPROBLEM :: nat where [simp]: "HIST_NEXT_SUBPROBLEM = 1"
definition HIST_PREV_SUBPROBLEM :: nat where [simp]: "HIST_PREV_SUBPROBLEM = 2"
definition HIST_MARK :: nat where [simp]: "HIST_MARK = 1"
definition RIB_EXP :: nat where [simp]: "RIB_EXP = 0"
definition RIB_ENV :: nat where [simp]: "RIB_ENV = 1"
definition RIB_NEXT_REDUCTION :: nat where [simp]: "RIB_NEXT_REDUCTION = 2"
definition RIB_MARK :: nat where [simp]: "RIB_MARK = 2"

definition MARKED_HISTORY_TYPE :: ulong where [simp]: "MARKED_HISTORY_TYPE = TC_HUNK3_B"
definition HISTORY_MARK_TYPE :: ulong where "HISTORY_MARK_TYPE = UNMARKED_HISTORY_TYPE XOR MARKED_HISTORY_TYPE"
definition HISTORY_MARK_MASK :: ulong where "HISTORY_MARK_MASK = push_bit DATUM_LENGTH HISTORY_MARK_TYPE"
definition HUNK3_P :: "ulong \<Rightarrow> bool" where "HUNK3_P x = (OBJECT_TYPE x = TC_HUNK3_A \<or> OBJECT_TYPE x = TC_HUNK3_B)"

definition HISTORY_MARK :: "nat \<Rightarrow> machine \<Rightarrow> machine" where
  "HISTORY_MARK a m = write_word a (mem m a OR HISTORY_MARK_MASK) m"
definition HISTORY_UNMARK :: "nat \<Rightarrow> machine \<Rightarrow> machine" where
  "HISTORY_UNMARK a m = write_word a (mem m a AND NOT HISTORY_MARK_MASK) m"
definition HISTORY_MARKED_P :: "ulong \<Rightarrow> bool" where
  "HISTORY_MARKED_P x = (x AND HISTORY_MARK_MASK \<noteq> 0)"
definition READ_DUMMY_HISTORY :: "interp \<Rightarrow> ulong" where
  "READ_DUMMY_HISTORY s = FIXED_OBJECT s DUMMY_HISTORY"

definition history_link :: "interp \<Rightarrow> nat \<Rightarrow> nat" where
  "history_link s i = OBJECT_ADDRESS (mem (memory s) (history_register s + i))"

definition make_dummy_history :: "machine \<Rightarrow> nat \<times> machine" where
  "make_dummy_history m =
     (let rib = Free m; history = rib + 3; link = MAKE_POINTER_OBJECT UNMARKED_HISTORY_TYPE
      in (history, push_free (link history) (push_free (link history) (push_free (link rib)
           (push_free (link rib) (push_free SHARP_F (push_free SHARP_F m)))))))"

definition reset_history :: "interp \<Rightarrow> interp" where
  "reset_history s =
     (if FIXED_OBJECTS_P s \<and> READ_DUMMY_HISTORY s \<noteq> SHARP_F
      then s\<lparr>prev_restore_history_offset := 0, history_register := OBJECT_ADDRESS (READ_DUMMY_HISTORY s)\<rparr>
      else let (h, m) = make_dummy_history (memory s)
           in s\<lparr>prev_restore_history_offset := 0, history_register := h, memory := m\<rparr>)"

definition save_history :: "ulong \<Rightarrow> 'r code \<Rightarrow> 'r code" where
  "save_history rc k =
     Will_Push HISTORY_SIZE
       (doing_all [STACK_PUSH SHARP_F, \<lambda>s. STACK_PUSH (ULONG_TO_FIXNUM (prev_restore_history_offset s)) s,
           \<lambda>s. SET_EXP (MAKE_POINTER_OBJECT UNMARKED_HISTORY_TYPE (history_register s)) s, SET_RC rc, SAVE_CONT,
           \<lambda>s. s\<lparr>history_register := OBJECT_ADDRESS (READ_DUMMY_HISTORY s)\<rparr>] k)"

definition stop_history :: "'r code \<Rightarrow> 'r code" where
  "stop_history k s =
     save_history RC_RESTORE_DONT_COPY_HISTORY
       (doing_all [\<lambda>t. t\<lparr>prev_restore_history_offset := word_of_nat (STACK_N_PUSHED t + CONTINUATION_RETURN_CODE)\<rparr>,
           SET_RET (reg_ret s), SET_EXP (reg_exp s)] k) s"

definition write_reduction :: "nat \<Rightarrow> ulong \<Rightarrow> ulong \<Rightarrow> machine \<Rightarrow> machine" where
  "write_reduction rib expression environment m =
     write_word (rib + RIB_EXP) expression (write_word (rib + RIB_ENV) environment m)"

definition reuse_subproblem :: "ulong \<Rightarrow> ulong \<Rightarrow> interp \<Rightarrow> interp" where
  "reuse_subproblem expression environment s =
     (let rib = history_link s HIST_RIB
      in on_memory (\<lambda>m. write_reduction rib expression environment (HISTORY_MARK (rib + RIB_MARK) m)) s)"

definition new_subproblem :: "ulong \<Rightarrow> ulong \<Rightarrow> interp \<Rightarrow> interp" where
  "new_subproblem expression environment s =
     (let h = history_link s HIST_NEXT_SUBPROBLEM
      in reuse_subproblem expression environment (on_memory (HISTORY_MARK (h + HIST_MARK)) (s\<lparr>history_register := h\<rparr>)))"

definition new_reduction :: "ulong \<Rightarrow> ulong \<Rightarrow> interp \<Rightarrow> interp" where
  "new_reduction expression environment s =
     (let rib = OBJECT_ADDRESS (mem (memory s) (history_link s HIST_RIB + RIB_NEXT_REDUCTION))
      in on_memory (\<lambda>m. HISTORY_UNMARK (rib + RIB_MARK) (write_reduction rib expression environment
           (write_word (history_register s + HIST_RIB) (MAKE_POINTER_OBJECT UNMARKED_HISTORY_TYPE rib) m))) s)"

definition end_subproblem :: "interp \<Rightarrow> interp" where
  "end_subproblem s =
     (let t = on_memory (HISTORY_UNMARK (history_register s + HIST_MARK)) s
      in t\<lparr>history_register := history_link t HIST_PREV_SUBPROBLEM\<rparr>)"

text \<open>
  The copy of a history, made when a saved history is to be kept. The loops run over the ribs and the
  vertebrae of the ring; \<^const>\<open>None\<close> stands for the false object, returned when there is no space.
\<close>

definition SPACE_BEFORE_GC :: "machine \<Rightarrow> nat" where
  "SPACE_BEFORE_GC m =
     (if GC_ENABLED_P m then HEAP_AVAILABLE m
      else if heap_start m \<le> Free m \<and> Free m < heap_end m then heap_end m - Free m else 0)"

definition copy_rib_step ::
    "nat \<Rightarrow> nat \<times> nat \<times> nat \<times> nat \<times> ulong \<Rightarrow> ((nat \<times> nat \<times> nat \<times> ulong) option + nat \<times> nat \<times> nat \<times> nat \<times> ulong) proc" where
  "copy_rib_step orig_rib x m =
     (case x of (space_left, free, rib_slot, source_rib, rib_type) \<Rightarrow>
        if space_left < 3 then returnp (Inl None) m
        else let m1 = write_word rib_slot (MAKE_POINTER_OBJECT rib_type free) m;
                 m2 = write_word (free + RIB_EXP) (mem m1 (source_rib + RIB_EXP)) m1;
                 m3 = write_word (free + RIB_ENV) (mem m2 (source_rib + RIB_ENV)) m2;
                 temp = mem m3 (source_rib + RIB_NEXT_REDUCTION)
             in if OBJECT_ADDRESS temp \<noteq> orig_rib
                then returnp (Inr (space_left - 3, free + 3, free + RIB_NEXT_REDUCTION, OBJECT_ADDRESS temp, OBJECT_TYPE temp)) m3
                else returnp (Inl (Some (space_left - 3, free + 3, free + RIB_NEXT_REDUCTION, OBJECT_TYPE temp))) m3)"

definition copy_vertebra_step ::
    "nat \<Rightarrow> nat \<times> ulong \<times> nat \<times> nat \<times> nat \<Rightarrow> ((ulong \<times> nat \<times> nat \<times> nat) option + nat \<times> ulong \<times> nat \<times> nat \<times> nat) proc" where
  "copy_vertebra_step orig_hist x m =
     (case x of (space_left, vert_type, last_hunk, hist_ptr, free) \<Rightarrow>
        if space_left < 3 then returnp (Inl None) m
        else let m1 = write_word (last_hunk + HIST_NEXT_SUBPROBLEM) (MAKE_POINTER_OBJECT vert_type free) m;
                 m2 = write_word (free + HIST_PREV_SUBPROBLEM)
                        (MAKE_POINTER_OBJECT (OBJECT_TYPE (mem m1 (hist_ptr + HIST_PREV_SUBPROBLEM))) last_hunk) m1;
                 rib = mem m2 (hist_ptr + HIST_RIB); orig_rib = OBJECT_ADDRESS rib
             in bindp (loop (copy_rib_step orig_rib) (space_left - 3, free + 3, free + HIST_RIB, orig_rib, OBJECT_TYPE rib))
                  (\<lambda>r m4. case r of
                     None \<Rightarrow> returnp (Inl None) m4
                   | Some (space_left, free', rib_slot, rib_type) \<Rightarrow>
                       let m5 = write_word rib_slot (OBJECT_NEW_TYPE rib_type (mem m4 (free + HIST_RIB))) m4;
                           temp = mem m5 (hist_ptr + HIST_NEXT_SUBPROBLEM)
                       in if OBJECT_ADDRESS temp \<noteq> orig_hist
                          then returnp (Inr (space_left, OBJECT_TYPE temp, free, OBJECT_ADDRESS temp, free')) m5
                          else returnp (Inl (Some (OBJECT_TYPE temp, free, OBJECT_ADDRESS temp, free'))) m5) m2)"

definition copy_history :: "ulong \<Rightarrow> ulong option proc" where
  "copy_history hist_obj m =
     (if \<not> HUNK3_P hist_obj then act (abort_with Assertion_Failure) m
      else if SPACE_BEFORE_GC m < 3 then returnp None m
      else let orig_hist = OBJECT_ADDRESS hist_obj
           in bindp (loop (copy_vertebra_step orig_hist)
                  (SPACE_BEFORE_GC m - 3, OBJECT_TYPE hist_obj, heap_end m - 3, orig_hist, Free m))
                (\<lambda>r m. case r of
                   None \<Rightarrow> returnp None m
                 | Some (vert_type, last_hunk, hist_ptr, free) \<Rightarrow>
                     let new_hunk = mem m (heap_end m - 3 + HIST_NEXT_SUBPROBLEM);
                         m1 = write_word (last_hunk + HIST_NEXT_SUBPROBLEM) (OBJECT_NEW_TYPE vert_type new_hunk) m;
                         m2 = MEMORY_SET new_hunk HIST_PREV_SUBPROBLEM
                                (MAKE_POINTER_OBJECT (OBJECT_TYPE (mem m1 (hist_ptr + HIST_PREV_SUBPROBLEM))) last_hunk) m1
                     in returnp (Some new_hunk) (m2\<lparr>Free := free\<rparr>)) m)"

definition restore_history :: "ulong \<Rightarrow> (bool \<Rightarrow> 'r code) \<Rightarrow> 'r code" where
  "restore_history hist_obj k =
     calling (copy_history hist_obj) (\<lambda>new_hist s.
       case new_hist of None \<Rightarrow> k False s | Some h \<Rightarrow> k True (s\<lparr>history_register := OBJECT_ADDRESS h\<rparr>))"

section \<open>Servicing interrupts\<close>

function interrupt_number_loop :: "ulong \<Rightarrow> nat \<Rightarrow> ulong \<Rightarrow> nat" where
  "interrupt_number_loop masked_interrupts interrupt_number bit_mask =
     (if interrupt_number \<le> MAX_INTERRUPT_NUMBER \<and> masked_interrupts AND bit_mask = 0
      then interrupt_number_loop masked_interrupts (interrupt_number + 1) (push_bit 1 bit_mask)
      else interrupt_number)"
  by pat_completeness auto

termination by (relation "measure (\<lambda>(_, n, _). 16 - n)") auto

declare interrupt_number_loop.simps [simp del]

definition compute_interrupt_number :: "ulong \<Rightarrow> nat" where
  "compute_interrupt_number masked_interrupts = interrupt_number_loop masked_interrupts 0 1"

text \<open>The mask while a handler runs: what the vector of masks says, without the interrupt itself.\<close>

definition compute_interrupt_handler_mask :: "machine \<Rightarrow> ulong \<Rightarrow> nat \<Rightarrow> ulong option" where
  "compute_interrupt_handler_mask m interrupt_masks interrupt_number =
     (let default_mask = (if interrupt_number \<le> MAX_INTERRUPT_NUMBER then push_bit interrupt_number 1 - 1 else int_mask m)
      in if VECTOR_P interrupt_masks \<and> interrupt_number \<le> unat (VECTOR_LENGTH m interrupt_masks)
         then (case load_object m (VECTOR_REF m interrupt_masks interrupt_number) of
                 Integer_Object n \<Rightarrow> do {
                   p \<leftarrow> integer_to_ulong_p n;
                   if p then map_option (\<lambda>w. w AND NOT (push_bit interrupt_number 1)) (integer_to_ulong n)
                   else Some default_mask }
               | _ \<Rightarrow> Some default_mask)
         else Some default_mask)"

definition preserve_interrupt_mask :: "'r code \<Rightarrow> 'r code" where
  "preserve_interrupt_mask k =
     Will_Push CONTINUATION_SIZE
       (doing_all [SET_RC RC_RESTORE_INT_MASK, \<lambda>s. SET_EXP (ULONG_TO_FIXNUM (int_mask (memory s))) s, SAVE_CONT] k)"

definition setup_interrupt :: "ulong \<Rightarrow> 'r code \<Rightarrow> 'r code" where
  "setup_interrupt masked_interrupts k s =
     (let interrupt_number = compute_interrupt_number masked_interrupts;
          interrupt_handlers = FIXED_OBJECT s SYSTEM_INTERRUPT_VECTOR
      in if \<not> FIXED_OBJECTS_P s then terminate_microcode TERM_NO_INTERRUPT_HANDLER s
         else if \<not> (VECTOR_P interrupt_handlers \<and> interrupt_number < unat (VECTOR_LENGTH (memory s) interrupt_handlers))
         then terminate_microcode TERM_NO_INTERRUPT_HANDLER s
         else (case compute_interrupt_handler_mask (memory s) (FIXED_OBJECT s FIXOBJ_INTERRUPT_MASK_VECTOR) interrupt_number of
             None \<Rightarrow> leave (Died Assertion_Failure) s
           | Some interrupt_mask \<Rightarrow>
               let interrupt_handler = VECTOR_REF (memory s) interrupt_handlers interrupt_number
               in stop_history (preserve_interrupt_mask (Will_Push (STACK_ENV_EXTRA_SLOTS + 3)
                    (doing_all [\<lambda>s. STACK_PUSH (ULONG_TO_FIXNUM (int_mask (memory s))) s,
                        \<lambda>s. STACK_PUSH (ULONG_TO_FIXNUM (int_code (memory s))) s,
                        STACK_PUSH interrupt_handler, PUSH_APPLY_FRAME_HEADER 2,
                        on_memory (SET_INTERRUPT_MASK interrupt_mask)] k))) s))"

section \<open>Errors\<close>

definition error_death :: "int \<Rightarrow> 'r code" where
  "error_death code = doing (\<lambda>s. s\<lparr>death_blow := code\<rparr>) (terminate_microcode TERM_NO_ERROR_HANDLER)"

definition error_handler :: "int \<Rightarrow> interp \<Rightarrow> ulong option" where
  "error_handler error_code s =
     (let error_vector = (if FIXED_OBJECTS_P s then FIXED_OBJECT s SYSTEM_ERROR_VECTOR else SHARP_F);
          n = int (unat (VECTOR_LENGTH (memory s) error_vector))
      in if \<not> VECTOR_P error_vector then None
         else if 0 \<le> error_code \<and> error_code < n then Some (VECTOR_REF (memory s) error_vector (nat error_code))
         else if ERR_BAD_ERROR_CODE < n then Some (VECTOR_REF (memory s) error_vector (nat ERR_BAD_ERROR_CODE))
         else None)"

text \<open>The codes are C integers of 32 bits, so that the conversion of the code to an object is a fixnum.\<close>

definition Do_Micro_Error :: "int \<Rightarrow> bool \<Rightarrow> 'r code \<Rightarrow> 'r code" where
  "Do_Micro_Error error_code from_pop_return_p k =
     Will_Push (CONTINUATION_SIZE + (if from_pop_return_p then 0 else 1))
       (doing_all [if from_pop_return_p then (\<lambda>s. SET_EXP (reg_val s) s) else PUSH_ENV,
           SET_RC (if from_pop_return_p then RC_POP_RETURN_ERROR else RC_EVAL_ERROR), SAVE_CONT]
         (\<lambda>s. case error_handler error_code s of
            None \<Rightarrow> error_death error_code s
          | Some procedure \<Rightarrow>
              stop_history (preserve_interrupt_mask (Will_Push (STACK_ENV_EXTRA_SLOTS + 3)
                (doing_all [\<lambda>s. STACK_PUSH (ULONG_TO_FIXNUM (int_mask (memory s))) s,
                    \<lambda>s. STACK_PUSH (if error_code = ERR_WITH_ARGUMENT \<or> error_code = ERR_IN_SYSTEM_CALL then error_argument s
                          else LONG_TO_FIXNUM (word_of_int error_code)) s,
                    STACK_PUSH procedure, PUSH_APPLY_FRAME_HEADER 2,
                    on_memory (SET_INTERRUPT_MASK 0)] k))) s))"

section \<open>Primitives and control points\<close>

text \<open>
  The table of primitives is generated; a primitive is a piece of code that returns a value or
  aborts, and \<^const>\<open>None\<close> stands for \<open>Prim_unimplemented\<close>.
\<close>

record primitive_entry =
  primitive_procedure :: "ulong code option"
  primitive_arity :: int

type_synonym primitives = "nat \<Rightarrow> primitive_entry"

definition PRIMITIVE_P :: "ulong \<Rightarrow> bool" where "PRIMITIVE_P x = (OBJECT_TYPE x = TC_PRIMITIVE)"
definition CONTROL_POINT_P :: "ulong \<Rightarrow> bool" where "CONTROL_POINT_P x = (OBJECT_TYPE x = TC_CONTROL_POINT)"

definition implemented_primitive_p :: "primitives \<Rightarrow> ulong \<Rightarrow> bool" where
  "implemented_primitive_p tbl prim = (primitive_procedure (tbl (PRIMITIVE_NUMBER prim)) \<noteq> None)"

definition primitive_arity_of :: "primitives \<Rightarrow> ulong \<Rightarrow> int" where
  "primitive_arity_of tbl prim = primitive_arity (tbl (PRIMITIVE_NUMBER prim))"

definition PRIMITIVE_N_ARGUMENTS :: "primitives \<Rightarrow> ulong \<Rightarrow> interp \<Rightarrow> ulong" where
  "PRIMITIVE_N_ARGUMENTS tbl prim s =
     (if primitive_arity_of tbl prim = LEXPR_PRIMITIVE_ARITY then lexpr_actuals s else word_of_int (primitive_arity_of tbl prim))"

definition PRIMITIVE_APPLY :: "primitives \<Rightarrow> ulong \<Rightarrow> 'r code \<Rightarrow> 'r code" where
  "PRIMITIVE_APPLY tbl prim k s =
     (case primitive_procedure (tbl (PRIMITIVE_NUMBER prim)) of
        None \<Rightarrow> leave (Abort_To_Interpreter ERR_UNIMPLEMENTED_PRIMITIVE) s
      | Some f \<Rightarrow>
          (case f (on_memory (\<lambda>m. m\<lparr>Free_primitive := Free m\<rparr>) (SET_PRIMITIVE prim s)) of
             None \<Rightarrow> None
           | Some (Inl q, t) \<Rightarrow> leave q t
           | Some (Inr v, t) \<Rightarrow> k (SET_PRIMITIVE SHARP_F (on_memory (\<lambda>m. m\<lparr>Free_primitive := 0\<rparr>) (SET_VAL v t)))))"

text \<open>After an abort the primitive's application is set up again, to be resumed by a continuation.\<close>

definition back_out_of_primitive :: "primitives \<Rightarrow> 'r code \<Rightarrow> 'r code" where
  "back_out_of_primitive tbl k s =
     (let primitive = reg_primitive s
      in ASSERT (PRIMITIVE_P primitive)
           (doing_all [STACK_PUSH primitive, \<lambda>s. PUSH_APPLY_FRAME_HEADER (PRIMITIVE_N_ARGUMENTS tbl primitive s) s,
              SET_PRIMITIVE SHARP_F, SET_EXP SHARP_F, SET_RC RC_INTERNAL_APPLY, SAVE_CONT,
              SET_ENV THE_NULL_ENV, SET_VAL SHARP_F] k) s)"

primrec unpack_words :: "nat \<Rightarrow> nat \<Rightarrow> interp \<Rightarrow> interp" where
  "unpack_words 0 a s = s"
| "unpack_words (Suc n) a s = unpack_words n a (STACK_PUSH (mem (memory s) (a + n)) s)"

definition control_point_start :: "ulong \<Rightarrow> nat" where "control_point_start cp = VECTOR_LOC cp 2"
definition control_point_end :: "machine \<Rightarrow> ulong \<Rightarrow> nat" where
  "control_point_end m cp = VECTOR_LOC cp (unat (VECTOR_LENGTH m cp))"

definition unpack_control_point :: "ulong \<Rightarrow> 'r code \<Rightarrow> 'r code" where
  "unpack_control_point cp k s =
     (let from_end = control_point_end (memory s) cp; from_start = control_point_start cp
      in doing_all [\<lambda>s. s\<lparr>stack_pointer := stack_end s\<rparr>, on_memory (CLEAR_INTERRUPT_NOLOCK INT_Stack_Overflow)]
           (STACK_CHECK (int from_end - int from_start) (doing (unpack_words (from_end - from_start) from_start) k)) s)"

text \<open>Applicable objects; the chain of entities and records can be circular.\<close>

definition ENTITY_OPERATOR :: nat where [simp]: "ENTITY_OPERATOR = 0"
definition ENTITY_DATA :: nat where [simp]: "ENTITY_DATA = 1"

definition applicable_step :: "ulong \<Rightarrow> (bool + ulong) proc" where
  "applicable_step x m =
     (let ty = OBJECT_TYPE x
      in if ty = TC_PRIMITIVE \<or> ty = TC_PROCEDURE \<or> ty = TC_EXTENDED_PROCEDURE \<or> ty = TC_CONTROL_POINT
         then returnp (Inl True) m
         else if ty = TC_ENTITY then returnp (Inr (MEMORY_REF m x ENTITY_OPERATOR)) m
         else if ty = TC_RECORD
         then let applicator = record_applicator m x
              in if applicator = SHARP_F then returnp (Inl False) m else returnp (Inr applicator) m
         else returnp (Inl False) m)"

definition interpreter_applicable_p :: "ulong \<Rightarrow> bool proc" where
  "interpreter_applicable_p = loop applicable_step"

end
