(* ===== verification/Interpreter.thy ===== *)
theory Interpreter
  imports Interp_State
begin

text \<open>
  The evaluator and applier of \<open>microcode/interp.c\<close>. The labels of \<open>Interpret\<close> are the
  constructors of a datatype, and \<open>step\<close> runs the code from one label to the next \<open>goto\<close>: the
  dispatch on the type of an expression, on the return code popped from the stack, and on the
  type of the procedure to apply. \<open>aborted\<close> is the entry after a \<open>longjmp\<close>. \<open>Interpret_loop\<close>
  runs to the return of \<open>Interpret\<close>. The code under \<open>CC_SUPPORT_P\<close> and the debugging tools are
  left out, and the stepper is in.
\<close>

section \<open>Labels and macros\<close>

datatype label =
  do_expression | eval_non_trapping | pop_return | pop_return_non_trapping | internal_apply_val | internal_apply
| Apply_Non_Trapping | perform_application | apply_dispatch ulong | aborted int | Interpret_Returns

type_synonym code_block = "label code"

definition goto :: "label \<Rightarrow> code_block" where
  "goto = deliver"

definition SIGNAL_INTERRUPT :: "ulong \<Rightarrow> code_block" where
  "SIGNAL_INTERRUPT masked_code = setup_interrupt masked_code (goto perform_application)"

definition SIGNAL_PENDING :: code_block where
  "SIGNAL_PENDING s = SIGNAL_INTERRUPT (PENDING_INTERRUPTS (memory s)) s"

definition PREPARE_POP_RETURN_INTERRUPT :: "ulong \<Rightarrow> ulong \<Rightarrow> interp \<Rightarrow> interp" where
  "PREPARE_POP_RETURN_INTERRUPT return_code contents_of_val s =
     SAVE_CONT (SET_EXP contents_of_val (SET_RC RC_RESTORE_VALUE (SAVE_CONT (SET_RC return_code s))))"

definition PREPARE_APPLY_INTERRUPT :: "interp \<Rightarrow> interp" where
  "PREPARE_APPLY_INTERRUPT s =
     PREPARE_POP_RETURN_INTERRUPT RC_INTERNAL_APPLY_VAL (APPLY_FRAME_PROCEDURE s) (SET_EXP SHARP_F s)"

text \<open>The frame of the application is read after the continuation has been pushed.\<close>

definition APPLICATION_ERROR :: "int \<Rightarrow> code_block" where
  "APPLICATION_ERROR code =
     doing_all [SET_EXP SHARP_F, SET_RC RC_INTERNAL_APPLY_VAL, SAVE_CONT, \<lambda>s. SET_VAL (APPLY_FRAME_PROCEDURE s) s]
       (Do_Micro_Error code True (goto internal_apply))"

definition IMMEDIATE_GC :: "nat \<Rightarrow> code_block" where
  "IMMEDIATE_GC n = doing (on_memory (REQUEST_GC n)) SIGNAL_PENDING"

definition PREPARE_EVAL_REPEAT :: "code_block \<Rightarrow> code_block" where
  "PREPARE_EVAL_REPEAT k = Will_Push (CONTINUATION_SIZE + 1) (doing_all [PUSH_ENV, SET_RC RC_EVAL_ERROR, SAVE_CONT] k)"

definition EVAL_ERROR :: "int \<Rightarrow> code_block" where
  "EVAL_ERROR code = Do_Micro_Error code False (goto internal_apply)"

definition POP_RETURN_ERROR :: "int \<Rightarrow> code_block" where
  "POP_RETURN_ERROR code = doing SAVE_CONT (Do_Micro_Error code True (goto internal_apply))"

definition PROCEED_AFTER_PRIMITIVE :: "interp \<Rightarrow> interp" where
  "PROCEED_AFTER_PRIMITIVE = SET_PRIMITIVE SHARP_F"

definition EXP_NTH :: "interp \<Rightarrow> nat \<Rightarrow> ulong" where
  "EXP_NTH s n = MEMORY_REF (memory s) (reg_exp s) n"

definition REDUCES_TO :: "(interp \<Rightarrow> ulong) \<Rightarrow> code_block" where
  "REDUCES_TO expression =
     doing_all [\<lambda>s. SET_EXP (expression s) s, \<lambda>s. new_reduction (reg_exp s) (reg_env s) s] (goto do_expression)"

definition REDUCES_TO_NTH :: "nat \<Rightarrow> code_block" where
  "REDUCES_TO_NTH n = REDUCES_TO (\<lambda>s. EXP_NTH s n)"

definition DO_NTH_THEN :: "ulong \<Rightarrow> nat \<Rightarrow> code_block" where
  "DO_NTH_THEN return_code n =
     doing_all [SET_RC return_code, SAVE_CONT, \<lambda>s. SET_EXP (EXP_NTH s n) s, \<lambda>s. new_subproblem (reg_exp s) (reg_env s) s]
       (goto do_expression)"

definition DO_ANOTHER_THEN :: "ulong \<Rightarrow> nat \<Rightarrow> code_block" where
  "DO_ANOTHER_THEN return_code n =
     doing_all [SET_RC return_code, SAVE_CONT, \<lambda>s. SET_EXP (EXP_NTH s n) s, \<lambda>s. reuse_subproblem (reg_exp s) (reg_env s) s]
       (goto do_expression)"

definition TRAPPER :: "nat \<Rightarrow> interp \<Rightarrow> ulong" where
  "TRAPPER i s = MEMORY_REF (memory s) (FIXED_OBJECT s STEPPER_STATE) i"

definition FETCH_EVAL_TRAPPER :: "interp \<Rightarrow> ulong" where "FETCH_EVAL_TRAPPER = TRAPPER 0"
definition FETCH_APPLY_TRAPPER :: "interp \<Rightarrow> ulong" where "FETCH_APPLY_TRAPPER = TRAPPER 1"
definition FETCH_RETURN_TRAPPER :: "interp \<Rightarrow> ulong" where "FETCH_RETURN_TRAPPER = TRAPPER 2"

definition STEPPING :: "(interp \<Rightarrow> ulong) \<Rightarrow> interp \<Rightarrow> bool" where
  "STEPPING fetch s = (trapping s \<and> \<not> critical_section s \<and> fetch s \<noteq> SHARP_F)"

section \<open>Entering the interpreter\<close>

definition bind_interpreter_state :: "interp \<Rightarrow> interp" where
  "bind_interpreter_state s = s\<lparr>interpreter_states := interpreter_states s + 1\<rparr>"

definition unbind_interpreter_state :: "interp \<Rightarrow> interp" where
  "unbind_interpreter_state s = s\<lparr>interpreter_states := interpreter_states s - 1\<rparr>"

definition enter_after_abort :: "primitives \<Rightarrow> int \<Rightarrow> code_block" where
  "enter_after_abort tbl dispatch_code =
     (if dispatch_code = PRIM_APPLY then doing PROCEED_AFTER_PRIMITIVE (goto internal_apply)
      else if dispatch_code = PRIM_NO_TRAP_APPLY then doing PROCEED_AFTER_PRIMITIVE (goto Apply_Non_Trapping)
      else if dispatch_code = PRIM_APPLY_INTERRUPT
      then doing_all [PROCEED_AFTER_PRIMITIVE, PREPARE_APPLY_INTERRUPT] SIGNAL_PENDING
      else if dispatch_code = PRIM_APPLY_ERROR
      then doing PROCEED_AFTER_PRIMITIVE (\<lambda>s. APPLICATION_ERROR (prim_apply_error_code s) s)
      else if dispatch_code = PRIM_DO_EXPRESSION
      then doing_all [\<lambda>s. SET_VAL (reg_exp s) s, PROCEED_AFTER_PRIMITIVE] (REDUCES_TO reg_val)
      else if dispatch_code = PRIM_NO_TRAP_EVAL
      then doing_all [\<lambda>s. SET_VAL (reg_exp s) s, PROCEED_AFTER_PRIMITIVE, \<lambda>s. new_reduction (reg_val s) (reg_env s) s]
             (goto eval_non_trapping)
      else if dispatch_code = PRIM_POP_RETURN then doing PROCEED_AFTER_PRIMITIVE (goto pop_return)
      else if dispatch_code = PRIM_RETURN_TO_C
      then doing_all [PROCEED_AFTER_PRIMITIVE, unbind_interpreter_state] (goto Interpret_Returns)
      else if dispatch_code = PRIM_NO_TRAP_POP_RETURN then doing PROCEED_AFTER_PRIMITIVE (goto pop_return_non_trapping)
      else if dispatch_code = PRIM_INTERRUPT_CODE then back_out_of_primitive tbl SIGNAL_PENDING
      else if dispatch_code = PRIM_ABORT_TO_C
      then back_out_of_primitive tbl (doing unbind_interpreter_state (goto Interpret_Returns))
      else back_out_of_primitive tbl (Do_Micro_Error dispatch_code True (goto internal_apply)))"

section \<open>Evaluation\<close>

definition ACCESS_ENVIRONMENT :: nat where [simp]: "ACCESS_ENVIRONMENT = 0"
definition ACCESS_NAME :: nat where [simp]: "ACCESS_NAME = 1"
definition ASSIGN_NAME :: nat where [simp]: "ASSIGN_NAME = 0"
definition ASSIGN_VALUE :: nat where [simp]: "ASSIGN_VALUE = 1"
definition COMB_FN_SLOT :: nat where [simp]: "COMB_FN_SLOT = 1"
definition COMB_ARG_1_SLOT :: nat where [simp]: "COMB_ARG_1_SLOT = 2"
definition COMMENT_EXPRESSION :: nat where [simp]: "COMMENT_EXPRESSION = 0"
definition COND_PREDICATE :: nat where [simp]: "COND_PREDICATE = 0"
definition COND_CONSEQUENT :: nat where [simp]: "COND_CONSEQUENT = 1"
definition COND_ALTERNATIVE :: nat where [simp]: "COND_ALTERNATIVE = 2"
definition DEFINE_NAME :: nat where [simp]: "DEFINE_NAME = 0"
definition DEFINE_VALUE :: nat where [simp]: "DEFINE_VALUE = 1"
definition DELAY_OBJECT :: nat where [simp]: "DELAY_OBJECT = 0"
definition OR_PREDICATE :: nat where [simp]: "OR_PREDICATE = 0"
definition OR_ALTERNATIVE :: nat where [simp]: "OR_ALTERNATIVE = 1"
definition SCODE_QUOTE_OBJECT :: nat where [simp]: "SCODE_QUOTE_OBJECT = 0"
definition SEQUENCE_1 :: nat where [simp]: "SEQUENCE_1 = 0"
definition SEQUENCE_2 :: nat where [simp]: "SEQUENCE_2 = 1"
definition ELAMBDA_SCODE :: nat where [simp]: "ELAMBDA_SCODE = 0"
definition ELAMBDA_NAMES :: nat where [simp]: "ELAMBDA_NAMES = 1"
definition ELAMBDA_ARG_COUNT :: nat where [simp]: "ELAMBDA_ARG_COUNT = 2"
definition THUNK_SNAPPED :: nat where [simp]: "THUNK_SNAPPED = 0"
definition THUNK_VALUE :: nat where [simp]: "THUNK_VALUE = 1"
definition THUNK_ENVIRONMENT :: nat where [simp]: "THUNK_ENVIRONMENT = 0"
definition THUNK_PROCEDURE :: nat where [simp]: "THUNK_PROCEDURE = 1"

definition VARIABLE_SYMBOL :: "machine \<Rightarrow> ulong \<Rightarrow> ulong" where
  "VARIABLE_SYMBOL m v = MEMORY_REF m v 0"
definition VARIABLE_SAFE_P :: "machine \<Rightarrow> ulong \<Rightarrow> bool" where
  "VARIABLE_SAFE_P m v = (MEMORY_REF m v 1 = SHARP_F)"

definition PUSH_NTH_THEN :: "ulong \<Rightarrow> nat \<Rightarrow> code_block" where
  "PUSH_NTH_THEN return_code n = DO_NTH_THEN return_code n"

definition eval_trap :: code_block where
  "eval_trap =
     doing (\<lambda>s. s\<lparr>trapping := False\<rparr>) (Will_Push 4
       (doing_all [PUSH_ENV, PUSH_EXP, \<lambda>s. STACK_PUSH (FETCH_EVAL_TRAPPER s) s, PUSH_APPLY_FRAME_HEADER 2]
         (goto Apply_Non_Trapping)))"

text \<open>The object made of two words at \<open>Free\<close>; no room is asked for.\<close>

definition make_two_words :: "ulong \<Rightarrow> ulong \<Rightarrow> (interp \<Rightarrow> ulong) \<Rightarrow> interp \<Rightarrow> interp" where
  "make_two_words ty first second s =
     (let t = on_memory (push_free first) (SET_VAL (MAKE_POINTER_OBJECT ty (Free (memory s))) s)
      in on_memory (push_free (second t)) t)"

definition eval_combination :: code_block where
  "eval_combination s =
     (let length = int (unat (VECTOR_LENGTH (memory s) (reg_exp s))) - 1
      in Will_Push (length + 2 + CONTINUATION_SIZE)
           (doing_all [\<lambda>s. s\<lparr>stack_pointer := STACK_LOC s (- length)\<rparr>,
               STACK_PUSH (MAKE_OBJECT TC_MANIFEST_NM_VECTOR (word_of_int length))]
             (if length = 0
              then doing (PUSH_APPLY_FRAME_HEADER 0) (DO_NTH_THEN RC_COMB_APPLY_FUNCTION COMB_FN_SLOT)
              else doing PUSH_ENV (DO_NTH_THEN RC_COMB_SAVE_VALUE (nat (length + 1))))) s)"

definition eval_variable :: code_block where
  "eval_variable s =
     calling (lookup_variable (reg_env s) (VARIABLE_SYMBOL (memory s) (reg_exp s))) (\<lambda>(temp, v) s.
       if VARIABLE_SAFE_P (memory s) (reg_exp s) \<and> temp = ERR_UNASSIGNED_VARIABLE
       then doing (SET_VAL UNASSIGNED_OBJECT) (goto pop_return) s
       else if temp \<noteq> PRIM_DONE
       then (if temp = PRIM_INTERRUPT_CODE then PREPARE_EVAL_REPEAT SIGNAL_PENDING s else EVAL_ERROR temp s)
       else doing (SET_VAL (case v of Some x \<Rightarrow> x | None \<Rightarrow> reg_val s)) (goto pop_return) s) s"

definition eval_dispatch :: code_block where
  "eval_dispatch s =
     (let ty = OBJECT_TYPE (reg_exp s)
      in if ty = TC_ACCESS then Will_Push CONTINUATION_SIZE (PUSH_NTH_THEN RC_EXECUTE_ACCESS_FINISH ACCESS_ENVIRONMENT) s
         else if ty = TC_ASSIGNMENT
         then Will_Push (CONTINUATION_SIZE + 1) (doing PUSH_ENV (PUSH_NTH_THEN RC_EXECUTE_ASSIGNMENT_FINISH ASSIGN_VALUE)) s
         else if ty = TC_BROKEN_HEART then terminate_microcode TERM_BROKEN_HEART s
         else if ty = TC_COMBINATION then eval_combination s
         else if ty = TC_COMMENT then REDUCES_TO_NTH COMMENT_EXPRESSION s
         else if ty = TC_CONDITIONAL
         then Will_Push (CONTINUATION_SIZE + 1) (doing PUSH_ENV (PUSH_NTH_THEN RC_CONDITIONAL_DECIDE COND_PREDICATE)) s
         else if ty = TC_DEFINITION
         then Will_Push (CONTINUATION_SIZE + 1) (doing PUSH_ENV (PUSH_NTH_THEN RC_EXECUTE_DEFINITION_FINISH DEFINE_VALUE)) s
         else if ty = TC_DELAY
         then doing (make_two_words TC_DELAYED (reg_env s) (\<lambda>s. EXP_NTH s DELAY_OBJECT)) (goto pop_return) s
         else if ty = TC_DISJUNCTION
         then Will_Push (CONTINUATION_SIZE + 1) (doing PUSH_ENV (PUSH_NTH_THEN RC_DISJUNCTION_DECIDE OR_PREDICATE)) s
         else if ty = TC_EXTENDED_LAMBDA
         then doing (make_two_words TC_EXTENDED_PROCEDURE (reg_exp s) reg_env) (goto pop_return) s
         else if ty = TC_LAMBDA \<or> ty = TC_LEXPR
         then doing (make_two_words TC_PROCEDURE (reg_exp s) reg_env) (goto pop_return) s
         else if ty = TC_MANIFEST_NM_VECTOR then EVAL_ERROR ERR_EXECUTE_MANIFEST_VECTOR s
         else if ty = TC_SCODE_QUOTE then doing (\<lambda>s. SET_VAL (EXP_NTH s SCODE_QUOTE_OBJECT) s) (goto pop_return) s
         else if ty = TC_SEQUENCE
         then Will_Push (CONTINUATION_SIZE + 1) (doing PUSH_ENV (PUSH_NTH_THEN RC_EXECUTE_SEQUENCE_FINISH SEQUENCE_1)) s
         else if ty = TC_SYNTAX_ERROR then EVAL_ERROR ERR_SYNTAX_ERROR s
         else if ty = TC_THE_ENVIRONMENT then doing (\<lambda>s. SET_VAL (reg_env s) s) (goto pop_return) s
         else if ty = TC_VARIABLE then eval_variable s
         else doing (\<lambda>s. SET_VAL (reg_exp s) s) (goto pop_return) s)"

section \<open>Continuations\<close>

definition return_trap :: code_block where
  "return_trap =
     Will_Push 3 (doing_all [\<lambda>s. s\<lparr>trapping := False\<rparr>, PUSH_VAL, \<lambda>s. STACK_PUSH (FETCH_RETURN_TRAPPER s) s,
        PUSH_APPLY_FRAME_HEADER 1] (goto Apply_Non_Trapping))"

definition comb_save_value :: code_block where
  "comb_save_value =
     doing POP_ENV (\<lambda>s.
       let arg_number = int (unat (OBJECT_DATUM (STACK_REF s STACK_COMB_FINGER))) - 1
       in doing_all [\<lambda>s. on_memory (write_word (STACK_LOC s (int STACK_COMB_FIRST_ARG + arg_number)) (reg_val s)) s,
              STACK_SET STACK_COMB_FINGER (MAKE_OBJECT TC_MANIFEST_NM_VECTOR (word_of_int arg_number))]
            (if arg_number > 0
             then doing PUSH_ENV (DO_ANOTHER_THEN RC_COMB_SAVE_VALUE (COMB_ARG_1_SLOT - 1 + nat arg_number))
             else doing (\<lambda>s. STACK_PUSH (EXP_NTH s 0) s) (DO_ANOTHER_THEN RC_COMB_APPLY_FUNCTION COMB_FN_SLOT)) s)"

definition conditional_decide :: code_block where
  "conditional_decide =
     doing_all [end_subproblem, POP_ENV]
       (\<lambda>s. REDUCES_TO_NTH (if reg_val s = SHARP_F then COND_ALTERNATIVE else COND_CONSEQUENT) s)"

definition disjunction_decide :: code_block where
  "disjunction_decide =
     doing_all [end_subproblem, POP_ENV]
       (\<lambda>s. if reg_val s \<noteq> SHARP_F then goto pop_return s else REDUCES_TO_NTH OR_ALTERNATIVE s)"

definition end_of_computation :: code_block where
  "end_of_computation s =
     (if interpreter_states s \<le> 1 then terminate_microcode TERM_END_OF_COMPUTATION s
      else doing unbind_interpreter_state (goto Interpret_Returns) s)"

definition execute_access_finish :: code_block where
  "execute_access_finish s =
     calling (lookup_variable (reg_val s) (EXP_NTH s ACCESS_NAME)) (\<lambda>(code, v).
       if code = PRIM_DONE
       then doing_all [\<lambda>s. SET_VAL (case v of Some x \<Rightarrow> x | None \<Rightarrow> reg_val s) s, end_subproblem] (goto pop_return)
       else if code = PRIM_INTERRUPT_CODE
       then doing (\<lambda>s. PREPARE_POP_RETURN_INTERRUPT RC_EXECUTE_ACCESS_FINISH (reg_val s) s) SIGNAL_PENDING
       else POP_RETURN_ERROR code) s"

definition execute_assignment_finish :: code_block where
  "execute_assignment_finish s =
     (let variable = EXP_NTH s ASSIGN_NAME
      in doing POP_ENV (\<lambda>s.
           calling (if OBJECT_TYPE variable = TC_VARIABLE
                    then assign_variable (reg_env s) (VARIABLE_SYMBOL (memory s) variable) (reg_val s)
                    else returnp (ERR_BAD_FRAME, None)) (\<lambda>(code, old_val).
             if code = PRIM_DONE
             then doing_all [\<lambda>s. SET_VAL (case old_val of Some x \<Rightarrow> x | None \<Rightarrow> reg_val s) s, end_subproblem] (goto pop_return)
             else doing PUSH_ENV
               (if code = PRIM_INTERRUPT_CODE
                then doing (\<lambda>s. PREPARE_POP_RETURN_INTERRUPT RC_EXECUTE_ASSIGNMENT_FINISH (reg_val s) s) SIGNAL_PENDING
                else POP_RETURN_ERROR code)) s) s)"

definition execute_definition_finish :: code_block where
  "execute_definition_finish s =
     (let name = EXP_NTH s DEFINE_NAME; v = reg_val s
      in doing POP_ENV (\<lambda>s.
           calling (define_variable (reg_env s) name v) (\<lambda>result.
             if result = PRIM_DONE then doing_all [end_subproblem, SET_VAL name] (goto pop_return)
             else doing PUSH_ENV
               (if result = PRIM_INTERRUPT_CODE
                then doing (PREPARE_POP_RETURN_INTERRUPT RC_EXECUTE_DEFINITION_FINISH v) SIGNAL_PENDING
                else doing (SET_VAL v) (POP_RETURN_ERROR result))) s) s)"

definition hardware_trap :: code_block where
  "hardware_trap s =
     (let info = STACK_REF s 0; t = SAVE_CONT s;
          procedure = (if FIXED_OBJECTS_P t then FIXED_OBJECT t TRAP_HANDLER else SHARP_F)
      in if procedure = SHARP_F then terminate_microcode TERM_TRAP t
         else Will_Push (STACK_ENV_EXTRA_SLOTS + 2)
           (doing_all [STACK_PUSH info, STACK_PUSH procedure, PUSH_APPLY_FRAME_HEADER 1] (goto internal_apply)) t)"

definition EXIT_CRITICAL_SECTION :: "(interp \<Rightarrow> interp) \<Rightarrow> 'r code \<Rightarrow> 'r code" where
  "EXIT_CRITICAL_SECTION code_if_hook k s =
     (if critical_section_hook_p s
      then doing_all [code_if_hook, \<lambda>s. s\<lparr>critical_section_hook_p := False\<rparr>, \<lambda>s. s\<lparr>critical_section := False\<rparr>] (leave Soft_Reset) s
      else k (s\<lparr>critical_section := False\<rparr>))"

definition normal_gc_done :: code_block where
  "normal_gc_done =
     doing (\<lambda>s. SET_VAL (reg_exp s) s) (\<lambda>s.
       if GC_NEEDED_P (memory s) (gc_space_needed (memory s)) then terminate_microcode TERM_GC_OUT_OF_SPACE s
       else doing (on_memory (\<lambda>m. m\<lparr>gc_space_needed := 0\<rparr>)) (EXIT_CRITICAL_SECTION SAVE_CONT (goto pop_return)) s)"

definition pop_history_frame :: "interp \<Rightarrow> interp" where
  "pop_history_frame s = STACK_DROP 2 (s\<lparr>prev_restore_history_offset := OBJECT_DATUM (STACK_REF s 0)\<rparr>)"

definition restore_dont_copy_history :: code_block where
  "restore_dont_copy_history =
     doing_all [pop_history_frame, \<lambda>s. s\<lparr>history_register := OBJECT_ADDRESS (reg_exp s)\<rparr>] (goto pop_return)"

definition return_restore_history :: code_block where
  "return_restore_history s =
     restore_history (reg_exp s) (\<lambda>restored.
       if \<not> restored
       then doing SAVE_CONT (Will_Push CONTINUATION_SIZE
              (doing_all [\<lambda>s. SET_EXP (reg_val s) s, SET_RC RC_RESTORE_VALUE, SAVE_CONT]
                (\<lambda>s. IMMEDIATE_GC (HEAP_AVAILABLE (memory s)) s)))
       else doing_all [pop_history_frame,
              \<lambda>s. if prev_restore_history_offset s > 0
                  then on_memory (write_word (stack_end s - unat (prev_restore_history_offset s)) (MAKE_RETURN_CODE RC_RESTORE_HISTORY)) s
                  else s] (goto pop_return)) s"

definition restore_int_mask :: code_block where
  "restore_int_mask =
     doing_all [\<lambda>s. on_memory (SET_INTERRUPT_MASK (OBJECT_DATUM (reg_exp s))) s,
         \<lambda>s. if GC_NEEDED_P (memory s) 0 then on_memory (REQUEST_GC 0) s else s]
       (\<lambda>s. if PENDING_INTERRUPTS_P s
            then doing_all [SET_RC RC_RESTORE_VALUE, \<lambda>s. SET_EXP (reg_val s) s, SAVE_CONT] SIGNAL_PENDING s
            else goto pop_return s)"

definition snap_need_thunk :: code_block where
  "snap_need_thunk s =
     (if EXP_NTH s THUNK_SNAPPED = SHARP_T
      then doing (\<lambda>s. SET_VAL (EXP_NTH s THUNK_VALUE) s) (goto pop_return) s
      else doing_all [\<lambda>s. on_memory (MEMORY_SET (reg_exp s) THUNK_SNAPPED SHARP_T) s,
             \<lambda>s. on_memory (MEMORY_SET (reg_exp s) THUNK_VALUE (reg_val s)) s] (goto pop_return) s)"

definition return_dispatch :: code_block where
  "return_dispatch = doing RESTORE_CONT (\<lambda>s.
     let rc = OBJECT_DATUM (reg_ret s)
     in if rc = RC_COMB_APPLY_FUNCTION then doing end_subproblem (goto internal_apply_val) s
        else if rc = RC_COMB_SAVE_VALUE then comb_save_value s
        else if rc = RC_CONDITIONAL_DECIDE then conditional_decide s
        else if rc = RC_DISJUNCTION_DECIDE then disjunction_decide s
        else if rc = RC_END_OF_COMPUTATION then end_of_computation s
        else if rc = RC_EVAL_ERROR then doing POP_ENV (REDUCES_TO reg_exp) s
        else if rc = RC_EXECUTE_ACCESS_FINISH then execute_access_finish s
        else if rc = RC_EXECUTE_ASSIGNMENT_FINISH then execute_assignment_finish s
        else if rc = RC_EXECUTE_DEFINITION_FINISH then execute_definition_finish s
        else if rc = RC_HALT then terminate_microcode TERM_TERM_HANDLER s
        else if rc = RC_HARDWARE_TRAP then hardware_trap s
        else if rc = RC_INTERNAL_APPLY_VAL then goto internal_apply_val s
        else if rc = RC_INTERNAL_APPLY then goto internal_apply s
        else if rc = RC_JOIN_STACKLETS then unpack_control_point (reg_exp s) (goto pop_return) s
        else if rc = RC_NORMAL_GC_DONE then normal_gc_done s
        else if rc = RC_POP_RETURN_ERROR \<or> rc = RC_RESTORE_VALUE then doing (\<lambda>s. SET_VAL (reg_exp s) s) (goto pop_return) s
        else if rc = RC_RESTORE_DONT_COPY_HISTORY then restore_dont_copy_history s
        else if rc = RC_RESTORE_HISTORY then return_restore_history s
        else if rc = RC_RESTORE_INT_MASK then restore_int_mask s
        else if rc = RC_STACK_MARKER then doing (STACK_DROP 1) (goto pop_return) s
        else if rc = RC_EXECUTE_SEQUENCE_FINISH then doing_all [end_subproblem, POP_ENV] (REDUCES_TO_NTH SEQUENCE_2) s
        else if rc = RC_SNAP_NEED_THUNK then snap_need_thunk s
        else POP_RETURN_ERROR ERR_INAPPLICABLE_CONTINUATION s)"

section \<open>Application\<close>

definition apply_trap :: "interp \<Rightarrow> interp" where
  "apply_trap s =
     (PUSH_APPLY_FRAME_HEADER (APPLY_FRAME_SIZE s) (STACK_SET 0 (FETCH_APPLY_TRAPPER s) s))\<lparr>trapping := False\<rparr>"

definition Apply_Non_Trapping_block :: code_block where
  "Apply_Non_Trapping_block s =
     (if PENDING_INTERRUPTS_P s
      then let interrupts = PENDING_INTERRUPTS (memory s)
           in doing PREPARE_APPLY_INTERRUPT (SIGNAL_INTERRUPT interrupts) s
      else goto perform_application s)"

definition entity_apply :: "ulong \<Rightarrow> code_block" where
  "entity_apply operator s =
     (let frame_size = APPLY_FRAME_SIZE s
      in doing_all [STACK_SET 0 operator, PUSH_APPLY_FRAME_HEADER frame_size] (STACK_CHECK 0 (goto internal_apply)) s)"

definition apply_entity :: "ulong \<Rightarrow> code_block" where
  "apply_entity function s =
     (let frame_size = APPLY_FRAME_SIZE s; m = memory s; data = MEMORY_REF m function ENTITY_DATA;
          n = unat frame_size
      in if VECTOR_P data \<and> frame_size < VECTOR_LENGTH m data \<and> VECTOR_REF m data n \<noteq> SHARP_F
            \<and> VECTOR_REF m data 0 = FIXED_OBJECT s ARITY_DISPATCHER_TAG
         then doing (SET_APPLY_FRAME_PROCEDURE (VECTOR_REF m data n)) (goto (apply_dispatch (VECTOR_REF m data n))) s
         else entity_apply (MEMORY_REF m function ENTITY_OPERATOR) s)"

definition apply_record :: "ulong \<Rightarrow> code_block" where
  "apply_record function s =
     (let applicator = record_applicator (memory s) function
      in if applicator = SHARP_F then APPLICATION_ERROR ERR_INAPPLICABLE_OBJECT s else entity_apply applicator s)"

text \<open>\<open>(*Free++) = (STACK_POP ())\<close>, so many times\<close>

primrec pop_to_free :: "nat \<Rightarrow> interp \<Rightarrow> interp" where
  "pop_to_free 0 s = s"
| "pop_to_free (Suc n) s = pop_to_free n (STACK_DROP 1 (on_memory (push_free (STACK_REF s 0)) s))"

definition apply_procedure :: "ulong \<Rightarrow> code_block" where
  "apply_procedure function s =
     (let frame_size = APPLY_FRAME_SIZE s;
          lambda = MEMORY_REF (memory s) function PROCEDURE_LAMBDA_EXPR;
          formals = MEMORY_REF (memory s) lambda LAMBDA_FORMALS;
          n = VECTOR_LENGTH (memory s) formals
      in if frame_size \<noteq> n \<and> (OBJECT_TYPE lambda \<noteq> TC_LEXPR \<or> frame_size < n)
         then APPLICATION_ERROR ERR_WRONG_NUMBER_OF_ARGUMENTS s
         else if GC_NEEDED_P (memory s) (unat frame_size + 1)
         then doing PREPARE_APPLY_INTERRUPT (IMMEDIATE_GC (unat frame_size + 1)) s
         else doing_all [SET_ENV (MAKE_POINTER_OBJECT TC_ENVIRONMENT (Free (memory s))),
                on_memory (push_free (MAKE_OBJECT TC_MANIFEST_VECTOR frame_size)), STACK_DROP 1,
                pop_to_free (unat frame_size)]
              (REDUCES_TO (\<lambda>s. MEMORY_REF (memory s) lambda LAMBDA_SCODE)) s)"

definition apply_control_point :: "ulong \<Rightarrow> code_block" where
  "apply_control_point function s =
     (if APPLY_FRAME_SIZE s \<noteq> 2 then APPLICATION_ERROR ERR_WRONG_NUMBER_OF_ARGUMENTS s
      else doing (SET_VAL (STACK_REF s 2))
        (unpack_control_point function (doing reset_history (goto pop_return))) s)"

definition apply_primitive :: "primitives \<Rightarrow> ulong \<Rightarrow> code_block" where
  "apply_primitive tbl function s =
     (if \<not> implemented_primitive_p tbl function then APPLICATION_ERROR ERR_UNIMPLEMENTED_PRIMITIVE s
      else let n_args = APPLY_FRAME_N_ARGS s; arity = primitive_arity_of tbl function
           in if n_args \<noteq> word_of_int arity \<and> arity \<noteq> LEXPR_PRIMITIVE_ARITY
              then APPLICATION_ERROR ERR_WRONG_NUMBER_OF_ARGUMENTS s
              else doing_all [if n_args \<noteq> word_of_int arity then SET_LEXPR_ACTUALS n_args else id, STACK_DROP 2, SET_EXP function]
                (PRIMITIVE_APPLY tbl function (doing (POP_PRIMITIVE_FRAME (unat n_args)) (goto pop_return))) s)"

definition Elambda_Formals_Count :: "ulong \<Rightarrow> nat" where
  "Elambda_Formals_Count count = unat (drop_bit 8 (count AND 0xFF00))"
definition Elambda_Opts_Count :: "ulong \<Rightarrow> nat" where
  "Elambda_Opts_Count count = unat (count AND 0xFF)"
definition Elambda_Rest_Flag :: "ulong \<Rightarrow> nat" where
  "Elambda_Rest_Flag count = unat (drop_bit 16 (count AND 0x10000))"

text \<open>The pairs of a rest list, each pointing to the place of the next.\<close>

primrec pop_rest_list :: "nat \<Rightarrow> interp \<Rightarrow> interp" where
  "pop_rest_list 0 s = s"
| "pop_rest_list (Suc n) s = pop_rest_list n
     (on_memory (\<lambda>m. push_free (MAKE_POINTER_OBJECT TC_LIST (Free m + 1)) m) (pop_to_free 1 s))"

primrec fill_free_words :: "nat \<Rightarrow> ulong \<Rightarrow> interp \<Rightarrow> interp" where
  "fill_free_words 0 v s = s"
| "fill_free_words (Suc n) v s = fill_free_words n v (on_memory (push_free v) s)"

definition apply_extended_procedure :: "ulong \<Rightarrow> code_block" where
  "apply_extended_procedure function s =
     (let nargs = unat (APPLY_FRAME_N_ARGS s);
          lambda = MEMORY_REF (memory s) function PROCEDURE_LAMBDA_EXPR;
          nparams = int (unat (VECTOR_LENGTH (memory s) (MEMORY_REF (memory s) lambda ELAMBDA_NAMES))) - 1;
          count = MEMORY_REF (memory s) lambda ELAMBDA_ARG_COUNT;
          formals = Elambda_Formals_Count count; params = Elambda_Opts_Count count + formals;
          rest_flag = Elambda_Rest_Flag count;
          auxes = nparams - int (params + rest_flag);
          frame_size = int params + int rest_flag + auxes + 1;
          space = nat (frame_size + 1) + (if nargs > params then 2 * (nargs - params) else 0)
      in if nargs < formals \<or> rest_flag = 0 \<and> nargs > params then doing_all [STACK_DROP 1, PUSH_APPLY_FRAME_HEADER (APPLY_FRAME_N_ARGS s)]
                (APPLICATION_ERROR ERR_WRONG_NUMBER_OF_ARGUMENTS) s
         else if GC_NEEDED_P (memory s) space
         then doing_all [STACK_DROP 1, PUSH_APPLY_FRAME_HEADER (APPLY_FRAME_N_ARGS s), PREPARE_APPLY_INTERRUPT]
                (IMMEDIATE_GC space) s
         else doing_all ([STACK_DROP 1, SET_ENV (MAKE_POINTER_OBJECT TC_ENVIRONMENT (Free (memory s))),
                  on_memory (push_free (MAKE_OBJECT TC_MANIFEST_VECTOR (word_of_int frame_size)))]
                @ (if nargs \<le> params
                   then [pop_to_free (nargs + 1), fill_free_words (params - nargs) DEFAULT_OBJECT,
                         fill_free_words (if rest_flag \<noteq> 0 then 1 else 0) EMPTY_LIST, fill_free_words (nat auxes) UNASSIGNED_OBJECT]
                   else [pop_to_free (params + 1),
                         on_memory (push_free (MAKE_POINTER_OBJECT TC_LIST (nat (int (Free (memory s)) + 1 + frame_size)))),
                         fill_free_words (nat auxes) UNASSIGNED_OBJECT, pop_rest_list (nargs - params),
                         on_memory (\<lambda>m. write_word (Free m - 1) EMPTY_LIST m)]))
              (REDUCES_TO (\<lambda>s. MEMORY_REF (memory s) lambda ELAMBDA_SCODE)) s)"

definition apply_function :: "primitives \<Rightarrow> ulong \<Rightarrow> code_block" where
  "apply_function tbl function =
     (let ty = OBJECT_TYPE function
      in if ty = TC_ENTITY then apply_entity function
         else if ty = TC_RECORD then apply_record function
         else if ty = TC_PROCEDURE then apply_procedure function
         else if ty = TC_CONTROL_POINT then apply_control_point function
         else if ty = TC_PRIMITIVE then apply_primitive tbl function
         else if ty = TC_EXTENDED_PROCEDURE then apply_extended_procedure function
         else APPLICATION_ERROR ERR_INAPPLICABLE_OBJECT)"

section \<open>The interpreter\<close>

fun interpret_at :: "primitives \<Rightarrow> label \<Rightarrow> code_block" where
  "interpret_at tbl do_expression = (\<lambda>s. if STEPPING FETCH_EVAL_TRAPPER s then eval_trap s else goto eval_non_trapping s)"
| "interpret_at tbl eval_non_trapping = eval_dispatch"
| "interpret_at tbl pop_return = (\<lambda>s. if STEPPING FETCH_RETURN_TRAPPER s then return_trap s else goto pop_return_non_trapping s)"
| "interpret_at tbl pop_return_non_trapping = return_dispatch"
| "interpret_at tbl internal_apply_val = doing (\<lambda>s. SET_APPLY_FRAME_PROCEDURE (reg_val s) s) (goto internal_apply)"
| "interpret_at tbl internal_apply = (\<lambda>s.
     doing (if STEPPING FETCH_APPLY_TRAPPER s then apply_trap else id) (goto Apply_Non_Trapping) s)"
| "interpret_at tbl Apply_Non_Trapping = Apply_Non_Trapping_block"
| "interpret_at tbl perform_application = (\<lambda>s. goto (apply_dispatch (APPLY_FRAME_PROCEDURE s)) s)"
| "interpret_at tbl (apply_dispatch function) = apply_function tbl function"
| "interpret_at tbl (aborted code) = enter_after_abort tbl code"
| "interpret_at tbl Interpret_Returns = goto Interpret_Returns"

definition step :: "primitives \<Rightarrow> label \<Rightarrow> code_block" where
  "step tbl l s =
     (case interpret_at tbl l s of
        Some (Inl (Abort_To_Interpreter code), t) \<Rightarrow> Some (Inr (aborted code), t)
      | r \<Rightarrow> r)"

partial_function (option) Interpret_loop :: "primitives \<Rightarrow> label \<Rightarrow> unit code" where
  "Interpret_loop tbl l s =
     (if l = Interpret_Returns then deliver () s
      else case step tbl l s of
        None \<Rightarrow> None
      | Some (Inl q, t) \<Rightarrow> leave q t
      | Some (Inr l', t) \<Rightarrow> Interpret_loop tbl l' t)"

definition Interpret :: "primitives \<Rightarrow> unit code" where
  "Interpret tbl = doing bind_interpreter_state (Interpret_loop tbl do_expression)"

end
