(* ===== verification/Control_Prims.thy ===== *)
theory Control_Prims
  imports Interpreter
begin

text \<open>
  The primitives that work on the interpreter itself: application and evaluation, control points,
  promises, interrupts, history and the stepper (\<open>microcode/hooks.c\<close>, \<open>step.c\<close>). Their arguments
  are on the stack. Most of them leave a new frame and abort to the interpreter; the asserts of
  \<open>canonicalize_primitive_context\<close> need the table of primitives.
\<close>

section \<open>Arguments and results\<close>

definition acting :: "'a action \<Rightarrow> ('a \<Rightarrow> 'r code) \<Rightarrow> 'r code" where
  "acting f = calling (act f)"

definition PRIMITIVE_ABORT :: "int \<Rightarrow> 'r code" where
  "PRIMITIVE_ABORT code = leave (Abort_To_Interpreter code)"

definition PRIMITIVE_RETURN :: "ulong \<Rightarrow> ulong code" where
  "PRIMITIVE_RETURN = deliver"

definition wrong_type_arg :: "nat \<Rightarrow> 'r code" where
  "wrong_type_arg n = PRIMITIVE_ABORT (prim_error_code (Wrong_Type n))"

definition bad_range_arg :: "nat \<Rightarrow> 'r code" where
  "bad_range_arg n = PRIMITIVE_ABORT (prim_error_code (Bad_Range n))"

definition CHECK_ARG_TYPE :: "nat \<Rightarrow> (ulong \<Rightarrow> bool) \<Rightarrow> 'r code \<Rightarrow> 'r code" where
  "CHECK_ARG_TYPE argument type_p k s = (if \<not> type_p (ARG_REF s argument) then wrong_type_arg argument s else k s)"

definition arg_long :: "nat \<Rightarrow> (long \<Rightarrow> 'r code) \<Rightarrow> 'r code" where
  "arg_long n k s = acting (\<lambda>m. from_prim (arg_integer n (load_object m (ARG_REF s n))) m) k s"

definition arg_interrupts :: "(ulong \<Rightarrow> 'r code) \<Rightarrow> 'r code" where
  "arg_interrupts k s = acting (ulong_arg 1 (ARG_REF s 1)) (\<lambda>mask. k (mask AND INT_Mask)) s"

definition canonicalize_primitive_context :: "primitives \<Rightarrow> 'r code \<Rightarrow> 'r code" where
  "canonicalize_primitive_context tbl k s =
     ASSERT (PRIMITIVE_P (reg_primitive s))
       (ASSERT (RETURN_CODE_P (STACK_REF s (unat (PRIMITIVE_N_ARGUMENTS tbl (reg_primitive s) s)))) k) s"

text \<open>A primitive of the other components, on arguments from the stack.\<close>

definition primitive_of_1 :: "(ulong \<Rightarrow> ulong action) \<Rightarrow> ulong code" where
  "primitive_of_1 f s = acting (f (ARG_REF s 1)) PRIMITIVE_RETURN s"

definition primitive_of_2 :: "(ulong \<Rightarrow> ulong \<Rightarrow> ulong action) \<Rightarrow> ulong code" where
  "primitive_of_2 f s = acting (f (ARG_REF s 1) (ARG_REF s 2)) PRIMITIVE_RETURN s"

section \<open>Application\<close>

text \<open>The list is followed at two speeds, so that a circular list is found.\<close>

definition count_args_step :: "ulong \<times> ulong \<times> nat \<Rightarrow> ((ulong \<times> nat) option + ulong \<times> ulong \<times> nat) proc" where
  "count_args_step x m =
     (case x of (p1, p2, n) \<Rightarrow>
        if \<not> PAIR_P p1 then returnp (Inl (Some (p1, n))) m
        else let p1 = PAIR_CDR m p1; n = n + 1
             in if p1 = p2 then returnp (Inl None) m
                else if \<not> PAIR_P p1 then returnp (Inl (Some (p1, n))) m
                else let p1 = PAIR_CDR m p1; n = n + 1
                     in if p1 = p2 then returnp (Inl None) m
                        else if \<not> PAIR_P p1 then returnp (Inl (Some (p1, n))) m
                        else returnp (Inr (p1, PAIR_CDR m p2, n)) m)"

primrec store_list :: "nat \<Rightarrow> nat \<Rightarrow> ulong \<Rightarrow> machine \<Rightarrow> machine" where
  "store_list 0 a p m = m"
| "store_list (Suc n) a p m = (let m' = write_word a (PAIR_CAR m p) m in store_list n (a + 1) (PAIR_CDR m' p) m')"

definition push_list :: "nat \<Rightarrow> ulong \<Rightarrow> interp \<Rightarrow> interp" where
  "push_list n args s =
     (let sp = STACK_LOC s (- int n) in (on_memory (store_list n sp args) s)\<lparr>stack_pointer := sp\<rparr>)"

definition Prim_apply :: "ulong code" where
  "Prim_apply s =
     (let procedure = ARG_REF s 1; args = ARG_REF s 2
      in calling (loop count_args_step (args, args, 0)) (\<lambda>r s.
           case r of
             None \<Rightarrow> bad_range_arg 2 s
           | Some (p1, n_args) \<Rightarrow>
               if \<not> EMPTY_LIST_P p1 then wrong_type_arg 2 s
               else if \<not> CAN_PUSH_P s (int n_args + 2) then bad_range_arg 2 s
               else doing_all [POP_PRIMITIVE_FRAME 2, push_list n_args args, STACK_PUSH procedure,
                        PUSH_APPLY_FRAME_HEADER (word_of_nat n_args)] (PRIMITIVE_ABORT PRIM_APPLY) s) s)"

definition Prim_scode_eval :: "primitives \<Rightarrow> ulong code" where
  "Prim_scode_eval tbl = canonicalize_primitive_context tbl (CHECK_ARG_TYPE 2 ENVIRONMENT_P (\<lambda>s.
     let expression = ARG_REF s 1; environment = ARG_REF s 2
     in doing_all [POP_PRIMITIVE_FRAME 2, SET_ENV environment, SET_EXP expression] (PRIMITIVE_ABORT PRIM_DO_EXPRESSION) s))"

definition Prim_error_procedure :: "primitives \<Rightarrow> ulong code" where
  "Prim_error_procedure tbl = canonicalize_primitive_context tbl (\<lambda>s.
     let message = ARG_REF s 1; irritants = ARG_REF s 2; environment = ARG_REF s 3
     in back_out_of_primitive tbl (Will_Push (HISTORY_SIZE + STACK_ENV_EXTRA_SLOTS + 4) (stop_history
          (doing_all [STACK_PUSH environment, STACK_PUSH irritants, STACK_PUSH message,
              \<lambda>s. STACK_PUSH (FIXED_OBJECT s Error_Procedure) s, PUSH_APPLY_FRAME_HEADER 3]
            (PRIMITIVE_ABORT PRIM_APPLY)))) s)"

text \<open>A promise is marked by its first word: forced, made by compiled code, or an environment.\<close>

definition PROMISE_P :: "ulong \<Rightarrow> bool" where "PROMISE_P x = (OBJECT_TYPE x = TC_DELAYED)"
definition FIXNUM_ZERO :: ulong where "FIXNUM_ZERO = ULONG_TO_FIXNUM 0"

definition Prim_force :: "primitives \<Rightarrow> ulong code" where
  "Prim_force tbl = CHECK_ARG_TYPE 1 PROMISE_P (\<lambda>s.
     let thunk = ARG_REF s 1; state = MEMORY_REF (memory s) thunk THUNK_SNAPPED
     in if state = SHARP_T then PRIMITIVE_RETURN (MEMORY_REF (memory s) thunk THUNK_VALUE) s
        else if state = FIXNUM_ZERO
        then canonicalize_primitive_context tbl (doing (POP_PRIMITIVE_FRAME 1)
               (Will_Push (CONTINUATION_SIZE + STACK_ENV_EXTRA_SLOTS + 1)
                 (doing_all [SET_RC RC_SNAP_NEED_THUNK, SET_EXP thunk, SAVE_CONT,
                     \<lambda>s. STACK_PUSH (MEMORY_REF (memory s) thunk THUNK_VALUE) s, PUSH_APPLY_FRAME_HEADER 0]
                   (PRIMITIVE_ABORT PRIM_APPLY)))) s
        else canonicalize_primitive_context tbl (doing (POP_PRIMITIVE_FRAME 1)
               (Will_Push CONTINUATION_SIZE
                 (doing_all [SET_RC RC_SNAP_NEED_THUNK, SET_EXP thunk, SAVE_CONT,
                     \<lambda>s. SET_ENV (MEMORY_REF (memory s) thunk THUNK_ENVIRONMENT) s,
                     \<lambda>s. SET_EXP (MEMORY_REF (memory s) thunk THUNK_PROCEDURE) s]
                   (PRIMITIVE_ABORT PRIM_DO_EXPRESSION)))) s)"

definition Prim_return_to_application :: "primitives \<Rightarrow> ulong code" where
  "Prim_return_to_application tbl = canonicalize_primitive_context tbl (\<lambda>s.
     let nargs = lexpr_actuals s
     in if nargs < 2 then PRIMITIVE_ABORT ERR_WRONG_NUMBER_OF_ARGUMENTS s
        else let thunk = STACK_REF s 0
             in doing_all [STACK_DROP 1, PUSH_APPLY_FRAME_HEADER (nargs - 2), SET_ENV THE_NULL_ENV, SET_EXP SHARP_F,
                    SET_RC RC_INTERNAL_APPLY, SAVE_CONT]
                  (Will_Push (STACK_ENV_EXTRA_SLOTS + 1)
                    (doing_all [STACK_PUSH thunk, PUSH_APPLY_FRAME_HEADER 0] (PRIMITIVE_ABORT PRIM_APPLY))) s)"

definition Prim_with_stack_marker :: "primitives \<Rightarrow> ulong code" where
  "Prim_with_stack_marker tbl s =
     (let thunk = ARG_REF s 1
      in canonicalize_primitive_context tbl
           (doing_all [STACK_DROP 1, STACK_PUSH (MAKE_RETURN_CODE RC_STACK_MARKER)]
             (Will_Push (STACK_ENV_EXTRA_SLOTS + 1)
               (doing_all [STACK_PUSH thunk, PUSH_APPLY_FRAME_HEADER 0] (PRIMITIVE_ABORT PRIM_APPLY)))) s)"

section \<open>Control points\<close>

definition allocate_control_point :: "ulong \<Rightarrow> bool \<Rightarrow> ulong action" where
  "allocate_control_point n gc_p =
     andthen (allocate_marked_vector TC_CONTROL_POINT (n + 2) gc_p) (\<lambda>cp m.
       (Inr cp, VECTOR_SET cp 1 (MAKE_OBJECT TC_MANIFEST_NM_VECTOR 0) (VECTOR_SET cp 0 SHARP_F m)))"

primrec pop_to_words :: "nat \<Rightarrow> nat \<Rightarrow> interp \<Rightarrow> interp" where
  "pop_to_words 0 scan s = s"
| "pop_to_words (Suc n) scan s = pop_to_words n (scan + 1) (STACK_DROP 1 (on_memory (write_word scan (STACK_REF s 0)) s))"

definition join_stacklets :: "ulong \<Rightarrow> ulong \<Rightarrow> ulong code" where
  "join_stacklets cp procedure =
     doing_all [STACK_PUSH cp, STACK_PUSH procedure, PUSH_APPLY_FRAME_HEADER 1] (PRIMITIVE_ABORT PRIM_APPLY)"

definition Prim_catch :: "primitives \<Rightarrow> ulong code" where
  "Prim_catch tbl = canonicalize_primitive_context tbl (\<lambda>s.
     let procedure = ARG_REF s 1
     in if STACK_LOC s (1 + CONTINUATION_SIZE) = stack_end s \<and> CHECK_RETURN_CODE s RC_JOIN_STACKLETS 1
           \<and> CONTROL_POINT_P (CONT_EXP s 1)
        then doing_all [\<lambda>s. s\<lparr>history_register := OBJECT_ADDRESS (READ_DUMMY_HISTORY s)\<rparr>, POP_PRIMITIVE_FRAME 1]
               (join_stacklets (CONT_EXP s 1) procedure) s
        else acting (allocate_control_point (word_of_int (CONTINUATION_SIZE + HISTORY_SIZE + (int (STACK_N_PUSHED s) - 1))) True) (\<lambda>cp.
               doing (POP_PRIMITIVE_FRAME 1) (save_history RC_RESTORE_HISTORY (preserve_interrupt_mask
                 (doing_all [\<lambda>s. s\<lparr>prev_restore_history_offset := 0\<rparr>,
                     \<lambda>s. pop_to_words (STACK_N_PUSHED s) (control_point_start cp) s,
                     on_memory (CLEAR_INTERRUPT_NOLOCK INT_Stack_Overflow),
                     SET_RC RC_JOIN_STACKLETS, SET_EXP cp, SAVE_CONT]
                   (join_stacklets cp procedure))))) s)"

definition Prim_within_control_point :: "primitives \<Rightarrow> ulong code" where
  "Prim_within_control_point tbl = canonicalize_primitive_context tbl (CHECK_ARG_TYPE 1 CONTROL_POINT_P (\<lambda>s.
     let control_point = ARG_REF s 1; thunk = ARG_REF s 2
     in doing_all [\<lambda>s. s\<lparr>stack_pointer := stack_end s, prev_restore_history_offset := 0\<rparr>,
            on_memory (CLEAR_INTERRUPT_NOLOCK INT_Stack_Overflow)]
          (Will_Push CONTINUATION_SIZE (doing_all [SET_EXP control_point, SET_RC RC_JOIN_STACKLETS, SAVE_CONT]
            (Will_Push (STACK_ENV_EXTRA_SLOTS + 1)
              (doing_all [STACK_PUSH thunk, PUSH_APPLY_FRAME_HEADER 0] (PRIMITIVE_ABORT PRIM_APPLY))))) s))"

section \<open>Interrupts\<close>

definition Prim_get_interrupt_enables :: "ulong code" where
  "Prim_get_interrupt_enables s = PRIMITIVE_RETURN (ULONG_TO_FIXNUM (int_mask (memory s))) s"

definition change_interrupt_mask :: "(ulong \<Rightarrow> ulong \<Rightarrow> ulong) \<Rightarrow> ulong code" where
  "change_interrupt_mask f s =
     (let previous = int_mask (memory s)
      in arg_interrupts (\<lambda>mask. doing (on_memory (SET_INTERRUPT_MASK (f previous mask))) (PRIMITIVE_RETURN (ULONG_TO_FIXNUM previous))) s)"

definition Prim_set_interrupt_enables :: "ulong code" where
  "Prim_set_interrupt_enables = change_interrupt_mask (\<lambda>previous mask. mask)"
definition Prim_disable_interrupts :: "ulong code" where
  "Prim_disable_interrupts = change_interrupt_mask (\<lambda>previous mask. previous AND NOT mask)"
definition Prim_enable_interrupts :: "ulong code" where
  "Prim_enable_interrupts = change_interrupt_mask (\<lambda>previous mask. previous OR mask)"
definition Prim_clear_interrupts :: "ulong code" where
  "Prim_clear_interrupts = arg_interrupts (\<lambda>mask. doing (on_memory (CLEAR_INTERRUPT_NOLOCK mask)) (PRIMITIVE_RETURN UNSPECIFIC))"
definition Prim_request_interrupts :: "ulong code" where
  "Prim_request_interrupts = arg_interrupts (\<lambda>mask. doing (on_memory (REQUEST_INTERRUPT mask)) (PRIMITIVE_RETURN UNSPECIFIC))"

definition with_new_interrupt_mask :: "primitives \<Rightarrow> ulong \<Rightarrow> ulong code" where
  "with_new_interrupt_mask tbl new_mask s =
     (let receiver = ARG_REF s 2
      in canonicalize_primitive_context tbl (doing (POP_PRIMITIVE_FRAME 2) (preserve_interrupt_mask
           (Will_Push (STACK_ENV_EXTRA_SLOTS + 2)
             (doing_all [\<lambda>s. STACK_PUSH (ULONG_TO_FIXNUM (int_mask (memory s))) s, STACK_PUSH receiver,
                 PUSH_APPLY_FRAME_HEADER 1, on_memory (SET_INTERRUPT_MASK new_mask)] (PRIMITIVE_ABORT PRIM_APPLY))))) s)"

definition Prim_with_interrupt_mask :: "primitives \<Rightarrow> ulong code" where
  "Prim_with_interrupt_mask tbl = arg_long 1 (\<lambda>mask. with_new_interrupt_mask tbl (INT_Mask AND mask))"

definition reduced_interrupt_mask :: "ulong \<Rightarrow> ulong \<Rightarrow> ulong" where
  "reduced_interrupt_mask old_mask new_mask = (if new_mask > old_mask then new_mask else new_mask AND old_mask)"

definition Prim_with_interrupts_reduced :: "primitives \<Rightarrow> ulong code" where
  "Prim_with_interrupts_reduced tbl s =
     arg_interrupts (\<lambda>new_mask. with_new_interrupt_mask tbl (reduced_interrupt_mask (int_mask (memory s)) new_mask)) s"

section \<open>History and fixed objects\<close>

definition Prim_set_current_history :: "primitives \<Rightarrow> ulong code" where
  "Prim_set_current_history tbl = canonicalize_primitive_context tbl (CHECK_ARG_TYPE 1 HUNK3_P (
     doing_all [\<lambda>s. SET_VAL (mem (memory s) (history_register s)) s,
         \<lambda>s. s\<lparr>history_register := OBJECT_ADDRESS (ARG_REF s 1)\<rparr>, POP_PRIMITIVE_FRAME 1]
       (PRIMITIVE_ABORT PRIM_POP_RETURN)))"

definition last_rib_step :: "nat \<Rightarrow> nat \<Rightarrow> (nat + nat) proc" where
  "last_rib_step first_rib rib m =
     (let next_rib = OBJECT_ADDRESS (mem m (rib + RIB_NEXT_REDUCTION))
      in returnp (if next_rib = first_rib then Inl rib else Inr next_rib) m)"

definition remove_reduction :: "nat \<Rightarrow> unit proc" where
  "remove_reduction history m =
     (let first_rib = OBJECT_ADDRESS (mem m (history + HIST_RIB));
          second_rib = OBJECT_ADDRESS (mem m (first_rib + RIB_NEXT_REDUCTION))
      in if first_rib \<noteq> second_rib \<and> \<not> HISTORY_MARKED_P (mem m (first_rib + RIB_MARK))
         then bindp (loop (last_rib_step first_rib) first_rib)
                (\<lambda>rib. updatep (\<lambda>m. write_word (history + HIST_RIB)
                   (MAKE_POINTER_OBJECT (OBJECT_TYPE (mem m (history + HIST_RIB))) rib) m))
                (HISTORY_MARK (second_rib + RIB_MARK) m)
         else returnp () m)"

definition Prim_with_history_disabled :: "primitives \<Rightarrow> ulong code" where
  "Prim_with_history_disabled tbl = canonicalize_primitive_context tbl (\<lambda>s.
     let thunk = ARG_REF s 1
     in calling (remove_reduction (history_register s)) (\<lambda>_.
          doing (POP_PRIMITIVE_FRAME 1) (stop_history (Will_Push (STACK_ENV_EXTRA_SLOTS + 1)
            (doing_all [STACK_PUSH thunk, PUSH_APPLY_FRAME_HEADER 0] (PRIMITIVE_ABORT PRIM_APPLY))))) s)"

definition N_FIXED_OBJECTS :: ulong where [simp]: "N_FIXED_OBJECTS = 0x45"

definition Prim_get_fixed_objects_vector :: "ulong code" where
  "Prim_get_fixed_objects_vector s = PRIMITIVE_RETURN (fixed_objects (memory s)) s"

definition Prim_set_fixed_objects_vector :: "ulong code" where
  "Prim_set_fixed_objects_vector = CHECK_ARG_TYPE 1 VECTOR_P (\<lambda>s.
     let previous = fixed_objects (memory s); new = ARG_REF s 1
     in if VECTOR_LENGTH (memory s) new < N_FIXED_OBJECTS then bad_range_arg 1 s
        else doing (on_memory (\<lambda>m. m\<lparr>fixed_objects := new\<rparr>)) (PRIMITIVE_RETURN previous) s)"

section \<open>The stepper\<close>

definition install_traps :: "ulong \<Rightarrow> interp \<Rightarrow> interp" where
  "install_traps state s =
     (let t = on_memory (\<lambda>m. VECTOR_SET (fixed_objects m) STEPPER_STATE state m) s; trap = (\<lambda>i. MEMORY_REF (memory t) state i)
      in t\<lparr>trapping := OBJECT_TO_BOOLEAN (trap 0) \<or> OBJECT_TO_BOOLEAN (trap 1) \<or> OBJECT_TO_BOOLEAN (trap 2)\<rparr>)"

definition Prim_eval_step :: "primitives \<Rightarrow> ulong code" where
  "Prim_eval_step tbl = CHECK_ARG_TYPE 3 HUNK3_P (\<lambda>s.
     let expression = ARG_REF s 1; environment = ARG_REF s 2; hooks = ARG_REF s 3
     in canonicalize_primitive_context tbl
          (doing_all [POP_PRIMITIVE_FRAME 3, install_traps hooks, SET_EXP expression, SET_ENV environment]
            (PRIMITIVE_ABORT PRIM_NO_TRAP_EVAL)) s)"

definition scan_list_step :: "ulong \<times> nat \<Rightarrow> (ulong \<times> nat + ulong \<times> nat) proc" where
  "scan_list_step x m = (case x of (p, n) \<Rightarrow> returnp (if PAIR_P p then Inr (PAIR_CDR m p, n + 1) else Inl (p, n)) m)"

definition Prim_apply_step :: "primitives \<Rightarrow> ulong code" where
  "Prim_apply_step tbl = canonicalize_primitive_context tbl (CHECK_ARG_TYPE 3 HUNK3_P (\<lambda>s.
     let hooks = ARG_REF s 3; procedure = ARG_REF s 1; argument_list = ARG_REF s 2
     in calling (loop scan_list_step (argument_list, 0)) (\<lambda>(scan_list, number_of_args).
          if \<not> EMPTY_LIST_P scan_list then wrong_type_arg 2
          else doing_all [POP_PRIMITIVE_FRAME 3, install_traps hooks]
            (Will_Push (int number_of_args + STACK_ENV_EXTRA_SLOTS + 1)
              (doing_all [push_list number_of_args argument_list, STACK_PUSH procedure,
                  PUSH_APPLY_FRAME_HEADER (word_of_nat number_of_args)] (PRIMITIVE_ABORT PRIM_NO_TRAP_APPLY)))) s))"

definition Prim_return_step :: "primitives \<Rightarrow> ulong code" where
  "Prim_return_step tbl = canonicalize_primitive_context tbl (CHECK_ARG_TYPE 2 HUNK3_P (\<lambda>s.
     let v = ARG_REF s 1; hooks = ARG_REF s 2
     in doing_all [POP_PRIMITIVE_FRAME 2, install_traps hooks, SET_VAL v] (PRIMITIVE_ABORT PRIM_NO_TRAP_POP_RETURN) s))"

end
