(* ===== verification/Symbol_Correct.thy ===== *)
theory Symbol_Correct
  imports Symbol_Table
begin

text \<open>
  The table of symbols finds, for a name, the one symbol of that name: a bucket is a path of
  entries from its slot in the table, searching it drops the reclaimed entries it passes, and
  adding a symbol extends it.
\<close>

section \<open>The words a name is read from\<close>

definition agree :: "nat set \<Rightarrow> machine \<Rightarrow> machine \<Rightarrow> bool" where
  "agree A s s' \<longleftrightarrow> (\<forall>a\<in>A. mem s a = mem s' a)"

definition bytevector_words :: "machine \<Rightarrow> ulong \<Rightarrow> nat set" where
  "bytevector_words s v =
     insert (OBJECT_ADDRESS v + 1) {(BYTEVECTOR_POINTER v + i) div 8 | i. i < unat (BYTEVECTOR_LENGTH s v)}"

definition symbol_bytes :: "machine \<Rightarrow> ulong \<Rightarrow> byte list" where
  "symbol_bytes s symbol = bytevector_bytes s (MEMORY_REF s symbol SYMBOL_NAME)"

definition symbol_words :: "machine \<Rightarrow> ulong \<Rightarrow> nat set" where
  "symbol_words s symbol = insert (OBJECT_ADDRESS symbol) (bytevector_words s (MEMORY_REF s symbol SYMBOL_NAME))"

lemma agree_mono: "agree A s s' \<Longrightarrow> B \<subseteq> A \<Longrightarrow> agree B s s'"
  by (auto simp: agree_def)

lemma agree_write: "a \<notin> A \<Longrightarrow> agree A s (write_word a v s)"
  by (auto simp: agree_def)

lemma BYTEVECTOR_LENGTH_agree:
  "agree (bytevector_words s v) s s' \<Longrightarrow> BYTEVECTOR_LENGTH s' v = BYTEVECTOR_LENGTH s v"
  by (simp add: agree_def bytevector_words_def BYTEVECTOR_LENGTH_def MEMORY_REF_def)

lemma bytevector_words_agree: "agree (bytevector_words s v) s s' \<Longrightarrow> bytevector_words s' v = bytevector_words s v"
  by (simp add: bytevector_words_def BYTEVECTOR_LENGTH_agree)

lemma bytevector_bytes_agree:
  assumes "agree (bytevector_words s v) s s'"
  shows "bytevector_bytes s' v = bytevector_bytes s v"
proof -
  have "mem s' ((BYTEVECTOR_POINTER v + i) div 8) = mem s ((BYTEVECTOR_POINTER v + i) div 8)"
    if "i < unat (BYTEVECTOR_LENGTH s v)" for i
    using assms that by (auto simp: agree_def bytevector_words_def)
  then show ?thesis
    by (simp add: bytevector_bytes_def BYTEVECTOR_LENGTH_agree [OF assms] read_bytes_def read_byte_def)
qed

lemma MEMORY_REF_agree: "agree (symbol_words s symbol) s s' \<Longrightarrow> MEMORY_REF s' symbol SYMBOL_NAME = MEMORY_REF s symbol SYMBOL_NAME"
  by (simp add: agree_def symbol_words_def MEMORY_REF_def)

lemma symbol_agree:
  assumes "agree (symbol_words s symbol) s s'"
  shows "symbol_bytes s' symbol = symbol_bytes s symbol" "symbol_words s' symbol = symbol_words s symbol"
proof -
  note name = MEMORY_REF_agree [OF assms]
  have "agree (bytevector_words s (MEMORY_REF s symbol SYMBOL_NAME)) s s'"
    using assms by (rule agree_mono) (auto simp: symbol_words_def)
  then show "symbol_bytes s' symbol = symbol_bytes s symbol" "symbol_words s' symbol = symbol_words s symbol"
    by (simp_all only: symbol_bytes_def symbol_words_def name bytevector_bytes_agree bytevector_words_agree)
qed

section \<open>Buckets\<close>

lemma EMPTY_LIST_type [simp]: "\<not> WEAK_PAIR_P EMPTY_LIST" "\<not> PAIR_P EMPTY_LIST" "\<not> INTERNED_SYMBOL_P EMPTY_LIST"
  by (simp_all add: WEAK_PAIR_P_def PAIR_P_def INTERNED_SYMBOL_P_def EMPTY_LIST_def)

primrec bucket_path :: "machine \<Rightarrow> nat \<Rightarrow> nat list \<Rightarrow> bool" where
  "bucket_path s loc [] \<longleftrightarrow> mem s loc = EMPTY_LIST"
| "bucket_path s loc (p # ps) \<longleftrightarrow>
     (WEAK_PAIR_P (mem s loc) \<or> PAIR_P (mem s loc)) \<and> OBJECT_ADDRESS (mem s loc) = p \<and> bucket_path s (Suc p) ps"

definition bucket_links :: "nat \<Rightarrow> nat list \<Rightarrow> nat list" where
  "bucket_links loc ps = loc # map Suc ps"

primrec bucket_end :: "nat \<Rightarrow> nat list \<Rightarrow> nat" where
  "bucket_end loc [] = loc"
| "bucket_end loc (p # ps) = bucket_end (Suc p) ps"

definition live_entry :: "machine \<Rightarrow> nat \<Rightarrow> bool" where
  "live_entry s p \<longleftrightarrow> INTERNED_SYMBOL_P (mem s p)"

definition named_entry :: "machine \<Rightarrow> byte list \<Rightarrow> nat \<Rightarrow> bool" where
  "named_entry s bs p \<longleftrightarrow> live_entry s p \<and> symbol_bytes s (mem s p) = bs"

definition entry_words :: "machine \<Rightarrow> nat list \<Rightarrow> nat set" where
  "entry_words s ps = set ps \<union> (\<Union>p\<in>{p \<in> set ps. live_entry s p}. symbol_words s (mem s p))"

definition bucket_ok :: "machine \<Rightarrow> nat set \<Rightarrow> nat \<Rightarrow> nat list \<Rightarrow> bool" where
  "bucket_ok s A loc ps \<longleftrightarrow>
     bucket_path s loc ps \<and> distinct (bucket_links loc ps) \<and> set (bucket_links loc ps) \<inter> (A \<union> entry_words s ps) = {}"

text \<open>The bucket after a search: without the reclaimed entries before the one it finds.\<close>

definition searched :: "machine \<Rightarrow> byte list \<Rightarrow> nat list \<Rightarrow> nat list" where
  "searched s bs ps = filter (live_entry s) (takeWhile (\<lambda>p. \<not> named_entry s bs p) ps) @ dropWhile (\<lambda>p. \<not> named_entry s bs p) ps"

definition search_result :: "machine \<Rightarrow> byte list \<Rightarrow> nat \<Rightarrow> nat list \<Rightarrow> nat" where
  "search_result s bs loc ps =
     (case dropWhile (\<lambda>p. \<not> named_entry s bs p) ps of [] \<Rightarrow> bucket_end loc (searched s bs ps) | p # _ \<Rightarrow> p)"

lemma bucket_path_cong:
  "bucket_path s loc ps \<Longrightarrow> (\<And>a. a \<in> set (bucket_links loc ps) \<Longrightarrow> mem s' a = mem s a) \<Longrightarrow> bucket_path s' loc ps"
  by (induction ps arbitrary: loc) (auto simp: bucket_links_def)

lemma entry_words_agree:
  assumes "agree (entry_words s ps) s s'" "p \<in> set ps"
  shows "live_entry s' p = live_entry s p" "named_entry s' bs p = named_entry s bs p"
proof -
  have m: "mem s' p = mem s p" using assms by (auto simp: agree_def entry_words_def)
  then show l: "live_entry s' p = live_entry s p" by (simp add: live_entry_def)
  have "agree (symbol_words s (mem s p)) s s'" if "live_entry s p"
    using assms(1) by (rule agree_mono) (use that assms(2) in \<open>auto simp: entry_words_def\<close>)
  then show "named_entry s' bs p = named_entry s bs p"
    by (auto simp: named_entry_def l m symbol_agree)
qed

lemma entry_words_cong:
  assumes "agree (entry_words s ps) s s'"
  shows "entry_words s' ps = entry_words s ps"
proof -
  have 1: "mem s' p = mem s p" "live_entry s' p = live_entry s p" if "p \<in> set ps" for p
    using assms that entry_words_agree(1) [OF assms that] by (simp_all add: agree_def entry_words_def)
  have 2: "symbol_words s' (mem s p) = symbol_words s (mem s p)" if "p \<in> set ps" "live_entry s p" for p
    using agree_mono [OF assms, of "symbol_words s (mem s p)"] that by (intro symbol_agree) (auto simp: entry_words_def)
  have 3: "{p \<in> set ps. live_entry s' p} = {p \<in> set ps. live_entry s p}" using 1(2) by blast
  have "(\<Union>p\<in>{p \<in> set ps. live_entry s p}. symbol_words s' (mem s' p)) = (\<Union>p\<in>{p \<in> set ps. live_entry s p}. symbol_words s (mem s p))"
    using 1(1) 2 by (intro SUP_cong) auto
  then show ?thesis by (simp only: entry_words_def 3)
qed

lemma searched_cong:
  assumes "\<And>p. p \<in> set ps \<Longrightarrow> live_entry s' p = live_entry s p \<and> named_entry s' bs p = named_entry s bs p"
  shows "searched s' bs ps = searched s bs ps" "search_result s' bs loc ps = search_result s bs loc ps"
proof -
  have t: "takeWhile (\<lambda>p. \<not> named_entry s' bs p) ps = takeWhile (\<lambda>p. \<not> named_entry s bs p) ps"
    and d: "dropWhile (\<lambda>p. \<not> named_entry s' bs p) ps = dropWhile (\<lambda>p. \<not> named_entry s bs p) ps"
    using assms by (auto intro: takeWhile_cong dropWhile_cong)
  have "filter (live_entry s') (takeWhile (\<lambda>p. \<not> named_entry s bs p) ps) = filter (live_entry s) (takeWhile (\<lambda>p. \<not> named_entry s bs p) ps)"
    by (rule filter_cong) (use assms set_takeWhileD in fastforce)+
  then show 1: "searched s' bs ps = searched s bs ps" by (simp add: searched_def t d)
  show "search_result s' bs loc ps = search_result s bs loc ps" unfolding search_result_def d 1 ..
qed

lemma name_matches:
  "unat (STRING_LENGTH s name2) = len \<and> read_bytes s (STRING_POINTER name2) len = bs \<longleftrightarrow> bytevector_bytes s name2 = bs"
  if "length bs = len" for bs len
  using that by (auto simp: bytevector_bytes_def STRING_LENGTH_def STRING_POINTER_def)

lemma step_cases:
  assumes "bucket_path s loc (p # ps)" "read_bytes s name len = bs"
  shows
    "named_entry s bs p \<Longrightarrow> find_symbol_step len name loc s = Some (Inr (Inl p), s)"
    "live_entry s p \<Longrightarrow> \<not> named_entry s bs p \<Longrightarrow> find_symbol_step len name loc s = Some (Inr (Inr (Suc p)), s)"
    "\<not> live_entry s p \<Longrightarrow> find_symbol_step len name loc s = Some (Inr (Inr loc), write_word loc (mem s (Suc p)) s)"
proof -
  have len: "length bs = len" using assms(2) by auto
  show "named_entry s bs p \<Longrightarrow> find_symbol_step len name loc s = Some (Inr (Inl p), s)"
    "live_entry s p \<Longrightarrow> \<not> named_entry s bs p \<Longrightarrow> find_symbol_step len name loc s = Some (Inr (Inr (Suc p)), s)"
    "\<not> live_entry s p \<Longrightarrow> find_symbol_step len name loc s = Some (Inr (Inr loc), write_word loc (mem s (Suc p)) s)"
    using assms name_matches [OF len, of s "MEMORY_REF s (mem s p) 0"]
    by (auto simp: find_symbol_step_def named_entry_def live_entry_def symbol_bytes_def Let_def PAIR_CAR_def PAIR_CDR_def MEMORY_REF_def)
qed

lemma bucket_ok_next:
  assumes "bucket_ok s A loc (p # ps)"
  shows "bucket_ok s A (Suc p) ps" "loc \<notin> set (bucket_links (Suc p) ps)"
    "loc \<notin> A" "loc \<notin> entry_words s (p # ps)"
  using assms by (auto simp: bucket_ok_def bucket_links_def entry_words_def)

lemma bucket_ok_splice:
  assumes "bucket_ok s A loc (p # ps)" and s': "s' = write_word loc (mem s (Suc p)) s"
  shows "bucket_ok s' A loc ps" "agree (entry_words s ps) s s'" "agree A s s'"
proof -
  note away = bucket_ok_next [OF assms(1)]
  show A: "agree A s s'" using away(3) by (simp add: s' agree_write)
  show E: "agree (entry_words s ps) s s'" using away(4) by (auto simp: s' entry_words_def intro!: agree_write)
  have "bucket_path s' loc ps"
  proof (cases ps)
    case Nil
    then show ?thesis using assms(1) by (simp add: bucket_ok_def s')
  next
    case (Cons q qs)
    have "bucket_path s (Suc q) qs" "\<And>a. a \<in> set (bucket_links (Suc q) qs) \<Longrightarrow> mem s' a = mem s a"
      using assms(1) Cons by (auto simp: bucket_ok_def s' bucket_links_def)
    then have "bucket_path s' (Suc q) qs" by (rule bucket_path_cong)
    then show ?thesis using assms(1) Cons by (auto simp: bucket_ok_def s')
  qed
  then show "bucket_ok s' A loc ps"
  proof -
    have "entry_words s' ps \<subseteq> entry_words s (p # ps)" unfolding entry_words_cong [OF E] by (auto simp: entry_words_def)
    moreover have "set (bucket_links loc ps) \<subseteq> set (bucket_links loc (p # ps))" "distinct (bucket_links loc ps)"
      using assms(1) by (auto simp: bucket_ok_def bucket_links_def)
    moreover have "set (bucket_links loc (p # ps)) \<inter> (A \<union> entry_words s (p # ps)) = {}"
      using assms(1) by (simp only: bucket_ok_def)
    ultimately show ?thesis using \<open>bucket_path s' loc ps\<close> unfolding bucket_ok_def by blast
  qed
qed

text \<open>A search ends at the first entry of that name, or at the end of the bucket.\<close>

theorem find_symbol_loop:
  assumes "bucket_ok s A loc ps" "{(name + i) div 8 | i. i < len} \<subseteq> A" "read_bytes s name len = bs"
  shows "\<exists>s'. loop (find_symbol_step len name) loc s = Some (Inr (search_result s bs loc ps), s')
    \<and> s' = s\<lparr>mem := mem s'\<rparr> \<and> bucket_path s' loc (searched s bs ps)
    \<and> (\<forall>a. a \<notin> set (bucket_links loc ps) \<longrightarrow> mem s' a = mem s a)
    \<and> ((\<forall>p\<in>set (takeWhile (\<lambda>p. \<not> named_entry s bs p) ps). live_entry s p) \<longrightarrow> s' = s)"
  using assms
proof (induction ps arbitrary: loc s)
  case Nil
  then have "find_symbol_step len name loc s = Some (Inr (Inl loc), s)"
    by (simp add: bucket_ok_def find_symbol_step_def)
  then show ?case using Nil by (auto simp: loop_simps searched_def search_result_def bucket_ok_def)
next
  case (Cons p ps)
  have path: "bucket_path s loc (p # ps)" using Cons.prems(1) by (simp add: bucket_ok_def)
  note step = step_cases [OF path Cons.prems(3)]
  consider "named_entry s bs p" | "live_entry s p" "\<not> named_entry s bs p" | "\<not> live_entry s p" by blast
  then show ?case
  proof cases
    case 1
    then show ?thesis using path by (auto simp: loop_simps(1) [where body = "find_symbol_step len name", OF step(1)] searched_def search_result_def)
  next
    case 2
    note tail = bucket_ok_next [OF Cons.prems(1)]
    from Cons.IH [OF tail(1) Cons.prems(2,3)] obtain s' where s':
      "loop (find_symbol_step len name) (Suc p) s = Some (Inr (search_result s bs (Suc p) ps), s')"
      "s' = s\<lparr>mem := mem s'\<rparr>" "bucket_path s' (Suc p) (searched s bs ps)"
      "\<forall>a. a \<notin> set (bucket_links (Suc p) ps) \<longrightarrow> mem s' a = mem s a"
      "(\<forall>p\<in>set (takeWhile (\<lambda>p. \<not> named_entry s bs p) ps). live_entry s p) \<longrightarrow> s' = s" by blast
    have "mem s' loc = mem s loc" using s'(4) tail(2) by blast
    then have "bucket_path s' loc (searched s bs (p # ps))" using s'(3) path 2 by (simp add: searched_def)
    moreover have "search_result s bs loc (p # ps) = search_result s bs (Suc p) ps"
    proof -
      have "dropWhile (\<lambda>p. \<not> named_entry s bs p) (p # ps) = dropWhile (\<lambda>p. \<not> named_entry s bs p) ps"
        "searched s bs (p # ps) = p # searched s bs ps"
        using 2 by (simp_all add: searched_def)
      then show ?thesis by (simp only: search_result_def bucket_end.simps)
    qed
    moreover have "set (bucket_links (Suc p) ps) \<subseteq> set (bucket_links loc (p # ps))" by (auto simp: bucket_links_def)
    ultimately show ?thesis using s' 2 by (auto simp: loop_simps(2) [where body = "find_symbol_step len name", OF step(2) [OF 2]])
  next
    case 3
    let ?s = "write_word loc (mem s (Suc p)) s"
    note splice = bucket_ok_splice [OF Cons.prems(1) refl]
    have name: "read_bytes ?s name len = bs"
    proof -
      have "read_byte ?s (name + i) = read_byte s (name + i)" if "i < len" for i
        proof -
        have "(name + i) div 8 \<in> A" using Cons.prems(2) that by blast
        then have "mem ?s ((name + i) div 8) = mem s ((name + i) div 8)" using splice(3) unfolding agree_def by metis
        then show ?thesis by (simp add: read_byte_def del: write_word_simps)
      qed
      then have "read_bytes ?s name len = read_bytes s name len" by (simp add: read_bytes_def)
      then show ?thesis using Cons.prems(3) by simp
    qed
    have same: "live_entry ?s q = live_entry s q \<and> named_entry ?s bs q = named_entry s bs q" if "q \<in> set ps" for q
      using entry_words_agree [OF splice(2) that] by simp
    note sr = searched_cong [OF same]
    have not: "\<not> named_entry s bs p" using 3 by (simp add: named_entry_def)
    from Cons.IH [OF splice(1) Cons.prems(2) name] obtain s' where s':
      "loop (find_symbol_step len name) loc ?s = Some (Inr (search_result s bs loc ps), s')"
      "s' = ?s\<lparr>mem := mem s'\<rparr>" "bucket_path s' loc (searched s bs ps)"
      "\<forall>a. a \<notin> set (bucket_links loc ps) \<longrightarrow> mem s' a = mem ?s a"
      by (auto simp: sr)
    have "s' = s\<lparr>mem := mem s'\<rparr>" using s'(2) by (simp add: write_word_def)
    moreover have "search_result s bs loc (p # ps) = search_result s bs loc ps" "searched s bs (p # ps) = searched s bs ps"
    proof -
      have d: "dropWhile (\<lambda>p. \<not> named_entry s bs p) (p # ps) = dropWhile (\<lambda>p. \<not> named_entry s bs p) ps"
        and r: "searched s bs (p # ps) = searched s bs ps"
        using 3 not by (simp_all add: searched_def)
      show "search_result s bs loc (p # ps) = search_result s bs loc ps" by (simp only: search_result_def d r)
      show "searched s bs (p # ps) = searched s bs ps" by (rule r)
    qed
    moreover have "\<forall>a. a \<notin> set (bucket_links loc (p # ps)) \<longrightarrow> mem s' a = mem s a"
      using s'(4) by (auto simp: bucket_links_def)
    ultimately show ?thesis using s'(1,3) 3 not by (auto simp: loop_simps(2) [where body = "find_symbol_step len name", OF step(3) [OF 3]])
  qed
qed

section \<open>Interning\<close>

definition the_obarray :: "machine \<Rightarrow> ulong" where
  "the_obarray s = VECTOR_REF s (fixed_objects s) OBARRAY"

definition bucket_slot :: "machine \<Rightarrow> byte list \<Rightarrow> nat" where
  "bucket_slot s bs = VECTOR_LOC (the_obarray s) (unat (memory_hash bs) mod unat (VECTOR_LENGTH s (the_obarray s)))"

definition table_words :: "machine \<Rightarrow> nat set" where
  "table_words s = {OBJECT_ADDRESS (fixed_objects s) + (OBARRAY + 1), OBJECT_ADDRESS (the_obarray s)}"

text \<open>
  The bucket of the name \<open>v\<close> is a path of entries; the words that link it are none of those its names,
  the name \<open>v\<close> and the table are read from, and all are allocated.
\<close>

definition symbol_table_ok :: "machine \<Rightarrow> ulong \<Rightarrow> nat list \<Rightarrow> bool" where
  "symbol_table_ok s v ps \<longleftrightarrow>
     VECTOR_LENGTH s (the_obarray s) \<noteq> 0
     \<and> bucket_ok s (table_words s \<union> bytevector_words s v) (bucket_slot s (bytevector_bytes s v)) ps
     \<and> (\<forall>a\<in>set (bucket_links (bucket_slot s (bytevector_bytes s v)) ps) \<union> table_words s \<union> bytevector_words s v \<union> entry_words s ps.
          a < Free s)"

lemma find_symbol_bucket:
  assumes "VECTOR_LENGTH s (the_obarray s) \<noteq> 0"
  shows "find_symbol_internal (unat (STRING_LENGTH s v)) (STRING_POINTER v) s =
    loop (find_symbol_step (unat (STRING_LENGTH s v)) (STRING_POINTER v)) (bucket_slot s (bytevector_bytes s v)) s"
  using assms
  by (simp add: find_symbol_internal_def bucket_of_def the_obarray_def bucket_slot_def Let_def bytevector_bytes_def
      STRING_LENGTH_def STRING_POINTER_def)

lemma find_symbol_correct:
  assumes "symbol_table_ok s v ps"
  defines "bs \<equiv> bytevector_bytes s v"
  defines "loc \<equiv> bucket_slot s bs"
  shows "\<exists>s'. find_symbol_internal (unat (STRING_LENGTH s v)) (STRING_POINTER v) s = Some (Inr (search_result s bs loc ps), s')
    \<and> s' = s\<lparr>mem := mem s'\<rparr> \<and> bucket_path s' loc (searched s bs ps)
    \<and> (\<forall>a. a \<notin> set (bucket_links loc ps) \<longrightarrow> mem s' a = mem s a)
    \<and> ((\<forall>p\<in>set (takeWhile (\<lambda>p. \<not> named_entry s bs p) ps). live_entry s p) \<longrightarrow> s' = s)"
proof -
  have ok: "bucket_ok s (table_words s \<union> bytevector_words s v) loc ps" and n: "VECTOR_LENGTH s (the_obarray s) \<noteq> 0"
    using assms by (simp_all add: symbol_table_ok_def)
  have sub: "{(STRING_POINTER v + i) div 8 | i. i < unat (STRING_LENGTH s v)} \<subseteq> table_words s \<union> bytevector_words s v"
    by (auto simp: bytevector_words_def STRING_POINTER_def STRING_LENGTH_def)
  have "read_bytes s (STRING_POINTER v) (unat (STRING_LENGTH s v)) = bs"
    by (simp add: bs_def bytevector_bytes_def STRING_POINTER_def STRING_LENGTH_def)
  from find_symbol_loop [OF ok sub this] show ?thesis
    unfolding find_symbol_bucket [OF n] by (simp add: loc_def bs_def)
qed

lemma make_symbol_correct:
  assumes "room s 4"
  defines "symbol \<equiv> MAKE_POINTER_OBJECT TC_INTERNED_SYMBOL (Free s)"
  shows "\<exists>s'. make_symbol v cell s = (Inr symbol, s') \<and> Free s' = Free s + 4 \<and> fixed_objects s' = fixed_objects s
    \<and> mem s' = (mem s)(Free s := v, Free s + 1 := UNBOUND_OBJECT, Free s + 2 := symbol, Free s + 3 := EMPTY_LIST,
         cell := MAKE_POINTER_OBJECT TC_WEAK_CONS (Free s + 2))
    \<and> INTERNED_SYMBOL_P symbol \<and> OBJECT_ADDRESS symbol = Free s"
proof -
  have addr: "addressable (Free s)" "addressable (Free s + 2)" using assms(1) by (auto simp: room_def intro: addressable_mono)
  have p: "OBJECT_ADDRESS symbol = Free s" "OBJECT_TYPE symbol = TC_INTERNED_SYMBOL"
    using addr by (simp_all add: symbol_def)
  have r: "Primitive_GC_If_Needed 4 s = (Inr (), s)" using assms(1) by (simp add: room_allocates)
  define s1 where "s1 = MEMORY_SET symbol SYMBOL_GLOBAL_VALUE UNBOUND_OBJECT (MEMORY_SET symbol SYMBOL_NAME v (s\<lparr>Free := Free s + 2\<rparr>))"
  have "room s1 2"
    using assms(1) by (auto simp: room_def GC_NEEDED_P_def HEAP_AVAILABLE_P_def FREE_OK_P_def GC_ENABLED_P_def s1_def MEMORY_SET_def
        addressable_def write_word_def)
  then have r2: "Primitive_GC_If_Needed 2 s1 = (Inr (), s1)" by (simp add: room_allocates)
  have "system_pair_cons TC_WEAK_CONS symbol EMPTY_LIST s1
      = (Inr (MAKE_POINTER_OBJECT TC_WEAK_CONS (Free s + 2)), push_free EMPTY_LIST (push_free symbol s1))"
    by (simp only: system_pair_cons_def andthen_simps(1) [where m = "Primitive_GC_If_Needed 2", OF r2])
      (simp add: Let_def s1_def MEMORY_SET_def)
  then have "make_symbol v cell s = (Inr symbol, write_word cell (MAKE_POINTER_OBJECT TC_WEAK_CONS (Free s + 2)) (push_free EMPTY_LIST (push_free symbol s1)))"
    by (simp add: make_symbol_def r Let_def s1_def symbol_def)
  then show ?thesis using p
    by (auto simp: s1_def MEMORY_SET_def INTERNED_SYMBOL_P_def fun_eq_iff)
qed

lemma bucket_end_links: "bucket_end loc ps \<in> set (bucket_links loc ps)"
  by (induction ps arbitrary: loc) (auto simp: bucket_links_def)

lemma bucket_path_end: "bucket_path s loc ps \<Longrightarrow> mem s (bucket_end loc ps) = EMPTY_LIST"
  by (induction ps arbitrary: loc) auto

lemma bucket_path_snoc:
  assumes "bucket_path s loc ps" "distinct (bucket_links loc ps)"
    and "\<And>a. a \<in> set (bucket_links loc ps) \<Longrightarrow> a \<noteq> bucket_end loc ps \<Longrightarrow> mem s' a = mem s a"
    and "WEAK_PAIR_P (mem s' (bucket_end loc ps))" "OBJECT_ADDRESS (mem s' (bucket_end loc ps)) = q"
    and "mem s' (Suc q) = EMPTY_LIST"
  shows "bucket_path s' loc (ps @ [q])"
  using assms
proof (induction ps arbitrary: loc)
  case (Cons p ps)
  have "bucket_end (Suc p) ps \<noteq> loc" using Cons.prems(2) bucket_end_links [of "Suc p" ps] by (auto simp: bucket_links_def)
  then have "mem s' loc = mem s loc" using Cons.prems(3) [of loc] by (simp add: bucket_links_def)
  moreover have "bucket_path s' (Suc p) (ps @ [q])"
  proof (rule Cons.IH)
    show "mem s' a = mem s a" if "a \<in> set (bucket_links (Suc p) ps)" "a \<noteq> bucket_end (Suc p) ps" for a
      using Cons.prems(3) [of a] that by (auto simp: bucket_links_def)
  qed (use Cons.prems in \<open>auto simp: bucket_links_def\<close>)
  ultimately show ?case using Cons.prems(1) by simp
qed auto

lemma entry_words_mono: "set qs \<subseteq> set ps \<Longrightarrow> entry_words s qs \<subseteq> entry_words s ps"
  by (auto simp: entry_words_def)

lemma bucket_ok_subset:
  assumes "bucket_ok s A loc ps" "bucket_path s' loc qs" "set qs \<subseteq> set ps" "distinct qs"
    and "\<forall>a. a \<notin> set (bucket_links loc ps) \<longrightarrow> mem s' a = mem s a"
  shows "bucket_ok s' A loc qs" "agree (A \<union> entry_words s ps) s s'"
proof -
  have away: "set (bucket_links loc ps) \<inter> (A \<union> entry_words s ps) = {}" and d: "distinct (bucket_links loc ps)"
    using assms(1) by (auto simp only: bucket_ok_def)
  show E: "agree (A \<union> entry_words s ps) s s'" using assms(5) away unfolding agree_def by (metis disjoint_iff)
  have sub: "entry_words s qs \<subseteq> entry_words s ps" using assms(3) by (rule entry_words_mono)
  then have "entry_words s' qs = entry_words s qs" using E by (intro entry_words_cong) (rule agree_mono, assumption, blast)
  moreover have "set (bucket_links loc qs) \<subseteq> set (bucket_links loc ps)" "distinct (bucket_links loc qs)"
    using assms(3,4) d by (auto simp: bucket_links_def distinct_map)
  ultimately show "bucket_ok s' A loc qs" using assms(2) away sub unfolding bucket_ok_def by blast
qed

lemma searched_subset: "set (searched s bs ps) \<subseteq> set ps" "distinct ps \<Longrightarrow> distinct (searched s bs ps)"
proof -
  let ?P = "\<lambda>p. \<not> named_entry s bs p"
  have ps: "takeWhile ?P ps @ dropWhile ?P ps = ps" by simp
  show "set (searched s bs ps) \<subseteq> set ps" by (auto simp: searched_def dest: set_takeWhileD set_dropWhileD)
  show "distinct (searched s bs ps)" if "distinct ps"
  proof -
    have "distinct (takeWhile ?P ps @ dropWhile ?P ps)" using that by simp
    then show ?thesis unfolding searched_def distinct_append by auto
  qed
qed

lemma symbol_table_ok_state:
  assumes "symbol_table_ok s v ps" "s' = s\<lparr>mem := mem s'\<rparr>" "bucket_path s' (bucket_slot s (bytevector_bytes s v)) qs"
    and "set qs \<subseteq> set ps" "distinct qs"
    and "\<forall>a. a \<notin> set (bucket_links (bucket_slot s (bytevector_bytes s v)) ps) \<longrightarrow> mem s' a = mem s a"
  shows "symbol_table_ok s' v qs" "bytevector_bytes s' v = bytevector_bytes s v"
    "bucket_slot s' (bytevector_bytes s' v) = bucket_slot s (bytevector_bytes s v)"
    "\<And>p. p \<in> set ps \<Longrightarrow> mem s' p = mem s p \<and> named_entry s' bs p = named_entry s bs p \<and> live_entry s' p = live_entry s p"
    "\<And>p. p \<in> set ps \<Longrightarrow> live_entry s p \<Longrightarrow> symbol_bytes s' (mem s p) = symbol_bytes s (mem s p)"
proof -
  let ?A = "table_words s \<union> bytevector_words s v" and ?loc = "bucket_slot s (bytevector_bytes s v)"
  have ok: "bucket_ok s ?A ?loc ps" and n: "VECTOR_LENGTH s (the_obarray s) \<noteq> 0"
    and below: "\<forall>a\<in>set (bucket_links ?loc ps) \<union> table_words s \<union> bytevector_words s v \<union> entry_words s ps. a < Free s"
    using assms(1) by (simp_all add: symbol_table_ok_def)
  note sub = bucket_ok_subset [OF ok assms(3-6)]
  have T: "agree (table_words s) s s'" and V: "agree (bytevector_words s v) s s'" and E: "agree (entry_words s ps) s s'"
    by (rule agree_mono [OF sub(2)], blast)+
  have fo: "fixed_objects s' = fixed_objects s" and free: "Free s' = Free s" using arg_cong [OF assms(2), of fixed_objects] arg_cong [OF assms(2), of Free] by simp_all
  have ob: "the_obarray s' = the_obarray s" using T by (simp add: agree_def table_words_def the_obarray_def VECTOR_REF_def MEMORY_REF_def fo)
  have vl: "VECTOR_LENGTH s' (the_obarray s) = VECTOR_LENGTH s (the_obarray s)"
    using T by (simp add: agree_def table_words_def VECTOR_LENGTH_def MEMORY_REF_def)
  have tw: "table_words s' = table_words s" by (simp add: table_words_def fo ob)
  show bytes: "bytevector_bytes s' v = bytevector_bytes s v" using V by (rule bytevector_bytes_agree)
  have vw: "bytevector_words s' v = bytevector_words s v" using V by (rule bytevector_words_agree)
  have slot: "bucket_slot s' bs = bucket_slot s bs" for bs by (simp add: bucket_slot_def ob vl)
  then show "bucket_slot s' (bytevector_bytes s' v) = ?loc" by (simp add: bytes)
  have "entry_words s' qs = entry_words s qs"
    by (rule entry_words_cong [OF agree_mono [OF E entry_words_mono [OF assms(4)]]])
  moreover have "set (bucket_links ?loc qs) \<subseteq> set (bucket_links ?loc ps)" using assms(4) by (auto simp: bucket_links_def)
  ultimately show "symbol_table_ok s' v qs"
  proof -
    assume e: "entry_words s' qs = entry_words s qs" and l: "set (bucket_links ?loc qs) \<subseteq> set (bucket_links ?loc ps)"
    have "set (bucket_links ?loc qs) \<union> table_words s \<union> bytevector_words s v \<union> entry_words s qs
        \<subseteq> set (bucket_links ?loc ps) \<union> table_words s \<union> bytevector_words s v \<union> entry_words s ps"
      using l entry_words_mono [OF assms(4), of s] by (intro Un_mono) auto
    then have "\<forall>a\<in>set (bucket_links ?loc qs) \<union> table_words s \<union> bytevector_words s v \<union> entry_words s qs. a < Free s"
      using below by (meson subsetD)
    then show ?thesis using sub(1) n by (simp only: symbol_table_ok_def bytes slot tw vw ob vl free e simp_thms)
  qed
  show "mem s' p = mem s p \<and> named_entry s' bs p = named_entry s bs p \<and> live_entry s' p = live_entry s p" if "p \<in> set ps" for p
  proof -
    have "p \<in> entry_words s ps" using that by (simp add: entry_words_def)
    then have "mem s' p = mem s p" using E unfolding agree_def by metis
    then show ?thesis using entry_words_agree [OF E that] by simp
  qed
  show "symbol_bytes s' (mem s p) = symbol_bytes s (mem s p)" if "p \<in> set ps" "live_entry s p" for p
  proof -
    have "symbol_words s (mem s p) \<subseteq> entry_words s ps" using that by (auto simp: entry_words_def)
    then show ?thesis by (rule symbol_agree(1) [OF agree_mono [OF E]])
  qed
qed

text \<open>What a search finds: the entry of that name that comes first, or the end of the bucket.\<close>

lemma search_finds:
  assumes "\<exists>p\<in>set ps. named_entry s bs p"
  shows "\<exists>p. search_result s bs loc ps = p \<and> p \<in> set (searched s bs ps) \<and> p \<in> set ps \<and> named_entry s bs p"
proof -
  obtain q qs where d: "dropWhile (\<lambda>p. \<not> named_entry s bs p) ps = q # qs"
    using assms by (cases "dropWhile (\<lambda>p. \<not> named_entry s bs p) ps") (auto simp: dropWhile_eq_Nil_conv)
  then have "named_entry s bs q" using hd_dropWhile [of "\<lambda>p. \<not> named_entry s bs p" ps] by auto
  moreover have "q \<in> set ps" using d set_dropWhileD [of q "\<lambda>p. \<not> named_entry s bs p" ps] by simp
  ultimately show ?thesis using d by (simp add: search_result_def searched_def)
qed

lemma search_misses:
  assumes "\<not> (\<exists>p\<in>set ps. named_entry s bs p)"
  shows "search_result s bs loc ps = bucket_end loc (searched s bs ps)" "searched s bs ps = filter (live_entry s) ps"
proof -
  have d: "dropWhile (\<lambda>p. \<not> named_entry s bs p) ps = []" "takeWhile (\<lambda>p. \<not> named_entry s bs p) ps = ps"
    using assms by (auto simp: dropWhile_eq_Nil_conv takeWhile_eq_all_conv)
  show "search_result s bs loc ps = bucket_end loc (searched s bs ps)" "searched s bs ps = filter (live_entry s) ps"
    by (simp_all only: search_result_def searched_def d list.case append_Nil2)
qed

lemma searched_again:
  "dropWhile (\<lambda>p. \<not> named_entry s bs p) (searched s bs ps) = dropWhile (\<lambda>p. \<not> named_entry s bs p) ps"
  "takeWhile (\<lambda>p. \<not> named_entry s bs p) (searched s bs ps) = filter (live_entry s) (takeWhile (\<lambda>p. \<not> named_entry s bs p) ps)"
  "searched s bs (searched s bs ps) = searched s bs ps"
proof -
  let ?P = "\<lambda>p. \<not> named_entry s bs p"
  have a: "?P x" if "x \<in> set (filter (live_entry s) (takeWhile ?P ps))" for x
    using that by (auto dest: set_takeWhileD)
  show d: "dropWhile ?P (searched s bs ps) = dropWhile ?P ps"
    unfolding searched_def by (subst dropWhile_append2 [OF a]) (simp_all del: filter_set)
  have "takeWhile ?P (dropWhile ?P ps) = []" using hd_dropWhile [of ?P ps] unfolding takeWhile_eq_Nil_iff by blast
  then show t: "takeWhile ?P (searched s bs ps) = filter (live_entry s) (takeWhile ?P ps)"
    unfolding searched_def by (subst takeWhile_append2 [OF a]) (simp_all del: filter_set)
  show "searched s bs (searched s bs ps) = searched s bs ps"
    unfolding searched_def [of s bs "searched s bs ps"] d t by (simp add: searched_def)
qed

text \<open>In a bucket without reclaimed entries before it, a symbol is found without a change of the table.\<close>

lemma symbol_table_ok_extend:
  assumes ok: "symbol_table_ok s v qs" and f: "f = Free s" "addressable (f + 2)" and s2: "Free s2 = f + 4" "fixed_objects s2 = fixed_objects s"
    "mem s2 = (mem s)(f := v, f + 1 := UNBOUND_OBJECT, f + 2 := symbol, f + 3 := EMPTY_LIST,
       bucket_end (bucket_slot s (bytevector_bytes s v)) qs := MAKE_POINTER_OBJECT TC_WEAK_CONS (f + 2))"
    and symbol: "INTERNED_SYMBOL_P symbol" "OBJECT_ADDRESS symbol = f"
  shows "symbol_table_ok s2 v (qs @ [f + 2])" "bytevector_bytes s2 v = bytevector_bytes s v"
    "\<And>p bs. p \<in> set qs \<Longrightarrow> live_entry s2 p = live_entry s p \<and> named_entry s2 bs p = named_entry s bs p"
    "named_entry s2 (bytevector_bytes s v) (f + 2)" "mem s2 (f + 2) = symbol"
    "bucket_slot s2 (bytevector_bytes s v) = bucket_slot s (bytevector_bytes s v)"
proof -
  let ?A = "table_words s \<union> bytevector_words s v" and ?loc = "bucket_slot s (bytevector_bytes s v)"
  let ?stop = "bucket_end ?loc qs"
  have bok: "bucket_ok s ?A ?loc qs" and n: "VECTOR_LENGTH s (the_obarray s) \<noteq> 0"
    and below: "\<forall>a\<in>set (bucket_links ?loc qs) \<union> table_words s \<union> bytevector_words s v \<union> entry_words s qs. a < f"
    using ok unfolding symbol_table_ok_def f(1) by blast+
  have end_in: "?stop \<in> set (bucket_links ?loc qs)" by (rule bucket_end_links)
  have away: "set (bucket_links ?loc qs) \<inter> (?A \<union> entry_words s qs) = {}" using bok unfolding bucket_ok_def by blast
  have at: "mem s2 a = mem s a" if "a < f" "a \<noteq> ?stop" for a using that by (simp add: s2(3))
  have end_below: "?stop < f" using below end_in by blast
  have G: "agree (?A \<union> entry_words s qs) s s2"
    unfolding agree_def
  proof
    fix a assume a: "a \<in> ?A \<union> entry_words s qs"
    then have "a < f" using below by blast
    moreover have "a \<noteq> ?stop" using away end_in a by blast
    ultimately show "mem s a = mem s2 a" using at by simp
  qed
  have T: "agree (table_words s) s s2" and V: "agree (bytevector_words s v) s s2" and E: "agree (entry_words s qs) s s2"
    by (rule agree_mono [OF G], blast)+
  have ob: "the_obarray s2 = the_obarray s" using T by (simp add: agree_def table_words_def the_obarray_def VECTOR_REF_def MEMORY_REF_def s2(2))
  have vl: "VECTOR_LENGTH s2 (the_obarray s) = VECTOR_LENGTH s (the_obarray s)"
    using T by (simp add: agree_def table_words_def VECTOR_LENGTH_def MEMORY_REF_def)
  have tw: "table_words s2 = table_words s" by (simp add: table_words_def s2(2) ob)
  show bytes: "bytevector_bytes s2 v = bytevector_bytes s v" using V by (rule bytevector_bytes_agree)
  have vw: "bytevector_words s2 v = bytevector_words s v" using V by (rule bytevector_words_agree)
  show slot: "bucket_slot s2 (bytevector_bytes s v) = ?loc" by (simp add: bucket_slot_def ob vl)
  show entries: "live_entry s2 p = live_entry s p \<and> named_entry s2 bs p = named_entry s bs p" if "p \<in> set qs" for p bs
    using entry_words_agree [OF E that] by simp
  show q: "mem s2 (f + 2) = symbol" using end_below by (simp add: s2(3))
  have name: "MEMORY_REF s2 symbol SYMBOL_NAME = v" using end_below by (simp add: MEMORY_REF_def symbol(2) s2(3))
  show "named_entry s2 (bytevector_bytes s v) (f + 2)"
    by (simp only: named_entry_def live_entry_def q symbol(1) symbol_bytes_def name bytes simp_thms)
  have path: "bucket_path s2 ?loc (qs @ [f + 2])"
  proof (rule bucket_path_snoc)
    show "bucket_path s ?loc qs" "distinct (bucket_links ?loc qs)" using bok unfolding bucket_ok_def by blast+
    show "mem s2 a = mem s a" if "a \<in> set (bucket_links ?loc qs)" "a \<noteq> ?stop" for a
      using at [of a] that below by blast
    show "WEAK_PAIR_P (mem s2 ?stop)" "OBJECT_ADDRESS (mem s2 ?stop) = f + 2"
      using f(2) by (simp_all add: s2(3) WEAK_PAIR_P_def)
    show "mem s2 (Suc (f + 2)) = EMPTY_LIST" using end_below by (simp add: s2(3) numeral_eq_Suc)
  qed
  have links: "set (bucket_links ?loc (qs @ [f + 2])) = insert (f + 3) (set (bucket_links ?loc qs))"
    by (auto simp: bucket_links_def numeral_eq_Suc)
  have words: "entry_words s2 (qs @ [f + 2]) \<subseteq> entry_words s qs \<union> {f, f + 2} \<union> bytevector_words s v"
  proof -
    have "entry_words s2 (qs @ [f + 2]) \<subseteq> entry_words s2 qs \<union> {f + 2} \<union> symbol_words s2 symbol"
      by (auto simp: entry_words_def q [simplified])
    then show ?thesis by (simp only: entry_words_cong [OF E] symbol_words_def symbol(2) name vw) blast
  qed
  have "distinct (bucket_links ?loc (qs @ [f + 2]))"
  proof -
    have "distinct (bucket_links ?loc qs)" "f + 3 \<notin> set (bucket_links ?loc qs)"
      using bok below unfolding bucket_ok_def by fastforce+
    then show ?thesis by (auto simp: bucket_links_def numeral_eq_Suc)
  qed
  moreover have "set (bucket_links ?loc (qs @ [f + 2])) \<inter> (?A \<union> entry_words s2 (qs @ [f + 2])) = {}"
  proof -
    have "f + 3 \<notin> ?A \<union> (entry_words s qs \<union> {f, f + 2} \<union> bytevector_words s v)" using below by fastforce
    moreover have "f \<notin> set (bucket_links ?loc qs)" "f + 2 \<notin> set (bucket_links ?loc qs)" using below by fastforce+
    ultimately show ?thesis using away words unfolding links by blast
  qed
  moreover have "\<forall>a\<in>set (bucket_links ?loc (qs @ [f + 2])) \<union> table_words s \<union> bytevector_words s v \<union> entry_words s2 (qs @ [f + 2]). a < f + 4"
  proof
    fix a assume "a \<in> set (bucket_links ?loc (qs @ [f + 2])) \<union> table_words s \<union> bytevector_words s v \<union> entry_words s2 (qs @ [f + 2])"
    then have "a \<in> {f, f + 2, f + 3} \<or> a \<in> set (bucket_links ?loc qs) \<union> table_words s \<union> bytevector_words s v \<union> entry_words s qs"
      using words unfolding links by blast
    then have "a = f \<or> a = f + 2 \<or> a = f + 3 \<or> a < f" using below by blast
    then show "a < f + 4" by auto
  qed
  ultimately show "symbol_table_ok s2 v (qs @ [f + 2])"
    using path n by (simp only: symbol_table_ok_def bucket_ok_def bytes slot tw vw ob vl s2(1) simp_thms)
qed

theorem string_to_symbol_correct:
  assumes ok: "symbol_table_ok s v ps" and room: "room s 4"
  defines "bs \<equiv> bytevector_bytes s v"
  shows "\<exists>symbol s'. string_to_symbol v s = Some (Inr symbol, s') \<and> INTERNED_SYMBOL_P symbol
    \<and> symbol_bytes s' symbol = bs \<and> bytevector_bytes s' v = bs
    \<and> (if \<exists>p\<in>set ps. named_entry s bs p then (\<exists>p\<in>set ps. named_entry s bs p \<and> symbol = mem s p) \<and> Free s' = Free s
       else OBJECT_ADDRESS symbol = Free s \<and> Free s' = Free s + 4)
    \<and> string_to_symbol v s' = Some (Inr symbol, s')"
proof -
  let ?loc = "bucket_slot s bs" and ?qs = "searched s bs ps"
  from find_symbol_correct [OF ok] obtain s1 where s1:
    "find_symbol_internal (unat (STRING_LENGTH s v)) (STRING_POINTER v) s = Some (Inr (search_result s bs ?loc ps), s1)"
    "s1 = s\<lparr>mem := mem s1\<rparr>" "bucket_path s1 ?loc ?qs"
    "\<forall>a. a \<notin> set (bucket_links ?loc ps) \<longrightarrow> mem s1 a = mem s a"
    unfolding bs_def by blast
  have "distinct ps" using ok by (auto simp: symbol_table_ok_def bucket_ok_def bucket_links_def distinct_map)
  note subset = searched_subset(1) [of s bs ps] searched_subset(2) [OF this, of s bs]
  note state = symbol_table_ok_state [OF ok s1(2) s1(3) [unfolded bs_def] subset [unfolded bs_def] s1(4) [unfolded bs_def], folded bs_def]
  have same: "live_entry s1 p = live_entry s p \<and> named_entry s1 bs p = named_entry s bs p" if "p \<in> set ?qs" for p
    using state(4) subset(1) that by blast
  have slot1: "bucket_slot s1 bs = ?loc" using state(3) unfolding state(2) .
  have again: "searched s1 bs ?qs = ?qs" "search_result s1 bs ?loc ?qs = search_result s bs ?loc ps"
  proof -
    have "searched s1 bs ?qs = searched s bs ?qs" by (rule searched_cong(1)) (rule same)
    then show "searched s1 bs ?qs = ?qs" by (simp only: searched_again(3))
    have "search_result s1 bs ?loc ?qs = search_result s bs ?loc ?qs" by (rule searched_cong(2)) (rule same)
    then show "search_result s1 bs ?loc ?qs = search_result s bs ?loc ps" by (simp only: search_result_def searched_again)
  qed
  have quiet: "\<forall>p\<in>set (takeWhile (\<lambda>p. \<not> named_entry s1 bs p) ?qs). live_entry s1 p"
  proof
    fix p assume *: "p \<in> set (takeWhile (\<lambda>p. \<not> named_entry s1 bs p) ?qs)"
    moreover have "takeWhile (\<lambda>p. \<not> named_entry s1 bs p) ?qs = takeWhile (\<lambda>p. \<not> named_entry s bs p) ?qs"
      using same by (intro takeWhile_cong) auto
    ultimately have "live_entry s p" by (simp add: searched_again)
    moreover have "p \<in> set ?qs" using * set_takeWhileD by metis
    ultimately show "live_entry s1 p" using same by simp
  qed
  show ?thesis
  proof (cases "\<exists>p\<in>set ps. named_entry s bs p")
    case True
    then obtain p where p: "search_result s bs ?loc ps = p" "p \<in> set ?qs" "p \<in> set ps" "named_entry s bs p"
      using search_finds by metis
    have m: "mem s1 p = mem s p" "named_entry s1 bs p" using state(4) p by auto
    have sym: "INTERNED_SYMBOL_P (mem s p)" "symbol_bytes s1 (mem s p) = bs"
      using p m by (auto simp: named_entry_def live_entry_def)
    from find_symbol_correct [OF state(1)] quiet
    have "find_symbol_internal (unat (STRING_LENGTH s1 v)) (STRING_POINTER v) s1 = Some (Inr p, s1)"
      unfolding state(2) slot1 again p(1) by auto
    then have "string_to_symbol v s1 = Some (Inr (mem s p), s1)" using m sym by (simp add: string_to_symbol_def)
    moreover have "string_to_symbol v s = Some (Inr (mem s p), s1)"
      using s1(1) m sym p(1) by (simp add: string_to_symbol_def)
    moreover have "Free s1 = Free s" using arg_cong [OF s1(2), of Free] by simp
    ultimately show ?thesis using True p sym state(2) by (intro exI [of _ "mem s p"] exI [of _ s1]) auto
  next
    case False
    let ?stop = "bucket_end ?loc ?qs"
    have found: "search_result s bs ?loc ps = ?stop" using search_misses [OF False] by simp
    have free1: "Free s1 = Free s" and room1: "room s1 4"
      using arg_cong [OF s1(2), of Free] room by (simp, subst s1(2), simp add: room_def GC_NEEDED_P_def HEAP_AVAILABLE_P_def FREE_OK_P_def GC_ENABLED_P_def)
    from make_symbol_correct [OF room1, of v ?stop] obtain s2 where s2:
      "make_symbol v ?stop s1 = (Inr (MAKE_POINTER_OBJECT TC_INTERNED_SYMBOL (Free s)), s2)" "Free s2 = Free s + 4"
      "fixed_objects s2 = fixed_objects s1"
      "mem s2 = (mem s1)(Free s := v, Free s + 1 := UNBOUND_OBJECT, Free s + 2 := MAKE_POINTER_OBJECT TC_INTERNED_SYMBOL (Free s),
         Free s + 3 := EMPTY_LIST, ?stop := MAKE_POINTER_OBJECT TC_WEAK_CONS (Free s + 2))"
      "INTERNED_SYMBOL_P (MAKE_POINTER_OBJECT TC_INTERNED_SYMBOL (Free s))"
      "OBJECT_ADDRESS (MAKE_POINTER_OBJECT TC_INTERNED_SYMBOL (Free s)) = Free s"
      unfolding free1 by blast
    have addr: "addressable (Free s + 2)" using room by (auto simp: room_def intro: addressable_mono)
    note ext = symbol_table_ok_extend [OF state(1) refl, unfolded free1 state(2) slot1, OF addr s2(2,3,4,5,6)]
    have none: "\<not> named_entry s2 bs p" "live_entry s2 p" if "p \<in> set ?qs" for p
    proof -
      have "p \<in> set ps" "live_entry s p" using that unfolding search_misses(2) [OF False] by auto
      then show "\<not> named_entry s2 bs p" "live_entry s2 p" using ext(3) [OF that] same [OF that] False by auto
    qed
    have "dropWhile (\<lambda>p. \<not> named_entry s2 bs p) (?qs @ [Free s + 2]) = [Free s + 2]"
      "takeWhile (\<lambda>p. \<not> named_entry s2 bs p) (?qs @ [Free s + 2]) = ?qs"
      using none(1) ext(4) by (simp_all add: dropWhile_append2 takeWhile_append2)
    then have "search_result s2 bs ?loc (?qs @ [Free s + 2]) = Free s + 2"
      "\<forall>p\<in>set (takeWhile (\<lambda>p. \<not> named_entry s2 bs p) (?qs @ [Free s + 2])). live_entry s2 p"
      using none(2) by (simp_all add: search_result_def)
    then have "find_symbol_internal (unat (STRING_LENGTH s2 v)) (STRING_POINTER v) s2 = Some (Inr (Free s + 2), s2)"
      using find_symbol_correct [OF ext(1)] unfolding ext(2,6) by auto
    then have "string_to_symbol v s2 = Some (Inr (MAKE_POINTER_OBJECT TC_INTERNED_SYMBOL (Free s)), s2)"
      using ext(5) s2(5) by (simp add: string_to_symbol_def)
    moreover have "string_to_symbol v s = Some (Inr (MAKE_POINTER_OBJECT TC_INTERNED_SYMBOL (Free s)), s2)"
    proof -
      have "mem s1 ?stop = EMPTY_LIST" using s1(3) by (rule bucket_path_end)
      then show ?thesis using s1(1) s2(1) by (simp add: string_to_symbol_def found)
    qed
    moreover have "symbol_bytes s2 (MAKE_POINTER_OBJECT TC_INTERNED_SYMBOL (Free s)) = bs"
      using ext(4,5) by (simp add: named_entry_def)
    ultimately show ?thesis using False s2(2,5,6) ext(2)
      by (intro exI [of _ "MAKE_POINTER_OBJECT TC_INTERNED_SYMBOL (Free s)"] exI [of _ s2]) auto
  qed
qed

end
