(* ===== verification/Lookup_Correct.thy ===== *)
theory Lookup_Correct
  imports Lookup Symbol_Correct
begin

text \<open>
  What a search through a chain of frames finds, which words it depends on, and that a
  variable has the value assigned to it last. \<open>value_cell\<close> is where the value of a binding is
  kept: the cell itself or, when the cell holds a cache, the cache's first word.
\<close>

section \<open>Chains of frames\<close>

primrec env_chain :: "machine \<Rightarrow> ulong \<Rightarrow> ulong list \<Rightarrow> bool" where
  "env_chain s env [] \<longleftrightarrow> False"
| "env_chain s env (f # fs) \<longleftrightarrow> env = f \<and>
     (if fs = [] then GLOBAL_FRAME_P f \<or> PROCEDURE_FRAME_P f \<and> \<not> ENVIRONMENT_P (GET_FRAME_PARENT s f)
      else PROCEDURE_FRAME_P f \<and> ENVIRONMENT_P (GET_FRAME_PARENT s f) \<and> env_chain s (GET_FRAME_PARENT s f) fs)"

text \<open>The cell of a symbol in one frame, and in the first frame that binds it.\<close>

definition frame_cell :: "machine \<Rightarrow> ulong \<Rightarrow> ulong \<Rightarrow> bool \<Rightarrow> nat option" where
  "frame_cell s f symbol find_unbound_p =
     (if PROCEDURE_FRAME_P f
      then (if EXTENDED_FRAME_P s f
            then (case scan_bindings (GET_EXTENDED_FRAME_LENGTH s f) (GET_EXTENDED_FRAME_BINDINGS s f) symbol s of
                    Some cell \<Rightarrow> Some cell
                  | None \<Rightarrow> scan_procedure_bindings (GET_EXTENDED_FRAME_PROCEDURE s f) f symbol find_unbound_p s)
            else scan_procedure_bindings (GET_FRAME_PROCEDURE s f) f symbol find_unbound_p s)
      else Some (OBJECT_ADDRESS symbol + SYMBOL_GLOBAL_VALUE))"

primrec first_cell :: "machine \<Rightarrow> ulong \<Rightarrow> ulong list \<Rightarrow> nat option" where
  "first_cell s symbol [] = None"
| "first_cell s symbol (f # fs) = (case frame_cell s f symbol False of Some cell \<Rightarrow> Some cell | None \<Rightarrow> first_cell s symbol fs)"

lemma global_frame [simp]:
  "GLOBAL_FRAME_P f \<Longrightarrow> \<not> PROCEDURE_FRAME_P f" "GLOBAL_FRAME_P f \<Longrightarrow> ENVIRONMENT_P f" "PROCEDURE_FRAME_P f \<Longrightarrow> ENVIRONMENT_P f"
  by (auto simp: GLOBAL_FRAME_P_def PROCEDURE_FRAME_P_def ENVIRONMENT_P_def THE_GLOBAL_ENV_def)

lemma NULL_FRAME_not_ENVIRONMENT: "NULL_FRAME_P f \<Longrightarrow> \<not> ENVIRONMENT_P f"
proof -
  have "\<not> ENVIRONMENT_P THE_NULL_ENV" by code_simp
  then show "NULL_FRAME_P f \<Longrightarrow> \<not> ENVIRONMENT_P f" by (simp add: NULL_FRAME_P_def)
qed

lemma scan_frame_cell:
  "PROCEDURE_FRAME_P f \<or> GLOBAL_FRAME_P f \<Longrightarrow> scan_frame f symbol find_unbound_p s = (Inr (frame_cell s f symbol find_unbound_p), s)"
  by (auto simp: scan_frame_def frame_cell_def split: option.splits)

lemma env_chain_ENVIRONMENT: "env_chain s env fs \<Longrightarrow> ENVIRONMENT_P env"
  by (cases fs) (auto split: if_splits)

text \<open>A search through a chain returns the cell of the innermost binding and leaves the machine alone.\<close>

lemma find_cell_loop:
  "env_chain s env fs \<Longrightarrow> \<exists>f\<in>set fs. loop (find_cell_step symbol) env s = Some (Inr (first_cell s symbol fs, f), s)
     \<and> (first_cell s symbol fs \<noteq> None \<longrightarrow> frame_cell s f symbol False = first_cell s symbol fs)"
proof (induction fs arbitrary: env)
  case (Cons f fs)
  have f: "env = f" "PROCEDURE_FRAME_P f \<or> GLOBAL_FRAME_P f" using Cons.prems by (auto split: if_splits)
  have step: "find_cell_step symbol f s =
      (if frame_cell s f symbol False \<noteq> None \<or> \<not> ENVIRONMENT_P (GET_FRAME_PARENT s f)
       then Some (Inr (Inl (frame_cell s f symbol False, f)), s) else Some (Inr (Inr (GET_FRAME_PARENT s f)), s))"
    using f(2) by (auto simp: find_cell_step_def scan_frame_cell)
  show ?case
  proof (cases "frame_cell s f symbol False \<noteq> None \<or> fs = []")
    case True
    have "frame_cell s f symbol False \<noteq> None \<or> \<not> ENVIRONMENT_P (GET_FRAME_PARENT s f)"
      using True Cons.prems by (auto simp: frame_cell_def split: if_splits)
    then have "loop (find_cell_step symbol) env s = Some (Inr (frame_cell s f symbol False, f), s)"
      using step f(1) by (intro loop_simps(1)) simp
    then show ?thesis using True by (auto split: option.splits)
  next
    case False
    then have "env_chain s (GET_FRAME_PARENT s f) fs" "ENVIRONMENT_P (GET_FRAME_PARENT s f)" using Cons.prems by auto
    moreover have "loop (find_cell_step symbol) env s = loop (find_cell_step symbol) (GET_FRAME_PARENT s f) s"
      using step f(1) False calculation(2) by (intro loop_simps(2)) simp
    ultimately show ?thesis using Cons.IH False by auto
  qed
qed simp

theorem find_binding_cell_innermost:
  assumes "env_chain s env fs"
  shows "\<exists>f\<in>set fs. find_binding_cell env symbol s = Some (Inr (first_cell s symbol fs, f), s)
     \<and> (first_cell s symbol fs \<noteq> None \<longrightarrow> frame_cell s f symbol False = first_cell s symbol fs)"
  using find_cell_loop [OF assms] env_chain_ENVIRONMENT [OF assms] NULL_FRAME_not_ENVIRONMENT
  by (auto simp: find_binding_cell_def)

section \<open>The words a search depends on\<close>

definition procedure_words :: "machine \<Rightarrow> ulong \<Rightarrow> nat set" where
  "procedure_words s p =
     (let lambda = GET_PROCEDURE_LAMBDA s p
      in {OBJECT_ADDRESS p, OBJECT_ADDRESS p + 1, OBJECT_ADDRESS lambda + 1, OBJECT_ADDRESS (GET_LAMBDA_FORMALS s lambda)}
         \<union> {GET_LAMBDA_PARAMETERS s lambda + i | i. i < GET_LAMBDA_N_PARAMETERS s lambda})"

definition frame_words :: "machine \<Rightarrow> ulong \<Rightarrow> nat set" where
  "frame_words s f =
     insert (OBJECT_ADDRESS f + 1)
       (if EXTENDED_FRAME_P s f
        then (let e = GET_FRAME_PROCEDURE s f
              in {OBJECT_ADDRESS e + 1, OBJECT_ADDRESS e + 2, OBJECT_ADDRESS e + 3}
                 \<union> {GET_FRAME_EXTENSION_BINDINGS e + i | i. i < GET_FRAME_EXTENSION_LENGTH s e}
                 \<union> {OBJECT_ADDRESS (mem s (GET_FRAME_EXTENSION_BINDINGS e + i)) | i. i < GET_FRAME_EXTENSION_LENGTH s e}
                 \<union> procedure_words s (GET_EXTENDED_FRAME_PROCEDURE s f))
        else procedure_words s (GET_FRAME_PROCEDURE s f))"

definition argument_cells :: "machine \<Rightarrow> ulong \<Rightarrow> ulong \<Rightarrow> nat set" where
  "argument_cells s f symbol =
     (let lambda = GET_PROCEDURE_LAMBDA s (if EXTENDED_FRAME_P s f then GET_EXTENDED_FRAME_PROCEDURE s f else GET_FRAME_PROCEDURE s f)
      in {GET_FRAME_ARG_CELL f i | i. i < GET_LAMBDA_N_PARAMETERS s lambda \<and> mem s (GET_LAMBDA_PARAMETERS s lambda + i) = symbol})"

text \<open>Machines with the same structure of frames, and the same arguments unbound.\<close>

definition same_bindings :: "ulong \<Rightarrow> ulong list \<Rightarrow> machine \<Rightarrow> machine \<Rightarrow> bool" where
  "same_bindings symbol fs s s' \<longleftrightarrow>
     (\<forall>f\<in>set fs. PROCEDURE_FRAME_P f \<longrightarrow> agree (frame_words s f) s s'
        \<and> (\<forall>c\<in>argument_cells s f symbol. mem s c = UNBOUND_OBJECT \<longleftrightarrow> mem s' c = UNBOUND_OBJECT))"

lemma procedure_words_agree:
  assumes "agree (procedure_words s p) s s'"
  shows "GET_PROCEDURE_LAMBDA s' p = GET_PROCEDURE_LAMBDA s p" "GET_PROCEDURE_ENVIRONMENT s' p = GET_PROCEDURE_ENVIRONMENT s p"
    "GET_LAMBDA_PARAMETERS s' (GET_PROCEDURE_LAMBDA s p) = GET_LAMBDA_PARAMETERS s (GET_PROCEDURE_LAMBDA s p)"
    "GET_LAMBDA_N_PARAMETERS s' (GET_PROCEDURE_LAMBDA s p) = GET_LAMBDA_N_PARAMETERS s (GET_PROCEDURE_LAMBDA s p)"
    "i < GET_LAMBDA_N_PARAMETERS s (GET_PROCEDURE_LAMBDA s p) \<Longrightarrow>
       mem s' (GET_LAMBDA_PARAMETERS s (GET_PROCEDURE_LAMBDA s p) + i) = mem s (GET_LAMBDA_PARAMETERS s (GET_PROCEDURE_LAMBDA s p) + i)"
proof -
  let ?l = "GET_PROCEDURE_LAMBDA s p"
  have w: "mem s' (OBJECT_ADDRESS p) = mem s (OBJECT_ADDRESS p)" "mem s' (OBJECT_ADDRESS p + 1) = mem s (OBJECT_ADDRESS p + 1)"
    "mem s' (OBJECT_ADDRESS ?l + 1) = mem s (OBJECT_ADDRESS ?l + 1)"
    "mem s' (OBJECT_ADDRESS (GET_LAMBDA_FORMALS s ?l)) = mem s (OBJECT_ADDRESS (GET_LAMBDA_FORMALS s ?l))"
    using assms by (simp_all add: agree_def procedure_words_def Let_def)
  show "GET_PROCEDURE_LAMBDA s' p = ?l" "GET_PROCEDURE_ENVIRONMENT s' p = GET_PROCEDURE_ENVIRONMENT s p"
    using w by (simp_all add: GET_PROCEDURE_LAMBDA_def GET_PROCEDURE_ENVIRONMENT_def MEMORY_REF_def)
  have f: "GET_LAMBDA_FORMALS s' ?l = GET_LAMBDA_FORMALS s ?l" using w(3) by (simp add: GET_LAMBDA_FORMALS_def MEMORY_REF_def)
  then show "GET_LAMBDA_PARAMETERS s' ?l = GET_LAMBDA_PARAMETERS s ?l" "GET_LAMBDA_N_PARAMETERS s' ?l = GET_LAMBDA_N_PARAMETERS s ?l"
    using w(4) by (simp_all add: GET_LAMBDA_PARAMETERS_def GET_LAMBDA_N_PARAMETERS_def VECTOR_LENGTH_def MEMORY_REF_def)
  show "i < GET_LAMBDA_N_PARAMETERS s ?l \<Longrightarrow> mem s' (GET_LAMBDA_PARAMETERS s ?l + i) = mem s (GET_LAMBDA_PARAMETERS s ?l + i)"
    using assms by (auto simp: agree_def procedure_words_def Let_def)
qed

lemma scan_parameters_cong:
  assumes "\<And>k. k < n \<Longrightarrow> mem s' (scan + k) = mem s (scan + k)"
    and "\<And>k. k < n \<Longrightarrow> mem s (scan + k) = symbol \<Longrightarrow>
      mem s (GET_FRAME_ARG_CELL f (i + k)) = UNBOUND_OBJECT \<longleftrightarrow> mem s' (GET_FRAME_ARG_CELL f (i + k)) = UNBOUND_OBJECT"
  shows "scan_parameters n scan f symbol i b s' = scan_parameters n scan f symbol i b s"
  using assms
proof (induction n arbitrary: scan i)
  case (Suc n)
  have "scan_parameters n (scan + 1) f symbol (i + 1) b s' = scan_parameters n (scan + 1) f symbol (i + 1) b s"
    by (rule Suc.IH) (use Suc.prems(1) [of "Suc _"] Suc.prems(2) [of "Suc _"] in auto)
  then show ?case using Suc.prems(1) [of 0] Suc.prems(2) [of 0] by (auto simp: Let_def)
qed simp

lemma scan_bindings_cong:
  assumes "\<And>k. k < n \<Longrightarrow> mem s' (scan + k) = mem s (scan + k)"
    and "\<And>k. k < n \<Longrightarrow> mem s' (OBJECT_ADDRESS (mem s (scan + k))) = mem s (OBJECT_ADDRESS (mem s (scan + k)))"
  shows "scan_bindings n scan symbol s' = scan_bindings n scan symbol s"
  using assms
proof (induction n arbitrary: scan)
  case (Suc n)
  have "scan_bindings n (scan + 1) symbol s' = scan_bindings n (scan + 1) symbol s"
    by (rule Suc.IH) (use Suc.prems(1) [of "Suc _"] Suc.prems(2) [of "Suc _"] in auto)
  then show ?case using Suc.prems(1) [of 0] Suc.prems(2) [of 0] by (auto simp: PAIR_CAR_def MEMORY_REF_def)
qed simp

lemma scan_procedure_bindings_cong:
  assumes "agree (procedure_words s p) s s'"
    and "b \<or> (\<forall>i < GET_LAMBDA_N_PARAMETERS s (GET_PROCEDURE_LAMBDA s p).
      mem s (GET_LAMBDA_PARAMETERS s (GET_PROCEDURE_LAMBDA s p) + i) = symbol \<longrightarrow>
      (mem s (GET_FRAME_ARG_CELL f i) = UNBOUND_OBJECT \<longleftrightarrow> mem s' (GET_FRAME_ARG_CELL f i) = UNBOUND_OBJECT))"
  shows "scan_procedure_bindings p f symbol b s' = scan_procedure_bindings p f symbol b s"
proof (cases b)
  case False
  then show ?thesis using assms(2)
    by (auto simp: scan_procedure_bindings_def Let_def procedure_words_agree [OF assms(1)] intro!: scan_parameters_cong)
next
  case True
  have "scan_parameters n scan f symbol i True s' = scan_parameters n scan f symbol i True s"
    if "\<And>k. k < n \<Longrightarrow> mem s' (scan + k) = mem s (scan + k)" for n scan i
    using that
  proof (induction n arbitrary: scan i)
    case (Suc n)
    have "scan_parameters n (scan + 1) f symbol (i + 1) True s' = scan_parameters n (scan + 1) f symbol (i + 1) True s"
      by (rule Suc.IH) (use Suc.prems [of "Suc _"] in auto)
    then show ?case using Suc.prems [of 0] by (auto simp: Let_def)
  qed simp
  then show ?thesis using True by (simp add: scan_procedure_bindings_def Let_def procedure_words_agree [OF assms(1)])
qed

lemma frame_cell_cong:
  assumes "agree (frame_words s f) s s'" "PROCEDURE_FRAME_P f"
  shows "b \<or> (\<forall>c\<in>argument_cells s f symbol. mem s c = UNBOUND_OBJECT \<longleftrightarrow> mem s' c = UNBOUND_OBJECT) \<Longrightarrow>
      frame_cell s' f symbol b = frame_cell s f symbol b"
    "GET_FRAME_PARENT s' f = GET_FRAME_PARENT s f" "EXTENDED_FRAME_P s' f = EXTENDED_FRAME_P s f"
proof -
  have fp: "GET_FRAME_PROCEDURE s' f = GET_FRAME_PROCEDURE s f"
    using assms(1) by (simp add: agree_def frame_words_def GET_FRAME_PROCEDURE_def MEMORY_REF_def)
  then show ext: "EXTENDED_FRAME_P s' f = EXTENDED_FRAME_P s f" by (simp add: EXTENDED_FRAME_P_def)
  let ?e = "GET_FRAME_PROCEDURE s f"
  have "OBJECT_ADDRESS ?e + 1 \<in> frame_words s f" by (simp add: frame_words_def procedure_words_def Let_def)
  then have "mem s' (OBJECT_ADDRESS ?e + 1) = mem s (OBJECT_ADDRESS ?e + 1)" using assms(1) unfolding agree_def by metis
  then show "GET_FRAME_PARENT s' f = GET_FRAME_PARENT s f"
    by (simp add: GET_FRAME_PARENT_def fp GET_PROCEDURE_ENVIRONMENT_def MEMORY_REF_def)
  assume args: "b \<or> (\<forall>c\<in>argument_cells s f symbol. mem s c = UNBOUND_OBJECT \<longleftrightarrow> mem s' c = UNBOUND_OBJECT)"
  show "frame_cell s' f symbol b = frame_cell s f symbol b"
  proof (cases "EXTENDED_FRAME_P s f")
    case False
    then have "agree (procedure_words s ?e) s s'" using assms(1) by (auto simp: frame_words_def agree_def)
    then have "scan_procedure_bindings ?e f symbol b s' = scan_procedure_bindings ?e f symbol b s"
      by (rule scan_procedure_bindings_cong) (use args False in \<open>auto simp: argument_cells_def Let_def\<close>)
    then show ?thesis using False ext assms(2) by (simp add: frame_cell_def fp)
  next
    case True
    let ?n = "GET_FRAME_EXTENSION_LENGTH s ?e" and ?p = "GET_EXTENDED_FRAME_PROCEDURE s f"
    have w: "agree (procedure_words s ?p) s s'" "mem s' (OBJECT_ADDRESS ?e + 2) = mem s (OBJECT_ADDRESS ?e + 2)"
      "mem s' (OBJECT_ADDRESS ?e + 3) = mem s (OBJECT_ADDRESS ?e + 3)"
    proof -
      have m: "OBJECT_ADDRESS ?e + 2 \<in> frame_words s f" "OBJECT_ADDRESS ?e + 3 \<in> frame_words s f" "procedure_words s ?p \<subseteq> frame_words s f"
        using True unfolding frame_words_def Let_def by auto
      show "agree (procedure_words s ?p) s s'" using assms(1) m(3) by (rule agree_mono)
      show "mem s' (OBJECT_ADDRESS ?e + 2) = mem s (OBJECT_ADDRESS ?e + 2)" "mem s' (OBJECT_ADDRESS ?e + 3) = mem s (OBJECT_ADDRESS ?e + 3)"
        using assms(1) m(1,2) unfolding agree_def by metis+
    qed
    have e: "GET_EXTENDED_FRAME_PROCEDURE s' f = ?p" "GET_EXTENDED_FRAME_LENGTH s' f = GET_EXTENDED_FRAME_LENGTH s f"
      "GET_EXTENDED_FRAME_BINDINGS s' f = GET_EXTENDED_FRAME_BINDINGS s f"
      using w(2,3) by (simp_all add: GET_EXTENDED_FRAME_PROCEDURE_def GET_EXTENDED_FRAME_LENGTH_def GET_FRAME_EXTENSION_LENGTH_def
          GET_EXTENDED_FRAME_BINDINGS_def fp MEMORY_REF_def)
    have "scan_procedure_bindings ?p f symbol b s' = scan_procedure_bindings ?p f symbol b s"
      by (rule scan_procedure_bindings_cong [OF w(1)]) (use args True in \<open>auto simp: argument_cells_def Let_def\<close>)
    moreover have "scan_bindings (GET_EXTENDED_FRAME_LENGTH s f) (GET_EXTENDED_FRAME_BINDINGS s f) symbol s'
        = scan_bindings (GET_EXTENDED_FRAME_LENGTH s f) (GET_EXTENDED_FRAME_BINDINGS s f) symbol s"
    proof (rule scan_bindings_cong)
      fix k assume "k < GET_EXTENDED_FRAME_LENGTH s f"
      then have "GET_EXTENDED_FRAME_BINDINGS s f + k \<in> frame_words s f"
        "OBJECT_ADDRESS (mem s (GET_EXTENDED_FRAME_BINDINGS s f + k)) \<in> frame_words s f"
        using True unfolding frame_words_def Let_def GET_EXTENDED_FRAME_LENGTH_def GET_EXTENDED_FRAME_BINDINGS_def by auto
      then show "mem s' (GET_EXTENDED_FRAME_BINDINGS s f + k) = mem s (GET_EXTENDED_FRAME_BINDINGS s f + k)"
        "mem s' (OBJECT_ADDRESS (mem s (GET_EXTENDED_FRAME_BINDINGS s f + k))) = mem s (OBJECT_ADDRESS (mem s (GET_EXTENDED_FRAME_BINDINGS s f + k)))"
        using assms(1) unfolding agree_def by metis+
    qed
    ultimately show ?thesis using True ext assms(2) by (simp add: frame_cell_def e split: option.split)
  qed
qed

lemma same_bindings_cong:
  assumes "same_bindings symbol fs s s'"
  shows "env_chain s env fs \<Longrightarrow> env_chain s' env fs" "first_cell s' symbol fs = first_cell s symbol fs"
proof -
  have parent: "PROCEDURE_FRAME_P f \<Longrightarrow> GET_FRAME_PARENT s' f = GET_FRAME_PARENT s f" if "f \<in> set fs" for f
    using frame_cell_cong(2) assms that unfolding same_bindings_def by blast
  have one: "frame_cell s' f symbol False = frame_cell s f symbol False" if "f \<in> set fs" for f
  proof (cases "PROCEDURE_FRAME_P f")
    case True
    then show ?thesis using frame_cell_cong(1) assms that unfolding same_bindings_def by blast
  qed (simp add: frame_cell_def)
  show "env_chain s env fs \<Longrightarrow> env_chain s' env fs"
    using parent by (induction fs arbitrary: env) (auto split: if_splits)
  show "first_cell s' symbol fs = first_cell s symbol fs" using one by (induction fs) (auto split: option.split)
qed

section \<open>Values\<close>

definition value_cell :: "machine \<Rightarrow> nat \<Rightarrow> nat" where
  "value_cell s c = (if get_trap_kind s (mem s c) = TRAP_COMPILER_CACHED then OBJECT_ADDRESS (GET_TRAP_CACHE s (mem s c)) else c)"

text \<open>The words of the trap a cell holds, if it is not an immediate one.\<close>

definition trap_words :: "machine \<Rightarrow> nat \<Rightarrow> nat set" where
  "trap_words s c =
     (if REFERENCE_TRAP_P (mem s c) \<and> OBJECT_DATUM (mem s c) > TRAP_MAX_IMMEDIATE
      then {OBJECT_ADDRESS (mem s c), OBJECT_ADDRESS (mem s c) + 1} else {})"

definition value_result :: "machine \<Rightarrow> ulong \<Rightarrow> int \<times> ulong option" where
  "value_result s v =
     (let k = get_trap_kind s v
      in if k = NON_TRAP_KIND then (PRIM_DONE, Some v)
         else if k = TRAP_UNASSIGNED then (ERR_UNASSIGNED_VARIABLE, None)
         else if k = TRAP_UNBOUND then (ERR_UNBOUND_VARIABLE, None)
         else if k = TRAP_MACRO then (ERR_MACRO_BINDING, Some v)
         else (ERR_ILLEGAL_REFERENCE_TRAP, None))"

theorem lookup_variable_correct:
  assumes "env_chain s env fs" "SYMBOL_P symbol"
  shows "lookup_variable env symbol s =
    Some (Inr (case first_cell s symbol fs of None \<Rightarrow> (ERR_UNBOUND_VARIABLE, None) | Some c \<Rightarrow> value_result s (mem s (value_cell s c))), s)"
proof -
  obtain f where find: "find_binding_cell env symbol s = Some (Inr (first_cell s symbol fs, f), s)"
    using find_binding_cell_innermost [OF assms(1)] by blast
  have env: "ENVIRONMENT_P env" using assms(1) by (rule env_chain_ENVIRONMENT)
  show ?thesis
  proof (cases "first_cell s symbol fs")
    case None
    then show ?thesis using find env assms(2) by (simp add: lookup_variable_def)
  next
    case (Some c)
    show ?thesis
    proof (cases "get_trap_kind s (mem s c) = TRAP_COMPILER_CACHED")
      case True
      then show ?thesis using find env assms(2) Some
        by (simp add: lookup_variable_def lookup_variable_cache_def value_cell_def value_result_def Let_def GET_CACHE_VALUE_def MEMORY_REF_def)
    next
      case False
      then show ?thesis using find env assms(2) Some
        by (simp add: lookup_variable_def value_cell_def value_result_def Let_def)
    qed
  qed
qed

text \<open>An assignment succeeds on a variable that has a value or is unassigned, and writes its value cell only.\<close>

definition assign_result :: "machine \<Rightarrow> ulong \<Rightarrow> int \<times> ulong option" where
  "assign_result s old =
     (let k = get_trap_kind s old
      in if k = NON_TRAP_KIND \<or> k = TRAP_UNASSIGNED then (PRIM_DONE, Some (MAP_FROM_UNASSIGNED s old))
         else if k = TRAP_UNBOUND then (ERR_UNBOUND_VARIABLE, None)
         else if k = TRAP_MACRO then (ERR_MACRO_BINDING, None)
         else (ERR_ILLEGAL_REFERENCE_TRAP, None))"

theorem assign_variable_correct:
  assumes "env_chain s env fs" "first_cell s symbol fs = Some c"
  defines "a \<equiv> value_cell s c"
  shows "assign_variable env symbol v s =
    Some (Inr (assign_result s (mem s a)),
      if fst (assign_result s (mem s a)) = PRIM_DONE then write_word a (MAP_TO_UNASSIGNED s v) s else s)"
proof -
  obtain f where find: "find_binding_cell env symbol s = Some (Inr (Some c, f), s)"
    using find_binding_cell_innermost [OF assms(1), of symbol] assms(2) by auto
  have env: "ENVIRONMENT_P env" using assms(1) by (rule env_chain_ENVIRONMENT)
  show ?thesis
  proof (cases "get_trap_kind s (mem s c) = TRAP_COMPILER_CACHED")
    case True
    then show ?thesis using find env
      by (simp add: assign_variable_def assign_variable_end_def assign_variable_cache_def a_def value_cell_def assign_result_def Let_def
          GET_CACHE_VALUE_def SET_CACHE_VALUE_def MEMORY_REF_def MEMORY_SET_def)
  next
    case False
    then show ?thesis using find env
      by (simp add: assign_variable_def assign_variable_end_def a_def value_cell_def assign_result_def Let_def)
  qed
qed

lemma UNBOUND_kind: "get_trap_kind s UNBOUND_OBJECT = TRAP_UNBOUND" "get_trap_kind s UNASSIGNED_OBJECT = TRAP_UNASSIGNED"
  "UNASSIGNED_OBJECT \<noteq> UNBOUND_OBJECT"
proof -
  have "REFERENCE_TRAP_P UNBOUND_OBJECT" "OBJECT_DATUM UNBOUND_OBJECT = 2" "REFERENCE_TRAP_P UNASSIGNED_OBJECT"
    "OBJECT_DATUM UNASSIGNED_OBJECT = 0" by code_simp+
  then show "get_trap_kind s UNBOUND_OBJECT = TRAP_UNBOUND" "get_trap_kind s UNASSIGNED_OBJECT = TRAP_UNASSIGNED"
    "UNASSIGNED_OBJECT \<noteq> UNBOUND_OBJECT" by (auto simp: get_trap_kind_def TRAP_MAX_IMMEDIATE_def)
qed

definition frames_words :: "machine \<Rightarrow> ulong list \<Rightarrow> nat set" where
  "frames_words s fs = (\<Union>f\<in>{f \<in> set fs. PROCEDURE_FRAME_P f}. frame_words s f)"

lemma same_bindings_write:
  assumes "a \<notin> frames_words s fs" "mem s a \<noteq> UNBOUND_OBJECT" "w \<noteq> UNBOUND_OBJECT"
  shows "same_bindings symbol fs s (write_word a w s)"
  unfolding same_bindings_def
proof (intro ballI impI conjI)
  fix f assume "f \<in> set fs" "PROCEDURE_FRAME_P f"
  then show "agree (frame_words s f) s (write_word a w s)" using assms(1) by (intro agree_write) (auto simp: frames_words_def)
next
  fix f c
  show "mem s c = UNBOUND_OBJECT \<longleftrightarrow> mem (write_word a w s) c = UNBOUND_OBJECT" using assms(2,3) by simp
qed

lemma get_trap_kind_write:
  "a \<notin> trap_words s c \<Longrightarrow> get_trap_kind (write_word a w s) (mem s c) = get_trap_kind s (mem s c)"
  by (cases "TRAP_MAX_IMMEDIATE < OBJECT_DATUM (mem s c)") (auto simp: get_trap_kind_def trap_words_def MEMORY_REF_def)

lemma value_cell_write:
  assumes "a \<notin> trap_words s c" "c = a \<Longrightarrow> get_trap_kind s (mem s a) \<noteq> TRAP_COMPILER_CACHED"
    "c = a \<Longrightarrow> get_trap_kind (write_word a w s) w \<noteq> TRAP_COMPILER_CACHED"
  shows "value_cell (write_word a w s) c = value_cell s c"
proof (cases "c = a")
  case True
  then show ?thesis using assms(2,3) by (simp add: value_cell_def)
next
  case False
  note k = get_trap_kind_write [OF assms(1), of w]
  have "GET_TRAP_CACHE (write_word a w s) (mem s c) = GET_TRAP_CACHE s (mem s c)" if "get_trap_kind s (mem s c) = TRAP_COMPILER_CACHED"
    using assms(1) that by (auto simp: GET_TRAP_CACHE_def MEMORY_REF_def trap_words_def get_trap_kind_def TRAP_MAX_IMMEDIATE_def split: if_splits)
  then show ?thesis using False k by (simp add: value_cell_def)
qed

text \<open>
  After an assignment every variable whose value is in the assigned cell, also one linked to it, has the
  new value, and every other variable its old one.
\<close>

theorem lookup_after_assignment:
  assumes chain: "env_chain s env fs" "first_cell s symbol fs = Some c" and a: "a = value_cell s c"
    and assigned: "assign_variable env symbol v s = Some (Inr (PRIM_DONE, old), s')" and v: "\<not> REFERENCE_TRAP_P v"
    and chain2: "env_chain s env2 fs2" "first_cell s symbol2 fs2 = Some c2" "SYMBOL_P symbol2"
    and apart: "a \<notin> frames_words s fs2" "a \<notin> trap_words s c2" "a \<noteq> value_cell s c2 \<Longrightarrow> a \<notin> trap_words s (value_cell s c2)"
  shows "lookup_variable env2 symbol2 s' = Some (Inr
      (if value_cell s c2 \<noteq> a then value_result s (mem s (value_cell s c2))
       else if v = EXTERNAL_UNASSIGNED_OBJECT s then (ERR_UNASSIGNED_VARIABLE, None) else (PRIM_DONE, Some v)), s')"
proof -
  let ?w = "MAP_TO_UNASSIGNED s v"
  have r: "fst (assign_result s (mem s a)) = PRIM_DONE" and s': "s' = write_word a ?w s"
    using assign_variable_correct [OF chain] assigned a by (auto split: if_splits)
  have old: "get_trap_kind s (mem s a) = NON_TRAP_KIND \<or> get_trap_kind s (mem s a) = TRAP_UNASSIGNED"
    using r by (auto simp: assign_result_def Let_def split: if_splits)
  have new: "value_result s'' ?w = (if v = EXTERNAL_UNASSIGNED_OBJECT s then (ERR_UNASSIGNED_VARIABLE, None) else (PRIM_DONE, Some v))"
    "get_trap_kind s'' ?w \<noteq> TRAP_COMPILER_CACHED" "get_trap_kind s'' ?w \<noteq> TRAP_UNBOUND" for s''
  proof -
    have "get_trap_kind s'' v = NON_TRAP_KIND" using v by (simp add: get_trap_kind_def)
    then show "value_result s'' ?w = (if v = EXTERNAL_UNASSIGNED_OBJECT s then (ERR_UNASSIGNED_VARIABLE, None) else (PRIM_DONE, Some v))"
      "get_trap_kind s'' ?w \<noteq> TRAP_COMPILER_CACHED" "get_trap_kind s'' ?w \<noteq> TRAP_UNBOUND"
      using UNBOUND_kind(2) [of s''] by (simp_all add: MAP_TO_UNASSIGNED_def value_result_def Let_def)
  qed
  have "mem s a \<noteq> UNBOUND_OBJECT" "?w \<noteq> UNBOUND_OBJECT"
    using old new(3) [of s] UNBOUND_kind(1) [of s] by auto
  then have "same_bindings symbol2 fs2 s s'" unfolding s' by (rule same_bindings_write [OF apart(1)])
  note same = same_bindings_cong [OF this]
  have cell: "value_cell s' c2 = value_cell s c2"
    unfolding s' by (rule value_cell_write [OF apart(2)]) (use old new(2) in auto)
  have "value_result s' (mem s' (value_cell s c2)) = value_result s (mem s (value_cell s c2))" if "value_cell s c2 \<noteq> a"
    using get_trap_kind_write [OF apart(3), of ?w] that by (simp add: s' value_result_def)
  then have other: "value_result s' (mem s' (value_cell s c2)) = (if value_cell s c2 \<noteq> a then value_result s (mem s (value_cell s c2))
      else if v = EXTERNAL_UNASSIGNED_OBJECT s then (ERR_UNASSIGNED_VARIABLE, None) else (PRIM_DONE, Some v))"
    using new(1) [of s'] by (cases "value_cell s c2 = a") (simp_all add: s' del: new)
  show ?thesis
    using lookup_variable_correct [OF same(1) [OF chain2(1)] chain2(3)] by (simp only: same(2) chain2(2) cell option.case other)
qed

end
