(* ===== verification/Interp_Facts.thy ===== *)
theory Interp_Facts
  imports Control_Prims Lookup_Correct
begin

text \<open>
  What the operations of the interpreter do to its registers, its stack and its memory, for use
  by the simplifier, and runs of the interpreter. Memories are compared outside a set of hidden
  words, the stack and the history; the operations on the history write hidden words only and
  keep its links.
\<close>

section \<open>Runs\<close>

inductive reaches :: "primitives \<Rightarrow> label \<times> interp \<Rightarrow> label \<times> interp \<Rightarrow> bool" for tbl where
  reaches_refl: "reaches tbl c c"
| reaches_step: "step tbl l s = Some (Inr l', s') \<Longrightarrow> reaches tbl (l', s') c \<Longrightarrow> reaches tbl (l, s) c"

lemma reaches_trans: "reaches tbl a b \<Longrightarrow> reaches tbl b c \<Longrightarrow> reaches tbl a c"
  by (induction rule: reaches.induct) (auto intro: reaches_step)

lemma step_deliver: "interpret_at tbl l s = Some (Inr l', s') \<Longrightarrow> step tbl l s = Some (Inr l', s')"
  by (simp add: step_def)

lemma reaches_one: "interpret_at tbl l s = Some (Inr l', s') \<Longrightarrow> reaches tbl (l', s') c \<Longrightarrow> reaches tbl (l, s) c"
  by (rule reaches_step [OF step_deliver])

lemma reaches_Interpret_loop:
  assumes "reaches tbl c c'"
  shows "Interpret_loop tbl (fst c) (snd c) = Interpret_loop tbl (fst c') (snd c')"
  using assms
proof (induction rule: reaches.induct)
  case (reaches_step l s l' s' c)
  show ?case
  proof (cases "l = Interpret_Returns")
    case True
    then have "l' = Interpret_Returns \<and> s' = s" using reaches_step(1) by (simp add: step_def goto_def deliver_def)
    then show ?thesis using reaches_step(3) True by simp
  next
    case False
    then show ?thesis using reaches_step(1,3) Interpret_loop.simps [of tbl l s] by simp
  qed
qed simp

section \<open>Code\<close>

lemma code_simps [simp]:
  "deliver r s = Some (Inr r, s)" "leave q s = Some (Inl q, s)" "doing f k s = k (f s)"
  "doing_all [] k s = k s" "doing_all (f # fs) k s = doing_all fs k (f s)" "goto l s = Some (Inr l, s)"
  "ASSERT True k = k" "calling (returnp a) kk s = kk a s"
  by (simp_all add: deliver_def leave_def doing_def doing_all_def goto_def ASSERT_def calling_def)

lemma calling_simps:
  "p (memory s) = Some (Inr a, m) \<Longrightarrow> calling p k s = k a (s\<lparr>memory := m\<rparr>)"
  "p (memory s) = Some (Inl e, m) \<Longrightarrow> calling p k s = Some (Inl (outcome_of e), s\<lparr>memory := m\<rparr>)"
  "p (memory s) = None \<Longrightarrow> calling p k s = None"
  by (simp_all add: calling_def)

lemma STACK_CHECK_ok [simp]: "CAN_PUSH_P s n \<Longrightarrow> STACK_CHECK n k s = k s" "CAN_PUSH_P s n \<Longrightarrow> Will_Push n k s = k s"
  by (simp_all add: STACK_CHECK_def Will_Push_def)

section \<open>Registers\<close>

lemmas register_defs = SET_VAL_def SET_ENV_def SET_EXP_def SET_RET_def SET_RC_def SET_PRIMITIVE_def SET_LEXPR_ACTUALS_def

lemma setter_simps [simp]:
  "reg_val (SET_VAL v s) = v" "reg_env (SET_VAL v s) = reg_env s" "reg_exp (SET_VAL v s) = reg_exp s" "reg_ret (SET_VAL v s) = reg_ret s"
  "reg_val (SET_ENV v s) = reg_val s" "reg_env (SET_ENV v s) = v" "reg_exp (SET_ENV v s) = reg_exp s" "reg_ret (SET_ENV v s) = reg_ret s"
  "reg_val (SET_EXP v s) = reg_val s" "reg_env (SET_EXP v s) = reg_env s" "reg_exp (SET_EXP v s) = v" "reg_ret (SET_EXP v s) = reg_ret s"
  "reg_val (SET_RET v s) = reg_val s" "reg_env (SET_RET v s) = reg_env s" "reg_exp (SET_RET v s) = reg_exp s" "reg_ret (SET_RET v s) = v"
  "reg_val (SET_RC rc s) = reg_val s" "reg_env (SET_RC rc s) = reg_env s" "reg_exp (SET_RC rc s) = reg_exp s"
  "reg_ret (SET_RC rc s) = MAKE_RETURN_CODE rc"
  "reg_val (SET_PRIMITIVE v s) = reg_val s" "reg_env (SET_PRIMITIVE v s) = reg_env s" "reg_exp (SET_PRIMITIVE v s) = reg_exp s"
  "reg_ret (SET_PRIMITIVE v s) = reg_ret s" "reg_primitive (SET_PRIMITIVE v s) = v"
  "reg_val (SET_LEXPR_ACTUALS n s) = reg_val s" "reg_env (SET_LEXPR_ACTUALS n s) = reg_env s" "reg_exp (SET_LEXPR_ACTUALS n s) = reg_exp s"
  "reg_ret (SET_LEXPR_ACTUALS n s) = reg_ret s" "lexpr_actuals (SET_LEXPR_ACTUALS n s) = n" "reg_primitive (SET_LEXPR_ACTUALS n s) = reg_primitive s"
  by (simp_all add: register_defs)

text \<open>The parts of the state the setters and the stack operations leave alone.\<close>

definition control_part :: "interp \<Rightarrow> nat \<times> nat \<times> nat \<times> bool \<times> nat \<times> bool \<times> ulong" where
  "control_part s = (stack_start s, stack_end s, stack_guard s, trapping s, interpreter_states s,
     critical_section s, prev_restore_history_offset s)"

lemma control_partD:
  "control_part t = control_part s \<Longrightarrow> stack_start t = stack_start s \<and> stack_end t = stack_end s \<and> stack_guard t = stack_guard s
    \<and> trapping t = trapping s \<and> interpreter_states t = interpreter_states s
    \<and> critical_section t = critical_section s \<and> prev_restore_history_offset t = prev_restore_history_offset s"
  by (simp add: control_part_def)

lemma setter_control [simp]:
  "control_part (SET_VAL v s) = control_part s" "control_part (SET_ENV v s) = control_part s" "control_part (SET_EXP v s) = control_part s"
  "control_part (SET_RET v s) = control_part s" "control_part (SET_RC rc s) = control_part s" "control_part (SET_PRIMITIVE v s) = control_part s"
  "control_part (SET_LEXPR_ACTUALS n s) = control_part s" "control_part (on_memory f s) = control_part s"
  "control_part (STACK_SET i v s) = control_part s" "control_part (STACK_PUSH v s) = control_part s" "control_part (STACK_DROP k s) = control_part s"
  "control_part (s\<lparr>stack_pointer := p\<rparr>) = control_part s" "control_part (s\<lparr>memory := m\<rparr>) = control_part s"
  by (simp_all add: control_part_def register_defs on_memory_def STACK_SET_def STACK_PUSH_def STACK_DROP_def)

lemma setter_stack [simp]:
  "stack_pointer (SET_VAL v s) = stack_pointer s" "stack_pointer (SET_ENV v s) = stack_pointer s" "stack_pointer (SET_EXP v s) = stack_pointer s"
  "stack_pointer (SET_RET v s) = stack_pointer s" "stack_pointer (SET_RC rc s) = stack_pointer s" "stack_pointer (SET_PRIMITIVE v s) = stack_pointer s"
  "stack_pointer (SET_LEXPR_ACTUALS n s) = stack_pointer s" "stack_pointer (on_memory f s) = stack_pointer s"
  "stack_pointer (STACK_SET i v s) = stack_pointer s" "stack_pointer (STACK_PUSH v s) = stack_pointer s - 1"
  "stack_pointer (STACK_DROP k s) = stack_pointer s + k"
  "memory (SET_VAL v s) = memory s" "memory (SET_ENV v s) = memory s" "memory (SET_EXP v s) = memory s"
  "memory (SET_RET v s) = memory s" "memory (SET_RC rc s) = memory s" "memory (SET_PRIMITIVE v s) = memory s"
  "memory (SET_LEXPR_ACTUALS n s) = memory s" "memory (on_memory f s) = f (memory s)" "memory (STACK_DROP k s) = memory s"
  "memory (STACK_PUSH v s) = write_word (stack_pointer s - 1) v (memory s)" "memory (STACK_SET i v s) = write_word (stack_pointer s + i) v (memory s)"
  by (simp_all add: register_defs on_memory_def STACK_SET_def STACK_PUSH_def STACK_DROP_def)

lemma stack_registers [simp]:
  "reg_val (on_memory f s) = reg_val s" "reg_env (on_memory f s) = reg_env s" "reg_exp (on_memory f s) = reg_exp s" "reg_ret (on_memory f s) = reg_ret s"
  "reg_val (STACK_SET i v s) = reg_val s" "reg_env (STACK_SET i v s) = reg_env s" "reg_exp (STACK_SET i v s) = reg_exp s" "reg_ret (STACK_SET i v s) = reg_ret s"
  "reg_val (STACK_PUSH v s) = reg_val s" "reg_env (STACK_PUSH v s) = reg_env s" "reg_exp (STACK_PUSH v s) = reg_exp s" "reg_ret (STACK_PUSH v s) = reg_ret s"
  "reg_val (STACK_DROP k s) = reg_val s" "reg_env (STACK_DROP k s) = reg_env s" "reg_exp (STACK_DROP k s) = reg_exp s" "reg_ret (STACK_DROP k s) = reg_ret s"
  by (simp_all add: on_memory_def STACK_SET_def STACK_PUSH_def STACK_DROP_def)

lemma control_fields [simp]:
  "stack_start (STACK_PUSH v s) = stack_start s" "stack_end (STACK_PUSH v s) = stack_end s" "stack_guard (STACK_PUSH v s) = stack_guard s"
  "stack_start (STACK_DROP k s) = stack_start s" "stack_end (STACK_DROP k s) = stack_end s" "stack_guard (STACK_DROP k s) = stack_guard s"
  "history_register (STACK_PUSH v s) = history_register s" "history_register (STACK_DROP k s) = history_register s"
  "stack_start (SET_EXP v s) = stack_start s" "stack_end (SET_EXP v s) = stack_end s" "stack_guard (SET_EXP v s) = stack_guard s"
  "history_register (SET_EXP v s) = history_register s" "stack_start (SET_RC v s) = stack_start s" "stack_end (SET_RC v s) = stack_end s"
  "stack_guard (SET_RC v s) = stack_guard s" "history_register (SET_RC v s) = history_register s"
  "stack_end (on_memory f s) = stack_end s" "stack_guard (on_memory f s) = stack_guard s" "history_register (on_memory f s) = history_register s"
  "stack_end (SET_ENV v s) = stack_end s" "stack_guard (SET_ENV v s) = stack_guard s" "history_register (SET_ENV v s) = history_register s"
  "stack_end (SET_VAL v s) = stack_end s" "stack_guard (SET_VAL v s) = stack_guard s" "history_register (SET_VAL v s) = history_register s"
  by (simp_all add: register_defs on_memory_def STACK_PUSH_def STACK_DROP_def)

section \<open>The stack\<close>

lemma STACK_REF_simps [simp]:
  "STACK_REF (SET_VAL v s) i = STACK_REF s i" "STACK_REF (SET_ENV v s) i = STACK_REF s i" "STACK_REF (SET_EXP v s) i = STACK_REF s i"
  "STACK_REF (SET_RET v s) i = STACK_REF s i" "STACK_REF (SET_RC rc s) i = STACK_REF s i" "STACK_REF (SET_PRIMITIVE v s) i = STACK_REF s i"
  "STACK_REF (SET_LEXPR_ACTUALS n s) i = STACK_REF s i" "STACK_REF (STACK_DROP k s) i = STACK_REF s (k + i)"
  "STACK_REF (STACK_SET j v s) i = (if i = j then v else STACK_REF s i)"
  by (simp_all add: STACK_REF_def add.assoc)

lemma STACK_REF_PUSH [simp]:
  "STACK_REF (STACK_PUSH v s) 0 = v" "0 < stack_pointer s \<Longrightarrow> STACK_REF (STACK_PUSH v s) (Suc i) = STACK_REF s i"
  by (auto simp: STACK_REF_def)

lemma CAN_PUSH_simps:
  "CAN_PUSH_P s n \<longleftrightarrow> int (stack_guard s) + n \<le> int (stack_pointer s)"
  by (auto simp: CAN_PUSH_P_def)

section \<open>Hidden words\<close>

definition alike :: "nat set \<Rightarrow> machine \<Rightarrow> machine \<Rightarrow> bool" where
  "alike W m h \<longleftrightarrow> (\<forall>a. a \<notin> W \<longrightarrow> mem m a = mem h a) \<and> m\<lparr>mem := mem h\<rparr> = h"

lemma alike_refl [simp]: "alike W m m"
  by (simp add: alike_def)

lemma alike_fields:
  assumes "alike W m h"
  shows "Free m = Free h" "heap_start m = heap_start h" "heap_end m = heap_end h" "heap_alloc_limit m = heap_alloc_limit h"
    "Free_primitive m = Free_primitive h" "int_mask m = int_mask h" "int_code m = int_code h" "gc_space_needed m = gc_space_needed h"
    "fixed_objects m = fixed_objects h"
proof -
  have eq: "m\<lparr>mem := mem h\<rparr> = h" using assms by (simp add: alike_def)
  show "Free m = Free h" "heap_start m = heap_start h" "heap_end m = heap_end h" "heap_alloc_limit m = heap_alloc_limit h"
    "Free_primitive m = Free_primitive h" "int_mask m = int_mask h" "int_code m = int_code h" "gc_space_needed m = gc_space_needed h"
    "fixed_objects m = fixed_objects h"
    by (subst eq [symmetric], simp)+
qed

lemma alike_mem: "alike W m h \<Longrightarrow> a \<notin> W \<Longrightarrow> mem m a = mem h a"
  by (simp add: alike_def)

lemma alikeI:
  assumes "\<And>a. a \<notin> W \<Longrightarrow> mem m a = mem h a" "m\<lparr>mem := undefined\<rparr> = h\<lparr>mem := undefined\<rparr>"
  shows "alike W m h"
proof -
  have "m\<lparr>mem := mem h\<rparr> = (m\<lparr>mem := undefined\<rparr>)\<lparr>mem := mem h\<rparr>" by simp
  also have "\<dots> = h" unfolding assms(2) by simp
  finally show ?thesis using assms(1) by (simp add: alike_def)
qed

lemma alike_hidden: "alike W m h \<Longrightarrow> a \<in> W \<Longrightarrow> alike W (write_word a w m) h"
  by (auto simp: alike_def write_word_def)

lemma alike_write: "alike W m h \<Longrightarrow> alike W (write_word a w m) (write_word a w h)"
  unfolding alike_def write_word_def
proof
  assume a: "(\<forall>a. a \<notin> W \<longrightarrow> mem m a = mem h a) \<and> m\<lparr>mem := mem h\<rparr> = h"
  then show "\<forall>b. b \<notin> W \<longrightarrow> mem (m\<lparr>mem := (mem m)(a := w)\<rparr>) b = mem (h\<lparr>mem := (mem h)(a := w)\<rparr>) b" by simp
  have "m\<lparr>mem := (mem h)(a := w)\<rparr> = (m\<lparr>mem := mem h\<rparr>)\<lparr>mem := (mem h)(a := w)\<rparr>" by simp
  then show "m\<lparr>mem := (mem m)(a := w)\<rparr>\<lparr>mem := mem (h\<lparr>mem := (mem h)(a := w)\<rparr>)\<rparr> = h\<lparr>mem := (mem h)(a := w)\<rparr>"
    using a by simp
qed

lemma alike_update:
  assumes "alike W m h"
  shows "alike W (m\<lparr>Free := k\<rparr>) (h\<lparr>Free := k\<rparr>)" "alike W (m\<lparr>Free_primitive := k\<rparr>) (h\<lparr>Free_primitive := k\<rparr>)"
    "alike W (m\<lparr>int_mask := w\<rparr>) (h\<lparr>int_mask := w\<rparr>)" "alike W (m\<lparr>int_code := w\<rparr>) (h\<lparr>int_code := w\<rparr>)"
    "alike W (m\<lparr>gc_space_needed := k\<rparr>) (h\<lparr>gc_space_needed := k\<rparr>)"
proof -
  have eq: "m\<lparr>mem := mem h\<rparr> = h" "\<forall>a. a \<notin> W \<longrightarrow> mem m a = mem h a" using assms by (auto simp: alike_def)
  have "m\<lparr>Free := k, mem := mem h\<rparr> = (m\<lparr>mem := mem h\<rparr>)\<lparr>Free := k\<rparr>"
    "m\<lparr>Free_primitive := k, mem := mem h\<rparr> = (m\<lparr>mem := mem h\<rparr>)\<lparr>Free_primitive := k\<rparr>"
    "m\<lparr>int_mask := w, mem := mem h\<rparr> = (m\<lparr>mem := mem h\<rparr>)\<lparr>int_mask := w\<rparr>"
    "m\<lparr>int_code := w, mem := mem h\<rparr> = (m\<lparr>mem := mem h\<rparr>)\<lparr>int_code := w\<rparr>"
    "m\<lparr>gc_space_needed := k, mem := mem h\<rparr> = (m\<lparr>mem := mem h\<rparr>)\<lparr>gc_space_needed := k\<rparr>" by simp_all
  then show "alike W (m\<lparr>Free := k\<rparr>) (h\<lparr>Free := k\<rparr>)" "alike W (m\<lparr>Free_primitive := k\<rparr>) (h\<lparr>Free_primitive := k\<rparr>)"
    "alike W (m\<lparr>int_mask := w\<rparr>) (h\<lparr>int_mask := w\<rparr>)" "alike W (m\<lparr>int_code := w\<rparr>) (h\<lparr>int_code := w\<rparr>)"
    "alike W (m\<lparr>gc_space_needed := k\<rparr>) (h\<lparr>gc_space_needed := k\<rparr>)"
    unfolding alike_def using eq by simp_all
qed

lemma alike_push_free: "alike W m h \<Longrightarrow> alike W (push_free w m) (push_free w h)"
  using alike_update(1) [OF alike_write, of W m h "Free h + 1" "Free h" w] alike_fields(1) [of W m h]
  by (simp add: push_free_def)

lemma alike_MEMORY_REF: "alike W m h \<Longrightarrow> OBJECT_ADDRESS x + i \<notin> W \<Longrightarrow> MEMORY_REF m x i = MEMORY_REF h x i"
  by (simp add: MEMORY_REF_def alike_mem)

lemma alike_GC_NEEDED_P: "alike W m h \<Longrightarrow> GC_NEEDED_P m n = GC_NEEDED_P h n"
  by (simp add: GC_NEEDED_P_def HEAP_AVAILABLE_P_def FREE_OK_P_def GC_ENABLED_P_def alike_fields)

section \<open>The history\<close>

lemma OBJECT_ADDRESS_marks [simp]:
  "OBJECT_ADDRESS (x OR HISTORY_MARK_MASK) = OBJECT_ADDRESS x" "OBJECT_ADDRESS (x AND NOT HISTORY_MARK_MASK) = OBJECT_ADDRESS x"
proof -
  have m: "HISTORY_MARK_MASK = 0x1000000000000000" by code_simp
  have "HISTORY_MARK_MASK AND DATUM_MASK = 0" "NOT HISTORY_MARK_MASK AND DATUM_MASK = DATUM_MASK" by code_simp+
  then have "OBJECT_DATUM (x OR HISTORY_MARK_MASK) = OBJECT_DATUM x" "OBJECT_DATUM (x AND NOT HISTORY_MARK_MASK) = OBJECT_DATUM x"
    by (simp_all add: OBJECT_DATUM_def bit.conj_disj_distrib2 and.assoc del: DATUM_MASK_def)
  then show "OBJECT_ADDRESS (x OR HISTORY_MARK_MASK) = OBJECT_ADDRESS x" "OBJECT_ADDRESS (x AND NOT HISTORY_MARK_MASK) = OBJECT_ADDRESS x"
    by (simp_all add: OBJECT_ADDRESS_def)
qed

definition history_words :: "nat set \<Rightarrow> nat set \<Rightarrow> nat set" where
  "history_words V R = (\<Union>p\<in>V \<union> R. {p, p + 1, p + 2})"

definition history_ok :: "nat set \<Rightarrow> nat set \<Rightarrow> machine \<Rightarrow> nat \<Rightarrow> bool" where
  "history_ok V R m x \<longleftrightarrow> x \<in> V
     \<and> (\<forall>v\<in>V. OBJECT_ADDRESS (mem m v) \<in> R \<and> OBJECT_ADDRESS (mem m (v + 1)) \<in> V \<and> OBJECT_ADDRESS (mem m (v + 2)) \<in> V)
     \<and> (\<forall>r\<in>R. OBJECT_ADDRESS (mem m (r + 2)) \<in> R)"

text \<open>Vertebrae and reductions are blocks of three words, apart from each other and from the stack.\<close>

definition hidden_layout :: "nat set \<Rightarrow> nat set \<Rightarrow> nat set \<Rightarrow> nat \<Rightarrow> nat \<Rightarrow> bool" where
  "hidden_layout W V R lo hi \<longleftrightarrow> {lo..<hi} \<subseteq> W \<and> history_words V R \<subseteq> W - {lo..<hi} \<and> (\<forall>p\<in>V \<union> R. addressable p)
     \<and> (\<forall>p\<in>V \<union> R. \<forall>q\<in>V \<union> R. p = q \<or> p + 2 < q \<or> q + 2 < p) \<and> V \<inter> R = {}"

definition history_change :: "nat set \<Rightarrow> nat set \<Rightarrow> machine \<Rightarrow> machine \<Rightarrow> bool" where
  "history_change V R m m' \<longleftrightarrow> alike (history_words V R) m' m \<and> (\<forall>x. history_ok V R m x \<longrightarrow> history_ok V R m' x)"

lemma alike_trans: "alike W a b \<Longrightarrow> alike W b c \<Longrightarrow> alike W a c"
  unfolding alike_def
proof (intro conjI)
  assume a: "(\<forall>x. x \<notin> W \<longrightarrow> mem a x = mem b x) \<and> a\<lparr>mem := mem b\<rparr> = b" and b: "(\<forall>x. x \<notin> W \<longrightarrow> mem b x = mem c x) \<and> b\<lparr>mem := mem c\<rparr> = c"
  then show "\<forall>x. x \<notin> W \<longrightarrow> mem a x = mem c x" by simp
  have "a\<lparr>mem := mem c\<rparr> = (a\<lparr>mem := mem b\<rparr>)\<lparr>mem := mem c\<rparr>" by simp
  then show "a\<lparr>mem := mem c\<rparr> = c" using a b by simp
qed

lemma alike_mono: "alike W a b \<Longrightarrow> W \<subseteq> W' \<Longrightarrow> alike W' a b"
  by (auto simp: alike_def)

lemma history_change_trans: "history_change V R a b \<Longrightarrow> history_change V R b c \<Longrightarrow> history_change V R a c"
  unfolding history_change_def using alike_trans by blast

lemma history_slot:
  assumes "hidden_layout W V R lo hi" "p \<in> V \<union> R" "q \<in> V \<union> R" "p + i = q + j" "i \<le> 2" "j \<le> 2"
  shows "p = q" "i = j"
proof -
  have "p = q \<or> p + 2 < q \<or> q + 2 < p" using assms(1-3) unfolding hidden_layout_def by blast
  then show "p = q" using assms(4-6) by auto
  then show "i = j" using assms(4) by simp
qed

lemma history_wordsI: "p \<in> V \<union> R \<Longrightarrow> i \<le> 2 \<Longrightarrow> p + i \<in> history_words V R"
  using le_Suc_eq [of i 1] by (fastforce simp: history_words_def numeral_2_eq_2)

lemma history_write:
  assumes L: "hidden_layout W V R lo hi" and a: "a = p + i" "p \<in> V \<union> R" "i \<le> 2"
    and w: "p \<in> R \<and> i < 2 \<or> OBJECT_ADDRESS w = OBJECT_ADDRESS (mem m a) \<or> p \<in> V \<and> i = 0 \<and> OBJECT_ADDRESS w \<in> R"
  shows "history_change V R m (write_word a w m)"
  unfolding history_change_def
proof (intro conjI allI impI)
  show "alike (history_words V R) (write_word a w m) m"
    using history_wordsI [OF a(2,3)] a(1) by (intro alike_hidden) simp_all
  fix x assume ok: "history_ok V R m x"
  have VR: "V \<inter> R = {}" using L by (simp add: hidden_layout_def)
  have slot: "q + j = p + i \<longleftrightarrow> q = p \<and> j = i" if "q \<in> V \<union> R" "j \<le> 2" for q j
    using history_slot [OF L that(1) a(2) _ that(2) a(3)] by auto
  have read: "OBJECT_ADDRESS (mem (write_word a w m) (q + j)) = OBJECT_ADDRESS (mem m (q + j))
      \<or> q = p \<and> j = i \<and> (p \<in> R \<and> i < 2 \<or> p \<in> V \<and> i = 0 \<and> OBJECT_ADDRESS (mem (write_word a w m) (q + j)) \<in> R)"
    if "q \<in> V \<union> R" "j \<le> 2" for q j
    using slot [OF that] w a(1) by auto
  show "history_ok V R (write_word a w m) x"
    unfolding history_ok_def
  proof (intro conjI ballI)
    show "x \<in> V" using ok by (simp add: history_ok_def)
    fix v assume v: "v \<in> V"
    then have "v \<notin> R" using VR by blast
    show "OBJECT_ADDRESS (mem (write_word a w m) v) \<in> R" using read [of v 0] v ok \<open>v \<notin> R\<close> unfolding history_ok_def by auto
    show "OBJECT_ADDRESS (mem (write_word a w m) (v + 1)) \<in> V" "OBJECT_ADDRESS (mem (write_word a w m) (v + 2)) \<in> V"
      using read [of v 1] read [of v 2] v ok \<open>v \<notin> R\<close> unfolding history_ok_def by auto
  next
    fix r assume r: "r \<in> R"
    then have "r \<notin> V" using VR by blast
    show "OBJECT_ADDRESS (mem (write_word a w m) (r + 2)) \<in> R"
      using read [of r 2] r ok \<open>r \<notin> V\<close> unfolding history_ok_def by auto
  qed
qed

text \<open>The operations on the history change registers and memory only there.\<close>

lemma history_registers [simp]:
  "reg_val (reuse_subproblem e n s) = reg_val s" "reg_env (reuse_subproblem e n s) = reg_env s"
  "reg_exp (reuse_subproblem e n s) = reg_exp s" "reg_ret (reuse_subproblem e n s) = reg_ret s"
  "reg_val (new_subproblem e n s) = reg_val s" "reg_env (new_subproblem e n s) = reg_env s"
  "reg_exp (new_subproblem e n s) = reg_exp s" "reg_ret (new_subproblem e n s) = reg_ret s"
  "reg_val (new_reduction e n s) = reg_val s" "reg_env (new_reduction e n s) = reg_env s"
  "reg_exp (new_reduction e n s) = reg_exp s" "reg_ret (new_reduction e n s) = reg_ret s"
  "reg_val (end_subproblem s) = reg_val s" "reg_env (end_subproblem s) = reg_env s"
  "reg_exp (end_subproblem s) = reg_exp s" "reg_ret (end_subproblem s) = reg_ret s"
  "stack_pointer (reuse_subproblem e n s) = stack_pointer s" "stack_pointer (new_subproblem e n s) = stack_pointer s"
  "stack_pointer (new_reduction e n s) = stack_pointer s" "stack_pointer (end_subproblem s) = stack_pointer s"
  "control_part (reuse_subproblem e n s) = control_part s" "control_part (new_subproblem e n s) = control_part s"
  "control_part (new_reduction e n s) = control_part s" "control_part (end_subproblem s) = control_part s"
  by (simp_all add: reuse_subproblem_def new_subproblem_def new_reduction_def end_subproblem_def Let_def on_memory_def control_part_def)

definition running :: "nat set \<Rightarrow> nat set \<Rightarrow> nat set \<Rightarrow> machine \<Rightarrow> interp \<Rightarrow> bool" where
  "running W V R h s \<longleftrightarrow> alike W (memory s) h \<and> hidden_layout W V R (stack_start s) (stack_end s)
     \<and> history_ok V R (memory s) (history_register s) \<and> stack_start s < stack_guard s \<and> stack_guard s \<le> stack_pointer s
     \<and> stack_pointer s \<le> stack_end s \<and> \<not> trapping s"

definition same_stack :: "interp \<Rightarrow> interp \<Rightarrow> bool" where
  "same_stack s t \<longleftrightarrow> stack_pointer t = stack_pointer s \<and> control_part t = control_part s
     \<and> (\<forall>i. stack_pointer s + i < stack_end s \<longrightarrow> STACK_REF t i = STACK_REF s i)"

lemma same_stack_refl [simp]: "same_stack s s"
  by (simp add: same_stack_def)

lemma same_stack_trans: "same_stack a b \<Longrightarrow> same_stack b c \<Longrightarrow> same_stack a c"
  unfolding same_stack_def using control_partD by metis

lemma same_stack_REF: "same_stack s t \<Longrightarrow> stack_pointer s + i < stack_end s \<Longrightarrow> STACK_REF t i = STACK_REF s i"
  by (simp add: same_stack_def)

lemma same_stackD: "same_stack s t \<Longrightarrow> stack_pointer t = stack_pointer s \<and> stack_end t = stack_end s \<and> stack_guard t = stack_guard s \<and> stack_start t = stack_start s \<and> trapping t = trapping s"
  unfolding same_stack_def using control_partD by blast

lemma runningD:
  assumes "running W V R h s"
  shows "alike W (memory s) h" "hidden_layout W V R (stack_start s) (stack_end s)" "history_ok V R (memory s) (history_register s)"
    "0 < stack_pointer s" "stack_pointer s \<le> stack_end s" "\<not> trapping s" "stack_guard s \<le> stack_pointer s" "0 < stack_guard s"
  using assms by (simp_all add: running_def)

lemma running_change:
  assumes s: "running W V R h s" and c: "history_change V R (memory s) (memory t)"
    and t: "stack_pointer t = stack_pointer s" "control_part t = control_part s" "history_ok V R (memory t) (history_register t)"
  shows "running W V R h t" "same_stack s t"
proof -
  note f = control_partD [OF t(2)]
  have H: "history_words V R \<subseteq> W - {stack_start s..<stack_end s}" using runningD(2) [OF s] by (simp add: hidden_layout_def)
  have alike: "alike (history_words V R) (memory t) (memory s)" using c by (simp add: history_change_def)
  then have "alike W (memory t) (memory s)" using H by (auto intro: alike_mono)
  then have "alike W (memory t) h" using runningD(1) [OF s] by (rule alike_trans)
  then show "running W V R h t" using s f t by (simp add: running_def)
  have "mem (memory t) (stack_pointer s + i) = mem (memory s) (stack_pointer s + i)" if "stack_pointer s + i < stack_end s" for i
  proof (rule alike_mem [OF alike])
    have "stack_start s \<le> stack_pointer s + i" using s by (simp add: running_def)
    then show "stack_pointer s + i \<notin> history_words V R" using H that by auto
  qed
  then show "same_stack s t" using t(1,2) by (simp add: same_stack_def STACK_REF_def)
qed

lemma history_okD:
  assumes "history_ok V R m x"
  shows "x \<in> V" "OBJECT_ADDRESS (mem m x) \<in> R" "OBJECT_ADDRESS (mem m (x + 1)) \<in> V" "OBJECT_ADDRESS (mem m (x + 2)) \<in> V"
  using assms by (simp_all add: history_ok_def)

lemma history_okD2: "history_ok V R m x \<Longrightarrow> r \<in> R \<Longrightarrow> OBJECT_ADDRESS (mem m (r + 2)) \<in> R"
  by (simp add: history_ok_def)

lemma history_ok_move: "history_ok V R m x \<Longrightarrow> y \<in> V \<Longrightarrow> history_ok V R m y"
  by (simp add: history_ok_def)

lemma history_change_refl: "history_change V R m m"
  by (simp add: history_change_def)

lemma write_reduction_change:
  assumes L: "hidden_layout W V R lo hi" and r: "r \<in> R"
  shows "history_change V R m (write_reduction r e n m)"
  unfolding write_reduction_def
  by (rule history_change_trans, rule history_write [OF L, of _ r 1], use r in simp_all,
      rule history_write [OF L, of _ r 0], use r in simp_all)

lemma mark_change:
  assumes L: "hidden_layout W V R lo hi" and a: "a = p + i" "p \<in> V \<union> R" "i \<le> 2"
  shows "history_change V R m (HISTORY_MARK a m)" "history_change V R m (HISTORY_UNMARK a m)"
  unfolding HISTORY_MARK_def HISTORY_UNMARK_def using history_write [OF L a] by simp_all

lemma running_reuse_subproblem:
  assumes s: "running W V R h s"
  shows "running W V R h (reuse_subproblem e n s)" "same_stack s (reuse_subproblem e n s)"
proof -
  note L = runningD(2) [OF s] and ok = runningD(3) [OF s]
  let ?r = "history_link s HIST_RIB"
  have r: "?r \<in> R" using history_okD(2) [OF ok] by (simp add: history_link_def)
  have "history_change V R (memory s) (memory (reuse_subproblem e n s))"
    unfolding reuse_subproblem_def Let_def setter_stack
    by (rule history_change_trans [OF mark_change(1) [OF L, of _ ?r 2] write_reduction_change [OF L r]]) (use r in simp_all)
  moreover from this have "history_ok V R (memory (reuse_subproblem e n s)) (history_register (reuse_subproblem e n s))"
    using ok by (simp add: history_change_def) (simp add: reuse_subproblem_def Let_def on_memory_def)
  ultimately show "running W V R h (reuse_subproblem e n s)" "same_stack s (reuse_subproblem e n s)"
    using running_change [OF s] by simp_all
qed

lemma running_new_subproblem:
  assumes s: "running W V R h s"
  shows "running W V R h (new_subproblem e n s)" "same_stack s (new_subproblem e n s)"
proof -
  note L = runningD(2) [OF s] and ok = runningD(3) [OF s]
  let ?x = "history_link s HIST_NEXT_SUBPROBLEM"
  let ?t = "on_memory (HISTORY_MARK (?x + HIST_MARK)) (s\<lparr>history_register := ?x\<rparr>)"
  have x: "?x \<in> V" using history_okD(3) [OF ok] by (simp add: history_link_def)
  have c: "history_change V R (memory s) (memory ?t)"
    using mark_change(1) [OF L, of _ ?x 1] x by simp
  have "history_ok V R (memory ?t) (history_register s)" using c ok by (simp add: history_change_def)
  then have "history_ok V R (memory ?t) ?x" using x by (rule history_ok_move)
  then have t: "running W V R h ?t" "same_stack s ?t"
    using running_change [OF s c] by (simp_all add: control_part_def on_memory_def)
  show "running W V R h (new_subproblem e n s)" "same_stack s (new_subproblem e n s)"
    using running_reuse_subproblem [OF t(1)] same_stack_trans [OF t(2)] by (simp_all add: new_subproblem_def Let_def)
qed

lemma running_end_subproblem:
  assumes s: "running W V R h s"
  shows "running W V R h (end_subproblem s)" "same_stack s (end_subproblem s)"
proof -
  note L = runningD(2) [OF s] and ok = runningD(3) [OF s]
  have c: "history_change V R (memory s) (memory (end_subproblem s))"
    using mark_change(2) [OF L, of _ "history_register s" 1] history_okD(1) [OF ok] by (simp add: end_subproblem_def Let_def)
  then have "history_ok V R (memory (end_subproblem s)) (history_register s)" using ok by (simp add: history_change_def)
  from history_ok_move [OF this history_okD(4) [OF this]]
  have "history_ok V R (memory (end_subproblem s)) (history_register (end_subproblem s))"
    by (simp add: end_subproblem_def Let_def history_link_def on_memory_def)
  then show "running W V R h (end_subproblem s)" "same_stack s (end_subproblem s)"
    using running_change [OF s c] by simp_all
qed

lemma running_new_reduction:
  assumes s: "running W V R h s"
  shows "running W V R h (new_reduction e n s)" "same_stack s (new_reduction e n s)"
proof -
  note L = runningD(2) [OF s] and ok = runningD(3) [OF s]
  let ?x = "history_register s"
  let ?r = "OBJECT_ADDRESS (mem (memory s) (history_link s HIST_RIB + RIB_NEXT_REDUCTION))"
  have x: "?x \<in> V" and r: "?r \<in> R"
    using history_okD [OF ok] history_okD2 [OF ok] by (simp_all add: history_link_def)
  have "addressable ?r" using r L by (simp add: hidden_layout_def)
  then have 1: "history_change V R (memory s) (write_word (?x + HIST_RIB) (MAKE_POINTER_OBJECT UNMARKED_HISTORY_TYPE ?r) (memory s))"
    using x r by (intro history_write [OF L, of _ ?x 0]) simp_all
  have "history_change V R (memory s) (memory (new_reduction e n s))"
    unfolding new_reduction_def Let_def setter_stack
    by (rule history_change_trans [OF history_change_trans [OF 1 write_reduction_change [OF L r]] mark_change(2) [OF L, of _ ?r 2]])
      (use r in simp_all)
  moreover from this have "history_ok V R (memory (new_reduction e n s)) (history_register (new_reduction e n s))"
    using ok by (simp add: history_change_def) (simp add: new_reduction_def Let_def on_memory_def)
  ultimately show "running W V R h (new_reduction e n s)" "same_stack s (new_reduction e n s)"
    using running_change [OF s] by simp_all
qed

section \<open>The stack of a running interpreter\<close>

text \<open>Changes of registers, of the stack and of visible memory.\<close>

lemma running_registers [simp]:
  "running W V R h (SET_VAL v s) = running W V R h s" "running W V R h (SET_ENV v s) = running W V R h s"
  "running W V R h (SET_EXP v s) = running W V R h s" "running W V R h (SET_RET v s) = running W V R h s"
  "running W V R h (SET_RC rc s) = running W V R h s" "running W V R h (SET_PRIMITIVE v s) = running W V R h s"
  "running W V R h (SET_LEXPR_ACTUALS n s) = running W V R h s"
  by (simp_all add: running_def register_defs)

lemma same_stack_registers [simp]:
  "same_stack (SET_VAL v s) t = same_stack s t" "same_stack s (SET_VAL v t) = same_stack s t"
  "same_stack (SET_ENV v s) t = same_stack s t" "same_stack s (SET_ENV v t) = same_stack s t"
  "same_stack (SET_EXP v s) t = same_stack s t" "same_stack s (SET_EXP v t) = same_stack s t"
  "same_stack (SET_RET v s) t = same_stack s t" "same_stack s (SET_RET v t) = same_stack s t"
  "same_stack (SET_RC rc s) t = same_stack s t" "same_stack s (SET_RC rc t) = same_stack s t"
  "same_stack (SET_PRIMITIVE v s) t = same_stack s t" "same_stack s (SET_PRIMITIVE v t) = same_stack s t"
  "same_stack (SET_LEXPR_ACTUALS n s) t = same_stack s t" "same_stack s (SET_LEXPR_ACTUALS n t) = same_stack s t"
  by (simp_all add: same_stack_def) (simp_all add: register_defs)

lemma stack_hidden:
  assumes "running W V R h s" "stack_start s \<le> a" "a < stack_end s"
  shows "a \<in> W" "a \<notin> history_words V R"
  using runningD(2) [OF assms(1)] assms(2,3) unfolding hidden_layout_def by auto

lemma history_ok_other:
  assumes "history_ok V R m x" "\<And>a. a \<in> history_words V R \<Longrightarrow> mem m' a = mem m a"
  shows "history_ok V R m' x"
proof -
  have "mem m' (p + i) = mem m (p + i)" if "p \<in> V \<union> R" "i \<le> 2" for p i
    using assms(2) [OF history_wordsI [OF that]] .
  from this [of _ 0] this [of _ 1] this [of _ 2] show ?thesis using assms(1) by (auto simp: history_ok_def)
qed

lemma running_stack_write:
  assumes "running W V R h s" "stack_start s \<le> a" "a < stack_end s"
  shows "running W V R h (on_memory (write_word a w) s)"
proof -
  note hid = stack_hidden [OF assms]
  have "history_ok V R (write_word a w (memory s)) (history_register s)"
    by (rule history_ok_other [OF runningD(3) [OF assms(1)]]) (use hid in auto)
  then show ?thesis using assms(1) alike_hidden [OF runningD(1) [OF assms(1)] hid(1)]
    by (simp add: running_def on_memory_def)
qed

lemma running_PUSH:
  assumes "running W V R h s" "stack_guard s < stack_pointer s"
  shows "running W V R h (STACK_PUSH v s)"
proof -
  have "running W V R h (s\<lparr>stack_pointer := stack_pointer s - 1\<rparr>)" using assms by (auto simp: running_def)
  then show ?thesis unfolding STACK_PUSH_def using assms by (intro running_stack_write) (auto simp: running_def)
qed

lemma running_SET:
  assumes "running W V R h s" "stack_pointer s + i < stack_end s"
  shows "running W V R h (STACK_SET i v s)"
  unfolding STACK_SET_def using assms by (intro running_stack_write) (auto simp: running_def)

lemma running_DROP:
  "running W V R h s \<Longrightarrow> stack_pointer s + n \<le> stack_end s \<Longrightarrow> running W V R h (STACK_DROP n s)"
  by (simp add: running_def STACK_DROP_def)

text \<open>A write outside the hidden words is one of the visible memory.\<close>

lemma history_words_hidden: "running W V R h s \<Longrightarrow> history_words V R \<subseteq> W"
  using runningD(2) [of W V R h s] unfolding hidden_layout_def by blast

lemma running_visible:
  assumes s: "running W V R h s" and m: "alike W m h'" "\<And>a. a \<in> W \<Longrightarrow> mem m a = mem (memory s) a"
  shows "running W V R h' (s\<lparr>memory := m\<rparr>)" "same_stack s (s\<lparr>memory := m\<rparr>)"
proof -
  have "history_ok V R m (history_register s)"
    by (rule history_ok_other [OF runningD(3) [OF s]]) (use m(2) history_words_hidden [OF s] in auto)
  then show "running W V R h' (s\<lparr>memory := m\<rparr>)" using s m(1) by (simp add: running_def)
  have "mem m (stack_pointer s + i) = mem (memory s) (stack_pointer s + i)" if "stack_pointer s + i < stack_end s" for i
    by (rule m(2), rule stack_hidden(1) [OF s]) (use s that in \<open>auto simp: running_def\<close>)
  then show "same_stack s (s\<lparr>memory := m\<rparr>)" by (simp add: same_stack_def STACK_REF_def)
qed

lemma running_push_free:
  assumes s: "running W V R h s" and a: "Free h \<notin> W"
  shows "running W V R (push_free w h) (on_memory (push_free w) s)" "same_stack s (on_memory (push_free w) s)"
proof -
  have "alike W (push_free w (memory s)) (push_free w h)" using runningD(1) [OF s] by (rule alike_push_free)
  moreover have "mem (push_free w (memory s)) b = mem (memory s) b" if "b \<in> W" for b
    using that a alike_fields(1) [OF runningD(1) [OF s]] by auto
  ultimately show "running W V R (push_free w h) (on_memory (push_free w) s)" "same_stack s (on_memory (push_free w) s)"
    using running_visible [OF s] by (simp_all add: on_memory_def)
qed

lemma same_stack_push:
  assumes "same_stack (STACK_PUSH v s) t" "0 < stack_pointer s" "stack_pointer s \<le> stack_end s"
  shows "STACK_REF t 0 = v" "same_stack s (STACK_DROP 1 t)" "stack_pointer t = stack_pointer s - 1"
proof -
  have t: "stack_pointer t = stack_pointer s - 1" "control_part t = control_part s"
    "\<And>i. stack_pointer s - 1 + i < stack_end s \<Longrightarrow> STACK_REF t i = STACK_REF (STACK_PUSH v s) i"
    using assms(1) by (simp_all add: same_stack_def)
  show "STACK_REF t 0 = v" "stack_pointer t = stack_pointer s - 1" using t(1) t(3) [of 0] assms(2,3) by simp_all
  have "STACK_REF t (Suc i) = STACK_REF s i" if "stack_pointer s + i < stack_end s" for i
    using t(3) [of "Suc i"] that assms(2) by simp
  then show "same_stack s (STACK_DROP 1 t)" using t assms(2) by (simp add: same_stack_def)
qed

end
