(* ===== verification/Evaluation.thy ===== *)
theory Evaluation
  imports Interp_Facts
begin

text \<open>
  What an SCode expression means, without the registers, the stack and the history of the
  interpreter: an evaluation maps an environment, an expression and a memory to a value and a
  memory. The relation also gives the number of stack words an evaluation needs, and follows the evaluations that
  return: constants, variables, conditionals, sequences, lambda expressions, promises,
  assignments, definitions, and combinations of compound procedures (with optional and rest
  parameters), primitives and entities. The stack and the history are a set \<open>W\<close> of hidden words an evaluation may not depend on.
\<close>

definition visible :: "nat set \<Rightarrow> ulong \<Rightarrow> nat \<Rightarrow> bool" where
  "visible W x i \<longleftrightarrow> OBJECT_ADDRESS x + i \<notin> W"

text \<open>A procedure of another component that does the same on every memory that agrees outside \<open>W\<close>.\<close>

definition performs :: "nat set \<Rightarrow> 'a proc \<Rightarrow> machine \<Rightarrow> 'a \<Rightarrow> machine \<Rightarrow> bool" where
  "performs W p h r h' \<longleftrightarrow> (\<forall>m. alike W m h \<longrightarrow>
     (\<exists>m'. p m = Some (Inr r, m') \<and> alike W m' h' \<and> (\<forall>a\<in>W. mem m' a = mem m a)))"

definition primitive_performs :: "nat set \<Rightarrow> ulong code \<Rightarrow> ulong list \<Rightarrow> machine \<Rightarrow> ulong \<Rightarrow> machine \<Rightarrow> bool" where
  "primitive_performs W f args h v h' \<longleftrightarrow>
     (\<forall>s. alike W (memory s) (h\<lparr>Free_primitive := Free h\<rparr>) \<and> (\<forall>i<length args. STACK_REF s i = args ! i)
        \<longrightarrow> (\<exists>m'. f s = Some (Inr v, s\<lparr>memory := m'\<rparr>) \<and> alike W m' h' \<and> (\<forall>a\<in>W. mem m' a = mem (memory s) a)))"

definition self_evaluating :: "ulong \<Rightarrow> bool" where
  "self_evaluating e \<longleftrightarrow> OBJECT_TYPE e \<notin> set [TC_ACCESS, TC_ASSIGNMENT, TC_BROKEN_HEART, TC_COMBINATION, TC_COMMENT,
     TC_CONDITIONAL, TC_DEFINITION, TC_DELAY, TC_DISJUNCTION, TC_EXTENDED_LAMBDA, TC_LAMBDA, TC_LEXPR, TC_MANIFEST_NM_VECTOR,
     TC_SCODE_QUOTE, TC_SEQUENCE, TC_SYNTAX_ERROR, TC_THE_ENVIRONMENT, TC_VARIABLE]"

definition pair_at_free :: "nat set \<Rightarrow> machine \<Rightarrow> bool" where
  "pair_at_free W h \<longleftrightarrow> Free h \<notin> W \<and> Free h + 1 \<notin> W"

definition push_list_free :: "ulong list \<Rightarrow> machine \<Rightarrow> machine" where
  "push_list_free ws h = fold push_free ws h"

definition free_words :: "nat set \<Rightarrow> machine \<Rightarrow> nat \<Rightarrow> bool" where
  "free_words W h n \<longleftrightarrow> {Free h..<Free h + n} \<inter> W = {} \<and> \<not> GC_NEEDED_P h n"

text \<open>The frame of an extended procedure and the list of its rest arguments.\<close>

fun rest_list :: "nat \<Rightarrow> ulong list \<Rightarrow> ulong list" where
  "rest_list a [] = []"
| "rest_list a [x] = [x, EMPTY_LIST]"
| "rest_list a (x # xs) = x # MAKE_POINTER_OBJECT TC_LIST (a + 2) # rest_list (a + 2) xs"

definition extended_frame :: "nat \<Rightarrow> nat \<Rightarrow> nat \<Rightarrow> nat \<Rightarrow> ulong \<Rightarrow> ulong list \<Rightarrow> ulong list" where
  "extended_frame a params rest_flag auxes f args =
     (let frame_size = params + rest_flag + auxes + 1
      in MAKE_OBJECT TC_MANIFEST_VECTOR (word_of_nat frame_size) # f #
         (if length args \<le> params
          then args @ replicate (params - length args) DEFAULT_OBJECT @ (if rest_flag \<noteq> 0 then [EMPTY_LIST] else [])
                @ replicate auxes UNASSIGNED_OBJECT
          else take params args @ MAKE_POINTER_OBJECT TC_LIST (a + 1 + frame_size) # replicate auxes UNASSIGNED_OBJECT
                @ rest_list (a + 1 + frame_size) (drop params args)))"

inductive evaluates :: "primitives \<Rightarrow> nat set \<Rightarrow> ulong \<Rightarrow> ulong \<Rightarrow> machine \<Rightarrow> nat \<Rightarrow> ulong \<Rightarrow> machine \<Rightarrow> bool"
  and operands :: "primitives \<Rightarrow> nat set \<Rightarrow> ulong \<Rightarrow> ulong \<Rightarrow> nat \<Rightarrow> machine \<Rightarrow> nat \<Rightarrow> ulong list \<Rightarrow> machine \<Rightarrow> bool"
  and applies :: "primitives \<Rightarrow> nat set \<Rightarrow> ulong \<Rightarrow> ulong list \<Rightarrow> machine \<Rightarrow> nat \<Rightarrow> ulong \<Rightarrow> machine \<Rightarrow> bool"
  for tbl :: primitives and W :: "nat set"
where
  Self: "self_evaluating e \<Longrightarrow> evaluates tbl W env e h 0 e h"
| Quote: "OBJECT_TYPE e = TC_SCODE_QUOTE \<Longrightarrow> visible W e 0 \<Longrightarrow> evaluates tbl W env e h 0 (MEMORY_REF h e 0) h"
| The_Environment: "OBJECT_TYPE e = TC_THE_ENVIRONMENT \<Longrightarrow> evaluates tbl W env e h 0 env h"
| Variable: "OBJECT_TYPE e = TC_VARIABLE \<Longrightarrow> visible W e 0 \<Longrightarrow>
    performs W (lookup_variable env (VARIABLE_SYMBOL h e)) h (PRIM_DONE, Some v) h' \<Longrightarrow> evaluates tbl W env e h 0 v h'"
| Safe_Variable: "OBJECT_TYPE e = TC_VARIABLE \<Longrightarrow> visible W e 0 \<Longrightarrow> visible W e 1 \<Longrightarrow>
    performs W (lookup_variable env (VARIABLE_SYMBOL h e)) h (ERR_UNASSIGNED_VARIABLE, x) h' \<Longrightarrow> VARIABLE_SAFE_P h' e \<Longrightarrow>
    evaluates tbl W env e h 0 UNASSIGNED_OBJECT h'"
| Lambda: "OBJECT_TYPE e = TC_LAMBDA \<or> OBJECT_TYPE e = TC_LEXPR \<Longrightarrow> pair_at_free W h \<Longrightarrow>
    evaluates tbl W env e h 0 (MAKE_POINTER_OBJECT TC_PROCEDURE (Free h)) (push_list_free [e, env] h)"
| Extended_Lambda: "OBJECT_TYPE e = TC_EXTENDED_LAMBDA \<Longrightarrow> pair_at_free W h \<Longrightarrow>
    evaluates tbl W env e h 0 (MAKE_POINTER_OBJECT TC_EXTENDED_PROCEDURE (Free h)) (push_list_free [e, env] h)"
| Delay: "OBJECT_TYPE e = TC_DELAY \<Longrightarrow> visible W e 0 \<Longrightarrow> pair_at_free W h \<Longrightarrow> OBJECT_ADDRESS e < Free h \<Longrightarrow>
    evaluates tbl W env e h 0 (MAKE_POINTER_OBJECT TC_DELAYED (Free h)) (push_list_free [env, MEMORY_REF h e 0] h)"
| Comment: "OBJECT_TYPE e = TC_COMMENT \<Longrightarrow> visible W e 0 \<Longrightarrow> evaluates tbl W env (MEMORY_REF h e 0) h n v h' \<Longrightarrow> evaluates tbl W env e h n v h'"
| Conditional: "OBJECT_TYPE e = TC_CONDITIONAL \<Longrightarrow> visible W e 0 \<Longrightarrow> evaluates tbl W env (MEMORY_REF h e 0) h n1 p h1 \<Longrightarrow>
    i = (if p = SHARP_F then 2 else 1) \<Longrightarrow> visible W e i \<Longrightarrow>
    evaluates tbl W env (MEMORY_REF h1 e i) h1 n2 v h2 \<Longrightarrow> evaluates tbl W env e h (max (n1 + 3) n2) v h2"
| Disjunction_True: "OBJECT_TYPE e = TC_DISJUNCTION \<Longrightarrow> visible W e 0 \<Longrightarrow> evaluates tbl W env (MEMORY_REF h e 0) h n v h' \<Longrightarrow>
    v \<noteq> SHARP_F \<Longrightarrow> evaluates tbl W env e h (n + 3) v h'"
| Disjunction_False: "OBJECT_TYPE e = TC_DISJUNCTION \<Longrightarrow> visible W e 0 \<Longrightarrow> evaluates tbl W env (MEMORY_REF h e 0) h n1 SHARP_F h1 \<Longrightarrow>
    visible W e 1 \<Longrightarrow> evaluates tbl W env (MEMORY_REF h1 e 1) h1 n2 v h2 \<Longrightarrow> evaluates tbl W env e h (max (n1 + 3) n2) v h2"
| Sequence: "OBJECT_TYPE e = TC_SEQUENCE \<Longrightarrow> visible W e 0 \<Longrightarrow> evaluates tbl W env (MEMORY_REF h e 0) h n1 u h1 \<Longrightarrow>
    visible W e 1 \<Longrightarrow> evaluates tbl W env (MEMORY_REF h1 e 1) h1 n2 v h2 \<Longrightarrow> evaluates tbl W env e h (max (n1 + 3) n2) v h2"
| Access: "OBJECT_TYPE e = TC_ACCESS \<Longrightarrow> visible W e 0 \<Longrightarrow> evaluates tbl W env (MEMORY_REF h e 0) h n env' h1 \<Longrightarrow> visible W e 1 \<Longrightarrow>
    performs W (lookup_variable env' (MEMORY_REF h1 e 1)) h1 (PRIM_DONE, Some v) h2 \<Longrightarrow> evaluates tbl W env e h (n + 2) v h2"
| Assignment: "OBJECT_TYPE e = TC_ASSIGNMENT \<Longrightarrow> visible W e 1 \<Longrightarrow> evaluates tbl W env (MEMORY_REF h e 1) h n v h1 \<Longrightarrow> visible W e 0 \<Longrightarrow>
    OBJECT_TYPE (MEMORY_REF h1 e 0) = TC_VARIABLE \<Longrightarrow> visible W (MEMORY_REF h1 e 0) 0 \<Longrightarrow>
    performs W (assign_variable env (VARIABLE_SYMBOL h1 (MEMORY_REF h1 e 0)) v) h1 (PRIM_DONE, Some prior) h2 \<Longrightarrow>
    evaluates tbl W env e h (n + 3) prior h2"
| Definition: "OBJECT_TYPE e = TC_DEFINITION \<Longrightarrow> visible W e 1 \<Longrightarrow> evaluates tbl W env (MEMORY_REF h e 1) h n v h1 \<Longrightarrow> visible W e 0 \<Longrightarrow>
    performs W (define_variable env (MEMORY_REF h1 e 0) v) h1 PRIM_DONE h2 \<Longrightarrow>
    evaluates tbl W env e h (n + 3) (MEMORY_REF h1 e 0) h2"
| Combination: "OBJECT_TYPE e = TC_COMBINATION \<Longrightarrow> visible W e 0 \<Longrightarrow> unat (VECTOR_LENGTH h e) = k + 1 \<Longrightarrow>
    operands tbl W env e k h n1 args h1 \<Longrightarrow> visible W e 1 \<Longrightarrow> evaluates tbl W env (MEMORY_REF h1 e 1) h1 n2 f h2 \<Longrightarrow>
    VECTOR_LENGTH h1 e = VECTOR_LENGTH h e \<Longrightarrow> applies tbl W f args h2 n3 v h3 \<Longrightarrow>
    evaluates tbl W env e h (max (k + 4 + max n1 n2) n3) v h3"
| No_Operands: "operands tbl W env e 0 h 0 [] h"
| Operand: "visible W e (k + 2) \<Longrightarrow> evaluates tbl W env (MEMORY_REF h e (k + 2)) h n1 v h1 \<Longrightarrow> operands tbl W env e k h1 n2 args h2 \<Longrightarrow>
    operands tbl W env e (Suc k) h (max n1 n2) (args @ [v]) h2"
| Apply_Procedure: "OBJECT_TYPE f = TC_PROCEDURE \<Longrightarrow> PENDING_INTERRUPTS h = 0 \<Longrightarrow> visible W f 0 \<Longrightarrow> lambda = MEMORY_REF h f 0 \<Longrightarrow>
    visible W lambda 1 \<Longrightarrow> visible W (MEMORY_REF h lambda 1) 0 \<Longrightarrow> n = unat (VECTOR_LENGTH h (MEMORY_REF h lambda 1)) \<Longrightarrow>
    n = length args + 1 \<or> OBJECT_TYPE lambda = TC_LEXPR \<and> n \<le> length args + 1 \<Longrightarrow>
    free_words W h (length args + 2) \<Longrightarrow> visible W lambda 0 \<Longrightarrow>
    h1 = push_list_free (MAKE_OBJECT TC_MANIFEST_VECTOR (word_of_nat (length args + 1)) # f # args) h \<Longrightarrow>
    evaluates tbl W (MAKE_POINTER_OBJECT TC_ENVIRONMENT (Free h)) (MEMORY_REF h1 lambda 0) h1 need v h' \<Longrightarrow> applies tbl W f args h need v h'"
| Apply_Extended: "OBJECT_TYPE f = TC_EXTENDED_PROCEDURE \<Longrightarrow> PENDING_INTERRUPTS h = 0 \<Longrightarrow> visible W f 0 \<Longrightarrow> lambda = MEMORY_REF h f 0 \<Longrightarrow>
    visible W lambda 0 \<Longrightarrow> visible W lambda 1 \<Longrightarrow> visible W lambda 2 \<Longrightarrow> visible W (MEMORY_REF h lambda 1) 0 \<Longrightarrow>
    count = MEMORY_REF h lambda 2 \<Longrightarrow> formals = Elambda_Formals_Count count \<Longrightarrow> params = Elambda_Opts_Count count + formals \<Longrightarrow>
    rest_flag = Elambda_Rest_Flag count \<Longrightarrow> unat (VECTOR_LENGTH h (MEMORY_REF h lambda 1)) = params + rest_flag + auxes + 1 \<Longrightarrow>
    formals \<le> length args \<Longrightarrow> rest_flag \<noteq> 0 \<or> length args \<le> params \<Longrightarrow>
    frame = extended_frame (Free h) params rest_flag auxes f args \<Longrightarrow> free_words W h (length frame) \<Longrightarrow>
    addressable (Free h + length frame) \<Longrightarrow> h1 = push_list_free frame h \<Longrightarrow>
    evaluates tbl W (MAKE_POINTER_OBJECT TC_ENVIRONMENT (Free h)) (MEMORY_REF h1 lambda 0) h1 need v h' \<Longrightarrow> applies tbl W f args h need v h'"
| Apply_Primitive: "OBJECT_TYPE f = TC_PRIMITIVE \<Longrightarrow> PENDING_INTERRUPTS h = 0 \<Longrightarrow>
    primitive_procedure (tbl (PRIMITIVE_NUMBER f)) = Some procedure \<Longrightarrow> primitive_arity (tbl (PRIMITIVE_NUMBER f)) = int (length args) \<Longrightarrow>
    primitive_performs W procedure args h v h' \<Longrightarrow> applies tbl W f args h 0 v (h'\<lparr>Free_primitive := 0\<rparr>)"
| Apply_Entity: "OBJECT_TYPE f = TC_ENTITY \<Longrightarrow> PENDING_INTERRUPTS h = 0 \<Longrightarrow> visible W f 0 \<Longrightarrow> visible W f 1 \<Longrightarrow>
    \<not> VECTOR_P (MEMORY_REF h f 1) \<Longrightarrow> length args + 2 < 2 ^ 58 \<Longrightarrow> applies tbl W (MEMORY_REF h f 0) (f # args) h n v h' \<Longrightarrow>
    applies tbl W f args h (max (length args + 3) n) v h'"

lemmas evaluation_induct = evaluates_operands_applies.inducts

end
