(* ===== verification/Interp_Correct.thy ===== *)
theory Interp_Correct
  imports Evaluation
begin

text \<open>
  The interpreter runs every evaluation: from \<open>do_expression\<close> it reaches \<open>pop_return\<close> with the value
  in its register, the stack and the history restored, and the visible memory of the evaluation,
  provided that the stack has the room the evaluation needs. The proof is by rule induction;
  one lemma for subproblems and one for reductions carry the cases.
\<close>

section \<open>What is to be shown\<close>

definition runs_to :: "primitives \<Rightarrow> nat set \<Rightarrow> nat set \<Rightarrow> nat set \<Rightarrow> label \<times> interp \<Rightarrow> interp \<Rightarrow> machine \<Rightarrow> ulong \<Rightarrow> bool" where
  "runs_to tbl W V R c s h v \<longleftrightarrow>
     (\<exists>t. reaches tbl c (pop_return, t) \<and> running W V R h t \<and> same_stack s t \<and> reg_val t = v)"

definition sim_eval :: "primitives \<Rightarrow> nat set \<Rightarrow> nat set \<Rightarrow> nat set \<Rightarrow> ulong \<Rightarrow> ulong \<Rightarrow> machine \<Rightarrow> nat \<Rightarrow> ulong \<Rightarrow> machine \<Rightarrow> bool" where
  "sim_eval tbl W V R env e h n v h' \<longleftrightarrow>
     (\<forall>s. running W V R h s \<and> reg_exp s = e \<and> reg_env s = env \<and> stack_guard s + n \<le> stack_pointer s
        \<longrightarrow> runs_to tbl W V R (do_expression, s) s h' v)"

lemma runs_to_prefix: "reaches tbl c c' \<Longrightarrow> runs_to tbl W V R c' s h v \<Longrightarrow> runs_to tbl W V R c s h v"
  unfolding runs_to_def using reaches_trans by blast

lemma runs_to_step: "interpret_at tbl l s = Some (Inr l', s') \<Longrightarrow> runs_to tbl W V R (l', s') t h v \<Longrightarrow> runs_to tbl W V R (l, s) t h v"
  by (rule runs_to_prefix, rule reaches_one, assumption, rule reaches_refl)

lemma runs_to_stack: "same_stack s t \<Longrightarrow> runs_to tbl W V R c t h v \<Longrightarrow> runs_to tbl W V R c s h v"
  unfolding runs_to_def using same_stack_trans by blast

lemma runs_to_now: "running W V R h t \<Longrightarrow> same_stack s t \<Longrightarrow> runs_to tbl W V R (pop_return, t) s h (reg_val t)"
  unfolding runs_to_def using reaches_refl by blast

lemma STEPPING_off [simp]: "\<not> trapping s \<Longrightarrow> STEPPING f s = False"
  by (simp add: STEPPING_def)

lemma begin_evaluation:
  assumes "\<not> trapping s" "eval_dispatch s = Some (Inr l, t)" "runs_to tbl W V R (l, t) u h v"
  shows "runs_to tbl W V R (do_expression, s) u h v"
  by (rule runs_to_step [of _ _ _ eval_non_trapping s], use assms(1) in simp, rule runs_to_step [of _ _ _ l t], use assms in simp_all)

lemma continue_return:
  assumes "\<not> trapping s" "return_dispatch s = Some (Inr l, t)" "runs_to tbl W V R (l, t) u h v"
  shows "runs_to tbl W V R (pop_return, s) u h v"
  by (rule runs_to_step [of _ _ _ pop_return_non_trapping s], use assms(1) in simp, rule runs_to_step [of _ _ _ l t], use assms in simp_all)

section \<open>Continuations\<close>

lemma OBJECT_DATUM_RC [simp]: "rc < 0x100 \<Longrightarrow> OBJECT_DATUM (MAKE_RETURN_CODE rc) = rc"
  by (simp add: MAKE_RETURN_CODE_def OBJECT_DATUM_MAKE_OBJECT word_less_def)

lemma RESTORE_CONT_simps [simp]:
  "reg_val (RESTORE_CONT s) = reg_val s" "reg_env (RESTORE_CONT s) = reg_env s" "reg_exp (RESTORE_CONT s) = STACK_REF s 1"
  "reg_ret (RESTORE_CONT s) = STACK_REF s 0" "stack_pointer (RESTORE_CONT s) = stack_pointer s + 2" "memory (RESTORE_CONT s) = memory s"
  "control_part (RESTORE_CONT s) = control_part s" "STACK_REF (RESTORE_CONT s) i = STACK_REF s (Suc (Suc i))"
  by (simp_all add: RESTORE_CONT_def POP_EXP_def POP_RET_def)

lemma running_RESTORE_CONT: "running W V R h s \<Longrightarrow> stack_pointer s + 2 \<le> stack_end s \<Longrightarrow> running W V R h (RESTORE_CONT s)"
  unfolding RESTORE_CONT_def POP_EXP_def POP_RET_def
  using running_DROP [of W V R h s 1] running_DROP [of W V R h "STACK_DROP 1 s" 1]
  by (simp add: running_def STACK_DROP_def register_defs)

lemma SAVE_CONT_eq: "SAVE_CONT s = STACK_PUSH (reg_ret s) (STACK_PUSH (reg_exp s) s)"
  by (simp add: SAVE_CONT_def PUSH_RET_def PUSH_EXP_def)

lemma SAVE_CONT_simps [simp]:
  "reg_val (SAVE_CONT s) = reg_val s" "reg_env (SAVE_CONT s) = reg_env s" "reg_exp (SAVE_CONT s) = reg_exp s" "reg_ret (SAVE_CONT s) = reg_ret s"
  "stack_pointer (SAVE_CONT s) = stack_pointer s - 2" "control_part (SAVE_CONT s) = control_part s"
  "STACK_REF (SAVE_CONT s) 0 = reg_ret s"
  by (simp_all add: SAVE_CONT_eq)

lemma STACK_REF_SAVE_CONT:
  assumes "2 \<le> stack_pointer s"
  shows "STACK_REF (SAVE_CONT s) (Suc 0) = reg_exp s" "STACK_REF (SAVE_CONT s) (Suc (Suc i)) = STACK_REF s i"
  using assms by (simp_all add: SAVE_CONT_eq)

lemma running_SAVE_CONT:
  assumes "running W V R h s" "stack_guard s + 2 \<le> stack_pointer s"
  shows "running W V R h (SAVE_CONT s)"
  unfolding SAVE_CONT_eq using assms by (intro running_PUSH) simp_all

text \<open>The return from a continuation finds what was saved.\<close>

lemma restored:
  assumes s: "running W V R h s" "stack_guard s + 2 \<le> stack_pointer s" and t: "same_stack (SAVE_CONT s) t" and run: "running W V R h' t"
  shows "same_stack s (RESTORE_CONT t)" "reg_exp (RESTORE_CONT t) = reg_exp s" "reg_ret (RESTORE_CONT t) = reg_ret s"
    "running W V R h' (RESTORE_CONT t)"
proof -
  note d = runningD [OF s(1)]
  have c: "stack_pointer t = stack_pointer s - 2" "stack_end t = stack_end s" "control_part t = control_part s"
    using same_stackD [OF t] control_partD [of "SAVE_CONT s" s] t by (simp_all add: same_stack_def)
  have ref: "STACK_REF t i = STACK_REF (SAVE_CONT s) i" if "stack_pointer s - 2 + i < stack_end s" for i
    using same_stack_REF [OF t, of i] that control_partD [of "SAVE_CONT s" s] by simp
  have "STACK_REF t 0 = reg_ret s" "STACK_REF t 1 = reg_exp s" using ref [of 0] ref [of 1] d(4,5,8) s(2) STACK_REF_SAVE_CONT [of s] by simp_all
  then show "reg_exp (RESTORE_CONT t) = reg_exp s" "reg_ret (RESTORE_CONT t) = reg_ret s" by simp_all
  have "STACK_REF t (Suc (Suc i)) = STACK_REF s i" if "stack_pointer s + i < stack_end s" for i
    using ref [of "Suc (Suc i)"] that s(2) STACK_REF_SAVE_CONT(2) [of s i] by simp
  then show "same_stack s (RESTORE_CONT t)" using c s(2) by (simp add: same_stack_def)
  show "running W V R h' (RESTORE_CONT t)" using running_RESTORE_CONT [OF run] c s(2) d(5) by simp
qed

section \<open>Subproblems and reductions\<close>

text \<open>What holds after a subproblem: its value is there, and the state is that of the call.\<close>

definition resumed :: "nat set \<Rightarrow> nat set \<Rightarrow> nat set \<Rightarrow> interp \<Rightarrow> machine \<Rightarrow> ulong \<Rightarrow> ulong \<Rightarrow> interp \<Rightarrow> bool" where
  "resumed W V R s h v rc t \<longleftrightarrow> running W V R h t \<and> same_stack s t \<and> reg_val t = v \<and> reg_exp t = reg_exp s
     \<and> reg_ret t = MAKE_RETURN_CODE rc"

lemma EXP_visible: "running W V R h s \<Longrightarrow> visible W (reg_exp s) i \<Longrightarrow> EXP_NTH s i = MEMORY_REF h (reg_exp s) i"
  unfolding EXP_NTH_def visible_def using alike_MEMORY_REF runningD(1) by blast

lemma subproblem_with:
  assumes sim: "sim_eval tbl W V R env e h n v h'"
    and s: "running W V R h s" "reg_env s = env" "stack_guard s + n + 2 \<le> stack_pointer s"
      "visible W (reg_exp s) i" "MEMORY_REF h (reg_exp s) i = e"
    and hist: "\<And>x y u. running W V R h u \<Longrightarrow> running W V R h (hist x y u) \<and> same_stack u (hist x y u)"
      "\<And>x y u. reg_exp (hist x y u) = reg_exp u \<and> reg_env (hist x y u) = reg_env u"
    and more: "\<And>t. resumed W V R s h' v rc (RESTORE_CONT t) \<Longrightarrow> \<not> trapping t \<Longrightarrow> runs_to tbl W V R (pop_return, t) u h2 w"
  shows "\<exists>s0. doing_all [SET_RC rc, SAVE_CONT, \<lambda>s. SET_EXP (EXP_NTH s i) s, \<lambda>s. hist (reg_exp s) (reg_env s) s] (goto do_expression) s
      = Some (Inr do_expression, s0) \<and> runs_to tbl W V R (do_expression, s0) u h2 w"
proof -
  let ?a = "SAVE_CONT (SET_RC rc s)"
  let ?b = "SET_EXP (EXP_NTH ?a i) ?a"
  let ?c = "hist (reg_exp ?b) (reg_env ?b) ?b"
  have a: "running W V R h ?a" by (rule running_SAVE_CONT) (use s in simp_all)
  have c: "running W V R h ?c" "same_stack ?b ?c" using hist(1) [of ?b "reg_exp ?b" "reg_env ?b"] a by auto
  have "EXP_NTH ?a i = e" using EXP_visible [OF a, of i] s(4,5) by simp
  then have e: "reg_exp ?c = e" "reg_env ?c = env" using hist(2) s(2) by simp_all
  have "stack_guard ?c + n \<le> stack_pointer ?c" using same_stackD [OF c(2)] s(3) control_partD [of "SET_EXP (EXP_NTH ?a i) ?a" s] by simp
  then have "runs_to tbl W V R (do_expression, ?c) ?c h' v"
    using sim c(1) e unfolding sim_eval_def by blast
  then obtain t where t: "reaches tbl (do_expression, ?c) (pop_return, t)" "running W V R h' t" "same_stack ?c t" "reg_val t = v"
    unfolding runs_to_def by blast
  have "same_stack ?a t" using same_stack_trans [OF c(2) t(3)] by simp
  note r = restored [OF _ _ this t(2)]
  have "resumed W V R s h' v rc (RESTORE_CONT t)"
    unfolding resumed_def using r s t(4) by simp
  then have "runs_to tbl W V R (pop_return, t) u h2 w" using more runningD(6) [OF t(2)] by blast
  then have "runs_to tbl W V R (do_expression, ?c) u h2 w" using t(1) by (rule runs_to_prefix [rotated])
  then show ?thesis by simp
qed

lemma subproblem:
  assumes "sim_eval tbl W V R env e h n v h'"
    and "running W V R h s" "reg_env s = env" "stack_guard s + n + 2 \<le> stack_pointer s"
      "visible W (reg_exp s) i" "MEMORY_REF h (reg_exp s) i = e"
    and "\<And>t. resumed W V R s h' v rc (RESTORE_CONT t) \<Longrightarrow> \<not> trapping t \<Longrightarrow> runs_to tbl W V R (pop_return, t) u h2 w"
  shows "\<exists>s0. DO_NTH_THEN rc i s = Some (Inr do_expression, s0) \<and> runs_to tbl W V R (do_expression, s0) u h2 w"
  unfolding DO_NTH_THEN_def by (rule subproblem_with [OF assms(1-6)]) (use assms(7) running_new_subproblem in simp_all)

lemma subproblem_again:
  assumes "sim_eval tbl W V R env e h n v h'"
    and "running W V R h s" "reg_env s = env" "stack_guard s + n + 2 \<le> stack_pointer s"
      "visible W (reg_exp s) i" "MEMORY_REF h (reg_exp s) i = e"
    and "\<And>t. resumed W V R s h' v rc (RESTORE_CONT t) \<Longrightarrow> \<not> trapping t \<Longrightarrow> runs_to tbl W V R (pop_return, t) u h2 w"
  shows "\<exists>s0. DO_ANOTHER_THEN rc i s = Some (Inr do_expression, s0) \<and> runs_to tbl W V R (do_expression, s0) u h2 w"
  unfolding DO_ANOTHER_THEN_def by (rule subproblem_with [OF assms(1-6)]) (use assms(7) running_reuse_subproblem in simp_all)

text \<open>A reduction uses the stack of the expression it replaces.\<close>

lemma reduction:
  assumes sim: "sim_eval tbl W V R env e h n v h'"
    and s: "running W V R h s" "reg_env s = env" "stack_guard s + n \<le> stack_pointer s" "expression s = e"
  shows "\<exists>s0. REDUCES_TO expression s = Some (Inr do_expression, s0) \<and> runs_to tbl W V R (do_expression, s0) s h' v"
proof -
  let ?b = "SET_EXP (expression s) s"
  let ?c = "new_reduction (reg_exp ?b) (reg_env ?b) ?b"
  have c: "running W V R h ?c" "same_stack s ?c"
    using running_new_reduction [of W V R h ?b "reg_exp ?b" "reg_env ?b"] s(1) by simp_all
  have "stack_guard ?c + n \<le> stack_pointer ?c" using same_stackD [OF c(2)] s(3) by simp
  then have "runs_to tbl W V R (do_expression, ?c) ?c h' v"
    using sim c(1) s(2,4) unfolding sim_eval_def by simp
  then have "runs_to tbl W V R (do_expression, ?c) s h' v" using c(2) runs_to_stack by blast
  then show ?thesis by (simp add: REDUCES_TO_def)
qed

lemma reduction_nth:
  assumes "sim_eval tbl W V R env e h n v h'"
    and s: "running W V R h s" "reg_env s = env" "stack_guard s + n \<le> stack_pointer s" "visible W (reg_exp s) i" "MEMORY_REF h (reg_exp s) i = e"
  shows "\<exists>s0. REDUCES_TO_NTH i s = Some (Inr do_expression, s0) \<and> runs_to tbl W V R (do_expression, s0) s h' v"
  unfolding REDUCES_TO_NTH_def using EXP_visible [OF s(1,4)] s(5) by (intro reduction [OF assms(1-4)]) simp

text \<open>The environment is saved below the continuation.\<close>

lemma PUSH_ENV_simps [simp]:
  "reg_val (PUSH_ENV s) = reg_val s" "reg_env (PUSH_ENV s) = reg_env s" "reg_exp (PUSH_ENV s) = reg_exp s" "reg_ret (PUSH_ENV s) = reg_ret s"
  "stack_pointer (PUSH_ENV s) = stack_pointer s - 1" "control_part (PUSH_ENV s) = control_part s"
  "stack_guard (PUSH_ENV s) = stack_guard s" "stack_end (PUSH_ENV s) = stack_end s"
  "reg_val (POP_ENV s) = reg_val s" "reg_env (POP_ENV s) = STACK_REF s 0" "reg_exp (POP_ENV s) = reg_exp s" "reg_ret (POP_ENV s) = reg_ret s"
  "stack_pointer (POP_ENV s) = stack_pointer s + 1" "control_part (POP_ENV s) = control_part s"
  "stack_guard (POP_ENV s) = stack_guard s" "stack_end (POP_ENV s) = stack_end s" "memory (POP_ENV s) = memory s"
  "STACK_REF (POP_ENV s) i = STACK_REF s (Suc i)" "STACK_REF (PUSH_ENV s) 0 = reg_env s"
  by (simp_all add: PUSH_ENV_def POP_ENV_def)

lemma running_PUSH_ENV: "running W V R h s \<Longrightarrow> stack_guard s < stack_pointer s \<Longrightarrow> running W V R h (PUSH_ENV s)"
  unfolding PUSH_ENV_def by (rule running_PUSH)

lemma popped_env:
  assumes s: "running W V R h s" "stack_guard s < stack_pointer s" and t: "same_stack (PUSH_ENV s) t" "running W V R h' t"
  shows "same_stack s (POP_ENV t)" "reg_env (POP_ENV t) = reg_env s" "running W V R h' (POP_ENV t)"
proof -
  note d = runningD [OF s(1)] and p = same_stack_push [OF t(1) [unfolded PUSH_ENV_def] d(4,5)]
  show "same_stack s (POP_ENV t)" "reg_env (POP_ENV t) = reg_env s"
    using p(1,2) by (simp_all add: POP_ENV_def) (simp_all add: same_stack_def)
  have "stack_pointer t + 1 \<le> stack_end t" using p(3) d(4,5) same_stackD [OF t(1)] by simp
  then have "running W V R h' (STACK_DROP 1 t)" by (rule running_DROP [OF t(2)])
  then show "running W V R h' (POP_ENV t)" by (simp add: POP_ENV_def running_def STACK_DROP_def register_defs)
qed

lemma resumed_end:
  assumes "resumed W V R s h v rc t"
  shows "resumed W V R s h v rc (end_subproblem t)"
  using assms running_end_subproblem [of W V R h t] same_stack_trans [of s t "end_subproblem t"] by (simp add: resumed_def)

text \<open>A subexpression evaluated under a saved environment, and the environment restored.\<close>

lemma resumed_env:
  assumes "resumed W V R (PUSH_ENV s) h' v rc t" "running W V R h s" "stack_guard s < stack_pointer s"
  shows "running W V R h' (POP_ENV t)" "same_stack s (POP_ENV t)" "reg_env (POP_ENV t) = reg_env s" "reg_exp (POP_ENV t) = reg_exp s"
    "reg_val (POP_ENV t) = v" "reg_ret (POP_ENV t) = MAKE_RETURN_CODE rc"
    "stack_guard (POP_ENV t) = stack_guard s" "stack_pointer (POP_ENV t) = stack_pointer s"
proof -
  have t: "running W V R h' t" "same_stack (PUSH_ENV s) t" "reg_val t = v" "reg_exp t = reg_exp s" "reg_ret t = MAKE_RETURN_CODE rc"
    using assms(1) by (simp_all add: resumed_def)
  note p = popped_env [OF assms(2,3) t(2,1)]
  show "running W V R h' (POP_ENV t)" "same_stack s (POP_ENV t)" "reg_env (POP_ENV t) = reg_env s" "reg_exp (POP_ENV t) = reg_exp s"
    "reg_val (POP_ENV t) = v" "reg_ret (POP_ENV t) = MAKE_RETURN_CODE rc"
    "stack_guard (POP_ENV t) = stack_guard s" "stack_pointer (POP_ENV t) = stack_pointer s"
    using p t same_stackD [OF p(1)] by simp_all
qed

section \<open>Expressions without subproblems\<close>

lemma sim_evalI:
  assumes "\<And>s. running W V R h s \<Longrightarrow> reg_exp s = e \<Longrightarrow> reg_env s = env \<Longrightarrow> stack_guard s + n \<le> stack_pointer s \<Longrightarrow> \<not> trapping s
    \<Longrightarrow> runs_to tbl W V R (do_expression, s) s h' v"
  shows "sim_eval tbl W V R env e h n v h'"
  using assms runningD(6) unfolding sim_eval_def by blast

lemma value_delivered:
  assumes "\<not> trapping s" "eval_dispatch s = Some (Inr pop_return, SET_VAL v t)" "running W V R h t" "same_stack s t"
  shows "runs_to tbl W V R (do_expression, s) s h v"
  using begin_evaluation [OF assms(1,2)] runs_to_now [of W V R h "SET_VAL v t" s] assms(3,4) by simp

lemma sim_Self: "self_evaluating e \<Longrightarrow> sim_eval tbl W V R env e h 0 e h"
  by (rule sim_evalI, rule value_delivered [where t = "_ :: interp"])
    (auto simp: eval_dispatch_def self_evaluating_def Let_def)

lemma sim_Quote:
  assumes "OBJECT_TYPE e = TC_SCODE_QUOTE" "visible W e 0"
  shows "sim_eval tbl W V R env e h 0 (MEMORY_REF h e 0) h"
proof (rule sim_evalI)
  fix s assume s: "running W V R h s" "reg_exp s = e" "\<not> trapping s"
  have "EXP_NTH s 0 = MEMORY_REF h e 0" using EXP_visible [OF s(1)] s(2) assms(2) by simp
  then show "runs_to tbl W V R (do_expression, s) s h (MEMORY_REF h e 0)"
    using s assms(1) by (intro value_delivered [of s _ s]) (simp_all add: eval_dispatch_def Let_def)
qed

lemma sim_The_Environment: "OBJECT_TYPE e = TC_THE_ENVIRONMENT \<Longrightarrow> sim_eval tbl W V R env e h 0 env h"
  by (rule sim_evalI, rule value_delivered [where t = "_ :: interp"]) (auto simp: eval_dispatch_def Let_def)

lemma performed:
  assumes "performs W p h r h'" "running W V R h s"
  shows "\<exists>m. p (memory s) = Some (Inr r, m) \<and> running W V R h' (s\<lparr>memory := m\<rparr>) \<and> same_stack s (s\<lparr>memory := m\<rparr>)"
proof -
  obtain m where m: "p (memory s) = Some (Inr r, m)" "alike W m h'" "\<forall>a\<in>W. mem m a = mem (memory s) a"
    using assms(1) runningD(1) [OF assms(2)] unfolding performs_def by blast
  then show ?thesis using running_visible [OF assms(2) m(2)] by (auto simp: calling_simps(1))
qed

lemma VARIABLE_SYMBOL_visible: "running W V R h s \<Longrightarrow> visible W x 0 \<Longrightarrow> VARIABLE_SYMBOL (memory s) x = VARIABLE_SYMBOL h x"
  unfolding VARIABLE_SYMBOL_def visible_def by (rule alike_MEMORY_REF [OF runningD(1)])

lemma sim_Variable:
  assumes "OBJECT_TYPE e = TC_VARIABLE" "visible W e 0" "performs W (lookup_variable env (VARIABLE_SYMBOL h e)) h (PRIM_DONE, Some v) h'"
  shows "sim_eval tbl W V R env e h 0 v h'"
proof (rule sim_evalI)
  fix s assume s: "running W V R h s" "reg_exp s = e" "reg_env s = env" "\<not> trapping s"
  obtain m where m: "eval_variable s = Some (Inr pop_return, SET_VAL v (s\<lparr>memory := m\<rparr>))"
    "running W V R h' (s\<lparr>memory := m\<rparr>)" "same_stack s (s\<lparr>memory := m\<rparr>)"
    using performed [OF assms(3) s(1)] s VARIABLE_SYMBOL_visible [OF s(1) assms(2)] by (auto simp: eval_variable_def calling_simps(1))
  then show "runs_to tbl W V R (do_expression, s) s h' v"
    using s assms(1) by (intro value_delivered [of s _ "s\<lparr>memory := m\<rparr>"]) (simp_all add: eval_dispatch_def Let_def)
qed

lemma sim_Safe_Variable:
  assumes "OBJECT_TYPE e = TC_VARIABLE" "visible W e 0" "visible W e 1"
    "performs W (lookup_variable env (VARIABLE_SYMBOL h e)) h (ERR_UNASSIGNED_VARIABLE, x) h'" "VARIABLE_SAFE_P h' e"
  shows "sim_eval tbl W V R env e h 0 UNASSIGNED_OBJECT h'"
proof (rule sim_evalI)
  fix s assume s: "running W V R h s" "reg_exp s = e" "reg_env s = env" "\<not> trapping s"
  have safe: "VARIABLE_SAFE_P m e" if "running W V R h' (s\<lparr>memory := m\<rparr>)" for m
    using alike_MEMORY_REF [of W m h' e 1] runningD(1) [OF that] assms(3,5) by (simp add: VARIABLE_SAFE_P_def visible_def)
  obtain m where m: "eval_variable s = Some (Inr pop_return, SET_VAL UNASSIGNED_OBJECT (s\<lparr>memory := m\<rparr>))"
    "running W V R h' (s\<lparr>memory := m\<rparr>)" "same_stack s (s\<lparr>memory := m\<rparr>)"
    using performed [OF assms(4) s(1)] s VARIABLE_SYMBOL_visible [OF s(1) assms(2)] safe by (auto simp: eval_variable_def calling_simps(1))
  then show "runs_to tbl W V R (do_expression, s) s h' UNASSIGNED_OBJECT"
    using s assms(1) by (intro value_delivered [of s _ "s\<lparr>memory := m\<rparr>"]) (simp_all add: eval_dispatch_def Let_def)
qed

lemma two_words_made:
  assumes s: "running W V R h s" and free: "pair_at_free W h"
    and second: "second (on_memory (push_free first) (SET_VAL (MAKE_POINTER_OBJECT ty (Free h)) s)) = b"
  shows "\<exists>t. make_two_words ty first second s = SET_VAL (MAKE_POINTER_OBJECT ty (Free h)) t
    \<and> running W V R (push_list_free [first, b] h) t \<and> same_stack s t"
proof -
  have f: "Free (memory s) = Free h" using alike_fields(1) [OF runningD(1) [OF s]] .
  let ?t = "on_memory (push_free b) (on_memory (push_free first) s)"
  have 1: "running W V R (push_free first h) (on_memory (push_free first) s)" "same_stack s (on_memory (push_free first) s)"
    using running_push_free [OF s] free by (simp_all add: pair_at_free_def)
  have 2: "running W V R (push_free b (push_free first h)) ?t" "same_stack (on_memory (push_free first) s) ?t"
    using running_push_free [OF 1(1)] free by (simp_all add: pair_at_free_def)
  have "make_two_words ty first second s = SET_VAL (MAKE_POINTER_OBJECT ty (Free h)) ?t"
    using second by (simp add: make_two_words_def Let_def f on_memory_def register_defs)
  then show ?thesis using 2 same_stack_trans [OF 1(2) 2(2)] by (auto simp: push_list_free_def)
qed

lemma sim_two_words:
  assumes free: "pair_at_free W h"
    and dispatch: "\<And>s. running W V R h s \<Longrightarrow> reg_exp s = e \<Longrightarrow> reg_env s = env \<Longrightarrow>
        \<exists>second. eval_dispatch s = doing (make_two_words ty first second) (goto pop_return) s
          \<and> second (on_memory (push_free first) (SET_VAL (MAKE_POINTER_OBJECT ty (Free h)) s)) = b"
  shows "sim_eval tbl W V R env e h 0 (MAKE_POINTER_OBJECT ty (Free h)) (push_list_free [first, b] h)"
proof (rule sim_evalI)
  fix s assume s: "running W V R h s" "reg_exp s = e" "reg_env s = env" "\<not> trapping s"
  obtain second where d: "eval_dispatch s = doing (make_two_words ty first second) (goto pop_return) s"
    "second (on_memory (push_free first) (SET_VAL (MAKE_POINTER_OBJECT ty (Free h)) s)) = b"
    using dispatch [OF s(1-3)] by blast
  obtain t where t: "make_two_words ty first second s = SET_VAL (MAKE_POINTER_OBJECT ty (Free h)) t"
    "running W V R (push_list_free [first, b] h) t" "same_stack s t"
    using two_words_made [where second = second, OF s(1) free d(2)] by blast
  show "runs_to tbl W V R (do_expression, s) s (push_list_free [first, b] h) (MAKE_POINTER_OBJECT ty (Free h))"
    by (rule value_delivered [OF s(4) _ t(2,3)]) (simp add: d(1) t(1))
qed

lemma sim_Lambda:
  assumes "OBJECT_TYPE e = TC_LAMBDA \<or> OBJECT_TYPE e = TC_LEXPR" "pair_at_free W h"
  shows "sim_eval tbl W V R env e h 0 (MAKE_POINTER_OBJECT TC_PROCEDURE (Free h)) (push_list_free [e, env] h)"
  by (rule sim_two_words [OF assms(2)], rule exI [of _ reg_env]) (use assms(1) in \<open>auto simp: eval_dispatch_def Let_def\<close>)

lemma sim_Extended_Lambda:
  assumes "OBJECT_TYPE e = TC_EXTENDED_LAMBDA" "pair_at_free W h"
  shows "sim_eval tbl W V R env e h 0 (MAKE_POINTER_OBJECT TC_EXTENDED_PROCEDURE (Free h)) (push_list_free [e, env] h)"
  by (rule sim_two_words [OF assms(2)], rule exI [of _ reg_env]) (use assms(1) in \<open>auto simp: eval_dispatch_def Let_def\<close>)

lemma sim_Delay:
  assumes "OBJECT_TYPE e = TC_DELAY" "visible W e 0" "pair_at_free W h" "OBJECT_ADDRESS e < Free h"
  shows "sim_eval tbl W V R env e h 0 (MAKE_POINTER_OBJECT TC_DELAYED (Free h)) (push_list_free [env, MEMORY_REF h e 0] h)"
proof (rule sim_two_words [OF assms(3)], rule exI [of _ "\<lambda>s. EXP_NTH s DELAY_OBJECT"], rule conjI)
  fix s assume s: "running W V R h s" "reg_exp s = e" "reg_env s = env"
  show "eval_dispatch s = doing (make_two_words TC_DELAYED env (\<lambda>s. EXP_NTH s DELAY_OBJECT)) (goto pop_return) s"
    using assms(1) s by (simp add: eval_dispatch_def Let_def)
  show "EXP_NTH (on_memory (push_free env) (SET_VAL (MAKE_POINTER_OBJECT TC_DELAYED (Free h)) s)) DELAY_OBJECT = MEMORY_REF h e 0"
    using EXP_visible [OF s(1), of 0] s(2) assms(2,4) alike_fields(1) [OF runningD(1) [OF s(1)]]
    by (simp add: EXP_NTH_def MEMORY_REF_def)
qed

section \<open>Expressions with subproblems\<close>

lemma sim_Comment:
  assumes "OBJECT_TYPE e = TC_COMMENT" "visible W e 0" "sim_eval tbl W V R env (MEMORY_REF h e 0) h n v h'"
  shows "sim_eval tbl W V R env e h n v h'"
proof (rule sim_evalI)
  fix s assume s: "running W V R h s" "reg_exp s = e" "reg_env s = env" "stack_guard s + n \<le> stack_pointer s" "\<not> trapping s"
  obtain s0 where "REDUCES_TO_NTH 0 s = Some (Inr do_expression, s0)" "runs_to tbl W V R (do_expression, s0) s h' v"
    using reduction_nth [OF assms(3) s(1,3,4), of 0] s(2) assms(2) by auto
  then show "runs_to tbl W V R (do_expression, s) s h' v"
    using begin_evaluation [OF s(5)] assms(1) s(2) by (simp add: eval_dispatch_def Let_def)
qed

text \<open>
  The common part of the expressions that evaluate a subexpression under a saved environment:
  \<open>body\<close> is what the return code does once the continuation is restored.
\<close>

lemma sim_subproblem:
  assumes sub: "visible W e i" "sim_eval tbl W V R env (MEMORY_REF h e i) h n1 p h1"
    and need: "n1 + 3 \<le> n"
    and dispatch: "\<And>s. running W V R h s \<Longrightarrow> reg_exp s = e \<Longrightarrow>
        eval_dispatch s = Will_Push (CONTINUATION_SIZE + 1) (doing PUSH_ENV (PUSH_NTH_THEN rc i)) s"
    and return: "\<And>t. reg_ret (RESTORE_CONT t) = MAKE_RETURN_CODE rc \<Longrightarrow> return_dispatch t = body (RESTORE_CONT t)"
    and finish: "\<And>s t. running W V R h s \<Longrightarrow> reg_exp s = e \<Longrightarrow> reg_env s = env \<Longrightarrow> stack_guard s + n \<le> stack_pointer s \<Longrightarrow>
        resumed W V R (PUSH_ENV s) h1 p rc t \<Longrightarrow> \<exists>l u. body t = Some (Inr l, u) \<and> runs_to tbl W V R (l, u) s h' v"
  shows "sim_eval tbl W V R env e h n v h'"
proof (rule sim_evalI)
  fix s assume s: "running W V R h s" "reg_exp s = e" "reg_env s = env" "stack_guard s + n \<le> stack_pointer s" "\<not> trapping s"
  let ?s = "PUSH_ENV s"
  have run: "running W V R h ?s" using s need by (intro running_PUSH_ENV) simp_all
  have "\<exists>s0. DO_NTH_THEN rc i ?s = Some (Inr do_expression, s0) \<and> runs_to tbl W V R (do_expression, s0) s h' v"
  proof (rule subproblem [OF sub(2) run])
    fix t assume t: "resumed W V R ?s h1 p rc (RESTORE_CONT t)" "\<not> trapping t"
    then obtain l u where u: "body (RESTORE_CONT t) = Some (Inr l, u)" "runs_to tbl W V R (l, u) s h' v"
      using finish [OF s(1-4)] by blast
    have "return_dispatch t = Some (Inr l, u)" using return [of t] t(1) u(1) by (simp add: resumed_def)
    then show "runs_to tbl W V R (pop_return, t) s h' v" by (rule continue_return [OF t(2) _ u(2)])
  qed (use s sub need in simp_all)
  moreover have "CAN_PUSH_P s (CONTINUATION_SIZE + 1)" using s(4) need by (simp add: CAN_PUSH_simps)
  ultimately show "runs_to tbl W V R (do_expression, s) s h' v"
    using begin_evaluation [OF s(5)] dispatch [OF s(1,2)] by (auto simp: PUSH_NTH_THEN_def)
qed

lemma sim_Conditional:
  assumes "OBJECT_TYPE e = TC_CONDITIONAL" "visible W e 0" "sim_eval tbl W V R env (MEMORY_REF h e 0) h n1 p h1"
    and i: "i = (if p = SHARP_F then 2 else 1)" "visible W e i" "sim_eval tbl W V R env (MEMORY_REF h1 e i) h1 n2 v h2"
  shows "sim_eval tbl W V R env e h (max (n1 + 3) n2) v h2"
proof (rule sim_subproblem [OF assms(2,3), where rc = RC_CONDITIONAL_DECIDE and body = conditional_decide])
  fix s t assume s: "running W V R h s" "reg_exp s = e" "reg_env s = env" "stack_guard s + max (n1 + 3) n2 \<le> stack_pointer s"
    and t: "resumed W V R (PUSH_ENV s) h1 p RC_CONDITIONAL_DECIDE t"
  let ?u = "POP_ENV (end_subproblem t)"
  have u: "running W V R h1 ?u" "same_stack s ?u" "reg_env ?u = env" "reg_exp ?u = e" "reg_val ?u = p"
    "stack_guard ?u + n2 \<le> stack_pointer ?u"
    using resumed_env [OF resumed_end [OF t] s(1)] s(2-4) by simp_all
  obtain s0 where "REDUCES_TO_NTH i ?u = Some (Inr do_expression, s0)" "runs_to tbl W V R (do_expression, s0) ?u h2 v"
    using reduction_nth [OF i(3) u(1,3,6)] i(2) u(4) by auto
  then show "\<exists>l s0. conditional_decide t = Some (Inr l, s0) \<and> runs_to tbl W V R (l, s0) s h2 v"
    using runs_to_stack [OF u(2)] u(5) i(1) by (auto simp: conditional_decide_def)
qed (use assms(1) in \<open>simp_all add: eval_dispatch_def return_dispatch_def Let_def\<close>)

lemma resumed_decide:
  assumes "resumed W V R (PUSH_ENV s) h1 p rc t" "running W V R h s" "stack_guard s < stack_pointer s"
  defines "u \<equiv> POP_ENV (end_subproblem t)"
  shows "running W V R h1 u" "same_stack s u" "reg_env u = reg_env s" "reg_exp u = reg_exp s" "reg_val u = p"
    "stack_guard u = stack_guard s" "stack_pointer u = stack_pointer s"
  using resumed_env [OF resumed_end [OF assms(1)] assms(2,3)] by (simp_all add: u_def)

lemma sim_Disjunction_True:
  assumes "OBJECT_TYPE e = TC_DISJUNCTION" "visible W e 0" "sim_eval tbl W V R env (MEMORY_REF h e 0) h n v h'" "v \<noteq> SHARP_F"
  shows "sim_eval tbl W V R env e h (n + 3) v h'"
proof (rule sim_subproblem [OF assms(2,3), where rc = RC_DISJUNCTION_DECIDE and body = disjunction_decide])
  fix s t assume s: "running W V R h s" "reg_exp s = e" "reg_env s = env" "stack_guard s + (n + 3) \<le> stack_pointer s"
    and t: "resumed W V R (PUSH_ENV s) h' v RC_DISJUNCTION_DECIDE t"
  then have u: "running W V R h' (POP_ENV (end_subproblem t))" "same_stack s (POP_ENV (end_subproblem t))"
    "reg_val (POP_ENV (end_subproblem t)) = v"
    using resumed_decide [OF t s(1)] by simp_all
  have "disjunction_decide t = Some (Inr pop_return, POP_ENV (end_subproblem t))" using u(3) assms(4) by (simp add: disjunction_decide_def)
  then show "\<exists>l s0. disjunction_decide t = Some (Inr l, s0) \<and> runs_to tbl W V R (l, s0) s h' v"
    using runs_to_now [OF u(1,2)] u(3) by blast
qed (use assms(1) in \<open>simp_all add: eval_dispatch_def return_dispatch_def Let_def\<close>)

lemma sim_Disjunction_False:
  assumes "OBJECT_TYPE e = TC_DISJUNCTION" "visible W e 0" "sim_eval tbl W V R env (MEMORY_REF h e 0) h n1 SHARP_F h1"
    "visible W e 1" "sim_eval tbl W V R env (MEMORY_REF h1 e 1) h1 n2 v h2"
  shows "sim_eval tbl W V R env e h (max (n1 + 3) n2) v h2"
proof (rule sim_subproblem [OF assms(2,3), where rc = RC_DISJUNCTION_DECIDE and body = disjunction_decide])
  fix s t assume s: "running W V R h s" "reg_exp s = e" "reg_env s = env" "stack_guard s + max (n1 + 3) n2 \<le> stack_pointer s"
    and t: "resumed W V R (PUSH_ENV s) h1 SHARP_F RC_DISJUNCTION_DECIDE t"
  let ?u = "POP_ENV (end_subproblem t)"
  have u: "running W V R h1 ?u" "same_stack s ?u" "reg_env ?u = env" "reg_exp ?u = e" "reg_val ?u = SHARP_F"
    "stack_guard ?u + n2 \<le> stack_pointer ?u"
    using resumed_decide [OF t s(1)] s(2-4) by simp_all
  obtain s0 where "REDUCES_TO_NTH 1 ?u = Some (Inr do_expression, s0)" "runs_to tbl W V R (do_expression, s0) ?u h2 v"
    using reduction_nth [OF assms(5) u(1,3,6), of 1] assms(4) u(4) by auto
  then show "\<exists>l s0. disjunction_decide t = Some (Inr l, s0) \<and> runs_to tbl W V R (l, s0) s h2 v"
    using runs_to_stack [OF u(2)] u(5) by (auto simp: disjunction_decide_def)
qed (use assms(1) in \<open>simp_all add: eval_dispatch_def return_dispatch_def Let_def\<close>)

lemma sim_Sequence:
  assumes "OBJECT_TYPE e = TC_SEQUENCE" "visible W e 0" "sim_eval tbl W V R env (MEMORY_REF h e 0) h n1 p h1"
    "visible W e 1" "sim_eval tbl W V R env (MEMORY_REF h1 e 1) h1 n2 v h2"
  shows "sim_eval tbl W V R env e h (max (n1 + 3) n2) v h2"
proof (rule sim_subproblem [OF assms(2,3), where rc = RC_EXECUTE_SEQUENCE_FINISH
      and body = "doing_all [end_subproblem, POP_ENV] (REDUCES_TO_NTH SEQUENCE_2)"])
  fix s t assume s: "running W V R h s" "reg_exp s = e" "reg_env s = env" "stack_guard s + max (n1 + 3) n2 \<le> stack_pointer s"
    and t: "resumed W V R (PUSH_ENV s) h1 p RC_EXECUTE_SEQUENCE_FINISH t"
  let ?u = "POP_ENV (end_subproblem t)"
  have u: "running W V R h1 ?u" "same_stack s ?u" "reg_env ?u = env" "reg_exp ?u = e" "stack_guard ?u + n2 \<le> stack_pointer ?u"
    using resumed_decide [OF t s(1)] s(2-4) by simp_all
  obtain s0 where "REDUCES_TO_NTH 1 ?u = Some (Inr do_expression, s0)" "runs_to tbl W V R (do_expression, s0) ?u h2 v"
    using reduction_nth [OF assms(5) u(1,3,5), of 1] assms(4) u(4) by auto
  then show "\<exists>l s0. doing_all [end_subproblem, POP_ENV] (REDUCES_TO_NTH SEQUENCE_2) t = Some (Inr l, s0) \<and> runs_to tbl W V R (l, s0) s h2 v"
    using runs_to_stack [OF u(2)] by auto
qed (use assms(1) in \<open>simp_all add: eval_dispatch_def return_dispatch_def Let_def\<close>)

text \<open>The subproblem done and the value of a procedure of the lookup component delivered.\<close>

lemma delivered:
  assumes u: "running W V R h u" "same_stack s u"
  shows "runs_to tbl W V R (pop_return, end_subproblem (SET_VAL v u)) s h v" "runs_to tbl W V R (pop_return, SET_VAL v (end_subproblem u)) s h v"
proof -
  have "running W V R h (end_subproblem (SET_VAL v u))" "same_stack s (end_subproblem (SET_VAL v u))"
    using running_end_subproblem [of W V R h "SET_VAL v u"] u same_stack_trans by auto
  then show "runs_to tbl W V R (pop_return, end_subproblem (SET_VAL v u)) s h v" using runs_to_now by fastforce
  have "running W V R h (SET_VAL v (end_subproblem u))" "same_stack s (SET_VAL v (end_subproblem u))"
    using running_end_subproblem [OF u(1)] same_stack_trans [OF u(2)] by auto
  then show "runs_to tbl W V R (pop_return, SET_VAL v (end_subproblem u)) s h v" using runs_to_now by fastforce
qed

lemma sim_Access:
  assumes "OBJECT_TYPE e = TC_ACCESS" "visible W e 0" "sim_eval tbl W V R env (MEMORY_REF h e 0) h n env' h1" "visible W e 1"
    "performs W (lookup_variable env' (MEMORY_REF h1 e 1)) h1 (PRIM_DONE, Some v) h2"
  shows "sim_eval tbl W V R env e h (n + 2) v h2"
proof (rule sim_evalI)
  fix s assume s: "running W V R h s" "reg_exp s = e" "reg_env s = env" "stack_guard s + (n + 2) \<le> stack_pointer s" "\<not> trapping s"
  have "\<exists>s0. DO_NTH_THEN RC_EXECUTE_ACCESS_FINISH 0 s = Some (Inr do_expression, s0) \<and> runs_to tbl W V R (do_expression, s0) s h2 v"
  proof (rule subproblem [OF assms(3) s(1,3)])
    fix t assume t: "resumed W V R s h1 env' RC_EXECUTE_ACCESS_FINISH (RESTORE_CONT t)" "\<not> trapping t"
    let ?t = "RESTORE_CONT t"
    have r: "running W V R h1 ?t" "same_stack s ?t" "reg_val ?t = env'" "reg_exp ?t = e" "reg_ret ?t = MAKE_RETURN_CODE RC_EXECUTE_ACCESS_FINISH"
      using t(1) s(2) by (simp_all add: resumed_def)
    have name: "EXP_NTH ?t 1 = MEMORY_REF h1 e 1" using EXP_visible [OF r(1), of 1] r(4) assms(4) by simp
    obtain m where m: "lookup_variable env' (MEMORY_REF h1 e 1) (memory ?t) = Some (Inr (PRIM_DONE, Some v), m)"
      "running W V R h2 (?t\<lparr>memory := m\<rparr>)" "same_stack ?t (?t\<lparr>memory := m\<rparr>)" using performed [OF assms(5) r(1)] by blast
    have "return_dispatch t = execute_access_finish ?t" using r(5) by (simp add: return_dispatch_def Let_def)
    also have "\<dots> = Some (Inr pop_return, end_subproblem (SET_VAL v (?t\<lparr>memory := m\<rparr>)))"
      using m(1) r(3) name by (simp add: execute_access_finish_def calling_simps(1))
    finally show "runs_to tbl W V R (pop_return, t) s h2 v"
      by (rule continue_return [OF t(2) _ delivered(1) [OF m(2) same_stack_trans [OF r(2) m(3)]]])
  qed (use s assms in simp_all)
  then show "runs_to tbl W V R (do_expression, s) s h2 v"
    using begin_evaluation [OF s(5)] assms(1) s(2,4) by (auto simp: eval_dispatch_def Let_def PUSH_NTH_THEN_def CAN_PUSH_simps)
qed

lemma sim_Assignment:
  assumes "OBJECT_TYPE e = TC_ASSIGNMENT" "visible W e 1" "sim_eval tbl W V R env (MEMORY_REF h e 1) h n v h1" "visible W e 0"
    and var: "OBJECT_TYPE (MEMORY_REF h1 e 0) = TC_VARIABLE" "visible W (MEMORY_REF h1 e 0) 0"
    and assign: "performs W (assign_variable env (VARIABLE_SYMBOL h1 (MEMORY_REF h1 e 0)) v) h1 (PRIM_DONE, Some val) h2"
  shows "sim_eval tbl W V R env e h (n + 3) val h2"
proof (rule sim_subproblem [OF assms(2,3), where rc = RC_EXECUTE_ASSIGNMENT_FINISH and body = execute_assignment_finish])
  fix s t assume s: "running W V R h s" "reg_exp s = e" "reg_env s = env" "stack_guard s + (n + 3) \<le> stack_pointer s"
    and t: "resumed W V R (PUSH_ENV s) h1 v RC_EXECUTE_ASSIGNMENT_FINISH t"
  note u = resumed_env [OF t s(1)]
  have t1: "running W V R h1 t" "reg_exp t = e" using t s(2) by (simp_all add: resumed_def)
  have variable: "EXP_NTH t 0 = MEMORY_REF h1 e 0" using EXP_visible [OF t1(1), of 0] t1(2) assms(4) by simp
  have name: "VARIABLE_SYMBOL (memory t) (MEMORY_REF h1 e 0) = VARIABLE_SYMBOL h1 (MEMORY_REF h1 e 0)"
    using VARIABLE_SYMBOL_visible [OF t1(1) var(2)] .
  obtain m where m: "assign_variable env (VARIABLE_SYMBOL h1 (MEMORY_REF h1 e 0)) v (memory (POP_ENV t)) = Some (Inr (PRIM_DONE, Some val), m)"
    "running W V R h2 ((POP_ENV t)\<lparr>memory := m\<rparr>)" "same_stack (POP_ENV t) ((POP_ENV t)\<lparr>memory := m\<rparr>)"
    using performed [OF assign, of V R "POP_ENV t"] u(1) s(4) by auto
  have "execute_assignment_finish t = Some (Inr pop_return, end_subproblem (SET_VAL val ((POP_ENV t)\<lparr>memory := m\<rparr>)))"
    using m(1) variable name var(1) u(3,5) s(3,4) by (simp add: execute_assignment_finish_def Let_def calling_simps(1))
  then show "\<exists>l u. execute_assignment_finish t = Some (Inr l, u) \<and> runs_to tbl W V R (l, u) s h2 val"
    using delivered(1) [OF m(2) same_stack_trans [OF u(2) m(3)]] s(4) by auto
qed (use assms(1) in \<open>simp_all add: eval_dispatch_def return_dispatch_def Let_def\<close>)

lemma sim_Definition:
  assumes "OBJECT_TYPE e = TC_DEFINITION" "visible W e 1" "sim_eval tbl W V R env (MEMORY_REF h e 1) h n v h1" "visible W e 0"
    and defines_it: "performs W (define_variable env (MEMORY_REF h1 e 0) v) h1 PRIM_DONE h2"
  shows "sim_eval tbl W V R env e h (n + 3) (MEMORY_REF h1 e 0) h2"
proof (rule sim_subproblem [OF assms(2,3), where rc = RC_EXECUTE_DEFINITION_FINISH and body = execute_definition_finish])
  fix s t assume s: "running W V R h s" "reg_exp s = e" "reg_env s = env" "stack_guard s + (n + 3) \<le> stack_pointer s"
    and t: "resumed W V R (PUSH_ENV s) h1 v RC_EXECUTE_DEFINITION_FINISH t"
  note u = resumed_env [OF t s(1)]
  have t1: "running W V R h1 t" "reg_exp t = e" using t s(2) by (simp_all add: resumed_def)
  have name: "EXP_NTH t 0 = MEMORY_REF h1 e 0" using EXP_visible [OF t1(1), of 0] t1(2) assms(4) by simp
  obtain m where m: "define_variable env (MEMORY_REF h1 e 0) v (memory (POP_ENV t)) = Some (Inr PRIM_DONE, m)"
    "running W V R h2 ((POP_ENV t)\<lparr>memory := m\<rparr>)" "same_stack (POP_ENV t) ((POP_ENV t)\<lparr>memory := m\<rparr>)"
    using performed [OF defines_it, of V R "POP_ENV t"] u(1) s(4) by auto
  have "execute_definition_finish t = Some (Inr pop_return, SET_VAL (MEMORY_REF h1 e 0) (end_subproblem ((POP_ENV t)\<lparr>memory := m\<rparr>)))"
    using m(1) name u(3,5) s(3,4) by (simp add: execute_definition_finish_def Let_def calling_simps(1))
  then show "\<exists>l u. execute_definition_finish t = Some (Inr l, u) \<and> runs_to tbl W V R (l, u) s h2 (MEMORY_REF h1 e 0)"
    using delivered(2) [OF m(2) same_stack_trans [OF u(2) m(3)]] s(4) by auto
qed (use assms(1) in \<open>simp_all add: eval_dispatch_def return_dispatch_def Let_def\<close>)

end
