(* ===== verification/Apply_Correct.thy ===== *)
theory Apply_Correct
  imports Interp_Correct
begin

text \<open>
  The evaluation of operands, the application of procedures, and the theorem that the
  interpreter runs every evaluation of \<open>Evaluation\<close>.
\<close>

section \<open>Operands\<close>

text \<open>The state when a subproblem starts, with its continuation on the stack.\<close>

definition subproblem_started :: "nat set \<Rightarrow> nat set \<Rightarrow> nat set \<Rightarrow> machine \<Rightarrow> interp \<Rightarrow> ulong \<Rightarrow> ulong \<Rightarrow> interp \<Rightarrow> bool" where
  "subproblem_started W V R h s rc e t \<longleftrightarrow> running W V R h t \<and> reg_exp t = e \<and> reg_env t = reg_env s \<and> stack_pointer t = stack_pointer s - 2
     \<and> control_part t = control_part s \<and> STACK_REF t 0 = MAKE_RETURN_CODE rc \<and> STACK_REF t 1 = reg_exp s
     \<and> (\<forall>i. stack_pointer s + i < stack_end s \<longrightarrow> STACK_REF t (Suc (Suc i)) = STACK_REF s i)"

lemma starts_with:
  assumes s: "running W V R h s" "stack_guard s + 2 \<le> stack_pointer s" "visible W (reg_exp s) i"
    and hist: "\<And>x y u. running W V R h u \<Longrightarrow> running W V R h (hist x y u) \<and> same_stack u (hist x y u)"
      "\<And>x y u. reg_exp (hist x y u) = reg_exp u \<and> reg_env (hist x y u) = reg_env u"
  shows "\<exists>t. doing_all [SET_RC rc, SAVE_CONT, \<lambda>s. SET_EXP (EXP_NTH s i) s, \<lambda>s. hist (reg_exp s) (reg_env s) s] (goto do_expression) s
      = Some (Inr do_expression, t) \<and> subproblem_started W V R h s rc (MEMORY_REF h (reg_exp s) i) t"
proof -
  let ?a = "SAVE_CONT (SET_RC rc s)"
  let ?b = "SET_EXP (EXP_NTH ?a i) ?a"
  let ?c = "hist (reg_exp ?b) (reg_env ?b) ?b"
  have a: "running W V R h ?a" by (rule running_SAVE_CONT) (use s in simp_all)
  have "running W V R h ?b" using a by simp
  from hist(1) [OF this, of "reg_exp ?b" "reg_env ?b"] have c: "running W V R h ?c" "same_stack ?a ?c" by simp_all
  have sp: "2 \<le> stack_pointer (SET_RC rc s)" using s(2) by simp
  have e: "EXP_NTH ?a i = MEMORY_REF h (reg_exp s) i" using EXP_visible [OF a, of i] s(3) by simp
  have ref: "STACK_REF ?c j = STACK_REF ?a j" if "stack_pointer s - 2 + j < stack_end s" for j
    using same_stack_REF [OF c(2), of j] that control_partD [of ?a s] by simp
  have "STACK_REF ?c 0 = MAKE_RETURN_CODE rc" "STACK_REF ?c 1 = reg_exp s"
    "\<forall>j. stack_pointer s + j < stack_end s \<longrightarrow> STACK_REF ?c (Suc (Suc j)) = STACK_REF s j"
    using ref [of 0] ref [of 1] ref [of "Suc (Suc _)"] STACK_REF_SAVE_CONT [OF sp] runningD(4,5) [OF s(1)] s(2) by auto
  then have "subproblem_started W V R h s rc (MEMORY_REF h (reg_exp s) i) ?c"
    using c hist(2) e same_stackD [OF c(2)] unfolding subproblem_started_def same_stack_def by simp
  then show ?thesis by simp
qed

lemma starts:
  assumes "running W V R h s" "stack_guard s + 2 \<le> stack_pointer s" "visible W (reg_exp s) i"
  shows "\<exists>t. DO_ANOTHER_THEN rc i s = Some (Inr do_expression, t) \<and> subproblem_started W V R h s rc (MEMORY_REF h (reg_exp s) i) t"
    "\<exists>t. DO_NTH_THEN rc i s = Some (Inr do_expression, t) \<and> subproblem_started W V R h s rc (MEMORY_REF h (reg_exp s) i) t"
  unfolding DO_ANOTHER_THEN_def DO_NTH_THEN_def
  by (rule starts_with [OF assms]; simp add: running_reuse_subproblem running_new_subproblem)+

text \<open>While operands are evaluated the stack has the environment, the finger and the argument slots.\<close>

definition operand_frame :: "ulong \<Rightarrow> ulong \<Rightarrow> nat \<Rightarrow> interp \<Rightarrow> bool" where
  "operand_frame e env k s \<longleftrightarrow> STACK_REF s 0 = MAKE_RETURN_CODE RC_COMB_SAVE_VALUE \<and> STACK_REF s 1 = e \<and> STACK_REF s 2 = env
     \<and> OBJECT_DATUM (STACK_REF s 3) = word_of_nat k \<and> stack_pointer s + 4 + k \<le> stack_end s \<and> k < 2 ^ 58"

definition operands_done :: "nat set \<Rightarrow> nat set \<Rightarrow> nat set \<Rightarrow> machine \<Rightarrow> ulong \<Rightarrow> ulong \<Rightarrow> nat \<Rightarrow> ulong list \<Rightarrow> interp \<Rightarrow> interp \<Rightarrow> bool" where
  "operands_done W V R h e env k args s t \<longleftrightarrow> running W V R h t \<and> reg_exp t = MEMORY_REF h e 1 \<and> reg_env t = env
     \<and> stack_pointer t = stack_pointer s \<and> control_part t = control_part s
     \<and> STACK_REF t 0 = MAKE_RETURN_CODE RC_COMB_APPLY_FUNCTION \<and> STACK_REF t 1 = e \<and> STACK_REF t 2 = MEMORY_REF h e 0
     \<and> (\<forall>i<k. STACK_REF t (4 + i) = args ! i)
     \<and> (\<forall>i\<ge>k. stack_pointer s + (4 + i) < stack_end s \<longrightarrow> STACK_REF t (4 + i) = STACK_REF s (4 + i))"

definition sim_operands :: "primitives \<Rightarrow> nat set \<Rightarrow> nat set \<Rightarrow> nat set \<Rightarrow> ulong \<Rightarrow> ulong \<Rightarrow> nat \<Rightarrow> machine \<Rightarrow> nat \<Rightarrow> ulong list \<Rightarrow> machine \<Rightarrow> bool" where
  "sim_operands tbl W V R env e k h n args h' \<longleftrightarrow> length args = k \<and> (k = 0 \<longrightarrow> h' = h) \<and> (0 < k \<longrightarrow> visible W e (k + 1)) \<and>
     (\<forall>s. 0 < k \<and> visible W e 0 \<and> visible W e 1 \<and> running W V R h s \<and> reg_exp s = MEMORY_REF h e (k + 1) \<and> reg_env s = env
        \<and> stack_guard s + n \<le> stack_pointer s \<and> operand_frame e env k s
        \<longrightarrow> (\<exists>t. reaches tbl (do_expression, s) (do_expression, t) \<and> operands_done W V R h' e env k args s t))"

lemma STACK_LOC_nat [simp]: "STACK_LOC s (int i) = stack_pointer s + i" "STACK_LOC s (1 + int i) = Suc (stack_pointer s + i)"
  by (simp_all add: STACK_LOC_def)

lemma unat_small [simp]: "k < 2 ^ 58 \<Longrightarrow> unat (word_of_nat k :: ulong) = k"
  by (rule unat_of_nat64) simp

lemma unat_uint: "uint (x :: ulong) = int (unat x)"
  by simp

lemma uint_small: "k < 2 ^ 58 \<Longrightarrow> uint (word_of_nat k :: ulong) = int k"
  by (simp only: unat_uint unat_small)

lemma finger_datum: "k < 2 ^ 58 \<Longrightarrow> OBJECT_DATUM (MAKE_OBJECT TC_MANIFEST_NM_VECTOR (word_of_nat k)) = word_of_nat k"
  by (rule OBJECT_DATUM_MAKE_OBJECT) (simp, simp only: uint_small, simp)

text \<open>The value of one operand is stored, and the finger moves to the next.\<close>

definition operand_stored :: "nat \<Rightarrow> ulong \<Rightarrow> interp \<Rightarrow> interp" where
  "operand_stored k v s = STACK_SET 0 (MAKE_OBJECT TC_MANIFEST_NM_VECTOR (word_of_nat k)) (STACK_SET (Suc k) v s)"

lemma comb_save_value_eq:
  assumes "OBJECT_DATUM (STACK_REF s 1) = word_of_nat (Suc k)" "Suc k < 2 ^ 58"
  shows "comb_save_value s =
    (let q = operand_stored k (reg_val s) (POP_ENV s)
     in if 0 < k then DO_ANOTHER_THEN RC_COMB_SAVE_VALUE (Suc k) (PUSH_ENV q)
        else DO_ANOTHER_THEN RC_COMB_APPLY_FUNCTION 1 (STACK_PUSH (EXP_NTH q 0) q))"
proof -
  have "unat (OBJECT_DATUM (STACK_REF s (Suc 0))) = Suc k" using assms unat_small [of "Suc k"] by simp
  then have n: "uint (OBJECT_DATUM (STACK_REF s (Suc 0))) = 1 + int k" unfolding unat_uint by simp
  have d: "OBJECT_DATUM (STACK_REF s (Suc 0)) - 1 = word_of_nat k" using assms(1) by simp
  have loc: "STACK_LOC t (1 + int k) = stack_pointer t + Suc k" for t by (simp add: STACK_LOC_def)
  show ?thesis by (simp add: comb_save_value_def Let_def n d operand_stored_def loc STACK_SET_def)
qed

text \<open>The state once the operand is stored and the environment popped.\<close>

lemma four_plus: "(4 :: nat) + i = Suc (Suc (Suc (Suc i)))"
  by simp

lemma SET_limits [simp]: "stack_end (STACK_SET i v s) = stack_end s" "stack_guard (STACK_SET i v s) = stack_guard s"
  by (simp_all add: STACK_SET_def)

lemma stored_operand:
  assumes t: "running W V R h t" "operand_frame e env (Suc k) t"
  defines "q \<equiv> operand_stored k (reg_val t) (POP_ENV (RESTORE_CONT t))"
  shows "running W V R h q" "reg_exp q = e" "reg_env q = env" "stack_pointer q = stack_pointer t + 3" "control_part q = control_part t"
    "stack_end q = stack_end t" "stack_guard q = stack_guard t"
    "STACK_REF q 0 = MAKE_OBJECT TC_MANIFEST_NM_VECTOR (word_of_nat k)"
    "STACK_REF q (Suc i) = (if i = k then reg_val t else STACK_REF t (4 + i))"
proof -
  note f = t(2) [unfolded operand_frame_def]
  have u: "running W V R h (RESTORE_CONT t)" using running_RESTORE_CONT [OF t(1)] f by simp
  have c: "stack_end (RESTORE_CONT t) = stack_end t" "stack_guard (RESTORE_CONT t) = stack_guard t"
    using control_partD [of "RESTORE_CONT t" t] by simp_all
  have "running W V R h (STACK_DROP 1 (RESTORE_CONT t))" using running_DROP [OF u, of 1] f c by simp
  then have "running W V R h (POP_ENV (RESTORE_CONT t))" by (simp add: POP_ENV_def running_def STACK_DROP_def register_defs)
  then show "running W V R h q" unfolding q_def operand_stored_def using f c by (intro running_SET) simp_all
  show "reg_exp q = e" "reg_env q = env" "stack_pointer q = stack_pointer t + 3" "control_part q = control_part t"
    "STACK_REF q 0 = MAKE_OBJECT TC_MANIFEST_NM_VECTOR (word_of_nat k)"
    "STACK_REF q (Suc i) = (if i = k then reg_val t else STACK_REF t (4 + i))"
    using f by (simp_all add: q_def operand_stored_def numeral_2_eq_2 numeral_3_eq_3) (simp_all add: four_plus)
  then show "stack_end q = stack_end t" "stack_guard q = stack_guard t" using control_partD [of q t] by simp_all
qed

lemma operand_returns:
  assumes t: "running W V R h t" "operand_frame e env (Suc k) t"
    and next_step: "(let q = operand_stored k (reg_val t) (POP_ENV (RESTORE_CONT t))
       in if 0 < k then DO_ANOTHER_THEN RC_COMB_SAVE_VALUE (Suc k) (PUSH_ENV q)
          else DO_ANOTHER_THEN RC_COMB_APPLY_FUNCTION 1 (STACK_PUSH (EXP_NTH q 0) q)) = Some (Inr l, s)"
  shows "reaches tbl (pop_return, t) (l, s)"
proof -
  note f = t(2) [unfolded operand_frame_def]
  have rc: "reg_ret (RESTORE_CONT t) = MAKE_RETURN_CODE RC_COMB_SAVE_VALUE" using f by simp
  have "comb_save_value (RESTORE_CONT t) = Some (Inr l, s)"
    using next_step comb_save_value_eq [of "RESTORE_CONT t" k] f by (simp add: numeral_3_eq_3)
  then have "return_dispatch t = Some (Inr l, s)" unfolding return_dispatch_def code_simps rc by (simp add: Let_def)
  then show ?thesis
    using runningD(6) [OF t(1)] by (intro reaches_one [of _ pop_return t pop_return_non_trapping t] reaches_one [of _ _ t l s] reaches_refl) simp_all
qed

text \<open>One operand stored, the interpreter evaluates the next, or the operator.\<close>

lemma next_operand:
  assumes t: "running W V R h t" "operand_frame e env (Suc k) t" "stack_guard t \<le> stack_pointer t" and k: "0 < k" "visible W e (k + 1)"
  shows "\<exists>s. reaches tbl (pop_return, t) (do_expression, s) \<and> running W V R h s \<and> reg_exp s = MEMORY_REF h e (k + 1) \<and> reg_env s = env
    \<and> stack_pointer s = stack_pointer t \<and> control_part s = control_part t \<and> operand_frame e env k s
    \<and> (\<forall>i. stack_pointer t + (4 + i) < stack_end t \<longrightarrow> STACK_REF s (4 + i) = (if i = k then reg_val t else STACK_REF t (4 + i)))"
proof -
  let ?q = "operand_stored k (reg_val t) (POP_ENV (RESTORE_CONT t))"
  note f = t(2) [unfolded operand_frame_def] and q = stored_operand [OF t(1,2)]
  have p: "running W V R h (PUSH_ENV ?q)" using q(1,4,7) t(3) by (intro running_PUSH_ENV) simp_all
  obtain s where s: "DO_ANOTHER_THEN RC_COMB_SAVE_VALUE (Suc k) (PUSH_ENV ?q) = Some (Inr do_expression, s)"
    "subproblem_started W V R h (PUSH_ENV ?q) RC_COMB_SAVE_VALUE (MEMORY_REF h e (Suc k)) s"
    using starts(1) [OF p, where rc = RC_COMB_SAVE_VALUE and i = "Suc k"] q t(3) k by auto
  note st = s(2) [unfolded subproblem_started_def]
  have ref: "STACK_REF s (Suc (Suc (Suc i))) = STACK_REF ?q i" if "stack_pointer ?q + i < stack_end t" for i
  proof -
    have "STACK_REF s (Suc (Suc (Suc i))) = STACK_REF (PUSH_ENV ?q) (Suc i)" using st that q(4,6) by simp
    also have "\<dots> = STACK_REF ?q i" using q(4) by (simp add: PUSH_ENV_def)
    finally show ?thesis .
  qed
  have "STACK_REF s 2 = env" using st q(3,4,6) f by (auto simp: numeral_2_eq_2 dest: spec [of _ 0])
  moreover have "OBJECT_DATUM (STACK_REF s 3) = word_of_nat k" using ref [of 0] q(4,8) f finger_datum [of k] by (simp add: numeral_3_eq_3)
  moreover have "stack_end s = stack_end t" using st q(5) control_partD [of s t] by simp
  ultimately have "operand_frame e env k s" using st q f unfolding operand_frame_def by simp
  moreover have "\<forall>i. stack_pointer t + (4 + i) < stack_end t \<longrightarrow> STACK_REF s (4 + i) = (if i = k then reg_val t else STACK_REF t (4 + i))"
    using ref [of "Suc _"] q(4,9) by (simp add: four_plus)
  moreover have "reaches tbl (pop_return, t) (do_expression, s)" using s(1) k(1) by (intro operand_returns [OF t(1,2)]) (simp add: Let_def)
  ultimately show ?thesis using st q by (intro exI [of _ s]) simp
qed

lemma operator_next:
  assumes t: "running W V R h t" "operand_frame e env (Suc 0) t" "stack_guard t \<le> stack_pointer t" and vis: "visible W e 0" "visible W e 1"
  shows "\<exists>s. reaches tbl (pop_return, t) (do_expression, s) \<and> operands_done W V R h e env 1 [reg_val t] t s"
proof -
  let ?q = "operand_stored 0 (reg_val t) (POP_ENV (RESTORE_CONT t))"
  let ?p = "STACK_PUSH (EXP_NTH ?q 0) ?q"
  note f = t(2) [unfolded operand_frame_def] and q = stored_operand [OF t(1,2)]
  have p: "running W V R h ?p" using q(1,4,7) t(3) by (intro running_PUSH) simp_all
  have header: "EXP_NTH ?q 0 = MEMORY_REF h e 0" using EXP_visible [OF q(1), of 0] q(2) vis(1) by simp
  obtain s where s: "DO_ANOTHER_THEN RC_COMB_APPLY_FUNCTION 1 ?p = Some (Inr do_expression, s)"
    "subproblem_started W V R h ?p RC_COMB_APPLY_FUNCTION (MEMORY_REF h e 1) s"
    using starts(1) [OF p, where rc = RC_COMB_APPLY_FUNCTION and i = 1] q t(3) vis by auto
  note st = s(2) [unfolded subproblem_started_def]
  have ref: "STACK_REF s (Suc (Suc i)) = STACK_REF ?p i" if "stack_pointer t + (2 + i) < stack_end t" for i
    using st that q(4,6) by simp
  have "STACK_REF s 2 = MEMORY_REF h e 0" using ref [of 0] f header by (simp add: numeral_2_eq_2)
  moreover have arg: "STACK_REF s (4 + i) = (if i = 0 then reg_val t else STACK_REF t (4 + i))" if "stack_pointer t + (4 + i) < stack_end t" for i
    using ref [of "Suc (Suc i)"] that q(4,9) by (simp add: four_plus)
  moreover have "STACK_REF s 4 = reg_val t" using arg [of 0] f by simp
  moreover have "reaches tbl (pop_return, t) (do_expression, s)" using s(1) by (intro operand_returns [OF t(1,2)]) (simp add: Let_def)
  ultimately show ?thesis using st q f by (intro exI [of _ s]) (simp add: operands_done_def)
qed

lemma sim_No_Operands: "sim_operands tbl W V R env e 0 h 0 [] h"
  by (simp add: sim_operands_def)

lemma sim_operandsI:
  assumes "length args = Suc k" "visible W e (Suc k + 1)"
    and "\<And>s. visible W e 0 \<Longrightarrow> visible W e 1 \<Longrightarrow> running W V R h s \<Longrightarrow> reg_exp s = MEMORY_REF h e (Suc k + 1) \<Longrightarrow> reg_env s = env
      \<Longrightarrow> stack_guard s + n \<le> stack_pointer s \<Longrightarrow> operand_frame e env (Suc k) s
      \<Longrightarrow> \<exists>t. reaches tbl (do_expression, s) (do_expression, t) \<and> operands_done W V R h' e env (Suc k) args s t"
  shows "sim_operands tbl W V R env e (Suc k) h n args h'"
  using assms unfolding sim_operands_def by simp

lemma sim_Operand:
  assumes e: "visible W e (k + 2)" "sim_eval tbl W V R env (MEMORY_REF h e (k + 2)) h n1 v h1"
    and rest: "sim_operands tbl W V R env e k h1 n2 args h2"
  shows "sim_operands tbl W V R env e (Suc k) h (max n1 n2) (args @ [v]) h2"
proof (rule sim_operandsI)
  show "length (args @ [v]) = Suc k" using rest by (simp add: sim_operands_def)
  show "visible W e (Suc k + 1)" using e(1) by simp
  fix s assume vis: "visible W e 0" "visible W e 1" and s: "running W V R h s" "reg_exp s = MEMORY_REF h e (Suc k + 1)" "reg_env s = env"
    "stack_guard s + max n1 n2 \<le> stack_pointer s" and frame: "operand_frame e env (Suc k) s"
  have "runs_to tbl W V R (do_expression, s) s h1 v"
    using e(2) s unfolding sim_eval_def by simp
  then obtain t where t: "reaches tbl (do_expression, s) (pop_return, t)" "running W V R h1 t" "same_stack s t" "reg_val t = v"
    unfolding runs_to_def by blast
  note c = same_stackD [OF t(3)] and f = frame [unfolded operand_frame_def]
  have ref: "STACK_REF t i = STACK_REF s i" if "stack_pointer s + i < stack_end s" for i using same_stack_REF [OF t(3)] that .
  have tf: "operand_frame e env (Suc k) t" using frame ref [of 0] ref [of 1] ref [of 2] ref [of 3] c by (simp add: operand_frame_def)
  have guard: "stack_guard t \<le> stack_pointer t" using runningD(7) [OF t(2)] .
  show "\<exists>u. reaches tbl (do_expression, s) (do_expression, u) \<and> operands_done W V R h2 e env (Suc k) (args @ [v]) s u"
  proof (cases "k = 0")
    case True
    then have args: "args = []" "h2 = h1" using rest by (auto simp: sim_operands_def)
    obtain u where u: "reaches tbl (pop_return, t) (do_expression, u)" "operands_done W V R h1 e env 1 [reg_val t] t u"
      using operator_next [OF t(2) _ guard vis] tf True by auto
    have "operands_done W V R h2 e env (Suc k) (args @ [v]) s u"
      using u(2) c t(3,4) args True ref unfolding operands_done_def by (auto simp: same_stack_def)
    then show ?thesis using reaches_trans [OF t(1) u(1)] by blast
  next
    case False
    then obtain s1 where s1: "reaches tbl (pop_return, t) (do_expression, s1)" "running W V R h1 s1" "reg_exp s1 = MEMORY_REF h1 e (k + 1)"
      "reg_env s1 = env" "stack_pointer s1 = stack_pointer t" "control_part s1 = control_part t" "operand_frame e env k s1"
      "\<And>i. stack_pointer t + (4 + i) < stack_end t \<Longrightarrow> STACK_REF s1 (4 + i) = (if i = k then reg_val t else STACK_REF t (4 + i))"
      using next_operand [OF t(2) tf guard, of] rest unfolding sim_operands_def by blast
    obtain u where u: "reaches tbl (do_expression, s1) (do_expression, u)" "operands_done W V R h2 e env k args s1 u"
      using rest vis s1(2-7) False s(4) c control_partD [OF s1(6)] unfolding sim_operands_def by auto
    have len: "length args = k" using rest by (simp add: sim_operands_def)
    have "operands_done W V R h2 e env (Suc k) (args @ [v]) s u"
      using u(2) s1(5,6,8) c t(3,4) ref control_partD [OF s1(6)] len f unfolding operands_done_def
      by (auto simp: same_stack_def nth_append less_Suc_eq)
    then show ?thesis using reaches_trans [OF t(1) reaches_trans [OF s1(1) u(1)]] by blast
  qed
qed

section \<open>Frames\<close>

definition frame_on :: "ulong \<Rightarrow> ulong list \<Rightarrow> interp \<Rightarrow> bool" where
  "frame_on f args s \<longleftrightarrow> APPLY_FRAME_SIZE s = word_of_nat (length args + 1) \<and> APPLY_FRAME_PROCEDURE s = f
     \<and> (\<forall>i<length args. STACK_REF s (2 + i) = args ! i) \<and> stack_pointer s + 2 + length args \<le> stack_end s \<and> length args + 1 < 2 ^ 58"

definition sim_apply :: "primitives \<Rightarrow> nat set \<Rightarrow> nat set \<Rightarrow> nat set \<Rightarrow> ulong \<Rightarrow> ulong list \<Rightarrow> machine \<Rightarrow> nat \<Rightarrow> ulong \<Rightarrow> machine \<Rightarrow> bool" where
  "sim_apply tbl W V R f args h n v h' \<longleftrightarrow>
     (\<forall>s. running W V R h s \<and> frame_on f args s \<and> stack_guard s + n \<le> stack_pointer s + 2 + length args
        \<longrightarrow> runs_to tbl W V R (internal_apply, s) (STACK_DROP (2 + length args) s) h' v)"

lemma apply_reaches:
  assumes s: "running W V R h s" "PENDING_INTERRUPTS h = 0" "frame_on f args s"
    and l: "apply_function tbl f s = Some (Inr l, t)" "runs_to tbl W V R (l, t) u h' v"
  shows "runs_to tbl W V R (internal_apply, s) u h' v"
proof -
  have "PENDING_INTERRUPTS (memory s) = 0"
    using s(2) alike_fields [OF runningD(1) [OF s(1)]] by (simp add: PENDING_INTERRUPTS_def)
  then have p: "\<not> PENDING_INTERRUPTS_P s" by (simp add: PENDING_INTERRUPTS_P_def)
  have f: "APPLY_FRAME_PROCEDURE s = f" using s(3) by (simp add: frame_on_def)
  show ?thesis
    by (rule runs_to_step [of _ internal_apply s Apply_Non_Trapping s], use runningD(6) [OF s(1)] in simp,
        rule runs_to_step [of _ _ s perform_application s], use p in \<open>simp add: Apply_Non_Trapping_block_def\<close>,
        rule runs_to_step [of _ _ s "apply_dispatch f" s], use f in simp,
        rule runs_to_step [of _ _ s l t], use l in simp_all)
qed

text \<open>Words moved from the stack to the heap.\<close>

definition moved :: "nat set \<Rightarrow> nat set \<Rightarrow> nat set \<Rightarrow> machine \<Rightarrow> interp \<Rightarrow> nat \<Rightarrow> ulong list \<Rightarrow> interp \<Rightarrow> bool" where
  "moved W V R h s n ws t \<longleftrightarrow> running W V R (push_list_free ws h) t \<and> same_stack (STACK_DROP n s) t \<and> reg_env t = reg_env s"

lemma push_list_free_append: "push_list_free (ws @ vs) h = push_list_free vs (push_list_free ws h)"
  by (simp add: push_list_free_def)

lemma Free_push_list: "Free (push_list_free ws h) = Free h + length ws"
  by (induction ws arbitrary: h) (simp_all add: push_list_free_def push_free_def)

lemma same_stack_DROP:
  assumes "same_stack s t" shows "same_stack (STACK_DROP n s) (STACK_DROP n t)"
  using assms control_partD [of "STACK_DROP n s" s] by (auto simp: same_stack_def)

lemma DROP_DROP [simp]: "STACK_DROP m (STACK_DROP n s) = STACK_DROP (n + m) s"
  by (simp add: STACK_DROP_def add.assoc)

lemma moved_trans:
  assumes "moved W V R h s n ws t" "moved W V R (push_list_free ws h) t n' vs u"
  shows "moved W V R h s (n + n') (ws @ vs) u"
  using assms same_stack_trans [OF same_stack_DROP [of "STACK_DROP n s" t n']] by (simp add: moved_def push_list_free_append)

lemma moved_none: "running W V R h s \<Longrightarrow> moved W V R h s 0 [] s"
  by (simp add: moved_def push_list_free_def) (simp add: STACK_DROP_def)

lemma moved_drop:
  assumes "moved W V R h s n ws t" "stack_pointer s + n + m \<le> stack_end s"
  shows "moved W V R h s (n + m) ws (STACK_DROP m t)"
  using assms same_stackD [of "STACK_DROP n s" t] running_DROP [of W V R _ t m] same_stack_DROP [of "STACK_DROP n s" t m]
  by (simp add: moved_def)

lemma moved_push_free: "running W V R h s \<Longrightarrow> Free h \<notin> W \<Longrightarrow> moved W V R h s 0 [w] (on_memory (push_free w) s)"
  using running_push_free [of W V R h s w] by (simp add: moved_def push_list_free_def) (simp add: STACK_DROP_def)

lemma free_words_nth:
  assumes "free_words W h n" shows "\<forall>i<n. Free h + i \<notin> W" "\<not> GC_NEEDED_P h n"
  using assms by (auto simp: free_words_def disjoint_iff)

lemma moved_pop:
  assumes "running W V R h s" "\<forall>i<length ws. STACK_REF s i = ws ! i" "stack_pointer s + length ws \<le> stack_end s"
    "\<forall>i<length ws. Free h + i \<notin> W"
  shows "moved W V R h s (length ws) ws (pop_to_free (length ws) s)"
  using assms
proof (induction ws arbitrary: h s)
  case Nil
  then show ?case by (simp add: moved_none)
next
  case (Cons w ws)
  let ?s = "STACK_DROP 1 (on_memory (push_free (STACK_REF s 0)) s)"
  have w: "STACK_REF s 0 = w" using Cons.prems(2) by auto
  have "Free h \<notin> W" using Cons.prems(4) by fastforce
  then have "moved W V R h s (0 + 1) [w] ?s"
    using moved_drop [OF moved_push_free [OF Cons.prems(1)]] Cons.prems(3) w by simp
  then have c: "moved W V R h s 1 [w] ?s" by simp
  then have s1: "running W V R (push_list_free [w] h) ?s" "same_stack (STACK_DROP 1 s) ?s" by (simp_all add: moved_def)
  have "moved W V R (push_list_free [w] h) ?s (length ws) ws (pop_to_free (length ws) ?s)"
  proof (rule Cons.IH [OF s1(1)])
    show "\<forall>i<length ws. STACK_REF ?s i = ws ! i"
      using Cons.prems(2,3) same_stack_REF [OF s1(2)] by (auto simp del: pop_to_free.simps)
    show "stack_pointer ?s + length ws \<le> stack_end ?s" using Cons.prems(3) by simp
    show "\<forall>i<length ws. Free (push_list_free [w] h) + i \<notin> W"
      using Cons.prems(4) by (fastforce simp: Free_push_list)
  qed
  then show ?case using moved_trans [OF c] by simp
qed

lemma moved_fill:
  assumes "running W V R h s" "\<forall>i<n. Free h + i \<notin> W"
  shows "moved W V R h s 0 (replicate n w) (fill_free_words n w s)"
  using assms
proof (induction n arbitrary: h s)
  case 0
  then show ?case by (simp add: moved_none)
next
  case (Suc n)
  have "Free h \<notin> W" using Suc.prems(2) by fastforce
  then have c: "moved W V R h s 0 [w] (on_memory (push_free w) s)" using moved_push_free [OF Suc.prems(1)] by blast
  have "moved W V R (push_list_free [w] h) (on_memory (push_free w) s) 0 (replicate n w) (fill_free_words n w (on_memory (push_free w) s))"
    by (rule Suc.IH) (use c Suc.prems(2) in \<open>fastforce simp: moved_def Free_push_list\<close>)+
  then show ?case using moved_trans [OF c] by simp
qed

section \<open>Applications\<close>

lemma frame_onD:
  assumes "frame_on f args s"
  shows "APPLY_FRAME_SIZE s = word_of_nat (length args + 1)" "unat (APPLY_FRAME_SIZE s) = length args + 1" "STACK_REF s (Suc 0) = f"
    "i < length args \<Longrightarrow> STACK_REF s (2 + i) = args ! i" "stack_pointer s + 2 + length args \<le> stack_end s"
    "APPLY_FRAME_N_ARGS s = word_of_nat (length args)" "unat (APPLY_FRAME_N_ARGS s) = length args"
proof -
  show 1: "APPLY_FRAME_SIZE s = word_of_nat (length args + 1)" "STACK_REF s (Suc 0) = f" "stack_pointer s + 2 + length args \<le> stack_end s"
    using assms by (simp_all add: frame_on_def APPLY_FRAME_PROCEDURE_def)
  show "i < length args \<Longrightarrow> STACK_REF s (2 + i) = args ! i" using assms by (simp add: frame_on_def)
  have n: "length args + 1 < 2 ^ 58" "length args < 2 ^ 58" using assms by (simp_all add: frame_on_def)
  show "unat (APPLY_FRAME_SIZE s) = length args + 1" unfolding 1(1) by (rule unat_small [OF n(1)])
  show 2: "APPLY_FRAME_N_ARGS s = word_of_nat (length args)"
    using 1(1) by (simp add: APPLY_FRAME_N_ARGS_def APPLY_FRAME_HEADER_N_ARGS_def APPLY_FRAME_SIZE_def)
  show "unat (APPLY_FRAME_N_ARGS s) = length args" unfolding 2 by (rule unat_small [OF n(2)])
qed

lemma frame_word_nth:
  assumes "frame_on f args s" "i < Suc (length args)"
  shows "STACK_REF s (Suc i) = (f # args) ! i"
  using frame_onD(3) [OF assms(1)] frame_onD(4) [OF assms(1), of "i - 1"] assms(2) by (cases i) (simp_all add: numeral_2_eq_2)

text \<open>The frame, or its first words, moved to the heap after its header.\<close>

lemma moved_frame:
  assumes s: "running W V R h s" "frame_on f args s" and free: "\<forall>i<Suc k. Free h + i \<notin> W" and k: "k \<le> length args + 1"
  shows "moved W V R h s (Suc k) (w # take k (f # args)) (pop_to_free k (STACK_DROP 1 (on_memory (push_free w) s)))"
proof -
  let ?t = "STACK_DROP 1 (on_memory (push_free w) s)"
  have "Free h \<notin> W" using free by fastforce
  then have "moved W V R h s (0 + 1) [w] ?t" by (intro moved_drop [OF moved_push_free [OF s(1)]]) (use frame_onD(5) [OF s(2)] in auto)
  then have c: "moved W V R h s 1 [w] ?t" by simp
  then have t: "running W V R (push_list_free [w] h) ?t" "same_stack (STACK_DROP 1 s) ?t" by (simp_all add: moved_def)
  have "moved W V R (push_list_free [w] h) ?t (length (take k (f # args))) (take k (f # args)) (pop_to_free (length (take k (f # args))) ?t)"
  proof (rule moved_pop [OF t(1)])
    show "\<forall>i<length (take k (f # args)). STACK_REF ?t i = take k (f # args) ! i"
    proof (intro allI impI)
      fix i assume i: "i < length (take k (f # args))"
      then have "STACK_REF ?t i = STACK_REF (STACK_DROP 1 s) i" using frame_onD(5) [OF s(2)] by (intro same_stack_REF [OF t(2)]) auto
      also have "\<dots> = (f # args) ! i" using frame_word_nth [OF s(2), of i] i by simp
      finally show "STACK_REF ?t i = take k (f # args) ! i" using i by simp
    qed
    show "stack_pointer ?t + length (take k (f # args)) \<le> stack_end ?t" using frame_onD(5) [OF s(2)] by simp
    show "\<forall>i<length (take k (f # args)). Free (push_list_free [w] h) + i \<notin> W" using free by (fastforce simp: Free_push_list)
  qed
  moreover have "length (take k (f # args)) = k" using k by simp
  ultimately show ?thesis using moved_trans [OF c] by fastforce
qed

lemma MEMORY_REF_visible: "running W V R h s \<Longrightarrow> visible W x i \<Longrightarrow> MEMORY_REF (memory s) x i = MEMORY_REF h x i"
  unfolding visible_def using alike_MEMORY_REF runningD(1) by blast

lemma VECTOR_LENGTH_visible: "running W V R h s \<Longrightarrow> visible W x 0 \<Longrightarrow> VECTOR_LENGTH (memory s) x = VECTOR_LENGTH h x"
  using MEMORY_REF_visible [of W V R h s x 0] by (simp add: VECTOR_LENGTH_def)

text \<open>A body run in the environment of the frame.\<close>

lemma DROP_SET_ENV: "same_stack (STACK_DROP n s) (STACK_DROP n (SET_ENV env s))"
  by (rule same_stack_DROP) simp

lemma body_reduction:
  assumes sim: "sim_eval tbl W V R env e h1 need v h'" and h1: "h1 = push_list_free ws h"
    and t: "moved W V R h (SET_ENV env s) (2 + k) ws t" "stack_guard s + need \<le> stack_pointer s + 2 + k"
    and e: "visible W lambda i" "MEMORY_REF h1 lambda i = e"
  shows "\<exists>s0. REDUCES_TO (\<lambda>s. MEMORY_REF (memory s) lambda i) t = Some (Inr do_expression, s0)
    \<and> runs_to tbl W V R (do_expression, s0) (STACK_DROP (2 + k) s) h' v"
proof -
  have r: "running W V R h1 t" "reg_env t = env" "same_stack (STACK_DROP (2 + k) s) t"
    using t(1) h1 same_stack_trans [OF DROP_SET_ENV [of "2 + k" s env]] by (simp_all add: moved_def)
  have "\<exists>s0. REDUCES_TO (\<lambda>s. MEMORY_REF (memory s) lambda i) t = Some (Inr do_expression, s0) \<and> runs_to tbl W V R (do_expression, s0) t h' v"
    by (rule reduction [OF sim r(1,2)]) (use same_stackD [OF r(3)] t(2) MEMORY_REF_visible [OF r(1) e(1)] e(2) in simp_all)
  then show ?thesis using runs_to_stack [OF r(3)] by blast
qed

lemma frame_on_SET_ENV: "frame_on f args s \<Longrightarrow> frame_on f args (SET_ENV env s)"
  by (simp add: frame_on_def APPLY_FRAME_SIZE_def APPLY_FRAME_PROCEDURE_def)

lemma sim_applyI:
  assumes "\<And>s. running W V R h s \<Longrightarrow> frame_on f args s \<Longrightarrow> stack_guard s + n \<le> stack_pointer s + 2 + length args
    \<Longrightarrow> runs_to tbl W V R (internal_apply, s) (STACK_DROP (2 + length args) s) h' v"
  shows "sim_apply tbl W V R f args h n v h'"
  using assms by (simp add: sim_apply_def)

lemma sim_Apply_Procedure:
  assumes f: "OBJECT_TYPE f = TC_PROCEDURE" "PENDING_INTERRUPTS h = 0" "visible W f 0" "lambda = MEMORY_REF h f 0"
    and vis: "visible W lambda 1" "visible W (MEMORY_REF h lambda 1) 0"
    and n: "n = unat (VECTOR_LENGTH h (MEMORY_REF h lambda 1))" "n = length args + 1 \<or> OBJECT_TYPE lambda = TC_LEXPR \<and> n \<le> length args + 1"
    and free: "free_words W h (length args + 2)" and body: "visible W lambda 0"
    and h1: "h1 = push_list_free (MAKE_OBJECT TC_MANIFEST_VECTOR (word_of_nat (length args + 1)) # f # args) h"
    and sim: "sim_eval tbl W V R (MAKE_POINTER_OBJECT TC_ENVIRONMENT (Free h)) (MEMORY_REF h1 lambda 0) h1 need v h'"
  shows "sim_apply tbl W V R f args h need v h'"
proof (rule sim_applyI)
  fix s assume s: "running W V R h s" "frame_on f args s" "stack_guard s + need \<le> stack_pointer s + 2 + length args"
  let ?env = "MAKE_POINTER_OBJECT TC_ENVIRONMENT (Free h)" and ?hdr = "MAKE_OBJECT TC_MANIFEST_VECTOR (APPLY_FRAME_SIZE s)"
  let ?t = "pop_to_free (length args + 1) (STACK_DROP 1 (on_memory (push_free ?hdr) (SET_ENV ?env s)))"
  note frame = frame_onD [OF s(2)] and g = free_words_nth [OF free]
  have mem: "MEMORY_REF (memory s) f 0 = lambda" "MEMORY_REF (memory s) lambda 1 = MEMORY_REF h lambda 1"
    "VECTOR_LENGTH (memory s) (MEMORY_REF h lambda 1) = VECTOR_LENGTH h (MEMORY_REF h lambda 1)"
    using MEMORY_REF_visible [OF s(1)] VECTOR_LENGTH_visible [OF s(1)] f vis by simp_all
  have room: "\<not> GC_NEEDED_P (memory s) (length args + 2)" using g(2) alike_GC_NEEDED_P [OF runningD(1) [OF s(1)]] by simp
  have Free: "Free (memory s) = Free h" using alike_fields(1) [OF runningD(1) [OF s(1)]] .
  let ?N = "VECTOR_LENGTH h (MEMORY_REF h lambda 1)"
  have "APPLY_FRAME_SIZE s = ?N \<or> OBJECT_TYPE lambda = TC_LEXPR \<and> ?N \<le> APPLY_FRAME_SIZE s"
    using n frame(2) by (auto simp: word_unat_eq_iff word_le_nat_alt)
  then have arity: "(APPLY_FRAME_SIZE s \<noteq> ?N \<and> (OBJECT_TYPE lambda \<noteq> TC_LEXPR \<or> APPLY_FRAME_SIZE s < ?N)) = False" by auto
  have "moved W V R h (SET_ENV ?env s) (Suc (length args + 1)) (?hdr # take (length args + 1) (f # args)) ?t"
    using s(1) frame_on_SET_ENV [OF s(2)] g(1) by (intro moved_frame) simp_all
  then have "moved W V R h (SET_ENV ?env s) (2 + length args) (?hdr # f # args) ?t" by simp
  from body_reduction [OF sim h1 [folded frame(1)] this s(3) body]
  obtain s0 where s0: "REDUCES_TO (\<lambda>s. MEMORY_REF (memory s) lambda 0) ?t = Some (Inr do_expression, s0)"
    "runs_to tbl W V R (do_expression, s0) (STACK_DROP (2 + length args) s) h' v" by blast
  have "apply_procedure f s = REDUCES_TO (\<lambda>s. MEMORY_REF (memory s) lambda 0) ?t"
    using room unfolding apply_procedure_def Let_def PROCEDURE_LAMBDA_EXPR_def LAMBDA_FORMALS_def LAMBDA_SCODE_def mem arity if_False
    by (simp add: frame(2) Free)
  then have "apply_function tbl f s = Some (Inr do_expression, s0)" using s0(1) f(1) by (simp add: apply_function_def Let_def)
  then show "runs_to tbl W V R (internal_apply, s) (STACK_DROP (2 + length args) s) h' v"
    by (rule apply_reaches [OF s(1) f(2) s(2) _ s0(2)])
qed

text \<open>A primitive finds its arguments on the stack, and its frame is popped.\<close>

lemma sim_Apply_Primitive:
  assumes f: "OBJECT_TYPE f = TC_PRIMITIVE" "PENDING_INTERRUPTS h = 0"
    and p: "primitive_procedure (tbl (PRIMITIVE_NUMBER f)) = Some procedure" "primitive_arity (tbl (PRIMITIVE_NUMBER f)) = int (length args)"
      "primitive_performs W procedure args h v h'"
  shows "sim_apply tbl W V R f args h 0 v (h'\<lparr>Free_primitive := 0\<rparr>)"
proof (rule sim_applyI)
  fix s assume s: "running W V R h s" "frame_on f args s" "stack_guard s + 0 \<le> stack_pointer s + 2 + length args"
  note frame = frame_onD [OF s(2)]
  let ?m = "\<lambda>m. m\<lparr>Free_primitive := Free m\<rparr>"
  let ?u = "on_memory ?m (SET_PRIMITIVE f (SET_EXP f (STACK_DROP 2 s)))"
  have Free: "Free (memory s) = Free h" using alike_fields(1) [OF runningD(1) [OF s(1)]] .
  have "alike W (memory ?u) (h\<lparr>Free_primitive := Free h\<rparr>)" using alike_update(2) [OF runningD(1) [OF s(1)]] Free by simp
  moreover have "\<forall>i<length args. STACK_REF ?u i = args ! i" using frame(4) by (simp add: STACK_REF_def add.assoc)
  ultimately obtain m where m: "procedure ?u = Some (Inr v, ?u\<lparr>memory := m\<rparr>)" "alike W m h'" "\<forall>a\<in>W. mem m a = mem (memory ?u) a"
    using p(3) unfolding primitive_performs_def by blast
  let ?v = "SET_PRIMITIVE SHARP_F (on_memory (\<lambda>m. m\<lparr>Free_primitive := 0\<rparr>) (SET_VAL v (?u\<lparr>memory := m\<rparr>)))"
  let ?t = "POP_PRIMITIVE_FRAME (length args) ?v"
  have d: "apply_function tbl f s = Some (Inr pop_return, ?t)"
    using f(1) p(1,2) frame(6,7) m(1)
    by (simp add: apply_function_def apply_primitive_def implemented_primitive_p_def primitive_arity_of_def PRIMITIVE_APPLY_def Let_def)
  have drop: "running W V R h (STACK_DROP (2 + length args) s)" using s(1) frame(5) by (intro running_DROP) simp_all
  have mem: "alike W (m\<lparr>Free_primitive := 0\<rparr>) (h'\<lparr>Free_primitive := 0\<rparr>)" "\<And>a. a \<in> W \<Longrightarrow> mem (m\<lparr>Free_primitive := 0\<rparr>) a = mem (memory (STACK_DROP (2 + length args) s)) a"
    using alike_update(2) [OF m(2)] m(3) by simp_all
  note t = running_visible [OF drop mem]
  have eq: "?t = SET_PRIMITIVE SHARP_F (SET_VAL v (SET_EXP f ((STACK_DROP (2 + length args) s)\<lparr>memory := m\<lparr>Free_primitive := 0\<rparr>\<rparr>)))"
    by (simp add: POP_PRIMITIVE_FRAME_def STACK_DROP_def on_memory_def register_defs)
  have "running W V R (h'\<lparr>Free_primitive := 0\<rparr>) ?t" "same_stack (STACK_DROP (2 + length args) s) ?t" "reg_val ?t = v"
    unfolding eq using t by simp_all
  from runs_to_now [OF this(1,2)] this(3)
  show "runs_to tbl W V R (internal_apply, s) (STACK_DROP (2 + length args) s) (h'\<lparr>Free_primitive := 0\<rparr>) v"
    by (intro apply_reaches [OF s(1) f(2) s(2) d]) simp
qed

text \<open>An entity is applied by applying its operator to the entity and the arguments.\<close>

lemma sim_Apply_Entity:
  assumes f: "OBJECT_TYPE f = TC_ENTITY" "PENDING_INTERRUPTS h = 0" "visible W f 0" "visible W f 1" "\<not> VECTOR_P (MEMORY_REF h f 1)"
      "length args + 2 < 2 ^ 58"
    and sim: "sim_apply tbl W V R (MEMORY_REF h f 0) (f # args) h n v h'"
  shows "sim_apply tbl W V R f args h (max (length args + 3) n) v h'"
proof (rule sim_applyI)
  fix s assume s: "running W V R h s" "frame_on f args s" "stack_guard s + max (length args + 3) n \<le> stack_pointer s + 2 + length args"
  note frame = frame_onD [OF s(2)]
  let ?op = "MEMORY_REF h f 0"
  let ?s = "STACK_SET 0 ?op s"
  let ?t = "PUSH_APPLY_FRAME_HEADER (APPLY_FRAME_SIZE s) ?s"
  have t: "running W V R h ?t" unfolding PUSH_APPLY_FRAME_HEADER_def
    by (intro running_PUSH running_SET) (use s frame(5) in simp_all)
  have sp: "0 < stack_pointer s" using runningD(4) [OF s(1)] .
  have "APPLY_FRAME_SIZE ?t = OBJECT_DATUM (MAKE_OBJECT 0 (word_of_nat (length args + 2)))"
    by (simp add: APPLY_FRAME_SIZE_def PUSH_APPLY_FRAME_HEADER_def) (simp add: frame(1) [unfolded APPLY_FRAME_SIZE_def] add.commute)
  also have "\<dots> = word_of_nat (length (f # args) + 1)"
    using f(6) by (subst OBJECT_DATUM_MAKE_OBJECT) (simp, simp only: uint_small, simp_all)
  finally have "frame_on ?op (f # args) ?t"
    using frame f(6) sp unfolding frame_on_def APPLY_FRAME_PROCEDURE_def
    by (auto simp: PUSH_APPLY_FRAME_HEADER_def numeral_2_eq_2 nth_Cons split: nat.splits)
  then have "runs_to tbl W V R (internal_apply, ?t) (STACK_DROP (2 + length (f # args)) ?t) h' v"
    using sim t s(3) sp unfolding sim_apply_def by (simp add: PUSH_APPLY_FRAME_HEADER_def)
  moreover have "same_stack (STACK_DROP (2 + length args) s) (STACK_DROP (2 + length (f # args)) ?t)"
    using sp by (simp add: same_stack_def PUSH_APPLY_FRAME_HEADER_def)
  ultimately have run: "runs_to tbl W V R (internal_apply, ?t) (STACK_DROP (2 + length args) s) h' v" using runs_to_stack by blast
  have mem: "MEMORY_REF (memory s) f 0 = ?op" "MEMORY_REF (memory s) f 1 = MEMORY_REF h f 1" using MEMORY_REF_visible [OF s(1)] f by simp_all
  have "CAN_PUSH_P ?t 0" using runningD(7) [OF t] by (simp add: CAN_PUSH_simps)
  then have "apply_function tbl f s = Some (Inr internal_apply, ?t)"
    using f(1,5) mem by (simp add: apply_function_def apply_entity_def entity_apply_def Let_def ENTITY_OPERATOR_def ENTITY_DATA_def)
  then show "runs_to tbl W V R (internal_apply, s) (STACK_DROP (2 + length args) s) h' v"
    by (rule apply_reaches [OF s(1) f(2) s(2) _ run])
qed

section \<open>Extended procedures\<close>

fun rest_cells :: "nat \<Rightarrow> ulong list \<Rightarrow> ulong list" where
  "rest_cells a [] = []"
| "rest_cells a (x # xs) = x # MAKE_POINTER_OBJECT TC_LIST (a + 2) # rest_cells (a + 2) xs"

lemma rest_cells_list: "xs \<noteq> [] \<Longrightarrow> \<exists>us p. rest_cells a xs = us @ [p] \<and> rest_list a xs = us @ [EMPTY_LIST]"
proof (induction a xs rule: rest_list.induct)
  case (2 a x)
  then show ?case by (intro exI [of _ "[x]"]) simp
next
  case (3 a x y ys)
  then obtain us p where "rest_cells (a + 2) (y # ys) = us @ [p]" "rest_list (a + 2) (y # ys) = us @ [EMPTY_LIST]" by blast
  then show ?case by (intro exI [of _ "x # MAKE_POINTER_OBJECT TC_LIST (a + 2) # us"] exI [of _ p]) simp
qed simp

lemma length_rest_cells [simp]: "length (rest_cells a xs) = 2 * length xs"
  by (induction a xs rule: rest_cells.induct) simp_all

lemma length_rest_list [simp]: "length (rest_list a xs) = 2 * length xs"
  by (induction a xs rule: rest_list.induct) simp_all

lemma moved_then:
  assumes "moved W V R h s n ws t" "running W V R (push_list_free ws h) t \<Longrightarrow> moved W V R (push_list_free ws h) t k vs u"
  shows "moved W V R h s (n + k) (ws @ vs) u"
  using assms moved_trans by (metis moved_def)

lemma moved_rest:
  assumes "running W V R h s" "\<forall>i<length ws. STACK_REF s i = ws ! i" "stack_pointer s + length ws \<le> stack_end s"
    "\<forall>i<2 * length ws. Free h + i \<notin> W"
  shows "moved W V R h s (length ws) (rest_cells (Free h) ws) (pop_rest_list (length ws) s)"
  using assms
proof (induction ws arbitrary: h s)
  case Nil
  then show ?case by (simp add: moved_none)
next
  case (Cons w ws)
  let ?p = "MAKE_POINTER_OBJECT TC_LIST (Free h + 2)"
  let ?link = "\<lambda>m. push_free (MAKE_POINTER_OBJECT TC_LIST (Free m + 1)) m"
  let ?s = "pop_to_free 1 s" and ?u = "on_memory ?link (pop_to_free 1 s)"
  have free: "Free h \<notin> W" "Free h + 1 \<notin> W" using Cons.prems(4) by (fastforce dest: spec [of _ 0], fastforce dest: spec [of _ 1])
  have 1: "moved W V R h s (length [w]) [w] (pop_to_free (length [w]) s)"
    by (rule moved_pop [OF Cons.prems(1)]) (use Cons.prems(2,3) free in auto)
  then have s1: "running W V R (push_list_free [w] h) ?s" by (simp add: moved_def)
  have "Free (memory ?s) = Free h + 1" using alike_fields(1) [OF runningD(1) [OF s1]] by (simp add: Free_push_list)
  then have link: "?u = on_memory (push_free ?p) ?s" by (simp add: on_memory_def)
  have "moved W V R (push_list_free [w] h) ?s 0 [?p] ?u"
    unfolding link by (rule moved_push_free [OF s1]) (use free in \<open>simp add: Free_push_list\<close>)
  from moved_trans [OF 1 [simplified] this [simplified]] have c: "moved W V R h s 1 [w, ?p] ?u" by simp
  then have u: "running W V R (push_list_free [w, ?p] h) ?u" "same_stack (STACK_DROP 1 s) ?u" by (simp_all add: moved_def)
  have "moved W V R (push_list_free [w, ?p] h) ?u (length ws) (rest_cells (Free (push_list_free [w, ?p] h)) ws) (pop_rest_list (length ws) ?u)"
  proof (rule Cons.IH [OF u(1)])
    show "\<forall>i<length ws. STACK_REF ?u i = ws ! i"
    proof (intro allI impI)
      fix i assume "i < length ws"
      then show "STACK_REF ?u i = ws ! i" using same_stack_REF [OF u(2), of i] Cons.prems(2,3) by auto
    qed
    show "stack_pointer ?u + length ws \<le> stack_end ?u" using same_stackD [OF u(2)] Cons.prems(3) by simp
    show "\<forall>i<2 * length ws. Free (push_list_free [w, ?p] h) + i \<notin> W"
    proof (intro allI impI)
      fix i assume "i < 2 * length ws"
      then show "Free (push_list_free [w, ?p] h) + i \<notin> W" using Cons.prems(4) [rule_format, of "2 + i"] by (simp add: Free_push_list)
    qed
  qed
  from moved_trans [OF c this] show ?case by (simp add: Free_push_list)
qed

lemma write_last: "write_word (Free (push_list_free (us @ [p]) h) - 1) w (push_list_free (us @ [p]) h) = push_list_free (us @ [w]) h"
  by (simp add: push_list_free_def push_free_def write_word_def)

lemma moved_write_last:
  assumes t: "moved W V R h s n (us @ [p]) t" and free: "Free h + length us \<notin> W"
  shows "moved W V R h s n (us @ [w]) (on_memory (\<lambda>m. write_word (Free m - 1) w m) t)"
proof -
  have run: "running W V R (push_list_free (us @ [p]) h) t" "same_stack (STACK_DROP n s) t" "reg_env t = reg_env s" using t by (simp_all add: moved_def)
  let ?a = "Free h + length us"
  have Free: "Free (memory t) = ?a + 1" using alike_fields(1) [OF runningD(1) [OF run(1)]] by (simp add: Free_push_list)
  have "write_word ?a w (push_list_free (us @ [p]) h) = push_list_free (us @ [w]) h" using write_last [of us p h w] by (simp add: Free_push_list)
  then have "alike W (write_word ?a w (memory t)) (push_list_free (us @ [w]) h)" using alike_write [OF runningD(1) [OF run(1)], of ?a w] by simp
  moreover have "mem (write_word ?a w (memory t)) b = mem (memory t) b" if "b \<in> W" for b using that free by (auto simp: write_word_def)
  ultimately have "running W V R (push_list_free (us @ [w]) h) (t\<lparr>memory := write_word ?a w (memory t)\<rparr>)"
    "same_stack t (t\<lparr>memory := write_word ?a w (memory t)\<rparr>)"
    using running_visible [OF run(1)] by blast+
  then show ?thesis using run(2,3) same_stack_trans by (auto simp: moved_def on_memory_def Free)
qed

text \<open>The two ways a frame of an extended procedure is built.\<close>

lemma free_from:
  assumes "\<forall>i<n. Free h + i \<notin> W" "length ws + m \<le> n"
  shows "\<forall>i<m. Free (push_list_free ws h) + i \<notin> W"
proof (intro allI impI)
  fix i assume "i < m"
  then show "Free (push_list_free ws h) + i \<notin> W" using assms(1)[rule_format, of "length ws + i"] assms(2) by (simp add: Free_push_list add.assoc)
qed

lemma moved_optionals:
  fixes w :: ulong
  assumes s: "running W V R h s" "frame_on f args s" and n: "length args \<le> params"
    and free: "\<forall>i<params + r + auxes + 2. Free h + i \<notin> W"
  defines "t \<equiv> pop_to_free (length args + 1) (STACK_DROP 1 (on_memory (push_free w) s))"
  shows "moved W V R h s (2 + length args) (w # f # args @ replicate (params - length args) DEFAULT_OBJECT @ replicate r EMPTY_LIST @ replicate auxes UNASSIGNED_OBJECT)
    (fill_free_words auxes UNASSIGNED_OBJECT (fill_free_words r EMPTY_LIST (fill_free_words (params - length args) DEFAULT_OBJECT t)))"
proof -
  let ?ws = "w # f # args" and ?d = "params - length args"
  have "moved W V R h s (Suc (length args + 1)) (w # take (length args + 1) (f # args)) t"
    unfolding t_def by (rule moved_frame [OF s]) (use free n in auto)
  then have 0: "moved W V R h s (2 + length args) ?ws t" by simp
  have 1: "moved W V R h s (2 + length args + 0) (?ws @ replicate ?d DEFAULT_OBJECT) (fill_free_words ?d DEFAULT_OBJECT t)"
    by (rule moved_then [OF 0], erule moved_fill) (rule free_from [OF free], use n in simp)
  have 2: "moved W V R h s (2 + length args + 0 + 0) ((?ws @ replicate ?d DEFAULT_OBJECT) @ replicate r EMPTY_LIST)
      (fill_free_words r EMPTY_LIST (fill_free_words ?d DEFAULT_OBJECT t))"
    by (rule moved_then [OF 1], erule moved_fill) (rule free_from [OF free], use n in simp)
  have "moved W V R h s (2 + length args + 0 + 0 + 0) (((?ws @ replicate ?d DEFAULT_OBJECT) @ replicate r EMPTY_LIST) @ replicate auxes UNASSIGNED_OBJECT)
      (fill_free_words auxes UNASSIGNED_OBJECT (fill_free_words r EMPTY_LIST (fill_free_words ?d DEFAULT_OBJECT t)))"
    by (rule moved_then [OF 2], erule moved_fill) (rule free_from [OF free], use n in simp)
  then show ?thesis by simp
qed

lemma moved_rest_frame:
  fixes w :: ulong
  assumes s: "running W V R h s" "frame_on f args s" and n: "params < length args"
    and free: "\<forall>i<params + auxes + 3 + 2 * (length args - params). Free h + i \<notin> W"
    and a: "a = Free h + params + auxes + 3"
  defines "t \<equiv> pop_to_free (params + 1) (STACK_DROP 1 (on_memory (push_free w) s))"
  shows "moved W V R h s (2 + length args) (w # f # take params args @ p # replicate auxes UNASSIGNED_OBJECT @ rest_list a (drop params args))
    (on_memory (\<lambda>m. write_word (Free m - 1) EMPTY_LIST m)
      (pop_rest_list (length args - params) (fill_free_words auxes UNASSIGNED_OBJECT (on_memory (push_free p) t))))"
proof -
  let ?ws = "w # f # take params args" and ?xs = "drop params args"
  have "moved W V R h s (Suc (params + 1)) (w # take (params + 1) (f # args)) t"
    unfolding t_def by (rule moved_frame [OF s]) (use free n in auto)
  then have 0: "moved W V R h s (2 + params) ?ws t" by simp
  have 1: "moved W V R h s (2 + params + 0) (?ws @ [p]) (on_memory (push_free p) t)"
    by (rule moved_then [OF 0], erule moved_push_free) (use free_from [OF free, of ?ws 1] n in simp)
  let ?t = "fill_free_words auxes UNASSIGNED_OBJECT (on_memory (push_free p) t)" and ?vs = "(?ws @ [p]) @ replicate auxes UNASSIGNED_OBJECT"
  have 2: "moved W V R h s (2 + params + 0 + 0) ?vs ?t"
    by (rule moved_then [OF 1], erule moved_fill) (rule free_from [OF free], use n in simp)
  then have t: "same_stack (STACK_DROP (2 + params) s) ?t" by (simp add: moved_def)
  have 3: "moved W V R h s (2 + params + 0 + 0 + length ?xs) (?vs @ rest_cells (Free (push_list_free ?vs h)) ?xs) (pop_rest_list (length ?xs) ?t)"
  proof (rule moved_then [OF 2], erule moved_rest)
    show "\<forall>i<length ?xs. STACK_REF ?t i = ?xs ! i"
    proof (intro allI impI)
      fix i assume i: "i < length ?xs"
      then have "STACK_REF ?t i = STACK_REF (STACK_DROP (2 + params) s) i" using frame_onD(5) [OF s(2)] by (intro same_stack_REF [OF t]) simp
      also have "\<dots> = ?xs ! i" using frame_onD(4) [OF s(2), of "params + i"] i by (simp add: add.assoc)
      finally show "STACK_REF ?t i = ?xs ! i" .
    qed
    show "stack_pointer ?t + length ?xs \<le> stack_end ?t" using same_stackD [OF t] frame_onD(5) [OF s(2)] n by simp
    show "\<forall>i<2 * length ?xs. Free (push_list_free ?vs h) + i \<notin> W" by (rule free_from [OF free]) (use n in simp)
  qed
  have "Free (push_list_free ?vs h) = a" using n by (simp add: Free_push_list a)
  moreover obtain us q where us: "rest_cells a ?xs = us @ [q]" "rest_list a ?xs = us @ [EMPTY_LIST]" using rest_cells_list [of ?xs a] n by auto
  moreover have "2 + params + 0 + 0 + length ?xs = 2 + length args" using n by simp
  ultimately have 4: "moved W V R h s (2 + length args) ((?vs @ us) @ [q]) (pop_rest_list (length args - params) ?t)" using 3 by simp
  have "length us + 1 = 2 * length ?xs" using us(1) length_rest_cells [of a ?xs] by simp
  then have "Free h + length (?vs @ us) \<notin> W" using free [rule_format, of "length (?vs @ us)"] n by simp
  from moved_write_last [OF 4 this, of EMPTY_LIST] show ?thesis using us(2) by simp
qed

lemma Elambda_Rest_Flag_cases: "Elambda_Rest_Flag c = 0 \<or> Elambda_Rest_Flag c = 1"
proof -
  have "drop_bit 16 (c AND 0x10000) = drop_bit 16 c AND 1" by (simp add: drop_bit_and)
  then have "Elambda_Rest_Flag c = unat (drop_bit 16 c AND 1)" by (simp add: Elambda_Rest_Flag_def)
  then show ?thesis by (auto simp: and_one_eq unat_mod)
qed

lemma replicate_if: "(if b then [x] else []) = replicate (if b then 1 else 0) x"
  by simp

lemma sim_Apply_Extended:
  assumes f: "OBJECT_TYPE f = TC_EXTENDED_PROCEDURE" "PENDING_INTERRUPTS h = 0" "visible W f 0" "lambda = MEMORY_REF h f 0"
    and vis: "visible W lambda 0" "visible W lambda 1" "visible W lambda 2" "visible W (MEMORY_REF h lambda 1) 0"
    and count: "count = MEMORY_REF h lambda 2" "formals = Elambda_Formals_Count count" "params = Elambda_Opts_Count count + formals"
      "rest_flag = Elambda_Rest_Flag count" "unat (VECTOR_LENGTH h (MEMORY_REF h lambda 1)) = params + rest_flag + auxes + 1"
    and arity: "formals \<le> length args" "rest_flag \<noteq> 0 \<or> length args \<le> params"
    and frame: "frame = extended_frame (Free h) params rest_flag auxes f args" "free_words W h (length frame)" "h1 = push_list_free frame h"
    and sim: "sim_eval tbl W V R (MAKE_POINTER_OBJECT TC_ENVIRONMENT (Free h)) (MEMORY_REF h1 lambda 0) h1 need v h'"
  shows "sim_apply tbl W V R f args h need v h'"
proof (rule sim_applyI)
  fix s assume s: "running W V R h s" "frame_on f args s" "stack_guard s + need \<le> stack_pointer s + 2 + length args"
  let ?env = "MAKE_POINTER_OBJECT TC_ENVIRONMENT (Free h)"
  let ?size = "params + rest_flag + auxes + 1"
  let ?hdr = "MAKE_OBJECT TC_MANIFEST_VECTOR (word_of_nat ?size)"
  let ?push = "STACK_DROP 1 (on_memory (push_free ?hdr) (SET_ENV ?env s))"
  let ?few = "fill_free_words auxes UNASSIGNED_OBJECT (fill_free_words (if rest_flag \<noteq> 0 then 1 else 0) EMPTY_LIST
      (fill_free_words (params - length args) DEFAULT_OBJECT (pop_to_free (length args + 1) ?push)))"
  let ?many = "on_memory (\<lambda>m. write_word (Free m - 1) EMPTY_LIST m) (pop_rest_list (length args - params)
      (fill_free_words auxes UNASSIGNED_OBJECT (on_memory (push_free (MAKE_POINTER_OBJECT TC_LIST (Free h + 1 + ?size))) (pop_to_free (params + 1) ?push))))"
  let ?t = "if length args \<le> params then ?few else ?many"
  note fr = frame_onD [OF s(2)] and g = free_words_nth [OF frame(2)]
  have env: "running W V R h (SET_ENV ?env s)" "frame_on f args (SET_ENV ?env s)" using s(1) frame_on_SET_ENV [OF s(2)] by simp_all
  have mem: "MEMORY_REF (memory s) f 0 = lambda" "MEMORY_REF (memory s) lambda 1 = MEMORY_REF h lambda 1" "MEMORY_REF (memory s) lambda 2 = count"
    "VECTOR_LENGTH (memory s) (MEMORY_REF h lambda 1) = VECTOR_LENGTH h (MEMORY_REF h lambda 1)"
    using MEMORY_REF_visible [OF s(1)] VECTOR_LENGTH_visible [OF s(1)] f vis count(1) by simp_all
  have Free: "Free (memory s) = Free h" using alike_fields(1) [OF runningD(1) [OF s(1)]] .
  have flag: "rest_flag = 0 \<or> rest_flag = 1" unfolding count(4) by (rule Elambda_Rest_Flag_cases)
  have len: "length frame = ?size + 1 + (if length args > params then 2 * (length args - params) else 0)"
    using flag arity frame(1) by (auto simp: extended_frame_def Let_def)
  have "moved W V R h (SET_ENV ?env s) (2 + length args) frame ?t"
  proof (cases "length args \<le> params")
    case True
    then have free: "\<forall>i<params + (if rest_flag \<noteq> 0 then 1 else 0) + auxes + 2. Free h + i \<notin> W" using g(1) len flag by auto
    show ?thesis using moved_optionals [OF env True free, of ?hdr] True
      by (simp add: frame(1) extended_frame_def Let_def replicate_if del: of_nat_add of_nat_Suc)
  next
    case False
    then have few: "params < length args" "rest_flag = 1" using arity flag by auto
    then have free: "\<forall>i<params + auxes + 3 + 2 * (length args - params). Free h + i \<notin> W" using g(1) len by auto
    have a: "Free h + 1 + ?size = Free h + params + auxes + 3" using few by simp
    show ?thesis using moved_rest_frame [OF env few(1) free a, of ?hdr] few False
      by (simp add: frame(1) extended_frame_def Let_def del: of_nat_add of_nat_Suc)
  qed
  from body_reduction [OF sim frame(3) this s(3) vis(1)]
  obtain s0 where s0: "REDUCES_TO (\<lambda>s. MEMORY_REF (memory s) lambda 0) ?t = Some (Inr do_expression, s0)"
    "runs_to tbl W V R (do_expression, s0) (STACK_DROP (2 + length args) s) h' v" by blast
  let ?np = "int (unat (VECTOR_LENGTH h (MEMORY_REF h lambda 1))) - 1"
  have np: "?np = int (params + rest_flag + auxes)" unfolding count(5) by simp
  have sizes: "int (params + rest_flag + auxes) - int (params + rest_flag) = int auxes" "int params + int rest_flag + int auxes + 1 = int ?size"
    "nat (int ?size + 1) = ?size + 1" "nat (int (Free h) + 1 + int ?size) = Free h + 1 + ?size" "nat (int auxes) = auxes" by simp_all
  have room: "\<not> GC_NEEDED_P (memory s) (?size + 1 + (if length args > params then 2 * (length args - params) else 0))"
    using g(2) len alike_GC_NEEDED_P [OF runningD(1) [OF s(1)]] by simp
  have ok: "\<not> (length args < formals \<or> rest_flag = 0 \<and> params < length args)" using arity by auto
  have push: "on_memory g (SET_ENV e (STACK_DROP 1 s)) = STACK_DROP 1 (on_memory g (SET_ENV e s))" for g e
    by (simp add: on_memory_def register_defs STACK_DROP_def)
  have "apply_extended_procedure f s = REDUCES_TO (\<lambda>s. MEMORY_REF (memory s) lambda 0) ?t"
    unfolding apply_extended_procedure_def Let_def PROCEDURE_LAMBDA_EXPR_def ELAMBDA_NAMES_def ELAMBDA_ARG_COUNT_def ELAMBDA_SCODE_def
      mem fr(7) count(2) [symmetric] count(3) [symmetric] count(4) [symmetric] np sizes if_not_P [OF ok] if_not_P [OF room] Free of_int_of_nat_eq
    by (cases "length args \<le> params") (simp_all only: if_True if_False append.simps code_simps push)
  then have "apply_function tbl f s = Some (Inr do_expression, s0)" using s0(1) f(1) by (simp add: apply_function_def Let_def)
  then show "runs_to tbl W V R (internal_apply, s) (STACK_DROP (2 + length args) s) h' v"
    by (rule apply_reaches [OF s(1) f(2) s(2) _ s0(2)])
qed

section \<open>Combinations\<close>

text \<open>All operands are on the stack, and the operator is evaluated next.\<close>

definition operator_ready :: "nat set \<Rightarrow> nat set \<Rightarrow> nat set \<Rightarrow> machine \<Rightarrow> ulong \<Rightarrow> ulong \<Rightarrow> ulong list \<Rightarrow> interp \<Rightarrow> bool" where
  "operator_ready W V R h env e args t \<longleftrightarrow> running W V R h t \<and> reg_exp t = MEMORY_REF h e 1 \<and> reg_env t = env
     \<and> STACK_REF t 0 = MAKE_RETURN_CODE RC_COMB_APPLY_FUNCTION \<and> OBJECT_DATUM (STACK_REF t 2) = word_of_nat (length args + 1)
     \<and> (\<forall>i<length args. STACK_REF t (4 + i) = args ! i) \<and> stack_pointer t + 4 + length args \<le> stack_end t \<and> length args + 1 < 2 ^ 58"

lemma operator_applied:
  assumes t: "operator_ready W V R h env e args t" and f: "sim_eval tbl W V R env (MEMORY_REF h e 1) h n2 f h2"
    and a: "sim_apply tbl W V R f args h2 n3 v h3" and room: "stack_guard t + n2 \<le> stack_pointer t" "stack_guard t + n3 \<le> stack_pointer t + 4 + length args"
  shows "runs_to tbl W V R (do_expression, t) (STACK_DROP (4 + length args) t) h3 v"
proof -
  note r = t [unfolded operator_ready_def]
  have "runs_to tbl W V R (do_expression, t) t h2 f" using f r room(1) unfolding sim_eval_def by simp
  then obtain u where u: "reaches tbl (do_expression, t) (pop_return, u)" "running W V R h2 u" "same_stack t u" "reg_val u = f"
    unfolding runs_to_def by blast
  note c = same_stackD [OF u(3)]
  have ref: "STACK_REF u i = STACK_REF t i" if "stack_pointer t + i < stack_end t" for i using same_stack_REF [OF u(3) that] .
  let ?r = "RESTORE_CONT u"
  let ?e = "end_subproblem ?r"
  let ?w = "SET_APPLY_FRAME_PROCEDURE f ?e"
  have "running W V R h2 ?r" using running_RESTORE_CONT [OF u(2)] c r by simp
  from running_end_subproblem [OF this] have e: "running W V R h2 ?e" "same_stack ?r ?e" by simp_all
  note ce = same_stackD [OF e(2)] and cr = control_partD [of ?r u]
  have w: "running W V R h2 ?w" unfolding SET_APPLY_FRAME_PROCEDURE_def by (rule running_SET [OF e(1)]) (use ce c cr r in simp)
  have refe: "STACK_REF ?e i = STACK_REF t (2 + i)" if "stack_pointer t + (2 + i) < stack_end t" for i
    using same_stack_REF [OF e(2), of i] ref [of "2 + i"] that c cr by simp
  have arg: "STACK_REF ?e (2 + i) = args ! i" if "i < length args" for i
  proof -
    have "STACK_REF ?e (2 + i) = STACK_REF t (2 + (2 + i))" using that r by (intro refe) simp
    also have "\<dots> = STACK_REF t (4 + i)" by (simp add: four_plus)
    finally show ?thesis using that r by simp
  qed
  have size: "OBJECT_DATUM (STACK_REF ?e 0) = word_of_nat (length args + 1)" using refe [of 0] r by simp
  have sp: "stack_pointer ?e + 2 + length args \<le> stack_end ?e" using r c ce cr by simp
  have "frame_on f args ?w"
    unfolding frame_on_def APPLY_FRAME_SIZE_def APPLY_FRAME_PROCEDURE_def SET_APPLY_FRAME_PROCEDURE_def
    using arg size sp r by simp
  then have "runs_to tbl W V R (internal_apply, ?w) (STACK_DROP (2 + length args) ?w) h3 v"
    using a w room(2) c ce cr unfolding sim_apply_def by (simp add: SET_APPLY_FRAME_PROCEDURE_def)
  moreover have "same_stack (STACK_DROP (4 + length args) t) (STACK_DROP (2 + length args) ?w)"
  proof -
    have "STACK_REF ?e (2 + (length args + i)) = STACK_REF t (4 + (length args + i))" if "stack_pointer t + (4 + length args) + i < stack_end t" for i
      using refe [of "2 + (length args + i)"] that by (simp add: four_plus)
    then show ?thesis using c ce cr u(3) e(2) unfolding SET_APPLY_FRAME_PROCEDURE_def by (simp add: same_stack_def four_plus)
  qed
  ultimately have run: "runs_to tbl W V R (internal_apply, ?w) (STACK_DROP (4 + length args) t) h3 v" using runs_to_stack by blast
  have "STACK_REF u 0 = MAKE_RETURN_CODE RC_COMB_APPLY_FUNCTION" using ref [of 0] r by simp
  then have "return_dispatch u = Some (Inr internal_apply_val, ?e)" by (simp add: return_dispatch_def Let_def)
  moreover have "runs_to tbl W V R (internal_apply_val, ?e) (STACK_DROP (4 + length args) t) h3 v"
    by (rule runs_to_step [OF _ run]) (simp add: u(4))
  ultimately have "runs_to tbl W V R (pop_return, u) (STACK_DROP (4 + length args) t) h3 v" by (rule continue_return [OF runningD(6) [OF u(2)]])
  then show ?thesis by (rule runs_to_prefix [OF u(1)])
qed

lemma running_lower:
  "running W V R h s \<Longrightarrow> stack_guard s + k \<le> stack_pointer s \<Longrightarrow> running W V R h (s\<lparr>stack_pointer := stack_pointer s - k\<rparr>)"
  by (auto simp: running_def)

text \<open>The state when the slots for the operands and the finger are on the stack.\<close>

lemma slots_pushed:
  assumes s: "running W V R h s" "stack_guard s + (k + 1) \<le> stack_pointer s"
  defines "u \<equiv> STACK_PUSH (MAKE_OBJECT TC_MANIFEST_NM_VECTOR (word_of_nat k)) (s\<lparr>stack_pointer := stack_pointer s - k\<rparr>)"
  shows "running W V R h u" "reg_exp u = reg_exp s" "reg_env u = reg_env s" "stack_pointer u = stack_pointer s - (k + 1)" "control_part u = control_part s"
    "stack_end u = stack_end s" "stack_guard u = stack_guard s" "STACK_REF u 0 = MAKE_OBJECT TC_MANIFEST_NM_VECTOR (word_of_nat k)"
    "STACK_REF u (k + 1 + i) = STACK_REF s i"
proof -
  show "running W V R h u" unfolding u_def by (intro running_PUSH running_lower) (use s in simp_all)
  show "reg_exp u = reg_exp s" "reg_env u = reg_env s" "stack_pointer u = stack_pointer s - (k + 1)" "control_part u = control_part s"
    "STACK_REF u 0 = MAKE_OBJECT TC_MANIFEST_NM_VECTOR (word_of_nat k)" by (simp_all add: u_def)
  then show "stack_end u = stack_end s" "stack_guard u = stack_guard s" using control_partD [of u s] by simp_all
  show "STACK_REF u (k + 1 + i) = STACK_REF s i"
    using s(2) runningD(8) [OF s(1)] by (auto simp: u_def STACK_REF_def)
qed

lemma eval_combination_eq:
  assumes "unat (VECTOR_LENGTH (memory s) (reg_exp s)) = k + 1" "stack_guard s + (k + 4) \<le> stack_pointer s"
  shows "eval_combination s =
    (let u = STACK_PUSH (MAKE_OBJECT TC_MANIFEST_NM_VECTOR (word_of_nat k)) (s\<lparr>stack_pointer := stack_pointer s - k\<rparr>)
     in if k = 0 then DO_NTH_THEN RC_COMB_APPLY_FUNCTION 1 (PUSH_APPLY_FRAME_HEADER 0 u)
        else DO_NTH_THEN RC_COMB_SAVE_VALUE (k + 1) (PUSH_ENV u))"
proof -
  have n: "int (unat (VECTOR_LENGTH (memory s) (reg_exp s))) - 1 = int k" unfolding assms(1) by simp
  have can: "CAN_PUSH_P s (int k + 2 + CONTINUATION_SIZE)" using assms(2) by (simp add: CAN_PUSH_simps)
  have loc: "STACK_LOC s (- int k) = stack_pointer s - k" by (simp add: STACK_LOC_def)
  have slot: "nat (int k + 1) = k + 1" by simp
  show ?thesis unfolding eval_combination_def Let_def n STACK_CHECK_ok(2) [OF can]
    by (simp add: loc slot del: of_nat_Suc)
qed

lemma header_datum: "OBJECT_DATUM (MAKE_OBJECT 0 (0 + 1)) = word_of_nat (0 + 1)"
  by simp

lemma combination_done:
  assumes run: "runs_to tbl W V R c (STACK_DROP (4 + k) t) h v"
    and t: "stack_pointer t = stack_pointer s - (k + 4)" "control_part t = control_part s" "k + 4 \<le> stack_pointer s"
      "\<And>i. stack_pointer s + i < stack_end s \<Longrightarrow> STACK_REF t (4 + (k + i)) = STACK_REF s i"
  shows "runs_to tbl W V R c s h v"
proof -
  have "same_stack s (STACK_DROP (4 + k) t)" using t by (simp add: same_stack_def add.assoc)
  then show ?thesis using run runs_to_stack by blast
qed

definition pushed_slots :: "nat \<Rightarrow> interp \<Rightarrow> interp" where
  "pushed_slots k s = STACK_PUSH (MAKE_OBJECT TC_MANIFEST_NM_VECTOR (word_of_nat k)) (s\<lparr>stack_pointer := stack_pointer s - k\<rparr>)"

lemma no_operands_pushed:
  assumes s: "running W V R h s" "reg_exp s = e" "reg_env s = env" "stack_guard s + 4 \<le> stack_pointer s" and vis: "visible W e 1"
  shows "\<exists>t. DO_NTH_THEN RC_COMB_APPLY_FUNCTION 1 (PUSH_APPLY_FRAME_HEADER 0 (pushed_slots 0 s)) = Some (Inr do_expression, t)
    \<and> operator_ready W V R h env e [] t \<and> stack_pointer t = stack_pointer s - 4 \<and> control_part t = control_part s
    \<and> (\<forall>i. stack_pointer s + i < stack_end s \<longrightarrow> STACK_REF t (4 + i) = STACK_REF s i)"
proof -
  let ?u = "pushed_slots 0 s" and ?p = "PUSH_APPLY_FRAME_HEADER 0 (pushed_slots 0 s)"
  note u = slots_pushed [OF s(1), of 0, folded pushed_slots_def]
  have u1: "running W V R h ?u" "stack_pointer ?u = stack_pointer s - 1" "stack_end ?u = stack_end s" "stack_guard ?u = stack_guard s"
    "\<And>i. STACK_REF ?u (Suc i) = STACK_REF s i" using u s(4) by simp_all
  have p: "running W V R h ?p" unfolding PUSH_APPLY_FRAME_HEADER_def by (rule running_PUSH [OF u1(1)]) (use u1 s(4) in simp)
  have p_ref: "STACK_REF ?p 0 = MAKE_OBJECT 0 (0 + 1)" "\<And>i. STACK_REF ?p (Suc i) = STACK_REF ?u i" "reg_exp ?p = e" "reg_env ?p = env"
    "stack_pointer ?p = stack_pointer s - 2" "control_part ?p = control_part s" "stack_end ?p = stack_end s" "stack_guard ?p = stack_guard s"
    using u u1 s by (simp_all add: PUSH_APPLY_FRAME_HEADER_def)
  have "stack_guard ?p + 2 \<le> stack_pointer ?p" using p_ref s(4) by simp
  then obtain t where t: "DO_NTH_THEN RC_COMB_APPLY_FUNCTION 1 ?p = Some (Inr do_expression, t)"
    "subproblem_started W V R h ?p RC_COMB_APPLY_FUNCTION (MEMORY_REF h e 1) t"
    using starts(2) [OF p, where rc = RC_COMB_APPLY_FUNCTION and i = 1] p_ref(3) vis by auto
  note st = t(2) [unfolded subproblem_started_def]
  have ref: "STACK_REF t (Suc (Suc i)) = STACK_REF ?p i" if "stack_pointer s + i < stack_end s + 2" for i using st that p_ref s(4) by simp
  have c: "stack_pointer t = stack_pointer s - 4" "control_part t = control_part s" using st p_ref by simp_all
  note fin = control_partD [OF c(2)] and top = runningD(5) [OF s(1)]
  have "OBJECT_DATUM (STACK_REF t 2) = word_of_nat (0 + 1)" using ref [of 0] p_ref(1) top by (simp add: numeral_2_eq_2)
  then have "operator_ready W V R h env e [] t" using st p_ref top s(4) fin c unfolding operator_ready_def by simp
  moreover have "STACK_REF t (4 + i) = STACK_REF s i" if "stack_pointer s + i < stack_end s" for i
    using ref [of "Suc (Suc i)"] p_ref(2) u1(5) [of i] that by (simp add: four_plus)
  ultimately show ?thesis using c t(1) by blast
qed

lemma operands_pushed:
  assumes s: "running W V R h s" "reg_exp s = e" "reg_env s = env" "stack_guard s + (k + 4) \<le> stack_pointer s"
    and vis: "visible W e (k + 1)" and small: "k + 1 < 2 ^ 58"
  shows "\<exists>t. DO_NTH_THEN RC_COMB_SAVE_VALUE (k + 1) (PUSH_ENV (pushed_slots k s)) = Some (Inr do_expression, t)
    \<and> running W V R h t \<and> reg_exp t = MEMORY_REF h e (k + 1) \<and> reg_env t = env \<and> operand_frame e env k t
    \<and> stack_pointer t = stack_pointer s - (k + 4) \<and> control_part t = control_part s
    \<and> (\<forall>i. stack_pointer s + i < stack_end s \<longrightarrow> STACK_REF t (4 + (k + i)) = STACK_REF s i)"
proof -
  let ?u = "pushed_slots k s" and ?p = "PUSH_ENV (pushed_slots k s)"
  note u = slots_pushed [OF s(1), of k, folded pushed_slots_def]
  have u1: "running W V R h ?u" "stack_pointer ?u = stack_pointer s - (k + 1)" "stack_end ?u = stack_end s" "stack_guard ?u = stack_guard s"
    "STACK_REF ?u 0 = MAKE_OBJECT TC_MANIFEST_NM_VECTOR (word_of_nat k)" "\<And>i. STACK_REF ?u (k + 1 + i) = STACK_REF s i" using u s(4) by simp_all
  have p: "running W V R h ?p" by (rule running_PUSH_ENV [OF u1(1)]) (use u1 s(4) in simp)
  have p_ref: "STACK_REF ?p 0 = env" "\<And>i. STACK_REF ?p (Suc i) = STACK_REF ?u i" "reg_exp ?p = e" "reg_env ?p = env"
    "stack_pointer ?p = stack_pointer s - (k + 2)" "control_part ?p = control_part s" "stack_end ?p = stack_end s" "stack_guard ?p = stack_guard s"
    using u u1 s by (simp_all add: PUSH_ENV_def)
  have "stack_guard ?p + 2 \<le> stack_pointer ?p" using p_ref s(4) by simp
  then obtain t where t: "DO_NTH_THEN RC_COMB_SAVE_VALUE (k + 1) ?p = Some (Inr do_expression, t)"
    "subproblem_started W V R h ?p RC_COMB_SAVE_VALUE (MEMORY_REF h e (k + 1)) t"
    using starts(2) [OF p, where rc = RC_COMB_SAVE_VALUE and i = "k + 1"] p_ref(3) vis by auto
  note st = t(2) [unfolded subproblem_started_def]
  have ref: "STACK_REF t (Suc (Suc i)) = STACK_REF ?p i" if "stack_pointer s + i < stack_end s + (k + 2)" for i using st that p_ref s(4) by simp
  have c: "stack_pointer t = stack_pointer s - (k + 4)" "control_part t = control_part s" using st p_ref by simp_all
  note fin = control_partD [OF c(2)] and top = runningD(5) [OF s(1)]
  have finger: "OBJECT_DATUM (STACK_REF t 3) = word_of_nat k"
    using ref [of 1] p_ref(2) [of 0] u1(5) top finger_datum [of k] small by (simp add: numeral_3_eq_3)
  have "STACK_REF t 2 = env" using ref [of 0] p_ref(1) top by (simp add: numeral_2_eq_2)
  then have "operand_frame e env k t" using st p_ref top finger small s(4) c fin unfolding operand_frame_def by simp
  moreover have "STACK_REF t (4 + (k + i)) = STACK_REF s i" if "stack_pointer s + i < stack_end s" for i
    using ref [of "Suc (Suc (k + i))"] p_ref(2) u1(6) [of i] that by (simp add: four_plus)
  ultimately show ?thesis using st p_ref c t(1) by auto
qed

lemma sim_Combination:
  assumes e: "OBJECT_TYPE e = TC_COMBINATION" "visible W e 0" "unat (VECTOR_LENGTH h e) = k + 1"
    and ops: "sim_operands tbl W V R env e k h n1 args h1" and fn: "visible W e 1" "sim_eval tbl W V R env (MEMORY_REF h1 e 1) h1 n2 f h2"
    and len: "VECTOR_LENGTH h1 e = VECTOR_LENGTH h e" and app: "sim_apply tbl W V R f args h2 n3 v h3"
  shows "sim_eval tbl W V R env e h (max (k + 4 + max n1 n2) n3) v h3"
proof (rule sim_evalI)
  fix s assume s: "running W V R h s" "reg_exp s = e" "reg_env s = env" "stack_guard s + max (k + 4 + max n1 n2) n3 \<le> stack_pointer s" "\<not> trapping s"
  have room: "stack_guard s + (k + 4) \<le> stack_pointer s" "stack_guard s + (k + 4 + n1) \<le> stack_pointer s"
    "stack_guard s + (k + 4 + n2) \<le> stack_pointer s" "stack_guard s + n3 \<le> stack_pointer s" using s(4) by simp_all
  have vl: "VECTOR_LENGTH h e = word_of_nat (k + 1)" unfolding e(3) [symmetric] by simp
  have "uint (VECTOR_LENGTH h e) < 2 ^ 58" unfolding VECTOR_LENGTH_def by (rule OBJECT_DATUM_bound)
  then have "int (k + 1) < 2 ^ 58" unfolding unat_uint e(3) .
  then have small: "k + 1 < 2 ^ 58" by simp
  have largs: "length args = k" using ops by (simp add: sim_operands_def)
  have d: "eval_dispatch s = (if k = 0 then DO_NTH_THEN RC_COMB_APPLY_FUNCTION 1 (PUSH_APPLY_FRAME_HEADER 0 (pushed_slots k s))
      else DO_NTH_THEN RC_COMB_SAVE_VALUE (k + 1) (PUSH_ENV (pushed_slots k s)))"
    using eval_combination_eq [of s k] VECTOR_LENGTH_visible [OF s(1) e(2)] e(1,3) s(2) room(1)
    by (simp add: eval_dispatch_def Let_def pushed_slots_def)
  have applied: "runs_to tbl W V R (do_expression, t) s h3 v"
    if ready: "operator_ready W V R h1 env e args t" and c: "stack_pointer t = stack_pointer s - (k + 4)" "control_part t = control_part s"
      and ref: "\<And>i. stack_pointer s + i < stack_end s \<Longrightarrow> STACK_REF t (4 + (k + i)) = STACK_REF s i" for t
  proof -
    have "runs_to tbl W V R (do_expression, t) (STACK_DROP (4 + k) t) h3 v"
      using operator_applied [OF ready fn(2) app] c control_partD [OF c(2)] room largs by simp
    from combination_done [OF this c _ ref] room(1) show ?thesis by simp
  qed
  have "\<exists>t. eval_dispatch s = Some (Inr do_expression, t) \<and> runs_to tbl W V R (do_expression, t) s h3 v"
  proof (cases "k = 0")
    case True
    then have args: "args = []" "h1 = h" using ops by (auto simp: sim_operands_def)
    have r: "stack_guard s + 4 \<le> stack_pointer s" using room(1) True by simp
    obtain t where t: "eval_dispatch s = Some (Inr do_expression, t)" "operator_ready W V R h env e [] t"
      "stack_pointer t = stack_pointer s - 4" "control_part t = control_part s"
      "\<And>i. stack_pointer s + i < stack_end s \<Longrightarrow> STACK_REF t (4 + i) = STACK_REF s i"
      using no_operands_pushed [OF s(1-3) r fn(1)] d True by auto
    then show ?thesis using applied [of t] args True by simp
  next
    case False
    then have "visible W e (k + 1)" using ops by (simp add: sim_operands_def)
    from operands_pushed [OF s(1-3) room(1) this small]
    obtain t where t: "eval_dispatch s = Some (Inr do_expression, t)"
      "running W V R h t" "reg_exp t = MEMORY_REF h e (k + 1)" "reg_env t = env" "operand_frame e env k t"
      "stack_pointer t = stack_pointer s - (k + 4)" "control_part t = control_part s"
      "\<And>i. stack_pointer s + i < stack_end s \<Longrightarrow> STACK_REF t (4 + (k + i)) = STACK_REF s i"
      using d False by auto
    note fin = control_partD [OF t(7)] and top = runningD(5) [OF s(1)]
    obtain w where w: "reaches tbl (do_expression, t) (do_expression, w)" "operands_done W V R h1 e env k args t w"
      using ops False e(2) fn(1) t(2-6) fin room unfolding sim_operands_def by auto
    note wd = w(2) [unfolded operands_done_def]
    have cw: "stack_pointer w = stack_pointer s - (k + 4)" "control_part w = control_part s" using wd t(6,7) by simp_all
    have "OBJECT_DATUM (STACK_REF w 2) = word_of_nat (length args + 1)" using wd vl len largs by (simp add: VECTOR_LENGTH_def)
    moreover have "stack_pointer w + 4 + k \<le> stack_end w" using cw(1) top room(1) control_partD [OF cw(2)] by simp
    ultimately have ready: "operator_ready W V R h1 env e args w"
      using wd largs small unfolding operator_ready_def by simp
    have "STACK_REF w (4 + (k + i)) = STACK_REF s i" if "stack_pointer s + i < stack_end s" for i
      using wd that t(6,8) fin room by simp
    from applied [OF ready cw this] show ?thesis using runs_to_prefix [OF w(1)] t(1) by blast
  qed
  then show "runs_to tbl W V R (do_expression, s) s h3 v" using begin_evaluation [OF s(5)] by auto
qed

section \<open>Every evaluation is run\<close>

theorem evaluation_runs:
  "evaluates tbl W env e h n v h' \<Longrightarrow> sim_eval tbl W V R env e h n v h'"
  "operands tbl W env e k h n args h' \<Longrightarrow> sim_operands tbl W V R env e k h n args h'"
  "applies tbl W f args h n v h' \<Longrightarrow> sim_apply tbl W V R f args h n v h'"
proof (induction rule: evaluation_induct)
  case Self show ?case by (rule sim_Self) (fact Self)+
next
  case Quote show ?case by (rule sim_Quote) (fact Quote)+
next
  case The_Environment show ?case by (rule sim_The_Environment) (fact The_Environment)+
next
  case Variable show ?case by (rule sim_Variable) (fact Variable)+
next
  case Safe_Variable then show ?case using sim_Safe_Variable by blast
next
  case Lambda show ?case by (rule sim_Lambda) (fact Lambda)+
next
  case Extended_Lambda show ?case by (rule sim_Extended_Lambda) (fact Extended_Lambda)+
next
  case Delay show ?case by (rule sim_Delay) (fact Delay)+
next
  case Comment show ?case by (rule sim_Comment) (fact Comment)+
next
  case Conditional show ?case by (rule sim_Conditional) (fact Conditional)+
next
  case Disjunction_True show ?case by (rule sim_Disjunction_True) (fact Disjunction_True)+
next
  case Disjunction_False show ?case by (rule sim_Disjunction_False) (fact Disjunction_False)+
next
  case Sequence show ?case by (rule sim_Sequence) (fact Sequence)+
next
  case Access show ?case by (rule sim_Access) (fact Access)+
next
  case Assignment show ?case by (rule sim_Assignment) (fact Assignment)+
next
  case Definition show ?case by (rule sim_Definition) (fact Definition)+
next
  case Combination show ?case by (rule sim_Combination) (fact Combination)+
next
  case No_Operands show ?case by (rule sim_No_Operands)
next
  case Operand show ?case by (rule sim_Operand) (fact Operand)+
next
  case Apply_Procedure show ?case by (rule sim_Apply_Procedure) (fact Apply_Procedure)+
next
  case Apply_Extended show ?case by (rule sim_Apply_Extended) (fact Apply_Extended)+
next
  case Apply_Primitive show ?case by (rule sim_Apply_Primitive) (fact Apply_Primitive)+
next
  case Apply_Entity show ?case by (rule sim_Apply_Entity) (fact Apply_Entity)+
qed

text \<open>
  A machine that evaluates an expression with the return code \<open>RC_END_OF_COMPUTATION\<close> below it
  leaves the nested interpreter with the value.
\<close>

lemma Interpret_loop_returns:
  assumes run: "runs_to tbl W V R (do_expression, s) s h v" and s: "running W V R h0 s" "STACK_REF s 0 = MAKE_RETURN_CODE RC_END_OF_COMPUTATION"
    "stack_pointer s + 2 \<le> stack_end s" "1 < interpreter_states s"
  shows "\<exists>t. Interpret_loop tbl do_expression s = Some (Inr (), t) \<and> reg_val t = v \<and> alike W (memory t) h
    \<and> stack_pointer t = stack_pointer s + 2 \<and> interpreter_states t = interpreter_states s - 1"
proof -
  obtain t where t: "reaches tbl (do_expression, s) (pop_return, t)" "running W V R h t" "same_stack s t" "reg_val t = v"
    using run unfolding runs_to_def by blast
  have c: "interpreter_states t = interpreter_states s" using t(3) control_partD [of t s] by (simp add: same_stack_def)
  have ret: "STACK_REF t 0 = MAKE_RETURN_CODE RC_END_OF_COMPUTATION" using same_stack_REF [OF t(3), of 0] s(2,3) by simp
  let ?u = "unbind_interpreter_state (RESTORE_CONT t)"
  have states: "interpreter_states (RESTORE_CONT t) = interpreter_states s" using control_partD [of "RESTORE_CONT t" t] c by simp
  have "return_dispatch t = Some (Inr Interpret_Returns, ?u)"
    using ret states s(4) by (simp add: return_dispatch_def Let_def end_of_computation_def)
  then have "reaches tbl (pop_return, t) (Interpret_Returns, ?u)"
    using runningD(6) [OF t(2)] reaches_one [of tbl pop_return t pop_return_non_trapping t] reaches_one [OF _ reaches_refl, of tbl pop_return_non_trapping t]
    by simp
  from reaches_Interpret_loop [OF reaches_trans [OF t(1) this]]
  have "Interpret_loop tbl do_expression s = Some (Inr (), ?u)" by (simp add: Interpret_loop.simps [of tbl Interpret_Returns])
  moreover have "stack_pointer t = stack_pointer s" using same_stackD [OF t(3)] by simp
  ultimately show ?thesis using t(4) runningD(1) [OF t(2)] states by (simp add: unbind_interpreter_state_def)
qed

end
