(* ===== verification/Control_Correct.thy ===== *)
theory Control_Correct
  imports Apply_Correct Control_Prims
begin

text \<open>
  Interrupts, errors, control points and \<open>APPLY\<close>: what the call of a handler saves is what the
  return from it restores.
\<close>

section \<open>Pushed words\<close>

definition pushes :: "ulong list \<Rightarrow> interp \<Rightarrow> interp" where
  "pushes ws s = fold STACK_PUSH ws s"

lemma pushes_Nil [simp]: "pushes [] s = s" and pushes_snoc: "pushes (ws @ [w]) s = STACK_PUSH w (pushes ws s)"
  by (simp_all add: pushes_def)

lemma pushes_Cons: "pushes (w # ws) s = pushes ws (STACK_PUSH w s)"
  by (simp add: pushes_def)

lemma pushes_stack:
  "stack_pointer (pushes ws s) = stack_pointer s - length ws"
  by (induction ws arbitrary: s) (simp_all add: pushes_Cons)

lemma pushes_control [simp]: "control_part (pushes ws s) = control_part s"
  by (induction ws arbitrary: s) (simp_all add: pushes_Cons)

lemma pushes_registers [simp]:
  "reg_val (pushes ws s) = reg_val s" "reg_env (pushes ws s) = reg_env s" "reg_exp (pushes ws s) = reg_exp s" "reg_ret (pushes ws s) = reg_ret s"
  "history_register (pushes ws s) = history_register s"
  by (induction ws arbitrary: s) (simp_all add: pushes_Cons)

lemma pushes_fields [simp]:
  "int_mask (memory (pushes ws s)) = int_mask (memory s)" "int_code (memory (pushes ws s)) = int_code (memory s)"
  by (induction ws arbitrary: s) (simp_all add: pushes_Cons write_word_def)

lemma pushes_REF:
  "length ws \<le> stack_pointer s \<Longrightarrow> STACK_REF (pushes ws s) i = (if i < length ws then rev ws ! i else STACK_REF s (i - length ws))"
proof (induction ws arbitrary: i rule: rev_induct)
  case (snoc w ws)
  have sp: "0 < stack_pointer (pushes ws s)" using snoc.prems by (simp add: pushes_stack)
  then show ?case using snoc by (cases i) (simp_all add: pushes_snoc)
qed simp

section \<open>The call of a handler and the return from it\<close>

text \<open>The words a call of a handler pushes, the last one first: its frame, the mask and the history.\<close>

definition handler_words :: "interp \<Rightarrow> ulong \<Rightarrow> ulong \<Rightarrow> ulong list" where
  "handler_words s handler x =
     [MAKE_OBJECT 0 3, handler, x, ULONG_TO_FIXNUM (int_mask (memory s)),
      MAKE_RETURN_CODE RC_RESTORE_INT_MASK, ULONG_TO_FIXNUM (int_mask (memory s)),
      MAKE_RETURN_CODE RC_RESTORE_DONT_COPY_HISTORY, MAKE_POINTER_OBJECT UNMARKED_HISTORY_TYPE (history_register s),
      ULONG_TO_FIXNUM (prev_restore_history_offset s), SHARP_F]"

definition handler_called :: "interp \<Rightarrow> ulong \<Rightarrow> ulong \<Rightarrow> ulong \<Rightarrow> interp \<Rightarrow> bool" where
  "handler_called s handler x w t \<longleftrightarrow> stack_pointer t = stack_pointer s - 10 \<and> stack_end t = stack_end s \<and> stack_guard t = stack_guard s
     \<and> (\<forall>i<10. STACK_REF t i = handler_words s handler x ! i) \<and> (\<forall>i. STACK_REF t (10 + i) = STACK_REF s i)
     \<and> int_mask (memory t) = w \<and> int_code (memory t) = int_code (memory s)"

lemma history_fields [simp]:
  "STACK_REF (s\<lparr>history_register := h\<rparr>) i = STACK_REF s i" "STACK_REF (s\<lparr>prev_restore_history_offset := n\<rparr>) i = STACK_REF s i"
  "STACK_REF (on_memory (SET_INTERRUPT_MASK w) s) i = STACK_REF s i"
  by (simp_all add: STACK_REF_def on_memory_def SET_INTERRUPT_MASK_def)

lemma CAN_PUSH_fields:
  "stack_pointer t = stack_pointer s \<Longrightarrow> stack_guard t = stack_guard s \<Longrightarrow> CAN_PUSH_P t n = CAN_PUSH_P s n"
  by (simp add: CAN_PUSH_P_def)

definition history_saved :: "interp \<Rightarrow> interp" where
  "history_saved s =
     (let t = SAVE_CONT (SET_RC RC_RESTORE_DONT_COPY_HISTORY (SET_EXP (MAKE_POINTER_OBJECT UNMARKED_HISTORY_TYPE (history_register s))
          (STACK_PUSH (ULONG_TO_FIXNUM (prev_restore_history_offset s)) (STACK_PUSH SHARP_F s))));
          u = t\<lparr>history_register := OBJECT_ADDRESS (READ_DUMMY_HISTORY t)\<rparr>
      in SET_EXP (reg_exp s) (SET_RET (reg_ret s) (u\<lparr>prev_restore_history_offset := word_of_nat (STACK_N_PUSHED u + CONTINUATION_RETURN_CODE)\<rparr>)))"

lemma stop_history_eq: "CAN_PUSH_P s 4 \<Longrightarrow> stop_history k s = k (history_saved s)"
  by (simp add: stop_history_def save_history_def history_saved_def Let_def) (simp add: register_defs STACK_PUSH_def on_memory_def)

lemma history_saved_facts:
  assumes "4 \<le> stack_pointer s"
  shows "stack_pointer (history_saved s) = stack_pointer s - 4" "stack_end (history_saved s) = stack_end s" "stack_guard (history_saved s) = stack_guard s"
    "int_mask (memory (history_saved s)) = int_mask (memory s)" "int_code (memory (history_saved s)) = int_code (memory s)"
    "error_argument (history_saved s) = error_argument s"
    "STACK_REF (history_saved s) 0 = MAKE_RETURN_CODE RC_RESTORE_DONT_COPY_HISTORY"
    "STACK_REF (history_saved s) (Suc 0) = MAKE_POINTER_OBJECT UNMARKED_HISTORY_TYPE (history_register s)"
    "STACK_REF (history_saved s) (Suc (Suc 0)) = ULONG_TO_FIXNUM (prev_restore_history_offset s)"
    "STACK_REF (history_saved s) (Suc (Suc (Suc 0))) = SHARP_F"
    "STACK_REF (history_saved s) (Suc (Suc (Suc (Suc i)))) = STACK_REF s i"
  using assms
  by (simp_all add: history_saved_def Let_def SAVE_CONT_eq)
    (simp_all add: register_defs STACK_PUSH_def on_memory_def write_word_def)

definition mask_saved :: "interp \<Rightarrow> interp" where
  "mask_saved s = SAVE_CONT (SET_EXP (ULONG_TO_FIXNUM (int_mask (memory s))) (SET_RC RC_RESTORE_INT_MASK s))"

lemma preserve_interrupt_mask_eq: "CAN_PUSH_P s 2 \<Longrightarrow> preserve_interrupt_mask k s = k (mask_saved s)"
  by (simp add: preserve_interrupt_mask_def mask_saved_def)

lemma mask_saved_facts:
  assumes "2 \<le> stack_pointer s"
  shows "stack_pointer (mask_saved s) = stack_pointer s - 2" "stack_end (mask_saved s) = stack_end s" "stack_guard (mask_saved s) = stack_guard s"
    "int_mask (memory (mask_saved s)) = int_mask (memory s)" "int_code (memory (mask_saved s)) = int_code (memory s)"
    "error_argument (mask_saved s) = error_argument s" "STACK_REF (mask_saved s) 0 = MAKE_RETURN_CODE RC_RESTORE_INT_MASK"
    "STACK_REF (mask_saved s) (Suc 0) = ULONG_TO_FIXNUM (int_mask (memory s))" "STACK_REF (mask_saved s) (Suc (Suc i)) = STACK_REF s i"
  using assms
  by (simp_all add: mask_saved_def SAVE_CONT_eq) (simp_all add: register_defs STACK_PUSH_def on_memory_def write_word_def)

definition handler_applied :: "(interp \<Rightarrow> ulong) \<Rightarrow> ulong \<Rightarrow> ulong \<Rightarrow> interp \<Rightarrow> interp" where
  "handler_applied x handler w s =
     (let t = STACK_PUSH (ULONG_TO_FIXNUM (int_mask (memory s))) s
      in on_memory (SET_INTERRUPT_MASK w) (PUSH_APPLY_FRAME_HEADER 2 (STACK_PUSH handler (STACK_PUSH (x t) t))))"

lemma handler_applied_facts:
  fixes w handler :: ulong
  assumes "4 \<le> stack_pointer s"
    and x: "\<And>t. int_code (memory t) = int_code (memory s) \<Longrightarrow> error_argument t = error_argument s \<Longrightarrow> x t = y"
  defines "t \<equiv> handler_applied x handler w s"
  shows "stack_pointer t = stack_pointer s - 4" "stack_end t = stack_end s" "stack_guard t = stack_guard s"
    "int_mask (memory t) = w" "int_code (memory t) = int_code (memory s)" "STACK_REF t 0 = MAKE_OBJECT 0 3"
    "STACK_REF t (Suc 0) = handler" "STACK_REF t (Suc (Suc 0)) = y" "STACK_REF t (Suc (Suc (Suc 0))) = ULONG_TO_FIXNUM (int_mask (memory s))"
    "STACK_REF t (Suc (Suc (Suc (Suc i)))) = STACK_REF s i"
proof -
  have y: "x (STACK_PUSH v s) = y" for v by (rule x) (simp_all add: STACK_PUSH_def on_memory_def write_word_def)
  show "stack_pointer t = stack_pointer s - 4" "stack_end t = stack_end s" "stack_guard t = stack_guard s"
    "int_mask (memory t) = w" "int_code (memory t) = int_code (memory s)" "STACK_REF t 0 = MAKE_OBJECT 0 3"
    "STACK_REF t (Suc 0) = handler" "STACK_REF t (Suc (Suc 0)) = y" "STACK_REF t (Suc (Suc (Suc 0))) = ULONG_TO_FIXNUM (int_mask (memory s))"
    "STACK_REF t (Suc (Suc (Suc (Suc i)))) = STACK_REF s i"
    using assms(1) unfolding t_def handler_applied_def Let_def y
    by (simp_all add: PUSH_APPLY_FRAME_HEADER_def) (simp_all add: SET_INTERRUPT_MASK_def write_word_def)
qed

definition handler_state :: "(interp \<Rightarrow> ulong) \<Rightarrow> ulong \<Rightarrow> ulong \<Rightarrow> interp \<Rightarrow> interp" where
  "handler_state x handler w s = handler_applied x handler w (mask_saved (history_saved s))"

lemma handler_frame:
  assumes room: "CAN_PUSH_P s 10" "10 \<le> stack_pointer s"
    and x: "\<And>t. int_code (memory t) = int_code (memory s) \<Longrightarrow> error_argument t = error_argument s \<Longrightarrow> x t = y"
  shows "stop_history (preserve_interrupt_mask (Will_Push (STACK_ENV_EXTRA_SLOTS + 3)
      (doing_all [\<lambda>s. STACK_PUSH (ULONG_TO_FIXNUM (int_mask (memory s))) s, \<lambda>s. STACK_PUSH (x s) s, STACK_PUSH handler, PUSH_APPLY_FRAME_HEADER 2,
        on_memory (SET_INTERRUPT_MASK w)] k))) s = k (handler_state x handler w s)" (is ?code)
    and "handler_called s handler y w (handler_state x handler w s)" (is ?called)
proof -
  let ?h = "history_saved s" and ?m = "mask_saved (history_saved s)"
  let ?t = "handler_state x handler w s"
  note h = history_saved_facts [of s] and m = mask_saved_facts [of ?h]
  have sp: "4 \<le> stack_pointer s" "2 \<le> stack_pointer ?h" "4 \<le> stack_pointer ?m" using room(2) h m by simp_all
  have x': "x u = y" if "int_code (memory u) = int_code (memory ?m)" "error_argument u = error_argument ?m" for u
    by (rule x) (use that h m sp in simp_all)
  note t = handler_applied_facts [where x = x and y = y and w = w and handler = handler, OF sp(3) x', folded handler_state_def]
  have can: "CAN_PUSH_P s 4" "CAN_PUSH_P ?h 2" "CAN_PUSH_P ?m 4" using room h m sp by (simp_all add: CAN_PUSH_simps)
  have "STACK_REF ?t i = handler_words s handler y ! i" if "i < 10" for i
    using that t h [OF sp(1)] m [OF sp(2)]
    by (auto simp: handler_words_def less_Suc_eq numeral_eq_Suc)
  moreover have "STACK_REF ?t (10 + i) = STACK_REF s i" for i
    using t(10) [where i = "6 + i"] m(9) [OF sp(2), of "4 + i"] h(11) [OF sp(1), of i] by (simp add: numeral_eq_Suc)
  ultimately show ?called
    using t h [OF sp(1)] m [OF sp(2)] by (simp add: handler_called_def)
  show ?code
    using can by (simp add: stop_history_eq preserve_interrupt_mask_eq handler_state_def handler_applied_def Let_def)
qed

lemma handler_state_control:
  "control_part ((handler_state x handler w s)\<lparr>prev_restore_history_offset := n\<rparr>) = control_part (s\<lparr>prev_restore_history_offset := n\<rparr>)"
  by (simp add: control_part_def handler_state_def handler_applied_def mask_saved_def history_saved_def Let_def SAVE_CONT_eq
      PUSH_APPLY_FRAME_HEADER_def STACK_PUSH_def on_memory_def register_defs)

text \<open>
  A handler returns with its frame popped and the rest of the stack as it was, no interrupt
  pending under the old mask, and no need for a garbage collection.
\<close>

definition handler_returns :: "interp \<Rightarrow> interp \<Rightarrow> interp \<Rightarrow> bool" where
  "handler_returns s t u \<longleftrightarrow> stack_pointer u = stack_pointer t + 4 \<and> stack_end u = stack_end t \<and> \<not> trapping u
     \<and> (\<forall>i. stack_pointer u + i < stack_end u \<longrightarrow> STACK_REF u i = STACK_REF t (4 + i))
     \<and> int_code (memory u) AND int_mask (memory s) = 0 \<and> \<not> GC_NEEDED_P ((memory u)\<lparr>int_mask := int_mask (memory s)\<rparr>) 0"

definition saveable :: "interp \<Rightarrow> bool" where
  "saveable s \<longleftrightarrow> int_mask (memory s) \<le> INT_Mask \<and> uint (prev_restore_history_offset s) < 2 ^ 58 \<and> addressable (history_register s)"

definition restored_to :: "interp \<Rightarrow> interp \<Rightarrow> bool" where
  "restored_to s v \<longleftrightarrow> stack_pointer v = stack_pointer s \<and> stack_end v = stack_end s \<and> \<not> trapping v
     \<and> (\<forall>i. stack_pointer s + i < stack_end s \<longrightarrow> STACK_REF v i = STACK_REF s i) \<and> int_mask (memory v) = int_mask (memory s)
     \<and> history_register v = history_register s \<and> prev_restore_history_offset v = prev_restore_history_offset s"

lemma return_reaches:
  "\<not> trapping s \<Longrightarrow> return_dispatch s = Some (Inr l, t) \<Longrightarrow> reaches tbl (l, t) c \<Longrightarrow> reaches tbl (pop_return, s) c"
  by (rule reaches_one [of _ pop_return s pop_return_non_trapping s], simp add: STEPPING_def, rule reaches_one [of _ _ s l t]) simp_all

lemma FIXNUM_datum: "uint x < 2 ^ 58 \<Longrightarrow> OBJECT_DATUM (ULONG_TO_FIXNUM x) = x"
  by (simp add: ULONG_TO_FIXNUM_def)

lemma INT_Mask_small: "x \<le> INT_Mask \<Longrightarrow> uint x < 2 ^ 58"
  by (simp add: INT_Mask_def word_le_def)

lemma handler_returned:
  assumes t: "handler_called s handler x w t" and sp: "10 \<le> stack_pointer s" "stack_pointer s \<le> stack_end s"
    and sane: "saveable s" and u: "handler_returns s t u"
  shows "\<exists>v. reaches tbl (pop_return, u) (pop_return, v) \<and> restored_to s v \<and> reg_val v = reg_val u
    \<and> memory v = (memory u)\<lparr>int_mask := int_mask (memory s)\<rparr>
    \<and> control_part v = control_part (u\<lparr>prev_restore_history_offset := prev_restore_history_offset s\<rparr>)"
proof -
  note tc = t [unfolded handler_called_def] and ur = u [unfolded handler_returns_def]
  let ?mask = "int_mask (memory s)"
  have mask: "OBJECT_DATUM (ULONG_TO_FIXNUM ?mask) = ?mask" using sane by (intro FIXNUM_datum INT_Mask_small) (simp add: saveable_def)
  have prev: "OBJECT_DATUM (ULONG_TO_FIXNUM (prev_restore_history_offset s)) = prev_restore_history_offset s"
    using sane by (intro FIXNUM_datum) (simp add: saveable_def)
  have ref: "STACK_REF u i = STACK_REF t (4 + i)" if "stack_pointer s - 6 + i < stack_end s" for i using ur tc sp that by auto
  have w: "STACK_REF t (4 + i) = handler_words s handler x ! (4 + i)" if "i < 6" for i using tc that by simp
  have words: "STACK_REF u 0 = MAKE_RETURN_CODE RC_RESTORE_INT_MASK" "STACK_REF u 1 = ULONG_TO_FIXNUM ?mask"
    "STACK_REF u 2 = MAKE_RETURN_CODE RC_RESTORE_DONT_COPY_HISTORY" "STACK_REF u 3 = MAKE_POINTER_OBJECT UNMARKED_HISTORY_TYPE (history_register s)"
    "STACK_REF u 4 = ULONG_TO_FIXNUM (prev_restore_history_offset s)"
    using ref [of 0] w [of 0] ref [of 1] w [of 1] ref [of 2] w [of 2] ref [of 3] w [of 3] ref [of 4] w [of 4] sp
    by (simp_all add: handler_words_def)
  have rest: "STACK_REF u (6 + i) = STACK_REF s i" if "stack_pointer s + i < stack_end s" for i
    using ref [of "6 + i"] tc that sp by (simp add: add.assoc [symmetric])
  let ?a = "on_memory (SET_INTERRUPT_MASK ?mask) (RESTORE_CONT u)"
  have a: "return_dispatch u = Some (Inr pop_return, ?a)"
    using words ur mask by (simp add: return_dispatch_def Let_def restore_int_mask_def PENDING_INTERRUPTS_P_def PENDING_INTERRUPTS_def SET_INTERRUPT_MASK_def and.commute)
  have tr: "\<not> trapping u" "\<not> trapping ?a" using ur control_partD [of ?a u] by simp_all
  have ar: "STACK_REF ?a i = STACK_REF u (2 + i)" for i by (simp add: numeral_2_eq_2)
  let ?b = "(pop_history_frame (RESTORE_CONT ?a))\<lparr>history_register := OBJECT_ADDRESS (reg_exp (RESTORE_CONT ?a))\<rparr>"
  have ctl: "control_part (RESTORE_CONT ?a) = control_part u" by simp
  have b: "return_dispatch ?a = Some (Inr pop_return, ?b)"
    using words(3) ar [of 0] by (simp add: return_dispatch_def Let_def restore_dont_copy_history_def pop_history_frame_def)
  have eb: "reg_exp (RESTORE_CONT ?a) = STACK_REF u 3" "STACK_REF (RESTORE_CONT ?a) 0 = STACK_REF u 4"
    using ar [of 1] ar [of 2] by (simp_all add: numeral_eq_Suc)
  have fb: "history_register ?b = history_register s" "prev_restore_history_offset ?b = prev_restore_history_offset s"
    "stack_pointer ?b = stack_pointer s" "stack_end ?b = stack_end s" "trapping ?b = False"
    using eb words(4,5) prev sane ur tc sp control_partD [OF ctl]
    by (simp_all add: pop_history_frame_def saveable_def STACK_DROP_def)
  have mb: "memory ?b = (memory u)\<lparr>int_mask := ?mask\<rparr>" "reg_val ?b = reg_val u"
    by (simp_all add: pop_history_frame_def SET_INTERRUPT_MASK_def)
  have "STACK_REF ?b i = STACK_REF s i" if "stack_pointer s + i < stack_end s" for i
    using rest [OF that] mb(1) fb(3) ur tc sp by (simp add: STACK_REF_def add.assoc)
  then have "restored_to s ?b" using fb mb by (simp add: restored_to_def)
  moreover have "reaches tbl (pop_return, u) (pop_return, ?b)"
    by (rule return_reaches [OF tr(1) a], rule return_reaches [OF tr(2) b], rule reaches_refl)
  moreover have "control_part ?b = control_part (u\<lparr>prev_restore_history_offset := prev_restore_history_offset s\<rparr>)"
    using fb(2) ctl by (simp add: control_part_def pop_history_frame_def STACK_DROP_def)
  ultimately show ?thesis using mb by blast
qed

section \<open>Errors\<close>

definition error_saved :: "bool \<Rightarrow> interp \<Rightarrow> interp" where
  "error_saved from_pop_return_p s =
     SAVE_CONT (SET_RC (if from_pop_return_p then RC_POP_RETURN_ERROR else RC_EVAL_ERROR)
       (if from_pop_return_p then SET_EXP (reg_val s) s else PUSH_ENV s))"

definition error_object :: "int \<Rightarrow> interp \<Rightarrow> ulong" where
  "error_object code s = (if code = ERR_WITH_ARGUMENT \<or> code = ERR_IN_SYSTEM_CALL then error_argument s else LONG_TO_FIXNUM (word_of_int code))"

lemma control_limits: "control_part t = control_part s \<Longrightarrow> stack_end t = stack_end s" "control_part t = control_part s \<Longrightarrow> stack_guard t = stack_guard s"
  "control_part t = control_part s \<Longrightarrow> trapping t = trapping s"
  "control_part t = control_part s \<Longrightarrow> prev_restore_history_offset t = prev_restore_history_offset s"
  using control_partD by blast+

lemma SAVE_CONT_fields [simp]:
  "int_mask (memory (SAVE_CONT s)) = int_mask (memory s)" "int_code (memory (SAVE_CONT s)) = int_code (memory s)"
  "error_argument (SAVE_CONT s) = error_argument s" "history_register (SAVE_CONT s) = history_register s"
  "prev_restore_history_offset (SAVE_CONT s) = prev_restore_history_offset s" "stack_end (SAVE_CONT s) = stack_end s" "stack_guard (SAVE_CONT s) = stack_guard s"
  "trapping (SAVE_CONT s) = trapping s"
  by (simp_all add: SAVE_CONT_eq write_word_def) (simp_all add: STACK_PUSH_def on_memory_def)

lemma PUSH_ENV_fields [simp]:
  "int_mask (memory (PUSH_ENV s)) = int_mask (memory s)" "int_code (memory (PUSH_ENV s)) = int_code (memory s)"
  "error_argument (PUSH_ENV s) = error_argument s" "history_register (PUSH_ENV s) = history_register s"
  "prev_restore_history_offset (PUSH_ENV s) = prev_restore_history_offset s" "trapping (PUSH_ENV s) = trapping s"
  by (simp_all add: PUSH_ENV_def write_word_def) (simp_all add: STACK_PUSH_def on_memory_def)

lemma setter_fields [simp]:
  "error_argument (SET_EXP v s) = error_argument s" "error_argument (SET_RC c s) = error_argument s" "error_argument (SET_VAL v s) = error_argument s"
  "prev_restore_history_offset (SET_EXP v s) = prev_restore_history_offset s" "prev_restore_history_offset (SET_RC c s) = prev_restore_history_offset s"
  "prev_restore_history_offset (SET_VAL v s) = prev_restore_history_offset s"
  "trapping (SET_EXP v s) = trapping s" "trapping (SET_RC c s) = trapping s" "trapping (SET_VAL v s) = trapping s"
  by (simp_all add: register_defs)

lemma error_saved_facts:
  defines "n \<equiv> \<lambda>b. if b then 2 else (3 :: nat)"
  shows "stack_pointer (error_saved b s) = stack_pointer s - n b" "stack_end (error_saved b s) = stack_end s" "stack_guard (error_saved b s) = stack_guard s"
    "int_mask (memory (error_saved b s)) = int_mask (memory s)" "error_argument (error_saved b s) = error_argument s"
    "saveable (error_saved b s) = saveable s"
  by (simp_all add: error_saved_def saveable_def n_def numeral_3_eq_3)

lemma micro_error:
  assumes room: "CAN_PUSH_P s 13" "13 \<le> stack_pointer s" and h: "error_handler code (error_saved b s) = Some handler"
  shows "Do_Micro_Error code b k s = k (handler_state (error_object code) handler 0 (error_saved b s))" (is ?code)
    and "handler_called (error_saved b s) handler (error_object code s) 0 (handler_state (error_object code) handler 0 (error_saved b s))" (is ?called)
proof -
  let ?p = "error_saved b s"
  have can: "CAN_PUSH_P s (CONTINUATION_SIZE + (if b then 0 else 1))" using room by (simp add: CAN_PUSH_simps)
  have p: "CAN_PUSH_P ?p 10" "10 \<le> stack_pointer ?p" using room error_saved_facts(1-3) [of b s] by (auto simp: CAN_PUSH_simps split: if_splits)
  have obj: "error_object code t = error_object code s" if "error_argument t = error_argument ?p" for t
    using that error_saved_facts(5) [of b s] by (simp add: error_object_def)
  show ?called by (rule handler_frame(2) [OF p]) (rule obj)
  have "Do_Micro_Error code b k s = stop_history (preserve_interrupt_mask (Will_Push (STACK_ENV_EXTRA_SLOTS + 3)
      (doing_all [\<lambda>s. STACK_PUSH (ULONG_TO_FIXNUM (int_mask (memory s))) s, \<lambda>s. STACK_PUSH (error_object code s) s, STACK_PUSH handler, PUSH_APPLY_FRAME_HEADER 2,
        on_memory (SET_INTERRUPT_MASK 0)] k))) ?p"
    unfolding Do_Micro_Error_def STACK_CHECK_ok(2) [OF can]
    using h unfolding error_saved_def error_object_def by (cases b) simp_all
  then show ?code by (simp only: handler_frame(1) [OF p obj])
qed

end
