(* ===== verification/Apply_Lists.thy ===== *)
theory Apply_Lists
  imports Control_Correct
begin

text \<open>
  The lists of arguments of \<open>APPLY\<close> and \<open>PRIMITIVE-APPLY-STEP\<close>: the first counts its list at two
  speeds and so ends on a circular one, the second does not end there.
\<close>

section \<open>Loops that leave the memory as it is\<close>

lemma loop_forever:
  assumes "\<And>j. body (y j) m = Some (Inr (Inr (y (Suc j))), m)"
  shows "loop body (y 0) m = None"
proof (rule ccontr)
  assume "loop body (y 0) m \<noteq> None"
  then obtain r where "(case ((body, y 0), m) of (x, s) \<Rightarrow> (case x of (b, x) \<Rightarrow> loop b x) s) = Some r" by auto
  then have "(case ((body, y 0), m) of (x, s) \<Rightarrow> (case x of (b, x) \<Rightarrow> \<lambda>s _. b = body \<longrightarrow> s = m \<longrightarrow> (\<forall>j. x \<noteq> y j)) s) r"
  proof (rule loop.raw_induct [rotated])
    fix loop b x s r
    assume IH: "\<And>x s b r. loop x s b = Some r \<Longrightarrow> x = body \<longrightarrow> b = m \<longrightarrow> (\<forall>j. s \<noteq> y j)"
      and eq: "(case b x s of None \<Rightarrow> None | Some (Inl e, s') \<Rightarrow> Some (Inl e, s') | Some (Inr (Inl result), s') \<Rightarrow> Some (Inr result, s')
          | Some (Inr (Inr x'), s') \<Rightarrow> loop b x' s') = Some r"
    show "b = body \<longrightarrow> s = m \<longrightarrow> (\<forall>j. x \<noteq> y j)"
    proof (intro impI allI notI)
      fix j assume "b = body" "s = m" "x = y j"
      then have "loop body (y (Suc j)) m = Some r" using eq assms [of j] by simp
      from IH [OF this] show False by blast
    qed
  qed
  then show False by auto
qed

section \<open>Tails of a list\<close>

definition tail :: "machine \<Rightarrow> ulong \<Rightarrow> nat \<Rightarrow> ulong" where
  "tail m x n = (PAIR_CDR m ^^ n) x"

definition circular :: "machine \<Rightarrow> ulong \<Rightarrow> bool" where
  "circular m x \<longleftrightarrow> (\<forall>n. PAIR_P (tail m x n))"

lemma tail_simps [simp]: "tail m x 0 = x" "PAIR_CDR m (tail m x n) = tail m x (Suc n)"
  by (simp_all add: tail_def)

lemma tail_shift: "tail m x i = tail m x j \<Longrightarrow> tail m x (i + n) = tail m x (j + n)"
  by (induction n) (simp_all flip: tail_simps(2))

lemma tails_repeat: "\<exists>i j. i < j \<and> tail m x i = tail m x j"
proof -
  have "\<not> inj (tail m x)"
  proof
    assume "inj (tail m x)"
    then have "finite (UNIV :: nat set)" using finite_imageD [of "tail m x" UNIV] finite [of "tail m x ` UNIV"] by blast
    then show False by simp
  qed
  then obtain i j where "tail m x i = tail m x j" "i \<noteq> j" unfolding inj_def by blast
  then show ?thesis by (metis linorder_neqE_nat)
qed

text \<open>The fast pointer meets the slow one.\<close>

lemma tails_meet: "\<exists>k. tail m x (2 * k + 2) = tail m x k"
proof -
  obtain i j where ij: "i < j" "tail m x i = tail m x j" using tails_repeat by blast
  define p where "p = j - i"
  have p: "0 < p" "j = i + p" using ij(1) by (simp_all add: p_def)
  have turn: "tail m x (n + q * p) = tail m x n" if "i \<le> n" for n q
  proof (induction q)
    case (Suc q)
    have "tail m x (n + Suc q * p) = tail m x (j + (n - i + q * p))" using that p(2) by (simp add: algebra_simps)
    also have "\<dots> = tail m x (i + (n - i + q * p))" using tail_shift [OF ij(2) [symmetric]] .
    finally show ?case using Suc that by simp
  qed simp
  define k where "k = (i + 2) * p - 2"
  have "(i + 2) * 1 \<le> (i + 2) * p" using p(1) by (intro mult_le_mono2) simp
  then have "i \<le> k" "k + 2 = (i + 2) * p" by (simp_all add: k_def)
  then show ?thesis using turn [of k "i + 2"] by (metis add.assoc mult_2)
qed

lemma last_tail:
  assumes "\<not> circular m x"
  shows "\<exists>n. (\<forall>i<n. PAIR_P (tail m x i)) \<and> \<not> PAIR_P (tail m x n)"
  using assms exists_least_iff [of "\<lambda>n. \<not> PAIR_P (tail m x n)"] unfolding circular_def by blast

lemma tails_distinct:
  assumes "\<forall>i<n. PAIR_P (tail m x i)" "\<not> PAIR_P (tail m x n)" "i < j" "j \<le> n"
  shows "tail m x i \<noteq> tail m x j"
proof
  assume "tail m x i = tail m x j"
  from tail_shift [OF this, of "n - j"] have "tail m x (i + (n - j)) = tail m x n" using assms(4) by simp
  moreover have "PAIR_P (tail m x (i + (n - j)))" using assms(1,3,4) by simp
  ultimately show False using assms(2) by simp
qed

section \<open>Counting\<close>

lemma count_step:
  "count_args_step (tail m x (2 * j), tail m x j, 2 * j) m =
     Some (Inr (if \<not> PAIR_P (tail m x (2 * j)) then Inl (Some (tail m x (2 * j), 2 * j))
       else if tail m x (2 * j + 1) = tail m x j then Inl None
       else if \<not> PAIR_P (tail m x (2 * j + 1)) then Inl (Some (tail m x (2 * j + 1), 2 * j + 1))
       else if tail m x (2 * j + 2) = tail m x j then Inl None
       else if \<not> PAIR_P (tail m x (2 * j + 2)) then Inl (Some (tail m x (2 * j + 2), 2 * j + 2))
       else Inr (tail m x (2 * Suc j), tail m x (Suc j), 2 * Suc j)), m)"
  by (simp add: count_args_step_def Let_def tail_def)

lemma circular_counted:
  assumes "circular m x"
  shows "loop count_args_step (x, x, 0) m = Some (Inr None, m)"
proof -
  obtain k where k: "tail m x (2 * k + 2) = tail m x k" using tails_meet by blast
  define I where "I y s \<longleftrightarrow> s = m \<and> (\<exists>j\<le>k. y = (tail m x (2 * j), tail m x j, 2 * j))" for y s
  have pair: "PAIR_P (tail m x n)" for n using assms by (simp add: circular_def)
  have "\<exists>r s'. loop count_args_step (x, x, 0) m = Some (Inr r, s') \<and> (r = None \<and> s' = m)"
  proof (rule loop_rule [where I = I and m = "\<lambda>(_, _, n) _. 2 * k - n"])
    show "I (x, x, 0) m" by (auto simp: I_def intro!: exI [of _ 0])
  next
    fix y s assume "I y s"
    then obtain j where j: "s = m" "j \<le> k" "y = (tail m x (2 * j), tail m x j, 2 * j)" by (auto simp: I_def)
    show "(\<exists>r s'. count_args_step y s = Some (Inr (Inl r), s') \<and> (r = None \<and> s' = m)) \<or>
        (\<exists>y' s'. count_args_step y s = Some (Inr (Inr y'), s') \<and> I y' s' \<and> (case y' of (_, _, n) \<Rightarrow> \<lambda>_. 2 * k - n) s' < (case y of (_, _, n) \<Rightarrow> \<lambda>_. 2 * k - n) s)"
    proof (cases "tail m x (2 * j + 1) = tail m x j \<or> tail m x (2 * j + 2) = tail m x j")
      case False
      then have "j < k" using k j(2) by (metis le_neq_implies_less)
      then show ?thesis using False j pair by (auto simp: count_step I_def intro!: exI [of _ "Suc j"])
    qed (use j pair in \<open>auto simp: count_step\<close>)
  qed
  then show ?thesis by blast
qed

lemma list_counted:
  assumes n: "\<forall>i<n. PAIR_P (tail m x i)" "\<not> PAIR_P (tail m x n)"
  shows "loop count_args_step (x, x, 0) m = Some (Inr (Some (tail m x n, n)), m)"
proof -
  define I where "I y s \<longleftrightarrow> s = m \<and> (\<exists>j. 2 * j \<le> n \<and> y = (tail m x (2 * j), tail m x j, 2 * j))" for y s
  have "\<exists>r s'. loop count_args_step (x, x, 0) m = Some (Inr r, s') \<and> (r = Some (tail m x n, n) \<and> s' = m)"
  proof (rule loop_rule [where I = I and m = "\<lambda>(_, _, k) _. n - k"])
    show "I (x, x, 0) m" by (auto simp: I_def intro!: exI [of _ 0])
  next
    fix y s assume "I y s"
    then obtain j where j: "s = m" "2 * j \<le> n" "y = (tail m x (2 * j), tail m x j, 2 * j)" by (auto simp: I_def)
    consider "2 * j = n" | "2 * j + 1 = n" | "2 * j + 2 = n" | "2 * j + 2 < n" using j(2) by linarith
    then show "(\<exists>r s'. count_args_step y s = Some (Inr (Inl r), s') \<and> (r = Some (tail m x n, n) \<and> s' = m)) \<or>
        (\<exists>y' s'. count_args_step y s = Some (Inr (Inr y'), s') \<and> I y' s' \<and> (case y' of (_, _, k) \<Rightarrow> \<lambda>_. n - k) s' < (case y of (_, _, k) \<Rightarrow> \<lambda>_. n - k) s)"
    proof cases
      case 4
      have "tail m x (2 * j + 1) \<noteq> tail m x j" "tail m x (2 * j + 2) \<noteq> tail m x j"
        using tails_distinct [OF n, of j "2 * j + 1"] tails_distinct [OF n, of j "2 * j + 2"] 4 by auto
      then show ?thesis using n(1) 4 j by (auto simp: count_step I_def intro!: exI [of _ "Suc j"])
    qed (use n j tails_distinct [OF n, of j "2 * j + 1"] tails_distinct [OF n, of j "2 * j + 2"] in \<open>auto simp: count_step\<close>)
  qed
  then show ?thesis by blast
qed

lemma scan_circular: "circular m x \<Longrightarrow> loop scan_list_step (x, 0) m = None"
  using loop_forever [of scan_list_step "\<lambda>n. (tail m x n, n)" m] by (simp add: circular_def scan_list_step_def tail_def)

section \<open>The primitives\<close>

lemma apply_circular: "circular (memory s) (ARG_REF s 2) \<Longrightarrow> Prim_apply s = Some (Inl (Abort_To_Interpreter (prim_error_code (Bad_Range 2))), s)"
  using circular_counted [of "memory s" "ARG_REF s 2"]
  by (simp add: Prim_apply_def Let_def calling_simps(1) bad_range_arg_def PRIMITIVE_ABORT_def leave_def)

lemma apply_returns: "\<exists>r t. Prim_apply s = Some (r, t)"
proof (cases "circular (memory s) (ARG_REF s 2)")
  case False
  then obtain n where "loop count_args_step (ARG_REF s 2, ARG_REF s 2, 0) (memory s) = Some (Inr (Some (tail (memory s) (ARG_REF s 2) n, n)), memory s)"
    using last_tail list_counted by blast
  then show ?thesis
    by (simp add: Prim_apply_def Let_def calling_simps(1) bad_range_arg_def wrong_type_arg_def PRIMITIVE_ABORT_def leave_def)
qed (simp add: apply_circular)

lemma apply_step_circular:
  assumes "circular (memory s) (ARG_REF s 2)" "HUNK3_P (ARG_REF s 3)" "PRIMITIVE_P (reg_primitive s)"
    "RETURN_CODE_P (STACK_REF s (unat (PRIMITIVE_N_ARGUMENTS tbl (reg_primitive s) s)))"
  shows "Prim_apply_step tbl s = None"
  using assms scan_circular [of "memory s" "ARG_REF s 2"]
  by (simp add: Prim_apply_step_def canonicalize_primitive_context_def ASSERT_def CHECK_ARG_TYPE_def Let_def calling_simps(3))

lemma list_tails:
  "list_at m b x xs \<Longrightarrow> i < length xs \<Longrightarrow> PAIR_P (tail m x i)"
  "list_at m b x xs \<Longrightarrow> tail m x (length xs) = EMPTY_LIST"
proof (induction xs arbitrary: x i)
  case (Cons v xs)
  { case 1 then show ?case using Cons.IH(1) [of "PAIR_CDR m x" "i - 1"] by (cases i) (auto simp: tail_def funpow_swap1) }
  { case 2 then show ?case using Cons.IH(2) [of "PAIR_CDR m x"] by (simp add: tail_def funpow_swap1) }
qed simp_all

lemma store_list_mem:
  assumes "list_at m b x xs" "b \<le> a"
  shows "mem (store_list (length xs) a x m) c = (if a \<le> c \<and> c < a + length xs then xs ! (c - a) else mem m c)"
  using assms
proof (induction xs arbitrary: x m a)
  case (Cons v xs)
  let ?m = "write_word a (PAIR_CAR m x) m"
  have "unchanged_below b m ?m" using Cons.prems(2) by (auto simp: unchanged_below_def)
  then have l: "list_at ?m b (PAIR_CDR ?m x) xs" using Cons.prems list_at_unchanged [of m b "PAIR_CDR m x" xs ?m] by auto
  have "mem (store_list (length xs) (a + 1) (PAIR_CDR ?m x) ?m) c =
      (if a + 1 \<le> c \<and> c < a + 1 + length xs then xs ! (c - (a + 1)) else mem ?m c)"
    by (rule Cons.IH [OF l]) (use Cons.prems(2) in simp)
  also have "\<dots> = (if a \<le> c \<and> c < a + length (v # xs) then (v # xs) ! (c - a) else mem m c)"
    using Cons.prems(1) by (auto simp: nth_Cons')
  finally show ?case by (simp only: list.size store_list.simps Let_def add_0_right add_Suc_right One_nat_def)
qed auto

text \<open>A proper list is spread over the stack, below the procedure.\<close>

lemma apply_spreads:
  assumes xs: "list_at (memory s) (stack_start s) (ARG_REF s 2) xs"
    and stack: "stack_start s \<le> stack_guard s" "stack_guard s + length xs + 2 \<le> stack_pointer s" "stack_pointer s + 2 \<le> stack_end s" "length xs + 1 < 2 ^ 58"
  shows "\<exists>t. Prim_apply s = Some (Inl (Abort_To_Interpreter PRIM_APPLY), t) \<and> frame_on (ARG_REF s 1) xs t
    \<and> stack_pointer t + length xs = stack_pointer s \<and> (\<forall>i. STACK_REF t (2 + length xs + i) = STACK_REF s (2 + i))"
proof -
  let ?n = "length xs" and ?f = "ARG_REF s 1" and ?x = "ARG_REF s 2"
  let ?p = "STACK_DROP 2 s"
  let ?q = "push_list ?n ?x ?p"
  let ?t = "PUSH_APPLY_FRAME_HEADER (word_of_nat ?n) (STACK_PUSH ?f ?q)"
  have "\<not> PAIR_P EMPTY_LIST" by code_simp
  then have "loop count_args_step (?x, ?x, 0) (memory s) = Some (Inr (Some (EMPTY_LIST, ?n)), memory s)"
    using list_counted [of ?n "memory s" ?x] list_tails [OF xs] by simp
  moreover have "CAN_PUSH_P s (int ?n + 2)" using stack by (simp add: CAN_PUSH_P_def)
  ultimately have ok: "Prim_apply s = Some (Inl (Abort_To_Interpreter PRIM_APPLY), ?t)"
    by (simp add: Prim_apply_def Let_def calling_simps(1) PRIMITIVE_ABORT_def leave_def POP_PRIMITIVE_FRAME_def EMPTY_LIST_P_def)
  let ?a = "stack_pointer s + 2 - ?n"
  have a: "STACK_LOC ?p (- int ?n) = ?a" using stack by (simp add: STACK_LOC_def nat_diff_distrib)
  have q: "stack_pointer ?q = ?a" "control_part ?q = control_part s" "memory ?q = store_list ?n ?a ?x (memory s)"
    using a by (simp_all add: push_list_def Let_def)
  have mem: "mem (memory ?q) c = (if ?a \<le> c \<and> c < ?a + ?n then xs ! (c - ?a) else mem (memory s) c)" for c
    unfolding q(3) by (rule store_list_mem [OF xs]) (use stack in linarith)
  have pos: "2 \<le> ?a" using stack by linarith
  have t: "stack_pointer ?t = ?a - 2" "control_part ?t = control_part s" using q by (simp_all add: PUSH_APPLY_FRAME_HEADER_def)
  have ref: "STACK_REF ?t 0 = MAKE_OBJECT 0 (word_of_nat ?n + 1)" "STACK_REF ?t 1 = ?f" "STACK_REF ?t (2 + i) = STACK_REF ?q i" for i
    using q(1) pos by (simp_all add: PUSH_APPLY_FRAME_HEADER_def numeral_2_eq_2)
  have arg: "STACK_REF ?q i = xs ! i" if "i < ?n" for i using mem [of "?a + i"] that q(1) by (simp add: STACK_REF_def)
  have rest: "STACK_REF ?q (?n + i) = STACK_REF s (2 + i)" for i
    using mem [of "?a + (?n + i)"] q(1) stack by (simp add: STACK_REF_def add.assoc)
  have "OBJECT_DATUM (MAKE_OBJECT 0 (word_of_nat ?n + 1) :: ulong) = word_of_nat (?n + 1)"
    using uint_small [OF stack(4)] stack(4) by (simp add: add.commute)
  then have "frame_on ?f xs ?t"
    using ref arg t control_partD [OF t(2)] stack pos by (simp add: frame_on_def APPLY_FRAME_SIZE_def APPLY_FRAME_PROCEDURE_def)
  moreover have "stack_pointer ?t + ?n = stack_pointer s" using t(1) stack by simp
  moreover have "STACK_REF ?t (2 + ?n + i) = STACK_REF s (2 + i)" for i using ref(3) [of "?n + i"] rest by (simp add: add.assoc)
  ultimately show ?thesis using ok by blast
qed

end
