(* ===== verification/List_Scan.thy ===== *)
theory List_Scan
  imports Vector_Correct Apply_Lists
begin

text \<open>
  What \<open>LIST->VECTOR\<close> makes of every object: of a list the vector of its elements, of an improper list an error,
  and of a circular list, or of one the heap has no room for, the request of a collection. The scan takes a word
  of the heap for every pair, so a circular list uses the heap up.
\<close>

section \<open>Rounds of the scan\<close>

lemma push_words_snoc: "push_free w (push_words ws s) = push_words (ws @ [w]) s"
  by (induction ws arbitrary: s) (simp_all add: push_words_Cons)

lemma tail_Free [simp]: "tail (s\<lparr>Free := a\<rparr>) x i = tail s x i"
  by (induction i) (simp_all flip: tail_simps(2))

lemma tail_list_at:
  assumes "\<forall>i<n. PAIR_P (tail s x i) \<and> OBJECT_ADDRESS (tail s x i) + 1 < b" "tail s x n = EMPTY_LIST"
  shows "list_at s b x (map (\<lambda>i. PAIR_CAR s (tail s x i)) [0..<n])"
  using assms
proof (induction n arbitrary: x)
  case (Suc n)
  define y where "y = PAIR_CDR s x"
  have t: "tail s y i = tail s x (Suc i)" for i by (simp only: y_def tail_def funpow.simps o_apply funpow_swap1)
  have "list_at s b y (map (\<lambda>i. PAIR_CAR s (tail s y i)) [0..<n])"
    by (rule Suc.IH) (use Suc.prems in \<open>auto simp: t\<close>)
  moreover have "map (\<lambda>i. PAIR_CAR s (tail s x i)) [0..<Suc n] = PAIR_CAR s x # map (\<lambda>i. PAIR_CAR s (tail s y i)) [0..<n]"
    by (simp add: t map_upt_Suc del: upt_Suc)
  moreover have "PAIR_P x \<and> OBJECT_ADDRESS x + 1 < b" using Suc.prems(1) [rule_format, of 0] by simp
  ultimately show ?case by (simp only: list_at.simps y_def)
qed simp

lemma list_scan_rounds:
  assumes "\<forall>i<k. PAIR_P (tail s x i) \<and> OBJECT_ADDRESS (tail s x i) + 1 < Free s" "\<forall>i<k. \<not> GC_NEEDED_P (s\<lparr>Free := Free s + i\<rparr>) 0"
  shows "list_scan n c x s = list_scan n (c + of_nat k) (tail s x k) (push_words (map (\<lambda>i. PAIR_CAR s (tail s x i)) [0..<k]) s)"
  using assms
proof (induction k)
  case (Suc k)
  let ?t = "push_words (map (\<lambda>i. PAIR_CAR s (tail s x i)) [0..<k]) s" and ?x = "tail s x k"
  have pair: "PAIR_P ?x" "OBJECT_ADDRESS ?x + 1 < Free s" using Suc.prems(1) by simp_all
  have gc: "\<not> GC_NEEDED_P ?t 0"
    using Suc.prems(2) [rule_format, of k] by (simp add: GC_NEEDED_P_def HEAP_AVAILABLE_P_def FREE_OK_P_def GC_ENABLED_P_def)
  have "unchanged_below (Free s) s ?t" by simp
  then have m: "mem ?t (OBJECT_ADDRESS ?x) = mem s (OBJECT_ADDRESS ?x)" "mem ?t (OBJECT_ADDRESS ?x + 1) = mem s (OBJECT_ADDRESS ?x + 1)"
    using pair(2) unfolding unchanged_below_def by auto
  have car: "PAIR_CAR ?t ?x = PAIR_CAR s ?x" using m(1) by (simp add: MEMORY_REF_def)
  have "PAIR_CDR (push_free w ?t) ?x = PAIR_CDR s ?x" for w
    using m(2) pair(2) by (simp add: MEMORY_REF_def)
  then have cdr: "PAIR_CDR (push_free w ?t) ?x = tail s x (Suc k)" for w by (simp only: tail_simps(2))
  have "list_scan n c x s = list_scan n (c + of_nat k) ?x ?t" using Suc by simp
  also have "\<dots> = list_scan n (c + of_nat k + 1) (tail s x (Suc k)) (push_free (PAIR_CAR s ?x) ?t)"
    by (simp only: list_scan_step [OF pair(1) gc] car cdr)
  also have "push_free (PAIR_CAR s ?x) ?t = push_words (map (\<lambda>i. PAIR_CAR s (tail s x i)) [0..<Suc k]) s"
    by (simp add: push_words_snoc)
  finally show ?case by (simp add: ac_simps)
qed simp

section \<open>The outcomes\<close>

text \<open>
  The heap at the start of a primitive, with collections enabled: there is a free word, and the primitive has
  not allocated yet or only a little. The pairs of the list lie below the allocation pointer.
\<close>

definition heap_ready :: "machine \<Rightarrow> bool" where
  "heap_ready s \<longleftrightarrow> heap_start s \<le> Free_primitive s \<and> Free_primitive s \<le> Free s \<and> Free s < heap_alloc_limit s \<and> addressable (heap_alloc_limit s)"

definition pairs_below :: "machine \<Rightarrow> ulong \<Rightarrow> bool" where
  "pairs_below s x \<longleftrightarrow> (\<forall>n. (\<forall>i\<le>n. PAIR_P (tail s x i)) \<longrightarrow> OBJECT_ADDRESS (tail s x n) + 1 < Free s)"

definition collection_requested :: "machine \<Rightarrow> ((abort + ulong) \<times> machine) option \<Rightarrow> bool" where
  "collection_requested s r \<longleftrightarrow> (\<exists>t. r = Some (Inl PRIM_INTERRUPT, t) \<and> int_code t = int_code s OR INT_GC \<and> unchanged_below (Free s) s t)"

lemma pairs_belowD: "pairs_below s x \<Longrightarrow> \<forall>i<n. PAIR_P (tail s x i) \<Longrightarrow> \<forall>i<n. PAIR_P (tail s x i) \<and> OBJECT_ADDRESS (tail s x i) + 1 < Free s"
  by (simp add: pairs_below_def)

lemma collecting_scan:
  assumes "PAIR_P x" "GC_ENABLED_P s" "heap_alloc_limit s \<le> Free s" "heap_start s \<le> Free_primitive s" "Free_primitive s \<le> Free s"
  shows "list_scan n c x s = Some (Inl PRIM_INTERRUPT, REQUEST_GC (Free s - Free_primitive s) s)"
proof -
  have "GC_NEEDED_P s 0" using assms(2,3) by (simp add: GC_NEEDED_P_def HEAP_AVAILABLE_P_def FREE_OK_P_def)
  then show ?thesis using assms by (subst list_scan.simps) (simp add: Primitive_GC_If_Needed_def Primitive_GC_def)
qed

lemma list_to_vector_rounds:
  assumes s: "GC_ENABLED_P s" "heap_ready s" "pairs_below s x" "\<forall>i<k. PAIR_P (tail s x i)" "Free s + k < heap_alloc_limit s"
  defines "t \<equiv> push_words (map (\<lambda>i. PAIR_CAR s (tail s x i)) [0..<k]) (s\<lparr>Free := Free s + 1\<rparr>)"
  shows "list_scan n 0 x (s\<lparr>Free := Free s + 1\<rparr>) = list_scan n (of_nat k) (tail s x k) t"
    "unchanged_below (Free s) s t" "Free t = Free s + 1 + k"
proof -
  let ?s = "s\<lparr>Free := Free s + 1\<rparr>"
  have "\<forall>i<k. PAIR_P (tail ?s x i) \<and> OBJECT_ADDRESS (tail ?s x i) + 1 < Free ?s" using pairs_belowD [OF s(3,4)] by auto
  moreover have "\<forall>i<k. \<not> GC_NEEDED_P (?s\<lparr>Free := Free ?s + i\<rparr>) 0"
    using s(2,5) by (simp add: GC_NEEDED_P_def HEAP_AVAILABLE_P_def FREE_OK_P_def heap_ready_def)
  ultimately show "list_scan n 0 x ?s = list_scan n (of_nat k) (tail s x k) t"
    using list_scan_rounds [of k ?s x n 0] by (simp add: t_def)
  have "unchanged_below (Free ?s) ?s t" unfolding t_def by (rule unchanged_below_push)
  then show "unchanged_below (Free s) s t" by (simp add: unchanged_below_def)
  show "Free t = Free s + 1 + k" by (simp add: t_def)
qed

lemma list_to_vector_full:
  assumes s: "GC_ENABLED_P s" "heap_ready s" "pairs_below s x" and m: "\<forall>i<m. PAIR_P (tail s x i)" "heap_alloc_limit s \<le> Free s + m"
  shows "collection_requested s (list_to_vector ty n x s)"
proof -
  define k where "k = heap_alloc_limit s - Free s - 1"
  have k: "k < m" "Free s + 1 + k = heap_alloc_limit s" using s(2) m(2) unfolding k_def heap_ready_def by linarith+
  let ?t = "push_words (map (\<lambda>i. PAIR_CAR s (tail s x i)) [0..<k]) (s\<lparr>Free := Free s + 1\<rparr>)"
  have "\<forall>i<k. PAIR_P (tail s x i)" "Free s + k < heap_alloc_limit s" using m(1) k by simp_all
  note r = list_to_vector_rounds [OF s this]
  have "list_scan n (of_nat k) (tail s x k) ?t = Some (Inl PRIM_INTERRUPT, REQUEST_GC (Free ?t - Free_primitive ?t) ?t)"
    by (rule collecting_scan) (use s(1,2) m(1) k r(3) in \<open>simp_all add: heap_ready_def GC_ENABLED_P_def\<close>)
  then have "list_to_vector ty n x s = Some (Inl PRIM_INTERRUPT, REQUEST_GC (Free ?t - Free_primitive ?t) ?t)"
    using r(1) by (simp add: list_to_vector_def Let_def)
  moreover have "unchanged_below (Free s) s (REQUEST_GC (Free ?t - Free_primitive ?t) ?t)"
    using r(2) by (simp add: unchanged_below_def REQUEST_GC_def REQUEST_INTERRUPT_def)
  ultimately show ?thesis by (simp add: collection_requested_def REQUEST_GC_def REQUEST_INTERRUPT_def)
qed

theorem list_to_vector_outcomes:
  assumes s: "GC_ENABLED_P s" "heap_ready s" "pairs_below s x"
  shows "circular s x \<Longrightarrow> collection_requested s (list_to_vector ty n x s)"
    and "\<forall>i<k. PAIR_P (tail s x i) \<Longrightarrow> heap_alloc_limit s \<le> Free s + k \<Longrightarrow> collection_requested s (list_to_vector ty n x s)"
    and "\<forall>i<k. PAIR_P (tail s x i) \<Longrightarrow> tail s x k = EMPTY_LIST \<Longrightarrow> Free s + k < heap_alloc_limit s \<Longrightarrow> ty < 64 \<Longrightarrow>
      \<exists>v t. list_to_vector ty n x s = Some (Inr v, t) \<and> OBJECT_TYPE v = ty
        \<and> vector_at t v (map (\<lambda>i. PAIR_CAR s (tail s x i)) [0..<k]) \<and> unchanged_below (Free s) s t"
    and "\<forall>i<k. PAIR_P (tail s x i) \<Longrightarrow> \<not> PAIR_P (tail s x k) \<Longrightarrow> tail s x k \<noteq> EMPTY_LIST \<Longrightarrow> Free s + k < heap_alloc_limit s \<Longrightarrow>
      \<exists>t. list_to_vector ty n x s = Some (Inl (Prim_Error (Wrong_Type n)), t) \<and> unchanged_below (Free s) s t"
proof -
  show "collection_requested s (list_to_vector ty n x s)" if "circular s x"
    using that by (intro list_to_vector_full [OF s, where m = "heap_alloc_limit s"]) (simp_all add: circular_def)
  show "collection_requested s (list_to_vector ty n x s)" if "\<forall>i<k. PAIR_P (tail s x i)" "heap_alloc_limit s \<le> Free s + k"
    by (rule list_to_vector_full [OF s that])
  show "\<exists>v t. list_to_vector ty n x s = Some (Inr v, t) \<and> OBJECT_TYPE v = ty
      \<and> vector_at t v (map (\<lambda>i. PAIR_CAR s (tail s x i)) [0..<k]) \<and> unchanged_below (Free s) s t"
    if k: "\<forall>i<k. PAIR_P (tail s x i)" "tail s x k = EMPTY_LIST" "Free s + k < heap_alloc_limit s" "ty < 64"
  proof -
    let ?xs = "map (\<lambda>i. PAIR_CAR s (tail s x i)) [0..<k]"
    have "list_at s (Free s) x ?xs" by (rule tail_list_at [OF pairs_belowD [OF s(3) k(1)] k(2)])
    moreover have "addressable (Free s + (length ?xs + 1))"
      using s(2) k(3) addressable_mono [of "heap_alloc_limit s" "Free s + (k + 1)"] by (simp add: heap_ready_def)
    then have "room s (length ?xs + 1)"
      using s(2) k(3) by (simp add: room_def GC_NEEDED_P_def HEAP_AVAILABLE_P_def FREE_OK_P_def heap_ready_def)
    ultimately show ?thesis using k(4) by (rule list_to_vector_correct)
  qed
  show "\<exists>t. list_to_vector ty n x s = Some (Inl (Prim_Error (Wrong_Type n)), t) \<and> unchanged_below (Free s) s t"
    if k: "\<forall>i<k. PAIR_P (tail s x i)" "\<not> PAIR_P (tail s x k)" "tail s x k \<noteq> EMPTY_LIST" "Free s + k < heap_alloc_limit s"
    using list_to_vector_rounds [OF s k(1,4)] list_scan_improper [OF k(2,3)] by (simp add: list_to_vector_def Let_def)
qed

end
