(* ===== verification/Byte_Correct.thy ===== *)
theory Byte_Correct
  imports Byte_Prims
begin

text \<open>
  Bytevectors hold lists of bytes: \<open>bytevector_at s v bs\<close>. The primitives act on these lists,
  for every integer argument, and signal a bad range error exactly where the list has no such
  position.
\<close>

definition bytevector_at :: "machine \<Rightarrow> ulong \<Rightarrow> byte list \<Rightarrow> bool" where
  "bytevector_at s v bs \<longleftrightarrow> BYTEVECTOR_P v \<and> unat (BYTEVECTOR_LENGTH s v) = length bs
     \<and> read_bytes s (BYTEVECTOR_POINTER v) (length bs) = bs \<and> BYTEVECTOR_POINTER v + length bs \<le> 8 * Free s"

lemma bytevector_atD:
  assumes "bytevector_at s v bs"
  shows "arg_bytevector n v s = (Inr (BYTEVECTOR_POINTER v, BYTEVECTOR_LENGTH s v), s)"
    "uint (BYTEVECTOR_LENGTH s v) = int (length bs)" "length bs < 2 ^ 58"
    "i < length bs \<Longrightarrow> read_byte s (BYTEVECTOR_POINTER v + i) = bs ! i"
proof -
  show "arg_bytevector n v s = (Inr (BYTEVECTOR_POINTER v, BYTEVECTOR_LENGTH s v), s)"
    using assms by (simp add: bytevector_at_def arg_bytevector_def)
  show "uint (BYTEVECTOR_LENGTH s v) = int (length bs)"   proof -
    have "int (unat (BYTEVECTOR_LENGTH s v)) = int (length bs)" using assms by (simp only: bytevector_at_def)
    then show ?thesis by simp
  qed
  moreover have "uint (BYTEVECTOR_LENGTH s v) < 2 ^ 58" unfolding BYTEVECTOR_LENGTH_def by (rule OBJECT_DATUM_bound)
  ultimately show "length bs < 2 ^ 58" by simp
  have "read_bytes s (BYTEVECTOR_POINTER v) (length bs) = bs" using assms by (simp add: bytevector_at_def)
  then show "i < length bs \<Longrightarrow> read_byte s (BYTEVECTOR_POINTER v + i) = bs ! i" using nth_read_bytes by metis
qed

text \<open>Writing inside a bytevector keeps its length word.\<close>

lemma bytevector_at_write:
  assumes "bytevector_at s v bs" "i + length ws \<le> length bs"
  shows "bytevector_at (write_bytes (BYTEVECTOR_POINTER v + i) ws s) v (take i bs @ ws @ drop (i + length ws) bs)"
proof -
  let ?p = "BYTEVECTOR_POINTER v"
  let ?s = "write_bytes (?p + i) ws s"
  have p: "?p = 8 * OBJECT_ADDRESS v + 16" by (simp add: BYTEVECTOR_POINTER_def)
  have "mem ?s (OBJECT_ADDRESS v + 1) = mem s (OBJECT_ADDRESS v + 1)"
    by (rule mem_write_bytes) (simp add: p)
  then have len: "BYTEVECTOR_LENGTH ?s v = BYTEVECTOR_LENGTH s v" by (simp add: BYTEVECTOR_LENGTH_def MEMORY_REF_def)
  have "read_bytes ?s ?p (length bs) = take i bs @ ws @ drop (i + length ws) bs"
  proof (rule nth_equalityI)
    fix j assume "j < length (read_bytes ?s ?p (length bs))"
    then have "j < length bs" by simp
    then show "read_bytes ?s ?p (length bs) ! j = (take i bs @ ws @ drop (i + length ws) bs) ! j"
      using assms(2) bytevector_atD(4) [OF assms(1)] by (auto simp: read_write_bytes nth_append)
  qed (use assms(2) in simp)
  then show ?thesis using assms by (simp add: bytevector_at_def len)
qed

text \<open>Storing a small integer changes no byte below the allocation pointer.\<close>

lemma store_integer_Free:
  assumes "integer_ok n" "room s (integer_digits n + 2)"
  shows "Free s \<le> Free (snd (store_integer (Some n) s))"
proof (cases n)
  case (Bignum_Object b)
  then have b: "bignum_wf b" "BIGNUM_LENGTH b = length (bignum_digits b)" using assms(1) bignum_wf_simps(1) [of b] by simp_all
  then have r: "room s (Suc (Suc (length (bignum_digits b))))" using assms(2) Bignum_Object by simp
  then have "length (bignum_digits b) + 2 < 2 ^ 64" by (simp add: room_def addressable_def)
  then show ?thesis using bignums.made [of b s] r Bignum_Object by fastforce
qed simp

lemma store_index:
  assumes "uint w < 2 ^ 62" "room s 3"
  shows "\<exists>x s' n. store_integer (ulong_to_integer w) s = (Inr x, s') \<and> unchanged_below (Free s) s s' \<and> Free s \<le> Free s'
    \<and> load_object s' x = Integer_Object n \<and> integer_ok n \<and> int_of n = uint w"
proof (cases "ulong_to_integer w")
  case None
  then show ?thesis using ulong_to_integer_correct [of w] by simp
next
  case (Some n)
  then have n: "integer_ok n" "int_of n = uint w" using ulong_to_integer_correct [of w] by simp_all
  have "room s (integer_digits n + 2)"
    using integer_digits_small [OF n(1)] n(2) assms(1) by (intro room_mono [OF assms(2)]) simp
  then show ?thesis using store_integer_correct [OF n(1)] store_integer_Free [OF n(1)] n Some by fastforce
qed

lemma bytevector_at_unchanged:
  assumes "bytevector_at s v bs" "unchanged_below (Free s) s s'" "Free s \<le> Free s'"
  shows "bytevector_at s' v bs"
proof -
  have le: "BYTEVECTOR_POINTER v + length bs \<le> 8 * Free s" using assms(1) by (simp add: bytevector_at_def)
  have same: "read_byte s' b = read_byte s b" if "b < 8 * Free s" for b
    using unchanged_belowD [OF assms(2), of "b div 8"] that by (simp add: read_byte_def less_mult_imp_div_less mult.commute)
  have "OBJECT_ADDRESS v + 1 < Free s" using le by (simp add: BYTEVECTOR_POINTER_def)
  then have "BYTEVECTOR_LENGTH s' v = BYTEVECTOR_LENGTH s v"
    using unchanged_belowD [OF assms(2)] by (simp add: BYTEVECTOR_LENGTH_def MEMORY_REF_def)
  moreover have "read_bytes s' (BYTEVECTOR_POINTER v) (length bs) = read_bytes s (BYTEVECTOR_POINTER v) (length bs)"
    using same le by (simp add: read_bytes_def)
  ultimately show ?thesis using assms(1,3) by (simp add: bytevector_at_def)
qed

section \<open>Single bytes\<close>

theorem bytevector_u8_ref_correct:
  assumes "bytevector_at s v bs" "integer_arg s x k" "room s 3"
  shows "if 0 \<le> k \<and> k < int (length bs)
    then \<exists>r s' n. Prim_bytevector_u8_ref v x s = (Inr r, s') \<and> load_object s' r = Integer_Object n \<and> int_of n = uint (bs ! nat k)
      \<and> bytevector_at s' v bs
    else Prim_bytevector_u8_ref v x s = (Inl (Prim_Error (Bad_Range 2)), s)"
proof -
  note v = bytevector_atD [OF assms(1)]
  note x = ulong_index_arg_correct [OF assms(2), of 2 "BYTEVECTOR_LENGTH s v", unfolded v(2)]
  show ?thesis
  proof (cases "0 \<le> k \<and> k < int (length bs)")
    case True
    then have u: "unat (word_of_int k :: ulong) = nat k" using v(3) by (simp add: unat_eq_nat_uint uint_word_of_int_pos)
    let ?b = "bs ! nat k"
    have "uint (ucast ?b :: ulong) = uint ?b" "uint ?b < 2 ^ 62"
      using uint_lt2p [of ?b] by (simp_all add: unsigned_ucast_eq take_bit_int_eq_self)
    then obtain r s' n where "store_integer (ulong_to_integer (ucast ?b)) s = (Inr r, s')" "unchanged_below (Free s) s s'"
      "Free s \<le> Free s'" "load_object s' r = Integer_Object n" "int_of n = uint ?b"
      using store_index [of "ucast ?b" s] assms(3) by auto
    moreover have "read_byte s (BYTEVECTOR_POINTER v + nat k) = ?b" using v(4) [of "nat k"] True by (simp add: nat_less_iff)
    ultimately show ?thesis
      using True x v(1) u bytevector_at_unchanged [OF assms(1)] by (simp add: Prim_bytevector_u8_ref_def)
  next
    case False
    then show ?thesis using x v(1) by (auto simp: Prim_bytevector_u8_ref_def)
  qed
qed

definition byte_arg :: "ulong \<Rightarrow> int \<Rightarrow> bool" where
  "byte_arg x b \<longleftrightarrow> FIXNUM_P x \<and> fixnum_int x = b"

lemma arg_byte_correct:
  assumes "byte_arg x b"
  shows "arg_byte n x s = (if 0 \<le> b \<and> b < 256 then Inr (word_of_int b) else Inl (Prim_Error (Bad_Range n)), s)"
proof -
  let ?d = "OBJECT_DATUM x"
  have d: "uint ?d < 2 ^ 58" by (rule OBJECT_DATUM_bound)
  have "uint (?d AND SIGN_MASK) = uint ?d div 2 ^ 57 * 2 ^ 57" by (simp only: SIGN_MASK_eq uint_and_not_mask64)
  then have "?d AND SIGN_MASK = 0 \<longleftrightarrow> uint ?d div 2 ^ 57 = 0" by (auto simp add: word_uint_eq_iff)
  also have "\<dots> \<longleftrightarrow> uint ?d < 2 ^ 57" using uint_bounds64(1) [of ?d] by (auto simp: zdiv_eq_0_iff)
  finally have sign: "FIXNUM_TO_ULONG_P x \<longleftrightarrow> uint ?d < 2 ^ 57" by (simp add: FIXNUM_TO_ULONG_P_def)
  have b: "b = (if uint ?d < 2 ^ 57 then uint ?d else uint ?d - 2 ^ 58)" and f: "FIXNUM_P x"
    using assms by (auto simp: byte_arg_def fixnum_int_def Let_def)
  show ?thesis
  proof (cases "uint ?d < 2 ^ 57")
    case True
    have "(?d \<ge> 0x100) = (256 \<le> b)" using True b by (simp add: word_le_def)
    moreover have "ucast ?d = (word_of_int b :: byte)" using True b by (simp add: word_of_int_eq_iff unsigned_ucast_eq word_uint_eq_iff)
    ultimately show ?thesis using True f sign b uint_bounds64(1) [of ?d] by (simp add: arg_byte_def)
  next
    case False
    then show ?thesis using f sign b d by (simp add: arg_byte_def)
  qed
qed

theorem bytevector_u8_set_correct:
  assumes "bytevector_at s v bs" "integer_arg s x k" "byte_arg y b"
  shows "if 0 \<le> k \<and> k < int (length bs)
    then if 0 \<le> b \<and> b < 256
      then \<exists>s'. Prim_bytevector_u8_set v x y s = (Inr UNSPECIFIC, s') \<and> bytevector_at s' v (bs[nat k := word_of_int b])
        \<and> (room s n \<longrightarrow> room s' n)
      else Prim_bytevector_u8_set v x y s = (Inl (Prim_Error (Bad_Range 3)), s)
    else Prim_bytevector_u8_set v x y s = (Inl (Prim_Error (Bad_Range 2)), s)"
proof -
  note v = bytevector_atD [OF assms(1)]
  note x = ulong_index_arg_correct [OF assms(2), of 2 "BYTEVECTOR_LENGTH s v", unfolded v(2)]
  show ?thesis
  proof (cases "0 \<le> k \<and> k < int (length bs)")
    case True
    then have u: "unat (word_of_int k :: ulong) = nat k" and k: "nat k < length bs"
      using v(3) by (simp_all add: unat_eq_nat_uint uint_word_of_int_pos nat_less_iff)
    have "bytevector_at (write_byte (BYTEVECTOR_POINTER v + nat k) (word_of_int b) s) v (bs[nat k := word_of_int b])"
      using bytevector_at_write [OF assms(1), of "nat k" "[word_of_int b]"] k by (simp add: upd_conv_take_nth_drop)
    then show ?thesis using True x v(1) u
      by (auto simp: Prim_bytevector_u8_set_def arg_byte_correct [OF assms(3)] room_def GC_NEEDED_P_def HEAP_AVAILABLE_P_def FREE_OK_P_def
          GC_ENABLED_P_def)
  next
    case False
    then show ?thesis using x v(1) by (auto simp: Prim_bytevector_u8_set_def)
  qed
qed

section \<open>Moving bytes\<close>

lemma ulong_index_up_to:
  assumes "integer_arg s x k" "uint n = int m" "m < 2 ^ 58"
  shows "ulong_index_arg i x (n + 1) s = (if 0 \<le> k \<and> k \<le> int m then Inr (word_of_int k) else Inl (Prim_Error (Bad_Range i)), s)"
proof -
  have "uint (n + 1) = int m + 1" using assms(2,3) by (simp add: uint_add_exact)
  then show ?thesis by (auto simp: ulong_index_arg_correct [OF assms(1)])
qed

theorem bytevector_copyx_correct:
  assumes "bytevector_at s to xs" "bytevector_at s src ys" "integer_arg s x ts" "integer_arg s y fs" "integer_arg s z fe" "room s 3"
  shows "if ts < 0 \<or> int (length xs) < ts then Prim_bytevector_copyx to x src y z s = (Inl (Prim_Error (Bad_Range 2)), s)
    else if fe < 0 \<or> int (length ys) < fe then Prim_bytevector_copyx to x src y z s = (Inl (Prim_Error (Bad_Range 5)), s)
    else if fs < 0 \<or> fe < fs then Prim_bytevector_copyx to x src y z s = (Inl (Prim_Error (Bad_Range 4)), s)
    else if int (length xs) < ts + (fe - fs) then Prim_bytevector_copyx to x src y z s = (Inl (Prim_Error (Bad_Range 5)), s)
    else \<exists>r s' n. Prim_bytevector_copyx to x src y z s = (Inr r, s') \<and> load_object s' r = Integer_Object n \<and> int_of n = ts + (fe - fs)
      \<and> bytevector_at s' to (take (nat ts) xs @ take (nat (fe - fs)) (drop (nat fs) ys) @ drop (nat (ts + (fe - fs))) xs)"
proof -
  note to = bytevector_atD [OF assms(1)] and src = bytevector_atD [OF assms(2)]
  note x = ulong_index_up_to [OF assms(3) to(2,3), of 2] and z = ulong_index_up_to [OF assms(5) src(2,3), of 5]
  show ?thesis
  proof (cases "ts < 0 \<or> int (length xs) < ts")
    case True
    then have "ulong_index_arg 2 x (BYTEVECTOR_LENGTH s to + 1) s = (Inl (Prim_Error (Bad_Range 2)), s)" using x by auto
    then show ?thesis using True to(1) by (simp add: Prim_bytevector_copyx_def)
  next
    case ts: False
    then have x: "ulong_index_arg 2 x (BYTEVECTOR_LENGTH s to + 1) s = (Inr (word_of_int ts), s)" using x by auto
    show ?thesis
    proof (cases "fe < 0 \<or> int (length ys) < fe")
      case True
      then have "ulong_index_arg 5 z (BYTEVECTOR_LENGTH s src + 1) s = (Inl (Prim_Error (Bad_Range 5)), s)" using z by auto
      then show ?thesis using True ts x to(1) src(1) by (simp add: Prim_bytevector_copyx_def)
    next
      case fe: False
      then have z: "ulong_index_arg 5 z (BYTEVECTOR_LENGTH s src + 1) s = (Inr (word_of_int fe), s)" using z by auto
      have "uint (word_of_int fe :: ulong) = int (nat fe)" "nat fe < 2 ^ 58"
        using fe src(3) by (simp_all add: uint_word_of_int_pos nat_less_iff)
      note y = ulong_index_up_to [OF assms(4) this, of 4]
      show ?thesis
      proof (cases "fs < 0 \<or> fe < fs")
        case True
        then have "ulong_index_arg 4 y (word_of_int fe + 1) s = (Inl (Prim_Error (Bad_Range 4)), s)" using y fe by auto
        then show ?thesis using True ts fe x z to(1) src(1) by (simp add: Prim_bytevector_copyx_def)
      next
        case fs: False
        then have y: "ulong_index_arg 4 y (word_of_int fe + 1) s = (Inr (word_of_int fs), s)" using y fe by auto
        define len :: ulong where "len = word_of_int fe - word_of_int fs"
        define to_end :: ulong where "to_end = word_of_int ts + len"
        have len: "uint len = fe - fs"
          unfolding len_def using fe fs src(3) by (simp add: uint_sub_exact uint_word_of_int_pos)
        have to_end: "uint to_end = ts + (fe - fs)"
          unfolding to_end_def using ts fe fs src(3) to(3) len by (simp add: uint_add_exact uint_word_of_int_pos)
        have over: "to_end > BYTEVECTOR_LENGTH s to \<longleftrightarrow> int (length xs) < ts + (fe - fs)"
          by (simp add: word_less_def to(2) to_end)
        have run: "Prim_bytevector_copyx to x src y z s =
          (if to_end > BYTEVECTOR_LENGTH s to then error_bad_range_arg 5 s
           else store_integer (ulong_to_integer to_end)
             (memmove (BYTEVECTOR_POINTER to + unat (word_of_int ts :: ulong)) (BYTEVECTOR_POINTER src + unat (word_of_int fs :: ulong)) (unat len) s))"
          using x y z to(1) src(1) by (simp add: Prim_bytevector_copyx_def len_def to_end_def Let_def)
        show ?thesis
        proof (cases "int (length xs) < ts + (fe - fs)")
          case True
          then show ?thesis using ts fe fs by (simp add: run over)
        next
          case False
          have n: "unat (word_of_int ts :: ulong) = nat ts" "unat (word_of_int fs :: ulong) = nat fs" "unat len = nat (fe - fs)"
            using ts fe fs src(3) to(3) len by (simp_all add: unat_eq_nat_uint uint_word_of_int_pos)
          define ws where "ws = take (nat (fe - fs)) (drop (nat fs) ys)"
          have ws: "read_bytes s (BYTEVECTOR_POINTER src + nat fs) (nat (fe - fs)) = ws"
          proof (rule nth_equalityI)
            show "length (read_bytes s (BYTEVECTOR_POINTER src + nat fs) (nat (fe - fs))) = length ws"
              using fe fs by (auto simp: ws_def min_def)
            fix i assume "i < length (read_bytes s (BYTEVECTOR_POINTER src + nat fs) (nat (fe - fs)))"
            then have "i < nat (fe - fs)" "nat fs + i < length ys" using fe fs by auto
            then show "read_bytes s (BYTEVECTOR_POINTER src + nat fs) (nat (fe - fs)) ! i = ws ! i"
              using src(4) [of "nat fs + i"] by (simp add: ws_def add.assoc)
          qed
          let ?s = "write_bytes (BYTEVECTOR_POINTER to + nat ts) ws s"
          have lw: "length ws = nat (fe - fs)" using ws length_read_bytes by metis
          have end_nat: "nat ts + length ws = nat (ts + (fe - fs))" using ts fs lw by (simp add: nat_add_distrib)
          have "nat ts + length ws \<le> length xs" using False unfolding end_nat by simp
          then have at: "bytevector_at ?s to (take (nat ts) xs @ ws @ drop (nat (ts + (fe - fs))) xs)"
            using bytevector_at_write [OF assms(1)] end_nat by metis
          have "uint to_end < 2 ^ 62" using to_end False to(3) by simp
          moreover have "room ?s 3" using assms(6) by (simp add: room_def GC_NEEDED_P_def HEAP_AVAILABLE_P_def FREE_OK_P_def GC_ENABLED_P_def)
          ultimately obtain r s' k where "store_integer (ulong_to_integer to_end) ?s = (Inr r, s')" "unchanged_below (Free ?s) ?s s'"
            "Free ?s \<le> Free s'" "load_object s' r = Integer_Object k" "int_of k = uint to_end"
            using store_index by blast
          moreover have "bytevector_at s' to (take (nat ts) xs @ ws @ drop (nat (ts + (fe - fs))) xs)"
            using bytevector_at_unchanged [OF at] calculation by blast
          ultimately show ?thesis
            using ts fe fs False over by (simp add: run n memmove_def ws to_end) (simp add: ws_def)
        qed
      qed
    qed
  qed
qed

end
