(* ===== verification/Variable_Example.thy ===== *)
theory Variable_Example
  imports Lookup_Correct Byte_Correct
begin

text \<open>
  A small machine with a table of symbols of one bucket, in which the first entry has been
  reclaimed and the second is the symbol \<open>foo\<close>, two strings, and an environment whose frame binds \<open>foo\<close>
  and whose parent is the global environment.
\<close>

definition foo_name :: ulong where "foo_name = MAKE_POINTER_OBJECT TC_BYTEVECTOR 340"

definition variable_words :: "(nat \<times> ulong) list" where
  "variable_words =
    [(200, 32), (204, MAKE_POINTER_OBJECT TC_VECTOR 300), (300, 1), (301, MAKE_POINTER_OBJECT TC_WEAK_CONS 310),
     (310, SHARP_F), (311, MAKE_POINTER_OBJECT TC_WEAK_CONS 320),
     (320, MAKE_POINTER_OBJECT TC_INTERNED_SYMBOL 330), (321, EMPTY_LIST),
     (330, foo_name), (331, UNBOUND_OBJECT),
     (341, 3), (342, 0x6F6F66), (351, 3), (352, 0x6F6F66), (361, 2), (362, 0x6162),
     (400, 2), (401, MAKE_POINTER_OBJECT TC_PROCEDURE 410), (402, 17),
     (410, MAKE_POINTER_OBJECT TC_LAMBDA 420), (411, THE_GLOBAL_ENV),
     (421, MAKE_POINTER_OBJECT TC_VECTOR 430), (430, 2), (432, MAKE_POINTER_OBJECT TC_INTERNED_SYMBOL 330)]"

definition variable_machine :: machine where
  "variable_machine = \<lparr>mem = (\<lambda>a. case map_of variable_words a of None \<Rightarrow> 0 | Some w \<Rightarrow> w), heap_start = 0, heap_end = 1000000,
     heap_alloc_limit = 1000000, Free = 500, Free_primitive = 500, int_mask = 4, int_code = 0, gc_space_needed = 0,
     fixed_objects = MAKE_POINTER_OBJECT TC_VECTOR 200\<rparr>"

definition foo_symbol :: ulong where "foo_symbol = MAKE_POINTER_OBJECT TC_INTERNED_SYMBOL 330"
definition foo_string :: ulong where "foo_string = MAKE_POINTER_OBJECT TC_BYTEVECTOR 350"
definition ba_string :: ulong where "ba_string = MAKE_POINTER_OBJECT TC_BYTEVECTOR 360"
definition foo_frame :: ulong where "foo_frame = MAKE_POINTER_OBJECT TC_ENVIRONMENT 400"

lemma variable_fields [simp]:
  "Free variable_machine = 500" "fixed_objects variable_machine = MAKE_POINTER_OBJECT TC_VECTOR 200"
  "mem variable_machine a = (case map_of variable_words a of None \<Rightarrow> 0 | Some w \<Rightarrow> w)"
  by (simp_all add: variable_machine_def)

lemma variable_room: "room variable_machine 4"
  by (simp add: room_def variable_machine_def GC_NEEDED_P_def HEAP_AVAILABLE_P_def FREE_OK_P_def addressable_def)

lemma addressable_numeral: "addressable (numeral k) \<longleftrightarrow> numeral k < (288230376151711744 :: nat)"
  by (simp add: addressable_def)

lemma variable_objects [simp]:
  "OBJECT_ADDRESS foo_string = 350" "OBJECT_ADDRESS ba_string = 360" "OBJECT_ADDRESS foo_symbol = 330" "OBJECT_ADDRESS foo_frame = 400"
  "OBJECT_TYPE foo_string = TC_BYTEVECTOR" "OBJECT_TYPE ba_string = TC_BYTEVECTOR" "OBJECT_TYPE foo_symbol = TC_INTERNED_SYMBOL"
  "OBJECT_TYPE foo_frame = TC_ENVIRONMENT" "OBJECT_ADDRESS foo_name = 340"
  by (simp_all add: foo_name_def foo_string_def ba_string_def foo_symbol_def foo_frame_def addressable_numeral)

lemma variable_lengths:
  "BYTEVECTOR_LENGTH variable_machine foo_string = 3" "BYTEVECTOR_LENGTH variable_machine ba_string = 2"
  "BYTEVECTOR_LENGTH variable_machine foo_name = 3"
  by (simp_all add: BYTEVECTOR_LENGTH_def MEMORY_REF_def variable_words_def OBJECT_DATUM_def addressable_numeral)

lemma upt_small: "[0..<3] = [0, 1, 2]" "[0..<2] = [0, 1 :: nat]"
  by (simp_all add: upt_conv_Cons)

lemma variable_bytes:
  "bytevector_bytes variable_machine foo_string = [0x66, 0x6F, 0x6F]" "bytevector_bytes variable_machine ba_string = [0x62, 0x61]"
  "symbol_bytes variable_machine foo_symbol = [0x66, 0x6F, 0x6F]"
  by (simp_all add: bytevector_bytes_def symbol_bytes_def variable_lengths read_bytes_def read_byte_def upt_small BYTEVECTOR_POINTER_def
      variable_words_def MEMORY_REF_def addressable_numeral)

lemma one_word: "0 < n \<Longrightarrow> n \<le> 8 \<Longrightarrow> {(8 * a + i) div 8 | i. i < n} = {a :: nat}"
  by (auto intro!: exI [of _ 0])

lemma variable_symbol_table_ok:
  "symbol_table_ok variable_machine foo_string [310, 320]" "symbol_table_ok variable_machine ba_string [310, 320]"
proof -
  have slot: "bucket_slot variable_machine bs = 301" "the_obarray variable_machine = MAKE_POINTER_OBJECT TC_VECTOR 300"
    "VECTOR_LENGTH variable_machine (MAKE_POINTER_OBJECT TC_VECTOR 300) = 1" for bs
    by (simp_all add: bucket_slot_def the_obarray_def VECTOR_REF_def MEMORY_REF_def VECTOR_LENGTH_def VECTOR_LOC_def
        variable_words_def OBJECT_DATUM_def addressable_numeral)
  have words: "table_words variable_machine = {204, 300}"
    by (simp add: table_words_def slot addressable_numeral insert_commute)
  have names: "bytevector_words variable_machine foo_string = {351, 352}" "bytevector_words variable_machine ba_string = {361, 362}"
    "bytevector_words variable_machine foo_name = {341, 342}"
    by (simp_all add: bytevector_words_def variable_lengths BYTEVECTOR_POINTER_def one_word [of _ 352, simplified]
        one_word [of _ 362, simplified] one_word [of _ 342, simplified])
  have live: "live_entry variable_machine 320" "\<not> live_entry variable_machine 310" "mem variable_machine 320 = foo_symbol"
    by (simp_all add: live_entry_def INTERNED_SYMBOL_P_def variable_words_def addressable_numeral foo_symbol_def SHARP_F_def)
  have sw: "symbol_words variable_machine foo_symbol = {330, 341, 342}"
    by (simp add: symbol_words_def MEMORY_REF_def names [simplified] variable_words_def)
  have "{p \<in> set [310, 320]. live_entry variable_machine p} = {320}" using live(1,2) by auto
  then have entries: "entry_words variable_machine [310, 320] = {310, 320, 330, 341, 342}"
    unfolding entry_words_def by (simp only: live(3) sw image_insert image_empty Union_insert ccpo_Sup_singleton) auto
  have path: "bucket_path variable_machine 301 [310, 320]"
    by (simp add: variable_words_def WEAK_PAIR_P_def addressable_numeral)
  show "symbol_table_ok variable_machine foo_string [310, 320]" "symbol_table_ok variable_machine ba_string [310, 320]"
    unfolding symbol_table_ok_def bucket_ok_def slot words names entries
    using path by (auto simp: bucket_links_def slot)
qed

lemma variable_strings:
  "bytevector_at variable_machine foo_string [0x66, 0x6F, 0x6F]" "bytevector_at variable_machine ba_string [0x62, 0x61]"
proof -
  have at: "bytevector_at variable_machine v bs"
    if "bytevector_bytes variable_machine v = bs" "BYTEVECTOR_P v" "BYTEVECTOR_POINTER v + length bs \<le> 8 * 500" for v bs
  proof -
    have "unat (BYTEVECTOR_LENGTH variable_machine v) = length bs" using that(1) by (auto simp: bytevector_bytes_def)
    then show ?thesis using that by (simp add: bytevector_at_def bytevector_bytes_def)
  qed
  show "bytevector_at variable_machine foo_string [0x66, 0x6F, 0x6F]" "bytevector_at variable_machine ba_string [0x62, 0x61]"
    by (rule at [OF variable_bytes(1)] at [OF variable_bytes(2)], simp_all add: BYTEVECTOR_P_def BYTEVECTOR_POINTER_def)+
qed

lemma variable_frame:
  "PROCEDURE_FRAME_P foo_frame" "\<not> EXTENDED_FRAME_P variable_machine foo_frame"
  "GET_FRAME_PROCEDURE variable_machine foo_frame = MAKE_POINTER_OBJECT TC_PROCEDURE 410"
  "GET_FRAME_PARENT variable_machine foo_frame = THE_GLOBAL_ENV"
  "GET_PROCEDURE_LAMBDA variable_machine (MAKE_POINTER_OBJECT TC_PROCEDURE 410) = MAKE_POINTER_OBJECT TC_LAMBDA 420"
  "GET_LAMBDA_FORMALS variable_machine (MAKE_POINTER_OBJECT TC_LAMBDA 420) = MAKE_POINTER_OBJECT TC_VECTOR 430"
  "GET_LAMBDA_PARAMETERS variable_machine (MAKE_POINTER_OBJECT TC_LAMBDA 420) = 432"
  "GET_LAMBDA_N_PARAMETERS variable_machine (MAKE_POINTER_OBJECT TC_LAMBDA 420) = 1"
  by (simp_all add: PROCEDURE_FRAME_P_def EXTENDED_FRAME_P_def VECTOR_P_def GET_FRAME_PROCEDURE_def GET_FRAME_PARENT_def
      GET_PROCEDURE_ENVIRONMENT_def GET_PROCEDURE_LAMBDA_def GET_LAMBDA_FORMALS_def GET_LAMBDA_PARAMETERS_def GET_LAMBDA_N_PARAMETERS_def
      VECTOR_LENGTH_def MEMORY_REF_def variable_words_def addressable_numeral OBJECT_DATUM_def)

lemma variable_chain: "env_chain variable_machine foo_frame [foo_frame, THE_GLOBAL_ENV]"
  by (simp add: variable_frame GLOBAL_FRAME_P_def)

lemma variable_cell:
  "first_cell variable_machine foo_symbol [foo_frame, THE_GLOBAL_ENV] = Some 402"
  "value_cell variable_machine 402 = 402" "trap_words variable_machine 402 = {}" "mem variable_machine 402 = 17"
  "get_trap_kind variable_machine 17 = NON_TRAP_KIND" "SYMBOL_P foo_symbol"
proof -
  have k: "\<not> REFERENCE_TRAP_P 17" "(17 :: ulong) \<noteq> UNBOUND_OBJECT" by code_simp+
  show m: "mem variable_machine 402 = 17" by (simp add: variable_words_def)
  show kind: "get_trap_kind variable_machine 17 = NON_TRAP_KIND" using k(1) by (simp add: get_trap_kind_def)
  show "value_cell variable_machine 402 = 402" "trap_words variable_machine 402 = {}"
    unfolding value_cell_def trap_words_def m kind using k(1) by simp_all
  have arg: "GET_FRAME_ARG_CELL foo_frame 0 = 402" by (simp add: GET_FRAME_ARG_CELL_def)
  have "mem variable_machine 432 = foo_symbol" by (simp add: variable_words_def foo_symbol_def)
  then have "scan_parameters 1 432 foo_frame foo_symbol 0 False variable_machine = Some 402"
    using k(2) m arg by (simp add: Let_def numeral_eq_Suc del: variable_fields)
  then have "frame_cell variable_machine foo_frame foo_symbol False = Some 402"
    by (simp add: frame_cell_def variable_frame [simplified] scan_procedure_bindings_def)
  then show "first_cell variable_machine foo_symbol [foo_frame, THE_GLOBAL_ENV] = Some 402" by simp
  show "SYMBOL_P foo_symbol" by (simp add: SYMBOL_P_def INTERNED_SYMBOL_P_def)
qed

lemma variable_frames_words: "frames_words variable_machine [foo_frame, THE_GLOBAL_ENV] \<subseteq> {401, 410, 411, 421, 430, 432}"
proof -
  have "\<not> PROCEDURE_FRAME_P THE_GLOBAL_ENV" by (simp add: GLOBAL_FRAME_P_def)
  then have "{f \<in> set [foo_frame, THE_GLOBAL_ENV]. PROCEDURE_FRAME_P f} = {foo_frame}" using variable_frame(1) by auto
  moreover have "frame_words variable_machine foo_frame \<subseteq> {401, 410, 411, 421, 430, 432}"
    unfolding frame_words_def procedure_words_def using variable_frame(2) unfolding variable_frame
    by (simp add: Let_def addressable_numeral variable_frame [simplified])
  ultimately show ?thesis by (simp add: frames_words_def)
qed

end
