(* ===== verification/Environment_Spec.thy ===== *)
theory Environment_Spec
  imports Variable_Example
begin

text \<open>
  Environments as association lists, read from the words of memory without the searches of \<open>lookup.c\<close>: which
  bindings a frame has, which frames enclose one another, and what a cell says of its variable. The search for a
  variable is the look-up in these lists.
\<close>

section \<open>The bindings of a frame\<close>

text \<open>
  A frame is a block of header, procedure (or extension) and arguments. The procedure's first word is its lambda, the
  lambda's second the vector of formals, whose first element is the name of the lambda and whose others are the names of the
  parameters; argument \<open>i\<close> is the cell of parameter \<open>i\<close>, unless it holds the object for unbound.
\<close>

definition parameter_bindings :: "machine \<Rightarrow> ulong \<Rightarrow> ulong \<Rightarrow> (ulong \<times> nat) list" where
  "parameter_bindings s procedure frame =
     (let lambda = mem s (OBJECT_ADDRESS procedure); formals = OBJECT_ADDRESS (mem s (OBJECT_ADDRESS lambda + 1));
          n = unat (OBJECT_DATUM (mem s formals)) - 1
      in filter (\<lambda>(name, cell). mem s cell \<noteq> MAKE_OBJECT TC_REFERENCE_TRAP 2)
           (map (\<lambda>i. (mem s (formals + 2 + i), OBJECT_ADDRESS frame + 2 + i)) [0..<n]))"

text \<open>
  An extension is a vector of parent, procedure, number of bindings and bindings, each a pair of the name and the value;
  the cell of such a binding is the cdr of its pair.
\<close>

definition extension_bindings :: "machine \<Rightarrow> ulong \<Rightarrow> (ulong \<times> nat) list" where
  "extension_bindings s extension =
     map (\<lambda>i. let pair = OBJECT_ADDRESS (mem s (OBJECT_ADDRESS extension + 4 + i)) in (mem s pair, pair + 1))
       [0..<unat (OBJECT_DATUM (mem s (OBJECT_ADDRESS extension + 3)))]"

definition frame_bindings :: "machine \<Rightarrow> ulong \<Rightarrow> (ulong \<times> nat) list" where
  "frame_bindings s frame =
     (let p = mem s (OBJECT_ADDRESS frame + 1)
      in if OBJECT_TYPE p = TC_VECTOR then extension_bindings s p @ parameter_bindings s (mem s (OBJECT_ADDRESS p + 2)) frame
         else parameter_bindings s p frame)"

section \<open>Enclosing frames\<close>

text \<open>
  The frames from the innermost to the outermost; the global environment, false, may enclose them all. The parent
  is the second word of the procedure, or of the extension.
\<close>

definition enclosing_environment :: "machine \<Rightarrow> ulong \<Rightarrow> ulong" where
  "enclosing_environment s frame = mem s (OBJECT_ADDRESS (mem s (OBJECT_ADDRESS frame + 1)) + 1)"

fun frames_of :: "machine \<Rightarrow> ulong \<Rightarrow> ulong list \<Rightarrow> bool \<Rightarrow> bool" where
  "frames_of s env [] global \<longleftrightarrow> global \<and> env = MAKE_OBJECT TC_FALSE 0"
| "frames_of s env (f # fs) global \<longleftrightarrow> env = f \<and> OBJECT_TYPE f = TC_ENVIRONMENT
     \<and> (frames_of s (enclosing_environment s f) fs global
        \<or> fs = [] \<and> \<not> global \<and> OBJECT_TYPE (enclosing_environment s f) \<noteq> TC_ENVIRONMENT
            \<and> enclosing_environment s f \<noteq> MAKE_OBJECT TC_FALSE 0)"

definition binding_of :: "machine \<Rightarrow> ulong list \<Rightarrow> bool \<Rightarrow> ulong \<Rightarrow> nat option" where
  "binding_of s fs global symbol =
     (case map_of (concat (map (frame_bindings s) fs)) symbol of
        Some cell \<Rightarrow> Some cell
      | None \<Rightarrow> if global then Some (OBJECT_ADDRESS symbol + 1) else None)"

section \<open>What a cell says\<close>

text \<open>
  The kind of a reference trap is its datum, when that is at most 9, and otherwise the datum of the word it points
  to. Kind 14 is a cache, whose second word points to the shared cell. The code's mark for \<open>not a trap\<close>
  is itself a kind, 32.
\<close>

definition trap_kind :: "machine \<Rightarrow> ulong \<Rightarrow> nat option" where
  "trap_kind s v =
     (if OBJECT_TYPE v \<noteq> TC_REFERENCE_TRAP then None
      else if OBJECT_DATUM v \<le> 9 then Some (unat (OBJECT_DATUM v)) else Some (unat (OBJECT_DATUM (mem s (OBJECT_ADDRESS v)))))"

definition plain_value :: "machine \<Rightarrow> ulong \<Rightarrow> int \<times> ulong option" where
  "plain_value s v =
     (case trap_kind s v of
        None \<Rightarrow> (PRIM_DONE, Some v)
      | Some kind \<Rightarrow>
          if kind = 0 then (ERR_UNASSIGNED_VARIABLE, None) else if kind = 2 then (ERR_UNBOUND_VARIABLE, None)
          else if kind = 15 then (ERR_MACRO_BINDING, Some v) else if kind = 32 then (PRIM_DONE, Some v)
          else (ERR_ILLEGAL_REFERENCE_TRAP, None))"

definition cell_value :: "machine \<Rightarrow> nat \<Rightarrow> int \<times> ulong option" where
  "cell_value s cell =
     (if trap_kind s (mem s cell) = Some 14
      then plain_value s (mem s (OBJECT_ADDRESS (mem s (OBJECT_ADDRESS (mem s cell) + 1))))
      else plain_value s (mem s cell))"

section \<open>The searches find these bindings\<close>

lemma scan_parameters_bindings:
  "scan_parameters n scan frame symbol i False s =
     map_of (filter (\<lambda>(name, cell). mem s cell \<noteq> UNBOUND_OBJECT)
       (map (\<lambda>k. (mem s (scan + k), OBJECT_ADDRESS frame + 2 + (i + k))) [0..<n])) symbol"
proof (induction n arbitrary: scan i)
  case (Suc n)
  have "map (\<lambda>k. (mem s (scan + k), OBJECT_ADDRESS frame + 2 + (i + k))) [0..<Suc n] =
      (mem s scan, OBJECT_ADDRESS frame + 2 + i) # map (\<lambda>k. (mem s (scan + 1 + k), OBJECT_ADDRESS frame + 2 + (i + 1 + k))) [0..<n]"
    by (simp add: map_upt_Suc del: upt_Suc)
  then show ?case using Suc.IH [of "scan + 1" "i + 1"] by (simp add: GET_FRAME_ARG_CELL_def Let_def del: upt_Suc)
qed simp

lemma scan_bindings_list:
  "scan_bindings n scan symbol s =
     map_of (map (\<lambda>k. let pair = OBJECT_ADDRESS (mem s (scan + k)) in (mem s pair, pair + 1)) [0..<n]) symbol"
proof (induction n arbitrary: scan)
  case (Suc n)
  then show ?case using Suc.IH [of "scan + 1"]
    by (simp add: map_upt_Suc Let_def PAIR_CAR_def MEMORY_REF_def del: upt_Suc)
qed simp

lemma scan_procedure_bindings_list: "scan_procedure_bindings p frame symbol False s = map_of (parameter_bindings s p frame) symbol"
  by (simp add: scan_procedure_bindings_def scan_parameters_bindings parameter_bindings_def Let_def UNBOUND_OBJECT_def
      GET_LAMBDA_N_PARAMETERS_def GET_LAMBDA_PARAMETERS_def GET_LAMBDA_FORMALS_def GET_PROCEDURE_LAMBDA_def VECTOR_LENGTH_def MEMORY_REF_def)

lemma frame_cell_bindings: "PROCEDURE_FRAME_P f \<Longrightarrow> frame_cell s f symbol False = map_of (frame_bindings s f) symbol"
  by (simp add: frame_cell_def frame_bindings_def Let_def scan_procedure_bindings_list scan_bindings_list extension_bindings_def
      EXTENDED_FRAME_P_def VECTOR_P_def GET_FRAME_PROCEDURE_def GET_EXTENDED_FRAME_LENGTH_def GET_FRAME_EXTENSION_LENGTH_def
      GET_EXTENDED_FRAME_BINDINGS_def GET_FRAME_EXTENSION_BINDINGS_def GET_EXTENDED_FRAME_PROCEDURE_def MEMORY_REF_def map_add_def split: option.split)

lemma frames_of_chain:
  "frames_of s env fs global \<Longrightarrow> env_chain s env (fs @ (if global then [THE_GLOBAL_ENV] else []))
     \<and> (\<forall>f\<in>set fs. PROCEDURE_FRAME_P f)"
proof (induction s env fs global rule: frames_of.induct)
  case (1 s env global)
  then show ?case by (simp add: GLOBAL_FRAME_P_def THE_GLOBAL_ENV_def)
next
  case (2 s env f fs global)
  have parent: "GET_FRAME_PARENT s f = enclosing_environment s f"
    by (simp add: GET_FRAME_PARENT_def GET_PROCEDURE_ENVIRONMENT_def GET_FRAME_PROCEDURE_def enclosing_environment_def MEMORY_REF_def)
  have f: "env = f" "PROCEDURE_FRAME_P f" using "2.prems" by (simp_all add: PROCEDURE_FRAME_P_def)
  show ?case
  proof (cases "frames_of s (enclosing_environment s f) fs global")
    case True
    note ih = "2.IH" [OF True]
    have "fs @ (if global then [THE_GLOBAL_ENV] else []) \<noteq> []" using ih by auto
    then show ?thesis using ih f env_chain_ENVIRONMENT [OF conjunct1 [OF ih]] by (cases global; cases fs) (simp_all add: parent)
  next
    case False
    then show ?thesis using "2.prems" f by (auto simp: parent ENVIRONMENT_P_def GLOBAL_FRAME_P_def THE_GLOBAL_ENV_def)
  qed
qed

lemma first_cell_binding:
  assumes "\<forall>f\<in>set fs. PROCEDURE_FRAME_P f"
  shows "first_cell s symbol (fs @ (if global then [THE_GLOBAL_ENV] else [])) = binding_of s fs global symbol"
  using assms
proof (induction fs)
  case Nil
  have "\<not> PROCEDURE_FRAME_P THE_GLOBAL_ENV" by (simp add: GLOBAL_FRAME_P_def)
  then show ?case by (simp add: binding_of_def frame_cell_def)
next
  case (Cons f fs)
  then show ?case
    by (cases "map_of (frame_bindings s f) symbol") (simp_all add: frame_cell_bindings binding_of_def map_add_def)
qed

lemma value_result_plain: "value_result s v = plain_value s v"
proof -
  have "OBJECT_DATUM v \<le> 9 \<longleftrightarrow> unat (OBJECT_DATUM v) \<le> 9" by (simp add: word_le_nat_alt)
  moreover have "k = 0 \<longleftrightarrow> unat k = 0" "k = 2 \<longleftrightarrow> unat k = 2" "k = 15 \<longleftrightarrow> unat k = 15" "k = 32 \<longleftrightarrow> unat k = 32" for k :: ulong
    by (simp_all add: word_unat_eq_iff)
  ultimately show ?thesis
    by (simp add: value_result_def plain_value_def trap_kind_def get_trap_kind_def REFERENCE_TRAP_P_def TRAP_MAX_IMMEDIATE_def
        MEMORY_REF_def Let_def)
qed

lemma value_cell_value: "value_result s (mem s (value_cell s c)) = cell_value s c"
proof -
  have "k = 14 \<longleftrightarrow> unat k = 14" for k :: ulong by (simp add: word_unat_eq_iff)
  then have "get_trap_kind s v = TRAP_COMPILER_CACHED \<longleftrightarrow> trap_kind s v = Some 14" for v
    by (simp add: trap_kind_def get_trap_kind_def REFERENCE_TRAP_P_def TRAP_MAX_IMMEDIATE_def MEMORY_REF_def)
  then show ?thesis
    by (simp add: value_cell_def cell_value_def value_result_plain GET_TRAP_CACHE_def MEMORY_REF_def)
qed

theorem lookup_variable_binding:
  assumes "frames_of s env fs global" "SYMBOL_P symbol"
  shows "lookup_variable env symbol s =
    Some (Inr (case binding_of s fs global symbol of None \<Rightarrow> (ERR_UNBOUND_VARIABLE, None) | Some c \<Rightarrow> cell_value s c), s)"
proof -
  note c = frames_of_chain [OF assms(1)]
  show ?thesis
    using lookup_variable_correct [OF conjunct1 [OF c] assms(2)] unfolding first_cell_binding [OF conjunct2 [OF c]]
    by (simp add: value_cell_value del: PRIM_DONE_def ERR_UNBOUND_VARIABLE_def cong: option.case_cong)
qed

section \<open>A frame that hides a binding\<close>

text \<open>
  Inside the frame of the example another one, with the parameters \<open>bar\<close> and \<open>foo\<close>; its \<open>foo\<close> has a cache.
\<close>

definition bar_symbol :: ulong where "bar_symbol = MAKE_POINTER_OBJECT TC_INTERNED_SYMBOL 480"
definition shadow_frame :: ulong where "shadow_frame = MAKE_POINTER_OBJECT TC_ENVIRONMENT 440"

definition shadow_words :: "(nat \<times> ulong) list" where
  "shadow_words =
    [(440, 3), (441, MAKE_POINTER_OBJECT TC_PROCEDURE 450), (442, 11), (443, MAKE_POINTER_OBJECT TC_REFERENCE_TRAP 490),
     (450, MAKE_POINTER_OBJECT TC_LAMBDA 460), (451, foo_frame), (461, MAKE_POINTER_OBJECT TC_VECTOR 470),
     (470, 3), (472, bar_symbol), (473, foo_symbol), (490, 14), (491, MAKE_POINTER_OBJECT CACHE_TYPE 495), (495, 29)] @ variable_words"

definition shadow_machine :: machine where
  "shadow_machine = variable_machine\<lparr>mem := (\<lambda>a. case map_of shadow_words a of None \<Rightarrow> 0 | Some w \<Rightarrow> w)\<rparr>"

lemma shadow_mem:
  "mem shadow_machine 401 = MAKE_POINTER_OBJECT TC_PROCEDURE 410" "mem shadow_machine 402 = 17"
  "mem shadow_machine 410 = MAKE_POINTER_OBJECT TC_LAMBDA 420" "mem shadow_machine 411 = THE_GLOBAL_ENV"
  "mem shadow_machine 421 = MAKE_POINTER_OBJECT TC_VECTOR 430" "mem shadow_machine 430 = 2" "mem shadow_machine 432 = foo_symbol"
  "mem shadow_machine 441 = MAKE_POINTER_OBJECT TC_PROCEDURE 450" "mem shadow_machine 442 = 11"
  "mem shadow_machine 443 = MAKE_POINTER_OBJECT TC_REFERENCE_TRAP 490" "mem shadow_machine 450 = MAKE_POINTER_OBJECT TC_LAMBDA 460"
  "mem shadow_machine 451 = foo_frame" "mem shadow_machine 461 = MAKE_POINTER_OBJECT TC_VECTOR 470" "mem shadow_machine 470 = 3"
  "mem shadow_machine 472 = bar_symbol" "mem shadow_machine 473 = foo_symbol" "mem shadow_machine 490 = 14"
  "mem shadow_machine 491 = MAKE_POINTER_OBJECT CACHE_TYPE 495" "mem shadow_machine 495 = 29"
  by (simp_all add: shadow_machine_def shadow_words_def variable_words_def foo_symbol_def)

lemma shadow_objects:
  "OBJECT_ADDRESS shadow_frame = 440" "OBJECT_TYPE shadow_frame = TC_ENVIRONMENT" "bar_symbol \<noteq> foo_symbol" "SYMBOL_P bar_symbol"
proof -
  show "OBJECT_ADDRESS shadow_frame = 440" "OBJECT_TYPE shadow_frame = TC_ENVIRONMENT" by (simp_all add: shadow_frame_def addressable_numeral)
  have "OBJECT_ADDRESS bar_symbol = 480" by (simp add: bar_symbol_def addressable_numeral)
  then show "bar_symbol \<noteq> foo_symbol" by auto
  show "SYMBOL_P bar_symbol" by (simp add: bar_symbol_def SYMBOL_P_def INTERNED_SYMBOL_P_def addressable_numeral)
qed

lemma shadow_frames: "frames_of shadow_machine shadow_frame [shadow_frame, foo_frame] True"
  by (simp add: enclosing_environment_def shadow_objects shadow_mem addressable_numeral THE_GLOBAL_ENV_def)

lemma shadow_bindings:
  "frame_bindings shadow_machine shadow_frame = [(bar_symbol, 442), (foo_symbol, 443)]"
  "frame_bindings shadow_machine foo_frame = [(foo_symbol, 402)]"
proof -
  have u: "(11 :: ulong) \<noteq> MAKE_OBJECT TC_REFERENCE_TRAP 2" "(17 :: ulong) \<noteq> MAKE_OBJECT TC_REFERENCE_TRAP 2"
    "MAKE_POINTER_OBJECT TC_REFERENCE_TRAP 490 \<noteq> MAKE_OBJECT TC_REFERENCE_TRAP 2" "OBJECT_DATUM 3 = 3" "OBJECT_DATUM 2 = 2"
    by code_simp+
  show "frame_bindings shadow_machine shadow_frame = [(bar_symbol, 442), (foo_symbol, 443)]"
    "frame_bindings shadow_machine foo_frame = [(foo_symbol, 402)]"
    using u by (simp_all add: frame_bindings_def parameter_bindings_def shadow_objects shadow_mem addressable_numeral upt_small)
qed

lemma shadow_cells:
  "binding_of shadow_machine [shadow_frame, foo_frame] True foo_symbol = Some 443"
  "binding_of shadow_machine [shadow_frame, foo_frame] True bar_symbol = Some 442"
  "cell_value shadow_machine 443 = (PRIM_DONE, Some 29)" "cell_value shadow_machine 442 = (PRIM_DONE, Some 11)"
proof -
  show "binding_of shadow_machine [shadow_frame, foo_frame] True foo_symbol = Some 443"
    "binding_of shadow_machine [shadow_frame, foo_frame] True bar_symbol = Some 442"
    using shadow_objects(3) by (simp_all add: binding_of_def shadow_bindings)
  have k: "OBJECT_TYPE 29 \<noteq> TC_REFERENCE_TRAP" "OBJECT_TYPE 11 \<noteq> TC_REFERENCE_TRAP" "OBJECT_DATUM 14 = 14"
    "OBJECT_DATUM (MAKE_POINTER_OBJECT TC_REFERENCE_TRAP 490) = 490" by code_simp+
  have "trap_kind shadow_machine (MAKE_POINTER_OBJECT TC_REFERENCE_TRAP 490) = Some 14"
    using k(3,4) by (simp add: trap_kind_def addressable_numeral shadow_mem)
  then show "cell_value shadow_machine 443 = (PRIM_DONE, Some 29)"
    using k(1) by (simp add: cell_value_def plain_value_def trap_kind_def shadow_mem addressable_numeral)
  show "cell_value shadow_machine 442 = (PRIM_DONE, Some 11)" using k(2) by (simp add: cell_value_def plain_value_def trap_kind_def shadow_mem)
qed

end
