(* ===== verification/Gc_Heap.thy ===== *)
theory Gc_Heap
  imports Gc_Loop
begin

text \<open>
  What a garbage collection is about: the heap before it, as a layout of blocks in fromspace,
  the words that refer to blocks, the blocks reachable from the roots, and the word a
  collection puts in the place of another. Nothing here is code; \<open>Gc_Copy\<close> proves that
  the collector computes it. Ephemerons and compiled code are left to the definitions of
  \<open>Gc_Loop\<close>: a layout has no block for them.
\<close>

section \<open>Layouts\<close>

text \<open>
  A layout has the memory before the collection, the bounds of fromspace, its blocks, the
  starts of tospace and newspace, the number of root words in newspace before the first
  block, and a frame, the part of the state that no step changes.
\<close>

datatype block = Tuple_Block nat | Vector_Block nat | Weak_Block

fun block_words :: "block \<Rightarrow> nat" where
  "block_words (Tuple_Block n) = n"
| "block_words (Vector_Block n) = n"
| "block_words Weak_Block = 2"

record layout =
  old :: "nat \<Rightarrow> ulong"
  from_start :: nat
  from_end :: nat
  blocks :: "nat \<Rightarrow> block option"
  to_start :: nat
  new_start :: nat
  prefix_words :: nat
  frame :: gc_state

definition std_table :: gc_table where
  "std_table = (case initialize_gc_table True undefined of Some (Inr (table, s)) \<Rightarrow> table)"

definition handler :: "ulong \<Rightarrow> gc_handler" where
  "handler w = GCT_ENTRY std_table (OBJECT_TYPE w)"

definition in_from :: "layout \<Rightarrow> nat \<Rightarrow> bool" where
  "in_from h a \<longleftrightarrow> from_start h \<le> a \<and> a < from_end h"

text \<open>The block a word refers to, if its handler follows it.\<close>

definition referent :: "layout \<Rightarrow> ulong \<Rightarrow> block option" where
  "referent h w =
     (case handler w of
        Handle_Cell \<Rightarrow> Some (Tuple_Block 1)
      | Handle_Pair \<Rightarrow> Some (Tuple_Block 2)
      | Handle_Triple \<Rightarrow> Some (Tuple_Block 3)
      | Handle_Quadruple \<Rightarrow> Some (Tuple_Block 4)
      | Handle_Aligned_Vector \<Rightarrow> Some (Vector_Block (1 + unat (OBJECT_DATUM (old h (OBJECT_ADDRESS w)))))
      | Handle_Unaligned_Vector \<Rightarrow> Some (Vector_Block (1 + unat (OBJECT_DATUM (old h (OBJECT_ADDRESS w)))))
      | Handle_Reference_Trap \<Rightarrow> (if OBJECT_DATUM w \<le> TRAP_MAX_IMMEDIATE then None else Some (Tuple_Block 2))
      | Handle_Weak_Pair \<Rightarrow> Some Weak_Block
      | _ \<Rightarrow> None)"

definition target :: "layout \<Rightarrow> ulong \<Rightarrow> nat option" where
  "target h w = (if referent h w \<noteq> None \<and> in_from h (OBJECT_ADDRESS w) then Some (OBJECT_ADDRESS w) else None)"

definition good_word :: "layout \<Rightarrow> ulong \<Rightarrow> bool" where
  "good_word h w \<longleftrightarrow>
     handler w \<in> {Handle_Non_Pointer, Handle_Cell, Handle_Pair, Handle_Triple, Handle_Quadruple,
       Handle_Aligned_Vector, Handle_Unaligned_Vector, Handle_Reference_Trap, Handle_Weak_Pair}
     \<and> (\<forall>a. target h w = Some a \<longrightarrow> blocks h a = referent h w)"

text \<open>A block without marked words, and a weak pair whose car refers to an object that may move.\<close>

definition raw_block :: "layout \<Rightarrow> nat \<Rightarrow> bool" where
  "raw_block h a \<longleftrightarrow> handler (old h a) = Handle_Nmv"

definition weak_car :: "layout \<Rightarrow> nat \<Rightarrow> bool" where
  "weak_car h a \<longleftrightarrow> blocks h a = Some Weak_Block \<and> gc_ptr_type (old h a) = GC_POINTER_NORMAL \<and> in_from h (OBJECT_ADDRESS (old h a))"

definition block_ok :: "layout \<Rightarrow> nat \<Rightarrow> block \<Rightarrow> bool" where
  "block_ok h a b \<longleftrightarrow>
     0 < block_words b \<and> from_start h \<le> a \<and> a + block_words b \<le> from_end h \<and> \<not> BROKEN_HEART_P (old h a)
     \<and> (case b of
          Tuple_Block n \<Rightarrow> \<forall>i < n. good_word h (old h (a + i))
        | Vector_Block n \<Rightarrow> (if raw_block h a then unat (OBJECT_DATUM (old h a)) = n - 1 else \<forall>i < n. good_word h (old h (a + i)))
        | Weak_Block \<Rightarrow> good_word h (old h (a + 1))
            \<and> (if weak_car h a then blocks h (OBJECT_ADDRESS (old h a)) \<noteq> None else good_word h (old h a)))"

definition heap_ok :: "layout \<Rightarrow> bool" where
  "heap_ok h \<longleftrightarrow> 0 < from_start h \<and> from_start h \<le> from_end h \<and> from_end h < 2 ^ 58
     \<and> (\<forall>a b. blocks h a = Some b \<longrightarrow> block_ok h a b)
     \<and> (\<forall>a b a' b'. blocks h a = Some b \<longrightarrow> blocks h a' = Some b' \<longrightarrow> a < a' \<longrightarrow> a + block_words b \<le> a')"

definition size_at :: "layout \<Rightarrow> nat \<Rightarrow> nat" where
  "size_at h a = (case blocks h a of None \<Rightarrow> 0 | Some b \<Rightarrow> block_words b)"

text \<open>
  The words of a block as they are copied, each with a mark that says whether the collector
  will look at it.
\<close>

type_synonym marked_words = "(ulong \<times> bool) list"

definition image_of :: "layout \<Rightarrow> nat \<Rightarrow> marked_words" where
  "image_of h a =
     (if blocks h a = Some Weak_Block
      then [(if weak_car h a then OBJECT_NEW_TYPE TC_FALSE (old h a) else old h a, True), (old h (a + 1), True)]
      else map (\<lambda>i. (old h (a + i), i = 0 \<or> \<not> raw_block h a)) [0..<size_at h a])"

text \<open>Marked words the loop can walk through: a manifest header skips its unmarked words.\<close>

fun parsed :: "layout \<Rightarrow> marked_words \<Rightarrow> bool" where
  "parsed h [] = True"
| "parsed h ((w, m) # xs) =
     (m \<and> (if handler w = Handle_Nmv
           then unat (OBJECT_DATUM w) \<le> length xs \<and> (\<forall>x \<in> set (take (unat (OBJECT_DATUM w)) xs). \<not> snd x)
             \<and> parsed h (drop (unat (OBJECT_DATUM w)) xs)
           else good_word h w \<and> parsed h xs))"

text \<open>The words the collector follows, and the blocks they lead to.\<close>

definition traced :: "marked_words \<Rightarrow> ulong set" where
  "traced xs = fst ` {x \<in> set xs. snd x}"

inductive_set reach :: "layout \<Rightarrow> ulong set \<Rightarrow> nat set" for h roots where
  reach_root: "w \<in> roots \<Longrightarrow> target h w = Some a \<Longrightarrow> a \<in> reach h roots"
| reach_step: "a \<in> reach h roots \<Longrightarrow> w \<in> traced (image_of h a) \<Longrightarrow> target h w = Some b \<Longrightarrow> b \<in> reach h roots"

text \<open>The word in the place of another after the blocks have moved along \<open>F\<close>.\<close>

definition new_word :: "layout \<Rightarrow> (nat \<rightharpoonup> nat) \<Rightarrow> ulong \<Rightarrow> ulong" where
  "new_word h F w = (case target h w of None \<Rightarrow> w | Some a \<Rightarrow> OBJECT_NEW_ADDRESS w (the (F a)))"

definition new_weak_car :: "layout \<Rightarrow> (nat \<rightharpoonup> nat) \<Rightarrow> nat \<Rightarrow> ulong" where
  "new_weak_car h F a =
     (if weak_car h a
      then (case F (OBJECT_ADDRESS (old h a)) of None \<Rightarrow> GC_RECLAIMED | Some p \<Rightarrow> OBJECT_NEW_ADDRESS (old h a) p)
      else new_word h F (old h a))"

definition new_block :: "layout \<Rightarrow> (nat \<rightharpoonup> nat) \<Rightarrow> nat \<Rightarrow> ulong list" where
  "new_block h F a =
     (if blocks h a = Some Weak_Block then [new_weak_car h F a, new_word h F (old h (a + 1))]
      else if raw_block h a then map (\<lambda>i. old h (a + i)) [0..<size_at h a]
      else map (\<lambda>i. new_word h F (old h (a + i))) [0..<size_at h a])"

section \<open>Facts on layouts\<close>

lemma std_table_fields [simp]: "transport_p std_table" "ignore_object_p std_table = None"
  by (simp_all add: std_table_def handler_table)

lemma std_gc_table_eq: "std_gc_table s = Some (Inr (std_table, s))"
  by (simp add: std_gc_table_def std_table_def handler_table)

lemma blockD:
  assumes "heap_ok h" "blocks h a = Some b"
  shows "0 < block_words b" "from_start h \<le> a" "a + block_words b \<le> from_end h" "\<not> BROKEN_HEART_P (old h a)"
    "size_at h a = block_words b" "0 < size_at h a" "in_from h a"
proof -
  have ok: "block_ok h a b" using assms unfolding heap_ok_def by blast
  then show "0 < block_words b" "from_start h \<le> a" "a + block_words b \<le> from_end h" "\<not> BROKEN_HEART_P (old h a)"
    unfolding block_ok_def by blast+
  then show "size_at h a = block_words b" "0 < size_at h a" "in_from h a"
    using assms(2) by (simp_all add: size_at_def in_from_def)
qed

lemma blocks_apart:
  assumes "heap_ok h" "blocks h a = Some b" "blocks h a' = Some b'" "a \<noteq> a'" "i < block_words b"
  shows "a + i \<noteq> a'"
proof (cases "a < a'")
  case True
  then have "a + block_words b \<le> a'" using assms(1,2,3) by (auto simp: heap_ok_def)
  with assms(5) show ?thesis by simp
qed (use assms(4) in simp)

lemma blocks_disjoint:
  assumes "heap_ok h" "blocks h a = Some b" "blocks h a' = Some b'" "a \<noteq> a'" "i < block_words b" "j < block_words b'"
  shows "a + i \<noteq> a' + j"
proof (cases "a < a'")
  case True
  then have "a + block_words b \<le> a'" using assms(1,2,3) by (auto simp: heap_ok_def)
  with assms(5) show ?thesis by simp
next
  case False
  then have "a' + block_words b' \<le> a" using assms(1,2,3,4) by (auto simp: heap_ok_def)
  with assms(6) show ?thesis by simp
qed

lemma length_image_of [simp]: "length (image_of h a) = size_at h a"
  by (simp add: image_of_def size_at_def split: option.splits block.splits)

lemma block_size_bound: "heap_ok h \<Longrightarrow> a + size_at h a \<le> from_end h \<or> blocks h a = None"
  using blockD(3,5) by (cases "blocks h a") auto

text \<open>Disjoint blocks fit into fromspace.\<close>

lemma sizes_fit:
  assumes "heap_ok h" "D \<subseteq> dom (blocks h)"
  shows "finite D" "(\<Sum>a \<in> D. size_at h a) \<le> from_end h - from_start h"
proof -
  have sub: "D \<subseteq> {from_start h..<from_end h}"
    using assms(2) blockD(7) [OF assms(1)] by (fastforce simp: in_from_def)
  then show fin: "finite D" by (rule finite_subset) simp
  have un: "(\<Union>a \<in> D. {a..<a + size_at h a}) \<subseteq> {from_start h..<from_end h}"
    using assms(2) blockD(2,3,5) [OF assms(1)] by fastforce
  have "(\<Sum>a \<in> D. size_at h a) = (\<Sum>a \<in> D. card {a..<a + size_at h a})" by simp
  also have "\<dots> = card (\<Union>a \<in> D. {a..<a + size_at h a})"
  proof (rule card_UN_disjoint [symmetric, OF fin], simp, intro ballI impI)
    fix a b assume ab: "a \<in> D" "b \<in> D" "a \<noteq> b"
    then obtain x y where xy: "blocks h a = Some x" "blocks h b = Some y" using assms(2) by blast
    show "{a..<a + size_at h a} \<inter> {b..<b + size_at h b} = {}"
    proof (rule ccontr)
      assume "{a..<a + size_at h a} \<inter> {b..<b + size_at h b} \<noteq> {}"
      then obtain c where "c \<in> {a..<a + size_at h a} \<inter> {b..<b + size_at h b}" by blast
      then have c: "a \<le> c" "c < a + size_at h a" "b \<le> c" "c < b + size_at h b" by simp_all
      then have "c - a < block_words x" "c - b < block_words y"
        using blockD(5) [OF assms(1) xy(1)] blockD(5) [OF assms(1) xy(2)] by linarith+
      from blocks_disjoint [OF assms(1) xy ab(3) this] c(1,3) show False by simp
    qed
  qed
  also have "\<dots> \<le> card {from_start h..<from_end h}" using un by (rule card_mono [rotated]) simp
  finally show "(\<Sum>a \<in> D. size_at h a) \<le> from_end h - from_start h" by simp
qed

lemma referent_Nmv [simp]: "handler w = Handle_Nmv \<Longrightarrow> target h w = None"
  by (simp add: target_def referent_def)

lemma new_word_None [simp]: "target h w = None \<Longrightarrow> new_word h F w = w"
  by (simp add: new_word_def)

lemma new_word_mono: "F \<subseteq>\<^sub>m F' \<Longrightarrow> (\<And>a. target h w = Some a \<Longrightarrow> F a \<noteq> None) \<Longrightarrow> new_word h F' w = new_word h F w"
  by (auto simp: new_word_def map_le_def dom_def split: option.splits)

lemma good_not_Nmv: "good_word h w \<Longrightarrow> handler w \<noteq> Handle_Nmv"
  by (auto simp: good_word_def)

lemma good_target:
  assumes "good_word h w" "target h w = Some a"
  shows "blocks h a = referent h w" "referent h w \<noteq> None" "a = OBJECT_ADDRESS w" "in_from h a"
  using assms by (auto simp: good_word_def target_def split: if_splits)

section \<open>Walking\<close>

lemma parsed_append: "parsed h xs \<Longrightarrow> parsed h ys \<Longrightarrow> parsed h (xs @ ys)"
proof (induction h xs rule: parsed.induct)
  case (2 h w m xs)
  then show ?case by (cases "handler w = Handle_Nmv") auto
qed simp

lemma parsed_good: "(\<And>x. x \<in> set xs \<Longrightarrow> snd x \<and> good_word h (fst x)) \<Longrightarrow> parsed h xs"
proof (induction xs)
  case (Cons x xs)
  obtain w m where x: "x = (w, m)" by (cases x)
  have "m" "good_word h w" using Cons.prems [of x] by (simp_all add: x)
  moreover have "parsed h xs" using Cons.IH Cons.prems by simp
  ultimately show ?case using good_not_Nmv [of h w] by (simp add: x)
qed simp

lemma false_word: "handler (OBJECT_NEW_TYPE 0 w) = Handle_Non_Pointer"
proof -
  have "OBJECT_TYPE (OBJECT_NEW_TYPE 0 w) = 0"
    unfolding OBJECT_NEW_TYPE_def by (rule OBJECT_TYPE_MAKE_OBJECT [OF _ OBJECT_DATUM_bound]) simp
  then show ?thesis by (simp add: handler_def std_table_def handler_table GCT_ENTRY_def)
qed

lemma good_false_word [simp]: "good_word h (OBJECT_NEW_TYPE 0 w)" "target h (OBJECT_NEW_TYPE 0 w) = None"
  using false_word [of w] by (simp_all add: good_word_def target_def referent_def)

lemma block_ok_of: "heap_ok h \<Longrightarrow> blocks h a = Some b \<Longrightarrow> block_ok h a b"
  unfolding heap_ok_def by blast

lemma tuple_not_raw:
  assumes "heap_ok h" "blocks h a = Some (Tuple_Block n)"
  shows "\<not> raw_block h a" "\<forall>i < n. good_word h (old h (a + i))" "0 < n"
proof -
  show g: "\<forall>i < n. good_word h (old h (a + i))" and n: "0 < n"
    using block_ok_of [OF assms] by (simp_all add: block_ok_def)
  show "\<not> raw_block h a" using good_not_Nmv g n by (fastforce simp: raw_block_def)
qed

lemma parsed_image_of:
  assumes "heap_ok h"
  shows "parsed h (image_of h a)"
proof (cases "blocks h a")
  case None then show ?thesis by (simp add: image_of_def size_at_def)
next
  case (Some b)
  note ok = block_ok_of [OF assms Some]
  show ?thesis
  proof (cases b)
    case Weak_Block
    then show ?thesis using Some ok by (intro parsed_good) (auto simp: image_of_def block_ok_def)
  next
    case (Tuple_Block n)
    then show ?thesis
      using Some tuple_not_raw [OF assms, of a n] by (intro parsed_good) (auto simp: image_of_def size_at_def)
  next
    case (Vector_Block n)
    show ?thesis
    proof (cases "raw_block h a")
      case True
      then have n: "0 < n" "unat (OBJECT_DATUM (old h a)) = n - 1" using ok Vector_Block by (auto simp: block_ok_def)
      then have up: "[0..<n] = 0 # [1..<n]" by (simp add: upt_conv_Cons)
      show ?thesis
        using n True unfolding image_of_def by (auto simp: Some Vector_Block size_at_def up raw_block_def dest: in_set_takeD)
    next
      case False
      then show ?thesis using Some ok Vector_Block by (intro parsed_good) (auto simp: image_of_def size_at_def block_ok_def)
    qed
  qed
qed

lemma traced_Cons: "traced [] = {}" "traced (x # xs) = (if snd x then insert (fst x) (traced xs) else traced xs)"
  by (auto simp: traced_def)

lemma traced_append [simp]: "traced (xs @ ys) = traced xs \<union> traced ys"
  by (auto simp: traced_def)

lemma traced_nth: "i < length xs \<Longrightarrow> snd (xs ! i) \<Longrightarrow> fst (xs ! i) \<in> traced xs"
  by (simp add: traced_def)

end
