(* ===== verification/Gc_Copy.thy ===== *)
theory Gc_Copy
  imports Gc_Heap
begin

text \<open>
  The copying of blocks. The invariant \<open>gc_inv\<close> ties a state of the collector to the layout
  of the heap before it, through the map \<open>F\<close> from the blocks moved to their new addresses,
  the marked words \<open>os\<close> that make up newspace so far, the chain \<open>ws\<close> of weak pairs and the
  number \<open>q\<close> of words already scanned; \<open>R\<close> is the set of blocks that may be moved.
\<close>

section \<open>The invariant\<close>

definition fixed_part :: "gc_state \<Rightarrow> gc_state" where
  "fixed_part s = s\<lparr>mem := \<lambda>_. 0, tospace_next := 0, newspace_next := 0, weak_chain := None\<rparr>"

definition config :: "layout \<Rightarrow> gc_state \<Rightarrow> bool" where
  "config h s \<longleftrightarrow> heap_start s = from_start h \<and> Free s = from_end h \<and> tospace_open_p s
     \<and> current_gc_table s = std_table \<and> \<not> scanning_ephemerons_p s
     \<and> tospace_start s = to_start h \<and> newspace_start s = new_start h \<and> memory_base s AND 7 = 0
     \<and> from_end h \<le> to_start h \<and> new_start h + prefix_words h + (from_end h - from_start h) < 2 ^ 58
     \<and> fixed_part s = frame h"

definition spaces :: "layout \<Rightarrow> gc_state \<Rightarrow> marked_words \<Rightarrow> bool" where
  "spaces h s os \<longleftrightarrow> tospace_next s = to_start h + length os \<and> newspace_next s = new_start h + length os"

definition moved_ok :: "layout \<Rightarrow> gc_state \<Rightarrow> (nat \<rightharpoonup> nat) \<Rightarrow> marked_words \<Rightarrow> bool" where
  "moved_ok h s F os \<longleftrightarrow>
     (\<forall>a p. F a = Some p \<longrightarrow> blocks h a \<noteq> None \<and> new_start h + prefix_words h \<le> p \<and> p + size_at h a \<le> new_start h + length os
        \<and> (\<forall>i < size_at h a. os ! (p - new_start h + i) = image_of h a ! i) \<and> mem s a = MAKE_BROKEN_HEART p)"

definition apart :: "layout \<Rightarrow> (nat \<rightharpoonup> nat) \<Rightarrow> bool" where
  "apart h F \<longleftrightarrow> (\<forall>a b p q. F a = Some p \<longrightarrow> F b = Some q \<longrightarrow> a \<noteq> b \<longrightarrow> p + size_at h a \<le> q \<or> q + size_at h b \<le> p)"

definition intact :: "layout \<Rightarrow> gc_state \<Rightarrow> (nat \<rightharpoonup> nat) \<Rightarrow> nat list \<Rightarrow> bool" where
  "intact h s F ws \<longleftrightarrow> (\<forall>b. in_from h b \<longrightarrow> F b = None \<longrightarrow> b \<notin> Suc ` set ws \<longrightarrow> mem s b = old h b)"

definition link_word :: "layout \<Rightarrow> nat \<Rightarrow> nat option \<Rightarrow> ulong" where
  "link_word h a next_addr =
     (case next_addr of None \<Rightarrow> MAKE_OBJECT (OBJECT_TYPE (old h a)) 0
      | Some b \<Rightarrow> MAKE_POINTER_OBJECT (OBJECT_TYPE (old h a)) b)"

definition first_of :: "nat list \<Rightarrow> nat option" where
  "first_of ws = (case ws of [] \<Rightarrow> None | a # _ \<Rightarrow> Some a)"

fun links :: "layout \<Rightarrow> gc_state \<Rightarrow> nat list \<Rightarrow> bool" where
  "links h s [] = True"
| "links h s (a # ws) = (mem s (Suc a) = link_word h a (first_of ws) \<and> links h s ws)"

definition chained :: "layout \<Rightarrow> gc_state \<Rightarrow> (nat \<rightharpoonup> nat) \<Rightarrow> nat list \<Rightarrow> bool" where
  "chained h s F ws \<longleftrightarrow> distinct ws \<and> set ws = {a \<in> dom F. weak_car h a} \<and> weak_chain s = first_of ws \<and> links h s ws"

definition contents :: "layout \<Rightarrow> gc_state \<Rightarrow> (nat \<rightharpoonup> nat) \<Rightarrow> nat \<Rightarrow> marked_words \<Rightarrow> nat \<Rightarrow> bool" where
  "contents h s F base os q \<longleftrightarrow>
     (\<forall>i < length os. mem s (base + i) = (if i < q \<and> snd (os ! i) then new_word h F (fst (os ! i)) else fst (os ! i))
        \<and> (i < q \<longrightarrow> snd (os ! i) \<longrightarrow> (\<forall>a. target h (fst (os ! i)) = Some a \<longrightarrow> F a \<noteq> None)))"

definition counted :: "layout \<Rightarrow> nat set \<Rightarrow> (nat \<rightharpoonup> nat) \<Rightarrow> marked_words \<Rightarrow> bool" where
  "counted h R F os \<longleftrightarrow> length os = prefix_words h + (\<Sum>a \<in> dom F. size_at h a) \<and> dom F \<subseteq> R
     \<and> (\<forall>w \<in> traced os. \<forall>a. target h w = Some a \<longrightarrow> a \<in> R)"

definition closed_set :: "layout \<Rightarrow> nat set \<Rightarrow> bool" where
  "closed_set h R \<longleftrightarrow> (\<forall>a \<in> R. \<forall>w \<in> traced (image_of h a). \<forall>b. target h w = Some b \<longrightarrow> b \<in> R)"

definition gc_inv :: "layout \<Rightarrow> nat set \<Rightarrow> gc_state \<Rightarrow> (nat \<rightharpoonup> nat) \<Rightarrow> marked_words \<Rightarrow> nat list \<Rightarrow> nat \<Rightarrow> bool" where
  "gc_inv h R s F os ws q \<longleftrightarrow> heap_ok h \<and> closed_set h R \<and> config h s \<and> spaces h s os \<and> moved_ok h s F os \<and> apart h F
     \<and> intact h s F ws \<and> chained h s F ws \<and> contents h s F (to_start h) os q \<and> q \<le> length os \<and> parsed h (drop q os)
     \<and> counted h R F os"

lemma gc_invD:
  assumes "gc_inv h R s F os ws q"
  shows "heap_ok h" "closed_set h R" "config h s" "spaces h s os" "moved_ok h s F os" "apart h F" "intact h s F ws"
    "chained h s F ws" "contents h s F (to_start h) os q" "q \<le> length os" "parsed h (drop q os)" "counted h R F os"
  using assms unfolding gc_inv_def by blast+

lemma dom_blocks: "moved_ok h s F os \<Longrightarrow> dom F \<subseteq> dom (blocks h)"
  unfolding moved_ok_def by blast

text \<open>Newspace never needs more room than the root words and fromspace.\<close>

lemma copied_fits:
  assumes "gc_inv h R s F os ws q"
  shows "length os \<le> prefix_words h + (from_end h - from_start h)" "finite (dom F)"
  using sizes_fit [OF gc_invD(1) [OF assms] dom_blocks [OF gc_invD(5) [OF assms]]] gc_invD(12) [OF assms]
  by (auto simp: counted_def)

lemma transport_fits:
  assumes "gc_inv h R s F os ws q" "blocks h a \<noteq> None" "F a = None"
  shows "length os + size_at h a \<le> prefix_words h + (from_end h - from_start h)"
proof -
  have "insert a (dom F) \<subseteq> dom (blocks h)" using dom_blocks [OF gc_invD(5) [OF assms(1)]] assms(2) by blast
  from sizes_fit(2) [OF gc_invD(1) [OF assms(1)] this] copied_fits(2) [OF assms(1)] gc_invD(12) [OF assms(1)] assms(3)
  show ?thesis by (simp add: counted_def domIff)
qed

lemma copied_word:
  assumes "gc_inv h R s F os ws q" "blocks h a = Some b" "F a = None" "i < block_words b"
  shows "mem s (a + i) = old h (a + i)"
proof -
  note c = gc_invD [OF assms(1)]
  have "in_from h (a + i)" using blockD [OF c(1) assms(2)] assms(4) by (simp add: in_from_def)
  moreover have "F (a + i) = None"
  proof (rule ccontr)
    assume "F (a + i) \<noteq> None"
    then obtain b' where b': "blocks h (a + i) = Some b'" using dom_blocks [OF c(5)] by blast
    then show False
      using blocks_disjoint [OF c(1) assms(2) b' _ assms(4), of 0] blockD(1) [OF c(1) b'] assms(3) \<open>F (a + i) \<noteq> None\<close>
      by (cases "i = 0") auto
  qed
  moreover have "a + i \<notin> Suc ` set ws"
  proof
    assume "a + i \<in> Suc ` set ws"
    then obtain w where w: "w \<in> set ws" "a + i = Suc w" by blast
    then have weak: "blocks h w = Some Weak_Block" "F w \<noteq> None" using c(8) by (auto simp: chained_def weak_car_def)
    then have "a \<noteq> w" using assms(3) by blast
    from blocks_disjoint [OF c(1) assms(2) weak(1) this assms(4), of 1] w(2) show False by simp
  qed
  ultimately show ?thesis using c(7) by (simp add: intact_def)
qed

section \<open>Moving one block\<close>

definition moved_state :: "nat \<Rightarrow> nat \<Rightarrow> gc_state \<Rightarrow> gc_state" where
  "moved_state a n s = store a (MAKE_BROKEN_HEART (newspace_next s))
     (s\<lparr>mem := store_words (tospace_next s) (map (\<lambda>i. mem s (a + i)) [0..<n]) (mem s),
        tospace_next := tospace_next s + n, newspace_next := newspace_next s + n\<rparr>)"

lemma push_tospace_simps [simp]:
  "mem (push_tospace x s) = (mem s)(tospace_next s := x)" "tospace_next (push_tospace x s) = Suc (tospace_next s)"
  "newspace_next (push_tospace x s) = Suc (newspace_next s)"
  by (simp_all add: push_tospace_def)

lemma transport_loop_eq:
  assumes "a + n \<le> tospace_next s"
  shows "transport_loop n a s =
    s\<lparr>mem := store_words (tospace_next s) (map (\<lambda>i. mem s (a + i)) [0..<n]) (mem s),
      tospace_next := tospace_next s + n, newspace_next := newspace_next s + n\<rparr>"
  using assms
proof (induction n arbitrary: a s)
  case 0 then show ?case by simp
next
  case (Suc n)
  have "map (\<lambda>i. mem s (a + i)) [0..<Suc n] = mem s a # map (\<lambda>i. mem s (Suc a + i)) [0..<n]"
    by (simp add: upt_conv_Cons map_Suc_upt [symmetric] o_def del: upt_Suc map_Suc_upt)
  moreover have "map (\<lambda>i. mem (push_tospace (mem s a) s) (Suc a + i)) [0..<n] = map (\<lambda>i. mem s (Suc a + i)) [0..<n]"
    using Suc.prems by simp
  moreover have "transport_loop (Suc n) a s = transport_loop n (Suc a) (push_tospace (mem s a) s)" by simp
  moreover have "Suc a + n \<le> tospace_next (push_tospace (mem s a) s)" using Suc.prems by simp
  ultimately show ?case
    by (simp only: Suc.IH store_words_Cons) (simp add: push_tospace_def store_def fun_upd_def)
qed

lemma take_bit_plus_8: "take_bit 3 (x + 8 * y) = take_bit 3 (x :: ulong)"
proof -
  have "uint (x + 8 * y) mod 8 = uint x mod 8"
    by (simp add: uint_word_ariths mod_mod_cancel mod_add_right_eq)
  then have "uint (take_bit 3 (x + 8 * y)) = uint (take_bit 3 x)"
    by (simp add: unsigned_take_bit_eq take_bit_eq_mod [of 3 "uint _"] del: take_bit_eq_mod)
  then show ?thesis by (simp only: word_uint_eq_iff)
qed

lemma aligned:
  assumes "memory_base s AND 7 = 0"
  shows "FLOATING_ALIGNED_P s p"
proof -
  have seven: "x AND 7 = take_bit 3 x" for x :: ulong by (simp add: take_bit_eq_mask mask_eq_exp_minus_1)
  show ?thesis using assms by (simp only: FLOATING_ALIGNED_P_def FLOATING_ALIGNMENT_def seven take_bit_plus_8)
qed

lemma transports:
  assumes "config h s" "a + n \<le> tospace_next s"
  shows "GC_TRANSPORT_WORDS a n al s = Some (Inr (newspace_next s, moved_state a n s))"
proof -
  have "FLOATING_ALIGNED_P s (newspace_next s)" using assms(1) by (intro aligned) (simp add: config_def)
  then have no_padding: "gc_while (\<lambda>_ s. \<not> FLOATING_ALIGNED_P s (newspace_next s)) b () s = Some (Inr ((), s))" for b
    by (subst gc_while.simps) simp
  show ?thesis
    using assms by (simp add: GC_TRANSPORT_WORDS_def gc_transport_words_def GUARANTEE_TOSPACE_OPEN_def config_def
        no_padding transport_loop_eq moved_state_def Let_def)
qed

text \<open>
  The effect of moving block \<open>a\<close> on the state: its image at the end of tospace, the broken heart
  in its first word, and the link in its second word if it is a weak pair.
\<close>

definition moves_block :: "layout \<Rightarrow> nat \<Rightarrow> gc_state \<Rightarrow> gc_state \<Rightarrow> bool" where
  "moves_block h a s s' \<longleftrightarrow>
     config h s' \<and> tospace_next s' = tospace_next s + size_at h a \<and> newspace_next s' = newspace_next s + size_at h a
     \<and> (\<forall>i < size_at h a. mem s' (tospace_next s + i) = fst (image_of h a ! i))
     \<and> mem s' a = MAKE_BROKEN_HEART (newspace_next s)
     \<and> (\<forall>b. b \<noteq> a \<longrightarrow> \<not> (tospace_next s \<le> b \<and> b < tospace_next s + size_at h a) \<longrightarrow> \<not> (weak_car h a \<and> b = Suc a)
          \<longrightarrow> mem s' b = mem s b)
     \<and> (if weak_car h a then weak_chain s' = Some a \<and> mem s' (Suc a) = link_word h a (weak_chain s)
        else weak_chain s' = weak_chain s)"

definition chain_with :: "layout \<Rightarrow> nat \<Rightarrow> nat list \<Rightarrow> nat list" where
  "chain_with h a ws = (if weak_car h a then a # ws else ws)"

lemma links_frame: "links h s ws \<Longrightarrow> (\<And>a. a \<in> set ws \<Longrightarrow> mem s' (Suc a) = mem s (Suc a)) \<Longrightarrow> links h s' ws"
  by (induction ws) simp_all

definition block_moved ::
  "layout \<Rightarrow> nat set \<Rightarrow> gc_state \<Rightarrow> (nat \<rightharpoonup> nat) \<Rightarrow> marked_words \<Rightarrow> nat list \<Rightarrow> nat \<Rightarrow> nat \<Rightarrow> block \<Rightarrow> gc_state \<Rightarrow> bool" where
  "block_moved h R s F os ws q a b s' \<longleftrightarrow>
     gc_inv h R s F os ws q \<and> blocks h a = Some b \<and> F a = None \<and> a \<in> R \<and> moves_block h a s s'"

lemma block_movedD:
  assumes "block_moved h R s F os ws q a b s'"
  shows "gc_inv h R s F os ws q" "blocks h a = Some b" "F a = None" "a \<in> R" "config h s'"
    "tospace_next s' = tospace_next s + size_at h a" "newspace_next s' = newspace_next s + size_at h a"
    "mem s' a = MAKE_BROKEN_HEART (newspace_next s)"
    "tospace_next s = to_start h + length os" "newspace_next s = new_start h + length os"
    "from_end h \<le> to_start h" "a + size_at h a \<le> from_end h" "from_start h \<le> a" "0 < size_at h a"
proof -
  show c: "gc_inv h R s F os ws q" and a: "blocks h a = Some b" and "F a = None" "a \<in> R" "config h s'"
    "tospace_next s' = tospace_next s + size_at h a" "newspace_next s' = newspace_next s + size_at h a"
    "mem s' a = MAKE_BROKEN_HEART (newspace_next s)"
    using assms by (simp_all add: block_moved_def moves_block_def)
  show "tospace_next s = to_start h + length os" "newspace_next s = new_start h + length os"
    "from_end h \<le> to_start h" "a + size_at h a \<le> from_end h" "from_start h \<le> a" "0 < size_at h a"
    using gc_invD(3,4) [OF c] blockD [OF gc_invD(1) [OF c] a] by (auto simp: spaces_def config_def)
qed

lemma block_moved_mem:
  assumes "block_moved h R s F os ws q a b s'"
  shows "i < size_at h a \<Longrightarrow> mem s' (tospace_next s + i) = fst (image_of h a ! i)"
    "d \<noteq> a \<Longrightarrow> \<not> (tospace_next s \<le> d \<and> d < tospace_next s + size_at h a) \<Longrightarrow> \<not> (weak_car h a \<and> d = Suc a) \<Longrightarrow> mem s' d = mem s d"
  using assms by (simp_all add: block_moved_def moves_block_def)

lemma frame_from:
  assumes "block_moved h R s F os ws q a b s'" "in_from h d" "d \<noteq> a" "\<not> (weak_car h a \<and> d = Suc a)"
  shows "mem s' d = mem s d"
  using assms(2-) block_movedD(9,11) [OF assms(1)] by (intro block_moved_mem(2) [OF assms(1)]) (auto simp: in_from_def)

text \<open>Nothing below the end of tospace and outside fromspace changes.\<close>

lemma frame_to:
  assumes "block_moved h R s F os ws q a b s'" "\<not> in_from h d" "d < tospace_next s"
  shows "mem s' d = mem s d"
proof (rule block_moved_mem(2) [OF assms(1)])
  note m = block_movedD [OF assms(1)]
  have "size_at h a = 2" if "weak_car h a" using that by (simp add: weak_car_def size_at_def)
  then show "\<not> (weak_car h a \<and> d = Suc a)" using assms(2) m(12,13) by (auto simp: in_from_def)
  show "d \<noteq> a" using assms(2) m(12,13,14) by (auto simp: in_from_def)
qed (use assms in simp)

lemma moved_ok_step:
  assumes bm: "block_moved h R s F os ws q a b s'"
  shows "moved_ok h s' (F(a \<mapsto> newspace_next s)) (os @ image_of h a)"
  unfolding moved_ok_def
proof (intro allI impI)
  note m = block_movedD [OF bm] and c = gc_invD [OF block_movedD(1) [OF bm]]
  fix d p assume d: "(F(a \<mapsto> newspace_next s)) d = Some p"
  show "blocks h d \<noteq> None \<and> new_start h + prefix_words h \<le> p \<and> p + size_at h d \<le> new_start h + length (os @ image_of h a)
    \<and> (\<forall>i < size_at h d. (os @ image_of h a) ! (p - new_start h + i) = image_of h d ! i) \<and> mem s' d = MAKE_BROKEN_HEART p"
  proof (cases "d = a")
    case True
    then have p: "p = new_start h + length os" using d m(10) by simp
    have "prefix_words h \<le> length os" using c(12) by (simp add: counted_def)
    then show ?thesis using m(2,8,10) by (simp add: p True)
  next
    case False
    with d have Fd: "F d = Some p" by simp
    note mo = c(5) [unfolded moved_ok_def, rule_format, OF Fd]
    then obtain b' where b': "blocks h d = Some b'" by blast
    have "mem s' d = mem s d"
    proof (rule frame_from [OF bm blockD(7) [OF c(1) b'] False], rule notI)
      assume w: "weak_car h a \<and> d = Suc a"
      then have "b = Weak_Block" using m(2) by (simp add: weak_car_def)
      with blocks_apart [OF c(1) m(2) b' False [symmetric], of 1] w show False by simp
    qed
    moreover have "(os @ image_of h a) ! (p - new_start h + i) = image_of h d ! i" if "i < size_at h d" for i
    proof -
      have "p - new_start h + i < length os" using that mo by linarith
      then show ?thesis using that mo by (simp only: nth_append_left)
    qed
    moreover have "p + size_at h d \<le> new_start h + length (os @ image_of h a)" using mo by simp
    ultimately show ?thesis using mo by presburger
  qed
qed

lemma apart_step:
  assumes bm: "block_moved h R s F os ws q a b s'"
  shows "apart h (F(a \<mapsto> newspace_next s))"
  unfolding apart_def
proof (intro allI impI)
  note m = block_movedD [OF bm] and c = gc_invD [OF block_movedD(1) [OF bm]]
  fix d e p q assume d: "(F(a \<mapsto> newspace_next s)) d = Some p" and e: "(F(a \<mapsto> newspace_next s)) e = Some q" and ne: "d \<noteq> e"
  have below: "r + size_at h x \<le> newspace_next s" if "F x = Some r" for x r
    using c(5) [unfolded moved_ok_def, rule_format, OF that] m(10) by simp
  consider "d = a" "e \<noteq> a" | "d \<noteq> a" "e = a" | "d \<noteq> a" "e \<noteq> a" using ne by blast
  then show "p + size_at h d \<le> q \<or> q + size_at h e \<le> p"
  proof cases
    case 3
    then show ?thesis using c(6) [unfolded apart_def, rule_format, of d p e q] d e ne by simp
  qed (use d e below in auto)
qed

lemma weak_not_moved:
  assumes bm: "block_moved h R s F os ws q a b s'" and w: "w \<in> set ws"
  shows "w \<noteq> a" "Suc w \<noteq> a" "in_from h (Suc w)"
proof -
  note m = block_movedD [OF bm] and c = gc_invD [OF block_movedD(1) [OF bm]]
  have "w \<in> {a \<in> dom F. weak_car h a}" using c(8) w unfolding chained_def by blast
  then have w: "F w \<noteq> None" "blocks h w = Some Weak_Block" by (simp_all add: weak_car_def domIff)
  then show "w \<noteq> a" using m(3) by blast
  from blocks_apart [OF c(1) w(2) m(2) this, of 1] show "Suc w \<noteq> a" by simp
  show "in_from h (Suc w)" using blockD [OF c(1) w(2)] by (simp add: in_from_def)
qed

lemma chained_step:
  assumes bm: "block_moved h R s F os ws q a b s'"
  shows "chained h s' (F(a \<mapsto> newspace_next s)) (chain_with h a ws)"
proof -
  have ch: "chained h s F ws" and m: "moves_block h a s s'"
    using gc_invD(8) [OF block_movedD(1) [OF bm]] bm by (simp_all add: block_moved_def)
  have frame: "mem s' (Suc w) = mem s (Suc w)" if "w \<in> set ws" for w
  proof (rule frame_from [OF bm])
    note w = weak_not_moved [OF bm that]
    show "in_from h (Suc w)" "Suc w \<noteq> a" by (fact w)+
    show "\<not> (weak_car h a \<and> Suc w = Suc a)" using w(1) by simp
  qed
  have parts: "distinct ws" "set ws = {a \<in> dom F. weak_car h a}" "weak_chain s = first_of ws" "links h s ws"
    using ch unfolding chained_def by blast+
  have l: "links h s' ws" by (rule links_frame [OF parts(4) frame])
  have n: "a \<notin> set ws" using weak_not_moved(1) [OF bm] by blast
  show ?thesis
  proof (cases "weak_car h a")
    case True
    then have "weak_chain s' = first_of (a # ws)" "mem s' (Suc a) = link_word h a (first_of ws)"
      using m parts(3) by (simp_all add: moves_block_def first_of_def)
    moreover have "set (a # ws) = {x \<in> dom (F(a \<mapsto> newspace_next s)). weak_car h x}"
      using True parts(2) by auto
    moreover have "chain_with h a ws = a # ws" using True by (simp add: chain_with_def)
    ultimately show ?thesis using l n parts(1) by (simp only: chained_def links.simps distinct.simps) simp
  next
    case False
    then have "weak_chain s' = first_of ws" using m parts(3) by (simp add: moves_block_def)
    moreover have "set ws = {x \<in> dom (F(a \<mapsto> newspace_next s)). weak_car h x}"
      using False parts(2) by auto
    moreover have "chain_with h a ws = ws" using False by (simp add: chain_with_def)
    ultimately show ?thesis using l parts(1) by (simp only: chained_def)
  qed
qed

lemma intact_step:
  assumes bm: "block_moved h R s F os ws q a b s'"
  shows "intact h s' (F(a \<mapsto> newspace_next s)) (chain_with h a ws)"
  unfolding intact_def
proof (intro allI impI)
  fix d assume d: "in_from h d" "(F(a \<mapsto> newspace_next s)) d = None" "d \<notin> Suc ` set (chain_with h a ws)"
  then have "d \<noteq> a" "F d = None" "d \<notin> Suc ` set ws" "\<not> (weak_car h a \<and> d = Suc a)"
    by (auto simp: chain_with_def split: if_splits)
  then show "mem s' d = old h d"
    using frame_from [OF bm d(1)] gc_invD(7) [OF block_movedD(1) [OF bm]] d(1) by (simp add: intact_def)
qed

text \<open>Contents of a region below the end of tospace stay as they are under a larger map.\<close>

lemma contents_mono:
  assumes "contents h s F base os q" "F \<subseteq>\<^sub>m F'" "\<And>i. i < length os \<Longrightarrow> mem s' (base + i) = mem s (base + i)"
  shows "contents h s' F' base os q"
  unfolding contents_def
proof (intro allI impI)
  fix i assume i: "i < length os"
  note old = assms(1) [unfolded contents_def, rule_format, OF i]
  have "new_word h F' (fst (os ! i)) = new_word h F (fst (os ! i))" if "i < q" "snd (os ! i)"
    using old that by (intro new_word_mono [OF assms(2)]) blast
  moreover have "F' a \<noteq> None" if "F a \<noteq> None" for a using that bspec [OF assms(2) [unfolded map_le_def], of a] by (metis domI option.exhaust)
  ultimately show "mem s' (base + i) = (if i < q \<and> snd (os ! i) then new_word h F' (fst (os ! i)) else fst (os ! i))
    \<and> (i < q \<longrightarrow> snd (os ! i) \<longrightarrow> (\<forall>a. target h (fst (os ! i)) = Some a \<longrightarrow> F' a \<noteq> None))"
    using old assms(3) [OF i] by auto
qed

lemma contents_append:
  assumes "contents h s F base os q" "q \<le> length os"
    and "\<And>i. i < length xs \<Longrightarrow> mem s (base + (length os + i)) = fst (xs ! i)"
  shows "contents h s F base (os @ xs) q"
  unfolding contents_def
proof (intro allI impI)
  fix i assume i: "i < length (os @ xs)"
  show "mem s (base + i) = (if i < q \<and> snd ((os @ xs) ! i) then new_word h F (fst ((os @ xs) ! i)) else fst ((os @ xs) ! i))
    \<and> (i < q \<longrightarrow> snd ((os @ xs) ! i) \<longrightarrow> (\<forall>a. target h (fst ((os @ xs) ! i)) = Some a \<longrightarrow> F a \<noteq> None))"
  proof (cases "i < length os")
    case True
    then show ?thesis using assms(1) [unfolded contents_def, rule_format, OF True] by (simp add: nth_append)
  next
    case False
    then show ?thesis using assms(3) [of "i - length os"] assms(2) i by (simp add: nth_append)
  qed
qed

lemma contents_step:
  assumes bm: "block_moved h R s F os ws q a b s'"
  shows "contents h s' (F(a \<mapsto> newspace_next s)) (to_start h) (os @ image_of h a) q"
proof (rule contents_append)
  note m = block_movedD [OF bm] and c = gc_invD [OF block_movedD(1) [OF bm]]
  show "contents h s' (F(a \<mapsto> newspace_next s)) (to_start h) os q"
  proof (rule contents_mono [OF c(9)])
    show "F \<subseteq>\<^sub>m F(a \<mapsto> newspace_next s)" using m(3) by (auto simp: map_le_def)
    show "mem s' (to_start h + i) = mem s (to_start h + i)" if "i < length os" for i
      using that m(9,11) by (intro frame_to [OF bm]) (auto simp: in_from_def)
  qed
  show "mem s' (to_start h + (length os + i)) = fst (image_of h a ! i)" if "i < length (image_of h a)" for i
    using that block_moved_mem(1) [OF bm, of i] m(9) by (simp add: add.assoc)
  show "q \<le> length os" by (rule c(10))
qed

lemma counted_step:
  assumes bm: "block_moved h R s F os ws q a b s'"
  shows "counted h R (F(a \<mapsto> newspace_next s)) (os @ image_of h a)"
proof -
  note m = block_movedD [OF bm] and c = gc_invD [OF block_movedD(1) [OF bm]]
  have "a \<notin> dom F" "finite (dom F)" using m(3) copied_fits(2) [OF m(1)] by auto
  then have "(\<Sum>x \<in> dom (F(a \<mapsto> newspace_next s)). size_at h x) = size_at h a + (\<Sum>x \<in> dom F. size_at h x)" by simp
  then show ?thesis using c(12,2) m(4) by (auto simp: counted_def closed_set_def)
qed

theorem copied_moves:
  assumes bm: "block_moved h R s F os ws q a b s'"
  shows "gc_inv h R s' (F(a \<mapsto> newspace_next s)) (os @ image_of h a) (chain_with h a ws) q"
proof -
  note m = block_movedD [OF bm] and c = gc_invD [OF block_movedD(1) [OF bm]]
  have "spaces h s' (os @ image_of h a)" using m(6,7,9,10) by (simp add: spaces_def)
  moreover have "parsed h (drop q (os @ image_of h a))"
    using c(10) parsed_append [OF c(11) parsed_image_of [OF c(1), of a]] by simp
  moreover have "q \<le> length (os @ image_of h a)" using c(10) by simp
  ultimately show ?thesis
    unfolding gc_inv_def
    using c(1,2) m(5) moved_ok_step [OF bm] apart_step [OF bm] intact_step [OF bm] chained_step [OF bm]
      contents_step [OF bm] counted_step [OF bm] by blast
qed

end
