(* ===== verification/Gc_Scan.thy ===== *)
theory Gc_Scan
  imports Gc_Copy
begin

text \<open>
  Scanning one word: the precheck decides by the map \<open>F\<close>, the transport of a block extends it,
  the loop over the cdrs of a list ends, and every handler of a word leaves the new word in
  its place.
\<close>

section \<open>Growth\<close>

definition grown :: "layout \<Rightarrow> nat set \<Rightarrow> nat \<Rightarrow> gc_state \<Rightarrow> (nat \<rightharpoonup> nat) \<Rightarrow> marked_words \<Rightarrow> gc_state \<Rightarrow> (nat \<rightharpoonup> nat) \<Rightarrow> marked_words \<Rightarrow> nat list \<Rightarrow> bool" where
  "grown h R q s F os s' F' os' ws' \<longleftrightarrow>
     gc_inv h R s' F' os' ws' q \<and> F \<subseteq>\<^sub>m F' \<and> length os \<le> length os'
     \<and> (\<forall>d. \<not> in_from h d \<longrightarrow> d < to_start h + length os \<longrightarrow> mem s' d = mem s d)
     \<and> (\<forall>i < length os. os' ! i = os ! i)"

lemma grownD:
  assumes "grown h R q s F os s' F' os' ws'"
  shows "gc_inv h R s' F' os' ws' q" "F \<subseteq>\<^sub>m F'" "length os \<le> length os'"
    "\<not> in_from h d \<Longrightarrow> d < to_start h + length os \<Longrightarrow> mem s' d = mem s d" "i < length os \<Longrightarrow> os' ! i = os ! i"
  using assms by (simp_all add: grown_def)

lemma grown_refl: "gc_inv h R s F os ws q \<Longrightarrow> grown h R q s F os s F os ws"
  by (simp add: grown_def)

lemma grown_trans:
  assumes "grown h R q s F os s' F' os' ws'" "grown h R q s' F' os' s'' F'' os'' ws''"
  shows "grown h R q s F os s'' F'' os'' ws''"
  using assms by (auto simp: grown_def intro: map_le_trans)

lemma grown_moves:
  assumes "block_moved h R s F os ws q a b s'"
  shows "grown h R q s F os s' (F(a \<mapsto> newspace_next s)) (os @ image_of h a) (chain_with h a ws)"
  using copied_moves [OF assms] frame_to [OF assms] block_movedD(3,9) [OF assms]
  by (auto simp: grown_def map_le_def nth_append)

section \<open>The precheck\<close>

lemma broken_heart [simp]: "addressable p \<Longrightarrow> BROKEN_HEART_P (MAKE_BROKEN_HEART p)"
  "addressable p \<Longrightarrow> OBJECT_ADDRESS (MAKE_BROKEN_HEART p) = p"
  by (simp_all add: BROKEN_HEART_P_def MAKE_BROKEN_HEART_def)

lemma moved_address:
  assumes "gc_inv h R s F os ws q" "F a = Some p"
  shows "addressable p" "mem s a = MAKE_BROKEN_HEART p" "new_start h + prefix_words h \<le> p" "p + size_at h a \<le> new_start h + length os"
    "in_from h a" "\<exists>b. blocks h a = Some b"
proof -
  note c = gc_invD [OF assms(1)] and mo = gc_invD(5) [OF assms(1), unfolded moved_ok_def, rule_format, OF assms(2)]
  show "mem s a = MAKE_BROKEN_HEART p" "new_start h + prefix_words h \<le> p" "p + size_at h a \<le> new_start h + length os"
    "\<exists>b. blocks h a = Some b" using mo by auto
  then show "in_from h a" using blockD(7) [OF c(1)] by blast
  show "addressable p" using mo copied_fits(1) [OF assms(1)] c(3) by (simp add: addressable_def config_def)
qed

lemma precheck_cases:
  assumes "gc_inv h R s F os ws q"
  shows "\<not> in_from h a \<Longrightarrow> GC_PRECHECK_FROM a s = Some (Inr (Some a, s))"
    and "F a = Some p \<Longrightarrow> GC_PRECHECK_FROM a s = Some (Inr (Some p, s))"
    and "blocks h a = Some b \<Longrightarrow> F a = None \<Longrightarrow> GC_PRECHECK_FROM a s = Some (Inr (None, s))"
proof -
  note c = gc_invD [OF assms]
  have cfg: "transport_p (current_gc_table s)" "\<not> scanning_ephemerons_p s" "ADDRESS_IN_FROMSPACE_P s a = in_from h a" for a
    using c(3) by (simp_all add: config_def ADDRESS_IN_FROMSPACE_P_def in_from_def)
  show "\<not> in_from h a \<Longrightarrow> GC_PRECHECK_FROM a s = Some (Inr (Some a, s))"
    by (simp add: GC_PRECHECK_FROM_def gc_precheck_from_def cfg)
  show "GC_PRECHECK_FROM a s = Some (Inr (Some p, s))" if "F a = Some p"
    using moved_address [OF assms that] by (simp add: GC_PRECHECK_FROM_def gc_precheck_from_def cfg)
  show "GC_PRECHECK_FROM a s = Some (Inr (None, s))" if b: "blocks h a = Some b" "F a = None"
    using copied_word [OF assms b, of 0] blockD [OF c(1) b(1)] by (simp add: GC_PRECHECK_FROM_def gc_precheck_from_def cfg)
qed

section \<open>Transport\<close>

lemma moved_state_simps [simp]:
  "tospace_next (moved_state a n s) = tospace_next s + n" "newspace_next (moved_state a n s) = newspace_next s + n"
  "weak_chain (moved_state a n s) = weak_chain s" "newspace_start (moved_state a n s) = newspace_start s"
  "tospace_start (moved_state a n s) = tospace_start s"
  "mem (moved_state a n s) = (store_words (tospace_next s) (map (\<lambda>i. mem s (a + i)) [0..<n]) (mem s))(a := MAKE_BROKEN_HEART (newspace_next s))"
  by (simp_all add: moved_state_def)

lemma config_moved_state [simp]: "config h (moved_state a n s) = config h s"
  by (simp add: config_def moved_state_def fixed_part_def store_def)

lemma config_store [simp]: "config h (store a v s) = config h s" "config h (s\<lparr>weak_chain := w\<rparr>) = config h s"
  by (simp_all add: config_def fixed_part_def store_def)

lemma block_transported:
  assumes c: "gc_inv h R s F os ws q" and b: "blocks h a = Some b" "F a = None" "a \<in> R"
    and w: "\<not> weak_car h a" "n = block_words b"
  shows "GC_TRANSPORT_WORDS a n al s = Some (Inr (newspace_next s, moved_state a n s))"
    "block_moved h R s F os ws q a b (moved_state a n s)"
proof -
  note cc = gc_invD [OF c] and B = blockD [OF gc_invD(1) [OF c] b(1)]
  have room: "a + n \<le> from_end h" "from_end h \<le> to_start h" "tospace_next s = to_start h + length os"
    using B w cc(3,4) by (simp_all add: config_def spaces_def)
  then show "GC_TRANSPORT_WORDS a n al s = Some (Inr (newspace_next s, moved_state a n s))"
    using transports [OF cc(3), of a n al] by simp
  have words: "fst (image_of h a ! i) = mem s (a + i)" if "i < n" for i
  proof -
    have "n = size_at h a" using B w by simp
    moreover have "i = 0 \<or> i = 1" if "b = Weak_Block" using that \<open>i < n\<close> w by auto
    ultimately show ?thesis using that copied_word [OF c b(1,2), of i] w b(1) by (auto simp: image_of_def)
  qed
  have "moves_block h a s (moved_state a n s)"
    using cc(3) room w B words by (auto simp: moves_block_def store_words_in store_words_def)
  then show "block_moved h R s F os ws q a b (moved_state a n s)" using c b by (simp add: block_moved_def)
qed

section \<open>Lists\<close>

definition untransported_pair :: "layout \<Rightarrow> nat set \<Rightarrow> (nat \<rightharpoonup> nat) \<Rightarrow> ulong \<Rightarrow> bool" where
  "untransported_pair h R F cdr \<longleftrightarrow>
     blocks h (OBJECT_ADDRESS cdr) = Some (Tuple_Block 2) \<and> F (OBJECT_ADDRESS cdr) = None \<and> OBJECT_ADDRESS cdr \<in> R"

definition good_ref :: "layout \<Rightarrow> nat set \<Rightarrow> ulong \<Rightarrow> bool" where
  "good_ref h R w \<longleftrightarrow> good_word h w \<and> (\<forall>a. target h w = Some a \<longrightarrow> a \<in> R)"

lemma good_refD:
  assumes "good_ref h R w"
  shows "good_word h w" "target h w = Some a \<Longrightarrow> a \<in> R \<and> blocks h a = referent h w \<and> a = OBJECT_ADDRESS w \<and> in_from h a"
    "referent h w \<noteq> None \<Longrightarrow> in_from h (OBJECT_ADDRESS w) \<Longrightarrow> target h w = Some (OBJECT_ADDRESS w)"
proof -
  show g: "good_word h w" using assms by (simp add: good_ref_def)
  show "a \<in> R \<and> blocks h a = referent h w \<and> a = OBJECT_ADDRESS w \<and> in_from h a" if "target h w = Some a"
    using that good_target [OF g that] assms by (simp add: good_ref_def)
  show "referent h w \<noteq> None \<Longrightarrow> in_from h (OBJECT_ADDRESS w) \<Longrightarrow> target h w = Some (OBJECT_ADDRESS w)"
    by (simp add: target_def)
qed

lemma list_handler: "OBJECT_TYPE w = TC_LIST \<Longrightarrow> handler w = Handle_Pair"
  by (simp add: handler_def std_table_def handler_table GCT_ENTRY_def)

lemma list_referent: "OBJECT_TYPE w = TC_LIST \<Longrightarrow> referent h w = Some (Tuple_Block 2)"
  by (simp add: referent_def list_handler)

lemma cdr_test:
  assumes c: "gc_inv h R s F os ws q" and w: "good_ref h R cdr"
  shows "\<exists>go. cdr_untransported_p cdr s = Some (Inr (go, s)) \<and> (go \<longrightarrow> untransported_pair h R F cdr)"
proof (cases "OBJECT_TYPE cdr = TC_LIST")
  case False then show ?thesis by (intro exI [of _ False]) (simp add: cdr_untransported_p_def)
next
  case True
  note ref = list_referent [OF True, of h]
  let ?a = "OBJECT_ADDRESS cdr"
  show ?thesis
  proof (cases "in_from h ?a")
    case False
    then show ?thesis using precheck_cases(1) [OF c] True by (intro exI [of _ False]) (simp add: cdr_untransported_p_def)
  next
    case in_from: True
    then have "target h cdr = Some ?a" using good_refD(3) [OF w] ref by simp
    from good_refD(2) [OF w this] have a: "?a \<in> R" "blocks h ?a = Some (Tuple_Block 2)" using ref by simp_all
    show ?thesis
    proof (cases "F ?a")
      case None
      then show ?thesis
        using precheck_cases(3) [OF c a(2)] True a by (intro exI [of _ True]) (simp add: cdr_untransported_p_def untransported_pair_def)
    next
      case (Some p)
      then show ?thesis using precheck_cases(2) [OF c Some] True by (intro exI [of _ False]) (simp add: cdr_untransported_p_def)
    qed
  qed
qed

lemma second_word_good:
  assumes "heap_ok h" "closed_set h R" "blocks h a = Some (Tuple_Block n)" "a \<in> R" "i < n"
  shows "good_ref h R (old h (a + i))" "fst (image_of h a ! i) = old h (a + i)"
proof -
  note t = tuple_not_raw [OF assms(1,3)]
  have i: "image_of h a ! i = (old h (a + i), True)" using t assms(3,5) by (simp add: image_of_def size_at_def)
  then show "fst (image_of h a ! i) = old h (a + i)" by simp
  have "old h (a + i) \<in> traced (image_of h a)"
    using traced_nth [of i "image_of h a"] i assms(3,5) by (simp add: size_at_def)
  then show "good_ref h R (old h (a + i))" using t(2) assms(2,4,5) by (auto simp: good_ref_def closed_set_def)
qed

lemma read_moved:
  assumes "block_moved h R s F os ws q a b s'" "i < size_at h a"
  shows "READ_TOSPACE s' (newspace_next s + i) = fst (image_of h a ! i)"
proof -
  note m = block_movedD [OF assms(1)]
  have "NEWSPACE_TO_TOSPACE s' (newspace_next s + i) = tospace_next s + i"
    using m(5,9,10) by (simp add: NEWSPACE_TO_TOSPACE_def config_def)
  then show ?thesis using block_moved_mem(1) [OF assms] by (simp add: READ_TOSPACE_def)
qed

definition room_left :: "layout \<Rightarrow> gc_state \<Rightarrow> nat" where
  "room_left h s = to_start h + prefix_words h + (from_end h - from_start h) - tospace_next s"

lemma room_shrinks:
  assumes "block_moved h R s F os ws q a b s'"
  shows "room_left h s' < room_left h s"
  using transport_fits [OF block_movedD(1) [OF assms], where a = a] block_movedD [OF assms] by (simp add: room_left_def)

lemma tuple_transported:
  assumes c: "gc_inv h R s F os ws q" and b: "blocks h a = Some (Tuple_Block n)" "F a = None" "a \<in> R"
  shows "GC_TRANSPORT_WORDS a n al s = Some (Inr (newspace_next s, moved_state a n s))"
    "block_moved h R s F os ws q a (Tuple_Block n) (moved_state a n s)"
  using block_transported [OF c b, where n = n] b(1) by (simp_all add: weak_car_def)

definition cdrs_invariant where
  "cdrs_invariant h R q s F os cdr go s' \<longleftrightarrow>
     (\<exists>F' os' ws'. grown h R q s F os s' F' os' ws' \<and> (go \<longrightarrow> untransported_pair h R F' cdr))"

lemma cdrs_step:
  assumes I: "cdrs_invariant h R q s F os cdr True s1"
  shows "\<exists>cdr' go s2. gc_bind (GC_TRANSPORT_WORDS (OBJECT_ADDRESS cdr) 2 False) (\<lambda>new s.
            let cdr = READ_TOSPACE s (new + CONS_CDR)
            in gc_bind (cdr_untransported_p cdr) (\<lambda>go. gc_return (cdr, go)) s) s1 = Some (Inr ((cdr', go), s2))
    \<and> cdrs_invariant h R q s F os cdr' go s2 \<and> room_left h s2 < room_left h s1"
proof -
  let ?a = "OBJECT_ADDRESS cdr"
  obtain F1 os1 ws1 where g: "grown h R q s F os s1 F1 os1 ws1" and u: "untransported_pair h R F1 cdr"
    using I by (auto simp: cdrs_invariant_def)
  note c1 = grownD(1) [OF g]
  have b: "blocks h ?a = Some (Tuple_Block 2)" "F1 ?a = None" "?a \<in> R" using u by (simp_all add: untransported_pair_def)
  let ?s2 = "moved_state ?a 2 s1"
  note t = tuple_transported [OF c1 b]
  have g2: "grown h R q s F os ?s2 (F1(?a \<mapsto> newspace_next s1)) (os1 @ image_of h ?a) (chain_with h ?a ws1)"
    by (rule grown_trans [OF g grown_moves [OF t(2)]])
  note sw = second_word_good [OF gc_invD(1,2) [OF c1] b(1,3), of 1]
  have cdr: "READ_TOSPACE ?s2 (newspace_next s1 + 1) = old h (?a + 1)"
    using read_moved [OF t(2), of 1] sw b(1) by (simp add: size_at_def)
  obtain go where go: "cdr_untransported_p (old h (?a + 1)) ?s2 = Some (Inr (go, ?s2))"
    "go \<longrightarrow> untransported_pair h R (F1(?a \<mapsto> newspace_next s1)) (old h (?a + 1))"
    using cdr_test [OF grownD(1) [OF g2], of "old h (?a + 1)"] sw by auto
  have "cdrs_invariant h R q s F os (old h (?a + 1)) go ?s2"
    using g2 go(2) unfolding cdrs_invariant_def by blast
  moreover have "room_left h ?s2 < room_left h s1" by (rule room_shrinks [OF t(2)])
  ultimately show ?thesis using t(1) cdr go(1) by simp
qed

lemma cdrs_transported:
  assumes c: "gc_inv h R s F os ws q" and w: "good_ref h R cdr"
  shows "\<exists>s' F' os' ws'. transport_cdrs cdr s = Some (Inr ((), s')) \<and> grown h R q s F os s' F' os' ws'"
proof -
  obtain go where go: "cdr_untransported_p cdr s = Some (Inr (go, s))" "go \<longrightarrow> untransported_pair h R F cdr"
    using cdr_test [OF c w] by blast
  let ?I = "\<lambda>x s1. cdrs_invariant h R q s F os (fst x) (snd x) s1"
  have start: "?I (cdr, go) s" using grown_refl [OF c] go(2) unfolding cdrs_invariant_def by auto
  have "\<exists>x' s'. gc_while (\<lambda>(cdr, go) s. go)
     (\<lambda>(cdr, go). gc_bind (GC_TRANSPORT_WORDS (OBJECT_ADDRESS cdr) 2 False) (\<lambda>new s.
        let cdr = READ_TOSPACE s (new + CONS_CDR)
        in gc_bind (cdr_untransported_p cdr) (\<lambda>go. gc_return (cdr, go)) s)) (cdr, go) s = Some (Inr (x', s'))
     \<and> ?I x' s' \<and> \<not> (\<lambda>(cdr, go) s. go) x' s'"
  proof (rule gc_while_rule [where I = ?I and m = "\<lambda>_. room_left h", OF start])
    fix x s1 assume "?I x s1" "(\<lambda>(cdr, go) s. go) x s1"
    then have "cdrs_invariant h R q s F os (fst x) True s1" by (auto split: prod.splits)
    from cdrs_step [OF this] show "\<exists>x' s'. (case x of (cdr, go) \<Rightarrow> gc_bind (GC_TRANSPORT_WORDS (OBJECT_ADDRESS cdr) 2 False) (\<lambda>new s.
        let cdr = READ_TOSPACE s (new + CONS_CDR)
        in gc_bind (cdr_untransported_p cdr) (\<lambda>go. gc_return (cdr, go)) s)) s1 = Some (Inr (x', s'))
      \<and> ?I x' s' \<and> room_left h s' < room_left h s1" by (cases x) fastforce
  qed
  then obtain x' s' where loop: "gc_while (\<lambda>(cdr, go) s. go)
     (\<lambda>(cdr, go). gc_bind (GC_TRANSPORT_WORDS (OBJECT_ADDRESS cdr) 2 False) (\<lambda>new s.
        let cdr = READ_TOSPACE s (new + CONS_CDR)
        in gc_bind (cdr_untransported_p cdr) (\<lambda>go. gc_return (cdr, go)) s)) (cdr, go) s = Some (Inr (x', s'))"
    and I: "?I x' s'" by blast
  then have "transport_cdrs cdr s = Some (Inr ((), s'))" using go(1) by (simp add: transport_cdrs_def)
  then show ?thesis using I unfolding cdrs_invariant_def by blast
qed

section \<open>Words\<close>

text \<open>The new word \<open>x\<close> of \<open>w\<close>, in a state in which the block it refers to has been moved.\<close>

definition relocated :: "layout \<Rightarrow> nat set \<Rightarrow> nat \<Rightarrow> gc_state \<Rightarrow> (nat \<rightharpoonup> nat) \<Rightarrow> marked_words \<Rightarrow> ulong \<Rightarrow> ulong \<Rightarrow> gc_state \<Rightarrow> bool" where
  "relocated h R q s F os w x s' \<longleftrightarrow>
     (\<exists>F' os' ws'. grown h R q s F os s' F' os' ws' \<and> x = new_word h F' w \<and> (\<forall>a. target h w = Some a \<longrightarrow> F' a \<noteq> None))"

lemma OBJECT_NEW_ADDRESS_same [simp]: "OBJECT_NEW_ADDRESS w (OBJECT_ADDRESS w) = w"
  by (simp add: OBJECT_NEW_ADDRESS_def OBJECT_NEW_DATUM_def OBJECT_ADDRESS_def MAKE_OBJECT_collapse)

lemma relocated_same:
  assumes "gc_inv h R s F os ws q" "target h w = None"
  shows "relocated h R q s F os w w s"
  using grown_refl [OF assms(1)] assms(2) unfolding relocated_def by fastforce

lemma relocated_moved:
  assumes "gc_inv h R s F os ws q" "target h w = Some a" "F a = Some p"
  shows "relocated h R q s F os w (OBJECT_NEW_ADDRESS w p) s"
  unfolding relocated_def using grown_refl [OF assms(1)] assms(2,3)
  by (intro exI [of _ F] exI [of _ os] exI [of _ ws]) (simp add: new_word_def)

lemma relocated_grown:
  assumes "grown h R q s F os s' F' os' ws'" "target h w = Some a" "F' a = Some p"
  shows "relocated h R q s F os w (OBJECT_NEW_ADDRESS w p) s'"
  unfolding relocated_def using assms
  by (intro exI [of _ F'] exI [of _ os'] exI [of _ ws']) (simp add: new_word_def)

text \<open>
  The scheme of all handlers of references: the precheck settles words that lead out of
  fromspace and blocks already moved; \<open>move\<close> moves the block otherwise.
\<close>

lemma precheck_then:
  assumes c: "gc_inv h R s F os ws q" and w: "good_ref h R w" and r: "referent h w = Some b"
    and move: "\<And>a. a = OBJECT_ADDRESS w \<Longrightarrow> target h w = Some a \<Longrightarrow> blocks h a = Some b \<Longrightarrow> F a = None \<Longrightarrow> a \<in> R
      \<Longrightarrow> \<exists>x s'. move s = Some (Inr (x, s')) \<and> relocated h R q s F os w x s'"
  shows "\<exists>x s'. gc_bind (GC_PRECHECK_FROM (OBJECT_ADDRESS w)) (\<lambda>new_address.
      case new_address of Some new_address \<Rightarrow> gc_return (OBJECT_NEW_ADDRESS w new_address) | None \<Rightarrow> move) s
      = Some (Inr (x, s')) \<and> relocated h R q s F os w x s'"
proof (cases "in_from h (OBJECT_ADDRESS w)")
  case False
  then have "target h w = None" by (simp add: target_def)
  then show ?thesis using precheck_cases(1) [OF c False] relocated_same [OF c, of w] by simp
next
  case True
  then have t: "target h w = Some (OBJECT_ADDRESS w)" using good_refD(3) [OF w] r by simp
  note D = good_refD(2) [OF w t]
  show ?thesis
  proof (cases "F (OBJECT_ADDRESS w)")
    case None
    then show ?thesis using precheck_cases(3) [OF c _ None, of b] D r move [OF refl t _ None] by simp
  next
    case (Some p)
    then show ?thesis using precheck_cases(2) [OF c Some] relocated_moved [OF c t Some] by simp
  qed
qed

lemma tuple_relocated:
  assumes c: "gc_inv h R s F os ws q" and w: "good_ref h R w" and r: "referent h w = Some (Tuple_Block n)"
  shows "\<exists>x s'. gc_tuple w n s = Some (Inr (x, s')) \<and> relocated h R q s F os w x s'"
  unfolding gc_tuple_def Let_def
proof (rule precheck_then [OF c w r])
  fix a assume a: "a = OBJECT_ADDRESS w" "target h w = Some a" "blocks h a = Some (Tuple_Block n)" "F a = None" "a \<in> R"
  let ?s' = "moved_state a n s" and ?F' = "F(a \<mapsto> newspace_next s)"
  note t = tuple_transported [OF c a(3,4,5)]
  note g = grown_moves [OF t(2)]
  have "\<exists>s'' F'' os'' ws''. (if n = 2 then transport_cdrs (READ_TOSPACE ?s' (newspace_next s + CONS_CDR)) else gc_return ()) ?s'
      = Some (Inr ((), s'')) \<and> grown h R q ?s' ?F' (os @ image_of h a) s'' F'' os'' ws''"
  proof (cases "n = 2")
    case True
    note sw = second_word_good [OF gc_invD(1,2) [OF c] a(3,5), of 1]
    have "READ_TOSPACE ?s' (newspace_next s + 1) = old h (a + 1)"
      using read_moved [OF t(2), of 1] sw a(3) True by (simp add: size_at_def)
    then show ?thesis using cdrs_transported [OF grownD(1) [OF g], of "old h (a + 1)"] sw True by simp
  next
    case False
    then show ?thesis using grown_refl [OF grownD(1) [OF g]] by auto
  qed
  then obtain s'' F'' os'' ws'' where e: "(if n = 2 then transport_cdrs (READ_TOSPACE ?s' (newspace_next s + CONS_CDR)) else gc_return ()) ?s'
      = Some (Inr ((), s''))" and g2: "grown h R q ?s' ?F' (os @ image_of h a) s'' F'' os'' ws''" by blast
  have "F'' a = Some (newspace_next s)" using grownD(2) [OF g2] by (simp add: map_le_def)
  then have "relocated h R q s F os w (OBJECT_NEW_ADDRESS w (newspace_next s)) s''"
    by (rule relocated_grown [OF grown_trans [OF g g2] a(2)])
  then show "\<exists>x s'. gc_bind (GC_TRANSPORT_WORDS (OBJECT_ADDRESS w) n False) (\<lambda>new_address s.
      gc_bind (if n = 2 then transport_cdrs (READ_TOSPACE s (new_address + CONS_CDR)) else gc_return ())
        (\<lambda>_. gc_return (OBJECT_NEW_ADDRESS w new_address)) s) s = Some (Inr (x, s')) \<and> relocated h R q s F os w x s'"
    unfolding a(1) [symmetric] gc_bind_simps(1) [where m = "GC_TRANSPORT_WORDS a n False", OF t(1)] 
      gc_bind_simps(1) [where m = "if n = 2 then transport_cdrs (READ_TOSPACE ?s' (newspace_next s + CONS_CDR)) else gc_return ()", OF e]
    by simp
qed

lemma vector_relocated:
  assumes c: "gc_inv h R s F os ws q" and w: "good_ref h R w"
    and r: "referent h w = Some (Vector_Block (1 + unat (OBJECT_DATUM (old h (OBJECT_ADDRESS w)))))"
  shows "\<exists>x s'. gc_vector w al s = Some (Inr (x, s')) \<and> relocated h R q s F os w x s'"
proof -
  let ?move = "\<lambda>s. gc_bind (GC_TRANSPORT_WORDS (OBJECT_ADDRESS w) (1 + unat (OBJECT_DATUM (mem s (OBJECT_ADDRESS w)))) al)
     (\<lambda>new_address. gc_return (OBJECT_NEW_ADDRESS w new_address)) s"
  have "gc_vector w al s = gc_bind (GC_PRECHECK_FROM (OBJECT_ADDRESS w)) (\<lambda>new_address.
      case new_address of Some new_address \<Rightarrow> gc_return (OBJECT_NEW_ADDRESS w new_address) | None \<Rightarrow> ?move) s"
    unfolding gc_vector_def Let_def by (rule arg_cong2 [where f = "\<lambda>f x. gc_bind (GC_PRECHECK_FROM (OBJECT_ADDRESS w)) f x"])
      (auto simp: fun_eq_iff split: option.splits)
  moreover have "\<exists>x s'. gc_bind (GC_PRECHECK_FROM (OBJECT_ADDRESS w)) (\<lambda>new_address.
      case new_address of Some new_address \<Rightarrow> gc_return (OBJECT_NEW_ADDRESS w new_address) | None \<Rightarrow> ?move) s
      = Some (Inr (x, s')) \<and> relocated h R q s F os w x s'"
  proof (rule precheck_then [OF c w r])
    let ?n = "1 + unat (OBJECT_DATUM (old h (OBJECT_ADDRESS w)))"
    fix a assume a: "a = OBJECT_ADDRESS w" "target h w = Some a" "blocks h a = Some (Vector_Block ?n)" "F a = None" "a \<in> R"
    have "mem s a = old h a" using copied_word [OF c a(3,4), of 0] by simp
    moreover note t = block_transported [OF c a(3,4,5), where n = "?n"]
    moreover have "\<not> weak_car h a" using a(3) by (simp add: weak_car_def)
    ultimately have "?move s = Some (Inr (OBJECT_NEW_ADDRESS w (newspace_next s), moved_state a ?n s))"
      and "relocated h R q s F os w (OBJECT_NEW_ADDRESS w (newspace_next s)) (moved_state a ?n s)"
      using a(1) relocated_grown [OF grown_moves [OF t(2)] a(2)] by simp_all
    then show "\<exists>x s'. ?move s = Some (Inr (x, s')) \<and> relocated h R q s F os w x s'" by blast
  qed
  ultimately show ?thesis by simp
qed

section \<open>Weak pairs\<close>

lemma WRITE_TOSPACE_eq: "WRITE_TOSPACE a v s = store (NEWSPACE_TO_TOSPACE s a) v s"
  by (simp add: WRITE_TOSPACE_def)

lemma weak_referent_cases:
  "gc_ptr_type x = GC_POINTER_NORMAL \<Longrightarrow> weak_referent_address x s = Some (Inr (Some (OBJECT_ADDRESS x), s))"
  "gc_ptr_type x = GC_POINTER_NOT \<Longrightarrow> weak_referent_address x s = Some (Inr (None, s))"
  by (simp_all add: weak_referent_address_def)

text \<open>A word the loop can scan is no pointer to compiled code.\<close>

definition compiled_type :: "gc_type \<Rightarrow> bool" where
  "compiled_type t \<longleftrightarrow> t = GC_COMPILED_ENTRY \<or> t = GC_COMPILED_RETURN"

lemma compiled_handlers:
  "list_all2 (\<lambda>h t. compiled_type t \<longrightarrow> h = Handle_Cc_Entry \<or> h = Handle_Cc_Return) (handlers std_table) gc_type_map"
  by (simp add: std_table_def handler_table gc_type_map_def compiled_type_def)

lemma handler_of_type: "compiled_type (GC_TYPE w) \<Longrightarrow> handler w = Handle_Cc_Entry \<or> handler w = Handle_Cc_Return"
proof -
  have "int (unat (OBJECT_TYPE w)) < 64" using OBJECT_TYPE_bound [of w] by simp
  then have "unat (OBJECT_TYPE w) < length gc_type_map" unfolding gc_type_map_total N_TYPE_CODES_def by linarith
  from list_all2_nthD2 [OF compiled_handlers this]
  show "compiled_type (GC_TYPE w) \<Longrightarrow> handler w = Handle_Cc_Entry \<or> handler w = Handle_Cc_Return"
    unfolding handler_def GCT_ENTRY_def GC_TYPE_def gc_type_code_def by (rule mp)
qed

lemma good_not_compiled:
  assumes "good_word h w"
  shows "gc_ptr_type w = GC_POINTER_NORMAL \<or> gc_ptr_type w = GC_POINTER_NOT"
proof -
  have "\<not> compiled_type (GC_TYPE w)" using assms handler_of_type [of w] by (auto simp: good_word_def)
  then show ?thesis by (cases "GC_TYPE w") (simp_all add: gc_ptr_type_def compiled_type_def)
qed

lemma image_of_weak:
  "blocks h a = Some Weak_Block \<Longrightarrow>
    image_of h a = [(if weak_car h a then OBJECT_NEW_TYPE TC_FALSE (old h a) else old h a, True), (old h (a + 1), True)]"
  by (simp add: image_of_def)

lemma weak_block_moved:
  assumes c: "gc_inv h R s F os ws q" and b: "blocks h a = Some Weak_Block" "F a = None" "a \<in> R" "weak_car h a"
  defines "s1 \<equiv> moved_state a 2 s"
  defines "s2 \<equiv> store (Suc a) (link_word h a (weak_chain s)) (store (tospace_next s) (OBJECT_NEW_TYPE TC_FALSE (old h a)) s1)"
  shows "block_moved h R s F os ws q a Weak_Block (s2\<lparr>weak_chain := Some a\<rparr>)"
proof -
  note cc = gc_invD [OF c] and B = blockD [OF gc_invD(1) [OF c] b(1)]
  have room: "a + 2 \<le> tospace_next s" using B cc(3,4) by (simp add: config_def spaces_def)
  have sz: "size_at h a = Suc (Suc 0)" using b(1) by (simp add: size_at_def)
  have second: "mem s (Suc a) = old h (Suc a)" using copied_word [OF c b(1,2), of 1] by simp
  have pair: "mem (s2\<lparr>weak_chain := Some a\<rparr>) (tospace_next s + i) = fst (image_of h a ! i)" if "i < size_at h a" for i
  proof -
    consider "i = 0" | "i = 1" using \<open>i < size_at h a\<close> sz by linarith
    then show ?thesis
      using room second b(4) by cases (simp_all add: s2_def s1_def image_of_weak [OF b(1)] store_words_def)
  qed
  have rest: "mem (s2\<lparr>weak_chain := Some a\<rparr>) d = mem s d"
    if "d \<noteq> a" "\<not> (tospace_next s \<le> d \<and> d < tospace_next s + size_at h a)" "d \<noteq> Suc a" for d
    using that sz by (auto simp: s2_def s1_def store_words_def)
  have "moves_block h a s (s2\<lparr>weak_chain := Some a\<rparr>)"
    unfolding moves_block_def
    using cc(3) room sz pair rest b(4) by (simp add: s2_def s1_def)
  then show ?thesis using c b by (simp add: block_moved_def)
qed

lemma weak_transported:
  assumes c: "gc_inv h R s F os ws q" and b: "blocks h (OBJECT_ADDRESS w) = Some Weak_Block" "F (OBJECT_ADDRESS w) = None"
    "OBJECT_ADDRESS w \<in> R"
  shows "\<exists>s'. gc_transport_weak_pair w s = Some (Inr (OBJECT_NEW_ADDRESS w (newspace_next s), s'))
    \<and> block_moved h R s F os ws q (OBJECT_ADDRESS w) Weak_Block s'"
proof -
  let ?a = "OBJECT_ADDRESS w" and ?s1 = "moved_state (OBJECT_ADDRESS w) 2 s"
  note cc = gc_invD [OF c] and B = blockD [OF gc_invD(1) [OF c] b(1)] and ok = block_ok_of [OF gc_invD(1) [OF c] b(1)]
  have room: "?a + 2 \<le> tospace_next s" using B cc(3,4) by (simp add: config_def spaces_def)
  have t: "GC_TRANSPORT_WORDS ?a 2 False s = Some (Inr (newspace_next s, ?s1))" by (rule transports [OF cc(3) room])
  have first: "mem s ?a = old h ?a" using copied_word [OF c b(1,2), of 0] by simp
  have place: "NEWSPACE_TO_TOSPACE ?s1 (newspace_next s) = tospace_next s"
    using cc(3,4) by (simp add: NEWSPACE_TO_TOSPACE_def config_def spaces_def)
  have "READ_TOSPACE ?s1 (newspace_next s) = mem s ?a"
    using room by (simp add: READ_TOSPACE_def place store_words_def)
  then have car: "READ_TOSPACE ?s1 (newspace_next s) = old h ?a" using first by simp
  have in_from: "ADDRESS_IN_FROMSPACE_P ?s1 d = in_from h d" for d
    using cc(3) config_moved_state [of h ?a 2 s] by (simp add: config_def ADDRESS_IN_FROMSPACE_P_def in_from_def)
  show ?thesis
  proof (cases "weak_car h ?a")
    case True
    then have car_ptr: "gc_ptr_type (old h ?a) = GC_POINTER_NORMAL" "in_from h (OBJECT_ADDRESS (old h ?a))"
      by (simp_all add: weak_car_def)
    let ?s' = "(store (Suc ?a) (link_word h ?a (weak_chain s))
        (store (tospace_next s) (OBJECT_NEW_TYPE TC_FALSE (old h ?a)) ?s1))\<lparr>weak_chain := Some ?a\<rparr>"
    have "gc_transport_weak_pair w s = Some (Inr (OBJECT_NEW_ADDRESS w (newspace_next s), ?s'))"
      using t car car_ptr in_from
      by (simp add: gc_transport_weak_pair_def Let_def weak_referent_cases WRITE_TOSPACE_eq place link_word_def split: option.splits)
    then show ?thesis using weak_block_moved [OF c b True] by blast
  next
    case False
    then have good: "good_word h (old h ?a)" using ok by (simp add: block_ok_def)
    have "gc_ptr_type (old h ?a) = GC_POINTER_NOT \<or> gc_ptr_type (old h ?a) = GC_POINTER_NORMAL \<and> \<not> in_from h (OBJECT_ADDRESS (old h ?a))"
      using good_not_compiled [OF good] False b(1) by (auto simp: weak_car_def)
    then have "gc_transport_weak_pair w s = Some (Inr (OBJECT_NEW_ADDRESS w (newspace_next s), ?s1))"
      using t car in_from by (auto simp: gc_transport_weak_pair_def Let_def weak_referent_cases)
    then show ?thesis using block_transported(2) [OF c b False, of 2] by auto
  qed
qed

lemma weak_relocated:
  assumes c: "gc_inv h R s F os ws q" and w: "good_ref h R w" and r: "referent h w = Some Weak_Block"
  shows "\<exists>x s'. gc_bind (GC_PRECHECK_FROM (OBJECT_ADDRESS w)) (\<lambda>new_address.
      case new_address of Some new_address \<Rightarrow> gc_return (OBJECT_NEW_ADDRESS w new_address)
      | None \<Rightarrow> gc_transport_weak_pair w) s = Some (Inr (x, s')) \<and> relocated h R q s F os w x s'"
proof (rule precheck_then [OF c w r])
  fix a assume a: "a = OBJECT_ADDRESS w" "target h w = Some a" "blocks h a = Some Weak_Block" "F a = None" "a \<in> R"
  obtain s' where t: "gc_transport_weak_pair w s = Some (Inr (OBJECT_NEW_ADDRESS w (newspace_next s), s'))"
    "block_moved h R s F os ws q a Weak_Block s'"
    using weak_transported [OF c a(3,4,5) [unfolded a(1)]] a(1) by blast
  then show "\<exists>x s'. gc_transport_weak_pair w s = Some (Inr (x, s')) \<and> relocated h R q s F os w x s'"
    using relocated_grown [OF grown_moves [OF t(2)] a(2)] by simp
qed

section \<open>Handlers\<close>

lemma store_same: "mem s a = v \<Longrightarrow> store a v s = s"
  by (simp add: store_def fun_upd_idem)

lemma replace_word_result:
  assumes "\<exists>x s'. f s = Some (Inr (x, s')) \<and> relocated h R q s F os w x s'"
  shows "\<exists>x s'. replace_word scan f s = Some (Inr (scan + 1, store scan x s')) \<and> relocated h R q s F os w x s'"
proof -
  obtain x s' where "f s = Some (Inr (x, s'))" "relocated h R q s F os w x s'" using assms by blast
  then show ?thesis by (intro exI [of _ x] exI [of _ s']) (simp add: replace_word_def)
qed

text \<open>Every handler of a good word puts its new word in its place and moves on by one word.\<close>

theorem handled:
  assumes c: "gc_inv h R s F os ws q" and w: "good_ref h R w" and at: "mem s scan = w"
    and p: "handler w \<noteq> Handle_Nmv"
  shows "\<exists>x s'. gc_handle (handler w) scan w s = Some (Inr (scan + 1, store scan x s')) \<and> relocated h R q s F os w x s'"
proof -
  have tuple: ?thesis if "gc_handle (handler w) scan w = replace_word scan (gc_tuple w n)" "referent h w = Some (Tuple_Block n)" for n
    using replace_word_result [where f = "gc_tuple w n", OF tuple_relocated [OF c w that(2)]] that(1) by simp
  have vector: ?thesis if "gc_handle (handler w) scan w = replace_word scan (gc_vector w al)"
    "referent h w = Some (Vector_Block (1 + unat (OBJECT_DATUM (old h (OBJECT_ADDRESS w)))))" for al
    using replace_word_result [where f = "gc_vector w al", OF vector_relocated [OF c w that(2)]] that(1) by simp
  have same: ?thesis if "gc_handle (handler w) scan w s = Some (Inr (scan + 1, s))" "target h w = None"
    using relocated_same [OF c that(2)] store_same [OF at] that(1) by (intro exI [of _ w] exI [of _ s]) simp
  have "handler w \<in> {Handle_Non_Pointer, Handle_Cell, Handle_Pair, Handle_Triple, Handle_Quadruple,
       Handle_Aligned_Vector, Handle_Unaligned_Vector, Handle_Reference_Trap, Handle_Weak_Pair}"
    using good_refD(1) [OF w] by (simp add: good_word_def)
  then consider "handler w = Handle_Non_Pointer" | "handler w = Handle_Cell" | "handler w = Handle_Pair"
    | "handler w = Handle_Triple" | "handler w = Handle_Quadruple" | "handler w = Handle_Aligned_Vector"
    | "handler w = Handle_Unaligned_Vector" | "handler w = Handle_Reference_Trap" | "handler w = Handle_Weak_Pair" by blast
  then show ?thesis
  proof cases
    case 1 then show ?thesis by (intro same) (simp_all add: gc_handle_def target_def referent_def)
  next
    case 2 then show ?thesis by (intro tuple [of 1]) (simp_all add: gc_handle_def referent_def)
  next
    case 3 then show ?thesis by (intro tuple [of 2]) (simp_all add: gc_handle_def referent_def)
  next
    case 4 then show ?thesis by (intro tuple [of 3]) (simp_all add: gc_handle_def referent_def)
  next
    case 5 then show ?thesis by (intro tuple [of 4]) (simp_all add: gc_handle_def referent_def)
  next
    case 6 then show ?thesis by (intro vector [of True]) (simp_all add: gc_handle_def referent_def)
  next
    case 7 then show ?thesis by (intro vector [of False]) (simp_all add: gc_handle_def referent_def)
  next
    case 8
    show ?thesis
    proof (cases "OBJECT_DATUM w \<le> TRAP_MAX_IMMEDIATE")
      case True
      then have "gc_handle (handler w) scan w s = Some (Inr (scan + 1, s))"
        using 8 store_same [OF at] by (simp add: gc_handle_def gc_handle_reference_trap_def replace_word_def)
      then show ?thesis using 8 True by (intro same) (simp_all add: target_def referent_def)
    next
      case False
      then show ?thesis
        using 8 by (intro tuple [of 2]) (simp_all add: gc_handle_def gc_handle_reference_trap_def referent_def)
    qed
  next
    case 9
    then have "referent h w = Some Weak_Block" by (simp add: referent_def)
    note weak = weak_relocated [OF c w this]
    show ?thesis unfolding 9 gc_handle_def gc_handler.case gc_handle_weak_pair_def 
      by (rule replace_word_result) (rule weak)
  qed
qed

end
