(* ===== verification/Gc_Walk.thy ===== *)
theory Gc_Walk
  imports Gc_Scan
begin

text \<open>
  The loops of the collector: over a range of oldspace that holds roots, over tospace until the
  scan catches up with the allocation, and over the chain of weak pairs.
\<close>

section \<open>Writing outside fromspace\<close>

lemma links_store: "links h s ws \<Longrightarrow> (\<And>a. a \<in> set ws \<Longrightarrow> d \<noteq> Suc a) \<Longrightarrow> links h (store d v s) ws"
  by (erule links_frame) auto

lemma weak_second_word:
  assumes "heap_ok h" "weak_car h a"
  shows "in_from h (Suc a)"
  using blockD [OF assms(1), of a Weak_Block] assms(2) by (simp add: weak_car_def in_from_def)

lemma copied_store:
  assumes c: "gc_inv h R s F os ws q" and d: "\<not> in_from h d"
    and n: "contents h (store d v s) F (to_start h) os q'" "q' \<le> length os" "parsed h (drop q' os)"
  shows "gc_inv h R (store d v s) F os ws q'"
proof -
  note cc = gc_invD [OF c]
  have weak: "Suc a \<noteq> d" if "a \<in> set ws" for a
  proof -
    have "weak_car h a" using that cc(8) unfolding chained_def by blast
    from weak_second_word [OF cc(1) this] d show ?thesis by blast
  qed
  have "moved_ok h (store d v s) F os"
    unfolding moved_ok_def
  proof (intro allI impI)
    fix a p assume a: "F a = Some p"
    have "a \<noteq> d" using moved_address(5) [OF c a] d by blast
    then show "blocks h a \<noteq> None \<and> new_start h + prefix_words h \<le> p \<and> p + size_at h a \<le> new_start h + length os
        \<and> (\<forall>i < size_at h a. os ! (p - new_start h + i) = image_of h a ! i) \<and> mem (store d v s) a = MAKE_BROKEN_HEART p"
      using cc(5) [unfolded moved_ok_def, rule_format, OF a] unfolding store_simps fun_upd_apply by presburger
  qed
  moreover have "intact h (store d v s) F ws" using cc(7) d by (auto simp: intact_def)
  moreover have "chained h (store d v s) F ws"
    using cc(8) links_store [of h s ws d v] weak unfolding chained_def by auto
  moreover have "config h (store d v s)" "spaces h (store d v s) os" using cc(3,4) by (simp_all add: spaces_def)
  ultimately show ?thesis unfolding gc_inv_def using cc(1,2,6,12) n by blast
qed

lemma contents_other:
  assumes "contents h s F base os q" "d < base \<or> base + length os \<le> d"
  shows "contents h (store d v s) F base os q"
  using assms unfolding contents_def by auto

lemma contents_scanned:
  assumes c: "contents h s F base os q" and q: "q < length os" "os ! q = (w, True)"
    and t: "\<And>a. target h w = Some a \<Longrightarrow> F a \<noteq> None"
  shows "contents h (store (base + q) (new_word h F w) s) F base os (Suc q)"
  unfolding contents_def
proof (intro allI impI)
  fix i assume i: "i < length os"
  note old = c [unfolded contents_def, rule_format, OF i]
  show "mem (store (base + q) (new_word h F w) s) (base + i) =
      (if i < Suc q \<and> snd (os ! i) then new_word h F (fst (os ! i)) else fst (os ! i))
    \<and> (i < Suc q \<longrightarrow> snd (os ! i) \<longrightarrow> (\<forall>a. target h (fst (os ! i)) = Some a \<longrightarrow> F a \<noteq> None))"
    using old q t by (cases "i = q") (simp_all add: less_Suc_eq)
qed

text \<open>A manifest header: the words it covers are unmarked, so that nothing is to be done for them.\<close>

lemma contents_skip:
  assumes c: "contents h s F base os q" and q: "q + 1 + d \<le> length os" "os ! q = (w, True)" "handler w = Handle_Nmv"
    and d: "\<And>i. i < d \<Longrightarrow> \<not> snd (os ! (q + 1 + i))"
  shows "contents h s F base os (q + 1 + d)"
  unfolding contents_def
proof (intro allI impI)
  fix i assume i: "i < length os"
  note old = c [unfolded contents_def, rule_format, OF i]
  consider "i < q" | "i = q" | "q < i" "i < q + 1 + d" | "q + 1 + d \<le> i" by linarith
  then show "mem s (base + i) = (if i < q + 1 + d \<and> snd (os ! i) then new_word h F (fst (os ! i)) else fst (os ! i))
    \<and> (i < q + 1 + d \<longrightarrow> snd (os ! i) \<longrightarrow> (\<forall>a. target h (fst (os ! i)) = Some a \<longrightarrow> F a \<noteq> None))"
  proof cases
    case 2 then show ?thesis using old q(2,3) by simp
  next
    case 3 then show ?thesis using old d [of "i - (q + 1)"] by simp
  qed (use old in auto)
qed

section \<open>One step of a walk\<close>

text \<open>The word at a position the loop has reached: a manifest header, or a good word to be replaced.\<close>

lemma parsed_at:
  assumes "parsed h (drop q os)" "q < length os"
  obtains w where "os ! q = (w, True)" "handler w = Handle_Nmv" "q + 1 + unat (OBJECT_DATUM w) \<le> length os"
    "\<And>i. i < unat (OBJECT_DATUM w) \<Longrightarrow> \<not> snd (os ! (q + 1 + i))" "parsed h (drop (q + 1 + unat (OBJECT_DATUM w)) os)"
  | w where "os ! q = (w, True)" "handler w \<noteq> Handle_Nmv" "good_word h w" "parsed h (drop (q + 1) os)"
proof -
  obtain w m where wm: "os ! q = (w, m)" by (cases "os ! q")
  have d: "drop q os = (w, m) # drop (q + 1) os" using Cons_nth_drop_Suc [OF assms(2)] wm by simp
  show thesis
  proof (cases "handler w = Handle_Nmv")
    case True
    let ?d = "unat (OBJECT_DATUM w)"
    have p: "m" "?d \<le> length os - (q + 1)" "\<forall>x \<in> set (take ?d (drop (q + 1) os)). \<not> snd x"
      "parsed h (drop ?d (drop (q + 1) os))"
      using assms(1) True unfolding d by simp_all
    have u: "\<not> snd (os ! (q + 1 + i))" if "i < ?d" for i
    proof -
      have "i < length (take ?d (drop (q + 1) os))" using that p(2) by simp
      from nth_mem [OF this] p(3) have "\<not> snd (take ?d (drop (q + 1) os) ! i)" by blast
      then show ?thesis using that p(2) assms(2) by simp
    qed
    show thesis using that(1) [of w] wm p True u assms(2) by (simp add: add.commute)
  next
    case False
    then show thesis using that(2) [of w] assms(1) wm unfolding d by simp
  qed
qed

lemma scan_word_eq:
  assumes "config h s" "mem s scan = w"
  shows "scan_word scan s = gc_handle (handler w) scan w s"
  using assms by (simp add: config_def gc_ignored_def handler_def scan_word_def)

lemma nmv_handled: "handler w = Handle_Nmv \<Longrightarrow> gc_handle (handler w) scan w s = Some (Inr (scan + 1 + unat (OBJECT_DATUM w), s))"
  by (simp add: gc_handle_def gc_handle_nmv_def)

section \<open>Tospace\<close>

text \<open>What a walk keeps of the state it started from: moved blocks, words of tospace, the words elsewhere.\<close>

definition kept :: "layout \<Rightarrow> gc_state \<Rightarrow> (nat \<rightharpoonup> nat) \<Rightarrow> marked_words \<Rightarrow> gc_state \<Rightarrow> (nat \<rightharpoonup> nat) \<Rightarrow> marked_words \<Rightarrow> nat set \<Rightarrow> bool" where
  "kept h s F os s' F' os' D \<longleftrightarrow>
     F \<subseteq>\<^sub>m F' \<and> length os \<le> length os' \<and> (\<forall>i < length os. os' ! i = os ! i)
     \<and> (\<forall>d. d < to_start h \<longrightarrow> \<not> in_from h d \<longrightarrow> d \<notin> D \<longrightarrow> mem s' d = mem s d)"

lemma kept_refl: "kept h s F os s F os D"
  by (simp add: kept_def)

lemma kept_trans: "kept h s F os s' F' os' D \<Longrightarrow> kept h s' F' os' s'' F'' os'' D \<Longrightarrow> kept h s F os s'' F'' os'' D"
  by (auto simp: kept_def intro: map_le_trans)

lemma kept_mono: "kept h s F os s' F' os' D \<Longrightarrow> D \<subseteq> D' \<Longrightarrow> kept h s F os s' F' os' D'"
  by (auto simp: kept_def)

lemma kept_grown:
  assumes "grown h R q s F os s' F' os' ws'" "d \<in> D \<or> to_start h \<le> d"
  shows "kept h s F os (store d v s') F' os' D"
  using assms by (auto simp: kept_def grown_def)

definition tospace_walk :: "layout \<Rightarrow> nat set \<Rightarrow> gc_state \<Rightarrow> (nat \<rightharpoonup> nat) \<Rightarrow> marked_words \<Rightarrow> nat \<Rightarrow> gc_state \<Rightarrow> bool" where
  "tospace_walk h R s0 F0 os0 scan s \<longleftrightarrow>
     (\<exists>F os ws q. scan = to_start h + q \<and> gc_inv h R s F os ws q \<and> kept h s0 F0 os0 s F os {})"

definition walk_left :: "layout \<Rightarrow> nat \<Rightarrow> nat" where
  "walk_left h scan = to_start h + prefix_words h + (from_end h - from_start h) - scan"

lemma tospace_step:
  assumes I: "tospace_walk h R s0 F0 os0 scan s" and c: "scan < tospace_next s"
  shows "\<exists>scan' s'. scan_word scan s = Some (Inr (scan', s'))
    \<and> tospace_walk h R s0 F0 os0 scan' s' \<and> walk_left h scan' < walk_left h scan"
proof -
  obtain F os ws q where scan: "scan = to_start h + q" and cp: "gc_inv h R s F os ws q" and k: "kept h s0 F0 os0 s F os {}"
    using I unfolding tospace_walk_def by blast
  note cc = gc_invD [OF cp]
  have q: "q < length os" using c scan cc(4) by (simp add: spaces_def)
  have at: "mem s scan = fst (os ! q)" using cc(9) q by (simp add: contents_def scan)
  have not_from: "\<not> in_from h scan" using cc(3) by (simp add: scan in_from_def config_def)
  have left: "walk_left h scan' < walk_left h scan" if "scan < scan'" for scan'
    using that q copied_fits(1) [OF cp] by (simp add: walk_left_def scan)
  show ?thesis
  proof (rule parsed_at [OF cc(11) q])
    fix w assume w: "os ! q = (w, True)" "handler w = Handle_Nmv" "q + 1 + unat (OBJECT_DATUM w) \<le> length os"
      "\<And>i. i < unat (OBJECT_DATUM w) \<Longrightarrow> \<not> snd (os ! (q + 1 + i))" "parsed h (drop (q + 1 + unat (OBJECT_DATUM w)) os)"
    let ?q = "q + 1 + unat (OBJECT_DATUM w)"
    have "contents h s F (to_start h) os ?q" by (rule contents_skip [OF cc(9) w(3,1,2,4)])
    then have "gc_inv h R s F os ws ?q" unfolding gc_inv_def using cc w(3,5) by blast
    then have "tospace_walk h R s0 F0 os0 (scan + 1 + unat (OBJECT_DATUM w)) s"
      unfolding tospace_walk_def scan using k by (metis add.assoc)
    moreover have "mem s scan = w" using at w(1) by simp
    ultimately show ?thesis
      using left [of "scan + 1 + unat (OBJECT_DATUM w)"] by (simp add: scan_word_eq [OF cc(3)] nmv_handled [OF w(2)])
  next
    fix w assume w: "os ! q = (w, True)" "handler w \<noteq> Handle_Nmv" "good_word h w" "parsed h (drop (q + 1) os)"
    have "w \<in> traced os" using traced_nth [OF q] w(1) by simp
    then have good: "good_ref h R w" using w(3) cc(12) by (auto simp: good_ref_def counted_def)
    have at: "mem s scan = w" using at w(1) by simp
    obtain x s' where h: "gc_handle (handler w) scan w s = Some (Inr (scan + 1, store scan x s'))"
      "relocated h R q s F os w x s'" using handled [OF cp good at w(2)] by blast
    then obtain F' os' ws' where g: "grown h R q s F os s' F' os' ws'" and x: "x = new_word h F' w"
      and t: "\<And>a. target h w = Some a \<Longrightarrow> F' a \<noteq> None" unfolding relocated_def by blast
    note cp' = grownD(1) [OF g]
    have q': "q < length os'" "os' ! q = (w, True)" using grownD(3,5) [OF g] q w(1) by auto
    have "gc_inv h R (store scan x s') F' os' ws' (Suc q)"
    proof (rule copied_store [OF cp' not_from])
      show "contents h (store scan x s') F' (to_start h) os' (Suc q)"
        unfolding scan x by (rule contents_scanned [OF gc_invD(9) [OF cp'] q' t])
      show "Suc q \<le> length os'" using q'(1) by simp
      show "parsed h (drop (Suc q) os')"
        using gc_invD(11) [OF cp'] w(2) Cons_nth_drop_Suc [OF q'(1), symmetric] q'(2) by simp
    qed
    moreover have "kept h s0 F0 os0 (store scan x s') F' os' {}"
      by (rule kept_trans [OF k kept_grown [OF g]]) (simp add: scan)
    ultimately have "tospace_walk h R s0 F0 os0 (scan + 1) (store scan x s')"
      unfolding tospace_walk_def scan by (metis add.assoc add_Suc_right Suc_eq_plus1)
    then show ?thesis using h(1) left [of "scan + 1"] by (simp add: scan_word_eq [OF cc(3) at])
  qed
qed

theorem tospace_scanned:
  assumes "gc_inv h R s F os ws q"
  shows "\<exists>s' F' os' ws'. run_gc_loop (to_start h + q) tospace_next s = Some (Inr (to_start h + length os', s'))
    \<and> gc_inv h R s' F' os' ws' (length os') \<and> kept h s F os s' F' os' {}"
proof -
  have "tospace_walk h R s F os (to_start h + q) s"
    unfolding tospace_walk_def using assms kept_refl by blast
  from gc_while_rule [where I = "tospace_walk h R s F os" and c = "\<lambda>scan s. scan < tospace_next s" and b = scan_word
      and m = "\<lambda>scan s. walk_left h scan", OF this tospace_step]
  obtain scan s' where r: "run_gc_loop (to_start h + q) tospace_next s = Some (Inr (scan, s'))"
    and I: "tospace_walk h R s F os scan s'" and e: "\<not> scan < tospace_next s'"
    unfolding run_gc_loop_def by blast
  then obtain F' os' ws' q' where f: "scan = to_start h + q'" "gc_inv h R s' F' os' ws' q'" "kept h s F os s' F' os' {}"
    unfolding tospace_walk_def by blast
  moreover have "q' = length os'" using e f(1) gc_invD(4,10) [OF f(2)] by (simp add: spaces_def)
  ultimately show ?thesis using r by blast
qed

section \<open>Oldspace\<close>

text \<open>A range of oldspace below fromspace, seen as marked words, and its walk.\<close>

definition oldspace_walk ::
  "layout \<Rightarrow> nat set \<Rightarrow> gc_state \<Rightarrow> (nat \<rightharpoonup> nat) \<Rightarrow> marked_words \<Rightarrow> nat \<Rightarrow> marked_words \<Rightarrow> nat \<Rightarrow> nat \<Rightarrow> gc_state \<Rightarrow> bool" where
  "oldspace_walk h R s0 F0 os0 lo rl qt scan s \<longleftrightarrow>
     (\<exists>F os ws q. scan = lo + q \<and> q \<le> length rl \<and> gc_inv h R s F os ws qt \<and> contents h s F lo rl q \<and> parsed h (drop q rl)
        \<and> kept h s0 F0 os0 s F os {lo..<lo + length rl})"

lemma oldspace_step:
  assumes I: "oldspace_walk h R s0 F0 os0 lo rl qt scan s" and c: "scan < lo + length rl"
    and below: "lo + length rl \<le> from_start h" and R: "\<And>w a. w \<in> traced rl \<Longrightarrow> target h w = Some a \<Longrightarrow> a \<in> R"
  shows "\<exists>scan' s'. scan_word scan s = Some (Inr (scan', s'))
    \<and> oldspace_walk h R s0 F0 os0 lo rl qt scan' s' \<and> lo + length rl - scan' < lo + length rl - scan"
proof -
  obtain F os ws q where scan: "scan = lo + q" and cp: "gc_inv h R s F os ws qt" and old: "contents h s F lo rl q"
    and p: "parsed h (drop q rl)" and k: "kept h s0 F0 os0 s F os {lo..<lo + length rl}"
    using I unfolding oldspace_walk_def by blast
  note cc = gc_invD [OF cp]
  have order: "from_start h \<le> from_end h" "from_end h \<le> to_start h"
    using cc(1,3) by (simp_all add: heap_ok_def config_def)
  have q: "q < length rl" using c scan by simp
  have at: "mem s scan = fst (rl ! q)" using old q by (simp add: contents_def scan)
  have place: "\<not> in_from h (lo + i)" "lo + i < to_start h" if "i < length rl" for i
    using that below order by (auto simp: in_from_def)
  show ?thesis
  proof (rule parsed_at [OF p q])
    fix w assume w: "rl ! q = (w, True)" "handler w = Handle_Nmv" "q + 1 + unat (OBJECT_DATUM w) \<le> length rl"
      "\<And>i. i < unat (OBJECT_DATUM w) \<Longrightarrow> \<not> snd (rl ! (q + 1 + i))" "parsed h (drop (q + 1 + unat (OBJECT_DATUM w)) rl)"
    have "contents h s F lo rl (q + 1 + unat (OBJECT_DATUM w))" by (rule contents_skip [OF old w(3,1,2,4)])
    then have "oldspace_walk h R s0 F0 os0 lo rl qt (scan + 1 + unat (OBJECT_DATUM w)) s"
      unfolding oldspace_walk_def scan using k w(3,5) cp by (metis add.assoc)
    moreover have "mem s scan = w" using at w(1) by simp
    ultimately show ?thesis using c by (simp add: scan_word_eq [OF cc(3)] nmv_handled [OF w(2)])
  next
    fix w assume w: "rl ! q = (w, True)" "handler w \<noteq> Handle_Nmv" "good_word h w" "parsed h (drop (q + 1) rl)"
    have "w \<in> traced rl" using traced_nth [OF q] w(1) by simp
    then have good: "good_ref h R w" using w(3) R by (auto simp: good_ref_def)
    have at: "mem s scan = w" using at w(1) by simp
    obtain x s' where h: "gc_handle (handler w) scan w s = Some (Inr (scan + 1, store scan x s'))"
      "relocated h R qt s F os w x s'" using handled [OF cp good at w(2)] by blast
    then obtain F' os' ws' where g: "grown h R qt s F os s' F' os' ws'" and x: "x = new_word h F' w"
      and t: "\<And>a. target h w = Some a \<Longrightarrow> F' a \<noteq> None" unfolding relocated_def by blast
    note cp' = grownD(1) [OF g]
    have "contents h s' F' lo rl q"
    proof (rule contents_mono [OF old grownD(2) [OF g]])
      fix i assume "i < length rl"
      from place [OF this] show "mem s' (lo + i) = mem s (lo + i)" by (intro grownD(4) [OF g]) simp_all
    qed
    then have new: "contents h (store scan x s') F' lo rl (Suc q)"
      unfolding scan x by (rule contents_scanned [OF _ q w(1) t])
    have "gc_inv h R (store scan x s') F' os' ws' qt"
    proof (rule copied_store [OF cp'])
      show "\<not> in_from h scan" using place(1) [OF q] scan by simp
      show "contents h (store scan x s') F' (to_start h) os' qt"
        using place(2) [OF q] scan by (intro contents_other [OF gc_invD(9) [OF cp']]) simp
    qed (rule gc_invD(10,11) [OF cp'])+
    moreover have "kept h s0 F0 os0 (store scan x s') F' os' {lo..<lo + length rl}"
      using q by (intro kept_trans [OF k kept_grown [OF g]]) (simp add: scan)
    ultimately have "oldspace_walk h R s0 F0 os0 lo rl qt (scan + 1) (store scan x s')"
      unfolding oldspace_walk_def using new q w(4) by (intro exI [of _ F'] exI [of _ os'] exI [of _ ws'] exI [of _ "Suc q"]) (simp add: scan)
    then show ?thesis using h(1) c by (simp add: scan_word_eq [OF cc(3) at])
  qed
qed

theorem oldspace_scanned:
  assumes c: "gc_inv h R s F os ws qt" and old: "contents h s F lo rl 0" "parsed h rl"
    and below: "lo + length rl \<le> from_start h" and R: "\<And>w a. w \<in> traced rl \<Longrightarrow> target h w = Some a \<Longrightarrow> a \<in> R"
  shows "\<exists>s' F' os' ws'. gc_scan_oldspace lo (lo + length rl) s = Some (Inr ((), s'))
    \<and> gc_inv h R s' F' os' ws' qt \<and> contents h s' F' lo rl (length rl) \<and> kept h s F os s' F' os' {lo..<lo + length rl}"
proof -
  have start: "oldspace_walk h R s F os lo rl qt lo s"
    unfolding oldspace_walk_def using c old kept_refl by (intro exI [of _ F] exI [of _ os] exI [of _ ws] exI [of _ 0]) simp
  have step: "\<exists>scan' s'. scan_word scan s1 = Some (Inr (scan', s'))
    \<and> oldspace_walk h R s F os lo rl qt scan' s' \<and> lo + length rl - scan' < lo + length rl - scan"
    if "oldspace_walk h R s F os lo rl qt scan s1" "scan < lo + length rl" for scan s1
    by (rule oldspace_step [OF that below R])
  from gc_while_rule [where I = "oldspace_walk h R s F os lo rl qt" and c = "\<lambda>scan s. scan < lo + length rl" and b = scan_word
      and m = "\<lambda>scan s. lo + length rl - scan", OF start step]
  obtain scan s' where r: "run_gc_loop lo (\<lambda>_. lo + length rl) s = Some (Inr (scan, s'))"
    and I: "oldspace_walk h R s F os lo rl qt scan s'" and e: "\<not> scan < lo + length rl"
    unfolding run_gc_loop_def by blast
  then obtain F' os' ws' q' where f: "scan = lo + q'" "q' \<le> length rl" "gc_inv h R s' F' os' ws' qt" "contents h s' F' lo rl q'"
    "kept h s F os s' F' os' {lo..<lo + length rl}" unfolding oldspace_walk_def by blast
  moreover have "q' = length rl" using e f(1,2) by simp
  moreover have "gc_scan_oldspace lo (lo + length rl) s = Some (Inr ((), s'))" using r by (simp add: gc_scan_oldspace_def)
  ultimately show ?thesis by blast
qed

section \<open>Weak pairs\<close>

text \<open>Where the car of a moved weak pair is in tospace, and the state with some of them updated.\<close>

definition new_place :: "layout \<Rightarrow> (nat \<rightharpoonup> nat) \<Rightarrow> nat \<Rightarrow> nat" where
  "new_place h F a = to_start h + (the (F a) - new_start h)"

definition updated :: "layout \<Rightarrow> (nat \<rightharpoonup> nat) \<Rightarrow> gc_state \<Rightarrow> nat list \<Rightarrow> nat list \<Rightarrow> gc_state \<Rightarrow> bool" where
  "updated h F s ws1 ws2 s1 \<longleftrightarrow>
     (\<exists>m. s1 = s\<lparr>mem := m, weak_chain := first_of ws2\<rparr> \<and> (\<forall>a \<in> set ws1. m (new_place h F a) = new_weak_car h F a)
        \<and> (\<forall>d. d \<notin> new_place h F ` set ws1 \<longrightarrow> m d = mem s d))"

lemma MAKE_OBJECT_parts:
  assumes "uint t < 64" "uint d < 288230376151711744"
  shows "OBJECT_TYPE (MAKE_OBJECT t d) = t" "OBJECT_DATUM (MAKE_OBJECT t d) = d"
  using assms by simp_all

lemma retyped: "OBJECT_NEW_TYPE (OBJECT_TYPE x) (OBJECT_NEW_TYPE 0 x) = x"
proof -
  have "OBJECT_DATUM (OBJECT_NEW_TYPE 0 x) = OBJECT_DATUM x"
    unfolding OBJECT_NEW_TYPE_def using OBJECT_DATUM_bound [of x] by (intro MAKE_OBJECT_parts) simp_all
  then show ?thesis by (simp add: OBJECT_NEW_TYPE_def [of "OBJECT_TYPE x"] MAKE_OBJECT_collapse)
qed

lemma type_bound: "uint (OBJECT_TYPE x) < 64"
  using OBJECT_TYPE_bound [of x] by simp

lemma broken_heart_datum:
  assumes "addressable p"
  shows "MAKE_OBJECT_FROM_OBJECTS x (MAKE_BROKEN_HEART p) = OBJECT_NEW_ADDRESS x p"
proof -
  have "unat (word_of_nat p :: ulong) = p" using assms by (intro unat_of_nat64) (simp add: addressable_def)
  then have "uint (word_of_nat p :: ulong) < 288230376151711744" using assms by (simp add: uint_nat addressable_def)
  then have "OBJECT_DATUM (MAKE_BROKEN_HEART p) = word_of_nat p"
    unfolding MAKE_BROKEN_HEART_def MAKE_POINTER_OBJECT_def by (intro MAKE_OBJECT_parts(2)) simp_all
  then show ?thesis by (simp add: MAKE_OBJECT_FROM_OBJECTS_def OBJECT_NEW_ADDRESS_def OBJECT_NEW_DATUM_def)
qed

lemma link_fields:
  "OBJECT_TYPE (link_word h a None) = OBJECT_TYPE (old h a)" "OBJECT_DATUM (link_word h a None) = 0"
  "addressable b \<Longrightarrow> OBJECT_TYPE (link_word h a (Some b)) = OBJECT_TYPE (old h a)"
  "addressable b \<Longrightarrow> OBJECT_ADDRESS (link_word h a (Some b)) = b"
  using type_bound [of "old h a"] by (simp_all add: link_word_def)

lemma link_next:
  assumes "addressable b" "0 < b"
  shows "OBJECT_DATUM (link_word h a (Some b)) \<noteq> 0"
  using link_fields(4) [OF assms(1), of h a] assms(2) by (auto simp: OBJECT_ADDRESS_def)

lemma weak_member:
  assumes "gc_inv h R s F os ws q" "a \<in> set ws"
  shows "weak_car h a" "F a = Some (the (F a))" "blocks h a = Some Weak_Block" "addressable a" "0 < a" "in_from h a" "in_from h (Suc a)"
proof -
  note c = gc_invD [OF assms(1)]
  have "a \<in> {a \<in> dom F. weak_car h a}" using assms(2) c(8) unfolding chained_def by blast
  then show w: "weak_car h a" and "F a = Some (the (F a))" by auto
  then show b: "blocks h a = Some Weak_Block" by (simp add: weak_car_def)
  show i: "in_from h a" by (rule blockD(7) [OF c(1) b])
  then show "addressable a" "0 < a" using c(1) by (auto simp: heap_ok_def in_from_def addressable_def)
  show "in_from h (Suc a)" by (rule weak_second_word [OF c(1) w])
qed

lemma new_place_inj:
  assumes c: "gc_inv h R s F os ws q" and a: "a \<in> set ws" "b \<in> set ws" "a \<noteq> b"
  shows "new_place h F a \<noteq> new_place h F b"
proof -
  note wa = weak_member [OF c a(1)] and wb = weak_member [OF c a(2)]
  have "size_at h a = 2" "size_at h b = 2" using wa(3) wb(3) by (simp_all add: size_at_def)
  moreover have "the (F a) + size_at h a \<le> the (F b) \<or> the (F b) + size_at h b \<le> the (F a)"
    using gc_invD(6) [OF c, unfolded apart_def, rule_format, OF wa(2) wb(2) a(3)] .
  moreover have "new_start h \<le> the (F a)" "new_start h \<le> the (F b)"
    using moved_address(3) [OF c wa(2)] moved_address(3) [OF c wb(2)] by simp_all
  ultimately show ?thesis unfolding new_place_def by linarith
qed

lemma weak_car_word:
  assumes c: "gc_inv h R s F os ws (length os)" and a: "a \<in> set ws"
  shows "mem s (new_place h F a) = OBJECT_NEW_TYPE 0 (old h a)"
proof -
  note w = weak_member [OF c a] and cc = gc_invD [OF c]
  let ?i = "the (F a) - new_start h"
  have sz: "size_at h a = 2" using w(3) by (simp add: size_at_def)
  have i: "?i < length os" using moved_address(3,4) [OF c w(2)] sz by linarith
  have "os ! (?i + 0) = image_of h a ! 0"
    using cc(5) [unfolded moved_ok_def, rule_format, OF w(2)] sz by (metis zero_less_numeral)
  then have o: "os ! ?i = (OBJECT_NEW_TYPE 0 (old h a), True)" by (simp add: image_of_weak [OF w(3)] w(1))
  show ?thesis using cc(9) [unfolded contents_def, rule_format, OF i] i o by (simp add: new_place_def)
qed

lemma forwarded:
  assumes c: "gc_inv h R s F os ws q" and a: "weak_car h a" and m: "\<And>d. in_from h d \<Longrightarrow> mem s1 d = mem s d"
  shows "weak_referent_forward (old h a) GC_RECLAIMED s1 = Some (Inr (new_weak_car h F a, s1))"
proof -
  note cc = gc_invD [OF c]
  let ?c = "OBJECT_ADDRESS (old h a)"
  have w: "blocks h a = Some Weak_Block" "gc_ptr_type (old h a) = GC_POINTER_NORMAL" "in_from h ?c"
    using a by (simp_all add: weak_car_def)
  have "blocks h ?c \<noteq> None" using block_ok_of [OF cc(1) w(1)] a by (simp add: block_ok_def)
  then obtain b where b: "blocks h ?c = Some b" by blast
  show ?thesis
  proof (cases "F ?c")
    case None
    have "mem s1 ?c = old h ?c" using copied_word [OF c b None, of 0] blockD [OF cc(1) b] m w(3) by simp
    then show ?thesis using blockD(4) [OF cc(1) b] w(2) None a by (simp add: weak_referent_forward_def new_weak_car_def)
  next
    case (Some p)
    note ma = moved_address [OF c Some]
    show ?thesis
      using ma(1,2) m [OF w(3)] w(2) Some a
      by (simp add: weak_referent_forward_def new_weak_car_def broken_heart_datum)
  qed
qed

lemma update_step:
  assumes c: "gc_inv h R s F os (ws1 @ a # ws2) (length os)" and u: "updated h F s ws1 (a # ws2) s1"
  shows "\<exists>s2. update_weak_pair () s1 = Some (Inr ((), s2)) \<and> updated h F s (ws1 @ [a]) ws2 s2"
proof -
  let ?ws = "ws1 @ a # ws2"
  note cc = gc_invD [OF c]
  obtain m where s1: "s1 = s\<lparr>mem := m, weak_chain := Some a\<rparr>"
    and upd: "\<And>b. b \<in> set ws1 \<Longrightarrow> m (new_place h F b) = new_weak_car h F b"
    and rest: "\<And>d. d \<notin> new_place h F ` set ws1 \<Longrightarrow> m d = mem s d"
    using u by (auto simp: updated_def first_of_def)
  have a: "a \<in> set ?ws" by simp
  note w = weak_member [OF c a]
  have order: "from_end h \<le> to_start h" using cc(3) by (simp add: config_def)
  have old_words: "m d = mem s d" if "in_from h d" for d
    using that order by (intro rest) (auto simp: new_place_def in_from_def)
  have "distinct ?ws" using cc(8) unfolding chained_def by blast
  then have notin: "a \<notin> set ws1" by simp
  have other: "new_place h F b \<noteq> new_place h F a" if "b \<in> set ws1" for b
    using that notin by (intro new_place_inj [OF c]) auto
  have place: "m (new_place h F a) = OBJECT_NEW_TYPE 0 (old h a)"
    using rest [of "new_place h F a"] weak_car_word [OF c a] other by fastforce
  obtain p where p: "F a = Some p" using w(2) by blast
  note ma = moved_address [OF c p]
  have heart: "OBJECT_ADDRESS (m a) = p" using ma(1,2) old_words [OF w(6)] by simp
  have "links h s ?ws" using cc(8) unfolding chained_def by blast
  then have "mem s (Suc a) = link_word h a (first_of ws2)" by (induction ws1) simp_all
  then have obj: "m (Suc a) = link_word h a (first_of ws2)" using old_words [OF w(7)] by simp
  have to: "NEWSPACE_TO_TOSPACE s1 p = new_place h F a"
    using cc(3) p by (simp add: s1 NEWSPACE_TO_TOSPACE_def new_place_def config_def)
  have obj_type: "OBJECT_TYPE (link_word h a (first_of ws2)) = OBJECT_TYPE (old h a)"
    and obj_next: "(if OBJECT_DATUM (link_word h a (first_of ws2)) = 0 then None
      else Some (OBJECT_ADDRESS (link_word h a (first_of ws2)))) = first_of ws2"
  proof -
    show "OBJECT_TYPE (link_word h a (first_of ws2)) = OBJECT_TYPE (old h a)"
      using weak_member(4) [OF c, of "hd ws2"] link_fields(1,3) by (cases ws2) (simp_all add: first_of_def)
    show "(if OBJECT_DATUM (link_word h a (first_of ws2)) = 0 then None
      else Some (OBJECT_ADDRESS (link_word h a (first_of ws2)))) = first_of ws2"
      using weak_member(4,5) [OF c, of "hd ws2"] link_fields(2,4) link_next by (cases ws2) (simp_all add: first_of_def)
  qed
  have car: "OBJECT_NEW_TYPE (OBJECT_TYPE (m (Suc a))) (READ_TOSPACE s1 p) = old h a"
    using place retyped [of "old h a"] by (simp add: obj obj_type READ_TOSPACE_def to) (simp add: s1)
  have fwd: "weak_referent_forward (old h a) GC_RECLAIMED s1 = Some (Inr (new_weak_car h F a, s1))"
    by (rule forwarded [OF c w(1)]) (simp add: s1 old_words)
  let ?s2 = "s\<lparr>mem := m(new_place h F a := new_weak_car h F a), weak_chain := first_of ws2\<rparr>"
  have fields: "the (weak_chain s1) = a" "mem s1 = m" by (simp_all add: s1)
  have "update_weak_pair () s1 = Some (Inr ((), ?s2))"
    unfolding update_weak_pair_def Let_def fields heart obj [unfolded Suc_eq_plus1] obj_next car [unfolded obj]
    using fwd by (simp add: WRITE_TOSPACE_eq to) (simp add: s1 store_def)
  moreover have "updated h F s (ws1 @ [a]) ws2 ?s2"
    unfolding updated_def
    by (intro exI [of _ "m(new_place h F a := new_weak_car h F a)"]) (use upd rest other in auto)
  ultimately show ?thesis by blast
qed

lemma update_loop:
  assumes "gc_inv h R s F os (ws1 @ ws2) (length os)" "updated h F s ws1 ws2 s1"
  shows "\<exists>s2. update_weak_pairs s1 = Some (Inr ((), s2)) \<and> updated h F s (ws1 @ ws2) [] s2"
  using assms
proof (induction ws2 arbitrary: ws1 s1)
  case Nil
  then have "weak_chain s1 = None" by (auto simp: updated_def first_of_def)
  then show ?case using Nil by (simp add: update_weak_pairs_def gc_while.simps)
next
  case (Cons a ws2)
  have chain: "weak_chain s1 = Some a" using Cons.prems(2) by (auto simp: updated_def first_of_def)
  obtain s2 where s2: "update_weak_pair () s1 = Some (Inr ((), s2))" "updated h F s (ws1 @ [a]) ws2 s2"
    using update_step [OF Cons.prems] by blast
  have "gc_inv h R s F os ((ws1 @ [a]) @ ws2) (length os)" using Cons.prems(1) by simp
  from Cons.IH [OF this s2(2)] show ?case
    using s2(1) chain unfolding update_weak_pairs_def by (subst gc_while.simps) simp
qed

theorem weak_pairs_updated:
  assumes "gc_inv h R s F os ws (length os)"
  shows "\<exists>s'. update_weak_pairs s = Some (Inr ((), s')) \<and> updated h F s ws [] s'"
proof -
  have "weak_chain s = first_of ws" using gc_invD(8) [OF assms] unfolding chained_def by blast
  then have "updated h F s [] ws s" unfolding updated_def by (intro exI [of _ "mem s"]) simp
  from update_loop [of h R s F os "[]" ws, OF _ this] assms show ?thesis by simp
qed

end
