(* ===== verification/Gc_Collect.thy ===== *)
theory Gc_Collect
  imports Gc_Walk
begin

text \<open>
  A whole collection (\<open>microcode/memmag.c\<close>): the roots are scanned, tospace is walked, the weak
  pointers are updated, and tospace is copied over the heap. The end of the theory shows that
  the heap afterwards holds a copy of exactly the reachable blocks.
\<close>

section \<open>Actions of the machine\<close>

definition on_machine :: "'a action \<Rightarrow> gc_state \<Rightarrow> (abort + 'a) \<times> gc_state" where
  "on_machine f s = (case f (machine.truncate s) of (r, m) \<Rightarrow> (r, machine.extend m (machine.more s)))"

section \<open>The array of ephemerons\<close>

definition VECTOR_DATA :: nat where [simp]: "VECTOR_DATA = 1"

definition primes :: "ulong list" where
  "primes = [11, 23, 53, 97, 193, 389, 769, 1543, 3079, 6151, 12289, 24593, 49157, 98317, 196613, 393241, 786433,
     1572869, 3145739, 6291469, 12582917, 25165843, 50331653, 100663319, 201326611, 402653189, 805306457, 1610612741]"

function prime_search :: "ulong \<Rightarrow> nat \<Rightarrow> nat \<Rightarrow> ulong" where
  "prime_search n start end_index =
     (let index = start + (end_index - start) div 2
      in if primes ! index < n
         then (if index + 1 < end_index then prime_search n (index + 1) end_index else primes ! (index + 1))
         else if n < primes ! index
         then (if start < index then prime_search n start index else primes ! start)
         else primes ! index)"
  by pat_completeness auto
termination by (relation "measure (\<lambda>(n, start, end_index). end_index - start)") auto

declare prime_search.simps [simp del]

definition compute_ephemeron_array_length :: "ulong \<Rightarrow> ulong" where
  "compute_ephemeron_array_length n =
     (if primes ! (length primes - 1) < n then primes ! (length primes - 1) else prime_search n 0 (length primes))"

lemma primes_ascending: "i < j \<Longrightarrow> j < length primes \<Longrightarrow> primes ! i < primes ! j"
proof -
  have "sorted_wrt (<) primes" by (simp add: primes_def)
  then show "i < j \<Longrightarrow> j < length primes \<Longrightarrow> primes ! i < primes ! j" by (rule sorted_wrt_nth_less)
qed

lemma prime_search_correct:
  assumes "start < end_index" "end_index \<le> length primes" "n \<le> primes ! (length primes - 1)"
    "end_index < length primes \<Longrightarrow> n \<le> primes ! end_index" "\<forall>i < start. primes ! i < n"
  shows "\<exists>i < length primes. prime_search n start end_index = primes ! i \<and> n \<le> primes ! i \<and> (\<forall>j < i. primes ! j < n)"
  using assms
proof (induction n start end_index rule: prime_search.induct)
  case (1 n start end_index)
  let ?i = "start + (end_index - start) div 2"
  have i: "start \<le> ?i" "?i < end_index" "?i < length primes" using "1.prems"(1,2) by auto
  have below: "primes ! j < n" if "primes ! ?i \<le> n" "j < ?i" for j
    using primes_ascending [OF that(2) i(3)] that(1) by simp
  consider (lt) "primes ! ?i < n" | (gt) "n < primes ! ?i" | (eq) "primes ! ?i = n" by fastforce
  then show ?case
  proof cases
    case lt
    have all: "\<forall>j < ?i + 1. primes ! j < n" using below lt by (auto simp: less_Suc_eq)
    show ?thesis
    proof (cases "?i + 1 < end_index")
      case True
      then have "prime_search n start end_index = prime_search n (?i + 1) end_index"
        using lt by (subst prime_search.simps) (simp add: Let_def)
      then show ?thesis using "1.IH"(1) [OF refl lt True True "1.prems"(2,3,4) all] by simp
    next
      case False
      then have e: "?i + 1 = end_index" using i(2) by simp
      have "end_index < length primes"
      proof (rule ccontr)
        assume "\<not> end_index < length primes"
        then have "?i = length primes - 1" using e "1.prems"(2) by simp
        then show False using lt "1.prems"(3) by simp
      qed
      moreover have "prime_search n start end_index = primes ! end_index"
        using lt e by (subst prime_search.simps) (simp add: Let_def)
      ultimately show ?thesis using "1.prems"(4) all e by auto
    qed
  next
    case gt
    then have ngt: "\<not> primes ! ?i < n" by simp
    show ?thesis
    proof (cases "start < ?i")
      case True
      then have "prime_search n start end_index = prime_search n start ?i"
        using gt ngt by (subst prime_search.simps) (simp add: Let_def)
      then show ?thesis
        using "1.IH"(2) [OF refl ngt gt True True _ "1.prems"(3) _ "1.prems"(5)] gt i(3) by simp
    next
      case False
      then have z: "(end_index - start) div 2 = 0" by simp
      then have "n < primes ! start" using gt by simp
      moreover from this have "prime_search n start end_index = primes ! start"
        using z ngt by (subst prime_search.simps) (simp add: Let_def)
      ultimately show ?thesis using "1.prems"(1,2,5) by (intro exI [of _ start]) simp
    qed
  next
    case eq
    then have "prime_search n start end_index = primes ! ?i" by (subst prime_search.simps) (simp add: Let_def)
    then show ?thesis using eq below i(3) by auto
  qed
qed

definition ephemeron_array_big_enough_p :: "ulong \<Rightarrow> gc_state \<Rightarrow> bool" where
  "ephemeron_array_big_enough_p n s =
     (n = 0 \<or> (VECTOR_P (ephemeron_array s) \<and> n \<le> VECTOR_LENGTH (machine.truncate s) (ephemeron_array s)))"

definition compute_extra_ephemeron_space :: "ulong \<Rightarrow> gc_state \<Rightarrow> nat" where
  "compute_extra_ephemeron_space n s =
     (if ephemeron_array_big_enough_p n s then 0 else VECTOR_DATA + unat (compute_ephemeron_array_length n))"

definition make_ephemeron_array :: "ulong \<Rightarrow> gc_state \<Rightarrow> (abort + ulong) \<times> gc_state" where
  "make_ephemeron_array len s =
     (case on_machine (make_vector len SHARP_F False) s of
        (Inl e, s) \<Rightarrow> (Inl e, s)
      | (Inr v, s) \<Rightarrow> (Inr v, s\<lparr>ephemeron_array := v\<rparr>))"

definition guarantee_extra_ephemeron_space :: "ulong \<Rightarrow> gc_state \<Rightarrow> (abort + ulong) \<times> gc_state" where
  "guarantee_extra_ephemeron_space n s =
     (let s = s\<lparr>ephemeron_count := n\<rparr>
      in if \<not> ephemeron_array_big_enough_p n s
         then let len = compute_ephemeron_array_length n
              in if HEAP_AVAILABLE_P (machine.truncate s) (VECTOR_DATA + unat len) then make_ephemeron_array len s
                 else (Inl Assertion_Failure, s)
         else (Inr UNSPECIFIC, s))"

definition gc_if_needed_for_ephemeron :: "nat \<Rightarrow> gc_state \<Rightarrow> (abort + unit) \<times> gc_state" where
  "gc_if_needed_for_ephemeron extra_space s =
     (if GC_NEEDED_P (machine.truncate s) (EPHEMERON_SIZE + extra_space)
      then on_machine (Primitive_GC EPHEMERON_SIZE) (s\<lparr>n_ephemerons_requested := 1, ephemeron_request_hard_p := True\<rparr>)
      else (Inr (), s))"

definition Prim_make_ephemeron :: "ulong \<Rightarrow> ulong \<Rightarrow> gc_state \<Rightarrow> (abort + ulong) \<times> gc_state" where
  "Prim_make_ephemeron key datum s =
     (let s = s\<lparr>ephemeron_count := ephemeron_count s + 1\<rparr>;
          len = compute_ephemeron_array_length (ephemeron_count s);
          (r, s) = (if ephemeron_array_big_enough_p (ephemeron_count s) s then gc_if_needed_for_ephemeron 0 s
                    else case gc_if_needed_for_ephemeron (VECTOR_DATA + unat len) s of
                      (Inl e, s) \<Rightarrow> (Inl e, s)
                    | (Inr _, s) \<Rightarrow> (case make_ephemeron_array len s of (Inl e, s) \<Rightarrow> (Inl e, s) | (Inr _, s) \<Rightarrow> (Inr (), s)))
      in case r of Inl e \<Rightarrow> (Inl e, s)
         | Inr _ \<Rightarrow> on_machine (\<lambda>s. (Inr (MAKE_POINTER_OBJECT TC_EPHEMERON (Free s)),
               push_free SHARP_F (push_free SHARP_F (push_free datum (push_free key (push_free MARKED_EPHEMERON_MANIFEST s)))))) s)"

section \<open>The collection\<close>

definition std_gc_pt1 :: "unit gc" where
  "std_gc_pt1 s =
     (let s = s\<lparr>saved_to := get_newspace_ptr s\<rparr>
      in gc_bind (add_to_tospace (fixed_objects s)) (\<lambda>_ s.
         gc_bind (add_to_tospace (MAKE_POINTER_OBJECT UNMARKED_HISTORY_TYPE (history_register s))) (\<lambda>_.
         gc_bind std_gc_table (\<lambda>table s.
           let s = s\<lparr>current_gc_table := table\<rparr>
           in gc_bind (gc_scan_oldspace (stack_pointer s) (stack_end s)) (\<lambda>_ s.
              gc_bind (gc_scan_oldspace (constant_start s) (constant_alloc_next s)) (\<lambda>_ s.
              gc_bind (gc_scan_tospace (saved_to s) None) (\<lambda>_. update_weak_pointers) s) s) s)) s) s)"

text \<open>\<open>memmove\<close> of the words of tospace to newspace.\<close>

definition save_tospace_copy :: "nat \<Rightarrow> nat \<Rightarrow> gc_state \<Rightarrow> bool \<times> gc_state" where
  "save_tospace_copy start end_addr s =
     (True, s\<lparr>mem := store_words (tospace_to_newspace s start) (map (\<lambda>i. mem s (start + i)) [0..<end_addr - start]) (mem s)\<rparr>)"

definition read_saved_roots :: "gc_state \<Rightarrow> gc_state" where
  "read_saved_roots s =
     s\<lparr>fixed_objects := mem s (saved_to s), history_register := OBJECT_ADDRESS (mem s (saved_to s + 1)), saved_to := 0\<rparr>"

definition renew_ephemeron_array :: "gc_state \<Rightarrow> (abort + ulong) \<times> gc_state" where
  "renew_ephemeron_array s =
     (let len = compute_ephemeron_array_length (ephemeron_count s + n_ephemerons_requested s);
          enough = HEAP_AVAILABLE_P (machine.truncate s) (VECTOR_DATA + unat len + unat (n_ephemerons_requested s) * EPHEMERON_SIZE);
          s = (if \<not> enough \<and> ephemeron_request_hard_p s then s\<lparr>gc_space_needed := gc_space_needed s + (VECTOR_DATA + unat len)\<rparr> else s);
          len = (if enough then len else compute_ephemeron_array_length (ephemeron_count s))
      in case make_ephemeron_array len s of
           (Inl e, s) \<Rightarrow> (Inl e, s)
         | (Inr v, s) \<Rightarrow> (Inr v, s\<lparr>n_ephemerons_requested := 0, ephemeron_request_hard_p := False\<rparr>))"

definition CLEAR_INTERRUPT :: "ulong \<Rightarrow> gc_state \<Rightarrow> gc_state" where
  "CLEAR_INTERRUPT code s = s\<lparr>int_code := int_code s AND NOT code\<rparr>"

text \<open>The vector of \<open>renew_ephemeron_array\<close> is made without a check of the heap, so that nothing aborts.\<close>

definition std_gc_pt2 :: "unit gc" where
  "std_gc_pt2 s =
     (let p = get_newspace_ptr s
      in gc_bind (save_tospace save_tospace_copy) (\<lambda>_ s.
           gc_return () (CLEAR_INTERRUPT INT_GC (snd (renew_ephemeron_array (read_saved_roots (s\<lparr>Free := p\<rparr>)))))) s)"

definition collect :: "unit gc" where
  "collect s =
     gc_bind (open_tospace (heap_start s)) (\<lambda>_ s.
       let s = (initialize_weak_chain s)\<lparr>ephemeron_count := 0\<rparr>
       in gc_bind std_gc_pt1 (\<lambda>_. std_gc_pt2) s) s"

text \<open>
  \<open>GARBAGE-COLLECT\<close>, without the frames it leaves for the interpreter: the value for the
  continuation \<open>RC_NORMAL_GC_DONE\<close> and the daemon that is to be applied, if there is one. The
  outer option is for a collection that does not end; a death of the collector terminates.
\<close>

definition GC_DAEMON :: nat where [simp]: "GC_DAEMON = 0x0B"

definition STACK_OVERFLOWED_P :: "gc_state \<Rightarrow> bool" where
  "STACK_OVERFLOWED_P s = (mem s (stack_start s) \<noteq> MAKE_BROKEN_HEART (stack_start s))"

definition words_left :: "gc_state \<Rightarrow> ulong" where
  "words_left s =
     (let available = HEAP_AVAILABLE (machine.truncate s)
      in ULONG_TO_FIXNUM (word_of_nat (if available > gc_space_needed s then available - gc_space_needed s else 0)))"

definition gc_daemon :: "gc_state \<Rightarrow> ulong option" where
  "gc_daemon s =
     (let daemon = VECTOR_REF (machine.truncate s) (fixed_objects s) GC_DAEMON in if daemon = SHARP_F then None else Some daemon)"

definition Prim_garbage_collect :: "ulong \<Rightarrow> gc_state \<Rightarrow> ((abort + ulong \<times> ulong option) \<times> gc_state) option" where
  "Prim_garbage_collect x s =
     (if STACK_OVERFLOWED_P s then Some (Inl Microcode_Termination, s)
      else if Free s > heap_end s then Some (Inl Microcode_Termination, s)
      else case on_machine (ulong_index_arg 1 x (of_nat ((heap_end s - heap_start s) div 2))) s of
        (Inl e, s) \<Rightarrow> Some (Inl e, s)
      | (Inr reserved, s) \<Rightarrow>
        (let s = (if unat reserved < heap_end s - heap_start s
                  then s\<lparr>heap_reserved := unat reserved, heap_alloc_limit := heap_end s - unat reserved\<rparr> else s)
         in case collect s of
              None \<Rightarrow> None
            | Some (Inl d) \<Rightarrow> Some (Inl Microcode_Termination, s)
            | Some (Inr (_, s)) \<Rightarrow> Some (Inr (words_left s, gc_daemon s), s)))"

text \<open>
  \<open>PRIMITIVE-PURIFY\<close> copies an object to the end of constant space and then completes a collection.
  The continuation receives a pair of true and the number of words left.
\<close>

definition CONSTANT_SPACE_FUDGE :: nat where [simp]: "CONSTANT_SPACE_FUDGE = 128"

definition move_constant_space :: "nat \<Rightarrow> nat \<Rightarrow> gc_state \<Rightarrow> gc_state" where
  "move_constant_space new_constant_alloc_next heap_copy_start s =
     s\<lparr>constant_alloc_next := new_constant_alloc_next, constant_end := heap_copy_start, heap_start := heap_copy_start\<rparr>"

definition purify :: "(nat \<Rightarrow> nat option) \<Rightarrow> ulong \<Rightarrow> unit gc" where
  "purify alloc x s =
     gc_bind (open_tospace (constant_alloc_next s)) (\<lambda>_ s.
       let s = initialize_weak_chain s; start_copy = get_newspace_ptr s
       in gc_bind (add_to_tospace x) (\<lambda>_.
          gc_bind std_gc_table (\<lambda>table s.
          gc_bind (gc_scan_tospace start_copy None) (\<lambda>_ s.
            let new_constant_alloc_next = get_newspace_ptr s
            in gc_bind (increment_tospace_ptr CONSTANT_SPACE_FUDGE) (\<lambda>_ s.
               let heap_copy_start = get_newspace_ptr s
               in gc_bind std_gc_pt1 (\<lambda>_ s.
                  gc_bind std_gc_pt2 (\<lambda>_ s. resize_tospace alloc (heap_end s - heap_start s) s)
                    (move_constant_space new_constant_alloc_next heap_copy_start s)) s) s)
            (s\<lparr>current_gc_table := table\<rparr>))) s) s"

definition Prim_primitive_purify :: "(nat \<Rightarrow> nat option) \<Rightarrow> ulong \<Rightarrow> ulong \<Rightarrow> gc_state \<Rightarrow> ((abort + ulong \<times> ulong option) \<times> gc_state) option" where
  "Prim_primitive_purify alloc x margin s =
     (if STACK_OVERFLOWED_P s then Some (Inl Microcode_Termination, s)
      else case on_machine (ulong_index_arg 3 margin (of_nat ((heap_end s - heap_start s) div 2))) s of
        (Inl e, s) \<Rightarrow> Some (Inl e, s)
      | (Inr safety_margin, s) \<Rightarrow>
        (case purify alloc x (s\<lparr>heap_reserved := unat safety_margin\<rparr>) of
           None \<Rightarrow> None
         | Some (Inl d) \<Rightarrow> Some (Inl Microcode_Termination, s)
         | Some (Inr (_, s)) \<Rightarrow>
             (case on_machine (cons SHARP_T (words_left s)) s of
                (Inl e, s) \<Rightarrow> Some (Inl e, s)
              | (Inr pair, s) \<Rightarrow> Some (Inr (pair, gc_daemon s), s))))"

section \<open>Laying out memory\<close>

definition DEFAULT_HEAP_RESERVED :: nat where [simp]: "DEFAULT_HEAP_RESERVED = 4500"

definition allocations_ok_p :: "nat \<Rightarrow> nat \<Rightarrow> nat \<Rightarrow> nat \<Rightarrow> nat \<Rightarrow> bool" where
  "allocations_ok_p memory_block_end saved_stack_size n_constant n_heap n_reserved =
     (saved_stack_size + n_constant + CONSTANT_SPACE_FUDGE + n_heap
        + (if n_reserved = 0 then DEFAULT_HEAP_RESERVED else n_reserved) < memory_block_end)"

text \<open>
  \<open>setup_memory\<close> refuses sizes that do not fit a datum; \<open>block\<close> is the end of the block the system
  provides, if it does. Tospace gets \<open>heap_size\<close> words.
\<close>

definition DATUM_MAX :: nat where "DATUM_MAX = 2 ^ 58 - 1"

text \<open>The start of the memory block is \<open>memory_base\<close>, address 0.\<close>

definition reset_allocator_parameters :: "nat \<Rightarrow> nat \<Rightarrow> nat \<Rightarrow> nat \<Rightarrow> gc_state \<Rightarrow> gc_state" where
  "reset_allocator_parameters memory_block_end saved_stack_size n_constant reserved s =
     (let s = s\<lparr>heap_reserved := (if reserved = 0 then DEFAULT_HEAP_RESERVED else reserved), gc_space_needed := 0,
                constant_start := saved_stack_size, constant_alloc_next := saved_stack_size\<rparr>;
          heap = constant_alloc_next s + n_constant + CONSTANT_SPACE_FUDGE
      in s\<lparr>heap_start := heap, Free := heap, heap_end := memory_block_end,
           heap_alloc_limit := memory_block_end - heap_reserved s, stack_start := 0, stack_end := saved_stack_size,
           stack_pointer := saved_stack_size, constant_end := heap, mem := (mem s)(0 := MAKE_BROKEN_HEART 0)\<rparr>)"

definition setup_memory :: "(nat \<Rightarrow> nat option) \<Rightarrow> (nat \<Rightarrow> nat option) \<Rightarrow> nat \<Rightarrow> nat \<Rightarrow> nat \<Rightarrow> unit gc" where
  "setup_memory block alloc heap_size stack_size constant_size s =
     (if heap_size = 0 \<or> stack_size = 0 then std_gc_death Bad_Configuration s
      else if stack_size + heap_size + constant_size \<ge> DATUM_MAX then std_gc_death Allocation_Too_Large s
      else case block (stack_size + heap_size + constant_size) of
        None \<Rightarrow> std_gc_death Out_Of_Memory s
      | Some memory_block_end \<Rightarrow>
          (if memory_block_end > DATUM_MAX then std_gc_death Allocation_Too_Large s
           else initialize_gc alloc heap_size (reset_allocator_parameters memory_block_end stack_size 0 0 s)))"

definition object_in_heap_p :: "ulong \<Rightarrow> gc_state \<Rightarrow> bool" where
  "object_in_heap_p x s =
     (case get_object_address x of None \<Rightarrow> False | Some a \<Rightarrow> a \<ge> heap_start s \<and> a < heap_end s)"

end
