(* ===== verification/Gc_Correct.thy ===== *)
theory Gc_Correct
  imports Gc_Collect
begin

text \<open>
  Correctness of a whole collection: from a well-formed heap it returns, moves exactly the
  blocks reachable from the roots, to disjoint places from the start of the heap on, and
  every root and every marked word refers to the copy of what it referred to. A weak pair
  keeps its car if the object is reachable otherwise.
\<close>

section \<open>The heap before the collection\<close>

definition history_word :: "gc_state \<Rightarrow> ulong" where
  "history_word s = MAKE_POINTER_OBJECT UNMARKED_HISTORY_TYPE (history_register s)"

definition started :: "gc_state \<Rightarrow> gc_state" where
  "started s = s\<lparr>tospace_open_p := True, tospace_next := tospace_start s, newspace_start := heap_start s,
     newspace_next := heap_start s, newspace_end := heap_start s + (tospace_end s - tospace_start s), weak_chain := None,
     ephemeron_count := 0, saved_to := heap_start s, current_gc_table := std_table\<rparr>"

definition layout_of :: "gc_state \<Rightarrow> (nat \<Rightarrow> block option) \<Rightarrow> layout" where
  "layout_of s B = \<lparr>old = mem s, from_start = heap_start s, from_end = Free s, blocks = B, to_start = tospace_start s,
     new_start = heap_start s, prefix_words = 2, frame = fixed_part (started s)\<rparr>"

text \<open>A range of memory as marked words.\<close>

definition range_ok :: "layout \<Rightarrow> gc_state \<Rightarrow> nat \<Rightarrow> nat \<Rightarrow> marked_words \<Rightarrow> bool" where
  "range_ok h s lo hi rl \<longleftrightarrow> lo + length rl = hi \<and> parsed h rl \<and> (\<forall>i < length rl. mem s (lo + i) = fst (rl ! i))"

definition ready :: "gc_state \<Rightarrow> (nat \<Rightarrow> block option) \<Rightarrow> marked_words \<Rightarrow> marked_words \<Rightarrow> bool" where
  "ready s B st cs \<longleftrightarrow>
     (let h = layout_of s B
      in heap_ok h \<and> \<not> tospace_open_p s \<and> \<not> scanning_ephemerons_p s \<and> memory_base s AND 7 = 0
         \<and> ephemeron_list s = SHARP_F \<and> ephemeron_queue s = SHARP_F
         \<and> Free s \<le> tospace_start s \<and> tospace_start s \<le> tospace_end s \<and> Free s + 2 < 2 ^ 58
         \<and> stack_end s \<le> constant_start s \<and> constant_alloc_next s \<le> heap_start s
         \<and> range_ok h s (stack_pointer s) (stack_end s) st \<and> range_ok h s (constant_start s) (constant_alloc_next s) cs
         \<and> good_word h (fixed_objects s) \<and> good_word h (history_word s))"

definition root_words :: "gc_state \<Rightarrow> marked_words \<Rightarrow> marked_words \<Rightarrow> ulong set" where
  "root_words s st cs = {fixed_objects s, history_word s} \<union> traced st \<union> traced cs"

definition rooted :: "gc_state \<Rightarrow> gc_state" where
  "rooted s = push_tospace (history_word s) (push_tospace (fixed_objects s) (started s))"

definition root_prefix :: "gc_state \<Rightarrow> marked_words" where
  "root_prefix s = [(fixed_objects s, True), (history_word s, True)]"

lemma readyD:
  assumes "ready s B st cs"
  shows "heap_ok (layout_of s B)" "\<not> tospace_open_p s" "\<not> scanning_ephemerons_p s" "memory_base s AND 7 = 0"
    "ephemeron_list s = SHARP_F" "ephemeron_queue s = SHARP_F"
    "Free s \<le> tospace_start s" "tospace_start s \<le> tospace_end s" "Free s + 2 < 2 ^ 58"
    "stack_end s \<le> constant_start s" "constant_alloc_next s \<le> heap_start s"
    "range_ok (layout_of s B) s (stack_pointer s) (stack_end s) st"
    "range_ok (layout_of s B) s (constant_start s) (constant_alloc_next s) cs"
    "good_word (layout_of s B) (fixed_objects s)" "good_word (layout_of s B) (history_word s)"
  using assms by (simp_all add: ready_def Let_def)

lemma layout_of_simps [simp]:
  "old (layout_of s B) = mem s" "from_start (layout_of s B) = heap_start s" "from_end (layout_of s B) = Free s"
  "blocks (layout_of s B) = B" "to_start (layout_of s B) = tospace_start s" "new_start (layout_of s B) = heap_start s"
  "prefix_words (layout_of s B) = 2" "frame (layout_of s B) = fixed_part (started s)"
  by (simp_all add: layout_of_def)

lemma closed_reach: "closed_set h (reach h r)"
  unfolding closed_set_def by (blast intro: reach_step)

lemma fixed_part_fields:
  assumes "fixed_part s = fixed_part s'"
  shows "saved_to s = saved_to s'" "constant_start s = constant_start s'" "constant_alloc_next s = constant_alloc_next s'"
    "ephemeron_list s = ephemeron_list s'" "ephemeron_queue s = ephemeron_queue s'" "tospace_end s = tospace_end s'"
    "stack_pointer s = stack_pointer s'" "stack_end s = stack_end s'" "n_ephemerons_requested s = n_ephemerons_requested s'"
    "heap_end s = heap_end s'"
  using assms unfolding fixed_part_def
  by (auto dest: arg_cong [where f = saved_to] arg_cong [where f = constant_start] arg_cong [where f = constant_alloc_next]
      arg_cong [where f = ephemeron_list] arg_cong [where f = ephemeron_queue] arg_cong [where f = tospace_end]
      arg_cong [where f = stack_pointer] arg_cong [where f = stack_end] arg_cong [where f = n_ephemerons_requested]
      arg_cong [where f = heap_end])

lemma rooted_mem:
  "mem (rooted s) = (mem s)(tospace_start s := fixed_objects s, Suc (tospace_start s) := history_word s)"
  "tospace_next (rooted s) = tospace_start s + 2" "newspace_next (rooted s) = heap_start s + 2"
  by (simp_all add: rooted_def started_def)

lemma config_rooted:
  assumes "ready s B st cs"
  shows "config (layout_of s B) (rooted s)"
proof -
  note r = readyD [OF assms]
  have "heap_start s \<le> Free s" using r(1) by (simp add: heap_ok_def)
  then have "heap_start s + 2 + (Free s - heap_start s) < 2 ^ 58" using r(9) by simp
  then show ?thesis using r(3,4,7) by (simp add: config_def rooted_def started_def push_tospace_def store_def fixed_part_def)
qed

theorem copied_start:
  assumes "ready s B st cs"
  shows "gc_inv (layout_of s B) (reach (layout_of s B) (root_words s st cs)) (rooted s) Map.empty (root_prefix s) [] 0"
proof -
  note r = readyD [OF assms]
  let ?h = "layout_of s B"
  have "spaces ?h (rooted s) (root_prefix s)" by (simp add: spaces_def rooted_mem root_prefix_def)
  moreover have "moved_ok ?h (rooted s) Map.empty (root_prefix s)" by (simp add: moved_ok_def)
  moreover have "apart ?h Map.empty" by (simp add: apart_def)
  moreover have "intact ?h (rooted s) Map.empty []" using r(7) by (auto simp: intact_def rooted_mem in_from_def)
  moreover have "chained ?h (rooted s) Map.empty []"
    by (simp add: chained_def first_of_def rooted_def started_def push_tospace_def store_def)
  moreover have "contents ?h (rooted s) Map.empty (to_start ?h) (root_prefix s) 0"
    by (auto simp: contents_def rooted_mem root_prefix_def less_Suc_eq)
  moreover have "parsed ?h (drop 0 (root_prefix s))" using r(14,15) good_not_Nmv [OF r(14)] good_not_Nmv [OF r(15)] by (simp add: root_prefix_def)
  moreover have "counted ?h (reach ?h (root_words s st cs)) Map.empty (root_prefix s)"
    by (auto simp: counted_def root_prefix_def traced_def root_words_def intro: reach_root)
  ultimately show ?thesis
    unfolding gc_inv_def using r(1) closed_reach config_rooted [OF assms] by (simp add: root_prefix_def)
qed

lemma range_contents:
  assumes "range_ok h s lo hi rl" "\<And>i. i < length rl \<Longrightarrow> mem s' (lo + i) = mem s (lo + i)"
  shows "contents h s' F lo rl 0"
  using assms by (simp add: contents_def range_ok_def)

lemma kept_contents:
  assumes "contents h s F lo rl q" "kept h s F os s' F' os' D" "lo + length rl \<le> from_start h" "from_start h \<le> to_start h"
    and "\<And>i. i < length rl \<Longrightarrow> lo + i \<notin> D"
  shows "contents h s' F' lo rl q"
proof (rule contents_mono [OF assms(1)])
  show "F \<subseteq>\<^sub>m F'" using assms(2) by (simp add: kept_def)
  fix i assume i: "i < length rl"
  then have "lo + i < to_start h" "\<not> in_from h (lo + i)" using assms(3,4) by (simp_all add: in_from_def)
  then show "mem s' (lo + i) = mem s (lo + i)" using assms(2) assms(5) [OF i] by (simp add: kept_def)
qed

section \<open>The scan of the roots and of tospace\<close>

definition scan_roots :: "unit gc" where
  "scan_roots s =
     gc_bind (gc_scan_oldspace (stack_pointer s) (stack_end s)) (\<lambda>_ s.
     gc_bind (gc_scan_oldspace (constant_start s) (constant_alloc_next s)) (\<lambda>_ s.
     gc_scan_tospace (saved_to s) None s) s) s"

lemma rooted_eq:
  "rooted s = s\<lparr>mem := (mem s)(tospace_start s := fixed_objects s, Suc (tospace_start s) := history_word s),
     tospace_open_p := True, tospace_next := tospace_start s + 2, newspace_start := heap_start s,
     newspace_next := heap_start s + 2, newspace_end := heap_start s + (tospace_end s - tospace_start s), weak_chain := None,
     ephemeron_count := 0, saved_to := heap_start s, current_gc_table := std_table\<rparr>"
  by (simp add: rooted_def started_def push_tospace_def store_def)

definition pt1_rest :: "gc_table \<Rightarrow> unit gc" where
  "pt1_rest table s =
     (let s = s\<lparr>current_gc_table := table\<rparr>
      in gc_bind (gc_scan_oldspace (stack_pointer s) (stack_end s)) (\<lambda>_ s.
         gc_bind (gc_scan_oldspace (constant_start s) (constant_alloc_next s)) (\<lambda>_ s.
         gc_bind (gc_scan_tospace (saved_to s) None) (\<lambda>_. update_weak_pointers) s) s) s)"

lemma gc_bind_assoc: "gc_bind (gc_bind m f) g s = gc_bind m (\<lambda>x. gc_bind (f x) g) s"
  by (auto simp: gc_bind_def split: option.splits sum.splits prod.splits)

lemma gc_bind_apply: "gc_bind m f s = gc_bind m' f' s'" if "m s = m' s'" "\<And>x t. m s = Some (Inr (x, t)) \<Longrightarrow> f x t = f' x t"
  using that by (auto simp: gc_bind_def split: option.splits sum.splits prod.splits)

lemma pt1_rest_eq: "pt1_rest table s = gc_bind scan_roots (\<lambda>_. update_weak_pointers) (s\<lparr>current_gc_table := table\<rparr>)"
  by (auto simp: pt1_rest_def scan_roots_def gc_bind_def split: option.splits sum.splits prod.splits)

lemma pt1_eq:
  assumes "ready s B st cs"
  shows "gc_bind (open_tospace (heap_start s)) (\<lambda>_ s. std_gc_pt1 ((initialize_weak_chain s)\<lparr>ephemeron_count := 0\<rparr>)) s
    = gc_bind scan_roots (\<lambda>_. update_weak_pointers) (rooted s)"
proof -
  let ?s1 = "s\<lparr>tospace_open_p := True, tospace_next := tospace_start s, newspace_start := heap_start s,
      newspace_next := heap_start s, newspace_end := heap_start s + (tospace_end s - tospace_start s)\<rparr>"
  let ?s2 = "(initialize_weak_chain ?s1)\<lparr>ephemeron_count := 0\<rparr>"
  let ?s3 = "?s2\<lparr>saved_to := heap_start s\<rparr>"
  let ?s4 = "push_tospace (history_word s) (push_tospace (fixed_objects s) ?s3)"
  have "open_tospace (heap_start s) s = Some (Inr ((), ?s1))"
    using readyD(2) [OF assms] by (simp add: open_tospace_def GUARANTEE_TOSPACE_CLOSED_def)
  moreover have "std_gc_pt1 ?s2 = pt1_rest std_table ?s4"
    by (simp add: std_gc_pt1_def get_newspace_ptr_def initialize_weak_chain_def add_to_tospace_def GUARANTEE_TOSPACE_OPEN_def
        push_tospace_def store_def std_gc_table_eq history_word_def pt1_rest_def)
  moreover have "?s4\<lparr>current_gc_table := std_table\<rparr> = rooted s"
    by (simp add: rooted_eq push_tospace_def store_def initialize_weak_chain_def)
  ultimately show ?thesis by (simp add: pt1_rest_eq)
qed

theorem roots_scanned:
  assumes rd: "ready s B st cs"
  defines "h \<equiv> layout_of s B"
  shows "\<exists>s' F os ws. scan_roots (rooted s) = Some (Inr ((), s'))
    \<and> gc_inv h (reach h (root_words s st cs)) s' F os ws (length os) \<and> (\<forall>i < 2. os ! i = root_prefix s ! i) \<and> 2 \<le> length os
    \<and> contents h s' F (stack_pointer s) st (length st) \<and> contents h s' F (constant_start s) cs (length cs)"
proof -
  note r = readyD [OF rd, folded h_def]
  let ?R = "reach h (root_words s st cs)" and ?D1 = "{stack_pointer s..<stack_pointer s + length st}"
    and ?D2 = "{constant_start s..<constant_start s + length cs}"
  have order: "heap_start s \<le> Free s" using r(1) by (simp add: heap_ok_def h_def)
  have st: "stack_pointer s + length st = stack_end s" "parsed h st" and cs: "constant_start s + length cs = constant_alloc_next s" "parsed h cs"
    using r(12,13) by (simp_all add: range_ok_def)
  note c0 = copied_start [OF rd, folded h_def]
  have same: "mem (rooted s) d = mem s d" if "d < tospace_start s" for d using that by (simp add: rooted_mem)
  have st0: "contents h (rooted s) Map.empty (stack_pointer s) st 0"
    by (rule range_contents [OF r(12)]) (use st(1) r(7,10,11) cs(1) order in \<open>simp add: same\<close>)
  have R1: "a \<in> ?R" if "w \<in> traced st" "target h w = Some a" for w a
    using that by (intro reach_root [of w]) (simp_all add: root_words_def)
  have R2: "a \<in> ?R" if "w \<in> traced cs" "target h w = Some a" for w a
    using that by (intro reach_root [of w]) (simp_all add: root_words_def)
  have below: "stack_pointer s + length st \<le> from_start h" "constant_start s + length cs \<le> from_start h" "from_start h \<le> to_start h"
    using st(1) cs(1) r(7,10,11) order by (simp_all add: h_def)
  obtain s1 F1 os1 ws1 where 1: "gc_scan_oldspace (stack_pointer s) (stack_pointer s + length st) (rooted s) = Some (Inr ((), s1))"
    "gc_inv h ?R s1 F1 os1 ws1 0" "contents h s1 F1 (stack_pointer s) st (length st)" "kept h (rooted s) Map.empty (root_prefix s) s1 F1 os1 ?D1"
    using oldspace_scanned [OF c0 st0 st(2) below(1)] R1 by blast
  have f1: "constant_start s1 = constant_start s" "constant_alloc_next s1 = constant_alloc_next s"
    using gc_invD(3) [OF 1(2)] fixed_part_fields(2,3) [of s1 "started s"] by (simp_all add: config_def h_def started_def)
  have cs0: "contents h s1 F1 (constant_start s) cs 0"
  proof (rule range_contents [OF r(13)])
    fix i assume "i < length cs"
    then have i: "constant_start s + i < tospace_start s" "\<not> in_from h (constant_start s + i)" "constant_start s + i \<notin> ?D1"
      using cs(1) st(1) r(7,10,11) order by (simp_all add: h_def in_from_def)
    then show "mem s1 (constant_start s + i) = mem s (constant_start s + i)"
      using 1(4) same [OF i(1)] by (simp add: kept_def h_def)
  qed
  obtain s2 F2 os2 ws2 where 2: "gc_scan_oldspace (constant_start s) (constant_start s + length cs) s1 = Some (Inr ((), s2))"
    "gc_inv h ?R s2 F2 os2 ws2 0" "contents h s2 F2 (constant_start s) cs (length cs)" "kept h s1 F1 os1 s2 F2 os2 ?D2"
    using oldspace_scanned [OF 1(2) cs0 cs(2) below(2)] R2 by blast
  have st2: "contents h s2 F2 (stack_pointer s) st (length st)"
    by (rule kept_contents [OF 1(3) 2(4) below(1,3)]) (use st(1) r(10) in simp)
  have f2: "saved_to s2 = heap_start s" "newspace_start s2 = heap_start s" "tospace_start s2 = tospace_start s"
    using gc_invD(3) [OF 2(2)] fixed_part_fields(1) [of s2 "started s"] by (simp_all add: config_def h_def started_def)
  obtain s3 F3 os3 ws3 where 3: "run_gc_loop (to_start h + 0) tospace_next s2 = Some (Inr (to_start h + length os3, s3))"
    "gc_inv h ?R s3 F3 os3 ws3 (length os3)" "kept h s2 F2 os2 s3 F3 os3 {}"
    using tospace_scanned [OF 2(2)] by blast
  have scan: "gc_scan_tospace (saved_to s2) None s2 = Some (Inr ((), s3))"
    using 3(1) f2 by (simp add: gc_scan_tospace_def NEWSPACE_TO_TOSPACE_def h_def)
  have "scan_roots (rooted s) = Some (Inr ((), s3))"
  proof -
    have "stack_pointer (rooted s) = stack_pointer s" "stack_end (rooted s) = stack_pointer s + length st"
      using st(1) by (simp_all add: rooted_def started_def push_tospace_def store_def)
    then show ?thesis using 1(1) 2(1) scan f1 cs(1) by (simp add: scan_roots_def)
  qed
  moreover have "contents h s3 F3 (stack_pointer s) st (length st)" "contents h s3 F3 (constant_start s) cs (length cs)"
    by (rule kept_contents [OF st2 3(3) below(1,3)] kept_contents [OF 2(3) 3(3) below(2,3)]; simp)+
  moreover have "kept h (rooted s) Map.empty (root_prefix s) s3 F3 os3 (?D1 \<union> ?D2)"
    using kept_trans [OF kept_trans [OF kept_mono [OF 1(4), of "?D1 \<union> ?D2"] kept_mono [OF 2(4), of "?D1 \<union> ?D2"]]
      kept_mono [OF 3(3), of "?D1 \<union> ?D2"]] by simp
  then have "(\<forall>i < 2. os3 ! i = root_prefix s ! i) \<and> 2 \<le> length os3"
    by (simp add: kept_def root_prefix_def)
  ultimately show ?thesis using 3(2) by blast
qed

section \<open>The copy\<close>

lemma no_ephemerons: "\<not> EPHEMERON_P SHARP_F"
  by (simp add: EPHEMERON_P_def SHARP_F_def)

lemma weak_pointers_updated:
  assumes "\<not> scanning_ephemerons_p s" "ephemeron_list s = SHARP_F" "ephemeron_queue s = SHARP_F"
  shows "update_weak_pointers s = update_weak_pairs s"
proof -
  have stop: "gc_while (\<lambda>e s. EPHEMERON_P e) b SHARP_F t = Some (Inr (SHARP_F, t))" for b t
    by (subst gc_while.simps) (simp add: no_ephemerons)
  let ?t = "s\<lparr>scanning_ephemerons_p := True\<rparr>"
  have lists: "ephemeron_list s = SHARP_F" "ephemeron_queue ?t = SHARP_F" using assms(2,3) by simp_all
  have restored: "?t\<lparr>scanning_ephemerons_p := False\<rparr> = s" using assms(1) by simp
  have "scan_ephemerons s = Some (Inr ((), s))"
    unfolding scan_ephemerons_def lists gc_bind_simps(1) [OF stop] using restored by simp
  moreover have "update_ephemerons s = Some (Inr ((), s))"
    unfolding update_ephemerons_def lists gc_bind_simps(1) [OF stop] using assms(2) by simp
  ultimately show ?thesis by (simp add: update_weak_pointers_def)
qed

text \<open>Everything reachable has been moved when the scan has caught up, and nothing else.\<close>

theorem moved_iff_reachable:
  assumes c: "gc_inv h (reach h r) s F os ws (length os)"
    and r: "\<And>w a. w \<in> r \<Longrightarrow> target h w = Some a \<Longrightarrow> F a \<noteq> None"
  shows "dom F = reach h r"
proof
  note cc = gc_invD [OF c]
  show "dom F \<subseteq> reach h r" using cc(12) unfolding counted_def by blast
  show "reach h r \<subseteq> dom F"
  proof
    fix a assume "a \<in> reach h r"
    then show "a \<in> dom F"
    proof induction
      case (reach_root w a) then show ?case using r by blast
    next
      case (reach_step a w b)
      then obtain p where p: "F a = Some p" by blast
      obtain i where i: "i < size_at h a" "image_of h a ! i = (w, True)"
        using reach_step.hyps(2) by (auto simp: traced_def in_set_conv_nth)
      note mo = cc(5) [unfolded moved_ok_def, rule_format, OF p]
      have o: "os ! (p - new_start h + i) = (w, True)" "p - new_start h + i < length os" using mo i by auto
      then show ?case using cc(9) [unfolded contents_def, rule_format, OF o(2)] reach_step.hyps(3) by auto
    qed
  qed
qed

text \<open>The words of a moved block in tospace after the weak pairs have been updated.\<close>

theorem new_block_words:
  assumes c: "gc_inv h R s F os ws (length os)" and u: "updated h F s ws [] s'" and p: "F a = Some p" and i: "i < size_at h a"
  shows "mem s' (to_start h + (p - new_start h) + i) = new_block h F a ! i"
proof -
  note cc = gc_invD [OF c] and ma = moved_address [OF c p]
  let ?j = "p - new_start h + i"
  have j: "?j < length os" using ma(3,4) i by linarith
  have os: "os ! ?j = image_of h a ! i" using cc(5) [unfolded moved_ok_def, rule_format, OF p] i by blast
  have w: "mem s (to_start h + ?j) = (if snd (image_of h a ! i) then new_word h F (fst (image_of h a ! i)) else fst (image_of h a ! i))"
    using cc(9) [unfolded contents_def, rule_format, OF j] j os by simp
  obtain m where s': "s' = s\<lparr>mem := m, weak_chain := None\<rparr>"
    and upd: "\<And>b. b \<in> set ws \<Longrightarrow> m (new_place h F b) = new_weak_car h F b"
    and rest: "\<And>d. d \<notin> new_place h F ` set ws \<Longrightarrow> m d = mem s d"
    using u by (auto simp: updated_def first_of_def)
  have place: "a = b \<and> i = 0" if b: "b \<in> set ws" "to_start h + ?j = new_place h F b" for b
  proof -
    note wb = weak_member [OF c b(1)]
    obtain q where q: "F b = Some q" using wb(2) by blast
    have sz: "size_at h b = 2" using wb(3) by (simp add: size_at_def)
    have pq: "p + i = q" using b(2) q ma(3) moved_address(3) [OF c q] by (simp add: new_place_def)
    show ?thesis
      using cc(6) [unfolded apart_def, rule_format, OF p q] pq i sz p q by (cases "a = b") auto
  qed
  have raw: "new_word h F (old h a) = old h a" if "raw_block h a" using that by (simp add: raw_block_def)
  show ?thesis
  proof (cases "blocks h a = Some Weak_Block")
    case False
    then have "mem s' (to_start h + ?j) = mem s (to_start h + ?j)"
      using rest [of "to_start h + ?j"] place weak_member(3) [OF c] by (auto simp: s')
    also have "\<dots> = new_block h F a ! i"
      using w False i raw by (cases "raw_block h a"; cases "i = 0") (simp_all add: image_of_def new_block_def)
    finally show ?thesis by (simp add: add.assoc)
  next
    case True
    then have sz: "size_at h a = 2" by (simp add: size_at_def)
    show ?thesis
    proof (cases "i = 0 \<and> weak_car h a")
      case wk: True
      have "set ws = {a \<in> dom F. weak_car h a}" using cc(8) unfolding chained_def by blast
      then have "a \<in> set ws" using wk p by blast
      then show ?thesis using upd [of a] wk True p by (simp add: s' new_place_def new_block_def)
    next
      case False
      have "to_start h + ?j \<notin> new_place h F ` set ws" using place weak_member(1) [OF c] False by blast
      then have "mem s' (to_start h + ?j) = mem s (to_start h + ?j)" using rest by (simp add: s')
      also have "\<dots> = new_block h F a ! i"
      proof -
        consider "i = 0" "\<not> weak_car h a" | "i = 1" using i sz False by linarith
        then show ?thesis
          using w by cases (simp_all add: image_of_weak [OF True] new_block_def True new_weak_car_def)
      qed
      finally show ?thesis by (simp add: add.assoc)
    qed
  qed
qed

section \<open>Copying back\<close>

definition vector_made :: "nat \<Rightarrow> ulong \<Rightarrow> gc_state \<Rightarrow> gc_state" where
  "vector_made a len s =
     s\<lparr>mem := store_words a (MAKE_OBJECT TC_MANIFEST_VECTOR len # replicate (unat len) SHARP_F) (mem s),
       Free := a + Suc (unat len), ephemeron_array := MAKE_POINTER_OBJECT TC_VECTOR a\<rparr>"

lemma make_ephemeron_array_eq:
  "make_ephemeron_array len s = (Inr (MAKE_POINTER_OBJECT TC_VECTOR (Free s)), vector_made (Free s) len s)"
proof -
  have "make_vector len SHARP_F False m = (Inr (MAKE_POINTER_OBJECT TC_VECTOR (Free m)),
      m\<lparr>mem := store_words (Free m) (MAKE_OBJECT TC_MANIFEST_VECTOR len # replicate (unat len) SHARP_F) (mem m),
        Free := Free m + Suc (unat len)\<rparr>)" for m
    by (simp add: make_vector_def make_marked_vector_def gc_check_def fill_free_eq push_words_Cons [symmetric]
        del: push_words_simps) (simp add: push_words_def)
  then show ?thesis
    by (cases s) (simp add: make_ephemeron_array_def on_machine_def vector_made_def machine.defs)
qed

lemma renewed:
  "\<exists>len. (let s' = snd (renew_ephemeron_array s); v = vector_made (Free s) len s
      in mem s' = mem v \<and> Free s' = Free v \<and> ephemeron_array s' = ephemeron_array v
        \<and> fixed_objects s' = fixed_objects s \<and> history_register s' = history_register s \<and> heap_start s' = heap_start s \<and> tospace_open_p s' = tospace_open_p s)"
proof -
  let ?n = "ephemeron_count s + n_ephemerons_requested s"
  let ?len = "compute_ephemeron_array_length ?n"
  let ?enough = "HEAP_AVAILABLE_P (machine.truncate s) (VECTOR_DATA + unat ?len + unat (n_ephemerons_requested s) * EPHEMERON_SIZE)"
  show ?thesis
    by (cases ?enough)
      (rule exI [of _ ?len] exI [of _ "compute_ephemeron_array_length (ephemeron_count s)"],
        simp add: renew_ephemeron_array_def make_ephemeron_array_eq Let_def vector_made_def)+
qed

text \<open>What the second part leaves: tospace over the start of the heap, and a new vector above it.\<close>

theorem pt2_effect:
  assumes c: "config h s" "tospace_open_p s" "spaces h s os" and t: "to_start h \<le> tospace_end s" "saved_to s = new_start h" "2 \<le> length os"
  shows "\<exists>s' len. std_gc_pt2 s = Some (Inr ((), s'))
    \<and> (\<forall>i < length os. mem s' (new_start h + i) = mem s (to_start h + i)) \<and> (\<forall>d < new_start h. mem s' d = mem s d)
    \<and> fixed_objects s' = mem s (to_start h) \<and> history_register s' = OBJECT_ADDRESS (mem s (to_start h + 1))
    \<and> Free s' = new_start h + length os + 1 + len \<and> ephemeron_array s' = MAKE_POINTER_OBJECT TC_VECTOR (new_start h + length os)
    \<and> heap_start s' = heap_start s \<and> \<not> tospace_open_p s'"
proof -
  have f: "tospace_start s = to_start h" "newspace_start s = new_start h" "tospace_next s = to_start h + length os"
    "newspace_next s = new_start h + length os" using c(1,3) by (simp_all add: config_def spaces_def)
  let ?ws = "map (\<lambda>i. mem s (to_start h + i)) [0..<length os]"
  let ?m = "store_words (new_start h) ?ws (mem s)"
  let ?s1 = "(CLOSE_TOSPACE (s\<lparr>mem := ?m\<rparr>))\<lparr>Free := new_start h + length os\<rparr>"
  let ?s2 = "read_saved_roots ?s1"
  have m: "?m (new_start h + i) = mem s (to_start h + i)" if "i < length os" for i
    using that store_words_in [of i ?ws "new_start h" "mem s"] by simp
  have m2: "?m d = mem s d" if "d < new_start h" for d using that by (simp add: store_words_below)
  have ne: "0 < length os" "1 < length os" using t(3) by linarith+
  have roots: "fixed_objects ?s2 = mem s (to_start h)" "history_register ?s2 = OBJECT_ADDRESS (mem s (to_start h + 1))"
    "mem ?s2 = ?m" "Free ?s2 = new_start h + length os" "heap_start ?s2 = heap_start s" "\<not> tospace_open_p ?s2"
    using m [OF ne(1)] m [OF ne(2)] t(2) by (simp_all add: read_saved_roots_def CLOSE_TOSPACE_def)
  obtain len where len: "let s' = snd (renew_ephemeron_array ?s2); v = vector_made (Free ?s2) len ?s2
      in mem s' = mem v \<and> Free s' = Free v \<and> ephemeron_array s' = ephemeron_array v
        \<and> fixed_objects s' = fixed_objects ?s2 \<and> history_register s' = history_register ?s2
        \<and> heap_start s' = heap_start ?s2 \<and> tospace_open_p s' = tospace_open_p ?s2"
    using renewed [of ?s2] by blast
  let ?s3 = "snd (renew_ephemeron_array ?s2)"
  have fields: "fixed_objects ?s3 = mem s (to_start h)" "history_register ?s3 = OBJECT_ADDRESS (mem s (to_start h + 1))"
    "Free ?s3 = new_start h + length os + 1 + unat len" "ephemeron_array ?s3 = MAKE_POINTER_OBJECT TC_VECTOR (new_start h + length os)"
    "heap_start ?s3 = heap_start s" "\<not> tospace_open_p ?s3"
    using len roots by (simp_all add: Let_def vector_made_def)
  have below: "mem ?s3 d = ?m d" if "d < new_start h + length os" for d
    using len roots(3,4) that by (simp add: Let_def vector_made_def store_words_below)
  have "std_gc_pt2 s = Some (Inr ((), CLEAR_INTERRUPT INT_GC ?s3))"
    using c(2) t(1) f by (simp add: std_gc_pt2_def get_newspace_ptr_def save_tospace_def GUARANTEE_TOSPACE_OPEN_def
        save_tospace_copy_def tospace_to_newspace_def)
  moreover have "\<forall>i < length os. mem ?s3 (new_start h + i) = mem s (to_start h + i)" using below m by simp
  moreover have "\<forall>d < new_start h. mem ?s3 d = mem s d" using below m2 by simp
  ultimately show ?thesis
    by (intro exI [of _ "CLEAR_INTERRUPT INT_GC ?s3"] exI [of _ "unat len"]) (simp add: CLEAR_INTERRUPT_def fields)
qed

section \<open>The collection\<close>

text \<open>The words of a range after the collection: marked words have been replaced.\<close>

definition relocated_range :: "layout \<Rightarrow> (nat \<rightharpoonup> nat) \<Rightarrow> gc_state \<Rightarrow> nat \<Rightarrow> marked_words \<Rightarrow> bool" where
  "relocated_range h F s lo rl \<longleftrightarrow>
     (\<forall>i < length rl. mem s (lo + i) = (if snd (rl ! i) then new_word h F (fst (rl ! i)) else fst (rl ! i)))"

definition block_at :: "gc_state \<Rightarrow> nat \<Rightarrow> ulong list \<Rightarrow> bool" where
  "block_at s p ws \<longleftrightarrow> (\<forall>i < length ws. mem s (p + i) = ws ! i)"

lemma length_new_block [simp]: "length (new_block h F a) = size_at h a"
  by (simp add: new_block_def size_at_def)

lemma collect_eq:
  assumes "ready s B st cs"
  shows "collect s = gc_bind (gc_bind scan_roots (\<lambda>_. update_weak_pointers)) (\<lambda>_. std_gc_pt2) (rooted s)"
proof -
  let ?pt1 = "gc_bind (open_tospace (heap_start s)) (\<lambda>_ s. std_gc_pt1 ((initialize_weak_chain s)\<lparr>ephemeron_count := 0\<rparr>))"
  have "collect s = gc_bind ?pt1 (\<lambda>_. std_gc_pt2) s"
    unfolding gc_bind_assoc collect_def Let_def
    by (rule gc_bind_apply) (auto simp: gc_bind_def split: option.splits sum.splits prod.splits)
  also have "\<dots> = gc_bind (gc_bind scan_roots (\<lambda>_. update_weak_pointers)) (\<lambda>_. std_gc_pt2) (rooted s)"
    by (rule gc_bind_apply) (simp_all add: pt1_eq [OF assms])
  finally show ?thesis .
qed

lemma rooted_fixed: "fixed_part t = fixed_part (started s) \<Longrightarrow> \<not> scanning_ephemerons_p s \<Longrightarrow>
    ephemeron_list t = ephemeron_list s \<and> ephemeron_queue t = ephemeron_queue s \<and> tospace_end t = tospace_end s \<and> saved_to t = heap_start s"
  using fixed_part_fields(1,4,5,6) [of t "started s"] by (simp add: started_def)

theorem collected:
  assumes rd: "ready s B st cs"
  defines "h \<equiv> layout_of s B"
  shows "\<exists>s' F len. collect s = Some (Inr ((), s')) \<and> dom F = reach h (root_words s st cs)
    \<and> (\<forall>a p. F a = Some p \<longrightarrow> heap_start s + 2 \<le> p \<and> p + size_at h a \<le> heap_start s + 2 + (\<Sum>a \<in> dom F. size_at h a)
         \<and> block_at s' p (new_block h F a))
    \<and> apart h F
    \<and> fixed_objects s' = new_word h F (fixed_objects s) \<and> history_register s' = OBJECT_ADDRESS (new_word h F (history_word s))
    \<and> relocated_range h F s' (stack_pointer s) st \<and> relocated_range h F s' (constant_start s) cs
    \<and> Free s' = heap_start s + 2 + (\<Sum>a \<in> dom F. size_at h a) + 1 + len
    \<and> heap_start s' = heap_start s \<and> \<not> tospace_open_p s'"
proof -
  note r = readyD [OF rd, folded h_def]
  let ?R = "reach h (root_words s st cs)"
  obtain s1 F os ws where 1: "scan_roots (rooted s) = Some (Inr ((), s1))" "gc_inv h ?R s1 F os ws (length os)"
    "\<forall>i < 2. os ! i = root_prefix s ! i" "2 \<le> length os"
    "contents h s1 F (stack_pointer s) st (length st)" "contents h s1 F (constant_start s) cs (length cs)"
    using roots_scanned [OF rd, folded h_def] by blast
  note c = gc_invD [OF 1(2)]
  have fx: "ephemeron_list s1 = SHARP_F" "ephemeron_queue s1 = SHARP_F" "tospace_end s1 = tospace_end s" "saved_to s1 = heap_start s"
    "\<not> scanning_ephemerons_p s1" "heap_start s1 = heap_start s"
    using rooted_fixed [of s1 s] c(3) r(3,5,6) by (simp_all add: config_def h_def)
  obtain s2 where 2: "update_weak_pairs s1 = Some (Inr ((), s2))" "updated h F s1 ws [] s2"
    using weak_pairs_updated [OF 1(2)] by blast
  have pt1: "gc_bind scan_roots (\<lambda>_. update_weak_pointers) (rooted s) = Some (Inr ((), s2))"
    using 1(1) 2(1) weak_pointers_updated [OF fx(5,1,2)] by simp
  obtain m where s2: "s2 = s1\<lparr>mem := m, weak_chain := None\<rparr>"
    and rest: "\<And>d. d \<notin> new_place h F ` set ws \<Longrightarrow> m d = mem s1 d"
    using 2(2) by (auto simp: updated_def first_of_def)
  have low: "m d = mem s1 d" if "d < to_start h" for d using that by (intro rest) (auto simp: new_place_def)
  have cfg: "config h s2" "tospace_open_p s2" "spaces h s2 os" "to_start h \<le> tospace_end s2" "saved_to s2 = new_start h"
    using c(3,4) fx r(8) by (auto simp: s2 config_def spaces_def fixed_part_def h_def)
  obtain s' len where s': "std_gc_pt2 s2 = Some (Inr ((), s'))" "\<forall>i < length os. mem s' (new_start h + i) = mem s2 (to_start h + i)"
    "\<forall>d < new_start h. mem s' d = mem s2 d" "fixed_objects s' = mem s2 (to_start h)"
    "history_register s' = OBJECT_ADDRESS (mem s2 (to_start h + 1))" "Free s' = new_start h + length os + 1 + len"
    "heap_start s' = heap_start s2" "\<not> tospace_open_p s'"
    using pt2_effect [OF cfg 1(4)] by blast
  have "collect s = Some (Inr ((), s'))" using pt1 s'(1) by (simp add: collect_eq [OF rd])
  moreover have total: "length os = 2 + (\<Sum>a \<in> dom F. size_at h a)" using c(12) by (simp add: counted_def h_def)
  moreover have word: "mem s2 (to_start h + i) = new_word h F (fst (root_prefix s ! i))
      \<and> (\<forall>a. target h (fst (root_prefix s ! i)) = Some a \<longrightarrow> F a \<noteq> None)" if "i < 2" for i
  proof -
    have i: "i < length os" "snd (root_prefix s ! i)" using that 1(4) by (auto simp: root_prefix_def less_Suc_eq numeral_2_eq_2)
    have "to_start h + i \<noteq> new_place h F a" if a: "a \<in> set ws" for a
      using moved_address(3) [OF 1(2), of a "the (F a)"] weak_member(2) [OF 1(2) a] \<open>i < 2\<close>
      by (auto simp: new_place_def h_def)
    then have "m (to_start h + i) = mem s1 (to_start h + i)" by (intro rest) auto
    then show ?thesis
      using c(9) [unfolded contents_def, rule_format, OF i(1)] i 1(3) that by (simp add: s2)
  qed
  moreover have root: "F a \<noteq> None" if "w \<in> root_words s st cs" "target h w = Some a" for w a
  proof -
    have ranges: "F a \<noteq> None" if "w \<in> traced rl" "contents h s1 F lo rl (length rl)" for rl lo
      using that \<open>target h w = Some a\<close> by (auto simp: traced_def contents_def in_set_conv_nth)
    consider "w = fst (root_prefix s ! 0)" | "w = fst (root_prefix s ! 1)" | "w \<in> traced st" | "w \<in> traced cs"
      using \<open>w \<in> root_words s st cs\<close> by (auto simp: root_words_def root_prefix_def)
    then show ?thesis
      using word [of 0] word [of 1] ranges 1(5,6) that(2) by cases auto
  qed
  moreover have reach: "dom F = ?R" by (rule moved_iff_reachable [OF 1(2) root])
  moreover have "block_at s' p (new_block h F a)" "heap_start s + 2 \<le> p"
    "p + size_at h a \<le> heap_start s + 2 + (\<Sum>a \<in> dom F. size_at h a)" if p: "F a = Some p" for a p
  proof -
    note ma = moved_address(3,4) [OF 1(2) p]
    show "heap_start s + 2 \<le> p" "p + size_at h a \<le> heap_start s + 2 + (\<Sum>a \<in> dom F. size_at h a)"
      using ma total by (simp_all add: h_def)
    show "block_at s' p (new_block h F a)"
      unfolding block_at_def
    proof (intro allI impI)
      fix i assume "i < length (new_block h F a)"
      then have i: "i < size_at h a" by simp
      then have "p - new_start h + i < length os" "new_start h + (p - new_start h + i) = p + i" using ma by linarith+
      then have "mem s' (p + i) = mem s2 (to_start h + (p - new_start h) + i)" using s'(2) by (metis add.assoc)
      then show "mem s' (p + i) = new_block h F a ! i" using new_block_words [OF 1(2) 2(2) p i] by simp
    qed
  qed
  moreover have "relocated_range h F s' lo rl"
    if "contents h s1 F lo rl (length rl)" "lo + length rl \<le> heap_start s" for lo rl
    unfolding relocated_range_def
  proof (intro allI impI)
    fix i assume i: "i < length rl"
    have "heap_start s \<le> to_start h" using r(1,7) by (simp add: heap_ok_def h_def)
    then have "mem s' (lo + i) = mem s1 (lo + i)" using s'(3) low i that(2) by (simp add: h_def s2)
    then show "mem s' (lo + i) = (if snd (rl ! i) then new_word h F (fst (rl ! i)) else fst (rl ! i))"
      using that(1) [unfolded contents_def, rule_format, OF i] i by simp
  qed
  then have "relocated_range h F s' (stack_pointer s) st" "relocated_range h F s' (constant_start s) cs"
    using 1(5,6) r(10,11,12,13) by (auto simp: range_ok_def)
  moreover have "fixed_objects s' = new_word h F (fixed_objects s)"
    "history_register s' = OBJECT_ADDRESS (new_word h F (history_word s))"
    using s'(4,5) word [of 0] word [of 1] by (simp_all add: root_prefix_def)
  moreover have "Free s' = heap_start s + 2 + (\<Sum>a \<in> dom F. size_at h a) + 1 + len" "heap_start s' = heap_start s"
    using s'(6,7) total fx(6) by (simp_all add: h_def s2)
  ultimately show ?thesis using c(6) s'(8) by (intro exI [of _ s'] exI [of _ F] exI [of _ len]) simp
qed

end
