(* ===== verification/Gc_Example.thy ===== *)
theory Gc_Example
  imports Gc_Correct
begin

text \<open>
  Consequences of the correctness of a collection, and a small heap on which a collection can
  be followed.
\<close>

section \<open>An example\<close>

text \<open>
  A vector that holds a pair, whose car is the vector; the cdr of the pair is a weak pair whose
  car refers to a pair that nothing else refers to.
\<close>

definition example_words :: "ulong list" where
  "example_words =
    [MAKE_OBJECT TC_MANIFEST_VECTOR 2, MAKE_POINTER_OBJECT TC_LIST 19, MAKE_OBJECT TC_FIXNUM 7,
     MAKE_POINTER_OBJECT TC_VECTOR 16, MAKE_POINTER_OBJECT TC_WEAK_CONS 21,
     MAKE_POINTER_OBJECT TC_LIST 23, EMPTY_LIST,
     MAKE_OBJECT TC_FIXNUM 1, MAKE_OBJECT TC_FIXNUM 2]"

definition gc_example :: gc_state where
  "gc_example = \<lparr>mem = (\<lambda>a. if 16 \<le> a \<and> a < 25 then example_words ! (a - 16) else 0), heap_start = 16, heap_end = 90,
     heap_alloc_limit = 80, Free = 25, Free_primitive = 25, int_mask = 0, int_code = 0, gc_space_needed = 0,
     fixed_objects = MAKE_POINTER_OBJECT TC_VECTOR 16, memory_base = 0, tospace_open_p = False, tospace_start = 100,
     tospace_next = 0, tospace_end = 174, newspace_start = 0, newspace_next = 0, newspace_end = 0, current_gc_table = std_table,
     weak_chain = None, ephemeron_list = SHARP_F, ephemeron_queue = SHARP_F, scanning_ephemerons_p = False,
     ephemeron_array = SHARP_F, ephemeron_count = 0, n_ephemerons_requested = 0, ephemeron_request_hard_p = False,
     stack_start = 0, stack_pointer = 8, stack_end = 8, constant_start = 8, constant_alloc_next = 8, constant_end = 16, history_register = 4,
     saved_to = 0, heap_reserved = 10\<rparr>"

definition example_blocks :: "nat \<Rightarrow> block option" where
  "example_blocks = [16 \<mapsto> Vector_Block 3, 19 \<mapsto> Tuple_Block 2, 21 \<mapsto> Weak_Block, 23 \<mapsto> Tuple_Block 2]"

definition example_layout :: layout where
  "example_layout = layout_of gc_example example_blocks"

lemma example_mem:
  "old example_layout 16 = MAKE_OBJECT TC_MANIFEST_VECTOR 2" "old example_layout 17 = MAKE_POINTER_OBJECT TC_LIST 19"
  "old example_layout 18 = MAKE_OBJECT TC_FIXNUM 7" "old example_layout 19 = MAKE_POINTER_OBJECT TC_VECTOR 16"
  "old example_layout 20 = MAKE_POINTER_OBJECT TC_WEAK_CONS 21" "old example_layout 21 = MAKE_POINTER_OBJECT TC_LIST 23"
  "old example_layout 22 = EMPTY_LIST" "old example_layout 23 = MAKE_OBJECT TC_FIXNUM 1" "old example_layout 24 = MAKE_OBJECT TC_FIXNUM 2"
  by (simp_all add: example_layout_def gc_example_def example_words_def)

lemma example_fields:
  "from_start example_layout = 16" "from_end example_layout = 25" "blocks example_layout = example_blocks"
  by (simp_all add: example_layout_def gc_example_def)

lemma handler_of:
  "uint t < 64 \<Longrightarrow> uint d < 288230376151711744 \<Longrightarrow> handler (MAKE_OBJECT t d) = handlers std_table ! unat t"
  "uint t < 64 \<Longrightarrow> addressable a \<Longrightarrow> handler (MAKE_POINTER_OBJECT t a) = handlers std_table ! unat t"
  by (simp_all add: handler_def GCT_ENTRY_def)

lemmas example_eval = handler_of example_fields EMPTY_LIST_def std_table_def handler_table addressable_def
  target_def referent_def in_from_def

lemma example_targets:
  "target example_layout (MAKE_OBJECT TC_FIXNUM 7) = None" "target example_layout (MAKE_OBJECT TC_FIXNUM 1) = None"
  "target example_layout (MAKE_OBJECT TC_FIXNUM 2) = None" "target example_layout EMPTY_LIST = None"
  "target example_layout (MAKE_OBJECT TC_MANIFEST_VECTOR 2) = None"
  "target example_layout (MAKE_POINTER_OBJECT TC_LIST 19) = Some 19"
  "target example_layout (MAKE_POINTER_OBJECT TC_VECTOR 16) = Some 16"
  "target example_layout (MAKE_POINTER_OBJECT TC_WEAK_CONS 21) = Some 21"
  by (simp_all add: example_eval)

lemma example_handlers:
  "handler (MAKE_OBJECT TC_FIXNUM 7) = Handle_Non_Pointer" "handler (MAKE_OBJECT TC_FIXNUM 1) = Handle_Non_Pointer"
  "handler (MAKE_OBJECT TC_FIXNUM 2) = Handle_Non_Pointer" "handler EMPTY_LIST = Handle_Non_Pointer"
  "handler (MAKE_OBJECT TC_MANIFEST_VECTOR 2) = Handle_Non_Pointer"
  "handler (MAKE_POINTER_OBJECT TC_LIST 19) = Handle_Pair" "handler (MAKE_POINTER_OBJECT TC_VECTOR 16) = Handle_Unaligned_Vector"
  "handler (MAKE_POINTER_OBJECT TC_WEAK_CONS 21) = Handle_Weak_Pair"
  by (simp_all add: example_eval)

lemma example_referents:
  "referent example_layout (MAKE_POINTER_OBJECT TC_LIST 19) = Some (Tuple_Block 2)"
  "referent example_layout (MAKE_POINTER_OBJECT TC_VECTOR 16) = Some (Vector_Block 3)"
  "referent example_layout (MAKE_POINTER_OBJECT TC_WEAK_CONS 21) = Some Weak_Block"
  using example_mem(1) by (simp_all add: example_eval)

lemma example_good:
  "good_word example_layout (MAKE_OBJECT TC_FIXNUM 7)" "good_word example_layout (MAKE_OBJECT TC_FIXNUM 1)"
  "good_word example_layout (MAKE_OBJECT TC_FIXNUM 2)" "good_word example_layout EMPTY_LIST"
  "good_word example_layout (MAKE_OBJECT TC_MANIFEST_VECTOR 2)" "good_word example_layout (MAKE_POINTER_OBJECT TC_LIST 19)"
  "good_word example_layout (MAKE_POINTER_OBJECT TC_VECTOR 16)" "good_word example_layout (MAKE_POINTER_OBJECT TC_WEAK_CONS 21)"
  using example_handlers example_targets example_referents
  by (simp_all add: good_word_def example_fields example_blocks_def)

lemma example_weak_car: "weak_car example_layout a \<longleftrightarrow> a = 21"
proof -
  have "gc_ptr_type (MAKE_POINTER_OBJECT TC_LIST 23) = GC_POINTER_NORMAL"
    by (simp add: gc_ptr_type_def GC_TYPE_def gc_type_code_def gc_type_map_def addressable_def)
  then show ?thesis
    using example_mem(6) by (auto simp: weak_car_def example_fields example_blocks_def in_from_def addressable_def)
qed

lemma example_not_raw: "\<not> raw_block example_layout 16" "\<not> raw_block example_layout 19" "\<not> raw_block example_layout 23"
  using example_handlers example_mem by (simp_all add: raw_block_def)

lemma example_hearts:
  "\<not> BROKEN_HEART_P (old example_layout 16)" "\<not> BROKEN_HEART_P (old example_layout 19)"
  "\<not> BROKEN_HEART_P (old example_layout 21)" "\<not> BROKEN_HEART_P (old example_layout 23)"
  by (simp_all add: example_mem BROKEN_HEART_P_def addressable_def)

lemma example_block_cases:
  assumes "example_blocks a = Some b"
  obtains "a = 16" "b = Vector_Block 3" | "a = 19" "b = Tuple_Block 2" | "a = 21" "b = Weak_Block" | "a = 23" "b = Tuple_Block 2"
  using assms by (auto simp: example_blocks_def split: if_splits)

lemma example_block_ok: "example_blocks a = Some b \<Longrightarrow> block_ok example_layout a b"
proof (erule example_block_cases)
  note facts = block_ok_def example_fields example_not_raw
  show "a = 16 \<Longrightarrow> b = Vector_Block 3 \<Longrightarrow> block_ok example_layout a b"
    using example_mem(1-3) example_good example_hearts by (auto simp: facts less_Suc_eq numeral_3_eq_3)
  show "a = 19 \<Longrightarrow> b = Tuple_Block 2 \<Longrightarrow> block_ok example_layout a b"
    using example_mem(4,5) example_good example_hearts by (auto simp: facts less_Suc_eq numeral_2_eq_2)
  show "a = 23 \<Longrightarrow> b = Tuple_Block 2 \<Longrightarrow> block_ok example_layout a b"
    using example_mem(8,9) example_good example_hearts by (auto simp: facts less_Suc_eq numeral_2_eq_2)
  show "a = 21 \<Longrightarrow> b = Weak_Block \<Longrightarrow> block_ok example_layout a b"
    using example_mem(6,7) example_good(4) example_hearts(3) by (simp add: facts example_weak_car example_blocks_def addressable_def)
qed

lemma example_heap_ok: "heap_ok example_layout"
  unfolding heap_ok_def example_fields
proof (intro conjI allI impI)
  fix a b a' b' assume "example_blocks a = Some b" "example_blocks a' = Some b'" "a < a'"
  then show "a + block_words b \<le> a'" by (elim example_block_cases) simp_all
qed (simp_all add: example_block_ok)

theorem example_ready: "ready gc_example example_blocks [] []"
proof -
  have "history_word gc_example = MAKE_POINTER_OBJECT TC_HUNK3_A 4" "fixed_objects gc_example = MAKE_POINTER_OBJECT TC_VECTOR 16"
    by (simp_all add: history_word_def gc_example_def)
  moreover have "good_word example_layout (MAKE_POINTER_OBJECT TC_HUNK3_A 4)"
    by (simp add: good_word_def example_eval)
  ultimately show ?thesis
    unfolding ready_def Let_def example_layout_def [symmetric]
    using example_heap_ok example_good(7) by (simp add: range_ok_def) (simp add: gc_example_def)
qed

lemma example_reach: "reach example_layout (root_words gc_example [] []) = {16, 19, 21}"
proof -
  let ?R = "reach example_layout (root_words gc_example [] [])"
  have roots: "root_words gc_example [] [] = {MAKE_POINTER_OBJECT TC_VECTOR 16, MAKE_POINTER_OBJECT TC_HUNK3_A 4}"
    by (simp add: root_words_def history_word_def gc_example_def traced_def)
  have hist: "target example_layout (MAKE_POINTER_OBJECT TC_HUNK3_A 4) = None" by (simp add: example_eval)
  have sizes: "size_at example_layout 16 = 3" "size_at example_layout 19 = 2"
    by (simp_all add: size_at_def example_fields example_blocks_def)
  have t16: "traced (image_of example_layout 16) = {MAKE_OBJECT TC_MANIFEST_VECTOR 2, MAKE_POINTER_OBJECT TC_LIST 19, MAKE_OBJECT TC_FIXNUM 7}"
    using example_mem(1-3) example_not_raw(1)
    by (auto simp: image_of_def sizes example_fields example_blocks_def upt_rec traced_Cons)
  have t19: "traced (image_of example_layout 19) = {MAKE_POINTER_OBJECT TC_VECTOR 16, MAKE_POINTER_OBJECT TC_WEAK_CONS 21}"
    using example_mem(4,5) example_not_raw(2)
    by (auto simp: image_of_def sizes example_fields example_blocks_def upt_rec traced_Cons)
  have t21: "traced (image_of example_layout 21) = {OBJECT_NEW_TYPE 0 (MAKE_POINTER_OBJECT TC_LIST 23), EMPTY_LIST}"
    using example_mem(6,7)
    by (simp add: image_of_def example_fields example_blocks_def example_weak_car traced_Cons)
  have "a \<in> {16, 19, 21}" if "a \<in> ?R" for a
    using that
  proof induction
    case (reach_root w a)
    then show ?case using hist example_targets by (auto simp: roots)
  next
    case (reach_step a w b)
    then show ?case using t16 t19 t21 example_targets by auto
  qed
  moreover have r16: "16 \<in> ?R" by (rule reach_root [OF _ example_targets(7)]) (simp add: roots)
  moreover have r19: "19 \<in> ?R" by (rule reach_step [OF r16 _ example_targets(6)]) (simp add: t16)
  moreover have "21 \<in> ?R" by (rule reach_step [OF r19 _ example_targets(8)]) (simp add: t19)
  ultimately show ?thesis by blast
qed

end
