(* ===== verification/Interp_Example.thy ===== *)
theory Interp_Example
  imports Apply_Correct
begin

text \<open>
  Lookups, assignments and \<open>cons\<close> as steps of an evaluation, and a machine that evaluates
  \<open>((lambda (x) (cons x x)) 5)\<close>.
\<close>

section \<open>Steps of other components\<close>

text \<open>The words a lookup reads besides those of the frames: the cell, its trap and its value.\<close>

definition cell_words :: "machine \<Rightarrow> nat \<Rightarrow> nat set" where
  "cell_words h c = insert c (trap_words h c \<union> insert (value_cell h c) (trap_words h (value_cell h c)))"

definition bindings_visible :: "nat set \<Rightarrow> machine \<Rightarrow> ulong \<Rightarrow> ulong list \<Rightarrow> bool" where
  "bindings_visible W h symbol fs \<longleftrightarrow>
     (\<forall>f\<in>set fs. PROCEDURE_FRAME_P f \<longrightarrow> frame_words h f \<inter> W = {} \<and> argument_cells h f symbol \<inter> W = {})"

lemma alike_same_bindings:
  assumes "alike W m h" "bindings_visible W h symbol fs"
  shows "same_bindings symbol fs h m"
  unfolding same_bindings_def agree_def
proof (intro ballI impI)
  fix f assume f: "f \<in> set fs" "PROCEDURE_FRAME_P f"
  then have v: "frame_words h f \<inter> W = {}" "argument_cells h f symbol \<inter> W = {}" using assms(2) unfolding bindings_visible_def by blast+
  then have "mem h a = mem m a" if "a \<in> frame_words h f \<union> argument_cells h f symbol" for a
    using alike_mem [OF assms(1), of a] that by (metis IntI Un_iff empty_iff)
  then show "(\<forall>a\<in>frame_words h f. mem h a = mem m a) \<and> (\<forall>c\<in>argument_cells h f symbol. (mem h c = UNBOUND_OBJECT) = (mem m c = UNBOUND_OBJECT))"
    by simp
qed

lemma alike_trap_kind:
  assumes "alike W m h" "trap_words h c \<inter> W = {}" "c \<notin> W"
  shows "get_trap_kind m (mem h c) = get_trap_kind h (mem h c)" "mem m c = mem h c"
    "get_trap_kind h (mem h c) = TRAP_COMPILER_CACHED \<Longrightarrow> GET_TRAP_CACHE m (mem h c) = GET_TRAP_CACHE h (mem h c)"
proof -
  show "mem m c = mem h c" using alike_mem [OF assms(1)] assms(3) by blast
  have w: "mem m a = mem h a" if "a \<in> trap_words h c" for a using alike_mem [OF assms(1)] assms(2) that by blast
  show "get_trap_kind m (mem h c) = get_trap_kind h (mem h c)"
    using w by (auto simp: get_trap_kind_def trap_words_def MEMORY_REF_def not_le)
  show "get_trap_kind h (mem h c) = TRAP_COMPILER_CACHED \<Longrightarrow> GET_TRAP_CACHE m (mem h c) = GET_TRAP_CACHE h (mem h c)"
    using w by (auto simp: get_trap_kind_def GET_TRAP_CACHE_def trap_words_def MEMORY_REF_def TRAP_MAX_IMMEDIATE_def split: if_splits)
qed

lemma alike_value_cell:
  assumes "alike W m h" "cell_words h c \<inter> W = {}"
  shows "value_cell m c = value_cell h c" "mem m (value_cell h c) = mem h (value_cell h c)"
    "get_trap_kind m (mem h (value_cell h c)) = get_trap_kind h (mem h (value_cell h c))"
proof -
  have c: "c \<notin> W" "trap_words h c \<inter> W = {}" "value_cell h c \<notin> W" "trap_words h (value_cell h c) \<inter> W = {}"
    using assms(2) by (auto simp: cell_words_def)
  note k = alike_trap_kind [OF assms(1) c(2,1)]
  show "value_cell m c = value_cell h c" using k by (auto simp: value_cell_def)
  show "mem m (value_cell h c) = mem h (value_cell h c)" "get_trap_kind m (mem h (value_cell h c)) = get_trap_kind h (mem h (value_cell h c))"
    using alike_trap_kind [OF assms(1) c(4,3)] by simp_all
qed

lemma lookup_performs:
  assumes "env_chain h env fs" "SYMBOL_P symbol" "first_cell h symbol fs = Some c"
    and vis: "bindings_visible W h symbol fs" "cell_words h c \<inter> W = {}"
  shows "performs W (lookup_variable env symbol) h (value_result h (mem h (value_cell h c))) h"
  unfolding performs_def
proof (intro allI impI)
  fix m assume m: "alike W m h"
  note b = same_bindings_cong [OF alike_same_bindings [OF m vis(1)]] and a = alike_value_cell [OF m vis(2)]
  have "value_result m (mem m (value_cell m c)) = value_result h (mem h (value_cell h c))"
    by (simp only: a value_result_def Let_def)
  then have "lookup_variable env symbol m = Some (Inr (value_result h (mem h (value_cell h c))), m)"
    using lookup_variable_correct [OF b(1) [OF assms(1)] assms(2)] assms(3) b(2) by simp
  then show "\<exists>m'. lookup_variable env symbol m = Some (Inr (value_result h (mem h (value_cell h c))), m') \<and> alike W m' h \<and> (\<forall>a\<in>W. mem m' a = mem m a)"
    using m by blast
qed

text \<open>The object that stands for an unassigned variable is read from the fixed objects.\<close>

lemma assign_performs:
  assumes "env_chain h env fs" "first_cell h symbol fs = Some c"
    and vis: "bindings_visible W h symbol fs" "cell_words h c \<inter> W = {}" "VECTOR_LOC (fixed_objects h) NON_OBJECT \<notin> W"
  defines "a \<equiv> value_cell h c"
  shows "performs W (assign_variable env symbol v) h (assign_result h (mem h a))
    (if fst (assign_result h (mem h a)) = PRIM_DONE then write_word a (MAP_TO_UNASSIGNED h v) h else h)"
  unfolding performs_def
proof (intro allI impI)
  fix m assume m: "alike W m h"
  note b = same_bindings_cong [OF alike_same_bindings [OF m vis(1)]] and k = alike_value_cell [OF m vis(2)]
  have cell: "first_cell m symbol fs = Some c" using b(2) assms(2) by simp
  have ext: "EXTERNAL_UNASSIGNED_OBJECT m = EXTERNAL_UNASSIGNED_OBJECT h"
    using alike_mem [OF m vis(3)] alike_fields(9) [OF m] by (simp add: EXTERNAL_UNASSIGNED_OBJECT_def VECTOR_REF_def VECTOR_LOC_def MEMORY_REF_def)
  then have maps: "MAP_TO_UNASSIGNED m = MAP_TO_UNASSIGNED h" "MAP_FROM_UNASSIGNED m = MAP_FROM_UNASSIGNED h"
    by (auto simp: MAP_TO_UNASSIGNED_def MAP_FROM_UNASSIGNED_def)
  have r: "assign_result m (mem h a) = assign_result h (mem h a)" using k(3) maps by (simp add: assign_result_def Let_def a_def)
  have "a \<notin> W" using vis(2) by (auto simp: cell_words_def a_def)
  then show "\<exists>m'. assign_variable env symbol v m = Some (Inr (assign_result h (mem h a)), m')
    \<and> alike W m' (if fst (assign_result h (mem h a)) = PRIM_DONE then write_word a (MAP_TO_UNASSIGNED h v) h else h) \<and> (\<forall>x\<in>W. mem m' x = mem m x)"
    using assign_variable_correct [OF b(1) [OF assms(1)] cell, of v] k r maps m alike_write [OF m, of a] unfolding a_def by auto
qed

lemma cons_performs:
  assumes W: "Free h \<notin> W" "Free h + 1 \<notin> W" and room: "\<not> GC_NEEDED_P h 2"
  shows "primitive_performs W (primitive_of_2 Prim_cons) [a, d] h (MAKE_POINTER_OBJECT TC_LIST (Free h))
    (push_list_free [a, d] (h\<lparr>Free_primitive := Free h\<rparr>))"
  unfolding primitive_performs_def
proof (intro allI impI, elim conjE)
  fix s :: interp assume m: "alike W (memory s) (h\<lparr>Free_primitive := Free h\<rparr>)" and args: "\<forall>i<length [a, d]. STACK_REF s i = [a, d] ! i"
  have ref: "ARG_REF s 1 = a" "ARG_REF s 2 = d" using args [rule_format, of 0] args [rule_format, of 1] by (simp_all add: ARG_REF_def)
  have Free: "Free (memory s) = Free h" using alike_fields(1) [OF m] by simp
  have gc: "\<not> GC_NEEDED_P (memory s) 2"
    using room unfolding alike_GC_NEEDED_P [OF m] by (simp add: GC_NEEDED_P_def HEAP_AVAILABLE_P_def FREE_OK_P_def GC_ENABLED_P_def)
  let ?m = "push_free d (push_free a (memory s))"
  have "primitive_of_2 Prim_cons s = Some (Inr (MAKE_POINTER_OBJECT TC_LIST (Free h)), s\<lparr>memory := ?m\<rparr>)"
    using ref gc Free by (simp add: primitive_of_2_def acting_def Prim_cons_def cons_def Primitive_GC_If_Needed_def andthen_def Let_def PRIMITIVE_RETURN_def push_free_def calling_def act_def)
  moreover have "alike W ?m (push_list_free [a, d] (h\<lparr>Free_primitive := Free h\<rparr>))"
    using alike_push_free [OF alike_push_free [OF m]] by (simp add: push_list_free_def)
  moreover have "\<forall>x\<in>W. mem ?m x = mem (memory s) x" using W Free by (auto simp: push_free_def)
  ultimately show "\<exists>m'. primitive_of_2 Prim_cons s = Some (Inr (MAKE_POINTER_OBJECT TC_LIST (Free h)), s\<lparr>memory := m'\<rparr>)
    \<and> alike W m' (push_list_free [a, d] (h\<lparr>Free_primitive := Free h\<rparr>)) \<and> (\<forall>x\<in>W. mem m' x = mem (memory s) x)" by blast
qed

section \<open>A small machine\<close>

definition sample_cons :: ulong where "sample_cons = MAKE_OBJECT TC_PRIMITIVE 7"
definition sample_five :: ulong where "sample_five = MAKE_OBJECT TC_FIXNUM 5"
definition sample_x :: ulong where "sample_x = MAKE_POINTER_OBJECT TC_INTERNED_SYMBOL 150"
definition sample_lambda :: ulong where "sample_lambda = MAKE_POINTER_OBJECT TC_LAMBDA 110"
definition sample_body :: ulong where "sample_body = MAKE_POINTER_OBJECT TC_COMBINATION 120"
definition sample_formals :: ulong where "sample_formals = MAKE_POINTER_OBJECT TC_VECTOR 130"
definition sample_variable :: ulong where "sample_variable = MAKE_POINTER_OBJECT TC_VARIABLE 140"
definition sample_program :: ulong where "sample_program = MAKE_POINTER_OBJECT TC_COMBINATION 100"
definition sample_procedure :: ulong where "sample_procedure = MAKE_POINTER_OBJECT TC_PROCEDURE 1000"
definition sample_frame :: ulong where "sample_frame = MAKE_POINTER_OBJECT TC_ENVIRONMENT 1002"

definition sample_words :: "(nat \<times> ulong) list" where
  "sample_words =
    [(100, 2), (101, sample_lambda), (102, sample_five), (110, sample_body), (111, sample_formals),
     (120, 3), (121, sample_cons), (122, sample_variable), (123, sample_variable),
     (130, 2), (132, sample_x), (140, sample_x), (141, SHARP_T),
     (200, MAKE_POINTER_OBJECT UNMARKED_HISTORY_TYPE 210), (201, MAKE_POINTER_OBJECT UNMARKED_HISTORY_TYPE 200),
     (202, MAKE_POINTER_OBJECT UNMARKED_HISTORY_TYPE 200), (212, MAKE_POINTER_OBJECT UNMARKED_HISTORY_TYPE 210),
     (5998, MAKE_RETURN_CODE RC_END_OF_COMPUTATION)]"

definition sample_machine :: machine where
  "sample_machine = \<lparr>mem = (\<lambda>a. case map_of sample_words a of None \<Rightarrow> 0 | Some w \<Rightarrow> w), heap_start = 1000, heap_end = 4000,
     heap_alloc_limit = 4000, Free = 1000, Free_primitive = 0, int_mask = 4, int_code = 0, gc_space_needed = 0,
     fixed_objects = MAKE_POINTER_OBJECT TC_VECTOR 300\<rparr>"

definition sample_state :: interp where
  "sample_state = \<lparr>memory = sample_machine, stack_pointer = 5998, stack_start = 5000, stack_end = 6000, stack_guard = 5010,
     reg_val = SHARP_F, reg_env = THE_GLOBAL_ENV, reg_exp = sample_program, reg_ret = SHARP_F, reg_primitive = SHARP_F,
     lexpr_actuals = 0, history_register = 200, prev_restore_history_offset = 0, trapping = False, critical_section = False, critical_section_hook_p = False,
     error_argument = SHARP_F, death_blow = 0, prim_apply_error_code = 0, interpreter_states = 2\<rparr>"

definition sample_table :: primitives where
  "sample_table n = (if n = 7 then \<lparr>primitive_procedure = Some (primitive_of_2 Prim_cons), primitive_arity = 2\<rparr>
     else \<lparr>primitive_procedure = None, primitive_arity = 0\<rparr>)"

definition sample_hidden :: "nat set" where
  "sample_hidden = {200..<206} \<union> {210..<213} \<union> {5000..<6000}"

lemmas sample_object_defs = sample_cons_def sample_five_def sample_x_def sample_lambda_def sample_body_def sample_formals_def
  sample_variable_def sample_program_def sample_procedure_def sample_frame_def

lemma addressable_small: "addressable (numeral k) \<longleftrightarrow> numeral k < (288230376151711744 :: nat)"
  by (simp add: addressable_def)

lemma sample_objects [simp]:
  "OBJECT_TYPE sample_cons = TC_PRIMITIVE" "OBJECT_TYPE sample_five = TC_FIXNUM" "OBJECT_TYPE sample_x = TC_INTERNED_SYMBOL"
  "OBJECT_TYPE sample_lambda = TC_LAMBDA" "OBJECT_TYPE sample_body = TC_COMBINATION" "OBJECT_TYPE sample_variable = TC_VARIABLE"
  "OBJECT_TYPE sample_program = TC_COMBINATION" "OBJECT_TYPE sample_procedure = TC_PROCEDURE" "OBJECT_TYPE sample_frame = TC_ENVIRONMENT"
  "OBJECT_ADDRESS sample_lambda = 110" "OBJECT_ADDRESS sample_body = 120" "OBJECT_ADDRESS sample_formals = 130"
  "OBJECT_ADDRESS sample_variable = 140" "OBJECT_ADDRESS sample_program = 100" "OBJECT_ADDRESS sample_procedure = 1000"
  "OBJECT_ADDRESS sample_frame = 1002" "OBJECT_ADDRESS sample_x = 150" "PRIMITIVE_NUMBER sample_cons = 7"
  by (simp_all add: sample_object_defs addressable_small PRIMITIVE_NUMBER_def)

lemma sample_fields [simp]:
  "Free sample_machine = 1000" "heap_start sample_machine = 1000" "heap_alloc_limit sample_machine = 4000"
  "int_mask sample_machine = 4" "int_code sample_machine = 0" "Free_primitive sample_machine = 0"
  "mem sample_machine a = (case map_of sample_words a of None \<Rightarrow> 0 | Some w \<Rightarrow> w)"
  by (simp_all add: sample_machine_def)

lemma sample_running: "running sample_hidden {200} {210} sample_machine sample_state"
  unfolding running_def hidden_layout_def history_ok_def history_words_def
  by (auto simp: sample_state_def sample_hidden_def sample_words_def addressable_small)

text \<open>The memories of the evaluation: the procedure made, the frame made, the pair made.\<close>

definition sample_h1 :: machine where "sample_h1 = push_list_free [sample_lambda, THE_GLOBAL_ENV] sample_machine"
definition sample_h2 :: machine where
  "sample_h2 = push_list_free [MAKE_OBJECT TC_MANIFEST_VECTOR (word_of_nat (length [sample_five] + 1)), sample_procedure, sample_five] sample_h1"
definition sample_h3 :: machine where
  "sample_h3 = (push_list_free [sample_five, sample_five] (sample_h2\<lparr>Free_primitive := Free sample_h2\<rparr>))\<lparr>Free_primitive := 0\<rparr>"

lemma sample_heaps [simp]:
  "Free sample_h1 = 1002" "Free sample_h2 = 1005" "int_mask sample_h1 = 4" "int_mask sample_h2 = 4" "int_code sample_h1 = 0" "int_code sample_h2 = 0"
  "heap_start sample_h1 = 1000" "heap_start sample_h2 = 1000" "heap_alloc_limit sample_h1 = 4000" "heap_alloc_limit sample_h2 = 4000"
  "mem sample_h1 a = (if a = 1001 then THE_GLOBAL_ENV else if a = 1000 then sample_lambda else mem sample_machine a)"
  "mem sample_h2 a = (if a = 1004 then sample_five else if a = 1003 then sample_procedure else if a = 1002 then 2 else mem sample_h1 a)"
  by (simp_all add: sample_h1_def sample_h2_def push_list_free_def push_free_def write_word_def MAKE_OBJECT_def)

lemma sample_visible:
  "visible sample_hidden x i \<longleftrightarrow> \<not> (200 \<le> OBJECT_ADDRESS x + i \<and> OBJECT_ADDRESS x + i < 206
     \<or> 210 \<le> OBJECT_ADDRESS x + i \<and> OBJECT_ADDRESS x + i < 213 \<or> 5000 \<le> OBJECT_ADDRESS x + i \<and> OBJECT_ADDRESS x + i < 6000)"
  by (auto simp: visible_def sample_hidden_def)

lemma sample_room:
  "n \<le> 2900 \<Longrightarrow> free_words sample_hidden sample_h1 n" "n \<le> 2900 \<Longrightarrow> \<not> GC_NEEDED_P sample_h2 n"
  by (auto simp: free_words_def sample_hidden_def GC_NEEDED_P_def HEAP_AVAILABLE_P_def FREE_OK_P_def)

lemma sample_frame_facts:
  "PROCEDURE_FRAME_P sample_frame" "\<not> EXTENDED_FRAME_P sample_h2 sample_frame"
  "GET_FRAME_PROCEDURE sample_h2 sample_frame = sample_procedure" "GET_FRAME_PARENT sample_h2 sample_frame = THE_GLOBAL_ENV"
  "GET_PROCEDURE_LAMBDA sample_h2 sample_procedure = sample_lambda" "GET_LAMBDA_FORMALS sample_h2 sample_lambda = sample_formals"
  "GET_LAMBDA_PARAMETERS sample_h2 sample_lambda = 132" "GET_LAMBDA_N_PARAMETERS sample_h2 sample_lambda = 1"
  by (simp_all add: PROCEDURE_FRAME_P_def EXTENDED_FRAME_P_def VECTOR_P_def GET_FRAME_PROCEDURE_def GET_FRAME_PARENT_def
      GET_PROCEDURE_ENVIRONMENT_def GET_PROCEDURE_LAMBDA_def GET_LAMBDA_FORMALS_def GET_LAMBDA_PARAMETERS_def GET_LAMBDA_N_PARAMETERS_def
      VECTOR_LENGTH_def MEMORY_REF_def sample_words_def OBJECT_DATUM_def)

lemma sample_chain: "env_chain sample_h2 sample_frame [sample_frame, THE_GLOBAL_ENV]"
  by (simp add: sample_frame_facts GLOBAL_FRAME_P_def)

lemma sample_cell:
  "first_cell sample_h2 sample_x [sample_frame, THE_GLOBAL_ENV] = Some 1004" "value_cell sample_h2 1004 = 1004" "trap_words sample_h2 1004 = {}"
  "value_result sample_h2 sample_five = (PRIM_DONE, Some sample_five)" "SYMBOL_P sample_x"
proof -
  have k: "\<not> REFERENCE_TRAP_P sample_five" "sample_five \<noteq> UNBOUND_OBJECT" by code_simp+
  have m: "mem sample_h2 1004 = sample_five" by simp
  have kind: "get_trap_kind sample_h2 sample_five = NON_TRAP_KIND" using k(1) by (simp add: get_trap_kind_def)
  then show "value_result sample_h2 sample_five = (PRIM_DONE, Some sample_five)" by (simp add: value_result_def Let_def)
  show "value_cell sample_h2 1004 = 1004" "trap_words sample_h2 1004 = {}" unfolding value_cell_def trap_words_def m kind using k(1) by simp_all
  have arg: "GET_FRAME_ARG_CELL sample_frame 0 = 1004" by (simp add: GET_FRAME_ARG_CELL_def)
  have "mem sample_h2 132 = sample_x" by (simp add: sample_words_def)
  then have "scan_parameters 1 132 sample_frame sample_x 0 False sample_h2 = Some 1004"
    using k(2) m arg by (simp add: Let_def numeral_eq_Suc del: sample_heaps)
  then have "frame_cell sample_h2 sample_frame sample_x False = Some 1004"
    by (simp add: frame_cell_def sample_frame_facts scan_procedure_bindings_def Let_def)
  then show "first_cell sample_h2 sample_x [sample_frame, THE_GLOBAL_ENV] = Some 1004" by simp
  show "SYMBOL_P sample_x" by (simp add: SYMBOL_P_def INTERNED_SYMBOL_P_def)
qed

lemma sample_bindings_visible: "bindings_visible sample_hidden sample_h2 sample_x [sample_frame, THE_GLOBAL_ENV]"
  by (auto simp: bindings_visible_def frame_words_def procedure_words_def argument_cells_def sample_frame_facts Let_def
      sample_hidden_def GET_FRAME_ARG_CELL_def PROCEDURE_FRAME_P_def THE_GLOBAL_ENV_def)

lemma sample_lookup: "evaluates tbl sample_hidden sample_frame sample_variable sample_h2 0 sample_five sample_h2"
proof (rule Variable)
  have "cell_words sample_h2 1004 \<inter> sample_hidden = {}" by (simp add: cell_words_def sample_cell sample_hidden_def)
  moreover have "VARIABLE_SYMBOL sample_h2 sample_variable = sample_x" by (simp add: VARIABLE_SYMBOL_def MEMORY_REF_def sample_words_def)
  ultimately show "performs sample_hidden (lookup_variable sample_frame (VARIABLE_SYMBOL sample_h2 sample_variable)) sample_h2
      (PRIM_DONE, Some sample_five) sample_h2"
    using lookup_performs [OF sample_chain sample_cell(5,1) sample_bindings_visible]
    by (simp only: sample_cell sample_heaps) (simp add: sample_cell)
qed (simp_all add: sample_visible)

lemma sample_operand: "evaluates tbl sample_hidden env sample_five h 0 sample_five h" "evaluates tbl sample_hidden env sample_cons h 0 sample_cons h"
  by (rule Self, simp add: self_evaluating_def)+

lemma sample_lambda_value:
  "evaluates tbl sample_hidden THE_GLOBAL_ENV sample_lambda sample_machine 0 sample_procedure sample_h1"
  using Lambda [of sample_lambda sample_hidden sample_machine tbl THE_GLOBAL_ENV]
  by (simp add: pair_at_free_def sample_hidden_def sample_h1_def sample_procedure_def)

lemma sample_body_operands: "operands tbl sample_hidden sample_frame sample_body 2 sample_h2 0 [sample_five, sample_five] sample_h2"
proof -
  have slots: "MEMORY_REF sample_h2 sample_body (Suc (Suc (Suc 0))) = sample_variable" "MEMORY_REF sample_h2 sample_body (Suc (Suc 0)) = sample_variable"
    by (simp_all add: MEMORY_REF_def sample_words_def)
  have one: "operands tbl sample_hidden sample_frame sample_body (Suc 0) sample_h2 (max 0 0) ([] @ [sample_five]) sample_h2"
    by (rule Operand [OF _ _ No_Operands]) (simp_all add: sample_visible slots sample_lookup del: add_Suc add_0_left)
  have "operands tbl sample_hidden sample_frame sample_body (Suc (Suc 0)) sample_h2 (max 0 (max 0 0)) (([] @ [sample_five]) @ [sample_five]) sample_h2"
    by (rule Operand [OF _ _ one]) (simp_all add: sample_visible slots sample_lookup del: add_Suc add_0_left)
  then show ?thesis by (simp add: numeral_2_eq_2)
qed

lemma sample_cons_applied:
  "applies sample_table sample_hidden sample_cons [sample_five, sample_five] sample_h2 0 (MAKE_POINTER_OBJECT TC_LIST 1005) sample_h3"
proof -
  have "primitive_performs sample_hidden (primitive_of_2 Prim_cons) [sample_five, sample_five] sample_h2 (MAKE_POINTER_OBJECT TC_LIST (Free sample_h2))
      (push_list_free [sample_five, sample_five] (sample_h2\<lparr>Free_primitive := Free sample_h2\<rparr>))"
    by (rule cons_performs) (simp_all add: sample_room, simp_all add: sample_hidden_def)
  from Apply_Primitive [OF _ _ _ _ this, of sample_cons sample_table] show ?thesis
    by (simp add: sample_table_def PENDING_INTERRUPTS_def sample_h3_def)
qed

lemma sample_body_evaluates:
  "evaluates sample_table sample_hidden sample_frame sample_body sample_h2 6 (MAKE_POINTER_OBJECT TC_LIST 1005) sample_h3"
proof -
  have op: "MEMORY_REF sample_h2 sample_body 1 = sample_cons" "unat (VECTOR_LENGTH sample_h2 sample_body) = 2 + 1"
    by (simp_all add: MEMORY_REF_def VECTOR_LENGTH_def OBJECT_DATUM_def sample_words_def)
  have "evaluates sample_table sample_hidden sample_frame (MEMORY_REF sample_h2 sample_body 1) sample_h2 0 sample_cons sample_h2"
    unfolding op(1) by (rule sample_operand)
  from Combination [OF _ _ op(2) sample_body_operands _ this refl sample_cons_applied] show ?thesis by (simp add: sample_visible)
qed

lemma sample_applied:
  "applies sample_table sample_hidden sample_procedure [sample_five] sample_h1 6 (MAKE_POINTER_OBJECT TC_LIST 1005) sample_h3"
proof (rule Apply_Procedure [where lambda = sample_lambda and n = 2])
  show "evaluates sample_table sample_hidden (MAKE_POINTER_OBJECT TC_ENVIRONMENT (Free sample_h1)) (MEMORY_REF sample_h2 sample_lambda 0)
      sample_h2 6 (MAKE_POINTER_OBJECT TC_LIST 1005) sample_h3"
    using sample_body_evaluates by (simp add: sample_frame_def MEMORY_REF_def sample_words_def)
  show "2 = unat (VECTOR_LENGTH sample_h1 (MEMORY_REF sample_h1 sample_lambda 1))"
    by (simp add: MEMORY_REF_def VECTOR_LENGTH_def OBJECT_DATUM_def sample_words_def)
qed (simp_all add: sample_visible PENDING_INTERRUPTS_def MEMORY_REF_def sample_words_def sample_room sample_h2_def)

text \<open>\<open>((lambda (x) (cons x x)) 5)\<close> gives a pair of fives, in six words of stack.\<close>

lemma sample_program_evaluates:
  "evaluates sample_table sample_hidden THE_GLOBAL_ENV sample_program sample_machine 6 (MAKE_POINTER_OBJECT TC_LIST 1005) sample_h3"
proof -
  have op: "MEMORY_REF sample_machine sample_program 1 = sample_lambda" "unat (VECTOR_LENGTH sample_machine sample_program) = 1 + 1"
    "MEMORY_REF sample_machine sample_program (Suc (Suc 0)) = sample_five"
    by (simp_all add: MEMORY_REF_def VECTOR_LENGTH_def OBJECT_DATUM_def sample_words_def)
  have "operands sample_table sample_hidden THE_GLOBAL_ENV sample_program (Suc 0) sample_machine (max 0 0) ([] @ [sample_five]) sample_machine"
    by (rule Operand [OF _ _ No_Operands]) (simp_all add: sample_visible op(3) sample_operand del: add_0_left)
  then have ops: "operands sample_table sample_hidden THE_GLOBAL_ENV sample_program 1 sample_machine 0 [sample_five] sample_machine" by simp
  have "evaluates sample_table sample_hidden THE_GLOBAL_ENV (MEMORY_REF sample_machine sample_program 1) sample_machine 0 sample_procedure sample_h1"
    unfolding op(1) by (rule sample_lambda_value)
  from Combination [OF _ _ op(2) ops _ this refl sample_applied] show ?thesis by (simp add: sample_visible)
qed

end
