(* ===== verification/Handler_Correct.thy ===== *)
theory Handler_Correct
  imports Control_Correct
begin

text \<open>
  Interrupts and errors in the middle of an evaluation: the handler is a procedure whose
  application the evaluation relation describes; when it returns, the interpreter goes on
  where it was, with the memory the handler left.
\<close>

section \<open>Fixed objects\<close>

definition fixed_at :: "nat set \<Rightarrow> machine \<Rightarrow> nat \<Rightarrow> ulong \<Rightarrow> bool" where
  "fixed_at W h i x \<longleftrightarrow> VECTOR_P (fixed_objects h) \<and> visible W (fixed_objects h) (i + 1) \<and> VECTOR_REF h (fixed_objects h) i = x"

definition vector_slot :: "nat set \<Rightarrow> machine \<Rightarrow> ulong \<Rightarrow> nat \<Rightarrow> ulong \<Rightarrow> bool" where
  "vector_slot W h v i x \<longleftrightarrow> VECTOR_P v \<and> visible W v 0 \<and> i < unat (VECTOR_LENGTH h v) \<and> visible W v (i + 1) \<and> VECTOR_REF h v i = x"

lemma fixed_at_object:
  assumes "running W V R h s" "fixed_at W h i x"
  shows "FIXED_OBJECTS_P s" "FIXED_OBJECT s i = x"
  using assms(2) alike_fields(9) [OF runningD(1) [OF assms(1)]] alike_MEMORY_REF [OF runningD(1) [OF assms(1)], of "fixed_objects h" "i + 1"]
  by (simp_all add: fixed_at_def FIXED_OBJECTS_P_def FIXED_OBJECT_def VECTOR_REF_def visible_def)

lemma vector_slot_object:
  assumes "running W V R h s" "vector_slot W h v i x"
  shows "VECTOR_P v" "i < unat (VECTOR_LENGTH (memory s) v)" "VECTOR_REF (memory s) v i = x"
  using assms(2) alike_MEMORY_REF [OF runningD(1) [OF assms(1)], of v 0] alike_MEMORY_REF [OF runningD(1) [OF assms(1)], of v "i + 1"]
  by (simp_all add: vector_slot_def VECTOR_LENGTH_def VECTOR_REF_def visible_def)

definition dummy_in :: "nat set \<Rightarrow> nat set \<Rightarrow> machine \<Rightarrow> bool" where
  "dummy_in W V h \<longleftrightarrow> OBJECT_ADDRESS (VECTOR_REF h (fixed_objects h) DUMMY_HISTORY) \<in> V
     \<and> fixed_at W h DUMMY_HISTORY (VECTOR_REF h (fixed_objects h) DUMMY_HISTORY)"

lemma running_dummy:
  assumes "running W V R h s" "dummy_in W V h"
  shows "OBJECT_ADDRESS (READ_DUMMY_HISTORY s) \<in> V"
proof -
  have d: "fixed_at W h DUMMY_HISTORY (VECTOR_REF h (fixed_objects h) DUMMY_HISTORY)" using assms(2) by (simp add: dummy_in_def)
  show ?thesis using assms(2) unfolding READ_DUMMY_HISTORY_def fixed_at_object(2) [OF assms(1) d] by (simp add: dummy_in_def)
qed

section \<open>The handler runs in a state of its own\<close>

lemma running_history:
  "running W V R h s \<Longrightarrow> x \<in> V \<Longrightarrow> running W V R h (s\<lparr>history_register := x\<rparr>)"
  "running W V R h (s\<lparr>prev_restore_history_offset := n\<rparr>) = running W V R h s"
  by (auto simp: running_def intro: history_ok_move)

lemma alike_mask: "alike W m h \<Longrightarrow> alike W (m\<lparr>int_mask := w\<rparr>) (h\<lparr>int_mask := w\<rparr>)"
  by (cases m; cases h) (simp add: alike_def)

lemma running_mask:
  assumes "running W V R h s" shows "running W V R (h\<lparr>int_mask := w\<rparr>) (on_memory (SET_INTERRUPT_MASK w) s)"
proof -
  have "alike W ((memory s)\<lparr>int_mask := w\<rparr>) (h\<lparr>int_mask := w\<rparr>)"
    by (rule alike_mask [OF runningD(1) [OF assms]])
  from running_visible(1) [OF assms this] show ?thesis by (simp add: on_memory_def SET_INTERRUPT_MASK_def)
qed

lemma running_history_saved:
  assumes s: "running W V R h s" "dummy_in W V h" "stack_guard s + 4 \<le> stack_pointer s"
  shows "running W V R h (history_saved s)"
proof -
  let ?t = "SAVE_CONT (SET_RC RC_RESTORE_DONT_COPY_HISTORY (SET_EXP (MAKE_POINTER_OBJECT UNMARKED_HISTORY_TYPE (history_register s))
          (STACK_PUSH (ULONG_TO_FIXNUM (prev_restore_history_offset s)) (STACK_PUSH SHARP_F s))))"
  have t: "running W V R h ?t" by (rule running_SAVE_CONT, simp, intro running_PUSH) (use s in simp_all)
  show ?thesis unfolding history_saved_def Let_def
    using running_history(1) [OF t running_dummy [OF t s(2)]] by (simp add: running_history(2))
qed

lemma running_handler_state:
  assumes s: "running W V R h s" "dummy_in W V h" "stack_guard s + 10 \<le> stack_pointer s"
  shows "running W V R (h\<lparr>int_mask := w\<rparr>) (handler_state x handler w s)"
proof -
  let ?h = "history_saved s" and ?m = "mask_saved (history_saved s)"
  note h = history_saved_facts [of s] and m = mask_saved_facts [of ?h]
  have "running W V R h ?h" using s by (intro running_history_saved) simp_all
  then have "running W V R h ?m" unfolding mask_saved_def using s h by (intro running_SAVE_CONT) simp_all
  then show ?thesis unfolding handler_state_def handler_applied_def Let_def PUSH_APPLY_FRAME_HEADER_def
    by (intro running_mask running_PUSH) (use s h m in simp_all)
qed


lemma handler_frame_on:
  assumes "handler_called s handler y w t" "stack_pointer s \<le> stack_end s" "10 \<le> stack_pointer s"
  shows "frame_on handler [y, ULONG_TO_FIXNUM (int_mask (memory s))] t"
proof -
  have "STACK_REF t i = handler_words s handler y ! i" if "i < 10" for i using assms(1) that by (simp add: handler_called_def)
  from this [of 0] this [of 1] this [of 2] this [of 3]
  have "STACK_REF t 0 = MAKE_OBJECT 0 3" "STACK_REF t 1 = handler" "STACK_REF t 2 = y" "STACK_REF t 3 = ULONG_TO_FIXNUM (int_mask (memory s))"
    by (simp_all add: handler_words_def)
  moreover from this have "STACK_REF t (2 + i) = [y, ULONG_TO_FIXNUM (int_mask (memory s))] ! i" if "i < 2" for i
    using that by (auto simp: less_Suc_eq numeral_2_eq_2 numeral_3_eq_3)
  moreover have "OBJECT_DATUM (MAKE_OBJECT 0 3 :: ulong) = 3" by code_simp
  ultimately show ?thesis using assms
    by (simp add: frame_on_def APPLY_FRAME_SIZE_def APPLY_FRAME_PROCEDURE_def handler_called_def)
qed

text \<open>
  The handler returns under the old mask: no interrupt is pending that the mask lets through,
  and there is room in the heap.
\<close>

definition clears :: "machine \<Rightarrow> machine \<Rightarrow> bool" where
  "clears h h1 \<longleftrightarrow> int_code h1 AND int_mask h = 0 \<and> \<not> GC_NEEDED_P (h1\<lparr>int_mask := int_mask h\<rparr>) 0"

definition sane_masks :: "interp \<Rightarrow> bool" where
  "sane_masks s \<longleftrightarrow> int_mask (memory s) \<le> INT_Mask \<and> uint (prev_restore_history_offset s) < 2 ^ 58"

lemma handler_round_trip:
  assumes s: "running W V R h s" "dummy_in W V h" "sane_masks s" "stack_guard s + 10 + n \<le> stack_pointer s"
    and t: "handler_called s handler y w (handler_state x handler w s)"
    and app: "applies tbl W handler [y, ULONG_TO_FIXNUM (int_mask h)] (h\<lparr>int_mask := w\<rparr>) n r h1" and clear: "clears h h1"
  shows "\<exists>v. reaches tbl (internal_apply, handler_state x handler w s) (pop_return, v)
     \<and> running W V R (h1\<lparr>int_mask := int_mask h\<rparr>) v \<and> same_stack s v \<and> history_register v = history_register s"
proof -
  let ?t = "handler_state x handler w s" and ?mask = "int_mask h"
  have mask: "int_mask (memory s) = ?mask" using alike_fields(6) [OF runningD(1) [OF s(1)]] .
  note sp = runningD(5,8) [OF s(1)]
  have sp10: "10 \<le> stack_pointer s" using s(4) by simp
  have run: "running W V R (h\<lparr>int_mask := w\<rparr>) ?t" using s by (intro running_handler_state) simp_all
  have frame: "frame_on handler [y, ULONG_TO_FIXNUM ?mask] ?t" using handler_frame_on [OF t sp(1) sp10] mask by simp
  have tc: "stack_pointer ?t = stack_pointer s - 10" "stack_guard ?t = stack_guard s" "stack_end ?t = stack_end s"
    using t by (simp_all add: handler_called_def)
  have "stack_guard ?t + n \<le> stack_pointer ?t + 2 + length [y, ULONG_TO_FIXNUM ?mask]" using tc s(4) by simp
  then have "runs_to tbl W V R (internal_apply, ?t) (STACK_DROP (2 + length [y, ULONG_TO_FIXNUM ?mask]) ?t) h1 r"
    using evaluation_runs(3) [OF app, of V R] run frame unfolding sim_apply_def by blast
  then obtain u where u: "reaches tbl (internal_apply, ?t) (pop_return, u)" "running W V R h1 u" "same_stack (STACK_DROP 4 ?t) u"
    unfolding runs_to_def by auto
  have code: "int_code (memory u) = int_code h1" using alike_fields(7) [OF runningD(1) [OF u(2)]] .
  have gc: "\<not> GC_NEEDED_P ((memory u)\<lparr>int_mask := ?mask\<rparr>) 0"
    using clear alike_fields [OF alike_mask [OF runningD(1) [OF u(2)], of ?mask]]
    by (simp add: clears_def GC_NEEDED_P_def HEAP_AVAILABLE_P_def FREE_OK_P_def GC_ENABLED_P_def)
  have returns: "handler_returns s ?t u"
    using u(2,3) code gc clear mask tc sp sp10 same_stackD [OF u(3)] runningD(6) [OF u(2)] same_stack_REF [OF u(3)]
    by (auto simp: handler_returns_def clears_def same_stack_def)
  have save: "saveable s"
    using s(1,3) runningD(2,3) [OF s(1)] by (auto simp: saveable_def sane_masks_def hidden_layout_def history_ok_def)
  obtain v where v: "reaches tbl (pop_return, u) (pop_return, v)" "restored_to s v" "memory v = (memory u)\<lparr>int_mask := int_mask (memory s)\<rparr>"
    "control_part v = control_part (u\<lparr>prev_restore_history_offset := prev_restore_history_offset s\<rparr>)"
    using handler_returned [OF t sp10 sp(1) save returns] by blast
  have "control_part u = control_part ?t" using u(3) by (simp add: same_stack_def)
  then have ctl: "control_part v = control_part s"
    using v(4) handler_state_control [where x = x and handler = handler and w = w and s = s and n = "prev_restore_history_offset s"] by (simp add: control_part_def)
  have same: "same_stack s v" using v(2) ctl by (simp add: same_stack_def restored_to_def)
  have "alike W (memory v) (h1\<lparr>int_mask := ?mask\<rparr>)" unfolding v(3) mask by (rule alike_mask [OF runningD(1) [OF u(2)]])
  moreover have "history_ok V R (memory v) (history_register v)"
  proof (rule history_ok_other)
    have "history_register v \<in> V" using v(2) runningD(3) [OF s(1)] by (simp add: restored_to_def history_ok_def)
    then show "history_ok V R (memory u) (history_register v)" by (rule history_ok_move [OF runningD(3) [OF u(2)]])
  qed (simp add: v(3))
  ultimately have "running W V R (h1\<lparr>int_mask := ?mask\<rparr>) v"
    using s(1) control_partD [OF ctl] v(2) by (simp add: running_def restored_to_def)
  moreover have "history_register v = history_register s" using v(2) by (simp add: restored_to_def)
  ultimately show ?thesis using same reaches_trans [OF u(1) v(1)] by blast
qed

section \<open>The number and the mask of an interrupt\<close>

text \<open>The interrupt of the lowest bit is serviced first, with itself masked.\<close>

lemma AND_bit_zero: "x AND push_bit n 1 = 0 \<longleftrightarrow> \<not> bit x n" if "n < 64" for x :: ulong
proof
  assume "x AND push_bit n 1 = 0"
  then have "\<not> bit (x AND push_bit n 1) n" by simp
  then show "\<not> bit x n" using that by (simp add: bit_simps)
next
  assume n: "\<not> bit x n"
  show "x AND push_bit n 1 = 0"
  proof (rule bit_eqI)
    fix i show "bit (x AND push_bit n 1) i = bit (0 :: ulong) i" using n by (cases "i = n") (auto simp: bit_simps)
  qed
qed

lemma interrupt_number_spec:
  assumes "n \<le> 16" "\<forall>j<n. \<not> bit x j"
  shows "let r = interrupt_number_loop x n (push_bit n 1) in r \<le> 16 \<and> (\<forall>j<r. \<not> bit x j) \<and> (r \<le> 15 \<longrightarrow> bit x r)"
  using assms
proof (induction "16 - n" arbitrary: n)
  case 0
  then show ?case by (simp add: interrupt_number_loop.simps [of x 16])
next
  case (Suc k)
  show ?case
  proof (cases "bit x n")
    case True
    then show ?thesis using Suc.prems Suc.hyps(2) AND_bit_zero [of n x] by (simp add: interrupt_number_loop.simps [of x n])
  next
    case False
    have "interrupt_number_loop x n (push_bit n 1) = interrupt_number_loop x (n + 1) (push_bit (n + 1) 1)"
    proof -
      have "n \<le> MAX_INTERRUPT_NUMBER \<and> x AND push_bit n 1 = 0" using False Suc.hyps(2) AND_bit_zero [of n x] by simp
      moreover have "push_bit 1 (push_bit n 1) = (push_bit (n + 1) 1 :: ulong)" by (simp add: push_bit_push_bit)
      ultimately show ?thesis by (simp only: interrupt_number_loop.simps [of x n] if_True simp_thms)
    qed
    moreover have "\<forall>j<n + 1. \<not> bit x j" using False Suc.prems(2) by (auto simp: less_Suc_eq)
    ultimately show ?thesis using Suc.hyps(1) [of "n + 1"] Suc.hyps(2) by simp
  qed
qed

lemma interrupt_number_lowest:
  assumes "x \<noteq> 0" "x AND INT_Mask = x"
  shows "bit x (compute_interrupt_number x)" "j < compute_interrupt_number x \<Longrightarrow> \<not> bit x j" "compute_interrupt_number x \<le> 15"
proof -
  have r: "compute_interrupt_number x \<le> 16" "\<forall>j<compute_interrupt_number x. \<not> bit x j" "compute_interrupt_number x \<le> 15 \<Longrightarrow> bit x (compute_interrupt_number x)"
    using interrupt_number_spec [of 0 x] by (auto simp: compute_interrupt_number_def Let_def)
  obtain i where i: "bit x i" using assms(1) by (auto simp: bit_eq_iff)
  then have "bit (x AND INT_Mask) i" using assms(2) by simp
  moreover have "INT_Mask = mask 16" by (simp add: INT_Mask_def mask_eq_exp_minus_1)
  ultimately have "bit (x AND mask 16) i" by simp
  then have "i < 16" by (simp only: bit_and_iff bit_mask_iff)
  then show k: "compute_interrupt_number x \<le> 15" using r(2) i by (cases "compute_interrupt_number x \<le> 15") auto
  from r(3) [OF this] show "bit x (compute_interrupt_number x)" .
  show "j < compute_interrupt_number x \<Longrightarrow> \<not> bit x j" using r(2) by blast
qed

lemma handler_masks_itself:
  assumes "compute_interrupt_handler_mask m masks k = Some w" "k \<le> 15"
  shows "\<not> bit w k"
proof -
  have d: "\<not> bit (push_bit k 1 - 1 :: ulong) k" using bit_mask_iff [of k k, where 'a = ulong] by (simp add: mask_eq_exp_minus_1)
  have n: "\<not> bit (v AND NOT (push_bit k 1)) k" for v :: ulong using assms(2) by (simp add: bit_simps)
  show ?thesis using assms d n
    by (auto simp: compute_interrupt_handler_mask_def Let_def simp del: push_bit_of_1 split: if_splits object.splits bind_splits)
qed

section \<open>Interrupted applications\<close>

definition interrupt_procedure :: "nat set \<Rightarrow> machine \<Rightarrow> nat \<Rightarrow> ulong \<Rightarrow> ulong \<Rightarrow> bool" where
  "interrupt_procedure W h k handler w \<longleftrightarrow>
     (\<exists>v masks. fixed_at W h SYSTEM_INTERRUPT_VECTOR v \<and> vector_slot W h v k handler
        \<and> fixed_at W h FIXOBJ_INTERRUPT_MASK_VECTOR masks \<and> (\<forall>m. alike W m h \<longrightarrow> compute_interrupt_handler_mask m masks k = Some w))"

lemma interrupt_set_up:
  assumes s: "running W V R h s" "stack_guard s + 10 \<le> stack_pointer s" and k: "compute_interrupt_number i = k" "interrupt_procedure W h k handler w"
  shows "setup_interrupt i c s = c (handler_state (\<lambda>s. ULONG_TO_FIXNUM (int_code (memory s))) handler w s)" (is ?code)
    and "handler_called s handler (ULONG_TO_FIXNUM (int_code h)) w (handler_state (\<lambda>s. ULONG_TO_FIXNUM (int_code (memory s))) handler w s)" (is ?called)
proof -
  obtain v masks where v: "fixed_at W h SYSTEM_INTERRUPT_VECTOR v" "vector_slot W h v k handler" "fixed_at W h FIXOBJ_INTERRUPT_MASK_VECTOR masks"
    "compute_interrupt_handler_mask (memory s) masks k = Some w"
    using k(2) runningD(1) [OF s(1)] unfolding interrupt_procedure_def by blast
  note f = fixed_at_object [OF s(1) v(1)] fixed_at_object [OF s(1) v(3)] vector_slot_object [OF s(1) v(2)]
  have code: "int_code (memory s) = int_code h" using alike_fields(7) [OF runningD(1) [OF s(1)]] .
  have room: "CAN_PUSH_P s 10" "10 \<le> stack_pointer s" using s(2) by (simp_all add: CAN_PUSH_P_def)
  have x: "ULONG_TO_FIXNUM (int_code (memory t)) = ULONG_TO_FIXNUM (int_code h)" if "int_code (memory t) = int_code (memory s)" for t :: interp
    using that code by simp
  show ?called by (rule handler_frame(2) [OF room]) (rule x)
  have "setup_interrupt i c s = stop_history (preserve_interrupt_mask (Will_Push (STACK_ENV_EXTRA_SLOTS + 3)
      (doing_all [\<lambda>s. STACK_PUSH (ULONG_TO_FIXNUM (int_mask (memory s))) s, \<lambda>s. STACK_PUSH (ULONG_TO_FIXNUM (int_code (memory s))) s,
        STACK_PUSH handler, PUSH_APPLY_FRAME_HEADER 2, on_memory (SET_INTERRUPT_MASK w)] c))) s"
    unfolding setup_interrupt_def Let_def k(1) using f v(4) by simp
  then show ?code by (simp only: handler_frame(1) [OF room x])
qed

lemma perform_after_internal:
  assumes "reaches tbl (internal_apply, t) (pop_return, u)" "\<not> trapping t" "PENDING_INTERRUPTS (memory t) = 0"
  shows "reaches tbl (perform_application, t) (pop_return, u)"
proof -
  have "step tbl internal_apply t = Some (Inr Apply_Non_Trapping, t)" "step tbl Apply_Non_Trapping t = Some (Inr perform_application, t)"
    using assms(2,3) by (simp_all add: step_def STEPPING_def goto_def deliver_def Apply_Non_Trapping_block_def PENDING_INTERRUPTS_P_def)
  then show ?thesis using assms(1) by (auto elim!: reaches.cases [of tbl "(internal_apply, t)"] reaches.cases [of tbl "(Apply_Non_Trapping, t)"])
qed

lemma frame_on_same: "frame_on f args s \<Longrightarrow> same_stack s t \<Longrightarrow> frame_on f args t"
  using same_stackD [of s t] unfolding frame_on_def APPLY_FRAME_SIZE_def APPLY_FRAME_PROCEDURE_def same_stack_def
  by (auto simp: numeral_2_eq_2)

text \<open>The operator in the value register takes its place in the frame.\<close>

lemma operator_in_frame:
  assumes d: "running W V R h d" "frame_on g args d" "reg_val d = f"
  defines "e \<equiv> SET_APPLY_FRAME_PROCEDURE f d"
  shows "interpret_at tbl internal_apply_val d = Some (Inr internal_apply, e)" "running W V R h e" "frame_on f args e"
    "same_stack (STACK_DROP (2 + length args) d) (STACK_DROP (2 + length args) e)" "stack_pointer e = stack_pointer d" "control_part e = control_part d"
    "history_register e = history_register d" "g = f \<Longrightarrow> same_stack d e"
proof -
  note fr = frame_onD [OF d(2)]
  show "interpret_at tbl internal_apply_val d = Some (Inr internal_apply, e)" using d(3) by (simp add: e_def)
  have at: "stack_pointer d + 1 < stack_end d" using fr(5) by simp
  show "running W V R h e" unfolding e_def SET_APPLY_FRAME_PROCEDURE_def using running_SET [OF d(1) at] by simp
  show c: "stack_pointer e = stack_pointer d" "control_part e = control_part d" by (simp_all add: e_def SET_APPLY_FRAME_PROCEDURE_def)
  have ref: "STACK_REF e i = (if i = 1 then f else STACK_REF d i)" for i by (simp add: e_def SET_APPLY_FRAME_PROCEDURE_def)
  show "frame_on f args e" using d(2) c control_partD [OF c(2)] ref by (simp add: frame_on_def APPLY_FRAME_SIZE_def APPLY_FRAME_PROCEDURE_def)
  show "same_stack (STACK_DROP (2 + length args) d) (STACK_DROP (2 + length args) e)" using c ref by (simp add: same_stack_def)
  show "history_register e = history_register d" by (simp add: e_def SET_APPLY_FRAME_PROCEDURE_def STACK_SET_def)
  have "STACK_REF d 1 = g" using d(2) by (simp add: frame_on_def APPLY_FRAME_PROCEDURE_def)
  then show "same_stack d e" if "g = f" using c ref that by (simp add: same_stack_def)
qed

definition application_saved :: "ulong \<Rightarrow> ulong \<Rightarrow> interp \<Rightarrow> interp" where
  "application_saved rc x s = SAVE_CONT (SET_EXP x (SET_RC rc (SAVE_CONT (SET_RC RC_INTERNAL_APPLY_VAL (SET_EXP SHARP_F s)))))"

lemma RESTORE_CONT_history: "history_register (RESTORE_CONT s) = history_register s"
  by (simp add: RESTORE_CONT_def POP_EXP_def POP_RET_def STACK_DROP_def register_defs)

lemma application_resumed:
  assumes s: "running W V R h0 s" "stack_guard s + 4 \<le> stack_pointer s" and rc: "rc = RC_RESTORE_VALUE \<or> rc = RC_POP_RETURN_ERROR"
    and v: "running W V R h v" "same_stack (application_saved rc x s) v"
  shows "\<exists>d. reaches tbl (pop_return, v) (internal_apply_val, d) \<and> running W V R h d \<and> same_stack s d \<and> reg_val d = x
    \<and> history_register d = history_register v"
proof -
  let ?a = "SET_RC RC_INTERNAL_APPLY_VAL (SET_EXP SHARP_F s)"
  let ?b = "SET_EXP x (SET_RC rc (SAVE_CONT ?a))"
  have a: "running W V R h0 ?a" "stack_guard ?a + 2 \<le> stack_pointer ?a" using s by simp_all
  have b: "running W V R h0 ?b" "stack_guard ?b + 2 \<le> stack_pointer ?b"
    using running_SAVE_CONT [OF a] s control_partD [of "SAVE_CONT ?a" ?a] by simp_all
  note rb = restored [OF b v(2) [unfolded application_saved_def] v(1)]
  let ?c = "SET_VAL x (RESTORE_CONT v)"
  have rv: "reg_exp (RESTORE_CONT v) = x" "reg_ret (RESTORE_CONT v) = MAKE_RETURN_CODE rc" using rb(2,3) by simp_all
  have c: "return_dispatch v = Some (Inr pop_return, ?c)"
    using rv rc by (auto simp: return_dispatch_def Let_def)
  have ra: "same_stack (SAVE_CONT ?a) ?c" "running W V R h ?c" using rb(1,4) by simp_all
  note rc' = restored [OF a ra]
  have d: "return_dispatch ?c = Some (Inr internal_apply_val, RESTORE_CONT ?c)"
    using rc'(3) by (simp add: return_dispatch_def Let_def)
  have "reaches tbl (pop_return, v) (internal_apply_val, RESTORE_CONT ?c)"
    by (rule return_reaches [OF runningD(6) [OF v(1)] c], rule return_reaches [OF runningD(6) [OF ra(2)] d], rule reaches_refl)
  moreover have "reg_val (RESTORE_CONT ?c) = x" by simp
  moreover have "history_register (RESTORE_CONT ?c) = history_register v" by (simp add: RESTORE_CONT_history)
  moreover have "same_stack s (RESTORE_CONT ?c)" using rc'(1) by simp
  ultimately show ?thesis using rc'(4) by (intro exI [of _ "RESTORE_CONT ?c"] conjI)
qed

lemma prepared_application: "PREPARE_APPLY_INTERRUPT s = application_saved RC_RESTORE_VALUE (APPLY_FRAME_PROCEDURE s) s"
  by (simp add: PREPARE_APPLY_INTERRUPT_def PREPARE_POP_RETURN_INTERRUPT_def application_saved_def)

lemma running_application_saved:
  assumes "running W V R h s" "stack_guard s + 4 \<le> stack_pointer s"
  shows "running W V R h (application_saved rc x s)" "stack_pointer (application_saved rc x s) = stack_pointer s - 4"
    "control_part (application_saved rc x s) = control_part s" "int_mask (memory (application_saved rc x s)) = int_mask (memory s)"
    "history_register (application_saved rc x s) = history_register s"
proof -
  show "running W V R h (application_saved rc x s)" unfolding application_saved_def
    by (rule running_SAVE_CONT, simp, rule running_SAVE_CONT) (use assms in simp_all)
qed (simp_all add: application_saved_def)

lemma interrupted_application:
  assumes s: "running W V R h s" "frame_on f args s" "dummy_in W V h" "sane_masks s" "stack_guard s + 14 + n1 \<le> stack_pointer s"
    and pending: "PENDING_INTERRUPTS h \<noteq> 0" "interrupt_procedure W h (compute_interrupt_number (PENDING_INTERRUPTS h)) handler w"
      "PENDING_INTERRUPTS (h\<lparr>int_mask := w\<rparr>) = 0"
    and handler: "applies tbl W handler [ULONG_TO_FIXNUM (int_code h), ULONG_TO_FIXNUM (int_mask h)] (h\<lparr>int_mask := w\<rparr>) n1 r h1" "clears h h1"
    and app: "applies tbl W f args (h1\<lparr>int_mask := int_mask h\<rparr>) n2 v h2" "stack_guard s + n2 \<le> stack_pointer s + 2 + length args"
  shows "\<exists>u. reaches tbl (internal_apply, s) (internal_apply, u) \<and> frame_on f args u \<and> running W V R (h1\<lparr>int_mask := int_mask h\<rparr>) u
     \<and> same_stack s u \<and> history_register u = history_register s
     \<and> runs_to tbl W V R (internal_apply, u) (STACK_DROP (2 + length args) s) h2 v"
proof -
  let ?p = "application_saved RC_RESTORE_VALUE f s" and ?x = "\<lambda>s. ULONG_TO_FIXNUM (int_code (memory s))"
  let ?t = "handler_state ?x handler w ?p"
  have fields: "int_mask (memory s) = int_mask h" "int_code (memory s) = int_code h" using alike_fields(6,7) [OF runningD(1) [OF s(1)]] .
  have pend: "PENDING_INTERRUPTS (memory s) = PENDING_INTERRUPTS h" by (simp add: PENDING_INTERRUPTS_def fields)
  have f: "APPLY_FRAME_PROCEDURE s = f" using s(2) by (simp add: frame_on_def)
  have "stack_guard s + 4 \<le> stack_pointer s" using s(5) by simp
  note p = running_application_saved [OF s(1) this, of RC_RESTORE_VALUE f] and resumed = application_resumed [OF s(1) this]
  have room: "stack_guard ?p + 10 + n1 \<le> stack_pointer ?p" using s(5) p(2) control_partD [OF p(3)] by simp
  then have room10: "stack_guard ?p + 10 \<le> stack_pointer ?p" by simp
  have sane: "sane_masks ?p" using s(4) p(4) control_partD [OF p(3)] by (simp add: sane_masks_def)
  note up = interrupt_set_up [OF p(1) room10 refl pending(2)]
  have "step tbl Apply_Non_Trapping s = Some (Inr perform_application, ?t)"
    using pending(1) pend up(1) [where c = "goto perform_application"] f
    by (simp add: step_def Apply_Non_Trapping_block_def PENDING_INTERRUPTS_P_def prepared_application SIGNAL_INTERRUPT_def goto_def deliver_def)
  moreover have "step tbl internal_apply s = Some (Inr Apply_Non_Trapping, s)"
    using runningD(6) [OF s(1)] by (simp add: step_def STEPPING_def goto_def deliver_def)
  ultimately have start: "reaches tbl (internal_apply, s) (perform_application, ?t)" by (meson reaches_step reaches_refl)
  obtain u where u: "reaches tbl (internal_apply, ?t) (pop_return, u)" "running W V R (h1\<lparr>int_mask := int_mask h\<rparr>) u" "same_stack ?p u"
    "history_register u = history_register ?p"
    using handler_round_trip [OF p(1) s(3) sane room up(2) handler] by blast
  have run_t: "running W V R (h\<lparr>int_mask := w\<rparr>) ?t" by (rule running_handler_state [OF p(1) s(3) room10])
  have "PENDING_INTERRUPTS (memory ?t) = 0" using alike_fields(6,7) [OF runningD(1) [OF run_t]] pending(3) by (simp add: PENDING_INTERRUPTS_def)
  then have called: "reaches tbl (perform_application, ?t) (pop_return, u)" by (rule perform_after_internal [OF u(1) runningD(6) [OF run_t]])
  obtain d where d: "reaches tbl (pop_return, u) (internal_apply_val, d)" "running W V R (h1\<lparr>int_mask := int_mask h\<rparr>) d" "same_stack s d" "reg_val d = f"
    "history_register d = history_register u"
    using resumed [OF _ u(2,3)] by blast
  note e = operator_in_frame [OF d(2) frame_on_same [OF s(2) d(3)] d(4)]
  let ?e = "SET_APPLY_FRAME_PROCEDURE f d"
  have "runs_to tbl W V R (internal_apply, ?e) (STACK_DROP (2 + length args) ?e) h2 v"
    using evaluation_runs(3) [OF app(1), of V R] e(2,3) app(2) e(5) control_partD [OF e(6)] same_stackD [OF d(3)] unfolding sim_apply_def by simp
  then have runs: "runs_to tbl W V R (internal_apply, ?e) (STACK_DROP (2 + length args) s) h2 v"
    using runs_to_stack same_stack_trans [OF same_stack_DROP [OF d(3)] e(4)] by blast
  have "reaches tbl (internal_apply, s) (internal_apply, ?e)"
    by (rule reaches_trans [OF start reaches_trans [OF called reaches_trans [OF d(1) reaches_one [OF e(1) reaches_refl]]]])
  moreover have "same_stack s ?e" "history_register ?e = history_register s"
    using same_stack_trans [OF d(3) e(8) [OF refl]] e(7) d(5) u(4) p(5) by simp_all
  ultimately show ?thesis using e(2,3) runs by blast
qed

section \<open>Errors that are retried\<close>

definition error_procedure :: "nat set \<Rightarrow> machine \<Rightarrow> int \<Rightarrow> ulong \<Rightarrow> bool" where
  "error_procedure W h code handler \<longleftrightarrow> 0 \<le> code \<and> (\<exists>v. fixed_at W h SYSTEM_ERROR_VECTOR v \<and> vector_slot W h v (nat code) handler)"

lemma error_procedure_handler:
  assumes "running W V R h s" "error_procedure W h code handler"
  shows "error_handler code s = Some handler"
proof -
  obtain v where v: "0 \<le> code" "fixed_at W h SYSTEM_ERROR_VECTOR v" "vector_slot W h v (nat code) handler"
    using assms(2) unfolding error_procedure_def by blast
  have len: "code < int (unat (VECTOR_LENGTH (memory s) v))" using vector_slot_object(2) [OF assms(1) v(3)] v(1) by linarith
  show ?thesis using fixed_at_object [OF assms(1) v(2)] vector_slot_object(1,3) [OF assms(1) v(3)] v(1) len
    unfolding error_handler_def by (simp only: Let_def if_True) simp
qed

text \<open>The call of an error handler and its return, after the continuation of the error has been saved.\<close>

lemma error_round_trip:
  assumes p: "running W V R h (error_saved b s)" "stack_guard s + 13 + n \<le> stack_pointer s" and s: "dummy_in W V h" "sane_masks s"
    and code: "code \<noteq> ERR_WITH_ARGUMENT" "code \<noteq> ERR_IN_SYSTEM_CALL" "error_procedure W h code handler"
    and handler: "applies tbl W handler [LONG_TO_FIXNUM (word_of_int code), ULONG_TO_FIXNUM (int_mask h)] (h\<lparr>int_mask := 0\<rparr>) n r h1" "clears h h1"
  shows "\<exists>t u. Do_Micro_Error code b (goto internal_apply) s = Some (Inr internal_apply, t) \<and> reaches tbl (internal_apply, t) (pop_return, u)
     \<and> running W V R (h1\<lparr>int_mask := int_mask h\<rparr>) u \<and> same_stack (error_saved b s) u"
proof -
  let ?p = "error_saved b s"
  have room: "CAN_PUSH_P s 13" "13 \<le> stack_pointer s" using p(2) by (simp_all add: CAN_PUSH_P_def)
  note e = micro_error [OF room error_procedure_handler [OF p(1) code(3)]]
  have "prev_restore_history_offset ?p = prev_restore_history_offset s" by (simp add: error_saved_def)
  then have sane: "sane_masks ?p" using s(2) error_saved_facts(4) [of b s] by (simp add: sane_masks_def)
  have sp: "stack_guard ?p + 10 + n \<le> stack_pointer ?p" using p(2) error_saved_facts(1,3) [of b s] by (auto split: if_splits)
  have obj: "error_object code s = LONG_TO_FIXNUM (word_of_int code)" using code(1,2) by (simp add: error_object_def)
  obtain u where "reaches tbl (internal_apply, handler_state (error_object code) handler 0 ?p) (pop_return, u)"
    "running W V R (h1\<lparr>int_mask := int_mask h\<rparr>) u" "same_stack ?p u"
    using handler_round_trip [OF p(1) s(1) sane sp e(2) [unfolded obj] handler] by blast
  then show ?thesis using e(1) [where k = "goto internal_apply"] by (auto simp: goto_def deliver_def)
qed

lemma retried:
  assumes q: "running W V R h q" "stack_guard q + 3 \<le> stack_pointer q" and u: "running W V R h1 u" "same_stack (error_saved False q) u"
    and retry: "evaluates tbl W (reg_env q) (reg_exp q) h1 n v h2" "stack_guard q + n \<le> stack_pointer q"
  shows "runs_to tbl W V R (pop_return, u) q h2 v"
proof -
  let ?b = "SET_RC RC_EVAL_ERROR (PUSH_ENV q)"
  have b: "running W V R h ?b" "stack_guard ?b + 2 \<le> stack_pointer ?b" using q running_PUSH_ENV [OF q(1)] by simp_all
  note rb = restored [OF b _ u(1)]
  have same: "same_stack (SAVE_CONT ?b) u" using u(2) by (simp add: error_saved_def)
  let ?r = "RESTORE_CONT u"
  have r: "same_stack (PUSH_ENV q) ?r" "running W V R h1 ?r" "reg_exp ?r = reg_exp q" "reg_ret ?r = MAKE_RETURN_CODE RC_EVAL_ERROR"
    using rb [OF same] by simp_all
  note e = popped_env [OF q(1) _ r(1,2)]
  have q1: "stack_guard q < stack_pointer q" using q(2) by simp
  have "stack_guard (POP_ENV ?r) + n \<le> stack_pointer (POP_ENV ?r)" using same_stackD [OF e(1) [OF q1]] retry(2) by simp
  then obtain s0 where s0: "REDUCES_TO reg_exp (POP_ENV ?r) = Some (Inr do_expression, s0)" "runs_to tbl W V R (do_expression, s0) (POP_ENV ?r) h2 v"
    using reduction [OF evaluation_runs(1) [OF retry(1)] e(3) [OF q1] e(2) [OF q1], of reg_exp] r(3) by auto
  have "return_dispatch u = Some (Inr do_expression, s0)" using r(4) s0(1) by (simp add: return_dispatch_def Let_def)
  then have "reaches tbl (pop_return, u) (do_expression, s0)" using return_reaches [OF runningD(6) [OF u(1)]] reaches_refl by blast
  then show ?thesis using runs_to_prefix s0(2) runs_to_stack e(1) [OF q1] by blast
qed

lemma erroneous_variable_retried:
  assumes s: "running W V R h s" "reg_exp s = e" "reg_env s = env" "stack_guard s + 13 + n1 \<le> stack_pointer s"
    and lookup: "OBJECT_TYPE e = TC_VARIABLE" "visible W e 0" "visible W e 1" "performs W (lookup_variable env (VARIABLE_SYMBOL h e)) h (code, x) h0"
    and code: "code = ERR_UNBOUND_VARIABLE \<or> code = ERR_MACRO_BINDING \<or> code = ERR_UNASSIGNED_VARIABLE \<and> \<not> VARIABLE_SAFE_P h0 e"
      "error_procedure W h0 code handler" "dummy_in W V h0" "int_mask h0 \<le> INT_Mask" "uint (prev_restore_history_offset s) < 2 ^ 58"
    and handler: "applies tbl W handler [LONG_TO_FIXNUM (word_of_int code), ULONG_TO_FIXNUM (int_mask h0)] (h0\<lparr>int_mask := 0\<rparr>) n1 r h1" "clears h0 h1"
    and retry: "evaluates tbl W env e (h1\<lparr>int_mask := int_mask h0\<rparr>) n2 v h2" "stack_guard s + n2 \<le> stack_pointer s"
  shows "runs_to tbl W V R (do_expression, s) s h2 v"
proof -
  obtain m where m: "lookup_variable env (VARIABLE_SYMBOL h e) (memory s) = Some (Inr (code, x), m)" "running W V R h0 (s\<lparr>memory := m\<rparr>)"
    "same_stack s (s\<lparr>memory := m\<rparr>)"
    using performed [OF lookup(4) s(1)] by blast
  let ?q = "s\<lparr>memory := m\<rparr>"
  have safe: "VARIABLE_SAFE_P m e = VARIABLE_SAFE_P h0 e"
    using alike_MEMORY_REF [of W m h0 e 1] runningD(1) [OF m(2)] lookup(3) by (simp add: VARIABLE_SAFE_P_def visible_def)
  have ne: "code \<noteq> ERR_WITH_ARGUMENT" "code \<noteq> ERR_IN_SYSTEM_CALL" "code \<noteq> PRIM_DONE" "code \<noteq> PRIM_INTERRUPT_CODE" using code(1) by auto
  have "int_mask m = int_mask h0" using alike_fields(6) [OF runningD(1) [OF m(2)]] by simp
  then have sane: "sane_masks ?q" using code(4,5) by (simp add: sane_masks_def)
  have room: "stack_guard ?q + 13 + n1 \<le> stack_pointer ?q" using s(4) by simp
  have p: "running W V R h0 (error_saved False ?q)"
    unfolding error_saved_def by (simp, rule running_SAVE_CONT, simp, rule running_PUSH_ENV [OF m(2)]) (use s(4) in simp_all)
  obtain t u where t: "EVAL_ERROR code ?q = Some (Inr internal_apply, t)" "reaches tbl (internal_apply, t) (pop_return, u)"
    "running W V R (h1\<lparr>int_mask := int_mask h0\<rparr>) u" "same_stack (error_saved False ?q) u"
    using error_round_trip [OF p room code(3) sane ne(1,2) code(2) handler] unfolding EVAL_ERROR_def by blast
  have "eval_variable s = EVAL_ERROR code ?q"
    using m(1) s(2,3) VARIABLE_SYMBOL_visible [OF s(1) lookup(2)] ne code(1) safe by (auto simp: eval_variable_def calling_simps(1))
  then have "eval_dispatch s = Some (Inr internal_apply, t)" using t(1) s(2) lookup(1) by (simp add: eval_dispatch_def Let_def)
  moreover have "runs_to tbl W V R (internal_apply, t) s h2 v"
    using retried [OF m(2) _ t(3,4)] retry s room runs_to_prefix [OF t(2)] runs_to_stack m(3) by simp
  ultimately show ?thesis using begin_evaluation runningD(6) [OF s(1)] by blast
qed

section \<open>The operator of a failed application\<close>

definition applicable_types :: "ulong list" where
  "applicable_types = [TC_ENTITY, TC_RECORD, TC_PROCEDURE, TC_CONTROL_POINT, TC_PRIMITIVE, TC_EXTENDED_PROCEDURE]"

lemma application_error_saved:
  assumes "2 \<le> stack_pointer s"
  shows "\<exists>q. APPLICATION_ERROR code s = Do_Micro_Error code True (goto internal_apply) q \<and> stack_pointer q = stack_pointer s - 2
    \<and> control_part q = control_part s \<and> int_mask (memory q) = int_mask (memory s)
    \<and> error_saved True q = SET_VAL SHARP_F (application_saved RC_POP_RETURN_ERROR SHARP_F s)"
proof -
  let ?b = "SAVE_CONT (SET_RC RC_INTERNAL_APPLY_VAL (SET_EXP SHARP_F s))"
  let ?q = "SET_VAL SHARP_F ?b"
  have "APPLY_FRAME_PROCEDURE ?b = SHARP_F" using assms by (simp add: APPLY_FRAME_PROCEDURE_def STACK_REF_SAVE_CONT)
  then have "APPLICATION_ERROR code s = Do_Micro_Error code True (goto internal_apply) ?q" by (simp add: APPLICATION_ERROR_def)
  moreover have "error_saved True ?q = SET_VAL SHARP_F (application_saved RC_POP_RETURN_ERROR SHARP_F s)"
    by (simp add: error_saved_def application_saved_def SAVE_CONT_eq) (simp add: register_defs STACK_PUSH_def on_memory_def)
  ultimately show ?thesis by (intro exI [of _ ?q]) simp
qed

lemma inapplicable_operator_lost:
  assumes s: "running W V R h s" "frame_on f args s" "dummy_in W V h" "sane_masks s" "stack_guard s + 15 + n \<le> stack_pointer s"
    and f: "OBJECT_TYPE f \<notin> set applicable_types" "PENDING_INTERRUPTS h = 0" "error_procedure W h ERR_INAPPLICABLE_OBJECT handler"
    and handler: "applies tbl W handler [LONG_TO_FIXNUM (word_of_int ERR_INAPPLICABLE_OBJECT), ULONG_TO_FIXNUM (int_mask h)] (h\<lparr>int_mask := 0\<rparr>) n r h1"
      "clears h h1"
  shows "\<exists>t. reaches tbl (internal_apply, s) (internal_apply, t) \<and> running W V R (h1\<lparr>int_mask := int_mask h\<rparr>) t \<and> frame_on SHARP_F args t
    \<and> stack_pointer t = stack_pointer s"
proof -
  let ?p = "application_saved RC_POP_RETURN_ERROR SHARP_F s"
  have four: "2 \<le> stack_pointer s" "stack_guard s + 4 \<le> stack_pointer s" using s(5) by simp_all
  note p = running_application_saved [OF s(1) four(2), of RC_POP_RETURN_ERROR SHARP_F]
  obtain q where q: "APPLICATION_ERROR ERR_INAPPLICABLE_OBJECT s = Do_Micro_Error ERR_INAPPLICABLE_OBJECT True (goto internal_apply) q"
    "stack_pointer q = stack_pointer s - 2" "control_part q = control_part s" "int_mask (memory q) = int_mask (memory s)" "error_saved True q = SET_VAL SHARP_F ?p"
    using application_error_saved [OF four(1)] by blast
  note c = control_partD [OF q(3)]
  have run: "running W V R h (error_saved True q)" using p(1) unfolding q(5) by simp
  have room: "stack_guard q + 13 + n \<le> stack_pointer q" using s(5) q(2) c by simp
  have sane: "sane_masks q" using s(4) q(4) c by (simp add: sane_masks_def)
  have ne: "ERR_INAPPLICABLE_OBJECT \<noteq> ERR_WITH_ARGUMENT" "ERR_INAPPLICABLE_OBJECT \<noteq> ERR_IN_SYSTEM_CALL" by simp_all
  obtain t u where t: "APPLICATION_ERROR ERR_INAPPLICABLE_OBJECT s = Some (Inr internal_apply, t)" "reaches tbl (internal_apply, t) (pop_return, u)"
    "running W V R (h1\<lparr>int_mask := int_mask h\<rparr>) u" "same_stack (error_saved True q) u"
    using error_round_trip [OF run room s(3) sane ne f(3) handler] unfolding q(1) by blast
  have "same_stack ?p u" using t(4) unfolding q(5) by simp
  then obtain d where d: "reaches tbl (pop_return, u) (internal_apply_val, d)" "running W V R (h1\<lparr>int_mask := int_mask h\<rparr>) d" "same_stack s d" "reg_val d = SHARP_F"
    using application_resumed [OF s(1) four(2) disjI2 [OF refl] t(3)] by blast
  note e = operator_in_frame [OF d(2) frame_on_same [OF s(2) d(3)] d(4)]
  have pend: "PENDING_INTERRUPTS (memory s) = 0" using f(2) alike_fields(6,7) [OF runningD(1) [OF s(1)]] by (simp add: PENDING_INTERRUPTS_def)
  have proc: "APPLY_FRAME_PROCEDURE s = f" using s(2) by (simp add: frame_on_def)
  have "apply_function tbl f s = Some (Inr internal_apply, t)" using f(1) t(1) by (simp add: apply_function_def applicable_types_def Let_def)
  then have "reaches tbl (internal_apply, s) (internal_apply, t)"
    using runningD(6) [OF s(1)] pend proc
    by (intro reaches_one [of tbl internal_apply s Apply_Non_Trapping s] reaches_one [of tbl Apply_Non_Trapping s perform_application s]
        reaches_one [of tbl perform_application s "apply_dispatch f" s] reaches_one [of tbl "apply_dispatch f" s internal_apply t] reaches_refl)
      (simp_all add: STEPPING_def goto_def deliver_def Apply_Non_Trapping_block_def PENDING_INTERRUPTS_P_def)
  moreover have "reaches tbl (internal_apply_val, d) (internal_apply, SET_APPLY_FRAME_PROCEDURE SHARP_F d)"
    by (rule reaches_one [OF e(1) reaches_refl])
  ultimately have "reaches tbl (internal_apply, s) (internal_apply, SET_APPLY_FRAME_PROCEDURE SHARP_F d)"
    using reaches_trans t(2) d(1) by meson
  then show ?thesis using e(2,3,5) same_stackD [OF d(3)] by auto
qed

end
