(* ===== verification/Control_Points.thy ===== *)
theory Control_Points
  imports Control_Correct
begin

text \<open>
  Control points: \<open>CALL-WITH-CURRENT-CONTINUATION\<close> moves the words of the stack into a vector in the heap, with
  the history and the interrupt mask; the application of the vector moves them back.
\<close>

section \<open>The words of the stack\<close>

definition stack_words :: "interp \<Rightarrow> ulong list" where
  "stack_words s = map (STACK_REF s) [0..<STACK_N_PUSHED s]"

lemma stack_words_cong:
  "stack_pointer t = stack_pointer s \<Longrightarrow> stack_end t = stack_end s \<Longrightarrow>
     (\<And>a. stack_pointer s \<le> a \<Longrightarrow> a < stack_end s \<Longrightarrow> mem (memory t) a = mem (memory s) a) \<Longrightarrow> stack_words t = stack_words s"
  by (simp add: stack_words_def STACK_N_PUSHED_def STACK_REF_def)

lemma stack_words_registers [simp]:
  "stack_words (SET_VAL v s) = stack_words s" "stack_words (SET_EXP v s) = stack_words s" "stack_words (SET_RC rc s) = stack_words s"
  "stack_words (s\<lparr>history_register := x\<rparr>) = stack_words s" "stack_words (s\<lparr>prev_restore_history_offset := n\<rparr>) = stack_words s"
  by (simp_all add: stack_words_def STACK_N_PUSHED_def STACK_REF_def register_defs)

lemma stack_words_PUSH:
  assumes "0 < stack_pointer s" "stack_pointer s \<le> stack_end s"
  shows "stack_words (STACK_PUSH v s) = v # stack_words s"
proof -
  have "STACK_N_PUSHED (STACK_PUSH v s) = Suc (STACK_N_PUSHED s)"
    using assms control_partD [of "STACK_PUSH v s" s] by (simp add: STACK_N_PUSHED_def)
  then show ?thesis using assms(1) by (simp add: stack_words_def upt_conv_Cons map_Suc_upt [symmetric] del: upt_Suc map_Suc_upt)
qed

lemma pushes_end [simp]: "stack_end (pushes ws s) = stack_end s"
  using control_partD [of "pushes ws s" s] by simp

lemma stack_words_pushes:
  "length ws \<le> stack_pointer s \<Longrightarrow> stack_pointer s \<le> stack_end s \<Longrightarrow> stack_words (pushes ws s) = rev ws @ stack_words s"
proof (induction ws rule: rev_induct)
  case (snoc w ws)
  then show ?case using stack_words_PUSH [of "pushes ws s" w] by (simp add: pushes_snoc pushes_stack)
qed simp

lemma pushes_mem:
  "length ws \<le> stack_pointer s \<Longrightarrow> a < stack_pointer s - length ws \<or> stack_pointer s \<le> a \<Longrightarrow> mem (memory (pushes ws s)) a = mem (memory s) a"
proof (induction ws rule: rev_induct)
  case (snoc w ws)
  have "mem (memory (pushes ws s)) a = mem (memory s) a" by (rule snoc.IH) (use snoc.prems in auto)
  then show ?case using snoc.prems by (auto simp: pushes_snoc pushes_stack)
qed simp

lemma pushes_fixed_objects [simp]: "fixed_objects (memory (pushes ws s)) = fixed_objects (memory s)"
  by (induction ws rule: rev_induct) (simp_all add: pushes_snoc write_word_def)

text \<open>Words of the heap, apart from the stack.\<close>

definition off_stack :: "interp \<Rightarrow> nat \<Rightarrow> nat \<Rightarrow> bool" where
  "off_stack s a n \<longleftrightarrow> a + n \<le> stack_start s \<or> stack_end s \<le> a"

section \<open>The return to a control point\<close>

lemma unpack_words_pushes:
  assumes "n \<le> stack_pointer s" "\<And>j. j < n \<Longrightarrow> a + j < stack_pointer s - n \<or> stack_pointer s \<le> a + j"
  shows "unpack_words n a s = pushes (rev (map (\<lambda>j. mem (memory s) (a + j)) [0..<n])) s"
  using assms
proof (induction n arbitrary: s)
  case (Suc n)
  let ?t = "STACK_PUSH (mem (memory s) (a + n)) s"
  have "map (\<lambda>j. mem (memory ?t) (a + j)) [0..<n] = map (\<lambda>j. mem (memory s) (a + j)) [0..<n]"
    by (rule map_cong [OF refl]) (use Suc.prems(1) Suc.prems(2) in fastforce)
  moreover have "unpack_words n a ?t = pushes (rev (map (\<lambda>j. mem (memory ?t) (a + j)) [0..<n])) ?t"
    by (rule Suc.IH) (use Suc.prems(1) Suc.prems(2) in fastforce)+
  ultimately show ?case by (simp only: unpack_words.simps upt_Suc) (simp add: pushes_Cons)
qed simp

definition saved_stack :: "machine \<Rightarrow> ulong \<Rightarrow> ulong list \<Rightarrow> bool" where
  "saved_stack m cp ws \<longleftrightarrow> OBJECT_TYPE cp = TC_CONTROL_POINT \<and> control_point_end m cp = control_point_start cp + length ws
     \<and> (\<forall>i<length ws. mem m (control_point_start cp + i) = ws ! i)"

lemma unpacked:
  assumes cp: "saved_stack (memory s) cp ws" "off_stack s (control_point_start cp) (length ws)"
    and stack: "stack_start s \<le> stack_guard s" "stack_guard s + length ws \<le> stack_end s"
  shows "\<exists>t. (\<forall>k :: 'r code. unpack_control_point cp k s = k t) \<and> stack_words t = ws \<and> stack_end t = stack_end s \<and> reg_val t = reg_val s
    \<and> (\<forall>a. a < stack_start s \<or> stack_end s \<le> a \<longrightarrow> mem (memory t) a = mem (memory s) a) \<and> fixed_objects (memory t) = fixed_objects (memory s)"
proof -
  let ?a = "control_point_start cp" and ?n = "length ws"
  let ?u = "on_memory (CLEAR_INTERRUPT_NOLOCK INT_Stack_Overflow) (s\<lparr>stack_pointer := stack_end s\<rparr>)"
  have u: "stack_pointer ?u = stack_end s" "stack_end ?u = stack_end s" "mem (memory ?u) = mem (memory s)" "stack_guard ?u = stack_guard s"
    "fixed_objects (memory ?u) = fixed_objects (memory s)" "reg_val ?u = reg_val s"
    by (simp_all add: on_memory_def CLEAR_INTERRUPT_NOLOCK_def)
  have ws: "map (\<lambda>j. mem (memory ?u) (?a + j)) [0..<?n] = ws" using cp(1) unfolding u(3) by (auto simp: saved_stack_def intro: nth_equalityI)
  have apart: "?a + j < stack_pointer ?u - ?n \<or> stack_pointer ?u \<le> ?a + j" if "j < ?n" for j
    using cp(2) stack that unfolding u(1) off_stack_def by linarith
  let ?t = "pushes (rev ws) ?u"
  have "unpack_words ?n ?a ?u = ?t" using unpack_words_pushes [of ?n ?u ?a] apart stack(2) ws u(1) by simp
  moreover have "CAN_PUSH_P ?u (int (?a + ?n) - int ?a)" using stack(2) unfolding CAN_PUSH_P_def u by simp
  ultimately have "unpack_control_point cp k s = k ?t" for k :: "'r code"
    using cp(1) by (simp add: unpack_control_point_def saved_stack_def Let_def)
  moreover have "stack_words ?t = ws" using stack_words_pushes [of "rev ws" ?u] stack(2) u(1,2) by (simp add: stack_words_def STACK_N_PUSHED_def)
  moreover have "mem (memory ?t) a = mem (memory s) a" if "a < stack_start s \<or> stack_end s \<le> a" for a
    using pushes_mem [of "rev ws" ?u a] stack that unfolding u(1,3) by auto
  ultimately show ?thesis using u(2,5,6) by (intro exI [of _ ?t]) simp
qed

definition holds_dummy :: "interp \<Rightarrow> bool" where
  "holds_dummy s \<longleftrightarrow> VECTOR_P (fixed_objects (memory s)) \<and> off_stack s (VECTOR_LOC (fixed_objects (memory s)) DUMMY_HISTORY) 1
     \<and> VECTOR_REF (memory s) (fixed_objects (memory s)) DUMMY_HISTORY \<noteq> SHARP_F"

lemma control_point_applied:
  assumes cp: "saved_stack (memory s) cp ws" "off_stack s (control_point_start cp) (length ws)"
    and stack: "stack_start s \<le> stack_guard s" "stack_guard s + length ws \<le> stack_end s"
    and frame: "frame_on cp [v] s"
    and dummy: "holds_dummy s"
  shows "\<exists>t. apply_control_point cp s = Some (Inr pop_return, t) \<and> reg_val t = v \<and> stack_words t = ws"
proof -
  let ?u = "SET_VAL (STACK_REF s 2) s"
  have mem: "memory ?u = memory s" "stack_start ?u = stack_start s" "stack_guard ?u = stack_guard s" "stack_end ?u = stack_end s"
    by (simp_all add: register_defs)
  obtain t where t: "\<And>k :: code_block. unpack_control_point cp k ?u = k t" "stack_words t = ws" "reg_val t = STACK_REF s 2"
    "\<forall>a. a < stack_start s \<or> stack_end s \<le> a \<longrightarrow> mem (memory t) a = mem (memory s) a" "fixed_objects (memory t) = fixed_objects (memory s)"
    using unpacked [where 'r = label, of ?u cp ws] cp stack by (auto simp: mem off_stack_def)
  have arg: "STACK_REF s 2 = v" "APPLY_FRAME_SIZE s = 2" using frame_onD(4) [OF frame, of 0] frame_onD(1) [OF frame] by simp_all
  have "FIXED_OBJECTS_P t" "READ_DUMMY_HISTORY t \<noteq> SHARP_F"
    using dummy t(4,5) by (auto simp: holds_dummy_def FIXED_OBJECTS_P_def READ_DUMMY_HISTORY_def FIXED_OBJECT_def off_stack_def VECTOR_REF_def VECTOR_LOC_def MEMORY_REF_def)
  then have "stack_words (reset_history t) = ws" "reg_val (reset_history t) = v" using t(2,3) arg
    by (simp_all add: reset_history_def)
  moreover have "apply_control_point cp s = Some (Inr pop_return, reset_history t)"
    using arg t(1) by (simp add: apply_control_point_def goto_def deliver_def)
  ultimately show ?thesis by blast
qed

section \<open>The making of a control point\<close>

lemma pop_to_words_facts [simp]:
  "stack_pointer (pop_to_words n scan s) = stack_pointer s + n" "control_part (pop_to_words n scan s) = control_part s"
  "reg_val (pop_to_words n scan s) = reg_val s" "fixed_objects (memory (pop_to_words n scan s)) = fixed_objects (memory s)"
  by (induction n arbitrary: scan s) simp_all

lemma pop_to_words_mem:
  "scan + n \<le> stack_pointer s \<or> stack_pointer s + n \<le> scan \<Longrightarrow>
     mem (memory (pop_to_words n scan s)) a = (if scan \<le> a \<and> a < scan + n then STACK_REF s (a - scan) else mem (memory s) a)"
proof (induction n arbitrary: scan s)
  case (Suc n)
  let ?t = "STACK_DROP 1 (on_memory (write_word scan (STACK_REF s 0)) s)"
  have t: "STACK_REF ?t i = STACK_REF s (Suc i)" if "i < n" for i using that Suc.prems by (auto simp: STACK_REF_def STACK_DROP_def)
  have "mem (memory (pop_to_words n (scan + 1) ?t)) a =
      (if scan + 1 \<le> a \<and> a < scan + 1 + n then STACK_REF ?t (a - (scan + 1)) else mem (memory ?t) a)"
    by (rule Suc.IH) (use Suc.prems in auto)
  also have "\<dots> = (if scan \<le> a \<and> a < scan + Suc n then STACK_REF s (a - scan) else mem (memory s) a)"
    using t [of "a - (scan + 1)"] by (auto simp: Suc_diff_Suc)
  finally show ?case by simp
qed auto

lemma control_point_allocated:
  assumes "room m (n + 3)"
  shows "\<exists>m'. allocate_control_point (word_of_nat n) True m = (Inr (MAKE_POINTER_OBJECT TC_CONTROL_POINT (Free m)), m')
    \<and> m'\<lparr>mem := mem m, Free := Free m\<rparr> = m \<and> mem m' (Free m) = MAKE_OBJECT TC_MANIFEST_VECTOR (word_of_nat (n + 2))
    \<and> (\<forall>a. a < Free m \<or> Free m + 3 \<le> a \<longrightarrow> mem m' a = mem m a)"
    and "control_point_start (MAKE_POINTER_OBJECT TC_CONTROL_POINT (Free m)) = Free m + 3"
    and "OBJECT_TYPE (MAKE_POINTER_OBJECT TC_CONTROL_POINT (Free m)) = TC_CONTROL_POINT"
proof -
  have a: "addressable (Free m)" "n + 3 < 2 ^ 58" using assms by (auto simp: room_def addressable_def)
  then have addr: "OBJECT_ADDRESS (MAKE_POINTER_OBJECT TC_CONTROL_POINT (Free m)) = Free m" by simp
  from a show "control_point_start (MAKE_POINTER_OBJECT TC_CONTROL_POINT (Free m)) = Free m + 3"
    "OBJECT_TYPE (MAKE_POINTER_OBJECT TC_CONTROL_POINT (Free m)) = TC_CONTROL_POINT"
    by (simp_all add: control_point_start_def VECTOR_LOC_def)
  have n: "unat (1 + (word_of_nat n + 2) :: ulong) = n + 3" "unat (word_of_nat n + 2 :: ulong) = n + 2" "word_of_nat (n + 2) = (word_of_nat n + 2 :: ulong)"
    using a(2) unat_of_nat64 [of "n + 3"] unat_of_nat64 [of "n + 2"] by (simp_all add: add.commute add.left_commute)
  show "\<exists>m'. allocate_control_point (word_of_nat n) True m = (Inr (MAKE_POINTER_OBJECT TC_CONTROL_POINT (Free m)), m')
    \<and> m'\<lparr>mem := mem m, Free := Free m\<rparr> = m \<and> mem m' (Free m) = MAKE_OBJECT TC_MANIFEST_VECTOR (word_of_nat (n + 2))
    \<and> (\<forall>a. a < Free m \<or> Free m + 3 \<le> a \<longrightarrow> mem m' a = mem m a)"
    using assms addr n
    by (simp add: allocate_control_point_def allocate_marked_vector_def gc_check_def andthen_def room_allocates allocate_vector_def
        VECTOR_SET_def MEMORY_SET_def VECTOR_LOC_def push_free_def write_word_def add.commute)
qed

text \<open>The words above the stack of the caller: the interrupt mask and the history.\<close>

definition catch_words :: "interp \<Rightarrow> ulong list" where
  "catch_words s =
     [MAKE_RETURN_CODE RC_RESTORE_INT_MASK, ULONG_TO_FIXNUM (int_mask (memory s)),
      MAKE_RETURN_CODE RC_RESTORE_HISTORY, MAKE_POINTER_OBJECT UNMARKED_HISTORY_TYPE (history_register s),
      ULONG_TO_FIXNUM (prev_restore_history_offset s), SHARP_F]"

lemma catch_words_length [simp]: "length (catch_words s) = 6"
  by (simp add: catch_words_def)

lemma history_control: "control_part (s\<lparr>history_register := x\<rparr>) = control_part s"
  by (simp add: control_part_def)

lemma catch_words_pushed:
  assumes "CAN_PUSH_P p 6" "6 \<le> stack_pointer p" "stack_pointer p \<le> stack_end p"
  shows "\<exists>r. (\<forall>k :: 'r code. save_history RC_RESTORE_HISTORY (preserve_interrupt_mask k) p = k r) \<and> stack_words r = catch_words p @ stack_words p
    \<and> stack_pointer r = stack_pointer p - 6 \<and> control_part r = control_part p
    \<and> (\<forall>a. a < stack_pointer p - 6 \<or> stack_pointer p \<le> a \<longrightarrow> mem (memory r) a = mem (memory p) a) \<and> fixed_objects (memory r) = fixed_objects (memory p)"
proof -
  let ?x = "SAVE_CONT (SET_RC RC_RESTORE_HISTORY (SET_EXP (MAKE_POINTER_OBJECT UNMARKED_HISTORY_TYPE (history_register p))
     (STACK_PUSH (ULONG_TO_FIXNUM (prev_restore_history_offset p)) (STACK_PUSH SHARP_F p))))"
  let ?h = "?x\<lparr>history_register := OBJECT_ADDRESS (READ_DUMMY_HISTORY ?x)\<rparr>"
  have c: "stack_end ?h = stack_end p" "stack_guard ?h = stack_guard p" "stack_pointer ?h = stack_pointer p - 4" "int_mask (memory ?h) = int_mask (memory p)"
    by simp_all
  have "CAN_PUSH_P p HISTORY_SIZE" "CAN_PUSH_P ?h CONTINUATION_SIZE" using assms c by (simp_all add: CAN_PUSH_P_def)
  moreover have "prev_restore_history_offset (STACK_PUSH SHARP_F p) = prev_restore_history_offset p" by (simp add: STACK_PUSH_def on_memory_def)
  ultimately have "save_history RC_RESTORE_HISTORY (preserve_interrupt_mask k) p = k (mask_saved ?h)" for k :: "'r code"
    unfolding save_history_def using preserve_interrupt_mask_eq [of ?h k] by simp
  moreover have "stack_words (mask_saved ?h) = catch_words p @ stack_words p"
    using assms c by (simp add: mask_saved_def SAVE_CONT_eq stack_words_PUSH catch_words_def)
  moreover have "stack_pointer (mask_saved ?h) = stack_pointer p - 6" "control_part (mask_saved ?h) = control_part p"
    by (simp_all add: mask_saved_def history_control)
  moreover have "memory (mask_saved ?h) = memory (pushes (rev (catch_words p)) p)"
    by (simp add: mask_saved_def SAVE_CONT_eq catch_words_def pushes_def write_word_def)
  moreover have "mem (memory (pushes (rev (catch_words p)) p)) a = mem (memory p) a" if "a < stack_pointer p - 6 \<or> stack_pointer p \<le> a" for a
    by (rule pushes_mem) (use that assms(2) in simp_all)
  ultimately show ?thesis by (intro exI [of _ "mask_saved ?h"]) simp
qed

text \<open>The stack is emptied into the vector, and the procedure applied to the vector on an empty stack.\<close>

definition thrown :: "ulong \<Rightarrow> ulong \<Rightarrow> interp \<Rightarrow> interp" where
  "thrown cp procedure r =
     (let q = pop_to_words (STACK_N_PUSHED r) (control_point_start cp) (r\<lparr>prev_restore_history_offset := 0\<rparr>)
      in pushes [cp, MAKE_RETURN_CODE RC_JOIN_STACKLETS, cp, procedure, MAKE_OBJECT 0 2]
           (SET_EXP cp (SET_RC RC_JOIN_STACKLETS (on_memory (CLEAR_INTERRUPT_NOLOCK INT_Stack_Overflow) q))))"

lemma thrown_facts:
  assumes off: "off_stack r (control_point_start cp) (STACK_N_PUSHED r)"
    and stack: "stack_start r \<le> stack_pointer r" "stack_pointer r \<le> stack_end r" "stack_start r + 5 \<le> stack_end r"
  shows "frame_on procedure [cp] (thrown cp procedure r)"
    and "i < STACK_N_PUSHED r \<Longrightarrow> mem (memory (thrown cp procedure r)) (control_point_start cp + i) = stack_words r ! i"
    and "a < stack_start r \<or> stack_end r \<le> a \<Longrightarrow> a < control_point_start cp \<or> control_point_start cp + STACK_N_PUSHED r \<le> a \<Longrightarrow> mem (memory (thrown cp procedure r)) a = mem (memory r) a"
    and "control_part (thrown cp procedure r) = control_part (r\<lparr>prev_restore_history_offset := 0\<rparr>)" "stack_pointer (thrown cp procedure r) = stack_end r - 5"
      "fixed_objects (memory (thrown cp procedure r)) = fixed_objects (memory r)"
proof -
  let ?a = "control_point_start cp" and ?n = "STACK_N_PUSHED r" and ?r = "r\<lparr>prev_restore_history_offset := 0\<rparr>"
  let ?q = "pop_to_words ?n ?a ?r"
  let ?u = "SET_EXP cp (SET_RC RC_JOIN_STACKLETS (on_memory (CLEAR_INTERRUPT_NOLOCK INT_Stack_Overflow) ?q))"
  have q: "mem (memory ?q) a = (if ?a \<le> a \<and> a < ?a + ?n then STACK_REF r (a - ?a) else mem (memory r) a)" for a
    using pop_to_words_mem [of ?a ?n ?r a] off stack(1,2) by (auto simp: off_stack_def STACK_N_PUSHED_def)
  have u: "stack_pointer ?u = stack_end r" "mem (memory ?u) = mem (memory ?q)" "control_part ?u = control_part ?r"
    using stack(2) by (simp_all add: STACK_N_PUSHED_def CLEAR_INTERRUPT_NOLOCK_def)
  have off_mem: "mem (memory (thrown cp procedure r)) a = mem (memory ?q) a" if "a < stack_start r \<or> stack_end r \<le> a" for a
    using pushes_mem [of "[cp, MAKE_RETURN_CODE RC_JOIN_STACKLETS, cp, procedure, MAKE_OBJECT 0 2]" ?u a] that stack(3) u(1,2)
    by (auto simp: thrown_def Let_def)
  show c: "control_part (thrown cp procedure r) = control_part ?r" using u(3) by (simp add: thrown_def Let_def)
  show sp: "stack_pointer (thrown cp procedure r) = stack_end r - 5" using u(1) by (simp add: thrown_def Let_def pushes_stack)
  show "mem (memory (thrown cp procedure r)) (?a + i) = stack_words r ! i" if "i < ?n"
    using off_mem [of "?a + i"] q [of "?a + i"] that off by (auto simp: off_stack_def stack_words_def)
  show "mem (memory (thrown cp procedure r)) a = mem (memory r) a" if "a < stack_start r \<or> stack_end r \<le> a" "a < ?a \<or> ?a + ?n \<le> a"
    using off_mem [OF that(1)] q [of a] that(2) by auto
  show "fixed_objects (memory (thrown cp procedure r)) = fixed_objects (memory r)" by (simp add: thrown_def Let_def CLEAR_INTERRUPT_NOLOCK_def)
  have ref: "STACK_REF (thrown cp procedure r) j = rev [cp, MAKE_RETURN_CODE RC_JOIN_STACKLETS, cp, procedure, MAKE_OBJECT 0 2] ! j" if "j < 5" for j
    using pushes_REF [of "[cp, MAKE_RETURN_CODE RC_JOIN_STACKLETS, cp, procedure, MAKE_OBJECT 0 2]" ?u j] that stack(3) u(1)
    by (simp add: thrown_def Let_def)
  have "OBJECT_DATUM (MAKE_OBJECT 0 2 :: ulong) = 2" by code_simp
  then show "frame_on procedure [cp] (thrown cp procedure r)"
    using ref [of 0] ref [of 1] ref [of 2] sp control_partD [OF c] stack(3) by (simp add: frame_on_def APPLY_FRAME_SIZE_def APPLY_FRAME_PROCEDURE_def)
qed

lemma stack_words_DROP: "stack_pointer s < stack_end s \<Longrightarrow> stack_words (STACK_DROP 1 s) = tl (stack_words s)"
  by (simp add: stack_words_def STACK_N_PUSHED_def STACK_DROP_def map_tl [symmetric] tl_upt STACK_REF_def)
    (rule nth_equalityI; simp add: STACK_REF_def)

lemma stack_words_length: "length (stack_words s) = STACK_N_PUSHED s"
  by (simp add: stack_words_def)

definition catching :: "primitives \<Rightarrow> interp \<Rightarrow> bool" where
  "catching tbl s \<longleftrightarrow> PRIMITIVE_P (reg_primitive s) \<and> PRIMITIVE_N_ARGUMENTS tbl (reg_primitive s) s = 1 \<and> RETURN_CODE_P (STACK_REF s 1)
     \<and> \<not> (STACK_LOC s 3 = stack_end s \<and> CHECK_RETURN_CODE s RC_JOIN_STACKLETS 1 \<and> CONTROL_POINT_P (CONT_EXP s 1))"

lemma catch_saves:
  assumes s: "stack_words s = procedure # ws" "catching tbl s" "stack_start s \<le> stack_guard s" "stack_guard s + 5 \<le> stack_pointer s"
    and heap: "room (memory s) (length ws + 9)" "off_stack s (Free (memory s)) (length ws + 9)"
  defines "cp \<equiv> MAKE_POINTER_OBJECT TC_CONTROL_POINT (Free (memory s))"
  shows "\<exists>t. Prim_catch tbl s = Some (Inl (Abort_To_Interpreter PRIM_APPLY), t) \<and> frame_on procedure [cp] t
     \<and> saved_stack (memory t) cp (catch_words s @ ws) \<and> off_stack s (control_point_start cp) (length (catch_words s @ ws))
     \<and> stack_pointer t = stack_end s - 5 \<and> stack_end t = stack_end s \<and> stack_guard t = stack_guard s \<and> stack_start t = stack_start s
     \<and> fixed_objects (memory t) = fixed_objects (memory s)
     \<and> (\<forall>a. (a < stack_start s \<or> stack_end s \<le> a) \<and> (a < Free (memory s) \<or> Free (memory s) + (length ws + 9) \<le> a) \<longrightarrow> mem (memory t) a = mem (memory s) a)"
proof -
  have N: "STACK_N_PUSHED s = length ws + 1" using stack_words_length [of s] s(1) by simp
  then have sp: "stack_pointer s + length ws + 1 = stack_end s" by (simp add: STACK_N_PUSHED_def)
  have arg: "STACK_REF s 0 = procedure" using arg_cong [OF s(1), of "\<lambda>xs. xs ! 0"] N by (simp add: stack_words_def upt_conv_Cons del: upt_Suc)
  have "room (memory s) (6 + length ws + 3)" using heap(1) by (simp add: add.commute)
  note al = control_point_allocated [OF this]
  obtain m where m: "allocate_control_point (word_of_nat (6 + length ws)) True (memory s) = (Inr cp, m)"
    "m\<lparr>mem := mem (memory s), Free := Free (memory s)\<rparr> = memory s" "mem m (Free (memory s)) = MAKE_OBJECT TC_MANIFEST_VECTOR (word_of_nat (6 + length ws + 2))"
    "\<And>a. a < Free (memory s) \<or> Free (memory s) + 3 \<le> a \<Longrightarrow> mem m a = mem (memory s) a"
    using al(1) unfolding cp_def by blast
  have start: "control_point_start cp = Free (memory s) + 3" using al(2) by (simp add: cp_def)
  have mask: "int_mask m = int_mask (memory s)" using arg_cong [OF m(2), of int_mask] by simp
  let ?s = "s\<lparr>memory := m\<rparr>"
  let ?p = "STACK_DROP 1 ?s"
  have "stack_words ?s = stack_words s"
    by (rule stack_words_cong) (use m(4) heap(2) s(3,4) in \<open>auto simp: off_stack_def\<close>)
  then have p: "stack_words ?p = ws" using stack_words_DROP [of ?s] sp s(1) by simp
  have pf: "stack_pointer ?p = stack_pointer s + 1" "stack_end ?p = stack_end s" "catch_words ?p = catch_words s" "CAN_PUSH_P ?p 6"
    "stack_guard ?p = stack_guard s" "stack_start ?p = stack_start s"
    using s(4) mask by (simp_all add: catch_words_def CAN_PUSH_P_def STACK_DROP_def)
  obtain r where r: "\<And>k :: ulong code. save_history RC_RESTORE_HISTORY (preserve_interrupt_mask k) ?p = k r"
    "stack_words r = catch_words s @ ws" "stack_pointer r = stack_pointer s + 1 - 6" "control_part r = control_part ?p"
    "\<And>a. a < stack_pointer s + 1 - 6 \<or> stack_pointer s + 1 \<le> a \<Longrightarrow> mem (memory r) a = mem m a" "fixed_objects (memory r) = fixed_objects m"
    using catch_words_pushed [where 'r = ulong and p = ?p] p pf s(4) sp by (auto simp: STACK_DROP_def)
  note rc = control_partD [OF r(4)]
  have Nr: "STACK_N_PUSHED r = length (catch_words s @ ws)" using stack_words_length [of r] r(2) by simp
  have off: "off_stack r (control_point_start cp) (STACK_N_PUSHED r)" using heap(2) rc pf Nr start by (auto simp: off_stack_def)
  let ?t = "thrown cp procedure r"
  have "stack_start r \<le> stack_pointer r" "stack_pointer r \<le> stack_end r" "stack_start r + 5 \<le> stack_end r"
    using rc pf r(3) s(3,4) sp by simp_all
  note th = thrown_facts [OF off this, where procedure = procedure]
  have "Prim_catch tbl s = Some (Inl (Abort_To_Interpreter PRIM_APPLY), ?t)"
  proof -
    have w: "word_of_int (CONTINUATION_SIZE + HISTORY_SIZE + (int (STACK_N_PUSHED s) - 1)) = (word_of_nat (6 + length ws) :: ulong)"
      unfolding N by simp
    have a: "acting (allocate_control_point (word_of_nat (6 + length ws)) True) k s = k cp ?s" for k :: "ulong \<Rightarrow> ulong code"
      unfolding acting_def by (rule calling_simps(1)) (simp only: act_def m(1))
    have c: "\<not> (STACK_LOC s (1 + CONTINUATION_SIZE) = stack_end s \<and> CHECK_RETURN_CODE s RC_JOIN_STACKLETS 1 \<and> CONTROL_POINT_P (CONT_EXP s 1))"
      and ok: "ASSERT (PRIMITIVE_P (reg_primitive s)) = (\<lambda>k. k)"
        "ASSERT (RETURN_CODE_P (STACK_REF s (unat (PRIMITIVE_N_ARGUMENTS tbl (reg_primitive s) s)))) = (\<lambda>k. k)"
      using s(2) by (simp_all add: catching_def ASSERT_def fun_eq_iff)
    have "ARG_REF s 1 = procedure" using arg by (simp add: ARG_REF_def)
    then show ?thesis
      unfolding Prim_catch_def canonicalize_primitive_context_def Let_def ok if_not_P [OF c] w a doing_def POP_PRIMITIVE_FRAME_def r(1)
      by (simp add: join_stacklets_def PRIMITIVE_ABORT_def thrown_def pushes_def SAVE_CONT_eq
          PUSH_APPLY_FRAME_HEADER_def leave_def STACK_N_PUSHED_def)
  qed
  moreover have "saved_stack (memory ?t) cp (catch_words s @ ws)"
  proof -
    have "mem (memory ?t) (Free (memory s)) = mem m (Free (memory s))"
      using th(3) [of "Free (memory s)"] r(5) [of "Free (memory s)"] heap(2) rc pf start s(3,4) sp by (auto simp: off_stack_def)
    moreover have small: "6 + length ws + 2 < 2 ^ 58" and addr: "addressable (Free (memory s))" using heap(1) by (auto simp: room_def addressable_def)
    ultimately have "unat (VECTOR_LENGTH (memory ?t) cp) = 6 + length ws + 2"
      using m(3) unat_of_nat64 [of "6 + length ws + 2"] uint_small [OF small]
      by (simp add: VECTOR_LENGTH_def MEMORY_REF_def cp_def del: of_nat_add)
    then have "control_point_end (memory ?t) cp = control_point_start cp + length (catch_words s @ ws)"
      by (simp add: control_point_end_def control_point_start_def VECTOR_LOC_def)
    moreover have "mem (memory ?t) (control_point_start cp + i) = (catch_words s @ ws) ! i" if "i < length (catch_words s @ ws)" for i
      using th(2) [of i] that unfolding Nr r(2) .
    ultimately show ?thesis using al(3) by (simp add: saved_stack_def cp_def)
  qed
  moreover have "off_stack s (control_point_start cp) (length (catch_words s @ ws))" using heap(2) start by (auto simp: off_stack_def)
  moreover have "mem (memory ?t) a = mem (memory s) a"
    if "a < stack_start s \<or> stack_end s \<le> a" "a < Free (memory s) \<or> Free (memory s) + (length ws + 9) \<le> a" for a
    using th(3) [of a] r(5) [of a] m(4) [of a] that rc pf start s(3,4) sp Nr by auto
  moreover have "fixed_objects (memory ?t) = fixed_objects (memory s)" using th(6) r(6) arg_cong [OF m(2), of fixed_objects] by simp
  ultimately show ?thesis using th(1,4,5) rc pf control_partD [of ?t "r\<lparr>prev_restore_history_offset := 0\<rparr>"] by auto
qed

text \<open>The control point survives as long as its words do, whatever happens to the stack.\<close>

definition keeps_words :: "nat \<Rightarrow> nat \<Rightarrow> interp \<Rightarrow> interp \<Rightarrow> bool" where
  "keeps_words a n s t \<longleftrightarrow> (\<forall>i<n. mem (memory t) (a + i) = mem (memory s) (a + i))
     \<and> stack_start t = stack_start s \<and> stack_guard t = stack_guard s \<and> stack_end t = stack_end s"

lemma saved_stack_kept:
  assumes cp: "saved_stack (memory t) cp ws" "cp = MAKE_POINTER_OBJECT TC_CONTROL_POINT a" "addressable a" and u: "keeps_words a (length ws + 3) t u"
  shows "saved_stack (memory u) cp ws"
proof -
  have kept: "mem (memory u) (a + i) = mem (memory t) (a + i)" if "i < length ws + 3" for i using u that by (simp add: keeps_words_def)
  have addr: "OBJECT_ADDRESS cp = a" "control_point_start cp = a + 3" using cp(2,3) by (simp_all add: control_point_start_def VECTOR_LOC_def)
  have "VECTOR_LENGTH (memory u) cp = VECTOR_LENGTH (memory t) cp" using kept [of 0] addr(1) by (simp add: VECTOR_LENGTH_def MEMORY_REF_def)
  then show ?thesis using cp(1) kept [of "3 + _"] by (simp add: saved_stack_def control_point_end_def addr(2) add.assoc)
qed

end
