(* ===== verification/Control_Example.thy ===== *)
theory Control_Example
  imports Handler_Correct Control_Points Apply_Lists Interp_Example
begin

text \<open>
  A machine with handlers: a pending interrupt, an unbound variable, an application of a number,
  a continuation and a circular list.
\<close>

section \<open>Primitives as handlers\<close>

lemma clear_performs:
  assumes c: "\<And>m. ulong_arg 1 c m = (Inr w, m)"
  shows "primitive_performs W Prim_clear_interrupts [c, x] h UNSPECIFIC (h\<lparr>Free_primitive := Free h, int_code := int_code h AND NOT (w AND INT_Mask)\<rparr>)"
  unfolding primitive_performs_def
proof (intro allI impI, elim conjE)
  fix s :: interp assume m: "alike W (memory s) (h\<lparr>Free_primitive := Free h\<rparr>)" and args: "\<forall>i<length [c, x]. STACK_REF s i = [c, x] ! i"
  let ?m = "CLEAR_INTERRUPT_NOLOCK (w AND INT_Mask) (memory s)"
  have "ARG_REF s 1 = c" using args [rule_format, of 0] by (simp add: ARG_REF_def)
  then have "Prim_clear_interrupts s = Some (Inr UNSPECIFIC, s\<lparr>memory := ?m\<rparr>)"
    by (simp add: Prim_clear_interrupts_def arg_interrupts_def acting_def calling_def c [unfolded One_nat_def] PRIMITIVE_RETURN_def deliver_def on_memory_def)
  moreover have "alike W ?m (h\<lparr>Free_primitive := Free h, int_code := int_code h AND NOT (w AND INT_Mask)\<rparr>)"
    using m by (cases "memory s"; cases h) (simp add: alike_def CLEAR_INTERRUPT_NOLOCK_def)
  moreover have "\<forall>a\<in>W. mem ?m a = mem (memory s) a" by (simp add: CLEAR_INTERRUPT_NOLOCK_def)
  ultimately show "\<exists>m'. Prim_clear_interrupts s = Some (Inr UNSPECIFIC, s\<lparr>memory := m'\<rparr>)
    \<and> alike W m' (h\<lparr>Free_primitive := Free h, int_code := int_code h AND NOT (w AND INT_Mask)\<rparr>) \<and> (\<forall>a\<in>W. mem m' a = mem (memory s) a)" by blast
qed

text \<open>A handler that stores a value in a cell.\<close>

definition store_handler :: "nat \<Rightarrow> ulong \<Rightarrow> ulong code" where
  "store_handler a v = doing (on_memory (write_word a v)) (PRIMITIVE_RETURN UNSPECIFIC)"

lemma store_performs:
  assumes "a \<notin> W"
  shows "primitive_performs W (store_handler a v) args h UNSPECIFIC (write_word a v (h\<lparr>Free_primitive := Free h\<rparr>))"
  unfolding primitive_performs_def
proof (intro allI impI, elim conjE)
  fix s :: interp assume m: "alike W (memory s) (h\<lparr>Free_primitive := Free h\<rparr>)"
  have "store_handler a v s = Some (Inr UNSPECIFIC, s\<lparr>memory := write_word a v (memory s)\<rparr>)"
    by (simp add: store_handler_def PRIMITIVE_RETURN_def deliver_def on_memory_def)
  then show "\<exists>m'. store_handler a v s = Some (Inr UNSPECIFIC, s\<lparr>memory := m'\<rparr>)
      \<and> alike W m' (write_word a v (h\<lparr>Free_primitive := Free h\<rparr>)) \<and> (\<forall>x\<in>W. mem m' x = mem (memory s) x)"
    using alike_write [OF m, of a v] assms by auto
qed

section \<open>The machine\<close>

definition event_clear :: ulong where "event_clear = MAKE_OBJECT TC_PRIMITIVE 8"
definition event_bind :: ulong where "event_bind = MAKE_OBJECT TC_PRIMITIVE 9"

definition event_words :: "(nat \<times> ulong) list" where
  "event_words =
    [(140, sample_x), (141, SHARP_T), (151, UNBOUND_OBJECT), (160, sample_five), (161, MAKE_POINTER_OBJECT TC_LIST 160),
     (200, MAKE_POINTER_OBJECT UNMARKED_HISTORY_TYPE 210), (201, MAKE_POINTER_OBJECT UNMARKED_HISTORY_TYPE 200),
     (202, MAKE_POINTER_OBJECT UNMARKED_HISTORY_TYPE 200), (203, MAKE_POINTER_OBJECT UNMARKED_HISTORY_TYPE 210),
     (204, MAKE_POINTER_OBJECT UNMARKED_HISTORY_TYPE 200), (205, MAKE_POINTER_OBJECT UNMARKED_HISTORY_TYPE 203), (212, MAKE_POINTER_OBJECT UNMARKED_HISTORY_TYPE 210),
     (302, MAKE_POINTER_OBJECT TC_VECTOR 400), (303, MAKE_POINTER_OBJECT TC_VECTOR 420), (307, SHARP_F),
     (320, MAKE_POINTER_OBJECT UNMARKED_HISTORY_TYPE 200), (400, 16), (405, event_clear), (420, 32), (422, event_bind), (424, sample_cons)]"

definition event_machine :: "(nat \<times> ulong) list \<Rightarrow> ulong \<Rightarrow> machine" where
  "event_machine stack code = \<lparr>mem = (\<lambda>a. case map_of (stack @ event_words) a of None \<Rightarrow> 0 | Some w \<Rightarrow> w), heap_start = 1000, heap_end = 4000,
     heap_alloc_limit = 4000, Free = 1000, Free_primitive = 0, int_mask = 0x14, int_code = code, gc_space_needed = 0,
     fixed_objects = MAKE_POINTER_OBJECT TC_VECTOR 300\<rparr>"

definition event_state :: "(nat \<times> ulong) list \<Rightarrow> ulong \<Rightarrow> nat \<Rightarrow> interp" where
  "event_state stack code sp = \<lparr>memory = event_machine stack code, stack_pointer = sp, stack_start = 5000, stack_end = 6000, stack_guard = 5010,
     reg_val = SHARP_F, reg_env = THE_GLOBAL_ENV, reg_exp = sample_variable, reg_ret = SHARP_F, reg_primitive = event_clear,
     lexpr_actuals = 0, history_register = 203, prev_restore_history_offset = 0, trapping = False, critical_section = False, critical_section_hook_p = False,
     error_argument = SHARP_F, death_blow = 0, prim_apply_error_code = 0, interpreter_states = 2\<rparr>"

definition event_table :: primitives where
  "event_table n =
     (if n = 7 then \<lparr>primitive_procedure = Some (primitive_of_2 Prim_cons), primitive_arity = 2\<rparr>
      else if n = 8 then \<lparr>primitive_procedure = Some Prim_clear_interrupts, primitive_arity = 2\<rparr>
      else if n = 9 then \<lparr>primitive_procedure = Some (store_handler 151 sample_five), primitive_arity = 2\<rparr>
      else if n = 11 then \<lparr>primitive_procedure = None, primitive_arity = 3\<rparr>
      else \<lparr>primitive_procedure = None, primitive_arity = 1\<rparr>)"

lemma event_objects [simp]:
  "OBJECT_TYPE event_clear = TC_PRIMITIVE" "OBJECT_TYPE event_bind = TC_PRIMITIVE" "PRIMITIVE_NUMBER event_clear = 8" "PRIMITIVE_NUMBER event_bind = 9"
  by (simp_all add: event_clear_def event_bind_def PRIMITIVE_NUMBER_def)

lemma event_fields [simp]:
  "Free (event_machine st c) = 1000" "heap_start (event_machine st c) = 1000" "heap_alloc_limit (event_machine st c) = 4000"
  "int_mask (event_machine st c) = 0x14" "int_code (event_machine st c) = c" "fixed_objects (event_machine st c) = MAKE_POINTER_OBJECT TC_VECTOR 300"
  "memory (event_state st c sp) = event_machine st c" "stack_pointer (event_state st c sp) = sp" "stack_end (event_state st c sp) = 6000"
  "stack_start (event_state st c sp) = 5000" "stack_guard (event_state st c sp) = 5010" "prev_restore_history_offset (event_state st c sp) = 0"
  "reg_exp (event_state st c sp) = sample_variable" "reg_env (event_state st c sp) = THE_GLOBAL_ENV" "history_register (event_state st c sp) = 203"
  "trapping (event_state st c sp) = False" "reg_primitive (event_state st c sp) = event_clear"
  by (simp_all add: event_machine_def event_state_def)

definition on_stack :: "(nat \<times> ulong) list \<Rightarrow> bool" where
  "on_stack st \<longleftrightarrow> (\<forall>(a, w)\<in>set st. 5000 \<le> a \<and> a < 6000)"

lemma event_mem:
  assumes "on_stack st"
  shows "a < 5000 \<Longrightarrow> mem (event_machine st c) a = (case map_of event_words a of None \<Rightarrow> 0 | Some w \<Rightarrow> w)"
    "5000 \<le> a \<Longrightarrow> mem (event_machine st c) a = (case map_of st a of None \<Rightarrow> 0 | Some w \<Rightarrow> w)"
proof -
  have "map_of st a = None" if "a < 5000" using assms that by (force simp: on_stack_def map_of_eq_None_iff)
  then show "a < 5000 \<Longrightarrow> mem (event_machine st c) a = (case map_of event_words a of None \<Rightarrow> 0 | Some w \<Rightarrow> w)"
    by (simp add: event_machine_def map_add_def)
  have "map_of event_words a = None" if "5000 \<le> a" using that by (simp add: event_words_def)
  then show "5000 \<le> a \<Longrightarrow> mem (event_machine st c) a = (case map_of st a of None \<Rightarrow> 0 | Some w \<Rightarrow> w)"
    by (simp add: event_machine_def map_add_def split: option.split)
qed

lemma event_running:
  assumes "on_stack st" "5010 \<le> sp" "sp \<le> 6000"
  shows "running sample_hidden {200, 203} {210} (event_machine st c) (event_state st c sp)"
  unfolding running_def hidden_layout_def history_ok_def history_words_def
  using assms by (auto simp: event_mem sample_hidden_def event_words_def addressable_small)

lemma event_fixed:
  assumes "on_stack st"
  shows "dummy_in sample_hidden {200, 203} (event_machine st c)"
    "fixed_at sample_hidden (event_machine st c) SYSTEM_INTERRUPT_VECTOR (MAKE_POINTER_OBJECT TC_VECTOR 400)"
    "fixed_at sample_hidden (event_machine st c) FIXOBJ_INTERRUPT_MASK_VECTOR SHARP_F"
    "fixed_at sample_hidden (event_machine st c) SYSTEM_ERROR_VECTOR (MAKE_POINTER_OBJECT TC_VECTOR 420)"
  using assms
  by (simp_all add: dummy_in_def fixed_at_def VECTOR_P_def visible_def sample_hidden_def VECTOR_REF_def MEMORY_REF_def event_mem addressable_small)
    (simp_all add: event_words_def addressable_small)

lemma event_dummy:
  assumes "on_stack st"
  shows "OBJECT_ADDRESS (READ_DUMMY_HISTORY (event_state st c sp)) = 200"
  using assms by (simp add: READ_DUMMY_HISTORY_def FIXED_OBJECT_def VECTOR_REF_def MEMORY_REF_def event_mem addressable_small)
    (simp add: event_words_def addressable_small)

lemma event_slots:
  assumes "on_stack st"
  shows "vector_slot sample_hidden (event_machine st c) (MAKE_POINTER_OBJECT TC_VECTOR 400) 4 event_clear"
    "vector_slot sample_hidden (event_machine st c) (MAKE_POINTER_OBJECT TC_VECTOR 420) 1 event_bind"
    "vector_slot sample_hidden (event_machine st c) (MAKE_POINTER_OBJECT TC_VECTOR 420) 3 sample_cons"
  using assms
  by (simp_all add: vector_slot_def VECTOR_P_def visible_def sample_hidden_def VECTOR_LENGTH_def VECTOR_REF_def MEMORY_REF_def event_mem addressable_small)
    (simp_all add: event_words_def OBJECT_DATUM_def)

lemma event_room: "n \<le> 2900 \<Longrightarrow> \<not> GC_NEEDED_P (event_machine st c) n"
  by (simp add: GC_NEEDED_P_def HEAP_AVAILABLE_P_def FREE_OK_P_def)

lemma event_sane: "sane_masks (event_state st c sp)" "int_mask (event_machine st c) \<le> INT_Mask"
  by (simp_all add: sane_masks_def INT_Mask_def word_le_def)

section \<open>An interrupt between the operands and the application\<close>

definition event_frame :: "ulong \<Rightarrow> (nat \<times> ulong) list" where
  "event_frame f = [(5990, MAKE_OBJECT 0 3), (5991, f), (5992, sample_five), (5993, sample_five), (5998, MAKE_RETURN_CODE RC_END_OF_COMPUTATION)]"

lemma event_frame_on: "on_stack (event_frame f)" "frame_on f [sample_five, sample_five] (event_state (event_frame f) c 5990)"
proof -
  show st: "on_stack (event_frame f)" by (simp add: on_stack_def event_frame_def)
  have "OBJECT_DATUM (MAKE_OBJECT 0 3 :: ulong) = 3" by code_simp
  then show "frame_on f [sample_five, sample_five] (event_state (event_frame f) c 5990)"
    using event_mem(2) [OF st]
    by (auto simp: frame_on_def APPLY_FRAME_SIZE_def APPLY_FRAME_PROCEDURE_def STACK_REF_def event_frame_def less_Suc_eq simp del: numeral_eq_Suc)
qed

lemma event_interrupt:
  assumes "on_stack st"
  shows "interrupt_procedure sample_hidden (event_machine st 16) (compute_interrupt_number (PENDING_INTERRUPTS (event_machine st 16))) event_clear 15"
proof -
  have k: "compute_interrupt_number (PENDING_INTERRUPTS (event_machine st 16)) = 4" unfolding PENDING_INTERRUPTS_def event_fields by code_simp
  have "\<not> VECTOR_P SHARP_F" by code_simp
  then have "compute_interrupt_handler_mask m SHARP_F 4 = Some 15" for m by (simp add: compute_interrupt_handler_mask_def Let_def)
  then show ?thesis unfolding interrupt_procedure_def k using event_fixed(2,3) [OF assms] event_slots(1) [OF assms] by blast
qed

definition event_cleared :: "(nat \<times> ulong) list \<Rightarrow> machine" where
  "event_cleared st = (event_machine st 16)\<lparr>int_mask := 15, int_code := 0\<rparr>"

lemma event_clears:
  "applies event_table W event_clear [ULONG_TO_FIXNUM 16, ULONG_TO_FIXNUM 20] ((event_machine st 16)\<lparr>int_mask := 15\<rparr>) 0 UNSPECIFIC (event_cleared st)"
  "clears (event_machine st 16) (event_cleared st)"
proof -
  let ?h = "(event_machine st 16)\<lparr>int_mask := 15\<rparr>"
  have f: "ULONG_TO_FIXNUM 16 = fixnum_object 16" by code_simp
  have "ulong_arg 1 (ULONG_TO_FIXNUM 16) m = (Inr 16, m)" for m
    unfolding f using ulong_arg_correct [OF integer_arg_fixnum [of "fixnum_object 16" m], of 1] by (simp add: fixnum_range_def)
  note p = clear_performs [where W = W and h = ?h and x = "ULONG_TO_FIXNUM 20", OF this]
  have "(?h\<lparr>Free_primitive := Free ?h, int_code := int_code ?h AND NOT (16 AND INT_Mask)\<rparr>)\<lparr>Free_primitive := 0\<rparr> = event_cleared st"
    by (simp add: event_cleared_def event_machine_def INT_Mask_def)
  then show "applies event_table W event_clear [ULONG_TO_FIXNUM 16, ULONG_TO_FIXNUM 20] ?h 0 UNSPECIFIC (event_cleared st)"
    using Apply_Primitive [OF _ _ _ _ p, of event_clear event_table] by (simp add: event_table_def PENDING_INTERRUPTS_def)
  show "clears (event_machine st 16) (event_cleared st)"
    by (simp add: clears_def event_cleared_def GC_NEEDED_P_def HEAP_AVAILABLE_P_def FREE_OK_P_def)
qed

definition event_consed :: "(nat \<times> ulong) list \<Rightarrow> machine" where
  "event_consed st = push_list_free [sample_five, sample_five] (event_machine st 0)"

lemma event_cons_applied:
  "applies event_table sample_hidden sample_cons [sample_five, sample_five] ((event_cleared st)\<lparr>int_mask := int_mask (event_machine st 16)\<rparr>) 0
     (MAKE_POINTER_OBJECT TC_LIST 1000) (event_consed st)"
proof -
  let ?h = "(event_cleared st)\<lparr>int_mask := int_mask (event_machine st 16)\<rparr>"
  have h: "?h = event_machine st 0" by (simp add: event_cleared_def event_machine_def)
  have "primitive_performs sample_hidden (primitive_of_2 Prim_cons) [sample_five, sample_five] ?h (MAKE_POINTER_OBJECT TC_LIST (Free ?h))
      (push_list_free [sample_five, sample_five] (?h\<lparr>Free_primitive := Free ?h\<rparr>))"
    unfolding h by (rule cons_performs) (simp_all add: event_room, simp_all add: sample_hidden_def)
  from Apply_Primitive [OF _ _ _ _ this, of sample_cons event_table] show ?thesis
    unfolding h by (simp add: event_table_def PENDING_INTERRUPTS_def event_consed_def push_list_free_def push_free_def write_word_def event_machine_def)
qed

section \<open>An unbound variable\<close>

definition event_stack :: "(nat \<times> ulong) list" where
  "event_stack = [(5998, MAKE_RETURN_CODE RC_END_OF_COMPUTATION)]"

lemma event_stack_on: "on_stack event_stack"
  by (simp add: on_stack_def event_stack_def)

lemma global_lookup:
  assumes "mem h 151 = v" "\<not> REFERENCE_TRAP_P v \<or> v = UNBOUND_OBJECT"
  shows "performs sample_hidden (lookup_variable THE_GLOBAL_ENV sample_x) h (if v = UNBOUND_OBJECT then (ERR_UNBOUND_VARIABLE, None) else (PRIM_DONE, Some v)) h"
proof -
  have u: "REFERENCE_TRAP_P UNBOUND_OBJECT" "get_trap_kind h UNBOUND_OBJECT = TRAP_UNBOUND"
    by (simp_all add: UNBOUND_OBJECT_def REFERENCE_TRAP_P_def get_trap_kind_def TRAP_MAX_IMMEDIATE_def)
  have first: "first_cell h sample_x [THE_GLOBAL_ENV] = Some 151"
    by (simp add: frame_cell_def PROCEDURE_FRAME_P_def THE_GLOBAL_ENV_def)
  have chain: "env_chain h THE_GLOBAL_ENV [THE_GLOBAL_ENV]" by (simp add: GLOBAL_FRAME_P_def)
  have kind: "v \<noteq> UNBOUND_OBJECT \<Longrightarrow> get_trap_kind h v = NON_TRAP_KIND" using assms(2) by (simp add: get_trap_kind_def)
  have cell: "value_cell h 151 = 151" "trap_words h 151 = {}"
    using assms(1,2) kind u(2)
    by (cases "v = UNBOUND_OBJECT"; simp add: value_cell_def trap_words_def; simp add: UNBOUND_OBJECT_def TRAP_MAX_IMMEDIATE_def)+
  have vis: "bindings_visible sample_hidden h sample_x [THE_GLOBAL_ENV]" "cell_words h 151 \<inter> sample_hidden = {}"
    using cell by (simp_all add: bindings_visible_def PROCEDURE_FRAME_P_def THE_GLOBAL_ENV_def cell_words_def sample_hidden_def)
  have "value_result h v = (if v = UNBOUND_OBJECT then (ERR_UNBOUND_VARIABLE, None) else (PRIM_DONE, Some v))"
    using kind u by (simp add: value_result_def Let_def)
  then show ?thesis using lookup_performs [OF chain sample_cell(5) first vis] cell assms(1) by simp
qed

definition event_bound :: machine where
  "event_bound = write_word 151 sample_five ((event_machine event_stack 0)\<lparr>int_mask := 0\<rparr>)"

lemma event_unbound:
  "VARIABLE_SYMBOL (event_machine event_stack 0) sample_variable = sample_x"
  "performs sample_hidden (lookup_variable THE_GLOBAL_ENV sample_x) (event_machine event_stack 0) (ERR_UNBOUND_VARIABLE, None) (event_machine event_stack 0)"
proof -
  show "VARIABLE_SYMBOL (event_machine event_stack 0) sample_variable = sample_x"
    using event_mem(1) [OF event_stack_on, of 140 0] by (simp add: VARIABLE_SYMBOL_def MEMORY_REF_def event_words_def)
  have "mem (event_machine event_stack 0) 151 = UNBOUND_OBJECT" using event_mem(1) [OF event_stack_on, of 151 0] by (simp add: event_words_def)
  from global_lookup [OF this] show "performs sample_hidden (lookup_variable THE_GLOBAL_ENV sample_x) (event_machine event_stack 0)
      (ERR_UNBOUND_VARIABLE, None) (event_machine event_stack 0)" by simp
qed

lemma event_binds:
  assumes "length args = 2"
  shows "applies event_table sample_hidden event_bind args ((event_machine event_stack 0)\<lparr>int_mask := 0\<rparr>) 0 UNSPECIFIC event_bound"
proof -
  let ?h = "(event_machine event_stack 0)\<lparr>int_mask := 0\<rparr>"
  have p: "primitive_performs sample_hidden (store_handler 151 sample_five) args ?h UNSPECIFIC (write_word 151 sample_five (?h\<lparr>Free_primitive := Free ?h\<rparr>))"
    by (rule store_performs) (simp add: sample_hidden_def)
  have "(write_word 151 sample_five (?h\<lparr>Free_primitive := Free ?h\<rparr>))\<lparr>Free_primitive := 0\<rparr> = event_bound"
    by (simp add: event_bound_def write_word_def event_machine_def)
  then show "applies event_table sample_hidden event_bind args ?h 0 UNSPECIFIC event_bound"
    using Apply_Primitive [OF _ _ _ _ p, of event_bind event_table] assms by (simp add: event_table_def PENDING_INTERRUPTS_def)
qed

lemma event_bound_clears: "clears (event_machine event_stack 0) event_bound"
  by (simp add: clears_def event_bound_def GC_NEEDED_P_def HEAP_AVAILABLE_P_def FREE_OK_P_def write_word_def)

lemma event_retry:
  "evaluates event_table sample_hidden THE_GLOBAL_ENV sample_variable (event_bound\<lparr>int_mask := int_mask (event_machine event_stack 0)\<rparr>) 0 sample_five
     (event_bound\<lparr>int_mask := int_mask (event_machine event_stack 0)\<rparr>)"
proof (rule Variable)
  let ?h = "event_bound\<lparr>int_mask := int_mask (event_machine event_stack 0)\<rparr>"
  have "VARIABLE_SYMBOL ?h sample_variable = sample_x"
    using event_mem(1) [OF event_stack_on, of 140 0] by (simp add: VARIABLE_SYMBOL_def MEMORY_REF_def event_bound_def event_words_def)
  moreover have "mem ?h 151 = sample_five" by (simp add: event_bound_def)
  moreover have "\<not> REFERENCE_TRAP_P sample_five" "sample_five \<noteq> UNBOUND_OBJECT" by code_simp+
  ultimately show "performs sample_hidden (lookup_variable THE_GLOBAL_ENV (VARIABLE_SYMBOL ?h sample_variable)) ?h (PRIM_DONE, Some sample_five) ?h"
    using global_lookup [of ?h sample_five] by simp
qed (simp_all add: sample_visible)

lemma event_errors:
  "error_procedure sample_hidden (event_machine event_stack 0) ERR_UNBOUND_VARIABLE event_bind"
  "on_stack st \<Longrightarrow> error_procedure sample_hidden (event_machine st 0) ERR_INAPPLICABLE_OBJECT sample_cons"
  unfolding error_procedure_def
  using event_fixed(4) [OF event_stack_on, of 0] event_slots(2) [OF event_stack_on, of 0] event_fixed(4) [of st 0] event_slots(3) [of st 0]
  by (auto intro!: exI [of _ "MAKE_POINTER_OBJECT TC_VECTOR 420"])

section \<open>A number applied\<close>

definition event_noted :: "(nat \<times> ulong) list \<Rightarrow> ulong \<Rightarrow> ulong \<Rightarrow> machine" where
  "event_noted st a d = push_list_free [a, d] ((event_machine st 0)\<lparr>int_mask := 0\<rparr>)"

lemma event_notes:
  "applies event_table sample_hidden sample_cons [a, d] ((event_machine st 0)\<lparr>int_mask := 0\<rparr>) 0 (MAKE_POINTER_OBJECT TC_LIST 1000) (event_noted st a d)"
  "clears (event_machine st 0) (event_noted st a d)"
proof -
  let ?h = "(event_machine st 0)\<lparr>int_mask := 0\<rparr>"
  have "primitive_performs sample_hidden (primitive_of_2 Prim_cons) [a, d] ?h (MAKE_POINTER_OBJECT TC_LIST (Free ?h))
      (push_list_free [a, d] (?h\<lparr>Free_primitive := Free ?h\<rparr>))"
    by (rule cons_performs) (simp_all add: sample_hidden_def GC_NEEDED_P_def HEAP_AVAILABLE_P_def FREE_OK_P_def)
  from Apply_Primitive [OF _ _ _ _ this, of sample_cons event_table]
  show "applies event_table sample_hidden sample_cons [a, d] ?h 0 (MAKE_POINTER_OBJECT TC_LIST 1000) (event_noted st a d)"
    by (simp add: event_table_def PENDING_INTERRUPTS_def event_noted_def push_list_free_def push_free_def write_word_def event_machine_def)
  show "clears (event_machine st 0) (event_noted st a d)"
    by (simp add: clears_def event_noted_def push_list_free_def push_free_def write_word_def GC_NEEDED_P_def HEAP_AVAILABLE_P_def FREE_OK_P_def)
qed

section \<open>A continuation and a circular list\<close>

definition catch_stack :: "(nat \<times> ulong) list" where
  "catch_stack = [(5997, sample_five), (5998, MAKE_RETURN_CODE RC_END_OF_COMPUTATION), (5999, SHARP_T)]"

definition catch_state :: interp where
  "catch_state = (event_state catch_stack 0 5997)\<lparr>reg_primitive := MAKE_OBJECT TC_PRIMITIVE 3\<rparr>"

lemma catch_state_ok:
  "stack_words catch_state = sample_five # [MAKE_RETURN_CODE RC_END_OF_COMPUTATION, SHARP_T]" "catching event_table catch_state"
  "room (memory catch_state) 11" "off_stack catch_state (Free (memory catch_state)) 11"
proof -
  have st: "on_stack catch_stack" by (simp add: on_stack_def catch_stack_def)
  have ref: "STACK_REF catch_state 0 = sample_five" "STACK_REF catch_state 1 = MAKE_RETURN_CODE RC_END_OF_COMPUTATION" "STACK_REF catch_state 2 = SHARP_T"
    using event_mem(2) [OF st] by (simp_all add: catch_state_def STACK_REF_def catch_stack_def)
  have "STACK_N_PUSHED catch_state = 3" by (simp add: STACK_N_PUSHED_def catch_state_def)
  then show "stack_words catch_state = sample_five # [MAKE_RETURN_CODE RC_END_OF_COMPUTATION, SHARP_T]"
    using ref by (simp add: stack_words_def upt_rec numeral_eq_Suc)
  have code: "RETURN_CODE_P (MAKE_RETURN_CODE RC_END_OF_COMPUTATION)" "MAKE_RETURN_CODE RC_END_OF_COMPUTATION \<noteq> MAKE_RETURN_CODE RC_JOIN_STACKLETS" by code_simp+
  have prim: "PRIMITIVE_N_ARGUMENTS event_table (reg_primitive catch_state) catch_state = 1"
    by (simp add: PRIMITIVE_N_ARGUMENTS_def primitive_arity_of_def event_table_def catch_state_def PRIMITIVE_NUMBER_def)
  have "PRIMITIVE_P (reg_primitive catch_state)" by (simp add: catch_state_def PRIMITIVE_P_def)
  then show "catching event_table catch_state"
    using prim code ref by (simp add: catching_def CHECK_RETURN_CODE_def CONT_RET_def)
  show "room (memory catch_state) 11" "off_stack catch_state (Free (memory catch_state)) 11"
    by (simp_all add: catch_state_def room_def event_room addressable_small off_stack_def)
qed

definition circle_stack :: "(nat \<times> ulong) list" where
  "circle_stack = [(5990, sample_cons), (5991, MAKE_POINTER_OBJECT TC_LIST 160), (5992, MAKE_POINTER_OBJECT TC_HUNK3_A 200),
     (5993, MAKE_RETURN_CODE RC_END_OF_COMPUTATION)]"

definition circle_state :: interp where
  "circle_state = (event_state circle_stack 0 5990)\<lparr>reg_primitive := MAKE_OBJECT TC_PRIMITIVE 11\<rparr>"

lemma circle_circular:
  "circular (memory circle_state) (ARG_REF circle_state 2)" "HUNK3_P (ARG_REF circle_state 3)" "PRIMITIVE_P (reg_primitive circle_state)"
  "RETURN_CODE_P (STACK_REF circle_state (unat (PRIMITIVE_N_ARGUMENTS event_table (reg_primitive circle_state) circle_state)))"
proof -
  have st: "on_stack circle_stack" by (simp add: on_stack_def circle_stack_def)
  have ref: "STACK_REF circle_state i = (case map_of circle_stack (5990 + i) of None \<Rightarrow> 0 | Some w \<Rightarrow> w)" for i
    using event_mem(2) [OF st, of "5990 + i" 0] by (simp add: circle_state_def STACK_REF_def)
  have arg: "ARG_REF circle_state 2 = MAKE_POINTER_OBJECT TC_LIST 160" "ARG_REF circle_state 3 = MAKE_POINTER_OBJECT TC_HUNK3_A 200"
    by (simp_all add: ARG_REF_def ref circle_stack_def)
  have "PAIR_CDR (memory circle_state) (MAKE_POINTER_OBJECT TC_LIST 160) = MAKE_POINTER_OBJECT TC_LIST 160"
    using event_mem(1) [OF st, of 161 0] by (simp add: circle_state_def MEMORY_REF_def addressable_small event_words_def)
  then have "tail (memory circle_state) (MAKE_POINTER_OBJECT TC_LIST 160) n = MAKE_POINTER_OBJECT TC_LIST 160" for n
    by (induction n) (simp_all add: tail_def)
  moreover have "PAIR_P (MAKE_POINTER_OBJECT TC_LIST 160)" "HUNK3_P (MAKE_POINTER_OBJECT TC_HUNK3_A 200)" by code_simp+
  ultimately show "circular (memory circle_state) (ARG_REF circle_state 2)" "HUNK3_P (ARG_REF circle_state 3)"
    unfolding arg by (simp_all add: circular_def)
  show "PRIMITIVE_P (reg_primitive circle_state)" by (simp add: circle_state_def PRIMITIVE_P_def)
  have "PRIMITIVE_N_ARGUMENTS event_table (reg_primitive circle_state) circle_state = 3"
    by (simp add: PRIMITIVE_N_ARGUMENTS_def primitive_arity_of_def event_table_def circle_state_def PRIMITIVE_NUMBER_def)
  moreover have "RETURN_CODE_P (MAKE_RETURN_CODE RC_END_OF_COMPUTATION)" by code_simp
  ultimately show "RETURN_CODE_P (STACK_REF circle_state (unat (PRIMITIVE_N_ARGUMENTS event_table (reg_primitive circle_state) circle_state)))"
    by (simp add: ref circle_stack_def)
qed

end
