(* ===== verification/Spec2Isabelle.thy ===== *)
theory Spec2Isabelle
  imports Scheme_Prelude Scheme_Object Machine_Bits Fixnum Bignum_Rep Bignum_Add
    Bignum_Mul Bignum_Digit_Div Bignum_Div Bignum_Long_Div Bignum_Conv Bignum_Bitwise Bignum_Bits Bignum_Shift
    Bignum_Stream Integer_Ops Integer_Arith Integer_Bits Integer_Prims Integer_Prims_Correct
    Scheme_Memory Prim_Args List_Prims Vector_Prims Vector_Correct List_Scan Environment_Spec Avl_Tree Primitive_Table
    Gc_Loop Gc_Heap Gc_Copy Gc_Scan Gc_Walk Gc_Collect Gc_Correct Gc_Example
    Byte_Prims Machine_Loop Symbol_Table Lookup Byte_Correct Symbol_Correct Lookup_Correct Variable_Example
    Interp_State Interpreter Control_Prims Interp_Facts Evaluation Interp_Correct Apply_Correct Interp_Example
    Control_Correct Handler_Correct Control_Points Apply_Lists Control_Example
begin

text \<open>
  MIT/GNU Scheme runs on a microcode written in C (\<open>src/src/microcode\<close>): it represents
  Scheme objects as tagged words, manages the heap, interprets SCode and provides the
  primitives the Scheme runtime is built on. This development models the data and number
  core of the microcode on the 64-bit configuration (words of 64 bits, six tag bits,
  addresses relative to \<open>memory_base\<close>, bignum digits of 62 bits) and proves it correct.

  Parts, from the bottom up. Each theory names its C file in its own introduction.

  \<^item> \<open>Scheme_Prelude\<close>: words read as integers, the collections of rewrite rules, positional
    numerals. \<open>Scheme_Object\<close>: type codes and data of objects, fixnums, characters
    (\<open>types.h\<close>, \<open>object.h\<close>). \<open>Machine_Bits\<close>: \<open>bits.h\<close> and \<open>mul.c\<close>.
  \<^item> \<open>Fixnum\<close>: the primitives of \<open>fixnum.c\<close>, \<open>fixnum.h\<close>, with \<open>prim_error\<close>, the errors a
    primitive signals.
  \<^item> Bignums (\<open>bignum.c\<close>, \<open>bignmint.h\<close>). A bignum is a header word and a list of digits;
    \<open>bignum_wf\<close> is the normal form every operation preserves, \<open>bignum_int\<close> its value. An
    operation whose assertions can fail returns an option. \<open>Bignum_Rep\<close> has the
    representation and comparison, \<open>Bignum_Add\<close>, \<open>Bignum_Mul\<close>, \<open>Bignum_Digit_Div\<close>,
    \<open>Bignum_Div\<close> and \<open>Bignum_Long_Div\<close> the arithmetic (the last one Knuth's division),
    \<open>Bignum_Conv\<close> the conversions to machine integers, \<open>Bignum_Bitwise\<close>, \<open>Bignum_Bits\<close>
    and \<open>Bignum_Shift\<close> the bit operations in two's complement, \<open>Bignum_Stream\<close> digit
    streams. Loops the C code does not obviously end are partial functions; their results
    are shown to exist.
  \<^item> Integers (\<open>artutl.c\<close>, \<open>intprm.c\<close>, \<open>bigprm.c\<close>, \<open>generic.c\<close>). \<open>Integer_Ops\<close> dispatches
    between fixnums and bignums; \<open>integer_ok\<close> is the canonical form: a bignum object is
    never in the range of fixnums. \<open>Integer_Arith\<close> and \<open>Integer_Bits\<close> refine every
    operation to its function on the integers, through the locales \<open>integer_operator\<close> and
    \<open>bitwise_function\<close>, interpreted for each operation. \<open>Integer_Prims\<close> has the primitives
    with their argument checks (\<open>utils.c\<close>), \<open>Integer_Prims_Correct\<close> their correctness.
  \<^item> Memory. \<open>Scheme_Memory\<close> is the machine: the words of the heap, the allocation pointer
    and its limit, the interrupt registers (\<open>memmag.h\<close>, \<open>intrpt.h\<close>, \<open>prims.h\<close>). A primitive
    on memory is an action: it returns a value or aborts, and leaves a machine. The locale
    \<open>allocator\<close> is the contract of every operation that makes an object; \<open>List_Prims\<close>
    (\<open>list.c\<close>) and \<open>Vector_Correct\<close> (for \<open>Vector_Prims\<close>, \<open>vector.c\<close>) interpret it on pairs,
    weak pairs, system pairs, tagged objects, vectors, records and bignums. \<open>Prim_Args\<close> says
    which integers the argument checks accept. \<open>List_Scan\<close> says what the conversion of a list to a vector does on
    proper, improper and circular lists.
  \<^item> Name tables. \<open>Avl_Tree\<close> (\<open>avltree.c\<close>) has the balanced tree from names to indices,
    \<open>Primitive_Table\<close> (\<open>primutl.c\<close>) the table of primitives kept with it, the step relation
    of its operations and the renumbering for a dump.

  \<^item> Garbage collection (\<open>gcloop.c\<close>, \<open>gccode.h\<close>, \<open>memmag.c\<close>, \<open>purify.c\<close>). \<open>Gc_Loop\<close> has the state of the
    collector, an extension of the machine, its table of handlers, the handlers and the loop,
    weak pairs and ephemerons; a function returns an option, since the loops are partial, of
    the death of the collector or a result. \<open>Gc_Heap\<close> states what a heap is: blocks at
    addresses, the words that refer to them, reachability. \<open>Gc_Copy\<close> has the invariant of the
    collection and what moving a block does to it, \<open>Gc_Scan\<close> the handlers, \<open>Gc_Walk\<close> the loops.
    \<open>Gc_Collect\<close> models the primitives of \<open>memmag.c\<close> and \<open>purify.c\<close>, \<open>Gc_Correct\<close> shows that a
    collection of a heap without ephemerons keeps exactly the reachable blocks; ephemerons
    are modelled, their correctness is not shown. \<open>Gc_Example\<close> is a small heap.

  \<^item> Bytes, symbols and variables. \<open>Byte_Prims\<close> (\<open>bytevector.c\<close>, \<open>char.c\<close>) reads the words of
    the memory as bytes. \<open>Machine_Loop\<close> has procedures that need not return, with the loop and
    its rule. \<open>Symbol_Table\<close> (\<open>intern.c\<close>, the hash functions of \<open>utils.c\<close> and \<open>prim.c\<close>) has the
    table of symbols, \<open>Lookup\<close> (\<open>lookup.c\<close>, \<open>lookprm.c\<close>) the variables of environments.
    \<open>Byte_Correct\<close> reads bytevectors as lists of bytes, \<open>Symbol_Correct\<close> buckets as paths of
    entries, \<open>Lookup_Correct\<close> environments as chains of frames, and each shows what the
    operations do on these; \<open>Variable_Example\<close> is a small machine with all of them. \<open>Environment_Spec\<close>
    reads the bindings of frames from memory as association lists, apart from the searches of the code, and shows
    that the searches look up in these lists.

  \<^item> The interpreter (\<open>interp.c\<close>, \<open>utils.c\<close>, \<open>term.c\<close>, \<open>hooks.c\<close>, \<open>step.c\<close>). \<open>Interp_State\<close> has the registers, the
    stack in the words of the memory, continuations, the history of evaluations, interrupts,
    errors and terminations. A piece of code is a function on this state to an option (it need
    not return) of an early exit or a result; the places of the C code a \<open>goto\<close> leads to are labels.
    \<open>Interpreter\<close> has the code behind each label: the dispatch on expressions, on return codes and
    on operators, and the loop \<open>Interpret_loop\<close>. \<open>Control_Prims\<close> has the primitives that replace the
    continuation, the interrupt mask or the history. \<open>Evaluation\<close> is the specification: a
    big-step relation from an environment, an expression and a memory to a value and a memory,
    with the words of stack an evaluation needs. \<open>Interp_Facts\<close>, \<open>Interp_Correct\<close> and \<open>Apply_Correct\<close>
    show by rule induction that the interpreter runs every evaluation: it reaches the return
    of the value with the stack as before. \<open>Control_Correct\<close> shows what interrupts and errors
    leave on the stack, \<open>Handler_Correct\<close> that an evaluation goes on after the handler with the stack, history
    register and mask it had, or tries again what failed, \<open>Control_Points\<close> that a control point brings back the stack
    it was made of, \<open>Apply_Lists\<close> what the lists of arguments do. \<open>Interp_Example\<close> and
    \<open>Control_Example\<close> are small programs and machines.

  Bounds. Results on bignums hold for operands whose digits together stay below the largest
  length of a bignum, conversions for operands below \<open>2 ^ 32\<close> digits, as the hypotheses say;
  larger bignums do not fit into memory. Pointer arithmetic is exact here; an address past
  the end of the address space is undefined in C.

  The stack words an evaluation needs are computed by \<open>Evaluation\<close>, and no fuel is used: the
  loop of the interpreter is a partial function, and the theorems say that it returns.

  Not modelled: floating-point numbers (no theory of IEEE arithmetic is used), the
  collector's and the interpreter's cases of compiled code
  (the model is of the configuration without it) and the debugging tools, the dynamic-state
  stack behind aborts, dumping and loading of heaps, the editor's regular expressions, the operating system
  interfaces, and the programs written in Scheme.
\<close>

section \<open>Concrete operands\<close>

text \<open>Small operands in normal form, at which the properties below are instantiated.\<close>

lemma concrete_bignums [simp]:
  "bignum_wf (mk_bignum False [0, 1])" "bignum_int (mk_bignum False [0, 1]) = 2 ^ 62"
  "bignum_wf (mk_bignum True [5, 1])" "bignum_int (mk_bignum True [5, 1]) = - (2 ^ 62) - 5"
  "bignum_wf (mk_bignum False [7])" "bignum_int (mk_bignum False [7]) = 7"
  "bignum_wf (mk_bignum True [3])" "bignum_int (mk_bignum True [3]) = - 3"
  "bignum_wf (mk_bignum False [])" "bignum_int (mk_bignum False []) = 0"
  by (simp_all add: mk_bignum_wf mk_bignum_int digits_normal_def BIGNUM_LENGTH_MAX_eq)

lemma concrete_lengths [simp]:
  "BIGNUM_LENGTH (mk_bignum neg []) = 0" "BIGNUM_LENGTH (mk_bignum neg [a]) = 1"
  "BIGNUM_LENGTH (mk_bignum neg [a, b]) = 2"
  by simp_all

lemma concrete_integers [simp]:
  "integer_ok (Bignum_Object (mk_bignum False [0, 1]))" "integer_ok (Bignum_Object (mk_bignum True [5, 1]))"
  by (simp_all add: fixnum_range_num)

lemma fixnum_object_int_num: "-144115188075855872 \<le> k \<Longrightarrow> k \<le> 144115188075855871 \<Longrightarrow> fixnum_int (fixnum_object k) = k"
  by (simp add: fixnum_range_num)

section \<open>Generic integers\<close>

text \<open>
  C6. Integer addition, subtraction and multiplication: on any two canonical integers whose
  digits together number fewer than 4294967295, the primitives \<open>INTEGER-ADD\<close>,
  \<open>INTEGER-SUBTRACT\<close> and \<open>INTEGER-MULTIPLY\<close> return, without failing an assertion, the
  canonical object of the exact sum, difference and product.
\<close>

theorem integer_primitives_exact:
  assumes "integer_ok n" "integer_ok m" "integer_digits n + integer_digits m < 4294967295"
  shows "Prim_integer_add (Integer_Object n) (Integer_Object m) =
      Some (Inr (Integer_Object (integer_of (int_of n + int_of m))))
    \<and> Prim_integer_subtract (Integer_Object n) (Integer_Object m) =
      Some (Inr (Integer_Object (integer_of (int_of n - int_of m))))
    \<and> Prim_integer_multiply (Integer_Object n) (Integer_Object m) =
      Some (Inr (Integer_Object (integer_of (int_of n * int_of m))))"
  using integer_primitives_correct [of n m] assms by blast

theorem integer_primitives_exact_witness:
  "Prim_integer_add (Integer_Object (Fixnum_Object (fixnum_object 144115188075855871)))
       (Integer_Object (Fixnum_Object (fixnum_object 1))) =
     Some (Inr (Integer_Object (integer_of 144115188075855872)))
   \<and> Prim_integer_multiply (Integer_Object (Bignum_Object (mk_bignum True [5, 1])))
       (Integer_Object (Bignum_Object (mk_bignum False [0, 1]))) =
     Some (Inr (Integer_Object (integer_of ((- (2 ^ 62) - 5) * 2 ^ 62))))"
  using integer_primitives_exact [of "Fixnum_Object (fixnum_object 144115188075855871)" "Fixnum_Object (fixnum_object 1)"]
    integer_primitives_exact [of "Bignum_Object (mk_bignum True [5, 1])" "Bignum_Object (mk_bignum False [0, 1])"]
  by (simp add: fixnum_object_int_num fixnum_range_num del: mk_bignum_simps)

text \<open>
  C7. Integer division truncates towards zero: \<open>INTEGER-DIVIDE\<close>, \<open>INTEGER-QUOTIENT\<close> and
  \<open>INTEGER-REMAINDER\<close> return the canonical objects of the truncated quotient and of the
  remainder with the sign of the dividend, and signal a bad range error on argument 2
  exactly when the divisor is zero.
\<close>

theorem integer_division_exact:
  assumes "integer_ok n" "integer_ok d" "integer_digits n + integer_digits d < 4294967295"
  shows "Prim_integer_divide (Integer_Object n) (Integer_Object d) = Some
      (if int_of d = 0 then Inl (Bad_Range 2)
       else Inr (Pair_Object (Integer_Object (integer_of (int_of n sdiv int_of d)))
                             (Integer_Object (integer_of (int_of n smod int_of d)))))
    \<and> Prim_integer_quotient (Integer_Object n) (Integer_Object d) = Some
      (if int_of d = 0 then Inl (Bad_Range 2) else Inr (Integer_Object (integer_of (int_of n sdiv int_of d))))
    \<and> Prim_integer_remainder (Integer_Object n) (Integer_Object d) = Some
      (if int_of d = 0 then Inl (Bad_Range 2) else Inr (Integer_Object (integer_of (int_of n smod int_of d))))"
  using integer_division_primitives_correct [of n d] assms by blast

theorem integer_division_exact_witness:
  "Prim_integer_quotient (Integer_Object (Bignum_Object (mk_bignum True [5, 1])))
       (Integer_Object (Bignum_Object (mk_bignum False [0, 1]))) =
     Some (Inr (Integer_Object (integer_of (- 1))))
   \<and> Prim_integer_remainder (Integer_Object (Bignum_Object (mk_bignum True [5, 1])))
       (Integer_Object (Bignum_Object (mk_bignum False [0, 1]))) =
     Some (Inr (Integer_Object (integer_of (- 5))))
   \<and> Prim_integer_divide (Integer_Object (Fixnum_Object (fixnum_object 3))) (Integer_Object (Fixnum_Object (fixnum_object 0))) =
     Some (Inl (Bad_Range 2))"
  using integer_division_exact [of "Bignum_Object (mk_bignum True [5, 1])" "Bignum_Object (mk_bignum False [0, 1])"]
    integer_division_exact [of "Fixnum_Object (fixnum_object 3)" "Fixnum_Object (fixnum_object 0)"]
  by (simp add: fixnum_object_int_num fixnum_range_num sdiv_int_cases del: mk_bignum_simps)

lemma bounded_digits: "integer_ok n \<Longrightarrow> \<bar>int_of n\<bar> < 2 ^ 124 \<Longrightarrow> integer_digits n < 2 ^ 32"
  using length_le_bits [of _ 2] by (cases n) fastforce+

lemma long_round_trip:
  assumes "integer_ok n" "- (2 ^ 63) \<le> int_of n" "int_of n < 2 ^ 63"
  shows "integer_to_long_p n = Some True" "sint (integer_to_long n) = int_of n" "long_to_integer (integer_to_long n) = Some n"
proof -
  have d: "integer_digits n < 2 ^ 32" using assms by (intro bounded_digits) simp_all
  show "integer_to_long_p n = Some True" using integer_to_long_correct(1) [OF assms(1) d] assms(2,3) by simp
  show k: "sint (integer_to_long n) = int_of n" using integer_to_long_correct(2) [OF assms(1) d] assms(2,3) by simp
  obtain m where "long_to_integer (integer_to_long n) = Some m" "integer_ok m" "int_of m = int_of n"
    using long_to_integer_correct [of "integer_to_long n"] k by (cases "long_to_integer (integer_to_long n)") simp_all
  then show "long_to_integer (integer_to_long n) = Some n" using int_of_inj [OF _ assms(1)] by blast
qed

lemma ulong_round_trip:
  assumes "integer_ok n" "0 \<le> int_of n" "int_of n < 2 ^ 64"
  shows "integer_to_ulong_p n = Some True" "\<exists>w. integer_to_ulong n = Some w \<and> uint w = int_of n \<and> ulong_to_integer w = Some n"
proof -
  have d: "integer_digits n < 2 ^ 32" using assms by (intro bounded_digits) simp_all
  show "integer_to_ulong_p n = Some True" using integer_to_ulong_correct(1) [OF assms(1) d] assms(2,3) by simp
  obtain w where w: "integer_to_ulong n = Some w" "uint w = int_of n" using integer_to_ulong_correct(2) [OF assms(1) d] assms(2,3) by blast
  obtain m where "ulong_to_integer w = Some m" "integer_ok m" "int_of m = int_of n"
    using ulong_to_integer_correct [of w] w(2) by (cases "ulong_to_integer w") simp_all
  then have "ulong_to_integer w = Some n" using int_of_inj [OF _ assms(1)] by blast
  then show "\<exists>w. integer_to_ulong n = Some w \<and> uint w = int_of n \<and> ulong_to_integer w = Some n" using w by blast
qed

text \<open>
  C10. Machine words: \<open>long_to_integer\<close> and \<open>ulong_to_integer\<close> make of every word the canonical integer of its signed or
  unsigned value, which the checks \<open>integer_to_long_p\<close> and \<open>integer_to_ulong_p\<close> accept and \<open>integer_to_long\<close> and
  \<open>integer_to_ulong\<close> convert back to the word; conversely a canonical integer in the range of \<open>long\<close> or \<open>unsigned long\<close>,
  fixnum or bignum, is accepted, keeps its value and comes back as the same object. The unsigned
  check refuses every integer outside \<open>unsigned long\<close> of less than \<open>2 ^ 32\<close> digits (the signed one does not, see C18).
\<close>

theorem word_conversions_round_trip:
  assumes "integer_ok n"
  shows "(- (2 ^ 63) \<le> int_of n \<and> int_of n < 2 ^ 63 \<longrightarrow>
       integer_to_long_p n = Some True \<and> sint (integer_to_long n) = int_of n \<and> long_to_integer (integer_to_long n) = Some n)
   \<and> (0 \<le> int_of n \<and> int_of n < 2 ^ 64 \<longrightarrow>
       integer_to_ulong_p n = Some True \<and> (\<exists>w. integer_to_ulong n = Some w \<and> uint w = int_of n \<and> ulong_to_integer w = Some n))
   \<and> (int_of n < 0 \<or> 2 ^ 64 \<le> int_of n \<longrightarrow> integer_digits n < 2 ^ 32 \<longrightarrow> integer_to_ulong_p n = Some False)
   \<and> (\<exists>m. long_to_integer w = Some m \<and> integer_ok m \<and> int_of m = sint w \<and> integer_to_long_p m = Some True \<and> integer_to_long m = w)
   \<and> (\<exists>m. ulong_to_integer w = Some m \<and> integer_ok m \<and> int_of m = uint w \<and> integer_to_ulong_p m = Some True \<and> integer_to_ulong m = Some w)"
proof (intro conjI impI)
  obtain m where m: "long_to_integer w = Some m" "integer_ok m" "int_of m = sint w"
    using long_to_integer_correct [of w] by (cases "long_to_integer w") simp_all
  have "- (2 ^ 63) \<le> int_of m" "int_of m < 2 ^ 63" using m(3) sint_ge [of w] sint_lt [of w] by simp_all
  from long_round_trip(1,2) [OF m(2) this] m
  show "\<exists>m. long_to_integer w = Some m \<and> integer_ok m \<and> int_of m = sint w \<and> integer_to_long_p m = Some True \<and> integer_to_long m = w"
    by (auto simp: signed_word_eqI)
  obtain u where u: "ulong_to_integer w = Some u" "integer_ok u" "int_of u = uint w"
    using ulong_to_integer_correct [of w] by (cases "ulong_to_integer w") simp_all
  have "0 \<le> int_of u" "int_of u < 2 ^ 64" using u(3) uint_lt2p [of w] by simp_all
  from ulong_round_trip [OF u(2) this] u
  show "\<exists>m. ulong_to_integer w = Some m \<and> integer_ok m \<and> int_of m = uint w \<and> integer_to_ulong_p m = Some True \<and> integer_to_ulong m = Some w"
    by (auto simp: word_uint_eq_iff)
qed (use long_round_trip [OF assms] ulong_round_trip [OF assms] integer_to_ulong_correct(1) [OF assms] in \<open>auto simp: not_less\<close>)

theorem word_conversions_round_trip_witness:
  "long_to_integer (integer_to_long (Bignum_Object (mk_bignum True [5, 1]))) = Some (Bignum_Object (mk_bignum True [5, 1]))
   \<and> sint (integer_to_long (Bignum_Object (mk_bignum True [5, 1]))) = - (2 ^ 62) - 5
   \<and> integer_to_ulong_p (Bignum_Object (mk_bignum True [5, 1])) = Some False
   \<and> (\<exists>m. long_to_integer (- 1) = Some m \<and> int_of m = - 1) \<and> (\<exists>m. ulong_to_integer (- 1) = Some m \<and> int_of m = 2 ^ 64 - 1)"
proof -
  have "bignum_wf (mk_bignum True [5, 1])" "bignum_int (mk_bignum True [5, 1]) = - (2 ^ 62) - 5" "BIGNUM_LENGTH (mk_bignum True [5, 1]) < 2 ^ 32"
    by (simp_all add: mk_bignum_wf mk_bignum_int digits_normal_def BIGNUM_LENGTH_MAX_eq)
  moreover have "uint (- 1 :: ulong) = 2 ^ 64 - 1" "sint (- 1 :: ulong) = - 1" by code_simp+
  ultimately show ?thesis
    using word_conversions_round_trip [of "Bignum_Object (mk_bignum True [5, 1])" "- 1"]
    by (auto simp: fixnum_range_num simp del: mk_bignum_simps)
qed

text \<open>
  C11. Type errors: a binary integer primitive called with an argument that is not an
  integer signals a wrong-type error with the index of the first such argument, and
  computes nothing.
\<close>

theorem integer_primitives_type_errors:
  assumes "\<not> integer_object_p x \<or> \<not> integer_object_p y"
  shows "Prim_integer_add x y = Some (Inl (Wrong_Type (if integer_object_p x then 2 else 1)))
    \<and> Prim_integer_less_p x y = Some (Inl (Wrong_Type (if integer_object_p x then 2 else 1)))
    \<and> Prim_integer_quotient x y = Some (Inl (Wrong_Type (if integer_object_p x then 2 else 1)))
    \<and> Prim_integer_divide x y = Some (Inl (Wrong_Type (if integer_object_p x then 2 else 1)))"
  using binary_type_errors [OF assms]
  by (simp add: Prim_integer_add_def Prim_integer_less_p_def Prim_integer_quotient_def)

theorem integer_primitives_type_errors_witness:
  "Prim_integer_add (Integer_Object (Fixnum_Object (fixnum_object 3))) EMPTY_LIST_OBJECT = Some (Inl (Wrong_Type 2))"
  using integer_primitives_type_errors [of "Integer_Object (Fixnum_Object (fixnum_object 3))" EMPTY_LIST_OBJECT]
  by (simp add: integer_object_p_def EMPTY_LIST_OBJECT_def)

text \<open>
  C12. The comparison primitives decide the order of the integers their arguments denote,
  whatever mixture of fixnums and bignums represents them.
\<close>

theorem integer_comparisons_exact:
  assumes "integer_ok n" "integer_ok m" "integer_digits n + integer_digits m < 4294967295"
  shows "Prim_integer_equal_p (Integer_Object n) (Integer_Object m) =
      Some (Inr (BOOLEAN_OBJECT (int_of n = int_of m)))
    \<and> Prim_integer_less_p (Integer_Object n) (Integer_Object m) =
      Some (Inr (BOOLEAN_OBJECT (int_of n < int_of m)))
    \<and> Prim_integer_greater_p (Integer_Object n) (Integer_Object m) =
      Some (Inr (BOOLEAN_OBJECT (int_of m < int_of n)))"
  using integer_comparison_primitives_correct [of n m] assms by blast

theorem integer_comparisons_exact_witness:
  "Prim_integer_less_p (Integer_Object (Bignum_Object (mk_bignum True [5, 1])))
     (Integer_Object (Fixnum_Object (fixnum_object 3))) = Some (Inr (BOOLEAN_OBJECT True))"
  using integer_comparisons_exact [of "Bignum_Object (mk_bignum True [5, 1])" "Fixnum_Object (fixnum_object 3)"]
  by (simp add: fixnum_object_int_num fixnum_range_num del: mk_bignum_simps)

text \<open>
  C15. Digit lists: \<open>LISTIFY-BIGNUM\<close> writes the digits of a bignum in a radix, and
  \<open>LIST->INTEGER\<close> reads them back as the magnitude of the bignum, as long as the number of
  digits times the length of the radix fits the 32-bit computation of the result length.
\<close>

theorem digit_lists_round_trip:
  assumes "bignum_wf b" "integer_ok rn" "int_of rn = r" "1 < r" "r < 2 ^ 31"
    and "length (int_digits r \<bar>bignum_int b\<bar>) * ulong_length_in_bits (word_of_int r) < 2 ^ 32"
  shows "\<exists>l. Prim_listify_bignum (Integer_Object (Bignum_Object b)) (Integer_Object rn) = Some (Inr l)
    \<and> Prim_list_to_integer l (Integer_Object rn) (Other_Object SHARP_F) =
      Some (Inr (Integer_Object (integer_of \<bar>bignum_int b\<bar>)))"
  using assms by (rule digit_list_round_trip)

theorem digit_lists_round_trip_witness:
  "\<exists>l. Prim_listify_bignum (Integer_Object (Bignum_Object (mk_bignum False [7])))
       (Integer_Object (Fixnum_Object (fixnum_object 10))) = Some (Inr l)
    \<and> Prim_list_to_integer l (Integer_Object (Fixnum_Object (fixnum_object 10))) (Other_Object SHARP_F) =
      Some (Inr (Integer_Object (integer_of 7)))"
proof -
  have "length (int_digits 10 7) = 1" by (simp add: int_digits.simps)
  moreover have "ulong_length_in_bits 10 \<le> 64" by (rule bit_length_word)
  ultimately show ?thesis
    using digit_lists_round_trip [of "mk_bignum False [7]" "Fixnum_Object (fixnum_object 10)" 10]
    by (simp add: fixnum_object_int_num fixnum_range_num del: mk_bignum_simps)
qed

text \<open>
  C16. The bit-level integer primitives act on two's complement: for canonical integers of
  bounded size the ten binary operations and the complement deliver the canonical integer
  whose bits are computed position by position, the infinite sign extension included.
\<close>

theorem integer_bitwise_twos_complement:
  assumes "integer_ok n" "integer_ok m" "integer_digits n + integer_digits m < 4294967295"
  shows "delivers (integer_bitwise_and n m) (int_of n AND int_of m)
    \<and> delivers (integer_bitwise_andc2 n m) (int_of n AND NOT (int_of m))
    \<and> delivers (integer_bitwise_andc1 n m) (NOT (int_of n) AND int_of m)
    \<and> delivers (integer_bitwise_xor n m) (int_of n XOR int_of m)
    \<and> delivers (integer_bitwise_ior n m) (int_of n OR int_of m)
    \<and> delivers (integer_bitwise_nor n m) (NOT (int_of n OR int_of m))
    \<and> delivers (integer_bitwise_eqv n m) (NOT (int_of n XOR int_of m))
    \<and> delivers (integer_bitwise_orc2 n m) (int_of n OR NOT (int_of m))
    \<and> delivers (integer_bitwise_orc1 n m) (NOT (int_of n) OR int_of m)
    \<and> delivers (integer_bitwise_nand n m) (NOT (int_of n AND int_of m))
    \<and> delivers (integer_bitwise_not n) (NOT (int_of n))"
proof -
  have "integer_digits n < 4294967295" using assms(3) by linarith
  then show ?thesis
    using integer_bitwise_correct [of n m] integer_bitwise_not_correct [OF assms(1)] assms by blast
qed

theorem integer_bitwise_twos_complement_witness:
  "delivers (integer_bitwise_xor (Bignum_Object (mk_bignum True [5, 1])) (Bignum_Object (mk_bignum False [0, 1])))
     ((- (2 ^ 62) - 5) XOR 2 ^ 62)
   \<and> delivers (integer_bitwise_not (Bignum_Object (mk_bignum True [5, 1]))) (2 ^ 62 + 4)"
  using integer_bitwise_twos_complement [of "Bignum_Object (mk_bignum True [5, 1])" "Bignum_Object (mk_bignum False [0, 1])"]
  by (simp add: fixnum_range_num not_int_def del: mk_bignum_simps)

text \<open>
  C17. Shifts of a canonical integer. By a nonnegative fixnum count, as long as the digits of the integer and the
  count stay within the maximal length of a bignum, \<open>INTEGER-SHIFT-LEFT\<close> multiplies by the power of two, and
  \<open>INTEGER-SHIFT-RIGHT\<close> is floor division by it; for an integer \<open>- (2 ^ 62) ^ k\<close> the right shift reads the word
  after the digits, and this word is assumed to be zero there. By a nonnegative bignum count \<open>INTEGER-SHIFT-RIGHT\<close>
  is not floor division: it returns 0, whatever the sign of the integer.
\<close>

theorem integer_shifts_exact:
  assumes "integer_ok n" "FIXNUM_P m" "0 \<le> fixnum_int m"
    "62 * (integer_digits n + 2) + nat (fixnum_int m) \<le> 62 * BIGNUM_LENGTH_MAX"
    "integer_digits n < 4294967295" "\<And>k. int_of n = - ((2 ^ 62) ^ k) \<Longrightarrow> beyond = 0"
  shows "Prim_integer_shift_left (Integer_Object n) (Integer_Object (Fixnum_Object m)) =
      Some (Inr (Integer_Object (integer_of (int_of n * 2 ^ nat (fixnum_int m)))))
    \<and> Prim_integer_shift_right beyond (Integer_Object n) (Integer_Object (Fixnum_Object m)) =
      Some (Inr (Integer_Object (integer_of (int_of n div 2 ^ nat (fixnum_int m)))))
    \<and> (\<forall>b. bignum_wf b \<longrightarrow> 0 \<le> bignum_int b \<longrightarrow>
        Prim_integer_shift_right beyond (Integer_Object n) (Integer_Object (Bignum_Object b)) = Some (Inr (Integer_Object (integer_of 0))))"
proof (intro conjI allI impI)
  show "Prim_integer_shift_left (Integer_Object n) (Integer_Object (Fixnum_Object m)) =
      Some (Inr (Integer_Object (integer_of (int_of n * 2 ^ nat (fixnum_int m)))))"
    using integer_shift_left_primitive_correct [of n "Fixnum_Object m"] assms by simp
  show "Prim_integer_shift_right beyond (Integer_Object n) (Integer_Object (Fixnum_Object m)) =
      Some (Inr (Integer_Object (integer_of (int_of n div 2 ^ nat (fixnum_int m)))))"
    using assms by (intro integer_shift_right_primitive_correct)
qed (rule integer_shift_right_bignum_count)

theorem integer_shifts_exact_witness:
  "Prim_integer_shift_left (Integer_Object (Fixnum_Object (fixnum_object (- 3))))
       (Integer_Object (Fixnum_Object (fixnum_object 60))) =
     Some (Inr (Integer_Object (integer_of (- 3 * 2 ^ 60))))
   \<and> Prim_integer_shift_right 0 (Integer_Object (Bignum_Object (mk_bignum True [5, 1])))
       (Integer_Object (Fixnum_Object (fixnum_object 62))) =
     Some (Inr (Integer_Object (integer_of (- 2))))
   \<and> Prim_integer_shift_right 0 (Integer_Object (Bignum_Object (mk_bignum True [5, 1])))
       (Integer_Object (Bignum_Object (mk_bignum False [0, 1]))) = Some (Inr (Integer_Object (integer_of 0)))"
  using integer_shifts_exact [of "Fixnum_Object (fixnum_object (- 3))" "fixnum_object 60" 0]
    integer_shifts_exact [of "Bignum_Object (mk_bignum True [5, 1])" "fixnum_object 62" 0]
  by (simp add: fixnum_object_int_num fixnum_range_num BIGNUM_LENGTH_MAX_eq del: mk_bignum_simps)

text \<open>
  Bit counts and lengths of canonical integers: \<open>integer_bit_count\<close> delivers the number
  of one bits of a nonnegative integer and of zero bits of a negative one,
  \<open>integer_length\<close> the least number of bits that hold the integer without its sign bit, and
  \<open>integer_length_in_bits\<close> the length of its magnitude.
\<close>

theorem integer_counts_exact:
  assumes "integer_ok n" "integer_digits n < 4294967295"
  shows "delivers (integer_bit_count n) (int (popcount (unsigned_part (int_of n))))
    \<and> (\<exists>l. delivers (integer_length n) (int l) \<and> bit_length (unsigned_part (int_of n)) l)
    \<and> (\<exists>l. delivers (integer_length_in_bits n) (int l) \<and> bit_length \<bar>int_of n\<bar> l)"
  using integer_bit_count_correct [OF assms] integer_length_correct [OF assms(1)]
    integer_length_in_bits_correct [OF assms(1)] by blast

text \<open>
  A bignum shift count of \<open>INTEGER-SHIFT-RIGHT\<close> gives zero for every first argument,
  also for a negative one, on which every large enough fixnum count gives -1.
\<close>

theorem shift_right_by_bignum_is_zero:
  assumes "bignum_wf m" "0 \<le> bignum_int m"
  shows "Prim_integer_shift_right beyond (Integer_Object n) (Integer_Object (Bignum_Object m)) =
      Some (Inr (Integer_Object (integer_of 0)))"
  using assms by (rule integer_shift_right_bignum_count)

text \<open>
  C18. The check that guards the conversion of an integer argument to \<open>long\<close> accepts
  negative integers below \<open>- 2 ^ 63\<close>, down to \<open>- 3 * 2 ^ 62\<close>; \<open>arg_integer\<close> then returns them
  wrapped around, as nonnegative numbers.
\<close>

theorem arg_integer_accepts_and_wraps:
  assumes "integer_ok n" "integer_digits n < 2 ^ 32" "- (3 * 2 ^ 62) < int_of n" "int_of n < - (2 ^ 63)"
  shows "\<exists>w. arg_integer a (Integer_Object n) = Some (Inr w) \<and> sint w = int_of n + 2 ^ 64"
  using assms by (rule arg_integer_wraps)

theorem arg_integer_accepts_and_wraps_witness:
  "\<exists>w. arg_integer 1 (Integer_Object (Bignum_Object (mk_bignum True [5, 2]))) = Some (Inr w)
     \<and> sint w = 2 ^ 63 - 5"
proof -
  have "bignum_wf (mk_bignum True [5, 2])" "bignum_int (mk_bignum True [5, 2]) = - (2 ^ 63) - 5"
    by (simp_all add: mk_bignum_wf mk_bignum_int digits_normal_def BIGNUM_LENGTH_MAX_eq)
  then show ?thesis
    using arg_integer_accepts_and_wraps [of "Bignum_Object (mk_bignum True [5, 2])" 1]
    by (simp add: fixnum_range_num del: mk_bignum_simps)
qed

section \<open>Bignums\<close>

text \<open>
  C19. Bignum multiplication, schoolbook or by a short factor, returns the product in
  normal form whenever the lengths of the factors add up to at most the maximal length.
\<close>

theorem bignum_multiply_product:
  assumes "bignum_wf x" "bignum_wf y" "BIGNUM_LENGTH x + BIGNUM_LENGTH y \<le> BIGNUM_LENGTH_MAX"
  shows "\<exists>r. bignum_multiply x y = Some r \<and> bignum_wf r \<and> bignum_int r = bignum_int x * bignum_int y"
  using bignum_multiply_correct [OF assms] by (blast elim: yieldsE)

theorem bignum_multiply_product_witness:
  "\<exists>r. bignum_multiply (mk_bignum True [5, 1]) (mk_bignum False [0, 1]) = Some r
     \<and> bignum_wf r \<and> bignum_int r = (- (2 ^ 62) - 5) * 2 ^ 62"
  using bignum_multiply_product [of "mk_bignum True [5, 1]" "mk_bignum False [0, 1]"]
  by (simp add: BIGNUM_LENGTH_MAX_eq del: mk_bignum_simps)

text \<open>
  C20. Bignum division terminates and truncates towards zero: \<open>bignum_divide\<close> returns the
  error value exactly on a zero divisor, and otherwise, whichever of its algorithms for
  single-digit, half-digit and long divisors it chooses, quotient and remainder in normal
  form.
\<close>

theorem bignum_divide_truncates:
  assumes "bignum_wf n" "bignum_wf d" "BIGNUM_LENGTH n < BIGNUM_LENGTH_MAX"
  shows "(if bignum_int d = 0 then bignum_divide n d = Some None
    else \<exists>q r. bignum_divide n d = Some (Some (q, r)) \<and> bignum_wf q \<and> bignum_wf r
      \<and> bignum_int q = bignum_int n sdiv bignum_int d \<and> bignum_int r = bignum_int n smod bignum_int d)"
  using bignum_divide_correct [OF assms] by (cases "bignum_int d = 0") auto

theorem bignum_divide_truncates_witness:
  "\<exists>q r. bignum_divide (mk_bignum True [5, 1]) (mk_bignum False [0, 1]) = Some (Some (q, r))
     \<and> bignum_int q = - 1 \<and> bignum_int r = - 5"
  using bignum_divide_truncates [of "mk_bignum True [5, 1]" "mk_bignum False [0, 1]"]
  by (simp add: BIGNUM_LENGTH_MAX_eq sdiv_int_cases del: mk_bignum_simps) blast

text \<open>
  Comparison of bignums: \<open>bignum_compare\<close> is the order of the integers, and
  \<open>bignum_equal_p\<close> their equality, which on normal forms is identity of the objects'
  contents.
\<close>

theorem bignum_comparison_order:
  assumes "bignum_wf x" "bignum_wf y"
  shows "bignum_compare x y = int_compare (bignum_int x) (bignum_int y)
    \<and> (bignum_equal_p x y \<longleftrightarrow> x = y)"
  using bignum_compare_correct [OF assms] bignum_equal_p_correct [OF assms] bignum_int_inj [OF assms] by blast

text \<open>
  \<open>bignum_fits_in_word_p\<close>: for bignums of fewer than \<open>2 ^ 32\<close> digits it decides exactly
  whether a nonnegative bignum fits in \<open>n\<close> bits. For a negative one it compares only the
  leading digit, so that it accepts magnitudes up to, and not including,
  \<open>2 ^ n + 2 ^ (62 * ((n - 1) div 62))\<close>, except where 62 divides \<open>n\<close>, where it accepts
  magnitudes below \<open>2 ^ n\<close> only.
\<close>

theorem bignum_fits_in_word:
  assumes "bignum_wf b" "BIGNUM_LENGTH b < 2 ^ 32" "0 < n" "n < 2 ^ 31"
  shows "bignum_fits_in_word_p b (word_of_nat (if twos then n + 1 else n)) twos = Some
    (if bignum_int b < 0
     then twos \<and> - bignum_int b < 2 ^ n + (if 62 dvd n then 0 else 2 ^ (62 * ((n - 1) div 62)))
     else bignum_int b < 2 ^ n)"
  using bignum_fits_in_word_p_correct [OF assms] by (simp add: fits_spec_def)

text \<open>
  The digit stream functions: \<open>digit_stream_to_bignum\<close> evaluates the digits its
  producer delivers by Horner's rule, provided that the number of digits times the length
  of the radix fits in 32 bits.
\<close>

theorem digit_stream_value:
  assumes "1 < uint radix" "uint radix < 2 ^ 31"
    "unat n_digits * ulong_length_in_bits (ucast radix) < 2 ^ 32"
    "produced (unat n_digits) producer c = (ds, c')" "\<forall>d\<in>set ds. d < radix"
  shows "\<exists>r. digit_stream_to_bignum n_digits producer c radix neg = Some (r, c') \<and> bignum_wf r
    \<and> bignum_int r = (if neg then - horner (uint radix) 0 ds else horner (uint radix) 0 ds)"
  using assms by (rule digit_stream_to_bignum_correct)

text \<open>
  Without that proviso the 32-bit product wraps: for \<open>2 ^ 30\<close> decimal digits the result
  gets no digit at all, and the code leaves the array at the first digit it adds.
\<close>

theorem digit_stream_length_overflow:
  "digit_stream_to_bignum 0x40000000 producer c 10 neg = None"
  by (rule digit_stream_length_wraps)

text \<open>
  C21. \<open>bignum_to_digit_stream\<close> terminates and hands its consumer exactly the digits of the
  magnitude, least significant first.
\<close>

theorem digit_stream_output:
  assumes "bignum_wf b" "1 < uint radix" "uint radix < 2 ^ 31"
  shows "bignum_to_digit_stream b radix consumer c =
    Some (foldl consumer c (map word_of_int (int_digits (uint radix) \<bar>bignum_int b\<bar>)))"
  using assms by (rule bignum_to_digit_stream_correct)

theorem digit_stream_output_witness:
  "bignum_to_digit_stream (mk_bignum True [3]) 2 (\<lambda>ds d. ds @ [uint d]) [] = Some [1, 1]"
  using digit_stream_output [of "mk_bignum True [3]" 2 "\<lambda>ds d. ds @ [uint d]" "[]"]
  by (simp add: int_digits.simps del: mk_bignum_simps)

text \<open>
  C22. The primitive \<open>BIGNUM-LENGTH-IN-BITS\<close> returns the raw C integer: for every bignum of
  fewer than \<open>2 ^ 58\<close> bits the word it returns carries the tag of false and is no integer
  object.
\<close>

theorem bignum_length_primitive_untagged:
  assumes "uint (bignum_length_in_bits b) < 2 ^ 58"
  shows "\<exists>w. Prim_bignum_length_in_bits (Integer_Object (Bignum_Object b)) = Some (Inr (Other_Object w))
    \<and> OBJECT_TYPE w = TC_FALSE"
proof (intro exI conjI)
  show "Prim_bignum_length_in_bits (Integer_Object (Bignum_Object b)) =
      Some (Inr (Other_Object (bignum_length_in_bits b)))"
    using assms by (rule bignum_length_in_bits_untagged)
  show "OBJECT_TYPE (bignum_length_in_bits b) = TC_FALSE"
    using assms by (simp add: word_uint_eq_iff uint_OBJECT_TYPE)
qed

theorem bignum_length_primitive_untagged_witness:
  "\<exists>w. Prim_bignum_length_in_bits (Integer_Object (Bignum_Object (mk_bignum False []))) = Some (Inr (Other_Object w))
    \<and> OBJECT_TYPE w = TC_FALSE"
proof (rule bignum_length_primitive_untagged)
  have "bignum_length_in_bits (mk_bignum False []) = 0"
    using bignum_length_in_bits_correct(1) [of "mk_bignum False []"] by (simp del: mk_bignum_simps)
  then show "uint (bignum_length_in_bits (mk_bignum False [])) < 2 ^ 58" by simp
qed

section \<open>Objects and fixnums\<close>

text \<open>
  C23. The fixnum primitives that add, subtract, increment, decrement, negate and divide
  return the fixnum object of the exact integer result when it is in the fixnum range
  and signal a bad-range error on argument 1 otherwise; division by zero is a bad-range
  error on argument 2.
\<close>

theorem fixnum_primitives_exact:
  assumes "FIXNUM_P x" "FIXNUM_P y"
  shows "Prim_plus_fixnum x y = fixnum_result (fixnum_int x + fixnum_int y)
    \<and> Prim_minus_fixnum x y = fixnum_result (fixnum_int x - fixnum_int y)
    \<and> Prim_one_plus_fixnum x = fixnum_result (fixnum_int x + 1)
    \<and> Prim_m_1_plus_fixnum x = fixnum_result (fixnum_int x - 1)
    \<and> Prim_fixnum_negate x = fixnum_result (- fixnum_int x)
    \<and> Prim_fixnum_quotient x y = (if fixnum_int y = 0 then Inl (Bad_Range 2)
        else fixnum_result (fixnum_int x sdiv fixnum_int y))
    \<and> Prim_fixnum_remainder x y = (if fixnum_int y = 0 then Inl (Bad_Range 2)
        else fixnum_result (fixnum_int x smod fixnum_int y))"
  using assms by (rule fixnum_arithmetic_exact)

theorem fixnum_primitives_exact_witness:
  "FIXNUM_P (fixnum_object 7) \<and> FIXNUM_P (fixnum_object (- 2))
   \<and> Prim_fixnum_quotient (fixnum_object 7) (fixnum_object (- 2)) = Inr (fixnum_object (- 3))"
  using fixnum_primitives_exact [of "fixnum_object 7" "fixnum_object (- 2)"]
  by (simp add: fixnum_range_def fixnum_result_def)

text \<open>
  C24. The sum of two bignums: for operands in normal form whose length leaves room for
  one more digit, \<open>bignum_add\<close> returns, without failing an assertion, a bignum in normal
  form that denotes the sum.
\<close>

theorem bignum_add_sum:
  assumes "bignum_wf x" "bignum_wf y"
    "BIGNUM_LENGTH x < BIGNUM_LENGTH_MAX" "BIGNUM_LENGTH y < BIGNUM_LENGTH_MAX"
  shows "\<exists>r. bignum_add x y = Some r \<and> bignum_wf r \<and> bignum_int r = bignum_int x + bignum_int y"
  using bignum_add_correct [OF assms] by (cases "bignum_add x y") auto

theorem bignum_add_sum_witness:
  "\<exists>r. bignum_add (bignum_make_one True) (mk_bignum False [0, 1]) = Some r
     \<and> bignum_int r = 2 ^ 62 - 1"
  using bignum_add_sum [of "bignum_make_one True" "mk_bignum False [0, 1]"]
  by (simp add: mk_bignum_wf mk_bignum_int digits_normal_def BIGNUM_LENGTH_MAX_eq bignum_make_eq) auto

text \<open>
  \<open>MULTIPLY-FIXNUM\<close> returns the exact product when its magnitude is below \<open>2 ^ 57\<close> and
  signals a bad range error otherwise. The product \<open>- 2 ^ 57\<close>, which is a fixnum, is
  rejected as well.
\<close>

theorem fixnum_multiply_bounds:
  assumes "FIXNUM_P x" "FIXNUM_P y"
  shows "Prim_multiply_fixnum x y =
    (if \<bar>fixnum_int x * fixnum_int y\<bar> < 2 ^ 57 then Inr (fixnum_object (fixnum_int x * fixnum_int y))
     else Inl (Bad_Range 1))"
proof -
  have "fixnum_range k" if "\<bar>k\<bar> < 2 ^ 57" for k
    using that by (simp add: fixnum_range_num abs_less_iff)
  then show ?thesis using multiply_fixnum_spec [OF assms] by (simp add: fixnum_result_def)
qed

text \<open>
  C25. \<open>GCD-FIXNUM\<close>: Euclid's loop ends on every pair of fixnums and the primitive returns
  the greatest common divisor, reduced to the fixnum field. It does not check the range:
  the one divisor that is out of range, \<open>2 ^ 57\<close>, comes out as \<open>- 2 ^ 57\<close>.
\<close>

theorem fixnum_gcd:
  assumes "FIXNUM_P x" "FIXNUM_P y"
  shows "\<exists>z. Prim_gcd_fixnum x y = Inr z \<and> FIXNUM_P z
    \<and> fixnum_int z = (let g = gcd (fixnum_int x) (fixnum_int y) in if g = 2 ^ 57 then - (2 ^ 57) else g)"
proof -
  let ?g = "gcd (fixnum_int x) (fixnum_int y)"
  have "?g \<le> 2 ^ 57"
  proof (cases "fixnum_int x = 0 \<and> fixnum_int y = 0")
    case False
    then consider "fixnum_int x \<noteq> 0" | "fixnum_int y \<noteq> 0" by blast
    then have "?g \<le> \<bar>fixnum_int x\<bar> \<or> ?g \<le> \<bar>fixnum_int y\<bar>"
      using zdvd_imp_le [of ?g "\<bar>fixnum_int x\<bar>"] zdvd_imp_le [of ?g "\<bar>fixnum_int y\<bar>"] by cases simp_all
    then show ?thesis using fixnum_int_num [of x] fixnum_int_num [of y] by auto
  qed simp
  moreover have "-144115188075855872 \<le> ?g" by (rule order_trans [of _ 0]) simp_all
  moreover have "fixnum_int (fixnum_object (2 ^ 57)) = - (2 ^ 57)"
    by (simp add: fixnum_object_def fixnum_int_def LONG_TO_FIXNUM_def MAKE_OBJECT_def OBJECT_DATUM_def)
  ultimately have "fixnum_int (fixnum_object ?g) = (if ?g = 2 ^ 57 then - (2 ^ 57) else ?g)"
    by (cases "?g = 2 ^ 57") (use fixnum_object_int_num [of ?g] in simp_all)
  then show ?thesis using gcd_fixnum_spec [OF assms] by (simp add: Let_def)
qed

theorem fixnum_gcd_witness:
  "\<exists>z. Prim_gcd_fixnum (fixnum_object (- 144115188075855872)) (fixnum_object 0) = Inr z
     \<and> fixnum_int z = - 144115188075855872"
  using fixnum_gcd [of "fixnum_object (- 144115188075855872)" "fixnum_object 0"]
  by (auto simp: fixnum_object_int_num)

text \<open>
  The bit-parallel population count of a machine word is the number of its one bits.
\<close>

theorem ulong_bit_count_popcount: "ulong_bit_count x = popcount (uint x)"
  by (rule ulong_bit_count_correct)

text \<open>
  The fixnum path of generic arithmetic agrees with the generic integers: on two
  fixnums \<open>&+\<close> and \<open>&-\<close> return what \<open>INTEGER-ADD\<close> and \<open>INTEGER-SUBTRACT\<close> return, and on any
  other pair of objects they leave for the procedure in their fixed-objects slot.
\<close>

theorem generic_add_dispatch:
  "(if fixnum_object_p x \<and> fixnum_object_p y
    then Prim_add x y = map_option (\<lambda>r. Value (case r of Inr v \<Rightarrow> v | Inl e \<Rightarrow> x)) (Prim_integer_add x y)
      \<and> Prim_subtract x y = map_option (\<lambda>r. Value (case r of Inr v \<Rightarrow> v | Inl e \<Rightarrow> x)) (Prim_integer_subtract x y)
    else Prim_add x y = Some (Apply_Slot GENERIC_TRAMPOLINE_ADD [x, y])
      \<and> Prim_subtract x y = Some (Apply_Slot GENERIC_TRAMPOLINE_SUBTRACT [x, y]))"
  by (auto simp: fixnum_object_p_def Prim_add_def Prim_subtract_def INDIRECT_SUM_def Prim_integer_add_def
      Prim_integer_subtract_def INTEGER_BINARY_OPERATION_def integer_add_def integer_subtract_def
      option.map_comp comp_def split: object.splits integer.splits)

text \<open>
  \<open>FIXNUM->BIGNUM\<close> and \<open>BIGNUM->FIXNUM\<close> are inverse: every fixnum becomes a bignum in
  normal form with the same value, which converts back to the same object.
\<close>

theorem fixnum_to_bignum_and_back:
  assumes "FIXNUM_P x"
  shows "\<exists>b. Prim_fixnum_to_bignum (Integer_Object (Fixnum_Object x)) = Some (Inr (Integer_Object (Bignum_Object b)))
    \<and> bignum_wf b \<and> bignum_int b = fixnum_int x
    \<and> Prim_bignum_to_fixnum (Integer_Object (Bignum_Object b)) = Some (Inr (Integer_Object (Fixnum_Object x)))"
  using assms by (rule fixnum_bignum_round_trip)

section \<open>Memory\<close>

text \<open>A heap of a million words, of which the first hundred are used, with collection enabled.\<close>

definition example_machine :: machine where
  "example_machine = \<lparr>mem = (\<lambda>_. EMPTY_LIST), heap_start = 0, heap_end = 1000000, heap_alloc_limit = 1000000,
     Free = 100, Free_primitive = 100, int_mask = 4, int_code = 0, gc_space_needed = 0, fixed_objects = 0\<rparr>"

lemma example_room: "n < 999000 \<Longrightarrow> room example_machine n"
  by (simp add: room_def example_machine_def GC_NEEDED_P_def HEAP_AVAILABLE_P_def FREE_OK_P_def addressable_def)

text \<open>A machine whose heap is used up to its last word.\<close>

lemma example_full: "GC_NEEDED_P (example_machine\<lparr>Free := 999999\<rparr>) 2"
  by (simp add: example_machine_def GC_NEEDED_P_def HEAP_AVAILABLE_P_def FREE_OK_P_def GC_ENABLED_P_def INT_GC_def)

text \<open>A vector of three fixnums at address 10 of the example machine.\<close>

definition vector_machine :: machine where
  "vector_machine = example_machine\<lparr>mem := (mem example_machine)(10 := 3, 11 := fixnum_object 5, 12 := fixnum_object 6,
     13 := fixnum_object 7)\<rparr>"

definition example_vector :: ulong where
  "example_vector = MAKE_POINTER_OBJECT TC_VECTOR 10"

lemma example_vector_fields:
  "OBJECT_ADDRESS example_vector = 10" "OBJECT_TYPE example_vector = TC_VECTOR" "VECTOR_P example_vector"
  by (simp_all add: example_vector_def VECTOR_P_def addressable_def)

lemma example_vector_at: "vector_at vector_machine example_vector [fixnum_object 5, fixnum_object 6, fixnum_object 7]"
proof -
  have "unat (VECTOR_LENGTH vector_machine example_vector) = 3"
    by (simp add: VECTOR_LENGTH_def MEMORY_REF_def example_vector_fields vector_machine_def OBJECT_DATUM_def)
  then show ?thesis by (simp add: vector_at_def example_vector_fields vector_machine_def words_at_Suc)
qed

lemma vector_machine_room: "n < 999000 \<Longrightarrow> room vector_machine n"
  by (simp add: room_def vector_machine_def example_machine_def GC_NEEDED_P_def HEAP_AVAILABLE_P_def FREE_OK_P_def addressable_def)

text \<open>
  C14. Pairs: where the heap has room for two words, \<open>CONS\<close> returns a new pair whose \<open>CAR\<close> and
  \<open>CDR\<close> are its arguments and changes no word below the allocation pointer; a list consed
  onto a list is that list with one more element. \<open>SET-CAR!\<close> and \<open>SET-CDR!\<close> replace one
  component of a pair and keep the other.
\<close>

theorem cons_laws:
  assumes "room s 2" "list_at s (Free s) d vs"
  shows "\<exists>p s'. Prim_cons a d s = (Inr p, s') \<and> Prim_car p s' = (Inr a, s') \<and> Prim_cdr p s' = (Inr d, s')
    \<and> list_at s' (Free s') p (a # vs) \<and> (\<forall>i < Free s. mem s' i = mem s i)
    \<and> (\<exists>t. Prim_set_car p b s' = (Inr UNSPECIFIC, t) \<and> Prim_car p t = (Inr b, t) \<and> Prim_cdr p t = (Inr d, t))
    \<and> (\<exists>t. Prim_set_cdr p b s' = (Inr UNSPECIFIC, t) \<and> Prim_cdr p t = (Inr b, t) \<and> Prim_car p t = (Inr a, t))"
proof -
  obtain p s' where p: "Prim_cons a d s = (Inr p, s')" "PAIR_P p" "Prim_car p s' = (Inr a, s')" "Prim_cdr p s' = (Inr d, s')"
    "unchanged_below (Free s) s s'"
    using cons_correct [OF assms(1)] by blast
  moreover have "list_at s' (Free s') p (a # vs)" using cons_list [OF assms, of a] p(1) by auto
  moreover have "\<forall>i < Free s. mem s' i = mem s i" using p(5) by (simp add: unchanged_below_def)
  moreover have "fst (Prim_car p s') = Inr a" "fst (Prim_cdr p s') = Inr d" using p(3,4) by simp_all
  ultimately show ?thesis using set_pair_correct [OF p(2), of b s'] by auto
qed

theorem cons_laws_witness:
  "\<exists>p s'. Prim_cons (fixnum_object 5) EMPTY_LIST example_machine = (Inr p, s') \<and> Prim_car p s' = (Inr (fixnum_object 5), s')
    \<and> list_at s' (Free s') p [fixnum_object 5]"
  using cons_laws [of example_machine EMPTY_LIST "[]" "fixnum_object 5" EMPTY_LIST] example_room [of 2] by auto

text \<open>
  Running out of heap: when the allocation pointer leaves fewer than two words below the
  allocation limit and garbage collection is enabled, \<open>CONS\<close> aborts with an interrupt and
  requests the space the primitive had used and needs; the request is pending and no word of
  memory has changed.
\<close>

theorem cons_requests_gc:
  assumes "GC_NEEDED_P s 2" "heap_start s \<le> Free_primitive s" "Free_primitive s \<le> Free s"
  shows "\<exists>s'. Prim_cons a d s = (Inl PRIM_INTERRUPT, s') \<and> gc_space_needed s' = 2 + (Free s - Free_primitive s)
    \<and> PENDING_INTERRUPTS s' AND INT_GC = INT_GC \<and> mem s' = mem s \<and> Free s' = Free s"
proof -
  have "GC_NEEDED_P s (Suc (Suc 0))" using assms(1) by (simp add: numeral_2_eq_2)
  then show ?thesis
    using pairs.requests [of s "(a, d)"] assms(2,3) REQUEST_GC_pending [OF assms(1)] by (simp add: Prim_cons_def)
qed

text \<open>
  \<open>GENERAL-CAR-CDR\<close>: a path that encodes at most 63 selectors, from the least significant
  bit upwards and below its leading one, applies exactly these \<open>CAR\<close>s and \<open>CDR\<close>s one after the
  other, with their type errors.
\<close>

theorem general_car_cdr_composition:
  assumes "integer_arg s x (int (path_of bs))" "length bs < 64"
  shows "Prim_general_car_cdr object x s = select_path bs object s"
proof -
  have "path_of bs < 2 ^ 64"
    using path_of_bound [of bs] assms(2) by (metis Suc_eq_plus1 Suc_leI less_le_trans one_le_numeral power_increasing)
  then show ?thesis
    using ulong_arg_correct [OF assms(1), of 2] general_car_cdr_path [OF assms(2)]
    by (simp add: Prim_general_car_cdr_def)
qed

text \<open>
  C26. Bounds of vector access: for a vector that holds the elements \<open>xs\<close> and any integer
  object \<open>k\<close>, \<open>VECTOR-REF\<close> returns element \<open>k\<close> and \<open>VECTOR-SET!\<close> replaces it and changes no
  other word, if \<open>k\<close> is an index; otherwise both signal a bad range error for their second
  argument and change nothing. This covers the integers the conversion to \<open>long\<close> wraps.
\<close>

theorem vector_access_bounds:
  assumes "VECTOR_P v" "vector_at s v xs" "integer_arg s x k"
  shows "if 0 \<le> k \<and> k < int (length xs)
    then Prim_vector_ref v x s = (Inr (xs ! nat k), s)
      \<and> (\<exists>s'. Prim_vector_set v x y s = (Inr UNSPECIFIC, s') \<and> vector_at s' v (xs[nat k := y])
           \<and> (\<forall>a. a \<noteq> OBJECT_ADDRESS v + 1 + nat k \<longrightarrow> mem s' a = mem s a))
    else Prim_vector_ref v x s = (Inl (Prim_Error (Bad_Range 2)), s)
      \<and> Prim_vector_set v x y s = (Inl (Prim_Error (Bad_Range 2)), s)"
proof -
  note r = vector_ref_correct [of VECTOR_P, OF assms(1,3,2)] and w = vector_set_correct [of VECTOR_P, OF assms(1,3,2), of y]
  show ?thesis
  proof (cases "0 \<le> k \<and> k < int (length xs)")
    case True
    show ?thesis using r w unfolding Prim_vector_ref_def Prim_vector_set_def if_P [OF True] by blast
  next
    case False
    show ?thesis using r w unfolding Prim_vector_ref_def Prim_vector_set_def if_not_P [OF False] by blast
  qed
qed

theorem vector_access_bounds_witness:
  "Prim_vector_ref example_vector (fixnum_object 1) vector_machine = (Inr (fixnum_object 6), vector_machine)
   \<and> Prim_vector_ref example_vector (fixnum_object 3) vector_machine = (Inl (Prim_Error (Bad_Range 2)), vector_machine)"
  using vector_access_bounds [OF example_vector_fields(3) example_vector_at, of "fixnum_object 1" 1]
    vector_access_bounds [OF example_vector_fields(3) example_vector_at, of "fixnum_object 3" 3] by simp

text \<open>
  C27. Vectors and lists: \<open>SUBVECTOR->LIST\<close> on a range of a vector followed by \<open>LIST->VECTOR\<close>
  yields a new vector with the elements of the range, and no word below the allocation
  pointer has changed.
\<close>

theorem vector_list_round_trip:
  assumes "VECTOR_P v" "vector_at s v xs" "integer_arg s x start" "integer_arg s y end"
    "0 \<le> start" "start \<le> end" "end \<le> int (length xs)"
    "room s (3 * nat (end - start) + 1)" "OBJECT_ADDRESS v + length xs < Free s"
  shows "\<exists>l s' w s''. Prim_subvector_to_list v x y s = (Inr l, s') \<and> Prim_list_to_vector l s' = Some (Inr w, s'')
    \<and> VECTOR_P w \<and> vector_at s'' w (take (nat (end - start)) (drop (nat start) xs))
    \<and> (\<forall>a < Free s. mem s'' a = mem s a)"
  using subvector_list_vector [OF assms(1-4) _ assms(8,9)] assms(5-7)
  by (simp add: subvector_range_def unchanged_below_def)

theorem vector_list_round_trip_witness:
  "\<exists>l s' w s''. Prim_subvector_to_list example_vector (fixnum_object 1) (fixnum_object 3) vector_machine = (Inr l, s')
    \<and> Prim_list_to_vector l s' = Some (Inr w, s'') \<and> vector_at s'' w [fixnum_object 6, fixnum_object 7]"
  using vector_list_round_trip [OF example_vector_fields(3) example_vector_at, of "fixnum_object 1" 1 "fixnum_object 3" 3]
    vector_machine_room [of 7] by (auto simp: example_vector_fields vector_machine_def example_machine_def numeral_2_eq_2)

text \<open>
  C28. When garbage collection is enabled, \<open>LIST->VECTOR\<close> returns on every argument. When moreover the heap has a
  free word and the pairs of the argument lie below the allocation pointer, what it returns is this: on a circular list the
  request of a collection, never a vector or an error, since every round takes a word of the heap; the same on a list with
  at least as many pairs as the heap has free words; otherwise the vector of the elements of a list, and a wrong-type error
  on an improper list. No word below the allocation pointer changes.
\<close>

theorem list_to_vector_terminates:
  assumes "int_mask s AND INT_GC \<noteq> 0"
  shows "(\<exists>r. Prim_list_to_vector x s = Some r)
    \<and> (heap_ready s \<and> pairs_below s x \<and> circular s x \<longrightarrow> collection_requested s (Prim_list_to_vector x s))
    \<and> (heap_ready s \<and> pairs_below s x \<and> (\<forall>i<n. PAIR_P (tail s x i)) \<and> \<not> PAIR_P (tail s x n) \<longrightarrow>
       (if heap_alloc_limit s \<le> Free s + n then collection_requested s (Prim_list_to_vector x s)
        else if tail s x n = EMPTY_LIST
        then \<exists>v t. Prim_list_to_vector x s = Some (Inr v, t) \<and> VECTOR_P v
               \<and> vector_at t v (map (\<lambda>i. PAIR_CAR s (tail s x i)) [0..<n]) \<and> unchanged_below (Free s) s t
        else \<exists>t. Prim_list_to_vector x s = Some (Inl (Prim_Error (Wrong_Type 1)), t) \<and> unchanged_below (Free s) s t))"
proof -
  have gc: "GC_ENABLED_P s" using assms by (simp add: GC_ENABLED_P_def)
  have r: "\<exists>r. Prim_list_to_vector x s = Some r" using list_to_vector_returns [OF gc] by (simp add: Prim_list_to_vector_def)
  note out = list_to_vector_outcomes [OF gc, of x, where ty = TC_VECTOR and n = 1, folded Prim_list_to_vector_def]
  have ty: "TC_VECTOR < 64" by code_simp
  show ?thesis
  proof (intro conjI impI)
    show "collection_requested s (Prim_list_to_vector x s)" if "heap_ready s \<and> pairs_below s x \<and> circular s x" using out(1) that by blast
    assume a: "heap_ready s \<and> pairs_below s x \<and> (\<forall>i<n. PAIR_P (tail s x i)) \<and> \<not> PAIR_P (tail s x n)"
    note full = out(2) [of n] and list = out(3) [of n] and improper = out(4) [of n]
    show "if heap_alloc_limit s \<le> Free s + n then collection_requested s (Prim_list_to_vector x s)
        else if tail s x n = EMPTY_LIST
        then \<exists>v t. Prim_list_to_vector x s = Some (Inr v, t) \<and> VECTOR_P v
               \<and> vector_at t v (map (\<lambda>i. PAIR_CAR s (tail s x i)) [0..<n]) \<and> unchanged_below (Free s) s t
        else \<exists>t. Prim_list_to_vector x s = Some (Inl (Prim_Error (Wrong_Type 1)), t) \<and> unchanged_below (Free s) s t"
      using full list improper a ty unfolding VECTOR_P_def by (simp only: not_le split: if_split) blast
  qed (rule r)
qed

definition circle_machine :: machine where
  "circle_machine = example_machine\<lparr>mem := (mem example_machine)(10 := fixnum_object 5, 11 := MAKE_POINTER_OBJECT TC_LIST 10,
     12 := fixnum_object 6)\<rparr>"

lemma circle_machine_lists:
  "circular circle_machine (MAKE_POINTER_OBJECT TC_LIST 10)" "pairs_below circle_machine (MAKE_POINTER_OBJECT TC_LIST 10)"
  "heap_ready circle_machine" "PAIR_P (MAKE_POINTER_OBJECT TC_LIST 12)" "PAIR_CDR circle_machine (MAKE_POINTER_OBJECT TC_LIST 12) = EMPTY_LIST"
  "PAIR_CAR circle_machine (MAKE_POINTER_OBJECT TC_LIST 12) = fixnum_object 6" "pairs_below circle_machine (MAKE_POINTER_OBJECT TC_LIST 12)"
proof -
  have a: "addressable 10" "addressable 12" by (simp_all add: addressable_def)
  have t: "tail circle_machine (MAKE_POINTER_OBJECT TC_LIST 10) n = MAKE_POINTER_OBJECT TC_LIST 10" for n
  proof (induction n)
    case (Suc n)
    have "PAIR_CDR circle_machine (MAKE_POINTER_OBJECT TC_LIST 10) = MAKE_POINTER_OBJECT TC_LIST 10"
      using a by (simp add: MEMORY_REF_def circle_machine_def)
    then show ?case using Suc by (simp only: tail_simps(2) [symmetric])
  qed simp
  then show "circular circle_machine (MAKE_POINTER_OBJECT TC_LIST 10)" "pairs_below circle_machine (MAKE_POINTER_OBJECT TC_LIST 10)"
    using a by (simp_all add: circular_def pairs_below_def PAIR_P_def circle_machine_def example_machine_def)
  show "heap_ready circle_machine" by (simp add: heap_ready_def circle_machine_def example_machine_def addressable_def)
  show p: "PAIR_P (MAKE_POINTER_OBJECT TC_LIST 12)" "PAIR_CDR circle_machine (MAKE_POINTER_OBJECT TC_LIST 12) = EMPTY_LIST"
    "PAIR_CAR circle_machine (MAKE_POINTER_OBJECT TC_LIST 12) = fixnum_object 6"
    using a by (simp_all add: PAIR_P_def MEMORY_REF_def circle_machine_def example_machine_def)
  have no: "\<not> PAIR_P EMPTY_LIST" by code_simp
  have first: "n = 0" if "\<forall>i\<le>n. PAIR_P (tail circle_machine (MAKE_POINTER_OBJECT TC_LIST 12) i)" for n
  proof (rule ccontr)
    assume "n \<noteq> 0"
    then have "PAIR_P (tail circle_machine (MAKE_POINTER_OBJECT TC_LIST 12) (Suc 0))" using that by auto
    moreover have "tail circle_machine (MAKE_POINTER_OBJECT TC_LIST 12) (Suc 0) = EMPTY_LIST" using p(2) by (simp only: tail_simps [symmetric]) simp
    ultimately show False using no by simp
  qed
  have "OBJECT_ADDRESS (tail circle_machine (MAKE_POINTER_OBJECT TC_LIST 12) 0) + 1 < Free circle_machine"
    using a by (simp add: circle_machine_def example_machine_def)
  then show "pairs_below circle_machine (MAKE_POINTER_OBJECT TC_LIST 12)" unfolding pairs_below_def using first by blast
qed

theorem list_to_vector_terminates_witness:
  "collection_requested circle_machine (Prim_list_to_vector (MAKE_POINTER_OBJECT TC_LIST 10) circle_machine)
   \<and> (\<exists>v t. Prim_list_to_vector (MAKE_POINTER_OBJECT TC_LIST 12) circle_machine = Some (Inr v, t) \<and> vector_at t v [fixnum_object 6])"
proof -
  note c = circle_machine_lists
  have m: "int_mask circle_machine AND INT_GC \<noteq> 0" "\<not> heap_alloc_limit circle_machine \<le> Free circle_machine + 1"
    by (simp_all add: circle_machine_def example_machine_def INT_GC_def)
  let ?x = "MAKE_POINTER_OBJECT TC_LIST 12"
  have t: "tail circle_machine ?x 1 = EMPTY_LIST" using c(5) by (simp only: tail_def One_nat_def funpow.simps o_apply id_apply)
  have no: "\<not> PAIR_P (tail circle_machine ?x 1)" unfolding t by (rule EMPTY_LIST_not_pair)
  have p: "\<forall>i<1. PAIR_P (tail circle_machine ?x i)" using c(4) by (metis less_one tail_simps(1))
  have "[0..<1] = [0 :: nat]" by simp
  then have one: "map (\<lambda>i. PAIR_CAR circle_machine (tail circle_machine ?x i)) [0..<1] = [fixnum_object 6]"
    using c(6) by (simp only: list.map tail_simps(1))
  note result = list_to_vector_terminates [OF m(1), THEN conjunct2, THEN conjunct2, THEN mp, of ?x 1]
  have "\<exists>v t. Prim_list_to_vector ?x circle_machine = Some (Inr v, t) \<and> vector_at t v [fixnum_object 6]"
    using result [OF conjI [OF c(3) conjI [OF c(7) conjI [OF p no]]]] unfolding if_not_P [OF m(2)] if_P [OF t] one by blast
  moreover have "collection_requested circle_machine (Prim_list_to_vector (MAKE_POINTER_OBJECT TC_LIST 10) circle_machine)"
    using list_to_vector_terminates [OF m(1)] c(1,2,3) by blast
  ultimately show ?thesis by blast
qed

text \<open>
  C29. Overlapping moves: \<open>SUBVECTOR-MOVE-LEFT!\<close> into a target that does not start inside the
  source, and \<open>SUBVECTOR-MOVE-RIGHT!\<close> into a target that does not end inside it, leave in the
  target the elements the source had before the move, also within one vector.
\<close>

theorem subvector_moves_overlap:
  assumes "VECTOR_P v" "VECTOR_P w" "vector_at s v xs" "vector_at s w ys"
    and "integer_arg s x start1" "integer_arg s y end1" "integer_arg s z start2"
    and "0 \<le> start1" "start1 \<le> end1" "end1 \<le> int (length xs)"
    and "0 \<le> start2" "start2 + (end1 - start1) \<le> int (length ys)"
  shows "(VECTOR_LOC w (nat start2) \<le> VECTOR_LOC v (nat start1) \<or> VECTOR_LOC v (nat end1) \<le> VECTOR_LOC w (nat start2) \<longrightarrow>
      (\<exists>s'. Prim_subvector_move_left v x y w z s = (Inr UNSPECIFIC, s') \<and>
        vector_at s' w (take (nat start2) ys @ take (nat (end1 - start1)) (drop (nat start1) xs)
          @ drop (nat start2 + nat (end1 - start1)) ys)))
    \<and> (VECTOR_LOC v (nat start1) \<le> VECTOR_LOC w (nat start2)
        \<or> VECTOR_LOC w (nat (start2 + (end1 - start1))) \<le> VECTOR_LOC v (nat start1) \<longrightarrow>
      (\<exists>s'. Prim_subvector_move_right v x y w z s = (Inr UNSPECIFIC, s') \<and>
        vector_at s' w (take (nat start2) ys @ take (nat (end1 - start1)) (drop (nat start1) xs)
          @ drop (nat start2 + nat (end1 - start1)) ys)))"
proof -
  have r: "subvector_range xs start1 end1" using assms(8-10) by (simp add: subvector_range_def)
  note m = moved_vector [OF assms(3,4) r assms(11,12)]
  show ?thesis
    using subvector_move_left_correct [OF assms(1-7) r assms(11,12)]
      subvector_move_right_correct [OF assms(1-7) r assms(11,12)] m by blast
qed

theorem subvector_moves_overlap_witness:
  "\<exists>s'. Prim_subvector_move_right example_vector (fixnum_object 0) (fixnum_object 2) example_vector (fixnum_object 1) vector_machine
      = (Inr UNSPECIFIC, s') \<and> vector_at s' example_vector [fixnum_object 5, fixnum_object 5, fixnum_object 6]"
  using subvector_moves_overlap [OF example_vector_fields(3,3) example_vector_at example_vector_at,
      of "fixnum_object 0" 0 "fixnum_object 2" 2 "fixnum_object 1" 1]
  by (simp add: VECTOR_LOC_def numeral_2_eq_2)

text \<open>
  C30. The bound of a move is checked on the wrapped sum of the target's start and the length:
  a start near the largest \<open>long\<close>, far beyond the end of every vector, is accepted.
\<close>

theorem subvector_move_accepts_overflow:
  assumes "VECTOR_P v" "VECTOR_P w" "vector_at s v xs" "vector_at s w ys"
    and "integer_arg s x start1" "integer_arg s y end1" "integer_arg s z start2"
    and "0 \<le> start1" "start1 \<le> end1" "end1 \<le> int (length xs)"
    and "start2 < 2 ^ 63" "2 ^ 63 \<le> start2 + (end1 - start1)"
  shows "\<exists>s'. Prim_subvector_move_left v x y w z s = (Inr UNSPECIFIC, s')"
proof -
  have r: "subvector_range xs start1 end1" using assms(8-10) by (simp add: subvector_range_def)
  moreover have "0 \<le> start2" using assms(8-12) vector_at_bound [OF assms(3)] by simp
  ultimately show ?thesis using subvector_move_overflow [OF assms(1-7)] assms(11,12) by blast
qed

text \<open>The bignum \<open>2 ^ 63 - 1\<close> at address 20.\<close>

definition overflow_machine :: machine where
  "overflow_machine = vector_machine\<lparr>mem := (mem vector_machine)(20 := MAKE_OBJECT TC_MANIFEST_NM_VECTOR 3,
     21 := 2, 22 := 0x3FFFFFFFFFFFFFFF, 23 := 1)\<rparr>"

definition largest_long :: ulong where
  "largest_long = MAKE_POINTER_OBJECT TC_BIG_FIXNUM 20"

lemma largest_long_arg: "integer_arg overflow_machine largest_long (2 ^ 63 - 1)"
proof -
  have p: "OBJECT_ADDRESS largest_long = 20" "OBJECT_TYPE largest_long = TC_BIG_FIXNUM"
    by (simp_all add: largest_long_def addressable_def)
  have m: "(2 :: ulong) AND BIGNUM_DIGIT_MASK = 2" by (simp add: BIGNUM_DIGIT_MASK_def BIGNUM_RADIX_def)
  have "load_bignum overflow_machine largest_long = mk_bignum False [0x3FFFFFFFFFFFFFFF, 1]"
    by (simp add: load_bignum_def VECTOR_REF_def MEMORY_REF_def p overflow_machine_def m upt_rec [of _ 2] mk_bignum_def Let_def)
  then show ?thesis
    by (simp add: integer_arg_def load_object_def FIXNUM_P_def BIGNUM_P_def p mk_bignum_wf mk_bignum_int digits_normal_def
        BIGNUM_LENGTH_MAX_eq fixnum_range_num)
qed

lemma overflow_vector: "vector_at overflow_machine example_vector [fixnum_object 5, fixnum_object 6, fixnum_object 7]"
proof -
  have "\<And>a. a < 20 \<Longrightarrow> mem overflow_machine a = mem vector_machine a" by (simp add: overflow_machine_def)
  then show ?thesis
    using example_vector_at by (simp add: vector_at_def VECTOR_LENGTH_def MEMORY_REF_def example_vector_fields words_at_Suc)
qed

theorem subvector_move_accepts_overflow_witness:
  "\<exists>s'. Prim_subvector_move_left example_vector (fixnum_object 0) (fixnum_object 1) example_vector largest_long overflow_machine
     = (Inr UNSPECIFIC, s')"
  using subvector_move_accepts_overflow [OF example_vector_fields(3,3) overflow_vector overflow_vector _ _ largest_long_arg,
      of "fixnum_object 0" 0 "fixnum_object 1" 1] by simp

text \<open>
  Integer results: with room for its digits every canonical integer is stored so that
  loading the returned object gives the same integer, and no old word changes.
\<close>

theorem stored_integers_load:
  assumes "integer_ok n" "room s (integer_digits n + 2)"
  shows "\<exists>p s'. store_integer (Some n) s = (Inr p, s') \<and> load_object s' p = Integer_Object n
    \<and> (\<forall>a < Free s. mem s' a = mem s a)"
  using store_integer_correct [OF assms] by (simp add: unchanged_below_def)

text \<open>
  Allocated vectors: \<open>VECTOR\<close>, \<open>VECTOR-CONS\<close> and \<open>%RECORD\<close> return, with room in the heap, a new
  object of their type that holds their arguments, and change no old word; \<open>%RECORD\<close> without
  arguments signals the wrong number of arguments.
\<close>

theorem vector_allocation:
  assumes "room s (length xs + 1)" "integer_arg s x (int (length xs))"
  shows "(\<exists>v s'. Prim_vector xs s = (Inr v, s') \<and> VECTOR_P v \<and> vector_at s' v xs \<and> (\<forall>a < Free s. mem s' a = mem s a))
    \<and> (\<exists>v s'. Prim_vector_cons x y s = (Inr v, s') \<and> VECTOR_P v \<and> vector_at s' v (replicate (length xs) y)
         \<and> (\<forall>a < Free s. mem s' a = mem s a))
    \<and> (if xs = [] then Prim_record xs s = (Inl Wrong_Number_Of_Arguments, s)
       else \<exists>v s'. Prim_record xs s = (Inr v, s') \<and> RECORD_P v \<and> vector_at s' v xs \<and> (\<forall>a < Free s. mem s' a = mem s a))"
proof -
  have "Prim_record [] s = (Inl Wrong_Number_Of_Arguments, s)" by (simp add: Prim_record_def)
  then show ?thesis
    using vector_correct [OF assms(1)] vector_cons_correct [OF assms(2)] record_correct [OF assms(1)] assms(1)
    by (auto simp: unchanged_below_def)
qed

section \<open>Name tables\<close>

text \<open>Ten one-letter names in ascending order, as bytes.\<close>

definition example_names :: "cstring list" where
  "example_names = [[65], [66], [67], [68], [69], [70], [71], [72], [73], [74]]"

lemma example_names_sorted: "sorted_wrt (\<lambda>a b. name_key a < name_key b) example_names"
  by (simp add: example_names_def name_key_def toupper_def)

text \<open>
  C13. Insertion into the AVL tree: on a balanced tree whose names are in ascending order the
  insertion of a name never dereferences a null pointer and returns a balanced, ordered tree
  with the entry added in its place; a name already present, in upper or lower case, leaves
  the entries unchanged and is reported as a duplicate. The height grows by at most one.
\<close>

theorem avl_insertion:
  assumes "avl t" "ordered (entries t)"
  shows "\<exists>t' e. tree_insert True t nm v = Some (t', e) \<and> avl t' \<and> ordered (entries t')
    \<and> entries t' = insert_entry (nm, v) (entries t)
    \<and> e = (if \<exists>y \<in> set (entries t). name_key (fst y) = name_key nm then Some (Duplicate_Entry nm) else None)
    \<and> BRANCH_HEIGHT t' \<in> {BRANCH_HEIGHT t, BRANCH_HEIGHT t + 1}"
proof -
  obtain t' e where t': "tree_insert True t nm v = Some (t', e)" "avl t'" "entries t' = insert_entry (nm, v) (entries t)"
    "e = (if \<exists>y \<in> set (entries t). name_key (fst y) = name_key nm then Some (Duplicate_Entry nm) else None)"
    "BRANCH_HEIGHT t' \<in> {BRANCH_HEIGHT t, BRANCH_HEIGHT t + 1}"
    using tree_insert_correct [OF assms, of nm v] by blast
  have "ordered (entries t')" using ordered_insert_entry [OF assms(2), of "(nm, v)"] by (simp only: t'(3))
  with t' show ?thesis by blast
qed

theorem avl_insertion_witness:
  "\<exists>t e. tree_insert True (Node 2 Null (Node 1 Null Null [67] 2) [65] 0) [98] 1 = Some (t, e) \<and> avl t
     \<and> entries t = [([65], 0), ([98], 1), ([67], 2)] \<and> e = None"
  using avl_insertion [of "Node 2 Null (Node 1 Null Null [67] 2) [65] 0" "[98]" 1]
  by (auto simp: name_key_def toupper_def)

text \<open>
  The tree built from a table of names in ascending order is balanced, and a lookup
  finds every name of the table at its index, whichever side the static variable \<open>bias\<close>
  favours.
\<close>

theorem avl_table_lookup:
  assumes "sorted_wrt (\<lambda>a b. name_key a < name_key b) names" "bias \<le> 1"
  shows "\<exists>t b. tree_build (length names) names 0 bias = Some (t, b) \<and> avl t \<and> ordered (entries t)
    \<and> (\<forall>i < length names. tree_value (tree_lookup t (names ! i)) = i)"
  using assms by (rule tree_build_lookup)

text \<open>
  C9. The table of primitives: through every sequence of declarations, installations,
  makings and searches of primitives, with or without memory for new nodes, the table keeps
  its invariant (a balanced, ordered tree whose values are indices in use, room in the
  arrays, every index found under its name) and no name ever changes its index.
\<close>

theorem primitive_table_history:
  assumes "table_step\<^sup>*\<^sup>* tab tab'" "table_ok tab"
  shows "table_ok tab' \<and> MAX_PRIMITIVE tab \<le> MAX_PRIMITIVE tab'
    \<and> (\<forall>s i. index_of tab s = Some i \<longrightarrow> index_of tab' s = Some i)"
  using table_history [OF assms] by (simp add: extends_def)

definition example_table :: primitive_table where
  "example_table = \<lparr>MAX_PRIMITIVE = 10, prim_table_size = 10, Primitive_Procedure_Table = (\<lambda>_. Prim_unimplemented),
     Primitive_Arity_Table = (\<lambda>_. 0), Primitive_Count_Table = (\<lambda>_. 0), Primitive_Name_Table = (\<lambda>i. example_names ! i),
     Primitive_Documentation_Table = (\<lambda>_. None), prim_procedure_tree = fst (the (tree_build 10 example_names 0 0))\<rparr>"

lemma example_table_ok: "table_ok example_table" "index_of example_table [69] = Some 4"
proof -
  have ten: "length example_names = 10" by (simp add: example_names_def)
  obtain t b where t: "tree_build 10 example_names 0 0 = Some (t, b)" "avl t" "entries t = table_entries example_names 0 10"
    using tree_build_correct [of 10 example_names 0 0] ten by auto
  have tree: "prim_procedure_tree example_table = t" using t(1) by (simp add: example_table_def)
  have ord: "ordered (entries t)"
    unfolding ordered_def t(3) table_entries_def sorted_wrt_iff_nth_less
    using sorted_wrt_nth_less [OF example_names_sorted] ten by simp
  have ix: "index_of example_table (example_names ! i) = Some i" if "i < 10" for i
  proof -
    have "(example_names ! i, i) \<in> set (entries t)" using that by (auto simp: t(3) table_entries_def)
    then show ?thesis using index_of_iff [of example_table "example_names ! i" i] ord tree by blast
  qed
  have fields: "MAX_PRIMITIVE example_table = 10" "prim_table_size example_table = 10"
    "Primitive_Name_Table example_table = (\<lambda>i. example_names ! i)"
    by (simp_all add: example_table_def)
  have bound: "\<forall>(n, i) \<in> set (entries t). i < 10" by (auto simp: t(3) table_entries_def)
  show "table_ok example_table"
    unfolding table_ok_def fields tree using t(2) ord bound ix by blast
  show "index_of example_table [69] = Some 4" using ix [of 4] by (simp add: example_names_def)
qed

theorem primitive_table_history_witness:
  "\<exists>p tab'. make_primitive True [110, 101, 119] 2 example_table = Some (p, tab') \<and> table_ok tab' \<and> index_of tab' [69] = Some 4"
proof -
  have "MAX_PRIMITIVE example_table < 2 ^ 58" by (simp add: example_table_def)
  then obtain p tab' where m: "make_primitive True [110, 101, 119] 2 example_table = Some (p, tab')"
    using make_then_find [OF example_table_ok(1)] by blast
  then have "table_step\<^sup>*\<^sup>* example_table tab'" by (intro r_into_rtranclp step_make)
  then have "table_ok tab' \<and> index_of tab' [69] = Some 4"
    using primitive_table_history [OF _ example_table_ok(1)] example_table_ok(2) by blast
  with m show ?thesis by blast
qed

text \<open>
  Renumbering for a dump: whatever primitives are renumbered, in whatever order, the new
  numbers form a range from zero, keep the type code, and the external table leads from every
  new number back to the original primitive.
\<close>

theorem primitive_renumbering:
  assumes "length ps < 2 ^ 58" "renumber_all ps make_prim_renumber = (qs, pr)"
  shows "list_all2 (\<lambda>p q. OBJECT_TYPE q = OBJECT_TYPE p
      \<and> external pr (unat (OBJECT_DATUM q)) = Some (unat (OBJECT_DATUM p))) ps qs
    \<and> (\<forall>j. external pr j \<noteq> None \<longleftrightarrow> j < next_code pr)"
  using renumber_all_correct [OF renumber_initial _ assms(2)] assms(1)
  by (auto simp: make_prim_renumber_def renumber_ok_def elim!: list.rel_mono_strong) (auto simp: renumbers_def)

section \<open>Garbage collection\<close>

text \<open>
  C5. Garbage collection keeps the reachable heap: from a well-formed heap the collector
  returns; the blocks it has moved are exactly those reachable from the fixed objects, the
  history, the stack and constant space; they lie one after the other from the start of the
  heap on; every copy has the words of its original with each pointer into the heap
  redirected to the copy of what it pointed to, and so have the stack, constant space and the
  two registers. Nothing else stays in the heap but the new array for ephemerons.
\<close>

theorem garbage_collection_keeps_reachable:
  assumes "ready s B st cs"
  shows "\<exists>s' F len. collect s = Some (Inr ((), s')) \<and> dom F = reach (layout_of s B) (root_words s st cs)
    \<and> (\<forall>a p. F a = Some p \<longrightarrow> block_at s' p (new_block (layout_of s B) F a)
         \<and> heap_start s + 2 \<le> p \<and> p + size_at (layout_of s B) a \<le> heap_start s + 2 + (\<Sum>a \<in> dom F. size_at (layout_of s B) a))
    \<and> (\<forall>a b p q. F a = Some p \<longrightarrow> F b = Some q \<longrightarrow> a \<noteq> b
         \<longrightarrow> p + size_at (layout_of s B) a \<le> q \<or> q + size_at (layout_of s B) b \<le> p)
    \<and> fixed_objects s' = new_word (layout_of s B) F (fixed_objects s)
    \<and> gc_state.history_register s' = OBJECT_ADDRESS (new_word (layout_of s B) F (history_word s))
    \<and> relocated_range (layout_of s B) F s' (gc_state.stack_pointer s) st \<and> relocated_range (layout_of s B) F s' (constant_start s) cs
    \<and> Free s' = heap_start s + 2 + (\<Sum>a \<in> dom F. size_at (layout_of s B) a) + 1 + len"
proof -
  obtain s' F len where "collect s = Some (Inr ((), s'))" "dom F = reach (layout_of s B) (root_words s st cs)"
    and blocks: "\<forall>a p. F a = Some p \<longrightarrow> heap_start s + 2 \<le> p \<and> p + size_at (layout_of s B) a
        \<le> heap_start s + 2 + (\<Sum>a \<in> dom F. size_at (layout_of s B) a) \<and> block_at s' p (new_block (layout_of s B) F a)"
    and apart: "apart (layout_of s B) F"
    and "fixed_objects s' = new_word (layout_of s B) F (fixed_objects s)"
    "gc_state.history_register s' = OBJECT_ADDRESS (new_word (layout_of s B) F (history_word s))"
    "relocated_range (layout_of s B) F s' (gc_state.stack_pointer s) st" "relocated_range (layout_of s B) F s' (constant_start s) cs"
    "Free s' = heap_start s + 2 + (\<Sum>a \<in> dom F. size_at (layout_of s B) a) + 1 + len"
    using collected [OF assms] by blast
  then show ?thesis
    using blocks apart [unfolded apart_def] by (intro exI [of _ s'] exI [of _ F] exI [of _ len]) blast
qed

theorem garbage_collection_keeps_reachable_witness:
  "\<exists>s' (F :: nat \<rightharpoonup> nat). collect gc_example = Some (Inr ((), s')) \<and> dom F = {16, 19, 21}
     \<and> block_at s' (the (F 16)) (new_block example_layout F 16)"
proof -
  obtain s' F where "collect gc_example = Some (Inr ((), s'))" and d: "dom F = {16, 19, 21}"
    and b: "\<forall>a p. F a = Some p \<longrightarrow> block_at s' p (new_block example_layout F a)"
    using garbage_collection_keeps_reachable [OF example_ready, folded example_layout_def] unfolding example_reach by blast
  moreover have "F 16 = Some (the (F 16))" using d by (metis domIff insertI1 option.collapse)
  ultimately show ?thesis by blast
qed

text \<open>
  C8. Weak pairs: after a collection the car of a reachable weak pair is the copy of its object if
  that object is reachable otherwise, and the mark \<open>GC_RECLAIMED\<close> if it is not; the cdr is kept
  like any other word.
\<close>

theorem weak_pairs_after_collection:
  assumes "ready s B st cs" "B a = Some Weak_Block" "a \<in> reach (layout_of s B) (root_words s st cs)"
    "weak_car (layout_of s B) a"
  shows "\<exists>s' F. collect s = Some (Inr ((), s')) \<and> dom F = reach (layout_of s B) (root_words s st cs)
    \<and> mem s' (the (F a)) =
        (if OBJECT_ADDRESS (mem s a) \<in> reach (layout_of s B) (root_words s st cs)
         then OBJECT_NEW_ADDRESS (mem s a) (the (F (OBJECT_ADDRESS (mem s a)))) else GC_RECLAIMED)
    \<and> mem s' (the (F a) + 1) = new_word (layout_of s B) F (mem s (a + 1))"
proof -
  let ?h = "layout_of s B"
  obtain s' F where c: "collect s = Some (Inr ((), s'))" and d: "dom F = reach ?h (root_words s st cs)"
    and b: "\<forall>a p. F a = Some p \<longrightarrow> block_at s' p (new_block ?h F a)"
    using collected [OF assms(1)] by blast
  obtain p where p: "F a = Some p" using assms(3) d by blast
  have nb: "new_block ?h F a = [new_weak_car ?h F a, new_word ?h F (mem s (a + 1))]" using assms(2) by (simp add: new_block_def)
  have "block_at s' p [new_weak_car ?h F a, new_word ?h F (mem s (a + 1))]" using b p nb by metis
  then have "mem s' p = new_weak_car ?h F a" "mem s' (p + 1) = new_word ?h F (mem s (a + 1))"
    by (auto simp: block_at_def less_Suc_eq)
  moreover have "new_weak_car ?h F a = (if OBJECT_ADDRESS (mem s a) \<in> dom F
      then OBJECT_NEW_ADDRESS (mem s a) (the (F (OBJECT_ADDRESS (mem s a)))) else GC_RECLAIMED)"
    using assms(4) by (auto simp: new_weak_car_def domIff split: option.splits)
  ultimately show ?thesis using c d p by (intro exI [of _ s'] exI [of _ F]) simp
qed

theorem weak_pairs_after_collection_witness:
  "\<exists>s' (F :: nat \<rightharpoonup> nat). collect gc_example = Some (Inr ((), s')) \<and> dom F = {16, 19, 21} \<and> mem s' (the (F 21)) = GC_RECLAIMED"
proof -
  have "OBJECT_ADDRESS (mem gc_example 21) = 23"
    using example_mem(6) by (simp add: example_layout_def addressable_def)
  then show ?thesis
    using weak_pairs_after_collection [OF example_ready, of 21, folded example_layout_def] example_reach example_weak_car
    by (auto simp: example_blocks_def)
qed

text \<open>
  C31. Tospace needs at most two words more than the part of the heap in use: the collector without
  its debugging tools does not check that tospace has room.
\<close>

theorem tospace_bound:
  assumes "ready s B st cs"
  shows "\<exists>s'. scan_roots (rooted s) = Some (Inr ((), s')) \<and> tospace_next s' \<le> tospace_start s + 2 + (Free s - heap_start s)
    \<and> newspace_next s' \<le> Free s + 2"
proof -
  let ?h = "layout_of s B"
  obtain s' F os ws where s': "scan_roots (rooted s) = Some (Inr ((), s'))" "gc_inv ?h (reach ?h (root_words s st cs)) s' F os ws (length os)"
    using roots_scanned [OF assms] by blast
  have "heap_start s \<le> Free s" using readyD(1) [OF assms] by (simp add: heap_ok_def)
  moreover have "length os \<le> 2 + (Free s - heap_start s)" using copied_fits(1) [OF s'(2)] by simp
  moreover have "tospace_next s' = tospace_start s + length os" "newspace_next s' = heap_start s + length os"
    using gc_invD(4) [OF s'(2)] by (simp_all add: spaces_def)
  ultimately have "tospace_next s' \<le> tospace_start s + 2 + (Free s - heap_start s)" "newspace_next s' \<le> Free s + 2"
    by linarith+
  with s'(1) show ?thesis by blast
qed

theorem tospace_bound_witness:
  "\<exists>s'. scan_roots (rooted gc_example) = Some (Inr ((), s')) \<and> tospace_next s' \<le> 111"
  using tospace_bound [OF example_ready] by (auto simp: gc_example_def)



text \<open>
  The length of the array of ephemerons is the least prime of the table that is not below the
  number of ephemerons, or the last one if there are more.
\<close>

theorem ephemeron_array_length:
  "\<exists>i < length primes. compute_ephemeron_array_length n = primes ! i \<and> (\<forall>j < i. primes ! j < n)
    \<and> (n \<le> primes ! i \<or> i = length primes - 1)"
proof (cases "primes ! (length primes - 1) < n")
  case True
  have "primes ! j < n" if "j < length primes - 1" for j
    using primes_ascending [OF that] True by (simp add: primes_def)
  then show ?thesis
    using True by (intro exI [of _ "length primes - 1"]) (simp add: compute_ephemeron_array_length_def primes_def)
next
  case False
  have "0 < length primes" by (simp add: primes_def)
  moreover have "n \<le> primes ! (length primes - 1)" using False by simp
  ultimately obtain i where "i < length primes" "prime_search n 0 (length primes) = primes ! i" "n \<le> primes ! i" "\<forall>j < i. primes ! j < n"
    using prime_search_correct [of 0 "length primes" n] by blast
  then show ?thesis using False by (intro exI [of _ i]) (simp add: compute_ephemeron_array_length_def)
qed

section \<open>Symbols, variables and bytes\<close>

text \<open>
  C33. Interning: in a table whose bucket for the name \<open>v\<close> is a path of entries \<open>ps\<close>, some of
  them reclaimed, \<open>string_to_symbol\<close> returns an interned symbol with the bytes of the name. It
  is the symbol of an entry if one has that name, and then nothing is allocated; otherwise it
  is new. Interning the name again returns the same symbol and changes nothing.
\<close>

theorem interning_is_unique:
  assumes "symbol_table_ok s v ps" "room s 4"
  shows "\<exists>symbol s'. string_to_symbol v s = Some (Inr symbol, s') \<and> INTERNED_SYMBOL_P symbol
    \<and> symbol_bytes s' symbol = bytevector_bytes s v \<and> bytevector_bytes s' v = bytevector_bytes s v
    \<and> (if \<exists>p\<in>set ps. named_entry s (bytevector_bytes s v) p
       then (\<exists>p\<in>set ps. named_entry s (bytevector_bytes s v) p \<and> symbol = mem s p) \<and> Free s' = Free s
       else OBJECT_ADDRESS symbol = Free s \<and> Free s' = Free s + 4)
    \<and> string_to_symbol v s' = Some (Inr symbol, s')"
  by (rule string_to_symbol_correct [OF assms])

theorem interning_is_unique_witness:
  "(\<exists>s'. string_to_symbol foo_string variable_machine = Some (Inr foo_symbol, s') \<and> Free s' = 500)
   \<and> (\<exists>symbol s'. string_to_symbol ba_string variable_machine = Some (Inr symbol, s') \<and> Free s' = 504
        \<and> string_to_symbol ba_string s' = Some (Inr symbol, s'))"
proof -
  have no: "\<not> live_entry variable_machine 310"
    by (simp add: live_entry_def INTERNED_SYMBOL_P_def variable_words_def SHARP_F_def)
  have foo: "mem variable_machine 320 = foo_symbol" by (simp add: variable_words_def foo_symbol_def)
  have named: "\<not> named_entry variable_machine bs 310" "named_entry variable_machine bs 320 \<longleftrightarrow> bs = [0x66, 0x6F, 0x6F]" for bs
    using no by (auto simp: named_entry_def live_entry_def foo INTERNED_SYMBOL_P_def variable_bytes simp del: variable_fields)
  show ?thesis
    using interning_is_unique [OF variable_symbol_table_ok(1) variable_room] interning_is_unique [OF variable_symbol_table_ok(2) variable_room]
    by (auto simp: variable_bytes named foo simp del: variable_fields(3))
qed

text \<open>
  C34. Variable lookup: in a chain of frames, from the environment to one without a parent or
  to the global environment, the search returns and \<open>lookup_variable\<close> delivers what the cell of the innermost binding says.
  The bindings are read from memory without the search of the code: those of a frame are the pairs of its extension, in
  order, and then its parameters, the \<open>i\<close>-th name of the lambda with the \<open>i\<close>-th argument cell, unless that holds the object for
  unbound; those of the frames follow one another from the inside to the outside, and the symbol's own value comes last. The cell,
  or the cell of its cache, gives the value or the code of the error. Nothing is changed.
\<close>

theorem variable_lookup_innermost:
  assumes "frames_of s env fs global" "SYMBOL_P symbol"
  shows "lookup_variable env symbol s =
    Some (Inr (case binding_of s fs global symbol of
        None \<Rightarrow> (ERR_UNBOUND_VARIABLE, None)
      | Some c \<Rightarrow> cell_value s c), s)"
  by (rule lookup_variable_binding [OF assms])

theorem variable_lookup_innermost_witness:
  "lookup_variable shadow_frame foo_symbol shadow_machine = Some (Inr (PRIM_DONE, Some 29), shadow_machine)
   \<and> lookup_variable shadow_frame bar_symbol shadow_machine = Some (Inr (PRIM_DONE, Some 11), shadow_machine)"
  using variable_lookup_innermost [OF shadow_frames variable_cell(6)] variable_lookup_innermost [OF shadow_frames shadow_objects(4)]
  by (simp only: shadow_cells option.case simp_thms)

text \<open>
  C35. Assignment: after a successful assignment of \<open>v\<close>, looking up any variable whose value
  cell is the assigned one, the same variable or one linked to it by a shared cache, gives \<open>v\<close>,
  or reports it unassigned if \<open>v\<close> is the object that stands for that; every other variable
  keeps its value. The value cell must not be one of the words the environment consists of.
\<close>

theorem assignment_then_lookup:
  assumes "env_chain s env fs" "first_cell s symbol fs = Some c" "a = value_cell s c"
    and "assign_variable env symbol v s = Some (Inr (PRIM_DONE, previous), s')" "\<not> REFERENCE_TRAP_P v"
    and "env_chain s env2 fs2" "first_cell s symbol2 fs2 = Some c2" "SYMBOL_P symbol2"
    and "a \<notin> frames_words s fs2" "a \<notin> trap_words s c2" "a \<noteq> value_cell s c2 \<Longrightarrow> a \<notin> trap_words s (value_cell s c2)"
  shows "lookup_variable env2 symbol2 s' = Some (Inr
      (if value_cell s c2 \<noteq> a then value_result s (mem s (value_cell s c2))
       else if v = EXTERNAL_UNASSIGNED_OBJECT s then (ERR_UNASSIGNED_VARIABLE, None) else (PRIM_DONE, Some v)), s')"
  using assms by (rule lookup_after_assignment)

theorem assignment_then_lookup_witness:
  "\<exists>previous s'. assign_variable foo_frame foo_symbol 23 variable_machine = Some (Inr (PRIM_DONE, previous), s')
     \<and> lookup_variable foo_frame foo_symbol s' = Some (Inr (PRIM_DONE, Some 23), s')"
proof -
  note m = variable_cell(4)
  have ext: "EXTERNAL_UNASSIGNED_OBJECT variable_machine = 0"
    by (simp add: EXTERNAL_UNASSIGNED_OBJECT_def VECTOR_REF_def MEMORY_REF_def variable_words_def addressable_numeral)
  have trap: "\<not> REFERENCE_TRAP_P 23" by code_simp
  obtain previous s' where done_: "assign_variable foo_frame foo_symbol 23 variable_machine = Some (Inr (PRIM_DONE, previous), s')"
    using assign_variable_correct [OF variable_chain variable_cell(1), of 23]
    by (simp add: variable_cell(2,5) m assign_result_def Let_def del: variable_fields env_chain.simps)
  moreover have "402 \<notin> frames_words variable_machine [foo_frame, THE_GLOBAL_ENV]" using variable_frames_words by auto
  then have "lookup_variable foo_frame foo_symbol s' = Some (Inr (PRIM_DONE, Some 23), s')"
    using assignment_then_lookup [OF variable_chain variable_cell(1) refl done_ trap variable_chain variable_cell(1,6)]
    by (simp add: variable_cell(2,3) ext del: variable_fields env_chain.simps first_cell.simps)
  ultimately show ?thesis by blast
qed

text \<open>
  C36. Moving bytes: on two bytevectors, or twice the same one, and any three integers,
  \<open>BYTEVECTOR-COPY!\<close> copies the old bytes of the source range, also where the ranges overlap,
  and returns the end of the target range; it signals a bad range error, of the argument
  named here, exactly when a range does not fit, and the check of the end cannot wrap.
\<close>

theorem bytevector_copy_overlap:
  assumes "bytevector_at s to xs" "bytevector_at s src ys" "integer_arg s x ts" "integer_arg s y fs" "integer_arg s z fe" "room s 3"
  shows "if ts < 0 \<or> int (length xs) < ts then Prim_bytevector_copyx to x src y z s = (Inl (Prim_Error (Bad_Range 2)), s)
    else if fe < 0 \<or> int (length ys) < fe then Prim_bytevector_copyx to x src y z s = (Inl (Prim_Error (Bad_Range 5)), s)
    else if fs < 0 \<or> fe < fs then Prim_bytevector_copyx to x src y z s = (Inl (Prim_Error (Bad_Range 4)), s)
    else if int (length xs) < ts + (fe - fs) then Prim_bytevector_copyx to x src y z s = (Inl (Prim_Error (Bad_Range 5)), s)
    else \<exists>r s' n. Prim_bytevector_copyx to x src y z s = (Inr r, s') \<and> load_object s' r = Integer_Object n \<and> int_of n = ts + (fe - fs)
      \<and> bytevector_at s' to (take (nat ts) xs @ take (nat (fe - fs)) (drop (nat fs) ys) @ drop (nat (ts + (fe - fs))) xs)"
  by (rule bytevector_copyx_correct [OF assms])

theorem bytevector_copy_overlap_witness:
  "\<exists>r s'. Prim_bytevector_copyx foo_string (fixnum_object 1) foo_string (fixnum_object 0) (fixnum_object 2) variable_machine = (Inr r, s')
     \<and> bytevector_at s' foo_string [0x66, 0x66, 0x6F]"
proof -
  have room: "room variable_machine 3" using variable_room by (rule room_mono) simp
  have arg: "integer_arg variable_machine (fixnum_object k) k" if "k = 0 \<or> k = 1 \<or> k = 2" for k
    using integer_arg_fixnum [of "fixnum_object k"] that by (auto simp: fixnum_range_def)
  show ?thesis
    using bytevector_copy_overlap [OF variable_strings(1,1) arg [of 1] arg [of 0] arg [of 2] room] by (auto simp: numeral_eq_Suc)
qed

text \<open>
  C37. Bytes: after \<open>BYTEVECTOR-U8-SET!\<close> of a byte at an index of a bytevector,
  \<open>BYTEVECTOR-U8-REF\<close> of any index returns the byte set there or the old one.
\<close>

theorem bytevector_set_then_ref:
  assumes "bytevector_at s v bs" "integer_arg s x k" "0 \<le> k" "k < int (length bs)" "byte_arg y b" "0 \<le> b" "b < 256"
    and "room s 3"
  shows "\<exists>s'. Prim_bytevector_u8_set v x y s = (Inr UNSPECIFIC, s') \<and> bytevector_at s' v (bs[nat k := word_of_int b])
     \<and> (\<forall>z j. integer_arg s' z j \<and> 0 \<le> j \<and> j < int (length bs) \<longrightarrow> (\<exists>r s'' n. Prim_bytevector_u8_ref v z s' = (Inr r, s'')
          \<and> load_object s'' r = Integer_Object n \<and> int_of n = (if j = k then b else uint (bs ! nat j))))"
proof -
  obtain s' where s': "Prim_bytevector_u8_set v x y s = (Inr UNSPECIFIC, s')" "bytevector_at s' v (bs[nat k := word_of_int b])" "room s' 3"
    using bytevector_u8_set_correct [OF assms(1,2,5), of 3] assms(3,4,6,7,8) by auto
  have byte: "uint (bs[nat k := word_of_int b] ! nat j) = (if j = k then b else uint (bs ! nat j))" if "0 \<le> j" "j < int (length bs)" for j
    using assms(3,4,6,7) that by (auto simp: nth_list_update uint_word_of_int take_bit_int_eq_self)
  show ?thesis
  proof (intro exI [of _ s'] conjI s'(1,2) allI impI)
    fix z j assume j: "integer_arg s' z j \<and> 0 \<le> j \<and> j < int (length bs)"
    then show "\<exists>r s'' n. Prim_bytevector_u8_ref v z s' = (Inr r, s'') \<and> load_object s'' r = Integer_Object n
        \<and> int_of n = (if j = k then b else uint (bs ! nat j))"
      using bytevector_u8_ref_correct [OF s'(2) _ s'(3), of z j] byte [of j] by auto
  qed
qed

theorem bytevector_set_then_ref_witness:
  "\<exists>s'. Prim_bytevector_u8_set ba_string (fixnum_object 1) (fixnum_object 7) variable_machine = (Inr UNSPECIFIC, s')
     \<and> bytevector_at s' ba_string [0x62, 7]"
proof -
  have room: "room variable_machine 3" using variable_room by (rule room_mono) simp
  have "byte_arg (fixnum_object 7) 7" by (simp add: byte_arg_def fixnum_range_def)
  then show ?thesis
    using bytevector_set_then_ref [OF variable_strings(2), of "fixnum_object 1" 1 "fixnum_object 7" 7] room
      integer_arg_fixnum [of "fixnum_object 1"] by (auto simp: fixnum_range_def)
qed

section \<open>The interpreter\<close>

text \<open>
  C1. Interpretation: when an SCode expression evaluates to a value by the relation
  \<^const>\<open>evaluates\<close>, which knows no registers, stack or return codes, and the stack has the
  room the evaluation needs, then \<open>Interpret\<close> (\<open>interp.c\<close>) entered with the expression, its
  environment and the return code for the end of the computation ends, with the value in the register, the memory of the
  evaluation outside the stack and the history, and the stack popped to where the computation began.
\<close>

theorem interpreter_evaluates:
  assumes "evaluates tbl W env e h n v h'" "running W V R h s" "reg_exp s = e" "reg_env s = env" "stack_guard s + n \<le> stack_pointer s"
    and "STACK_REF s 0 = MAKE_RETURN_CODE RC_END_OF_COMPUTATION" "stack_pointer s + 2 \<le> stack_end s" "1 < interpreter_states s"
  shows "\<exists>t. Interpret_loop tbl do_expression s = Some (Inr (), t) \<and> reg_val t = v \<and> alike W (memory t) h'
     \<and> stack_pointer t = stack_pointer s + 2 \<and> interpreter_states t = interpreter_states s - 1"
proof -
  have "runs_to tbl W V R (do_expression, s) s h' v"
    using evaluation_runs(1) [OF assms(1)] assms(2-5) unfolding sim_eval_def by blast
  then show ?thesis by (rule Interpret_loop_returns [OF _ assms(2,6,7,8)])
qed

theorem interpreter_evaluates_witness:
  "\<exists>t. Interpret_loop sample_table do_expression sample_state = Some (Inr (), t) \<and> reg_val t = MAKE_POINTER_OBJECT TC_LIST 1005
     \<and> mem (memory t) 1005 = sample_five \<and> mem (memory t) 1006 = sample_five \<and> stack_pointer t = 6000"
proof -
  have state: "reg_exp sample_state = sample_program" "reg_env sample_state = THE_GLOBAL_ENV" "stack_guard sample_state + 6 \<le> stack_pointer sample_state"
    "STACK_REF sample_state 0 = MAKE_RETURN_CODE RC_END_OF_COMPUTATION" "stack_pointer sample_state + 2 \<le> stack_end sample_state"
    "1 < interpreter_states sample_state" "stack_pointer sample_state + 2 = 6000"
    by (simp_all add: sample_state_def STACK_REF_def sample_machine_def sample_words_def)
  have hidden: "(1005 :: nat) \<notin> sample_hidden" "(1006 :: nat) \<notin> sample_hidden" by (simp_all add: sample_hidden_def)
  obtain t where t: "Interpret_loop sample_table do_expression sample_state = Some (Inr (), t)" "reg_val t = MAKE_POINTER_OBJECT TC_LIST 1005"
    "alike sample_hidden (memory t) sample_h3" "stack_pointer t = 6000"
    using interpreter_evaluates [OF sample_program_evaluates sample_running state(1-6)] state(7) by auto
  have "mem (memory t) a = mem sample_h3 a" if "a \<notin> sample_hidden" for a using t(3) that by (simp add: alike_def)
  then show ?thesis using t hidden by (simp add: sample_h3_def push_list_free_def)
qed

section \<open>Interrupts, errors and continuations\<close>

text \<open>
  C2. Interrupts: an application in whose way an interrupt is pending first applies the handler of
  the interrupt; when the handler has cleared it and returned, the interpreter is at the application again: the
  memory is the one the handler left, and the operator, the operands, the whole stack, the history register,
  the offset of the last history to restore and the interrupt mask are what they were. The application then
  goes on, and its value is the one it has in the memory the handler left.
\<close>

theorem interrupt_is_transparent:
  assumes "running W V R h s" "frame_on f args s" "dummy_in W V h" "sane_masks s" "stack_guard s + 14 + n1 \<le> stack_pointer s"
    and "PENDING_INTERRUPTS h \<noteq> 0" "interrupt_procedure W h (compute_interrupt_number (PENDING_INTERRUPTS h)) procedure w"
      "PENDING_INTERRUPTS (h\<lparr>int_mask := w\<rparr>) = 0"
    and "applies tbl W procedure [ULONG_TO_FIXNUM (int_code h), ULONG_TO_FIXNUM (int_mask h)] (h\<lparr>int_mask := w\<rparr>) n1 r h1" "clears h h1"
    and "applies tbl W f args (h1\<lparr>int_mask := int_mask h\<rparr>) n2 v h2" "stack_guard s + n2 \<le> stack_pointer s + 2 + length args"
  shows "\<exists>u t. reaches tbl (internal_apply, s) (internal_apply, u)
     \<and> frame_on f args u \<and> running W V R (h1\<lparr>int_mask := int_mask h\<rparr>) u \<and> same_stack s u
     \<and> interp.history_register u = interp.history_register s \<and> prev_restore_history_offset u = prev_restore_history_offset s
     \<and> int_mask (memory u) = int_mask (memory s)
     \<and> reaches tbl (internal_apply, u) (pop_return, t)
     \<and> running W V R h2 t \<and> same_stack (STACK_DROP (2 + length args) s) t \<and> reg_val t = v"
proof -
  obtain u where u: "reaches tbl (internal_apply, s) (internal_apply, u)" "frame_on f args u" "running W V R (h1\<lparr>int_mask := int_mask h\<rparr>) u"
    "same_stack s u" "interp.history_register u = interp.history_register s"
    "runs_to tbl W V R (internal_apply, u) (STACK_DROP (2 + length args) s) h2 v"
    using interrupted_application [OF assms] by blast
  have "int_mask (memory u) = int_mask (memory s)"
    using alike_fields(6) [OF runningD(1) [OF u(3)]] alike_fields(6) [OF runningD(1) [OF assms(1)]] by simp
  moreover have "prev_restore_history_offset u = prev_restore_history_offset s"
    using u(4) by (simp add: same_stack_def control_part_def)
  ultimately show ?thesis using u unfolding runs_to_def by blast
qed

theorem interrupt_is_transparent_witness:
  "\<exists>u t. reaches event_table (internal_apply, event_state (event_frame sample_cons) 16 5990) (internal_apply, u)
     \<and> OBJECT_ADDRESS (READ_DUMMY_HISTORY (event_state (event_frame sample_cons) 16 5990)) = 200 \<and> interp.history_register u = 203 \<and> int_mask (memory u) = 0x14 \<and> int_code (memory u) = 0
     \<and> STACK_REF u 1 = sample_cons \<and> STACK_REF u 3 = sample_five \<and> reaches event_table (internal_apply, u) (pop_return, t)
     \<and> reg_val t = MAKE_POINTER_OBJECT TC_LIST 1000 \<and> int_code (memory t) = 0 \<and> int_mask (memory t) = 0x14 \<and> stack_pointer t = 5994"
proof -
  let ?st = "event_frame sample_cons" and ?s = "event_state (event_frame sample_cons) 16 5990"
  let ?h1 = "(event_cleared ?st)\<lparr>int_mask := int_mask (event_machine ?st 16)\<rparr>"
  note on = event_frame_on(1) [of sample_cons]
  have side: "stack_guard ?s + 14 + 0 \<le> stack_pointer ?s" "PENDING_INTERRUPTS (event_machine ?st 16) \<noteq> 0"
    "PENDING_INTERRUPTS ((event_machine ?st 16)\<lparr>int_mask := 15\<rparr>) = 0"
    "stack_guard ?s + 0 \<le> stack_pointer ?s + 2 + length [sample_five, sample_five]"
    by (simp_all add: PENDING_INTERRUPTS_def)
  have app: "applies event_table sample_hidden event_clear [ULONG_TO_FIXNUM (int_code (event_machine ?st 16)), ULONG_TO_FIXNUM (int_mask (event_machine ?st 16))]
      ((event_machine ?st 16)\<lparr>int_mask := 15\<rparr>) 0 UNSPECIFIC (event_cleared ?st)"
    using event_clears(1) by simp
  obtain u t where u: "reaches event_table (internal_apply, ?s) (internal_apply, u)" "frame_on sample_cons [sample_five, sample_five] u"
      "running sample_hidden {200, 203} {210} ?h1 u" "interp.history_register u = interp.history_register ?s"
    and t: "reaches event_table (internal_apply, u) (pop_return, t)" "running sample_hidden {200, 203} {210} (event_consed ?st) t"
      "same_stack (STACK_DROP (2 + length [sample_five, sample_five]) ?s) t" "reg_val t = MAKE_POINTER_OBJECT TC_LIST 1000"
    using interrupt_is_transparent [OF event_running [OF on] event_frame_on(2) event_fixed(1) [OF on] event_sane(1) side(1,2) event_interrupt [OF on] side(3)
        app event_clears(2) event_cons_applied side(4)] by auto
  note f = alike_fields(6,7) [OF runningD(1) [OF t(2)]] and g = alike_fields(6,7) [OF runningD(1) [OF u(3)]]
  have "int_code (memory t) = 0" "int_mask (memory t) = 0x14"
    using f by (simp_all add: event_consed_def push_list_free_def push_free_def write_word_def)
  moreover have "int_code (memory u) = 0" "int_mask (memory u) = 0x14" using g by (simp_all add: event_cleared_def)
  moreover have "stack_pointer t = 5994" using same_stackD [OF t(3)] by simp
  moreover have "STACK_REF u 1 = sample_cons" "STACK_REF u 3 = sample_five"
    using frame_onD(3) [OF u(2)] frame_onD(4) [OF u(2), of 1] by simp_all
  moreover have "interp.history_register u = 203" using u(4) by simp
  moreover have "OBJECT_ADDRESS (READ_DUMMY_HISTORY ?s) = 200" by (rule event_dummy [OF on])
  ultimately show ?thesis using u(1) t(1,4) by blast
qed

text \<open>
  C40. Interrupts: of the pending interrupts the one with the lowest bit is serviced, and the mask its
  handler runs under disables it.
\<close>

theorem interrupt_priority:
  assumes "x \<noteq> 0" "x AND INT_Mask = x" "compute_interrupt_handler_mask m masks (compute_interrupt_number x) = Some w"
  shows "bit x (compute_interrupt_number x) \<and> (\<forall>j. bit x j \<longrightarrow> compute_interrupt_number x \<le> j) \<and> \<not> bit w (compute_interrupt_number x)"
  using interrupt_number_lowest [OF assms(1,2)] handler_masks_itself [OF assms(3)] by (auto simp: not_less [symmetric])

theorem interrupt_priority_witness:
  "bit (0x14 :: ulong) (compute_interrupt_number 0x14) \<and> \<not> bit (3 :: ulong) (compute_interrupt_number 0x14)"
proof -
  have k: "compute_interrupt_number 0x14 = 2" by code_simp
  have "\<not> VECTOR_P SHARP_F" by code_simp
  then have "compute_interrupt_handler_mask sample_machine SHARP_F (compute_interrupt_number 0x14) = Some 3"
    unfolding k by (simp add: compute_interrupt_handler_mask_def Let_def)
  from interrupt_priority [OF _ _ this] show ?thesis by (simp add: INT_Mask_def)
qed

text \<open>
  C4. Errors: when a variable is unbound, unassigned or bound to a macro, the handler of the error is applied with
  all interrupts disabled; when it returns, the variable is evaluated once more, in the
  memory the handler left and under the old mask, and the evaluation has the value of the second try.
\<close>

theorem variable_error_is_retried:
  assumes "running W V R h s" "reg_exp s = e" "reg_env s = env" "stack_guard s + 13 + n1 \<le> stack_pointer s"
    and "OBJECT_TYPE e = TC_VARIABLE" "visible W e 0" "visible W e 1" "performs W (lookup_variable env (VARIABLE_SYMBOL h e)) h (code, x) h0"
    and "code = ERR_UNBOUND_VARIABLE \<or> code = ERR_MACRO_BINDING \<or> code = ERR_UNASSIGNED_VARIABLE \<and> \<not> VARIABLE_SAFE_P h0 e"
      "error_procedure W h0 code procedure" "dummy_in W V h0" "int_mask h0 \<le> INT_Mask" "uint (prev_restore_history_offset s) < 2 ^ 58"
    and "applies tbl W procedure [LONG_TO_FIXNUM (word_of_int code), ULONG_TO_FIXNUM (int_mask h0)] (h0\<lparr>int_mask := 0\<rparr>) n1 r h1" "clears h0 h1"
    and "evaluates tbl W env e (h1\<lparr>int_mask := int_mask h0\<rparr>) n2 v h2" "stack_guard s + n2 \<le> stack_pointer s"
  shows "\<exists>t. reaches tbl (do_expression, s) (pop_return, t) \<and> running W V R h2 t \<and> same_stack s t \<and> reg_val t = v"
  using erroneous_variable_retried [OF assms] unfolding runs_to_def .

theorem variable_error_is_retried_witness:
  "\<exists>t. reaches event_table (do_expression, event_state event_stack 0 5998) (pop_return, t) \<and> reg_val t = sample_five \<and> stack_pointer t = 5998"
proof -
  let ?s = "event_state event_stack 0 5998" and ?h = "event_machine event_stack 0"
  have run: "running sample_hidden {200, 203} {210} ?h ?s" by (rule event_running [OF event_stack_on]) simp_all
  have s: "reg_exp ?s = sample_variable" "reg_env ?s = THE_GLOBAL_ENV" "stack_guard ?s + 13 + 0 \<le> stack_pointer ?s" "OBJECT_TYPE sample_variable = TC_VARIABLE"
    "visible sample_hidden sample_variable 0" "visible sample_hidden sample_variable 1" by (simp_all add: sample_visible)
  have look: "performs sample_hidden (lookup_variable THE_GLOBAL_ENV (VARIABLE_SYMBOL ?h sample_variable)) ?h (ERR_UNBOUND_VARIABLE, None) ?h"
    using event_unbound by simp
  have app: "applies event_table sample_hidden event_bind [LONG_TO_FIXNUM (word_of_int ERR_UNBOUND_VARIABLE), ULONG_TO_FIXNUM (int_mask ?h)]
      (?h\<lparr>int_mask := 0\<rparr>) 0 UNSPECIFIC event_bound" by (rule event_binds) simp
  have side: "uint (prev_restore_history_offset ?s) < 2 ^ 58" "stack_guard ?s + 0 \<le> stack_pointer ?s" by simp_all
  obtain t where "reaches event_table (do_expression, ?s) (pop_return, t)" "same_stack ?s t" "reg_val t = sample_five"
    using variable_error_is_retried [OF run s(1-6) look disjI1 [OF refl] event_errors(1) event_fixed(1) [OF event_stack_on] event_sane(2) side(1)
        app event_bound_clears event_retry side(2)] by blast
  then show ?thesis using same_stackD [of ?s t] by auto
qed

text \<open>
  C38. Errors: \<open>APPLICATION_ERROR\<close> reads the operator of the failed application from the stack after it has pushed a
  continuation: when an object that is not applicable is applied, and the handler of the error
  returns, the interpreter applies false, and not the object, to the operands.
\<close>

theorem inapplicable_operator_is_lost:
  assumes "running W V R h s" "frame_on f args s" "dummy_in W V h" "sane_masks s" "stack_guard s + 15 + n \<le> stack_pointer s"
    and "OBJECT_TYPE f \<notin> set applicable_types" "PENDING_INTERRUPTS h = 0" "error_procedure W h ERR_INAPPLICABLE_OBJECT procedure"
    and "applies tbl W procedure [LONG_TO_FIXNUM (word_of_int ERR_INAPPLICABLE_OBJECT), ULONG_TO_FIXNUM (int_mask h)] (h\<lparr>int_mask := 0\<rparr>) n r h1" "clears h h1"
  shows "\<exists>t. reaches tbl (internal_apply, s) (internal_apply, t) \<and> frame_on SHARP_F args t \<and> stack_pointer t = stack_pointer s
     \<and> running W V R (h1\<lparr>int_mask := int_mask h\<rparr>) t"
  using inapplicable_operator_lost [OF assms] by blast

theorem inapplicable_operator_is_lost_witness:
  "\<exists>t. reaches event_table (internal_apply, event_state (event_frame sample_five) 0 5990) (internal_apply, t)
     \<and> frame_on SHARP_F [sample_five, sample_five] t"
proof -
  let ?st = "event_frame sample_five" and ?s = "event_state (event_frame sample_five) 0 5990"
  note on = event_frame_on(1) [of sample_five]
  have side: "stack_guard ?s + 15 + 0 \<le> stack_pointer ?s" "OBJECT_TYPE sample_five \<notin> set applicable_types" "PENDING_INTERRUPTS (event_machine ?st 0) = 0"
    by (simp_all add: applicable_types_def PENDING_INTERRUPTS_def)
  show ?thesis
    using inapplicable_operator_is_lost [OF event_running [OF on] event_frame_on(2) event_fixed(1) [OF on] event_sane(1) side event_errors(2) [OF on] event_notes]
    by auto
qed

text \<open>
  C3. Continuations: \<open>CALL-WITH-CURRENT-CONTINUATION\<close> leaves the stack empty but for the application of its argument to a control
  point, and changes no word outside the stack and the new control point. As long as the words of the control point are kept, its application to a value, from any stack,
  brings back the stack of the call, under the interrupt mask and the history, and returns the value there.
\<close>

theorem continuation_round_trip:
  assumes "stack_words s = procedure # ws" "catching tbl s" "stack_start s \<le> stack_guard s" "stack_guard s + 5 \<le> stack_pointer s"
    and "room (memory s) (length ws + 9)" "off_stack s (Free (memory s)) (length ws + 9)"
  shows "\<exists>cp t. Prim_catch tbl s = Some (Inl (Abort_To_Interpreter PRIM_APPLY), t) \<and> frame_on procedure [cp] t \<and> stack_pointer t = stack_end s - 5
     \<and> stack_end t = stack_end s \<and> stack_start t = stack_start s \<and> fixed_objects (memory t) = fixed_objects (memory s)
     \<and> (\<forall>a. (a < stack_start s \<or> stack_end s \<le> a) \<and> (a < Free (memory s) \<or> Free (memory s) + (length ws + 9) \<le> a) \<longrightarrow> mem (memory t) a = mem (memory s) a)
     \<and> (\<forall>u v. keeps_words (Free (memory s)) (length ws + 9) t u \<and> frame_on cp [v] u \<and> holds_dummy u
          \<longrightarrow> (\<exists>u'. apply_control_point cp u = Some (Inr pop_return, u') \<and> reg_val u' = v \<and> stack_words u' = catch_words s @ ws))"
proof -
  let ?cp = "MAKE_POINTER_OBJECT TC_CONTROL_POINT (Free (memory s))"
  obtain t where t: "Prim_catch tbl s = Some (Inl (Abort_To_Interpreter PRIM_APPLY), t)" "frame_on procedure [?cp] t"
    "saved_stack (memory t) ?cp (catch_words s @ ws)" "off_stack s (control_point_start ?cp) (length (catch_words s @ ws))"
    "stack_pointer t = stack_end s - 5" "stack_end t = stack_end s" "stack_guard t = stack_guard s" "stack_start t = stack_start s"
    "fixed_objects (memory t) = fixed_objects (memory s)"
    "\<forall>a. (a < stack_start s \<or> stack_end s \<le> a) \<and> (a < Free (memory s) \<or> Free (memory s) + (length ws + 9) \<le> a) \<longrightarrow> mem (memory t) a = mem (memory s) a"
    using catch_saves [OF assms] by blast
  have sp: "stack_guard s + length (catch_words s @ ws) \<le> stack_end s"
    using stack_words_length [of s] assms(1,4) by (simp add: STACK_N_PUSHED_def)
  have addr: "addressable (Free (memory s))" using assms(5) by (auto simp: room_def addressable_def)
  have "\<exists>u'. apply_control_point ?cp u = Some (Inr pop_return, u') \<and> reg_val u' = v \<and> stack_words u' = catch_words s @ ws"
    if u: "keeps_words (Free (memory s)) (length ws + 9) t u" "frame_on ?cp [v] u" "holds_dummy u" for u v
  proof (rule control_point_applied [OF _ _ _ _ u(2,3)])
    show "saved_stack (memory u) ?cp (catch_words s @ ws)" by (rule saved_stack_kept [OF t(3) refl addr]) (use u(1) in \<open>simp add: add.commute\<close>)
  qed (use t u(1) sp assms(3) in \<open>auto simp: keeps_words_def off_stack_def\<close>)
  then show ?thesis using t by blast
qed

theorem continuation_round_trip_witness:
  "\<exists>cp t u. Prim_catch event_table catch_state = Some (Inl (Abort_To_Interpreter PRIM_APPLY), t)
     \<and> apply_control_point cp (STACK_SET 1 cp (STACK_SET 2 SHARP_T t)) = Some (Inr pop_return, u) \<and> reg_val u = SHARP_T
     \<and> stack_words u = catch_words catch_state @ [MAKE_RETURN_CODE RC_END_OF_COMPUTATION, SHARP_T]"
proof -
  let ?s = catch_state and ?ws = "[MAKE_RETURN_CODE RC_END_OF_COMPUTATION, SHARP_T]"
  have f: "stack_start ?s = 5000" "stack_guard ?s = 5010" "stack_end ?s = 6000" "stack_pointer ?s = 5997" "Free (memory ?s) = 1000"
    "fixed_objects (memory ?s) = MAKE_POINTER_OBJECT TC_VECTOR 300" by (simp_all add: catch_state_def)
  have n: "length ?ws + 9 = 11" "(1000 :: nat) + 11 = 1011" by simp_all
  have pre: "stack_start ?s \<le> stack_guard ?s" "stack_guard ?s + 5 \<le> stack_pointer ?s" "room (memory ?s) (length ?ws + 9)"
    "off_stack ?s (Free (memory ?s)) (length ?ws + 9)" using catch_state_ok(3,4) unfolding n by (simp_all add: f)
  obtain cp t where t: "Prim_catch event_table ?s = Some (Inl (Abort_To_Interpreter PRIM_APPLY), t)" "frame_on sample_five [cp] t" "stack_pointer t = 5995"
    "stack_end t = 6000" "stack_start t = 5000" "fixed_objects (memory t) = MAKE_POINTER_OBJECT TC_VECTOR 300"
    "\<forall>a. (a < 5000 \<or> 6000 \<le> a) \<and> (a < 1000 \<or> 1011 \<le> a) \<longrightarrow> mem (memory t) a = mem (memory ?s) a"
    "\<forall>u v. keeps_words 1000 11 t u \<and> frame_on cp [v] u \<and> holds_dummy u
       \<longrightarrow> (\<exists>u'. apply_control_point cp u = Some (Inr pop_return, u') \<and> reg_val u' = v \<and> stack_words u' = catch_words ?s @ ?ws)"
    using continuation_round_trip [OF catch_state_ok(1,2) pre] unfolding f n by (elim exE conjE) simp
  let ?u = "STACK_SET 1 cp (STACK_SET 2 SHARP_T t)"
  have u: "control_part ?u = control_part t" "stack_pointer ?u = 5995" "\<And>a. a < 5995 \<Longrightarrow> mem (memory ?u) a = mem (memory t) a"
    "fixed_objects (memory ?u) = MAKE_POINTER_OBJECT TC_VECTOR 300"
    using t(3,6) by simp_all
  note c = control_partD [OF u(1)]
  have "keeps_words 1000 11 t ?u" unfolding keeps_words_def using c t(3) by auto
  moreover have "frame_on cp [SHARP_T] ?u"
    using t(2) c u(2) by (simp add: frame_on_def APPLY_FRAME_SIZE_def APPLY_FRAME_PROCEDURE_def)
  moreover have "holds_dummy ?u"
  proof -
    have "mem (memory ?u) 320 = mem (memory ?s) 320" using u(3) [of 320] t(7) by simp
    then have "mem (memory ?u) 320 = MAKE_POINTER_OBJECT UNMARKED_HISTORY_TYPE 200"
      using event_mem(1) [of catch_stack 320 0] by (simp add: catch_state_def on_stack_def catch_stack_def event_words_def)
    moreover have "MAKE_POINTER_OBJECT UNMARKED_HISTORY_TYPE 200 \<noteq> SHARP_F" "VECTOR_P (MAKE_POINTER_OBJECT TC_VECTOR 300)" by code_simp+
    ultimately show ?thesis
      using c t(5) unfolding holds_dummy_def u(4) by (simp add: off_stack_def VECTOR_LOC_def VECTOR_REF_def MEMORY_REF_def addressable_small)
  qed
  ultimately show ?thesis using t(1,8) by blast
qed

text \<open>
  C39. Argument lists: \<open>APPLY\<close> returns on every list of arguments; it refuses a circular list as out of range, and puts
  the elements of a proper list on the stack in order, below the procedure. \<open>PRIMITIVE-APPLY-STEP\<close> does not return on a circular list.
\<close>

theorem apply_argument_lists:
  "(\<exists>r t. Prim_apply s = Some (r, t))
   \<and> (circular (memory s) (ARG_REF s 2) \<longrightarrow> Prim_apply s = Some (Inl (Abort_To_Interpreter (prim_error_code (Bad_Range 2))), s))
   \<and> (list_at (memory s) (stack_start s) (ARG_REF s 2) xs \<and> stack_start s \<le> stack_guard s \<and> stack_guard s + length xs + 2 \<le> stack_pointer s
        \<and> stack_pointer s + 2 \<le> stack_end s \<and> length xs + 1 < 2 ^ 58
      \<longrightarrow> (\<exists>t. Prim_apply s = Some (Inl (Abort_To_Interpreter PRIM_APPLY), t) \<and> frame_on (ARG_REF s 1) xs t \<and> stack_pointer t + length xs = stack_pointer s))
   \<and> (circular (memory s) (ARG_REF s 2) \<and> HUNK3_P (ARG_REF s 3) \<and> PRIMITIVE_P (reg_primitive s)
        \<and> RETURN_CODE_P (STACK_REF s (unat (PRIMITIVE_N_ARGUMENTS tbl (reg_primitive s) s)))
      \<longrightarrow> Prim_apply_step tbl s = None)"
  using apply_returns [of s] apply_circular [of s] apply_spreads [of s xs] apply_step_circular [of s tbl] by blast

theorem apply_argument_lists_witness:
  "Prim_apply circle_state = Some (Inl (Abort_To_Interpreter (prim_error_code (Bad_Range 2))), circle_state) \<and> Prim_apply_step event_table circle_state = None"
  using apply_argument_lists [of circle_state "[]" event_table] circle_circular by simp

end
